(* ===== verification/Prelude.thy ===== *)
theory Prelude
  imports Main "HOL-Library.Word" "HOL-Library.Multiset"
begin

text \<open>
  What every component of the development shares: the widths of the machine integers, the
  outcome of a C function that may stop the machine, checked reads and writes of arrays,
  and the collections of facts the component proofs are run with.

  A C function is a HOL function into \<open>'a outcome\<close>.  \<open>Ok\<close> is a return.  \<open>Panic\<close> is the
  halt reached through \<open>lai_panic\<close>, \<open>LAI_ENSURE\<close> or the kernel's \<open>panic\<close>, which do not
  return.  \<open>Fault\<close> is behaviour the C standard leaves undefined: a read or write outside an
  object, a null or dangling pointer, a division by zero, a read of memory that was never
  written.  \<open>Stuck\<close> is a loop whose fuel is used up; the theorems show where that cannot
  happen.
\<close>

unbundle bit_operations_syntax

type_synonym u8 = "8 word"
type_synonym u16 = "16 word"
type_synonym u32 = "32 word"
type_synonym u64 = "64 word"

named_theorems lai_defs \<open>definitions unfolded by the symbolic execution of a routine\<close>
named_theorems lai_outcome \<open>how outcomes compose\<close>

subsection \<open>Outcomes\<close>

datatype 'a outcome = Ok 'a | Panic | Fault | Stuck

primrec bnd :: "'a outcome \<Rightarrow> ('a \<Rightarrow> 'b outcome) \<Rightarrow> 'b outcome" where
  "bnd (Ok x) f = f x"
| "bnd Panic f = Panic"
| "bnd Fault f = Fault"
| "bnd Stuck f = Stuck"

definition ensure :: "bool \<Rightarrow> 'a outcome \<Rightarrow> 'a outcome" where
  "ensure p r = (if p then r else Panic)"

definition guard :: "bool \<Rightarrow> 'a outcome \<Rightarrow> 'a outcome" where
  "guard p r = (if p then r else Fault)"

lemma ensure_True [simp, lai_outcome]: "ensure True r = r"
  by (simp add: ensure_def)

lemma ensure_False [simp, lai_outcome]: "ensure False r = Panic"
  by (simp add: ensure_def)

lemma guard_True [simp, lai_outcome]: "guard True r = r"
  by (simp add: guard_def)

lemma guard_False [simp, lai_outcome]: "guard False r = Fault"
  by (simp add: guard_def)

lemma bnd_eq_Ok [lai_outcome]: "bnd m f = Ok y \<longleftrightarrow> (\<exists>x. m = Ok x \<and> f x = Ok y)"
  by (cases m) auto

lemma bnd_OkE:
  assumes "bnd m f = Ok y"
  obtains x where "m = Ok x" and "f x = Ok y"
  using assms by (cases m) auto

lemma ensure_eq_Ok [lai_outcome]: "ensure p r = Ok y \<longleftrightarrow> p \<and> r = Ok y"
  by (simp add: ensure_def)

lemma guard_eq_Ok [lai_outcome]: "guard p r = Ok y \<longleftrightarrow> p \<and> r = Ok y"
  by (simp add: guard_def)

lemma bnd_assoc: "bnd (bnd m f) g = bnd m (\<lambda>x. bnd (f x) g)"
  by (cases m) auto

lemma bnd_Ok_right [simp]: "bnd m Ok = m"
  by (cases m) auto

lemma bnd_cong [fundef_cong]:
  "m = m' \<Longrightarrow> (\<And>x. m' = Ok x \<Longrightarrow> f x = g x) \<Longrightarrow> bnd m f = bnd m' g"
  by (cases m') auto

lemma ensure_cong [fundef_cong]:
  "p = p' \<Longrightarrow> (p' \<Longrightarrow> r = r') \<Longrightarrow> ensure p r = ensure p' r'"
  by (simp add: ensure_def)

lemma guard_cong [fundef_cong]:
  "p = p' \<Longrightarrow> (p' \<Longrightarrow> r = r') \<Longrightarrow> guard p r = guard p' r'"
  by (simp add: guard_def)

subsection \<open>Arrays\<close>

text \<open>An array access is in range or it is a fault.\<close>

definition rd :: "'a list \<Rightarrow> nat \<Rightarrow> 'a outcome" where
  "rd xs i = (if i < length xs then Ok (xs ! i) else Fault)"

definition wr :: "'a list \<Rightarrow> nat \<Rightarrow> 'a \<Rightarrow> 'a list outcome" where
  "wr xs i x = (if i < length xs then Ok (xs[i := x]) else Fault)"

lemma rd_Ok [simp]: "i < length xs \<Longrightarrow> rd xs i = Ok (xs ! i)"
  by (simp add: rd_def)

lemma wr_Ok [simp]: "i < length xs \<Longrightarrow> wr xs i x = Ok (xs[i := x])"
  by (simp add: wr_def)

lemma rd_eq_Ok [lai_outcome]: "rd xs i = Ok x \<longleftrightarrow> i < length xs \<and> x = xs ! i"
  by (auto simp: rd_def)

lemma wr_eq_Ok [lai_outcome]: "wr xs i x = Ok ys \<longleftrightarrow> i < length xs \<and> ys = xs[i := x]"
  by (auto simp: wr_def)

lemma rd_eq_Fault [simp]: "rd xs i = Fault \<longleftrightarrow> length xs \<le> i"
  by (auto simp: rd_def)

lemma rd_not_Panic [simp]: "rd xs i \<noteq> Panic" "rd xs i \<noteq> Stuck"
  by (auto simp: rd_def)

lemma wr_not_Panic [simp]: "wr xs i x \<noteq> Panic" "wr xs i x \<noteq> Stuck"
  by (auto simp: wr_def)

text \<open>A block of bytes written at an offset (\<open>memcpy\<close> into the middle of an object).\<close>

definition put_block :: "'a list \<Rightarrow> nat \<Rightarrow> 'a list \<Rightarrow> 'a list outcome" where
  "put_block mem off bs =
     (if off + length bs \<le> length mem
      then Ok (take off mem @ bs @ drop (off + length bs) mem) else Fault)"

definition get_block :: "'a list \<Rightarrow> nat \<Rightarrow> nat \<Rightarrow> 'a list outcome" where
  "get_block mem off n = (if off + n \<le> length mem then Ok (take n (drop off mem)) else Fault)"

lemma put_block_eq_Ok [lai_outcome]:
  "put_block mem off bs = Ok mem' \<longleftrightarrow>
     off + length bs \<le> length mem \<and> mem' = take off mem @ bs @ drop (off + length bs) mem"
  by (auto simp: put_block_def)

lemma get_block_eq_Ok [lai_outcome]:
  "get_block mem off n = Ok bs \<longleftrightarrow> off + n \<le> length mem \<and> bs = take n (drop off mem)"
  by (auto simp: get_block_def)

lemma put_block_length: "put_block mem off bs = Ok mem' \<Longrightarrow> length mem' = length mem"
  by (auto simp: put_block_eq_Ok)

lemma put_block_get_block:
  "put_block mem off bs = Ok mem' \<Longrightarrow> get_block mem' off (length bs) = Ok bs"
  by (auto simp: put_block_eq_Ok get_block_def)

subsection \<open>Lists and multisets\<close>

lemma mset_list_update:
  "i < length xs \<Longrightarrow> mset (xs[i := x]) = add_mset x (mset xs - {#xs ! i#})"
  by (simp add: mset_update)

lemma sum_list_update_int:
  fixes f :: "'a \<Rightarrow> int"
  assumes "i < length xs"
  shows "sum_list (map f (xs[i := x])) = sum_list (map f xs) - f (xs ! i) + f x"
  using assms
proof (induction xs arbitrary: i)
  case (Cons y ys)
  then show ?case by (cases i) auto
qed simp

lemma sum_list_update_add:
  fixes f :: "'a \<Rightarrow> 'b::comm_monoid_add"
  assumes "i < length xs"
  shows "sum_list (map f (xs[i := y])) + f (xs ! i) = sum_list (map f xs) + f y"
  using assms
proof (induction xs arbitrary: i)
  case (Cons x xs)
  show ?case
  proof (cases i)
    case (Suc j)
    with Cons have "sum_list (map f (xs[j := y])) + f (xs ! j) = sum_list (map f xs) + f y" by simp
    with Suc show ?thesis by (simp add: add.assoc)
  qed (simp add: ac_simps)
qed simp

lemma mset_rotate_list: "mset (rotate n xs) = mset xs"
proof -
  have "mset (rotate n xs) = mset (drop (n mod length xs) xs @ take (n mod length xs) xs)"
    by (simp only: rotate_drop_take)
  also have "\<dots> = mset (take (n mod length xs) xs @ drop (n mod length xs) xs)"
    by (simp only: mset_append union_commute)
  also have "\<dots> = mset xs" by (simp only: append_take_drop_id)
  finally show ?thesis .
qed

lemma filter_upt_card: "length (filter P [0..<n]) = card {i. i < n \<and> P i}"
proof -
  have "length (filter P [0..<n]) = card (set (filter P [0..<n]))"
    by (rule distinct_card [symmetric]) simp
  also have "set (filter P [0..<n]) = {i. i < n \<and> P i}" by auto
  finally show ?thesis .
qed

subsection \<open>Words\<close>

lemma and_mask_nat: "unat (w AND (2 ^ k - 1 :: 'a::len word)) = unat w mod 2 ^ k"
proof -
  have "w AND (2 ^ k - 1) = take_bit k w"
    by (simp add: take_bit_eq_mask mask_eq_exp_minus_1)
  then have "unat (w AND (2 ^ k - 1)) = take_bit k (unat w)"
    by (simp only: unsigned_take_bit_eq)
  then show ?thesis by (simp add: take_bit_eq_mod)
qed

end
