(* ===== verification/Lai_Hash.thy ===== *)
theory Lai_Hash
  imports Prelude
begin

text \<open>
  The open hash table of \<open>lai/core/util-hash.h\<close> (\<open>struct lai_hashtable\<close> of
  \<open>lai/include/lai/internal-util.h\<close>), which holds the children of a namespace node.
  Elements sit in \<open>elem_ptr_tab\<close>/\<open>elem_hash_tab\<close> at a slot that never moves; \<open>bucket_tab\<close>
  maps \<open>hash + i\<close>, for a probe number \<open>i\<close>, to a slot number, or is \<open>-1\<close>.  A lookup is
  a chain: a cursor \<open>i\<close> that starts at \<open>-1\<close> and is advanced over all buckets.

  \<open>ht_inv\<close> is the representation invariant and \<open>ht_bag\<close> the abstraction, the multiset of
  (hash, element) pairs.  The theory shows that an insertion neither panics nor faults
  (given memory), keeps the invariant and adds one pair; that a chain visits exactly the
  elements of its hash; and that a removal at the cursor deletes the pair under it.  The
  locale \<open>child_table\<close> states this contract for the namespace.

  \<open>int\<close> hashes are 32-bit words and \<open>h + i\<close> wraps; slots of \<open>elem_hash_tab\<close> that were
  never written hold \<open>None\<close>, and reading one is a fault.
\<close>

record 'e lai_hashtable =
  elem_capacity :: nat
  bucket_capacity :: nat
  num_elems :: int
  elem_ptr_tab :: "'e option list"
  elem_hash_tab :: "u32 option list"
  bucket_tab :: "int list"

definition empty_hashtable :: "'e lai_hashtable" where
  "empty_hashtable = \<lparr>elem_capacity = 0, bucket_capacity = 0, num_elems = 0,
     elem_ptr_tab = [], elem_hash_tab = [], bucket_tab = []\<rparr>"

subsection \<open>Operations\<close>

text \<open>\<open>(h + i) & (bucket_capacity - 1)\<close>.\<close>

definition bucket_index :: "u32 \<Rightarrow> nat \<Rightarrow> nat \<Rightarrow> nat" where
  "bucket_index h i m = unat ((h + of_nat i) AND (of_nat m - 1))"

text \<open>The probing loop that \<open>lai_hashtable_grow\<close> and \<open>lai_hashtable_insert\<close> share.\<close>

function bucket_place :: "u32 \<Rightarrow> nat \<Rightarrow> nat \<Rightarrow> int list \<Rightarrow> nat \<Rightarrow> int list outcome" where
  "bucket_place h k m bt i =
     ensure (i < m)
       (bnd (rd bt (bucket_index h i m)) (\<lambda>v.
          if v < 0 then wr bt (bucket_index h i m) (int k)
          else bucket_place h k m bt (Suc i)))"
  by pat_completeness auto
termination
  by (relation "measure (\<lambda>(h, k, m, bt, i). m - i)") auto

declare bucket_place.simps [simp del]

fun grow_elems :: "'e lai_hashtable \<Rightarrow> nat \<Rightarrow> nat list \<Rightarrow>
    'e option list \<times> u32 option list \<times> int list \<Rightarrow>
    ('e option list \<times> u32 option list \<times> int list) outcome" where
  "grow_elems ht m [] tabs = Ok tabs"
| "grow_elems ht m (k # ks) (npt, nht, nbt) =
     bnd (rd (elem_ptr_tab ht) k) (\<lambda>p.
       case p of
         None \<Rightarrow> grow_elems ht m ks (npt, nht, nbt)
       | Some e \<Rightarrow>
           bnd (wr npt k (Some e)) (\<lambda>npt'.
           bnd (rd (elem_hash_tab ht) k) (\<lambda>hv.
           case hv of
             None \<Rightarrow> Fault
           | Some h \<Rightarrow>
               bnd (wr nht k (Some h)) (\<lambda>nht'.
               bnd (bucket_place h k m nbt 0) (\<lambda>nbt'.
               grow_elems ht m ks (npt', nht', nbt'))))))"

text \<open>\<open>mem\<close> says whether the host's allocator serves a request of that many bytes.\<close>

definition lai_hashtable_grow :: "(nat \<Rightarrow> bool) \<Rightarrow> 'e lai_hashtable \<Rightarrow> nat \<Rightarrow> nat \<Rightarrow>
    'e lai_hashtable outcome" where
  "lai_hashtable_grow mem ht n m =
     ensure (elem_capacity ht \<le> n) (
     ensure (bucket_capacity ht \<le> m) (
     ensure (mem (n * 8) \<and> mem (n * 4) \<and> mem (m * 4)) (
     bnd (grow_elems ht m [0..<elem_capacity ht]
            (replicate n None, replicate n None, replicate m (-1))) (\<lambda>(npt, nht, nbt).
     Ok (ht\<lparr>elem_ptr_tab := npt, elem_hash_tab := nht, bucket_tab := nbt,
            elem_capacity := n, bucket_capacity := m\<rparr>)))))"

fun find_free :: "'e option list \<Rightarrow> nat list \<Rightarrow> nat \<Rightarrow> nat outcome" where
  "find_free pt [] cap = Ok cap"
| "find_free pt (k # ks) cap =
     bnd (rd pt k) (\<lambda>p. if p = None then Ok k else find_free pt ks cap)"

definition lai_hashtable_insert :: "(nat \<Rightarrow> bool) \<Rightarrow> 'e lai_hashtable \<Rightarrow> u32 \<Rightarrow> 'e option \<Rightarrow>
    'e lai_hashtable outcome" where
  "lai_hashtable_insert mem ht0 h elem =
     ensure (elem \<noteq> None) (
     bnd (if elem_capacity ht0 = 0 \<or> bucket_capacity ht0 = 0
          then lai_hashtable_grow mem ht0 2 4
          else if num_elems ht0 + 1 \<ge> int (elem_capacity ht0)
          then lai_hashtable_grow mem ht0 (2 * elem_capacity ht0) (2 * bucket_capacity ht0)
          else Ok ht0) (\<lambda>ht.
     bnd (find_free (elem_ptr_tab ht) [0..<elem_capacity ht] (elem_capacity ht)) (\<lambda>k.
     ensure (k < elem_capacity ht) (
     bnd (wr (elem_ptr_tab ht) k elem) (\<lambda>pt.
     bnd (wr (elem_hash_tab ht) k (Some h)) (\<lambda>hs.
     bnd (bucket_place h k (bucket_capacity ht) (bucket_tab ht) 0) (\<lambda>bt.
     Ok (ht\<lparr>elem_ptr_tab := pt, elem_hash_tab := hs, num_elems := num_elems ht + 1,
            bucket_tab := bt\<rparr>))))))))"

text \<open>
  \<open>lai_hashtable_chain_advance\<close>: the cursor after the call and whether the chain goes on
  (the C function returns 0 then and 1 at the end).  The loop body is \<open>chain_scan\<close>, entered
  with the incremented cursor; \<open>LAI_ENSURE(chain->i >= 0)\<close> holds as the cursor is a \<open>nat\<close>.
\<close>

function chain_scan :: "'e lai_hashtable \<Rightarrow> u32 \<Rightarrow> nat \<Rightarrow> (bool \<times> nat) outcome" where
  "chain_scan ht h i =
     (if i = bucket_capacity ht then Ok (False, i)
      else if i > bucket_capacity ht then Fault
      else
        bnd (rd (bucket_tab ht) (bucket_index h i (bucket_capacity ht))) (\<lambda>k.
        bnd (if k \<ge> 0
             then bnd (rd (elem_hash_tab ht) (nat k)) (\<lambda>hv.
                    case hv of None \<Rightarrow> Fault | Some h' \<Rightarrow> Ok (h' = h))
             else Ok False) (\<lambda>hit.
        if hit then Ok (True, i) else chain_scan ht h (Suc i))))"
  by pat_completeness auto
termination
  by (relation "measure (\<lambda>(ht, h, i). Suc (bucket_capacity ht) - i)") auto

declare chain_scan.simps [simp del]

definition lai_hashtable_chain_advance ::
    "'e lai_hashtable \<Rightarrow> u32 \<Rightarrow> int \<Rightarrow> (bool \<times> int) outcome" where
  "lai_hashtable_chain_advance ht h i =
     ensure (i < int (bucket_capacity ht)) (
     ensure (0 \<le> i + 1) (
     bnd (chain_scan ht h (nat (i + 1))) (\<lambda>(more, j). Ok (more, int j))))"

definition lai_hashtable_chain_get :: "'e lai_hashtable \<Rightarrow> u32 \<Rightarrow> int \<Rightarrow> 'e outcome" where
  "lai_hashtable_chain_get ht h i =
     ensure (0 \<le> i) (
     ensure (i < int (bucket_capacity ht)) (
     bnd (rd (bucket_tab ht) (bucket_index h (nat i) (bucket_capacity ht))) (\<lambda>k.
     ensure (0 \<le> k) (
     bnd (rd (elem_ptr_tab ht) (nat k)) (\<lambda>e.
     case e of None \<Rightarrow> Panic | Some x \<Rightarrow> Ok x)))))"

definition lai_hashtable_chain_remove ::
    "'e lai_hashtable \<Rightarrow> u32 \<Rightarrow> int \<Rightarrow> 'e lai_hashtable outcome" where
  "lai_hashtable_chain_remove ht h i =
     ensure (0 \<le> i) (
     ensure (i < int (bucket_capacity ht)) (
     bnd (rd (bucket_tab ht) (bucket_index h (nat i) (bucket_capacity ht))) (\<lambda>k.
     ensure (0 \<le> k) (
     bnd (wr (elem_ptr_tab ht) (nat k) None) (\<lambda>pt.
     bnd (wr (bucket_tab ht) (bucket_index h (nat i) (bucket_capacity ht)) (-1)) (\<lambda>bt.
     Ok (ht\<lparr>elem_ptr_tab := pt, bucket_tab := bt, num_elems := num_elems ht - 1\<rparr>)))))))"

subsection \<open>Invariant and abstraction\<close>

definition used :: "'e option list \<Rightarrow> nat list" where
  "used pt = filter (\<lambda>k. pt ! k \<noteq> None) [0..<length pt]"

definition ht_inv :: "'e lai_hashtable \<Rightarrow> bool" where
  "ht_inv ht \<longleftrightarrow>
     length (elem_ptr_tab ht) = elem_capacity ht \<and>
     length (elem_hash_tab ht) = elem_capacity ht \<and>
     length (bucket_tab ht) = bucket_capacity ht \<and>
     bucket_capacity ht = 2 * elem_capacity ht \<and>
     (elem_capacity ht = 0 \<or> (\<exists>b. bucket_capacity ht = 2 ^ b \<and> b < 32)) \<and>
     (\<forall>k \<in> set (used (elem_ptr_tab ht)). elem_hash_tab ht ! k \<noteq> None) \<and>
     filter_mset (\<lambda>v. 0 \<le> v) (mset (bucket_tab ht)) = mset (map int (used (elem_ptr_tab ht))) \<and>
     num_elems ht = int (length (used (elem_ptr_tab ht))) \<and>
     (elem_capacity ht = 0 \<or> num_elems ht < int (elem_capacity ht))"

definition entry_at :: "'e lai_hashtable \<Rightarrow> nat \<Rightarrow> u32 \<times> 'e" where
  "entry_at ht k = (the (elem_hash_tab ht ! k), the (elem_ptr_tab ht ! k))"

definition ht_bag :: "'e lai_hashtable \<Rightarrow> (u32 \<times> 'e) multiset" where
  "ht_bag ht = mset (map (entry_at ht) (used (elem_ptr_tab ht)))"

lemma ht_invD:
  assumes "ht_inv ht"
  shows "length (elem_ptr_tab ht) = elem_capacity ht"
    and "length (elem_hash_tab ht) = elem_capacity ht"
    and "length (bucket_tab ht) = bucket_capacity ht"
    and "bucket_capacity ht = 2 * elem_capacity ht"
    and "filter_mset (\<lambda>v. 0 \<le> v) (mset (bucket_tab ht)) = mset (map int (used (elem_ptr_tab ht)))"
    and "num_elems ht = int (length (used (elem_ptr_tab ht)))"
    and "\<forall>k \<in> set (used (elem_ptr_tab ht)). elem_hash_tab ht ! k \<noteq> None"
  using assms unfolding ht_inv_def by blast+

lemma ht_inv_pow:
  assumes "ht_inv ht" and "0 < elem_capacity ht"
  obtains b where "bucket_capacity ht = 2 ^ b" and "b < 32"
proof -
  have "elem_capacity ht = 0 \<or> (\<exists>b. bucket_capacity ht = 2 ^ b \<and> b < 32)"
    using assms(1) unfolding ht_inv_def by (elim conjE)
  with assms(2) that show thesis by auto
qed

lemma ht_invI:
  assumes "length (elem_ptr_tab ht) = elem_capacity ht"
    and "length (elem_hash_tab ht) = elem_capacity ht"
    and "length (bucket_tab ht) = bucket_capacity ht"
    and "bucket_capacity ht = 2 * elem_capacity ht"
    and "elem_capacity ht = 0 \<or> (\<exists>b. bucket_capacity ht = 2 ^ b \<and> b < 32)"
    and "\<forall>k \<in> set (used (elem_ptr_tab ht)). elem_hash_tab ht ! k \<noteq> None"
    and "filter_mset (\<lambda>v. 0 \<le> v) (mset (bucket_tab ht)) = mset (map int (used (elem_ptr_tab ht)))"
    and "num_elems ht = int (length (used (elem_ptr_tab ht)))"
    and "elem_capacity ht = 0 \<or> num_elems ht < int (elem_capacity ht)"
  shows "ht_inv ht"
  unfolding ht_inv_def using assms by blast

subsection \<open>Bucket arithmetic\<close>

lemma bucket_index_mod:
  assumes "m = 2 ^ b" and "b < 32"
  shows "bucket_index h i m = (unat h + i) mod m"
proof -
  have m: "(of_nat m :: u32) - 1 = 2 ^ b - 1" by (simp add: assms(1))
  have "bucket_index h i m = unat (h + of_nat i) mod 2 ^ b"
    unfolding bucket_index_def m by (rule and_mask_nat)
  also have "unat (h + of_nat i) = (unat h + i) mod 2 ^ 32"
    by (simp add: unat_word_ariths unsigned_of_nat take_bit_eq_mod mod_add_right_eq)
  also have "(unat h + i) mod 2 ^ 32 mod 2 ^ b = (unat h + i) mod (2 ^ b :: nat)"
    by (rule mod_mod_cancel) (rule le_imp_power_dvd, use assms(2) in simp)
  finally show ?thesis by (simp add: assms(1))
qed

lemma bucket_index_less: "m = 2 ^ b \<Longrightarrow> b < 32 \<Longrightarrow> bucket_index h i m < m"
  by (simp add: bucket_index_mod)

lemma probe_rotate:
  assumes "m = 2 ^ b" and "b < 32" and "length bt = m"
  shows "map (\<lambda>i. bt ! bucket_index h i m) [0..<m] = rotate (unat h) bt"
proof (rule nth_equalityI)
  fix i assume "i < length (map (\<lambda>i. bt ! bucket_index h i m) [0..<m])"
  with assms show "map (\<lambda>i. bt ! bucket_index h i m) [0..<m] ! i = rotate (unat h) bt ! i"
    by (simp add: nth_rotate bucket_index_mod add.commute)
qed (simp add: assms)

lemma probe_mset:
  assumes "m = 2 ^ b" and "b < 32" and "length bt = m"
  shows "mset (map (\<lambda>i. bt ! bucket_index h i m) [0..<m]) = mset bt"
  using probe_rotate [OF assms] by (simp add: mset_rotate_list)

lemma probe_reaches:
  assumes "m = 2 ^ b" and "b < 32" and "length bt = m" and "v \<in> set bt"
  shows "\<exists>i < m. bt ! bucket_index h i m = v"
proof -
  have "v \<in># mset (map (\<lambda>i. bt ! bucket_index h i m) [0..<m])"
    using assms(4) by (simp only: probe_mset [OF assms(1-3)] set_mset_mset)
  then show ?thesis by auto
qed

lemma bucket_place_Ok:
  assumes "m = 2 ^ b" and "b < 32" and "length bt = m"
    and "i \<le> j" and "j < m" and "bt ! bucket_index h j m < 0"
  shows "\<exists>p < m. bt ! p < 0 \<and> bucket_place h k m bt i = Ok (bt[p := int k])"
  using assms
proof (induction h k m bt i rule: bucket_place.induct)
  case (1 h k m bt i)
  have lt: "bucket_index h i m < m" by (rule bucket_index_less [OF "1.prems"(1,2)])
  show ?case
  proof (cases "bt ! bucket_index h i m < 0")
    case True
    with lt "1.prems"(3-5)
    have "bucket_place h k m bt i = Ok (bt[bucket_index h i m := int k])"
      by (simp add: bucket_place.simps [of h k m bt i])
    with True lt show ?thesis by blast
  next
    case False
    with "1.prems" have "i \<noteq> j" by auto
    with "1.prems" False lt
    have "\<exists>p<m. bt ! p < 0 \<and> bucket_place h k m bt (Suc i) = Ok (bt[p := int k])"
      by (intro "1.IH") auto
    moreover have "bucket_place h k m bt i = bucket_place h k m bt (Suc i)"
      using False lt "1.prems"(3-5) by (simp add: bucket_place.simps [of h k m bt i])
    ultimately show ?thesis by simp
  qed
qed

lemma bucket_room:
  assumes "filter_mset (\<lambda>v. 0 \<le> v) (mset bt) = mset (map int us)" and "length us < length bt"
  shows "\<exists>v \<in> set bt. v < (0::int)"
proof (rule ccontr)
  assume "\<not> ?thesis"
  then have "filter_mset (\<lambda>v. 0 \<le> v) (mset bt) = mset bt"
    by (auto simp: filter_mset_eq_conv)
  with assms(1) have "size (mset bt) = length us" by simp
  with assms(2) show False by simp
qed

lemma bucket_place_free:
  assumes "m = 2 ^ b" and "b < 32" and "length bt = m"
    and "filter_mset (\<lambda>v. 0 \<le> v) (mset bt) = mset (map int us)" and "length us < m"
  shows "\<exists>bt'. bucket_place h k m bt 0 = Ok bt' \<and> length bt' = m \<and>
           filter_mset (\<lambda>v. 0 \<le> v) (mset bt') = mset (map int (k # us))"
proof -
  obtain v where "v \<in> set bt" "v < 0"
    using bucket_room [OF assms(4)] assms(3,5) by auto
  then obtain j where "j < m" "bt ! bucket_index h j m < 0"
    using probe_reaches [OF assms(1-3), of v h] by auto
  then obtain p where p: "p < m" "bt ! p < 0" "bucket_place h k m bt 0 = Ok (bt[p := int k])"
    using bucket_place_Ok [OF assms(1-3), of 0 j] by auto
  have "filter_mset (\<lambda>v. 0 \<le> v) (mset (bt[p := int k]))
      = add_mset (int k) (filter_mset (\<lambda>v. 0 \<le> v) (mset bt))"
    using p assms(3) by (simp add: mset_update filter_mset_add_mset)
  with p assms(3,4) show ?thesis by auto
qed

subsection \<open>Slots\<close>

lemma mset_used: "mset (used pt) = mset_set {k. k < length pt \<and> pt ! k \<noteq> None}"
proof -
  have "mset (used pt) = filter_mset (\<lambda>k. pt ! k \<noteq> None) (mset_set {0..<length pt})"
    by (simp add: used_def mset_upt)
  also have "\<dots> = mset_set {k. k < length pt \<and> pt ! k \<noteq> None}"
    by (simp add: filter_mset_mset_set conj_commute)
  finally show ?thesis .
qed

lemma set_used [simp]: "k \<in> set (used pt) \<longleftrightarrow> k < length pt \<and> pt ! k \<noteq> None"
  by (auto simp: used_def)

lemma distinct_used [simp]: "distinct (used pt)"
  by (simp add: used_def)

lemma mset_used_insert:
  assumes "k < length pt" and "pt ! k = None"
  shows "mset (used (pt[k := Some e])) = add_mset k (mset (used pt))"
proof -
  have "{j. j < length pt \<and> pt[k := Some e] ! j \<noteq> None}
      = insert k {j. j < length pt \<and> pt ! j \<noteq> None}"
    using assms(1) by (auto simp: nth_list_update)
  with assms show ?thesis by (simp add: mset_used)
qed

lemma mset_used_remove:
  assumes "k < length pt" and "pt ! k \<noteq> None"
  shows "mset (used pt) = add_mset k (mset (used (pt[k := None])))"
proof -
  have "{j. j < length pt \<and> pt ! j \<noteq> None}
      = insert k {j. j < length pt \<and> pt[k := None] ! j \<noteq> None}"
    using assms by (auto simp: nth_list_update)
  with assms(1) show ?thesis by (simp add: mset_used)
qed

lemma length_used: "length (used pt) = size (mset (used pt))"
  by simp

lemma find_free_Ok:
  assumes "\<exists>k \<in> set ks. pt ! k = None" and "\<forall>k \<in> set ks. k < length pt"
  shows "\<exists>k. find_free pt ks cap = Ok k \<and> k \<in> set ks \<and> pt ! k = None"
  using assms by (induction ks) auto

lemma find_free_slot:
  assumes "length (used pt) < length pt"
  shows "\<exists>k. find_free pt [0..<length pt] cap = Ok k \<and> k < length pt \<and> pt ! k = None"
proof -
  have "\<exists>k < length pt. pt ! k = None"
  proof (rule ccontr)
    assume "\<not> ?thesis"
    then have "used pt = [0..<length pt]" by (auto simp: used_def intro: filter_True)
    with assms show False by simp
  qed
  then have "\<exists>k \<in> set [0..<length pt]. pt ! k = None" by auto
  from find_free_Ok [OF this, of cap] show ?thesis by auto
qed

subsection \<open>Growing the table\<close>

definition grown :: "'e lai_hashtable \<Rightarrow> nat \<Rightarrow> nat \<Rightarrow> nat \<Rightarrow>
    'e option list \<times> u32 option list \<times> int list \<Rightarrow> bool" where
  "grown ht n m j tabs = (case tabs of (npt, nht, nbt) \<Rightarrow>
     length npt = n \<and> length nht = n \<and> length nbt = m \<and>
     (\<forall>k < n. npt ! k = (if k < j then elem_ptr_tab ht ! k else None)) \<and>
     (\<forall>k < j. elem_ptr_tab ht ! k \<noteq> None \<longrightarrow> nht ! k = elem_hash_tab ht ! k) \<and>
     filter_mset (\<lambda>v. 0 \<le> v) (mset nbt) =
       mset (map int (filter (\<lambda>k. elem_ptr_tab ht ! k \<noteq> None) [0..<j])))"

lemma grown_skip:
  "grown ht n m j tabs \<Longrightarrow> elem_ptr_tab ht ! j = None \<Longrightarrow> grown ht n m (Suc j) tabs"
  by (auto simp: grown_def less_Suc_eq)

lemma grown_step:
  assumes "grown ht n m j (npt, nht, nbt)" and "j < n" and "elem_ptr_tab ht ! j = Some e"
    and "elem_hash_tab ht ! j = Some h" and "m = 2 ^ b" and "b < 32" and "n \<le> m"
  shows "\<exists>nbt'. bucket_place h j m nbt 0 = Ok nbt' \<and>
           grown ht n m (Suc j) (npt[j := Some e], nht[j := Some h], nbt')"
proof -
  let ?us = "filter (\<lambda>k. elem_ptr_tab ht ! k \<noteq> None) [0..<j]"
  have "length ?us \<le> j" by (rule order_trans [OF length_filter_le]) simp
  then have "length ?us < m" using assms(2,7) by linarith
  then obtain nbt' where "bucket_place h j m nbt 0 = Ok nbt'" "length nbt' = m"
    "filter_mset (\<lambda>v. 0 \<le> v) (mset nbt') = mset (map int (j # ?us))"
    using bucket_place_free [OF assms(5,6), of nbt ?us h j] assms(1)
    by (auto simp: grown_def)
  then show ?thesis using assms(1-4)
    by (auto simp: grown_def nth_list_update less_Suc_eq)
qed

lemma grow_elems_Ok:
  assumes "j \<le> c" and "c \<le> n" and "m = 2 ^ b" and "b < 32" and "n \<le> m"
    and "length (elem_ptr_tab ht) = c" and "length (elem_hash_tab ht) = c"
    and "\<forall>k < c. elem_ptr_tab ht ! k \<noteq> None \<longrightarrow> elem_hash_tab ht ! k \<noteq> None"
    and "grown ht n m j tabs"
  shows "\<exists>tabs'. grow_elems ht m [j..<c] tabs = Ok tabs' \<and> grown ht n m c tabs'"
  using assms
proof (induction "c - j" arbitrary: j tabs)
  case 0
  then show ?case by simp
next
  case (Suc d)
  obtain npt nht nbt where tabs: "tabs = (npt, nht, nbt)" by (cases tabs)
  have j: "j < c" using Suc.hyps(2) by simp
  then have upt: "[j..<c] = j # [Suc j..<c]" by (simp add: upt_conv_Cons)
  show ?case
  proof (cases "elem_ptr_tab ht ! j")
    case None
    have "\<exists>tabs'. grow_elems ht m [Suc j..<c] tabs = Ok tabs' \<and> grown ht n m c tabs'"
      using Suc.prems Suc.hyps(2) j None by (intro Suc.hyps(1)) (auto intro: grown_skip)
    with None j Suc.prems(6) show ?thesis by (simp add: upt tabs)
  next
    case (Some e)
    then obtain h where h: "elem_hash_tab ht ! j = Some h" using Suc.prems(8) j by auto
    have "grown ht n m j (npt, nht, nbt)" using Suc.prems(9) by (simp add: tabs)
    from grown_step [OF this _ Some h Suc.prems(3,4,5)] j Suc.prems(2)
    obtain nbt' where nbt': "bucket_place h j m nbt 0 = Ok nbt'"
      and g: "grown ht n m (Suc j) (npt[j := Some e], nht[j := Some h], nbt')" by auto
    have "\<exists>tabs'. grow_elems ht m [Suc j..<c] (npt[j := Some e], nht[j := Some h], nbt')
        = Ok tabs' \<and> grown ht n m c tabs'"
      using Suc.prems Suc.hyps(2) j g by (intro Suc.hyps(1)) auto
    moreover have "j < length npt" "j < length nht"
      using Suc.prems(2,9) j by (auto simp: tabs grown_def)
    ultimately show ?thesis using Some h nbt' j Suc.prems(6,7) by (simp add: upt tabs)
  qed
qed

lemma used_cong:
  assumes "length pt \<le> length pt'"
    and "\<forall>k < length pt'. pt' ! k = (if k < length pt then pt ! k else None)"
  shows "mset (used pt') = mset (used pt)"
proof -
  have "{k. k < length pt' \<and> pt' ! k \<noteq> None} = {k. k < length pt \<and> pt ! k \<noteq> None}"
    using assms by (auto split: if_splits)
  then show ?thesis by (simp add: mset_used)
qed

lemma ht_bag_cong:
  assumes "mset (used (elem_ptr_tab ht')) = mset (used (elem_ptr_tab ht))"
    and "\<forall>k \<in> set (used (elem_ptr_tab ht)). entry_at ht' k = entry_at ht k"
  shows "ht_bag ht' = ht_bag ht"
proof -
  have "image_mset (entry_at ht') (mset (used (elem_ptr_tab ht)))
      = image_mset (entry_at ht) (mset (used (elem_ptr_tab ht)))"
    using assms(2) by (intro image_mset_cong) (simp del: set_used)
  with assms(1) show ?thesis by (simp add: ht_bag_def)
qed

lemma grown_start: "grown ht n m 0 (replicate n None, replicate n None, replicate m (-1))"
  by (auto simp: grown_def filter_mset_eq_mempty_iff)

lemma grown_inv:
  assumes "ht_inv ht" and "elem_capacity ht < n" and "2 * n = 2 ^ b" and "b < 32"
    and "grown ht n (2 * n) (elem_capacity ht) (npt, nht, nbt)"
  defines "ht' \<equiv> ht\<lparr>elem_ptr_tab := npt, elem_hash_tab := nht, bucket_tab := nbt,
            elem_capacity := n, bucket_capacity := 2 * n\<rparr>"
  shows "ht_inv ht'" and "ht_bag ht' = ht_bag ht"
proof -
  let ?c = "elem_capacity ht" and ?u = "used (elem_ptr_tab ht)"
  note inv = ht_invD [OF assms(1)]
  have filt: "filter (\<lambda>k. elem_ptr_tab ht ! k \<noteq> None) [0..<?c] = ?u"
    by (simp add: used_def inv(1))
  have g: "length npt = n" "length nht = n" "length nbt = 2 * n"
    "\<forall>k < n. npt ! k = (if k < ?c then elem_ptr_tab ht ! k else None)"
    "\<forall>k < ?c. elem_ptr_tab ht ! k \<noteq> None \<longrightarrow> nht ! k = elem_hash_tab ht ! k"
    "filter_mset (\<lambda>v. 0 \<le> v) (mset nbt) = mset (map int ?u)"
    using assms(5) unfolding grown_def prod.case filt by blast+
  have us: "mset (used npt) = mset ?u"
    using g inv(1) assms(2) by (intro used_cong) auto
  then have sz: "length (used npt) = length ?u" by (metis size_mset)
  have set: "set (used npt) = set ?u" by (rule mset_eq_setD [OF us])
  have lu: "length ?u \<le> ?c"
    using length_filter_le [of _ "[0..<?c]"] inv(1) by (simp add: used_def)
  have hs: "nht ! k \<noteq> None" if "k \<in> set ?u" for k
  proof -
    have "k < ?c" "elem_ptr_tab ht ! k \<noteq> None" using that inv(1) by auto
    then have "nht ! k = elem_hash_tab ht ! k" using g(5) by blast
    moreover have "elem_hash_tab ht ! k \<noteq> None" using inv(7) that by blast
    ultimately show ?thesis by simp
  qed
  show "ht_inv ht'"
  proof (rule ht_invI)
    show "\<forall>k \<in> set (used (elem_ptr_tab ht')). elem_hash_tab ht' ! k \<noteq> None"
      using hs set unfolding ht'_def by (simp del: set_used)
    show "filter_mset (\<lambda>v. 0 \<le> v) (mset (bucket_tab ht')) = mset (map int (used (elem_ptr_tab ht')))"
      using g(6) us by (simp add: ht'_def)
    show "elem_capacity ht' = 0 \<or> num_elems ht' < int (elem_capacity ht')"
      using inv(6) lu assms(2) by (simp add: ht'_def)
    show "elem_capacity ht' = 0 \<or> (\<exists>b. bucket_capacity ht' = 2 ^ b \<and> b < 32)"
      using assms(3,4) unfolding ht'_def by auto
    show "num_elems ht' = int (length (used (elem_ptr_tab ht')))"
      using inv(6) sz by (simp add: ht'_def)
    show "bucket_capacity ht' = 2 * elem_capacity ht'" by (simp add: ht'_def)
    show "length (bucket_tab ht') = bucket_capacity ht'" using g(3) by (simp add: ht'_def)
    show "length (elem_hash_tab ht') = elem_capacity ht'" using g(2) by (simp add: ht'_def)
    show "length (elem_ptr_tab ht') = elem_capacity ht'" using g(1) by (simp add: ht'_def)
  qed
  have "entry_at ht' k = entry_at ht k" if "k \<in> set ?u" for k
  proof -
    have k: "k < ?c" "elem_ptr_tab ht ! k \<noteq> None" using that inv(1) by auto
    then have "nht ! k = elem_hash_tab ht ! k" using g(5) by blast
    moreover have "npt ! k = elem_ptr_tab ht ! k" using g(4) k assms(2) by simp
    ultimately show ?thesis by (simp add: entry_at_def ht'_def)
  qed
  then show "ht_bag ht' = ht_bag ht"
    using us by (intro ht_bag_cong) (simp_all add: ht'_def)
qed

lemma lai_hashtable_grow_Ok:
  assumes "ht_inv ht" and "elem_capacity ht < n" and "2 * n = 2 ^ b" and "b < 32"
    and "\<forall>x. mem x"
  shows "\<exists>ht'. lai_hashtable_grow mem ht n (2 * n) = Ok ht' \<and> ht_inv ht' \<and>
           ht_bag ht' = ht_bag ht \<and> elem_capacity ht' = n \<and> num_elems ht' = num_elems ht"
proof -
  let ?c = "elem_capacity ht"
  note inv = ht_invD [OF assms(1)]
  have "\<forall>k < ?c. elem_ptr_tab ht ! k \<noteq> None \<longrightarrow> elem_hash_tab ht ! k \<noteq> None"
    using inv(1,7) by (simp only: set_used Ball_def) blast
  from grow_elems_Ok [OF _ _ assms(3,4) _ inv(1,2) this grown_start] assms(2)
  have "\<exists>tabs. grow_elems ht (2 * n) [0..<?c] (replicate n None, replicate n None, replicate (2 * n) (-1))
        = Ok tabs \<and> grown ht n (2 * n) ?c tabs" by simp
  then obtain npt nht nbt
    where g: "grow_elems ht (2 * n) [0..<?c] (replicate n None, replicate n None, replicate (2 * n) (-1))
        = Ok (npt, nht, nbt)" "grown ht n (2 * n) ?c (npt, nht, nbt)"
    by auto
  show ?thesis
    using g(1) grown_inv [OF assms(1-4) g(2)] assms(2,5) inv(4)
    by (simp add: lai_hashtable_grow_def)
qed

subsection \<open>Insertion\<close>

lemma place_entry:
  assumes "ht_inv ht" and "0 < elem_capacity ht" and "num_elems ht + 1 < int (elem_capacity ht)"
  shows "\<exists>k bt. find_free (elem_ptr_tab ht) [0..<elem_capacity ht] (elem_capacity ht) = Ok k \<and>
     k < elem_capacity ht \<and> elem_ptr_tab ht ! k = None \<and>
     bucket_place h k (bucket_capacity ht) (bucket_tab ht) 0 = Ok bt \<and>
     length bt = bucket_capacity ht \<and>
     filter_mset (\<lambda>v. 0 \<le> v) (mset bt) = mset (map int (k # used (elem_ptr_tab ht)))"
proof -
  note inv = ht_invD [OF assms(1)]
  obtain b where b: "bucket_capacity ht = 2 ^ b" "b < 32" using assms(1,2) by (rule ht_inv_pow)
  have "length (used (elem_ptr_tab ht)) < length (elem_ptr_tab ht)"
    using inv(1,6) assms(3) by linarith
  from find_free_slot [OF this, of "elem_capacity ht"]
  obtain k where k: "find_free (elem_ptr_tab ht) [0..<elem_capacity ht] (elem_capacity ht) = Ok k"
    "k < elem_capacity ht" "elem_ptr_tab ht ! k = None" using inv(1) by auto
  have "length (used (elem_ptr_tab ht)) < bucket_capacity ht" using inv(4,6) assms(3) by linarith
  from bucket_place_free [OF b inv(3,5) this, of h k] show ?thesis using k by blast
qed

definition place_at :: "'e lai_hashtable \<Rightarrow> nat \<Rightarrow> u32 \<Rightarrow> 'e \<Rightarrow> int list \<Rightarrow> 'e lai_hashtable" where
  "place_at ht k h e bt = ht\<lparr>elem_ptr_tab := (elem_ptr_tab ht)[k := Some e],
    elem_hash_tab := (elem_hash_tab ht)[k := Some h], num_elems := num_elems ht + 1,
    bucket_tab := bt\<rparr>"

lemma place_at_simps [simp]:
  "elem_ptr_tab (place_at ht k h e bt) = (elem_ptr_tab ht)[k := Some e]"
  "elem_hash_tab (place_at ht k h e bt) = (elem_hash_tab ht)[k := Some h]"
  "num_elems (place_at ht k h e bt) = num_elems ht + 1"
  "bucket_tab (place_at ht k h e bt) = bt"
  "elem_capacity (place_at ht k h e bt) = elem_capacity ht"
  "bucket_capacity (place_at ht k h e bt) = bucket_capacity ht"
  by (simp_all add: place_at_def)

lemma place_at_inv:
  assumes "ht_inv ht" and "k < elem_capacity ht" and "elem_ptr_tab ht ! k = None"
    and "num_elems ht + 1 < int (elem_capacity ht)" and "length bt = bucket_capacity ht"
    and "filter_mset (\<lambda>v. 0 \<le> v) (mset bt) = mset (map int (k # used (elem_ptr_tab ht)))"
  shows "ht_inv (place_at ht k h e bt)"
    and "ht_bag (place_at ht k h e bt) = add_mset (h, e) (ht_bag ht)"
proof -
  let ?pt = "(elem_ptr_tab ht)[k := Some e]"
  note inv = ht_invD [OF assms(1)]
  have us: "mset (used ?pt) = add_mset k (mset (used (elem_ptr_tab ht)))"
    using assms(2,3) inv(1) by (intro mset_used_insert) auto
  then have sz: "length (used ?pt) = Suc (length (used (elem_ptr_tab ht)))"
    by (metis size_add_mset size_mset)
  have pow: "\<exists>b. bucket_capacity ht = 2 ^ b \<and> b < 32"
    using ht_inv_pow [OF assms(1)] assms(2) by (metis gr_implies_not0 neq0_conv)
  show "ht_inv (place_at ht k h e bt)"
  proof (rule ht_invI)
    show "\<forall>j \<in> set (used (elem_ptr_tab (place_at ht k h e bt))).
        elem_hash_tab (place_at ht k h e bt) ! j \<noteq> None"
      using inv(1,2,7) assms(2) by (auto simp: nth_list_update)
    show "filter_mset (\<lambda>v. 0 \<le> v) (mset (bucket_tab (place_at ht k h e bt)))
        = mset (map int (used (elem_ptr_tab (place_at ht k h e bt))))"
      using assms(6) us by simp
    show "num_elems (place_at ht k h e bt)
        = int (length (used (elem_ptr_tab (place_at ht k h e bt))))"
      using inv(6) sz by simp
  qed (use inv(1,2,4) pow assms(4,5) in simp_all)
  have "\<forall>j \<in># mset (used (elem_ptr_tab ht)). entry_at (place_at ht k h e bt) j = entry_at ht j"
  proof
    fix j assume "j \<in># mset (used (elem_ptr_tab ht))"
    with assms(3) have "j \<noteq> k" by auto
    then show "entry_at (place_at ht k h e bt) j = entry_at ht j" by (simp add: entry_at_def)
  qed
  moreover have "entry_at (place_at ht k h e bt) k = (h, e)"
    using assms(2) inv(1,2) by (simp add: entry_at_def)
  ultimately have "image_mset (entry_at (place_at ht k h e bt)) (add_mset k (mset (used (elem_ptr_tab ht))))
      = add_mset (h, e) (image_mset (entry_at ht) (mset (used (elem_ptr_tab ht))))"
    by (simp only: image_mset_add_mset) (metis image_mset_cong)
  then show "ht_bag (place_at ht k h e bt) = add_mset (h, e) (ht_bag ht)"
    by (simp add: ht_bag_def us)
qed

lemma lai_hashtable_insert_room:
  assumes "ht_inv ht" and "0 < elem_capacity ht" and "num_elems ht + 1 < int (elem_capacity ht)"
  shows "\<exists>ht'. lai_hashtable_insert mem ht h (Some e) = Ok ht' \<and> ht_inv ht' \<and>
           ht_bag ht' = add_mset (h, e) (ht_bag ht)"
proof -
  note inv = ht_invD [OF assms(1)]
  obtain k bt where k: "find_free (elem_ptr_tab ht) [0..<elem_capacity ht] (elem_capacity ht) = Ok k"
      "k < elem_capacity ht" "elem_ptr_tab ht ! k = None"
    and bt: "bucket_place h k (bucket_capacity ht) (bucket_tab ht) 0 = Ok bt"
      "length bt = bucket_capacity ht"
      "filter_mset (\<lambda>v. 0 \<le> v) (mset bt) = mset (map int (k # used (elem_ptr_tab ht)))"
    using place_entry [OF assms] by blast
  have "bucket_capacity ht \<noteq> 0" using inv(4) assms(2) by simp
  then have "lai_hashtable_insert mem ht h (Some e) = Ok (place_at ht k h e bt)"
    using assms(2,3) k bt(1) inv(1,2) by (simp add: lai_hashtable_insert_def place_at_def)
  with place_at_inv [OF assms(1) k(2,3) assms(3) bt(2,3)] show ?thesis by blast
qed

definition ht_room :: "'e lai_hashtable \<Rightarrow> bool" where
  "ht_room ht \<longleftrightarrow> elem_capacity ht \<le> 2 ^ 29"

lemma insert_after_grow:
  assumes "lai_hashtable_grow mem ht n m = Ok ht'"
    and "(elem_capacity ht = 0 \<or> bucket_capacity ht = 0) \<and> n = 2 \<and> m = 4 \<or>
         0 < elem_capacity ht \<and> 0 < bucket_capacity ht \<and> num_elems ht + 1 \<ge> int (elem_capacity ht) \<and>
         n = 2 * elem_capacity ht \<and> m = 2 * bucket_capacity ht"
    and "0 < elem_capacity ht'" and "0 < bucket_capacity ht'"
    and "num_elems ht' + 1 < int (elem_capacity ht')"
  shows "lai_hashtable_insert mem ht h e = lai_hashtable_insert mem ht' h e"
proof -
  have "(if elem_capacity ht = 0 \<or> bucket_capacity ht = 0
          then lai_hashtable_grow mem ht 2 4
          else if num_elems ht + 1 \<ge> int (elem_capacity ht)
          then lai_hashtable_grow mem ht (2 * elem_capacity ht) (2 * bucket_capacity ht)
          else Ok ht) = Ok ht'"
  proof (cases "elem_capacity ht = 0 \<or> bucket_capacity ht = 0")
    case True
    with assms(2) have "n = 2" "m = 4" by linarith+
    with assms(1) True show ?thesis by simp
  next
    case False
    with assms(2) have "num_elems ht + 1 \<ge> int (elem_capacity ht)"
      "n = 2 * elem_capacity ht" "m = 2 * bucket_capacity ht" by linarith+
    with assms(1) False show ?thesis by simp
  qed
  with assms(3-5) show ?thesis by (simp add: lai_hashtable_insert_def)
qed

lemma grow_target:
  assumes "ht_inv ht" and "ht_room ht"
  shows "0 < elem_capacity ht \<and> num_elems ht + 1 < int (elem_capacity ht) \<or>
    (\<exists>n m b. ((elem_capacity ht = 0 \<or> bucket_capacity ht = 0) \<and> n = 2 \<and> m = 4 \<or>
         0 < elem_capacity ht \<and> 0 < bucket_capacity ht \<and>
         num_elems ht + 1 \<ge> int (elem_capacity ht) \<and>
         n = 2 * elem_capacity ht \<and> m = 2 * bucket_capacity ht) \<and>
      2 * n = 2 ^ b \<and> b < 32 \<and> m = 2 * n \<and> elem_capacity ht < n \<and> num_elems ht + 1 < int n)"
    (is "?fits \<or> (\<exists>n m b. ?Q n m b)")
proof (cases "elem_capacity ht = 0")
  case True
  have "num_elems ht = 0" using ht_invD(1,6) [OF assms(1)] True by (simp add: used_def)
  with True have "?Q 2 4 2" by simp
  then show ?thesis by blast
next
  case False
  let ?c = "elem_capacity ht"
  obtain b where b: "bucket_capacity ht = 2 ^ b" "b < 32"
    using ht_inv_pow [OF assms(1)] False by blast
  note inv = ht_invD [OF assms(1)]
  have dbl: "2 * (2 * ?c) = 2 ^ Suc b" using inv(4) b(1) by simp
  have "?c \<le> 2 ^ 29" using assms(2) by (simp add: ht_room_def)
  then have "(2::nat) ^ Suc b < 2 ^ 32" using dbl by simp
  then have lt: "Suc b < 32" by (rule power_less_imp_less_exp [rotated]) simp
  have "?c = 0 \<or> num_elems ht < int ?c" using assms(1) unfolding ht_inv_def by (elim conjE)
  with False have "?Q (2 * ?c) (2 * bucket_capacity ht) (Suc b)" if "\<not> ?fits"
    using that dbl lt inv(4) by linarith
  then show ?thesis by blast
qed

lemma lai_hashtable_insert_Ok:
  assumes "ht_inv ht" and "ht_room ht" and "\<forall>x. mem x"
  shows "\<exists>ht'. lai_hashtable_insert mem ht h (Some e) = Ok ht' \<and> ht_inv ht' \<and>
           ht_bag ht' = add_mset (h, e) (ht_bag ht)"
proof -
  note inv = ht_invD [OF assms(1)]
  let ?c = "elem_capacity ht"
  show ?thesis
  proof (cases "0 < ?c \<and> num_elems ht + 1 < int ?c")
    case True
    with lai_hashtable_insert_room [OF assms(1)] show ?thesis by blast
  next
    case False
    with grow_target [OF assms(1,2)] obtain n m b where
      t: "(?c = 0 \<or> bucket_capacity ht = 0) \<and> n = 2 \<and> m = 4 \<or>
         0 < ?c \<and> 0 < bucket_capacity ht \<and> num_elems ht + 1 \<ge> int ?c \<and>
         n = 2 * ?c \<and> m = 2 * bucket_capacity ht"
      and n: "2 * n = 2 ^ b" "b < 32" "m = 2 * n" "?c < n" "num_elems ht + 1 < int n"
      by (elim disjE exE conjE) blast+
    obtain ht' where ht': "lai_hashtable_grow mem ht n m = Ok ht'" "ht_inv ht'"
      "ht_bag ht' = ht_bag ht" "elem_capacity ht' = n" "num_elems ht' = num_elems ht"
      using lai_hashtable_grow_Ok [OF assms(1) n(4,1,2) assms(3)] n(3) by blast
    then have pos: "0 < elem_capacity ht'" "0 < bucket_capacity ht'"
      "num_elems ht' + 1 < int (elem_capacity ht')"
      using n(4,5) ht_invD(4) [OF ht'(2)] by linarith+
    show ?thesis
      using lai_hashtable_insert_room [OF ht'(2) pos(1,3), of mem h e]
      unfolding insert_after_grow [OF ht'(1) t pos] ht'(3) .
  qed
qed

subsection \<open>Chains\<close>

definition bucket_at :: "'e lai_hashtable \<Rightarrow> u32 \<Rightarrow> nat \<Rightarrow> int" where
  "bucket_at ht h i = bucket_tab ht ! bucket_index h i (bucket_capacity ht)"

definition hit :: "'e lai_hashtable \<Rightarrow> u32 \<Rightarrow> nat \<Rightarrow> bool" where
  "hit ht h i \<longleftrightarrow> 0 \<le> bucket_at ht h i \<and> elem_hash_tab ht ! nat (bucket_at ht h i) = Some h"

lemma bucket_index_in:
  assumes "ht_inv ht" and "i < bucket_capacity ht"
  shows "bucket_index h i (bucket_capacity ht) < length (bucket_tab ht)"
proof -
  have "0 < elem_capacity ht" using ht_invD(4) [OF assms(1)] assms(2) by simp
  with assms(1) obtain b where "bucket_capacity ht = 2 ^ b" "b < 32" by (rule ht_inv_pow)
  from bucket_index_less [OF this] ht_invD(3) [OF assms(1)] show ?thesis by simp
qed

lemma bucket_used:
  assumes "ht_inv ht" and "v \<in> set (bucket_tab ht)" and "0 \<le> v"
  shows "nat v \<in> set (used (elem_ptr_tab ht))"
proof -
  have "v \<in># filter_mset (\<lambda>v. 0 \<le> v) (mset (bucket_tab ht))" using assms(2,3) by simp
  then have "v \<in># mset (map int (used (elem_ptr_tab ht)))" by (simp only: ht_invD(5) [OF assms(1)])
  then show ?thesis by (auto simp del: set_used)
qed

lemma bucket_at_used:
  assumes "ht_inv ht" and "i < bucket_capacity ht" and "0 \<le> bucket_at ht h i"
  shows "nat (bucket_at ht h i) < elem_capacity ht"
    and "\<exists>e. elem_ptr_tab ht ! nat (bucket_at ht h i) = Some e"
    and "\<exists>h'. elem_hash_tab ht ! nat (bucket_at ht h i) = Some h'"
proof -
  have "nat (bucket_at ht h i) \<in> set (used (elem_ptr_tab ht))"
    using bucket_used [OF assms(1) _ assms(3)] bucket_index_in [OF assms(1,2)]
    by (simp add: bucket_at_def)
  with ht_invD(1,7) [OF assms(1)] show
    "nat (bucket_at ht h i) < elem_capacity ht"
    "\<exists>e. elem_ptr_tab ht ! nat (bucket_at ht h i) = Some e"
    "\<exists>h'. elem_hash_tab ht ! nat (bucket_at ht h i) = Some h'" by auto
qed

lemma chain_scan_spec:
  assumes "ht_inv ht" and "i \<le> bucket_capacity ht"
  shows "\<exists>j. i \<le> j \<and> (\<forall>l. i \<le> l \<and> l < j \<longrightarrow> \<not> hit ht h l) \<and>
    (chain_scan ht h i = Ok (True, j) \<and> j < bucket_capacity ht \<and> hit ht h j \<or>
     chain_scan ht h i = Ok (False, j) \<and> j = bucket_capacity ht)"
  using assms(2)
proof (induction "bucket_capacity ht - i" arbitrary: i)
  case 0
  then have "chain_scan ht h i = Ok (False, i)" by (simp add: chain_scan.simps [of ht h i])
  with 0 show ?case by auto
next
  case (Suc d)
  have lt: "i < bucket_capacity ht" using Suc.hyps(2) by simp
  have scan: "chain_scan ht h i = (if hit ht h i then Ok (True, i) else chain_scan ht h (Suc i))"
  proof (cases "0 \<le> bucket_at ht h i")
    case True
    with bucket_at_used [OF assms(1) lt True] obtain h' where
      "nat (bucket_at ht h i) < elem_capacity ht"
      "elem_hash_tab ht ! nat (bucket_at ht h i) = Some h'" by auto
    with lt True bucket_index_in [OF assms(1) lt, of h] ht_invD(2) [OF assms(1)] show ?thesis
      by (simp add: chain_scan.simps [of ht h i] bucket_at_def hit_def)
  next
    case False
    with lt bucket_index_in [OF assms(1) lt, of h] show ?thesis
      by (simp add: chain_scan.simps [of ht h i] bucket_at_def hit_def)
  qed
  show ?case
  proof (cases "hit ht h i")
    case True
    with scan lt show ?thesis by (intro exI [of _ i]) auto
  next
    case False
    have "\<exists>j. Suc i \<le> j \<and> (\<forall>l. Suc i \<le> l \<and> l < j \<longrightarrow> \<not> hit ht h l) \<and>
      (chain_scan ht h (Suc i) = Ok (True, j) \<and> j < bucket_capacity ht \<and> hit ht h j \<or>
       chain_scan ht h (Suc i) = Ok (False, j) \<and> j = bucket_capacity ht)"
      using Suc.hyps(2) lt by (intro Suc.hyps(1)) auto
    then obtain j where "Suc i \<le> j" "\<forall>l. Suc i \<le> l \<and> l < j \<longrightarrow> \<not> hit ht h l"
      "chain_scan ht h (Suc i) = Ok (True, j) \<and> j < bucket_capacity ht \<and> hit ht h j \<or>
       chain_scan ht h (Suc i) = Ok (False, j) \<and> j = bucket_capacity ht" by blast
    moreover from this(1,2) False have "\<forall>l. i \<le> l \<and> l < j \<longrightarrow> \<not> hit ht h l"
      by (metis Suc_leI le_neq_implies_less)
    ultimately show ?thesis using scan False by (intro exI [of _ j]) auto
  qed
qed

lemma chain_scan_forward: "chain_scan ht h i = Ok (go, j) \<Longrightarrow> i \<le> j \<and> (go \<longrightarrow> j < bucket_capacity ht)"
proof (induction ht h i arbitrary: go j rule: chain_scan.induct)
  case (1 ht h i)
  show ?case
  proof (cases "i = bucket_capacity ht \<or> i > bucket_capacity ht")
    case True
    with "1.prems" show ?thesis
      by (simp add: chain_scan.simps [of ht h i] split: if_splits)
  next
    case False
    with "1.prems" obtain k b where
      k: "rd (bucket_tab ht) (bucket_index h i (bucket_capacity ht)) = Ok k"
      and b: "(if k \<ge> 0
             then bnd (rd (elem_hash_tab ht) (nat k)) (\<lambda>hv.
                    case hv of None \<Rightarrow> Fault | Some h' \<Rightarrow> Ok (h' = h))
             else Ok False) = Ok b"
      and r: "(if b then Ok (True, i) else chain_scan ht h (Suc i)) = Ok (go, j)"
      by (simp only: chain_scan.simps [of ht h i] if_False de_Morgan_disj) (auto simp: bnd_eq_Ok)
    show ?thesis
    proof (cases b)
      case True
      with r False show ?thesis by auto
    next
      case bF: False
      with "1.IH" [OF _ _ k b] r False have "Suc i \<le> j \<and> (go \<longrightarrow> j < bucket_capacity ht)" by simp
      then show ?thesis by simp
    qed
  qed
qed

text \<open>
  The loop every caller writes around a chain: advance, fetch, test, until the test succeeds
  (the cursor and the element) or the chain ends.  The test may fault.
\<close>

function chain_find :: "'e lai_hashtable \<Rightarrow> u32 \<Rightarrow> ('e \<Rightarrow> bool outcome) \<Rightarrow> int \<Rightarrow>
    (int \<times> 'e) option outcome" where
  "chain_find ht h P i =
     bnd (lai_hashtable_chain_advance ht h i) (\<lambda>r.
       if \<not> fst r then Ok None
       else bnd (lai_hashtable_chain_get ht h (snd r)) (\<lambda>e.
         bnd (P e) (\<lambda>hit.
         if hit then Ok (Some (snd r, e)) else chain_find ht h P (snd r))))"
  by pat_completeness auto
termination
proof (relation "measure (\<lambda>(ht, h, P, i). nat (int (bucket_capacity ht) - i))", goal_cases)
  case (2 ht h P i r e hit)
  then have "i < int (bucket_capacity ht)" "i < snd r" "snd r < int (bucket_capacity ht)"
    by (auto simp: lai_hashtable_chain_advance_def ensure_eq_Ok bnd_eq_Ok
             dest!: chain_scan_forward)
  then show ?case by simp
qed simp

declare chain_find.simps [simp del]

definition visits :: "'e lai_hashtable \<Rightarrow> u32 \<Rightarrow> 'e \<Rightarrow> nat \<Rightarrow> bool" where
  "visits ht h e i \<longleftrightarrow> i < bucket_capacity ht \<and> hit ht h i \<and>
     elem_ptr_tab ht ! nat (bucket_at ht h i) = Some e"

lemma lai_hashtable_chain_get_visits:
  assumes "ht_inv ht" and "i < bucket_capacity ht" and "hit ht h i"
  shows "\<exists>e. lai_hashtable_chain_get ht h (int i) = Ok e \<and> visits ht h e i"
proof -
  have pos: "0 \<le> bucket_at ht h i" using assms(3) by (simp add: hit_def)
  obtain e where "nat (bucket_at ht h i) < elem_capacity ht"
    "elem_ptr_tab ht ! nat (bucket_at ht h i) = Some e"
    using bucket_at_used [OF assms(1,2) pos] by auto
  with pos assms(2,3) bucket_index_in [OF assms(1,2), of h] ht_invD(1) [OF assms(1)] show ?thesis
    by (simp add: lai_hashtable_chain_get_def bucket_at_def visits_def)
qed

lemma chain_find_spec:
  assumes "ht_inv ht" and "\<And>e i. visits ht h e i \<Longrightarrow> Q e = Ok (P e)"
    and "-1 \<le> i" and "i < int (bucket_capacity ht)"
  shows "(chain_find ht h Q i = Ok None \<and> (\<forall>j e. i < int j \<and> visits ht h e j \<longrightarrow> \<not> P e)) \<or>
    (\<exists>j e. chain_find ht h Q i = Ok (Some (int j, e)) \<and> visits ht h e j \<and> P e)"
  using assms(3,4)
proof (induction "nat (int (bucket_capacity ht) - i)" arbitrary: i rule: less_induct)
  case less
  have "nat (i + 1) \<le> bucket_capacity ht" using less.prems by simp
  from chain_scan_spec [OF assms(1) this, of h] obtain j where
    j: "nat (i + 1) \<le> j" "\<forall>l. nat (i + 1) \<le> l \<and> l < j \<longrightarrow> \<not> hit ht h l"
      "chain_scan ht h (nat (i + 1)) = Ok (True, j) \<and> j < bucket_capacity ht \<and> hit ht h j \<or>
       chain_scan ht h (nat (i + 1)) = Ok (False, j) \<and> j = bucket_capacity ht" by blast
  have skip: "i < int l \<Longrightarrow> visits ht h e l \<Longrightarrow> j \<le> l" for l e
    using j(2) by (auto simp: visits_def not_less [symmetric])
  show ?case
  proof (cases "j = bucket_capacity ht")
    case True
    with j(3) less.prems have "chain_find ht h Q i = Ok None"
      by (auto simp: chain_find.simps [of ht h Q i] lai_hashtable_chain_advance_def)
    with skip True show ?thesis by (force simp: visits_def)
  next
    case False
    with j(3) have jm: "j < bucket_capacity ht" "hit ht h j"
      and adv: "lai_hashtable_chain_advance ht h i = Ok (True, int j)"
      using less.prems by (auto simp: lai_hashtable_chain_advance_def)
    from lai_hashtable_chain_get_visits [OF assms(1) jm] obtain e where
      e: "lai_hashtable_chain_get ht h (int j) = Ok e" "visits ht h e j" by blast
    have find: "chain_find ht h Q i = (if P e then Ok (Some (int j, e)) else chain_find ht h Q (int j))"
      using adv e(1) assms(2) [OF e(2)] by (simp add: chain_find.simps [of ht h Q i])
    show ?thesis
    proof (cases "P e")
      case True
      with find e(2) show ?thesis by auto
    next
      case False
      have "i < int j" using j(1) less.prems by linarith
      with less.prems jm(1) have "nat (int (bucket_capacity ht) - int j) < nat (int (bucket_capacity ht) - i)"
        by linarith
      from less.hyps [OF this] jm(1)
      have IH: "(chain_find ht h Q (int j) = Ok None \<and> (\<forall>l e. int j < int l \<and> visits ht h e l \<longrightarrow> \<not> P e)) \<or>
        (\<exists>l e. chain_find ht h Q (int j) = Ok (Some (int l, e)) \<and> visits ht h e l \<and> P e)" by simp
      have last: "\<not> P e'" if "\<forall>l e. int j < int l \<and> visits ht h e l \<longrightarrow> \<not> P e"
          "i < int l" "visits ht h e' l" for l e'
      proof (cases "l = j")
        case True
        with that(3) e(2) False show ?thesis by (simp add: visits_def)
      next
        case False
        then have "int j < int l" using skip [OF that(2,3)] by simp
        with that(1,3) show ?thesis by blast
      qed
      have "chain_find ht h Q i = chain_find ht h Q (int j)" using find False by simp
      with IH last show ?thesis by metis
    qed
  qed
qed

lemma visits_bag:
  assumes "ht_inv ht"
  shows "(\<exists>i. visits ht h e i) \<longleftrightarrow> (h, e) \<in># ht_bag ht"
proof
  assume "\<exists>i. visits ht h e i"
  then obtain i where i: "i < bucket_capacity ht" "hit ht h i"
    "elem_ptr_tab ht ! nat (bucket_at ht h i) = Some e" by (auto simp: visits_def)
  then have "nat (bucket_at ht h i) < elem_capacity ht"
    using bucket_at_used [OF assms i(1)] by (simp add: hit_def)
  then have "nat (bucket_at ht h i) \<in> set (used (elem_ptr_tab ht))"
    using i(3) ht_invD(1) [OF assms] by simp
  moreover have "entry_at ht (nat (bucket_at ht h i)) = (h, e)"
    using i(2,3) by (simp add: entry_at_def hit_def)
  ultimately show "(h, e) \<in># ht_bag ht" unfolding ht_bag_def set_mset_mset set_map
    by (metis rev_image_eqI)
next
  assume "(h, e) \<in># ht_bag ht"
  then obtain k where k: "k \<in> set (used (elem_ptr_tab ht))" "entry_at ht k = (h, e)"
    by (auto simp: ht_bag_def simp del: set_used)
  then have ks: "elem_ptr_tab ht ! k = Some e" "elem_hash_tab ht ! k = Some h" "k < elem_capacity ht"
    using ht_invD(1,7) [OF assms] by (auto simp: entry_at_def)
  have "int k \<in># mset (map int (used (elem_ptr_tab ht)))" using k(1) by (simp del: set_used)
  then have "int k \<in> set (bucket_tab ht)"
    by (simp only: ht_invD(5) [OF assms, symmetric]) simp
  moreover obtain b where "bucket_capacity ht = 2 ^ b" "b < 32"
    using ht_inv_pow [OF assms] ks(3) by (metis gr_implies_not0 neq0_conv)
  ultimately obtain i where "i < bucket_capacity ht" "bucket_at ht h i = int k"
    using probe_reaches ht_invD(3) [OF assms] unfolding bucket_at_def by metis
  with ks show "\<exists>i. visits ht h e i" by (auto simp: visits_def hit_def)
qed

lemma chain_remove_tables:
  assumes "ht_inv ht" and "visits ht h e i"
  defines "k \<equiv> nat (bucket_at ht h i)"
  defines "p \<equiv> bucket_index h i (bucket_capacity ht)"
  shows "lai_hashtable_chain_remove ht h (int i) = Ok (ht\<lparr>elem_ptr_tab := (elem_ptr_tab ht)[k := None],
      bucket_tab := (bucket_tab ht)[p := -1], num_elems := num_elems ht - 1\<rparr>)"
    and "mset (used (elem_ptr_tab ht)) = add_mset k (mset (used ((elem_ptr_tab ht)[k := None])))"
    and "filter_mset (\<lambda>v. 0 \<le> v) (mset ((bucket_tab ht)[p := -1]))
      = filter_mset (\<lambda>v. 0 \<le> v) (mset (bucket_tab ht)) - {#int k#}"
    and "k < elem_capacity ht" and "entry_at ht k = (h, e)"
proof -
  have v: "i < bucket_capacity ht" "0 \<le> bucket_at ht h i" "elem_ptr_tab ht ! k = Some e"
    "elem_hash_tab ht ! k = Some h"
    using assms(2) by (auto simp: visits_def hit_def k_def)
  have p: "p < length (bucket_tab ht)" unfolding p_def by (rule bucket_index_in [OF assms(1) v(1)])
  show k: "k < elem_capacity ht" unfolding k_def by (rule bucket_at_used [OF assms(1) v(1,2)])
  have at: "bucket_tab ht ! p = int k" using v(2) by (simp add: p_def k_def bucket_at_def)
  show "lai_hashtable_chain_remove ht h (int i) = Ok (ht\<lparr>elem_ptr_tab := (elem_ptr_tab ht)[k := None],
      bucket_tab := (bucket_tab ht)[p := -1], num_elems := num_elems ht - 1\<rparr>)"
    using v(1,2) p k at ht_invD(1) [OF assms(1)]
    by (simp add: lai_hashtable_chain_remove_def p_def [symmetric])
  show "mset (used (elem_ptr_tab ht)) = add_mset k (mset (used ((elem_ptr_tab ht)[k := None])))"
    using k v(3) ht_invD(1) [OF assms(1)] by (intro mset_used_remove) auto
  show "filter_mset (\<lambda>v. 0 \<le> v) (mset ((bucket_tab ht)[p := -1]))
      = filter_mset (\<lambda>v. 0 \<le> v) (mset (bucket_tab ht)) - {#int k#}"
    using p at by (simp add: mset_update)
  show "entry_at ht k = (h, e)" using v(3,4) by (simp add: entry_at_def)
qed

lemma lai_hashtable_chain_remove_Ok:
  assumes "ht_inv ht" and "visits ht h e i"
  shows "\<exists>ht'. lai_hashtable_chain_remove ht h (int i) = Ok ht' \<and> ht_inv ht' \<and>
           ht_bag ht' = ht_bag ht - {#(h, e)#} \<and> (h, e) \<in># ht_bag ht"
proof -
  let ?k = "nat (bucket_at ht h i)" and ?p = "bucket_index h i (bucket_capacity ht)"
  let ?ht' = "ht\<lparr>elem_ptr_tab := (elem_ptr_tab ht)[?k := None],
      bucket_tab := (bucket_tab ht)[?p := -1], num_elems := num_elems ht - 1\<rparr>"
  note inv = ht_invD [OF assms(1)] and t = chain_remove_tables [OF assms]
  have sz: "length (used (elem_ptr_tab ht)) = Suc (length (used ((elem_ptr_tab ht)[?k := None])))"
    using t(2) by (metis size_add_mset size_mset)
  have sub: "set (used ((elem_ptr_tab ht)[?k := None])) \<subseteq> set (used (elem_ptr_tab ht))"
    using t(2) by (metis set_mset_add_mset_insert set_mset_mset subset_insertI)
  have nin: "?k \<notin> set (used ((elem_ptr_tab ht)[?k := None]))" using t(4) inv(1) by simp
  have "ht_inv ?ht'"
  proof (rule ht_invI)
    show "elem_capacity ?ht' = 0 \<or> (\<exists>b. bucket_capacity ?ht' = 2 ^ b \<and> b < 32)"
      using ht_inv_pow [OF assms(1)] t(4) by auto
    show "\<forall>k \<in> set (used (elem_ptr_tab ?ht')). elem_hash_tab ?ht' ! k \<noteq> None"
      using inv(7) sub by (simp del: set_used) blast
    show "filter_mset (\<lambda>v. 0 \<le> v) (mset (bucket_tab ?ht')) = mset (map int (used (elem_ptr_tab ?ht')))"
      using t(2,3) inv(5) by simp
    have "elem_capacity ht = 0 \<or> num_elems ht < int (elem_capacity ht)"
      using assms(1) unfolding ht_inv_def by (elim conjE)
    then show "elem_capacity ?ht' = 0 \<or> num_elems ?ht' < int (elem_capacity ?ht')" by auto
    show "num_elems ?ht' = int (length (used (elem_ptr_tab ?ht')))" using inv(6) sz by simp
  qed (simp_all add: inv(1-4))
  moreover have "ht_bag ht = add_mset (h, e) (ht_bag ?ht')"
  proof -
    have "entry_at ?ht' j = entry_at ht j" if "j \<in> set (used ((elem_ptr_tab ht)[?k := None]))" for j
    proof -
      have "j \<noteq> ?k" using that nin by blast
      then show ?thesis by (simp add: entry_at_def)
    qed
    then have "image_mset (entry_at ?ht') (mset (used ((elem_ptr_tab ht)[?k := None])))
        = image_mset (entry_at ht) (mset (used ((elem_ptr_tab ht)[?k := None])))"
      by (intro image_mset_cong) (simp only: set_mset_mset)
    then show ?thesis using t(5) by (simp add: ht_bag_def t(2))
  qed
  ultimately show ?thesis using t(1) by (metis add_mset_remove_trivial union_single_eq_member)
qed

text \<open>A whole search, from the initial cursor.\<close>

definition chain_search :: "'e lai_hashtable \<Rightarrow> u32 \<Rightarrow> ('e \<Rightarrow> bool) \<Rightarrow> (int \<times> 'e) option outcome" where
  "chain_search ht h P = chain_find ht h (\<lambda>e. Ok (P e)) (-1)"

lemma chain_find_search:
  assumes "ht_inv ht" and "\<And>e. (h, e) \<in># ht_bag ht \<Longrightarrow> Q e = Ok (P e)"
  shows "(chain_find ht h Q (-1) = Ok None \<and> (\<forall>e. (h, e) \<in># ht_bag ht \<longrightarrow> \<not> P e)) \<or>
    (\<exists>j e. chain_find ht h Q (-1) = Ok (Some (int j, e)) \<and> visits ht h e j \<and>
       (h, e) \<in># ht_bag ht \<and> P e)"
proof -
  have v: "visits ht h e i \<Longrightarrow> (h, e) \<in># ht_bag ht" for e i using visits_bag [OF assms(1)] by blast
  have "(chain_find ht h Q (-1) = Ok None \<and> (\<forall>j e. -1 < int j \<and> visits ht h e j \<longrightarrow> \<not> P e)) \<or>
    (\<exists>j e. chain_find ht h Q (-1) = Ok (Some (int j, e)) \<and> visits ht h e j \<and> P e)"
    by (rule chain_find_spec [OF assms(1)]) (use assms(2) v in auto)
  then show ?thesis
  proof (elim disjE conjE exE, goal_cases)
    case 1
    have "\<not> P e" if "(h, e) \<in># ht_bag ht" for e
      using 1(2) visits_bag [OF assms(1), of h e] that by force
    with 1(1) show ?case by blast
  next
    case (2 j e)
    with v show ?case by blast
  qed
qed

lemma chain_search_total: "ht_inv ht \<Longrightarrow> \<exists>r. chain_search ht h P = Ok r"
  using chain_find_search [of ht h "\<lambda>e. Ok (P e)" P] by (auto simp: chain_search_def)

lemma chain_search_None:
  "ht_inv ht \<Longrightarrow> chain_search ht h P = Ok None \<Longrightarrow> (h, e) \<in># ht_bag ht \<Longrightarrow> \<not> P e"
  using chain_find_search [of ht h "\<lambda>e. Ok (P e)" P] by (auto simp: chain_search_def)

lemma chain_search_Some:
  assumes "ht_inv ht" and "chain_search ht h P = Ok (Some (j, e))"
  shows "P e \<and> (h, e) \<in># ht_bag ht \<and> (\<exists>ht'. lai_hashtable_chain_remove ht h j = Ok ht' \<and>
           ht_inv ht' \<and> ht_bag ht' = ht_bag ht - {#(h, e)#})"
proof -
  from chain_find_search [OF assms(1), of h "\<lambda>e. Ok (P e)" P] assms(2) obtain i where
    "j = int i" "visits ht h e i" "P e" by (auto simp: chain_search_def)
  with lai_hashtable_chain_remove_Ok [OF assms(1) this(2)] show ?thesis by blast
qed

lemma chain_find_eq_search:
  assumes "ht_inv ht" and "\<And>e. (h, e) \<in># ht_bag ht \<Longrightarrow> Q e = Ok (P e)"
    and "\<And>e e'. (h, e) \<in># ht_bag ht \<Longrightarrow> (h, e') \<in># ht_bag ht \<Longrightarrow> P e \<Longrightarrow> P e' \<Longrightarrow> e = e'"
  shows "map_outcome (map_option snd) (chain_find ht h Q (-1))
    = map_outcome (map_option snd) (chain_search ht h P)"
proof -
  have q: "(chain_find ht h Q (-1) = Ok None \<and> (\<forall>e. (h, e) \<in># ht_bag ht \<longrightarrow> \<not> P e)) \<or>
    (\<exists>j e. chain_find ht h Q (-1) = Ok (Some (int j, e)) \<and> visits ht h e j \<and>
       (h, e) \<in># ht_bag ht \<and> P e)"
    using assms(1,2) by (rule chain_find_search)
  have p: "(chain_find ht h (\<lambda>e. Ok (P e)) (-1) = Ok None \<and> (\<forall>e. (h, e) \<in># ht_bag ht \<longrightarrow> \<not> P e)) \<or>
    (\<exists>j e. chain_find ht h (\<lambda>e. Ok (P e)) (-1) = Ok (Some (int j, e)) \<and> visits ht h e j \<and>
       (h, e) \<in># ht_bag ht \<and> P e)"
    using assms(1) refl by (rule chain_find_search)
  from q show ?thesis
  proof (elim disjE conjE exE, goal_cases)
    case 1
    with p show ?case by (auto simp: chain_search_def)
  next
    case (2 j e)
    from p show ?case
    proof (elim disjE conjE exE, goal_cases)
      case 1
      with 2 show ?case by blast
    next
      case (2 j' e')
      with assms(3) [of e e'] \<open>(h, e) \<in># ht_bag ht\<close> \<open>P e\<close>
        \<open>chain_find ht h Q (-1) = Ok (Some (int j, e))\<close> show ?case
        by (simp add: chain_search_def)
    qed
  qed
qed

subsection \<open>The contract of a table of children\<close>

text \<open>
  What the namespace relies on, stated over the operations: \<open>ins\<close> adds a pair, \<open>srch\<close> is the
  chain loop, \<open>del\<close> removes at the cursor it found.  A client stores elements under the hash
  of their key and inserts a key only when a search did not find it; the lemmas say that
  the table then is a map from keys to elements.
\<close>

locale child_table =
  fixes inv :: "'t \<Rightarrow> bool" and room :: "'t \<Rightarrow> bool" and bag :: "'t \<Rightarrow> (u32 \<times> 'e) multiset"
    and ins :: "'t \<Rightarrow> u32 \<Rightarrow> 'e option \<Rightarrow> 't outcome"
    and srch :: "'t \<Rightarrow> u32 \<Rightarrow> ('e \<Rightarrow> bool) \<Rightarrow> (int \<times> 'e) option outcome"
    and del :: "'t \<Rightarrow> u32 \<Rightarrow> int \<Rightarrow> 't outcome"
  assumes ins_law: "inv t \<Longrightarrow> room t \<Longrightarrow>
      \<exists>t'. ins t h (Some e) = Ok t' \<and> inv t' \<and> bag t' = add_mset (h, e) (bag t)"
    and srch_total: "inv t \<Longrightarrow> \<exists>r. srch t h P = Ok r"
    and srch_None: "inv t \<Longrightarrow> srch t h P = Ok None \<Longrightarrow> (h, e) \<in># bag t \<Longrightarrow> \<not> P e"
    and srch_Some: "inv t \<Longrightarrow> srch t h P = Ok (Some (j, e)) \<Longrightarrow>
      P e \<and> (h, e) \<in># bag t \<and>
      (\<exists>t'. del t h j = Ok t' \<and> inv t' \<and> bag t' = bag t - {#(h, e)#})"
begin

definition keyed :: "('k \<Rightarrow> u32) \<Rightarrow> ('e \<Rightarrow> 'k) \<Rightarrow> 't \<Rightarrow> bool" where
  "keyed hsh key t \<longleftrightarrow> inv t \<and> (\<forall>(h, e) \<in># bag t. h = hsh (key e)) \<and>
     (\<forall>k. size (filter_mset (\<lambda>p. key (snd p) = k) (bag t)) \<le> 1)"

definition has :: "('e \<Rightarrow> 'k) \<Rightarrow> 't \<Rightarrow> 'k \<Rightarrow> 'e \<Rightarrow> bool" where
  "has key t k e \<longleftrightarrow> key e = k \<and> e \<in># image_mset snd (bag t)"

lemma keyed_at: "keyed hsh key t \<Longrightarrow> has key t k e \<longleftrightarrow> key e = k \<and> (hsh k, e) \<in># bag t"
proof -
  assume keyed: "keyed hsh key t"
  have "(hsh (key e), e) \<in># bag t" if "e \<in># image_mset snd (bag t)"
  proof -
    from that obtain h where h: "(h, e) \<in># bag t" by auto
    from keyed have "\<forall>p \<in># bag t. fst p = hsh (key (snd p))"
      by (simp add: keyed_def case_prod_beta)
    from bspec [OF this h] have "h = hsh (key e)" by simp
    with h show ?thesis by simp
  qed
  moreover have "e \<in># image_mset snd (bag t)" if "(h, e) \<in># bag t" for h
    using imageI [OF that, of snd] by (simp only: set_image_mset snd_conv)
  ultimately show ?thesis unfolding has_def by blast
qed

lemma keyed_unique:
  assumes "keyed hsh key t" and "has key t k e" and "has key t k e'"
  shows "e = e'"
proof (rule ccontr)
  assume ne: "e \<noteq> e'"
  have b: "(hsh k, e) \<in># bag t" "(hsh k, e') \<in># bag t" and k: "key e = k" "key e' = k"
    using keyed_at [OF assms(1)] assms(2,3) by auto
  from b(1) obtain M where M: "bag t = add_mset (hsh k, e) M" by (rule mset_add)
  with ne b(2) have "(hsh k, e') \<in># M" by auto
  then obtain M' where "M = add_mset (hsh k, e') M'" by (rule mset_add)
  with M k have "2 \<le> size (filter_mset (\<lambda>p. key (snd p) = k) (bag t))" by simp
  moreover have "size (filter_mset (\<lambda>p. key (snd p) = k) (bag t)) \<le> 1"
    using assms(1) by (simp add: keyed_def)
  ultimately show False by linarith
qed

lemma search_spec:
  assumes "keyed hsh key t"
  shows "(srch t (hsh k) (\<lambda>e. key e = k) = Ok None \<and> (\<forall>e. \<not> has key t k e)) \<or>
    (\<exists>j e. srch t (hsh k) (\<lambda>e. key e = k) = Ok (Some (j, e)) \<and> has key t k e)"
proof -
  have i: "inv t" using assms by (simp add: keyed_def)
  from srch_total [OF i] obtain r where r: "srch t (hsh k) (\<lambda>e. key e = k) = Ok r" by blast
  show ?thesis
  proof (cases r)
    case None
    with r srch_None [OF i] keyed_at [OF assms] show ?thesis by blast
  next
    case (Some a)
    obtain j e where je: "a = (j, e)" by (cases a)
    with r Some srch_Some [OF i, of "hsh k" "\<lambda>e. key e = k" j e] keyed_at [OF assms, of k e]
    show ?thesis by auto
  qed
qed

lemma insert_fresh:
  assumes "keyed hsh key t" and "room t" and "\<forall>e'. \<not> has key t (key e) e'"
  shows "\<exists>t'. ins t (hsh (key e)) (Some e) = Ok t' \<and> keyed hsh key t' \<and>
    (\<forall>k e'. has key t' k e' \<longleftrightarrow> (if k = key e then e' = e else has key t k e'))"
proof -
  have i: "inv t" using assms by (simp add: keyed_def)
  from ins_law [OF i assms(2)] obtain t' where t': "ins t (hsh (key e)) (Some e) = Ok t'" "inv t'"
    "bag t' = add_mset (hsh (key e), e) (bag t)" by blast
  have "filter_mset (\<lambda>p. key (snd p) = key e) (bag t) = {#}"
    using assms(3) by (force simp: has_def filter_mset_eq_mempty_iff)
  with assms(1) t' have "keyed hsh key t'" by (auto simp: keyed_def)
  moreover have "has key t' k e' \<longleftrightarrow> (if k = key e then e' = e else has key t k e')" for k e'
    using t'(3) assms(3) by (auto simp: has_def)
  ultimately show ?thesis using t'(1) by blast
qed

lemma remove_found:
  assumes "keyed hsh key t" and "srch t (hsh k) P = Ok (Some (j, e))" and "key e = k"
  shows "\<exists>t'. del t (hsh k) j = Ok t' \<and> keyed hsh key t' \<and> has key t k e \<and>
    (\<forall>k' e'. has key t' k' e' \<longleftrightarrow> k' \<noteq> k \<and> has key t k' e')"
proof -
  have i: "inv t" using assms by (simp add: keyed_def)
  from srch_Some [OF i assms(2)] obtain t' where t': "del t (hsh k) j = Ok t'" "inv t'"
    "bag t' = bag t - {#(hsh k, e)#}" "(hsh k, e) \<in># bag t" by blast
  then have b: "bag t = add_mset (hsh k, e) (bag t')" by simp
  have one: "size (filter_mset (\<lambda>p. key (snd p) = k) (bag t)) \<le> 1"
    using assms(1) by (simp add: keyed_def)
  then have "filter_mset (\<lambda>p. key (snd p) = k) (bag t') = {#}"
    using assms(3) by (simp add: b)
  then have none: "\<not> has key t' k e'" for e'
    by (force simp: has_def filter_mset_eq_mempty_iff)
  have "size (filter_mset (\<lambda>p. key (snd p) = k') (bag t')) \<le> 1" for k'
    using assms(1) unfolding keyed_def b by (metis (no_types, lifting) filter_mset_add_mset
        le_Suc_eq size_add_mset Suc_leD le_SucI)
  with t'(2) assms(1) have "keyed hsh key t'" by (auto simp: keyed_def b)
  moreover have "has key t' k' e' \<longleftrightarrow> k' \<noteq> k \<and> has key t k' e'" for k' e'
    using none assms(3) by (auto simp: has_def b)
  moreover have "has key t k e" using t'(4) assms(1,3) by (simp add: keyed_at)
  ultimately show ?thesis using t'(1) by blast
qed

end

interpretation lht: child_table ht_inv "\<lambda>ht. ht_room ht \<and> (\<forall>x. mem x)" ht_bag
    "lai_hashtable_insert mem" chain_search lai_hashtable_chain_remove
  for mem
proof
  show "\<exists>t'. lai_hashtable_insert mem t h (Some e) = Ok t' \<and> ht_inv t' \<and>
      ht_bag t' = add_mset (h, e) (ht_bag t)" if "ht_inv t" "ht_room t \<and> (\<forall>x. mem x)"
      for t :: "'a lai_hashtable" and h e
    using lai_hashtable_insert_Ok [of t mem h e] that by blast
qed (fact chain_search_total, fact chain_search_None, fact chain_search_Some)

subsection \<open>Properties\<close>

text \<open>
  C9. Inserting into a well-formed table, given memory and capacity below the limit of
  \<open>int\<close>, returns (no assertion fires, no access leaves a table), keeps the table well formed
  and adds exactly the pair inserted, whether or not the table has to grow.
\<close>

theorem hashtable_insert_correct:
  assumes "ht_inv ht" and "ht_room ht" and "\<forall>x. mem x"
  shows "\<exists>ht'. lai_hashtable_insert mem ht h (Some e) = Ok ht' \<and> ht_inv ht' \<and>
           ht_bag ht' = add_mset (h, e) (ht_bag ht)"
  using lht.ins_law [OF assms(1), of mem h e] assms(2,3) by blast

definition demo_table :: "nat lai_hashtable" where
  "demo_table = \<lparr>elem_capacity = 2, bucket_capacity = 4, num_elems = 1,
     elem_ptr_tab = [Some 7, None], elem_hash_tab = [Some 5, None], bucket_tab = [-1, 0, -1, -1]\<rparr>"

lemma demo_table_inv: "ht_inv demo_table"
proof (rule ht_invI)
  show "elem_capacity demo_table = 0 \<or> (\<exists>b. bucket_capacity demo_table = 2 ^ b \<and> b < 32)"
    by (rule disjI2, rule exI [of _ 2]) (simp add: demo_table_def)
  show "filter_mset (\<lambda>v. 0 \<le> v) (mset (bucket_tab demo_table))
      = mset (map int (used (elem_ptr_tab demo_table)))"
    by (simp add: demo_table_def used_def upt_rec)
  show "num_elems demo_table = int (length (used (elem_ptr_tab demo_table)))"
    by (simp add: demo_table_def used_def upt_rec)
  show "\<forall>k \<in> set (used (elem_ptr_tab demo_table)). elem_hash_tab demo_table ! k \<noteq> None"
    by (auto simp: demo_table_def less_Suc_eq)
qed (simp_all add: demo_table_def)

lemma demo_table_bag: "ht_bag demo_table = {#(5, 7)#}"
  by (simp add: ht_bag_def used_def demo_table_def upt_rec entry_at_def)

lemma hashtable_insert_correct_witness:
  "\<exists>ht'. lai_hashtable_insert (\<lambda>_. True) demo_table 9 (Some 8) = Ok ht' \<and> ht_inv ht' \<and>
     ht_bag ht' = add_mset (9, 8) (ht_bag demo_table)"
  by (rule hashtable_insert_correct [OF demo_table_inv]) (simp_all add: ht_room_def demo_table_def)

text \<open>
  C10. A chain over a well-formed table ends without a fault, finds an element with the hash
  and the tested property exactly if the table holds one, and removing at the cursor deletes
  that pair, once, and nothing else.
\<close>

theorem hashtable_search_remove:
  assumes "ht_inv ht"
  shows "\<exists>r. chain_search ht h P = Ok r \<and>
    (case r of
       None \<Rightarrow> \<not> (\<exists>e. (h, e) \<in># ht_bag ht \<and> P e)
     | Some (j, e) \<Rightarrow> (h, e) \<in># ht_bag ht \<and> P e \<and>
         (\<exists>ht'. lai_hashtable_chain_remove ht h j = Ok ht' \<and> ht_inv ht' \<and>
            ht_bag ht = add_mset (h, e) (ht_bag ht')))"
proof -
  obtain r where r: "chain_search ht h P = Ok r" using lht.srch_total [OF assms] by blast
  show ?thesis
  proof (cases r)
    case None
    with r lht.srch_None [OF assms, of h P] show ?thesis by auto
  next
    case (Some je)
    obtain j e where je: "je = (j, e)" by (cases je)
    with r Some lht.srch_Some [OF assms, of h P j e] show ?thesis by auto
  qed
qed

lemma hashtable_search_remove_witness:
  "\<exists>r. chain_search demo_table 5 (\<lambda>e. e = 7) = Ok r \<and>
    (case r of
       None \<Rightarrow> \<not> (\<exists>e. (5, e) \<in># ht_bag demo_table \<and> e = 7)
     | Some (j, e) \<Rightarrow> (5, e) \<in># ht_bag demo_table \<and> e = 7 \<and>
         (\<exists>ht'. lai_hashtable_chain_remove demo_table 5 j = Ok ht' \<and> ht_inv ht' \<and>
            ht_bag demo_table = add_mset (5, e) (ht_bag ht')))"
  by (rule hashtable_search_remove [OF demo_table_inv])

end
