(* ===== verification/Lai_Text.thy ===== *)
theory Lai_Text
  imports Prelude
begin

text \<open>
  Text handling of the ACPI interpreter: the error codes of \<open>lai/include/lai/error.h\<close> and
  \<open>lai/core/error.c\<close>, the string functions of \<open>lai/core/libc.c\<close>, the formatter of
  \<open>lai/core/vsnprintf.c\<close> and the character and byte-order helpers of \<open>lai/core/eval.c\<close>.

  A C string is the list of bytes from the pointer to the end of its object; a function
  that walks past the end faults.  The formatter returns the bytes it writes, so that its
  caller can check them against the object they go to.
\<close>

subsection \<open>Error codes\<close>

datatype lai_api_error =
    LAI_ERROR_NONE
  | LAI_ERROR_OUT_OF_MEMORY
  | LAI_ERROR_TYPE_MISMATCH
  | LAI_ERROR_NO_SUCH_NODE
  | LAI_ERROR_OUT_OF_BOUNDS
  | LAI_ERROR_EXECUTION_FAILURE
  | LAI_ERROR_ILLEGAL_ARGUMENTS
  | LAI_ERROR_UNEXPECTED_RESULT
  | LAI_ERROR_END_REACHED
  | LAI_ERROR_UNSUPPORTED

primrec error_code :: "lai_api_error \<Rightarrow> nat" where
  "error_code LAI_ERROR_NONE = 0"
| "error_code LAI_ERROR_OUT_OF_MEMORY = 1"
| "error_code LAI_ERROR_TYPE_MISMATCH = 2"
| "error_code LAI_ERROR_NO_SUCH_NODE = 3"
| "error_code LAI_ERROR_OUT_OF_BOUNDS = 4"
| "error_code LAI_ERROR_EXECUTION_FAILURE = 5"
| "error_code LAI_ERROR_ILLEGAL_ARGUMENTS = 6"
| "error_code LAI_ERROR_UNEXPECTED_RESULT = 7"
| "error_code LAI_ERROR_END_REACHED = 8"
| "error_code LAI_ERROR_UNSUPPORTED = 9"

lemma error_code_inj: "error_code a = error_code b \<longleftrightarrow> a = b"
  by (cases a; cases b) simp_all

text \<open>The enumeration is ordered by its numbers, as the C type is.\<close>

instantiation lai_api_error :: linorder
begin

definition less_eq_lai_api_error :: "lai_api_error \<Rightarrow> lai_api_error \<Rightarrow> bool" where
  "less_eq_lai_api_error a b \<longleftrightarrow> error_code a \<le> error_code b"

definition less_lai_api_error :: "lai_api_error \<Rightarrow> lai_api_error \<Rightarrow> bool" where
  "less_lai_api_error a b \<longleftrightarrow> error_code a < error_code b"

instance
  by standard (auto simp: less_eq_lai_api_error_def less_lai_api_error_def error_code_inj)

end

fun lai_api_error_to_string :: "nat \<Rightarrow> string" where
  "lai_api_error_to_string e =
     (if e = error_code LAI_ERROR_NONE then ''No error''
      else if e = error_code LAI_ERROR_OUT_OF_MEMORY then ''Out of memory''
      else if e = error_code LAI_ERROR_TYPE_MISMATCH then ''Type mismatch''
      else if e = error_code LAI_ERROR_NO_SUCH_NODE then ''No such node''
      else if e = error_code LAI_ERROR_OUT_OF_BOUNDS then ''Out of bounds''
      else if e = error_code LAI_ERROR_EXECUTION_FAILURE then ''Execution failure''
      else if e = error_code LAI_ERROR_ILLEGAL_ARGUMENTS then ''Illegal arguments''
      else if e = error_code LAI_ERROR_UNEXPECTED_RESULT then ''Unexpected results''
      else if e = error_code LAI_ERROR_END_REACHED then ''End of iteration''
      else if e = error_code LAI_ERROR_UNSUPPORTED then ''Unsupported''
      else ''Unknown error'')"

lemma lai_api_error_to_string_inj:
  "lai_api_error_to_string (error_code a) = lai_api_error_to_string (error_code b) \<longleftrightarrow> a = b"
  by (cases a; cases b) simp_all

subsection \<open>Strings\<close>

abbreviation bytes_of :: "string \<Rightarrow> u8 list" where
  "bytes_of s \<equiv> map (\<lambda>c. of_nat (of_char c)) s"

text \<open>The characters in front of the terminator, and whether there is one.\<close>

definition c_str :: "u8 list \<Rightarrow> u8 list" where
  "c_str s = takeWhile (\<lambda>c. c \<noteq> 0) s"

definition terminated :: "u8 list \<Rightarrow> bool" where
  "terminated s \<longleftrightarrow> 0 \<in> set s"

fun lai_strlen :: "u8 list \<Rightarrow> nat outcome" where
  "lai_strlen [] = Fault"
| "lai_strlen (c # s) = (if c = 0 then Ok 0 else bnd (lai_strlen s) (\<lambda>n. Ok (Suc n)))"

fun lai_strcpy :: "u8 list \<Rightarrow> u8 list \<Rightarrow> u8 list outcome" where
  "lai_strcpy dest [] = Fault"
| "lai_strcpy [] (c # src) = Fault"
| "lai_strcpy (d # dest) (c # src) =
     (if c = 0 then Ok (0 # dest) else bnd (lai_strcpy dest src) (\<lambda>r. Ok (c # r)))"

fun lai_strcmp :: "u8 list \<Rightarrow> u8 list \<Rightarrow> int outcome" where
  "lai_strcmp (a # as) (b # bs) =
     (if a = 0 \<and> b = 0 then Ok 0
      else if a < b then Ok (-1)
      else if a > b then Ok 1
      else lai_strcmp as bs)"
| "lai_strcmp as bs = Fault"

text \<open>\<open>memcmp\<close> as the C library documents it: the sign of the first difference.\<close>

fun c_memcmp :: "u8 list \<Rightarrow> u8 list \<Rightarrow> nat \<Rightarrow> int outcome" where
  "c_memcmp as bs 0 = Ok 0"
| "c_memcmp (a # as) (b # bs) (Suc n) =
     (if a < b then Ok (-1) else if a > b then Ok 1 else c_memcmp as bs n)"
| "c_memcmp as bs (Suc n) = Fault"

lemma c_str_simps [simp]:
  "c_str [] = []" "c_str (c # s) = (if c = 0 then [] else c # c_str s)"
  by (simp_all add: c_str_def)

lemma terminated_simps [simp]:
  "\<not> terminated []" "terminated (c # s) \<longleftrightarrow> c = 0 \<or> terminated s"
  by (auto simp: terminated_def)

lemma lai_strlen_spec: "lai_strlen s = (if terminated s then Ok (length (c_str s)) else Fault)"
  by (induction s) auto

lemma c_str_take: "terminated s \<Longrightarrow> take (length (c_str s)) s = c_str s"
  by (induction s) auto

lemma c_str_length: "terminated s \<Longrightarrow> length (c_str s) < length s"
  by (induction s) auto

lemma c_str_append0 [simp]: "0 \<notin> set s \<Longrightarrow> c_str (s @ 0 # t) = s"
  by (induction s) auto

lemma terminated_append0 [simp]: "terminated (s @ 0 # t)"
  by (simp add: terminated_def)

lemma lai_strcpy_spec:
  assumes "terminated src" and "length (c_str src) < length dest"
  shows "lai_strcpy dest src = Ok (c_str src @ 0 # drop (Suc (length (c_str src))) dest)"
  using assms by (induction dest src rule: lai_strcpy.induct) auto

lemma lai_strcpy_overflow:
  assumes "length dest \<le> length (c_str src)"
  shows "lai_strcpy dest src = Fault"
  using assms by (induction dest src rule: lai_strcpy.induct) (auto split: if_splits)

lemma lai_strcmp_zero:
  assumes "terminated a" and "terminated b"
  shows "lai_strcmp a b = Ok 0 \<longleftrightarrow> c_str a = c_str b"
  using assms by (induction a b rule: lai_strcmp.induct) (auto split: if_splits)

lemma lai_strcmp_total:
  assumes "terminated a" and "terminated b"
  shows "\<exists>r \<in> {-1, 0, 1}. lai_strcmp a b = Ok r"
  using assms
proof (induction a b rule: lai_strcmp.induct)
  case (1 a as b bs)
  then show ?case by (cases "a = 0"; cases "b = 0") (auto simp: word_gt_0 not_less)
qed auto

text \<open>The order the comparison reports is the lexicographic one on the characters.\<close>

lemma lai_strcmp_less:
  assumes "terminated a" and "terminated b"
  shows "lai_strcmp a b = Ok (-1) \<longleftrightarrow> (c_str a, c_str b) \<in> lexord {(x, y). x < y}"
  using assms
proof (induction a b rule: lai_strcmp.induct)
  case (1 a as b bs)
  then show ?case
    by (cases "a = 0"; cases "b = 0") (auto simp: word_gt_0 not_less)
qed auto

lemma lai_strcmp_flip:
  "lai_strcmp a b = Ok r \<Longrightarrow> lai_strcmp b a = Ok (- r)"
  by (induction a b arbitrary: r rule: lai_strcmp.induct) (auto split: if_splits)

lemma c_memcmp_zero:
  assumes "n \<le> length a" and "n \<le> length b"
  shows "c_memcmp a b n = Ok 0 \<longleftrightarrow> take n a = take n b"
  using assms by (induction a b n rule: c_memcmp.induct) auto

lemma c_memcmp_total:
  assumes "n \<le> length a" and "n \<le> length b"
  shows "\<exists>r. c_memcmp a b n = Ok r"
  using assms by (induction a b n rule: c_memcmp.induct) auto

subsection \<open>Formatting\<close>

datatype va_arg = VInt u32 | VLong u64 | VPtr u64 | VStr "u8 list"

text \<open>
  \<open>va_arg\<close> at the type the conversion names.  An \<open>int\<close> read of a 64-bit argument gives its
  low half, as both System V conventions do; any other mismatch is a fault.
\<close>

fun va_int :: "va_arg list \<Rightarrow> (u64 \<times> va_arg list) outcome" where
  "va_int (VInt w # as) = Ok (scast w, as)"
| "va_int (VLong w # as) = Ok (scast (ucast w :: u32), as)"
| "va_int as = Fault"

fun va_long :: "va_arg list \<Rightarrow> (u64 \<times> va_arg list) outcome" where
  "va_long (VLong w # as) = Ok (w, as)"
| "va_long as = Fault"

fun va_ptr :: "va_arg list \<Rightarrow> (u64 \<times> va_arg list) outcome" where
  "va_ptr (VPtr w # as) = Ok (w, as)"
| "va_ptr as = Fault"

fun va_str :: "va_arg list \<Rightarrow> (u8 list \<times> va_arg list) outcome" where
  "va_str (VStr s # as) = Ok (s, as)"
| "va_str as = Fault"

definition is_digit :: "u8 \<Rightarrow> bool" where
  "is_digit c \<longleftrightarrow> 48 \<le> c \<and> c \<le> 57"

definition digit_of :: "bool \<Rightarrow> u64 \<Rightarrow> u8" where
  "digit_of upper d = (if d < 10 then ucast d + 48 else if upper then ucast d + 55 else ucast d + 87)"

text \<open>
  The digit loop of \<open>num_fmt\<close>: digits are pushed in front of \<open>acc\<close>, which ends in the
  terminator at \<open>buf + 49\<close>; a push beyond the start of \<open>buf[50]\<close> is a fault.
\<close>

definition push_front :: "u8 \<Rightarrow> u8 list \<Rightarrow> u8 list outcome" where
  "push_front c acc = guard (length acc < 49) (Ok (c # acc))"

function num_loop :: "u64 \<Rightarrow> u64 \<Rightarrow> bool \<Rightarrow> nat \<Rightarrow> int \<Rightarrow> u8 list \<Rightarrow> (u8 list \<times> nat) outcome" where
  "num_loop i base upper padding len acc =
     guard (1 < base) (
     bnd (push_front (digit_of upper (i mod base)) acc) (\<lambda>acc.
       let len' = (if len > 0 then len - 1 else len) in
       if i div base \<noteq> 0 \<and> (len' = -1 \<or> len' \<noteq> 0)
       then num_loop (i div base) base upper (padding - 1) len' acc
       else Ok (acc, padding - 1)))"
  by pat_completeness auto
termination
proof (relation "measure (\<lambda>(i, base, upper, padding, len, acc). unat i)", goal_cases)
  case (2 i base upper padding len acc acc' len')
  then have "1 < unat base" by (simp add: word_less_nat_alt guard_def split: if_splits)
  moreover have "unat i \<noteq> 0" using 2 by (auto simp: unat_eq_zero)
  ultimately have "unat i div unat base < unat i" by simp
  then show ?case by (simp add: unat_div)
qed simp

declare num_loop.simps [simp del]

fun pad_front :: "nat \<Rightarrow> u8 \<Rightarrow> u8 list \<Rightarrow> u8 list outcome" where
  "pad_front 0 c acc = Ok acc"
| "pad_front (Suc n) c acc = bnd (push_front c acc) (\<lambda>acc. pad_front n c acc)"

definition num_fmt :: "u64 \<Rightarrow> u64 \<Rightarrow> nat \<Rightarrow> u8 \<Rightarrow> bool \<Rightarrow> bool \<Rightarrow> int \<Rightarrow> u8 list outcome" where
  "num_fmt i base padding pad_with handle_signed upper len =
     (let neg = handle_signed \<and> (ucast i :: u32) <s 0;
          i' = (if neg then ucast (- (ucast i :: u32)) else i) in
      bnd (num_loop i' base upper padding len []) (\<lambda>(acc, padding).
      bnd (pad_front padding pad_with acc) (\<lambda>acc.
      if neg then push_front 45 acc else Ok acc)))"

text \<open>\<open>FMT_PUT\<close> over a string: the bytes written, the room left, and whether it ran out.\<close>

fun fmt_puts :: "u8 list \<Rightarrow> nat \<Rightarrow> u8 list \<times> nat \<times> bool" where
  "fmt_puts [] len = ([], len, False)"
| "fmt_puts (c # cs) len =
     (if len = 0 then ([], 0, True)
      else let (out, len', stop) = fmt_puts cs (len - 1) in (c # out, len', stop))"

fun fmt_digits :: "u8 list \<Rightarrow> nat \<Rightarrow> (nat \<times> u8 list) outcome" where
  "fmt_digits [] n = Fault"
| "fmt_digits (c # f) n =
     (if is_digit c then fmt_digits f (n * 10 + (unat c - 48)) else Ok (n, c # f))"

fun fmt_ells :: "u8 list \<Rightarrow> bool \<Rightarrow> (bool \<times> u8 list) outcome" where
  "fmt_ells [] w = Fault"
| "fmt_ells (c # f) w = (if c = 108 then fmt_ells f True else Ok (w, c # f))"

text \<open>The characters a conversion produces (the \<open>switch\<close>), and the arguments left.\<close>

definition fmt_conv :: "u8 \<Rightarrow> nat \<Rightarrow> u8 \<Rightarrow> bool \<Rightarrow> va_arg list \<Rightarrow> (u8 list \<times> va_arg list) outcome" where
  "fmt_conv c padding pad_with wide args =
     (let num = (\<lambda>base sgn upper len.
            bnd (if wide then va_long args else va_int args) (\<lambda>(i, args').
            bnd (num_fmt i base padding pad_with sgn upper len) (\<lambda>s. Ok (s, args')))) in
      if c = 99 then bnd (va_int args) (\<lambda>(i, args'). Ok ([ucast i], args'))
      else if c = 100 then num 10 True False (-1)
      else if c = 117 then num 10 False False (-1)
      else if c = 111 then num 8 False False (-1)
      else if c = 88 \<or> c = 120 then num 16 False (c = 88) (if wide then 16 else 8)
      else if c = 80 \<or> c = 112 then
        bnd (va_ptr args) (\<lambda>(i, args').
        bnd (num_fmt i 16 padding pad_with False (c = 80) 16) (\<lambda>s. Ok (s, args')))
      else if c = 115 then
        bnd (va_str args) (\<lambda>(s, args'). guard (terminated s) (Ok (c_str s, args')))
      else if c = 37 then Ok ([37], args)
      else Ok ([], args))"

lemma fmt_digits_length: "fmt_digits f n = Ok (k, g) \<Longrightarrow> length g \<le> length f"
  by (induction f n rule: fmt_digits.induct) (auto split: if_splits)

lemma fmt_ells_length: "fmt_ells f w = Ok (k, g) \<Longrightarrow> length g \<le> length f"
  by (induction f w rule: fmt_ells.induct) (auto split: if_splits)

definition fmt_directive :: "u8 list \<Rightarrow> (nat \<times> u8 \<times> bool \<times> u8 list) outcome" where
  "fmt_directive f =
     (case f of
        [] \<Rightarrow> Fault
      | c # f' \<Rightarrow>
          bnd (fmt_digits (if c = 48 then f' else f) 0) (\<lambda>(padding, g).
          bnd (fmt_ells g False) (\<lambda>(wide, h).
          Ok (padding, if c = 48 then 48 else 32, wide, h))))"

lemma fmt_directive_length: "fmt_directive f = Ok (p, w, l, h) \<Longrightarrow> length h \<le> length f"
  by (auto simp: fmt_directive_def bnd_eq_Ok split: list.splits if_splits prod.splits
           dest!: fmt_digits_length fmt_ells_length)

function vsn_loop :: "u8 list \<Rightarrow> nat \<Rightarrow> va_arg list \<Rightarrow> u8 list \<Rightarrow> (u8 list \<times> nat) outcome" where
  "vsn_loop [] len args out = Fault"
| "vsn_loop (c # f) len args out =
     (if c = 0 \<or> len = 0 then Ok (out, len)
      else if c \<noteq> 37 then vsn_loop f len args (out @ [c])
      else
        bnd (fmt_directive f) (\<lambda>d.
          case snd (snd (snd d)) of
            [] \<Rightarrow> Fault
          | conv # g \<Rightarrow>
              bnd (fmt_conv conv (fst d) (fst (snd d)) (fst (snd (snd d))) args) (\<lambda>s.
                let (w, len', stop) = fmt_puts (fst s) len in
                if stop then Ok (out @ w, len') else vsn_loop g len' (snd s) (out @ w))))"
  by pat_completeness auto
termination
proof (relation "measure (\<lambda>(f, len, args, out). length f)", goal_cases)
  case (3 c f len args out d conv g s w len' stop)
  then have "fmt_directive f = Ok (fst d, fst (snd d), fst (snd (snd d)), conv # g)"
    by (metis prod.collapse)
  from fmt_directive_length [OF this] show ?case by simp
qed simp_all

definition lai_vsnprintf :: "nat \<Rightarrow> u8 list \<Rightarrow> va_arg list \<Rightarrow> u8 list outcome" where
  "lai_vsnprintf len fmt args =
     bnd (vsn_loop fmt len args []) (\<lambda>(out, len').
     Ok (out @ (if len' = 0 then [46, 46, 46] else []) @ [0]))"

text \<open>\<open>lai_snprintf\<close> into an object: the bytes beyond those written stay.\<close>

definition lai_snprintf :: "u8 list \<Rightarrow> nat \<Rightarrow> u8 list \<Rightarrow> va_arg list \<Rightarrow> u8 list outcome" where
  "lai_snprintf buf len fmt args = bnd (lai_vsnprintf len fmt args) (\<lambda>out. put_block buf 0 out)"

text \<open>
  \<open>lai_debug\<close>, \<open>lai_warn\<close> and \<open>lai_panic\<close> format into \<open>char buf[128 + 16]\<close> with a length
  of 128; the result is the message handed to the host.
\<close>

definition lai_log_message :: "u8 list \<Rightarrow> u8 list \<Rightarrow> va_arg list \<Rightarrow> u8 list outcome" where
  "lai_log_message stack fmt args = bnd (lai_snprintf stack 128 fmt args) (\<lambda>buf. Ok (c_str buf))"

subsection \<open>What the formatter writes\<close>

lemma fmt_puts_room: "fmt_puts cs len = (w, len', stop) \<Longrightarrow> length w + len' = len"
  by (induction cs len arbitrary: w len' stop rule: fmt_puts.induct)
     (auto split: if_splits prod.splits)

lemma fmt_puts_fits:
  "length cs \<le> len \<Longrightarrow> fmt_puts cs len = (cs, len - length cs, False)"
  by (induction cs len rule: fmt_puts.induct) auto

lemma vsn_loop_literal:
  assumes "0 \<notin> set s" and "37 \<notin> set s" and "0 < len"
  shows "vsn_loop (s @ [0]) len args out = Ok (out @ s, len)"
  using assms by (induction s arbitrary: out) auto

subsection \<open>Characters and byte order\<close>

definition lai_is_name :: "u8 \<Rightarrow> bool" where
  "lai_is_name c \<longleftrightarrow> 48 \<le> c \<and> c \<le> 57 \<or> 65 \<le> c \<and> c \<le> 90 \<or> c = 95 \<or> c = 0x5C \<or> c = 0x5E
     \<or> c = 0x2F \<or> c = 0x2E"

definition bswap16 :: "u16 \<Rightarrow> u16" where
  "bswap16 w = (drop_bit 8 w AND 0xFF) OR (push_bit 8 w AND 0xFF00)"

definition bswap32 :: "u32 \<Rightarrow> u32" where
  "bswap32 w = (drop_bit 24 w AND 0xFF) OR (push_bit 8 w AND 0xFF0000)
     OR (drop_bit 8 w AND 0xFF00) OR (push_bit 24 w AND 0xFF000000)"

definition bswap64 :: "u64 \<Rightarrow> u64" where
  "bswap64 q =
     drop_bit 56 (q AND push_bit 56 0xff) OR drop_bit 40 (q AND push_bit 48 0xff)
     OR drop_bit 24 (q AND push_bit 40 0xff) OR drop_bit 8 (q AND push_bit 32 0xff)
     OR push_bit 8 (q AND push_bit 24 0xff) OR push_bit 24 (q AND push_bit 16 0xff)
     OR push_bit 40 (q AND push_bit 8 0xff) OR push_bit 56 (q AND 0xff)"

text \<open>The parameter is a signed \<open>char\<close>: bytes from 128 up are below \<open>'9'\<close>.\<close>

definition char_to_hex :: "u8 \<Rightarrow> u8" where
  "char_to_hex c =
     (if c \<le>s 57 then c - 48
      else if 65 \<le>s c \<and> c \<le>s 70 then c - 65 + 10
      else if 97 \<le>s c \<and> c \<le>s 102 then c - 97 + 10
      else 0)"

text \<open>
  The seven-character branch of \<open>lai_eisaid\<close>; a left shift that leaves \<open>int\<close>, or one of a
  negative value, is a fault.
\<close>

definition eisaid_integer :: "u8 list \<Rightarrow> u64 outcome" where
  "eisaid_integer d =
     guard (0x40 \<le> d ! 0 \<and> d ! 0 < 0x60 \<and> 0x40 \<le> d ! 1 \<and> d ! 1 < 0x80 \<and> 0x40 \<le> d ! 2 \<and> d ! 2 < 0x80)
     (let lt = (\<lambda>k. (scast (d ! k) :: u32) - 0x40);
          hx = (\<lambda>k. ucast (char_to_hex (d ! k)) :: u32);
          r = push_bit 26 (lt 0) OR push_bit 21 (lt 1) OR push_bit 16 (lt 2)
              OR push_bit 12 (hx 3) OR push_bit 8 (hx 4) OR push_bit 4 (hx 5) OR hx 6
      in Ok (ucast (bswap32 r) AND 0xFFFFFFFF))"

lemma mask_bytes:
  "(0xFF::'a::len word) = mask 8" "(0xFF00::'a::len word) = push_bit 8 (mask 8)"
  "(0xFF0000::'a::len word) = push_bit 16 (mask 8)"
  "(0xFF000000::'a::len word) = push_bit 24 (mask 8)"
  by (simp_all add: mask_eq_exp_minus_1 push_bit_eq_mult)

lemma bit_bswap32:
  "bit (bswap32 w) n \<longleftrightarrow> n < 32 \<and>
     bit w (if n < 8 then n + 24 else if n < 16 then n + 8 else if n < 24 then n - 8 else n - 24)"
  unfolding bswap32_def mask_bytes
  by (simp add: bit_simps; linarith?) (auto simp: bit_simps add.commute)

lemma bswap32_bswap32 [simp]: "bswap32 (bswap32 w) = w"
  by (rule bit_word_eqI) (auto simp: bit_bswap32)

lemma bit_bswap64:
  "bit (bswap64 w) n \<longleftrightarrow> n < 64 \<and>
     bit w (if n < 8 then n + 56 else if n < 16 then n + 40 else if n < 24 then n + 24
       else if n < 32 then n + 8 else if n < 40 then n - 8 else if n < 48 then n - 24
       else if n < 56 then n - 40 else n - 56)"
  unfolding bswap64_def mask_bytes
  by (simp add: bit_simps; linarith?) (auto simp: bit_simps add.commute)

lemma bswap64_bswap64 [simp]: "bswap64 (bswap64 w) = w"
  by (rule bit_word_eqI) (auto simp: bit_bswap64)

definition eisa_valid :: "u8 list \<Rightarrow> bool" where
  "eisa_valid d \<longleftrightarrow> length d = 7 \<and> list_all (\<lambda>c. 0x41 \<le> c \<and> c \<le> 0x5A) (take 3 d) \<and>
     list_all (\<lambda>c. 48 \<le> c \<and> c \<le> 57 \<or> 65 \<le> c \<and> c \<le> 70) (drop 3 d)"

lemma eisa_valid_nth:
  assumes "eisa_valid d"
  shows "length d = 7" and "k < 3 \<Longrightarrow> 0x41 \<le> d ! k \<and> d ! k \<le> 0x5A"
    and "3 \<le> k \<Longrightarrow> k < 7 \<Longrightarrow> 48 \<le> d ! k \<and> d ! k \<le> 57 \<or> 65 \<le> d ! k \<and> d ! k \<le> 70"
proof -
  show len: "length d = 7" using assms by (simp add: eisa_valid_def)
  show "k < 3 \<Longrightarrow> 0x41 \<le> d ! k \<and> d ! k \<le> 0x5A"
    using assms len by (auto simp: eisa_valid_def list_all_length)
  assume "3 \<le> k" "k < 7"
  then have "drop 3 d ! (k - 3) = d ! k" "k - 3 < length (drop 3 d)" using len by simp_all
  then show "48 \<le> d ! k \<and> d ! k \<le> 57 \<or> 65 \<le> d ! k \<and> d ! k \<le> 70"
    using assms unfolding eisa_valid_def list_all_length by metis
qed

lemma sint_ascii:
  assumes "(x::u8) < 128"
  shows "sint x = uint x"
proof -
  have "uint x < 2 ^ 7" using assms by (simp add: word_less_def)
  moreover have "- (2 ^ 7) \<le> uint x" by (rule order_trans [of _ 0]) simp_all
  ultimately have "signed_take_bit 7 (uint x) = uint x" by (intro signed_take_bit_int_eq_self)
  then show ?thesis by (simp add: sint_uint)
qed

lemma sle_ascii: "(x::u8) < 128 \<Longrightarrow> y < 128 \<Longrightarrow> x \<le>s y \<longleftrightarrow> x \<le> y"
  by (simp add: word_sle_eq sint_ascii word_le_def)

lemma unat_char_to_hex:
  assumes "48 \<le> (c::u8) \<and> c \<le> 57 \<or> 65 \<le> c \<and> c \<le> 70"
  shows "unat (char_to_hex c) = (if unat c \<le> 57 then unat c - 48 else unat c - 55)"
    and "unat (char_to_hex c) < 16"
proof -
  have lt: "c < 128" using assms by (auto simp: word_le_nat_alt word_less_nat_alt)
  show "unat (char_to_hex c) = (if unat c \<le> 57 then unat c - 48 else unat c - 55)"
    using assms lt
    by (auto simp: char_to_hex_def sle_ascii word_le_nat_alt unat_sub_if_size unat_word_ariths size_word_def)
  then show "unat (char_to_hex c) < 16"
    using assms by (auto simp: word_le_nat_alt)
qed

lemma scast_letter:
  assumes "0x41 \<le> (c::u8)" and "c \<le> 0x5A"
  shows "unat ((scast c :: u32) - 0x40) = unat c - 0x40"
proof -
  have "sint c = uint c" using assms
    by (intro sint_ascii) (simp add: word_le_nat_alt word_less_nat_alt)
  then have "(scast c :: u32) = ucast c" by (simp only: scast_eq ucast_eq)
  then show ?thesis using assms by (simp add: word_le_nat_alt unat_sub_if_size size_word_def unsigned_ucast_eq take_bit_nat_eq_self)
qed

lemma bit_bounded: "unat (w::'a::len word) < 2 ^ k \<Longrightarrow> bit w n \<Longrightarrow> n < k"
proof (rule ccontr)
  assume u: "unat w < 2 ^ k" and b: "bit w n" and "\<not> n < k"
  then have "(2::nat) ^ k \<le> 2 ^ n" by (intro power_increasing) simp_all
  with u have "unat w < 2 ^ n" by (rule less_le_trans)
  then have "unat w div 2 ^ n = 0" by simp
  moreover have "bit (unat w) n" using b by (simp add: bit_unsigned_iff)
  ultimately show False by (simp add: bit_iff_odd)
qed

text \<open>The word \<open>lai_eisaid\<close> builds from the seven values, and how to read them back.\<close>

definition pack7 :: "u32 \<Rightarrow> u32 \<Rightarrow> u32 \<Rightarrow> u32 \<Rightarrow> u32 \<Rightarrow> u32 \<Rightarrow> u32 \<Rightarrow> u32" where
  "pack7 a b c d e f g = push_bit 26 a OR push_bit 21 b OR push_bit 16 c
     OR push_bit 12 d OR push_bit 8 e OR push_bit 4 f OR g"

lemma pack7_fields:
  assumes "\<And>n. bit a n \<Longrightarrow> n < 5" "\<And>n. bit b n \<Longrightarrow> n < 5" "\<And>n. bit c n \<Longrightarrow> n < 5"
    "\<And>n. bit d n \<Longrightarrow> n < 4" "\<And>n. bit e n \<Longrightarrow> n < 4" "\<And>n. bit f n \<Longrightarrow> n < 4" "\<And>n. bit g n \<Longrightarrow> n < 4"
  shows "take_bit 5 (drop_bit 26 (pack7 a b c d e f g)) = a"
    "take_bit 5 (drop_bit 21 (pack7 a b c d e f g)) = b"
    "take_bit 5 (drop_bit 16 (pack7 a b c d e f g)) = c"
    "take_bit 4 (drop_bit 12 (pack7 a b c d e f g)) = d"
    "take_bit 4 (drop_bit 8 (pack7 a b c d e f g)) = e"
    "take_bit 4 (drop_bit 4 (pack7 a b c d e f g)) = f"
    "take_bit 4 (pack7 a b c d e f g) = g"
proof -
  have hi: "\<not> bit a n" "\<not> bit b n" "\<not> bit c n" if "5 \<le> n" for n
    using that assms(1-3) [of n] by (auto simp: not_less [symmetric])
  have lo: "\<not> bit d n" "\<not> bit e n" "\<not> bit f n" "\<not> bit g n" if "4 \<le> n" for n
    using that assms(4-7) [of n] by (auto simp: not_less [symmetric])
  show "take_bit 5 (drop_bit 26 (pack7 a b c d e f g)) = a"
    by (rule bit_word_eqI) (simp add: pack7_def bit_simps hi lo, (use assms(1) in fastforce)?)
  show "take_bit 5 (drop_bit 21 (pack7 a b c d e f g)) = b"
    by (rule bit_word_eqI) (simp add: pack7_def bit_simps hi lo, (use assms(2) in fastforce)?)
  show "take_bit 5 (drop_bit 16 (pack7 a b c d e f g)) = c"
    by (rule bit_word_eqI) (simp add: pack7_def bit_simps hi lo, (use assms(3) in fastforce)?)
  show "take_bit 4 (drop_bit 12 (pack7 a b c d e f g)) = d"
    by (rule bit_word_eqI) (simp add: pack7_def bit_simps hi lo, (use assms(4) in fastforce)?)
  show "take_bit 4 (drop_bit 8 (pack7 a b c d e f g)) = e"
    by (rule bit_word_eqI) (simp add: pack7_def bit_simps hi lo, (use assms(5) in fastforce)?)
  show "take_bit 4 (drop_bit 4 (pack7 a b c d e f g)) = f"
  proof (rule bit_word_eqI)
    fix n
    show "bit (take_bit 4 (drop_bit 4 (pack7 a b c d e f g))) n = bit f n"
    proof (cases "n < 4")
      case True
      then show ?thesis using lo(4) [of "n + 4"] by (simp add: pack7_def bit_simps add.commute)
    next
      case False
      then show ?thesis using lo(3) [of n] by (simp add: bit_simps)
    qed
  qed
  show "take_bit 4 (pack7 a b c d e f g) = g"
  proof (rule bit_word_eqI)
    fix n
    show "bit (take_bit 4 (pack7 a b c d e f g)) n = bit g n"
    proof (cases "n < 4")
      case True
      then show ?thesis by (simp add: pack7_def bit_simps)
    next
      case False
      then show ?thesis using lo(4) [of n] by (simp add: bit_simps)
    qed
  qed
qed

lemma eisaid_integer_pack:
  assumes "eisa_valid d"
  shows "eisaid_integer d = Ok (ucast (bswap32 (pack7 (scast (d ! 0) - 0x40) (scast (d ! 1) - 0x40)
    (scast (d ! 2) - 0x40) (ucast (char_to_hex (d ! 3))) (ucast (char_to_hex (d ! 4)))
    (ucast (char_to_hex (d ! 5))) (ucast (char_to_hex (d ! 6))))))"
proof -
  have l: "0x41 \<le> d ! 0 \<and> d ! 0 \<le> 0x5A" "0x41 \<le> d ! 1 \<and> d ! 1 \<le> 0x5A" "0x41 \<le> d ! 2 \<and> d ! 2 \<le> 0x5A"
    using eisa_valid_nth(2) [OF assms] by simp_all
  have m: "(0xFFFFFFFF :: u64) = mask 32" by (simp add: mask_eq_exp_minus_1)
  have "(ucast (w :: u32) :: u64) AND 0xFFFFFFFF = ucast w" for w
    unfolding m take_bit_eq_mask [symmetric] by (rule bit_word_eqI) (auto simp: bit_simps dest: bit_imp_le_length)
  with l show ?thesis
    by (simp add: eisaid_integer_def Let_def pack7_def guard_def word_le_nat_alt word_less_nat_alt)
qed

lemma eisaid_fields:
  assumes "eisa_valid d"
  shows "\<exists>r. eisaid_integer d = Ok (ucast (bswap32 r)) \<and>
    unat (take_bit 5 (drop_bit 26 r)) = unat (d ! 0) - 0x40 \<and>
    unat (take_bit 5 (drop_bit 21 r)) = unat (d ! 1) - 0x40 \<and>
    unat (take_bit 5 (drop_bit 16 r)) = unat (d ! 2) - 0x40 \<and>
    unat (take_bit 4 (drop_bit 12 r)) = unat (char_to_hex (d ! 3)) \<and>
    unat (take_bit 4 (drop_bit 8 r)) = unat (char_to_hex (d ! 4)) \<and>
    unat (take_bit 4 (drop_bit 4 r)) = unat (char_to_hex (d ! 5)) \<and>
    unat (take_bit 4 r) = unat (char_to_hex (d ! 6))"
proof -
  have l: "unat ((scast (d ! k) :: u32) - 0x40) = unat (d ! k) - 0x40" "unat (d ! k) - 0x40 < 32" if "k < 3" for k
    using eisa_valid_nth(2) [OF assms that] scast_letter [of "d ! k"] by (auto simp: word_le_nat_alt)
  have h: "unat (ucast (char_to_hex (d ! k)) :: u32) = unat (char_to_hex (d ! k))"
      "unat (char_to_hex (d ! k)) < 16" if "3 \<le> k" "k < 7" for k
  proof -
    have "48 \<le> d ! k \<and> d ! k \<le> 57 \<or> 65 \<le> d ! k \<and> d ! k \<le> 70" by (rule eisa_valid_nth(3) [OF assms that])
    from unat_char_to_hex(2) [OF this] show "unat (char_to_hex (d ! k)) < 16" .
    then show "unat (ucast (char_to_hex (d ! k)) :: u32) = unat (char_to_hex (d ! k))"
      by (simp add: unsigned_ucast_eq take_bit_nat_eq_self)
  qed
  have bl: "bit ((scast (d ! k) :: u32) - 0x40) n \<Longrightarrow> n < 5" if "k < 3" for k n
    using bit_bounded [of "(scast (d ! k) :: u32) - 0x40" 5 n] l [OF that] by simp
  have bh: "bit (ucast (char_to_hex (d ! k)) :: u32) n \<Longrightarrow> n < 4" if "3 \<le> k" "k < 7" for k n
    using bit_bounded [of "ucast (char_to_hex (d ! k)) :: u32" 4 n] h [OF that] by simp
  note f = pack7_fields [OF bl [of 0] bl [of 1] bl [of 2] bh [of 3] bh [of 4] bh [of 5] bh [of 6]]
  show ?thesis
    unfolding eisaid_integer_pack [OF assms]
    by (intro exI conjI, rule refl) (simp_all add: f l h)
qed

lemma hex_digit_eq:
  assumes "48 \<le> (c::u8) \<and> c \<le> 57 \<or> 65 \<le> c \<and> c \<le> 70" and "48 \<le> (e::u8) \<and> e \<le> 57 \<or> 65 \<le> e \<and> e \<le> 70"
    and "unat (char_to_hex c) = unat (char_to_hex e)"
  shows "c = e"
proof -
  have "unat c = unat e"
    using assms unat_char_to_hex(1) [OF assms(1)] unat_char_to_hex(1) [OF assms(2)]
    by (auto simp: word_le_nat_alt split: if_splits)
  then show ?thesis by (simp add: word_unat_eq_iff)
qed

lemma ucast_bswap32_eq:
  assumes "(ucast (bswap32 r) :: u64) = ucast (bswap32 s)"
  shows "r = s"
proof -
  have "bswap32 r = bswap32 s"
  proof (rule bit_word_eqI)
    fix n assume "n < LENGTH(32)"
    moreover have "bit (ucast (bswap32 r) :: u64) n = bit (ucast (bswap32 s) :: u64) n"
      by (simp add: assms)
    ultimately show "bit (bswap32 r) n = bit (bswap32 s) n" by (simp add: bit_unsigned_iff)
  qed
  then have "bswap32 (bswap32 r) = bswap32 (bswap32 s)" by simp
  then show ?thesis by simp
qed

lemma eisa_letter_ge: "eisa_valid d \<Longrightarrow> k < 3 \<Longrightarrow> 0x40 \<le> unat (d ! k)"
  using eisa_valid_nth(2) [of d k] by (simp add: word_le_nat_alt)

lemma eisaid_integer_inj:
  assumes "eisa_valid d" and "eisa_valid e" and "eisaid_integer d = eisaid_integer e"
  shows "d = e"
proof -
  obtain r where r: "eisaid_integer d = Ok (ucast (bswap32 r))"
    "unat (take_bit 5 (drop_bit 26 r)) = unat (d ! 0) - 0x40"
    "unat (take_bit 5 (drop_bit 21 r)) = unat (d ! 1) - 0x40"
    "unat (take_bit 5 (drop_bit 16 r)) = unat (d ! 2) - 0x40"
    "unat (take_bit 4 (drop_bit 12 r)) = unat (char_to_hex (d ! 3))"
    "unat (take_bit 4 (drop_bit 8 r)) = unat (char_to_hex (d ! 4))"
    "unat (take_bit 4 (drop_bit 4 r)) = unat (char_to_hex (d ! 5))"
    "unat (take_bit 4 r) = unat (char_to_hex (d ! 6))"
    using eisaid_fields [OF assms(1)] by blast
  obtain q where q: "eisaid_integer e = Ok (ucast (bswap32 q))"
    "unat (take_bit 5 (drop_bit 26 q)) = unat (e ! 0) - 0x40"
    "unat (take_bit 5 (drop_bit 21 q)) = unat (e ! 1) - 0x40"
    "unat (take_bit 5 (drop_bit 16 q)) = unat (e ! 2) - 0x40"
    "unat (take_bit 4 (drop_bit 12 q)) = unat (char_to_hex (e ! 3))"
    "unat (take_bit 4 (drop_bit 8 q)) = unat (char_to_hex (e ! 4))"
    "unat (take_bit 4 (drop_bit 4 q)) = unat (char_to_hex (e ! 5))"
    "unat (take_bit 4 q) = unat (char_to_hex (e ! 6))"
    using eisaid_fields [OF assms(2)] by blast
  have "r = q" using r(1) q(1) assms(3) by (intro ucast_bswap32_eq) simp
  note f = r(2-8) [unfolded \<open>r = q\<close> q(2-8)]
  note vd = eisa_valid_nth [OF assms(1)] and ve = eisa_valid_nth [OF assms(2)]
  have letter: "d ! k = e ! k" if "unat (e ! k) - 0x40 = unat (d ! k) - 0x40" "k < 3" for k
    using that eisa_letter_ge [OF assms(1), of k] eisa_letter_ge [OF assms(2), of k]
    by (simp add: word_unat_eq_iff)
  have digit: "d ! k = e ! k" if "unat (char_to_hex (e ! k)) = unat (char_to_hex (d ! k))"
      "3 \<le> k" "k < 7" for k
    using hex_digit_eq [OF vd(3) ve(3)] that by simp
  show ?thesis
  proof (rule nth_equalityI)
    fix k assume "k < length d"
    then have "k = 0 \<or> k = 1 \<or> k = 2 \<or> k = 3 \<or> k = 4 \<or> k = 5 \<or> k = 6"
      using vd(1) by linarith
    with f letter digit show "d ! k = e ! k" by (elim disjE) simp_all
  qed (simp add: vd(1) ve(1))
qed

subsection \<open>Properties\<close>

text \<open>
  The compressed EISA id that \<open>lai_eisaid\<close> computes identifies the device: two different
  well formed ids (three capital letters and four upper-case hex digits) get different
  integers, and neither computation leaves the range of \<open>int\<close>.
\<close>

theorem eisaid_injective:
  assumes "eisa_valid d" and "eisa_valid e" and "d \<noteq> e"
  shows "\<exists>x y. eisaid_integer d = Ok x \<and> eisaid_integer e = Ok y \<and> x \<noteq> y"
  using eisaid_fields [OF assms(1)] eisaid_fields [OF assms(2)]
    eisaid_integer_inj [OF assms(1,2)] assms(3) by metis

lemma eisaid_injective_witness:
  "\<exists>x y. eisaid_integer (bytes_of ''PNP0A03'') = Ok x \<and>
     eisaid_integer (bytes_of ''PNP0A08'') = Ok y \<and> x \<noteq> y"
  by (rule eisaid_injective) (simp_all add: eisa_valid_def)

text \<open>
  \<open>lai_strcmp\<close> on terminated strings returns one of -1, 0, 1; 0 exactly for equal
  strings and -1 exactly when the first is lexicographically below the second.
\<close>

theorem lai_strcmp_correct:
  assumes "terminated a" and "terminated b"
  shows "(\<exists>r \<in> {-1, 0, 1}. lai_strcmp a b = Ok r) \<and>
    (lai_strcmp a b = Ok 0 \<longleftrightarrow> c_str a = c_str b) \<and>
    (lai_strcmp a b = Ok (-1) \<longleftrightarrow> (c_str a, c_str b) \<in> lexord {(x, y). x < y})"
  using lai_strcmp_total [OF assms] lai_strcmp_zero [OF assms] lai_strcmp_less [OF assms] by blast

lemma lai_strcmp_correct_witness:
  "(\<exists>r \<in> {-1, 0, 1}. lai_strcmp (bytes_of ''_SB'' @ [0]) (bytes_of ''_SI'' @ [0, 7]) = Ok r) \<and>
    (lai_strcmp (bytes_of ''_SB'' @ [0]) (bytes_of ''_SI'' @ [0, 7]) = Ok 0 \<longleftrightarrow>
      c_str (bytes_of ''_SB'' @ [0]) = c_str (bytes_of ''_SI'' @ [0, 7])) \<and>
    (lai_strcmp (bytes_of ''_SB'' @ [0]) (bytes_of ''_SI'' @ [0, 7]) = Ok (-1) \<longleftrightarrow>
      (c_str (bytes_of ''_SB'' @ [0]), c_str (bytes_of ''_SI'' @ [0, 7])) \<in> lexord {(x, y). x < y})"
  by (rule lai_strcmp_correct) simp_all

text \<open>
  The message buffer of \<open>lai_debug\<close>, \<open>lai_warn\<close> and \<open>lai_panic\<close> (144 bytes, formatted
  with a length of 128) is overrun by a literal message of 144 characters or more, although
  the length argument is below the size of the buffer.
\<close>

theorem lai_log_message_overrun:
  assumes "length stack = 128 + 16" and "0 \<notin> set s" and "37 \<notin> set s" and "144 \<le> length s"
  shows "lai_log_message stack (s @ [0]) args = Fault"
  using assms
  by (simp add: lai_log_message_def lai_snprintf_def lai_vsnprintf_def vsn_loop_literal put_block_def)

lemma lai_log_message_overrun_witness:
  "lai_log_message (replicate 144 0) (replicate 144 65 @ [0]) [] = Fault"
  by (rule lai_log_message_overrun) simp_all

end
