(* ===== verification/Lai_Heap.thy ===== *)
theory Lai_Heap
  imports Lai_Text
begin

text \<open>
  The objects of the interpreter: \<open>lai_variable_t\<close> and the reference-counted heads of strings,
  buffers and packages (\<open>lai/include/lai/internal-exec.h\<close>), and the operations on variables
  of \<open>lai/core/variable.c\<close> with the counters of \<open>lai/include/lai/internal-util.h\<close>.

  The heap is a list of cells; an address is an index that is never reused, and a cell is
  \<open>None\<close> once it is freed.  Addresses of variables in C become values here: an operation on
  \<open>lai_variable_t *\<close> takes the old contents and returns the new ones, and elements of packages
  are written in the heap, before the value they replace is released, as in C.

  \<open>rc_ok R hp\<close> says that every counter equals the number of references, from the roots \<open>R\<close>
  and from the elements of packages.  The lemmas show that releasing a reference terminates
  (the fuel, the number of cells, is enough), neither panics nor faults, keeps the invariant
  for the remaining roots and leaves no dead cell behind.
\<close>

subsection \<open>Variables and heads\<close>

datatype var_type =
    LAI_NONE | LAI_INTEGER | LAI_STRING | LAI_BUFFER | LAI_PACKAGE
  | LAI_HANDLE | LAI_LAZY_HANDLE
  | LAI_ARG_REF | LAI_LOCAL_REF | LAI_NODE_REF
  | LAI_STRING_INDEX | LAI_BUFFER_INDEX | LAI_PACKAGE_INDEX

text \<open>The anonymous union: a head, an unresolved name with its context, or an invocation's slot.\<close>

datatype lai_ptr =
    PNull
  | PHead nat
  | PUnres (unres_ctx_handle: "nat option") (unres_aml: "u8 list")
  | PIref (iref_invocation: nat) (iref_index: nat)

record lai_variable =
  v_type :: var_type
  v_integer :: u64
  v_ptr :: lai_ptr
  v_handle :: "nat option"

definition var0 :: lai_variable where
  "var0 = \<lparr>v_type = LAI_NONE, v_integer = 0, v_ptr = PNull, v_handle = None\<rparr>"

definition int_var :: "u64 \<Rightarrow> lai_variable" where
  "int_var i = var0\<lparr>v_type := LAI_INTEGER, v_integer := i\<rparr>"

record lai_string_head =
  s_rc :: int
  s_capacity :: nat
  s_content :: "u8 list"

record lai_buffer_head =
  b_rc :: int
  b_size :: nat
  b_content :: "u8 list"

record lai_pkg_head =
  p_rc :: int
  p_size :: nat
  p_elems :: "lai_variable list"

datatype lai_head = HStr lai_string_head | HBuf lai_buffer_head | HPkg lai_pkg_head

text \<open>
  \<open>mem_ok k\<close> is the answer of the host to the \<open>k\<close>-th allocation, \<open>mem_junk\<close> what fresh memory
  holds.
\<close>

record lai_heap =
  cells :: "lai_head option list"
  mem_ok :: "nat \<Rightarrow> bool"
  mem_clock :: nat
  mem_junk :: "nat \<Rightarrow> u8"

definition laihost_malloc :: "'w lai_heap_scheme \<Rightarrow> bool \<times> 'w lai_heap_scheme" where
  "laihost_malloc hp = (mem_ok hp (mem_clock hp), hp\<lparr>mem_clock := Suc (mem_clock hp)\<rparr>)"

definition cell :: "'w lai_heap_scheme \<Rightarrow> nat \<Rightarrow> lai_head option" where
  "cell hp a = (if a < length (cells hp) then cells hp ! a else None)"

definition put_cell :: "'w lai_heap_scheme \<Rightarrow> nat \<Rightarrow> lai_head option \<Rightarrow> 'w lai_heap_scheme" where
  "put_cell hp a h = hp\<lparr>cells := (cells hp)[a := h]\<rparr>"

definition new_cell :: "'w lai_heap_scheme \<Rightarrow> lai_head option \<Rightarrow> 'w lai_heap_scheme" where
  "new_cell hp h = hp\<lparr>cells := cells hp @ [h]\<rparr>"

definition deref :: "'w lai_heap_scheme \<Rightarrow> lai_ptr \<Rightarrow> (nat \<times> lai_head) outcome" where
  "deref hp p = (case p of
     PHead a \<Rightarrow> (case cell hp a of Some h \<Rightarrow> Ok (a, h) | None \<Rightarrow> Fault)
   | _ \<Rightarrow> Fault)"

definition string_head :: "'w lai_heap_scheme \<Rightarrow> lai_ptr \<Rightarrow> (nat \<times> lai_string_head) outcome" where
  "string_head hp p = bnd (deref hp p) (\<lambda>(a, h). case h of HStr s \<Rightarrow> Ok (a, s) | _ \<Rightarrow> Fault)"

definition buffer_head :: "'w lai_heap_scheme \<Rightarrow> lai_ptr \<Rightarrow> (nat \<times> lai_buffer_head) outcome" where
  "buffer_head hp p = bnd (deref hp p) (\<lambda>(a, h). case h of HBuf b \<Rightarrow> Ok (a, b) | _ \<Rightarrow> Fault)"

definition pkg_head :: "'w lai_heap_scheme \<Rightarrow> lai_ptr \<Rightarrow> (nat \<times> lai_pkg_head) outcome" where
  "pkg_head hp p = bnd (deref hp p) (\<lambda>(a, h). case h of HPkg g \<Rightarrow> Ok (a, g) | _ \<Rightarrow> Fault)"

subsection \<open>Reference counts\<close>

primrec head_rc :: "lai_head \<Rightarrow> int" where
  "head_rc (HStr s) = s_rc s"
| "head_rc (HBuf b) = b_rc b"
| "head_rc (HPkg g) = p_rc g"

primrec with_rc :: "lai_head \<Rightarrow> int \<Rightarrow> lai_head" where
  "with_rc (HStr s) n = HStr (s\<lparr>s_rc := n\<rparr>)"
| "with_rc (HBuf b) n = HBuf (b\<lparr>b_rc := n\<rparr>)"
| "with_rc (HPkg g) n = HPkg (g\<lparr>p_rc := n\<rparr>)"

definition lai_rc_ref :: "int \<Rightarrow> int outcome" where
  "lai_rc_ref rc = ensure (rc > 0) (Ok (rc + 1))"

definition lai_rc_unref :: "int \<Rightarrow> (int \<times> bool) outcome" where
  "lai_rc_unref rc = ensure (rc - 1 \<ge> 0) (Ok (rc - 1, rc - 1 = 0))"

datatype head_kind = KStr | KBuf | KPkg

primrec kind_of :: "lai_head \<Rightarrow> head_kind" where
  "kind_of (HStr s) = KStr"
| "kind_of (HBuf b) = KBuf"
| "kind_of (HPkg g) = KPkg"

text \<open>The \<open>switch\<close> that \<open>lai_var_assign\<close> and \<open>lai_var_finalize\<close> share: which counter a type has.\<close>

fun counted :: "var_type \<Rightarrow> head_kind option" where
  "counted LAI_STRING = Some KStr"
| "counted LAI_STRING_INDEX = Some KStr"
| "counted LAI_BUFFER = Some KBuf"
| "counted LAI_BUFFER_INDEX = Some KBuf"
| "counted LAI_PACKAGE = Some KPkg"
| "counted LAI_PACKAGE_INDEX = Some KPkg"
| "counted _ = None"

definition counted_head :: "'w lai_heap_scheme \<Rightarrow> lai_variable \<Rightarrow> (nat \<times> lai_head) option outcome" where
  "counted_head hp v = (case counted (v_type v) of
     None \<Rightarrow> Ok None
   | Some k \<Rightarrow> bnd (deref hp (v_ptr v)) (\<lambda>(a, h). guard (kind_of h = k) (Ok (Some (a, h)))))"

text \<open>\<open>var_ref\<close>: the \<open>switch\<close> of \<open>lai_var_assign\<close>.\<close>

definition var_ref :: "'w lai_heap_scheme \<Rightarrow> lai_variable \<Rightarrow> 'w lai_heap_scheme outcome" where
  "var_ref hp v = bnd (counted_head hp v) (\<lambda>r. case r of
     None \<Rightarrow> Ok hp
   | Some (a, h) \<Rightarrow> bnd (lai_rc_ref (head_rc h)) (\<lambda>n. Ok (put_cell hp a (Some (with_rc h n)))))"

text \<open>
  \<open>var_unref\<close>: the \<open>switch\<close> of \<open>lai_var_finalize\<close> up to \<open>laihost_free_package\<close>; the address of
  a package whose last reference this was is returned.
\<close>

definition var_unref :: "'w lai_heap_scheme \<Rightarrow> lai_variable \<Rightarrow>
    ('w lai_heap_scheme \<times> nat option) outcome" where
  "var_unref hp v = bnd (counted_head hp v) (\<lambda>r. case r of
     None \<Rightarrow> Ok (hp, None)
   | Some (a, h) \<Rightarrow>
       bnd (lai_rc_unref (head_rc h)) (\<lambda>(n, last).
       if \<not> last then Ok (put_cell hp a (Some (with_rc h n)), None)
       else if kind_of h = KPkg then Ok (put_cell hp a (Some (with_rc h n)), Some a)
       else Ok (put_cell hp a None, None)))"

definition pkg_elem :: "'w lai_heap_scheme \<Rightarrow> nat \<Rightarrow> nat \<Rightarrow> lai_variable outcome" where
  "pkg_elem hp a i = bnd (pkg_head hp (PHead a)) (\<lambda>(_, g). rd (p_elems g) i)"

definition set_elem :: "'w lai_heap_scheme \<Rightarrow> nat \<Rightarrow> nat \<Rightarrow> lai_variable \<Rightarrow>
    'w lai_heap_scheme outcome" where
  "set_elem hp a i v = bnd (pkg_head hp (PHead a)) (\<lambda>(_, g).
     bnd (wr (p_elems g) i v) (\<lambda>es. Ok (put_cell hp a (Some (HPkg (g\<lparr>p_elems := es\<rparr>))))))"

fun finalize_elems :: "('w lai_heap_scheme \<Rightarrow> lai_variable \<Rightarrow> 'w lai_heap_scheme outcome) \<Rightarrow>
    'w lai_heap_scheme \<Rightarrow> nat \<Rightarrow> nat list \<Rightarrow> 'w lai_heap_scheme outcome" where
  "finalize_elems fin hp a [] = Ok hp"
| "finalize_elems fin hp a (i # is) =
     bnd (pkg_elem hp a i) (\<lambda>e.
     bnd (fin hp e) (\<lambda>hp.
     bnd (set_elem hp a i var0) (\<lambda>hp.
     finalize_elems fin hp a is)))"

definition laihost_free_package :: "('w lai_heap_scheme \<Rightarrow> lai_variable \<Rightarrow> 'w lai_heap_scheme outcome)
    \<Rightarrow> 'w lai_heap_scheme \<Rightarrow> nat \<Rightarrow> 'w lai_heap_scheme outcome" where
  "laihost_free_package fin hp a =
     bnd (pkg_head hp (PHead a)) (\<lambda>(_, g).
     bnd (finalize_elems fin hp a [0..<p_size g]) (\<lambda>hp.
     bnd (pkg_head hp (PHead a)) (\<lambda>_.
     Ok (put_cell hp a None))))"

text \<open>The fuel bounds the nesting of \<open>laihost_free_package\<close>; the variable itself becomes \<open>var0\<close>.\<close>

primrec var_finalize_fuel :: "nat \<Rightarrow> 'w lai_heap_scheme \<Rightarrow> lai_variable \<Rightarrow>
    'w lai_heap_scheme outcome" where
  "var_finalize_fuel 0 hp v =
     bnd (var_unref hp v) (\<lambda>(hp, z). case z of None \<Rightarrow> Ok hp | Some a \<Rightarrow> Stuck)"
| "var_finalize_fuel (Suc n) hp v =
     bnd (var_unref hp v) (\<lambda>(hp, z). case z of
       None \<Rightarrow> Ok hp
     | Some a \<Rightarrow> laihost_free_package (var_finalize_fuel n) hp a)"

definition lai_var_finalize :: "'w lai_heap_scheme \<Rightarrow> lai_variable \<Rightarrow> 'w lai_heap_scheme outcome" where
  "lai_var_finalize hp v = var_finalize_fuel (length (cells hp)) hp v"

text \<open>
  Moves and assignments return the heap and the new contents of the destination; the source
  of a move becomes \<open>var0\<close>.
\<close>

definition lai_swap_object :: "lai_variable \<Rightarrow> lai_variable \<Rightarrow> lai_variable \<times> lai_variable" where
  "lai_swap_object first second = (let temp = first in (second, temp))"

definition lai_var_move :: "'w lai_heap_scheme \<Rightarrow> lai_variable \<Rightarrow> lai_variable \<Rightarrow>
    ('w lai_heap_scheme \<times> lai_variable \<times> lai_variable) outcome" where
  "lai_var_move hp destination source =
     (let (temp, source) = lai_swap_object var0 source;
          (temp, destination) = lai_swap_object temp destination in
      bnd (lai_var_finalize hp temp) (\<lambda>hp. Ok (hp, destination, source)))"

definition lai_var_assign :: "'w lai_heap_scheme \<Rightarrow> lai_variable \<Rightarrow> lai_variable \<Rightarrow>
    ('w lai_heap_scheme \<times> lai_variable) outcome" where
  "lai_var_assign hp dest src =
     bnd (var_ref hp src) (\<lambda>hp.
     bnd (lai_var_move hp dest src) (\<lambda>(hp, dest, _). Ok (hp, dest)))"

text \<open>The same two with an element of a package as the destination.\<close>

definition elem_move :: "'w lai_heap_scheme \<Rightarrow> nat \<Rightarrow> nat \<Rightarrow> lai_variable \<Rightarrow>
    'w lai_heap_scheme outcome" where
  "elem_move hp a i v =
     bnd (pkg_elem hp a i) (\<lambda>old.
     bnd (set_elem hp a i v) (\<lambda>hp.
     lai_var_finalize hp old))"

definition elem_assign :: "'w lai_heap_scheme \<Rightarrow> nat \<Rightarrow> nat \<Rightarrow> lai_variable \<Rightarrow>
    'w lai_heap_scheme outcome" where
  "elem_assign hp a i v = bnd (var_ref hp v) (\<lambda>hp. elem_move hp a i v)"

subsection \<open>The counting invariant\<close>

type_synonym lai_ref = "head_kind \<times> lai_ptr"

definition var_refs :: "lai_variable \<Rightarrow> lai_ref multiset" where
  "var_refs v = (case counted (v_type v) of None \<Rightarrow> {#} | Some k \<Rightarrow> {#(k, v_ptr v)#})"

text \<open>A package whose counter is zero is being freed: its elements are on their way out.\<close>

primrec head_refs :: "lai_head \<Rightarrow> lai_ref multiset" where
  "head_refs (HStr s) = {#}"
| "head_refs (HBuf b) = {#}"
| "head_refs (HPkg g) =
     (if p_rc g = 0 then {#} else sum_list (map var_refs (take (p_size g) (p_elems g))))"

definition cell_refs :: "lai_head option \<Rightarrow> lai_ref multiset" where
  "cell_refs c = (case c of None \<Rightarrow> {#} | Some h \<Rightarrow> head_refs h)"

definition heap_refs :: "'w lai_heap_scheme \<Rightarrow> lai_ref multiset" where
  "heap_refs hp = sum_list (map cell_refs (cells hp))"

primrec head_ok :: "lai_head \<Rightarrow> bool" where
  "head_ok (HStr s) = True"
| "head_ok (HBuf b) = True"
| "head_ok (HPkg g) = (p_size g \<le> length (p_elems g))"

definition rc_ok :: "lai_ref multiset \<Rightarrow> 'w lai_heap_scheme \<Rightarrow> bool" where
  "rc_ok R hp \<longleftrightarrow>
     (\<forall>r \<in># R + heap_refs hp. \<exists>a h. r = (kind_of h, PHead a) \<and> cell hp a = Some h) \<and>
     (\<forall>a h. cell hp a = Some h \<longrightarrow>
        head_ok h \<and> head_rc h = int (count (R + heap_refs hp) (kind_of h, PHead a)))"

definition dead :: "'w lai_heap_scheme \<Rightarrow> nat set" where
  "dead hp = {a. \<exists>h. cell hp a = Some h \<and> head_rc h = 0}"

definition busy :: "'w lai_heap_scheme \<Rightarrow> nat set" where
  "busy hp = {a. \<exists>g. cell hp a = Some (HPkg g) \<and> p_rc g \<noteq> 0}"

text \<open>Every object is live and counted: the state between operations.\<close>

definition heap_inv :: "lai_ref multiset \<Rightarrow> 'w lai_heap_scheme \<Rightarrow> bool" where
  "heap_inv R hp \<longleftrightarrow> rc_ok R hp \<and> dead hp = {}"

lemma cell_put_cell: "cell (put_cell hp a h) b = (if b = a \<and> a < length (cells hp) then h else cell hp b)"
  by (auto simp: cell_def put_cell_def nth_list_update)

lemma cell_Some_lt: "cell hp a = Some h \<Longrightarrow> a < length (cells hp)"
  by (simp add: cell_def split: if_splits)

lemma length_put_cell [simp]: "length (cells (put_cell hp a h)) = length (cells hp)"
  by (simp add: put_cell_def)

lemma busy_finite: "finite (busy hp)" "card (busy hp) \<le> length (cells hp)"
proof -
  have "busy hp \<subseteq> {0..<length (cells hp)}" by (auto simp: busy_def dest: cell_Some_lt)
  then show "finite (busy hp)" "card (busy hp) \<le> length (cells hp)"
    using card_mono [of "{0..<length (cells hp)}" "busy hp"] by (auto intro: finite_subset)
qed

lemma heap_refs_put:
  assumes "cell hp a = Some h"
  shows "heap_refs (put_cell hp a c) + head_refs h = heap_refs hp + cell_refs c"
proof -
  have lt: "a < length (cells hp)" and c: "cells hp ! a = Some h"
    using assms by (auto simp: cell_def split: if_splits)
  from sum_list_update_add [OF lt, of cell_refs c] show ?thesis
    by (simp add: heap_refs_def put_cell_def c cell_refs_def)
qed

lemma head_refs_with_rc:
  "n \<noteq> 0 \<Longrightarrow> head_rc h \<noteq> 0 \<Longrightarrow> head_refs (with_rc h n) = head_refs h"
  by (cases h) auto

lemma with_rc_simps [simp]:
  "head_rc (with_rc h n) = n" "kind_of (with_rc h n) = kind_of h" "head_ok (with_rc h n) = head_ok h"
  by (cases h; simp)+

lemma rc_okD:
  assumes "rc_ok R hp" and "cell hp a = Some h"
  shows "head_ok h" and "head_rc h = int (count (R + heap_refs hp) (kind_of h, PHead a))"
  using assms unfolding rc_ok_def by blast+

lemma rc_ok_ref:
  assumes "rc_ok R hp" and "r \<in># R + heap_refs hp"
  obtains a h where "r = (kind_of h, PHead a)" and "cell hp a = Some h" and "0 < head_rc h"
proof -
  from assms obtain a h where ah: "r = (kind_of h, PHead a)" "cell hp a = Some h"
    unfolding rc_ok_def by blast
  from assms(2) have "0 < count (R + heap_refs hp) r" by (simp only: count_greater_zero_iff)
  with rc_okD(2) [OF assms(1) ah(2)] ah(1) have "0 < head_rc h" by (metis of_nat_0_less_iff)
  with ah that show thesis by blast
qed

lemma rc_okI:
  assumes "\<And>r. r \<in># R + heap_refs hp \<Longrightarrow> \<exists>a h. r = (kind_of h, PHead a) \<and> cell hp a = Some h"
    and "\<And>a h. cell hp a = Some h \<Longrightarrow> head_ok h"
    and "\<And>a h. cell hp a = Some h \<Longrightarrow>
      head_rc h = int (count (R + heap_refs hp) (kind_of h, PHead a))"
  shows "rc_ok R hp"
  using assms unfolding rc_ok_def by blast

text \<open>One cell changes its counter by as much as the references to it change.\<close>

lemma rc_ok_recount:
  assumes ok: "rc_ok R hp" and c: "cell hp a = Some h"
    and refs: "R' + heap_refs hp' + add = R + heap_refs hp + extra"
    and hp': "hp' = put_cell hp a (Some h')" and kind: "kind_of h' = kind_of h" and hok: "head_ok h'"
    and only: "set_mset add \<subseteq> {(kind_of h, PHead a)}" "set_mset extra \<subseteq> {(kind_of h, PHead a)}"
    and cnt: "head_rc h' = head_rc h + int (size extra) - int (size add)"
  shows "rc_ok R' hp'"
proof (rule rc_okI)
  have lt: "a < length (cells hp)" by (rule cell_Some_lt [OF c])
  have cell': "cell hp' b = (if b = a then Some h' else cell hp b)" for b
    by (simp add: hp' cell_put_cell lt)
  have cnt_other: "count (R' + heap_refs hp') r = count (R + heap_refs hp) r"
    if "r \<noteq> (kind_of h, PHead a)" for r
  proof -
    have "count add r = 0" "count extra r = 0" using only that by (meson count_eq_zero_iff singletonD subsetD)+
    moreover have "count (R' + heap_refs hp' + add) r = count (R + heap_refs hp + extra) r"
      by (simp only: refs)
    ultimately show ?thesis by simp
  qed
  have cnt_self: "int (count (R' + heap_refs hp') (kind_of h, PHead a))
      = int (count (R + heap_refs hp) (kind_of h, PHead a)) + int (size extra) - int (size add)"
  proof -
    have sz: "count M r = size M" if "set_mset M \<subseteq> {r}" for M :: "lai_ref multiset" and r
      using that by (metis count_replicate_mset set_mset_subset_singletonD size_replicate_mset)
    have "count (R' + heap_refs hp' + add) (kind_of h, PHead a)
        = count (R + heap_refs hp + extra) (kind_of h, PHead a)" by (simp only: refs)
    with sz [OF only(1)] sz [OF only(2)] show ?thesis by simp
  qed
  show "\<exists>b g. r = (kind_of g, PHead b) \<and> cell hp' b = Some g" if r: "r \<in># R' + heap_refs hp'" for r
  proof (cases "r = (kind_of h, PHead a)")
    case True
    then show ?thesis using kind by (auto simp: cell')
  next
    case False
    with cnt_other [OF False] r have "r \<in># R + heap_refs hp"
      by (metis count_greater_zero_iff)
    from rc_ok_ref [OF ok this] obtain b g where "r = (kind_of g, PHead b)" "cell hp b = Some g" .
    with False c show ?thesis by (auto simp: cell')
  qed
  fix b g assume g: "cell hp' b = Some g"
  show "head_ok g" using g hok rc_okD(1) [OF ok] by (auto simp: cell' split: if_splits)
  show "head_rc g = int (count (R' + heap_refs hp') (kind_of g, PHead b))"
  proof (cases "b = a")
    case True
    with g have "g = h'" by (simp add: cell')
    with True show ?thesis using kind cnt cnt_self rc_okD(2) [OF ok c] by simp
  next
    case False
    with g have "cell hp b = Some g" by (simp add: cell')
    with rc_okD(2) [OF ok this] cnt_other [of "(kind_of g, PHead b)"] False show ?thesis by simp
  qed
qed

lemma rc_ok_drop_cell:
  assumes ok: "rc_ok R hp" and c: "cell hp a = Some h"
    and refs: "R' + heap_refs (put_cell hp a None) + add = R + heap_refs hp"
    and only: "set_mset add \<subseteq> {(kind_of h, PHead a)}"
    and gone: "(kind_of h, PHead a) \<notin># R' + heap_refs (put_cell hp a None)"
  shows "rc_ok R' (put_cell hp a None)"
proof (rule rc_okI)
  let ?hp' = "put_cell hp a None"
  have lt: "a < length (cells hp)" by (rule cell_Some_lt [OF c])
  have cell': "cell ?hp' b = (if b = a then None else cell hp b)" for b
    by (simp add: cell_put_cell lt)
  have cnt_other: "count (R' + heap_refs ?hp') r = count (R + heap_refs hp) r"
    if "r \<noteq> (kind_of h, PHead a)" for r
  proof -
    have "count add r = 0" using only that by (meson count_eq_zero_iff singletonD subsetD)
    moreover have "count (R' + heap_refs ?hp' + add) r = count (R + heap_refs hp) r"
      by (simp only: refs)
    ultimately show ?thesis by simp
  qed
  show "\<exists>b g. r = (kind_of g, PHead b) \<and> cell ?hp' b = Some g" if r: "r \<in># R' + heap_refs ?hp'" for r
  proof -
    have ne: "r \<noteq> (kind_of h, PHead a)" using r gone by blast
    with cnt_other [OF ne] r have "r \<in># R + heap_refs hp" by (metis count_greater_zero_iff)
    from rc_ok_ref [OF ok this] obtain b g where "r = (kind_of g, PHead b)" "cell hp b = Some g" .
    with ne c show ?thesis by (auto simp: cell')
  qed
  fix b g assume g: "cell ?hp' b = Some g"
  then have b: "b \<noteq> a" "cell hp b = Some g" by (auto simp: cell' split: if_splits)
  show "head_ok g" by (rule rc_okD(1) [OF ok b(2)])
  show "head_rc g = int (count (R' + heap_refs ?hp') (kind_of g, PHead b))"
    using rc_okD(2) [OF ok b(2)] cnt_other [of "(kind_of g, PHead b)"] b(1) by simp
qed

lemma counted_head_spec:
  assumes "rc_ok (R + var_refs v) hp"
  shows "(counted (v_type v) = None \<and> var_refs v = {#} \<and> counted_head hp v = Ok None) \<or>
    (\<exists>a h. counted_head hp v = Ok (Some (a, h)) \<and> cell hp a = Some h \<and> 0 < head_rc h \<and>
       var_refs v = {#(kind_of h, PHead a)#} \<and> v_ptr v = PHead a \<and> counted (v_type v) = Some (kind_of h))"
proof (cases "counted (v_type v)")
  case None
  then show ?thesis by (simp add: counted_head_def var_refs_def)
next
  case (Some k)
  then have "(k, v_ptr v) \<in># R + var_refs v + heap_refs hp" by (simp add: var_refs_def)
  from rc_ok_ref [OF assms this] obtain a h where "(k, v_ptr v) = (kind_of h, PHead a)"
    "cell hp a = Some h" "0 < head_rc h" .
  with Some show ?thesis by (simp add: counted_head_def var_refs_def deref_def)
qed

lemma var_ref_Ok:
  assumes "rc_ok R hp" and "var_refs v \<subseteq># R + heap_refs hp"
  shows "\<exists>hp'. var_ref hp v = Ok hp' \<and> rc_ok (R + var_refs v) hp' \<and> dead hp' = dead hp \<and>
    length (cells hp') = length (cells hp) \<and> heap_refs hp' = heap_refs hp"
proof (cases "counted (v_type v)")
  case None
  then show ?thesis using assms(1) by (simp add: var_ref_def counted_head_def var_refs_def)
next
  case (Some k)
  then have "(k, v_ptr v) \<in># R + heap_refs hp" using assms(2) by (simp add: var_refs_def)
  from rc_ok_ref [OF assms(1) this] obtain a h where ah: "(k, v_ptr v) = (kind_of h, PHead a)"
    "cell hp a = Some h" "0 < head_rc h" .
  let ?h' = "with_rc h (head_rc h + 1)" and ?hp' = "put_cell hp a (Some (with_rc h (head_rc h + 1)))"
  have refs: "heap_refs ?hp' = heap_refs hp"
    using heap_refs_put [OF ah(2), of "Some ?h'"] ah(3) by (simp add: cell_refs_def head_refs_with_rc)
  have "rc_ok (R + var_refs v) ?hp'"
    by (rule rc_ok_recount [OF assms(1) ah(2), where add = "{#}" and extra = "var_refs v" and h' = ?h'])
      (use refs ah Some rc_okD(1) [OF assms(1) ah(2)] in \<open>auto simp: var_refs_def\<close>)
  moreover have "dead ?hp' = dead hp"
    using ah(2,3) cell_Some_lt [OF ah(2)] by (auto simp: dead_def cell_put_cell)
  moreover have "var_ref hp v = Ok ?hp'"
    using Some ah by (simp add: var_ref_def counted_head_def deref_def lai_rc_ref_def)
  ultimately show ?thesis using refs by simp
qed

text \<open>What a release leaves behind, for the other objects.\<close>

definition calm :: "'w lai_heap_scheme \<Rightarrow> 'w lai_heap_scheme \<Rightarrow> bool" where
  "calm hp hp' \<longleftrightarrow> dead hp' = dead hp \<and> busy hp' \<subseteq> busy hp \<and>
     length (cells hp') = length (cells hp) \<and>
     (\<forall>a \<in> dead hp. cell hp' a = cell hp a)"

lemma calm_refl: "calm hp hp"
  by (simp add: calm_def)

lemma calm_trans: "calm hp hp' \<Longrightarrow> calm hp' hp'' \<Longrightarrow> calm hp hp''"
  by (auto simp: calm_def)

lemma var_unref_Ok:
  assumes ok: "rc_ok (R + var_refs v) hp"
  shows "(\<exists>hp'. var_unref hp v = Ok (hp', None) \<and> rc_ok R hp' \<and> calm hp hp') \<or>
    (\<exists>hp' a g. var_unref hp v = Ok (hp', Some a) \<and> cell hp' a = Some (HPkg g) \<and> p_rc g = 0 \<and>
       p_size g \<le> length (p_elems g) \<and> a \<notin> dead hp \<and>
       rc_ok (R + sum_list (map var_refs (take (p_size g) (p_elems g)))) hp' \<and>
       dead hp' = insert a (dead hp) \<and> busy hp' = busy hp - {a} \<and> a \<in> busy hp \<and>
       length (cells hp') = length (cells hp) \<and> (\<forall>b \<in> dead hp. cell hp' b = cell hp b))"
  using counted_head_spec [OF ok]
proof (elim disjE exE conjE, goal_cases)
  case 1
  then show ?case using ok by (simp add: var_unref_def calm_refl)
next
  case (2 a h)
  have lt: "a < length (cells hp)" by (rule cell_Some_lt [OF 2(2)])
  have ch: "\<And>x b. cell (put_cell hp a x) b = (if b = a then x else cell hp b)"
    by (simp add: cell_put_cell lt)
  have hok: "head_ok h" by (rule rc_okD(1) [OF ok 2(2)])
  have nd: "a \<notin> dead hp" using 2(2,3) by (simp add: dead_def)
  let ?n = "head_rc h - 1"
  show ?case
  proof (cases "?n = 0")
    case False
    let ?hp' = "put_cell hp a (Some (with_rc h ?n))"
    have refs: "heap_refs ?hp' = heap_refs hp"
      using heap_refs_put [OF 2(2), of "Some (with_rc h ?n)"] 2(3) False
      by (simp add: cell_refs_def head_refs_with_rc)
    have "rc_ok R ?hp'"
      by (rule rc_ok_recount [OF ok 2(2), where add = "var_refs v" and extra = "{#}" and
            h' = "with_rc h ?n"])
        (use refs 2 hok in auto)
    moreover have "calm hp ?hp'"
      using 2(2,3) False nd by (cases h) (auto simp: calm_def dead_def busy_def ch)
    moreover have "var_unref hp v = Ok (?hp', None)"
      using 2 False by (simp add: var_unref_def lai_rc_unref_def)
    ultimately show ?thesis by blast
  next
    case zero: True
    then have one: "head_rc h = 1" by simp
    have "count (R + heap_refs hp) (kind_of h, PHead a) = 0"
      using rc_okD(2) [OF ok 2(2)] 2(4) one by simp
    then have gone: "(kind_of h, PHead a) \<notin># R + heap_refs hp" by (rule count_eq_zero_iff [THEN iffD1])
    have leaf: ?thesis if "kind_of h \<noteq> KPkg" "head_refs h = {#}"
    proof -
      let ?hp' = "put_cell hp a None"
      have "heap_refs ?hp' = heap_refs hp"
        using heap_refs_put [OF 2(2), of None] that(2) by (simp add: cell_refs_def)
      then have refs: "heap_refs ?hp' = heap_refs hp" .
      have "R + heap_refs ?hp' + var_refs v = R + var_refs v + heap_refs hp"
        by (simp add: refs ac_simps)
      moreover have "set_mset (var_refs v) \<subseteq> {(kind_of h, PHead a)}" by (simp add: 2(4))
      moreover have "(kind_of h, PHead a) \<notin># R + heap_refs ?hp'" unfolding refs by (rule gone)
      ultimately have "rc_ok R ?hp'" by (rule rc_ok_drop_cell [OF ok 2(2)])
      moreover have "calm hp ?hp'"
        using 2(2) one that(1) by (cases h) (auto simp: calm_def dead_def busy_def ch)
      moreover have "var_unref hp v = Ok (?hp', None)"
        using 2 zero that(1) by (simp add: var_unref_def lai_rc_unref_def)
      ultimately show ?thesis by blast
    qed
    show ?thesis
    proof (cases h)
      case (HPkg g)
      let ?g = "g\<lparr>p_rc := 0\<rparr>" and ?es = "sum_list (map var_refs (take (p_size g) (p_elems g)))"
      let ?hp' = "put_cell hp a (Some (HPkg ?g))"
      have refs: "heap_refs ?hp' + ?es = heap_refs hp"
        using heap_refs_put [OF 2(2), of "Some (HPkg ?g)"] one HPkg by (simp add: cell_refs_def)
      have "rc_ok (R + ?es) ?hp'"
        by (rule rc_ok_recount [OF ok 2(2), where add = "var_refs v" and extra = "{#}" and
              h' = "HPkg ?g"])
          (use refs 2 hok one HPkg in \<open>auto simp: ac_simps\<close>)
      moreover have "dead ?hp' = insert a (dead hp)" "busy ?hp' = busy hp - {a}" "a \<in> busy hp"
        using 2(2) one HPkg by (auto simp: dead_def busy_def ch)
      moreover have "var_unref hp v = Ok (?hp', Some a)"
        using 2 zero HPkg by (simp add: var_unref_def lai_rc_unref_def)
      moreover have "cell ?hp' a = Some (HPkg ?g)" by (simp add: ch)
      moreover have "\<forall>b \<in> dead hp. cell ?hp' b = cell hp b" using nd by (auto simp: ch)
      ultimately show ?thesis using nd hok HPkg
        by (intro disjI2 exI [of _ ?hp'] exI [of _ a] exI [of _ ?g]) simp
    next
      case (HStr s)
      show ?thesis by (rule leaf) (simp_all add: HStr)
    next
      case (HBuf b)
      show ?thesis by (rule leaf) (simp_all add: HBuf)
    qed
  qed
qed

subsection \<open>Releasing a variable\<close>

definition calm_but :: "nat \<Rightarrow> 'w lai_heap_scheme \<Rightarrow> 'w lai_heap_scheme \<Rightarrow> bool" where
  "calm_but a hp hp' \<longleftrightarrow> dead hp' = dead hp \<and> busy hp' \<subseteq> busy hp \<and>
     length (cells hp') = length (cells hp) \<and> (\<forall>b \<in> dead hp - {a}. cell hp' b = cell hp b)"

lemma calm_but_trans: "calm_but a hp hp' \<Longrightarrow> calm_but a hp' hp'' \<Longrightarrow> calm_but a hp hp''"
  by (auto simp: calm_but_def)

lemma calm_calm_but: "calm hp hp' \<Longrightarrow> calm_but a hp hp'"
  by (auto simp: calm_def calm_but_def)

lemma set_elem_dead:
  fixes v :: lai_variable and hp :: "'w lai_heap_scheme"
  assumes ok: "rc_ok R hp" and c: "cell hp a = Some (HPkg g)" and z: "p_rc g = 0" and i: "i < length (p_elems g)"
  defines "g' \<equiv> g\<lparr>p_elems := (p_elems g)[i := v]\<rparr>"
  defines "hp' \<equiv> put_cell hp a (Some (HPkg g'))"
  shows "set_elem hp a i v = Ok hp'" and "rc_ok R hp'" and "calm_but a hp hp'"
    and "cell hp' a = Some (HPkg g')"
proof -
  have lt: "a < length (cells hp)" by (rule cell_Some_lt [OF c])
  show "set_elem hp a i v = Ok hp'"
    using c i by (simp add: set_elem_def pkg_head_def deref_def hp'_def g'_def)
  show "cell hp' a = Some (HPkg g')" by (simp add: hp'_def cell_put_cell lt)
  have "heap_refs hp' = heap_refs hp"
    using heap_refs_put [OF c, of "Some (HPkg g')"] z by (simp add: cell_refs_def hp'_def g'_def)
  then show "rc_ok R hp'"
    by (intro rc_ok_recount [OF ok c, where add = "{#}" and extra = "{#}" and h' = "HPkg g'"])
      (use rc_okD(1) [OF ok c] in \<open>simp_all add: hp'_def g'_def\<close>)
  show "calm_but a hp hp'"
    using c z lt by (auto simp: calm_but_def hp'_def g'_def dead_def busy_def cell_put_cell)
qed

lemma finalize_elems_Ok:
  assumes fin: "\<And>R v hp. rc_ok (R + var_refs v) hp \<Longrightarrow> card (busy hp) \<le> n \<Longrightarrow>
      \<exists>hp'. fin hp v = Ok hp' \<and> rc_ok R hp' \<and> calm hp hp'"
    and "rc_ok (R + sum_list (map (\<lambda>i. var_refs (p_elems g ! i)) is)) hp"
    and "cell hp a = Some (HPkg g)" and "p_rc g = 0" and "\<forall>i \<in> set is. i < length (p_elems g)"
    and "distinct is" and "card (busy hp) \<le> n"
  shows "\<exists>hp' g'. finalize_elems fin hp a is = Ok hp' \<and> rc_ok R hp' \<and>
    cell hp' a = Some (HPkg g') \<and> p_rc g' = 0 \<and> calm_but a hp hp'"
  using assms(2-)
proof (induction "is" arbitrary: hp g)
  case Nil
  then show ?case by (auto simp: calm_but_def)
next
  case (Cons i "is")
  let ?rest = "sum_list (map (\<lambda>i. var_refs (p_elems g ! i)) is)"
  have "rc_ok ((R + ?rest) + var_refs (p_elems g ! i)) hp" using Cons.prems(1) by (simp add: ac_simps)
  from fin [OF this Cons.prems(6)] obtain hp1 where
    1: "fin hp (p_elems g ! i) = Ok hp1" "rc_ok (R + ?rest) hp1" "calm hp hp1" by blast
  have "a \<in> dead hp" using Cons.prems(2,3) by (simp add: dead_def)
  then have c1: "cell hp1 a = Some (HPkg g)" using 1(3) Cons.prems(2) by (simp add: calm_def)
  have i: "i < length (p_elems g)" using Cons.prems(4) by simp
  let ?g = "g\<lparr>p_elems := (p_elems g)[i := var0]\<rparr>"
  let ?hp2 = "put_cell hp1 a (Some (HPkg ?g))"
  note s = set_elem_dead [OF 1(2) c1 Cons.prems(3) i, of var0]
  have same: "map (\<lambda>i. var_refs (p_elems ?g ! i)) is = map (\<lambda>i. var_refs (p_elems g ! i)) is"
  proof (intro map_cong refl)
    fix j assume "j \<in> set is"
    with Cons.prems(5) have "j \<noteq> i" by auto
    then show "var_refs (p_elems ?g ! j) = var_refs (p_elems g ! j)" by simp
  qed
  have ok2: "rc_ok (R + sum_list (map (\<lambda>i. var_refs (p_elems ?g ! i)) is)) ?hp2"
    using s(2) unfolding same .
  have busy: "card (busy ?hp2) \<le> n"
  proof -
    have "busy ?hp2 \<subseteq> busy hp" using s(3) 1(3) by (auto simp: calm_but_def calm_def)
    then show ?thesis using card_mono [OF busy_finite(1)] Cons.prems(6) by (meson order_trans)
  qed
  have "\<exists>hp' g'. finalize_elems fin ?hp2 a is = Ok hp' \<and> rc_ok R hp' \<and>
    cell hp' a = Some (HPkg g') \<and> p_rc g' = 0 \<and> calm_but a ?hp2 hp'"
    by (rule Cons.IH [OF ok2 s(4) _ _ _ busy]) (use Cons.prems(3-5) in simp_all)
  then obtain hp' g' where h: "finalize_elems fin ?hp2 a is = Ok hp'" "rc_ok R hp'"
    "cell hp' a = Some (HPkg g')" "p_rc g' = 0" "calm_but a ?hp2 hp'" by blast
  have "pkg_elem hp a i = Ok (p_elems g ! i)"
    using Cons.prems(2) i by (simp add: pkg_elem_def pkg_head_def deref_def)
  then have "finalize_elems fin hp a (i # is) = Ok hp'" using 1(1) s(1) h(1) by simp
  moreover have "calm_but a hp hp'"
    using calm_but_trans [OF calm_but_trans [OF calm_calm_but [OF 1(3)] s(3)] h(5)] .
  ultimately show ?case using h by blast
qed

lemma laihost_free_package_Ok:
  assumes fin: "\<And>R v hp. rc_ok (R + var_refs v) hp \<Longrightarrow> card (busy hp) \<le> n \<Longrightarrow>
      \<exists>hp'. fin hp v = Ok hp' \<and> rc_ok R hp' \<and> calm hp hp'"
    and ok: "rc_ok (R + sum_list (map var_refs (take (p_size g) (p_elems g)))) hp"
    and c: "cell hp a = Some (HPkg g)" and z: "p_rc g = 0" and busy: "card (busy hp) \<le> n"
  shows "\<exists>hp'. laihost_free_package fin hp a = Ok hp' \<and> rc_ok R hp' \<and>
    dead hp' = dead hp - {a} \<and> busy hp' \<subseteq> busy hp \<and> length (cells hp') = length (cells hp) \<and>
    (\<forall>b \<in> dead hp - {a}. cell hp' b = cell hp b)"
proof -
  have sz: "p_size g \<le> length (p_elems g)" using rc_okD(1) [OF ok c] by simp
  have "map var_refs (take (p_size g) (p_elems g)) = map (\<lambda>i. var_refs (p_elems g ! i)) [0..<p_size g]"
    using sz by (intro nth_equalityI) simp_all
  with ok have "rc_ok (R + sum_list (map (\<lambda>i. var_refs (p_elems g ! i)) [0..<p_size g])) hp" by simp
  from finalize_elems_Ok [where fin = fin and n = n, OF fin this c z _ _ busy] sz
  obtain hp1 g1 where h: "finalize_elems fin hp a [0..<p_size g] = Ok hp1" "rc_ok R hp1"
    "cell hp1 a = Some (HPkg g1)" "p_rc g1 = 0" "calm_but a hp hp1" by auto
  have lt: "a < length (cells hp1)" by (rule cell_Some_lt [OF h(3)])
  let ?hp' = "put_cell hp1 a None"
  have refs: "heap_refs ?hp' = heap_refs hp1"
    using heap_refs_put [OF h(3), of None] h(4) by (simp add: cell_refs_def)
  have "int (count (R + heap_refs hp1) (KPkg, PHead a)) = 0"
    using rc_okD(2) [OF h(2,3)] h(4) by simp
  then have gone: "(KPkg, PHead a) \<notin># R + heap_refs hp1"
    by (intro count_eq_zero_iff [THEN iffD1]) (simp only: of_nat_eq_0_iff)
  have "(kind_of (HPkg g1), PHead a) \<notin># R + heap_refs ?hp'"
    unfolding refs kind_of.simps by (rule gone)
  then have "rc_ok R ?hp'"
    by (intro rc_ok_drop_cell [OF h(2,3), where add = "{#}"]) (simp_all add: refs)
  moreover have "laihost_free_package fin hp a = Ok ?hp'"
    using c h(1,3) by (simp add: laihost_free_package_def pkg_head_def deref_def)
  moreover have "dead ?hp' = dead hp - {a}" "busy ?hp' \<subseteq> busy hp"
      "length (cells ?hp') = length (cells hp)" "\<forall>b \<in> dead hp - {a}. cell ?hp' b = cell hp b"
    using h(5) lt by (auto simp: calm_but_def dead_def busy_def cell_put_cell split: if_splits)
  ultimately show ?thesis by blast
qed

lemma var_finalize_fuel_Ok:
  "rc_ok (R + var_refs v) hp \<Longrightarrow> card (busy hp) \<le> n \<Longrightarrow>
     \<exists>hp'. var_finalize_fuel n hp v = Ok hp' \<and> rc_ok R hp' \<and> calm hp hp'"
proof (induction n arbitrary: R v hp)
  case 0
  then have "busy hp = {}" using busy_finite(1) [of hp] by simp
  with var_unref_Ok [OF 0(1)] show ?case by auto
next
  case (Suc n)
  from var_unref_Ok [OF Suc.prems(1)] show ?case
  proof (elim disjE exE conjE, goal_cases)
    case (1 hp')
    then show ?case by auto
  next
    case (2 hp1 a g)
    have "card (busy hp1) \<le> n" using 2 Suc.prems(2) busy_finite(1) [of hp] by simp
    from laihost_free_package_Ok [where fin = "var_finalize_fuel n" and n = n, OF Suc.IH 2(6,2,3) this]
    obtain hp' where h: "laihost_free_package (var_finalize_fuel n) hp1 a = Ok hp'" "rc_ok R hp'"
      "dead hp' = dead hp1 - {a}" "busy hp' \<subseteq> busy hp1" "length (cells hp') = length (cells hp1)"
      "\<forall>b \<in> dead hp1 - {a}. cell hp' b = cell hp1 b" by blast
    have "calm hp hp'" using 2(5,7-11) h(3-6) unfolding calm_def by auto
    with h(1,2) 2(1) show ?case by simp
  qed
qed

lemma lai_var_finalize_Ok:
  assumes "rc_ok (R + var_refs v) hp"
  shows "\<exists>hp'. lai_var_finalize hp v = Ok hp' \<and> rc_ok R hp' \<and> calm hp hp'"
  unfolding lai_var_finalize_def using assms busy_finite(2) by (rule var_finalize_fuel_Ok)

lemma lai_var_move_Ok:
  assumes "rc_ok (R + var_refs dest + var_refs src) hp"
  shows "\<exists>hp'. lai_var_move hp dest src = Ok (hp', src, var0) \<and> rc_ok (R + var_refs src) hp' \<and> calm hp hp'"
proof -
  have "rc_ok ((R + var_refs src) + var_refs dest) hp" using assms by (simp add: ac_simps)
  from lai_var_finalize_Ok [OF this] show ?thesis
    by (auto simp: lai_var_move_def lai_swap_object_def)
qed

lemma lai_var_assign_Ok:
  assumes "rc_ok (R + var_refs dest) hp" and "var_refs src \<subseteq># R + var_refs dest + heap_refs hp"
  shows "\<exists>hp'. lai_var_assign hp dest src = Ok (hp', src) \<and> rc_ok (R + var_refs src) hp' \<and>
    dead hp' = dead hp \<and> length (cells hp') = length (cells hp)"
proof -
  from var_ref_Ok [OF assms] obtain hp1 where h: "var_ref hp src = Ok hp1"
    "rc_ok (R + var_refs dest + var_refs src) hp1" "dead hp1 = dead hp"
    "length (cells hp1) = length (cells hp)" by blast
  from lai_var_move_Ok [OF h(2)] h show ?thesis
    by (auto simp: lai_var_assign_def calm_def)
qed

subsection \<open>Elements of live packages\<close>

lemma with_rc_self [simp]: "with_rc h (head_rc h) = h"
  by (cases h) simp_all

lemma var_ref_cells:
  assumes "var_ref hp v = Ok hp'" and "cell hp b = Some h"
  shows "\<exists>n \<ge> head_rc h. cell hp' b = Some (with_rc h n)"
proof -
  from assms(1) obtain r where r: "counted_head hp v = Ok r"
    "(case r of None \<Rightarrow> Ok hp
      | Some (a, h) \<Rightarrow> bnd (lai_rc_ref (head_rc h)) (\<lambda>n. Ok (put_cell hp a (Some (with_rc h n))))) = Ok hp'"
    by (auto simp: var_ref_def bnd_eq_Ok)
  show ?thesis
  proof (cases r)
    case None
    with r(2) assms(2) show ?thesis by (intro exI [of _ "head_rc h"]) simp
  next
    case (Some ah)
    obtain a h' where ah: "ah = (a, h')" by (cases ah)
    with r(1) Some have c: "cell hp a = Some h'"
      by (auto simp: counted_head_def bnd_eq_Ok guard_eq_Ok deref_def split: option.splits lai_ptr.splits)
    have hp': "hp' = put_cell hp a (Some (with_rc h' (head_rc h' + 1)))"
      using r(2) by (auto simp: Some ah lai_rc_ref_def bnd_eq_Ok ensure_eq_Ok)
    show ?thesis
    proof (cases "b = a")
      case True
      with c assms(2) cell_Some_lt [OF c] show ?thesis
        by (intro exI [of _ "head_rc h + 1"]) (simp add: hp' cell_put_cell)
    next
      case False
      with assms(2) show ?thesis
        by (intro exI [of _ "head_rc h"]) (simp add: hp' cell_put_cell)
    qed
  qed
qed

lemma elem_move_Ok:
  assumes ok: "rc_ok (R + var_refs v) hp" and c: "cell hp a = Some (HPkg g)" and z: "p_rc g \<noteq> 0"
    and i: "i < p_size g"
  shows "\<exists>hp'. elem_move hp a i v = Ok hp' \<and> rc_ok R hp' \<and> dead hp' = dead hp \<and>
    length (cells hp') = length (cells hp)"
proof -
  have sz: "p_size g \<le> length (p_elems g)" using rc_okD(1) [OF ok c] by simp
  have lt: "a < length (cells hp)" by (rule cell_Some_lt [OF c])
  let ?old = "p_elems g ! i" and ?g = "g\<lparr>p_elems := (p_elems g)[i := v]\<rparr>"
  let ?hp1 = "put_cell hp a (Some (HPkg ?g))"
  have upd: "take (p_size g) ((p_elems g)[i := v]) = (take (p_size g) (p_elems g))[i := v]"
    using i by (simp add: take_update_swap)
  have "i < length (take (p_size g) (p_elems g))" using i sz by simp
  from sum_list_update_add [OF this, of var_refs v]
  have "head_refs (HPkg ?g) + var_refs ?old = head_refs (HPkg g) + var_refs v"
    using z i by (simp add: upd nth_take)
  moreover have "heap_refs ?hp1 + head_refs (HPkg g) = heap_refs hp + head_refs (HPkg ?g)"
    using heap_refs_put [OF c, of "Some (HPkg ?g)"] by (simp add: cell_refs_def)
  ultimately have "heap_refs ?hp1 + var_refs ?old + head_refs (HPkg g)
      = heap_refs hp + var_refs v + head_refs (HPkg g)"
    by (metis (no_types, lifting) add.assoc add.commute)
  then have refs: "heap_refs ?hp1 + var_refs ?old = heap_refs hp + var_refs v"
    by (rule add_right_imp_eq)
  have "rc_ok (R + var_refs ?old) ?hp1"
    by (rule rc_ok_recount [OF ok c, where add = "{#}" and extra = "{#}" and h' = "HPkg ?g"])
      (use refs sz in \<open>simp_all add: ac_simps\<close>)
  from lai_var_finalize_Ok [OF this] obtain hp' where h: "lai_var_finalize ?hp1 ?old = Ok hp'"
    "rc_ok R hp'" "calm ?hp1 hp'" by blast
  have "dead ?hp1 = dead hp" using c lt by (auto simp: dead_def cell_put_cell)
  moreover have "elem_move hp a i v = Ok hp'"
    using c h(1) i sz
    by (simp add: elem_move_def pkg_elem_def set_elem_def pkg_head_def deref_def)
  ultimately show ?thesis using h(2,3) by (auto simp: calm_def)
qed

lemma elem_assign_Ok:
  assumes ok: "rc_ok R hp" and c: "cell hp a = Some (HPkg g)" and z: "0 < p_rc g"
    and i: "i < p_size g" and src: "var_refs v \<subseteq># R + heap_refs hp"
  shows "\<exists>hp'. elem_assign hp a i v = Ok hp' \<and> rc_ok R hp' \<and> dead hp' = dead hp \<and>
    length (cells hp') = length (cells hp)"
proof -
  from var_ref_Ok [OF ok src] obtain hp1 where h: "var_ref hp v = Ok hp1"
    "rc_ok (R + var_refs v) hp1" "dead hp1 = dead hp" "length (cells hp1) = length (cells hp)" by blast
  from var_ref_cells [OF h(1) c] obtain n where n: "p_rc g \<le> n" "cell hp1 a = Some (HPkg (g\<lparr>p_rc := n\<rparr>))"
    by auto
  from elem_move_Ok [OF h(2) n(2)] n(1) z i h show ?thesis by (simp add: elem_assign_def)
qed

subsection \<open>The contract of a counted store\<close>

text \<open>
  What the stacks and the object code rely on: releasing a variable that is a root takes its
  reference away, taking one adds it.  \<open>release_all\<close> is the loop that every scope exit writes.
\<close>

fun release_all :: "('h \<Rightarrow> 'v \<Rightarrow> 'h outcome) \<Rightarrow> 'h \<Rightarrow> 'v list \<Rightarrow> 'h outcome" where
  "release_all fin h [] = Ok h"
| "release_all fin h (v # vs) = bnd (fin h v) (\<lambda>h. release_all fin h vs)"

locale counted_store =
  fixes inv :: "'r multiset \<Rightarrow> 'h \<Rightarrow> bool" and refs :: "'v \<Rightarrow> 'r multiset"
    and own :: "'h \<Rightarrow> 'r multiset"
    and take_ref :: "'h \<Rightarrow> 'v \<Rightarrow> 'h outcome" and release :: "'h \<Rightarrow> 'v \<Rightarrow> 'h outcome"
  assumes release_law: "inv (R + refs v) h \<Longrightarrow> \<exists>h'. release h v = Ok h' \<and> inv R h'"
    and take_law: "inv R h \<Longrightarrow> refs v \<subseteq># R + own h \<Longrightarrow>
      \<exists>h'. take_ref h v = Ok h' \<and> inv (R + refs v) h'"
begin

lemma release_all_inv:
  "inv (R + sum_list (map refs vs)) h \<Longrightarrow> \<exists>h'. release_all release h vs = Ok h' \<and> inv R h'"
proof (induction vs arbitrary: h)
  case (Cons v vs)
  then have "inv ((R + sum_list (map refs vs)) + refs v) h" by (simp add: ac_simps)
  from release_law [OF this] obtain h1 where "release h v = Ok h1" "inv (R + sum_list (map refs vs)) h1"
    by blast
  with Cons.IH [of h1] show ?case by auto
qed simp

lemma replace_inv:
  assumes "inv (R + refs old) h" and "refs v \<subseteq># R + refs old + own h"
  shows "\<exists>h'. bnd (take_ref h v) (\<lambda>h. release h old) = Ok h' \<and> inv (R + refs v) h'"
proof -
  from take_law [OF assms] obtain h1 where h1: "take_ref h v = Ok h1" "inv (R + refs old + refs v) h1" by blast
  have "inv ((R + refs v) + refs old) h1" using h1(2) by (simp add: ac_simps)
  from release_law [OF this] h1(1) show ?thesis by auto
qed

end

interpretation vars: counted_store heap_inv var_refs heap_refs var_ref lai_var_finalize
proof
  show "\<exists>h'. lai_var_finalize h v = Ok h' \<and> heap_inv R h'" if "heap_inv (R + var_refs v) h"
    for R v and h :: "'a lai_heap_scheme"
    using lai_var_finalize_Ok [of R v h] that by (auto simp: heap_inv_def calm_def)
  show "\<exists>h'. var_ref h v = Ok h' \<and> heap_inv (R + var_refs v) h'"
    if "heap_inv R h" "var_refs v \<subseteq># R + heap_refs h" for R v and h :: "'a lai_heap_scheme"
    using var_ref_Ok [of R h v] that by (auto simp: heap_inv_def)
qed

lemma lai_var_assign_eq:
  "lai_var_assign hp dest src = bnd (bnd (var_ref hp src) (\<lambda>hp. lai_var_finalize hp dest)) (\<lambda>hp. Ok (hp, src))"
  by (simp add: lai_var_assign_def lai_var_move_def lai_swap_object_def bnd_assoc)

subsection \<open>Properties\<close>

text \<open>
  C3. Releasing a variable (\<open>lai_var_finalize\<close>) terminates, neither panics nor faults, and
  gives up exactly its reference: if every counter was the number of references from the
  roots and the packages, it still is, for the roots without this variable; objects are
  freed exactly when their last reference is gone, nested packages included.
\<close>

theorem lai_var_finalize_correct:
  assumes "heap_inv (R + var_refs v) hp"
  shows "\<exists>hp'. lai_var_finalize hp v = Ok hp' \<and> heap_inv R hp'"
  by (rule vars.release_law [OF assms])

definition demo_heap :: lai_heap where
  "demo_heap = \<lparr>cells = [Some (HStr \<lparr>s_rc = 2, s_capacity = 1, s_content = [0]\<rparr>),
      Some (HPkg \<lparr>p_rc = 1, p_size = 2, p_elems =
        [var0\<lparr>v_type := LAI_STRING, v_ptr := PHead 0\<rparr>, int_var 5]\<rparr>)],
    mem_ok = (\<lambda>_. True), mem_clock = 0, mem_junk = (\<lambda>_. 0)\<rparr>"

definition demo_string :: lai_variable where
  "demo_string = var0\<lparr>v_type := LAI_STRING, v_ptr := PHead 0\<rparr>"

definition demo_pkg :: lai_variable where
  "demo_pkg = var0\<lparr>v_type := LAI_PACKAGE, v_ptr := PHead 1\<rparr>"

lemma demo_heap_cell:
  "cell demo_heap a = Some h \<longleftrightarrow>
     a = 0 \<and> h = HStr \<lparr>s_rc = 2, s_capacity = 1, s_content = [0]\<rparr> \<or>
     a = 1 \<and> h = HPkg \<lparr>p_rc = 1, p_size = 2, p_elems =
        [var0\<lparr>v_type := LAI_STRING, v_ptr := PHead 0\<rparr>, int_var 5]\<rparr>"
  by (auto simp: cell_def demo_heap_def less_Suc_eq)

lemma demo_heap_refs: "heap_refs demo_heap = {#(KStr, PHead 0)#}"
  by (simp add: heap_refs_def demo_heap_def cell_refs_def var_refs_def var0_def int_var_def)

lemma demo_heap_inv: "heap_inv {#(KStr, PHead 0), (KPkg, PHead 1)#} demo_heap"
  by (auto simp: heap_inv_def rc_ok_def dead_def demo_heap_refs demo_heap_cell)

lemma demo_refs:
  "var_refs demo_string = {#(KStr, PHead 0)#}" "var_refs demo_pkg = {#(KPkg, PHead 1)#}"
  by (simp_all add: var_refs_def demo_string_def demo_pkg_def)

lemma lai_var_finalize_correct_witness:
  "\<exists>hp'. lai_var_finalize demo_heap demo_pkg = Ok hp' \<and> heap_inv {#(KStr, PHead 0)#} hp'"
  by (rule lai_var_finalize_correct) (simp add: demo_refs demo_heap_inv [simplified] add_mset_commute)

text \<open>
  C4. \<open>lai_var_assign\<close> takes a reference to the source before it releases what the destination
  held, so that it succeeds and keeps every counter exact, also when both name the same
  object and when the source lives inside the package the destination held.
\<close>

theorem lai_var_assign_correct:
  assumes "heap_inv (R + var_refs dest) hp" and "var_refs src \<subseteq># R + var_refs dest + heap_refs hp"
  shows "\<exists>hp'. lai_var_assign hp dest src = Ok (hp', src) \<and> heap_inv (R + var_refs src) hp'"
  using vars.replace_inv [OF assms] by (auto simp: lai_var_assign_eq)

lemma lai_var_assign_correct_witness:
  "\<exists>hp'. lai_var_assign demo_heap demo_pkg demo_string = Ok (hp', demo_string) \<and>
     heap_inv ({#(KStr, PHead 0)#} + var_refs demo_string) hp'"
  by (rule lai_var_assign_correct) (simp_all add: demo_refs demo_heap_inv [simplified] demo_heap_refs add_mset_commute)

text \<open>
  Storing into an element of a package in place (\<open>lai_exec_pkg_var_store\<close>) keeps every
  counter exact, also when the stored object is the package itself or one only the replaced
  element kept alive.
\<close>

theorem elem_assign_correct:
  assumes "heap_inv R hp" and "cell hp a = Some (HPkg g)" and "i < p_size g"
    and "var_refs v \<subseteq># R + heap_refs hp"
  shows "\<exists>hp'. elem_assign hp a i v = Ok hp' \<and> heap_inv R hp'"
proof -
  have ok: "rc_ok R hp" and nd: "dead hp = {}" using assms(1) by (auto simp: heap_inv_def)
  have "head_rc (HPkg g) \<noteq> 0" using nd assms(2) unfolding dead_def by blast
  then have "p_rc g \<noteq> 0" by simp
  moreover have "0 \<le> p_rc g" using rc_okD(2) [OF ok assms(2)] by simp
  ultimately have "0 < p_rc g" by simp
  from elem_assign_Ok [OF ok assms(2) this assms(3,4)] nd show ?thesis by (auto simp: heap_inv_def)
qed

lemma elem_assign_correct_witness:
  "\<exists>hp'. elem_assign demo_heap 1 0 demo_pkg = Ok hp' \<and>
     heap_inv {#(KStr, PHead 0), (KPkg, PHead 1)#} hp'"
proof (rule elem_assign_correct [OF demo_heap_inv])
  show "cell demo_heap 1 = Some (HPkg \<lparr>p_rc = 1, p_size = 2, p_elems =
      [var0\<lparr>v_type := LAI_STRING, v_ptr := PHead 0\<rparr>, int_var 5]\<rparr>)"
    by (simp add: demo_heap_cell)
qed (simp_all add: demo_refs demo_heap_refs)

end
