(* ===== verification/Lai_Object.thy ===== *)
theory Lai_Object
  imports Lai_Heap
begin

text \<open>
  Creation, resizing, conversion and comparison of AML objects: \<open>lai/core/object.c\<close>, as far as
  it does not touch the namespace, with the accessors of
  \<open>lai/include/lai/internal-exec.h\<close>.

  A function that returns \<open>lai_api_error_t\<close> returns the error, the heap and the new contents
  of the variable it writes.  Integers are 64 bits wide and little endian.  \<open>lai_warn\<close> calls
  are not modelled.
\<close>

subsection \<open>Bytes of an integer\<close>

definition le_bytes :: "nat \<Rightarrow> u64 \<Rightarrow> u8 list" where
  "le_bytes n w = map (\<lambda>k. ucast (drop_bit (8 * k) w)) [0..<n]"

fun le_word :: "u8 list \<Rightarrow> u64" where
  "le_word [] = 0"
| "le_word (b # bs) = ucast b OR push_bit 8 (le_word bs)"

lemma length_le_bytes [simp]: "length (le_bytes n w) = n"
  by (simp add: le_bytes_def)

lemma le_bytes_Suc: "le_bytes (Suc n) w = ucast w # le_bytes n (drop_bit 8 w)"
proof -
  have "[0..<Suc n] = 0 # map Suc [0..<n]" by (simp add: map_Suc_upt upt_conv_Cons)
  then show ?thesis by (simp add: le_bytes_def drop_bit_drop_bit add.commute)
qed

lemma le_word_le_bytes: "le_word (le_bytes n w) = take_bit (8 * n) w"
proof (induction n arbitrary: w)
  case (Suc n)
  have "ucast (ucast w :: u8) OR push_bit 8 (take_bit (8 * n) (drop_bit 8 w)) = take_bit (8 * Suc n) w"
    by (rule bit_word_eqI) (auto simp: bit_simps)
  then show ?case by (simp add: le_bytes_Suc Suc)
qed (simp add: le_bytes_def)

subsection \<open>Accessors and creation\<close>

definition lai_exec_string_access :: "'w lai_heap_scheme \<Rightarrow> lai_variable \<Rightarrow>
    (nat \<times> lai_string_head) outcome" where
  "lai_exec_string_access hp v = ensure (v_type v = LAI_STRING) (string_head hp (v_ptr v))"

definition lai_exec_string_length :: "'w lai_heap_scheme \<Rightarrow> lai_variable \<Rightarrow> nat outcome" where
  "lai_exec_string_length hp v =
     ensure (v_type v = LAI_STRING)
       (bnd (string_head hp (v_ptr v)) (\<lambda>(_, s). lai_strlen (s_content s)))"

definition lai_exec_buffer_access :: "'w lai_heap_scheme \<Rightarrow> lai_variable \<Rightarrow>
    (nat \<times> lai_buffer_head) outcome" where
  "lai_exec_buffer_access hp v = ensure (v_type v = LAI_BUFFER) (buffer_head hp (v_ptr v))"

definition lai_exec_buffer_size :: "'w lai_heap_scheme \<Rightarrow> lai_variable \<Rightarrow> nat outcome" where
  "lai_exec_buffer_size hp v = bnd (lai_exec_buffer_access hp v) (\<lambda>(_, b). Ok (b_size b))"

definition lai_exec_pkg_size :: "'w lai_heap_scheme \<Rightarrow> lai_variable \<Rightarrow> nat outcome" where
  "lai_exec_pkg_size hp v = bnd (pkg_head hp (v_ptr v)) (\<lambda>(_, g). Ok (p_size g))"

definition lai_exec_pkg_load :: "'w lai_heap_scheme \<Rightarrow> lai_variable \<Rightarrow> lai_variable \<Rightarrow> nat \<Rightarrow>
    ('w lai_heap_scheme \<times> lai_variable) outcome" where
  "lai_exec_pkg_load hp out pkg i =
     ensure (v_type pkg = LAI_PACKAGE) (
     bnd (pkg_head hp (v_ptr pkg)) (\<lambda>(a, _).
     bnd (pkg_elem hp a i) (\<lambda>e. lai_var_assign hp out e)))"

definition lai_exec_pkg_store :: "'w lai_heap_scheme \<Rightarrow> lai_variable \<Rightarrow> lai_variable \<Rightarrow> nat \<Rightarrow>
    'w lai_heap_scheme outcome" where
  "lai_exec_pkg_store hp inp pkg i =
     ensure (v_type pkg = LAI_PACKAGE) (
     bnd (pkg_head hp (v_ptr pkg)) (\<lambda>(a, _). elem_assign hp a i inp))"

definition put_string :: "'w lai_heap_scheme \<Rightarrow> nat \<Rightarrow> lai_string_head \<Rightarrow> u8 list \<Rightarrow>
    'w lai_heap_scheme" where
  "put_string hp a s c = put_cell hp a (Some (HStr (s\<lparr>s_content := c\<rparr>)))"

definition put_buffer :: "'w lai_heap_scheme \<Rightarrow> nat \<Rightarrow> lai_buffer_head \<Rightarrow> u8 list \<Rightarrow>
    'w lai_heap_scheme" where
  "put_buffer hp a b c = put_cell hp a (Some (HBuf (b\<lparr>b_content := c\<rparr>)))"

text \<open>The two allocations of a creation: head and contents.\<close>

definition create_head :: "'w lai_heap_scheme \<Rightarrow> lai_variable \<Rightarrow> var_type \<Rightarrow> lai_head \<Rightarrow>
    lai_api_error \<times> 'w lai_heap_scheme \<times> lai_variable" where
  "create_head hp object ty h =
     (let object = object\<lparr>v_type := ty\<rparr>; (ok1, hp) = laihost_malloc hp in
      if \<not> ok1 then (LAI_ERROR_OUT_OF_MEMORY, hp, object\<lparr>v_ptr := PNull\<rparr>)
      else
        let object = object\<lparr>v_ptr := PHead (length (cells hp))\<rparr>; (ok2, hp) = laihost_malloc hp in
        if \<not> ok2 then (LAI_ERROR_OUT_OF_MEMORY, new_cell hp None, object)
        else (LAI_ERROR_NONE, new_cell hp (Some h), object))"

definition lai_create_string :: "'w lai_heap_scheme \<Rightarrow> lai_variable \<Rightarrow> nat \<Rightarrow>
    lai_api_error \<times> 'w lai_heap_scheme \<times> lai_variable" where
  "lai_create_string hp object n =
     create_head hp object LAI_STRING
       (HStr \<lparr>s_rc = 1, s_capacity = n + 1, s_content = replicate (n + 1) 0\<rparr>)"

definition lai_create_buffer :: "'w lai_heap_scheme \<Rightarrow> lai_variable \<Rightarrow> nat \<Rightarrow>
    lai_api_error \<times> 'w lai_heap_scheme \<times> lai_variable" where
  "lai_create_buffer hp object n =
     create_head hp object LAI_BUFFER
       (HBuf \<lparr>b_rc = 1, b_size = n, b_content = replicate n 0\<rparr>)"

definition lai_create_pkg :: "'w lai_heap_scheme \<Rightarrow> lai_variable \<Rightarrow> nat \<Rightarrow>
    lai_api_error \<times> 'w lai_heap_scheme \<times> lai_variable" where
  "lai_create_pkg hp object n =
     create_head hp object LAI_PACKAGE
       (HPkg \<lparr>p_rc = 1, p_size = n, p_elems = replicate n var0\<rparr>)"

text \<open>\<open>memcpy\<close> into the contents of a string or a buffer.\<close>

definition string_write :: "'w lai_heap_scheme \<Rightarrow> lai_variable \<Rightarrow> nat \<Rightarrow> u8 list \<Rightarrow>
    'w lai_heap_scheme outcome" where
  "string_write hp v off bs =
     bnd (lai_exec_string_access hp v) (\<lambda>(a, s).
     bnd (put_block (s_content s) off bs) (\<lambda>c. Ok (put_string hp a s c)))"

definition buffer_write :: "'w lai_heap_scheme \<Rightarrow> lai_variable \<Rightarrow> nat \<Rightarrow> u8 list \<Rightarrow>
    'w lai_heap_scheme outcome" where
  "buffer_write hp v off bs =
     bnd (buffer_head hp (v_ptr v)) (\<lambda>(a, b).
     bnd (put_block (b_content b) off bs) (\<lambda>c. Ok (put_buffer hp a b c)))"

definition lai_create_c_string :: "'w lai_heap_scheme \<Rightarrow> lai_variable \<Rightarrow> u8 list \<Rightarrow>
    (lai_api_error \<times> 'w lai_heap_scheme \<times> lai_variable) outcome" where
  "lai_create_c_string hp object s =
     bnd (lai_strlen s) (\<lambda>n.
     let (e, hp, object) = lai_create_string hp object n in
     if e \<noteq> LAI_ERROR_NONE then Ok (e, hp, object)
     else bnd (get_block s 0 n) (\<lambda>bs.
          bnd (string_write hp object 0 bs) (\<lambda>hp. Ok (LAI_ERROR_NONE, hp, object))))"

subsection \<open>Resizing\<close>

text \<open>The type of the variable decides; the head is changed in place.\<close>

definition lai_obj_resize_string :: "'w lai_heap_scheme \<Rightarrow> lai_variable \<Rightarrow> nat \<Rightarrow>
    (lai_api_error \<times> 'w lai_heap_scheme) outcome" where
  "lai_obj_resize_string hp object n =
     (if v_type object \<noteq> LAI_STRING then Ok (LAI_ERROR_TYPE_MISMATCH, hp)
      else
        bnd (string_head hp (v_ptr object)) (\<lambda>(a, s).
        bnd (lai_strlen (s_content s)) (\<lambda>len.
        if len < n then
          let (ok, hp) = laihost_malloc hp in
          if \<not> ok then Ok (LAI_ERROR_OUT_OF_MEMORY, hp)
          else
            bnd (lai_strcpy (map (mem_junk hp) [0..<n + 1]) (s_content s)) (\<lambda>c.
            Ok (LAI_ERROR_NONE,
                put_cell hp a (Some (HStr (s\<lparr>s_content := c, s_capacity := n + 1\<rparr>)))))
        else Ok (LAI_ERROR_NONE, hp))))"

definition lai_obj_resize_buffer :: "'w lai_heap_scheme \<Rightarrow> lai_variable \<Rightarrow> nat \<Rightarrow>
    (lai_api_error \<times> 'w lai_heap_scheme) outcome" where
  "lai_obj_resize_buffer hp object n =
     (if v_type object \<noteq> LAI_BUFFER then Ok (LAI_ERROR_TYPE_MISMATCH, hp)
      else
        bnd (buffer_head hp (v_ptr object)) (\<lambda>(a, b).
        if b_size b < n then
          let (ok, hp) = laihost_malloc hp in
          if \<not> ok then Ok (LAI_ERROR_OUT_OF_MEMORY, hp)
          else
            bnd (get_block (b_content b) 0 (b_size b)) (\<lambda>old.
            bnd (put_block (replicate n 0) 0 old) (\<lambda>c.
            Ok (LAI_ERROR_NONE, put_cell hp a (Some (HBuf (b\<lparr>b_content := c, b_size := n\<rparr>))))))
        else Ok (LAI_ERROR_NONE, put_cell hp a (Some (HBuf (b\<lparr>b_size := n\<rparr>))))))"

text \<open>
  Growing moves the elements into fresh, zeroed memory (a move into a zeroed variable releases
  nothing); shrinking releases the elements beyond the new size and keeps the memory.
\<close>

definition lai_obj_resize_pkg :: "'w lai_heap_scheme \<Rightarrow> lai_variable \<Rightarrow> nat \<Rightarrow>
    (lai_api_error \<times> 'w lai_heap_scheme) outcome" where
  "lai_obj_resize_pkg hp object n =
     (if v_type object \<noteq> LAI_PACKAGE then Ok (LAI_ERROR_TYPE_MISMATCH, hp)
      else
        bnd (pkg_head hp (v_ptr object)) (\<lambda>(a, g).
        if n \<le> p_size g then
          bnd (finalize_elems lai_var_finalize hp a [n..<p_size g]) (\<lambda>hp.
          bnd (pkg_head hp (v_ptr object)) (\<lambda>(a, g).
          Ok (LAI_ERROR_NONE, put_cell hp a (Some (HPkg (g\<lparr>p_size := n\<rparr>))))))
        else
          let (ok, hp) = laihost_malloc hp in
          if \<not> ok then Ok (LAI_ERROR_OUT_OF_MEMORY, hp)
          else
            bnd (get_block (p_elems g) 0 (p_size g)) (\<lambda>old.
            bnd (put_block (replicate n var0) 0 old) (\<lambda>es.
            Ok (LAI_ERROR_NONE, put_cell hp a (Some (HPkg (g\<lparr>p_elems := es, p_size := n\<rparr>))))))))"

subsection \<open>Queries\<close>

definition lai_obj_get_integer :: "lai_variable \<Rightarrow> lai_api_error \<times> u64 option" where
  "lai_obj_get_integer object =
     (if v_type object = LAI_INTEGER then (LAI_ERROR_NONE, Some (v_integer object))
      else (LAI_ERROR_TYPE_MISMATCH, None))"

definition lai_obj_get_pkg :: "'w lai_heap_scheme \<Rightarrow> lai_variable \<Rightarrow> nat \<Rightarrow> lai_variable \<Rightarrow>
    (lai_api_error \<times> 'w lai_heap_scheme \<times> lai_variable) outcome" where
  "lai_obj_get_pkg hp object i out =
     (if v_type object \<noteq> LAI_PACKAGE then Ok (LAI_ERROR_TYPE_MISMATCH, hp, out)
      else
        bnd (lai_exec_pkg_size hp object) (\<lambda>n.
        if n \<le> i then Ok (LAI_ERROR_OUT_OF_BOUNDS, hp, out)
        else bnd (lai_exec_pkg_load hp out object i) (\<lambda>(hp, out). Ok (LAI_ERROR_NONE, hp, out))))"

fun lai_objecttype_obj :: "lai_variable \<Rightarrow> nat" where
  "lai_objecttype_obj v = (case v_type v of
     LAI_INTEGER \<Rightarrow> 1
   | LAI_STRING_INDEX \<Rightarrow> 2 | LAI_STRING \<Rightarrow> 2
   | LAI_BUFFER_INDEX \<Rightarrow> 3 | LAI_BUFFER \<Rightarrow> 3
   | LAI_PACKAGE_INDEX \<Rightarrow> 4 | LAI_PACKAGE \<Rightarrow> 4
   | _ \<Rightarrow> 0)"

subsection \<open>Cloning\<close>

definition lai_clone_buffer :: "'w lai_heap_scheme \<Rightarrow> lai_variable \<Rightarrow> lai_variable \<Rightarrow>
    ('w lai_heap_scheme \<times> lai_variable) outcome" where
  "lai_clone_buffer hp dest source =
     bnd (lai_exec_buffer_size hp source) (\<lambda>n.
     let (e, hp, dest) = lai_create_buffer hp dest n in
     ensure (e = LAI_ERROR_NONE) (
     bnd (lai_exec_buffer_access hp source) (\<lambda>(_, b).
     bnd (get_block (b_content b) 0 n) (\<lambda>bs.
     bnd (buffer_write hp dest 0 bs) (\<lambda>hp. Ok (hp, dest))))))"

definition lai_clone_string :: "'w lai_heap_scheme \<Rightarrow> lai_variable \<Rightarrow> lai_variable \<Rightarrow>
    ('w lai_heap_scheme \<times> lai_variable) outcome" where
  "lai_clone_string hp dest source =
     bnd (lai_exec_string_length hp source) (\<lambda>n.
     let (e, hp, dest) = lai_create_string hp dest n in
     ensure (e = LAI_ERROR_NONE) (
     bnd (lai_exec_string_access hp source) (\<lambda>(_, s).
     bnd (get_block (s_content s) 0 n) (\<lambda>bs.
     bnd (string_write hp dest 0 bs) (\<lambda>hp. Ok (hp, dest))))))"

text \<open>
  \<open>clone_value\<close> is \<open>lai_obj_clone\<close> up to the point where the result replaces the destination;
  the elements of a package are cloned one by one into the elements of the new one.  The fuel
  bounds the nesting of packages.
\<close>

fun clone_elems :: "('w lai_heap_scheme \<Rightarrow> lai_variable \<Rightarrow> ('w lai_heap_scheme \<times> lai_variable) outcome)
    \<Rightarrow> 'w lai_heap_scheme \<Rightarrow> lai_ptr \<Rightarrow> lai_ptr \<Rightarrow> nat list \<Rightarrow> 'w lai_heap_scheme outcome" where
  "clone_elems cl hp dp sp [] = Ok hp"
| "clone_elems cl hp dp sp (i # is) =
     bnd (pkg_head hp dp) (\<lambda>(d, _).
     bnd (pkg_head hp sp) (\<lambda>(s, _).
     bnd (pkg_elem hp s i) (\<lambda>e.
     bnd (cl hp e) (\<lambda>(hp, v).
     bnd (elem_move hp d i v) (\<lambda>hp. clone_elems cl hp dp sp is)))))"

definition lai_clone_package :: "('w lai_heap_scheme \<Rightarrow> lai_variable \<Rightarrow>
    ('w lai_heap_scheme \<times> lai_variable) outcome) \<Rightarrow> 'w lai_heap_scheme \<Rightarrow> lai_variable \<Rightarrow>
    lai_variable \<Rightarrow> ('w lai_heap_scheme \<times> lai_variable) outcome" where
  "lai_clone_package cl hp dest src =
     bnd (pkg_head hp (v_ptr src)) (\<lambda>(_, g).
     let (e, hp, dest) = lai_create_pkg hp dest (p_size g) in
     ensure (e = LAI_ERROR_NONE) (
     bnd (clone_elems cl hp (v_ptr dest) (v_ptr src) [0..<p_size g]) (\<lambda>hp. Ok (hp, dest))))"

primrec clone_value :: "nat \<Rightarrow> 'w lai_heap_scheme \<Rightarrow> lai_variable \<Rightarrow>
    ('w lai_heap_scheme \<times> lai_variable) outcome" where
  "clone_value 0 hp v = Stuck"
| "clone_value (Suc n) hp v = (case v_type v of
     LAI_STRING \<Rightarrow> lai_clone_string hp var0 v
   | LAI_BUFFER \<Rightarrow> lai_clone_buffer hp var0 v
   | LAI_PACKAGE \<Rightarrow> lai_clone_package (clone_value n) hp var0 v
   | _ \<Rightarrow> bnd (var_ref hp v) (\<lambda>hp. Ok (hp, v)))"

definition lai_obj_clone :: "'w lai_heap_scheme \<Rightarrow> lai_variable \<Rightarrow> lai_variable \<Rightarrow>
    ('w lai_heap_scheme \<times> lai_variable) outcome" where
  "lai_obj_clone hp dest source =
     bnd (clone_value (Suc (length (cells hp))) hp source) (\<lambda>(hp, temp).
     let (dest, temp) = lai_swap_object dest temp in
     bnd (lai_var_finalize hp temp) (\<lambda>hp. Ok (hp, dest)))"

subsection \<open>Conversions\<close>

type_synonym 'w obj_result = "(lai_api_error \<times> 'w lai_heap_scheme \<times> lai_variable) outcome"

definition lai_obj_to_buffer :: "'w lai_heap_scheme \<Rightarrow> lai_variable \<Rightarrow> lai_variable \<Rightarrow> 'w obj_result" where
  "lai_obj_to_buffer hp out object = (case v_type object of
     LAI_INTEGER \<Rightarrow>
       (let (e, hp, out) = lai_create_buffer hp out 8 in
        if e \<noteq> LAI_ERROR_NONE then Ok (LAI_ERROR_OUT_OF_MEMORY, hp, out)
        else bnd (buffer_write hp out 0 (le_bytes 8 (v_integer object))) (\<lambda>hp.
             Ok (LAI_ERROR_NONE, hp, out)))
   | LAI_BUFFER \<Rightarrow> bnd (lai_obj_clone hp out object) (\<lambda>(hp, out). Ok (LAI_ERROR_NONE, hp, out))
   | LAI_STRING \<Rightarrow>
       bnd (lai_exec_string_length hp object) (\<lambda>len.
       if len = 0 then
         let (e, hp, out) = lai_create_buffer hp out 0 in
         Ok (if e \<noteq> LAI_ERROR_NONE then LAI_ERROR_OUT_OF_MEMORY else LAI_ERROR_NONE, hp, out)
       else
         let (e, hp, out) = lai_create_buffer hp out (len + 1) in
         if e \<noteq> LAI_ERROR_NONE then Ok (LAI_ERROR_OUT_OF_MEMORY, hp, out)
         else
           bnd (string_head hp (v_ptr object)) (\<lambda>(_, s).
           bnd (get_block (s_content s) 0 len) (\<lambda>bs.
           bnd (buffer_write hp out 0 bs) (\<lambda>hp. Ok (LAI_ERROR_NONE, hp, out)))))
   | _ \<Rightarrow> Ok (LAI_ERROR_ILLEGAL_ARGUMENTS, hp, out))"

text \<open>\<open>memset\<close> of the whole target, then \<open>memcpy\<close> of what fits; the source is read afterwards.\<close>

definition buffer_refill :: "'w lai_heap_scheme \<Rightarrow> lai_variable \<Rightarrow> nat \<Rightarrow>
    ('w lai_heap_scheme \<Rightarrow> u8 list outcome) \<Rightarrow> 'w lai_heap_scheme outcome" where
  "buffer_refill hp target copy_size src =
     bnd (lai_exec_buffer_size hp target) (\<lambda>buffer_size.
     let copy_size = (if copy_size > buffer_size then buffer_size else copy_size) in
     bnd (buffer_write hp target 0 (replicate buffer_size 0)) (\<lambda>hp.
     bnd (src hp) (\<lambda>bs.
     bnd (get_block bs 0 copy_size) (\<lambda>bs. buffer_write hp target 0 bs))))"

definition lai_mutate_buffer :: "'w lai_heap_scheme \<Rightarrow> lai_variable \<Rightarrow> lai_variable \<Rightarrow>
    (lai_api_error \<times> 'w lai_heap_scheme) outcome" where
  "lai_mutate_buffer hp target object = (case v_type object of
     LAI_BUFFER \<Rightarrow>
       bnd (lai_exec_buffer_size hp object) (\<lambda>n.
       bnd (buffer_refill hp target n (\<lambda>hp.
              bnd (lai_exec_buffer_access hp object) (\<lambda>(_, b). Ok (b_content b)))) (\<lambda>hp.
       Ok (LAI_ERROR_NONE, hp)))
   | LAI_INTEGER \<Rightarrow>
       bnd (buffer_refill hp target 8 (\<lambda>_. Ok (le_bytes 8 (v_integer object)))) (\<lambda>hp.
       Ok (LAI_ERROR_NONE, hp))
   | LAI_STRING \<Rightarrow>
       bnd (lai_exec_string_access hp object) (\<lambda>(_, s).
       bnd (lai_strlen (s_content s)) (\<lambda>n.
       bnd (buffer_refill hp target (n + 1) (\<lambda>hp.
              bnd (lai_exec_string_access hp object) (\<lambda>(_, s). Ok (s_content s)))) (\<lambda>hp.
       Ok (LAI_ERROR_NONE, hp))))
   | _ \<Rightarrow> Ok (LAI_ERROR_ILLEGAL_ARGUMENTS, hp))"

text \<open>\<open>size_max\<close> is \<open>~(size_t)0\<close>; the result of \<open>lai_create_string\<close> is not checked.\<close>

definition size_max :: nat where
  "size_max = 2 ^ 64 - 1"

definition lai_obj_to_string :: "'w lai_heap_scheme \<Rightarrow> lai_variable \<Rightarrow> lai_variable \<Rightarrow> nat \<Rightarrow>
    'w obj_result" where
  "lai_obj_to_string hp out object limit = (case v_type object of
     LAI_BUFFER \<Rightarrow>
       bnd (lai_exec_buffer_access hp object) (\<lambda>(_, b).
       bnd (get_block (b_content b) 0 (b_size b)) (\<lambda>buffer.
       let buffer_length = length (c_str buffer);
           fill = (\<lambda>n k. let (_, hp, out) = lai_create_string hp out n in
             bnd (get_block buffer 0 k) (\<lambda>bs.
             bnd (string_write hp out 0 bs) (\<lambda>hp. Ok (LAI_ERROR_NONE, hp, out)))) in
       if buffer_length = 0 then
         let (_, hp, out) = lai_create_string hp out 0 in Ok (LAI_ERROR_NONE, hp, out)
       else if limit = size_max then fill (buffer_length + 1) buffer_length
       else if limit < buffer_length then fill limit limit
       else fill buffer_length buffer_length))
   | _ \<Rightarrow> Ok (LAI_ERROR_ILLEGAL_ARGUMENTS, hp, out))"

text \<open>The loop over the bytes of a buffer: \<open>fmt\<close> is printed into \<open>char buf[5]\<close>, two characters are used.\<close>

fun byte_digits :: "u8 list \<Rightarrow> u8 list \<Rightarrow> u8 list \<Rightarrow> u8 list outcome" where
  "byte_digits fmt prefix [] = Ok []"
| "byte_digits fmt prefix (b # bs) =
     bnd (lai_snprintf (replicate 5 0) 5 fmt [VInt (ucast b)]) (\<lambda>buf.
     bnd (byte_digits fmt prefix bs) (\<lambda>r. Ok (prefix @ [buf ! 0, buf ! 1, 44] @ r)))"

definition digits_string :: "'w lai_heap_scheme \<Rightarrow> lai_variable \<Rightarrow> lai_variable \<Rightarrow> u8 list \<Rightarrow>
    u8 list \<Rightarrow> 'w obj_result" where
  "digits_string hp out object fmt prefix =
     bnd (lai_exec_buffer_access hp object) (\<lambda>(_, b).
     bnd (get_block (b_content b) 0 (b_size b)) (\<lambda>buffer.
     let width = length prefix + 3; (_, hp, out) = lai_create_string hp out (b_size b * width) in
     bnd (byte_digits fmt prefix buffer) (\<lambda>r.
     bnd (string_write hp out 0 r) (\<lambda>hp.
     guard (0 < length r) (
     bnd (string_write hp out (length r - 1) [0]) (\<lambda>hp. Ok (LAI_ERROR_NONE, hp, out)))))))"

definition number_string :: "'w lai_heap_scheme \<Rightarrow> lai_variable \<Rightarrow> nat \<Rightarrow> nat \<Rightarrow> u8 list \<Rightarrow>
    u64 \<Rightarrow> 'w obj_result" where
  "number_string hp out n len fmt i =
     (let (_, hp, out) = lai_create_string hp out n in
      bnd (lai_vsnprintf len fmt [VLong i]) (\<lambda>bs.
      bnd (string_write hp out 0 bs) (\<lambda>hp. Ok (LAI_ERROR_NONE, hp, out))))"

definition lai_obj_to_decimal_string :: "'w lai_heap_scheme \<Rightarrow> lai_variable \<Rightarrow> lai_variable \<Rightarrow>
    'w obj_result" where
  "lai_obj_to_decimal_string hp out object = (case v_type object of
     LAI_INTEGER \<Rightarrow> number_string hp out 20 21 (bytes_of ''%llu'' @ [0]) (v_integer object)
   | LAI_BUFFER \<Rightarrow> digits_string hp out object (bytes_of ''%02d'' @ [0]) []
   | LAI_STRING \<Rightarrow> bnd (lai_obj_clone hp out object) (\<lambda>(hp, out). Ok (LAI_ERROR_NONE, hp, out))
   | _ \<Rightarrow> Ok (LAI_ERROR_ILLEGAL_ARGUMENTS, hp, out))"

definition lai_obj_to_hex_string :: "'w lai_heap_scheme \<Rightarrow> lai_variable \<Rightarrow> lai_variable \<Rightarrow>
    'w obj_result" where
  "lai_obj_to_hex_string hp out object = (case v_type object of
     LAI_INTEGER \<Rightarrow> number_string hp out 16 17 (bytes_of ''%X'' @ [0]) (v_integer object)
   | LAI_BUFFER \<Rightarrow> digits_string hp out object (bytes_of ''%02X'' @ [0]) (bytes_of ''0x'')
   | LAI_STRING \<Rightarrow> bnd (lai_obj_clone hp out object) (\<lambda>(hp, out). Ok (LAI_ERROR_NONE, hp, out))
   | _ \<Rightarrow> Ok (LAI_ERROR_ILLEGAL_ARGUMENTS, hp, out))"

text \<open>The loop of \<open>lai_mutate_string\<close> over a buffer: \<open>0x12 0x34\<close> at \<open>s\<close>, then the terminator.\<close>

fun mutate_digits :: "u8 list \<Rightarrow> nat \<Rightarrow> bool \<Rightarrow> u8 list \<Rightarrow> u8 list outcome" where
  "mutate_digits c s first [] = put_block c s [0]"
| "mutate_digits c s first (b # bs) =
     bnd (if first then lai_vsnprintf 5 (bytes_of ''0x%02X'' @ [0]) [VInt (ucast b)]
          else lai_vsnprintf 6 (bytes_of '' 0x%02X'' @ [0]) [VInt (ucast b)]) (\<lambda>w.
     bnd (put_block c s w) (\<lambda>c.
     mutate_digits c (s + (if first then 4 else 5)) False bs))"

definition lai_mutate_string :: "'w lai_heap_scheme \<Rightarrow> lai_variable \<Rightarrow> lai_variable \<Rightarrow>
    (lai_api_error \<times> 'w lai_heap_scheme) outcome" where
  "lai_mutate_string hp target object = (case v_type object of
     LAI_STRING \<Rightarrow>
       bnd (lai_exec_string_access hp object) (\<lambda>(_, s).
       bnd (lai_strlen (s_content s)) (\<lambda>n.
       bnd (lai_obj_resize_string hp target n) (\<lambda>(e, hp).
       ensure (e = LAI_ERROR_NONE) (
       bnd (lai_exec_string_access hp target) (\<lambda>(a, t).
       bnd (lai_exec_string_access hp object) (\<lambda>(_, s).
       bnd (lai_strcpy (s_content t) (s_content s)) (\<lambda>c.
       Ok (LAI_ERROR_NONE, put_string hp a t c))))))))
   | LAI_INTEGER \<Rightarrow>
       bnd (lai_obj_resize_string hp target 17) (\<lambda>(e, hp).
       ensure (e = LAI_ERROR_NONE) (
       bnd (lai_exec_string_access hp target) (\<lambda>(a, t).
       bnd (lai_snprintf (s_content t) 17 (bytes_of ''%016lX'' @ [0]) [VLong (v_integer object)]) (\<lambda>c.
       Ok (LAI_ERROR_NONE, put_string hp a t c)))))
   | LAI_BUFFER \<Rightarrow>
       bnd (lai_exec_buffer_access hp object) (\<lambda>(_, b).
       bnd (lai_obj_resize_string hp target (5 * b_size b + 1)) (\<lambda>(e, hp).
       ensure (e = LAI_ERROR_NONE) (
       bnd (lai_exec_string_access hp target) (\<lambda>(a, t).
       bnd (get_block (b_content b) 0 (b_size b)) (\<lambda>bs.
       bnd (mutate_digits (s_content t) 0 True bs) (\<lambda>c.
       Ok (LAI_ERROR_NONE, put_string hp a t c)))))))
   | _ \<Rightarrow> Ok (LAI_ERROR_ILLEGAL_ARGUMENTS, hp))"

definition hex_value :: "u8 \<Rightarrow> u64 option" where
  "hex_value c =
     (if 48 \<le> c \<and> c \<le> 57 then Some (ucast (c - 48))
      else if 97 \<le> c \<and> c \<le> 102 then Some (ucast (c - 97) + 10)
      else if 65 \<le> c \<and> c \<le> 70 then Some (ucast (c - 65) + 10)
      else None)"

fun parse_hex :: "u8 list \<Rightarrow> u64 \<Rightarrow> u64 option" where
  "parse_hex [] i = Some i"
| "parse_hex (c # cs) i = (case hex_value c of None \<Rightarrow> None | Some v \<Rightarrow> parse_hex cs (i * 16 + v))"

fun parse_dec :: "u8 list \<Rightarrow> u64 \<Rightarrow> u64 option" where
  "parse_dec [] i = Some i"
| "parse_dec (c # cs) i =
     (if c < 48 \<or> 57 < c then None else parse_dec cs (i * 10 + ucast (c - 48)))"

definition lai_obj_to_integer :: "'w lai_heap_scheme \<Rightarrow> lai_variable \<Rightarrow> lai_variable \<Rightarrow>
    'w obj_result" where
  "lai_obj_to_integer hp out object = (case v_type object of
     LAI_BUFFER \<Rightarrow>
       bnd (lai_exec_buffer_access hp object) (\<lambda>(_, b).
       if b_size b < 8 then Ok (LAI_ERROR_ILLEGAL_ARGUMENTS, hp, out)
       else bnd (get_block (b_content b) 0 8) (\<lambda>bs.
            Ok (LAI_ERROR_NONE, hp, out\<lparr>v_type := LAI_INTEGER, v_integer := le_word bs\<rparr>)))
   | LAI_STRING \<Rightarrow>
       bnd (lai_exec_string_length hp object) (\<lambda>n.
       bnd (lai_exec_string_access hp object) (\<lambda>(_, s).
       let str = take n (s_content s);
           r = (if n \<ge> 2 \<and> str ! 0 = 48 \<and> (str ! 1 = 120 \<or> str ! 1 = 88)
                then parse_hex (drop 2 str) 0 else parse_dec str 0) in
       case r of
         None \<Rightarrow> Ok (LAI_ERROR_ILLEGAL_ARGUMENTS, hp, out)
       | Some i \<Rightarrow> Ok (LAI_ERROR_NONE, hp, out\<lparr>v_type := LAI_INTEGER, v_integer := i\<rparr>)))
   | LAI_INTEGER \<Rightarrow> bnd (lai_obj_clone hp out object) (\<lambda>(hp, out). Ok (LAI_ERROR_NONE, hp, out))
   | _ \<Rightarrow> Ok (LAI_ERROR_ILLEGAL_ARGUMENTS, hp, out))"

text \<open>At most 16 hex digits are read, up to the first character that is not one.\<close>

fun mutate_hex :: "nat \<Rightarrow> u8 list \<Rightarrow> u64 \<Rightarrow> u64 outcome" where
  "mutate_hex 0 cs i = Ok i"
| "mutate_hex (Suc n) [] i = Fault"
| "mutate_hex (Suc n) (c # cs) i =
     (case hex_value c of None \<Rightarrow> Ok i | Some v \<Rightarrow> mutate_hex n cs (push_bit 4 i OR v))"

definition lai_mutate_integer :: "'w lai_heap_scheme \<Rightarrow> lai_variable \<Rightarrow> lai_variable \<Rightarrow>
    'w obj_result" where
  "lai_mutate_integer hp target object = (case v_type object of
     LAI_INTEGER \<Rightarrow> bnd (lai_var_assign hp target object) (\<lambda>(hp, target). Ok (LAI_ERROR_NONE, hp, target))
   | LAI_STRING \<Rightarrow>
       bnd (lai_exec_string_access hp object) (\<lambda>(_, s).
       ensure (v_type target = LAI_INTEGER) (
       bnd (mutate_hex 16 (s_content s) 0) (\<lambda>i.
       Ok (LAI_ERROR_NONE, hp, target\<lparr>v_integer := i\<rparr>))))
   | LAI_BUFFER \<Rightarrow>
       ensure (v_type target = LAI_INTEGER) (
       bnd (lai_exec_buffer_access hp object) (\<lambda>(_, b).
       let copy_size = (if b_size b > 8 then 8 else b_size b) in
       bnd (get_block (b_content b) 0 copy_size) (\<lambda>bs.
       Ok (LAI_ERROR_NONE, hp, target\<lparr>v_integer := le_word bs\<rparr>))))
   | _ \<Rightarrow> Ok (LAI_ERROR_ILLEGAL_ARGUMENTS, hp, target))"

subsection \<open>Comparison\<close>

text \<open>
  \<open>lai_obj_exec_match_op\<close>: the operators of \<open>DefMatch\<close>.  \<open>cmp\<close> is \<open>memcmp\<close>, which the
  host provides.  The temporary is released on every path, as \<open>LAI_CLEANUP_VAR\<close> does.
\<close>

datatype match_op = MATCH_MTR | MATCH_MEQ | MATCH_MLE | MATCH_MLT | MATCH_MGE | MATCH_MGT | MATCH_OTHER nat

fun match_integers :: "match_op \<Rightarrow> u64 \<Rightarrow> u64 \<Rightarrow> bool option" where
  "match_integers MATCH_MTR a b = Some True"
| "match_integers MATCH_MEQ a b = Some (a = b)"
| "match_integers MATCH_MLE a b = Some (a \<le> b)"
| "match_integers MATCH_MLT a b = Some (a < b)"
| "match_integers MATCH_MGE a b = Some (a \<ge> b)"
| "match_integers MATCH_MGT a b = Some (a > b)"
| "match_integers (MATCH_OTHER n) a b = None"

fun match_bytes :: "match_op \<Rightarrow> int \<Rightarrow> nat \<Rightarrow> nat \<Rightarrow> bool option" where
  "match_bytes MATCH_MTR c m n = Some True"
| "match_bytes MATCH_MEQ c m n = Some (c = 0 \<and> m = n)"
| "match_bytes MATCH_MLE c m n = Some (\<not> (if c = 0 then m > n else c > 0))"
| "match_bytes MATCH_MLT c m n = Some (if c = 0 then m < n else c < 0)"
| "match_bytes MATCH_MGE c m n = Some (\<not> (if c = 0 then m < n else c < 0))"
| "match_bytes MATCH_MGT c m n = Some (if c = 0 then m > n else c > 0)"
| "match_bytes (MATCH_OTHER k) c m n = None"

definition match_result :: "'w lai_heap_scheme \<Rightarrow> lai_variable \<Rightarrow> bool option \<Rightarrow>
    (lai_api_error \<times> 'w lai_heap_scheme \<times> bool option) outcome" where
  "match_result hp temp r =
     bnd (lai_var_finalize hp temp) (\<lambda>hp.
     case r of None \<Rightarrow> Ok (LAI_ERROR_UNEXPECTED_RESULT, hp, None)
     | Some x \<Rightarrow> Ok (LAI_ERROR_NONE, hp, Some x))"

definition lai_obj_exec_match_op :: "(u8 list \<Rightarrow> u8 list \<Rightarrow> nat \<Rightarrow> int outcome) \<Rightarrow> match_op \<Rightarrow>
    'w lai_heap_scheme \<Rightarrow> lai_variable \<Rightarrow> lai_variable \<Rightarrow>
    (lai_api_error \<times> 'w lai_heap_scheme \<times> bool option) outcome" where
  "lai_obj_exec_match_op cmp op hp var obj =
     (let fail = (\<lambda>e hp temp. bnd (lai_var_finalize hp temp) (\<lambda>hp. Ok (e, hp, None))) in
      if v_type var = LAI_INTEGER then
        bnd (lai_obj_to_integer hp var0 obj) (\<lambda>(e, hp, temp).
        if e \<noteq> LAI_ERROR_NONE then fail e hp temp
        else match_result hp temp (match_integers op (v_integer var) (v_integer temp)))
      else if v_type var = LAI_BUFFER then
        bnd (lai_obj_to_buffer hp var0 obj) (\<lambda>(e, hp, temp).
        if e \<noteq> LAI_ERROR_NONE then fail e hp temp
        else
          bnd (lai_exec_buffer_access hp var) (\<lambda>(_, v).
          bnd (lai_exec_buffer_access hp temp) (\<lambda>(_, b).
          bnd (cmp (b_content v) (b_content b) (if b_size v > b_size b then b_size b else b_size v)) (\<lambda>c.
          match_result hp temp (match_bytes op c (b_size v) (b_size b))))))
      else if v_type var = LAI_STRING then
        bnd (lai_obj_to_hex_string hp var0 obj) (\<lambda>(e, hp, temp).
        if e \<noteq> LAI_ERROR_NONE then fail e hp temp
        else
          bnd (lai_exec_string_access hp var) (\<lambda>(_, v).
          bnd (lai_exec_string_access hp temp) (\<lambda>(_, s).
          bnd (lai_exec_string_length hp var) (\<lambda>m.
          bnd (lai_exec_string_length hp temp) (\<lambda>n.
          bnd (cmp (s_content v) (s_content s) (if m > n then n else m)) (\<lambda>c.
          match_result hp temp (match_bytes op c m n)))))))
      else Ok (LAI_ERROR_UNEXPECTED_RESULT, hp, None))"

subsection \<open>EISA identifiers\<close>

text \<open>\<open>lai_eisaid\<close>: an id of seven characters is compressed, any other is kept as a string.\<close>

definition lai_eisaid :: "'w lai_heap_scheme \<Rightarrow> lai_variable \<Rightarrow> u8 list \<Rightarrow>
    ('w lai_heap_scheme \<times> lai_variable) outcome" where
  "lai_eisaid hp object i =
     bnd (lai_strlen i) (\<lambda>n.
     if n \<noteq> 7 then
       let (e, hp, object) = lai_create_string hp object n in
       ensure (e = LAI_ERROR_NONE) (
       bnd (get_block i 0 n) (\<lambda>bs.
       bnd (string_write hp object 0 bs) (\<lambda>hp. Ok (hp, object))))
     else
       bnd (eisaid_integer i) (\<lambda>r. Ok (hp, object\<lparr>v_type := LAI_INTEGER, v_integer := r\<rparr>)))"

subsection \<open>Hexadecimal digits\<close>

fun hex_digits :: "nat \<Rightarrow> u64 \<Rightarrow> u8 list" where
  "hex_digits 0 i = []"
| "hex_digits (Suc k) i = hex_digits k (i div 16) @ [digit_of True (i mod 16)]"

lemma length_hex_digits [simp]: "length (hex_digits k i) = k"
  by (induction k arbitrary: i) auto

lemma hex_digits_zero: "hex_digits k 0 = replicate k 48"
  by (induction k) (auto simp: digit_of_def replicate_append_same)

lemma pad_front_Ok:
  "length acc + n \<le> 49 \<Longrightarrow> pad_front n c acc = Ok (replicate n c @ acc)"
  by (induction n arbitrary: acc) (auto simp: push_front_def replicate_app_Cons_same)

lemma num_loop_hex:
  assumes "unat i < 16 ^ k" and "0 < k" and "length acc + k \<le> 49"
  shows "bnd (num_loop i 16 True k (int k) acc) (\<lambda>(acc, p). pad_front p 48 acc)
    = Ok (hex_digits k i @ acc)"
  using assms
proof (induction k arbitrary: i acc)
  case (Suc m)
  let ?acc = "digit_of True (i mod 16) # acc"
  have push: "push_front (digit_of True (i mod 16)) acc = Ok ?acc"
    using Suc.prems(3) by (simp add: push_front_def)
  have base: "1 < (16 :: u64)" by simp
  have div: "unat (i div 16) < 16 ^ m"
    using Suc.prems(1) by (simp add: unat_div less_mult_imp_div_less)
  show ?case
  proof (cases "i div 16 = 0")
    case True
    have "num_loop i 16 True (Suc m) (int (Suc m)) acc = Ok (?acc, m)"
      using push True by (simp add: num_loop.simps [of i])
    moreover have "pad_front m 48 ?acc = Ok (replicate m 48 @ ?acc)"
      using Suc.prems(3) by (intro pad_front_Ok) simp
    ultimately show ?thesis by (simp add: True hex_digits_zero)
  next
    case False
    then have "unat (i div 16) \<noteq> 0" by (simp add: unat_eq_zero)
    with div have m: "0 < m" by (cases m) auto
    have "num_loop i 16 True (Suc m) (int (Suc m)) acc = num_loop (i div 16) 16 True m (int m) ?acc"
      using push False m by (simp add: num_loop.simps [of i])
    with Suc.IH [OF div m, of ?acc] Suc.prems(3) show ?thesis by simp
  qed
qed simp

lemma unat_less_hex: "unat (i :: u64) < 16 ^ 16"
  using unsigned_less [where ?'a = nat, of i] by simp

lemma num_fmt_hex16: "num_fmt i 16 16 48 False True 16 = Ok (hex_digits 16 i)"
  using num_loop_hex [OF unat_less_hex, of "[]" i] by (simp add: num_fmt_def)

lemma print_hex16:
  "lai_vsnprintf 17 (bytes_of ''%016lX'' @ [0]) [VLong i] = Ok (hex_digits 16 i @ [0])"
  by (simp add: lai_vsnprintf_def fmt_directive_def is_digit_def fmt_conv_def num_fmt_hex16
      fmt_puts_fits Let_def)

lemma hex_value_digit:
  assumes "v < (16 :: u64)"
  shows "hex_value (digit_of True v) = Some v"
proof -
  obtain n where v: "v = of_nat n" and "n < 16"
  proof
    show "v = of_nat (unat v)" by simp
    show "unat v < 16" using assms by (simp add: word_less_nat_alt)
  qed
  from this(2) have "n \<in> {0, 1, 2, 3, 4, 5, 6, 7, 8, 9, 10, 11, 12, 13, 14, 15}" by simp arith
  then show ?thesis unfolding v by (elim insertE emptyE) (simp_all add: digit_of_def hex_value_def)
qed

lemma nibble_shift:
  "push_bit 4 (push_bit (4 * k) a OR take_bit (4 * k) (i div 16)) OR i mod 16
     = push_bit (4 * Suc k) a OR take_bit (4 * Suc k) (i :: u64)"
proof -
  have d: "i div 16 = drop_bit 4 i" and m: "i mod 16 = take_bit 4 i"
    by (simp_all add: drop_bit_eq_div take_bit_eq_mod)
  show ?thesis unfolding d m
    by (rule bit_word_eqI) (auto simp: bit_simps)
qed

lemma mutate_hex_digits:
  "mutate_hex (k + n) (hex_digits k i @ cs) a
     = mutate_hex n cs (push_bit (4 * k) a OR take_bit (4 * k) i)"
proof (induction k arbitrary: i n cs)
  case (Suc k)
  have "i mod 16 < (16 :: u64)" by (rule word_mod_less_divisor) simp
  then have v: "hex_value (digit_of True (i mod 16)) = Some (i mod 16)" by (rule hex_value_digit)
  from Suc [of "Suc n" "i div 16" "digit_of True (i mod 16) # cs"]
  show ?case by (simp add: v nibble_shift [simplified])
qed simp

subsection \<open>Properties\<close>

lemma take_bit_u64 [simp]: "take_bit 64 (w :: u64) = w"
  by (rule bit_word_eqI) (simp add: bit_simps)

lemma string_head_cell:
  "cell hp a = Some (HStr s) \<Longrightarrow> string_head hp (PHead a) = Ok (a, s)"
  by (simp add: string_head_def deref_def)

lemma buffer_head_cell:
  "cell hp a = Some (HBuf b) \<Longrightarrow> buffer_head hp (PHead a) = Ok (a, b)"
  by (simp add: buffer_head_def deref_def)

lemma resize_string_room:
  assumes "v_type t = LAI_STRING" and "v_ptr t = PHead a" and "cell hp a = Some (HStr s)"
    and "terminated (s_content s)" and "\<forall>k. mem_ok hp k"
  shows "\<exists>hp' s'. lai_obj_resize_string hp t n = Ok (LAI_ERROR_NONE, hp') \<and>
    cell hp' a = Some (HStr s') \<and> n < length (s_content s') \<and> length (cells hp') = length (cells hp)"
proof (cases "length (c_str (s_content s)) < n")
  case True
  have cl: "cell (hp\<lparr>mem_clock := k\<rparr>) b = cell hp b" for k b by (simp add: cell_def)
  have lt: "a < length (cells hp)" by (rule cell_Some_lt [OF assms(3)])
  let ?c = "c_str (s_content s) @ 0 # drop (Suc (length (c_str (s_content s)))) (map (mem_junk hp) [0..<n + 1])"
  have cpy: "lai_strcpy (map (mem_junk hp) [0..<n + 1]) (s_content s) = Ok ?c"
    using True assms(4) by (intro lai_strcpy_spec) auto
  show ?thesis
    using True assms lt cpy
    by (simp add: lai_obj_resize_string_def string_head_cell lai_strlen_spec laihost_malloc_def
        cell_put_cell del: upt_Suc)
next
  case False
  then have "n < length (s_content s)" using c_str_length [OF assms(4)] by simp
  with False assms show ?thesis
    by (simp add: lai_obj_resize_string_def string_head_cell lai_strlen_spec)
qed

text \<open>
  C12. Storing an integer into a string variable (\<open>lai_mutate_string\<close>: sixteen hexadecimal
  digits) and storing that string back into an integer variable (\<open>lai_mutate_integer\<close>)
  gives the same integer, for every 64-bit value and whatever the string held before; the
  digits fit the memory the string is resized to.
\<close>

theorem integer_string_roundtrip:
  assumes "v_type t = LAI_STRING" and "v_ptr t = PHead a" and "cell hp a = Some (HStr s)"
    and "terminated (s_content s)" and "\<forall>k. mem_ok hp k" and "v_type d = LAI_INTEGER"
  shows "\<exists>hp'. lai_mutate_string hp t (int_var i) = Ok (LAI_ERROR_NONE, hp') \<and>
    lai_mutate_integer hp' d t = Ok (LAI_ERROR_NONE, hp', d\<lparr>v_integer := i\<rparr>)"
proof -
  obtain hp1 s1 where r: "lai_obj_resize_string hp t 17 = Ok (LAI_ERROR_NONE, hp1)"
    "cell hp1 a = Some (HStr s1)" "17 < length (s_content s1)"
    using resize_string_room [OF assms(1-5)] by blast
  let ?c = "hex_digits 16 i @ 0 # drop 17 (s_content s1)"
  let ?hp' = "put_string hp1 a s1 ?c"
  have w: "lai_snprintf (s_content s1) 17 (bytes_of ''%016lX'' @ [0]) [VLong i] = Ok ?c"
    using r(3) unfolding lai_snprintf_def print_hex16 by (simp add: put_block_def)
  have "lai_mutate_string hp t (int_var i) = Ok (LAI_ERROR_NONE, ?hp')"
    using assms(1,2) r w
    by (simp add: lai_mutate_string_def int_var_def var0_def lai_exec_string_access_def string_head_cell)
  moreover have "cell ?hp' a = Some (HStr (s1\<lparr>s_content := ?c\<rparr>))"
    using cell_Some_lt [OF r(2)] by (simp add: put_string_def cell_put_cell)
  moreover have "mutate_hex 16 ?c 0 = Ok i"
    using mutate_hex_digits [of 16 0 i "0 # drop 17 (s_content s1)" 0] by simp
  ultimately show ?thesis using assms(1,2,6)
    by (simp add: lai_mutate_integer_def lai_exec_string_access_def string_head_cell)
qed

lemma integer_string_roundtrip_witness:
  "\<exists>hp'. lai_mutate_string demo_heap demo_string (int_var 0xDEADBEEF00C0FFEE) = Ok (LAI_ERROR_NONE, hp') \<and>
    lai_mutate_integer hp' (int_var 1) demo_string
      = Ok (LAI_ERROR_NONE, hp', (int_var 1)\<lparr>v_integer := 0xDEADBEEF00C0FFEE\<rparr>)"
proof (rule integer_string_roundtrip)
  show "cell demo_heap 0 = Some (HStr \<lparr>s_rc = 2, s_capacity = 1, s_content = [0]\<rparr>)"
    by (simp add: demo_heap_cell)
qed (simp_all add: demo_string_def int_var_def var0_def demo_heap_def)

text \<open>
  Converting an integer to a buffer and the buffer back (\<open>lai_obj_to_buffer\<close>,
  \<open>lai_obj_to_integer\<close>) gives the same integer.
\<close>

theorem integer_buffer_roundtrip:
  assumes "\<forall>k. mem_ok hp k"
  shows "\<exists>hp' b. lai_obj_to_buffer hp out (int_var i) = Ok (LAI_ERROR_NONE, hp', b) \<and>
    (\<exists>n. lai_obj_to_integer hp' d b = Ok (LAI_ERROR_NONE, hp', n) \<and>
      v_type n = LAI_INTEGER \<and> v_integer n = i)"
proof -
  have g: "get_block (le_bytes 8 i) 0 8 = Ok (le_bytes 8 i)" by (simp add: get_block_def)
  have "le_word (le_bytes 8 i) = i" by (simp add: le_word_le_bytes)
  then show ?thesis using assms g
    by (simp add: lai_obj_to_buffer_def int_var_def var0_def lai_create_buffer_def create_head_def
        laihost_malloc_def buffer_write_def buffer_head_def deref_def new_cell_def cell_def
        put_block_def put_buffer_def put_cell_def lai_obj_to_integer_def lai_exec_buffer_access_def
        nth_append)
qed

lemma integer_buffer_roundtrip_witness:
  "\<exists>hp' b. lai_obj_to_buffer demo_heap var0 (int_var 0x123456789A) = Ok (LAI_ERROR_NONE, hp', b) \<and>
    (\<exists>n. lai_obj_to_integer hp' var0 b = Ok (LAI_ERROR_NONE, hp', n) \<and>
      v_type n = LAI_INTEGER \<and> v_integer n = 0x123456789A)"
  by (rule integer_buffer_roundtrip) (simp add: demo_heap_def)

text \<open>The sign of the first difference decides the lexicographic order.\<close>

lemma c_memcmp_sign:
  assumes "m \<le> length a" and "n \<le> length b"
  shows "\<exists>c. c_memcmp a b (min m n) = Ok c \<and>
    (c = 0 \<longleftrightarrow> take (min m n) a = take (min m n) b) \<and>
    ((if c = 0 then m < n else c < 0) \<longleftrightarrow> (take m a, take n b) \<in> lexord {(x, y). x < y}) \<and>
    ((if c = 0 then m > n else c > 0) \<longleftrightarrow> (take n b, take m a) \<in> lexord {(x, y). x < y})"
  using assms
proof (induction a arbitrary: b m n)
  case Nil
  then show ?case by (cases n; cases b) auto
next
  case (Cons x a)
  show ?case
  proof (cases m)
    case 0
    then show ?thesis using Cons.prems by (cases n; cases b) auto
  next
    case (Suc m')
    show ?thesis
    proof (cases n)
      case 0
      then show ?thesis using Suc by auto
    next
      case n: (Suc n')
      then obtain y b' where b: "b = y # b'" using Cons.prems(2) by (cases b) auto
      from Cons.IH [of m' n' b'] Cons.prems Suc n b obtain c where
        "c_memcmp a b' (min m' n') = Ok c"
        "(c = 0 \<longleftrightarrow> take (min m' n') a = take (min m' n') b')"
        "((if c = 0 then m' < n' else c < 0) \<longleftrightarrow> (take m' a, take n' b') \<in> lexord {(x, y). x < y})"
        "((if c = 0 then m' > n' else c > 0) \<longleftrightarrow> (take n' b', take m' a) \<in> lexord {(x, y). x < y})"
        by auto
      then show ?thesis using Suc n b by (cases "x < y"; cases "y < x") (auto split: if_splits)
    qed
  qed
qed

text \<open>
  With a \<open>memcmp\<close> that reports the sign of the first difference, as the C library
  documents it, the comparison operators of \<open>Match\<close> on strings and buffers are the
  lexicographic order on the bytes, with the shorter of two comparable ones below.
\<close>

theorem match_bytes_order:
  assumes "m \<le> length a" and "n \<le> length b"
  shows "\<exists>c. c_memcmp a b (min m n) = Ok c \<and>
    match_bytes MATCH_MEQ c m n = Some (take m a = take n b) \<and>
    match_bytes MATCH_MLT c m n = Some ((take m a, take n b) \<in> lexord {(x, y). x < y}) \<and>
    match_bytes MATCH_MGE c m n = Some ((take m a, take n b) \<notin> lexord {(x, y). x < y}) \<and>
    match_bytes MATCH_MGT c m n = Some ((take n b, take m a) \<in> lexord {(x, y). x < y}) \<and>
    match_bytes MATCH_MLE c m n = Some ((take n b, take m a) \<notin> lexord {(x, y). x < y})"
proof -
  from c_memcmp_sign [OF assms] obtain c where c: "c_memcmp a b (min m n) = Ok c"
    "c = 0 \<longleftrightarrow> take (min m n) a = take (min m n) b"
    "(if c = 0 then m < n else c < 0) \<longleftrightarrow> (take m a, take n b) \<in> lexord {(x, y). x < y}"
    "(if c = 0 then m > n else c > 0) \<longleftrightarrow> (take n b, take m a) \<in> lexord {(x, y). x < y}" by blast
  have "(c = 0 \<and> m = n) \<longleftrightarrow> take m a = take n b"
    using c(2) assms by (metis length_take min.absorb2 min.idem)
  with c show ?thesis by simp
qed

lemma match_bytes_order_witness:
  "\<exists>c. c_memcmp [1, 2, 3] [1, 9 :: u8] (min 3 2) = Ok c \<and>
    match_bytes MATCH_MEQ c 3 2 = Some (take 3 [1, 2, 3] = take 2 [1, 9 :: u8]) \<and>
    match_bytes MATCH_MLT c 3 2 = Some ((take 3 [1, 2, 3], take 2 [1, 9 :: u8]) \<in> lexord {(x, y). x < y}) \<and>
    match_bytes MATCH_MGE c 3 2 = Some ((take 3 [1, 2, 3], take 2 [1, 9 :: u8]) \<notin> lexord {(x, y). x < y}) \<and>
    match_bytes MATCH_MGT c 3 2 = Some ((take 2 [1, 9 :: u8], take 3 [1, 2, 3]) \<in> lexord {(x, y). x < y}) \<and>
    match_bytes MATCH_MLE c 3 2 = Some ((take 2 [1, 9 :: u8], take 3 [1, 2, 3]) \<notin> lexord {(x, y). x < y})"
  by (rule match_bytes_order) simp_all

text \<open>
  \<open>lai_mutate_buffer\<close> of a buffer into itself, which is what \<open>Store(BUF0, BUF0)\<close> does as
  operands share the head, erases it: the target is cleared before the source is read.
\<close>

theorem mutate_buffer_self_clears:
  assumes "v_type v = LAI_BUFFER" and "v_ptr v = PHead a" and "cell hp a = Some (HBuf b)"
    and "length (b_content b) = b_size b"
  shows "lai_mutate_buffer hp v v
    = Ok (LAI_ERROR_NONE, put_buffer hp a b (replicate (b_size b) 0))"
proof -
  have lt: "a < length (cells hp)" by (rule cell_Some_lt [OF assms(3)])
  have twice: "put_buffer (put_buffer hp a b c) a (b\<lparr>b_content := c\<rparr>) d = put_buffer hp a b d" for c d
    by (simp add: put_buffer_def put_cell_def)
  have c: "cell (put_buffer hp a b c) a = Some (HBuf (b\<lparr>b_content := c\<rparr>))" for c
    by (simp add: put_buffer_def cell_put_cell lt)
  show ?thesis using assms
    by (simp add: lai_mutate_buffer_def lai_exec_buffer_size_def lai_exec_buffer_access_def
        buffer_head_cell buffer_refill_def buffer_write_def put_block_def c twice get_block_def Let_def)
qed

definition demo_buffer :: "lai_heap" where
  "demo_buffer = demo_heap\<lparr>cells := [Some (HBuf \<lparr>b_rc = 2, b_size = 3, b_content = [7, 8, 9]\<rparr>)]\<rparr>"

lemma mutate_buffer_self_clears_witness:
  "lai_mutate_buffer demo_buffer (var0\<lparr>v_type := LAI_BUFFER, v_ptr := PHead 0\<rparr>)
      (var0\<lparr>v_type := LAI_BUFFER, v_ptr := PHead 0\<rparr>)
    = Ok (LAI_ERROR_NONE, put_buffer demo_buffer 0 \<lparr>b_rc = 2, b_size = 3, b_content = [7, 8, 9]\<rparr>
        (replicate (b_size \<lparr>b_rc = 2, b_size = 3, b_content = [7, 8, 9]\<rparr>) 0))"
  by (rule mutate_buffer_self_clears) (simp_all add: demo_buffer_def cell_def)

text \<open>
  \<open>ToDecimalString\<close> and \<open>ToHexString\<close> of an empty buffer write in front of the string:
  the terminator goes to index \<open>-1\<close>.
\<close>

theorem digits_of_empty_buffer_fault:
  assumes "v_type v = LAI_BUFFER" and "v_ptr v = PHead a" and "cell hp a = Some (HBuf b)"
    and "b_size b = 0" and "\<forall>k. mem_ok hp k"
  shows "lai_obj_to_decimal_string hp out v = Fault \<and> lai_obj_to_hex_string hp out v = Fault"
  using assms
  by (simp_all add: lai_obj_to_decimal_string_def lai_obj_to_hex_string_def digits_string_def
      lai_exec_buffer_access_def buffer_head_cell get_block_def lai_create_string_def
      create_head_def laihost_malloc_def string_write_def lai_exec_string_access_def
      string_head_def deref_def new_cell_def cell_def nth_append put_block_def)

lemma digits_of_empty_buffer_fault_witness:
  "lai_obj_to_decimal_string (demo_heap\<lparr>cells := [Some (HBuf \<lparr>b_rc = 1, b_size = 0, b_content = []\<rparr>)]\<rparr>)
      var0 (var0\<lparr>v_type := LAI_BUFFER, v_ptr := PHead 0\<rparr>) = Fault \<and>
   lai_obj_to_hex_string (demo_heap\<lparr>cells := [Some (HBuf \<lparr>b_rc = 1, b_size = 0, b_content = []\<rparr>)]\<rparr>)
      var0 (var0\<lparr>v_type := LAI_BUFFER, v_ptr := PHead 0\<rparr>) = Fault"
proof (rule digits_of_empty_buffer_fault)
  show "cell (demo_heap\<lparr>cells := [Some (HBuf \<lparr>b_rc = 1, b_size = 0, b_content = []\<rparr>)]\<rparr>) 0
      = Some (HBuf \<lparr>b_rc = 1, b_size = 0, b_content = []\<rparr>)" by (simp add: cell_def)
qed (simp_all add: demo_heap_def)

end
