(* ===== verification/Lai_Name.thy ===== *)
theory Lai_Name
  imports Lai_Text
begin

text \<open>
  AML names (\<open>struct lai_amlname\<close> of \<open>lai/core/exec_impl.h\<close> and its functions in
  \<open>lai/core/ns.c\<close>): parsing of the encoded form, iteration over the segments and printing.

  The pointers \<open>it\<close> and \<open>end\<close> are the bytes from \<open>it\<close> on and the distance between the two.
  \<open>aml_encode\<close> is the encoding of the ACPI specification; parsing inverts it.
\<close>

record lai_amlname =
  is_absolute :: bool
  height :: nat
  search_scopes :: bool
  amln_it :: "u8 list"
  amln_left :: nat

abbreviation ROOT_CHAR :: u8 where "ROOT_CHAR \<equiv> 0x5C"
abbreviation PARENT_CHAR :: u8 where "PARENT_CHAR \<equiv> 0x5E"
abbreviation DUAL_PREFIX :: u8 where "DUAL_PREFIX \<equiv> 0x2E"
abbreviation MULTI_PREFIX :: u8 where "MULTI_PREFIX \<equiv> 0x2F"

fun amlname_carets :: "u8 list \<Rightarrow> nat \<Rightarrow> (nat \<times> u8 list) outcome" where
  "amlname_carets [] n = Fault"
| "amlname_carets (c # cs) n = (if c = PARENT_CHAR then amlname_carets cs (Suc n) else Ok (n, c # cs))"

fun amlname_prefix :: "u8 list \<Rightarrow> (bool \<times> nat \<times> u8 list) outcome" where
  "amlname_prefix [] = Fault"
| "amlname_prefix (c # cs) =
     (if c = ROOT_CHAR then Ok (True, 0, cs)
      else bnd (amlname_carets (c # cs) 0) (\<lambda>(n, it). Ok (False, n, it)))"

fun amlname_segs :: "u8 list \<Rightarrow> (nat \<times> u8 list) outcome" where
  "amlname_segs [] = Fault"
| "amlname_segs (c # cs) =
     (if c = 0 then Ok (0, cs)
      else if c = DUAL_PREFIX then Ok (2, cs)
      else if c = MULTI_PREFIX then
        bnd (rd cs 0) (\<lambda>n. ensure (2 < unat n) (Ok (unat n, tl cs)))
      else ensure (lai_is_name c) (Ok (1, c # cs)))"

definition lai_amlname_parse :: "u8 list \<Rightarrow> (lai_amlname \<times> nat) outcome" where
  "lai_amlname_parse data =
     bnd (amlname_prefix data) (\<lambda>(rooted, h, it).
     bnd (amlname_segs it) (\<lambda>(num_segs, it).
     Ok (\<lparr>is_absolute = rooted, height = h, search_scopes = \<not> rooted \<and> h = 0 \<and> num_segs = 1,
          amln_it = it, amln_left = 4 * num_segs\<rparr>,
         length data - length it + 4 * num_segs)))"

definition lai_amlname_done :: "lai_amlname \<Rightarrow> bool" where
  "lai_amlname_done amln \<longleftrightarrow> amln_left amln = 0"

definition lai_amlname_iterate :: "lai_amlname \<Rightarrow> (u8 list \<times> lai_amlname) outcome" where
  "lai_amlname_iterate amln =
     ensure (0 < amln_left amln) (
     bnd (get_block (amln_it amln) 0 4) (\<lambda>seg.
     Ok (seg, amln\<lparr>amln_it := drop 4 (amln_it amln), amln_left := amln_left amln - 4\<rparr>)))"

text \<open>
  \<open>lai_stringify_amlname\<close>: the characters written from \<open>str\<close> on, the terminator included, and
  the size the string is allocated with.
\<close>

function stringify_segs :: "lai_amlname \<Rightarrow> u8 list outcome" where
  "stringify_segs amln =
     bnd (lai_amlname_iterate amln) (\<lambda>r.
       if lai_amlname_done (snd r) then Ok (fst r)
       else bnd (stringify_segs (snd r)) (\<lambda>s. Ok (fst r @ 0x2E # s)))"
  by pat_completeness auto
termination
  by (relation "measure amln_left")
     (auto simp: lai_amlname_iterate_def bnd_eq_Ok ensure_eq_Ok lai_amlname_done_def)

declare stringify_segs.simps [simp del]

definition stringify_max_length :: "lai_amlname \<Rightarrow> nat" where
  "stringify_max_length amln = 1 + height amln + amln_left amln div 4 * 5 + 1"

definition lai_stringify_amlname :: "lai_amlname \<Rightarrow> u8 list outcome" where
  "lai_stringify_amlname amln =
     bnd (if \<not> lai_amlname_done amln then stringify_segs amln else Ok []) (\<lambda>segs.
     let str = (if is_absolute amln then [ROOT_CHAR] else []) @ replicate (height amln) PARENT_CHAR
               @ segs @ [0] in
     ensure (length str \<le> stringify_max_length amln) (Ok str))"

subsection \<open>The encoding\<close>

definition aml_segs :: "u8 list list \<Rightarrow> u8 list" where
  "aml_segs ss = (case ss of
     [] \<Rightarrow> [0]
   | [s] \<Rightarrow> s
   | [s, t] \<Rightarrow> DUAL_PREFIX # s @ t
   | _ \<Rightarrow> MULTI_PREFIX # of_nat (length ss) # concat ss)"

definition aml_encode :: "bool \<Rightarrow> nat \<Rightarrow> u8 list list \<Rightarrow> u8 list" where
  "aml_encode rooted h ss =
     (if rooted then [ROOT_CHAR] else replicate h PARENT_CHAR) @ aml_segs ss"

text \<open>A segment is four characters and starts with a letter or an underscore.\<close>

definition seg_ok :: "u8 list \<Rightarrow> bool" where
  "seg_ok s \<longleftrightarrow> length s = 4 \<and> (65 \<le> s ! 0 \<and> s ! 0 \<le> 90 \<or> s ! 0 = 95)"

definition name_ok :: "bool \<Rightarrow> nat \<Rightarrow> u8 list list \<Rightarrow> bool" where
  "name_ok rooted h ss \<longleftrightarrow> (rooted \<longrightarrow> h = 0) \<and> list_all seg_ok ss \<and> length ss < 256"

lemma seg_okD:
  assumes "seg_ok s"
  obtains c s' where "s = c # s'" and "length s' = 3" and "c \<noteq> 0" and "c \<noteq> ROOT_CHAR"
    and "c \<noteq> PARENT_CHAR" and "c \<noteq> DUAL_PREFIX" and "c \<noteq> MULTI_PREFIX" and "lai_is_name c"
proof -
  obtain c s' where s: "s = c # s'" using assms by (cases s) (auto simp: seg_ok_def)
  have c: "65 \<le> c \<and> c \<le> 90 \<or> c = 95" using assms by (simp add: seg_ok_def s)
  then have "c \<noteq> 0 \<and> c \<noteq> ROOT_CHAR \<and> c \<noteq> PARENT_CHAR \<and> c \<noteq> DUAL_PREFIX \<and> c \<noteq> MULTI_PREFIX"
    by (auto simp: word_le_nat_alt)
  moreover have "lai_is_name c" using c by (auto simp: lai_is_name_def)
  moreover have "length s' = 3" using assms by (simp add: seg_ok_def s)
  ultimately show thesis using that s by blast
qed

lemma amlname_carets_replicate:
  "c \<noteq> PARENT_CHAR \<Longrightarrow> amlname_carets (replicate h PARENT_CHAR @ c # cs) n = Ok (n + h, c # cs)"
  by (induction h arbitrary: n) auto

lemma aml_segs_head:
  assumes "list_all seg_ok ss"
  obtains c cs where "aml_segs ss = c # cs" and "c \<noteq> ROOT_CHAR" and "c \<noteq> PARENT_CHAR"
proof (cases ss)
  case Nil
  then show thesis using that [of 0 "[]"] by (simp add: aml_segs_def)
next
  case (Cons s ss')
  show thesis
  proof (cases ss')
    case Nil
    have "seg_ok s" using assms Cons by simp
    then obtain c s' where "s = c # s'" "c \<noteq> ROOT_CHAR" "c \<noteq> PARENT_CHAR" by (rule seg_okD)
    then show thesis using that [of c s'] Cons Nil by (simp add: aml_segs_def)
  next
    case ss': (Cons t ts)
    then show thesis using that Cons by (cases ts) (simp_all add: aml_segs_def)
  qed
qed

lemma amlname_prefix_encode:
  assumes "name_ok rooted h ss"
  shows "amlname_prefix (aml_encode rooted h ss @ rest) = Ok (rooted, h, aml_segs ss @ rest)"
proof (cases rooted)
  case True
  then show ?thesis using assms by (simp add: aml_encode_def name_ok_def)
next
  case False
  have "list_all seg_ok ss" using assms by (simp add: name_ok_def)
  then obtain c cs where c: "aml_segs ss = c # cs" "c \<noteq> ROOT_CHAR" "c \<noteq> PARENT_CHAR"
    by (rule aml_segs_head)
  have enc: "aml_encode rooted h ss @ rest = replicate h PARENT_CHAR @ c # cs @ rest"
    using False c(1) by (simp add: aml_encode_def)
  have "amlname_prefix (x # xs) = bnd (amlname_carets (x # xs) 0) (\<lambda>(n, it). Ok (False, n, it))"
    if "x # xs = replicate h PARENT_CHAR @ c # cs @ rest" for x xs
    using that c(2) by (cases h) auto
  moreover obtain x xs where "replicate h PARENT_CHAR @ c # cs @ rest = x # xs" by (cases h) auto
  ultimately have "amlname_prefix (aml_encode rooted h ss @ rest)
      = bnd (amlname_carets (replicate h PARENT_CHAR @ c # cs @ rest) 0) (\<lambda>(n, it). Ok (False, n, it))"
    unfolding enc by metis
  then show ?thesis using amlname_carets_replicate [OF c(3), of h "cs @ rest" 0] False c(1) by simp
qed

lemma length_concat_segs: "list_all seg_ok ss \<Longrightarrow> length (concat ss) = 4 * length ss"
  by (induction ss) (auto simp: seg_ok_def)

lemma amlname_segs_encode:
  assumes "list_all seg_ok ss" and "length ss < 256"
  shows "amlname_segs (aml_segs ss @ rest) = Ok (length ss, concat ss @ rest)"
proof (cases ss)
  case Nil
  then show ?thesis by (simp add: aml_segs_def)
next
  case (Cons s ss')
  show ?thesis
  proof (cases ss')
    case Nil
    have "seg_ok s" using assms Cons by simp
    then obtain c s' where "s = c # s'" "c \<noteq> 0" "c \<noteq> DUAL_PREFIX" "c \<noteq> MULTI_PREFIX" "lai_is_name c"
      by (rule seg_okD)
    then show ?thesis using Cons Nil by (simp add: aml_segs_def)
  next
    case ss': (Cons t ts)
    show ?thesis
    proof (cases ts)
      case Nil
      then show ?thesis using Cons ss' by (simp add: aml_segs_def)
    next
      case (Cons u us)
      have "unat (of_nat (length ss) :: u8) = length ss"
        using assms(2) by (simp add: unsigned_of_nat take_bit_nat_eq_self)
      then show ?thesis using \<open>ss = s # ss'\<close> ss' Cons
        by (simp add: aml_segs_def del: of_nat_Suc) 
    qed
  qed
qed

lemma amlname_parse_encode:
  assumes "name_ok rooted h ss"
  shows "lai_amlname_parse (aml_encode rooted h ss @ rest)
    = Ok (\<lparr>is_absolute = rooted, height = h, search_scopes = \<not> rooted \<and> h = 0 \<and> length ss = 1,
           amln_it = concat ss @ rest, amln_left = 4 * length ss\<rparr>, length (aml_encode rooted h ss))"
proof -
  have ok: "list_all seg_ok ss" "length ss < 256" using assms by (auto simp: name_ok_def)
  have "length (concat ss) \<le> length (aml_segs ss)"
    by (auto simp: aml_segs_def split: list.splits)
  then have "length (aml_encode rooted h ss @ rest) - length (concat ss @ rest) + 4 * length ss
      = length (aml_encode rooted h ss)"
    using length_concat_segs [OF ok(1)] by (auto simp: aml_encode_def)
  then show ?thesis
    by (simp add: lai_amlname_parse_def amlname_prefix_encode [OF assms] amlname_segs_encode [OF ok])
qed

lemma iterate_seg:
  assumes "seg_ok s"
  shows "lai_amlname_iterate (amln\<lparr>amln_it := s @ cs, amln_left := 4 + n\<rparr>)
    = Ok (s, amln\<lparr>amln_it := cs, amln_left := n\<rparr>)"
  using assms by (simp add: lai_amlname_iterate_def get_block_def seg_ok_def)

text \<open>Dotted segments, as the printer writes them.\<close>

fun dotted :: "u8 list list \<Rightarrow> u8 list" where
  "dotted [] = []"
| "dotted [s] = s"
| "dotted (s # t # ts) = s @ 0x2E # dotted (t # ts)"

lemma stringify_segs_dotted:
  assumes "list_all seg_ok ss" and "ss \<noteq> []"
  shows "stringify_segs (amln\<lparr>amln_it := concat ss @ rest, amln_left := 4 * length ss\<rparr>) = Ok (dotted ss)"
  using assms
proof (induction ss rule: dotted.induct)
  case (2 s)
  then show ?case using iterate_seg [of s, where amln = amln and cs = rest and n = 0]
    by (simp add: stringify_segs.simps [of "amln\<lparr>amln_it := s @ rest, amln_left := 4\<rparr>"]
        lai_amlname_done_def)
next
  case (3 s t ts)
  let ?a = "amln\<lparr>amln_it := concat (s # t # ts) @ rest, amln_left := 4 * length (s # t # ts)\<rparr>"
  have "lai_amlname_iterate ?a
      = Ok (s, amln\<lparr>amln_it := concat (t # ts) @ rest, amln_left := 4 * length (t # ts)\<rparr>)"
    using iterate_seg [of s, where amln = amln and cs = "concat (t # ts) @ rest" and n = "4 * length (t # ts)"] 3(2) by simp
  moreover have "stringify_segs (amln\<lparr>amln_it := concat (t # ts) @ rest, amln_left := 4 * length (t # ts)\<rparr>)
      = Ok (dotted (t # ts))" using 3 by simp
  ultimately show ?case
    by (subst stringify_segs.simps) (simp add: lai_amlname_done_def)
qed simp

lemma length_dotted: "list_all seg_ok ss \<Longrightarrow> ss \<noteq> [] \<Longrightarrow> length (dotted ss) + 1 = 5 * length ss"
  by (induction ss rule: dotted.induct) (auto simp: seg_ok_def)

subsection \<open>Properties\<close>

text \<open>
  C11. Parsing inverts the encoding of the specification, for absolute names, names with any
  number of parent prefixes, and any number of segments up to 255, whatever follows the name:
  the parsed name has the fields encoded, its segments lie where the iteration reads them, and
  the size returned is the length of the encoding.  Only a single segment without a prefix is
  searched for in the enclosing scopes.
\<close>

theorem amlname_parse_inverts:
  assumes "name_ok rooted h ss"
  shows "lai_amlname_parse (aml_encode rooted h ss @ rest)
    = Ok (\<lparr>is_absolute = rooted, height = h, search_scopes = \<not> rooted \<and> h = 0 \<and> length ss = 1,
           amln_it = concat ss @ rest, amln_left = 4 * length ss\<rparr>, length (aml_encode rooted h ss))"
  by (rule amlname_parse_encode [OF assms])

lemma amlname_parse_inverts_witness:
  "lai_amlname_parse (aml_encode False 2 [bytes_of ''_SB_'', bytes_of ''PCI0'', bytes_of ''LPC_''] @ [0x70])
    = Ok (\<lparr>is_absolute = False, height = 2,
        search_scopes = \<not> False \<and> (2::nat) = 0 \<and>
          length [bytes_of ''_SB_'', bytes_of ''PCI0'', bytes_of ''LPC_''] = 1,
        amln_it = concat [bytes_of ''_SB_'', bytes_of ''PCI0'', bytes_of ''LPC_''] @ [0x70],
        amln_left = 4 * length [bytes_of ''_SB_'', bytes_of ''PCI0'', bytes_of ''LPC_'']\<rparr>,
      length (aml_encode False 2 [bytes_of ''_SB_'', bytes_of ''PCI0'', bytes_of ''LPC_'']))"
  by (rule amlname_parse_inverts) (simp add: name_ok_def seg_ok_def)

text \<open>
  Printing a parsed name (\<open>lai_stringify_amlname\<close>) gives the root character or the parent
  prefixes and the segments separated by dots; what is written, the terminator included, fits
  the length the string is allocated with, so the final assertion holds.
\<close>

theorem stringify_parsed_name:
  assumes "name_ok rooted h ss"
  shows "bnd (lai_amlname_parse (aml_encode rooted h ss @ rest)) (\<lambda>(amln, n). lai_stringify_amlname amln)
    = Ok ((if rooted then [ROOT_CHAR] else replicate h PARENT_CHAR) @ dotted ss @ [0])"
proof -
  have ok: "list_all seg_ok ss" using assms by (simp add: name_ok_def)
  let ?a = "\<lparr>is_absolute = rooted, height = h, search_scopes = \<not> rooted \<and> h = 0 \<and> length ss = 1,
           amln_it = concat ss @ rest, amln_left = 4 * length ss\<rparr>"
  have h0: "rooted \<Longrightarrow> h = 0" using assms by (simp add: name_ok_def)
  have "(if \<not> lai_amlname_done ?a then stringify_segs ?a else Ok []) = Ok (dotted ss)"
  proof (cases "ss = []")
    case False
    with stringify_segs_dotted [OF ok False, where amln = ?a and rest = rest] show ?thesis
      by (simp add: lai_amlname_done_def)
  qed (simp add: lai_amlname_done_def)
  moreover have "length (dotted ss) \<le> 5 * length ss"
    using length_dotted [OF ok] by (cases "ss = []") auto
  ultimately show ?thesis
    using h0 by (auto simp: amlname_parse_encode [OF assms] lai_stringify_amlname_def
        stringify_max_length_def)
qed

lemma stringify_parsed_name_witness:
  "bnd (lai_amlname_parse (aml_encode True 0 [bytes_of ''_SB_'', bytes_of ''PCI0''] @ []))
      (\<lambda>(amln, n). lai_stringify_amlname amln)
    = Ok ((if True then [ROOT_CHAR] else replicate 0 PARENT_CHAR) @
        dotted [bytes_of ''_SB_'', bytes_of ''PCI0''] @ [0])"
  by (rule stringify_parsed_name) (simp add: name_ok_def seg_ok_def)

end
