(* ===== verification/Lai_Ns.thy ===== *)
theory Lai_Ns
  imports Lai_Hash Lai_Object Lai_Name
begin

text \<open>
  The ACPI namespace: \<open>lai_nsnode_t\<close> (\<open>lai/include/lai/internal-ns.h\<close>), \<open>struct lai_instance\<close>
  (\<open>lai/include/lai/core.h\<close>) and the functions of \<open>lai/core/ns.c\<close>.

  \<open>dev\<close> is the state of the hardware behind the host functions; its type is a parameter.
  One answer of the allocation oracle stands for the three allocations of a growing child table.

  A node is an index into \<open>nodes\<close>, never reused and \<open>None\<close> once freed.  The union of a node is
  a datatype; reading a member the node does not have is a fault.  Walks along \<open>parent\<close> take
  fuel (the number of nodes); a parent is always older than its child, which makes the
  fuel enough.  Tracing and \<open>lai_warn\<close> calls are not modelled.
\<close>

subsection \<open>Nodes and the instance\<close>

datatype ns_type =
    LAI_NAMESPACE_NULL | LAI_NAMESPACE_ROOT | LAI_NAMESPACE_NAME | LAI_NAMESPACE_ALIAS
  | LAI_NAMESPACE_FIELD | LAI_NAMESPACE_METHOD | LAI_NAMESPACE_DEVICE | LAI_NAMESPACE_INDEXFIELD
  | LAI_NAMESPACE_MUTEX | LAI_NAMESPACE_PROCESSOR | LAI_NAMESPACE_BUFFER_FIELD
  | LAI_NAMESPACE_THERMALZONE | LAI_NAMESPACE_EVENT | LAI_NAMESPACE_POWERRESOURCE
  | LAI_NAMESPACE_BANKFIELD | LAI_NAMESPACE_OPREGION

datatype fld_extra = FxNone | FxBank nat u64 | FxIndex nat nat

datatype node_data =
    NdNone
  | NdAlias nat
  | NdField (fld_region_node: "nat option") (fld_offset: u64) (fld_size: nat) (fld_flags: u8)
      (fld_extra: fld_extra)
  | NdBuffer (bf_buffer: nat) (bf_offset: u64) (bf_size: u64)
  | NdProcessor u8 u32 u8
  | NdRegion (op_address_space: u8) (op_base: u64) (op_length: u64) (op_override: "nat option")
  | NdSync u32

record lai_nsnode =
  n_name :: "u8 list"
  n_type :: ns_type
  n_parent :: "nat option"
  n_amls :: "nat option"
  n_pointer :: "u8 list"
  n_size :: nat
  n_object :: lai_variable
  n_notify :: "nat option"
  n_method_flags :: u8
  n_method_override :: "nat option"
  n_data :: node_data
  n_children :: "nat lai_hashtable"

definition node0 :: lai_nsnode where
  "node0 = \<lparr>n_name = replicate 4 0, n_type = LAI_NAMESPACE_NULL, n_parent = None, n_amls = None,
     n_pointer = [], n_size = 0, n_object = var0, n_notify = None, n_method_flags = 0,
     n_method_override = None, n_data = NdNone, n_children = empty_hashtable\<rparr>"

text \<open>An invocation holds the arguments and locals of a running method.\<close>

record lai_invocation =
  iv_arg :: "lai_variable list"
  iv_local :: "lai_variable list"
  iv_nodes :: "nat list"

record 'd lai_world = lai_heap +
  nodes :: "lai_nsnode option list"
  root_node :: "nat option"
  ns_array :: "nat option list"
  ns_capacity :: nat
  acpi_revision :: int
  invocations :: "lai_invocation option list"
  dev :: 'd

definition node :: "'d lai_world \<Rightarrow> nat \<Rightarrow> lai_nsnode outcome" where
  "node w p = (if p < length (nodes w)
     then (case nodes w ! p of Some n \<Rightarrow> Ok n | None \<Rightarrow> Fault) else Fault)"

definition put_node :: "'d lai_world \<Rightarrow> nat \<Rightarrow> lai_nsnode \<Rightarrow> 'd lai_world" where
  "put_node w p n = w\<lparr>nodes := (nodes w)[p := Some n]\<rparr>"

definition lai_create_nsnode :: "'d lai_world \<Rightarrow> nat option \<times> 'd lai_world" where
  "lai_create_nsnode w =
     (let (ok, w) = laihost_malloc w in
      if \<not> ok then (None, w)
      else (Some (length (nodes w)), w\<lparr>nodes := nodes w @ [Some node0]\<rparr>))"

definition lai_create_nsnode_or_die :: "'d lai_world \<Rightarrow> (nat \<times> 'd lai_world) outcome" where
  "lai_create_nsnode_or_die w =
     (case lai_create_nsnode w of (None, w) \<Rightarrow> Panic | (Some p, w) \<Rightarrow> Ok (p, w))"

fun hash_loop :: "u32 \<Rightarrow> u8 list \<Rightarrow> u32" where
  "hash_loop x [] = x"
| "hash_loop x (c # cs) = hash_loop ((push_bit 5 x + x) + scast c) cs"

definition name_hash :: "u8 list \<Rightarrow> u32" where
  "name_hash nm = hash_loop 5381 nm"

definition lai_hash_string :: "u8 list \<Rightarrow> nat \<Rightarrow> u32 outcome" where
  "lai_hash_string str n = bnd (get_block str 0 n) (\<lambda>bs. Ok (name_hash bs))"

subsection \<open>Installing and removing nodes\<close>

text \<open>\<open>memcmp(a, b, 4) == 0\<close>.\<close>

definition same_name :: "u8 list \<Rightarrow> u8 list \<Rightarrow> bool outcome" where
  "same_name a b = bnd (get_block a 0 4) (\<lambda>x. bnd (get_block b 0 4) (\<lambda>y. Ok (x = y)))"

definition child_named :: "'d lai_world \<Rightarrow> u8 list \<Rightarrow> nat \<Rightarrow> bool outcome" where
  "child_named w nm c = bnd (node w c) (\<lambda>n. same_name (n_name n) nm)"

definition ns_array_reserve :: "'d lai_world \<Rightarrow> 'd lai_world outcome" where
  "ns_array_reserve w =
     (if length (ns_array w) = ns_capacity w then
        let new_capacity = (if ns_capacity w * 2 = 0 then 128 else ns_capacity w * 2);
            (ok, w) = laihost_malloc w in
        ensure ok (Ok (w\<lparr>ns_capacity := new_capacity\<rparr>))
      else Ok w)"

definition lai_install_nsnode :: "'d lai_world \<Rightarrow> nat \<Rightarrow> (lai_api_error \<times> 'd lai_world) outcome" where
  "lai_install_nsnode w p =
     bnd (ns_array_reserve w) (\<lambda>w.
     let w = w\<lparr>ns_array := ns_array w @ [Some p]\<rparr> in
     bnd (node w p) (\<lambda>n.
     case n_parent n of
       None \<Rightarrow> Ok (LAI_ERROR_NONE, w)
     | Some q \<Rightarrow>
         bnd (lai_hash_string (n_name n) 4) (\<lambda>h.
         bnd (node w q) (\<lambda>par.
         bnd (chain_find (n_children par) h (child_named w (n_name n)) (-1)) (\<lambda>r.
         case r of
           Some _ \<Rightarrow> Ok (LAI_ERROR_UNEXPECTED_RESULT, w)
         | None \<Rightarrow>
             let (ok, w) = laihost_malloc w in
             bnd (lai_hashtable_insert (\<lambda>_. ok) (n_children par) h (Some p)) (\<lambda>t.
             Ok (LAI_ERROR_NONE, put_node w q (par\<lparr>n_children := t\<rparr>))))))))"

definition lai_uninstall_nsnode :: "'d lai_world \<Rightarrow> nat \<Rightarrow> 'd lai_world outcome" where
  "lai_uninstall_nsnode w p =
     (let w = w\<lparr>ns_array := map (\<lambda>x. if x = Some p then None else x) (ns_array w)\<rparr> in
      bnd (node w p) (\<lambda>n.
      case n_parent n of
        None \<Rightarrow> Ok w
      | Some q \<Rightarrow>
          bnd (lai_hash_string (n_name n) 4) (\<lambda>h.
          bnd (node w q) (\<lambda>par.
          bnd (chain_find (n_children par) h (\<lambda>c. Ok (c = p)) (-1)) (\<lambda>r.
          case r of
            None \<Rightarrow> Panic
          | Some (j, _) \<Rightarrow>
              bnd (lai_hashtable_chain_remove (n_children par) h j) (\<lambda>t.
              bnd (chain_find t h (\<lambda>c. Ok (c = p)) j) (\<lambda>again.
              if again \<noteq> None then Panic
              else Ok (put_node w q (par\<lparr>n_children := t\<rparr>)))))))))"

definition lai_ns_get_root :: "'d lai_world \<Rightarrow> nat option" where
  "lai_ns_get_root w = root_node w"

definition lai_ns_get_parent :: "'d lai_world \<Rightarrow> nat \<Rightarrow> nat option outcome" where
  "lai_ns_get_parent w p = bnd (node w p) (\<lambda>n. Ok (n_parent n))"

definition lai_ns_get_child :: "'d lai_world \<Rightarrow> nat \<Rightarrow> u8 list \<Rightarrow> nat option outcome" where
  "lai_ns_get_child w q name =
     bnd (lai_hash_string name 4) (\<lambda>h.
     bnd (node w q) (\<lambda>par.
     bnd (chain_find (n_children par) h (child_named w name) (-1)) (\<lambda>r.
     Ok (map_option snd r))))"

subsection \<open>Resolution\<close>

definition follow_alias :: "'d lai_world \<Rightarrow> nat \<Rightarrow> nat outcome" where
  "follow_alias w c =
     bnd (node w c) (\<lambda>n.
     if n_type n = LAI_NAMESPACE_ALIAS then
       (case n_data n of
          NdAlias t \<Rightarrow> bnd (node w t) (\<lambda>tn. ensure (n_type tn \<noteq> LAI_NAMESPACE_ALIAS) (Ok t))
        | _ \<Rightarrow> Fault)
     else Ok c)"

text \<open>The loop of \<open>lai_do_resolve\<close> and \<open>lai_resolve_search\<close> over the enclosing scopes.\<close>

fun search_scopes_up :: "nat \<Rightarrow> 'd lai_world \<Rightarrow> nat option \<Rightarrow> u8 list \<Rightarrow> nat option outcome" where
  "search_scopes_up fuel w None seg = Ok None"
| "search_scopes_up 0 w (Some p) seg = Stuck"
| "search_scopes_up (Suc fuel) w (Some p) seg =
     bnd (lai_ns_get_child w p seg) (\<lambda>c.
     case c of
       None \<Rightarrow> bnd (node w p) (\<lambda>n. search_scopes_up fuel w (n_parent n) seg)
     | Some c \<Rightarrow> bnd (follow_alias w c) (\<lambda>t. Ok (Some t)))"

text \<open>\<open>while (current->parent) current = current->parent\<close>, with the assertion on the root.\<close>

fun climb_to_root :: "nat \<Rightarrow> 'd lai_world \<Rightarrow> nat \<Rightarrow> nat outcome" where
  "climb_to_root 0 w p = Stuck"
| "climb_to_root (Suc fuel) w p =
     bnd (node w p) (\<lambda>n.
     case n_parent n of
       None \<Rightarrow> ensure (n_type n = LAI_NAMESPACE_ROOT) (Ok p)
     | Some q \<Rightarrow> climb_to_root fuel w q)"

fun climb_height :: "'d lai_world \<Rightarrow> nat \<Rightarrow> nat \<Rightarrow> nat outcome" where
  "climb_height w p 0 = Ok p"
| "climb_height w p (Suc h) =
     bnd (node w p) (\<lambda>n.
     case n_parent n of
       None \<Rightarrow> ensure (n_type n = LAI_NAMESPACE_ROOT) (Ok p)
     | Some q \<Rightarrow> climb_height w q h)"

definition climb_prefix :: "'d lai_world \<Rightarrow> nat \<Rightarrow> bool \<Rightarrow> nat \<Rightarrow> nat outcome" where
  "climb_prefix w p rooted h =
     bnd (if rooted then climb_to_root (length (nodes w)) w p else Ok p) (\<lambda>p. climb_height w p h)"

function walk_segments :: "'d lai_world \<Rightarrow> nat \<Rightarrow> lai_amlname \<Rightarrow> nat option outcome" where
  "walk_segments w p amln =
     (if lai_amlname_done amln then Ok (Some p)
      else
        bnd (lai_amlname_iterate amln) (\<lambda>r.
        bnd (lai_ns_get_child w p (fst r)) (\<lambda>c.
        case c of None \<Rightarrow> Ok None | Some c \<Rightarrow> walk_segments w c (snd r))))"
  by pat_completeness auto
termination
  by (relation "measure (\<lambda>(w, p, amln). amln_left amln)")
     (auto simp: lai_amlname_iterate_def bnd_eq_Ok ensure_eq_Ok)

declare walk_segments.simps [simp del]

definition lai_do_resolve :: "'d lai_world \<Rightarrow> nat option \<Rightarrow> lai_amlname \<Rightarrow> nat option outcome" where
  "lai_do_resolve w ctx amln =
     (case ctx of
        None \<Rightarrow> Panic
      | Some p \<Rightarrow>
          bnd (node w p) (\<lambda>n.
          ensure (n_type n \<noteq> LAI_NAMESPACE_ALIAS) (
          if search_scopes amln then
            bnd (lai_amlname_iterate amln) (\<lambda>(seg, amln).
            ensure (lai_amlname_done amln) (
            search_scopes_up (length (nodes w)) w (Some p) seg))
          else
            bnd (climb_prefix w p (is_absolute amln) (height amln)) (\<lambda>p.
            if lai_amlname_done amln then Ok (Some p)
            else
              bnd (walk_segments w p amln) (\<lambda>c.
              case c of None \<Rightarrow> Ok None | Some c \<Rightarrow> bnd (follow_alias w c) (\<lambda>t. Ok (Some t)))))))"

text \<open>The loop of \<open>lai_do_resolve_new_node\<close>: the parent and the last segment.\<close>

function walk_new_node :: "'d lai_world \<Rightarrow> nat \<Rightarrow> lai_amlname \<Rightarrow> (nat \<times> u8 list) outcome" where
  "walk_new_node w p amln =
     bnd (lai_amlname_iterate amln) (\<lambda>r.
     if lai_amlname_done (snd r) then Ok (p, fst r)
     else
       bnd (lai_ns_get_child w p (fst r)) (\<lambda>c.
       case c of
         None \<Rightarrow> Panic
       | Some c \<Rightarrow> bnd (follow_alias w c) (\<lambda>t. walk_new_node w t (snd r))))"
  by pat_completeness auto
termination
  by (relation "measure (\<lambda>(w, p, amln). amln_left amln)")
     (auto simp: lai_amlname_iterate_def bnd_eq_Ok ensure_eq_Ok)

declare walk_new_node.simps [simp del]

definition lai_do_resolve_new_node :: "'d lai_world \<Rightarrow> nat \<Rightarrow> nat option \<Rightarrow> lai_amlname \<Rightarrow>
    'd lai_world outcome" where
  "lai_do_resolve_new_node w nd ctx amln =
     (case ctx of
        None \<Rightarrow> Panic
      | Some p \<Rightarrow>
          bnd (node w p) (\<lambda>n.
          ensure (n_type n \<noteq> LAI_NAMESPACE_ALIAS) (
          bnd (climb_prefix w p (is_absolute amln) (height amln)) (\<lambda>p.
          ensure (\<not> lai_amlname_done amln) (
          bnd (walk_new_node w p amln) (\<lambda>(q, seg).
          bnd (node w nd) (\<lambda>m.
          Ok (put_node w nd (m\<lparr>n_name := seg, n_parent := Some q\<rparr>)))))))))"

definition lai_resolve_new_node :: "'d lai_world \<Rightarrow> nat \<Rightarrow> nat option \<Rightarrow> u8 list \<Rightarrow>
    (nat \<times> 'd lai_world) outcome" where
  "lai_resolve_new_node w nd ctx data =
     bnd (lai_amlname_parse data) (\<lambda>(amln, n).
     bnd (lai_do_resolve_new_node w nd ctx amln) (\<lambda>w. Ok (n, w)))"

text \<open>\<open>lai_resolve_path\<close>: a path given as a C string.\<close>

fun path_carets :: "u8 list \<Rightarrow> nat \<Rightarrow> (nat \<times> u8 list) outcome" where
  "path_carets [] h = Fault"
| "path_carets (c # cs) h = (if c = PARENT_CHAR then path_carets cs (Suc h) else Ok (h, c # cs))"

fun path_segment :: "nat \<Rightarrow> u8 list \<Rightarrow> (u8 list \<times> u8 list) outcome" where
  "path_segment 0 path = Ok ([], path)"
| "path_segment (Suc k) [] = Fault"
| "path_segment (Suc k) (c # cs) =
     (if \<not> lai_is_name c then Ok (replicate (Suc k) 0x5F, c # cs)
      else bnd (path_segment k cs) (\<lambda>(s, rest). Ok (c # s, rest)))"

lemma path_segment_length: "path_segment k path = Ok (s, rest) \<Longrightarrow> length rest \<le> length path"
  by (induction k path arbitrary: s rest rule: path_segment.induct)
     (fastforce simp: bnd_eq_Ok split: if_splits prod.splits)+

function walk_path :: "'d lai_world \<Rightarrow> nat \<Rightarrow> u8 list \<Rightarrow> nat option outcome" where
  "walk_path w p path =
     bnd (path_segment 4 path) (\<lambda>r.
     bnd (lai_ns_get_child w p (fst r)) (\<lambda>c.
     case c of
       None \<Rightarrow> Ok None
     | Some c \<Rightarrow>
         bnd (follow_alias w c) (\<lambda>t.
         case snd r of
           [] \<Rightarrow> Fault
         | x # rest \<Rightarrow>
             if x = 0 then Ok (Some t)
             else ensure (x = 0x2E) (walk_path w t rest))))"
  by pat_completeness auto
termination
proof (relation "measure (\<lambda>(w, p, path). length path)", goal_cases)
  case (2 w p path r c c' t x rest)
  then have "path_segment 4 path = Ok (fst r, x # rest)" by (metis prod.collapse)
  from path_segment_length [OF this] show ?case by simp
qed simp

declare walk_path.simps [simp del]

definition lai_resolve_path :: "'d lai_world \<Rightarrow> nat option \<Rightarrow> u8 list \<Rightarrow> nat option outcome" where
  "lai_resolve_path w ctx path =
     (case (case ctx of Some p \<Rightarrow> Some p | None \<Rightarrow> root_node w) of
        None \<Rightarrow> Fault
      | Some p \<Rightarrow>
          bnd (case path of
                 [] \<Rightarrow> Fault
               | c # cs \<Rightarrow>
                   if c = ROOT_CHAR
                   then bnd (climb_to_root (length (nodes w)) w p) (\<lambda>p. Ok (p, cs))
                   else bnd (path_carets path 0) (\<lambda>(h, path).
                        bnd (climb_height w p h) (\<lambda>p. Ok (p, path)))) (\<lambda>(p, path).
          bnd (rd path 0) (\<lambda>c. if c = 0 then Ok (Some p) else walk_path w p path)))"

definition lai_resolve_search :: "'d lai_world \<Rightarrow> nat option \<Rightarrow> u8 list \<Rightarrow> nat option outcome" where
  "lai_resolve_search w ctx seg =
     (case ctx of
        None \<Rightarrow> Panic
      | Some p \<Rightarrow>
          bnd (node w p) (\<lambda>n.
          ensure (n_type n \<noteq> LAI_NAMESPACE_ALIAS) (search_scopes_up (length (nodes w)) w (Some p) seg)))"

text \<open>
  \<open>lai_stringify_node_path\<close>: the segments of the ancestors, the root excluded, from right to
  left, each with a dot in front; the first dot becomes the root character.
\<close>

fun path_segments :: "nat \<Rightarrow> 'd lai_world \<Rightarrow> nat \<Rightarrow> u8 list list outcome" where
  "path_segments 0 w p = Stuck"
| "path_segments (Suc fuel) w p =
     bnd (node w p) (\<lambda>n.
     case n_parent n of
       None \<Rightarrow> Ok []
     | Some q \<Rightarrow> bnd (path_segments fuel w q) (\<lambda>ss. Ok (ss @ [take 4 (n_name n)])))"

definition lai_stringify_node_path :: "'d lai_world \<Rightarrow> nat \<Rightarrow> u8 list outcome" where
  "lai_stringify_node_path w p =
     bnd (node w p) (\<lambda>n.
     if n_parent n = None then ensure (n_type n = LAI_NAMESPACE_ROOT) (Ok [ROOT_CHAR, 0])
     else
       bnd (path_segments (length (nodes w)) w p) (\<lambda>ss.
       Ok ((concat (map (\<lambda>s. 0x2E # s) ss))[0 := ROOT_CHAR] @ [0])))"

subsection \<open>Iteration, overrides and queries\<close>

fun ns_next :: "nat option list \<Rightarrow> nat \<Rightarrow> nat option \<times> nat" where
  "ns_next [] i = (None, i)"
| "ns_next (x # xs) i = (case x of None \<Rightarrow> ns_next xs (Suc i) | Some p \<Rightarrow> (Some p, Suc i))"

definition lai_ns_iterate :: "'d lai_world \<Rightarrow> nat \<Rightarrow> nat option \<times> nat" where
  "lai_ns_iterate w i = ns_next (drop i (ns_array w)) i"

definition lai_ns_child_iterate :: "'d lai_world \<Rightarrow> nat \<Rightarrow> nat \<Rightarrow> (nat option \<times> nat) outcome" where
  "lai_ns_child_iterate w p i =
     bnd (node w p) (\<lambda>n.
     Ok (ns_next (drop i (take (elem_capacity (n_children n)) (elem_ptr_tab (n_children n)))) i))"

definition lai_ns_override_notify :: "'d lai_world \<Rightarrow> nat option \<Rightarrow> nat option \<Rightarrow>
    (lai_api_error \<times> 'd lai_world) outcome" where
  "lai_ns_override_notify w p handler =
     (case p of
        None \<Rightarrow> Panic
      | Some p \<Rightarrow> bnd (node w p) (\<lambda>n. Ok (LAI_ERROR_NONE, put_node w p (n\<lparr>n_notify := handler\<rparr>))))"

definition lai_ns_override_opregion :: "'d lai_world \<Rightarrow> nat option \<Rightarrow> nat option \<Rightarrow>
    (lai_api_error \<times> 'd lai_world) outcome" where
  "lai_ns_override_opregion w p ovr =
     (case p of
        None \<Rightarrow> Panic
      | Some p \<Rightarrow>
          bnd (node w p) (\<lambda>n.
          ensure (n_type n = LAI_NAMESPACE_OPREGION) (
          case n_data n of
            NdRegion sp base len _ \<Rightarrow>
              Ok (LAI_ERROR_NONE, put_node w p (n\<lparr>n_data := NdRegion sp base len ovr\<rparr>))
          | _ \<Rightarrow> Fault)))"

datatype lai_node_type =
    LAI_NODETYPE_NULL | LAI_NODETYPE_ROOT | LAI_NODETYPE_EVALUATABLE | LAI_NODETYPE_DEVICE
  | LAI_NODETYPE_MUTEX | LAI_NODETYPE_PROCESSOR | LAI_NODETYPE_THERMALZONE | LAI_NODETYPE_EVENT
  | LAI_NODETYPE_POWERRESOURCE | LAI_NODETYPE_OPREGION

fun node_type_of :: "ns_type \<Rightarrow> lai_node_type" where
  "node_type_of LAI_NAMESPACE_ROOT = LAI_NODETYPE_ROOT"
| "node_type_of LAI_NAMESPACE_NAME = LAI_NODETYPE_EVALUATABLE"
| "node_type_of LAI_NAMESPACE_ALIAS = LAI_NODETYPE_EVALUATABLE"
| "node_type_of LAI_NAMESPACE_FIELD = LAI_NODETYPE_EVALUATABLE"
| "node_type_of LAI_NAMESPACE_METHOD = LAI_NODETYPE_EVALUATABLE"
| "node_type_of LAI_NAMESPACE_DEVICE = LAI_NODETYPE_DEVICE"
| "node_type_of LAI_NAMESPACE_MUTEX = LAI_NODETYPE_MUTEX"
| "node_type_of LAI_NAMESPACE_PROCESSOR = LAI_NODETYPE_PROCESSOR"
| "node_type_of LAI_NAMESPACE_BUFFER_FIELD = LAI_NODETYPE_EVALUATABLE"
| "node_type_of LAI_NAMESPACE_THERMALZONE = LAI_NODETYPE_THERMALZONE"
| "node_type_of LAI_NAMESPACE_EVENT = LAI_NODETYPE_EVENT"
| "node_type_of LAI_NAMESPACE_POWERRESOURCE = LAI_NODETYPE_POWERRESOURCE"
| "node_type_of LAI_NAMESPACE_BANKFIELD = LAI_NODETYPE_EVALUATABLE"
| "node_type_of LAI_NAMESPACE_OPREGION = LAI_NODETYPE_OPREGION"
| "node_type_of _ = LAI_NODETYPE_NULL"

definition lai_ns_get_node_type :: "'d lai_world \<Rightarrow> nat option \<Rightarrow> lai_node_type outcome" where
  "lai_ns_get_node_type w p =
     (case p of
        None \<Rightarrow> Ok LAI_NODETYPE_NULL
      | Some p \<Rightarrow> bnd (node w p) (\<lambda>n. Ok (node_type_of (n_type n))))"

definition lai_set_acpi_revision :: "'d lai_world \<Rightarrow> int \<Rightarrow> 'd lai_world" where
  "lai_set_acpi_revision w revision = w\<lparr>acpi_revision := (if revision = 0 then 1 else revision)\<rparr>"

definition lai_ns_get_opregion_address_space :: "'d lai_world \<Rightarrow> nat \<Rightarrow> u8 outcome" where
  "lai_ns_get_opregion_address_space w p =
     bnd (node w p) (\<lambda>n.
     ensure (n_type n = LAI_NAMESPACE_OPREGION) (
     case n_data n of NdRegion sp _ _ _ \<Rightarrow> Ok sp | _ \<Rightarrow> Fault))"

definition lai_objecttype_ns :: "'d lai_world \<Rightarrow> nat \<Rightarrow> nat outcome" where
  "lai_objecttype_ns w p =
     bnd (node w p) (\<lambda>n. Ok (case n_type n of
       LAI_NAMESPACE_NAME \<Rightarrow> lai_objecttype_obj (n_object n)
     | LAI_NAMESPACE_FIELD \<Rightarrow> 5 | LAI_NAMESPACE_BANKFIELD \<Rightarrow> 5 | LAI_NAMESPACE_INDEXFIELD \<Rightarrow> 5
     | LAI_NAMESPACE_DEVICE \<Rightarrow> 6
     | LAI_NAMESPACE_EVENT \<Rightarrow> 7
     | LAI_NAMESPACE_METHOD \<Rightarrow> 8
     | LAI_NAMESPACE_MUTEX \<Rightarrow> 9
     | LAI_NAMESPACE_OPREGION \<Rightarrow> 10
     | LAI_NAMESPACE_POWERRESOURCE \<Rightarrow> 11
     | LAI_NAMESPACE_PROCESSOR \<Rightarrow> 12
     | LAI_NAMESPACE_THERMALZONE \<Rightarrow> 13
     | LAI_NAMESPACE_BUFFER_FIELD \<Rightarrow> 14
     | _ \<Rightarrow> 0))"

text \<open>\<open>lai_obj_to_type_string\<close>: the strings of ACPICA for objects without a value.\<close>

fun type_string :: "ns_type \<Rightarrow> string option" where
  "type_string LAI_NAMESPACE_FIELD = Some ''[Field Object]''"
| "type_string LAI_NAMESPACE_DEVICE = Some ''[Device Object]''"
| "type_string LAI_NAMESPACE_EVENT = Some ''[Event Object]''"
| "type_string LAI_NAMESPACE_MUTEX = Some ''[Mutex Object]''"
| "type_string LAI_NAMESPACE_OPREGION = Some ''[Region Object]''"
| "type_string LAI_NAMESPACE_POWERRESOURCE = Some ''[Power Object]''"
| "type_string LAI_NAMESPACE_PROCESSOR = Some ''[Processor Object]''"
| "type_string LAI_NAMESPACE_THERMALZONE = Some ''[Thermal Zone]''"
| "type_string _ = None"

definition lai_obj_to_type_string :: "'d lai_world \<Rightarrow> lai_variable \<Rightarrow> nat \<Rightarrow>
    (lai_api_error \<times> 'd lai_world \<times> lai_variable) outcome" where
  "lai_obj_to_type_string w target p =
     bnd (node w p) (\<lambda>n.
     case type_string (n_type n) of
       None \<Rightarrow> Ok (LAI_ERROR_ILLEGAL_ARGUMENTS, w, target)
     | Some s \<Rightarrow>
         let (e, w, target) = lai_create_string w target (length s) in
         bnd (lai_exec_string_access w target) (\<lambda>(a, h).
         bnd (lai_strcpy (s_content h) (bytes_of s @ [0])) (\<lambda>c.
         Ok (if e \<noteq> LAI_ERROR_NONE then LAI_ERROR_OUT_OF_MEMORY else LAI_ERROR_NONE,
             put_string w a h c, target))))"

text \<open>Handles and the type of an object (\<open>lai/core/object.c\<close>).\<close>

datatype lai_object_type =
    LAI_TYPE_NONE | LAI_TYPE_INTEGER | LAI_TYPE_STRING | LAI_TYPE_BUFFER | LAI_TYPE_PACKAGE
  | LAI_TYPE_DEVICE

definition lai_object_type_of_node :: "'d lai_world \<Rightarrow> nat option \<Rightarrow> lai_object_type outcome" where
  "lai_object_type_of_node w p =
     (case p of
        None \<Rightarrow> Fault
      | Some p \<Rightarrow>
          bnd (node w p) (\<lambda>n. ensure (n_type n = LAI_NAMESPACE_DEVICE) (Ok LAI_TYPE_DEVICE)))"

definition resolve_lazy :: "'d lai_world \<Rightarrow> lai_variable \<Rightarrow> nat outcome" where
  "resolve_lazy w v =
     (case v_ptr v of
        PUnres ctx aml \<Rightarrow>
          bnd (lai_amlname_parse aml) (\<lambda>(amln, _).
          bnd (lai_do_resolve w ctx amln) (\<lambda>r.
          case r of None \<Rightarrow> Panic | Some p \<Rightarrow> Ok p))
      | _ \<Rightarrow> Fault)"

definition lai_obj_get_type :: "'d lai_world \<Rightarrow> lai_variable \<Rightarrow> lai_object_type outcome" where
  "lai_obj_get_type w v = (case v_type v of
     LAI_INTEGER \<Rightarrow> Ok LAI_TYPE_INTEGER
   | LAI_STRING \<Rightarrow> Ok LAI_TYPE_STRING
   | LAI_BUFFER \<Rightarrow> Ok LAI_TYPE_BUFFER
   | LAI_PACKAGE \<Rightarrow> Ok LAI_TYPE_PACKAGE
   | LAI_HANDLE \<Rightarrow> lai_object_type_of_node w (v_handle v)
   | LAI_LAZY_HANDLE \<Rightarrow> bnd (resolve_lazy w v) (\<lambda>p. lai_object_type_of_node w (Some p))
   | LAI_NONE \<Rightarrow> Ok LAI_TYPE_NONE
   | _ \<Rightarrow> Panic)"

definition lai_obj_get_handle :: "'d lai_world \<Rightarrow> lai_variable \<Rightarrow>
    (lai_api_error \<times> nat option) outcome" where
  "lai_obj_get_handle w v = (case v_type v of
     LAI_HANDLE \<Rightarrow> Ok (LAI_ERROR_NONE, v_handle v)
   | LAI_LAZY_HANDLE \<Rightarrow> bnd (resolve_lazy w v) (\<lambda>p. Ok (LAI_ERROR_NONE, Some p))
   | _ \<Rightarrow> Ok (LAI_ERROR_TYPE_MISMATCH, None))"

text \<open>
  \<open>lai_check_device_pnp_id\<close>; \<open>eval\<close> is \<open>lai_eval\<close>, the execution of a node.  The result is 0
  on a match and 1 otherwise.  As in C, the early return leaves \<open>id\<close> unreleased.
\<close>

definition lai_check_device_pnp_id ::
    "('d lai_world \<Rightarrow> nat \<Rightarrow> (lai_api_error \<times> 'd lai_world \<times> lai_variable) outcome) \<Rightarrow> 'd lai_world \<Rightarrow>
     nat \<Rightarrow> lai_variable \<Rightarrow> (int \<times> 'd lai_world) outcome" where
  "lai_check_device_pnp_id eval w device pnp_id =
     bnd (lai_resolve_path w (Some device) (bytes_of ''_HID'' @ [0])) (\<lambda>hid.
     bnd (case hid of
            None \<Rightarrow> Ok (w, var0)
          | Some p \<Rightarrow>
              bnd (eval w p) (\<lambda>(e, w, v).
              if e \<noteq> LAI_ERROR_NONE then Ok (w, v)
              else ensure (v_type v \<noteq> LAI_NONE) (Ok (w, v)))) (\<lambda>(w, i).
     bnd (if v_type i \<noteq> LAI_NONE then Ok (w, i, False)
          else
            bnd (lai_resolve_path w (Some device) (bytes_of ''_CID'' @ [0])) (\<lambda>cid.
            case cid of
              None \<Rightarrow> Ok (w, i, False)
            | Some p \<Rightarrow>
                bnd (eval w p) (\<lambda>(e, w, v).
                if e \<noteq> LAI_ERROR_NONE then Ok (w, v, True)
                else ensure (v_type v \<noteq> LAI_NONE) (Ok (w, v, False))))) (\<lambda>(w, i, failed).
     if failed then Ok (1, w)
     else
       bnd (if v_type i = LAI_INTEGER \<and> v_type pnp_id = LAI_INTEGER
            then Ok (if v_integer i = v_integer pnp_id then 0 else 1)
            else if v_type i = LAI_STRING \<and> v_type pnp_id = LAI_STRING
            then
              bnd (lai_exec_string_access w i) (\<lambda>(_, a).
              bnd (lai_exec_string_access w pnp_id) (\<lambda>(_, b).
              bnd (lai_strcmp (s_content a) (s_content b)) (\<lambda>c. Ok (if c = 0 then 0 else 1))))
            else Ok 1) (\<lambda>ret.
       bnd (lai_var_finalize w i) (\<lambda>w. Ok (ret, w))))))"

text \<open>The predefined nodes of \<open>lai_create_root\<close>; results of the installations are ignored.\<close>

datatype predef = Predef string ns_type u8 "nat option"

definition predefined_nodes :: "predef list" where
  "predefined_nodes =
     [Predef ''_SB_'' LAI_NAMESPACE_DEVICE 0 None,
      Predef ''_SI_'' LAI_NAMESPACE_DEVICE 0 None,
      Predef ''_GPE'' LAI_NAMESPACE_DEVICE 0 None,
      Predef ''_PR_'' LAI_NAMESPACE_DEVICE 0 None,
      Predef ''_TZ_'' LAI_NAMESPACE_DEVICE 0 None,
      Predef ''_OSI'' LAI_NAMESPACE_METHOD 1 (Some 0),
      Predef ''_OS_'' LAI_NAMESPACE_METHOD 0 (Some 1),
      Predef ''_REV'' LAI_NAMESPACE_METHOD 0 (Some 2)]"

fun install_predefined :: "'d lai_world \<Rightarrow> nat \<Rightarrow> predef list \<Rightarrow> 'd lai_world outcome" where
  "install_predefined w root [] = Ok w"
| "install_predefined w root (Predef nm ty flags ovr # ps) =
     bnd (lai_create_nsnode_or_die w) (\<lambda>(p, w).
     let w = put_node w p (node0\<lparr>n_type := ty, n_name := bytes_of nm, n_parent := Some root,
               n_method_flags := flags, n_method_override := ovr\<rparr>) in
     bnd (lai_install_nsnode w p) (\<lambda>(_, w). install_predefined w root ps))"

definition lai_create_root :: "'d lai_world \<Rightarrow> (nat \<times> 'd lai_world) outcome" where
  "lai_create_root w =
     bnd (lai_create_nsnode_or_die w) (\<lambda>(root, w).
     let w = put_node (w\<lparr>root_node := Some root\<rparr>) root
               (node0\<lparr>n_type := LAI_NAMESPACE_ROOT, n_name := ROOT_CHAR # bytes_of ''___''\<rparr>) in
     bnd (install_predefined w root predefined_nodes) (\<lambda>w. Ok (root, w)))"

subsection \<open>The invariant\<close>

definition name_of :: "'d lai_world \<Rightarrow> nat \<Rightarrow> u8 list" where
  "name_of w c = (case node w c of Ok n \<Rightarrow> n_name n | _ \<Rightarrow> [])"

definition node_inv :: "'d lai_world \<Rightarrow> nat \<Rightarrow> lai_nsnode \<Rightarrow> bool" where
  "node_inv w p n \<longleftrightarrow>
     length (n_name n) = 4 \<and>
     lht.keyed name_hash (name_of w) (n_children n) \<and>
     (\<forall>c \<in> snd ` set_mset (ht_bag (n_children n)). \<exists>cn. node w c = Ok cn \<and> n_parent cn = Some p) \<and>
     (\<forall>q. n_parent n = Some q \<longrightarrow> q < p \<and> (\<exists>m. node w q = Ok m))"

definition ns_inv :: "'d lai_world \<Rightarrow> bool" where
  "ns_inv w \<longleftrightarrow> (\<forall>p n. node w p = Ok n \<longrightarrow> node_inv w p n)"

text \<open>The abstract namespace: which node is the child of a node under a name.\<close>

definition child :: "'d lai_world \<Rightarrow> nat \<Rightarrow> u8 list \<Rightarrow> nat \<Rightarrow> bool" where
  "child w q nm c \<longleftrightarrow> (\<exists>n. node w q = Ok n \<and> lht.has (name_of w) (n_children n) nm c)"

lemma node_put_node:
  "node (put_node w p n) r = (if r = p \<and> p < length (nodes w) then Ok n else node w r)"
  by (auto simp: node_def put_node_def nth_list_update)

lemma node_lt: "node w p = Ok n \<Longrightarrow> p < length (nodes w)"
  by (simp add: node_def split: if_splits)

lemma ns_invD:
  assumes "ns_inv w" and "node w p = Ok n"
  shows "length (n_name n) = 4" and "lht.keyed name_hash (name_of w) (n_children n)"
    and "c \<in> snd ` set_mset (ht_bag (n_children n)) \<Longrightarrow> \<exists>cn. node w c = Ok cn \<and> n_parent cn = Some p"
    and "n_parent n = Some q \<Longrightarrow> q < p \<and> (\<exists>m. node w q = Ok m)"
  using assms by (auto simp: ns_inv_def node_inv_def)

lemma has_bag: "lht.has key t k e \<Longrightarrow> e \<in> snd ` set_mset (ht_bag t)"
  by (simp add: lht.has_def)

lemma keyed_inv: "lht.keyed hsh key t \<Longrightarrow> ht_inv t"
  by (simp add: lht.keyed_def)

lemma child_unique:
  assumes "ns_inv w" and "child w q nm c" and "child w q nm d"
  shows "c = d"
  using assms ns_invD(2) [OF assms(1)] lht.keyed_unique [of name_hash "name_of w"]
  unfolding child_def by fastforce

lemma child_named_Ok:
  assumes "ns_inv w" and "node w q = Ok n" and "c \<in> snd ` set_mset (ht_bag (n_children n))"
    and "length nm = 4"
  shows "child_named w nm c = Ok (name_of w c = nm)"
proof -
  from ns_invD(3) [OF assms(1-3)] obtain cn where cn: "node w c = Ok cn" by blast
  with ns_invD(1) [OF assms(1) cn] assms(4) show ?thesis
    by (simp add: child_named_def same_name_def get_block_def name_of_def)
qed

lemma find_child:
  assumes "ns_inv w" and "node w q = Ok n" and "length nm = 4"
  shows "\<exists>r. chain_find (n_children n) (name_hash nm) (child_named w nm) (-1) = Ok r \<and>
    (\<forall>c. map_option snd r = Some c \<longleftrightarrow> child w q nm c)"
proof -
  let ?t = "n_children n" and ?h = "name_hash nm"
  have key: "lht.keyed name_hash (name_of w) ?t" by (rule ns_invD(2) [OF assms(1,2)])
  have "(chain_find ?t ?h (child_named w nm) (-1) = Ok None \<and>
      (\<forall>e. (?h, e) \<in># ht_bag ?t \<longrightarrow> \<not> name_of w e = nm)) \<or>
    (\<exists>j e. chain_find ?t ?h (child_named w nm) (-1) = Ok (Some (int j, e)) \<and> visits ?t ?h e j \<and>
       (?h, e) \<in># ht_bag ?t \<and> name_of w e = nm)"
  proof (rule chain_find_search [OF keyed_inv [OF key]])
    fix e assume "(?h, e) \<in># ht_bag ?t"
    then have "e \<in> snd ` set_mset (ht_bag ?t)" by force
    then show "child_named w nm e = Ok (name_of w e = nm)"
      using assms by (intro child_named_Ok)
  qed
  then show ?thesis
  proof (elim disjE exE conjE, goal_cases)
    case 1
    then have "\<not> child w q nm c" for c
      using lht.keyed_at [OF key] assms(2) by (auto simp: child_def)
    with 1(1) show ?case by auto
  next
    case (2 j e)
    then have "child w q nm e" using lht.keyed_at [OF key] assms(2) by (auto simp: child_def)
    with 2(1) child_unique [OF assms(1)] show ?case by auto
  qed
qed

lemma lai_hash_string_4: "length nm = 4 \<Longrightarrow> lai_hash_string nm 4 = Ok (name_hash nm)"
  by (simp add: lai_hash_string_def get_block_def)

lemma lai_ns_get_child_spec:
  assumes "ns_inv w" and "node w q = Ok n" and "length nm = 4"
  shows "\<exists>r. lai_ns_get_child w q nm = Ok r \<and> (\<forall>c. r = Some c \<longleftrightarrow> child w q nm c)"
  using find_child [OF assms] assms(2,3)
  by (auto simp: lai_ns_get_child_def lai_hash_string_4)

lemma child_live:
  assumes "ns_inv w" and "child w q nm c"
  shows "\<exists>cn. node w c = Ok cn \<and> n_parent cn = Some q \<and> n_name cn = nm"
proof -
  from assms(2) obtain n where n: "node w q = Ok n" "lht.has (name_of w) (n_children n) nm c"
    by (auto simp: child_def)
  from ns_invD(3) [OF assms(1) n(1) has_bag [OF n(2)]] obtain cn where
    "node w c = Ok cn" "n_parent cn = Some q" by blast
  moreover have "name_of w c = nm" using n(2) by (simp add: lht.has_def)
  ultimately show ?thesis by (simp add: name_of_def)
qed

text \<open>Replacing the table of one node.\<close>

lemma ns_inv_children:
  assumes inv: "ns_inv w" and q: "node w q = Ok par"
    and key: "lht.keyed name_hash (name_of w) t"
    and elems: "\<And>c. c \<in> snd ` set_mset (ht_bag t) \<Longrightarrow> \<exists>cn. node w c = Ok cn \<and> n_parent cn = Some q"
  defines "w' \<equiv> put_node w q (par\<lparr>n_children := t\<rparr>)"
  shows "ns_inv w'" and "name_of w' = name_of w"
    and "child w' r nm c \<longleftrightarrow> (if r = q then lht.has (name_of w) t nm c else child w r nm c)"
proof -
  have lt: "q < length (nodes w)" by (rule node_lt [OF q])
  have nd: "node w' r = (if r = q then Ok (par\<lparr>n_children := t\<rparr>) else node w r)" for r
    by (simp add: w'_def node_put_node lt)
  show names: "name_of w' = name_of w" by (rule ext) (simp add: name_of_def nd q)
  have par: "(\<exists>cn. node w' c = Ok cn \<and> n_parent cn = Some p) \<longleftrightarrow> (\<exists>cn. node w c = Ok cn \<and> n_parent cn = Some p)"
    "(\<exists>cn. node w' c = Ok cn) \<longleftrightarrow> (\<exists>cn. node w c = Ok cn)" for c p
    by (auto simp: nd q)
  show "ns_inv w'"
    unfolding ns_inv_def
  proof (intro allI impI)
    fix p n assume "node w' p = Ok n"
    show "node_inv w' p n"
    proof (cases "p = q")
      case True
      with \<open>node w' p = Ok n\<close> have n: "n = par\<lparr>n_children := t\<rparr>" by (simp add: nd)
      have "node_inv w q par" using inv q by (auto simp: ns_inv_def)
      then show ?thesis using key elems True
        unfolding node_inv_def names par n by simp
    next
      case False
      with \<open>node w' p = Ok n\<close> have "node w p = Ok n" by (simp add: nd)
      then have "node_inv w p n" using inv by (auto simp: ns_inv_def)
      then show ?thesis unfolding node_inv_def names par .
    qed
  qed
  show "child w' r nm c \<longleftrightarrow> (if r = q then lht.has (name_of w) t nm c else child w r nm c)"
    by (simp add: child_def nd names)
qed

text \<open>Changes that leave the nodes alone.\<close>

lemma ns_inv_cong:
  assumes "nodes w' = nodes w"
  shows "ns_inv w' = ns_inv w" and "child w' = child w" and "node w' = node w"
    and "name_of w' = name_of w"
proof -
  show n: "node w' = node w" by (rule ext) (simp add: node_def assms)
  show m: "name_of w' = name_of w" by (rule ext) (simp add: name_of_def n)
  show "ns_inv w' = ns_inv w" by (simp add: ns_inv_def node_inv_def n m)
  show "child w' = child w" by (intro ext) (simp add: child_def n m)
qed

lemma child_named_cong:
  assumes "nodes w' = nodes w"
  shows "child_named w' = child_named w"
  unfolding child_named_def [abs_def] ns_inv_cong(3) [OF assms] by (rule refl)

lemma ns_array_reserve_Ok:
  assumes "\<forall>k. mem_ok w k"
  shows "\<exists>w'. ns_array_reserve w = Ok w' \<and> nodes w' = nodes w \<and> ns_array w' = ns_array w \<and>
    mem_ok w' = mem_ok w"
  using assms by (simp add: ns_array_reserve_def laihost_malloc_def Let_def)

lemma install_outcome:
  assumes inv: "ns_inv w" and p: "node w p = Ok n" and q: "n_parent n = Some q"
    and room: "\<And>par. node w q = Ok par \<Longrightarrow> ht_room (n_children par)"
    and mem: "\<forall>k. mem_ok w k"
  shows "(\<exists>c. child w q (n_name n) c) \<and>
      (\<exists>w'. lai_install_nsnode w p = Ok (LAI_ERROR_UNEXPECTED_RESULT, w') \<and> nodes w' = nodes w \<and>
         ns_array w' = ns_array w @ [Some p]) \<or>
    \<not> (\<exists>c. child w q (n_name n) c) \<and>
      (\<exists>w'. lai_install_nsnode w p = Ok (LAI_ERROR_NONE, w') \<and> ns_inv w' \<and>
         ns_array w' = ns_array w @ [Some p] \<and>
         (\<forall>r nm c. child w' r nm c \<longleftrightarrow> (if r = q \<and> nm = n_name n then c = p else child w r nm c)))"
proof -
  from ns_array_reserve_Ok [OF mem] obtain w1 where w1: "ns_array_reserve w = Ok w1"
    "nodes w1 = nodes w" "ns_array w1 = ns_array w" "mem_ok w1 = mem_ok w" by blast
  let ?w2 = "w1\<lparr>ns_array := ns_array w1 @ [Some p]\<rparr>"
  have nd2: "nodes ?w2 = nodes w" by (simp add: w1)
  note cong2 = ns_inv_cong [OF nd2]
  obtain par where par: "node w q = Ok par" using ns_invD(4) [OF inv p q] by blast
  have len: "length (n_name n) = 4" by (rule ns_invD(1) [OF inv p])
  have key: "lht.keyed name_hash (name_of w) (n_children par)" by (rule ns_invD(2) [OF inv par])
  obtain r where
    r: "chain_find (n_children par) (name_hash (n_name n)) (child_named w (n_name n)) (-1) = Ok r"
      "\<forall>c. map_option snd r = Some c \<longleftrightarrow> child w q (n_name n) c"
    using find_child [OF inv par len] by (elim exE conjE)
  have step: "lai_install_nsnode w p =
      (case r of
           Some _ \<Rightarrow> Ok (LAI_ERROR_UNEXPECTED_RESULT, ?w2)
         | None \<Rightarrow>
             let (ok, w) = laihost_malloc ?w2 in
             bnd (lai_hashtable_insert (\<lambda>_. ok) (n_children par) (name_hash (n_name n)) (Some p)) (\<lambda>t.
             Ok (LAI_ERROR_NONE, put_node w q (par\<lparr>n_children := t\<rparr>))))"
    using w1(1) p q par len r(1)
    by (simp add: lai_install_nsnode_def cong2(3) lai_hash_string_4 child_named_cong [OF nd2]
        split: option.split)
  show ?thesis
  proof (cases r)
    case (Some a)
    with r(2) have "\<exists>c. child w q (n_name n) c" by auto
    moreover have "lai_install_nsnode w p = Ok (LAI_ERROR_UNEXPECTED_RESULT, ?w2)"
      using step Some by simp
    ultimately show ?thesis using w1(2,3) by auto
  next
    case None
    with r(2) have none: "\<not> child w q (n_name n) c" for c by auto
    have nm: "name_of w p = n_name n" by (simp add: name_of_def p)
    have "\<forall>e'. \<not> lht.has (name_of w) (n_children par) (name_of w p) e'"
      using none par by (auto simp: child_def nm)
    from lht.insert_fresh [where mem = "\<lambda>_. True", OF key _ this] room [OF par]
    obtain t where t: "lai_hashtable_insert (\<lambda>_. True) (n_children par) (name_hash (n_name n)) (Some p) = Ok t"
      "lht.keyed name_hash (name_of w) t"
      "\<forall>k e'. lht.has (name_of w) t k e' \<longleftrightarrow>
         (if k = n_name n then e' = p else lht.has (name_of w) (n_children par) k e')"
      by (auto simp: nm)
    let ?w3 = "?w2\<lparr>mem_clock := Suc (mem_clock w1)\<rparr>"
    let ?w' = "put_node ?w3 q (par\<lparr>n_children := t\<rparr>)"
    have nd3: "nodes ?w3 = nodes w" by (simp add: w1)
    note cong3 = ns_inv_cong [OF nd3]
    have run: "lai_install_nsnode w p = Ok (LAI_ERROR_NONE, ?w')"
      using step None t(1) mem w1(4) by (simp add: laihost_malloc_def)
    have elems: "\<exists>cn. node w c = Ok cn \<and> n_parent cn = Some q"
      if c: "c \<in> snd ` set_mset (ht_bag t)" for c
    proof -
      have "lht.has (name_of w) t (name_of w c) c" using c by (simp add: lht.has_def)
      then consider "c = p" | "lht.has (name_of w) (n_children par) (name_of w c) c"
        using t(3) by (metis (full_types))
      then show ?thesis
      proof cases
        case 1
        then show ?thesis using p q by blast
      next
        case 2
        from ns_invD(3) [OF inv par has_bag [OF this]] show ?thesis .
      qed
    qed
    have inv3: "ns_inv ?w3" and q3: "node ?w3 q = Ok par"
      and key3: "lht.keyed name_hash (name_of ?w3) t"
      using inv par t(2) by (simp_all only: cong3)
    have elems3: "\<exists>cn. node ?w3 c = Ok cn \<and> n_parent cn = Some q"
      if "c \<in> snd ` set_mset (ht_bag t)" for c using elems [OF that] by (simp only: cong3(3))
    note res = ns_inv_children [OF inv3 q3 key3 elems3]
    have ch: "child ?w' r nm c \<longleftrightarrow> (if r = q then lht.has (name_of w) t nm c else child w r nm c)" for r nm c
      by (simp only: res(3) cong3(2,4))
    have "child ?w' r nm c \<longleftrightarrow> (if r = q \<and> nm = n_name n then c = p else child w r nm c)" for r nm c
      unfolding ch using t(3) par by (auto simp: child_def)
    moreover have "ns_array ?w' = ns_array w @ [Some p]" by (simp add: put_node_def w1)
    ultimately show ?thesis using run res(1) none by blast
  qed
qed

lemma uninstall_outcome:
  assumes inv: "ns_inv w" and p: "node w p = Ok n" and q: "n_parent n = Some q"
    and c: "child w q (n_name n) p"
  shows "\<exists>w'. lai_uninstall_nsnode w p = Ok w' \<and> ns_inv w' \<and> length (ns_array w') = length (ns_array w) \<and>
    (\<forall>i < length (ns_array w). ns_array w' ! i = (if ns_array w ! i = Some p then None else ns_array w ! i)) \<and>
    (\<forall>r nm c. child w' r nm c \<longleftrightarrow> \<not> (r = q \<and> nm = n_name n) \<and> child w r nm c) \<and>
    (\<forall>r. r \<noteq> q \<longrightarrow> node w' r = node w r) \<and> root_node w' = root_node w \<and> cells w' = cells w"
proof -
  let ?w1 = "w\<lparr>ns_array := map (\<lambda>x. if x = Some p then None else x) (ns_array w)\<rparr>"
  have nd1: "nodes ?w1 = nodes w" by simp
  note cong1 = ns_inv_cong [OF nd1]
  from c obtain par where par: "node w q = Ok par"
    and has: "lht.has (name_of w) (n_children par) (n_name n) p" by (auto simp: child_def)
  have len: "length (n_name n) = 4" by (rule ns_invD(1) [OF inv p])
  have key: "lht.keyed name_hash (name_of w) (n_children par)" by (rule ns_invD(2) [OF inv par])
  let ?t = "n_children par" and ?h = "name_hash (n_name n)"
  have bag: "(?h, p) \<in># ht_bag ?t" and nm: "name_of w p = n_name n"
    using lht.keyed_at [OF key] has by auto
  have ht: "ht_inv ?t" by (rule keyed_inv [OF key])
  obtain j where j: "chain_search ?t ?h (\<lambda>c. c = p) = Ok (Some (j, p))"
  proof -
    from lht.srch_total [OF ht] obtain r where r: "chain_search ?t ?h (\<lambda>c. c = p) = Ok r" by blast
    show thesis
    proof (cases r)
      case None
      with r lht.srch_None [OF ht _ bag] show thesis by blast
    next
      case (Some je)
      obtain k e where je: "je = (k, e)" by (cases je)
      with r Some lht.srch_Some [OF ht, of ?h "\<lambda>c. c = p" k e] that show thesis by auto
    qed
  qed
  from lht.remove_found [OF key j nm] obtain t where t: "lai_hashtable_chain_remove ?t ?h j = Ok t"
    "lht.keyed name_hash (name_of w) t"
    "\<forall>k' e'. lht.has (name_of w) t k' e' \<longleftrightarrow> k' \<noteq> n_name n \<and> lht.has (name_of w) ?t k' e'" by blast
  have j0: "0 \<le> j" "j < int (bucket_capacity t)"
    using t(1) by (auto simp: lai_hashtable_chain_remove_def ensure_eq_Ok bnd_eq_Ok)
  have gone: "(?h, p) \<notin># ht_bag t"
  proof
    assume "(?h, p) \<in># ht_bag t"
    then have "lht.has (name_of w) t (n_name n) p"
      using lht.keyed_at [OF t(2)] nm by auto
    with t(3) show False by blast
  qed
  have again: "chain_find t ?h (\<lambda>c. Ok (c = p)) j = Ok None"
  proof -
    have "(chain_find t ?h (\<lambda>c. Ok (c = p)) j = Ok None \<and> (\<forall>l e. j < int l \<and> visits t ?h e l \<longrightarrow> \<not> e = p)) \<or>
      (\<exists>l e. chain_find t ?h (\<lambda>c. Ok (c = p)) j = Ok (Some (int l, e)) \<and> visits t ?h e l \<and> e = p)"
      by (rule chain_find_spec [OF keyed_inv [OF t(2)] refl]) (use j0 in auto)
    moreover have "\<not> visits t ?h p l" for l
      using visits_bag [OF keyed_inv [OF t(2)]] gone by blast
    ultimately show ?thesis by blast
  qed
  let ?w' = "put_node ?w1 q (par\<lparr>n_children := t\<rparr>)"
  have run: "lai_uninstall_nsnode w p = Ok ?w'"
    using p q par len j t(1) again
    by (simp add: lai_uninstall_nsnode_def cong1(3) lai_hash_string_4 chain_search_def Let_def)
  have elems: "\<exists>cn. node w c = Ok cn \<and> n_parent cn = Some q"
    if c: "c \<in> snd ` set_mset (ht_bag t)" for c
  proof -
    have "lht.has (name_of w) t (name_of w c) c" using c by (simp add: lht.has_def)
    then have "lht.has (name_of w) ?t (name_of w c) c" using t(3) by blast
    from ns_invD(3) [OF inv par has_bag [OF this]] show ?thesis .
  qed
  have inv1: "ns_inv ?w1" and q1: "node ?w1 q = Ok par"
    and key1: "lht.keyed name_hash (name_of ?w1) t"
    using inv par t(2) by (simp_all only: cong1)
  have elems1: "\<exists>cn. node ?w1 c = Ok cn \<and> n_parent cn = Some q"
    if "c \<in> snd ` set_mset (ht_bag t)" for c using elems [OF that] by (simp only: cong1(3))
  note res = ns_inv_children [OF inv1 q1 key1 elems1]
  have ch: "child ?w' r nm c \<longleftrightarrow> (if r = q then lht.has (name_of w) t nm c else child w r nm c)" for r nm c
    by (simp only: res(3) cong1(2,4))
  have "child ?w' r nm c \<longleftrightarrow> \<not> (r = q \<and> nm = n_name n) \<and> child w r nm c" for r nm c
    unfolding ch using t(3) par by (auto simp: child_def)
  moreover have "length (ns_array ?w') = length (ns_array w) \<and>
      (\<forall>i < length (ns_array w). ns_array ?w' ! i = (if ns_array w ! i = Some p then None else ns_array w ! i)) \<and>
      root_node ?w' = root_node w \<and> cells ?w' = cells w" by (simp add: put_node_def)
  moreover have "\<forall>r. r \<noteq> q \<longrightarrow> node ?w' r = node w r" by (simp add: put_node_def node_def)
  ultimately show ?thesis using run res(1) by blast
qed

subsection \<open>Scope search\<close>

text \<open>The rule of the specification: a name is looked up in the scope, then in the enclosing ones.\<close>

inductive scope_finds :: "'d lai_world \<Rightarrow> nat \<Rightarrow> u8 list \<Rightarrow> nat \<Rightarrow> bool" for w where
  here: "child w p seg c \<Longrightarrow> scope_finds w p seg c"
| outer: "\<forall>c. \<not> child w p seg c \<Longrightarrow> node w p = Ok n \<Longrightarrow> n_parent n = Some q \<Longrightarrow>
    scope_finds w q seg c \<Longrightarrow> scope_finds w p seg c"

inductive_cases scope_findsE: "scope_finds w p seg c"
inductive_simps scope_finds_iff: "scope_finds w p seg c"

lemma search_scopes_spec:
  assumes "ns_inv w" and "length seg = 4" and "node w p = Ok n" and "p < fuel"
  shows "(search_scopes_up fuel w (Some p) seg = Ok None \<and> \<not> (\<exists>c. scope_finds w p seg c)) \<or>
    (\<exists>c. scope_finds w p seg c \<and>
      search_scopes_up fuel w (Some p) seg = bnd (follow_alias w c) (\<lambda>t. Ok (Some t)))"
  using assms(3,4)
proof (induction p arbitrary: n fuel rule: less_induct)
  case (less p)
  obtain f where f: "fuel = Suc f" using less.prems(2) by (cases fuel) auto
  from lai_ns_get_child_spec [OF assms(1) less.prems(1) assms(2)] obtain r where
    r: "lai_ns_get_child w p seg = Ok r" "\<forall>c. r = Some c \<longleftrightarrow> child w p seg c" by blast
  show ?case
  proof (cases r)
    case (Some c)
    with r(2) have "scope_finds w p seg c" by (auto intro: here)
    with r(1) Some show ?thesis by (auto simp: f)
  next
    case None
    with r(2) have none: "\<forall>c. \<not> child w p seg c" by auto
    have up: "search_scopes_up fuel w (Some p) seg = search_scopes_up f w (n_parent n) seg"
      using r(1) None less.prems(1) by (simp add: f)
    show ?thesis
    proof (cases "n_parent n")
      case pn: None
      have "\<not> scope_finds w p seg c" for c
        using none less.prems(1) pn by (auto elim: scope_findsE)
      with up pn show ?thesis by auto
    next
      case (Some q)
      from ns_invD(4) [OF assms(1) less.prems(1) Some] obtain m where q: "q < p" "node w q = Ok m" by blast
      have iff: "scope_finds w p seg c \<longleftrightarrow> scope_finds w q seg c" for c
        using none less.prems(1) Some by (auto simp: scope_finds_iff [of w p])
      have "q < f" using q(1) less.prems(2) f by simp
      from less.IH [OF q(1,2) this] show ?thesis by (simp add: up Some iff)
    qed
  qed
qed

lemma scope_finds_unique:
  assumes "ns_inv w" and "scope_finds w p seg c" and "scope_finds w p seg d"
  shows "c = d"
  using assms(2,3)
proof (induction arbitrary: d rule: scope_finds.induct)
  case (here p seg c)
  then show ?case using child_unique [OF assms(1)] by (auto elim: scope_findsE)
next
  case (outer p seg n q c)
  from outer.prems show ?case
  proof (rule scope_findsE, goal_cases)
    case 1
    with outer.hyps(1) show ?thesis by blast
  next
    case (2 m r)
    with outer.hyps(2,3) outer.IH show ?thesis by auto
  qed
qed

subsection \<open>Paths\<close>

fun path_of :: "'d lai_world \<Rightarrow> nat \<Rightarrow> u8 list list \<Rightarrow> nat \<Rightarrow> bool" where
  "path_of w p [] c \<longleftrightarrow> c = p"
| "path_of w p (s # ss) c \<longleftrightarrow> (\<exists>q. child w p s q \<and> path_of w q ss c)"

lemma path_of_unique: "ns_inv w \<Longrightarrow> path_of w p ss c \<Longrightarrow> path_of w p ss d \<Longrightarrow> c = d"
  by (induction ss arbitrary: p) (auto dest: child_unique)

lemma walk_segments_spec:
  assumes "ns_inv w" and "list_all seg_ok ss" and "node w p = Ok n"
  shows "\<exists>r. walk_segments w p (amln\<lparr>amln_it := concat ss @ rest, amln_left := 4 * length ss\<rparr>) = Ok r \<and>
    (\<forall>c. r = Some c \<longleftrightarrow> path_of w p ss c)"
  using assms(2,3)
proof (induction ss arbitrary: p n)
  case Nil
  then show ?case by (simp add: walk_segments.simps lai_amlname_done_def eq_commute)
next
  case (Cons s ss)
  have s: "seg_ok s" "length s = 4" using Cons.prems(1) by (auto simp: seg_ok_def)
  let ?a = "amln\<lparr>amln_it := concat (s # ss) @ rest, amln_left := 4 * length (s # ss)\<rparr>"
  let ?b = "amln\<lparr>amln_it := concat ss @ rest, amln_left := 4 * length ss\<rparr>"
  have it: "lai_amlname_iterate ?a = Ok (s, ?b)"
    using iterate_seg [OF s(1), where amln = amln and cs = "concat ss @ rest" and n = "4 * length ss"]
    by simp
  have nd: "\<not> lai_amlname_done ?a" by (simp add: lai_amlname_done_def)
  obtain r where r: "lai_ns_get_child w p s = Ok r" "\<forall>c. r = Some c \<longleftrightarrow> child w p s c"
    using lai_ns_get_child_spec [OF assms(1) Cons.prems(2) s(2)] by (elim exE conjE)
  show ?case
  proof (cases r)
    case None
    with r(2) have "\<not> path_of w p (s # ss) c" for c by auto
    moreover have "walk_segments w p ?a = Ok None"
      using it nd r(1) None by (subst walk_segments.simps) simp
    ultimately show ?thesis by auto
  next
    case (Some q)
    have q: "child w p s q" using r(2) Some by blast
    then obtain cn where cn: "node w q = Ok cn" using child_live [OF assms(1)] by blast
    have iff: "path_of w p (s # ss) c \<longleftrightarrow> path_of w q ss c" for c
      using q child_unique [OF assms(1)] by auto
    have "list_all seg_ok ss" using Cons.prems(1) by simp
    from Cons.IH [OF this cn] obtain r' where
      "walk_segments w q ?b = Ok r'" "\<forall>c. r' = Some c \<longleftrightarrow> path_of w q ss c" by (elim exE conjE)
    moreover have "walk_segments w p ?a = walk_segments w q ?b"
      using it nd r(1) Some by (subst walk_segments.simps) simp
    ultimately show ?thesis by (auto simp: iff simp del: path_of.simps)
  qed
qed

text \<open>The root above a node.\<close>

inductive root_above :: "'d lai_world \<Rightarrow> nat \<Rightarrow> nat \<Rightarrow> bool" for w where
  top: "node w p = Ok n \<Longrightarrow> n_parent n = None \<Longrightarrow> n_type n = LAI_NAMESPACE_ROOT \<Longrightarrow> root_above w p p"
| up: "node w p = Ok n \<Longrightarrow> n_parent n = Some q \<Longrightarrow> root_above w q r \<Longrightarrow> root_above w p r"

lemma climb_to_root_spec:
  assumes inv: "ns_inv w"
  shows "root_above w p r \<Longrightarrow> p < fuel \<Longrightarrow> climb_to_root fuel w p = Ok r"
proof (induction arbitrary: fuel rule: root_above.induct)
  case (top p n)
  then show ?case by (cases fuel) simp_all
next
  case (up p n q r)
  from ns_invD(4) [OF inv up.hyps(1,2)] up.prems have "q < fuel - 1" by linarith
  with up show ?case by (cases fuel) simp_all
qed

lemma root_above_live: "root_above w p r \<Longrightarrow> p < length (nodes w) \<and> (\<exists>n. node w r = Ok n)"
  by (induction rule: root_above.induct) (auto dest: node_lt)

subsection \<open>Properties\<close>

text \<open>
  C5. \<open>lai_install_nsnode\<close> on a well-formed namespace: if the parent has no child of that name,
  the node becomes the child found under its name, every other lookup is unchanged and the
  namespace stays well formed; if it has one, the error is returned and the tree is
  unchanged, but the node has been appended to the flat array all the same.
\<close>

theorem install_nsnode_correct:
  assumes "ns_inv w" and "node w p = Ok n" and "n_parent n = Some q"
    and "\<And>par. node w q = Ok par \<Longrightarrow> ht_room (n_children par)" and "\<forall>k. mem_ok w k"
  shows "\<exists>w'. ns_array w' = ns_array w @ [Some p] \<and>
    (if \<exists>c. child w q (n_name n) c
     then lai_install_nsnode w p = Ok (LAI_ERROR_UNEXPECTED_RESULT, w') \<and> nodes w' = nodes w
     else lai_install_nsnode w p = Ok (LAI_ERROR_NONE, w') \<and> ns_inv w' \<and>
       (\<forall>r nm c. child w' r nm c \<longleftrightarrow> (if r = q \<and> nm = n_name n then c = p else child w r nm c)))"
  using install_outcome [OF assms] by auto

definition demo_sb :: lai_nsnode where
  "demo_sb = node0\<lparr>n_type := LAI_NAMESPACE_DEVICE, n_name := bytes_of ''_SB_'', n_parent := Some 0\<rparr>"

definition demo_world :: "unit lai_world" where
  "demo_world = \<lparr>cells = [], mem_ok = (\<lambda>_. True), mem_clock = 0, mem_junk = (\<lambda>_. 0),
     nodes = [Some (node0\<lparr>n_type := LAI_NAMESPACE_ROOT, n_name := ROOT_CHAR # bytes_of ''___''\<rparr>),
       Some demo_sb],
     root_node = Some 0, ns_array = [], ns_capacity = 0, acpi_revision = 2, invocations = [], dev = ()\<rparr>"

lemma empty_hashtable_inv: "ht_inv empty_hashtable" "ht_bag empty_hashtable = {#}"
  by (simp_all add: ht_inv_def ht_bag_def empty_hashtable_def used_def)

lemma keyed_empty: "lht.keyed hsh key empty_hashtable"
  by (simp add: lht.keyed_def empty_hashtable_inv)

lemma demo_world_node:
  "node demo_world p = Ok n \<longleftrightarrow>
     p = 0 \<and> n = node0\<lparr>n_type := LAI_NAMESPACE_ROOT, n_name := ROOT_CHAR # bytes_of ''___''\<rparr> \<or>
     p = 1 \<and> n = demo_sb"
  by (auto simp: node_def demo_world_def less_Suc_eq)

lemma demo_world_inv: "ns_inv demo_world"
  by (auto simp: ns_inv_def node_inv_def demo_world_node demo_sb_def node0_def keyed_empty empty_hashtable_inv)

lemma demo_world_child: "\<not> child demo_world q nm c"
  by (auto simp: child_def demo_world_node demo_sb_def node0_def lht.has_def empty_hashtable_inv)

lemma demo_room: "node demo_world q = Ok par \<Longrightarrow> ht_room (n_children par)"
  by (auto simp: demo_world_node demo_sb_def node0_def ht_room_def empty_hashtable_def)

lemma demo_sb_simps:
  "n_name demo_sb = bytes_of ''_SB_''" "n_parent demo_sb = Some 0"
  "n_type demo_sb = LAI_NAMESPACE_DEVICE"
  by (simp_all add: demo_sb_def)

lemma demo_world_mem: "\<forall>k. mem_ok demo_world k"
  by (simp add: demo_world_def)

lemma install_nsnode_correct_witness:
  "\<exists>w'. ns_array w' = ns_array demo_world @ [Some 1] \<and>
    (if \<exists>c. child demo_world 0 (n_name demo_sb) c
     then lai_install_nsnode demo_world 1 = Ok (LAI_ERROR_UNEXPECTED_RESULT, w') \<and> nodes w' = nodes demo_world
     else lai_install_nsnode demo_world 1 = Ok (LAI_ERROR_NONE, w') \<and> ns_inv w' \<and>
       (\<forall>r nm c. child w' r nm c \<longleftrightarrow>
          (if r = 0 \<and> nm = n_name demo_sb then c = 1 else child demo_world r nm c)))"
  by (rule install_nsnode_correct [OF demo_world_inv _ _ demo_room [where q = 0] demo_world_mem])
    (simp_all add: demo_world_node demo_sb_simps)

text \<open>
  C6. \<open>lai_uninstall_nsnode\<close> of an installed node neither panics nor faults: the name is no
  longer found and every other lookup is unchanged; the entries of the flat array that held the node are
  null and all others as they were; no node but the parent changes, and the namespace stays well formed.
\<close>

theorem uninstall_nsnode_correct:
  assumes "ns_inv w" and "node w p = Ok n" and "n_parent n = Some q" and "child w q (n_name n) p"
  shows "\<exists>w'. lai_uninstall_nsnode w p = Ok w' \<and> ns_inv w' \<and> length (ns_array w') = length (ns_array w) \<and>
    (\<forall>i < length (ns_array w). ns_array w' ! i = (if ns_array w ! i = Some p then None else ns_array w ! i)) \<and>
    (\<forall>r nm c. child w' r nm c \<longleftrightarrow> \<not> (r = q \<and> nm = n_name n) \<and> child w r nm c) \<and>
    (\<forall>r. r \<noteq> q \<longrightarrow> node w' r = node w r) \<and> root_node w' = root_node w \<and> cells w' = cells w"
  by (rule uninstall_outcome [OF assms])

text \<open>
  C7. \<open>lai_resolve_search\<close> looks a name up in the scope and then in the enclosing scopes, the
  nearest first, follows an alias, and returns no node only if no scope up to the root has the
  name; the walk ends.
\<close>

theorem resolve_search_correct:
  assumes "ns_inv w" and "node w p = Ok n" and "n_type n \<noteq> LAI_NAMESPACE_ALIAS" and "length seg = 4"
  shows "(lai_resolve_search w (Some p) seg = Ok None \<and> \<not> (\<exists>c. scope_finds w p seg c)) \<or>
    (\<exists>c. scope_finds w p seg c \<and>
      lai_resolve_search w (Some p) seg = bnd (follow_alias w c) (\<lambda>t. Ok (Some t)))"
  using search_scopes_spec [OF assms(1,4,2) node_lt [OF assms(2)]] assms(2,3)
  by (simp add: lai_resolve_search_def)

lemma resolve_search_correct_witness:
  "(lai_resolve_search demo_world (Some 1) (bytes_of ''PCI0'') = Ok None \<and>
      \<not> (\<exists>c. scope_finds demo_world 1 (bytes_of ''PCI0'') c)) \<or>
    (\<exists>c. scope_finds demo_world 1 (bytes_of ''PCI0'') c \<and>
      lai_resolve_search demo_world (Some 1) (bytes_of ''PCI0'')
        = bnd (follow_alias demo_world c) (\<lambda>t. Ok (Some t)))"
  by (rule resolve_search_correct [OF demo_world_inv, where n = demo_sb])
     (simp_all add: demo_world_node demo_sb_simps)

text \<open>
  C8. An absolute AML name is parsed and resolved from the root above the context, segment by
  segment: \<open>lai_do_resolve\<close> returns the node at that path, with a final alias followed, or no
  node if the path does not exist; it neither panics nor runs out of the name.
\<close>

theorem resolve_absolute_correct:
  assumes "ns_inv w" and "root_above w p r" and "node w p = Ok n" and "n_type n \<noteq> LAI_NAMESPACE_ALIAS"
    and "name_ok True 0 ss" and "ss \<noteq> []"
  shows "(bnd (lai_amlname_parse (aml_encode True 0 ss @ rest)) (\<lambda>(a, _). lai_do_resolve w (Some p) a) = Ok None \<and>
      \<not> (\<exists>c. path_of w r ss c)) \<or>
    (\<exists>c. path_of w r ss c \<and>
      bnd (lai_amlname_parse (aml_encode True 0 ss @ rest)) (\<lambda>(a, _). lai_do_resolve w (Some p) a)
        = bnd (follow_alias w c) (\<lambda>t. Ok (Some t)))"
proof -
  let ?a = "\<lparr>is_absolute = True, height = 0, search_scopes = \<not> True \<and> (0::nat) = 0 \<and> length ss = 1,
           amln_it = concat ss @ rest, amln_left = 4 * length ss\<rparr>"
  have ok: "list_all seg_ok ss" using assms(5) by (simp add: name_ok_def)
  obtain m where m: "node w r = Ok m" using root_above_live [OF assms(2)] by blast
  have climb: "climb_to_root (length (nodes w)) w p = Ok r"
    by (rule climb_to_root_spec [OF assms(1,2)]) (use root_above_live [OF assms(2)] in blast)
  obtain x where x: "walk_segments w r ?a = Ok x" "\<forall>c. x = Some c \<longleftrightarrow> path_of w r ss c"
    using walk_segments_spec [OF assms(1) ok m, where amln = ?a and rest = rest] by auto
  have "lai_do_resolve w (Some p) ?a =
      (case x of None \<Rightarrow> Ok None | Some c \<Rightarrow> bnd (follow_alias w c) (\<lambda>t. Ok (Some t)))"
    using assms(3,4,6) climb x(1)
    by (simp add: lai_do_resolve_def climb_prefix_def lai_amlname_done_def)
  with x(2) show ?thesis
    by (cases x) (auto simp: amlname_parse_encode [OF assms(5)])
qed

lemma resolve_absolute_correct_witness:
  "(bnd (lai_amlname_parse (aml_encode True 0 [bytes_of ''_SB_''] @ []))
        (\<lambda>(a, _). lai_do_resolve demo_world (Some 1) a) = Ok None \<and>
      \<not> (\<exists>c. path_of demo_world 0 [bytes_of ''_SB_''] c)) \<or>
    (\<exists>c. path_of demo_world 0 [bytes_of ''_SB_''] c \<and>
      bnd (lai_amlname_parse (aml_encode True 0 [bytes_of ''_SB_''] @ []))
        (\<lambda>(a, _). lai_do_resolve demo_world (Some 1) a)
        = bnd (follow_alias demo_world c) (\<lambda>t. Ok (Some t)))"
proof (rule resolve_absolute_correct [OF demo_world_inv])
  show "root_above demo_world 1 0"
  proof (rule root_above.up)
    show "node demo_world 1 = Ok demo_sb" by (simp add: demo_world_node)
    show "n_parent demo_sb = Some 0" by (rule demo_sb_simps)
    show "root_above demo_world 0 0"
    proof (rule root_above.top)
      show "node demo_world 0 = Ok (node0\<lparr>n_type := LAI_NAMESPACE_ROOT, n_name := ROOT_CHAR # bytes_of ''___''\<rparr>)"
        by (simp add: demo_world_node)
    qed (simp_all add: node0_def)
  qed
  show "node demo_world 1 = Ok demo_sb" by (simp add: demo_world_node)
qed (simp_all add: name_ok_def seg_ok_def demo_sb_simps)

text \<open>
  In \<open>lai_resolve_path\<close> a segment of fewer than four characters that is not the last one is
  not padded: \<open>lai_is_name\<close> accepts the separating dot, which becomes a character of the
  segment, so the segment looked up is not the padded name of any node.
\<close>

theorem short_segment_swallows_dot:
  assumes "list_all lai_is_name s" and "length s < 4" and "0 < length s"
    and "length t = 3 - length s" and "list_all lai_is_name t"
  shows "path_segment 4 (s @ 0x2E # t @ rest) = Ok (s @ 0x2E # t, rest) \<and>
    s @ 0x2E # t \<noteq> s @ replicate (4 - length s) 0x5F"
proof -
  have seg: "path_segment (length u) (u @ rest) = Ok (u, rest)" if "list_all lai_is_name u" for u rest
    using that by (induction u) auto
  have dot: "lai_is_name 0x2E" by (simp add: lai_is_name_def)
  have len: "length (s @ 0x2E # t) = 4" using assms(2,4) by simp
  have "path_segment 4 ((s @ 0x2E # t) @ rest) = Ok (s @ 0x2E # t, rest)"
    using seg [of "s @ 0x2E # t" rest] assms(1,5) dot len by simp
  moreover have "(0x2E :: u8) # t \<noteq> replicate (4 - length s) 0x5F"
    using assms(2) by (cases "4 - length s") auto
  ultimately show ?thesis by simp
qed

lemma short_segment_swallows_dot_witness:
  "path_segment 4 (bytes_of ''_SB'' @ 0x2E # [] @ bytes_of ''PCI0'')
      = Ok (bytes_of ''_SB'' @ 0x2E # [], bytes_of ''PCI0'') \<and>
    bytes_of ''_SB'' @ 0x2E # [] \<noteq> bytes_of ''_SB'' @ replicate (4 - length (bytes_of ''_SB'')) 0x5F"
  by (rule short_segment_swallows_dot) (simp_all add: lai_is_name_def)

lemma uninstall_nsnode_correct_witness:
  "\<exists>(w :: unit lai_world) w'. lai_uninstall_nsnode w 1 = Ok w' \<and> ns_inv w' \<and> \<not> child w' 0 (bytes_of ''_SB_'') 1"
proof -
  have n: "node demo_world 1 = Ok demo_sb" by (simp add: demo_world_node)
  obtain w :: "unit lai_world" where w: "ns_inv w" "\<forall>r nm c. child w r nm c \<longleftrightarrow>
      (if r = 0 \<and> nm = n_name demo_sb then c = 1 else child demo_world r nm c)"
    using install_outcome [OF demo_world_inv n demo_sb_simps(2) demo_room [where q = 0] demo_world_mem] demo_world_child
    by blast
  have c: "child w 0 (bytes_of ''_SB_'') 1" using w(2) demo_sb_simps(1) by simp
  from child_live [OF w(1) c] obtain m where m: "node w 1 = Ok m" "n_parent m = Some 0"
    "n_name m = bytes_of ''_SB_''" by blast
  have c': "child w 0 (n_name m) 1" using c by (simp add: m(3))
  from uninstall_nsnode_correct [OF w(1) m(1,2) c'] obtain w' where
    "lai_uninstall_nsnode w 1 = Ok w'" "ns_inv w'" "\<not> child w' 0 (n_name m) 1" by auto
  with m(3) show ?thesis by metis
qed

end
