(* ===== verification/Lai_Bits.thy ===== *)
theory Lai_Bits
  imports Lai_Object
begin

text \<open>
  Runs of bits inside byte arrays: \<open>lai_buffer_put_at\<close> and \<open>lai_buffer_get_at\<close> of
  \<open>lai/core/opregion.c\<close>, \<open>lai_write_buffer\<close> and \<open>lai_read_buffer\<close> of
  \<open>lai/core/exec-operand.c\<close>.

  All four loops walk a run byte by byte; \<open>bit_at\<close> is the bit of an array at a bit position,
  the specification the lemmas are stated with.  A shift by 64 or more is a fault.  Offsets and
  sizes are natural numbers, that is, the sum of offset and size is taken not to exceed the
  range of \<open>size_t\<close>.
\<close>

subsection \<open>The loops\<close>

function put_at_loop :: "u8 list \<Rightarrow> u64 \<Rightarrow> nat \<Rightarrow> nat \<Rightarrow> nat \<Rightarrow> u8 list outcome" where
  "put_at_loop buffer val bit_offset num_bits progress =
     (if progress < num_bits then
        let in_byte_offset = (bit_offset + progress) mod 8;
            access_size = min (num_bits - progress) (8 - in_byte_offset);
            mask = 2 ^ access_size - 1;
            j = (bit_offset + progress) div 8 in
        guard (progress < 64) (
        bnd (rd buffer j) (\<lambda>b.
        bnd (wr buffer j (b OR ucast (push_bit in_byte_offset (drop_bit progress val AND mask)))) (\<lambda>buffer.
        put_at_loop buffer val bit_offset num_bits (progress + access_size))))
      else Ok buffer)"
  by pat_completeness auto
termination
  by (relation "measure (\<lambda>(buffer, val, off, n, p). n - p)")
     (auto simp: min_def not_le intro: diff_less_mono2)

declare put_at_loop.simps [simp del]

definition lai_buffer_put_at :: "u8 list \<Rightarrow> u64 \<Rightarrow> nat \<Rightarrow> nat \<Rightarrow> u8 list outcome" where
  "lai_buffer_put_at buffer val bit_offset num_bits = put_at_loop buffer val bit_offset num_bits 0"

function get_at_loop :: "u8 list \<Rightarrow> nat \<Rightarrow> nat \<Rightarrow> nat \<Rightarrow> u64 \<Rightarrow> u64 outcome" where
  "get_at_loop buffer bit_offset num_bits progress val =
     (if progress < num_bits then
        let in_byte_offset = (bit_offset + progress) mod 8;
            access_size = min (num_bits - progress) (8 - in_byte_offset);
            mask = 2 ^ access_size - 1 in
        bnd (rd buffer ((bit_offset + progress) div 8)) (\<lambda>b.
        guard (progress < 64) (
        get_at_loop buffer bit_offset num_bits (progress + access_size)
          (val OR push_bit progress (ucast (drop_bit in_byte_offset b AND mask)))))
      else Ok val)"
  by pat_completeness auto
termination
  by (relation "measure (\<lambda>(buffer, off, n, p, v). n - p)")
     (auto simp: min_def not_le intro: diff_less_mono2)

declare get_at_loop.simps [simp del]

definition lai_buffer_get_at :: "u8 list \<Rightarrow> nat \<Rightarrow> nat \<Rightarrow> u64 outcome" where
  "lai_buffer_get_at buffer bit_offset num_bits = get_at_loop buffer bit_offset num_bits 0 0"

text \<open>
  The loops over buffer fields; \<open>chunk_bits\<close> is the \<open>int m\<close> of both, with the conversion of
  \<open>size - n\<close> to \<open>int\<close> and the assertion.
\<close>

definition chunk_bits :: "nat \<Rightarrow> nat \<Rightarrow> nat outcome" where
  "chunk_bits rest o8 =
     (let m = sint (of_nat rest :: u32); m = (if m > 8 - int o8 then 8 - int o8 else m) in
      ensure (m \<noteq> 0) (guard (0 < m) (Ok (nat m))))"

lemma chunk_bits_le: "chunk_bits rest o8 = Ok m \<Longrightarrow> 0 < m"
  by (auto simp: chunk_bits_def Let_def ensure_eq_Ok guard_eq_Ok)

function write_bits :: "u8 list \<Rightarrow> u64 \<Rightarrow> nat \<Rightarrow> nat \<Rightarrow> nat \<Rightarrow> u8 list outcome" where
  "write_bits data val offset siz n =
     (if n < siz then
        let o8 = (offset + n) mod 8; j = (offset + n) div 8 in
        bnd (chunk_bits (siz - n) o8) (\<lambda>m.
        let mask = 2 ^ m - 1 in
        bnd (rd data j) (\<lambda>b.
        bnd (wr data j (b AND NOT (push_bit o8 mask))) (\<lambda>data.
        bnd (rd data j) (\<lambda>b.
        guard (n < 64) (
        bnd (wr data j (b OR ucast (push_bit o8 (drop_bit n val AND (2 ^ m - 1))))) (\<lambda>data.
        write_bits data val offset siz (n + m)))))))
      else Ok data)"
  by pat_completeness auto
termination
  by (relation "measure (\<lambda>(data, val, off, s, n). s - n)")
     (auto dest!: chunk_bits_le intro: diff_less_mono2)

declare write_bits.simps [simp del]

function read_bits :: "u8 list \<Rightarrow> nat \<Rightarrow> nat \<Rightarrow> nat \<Rightarrow> u64 \<Rightarrow> u64 outcome" where
  "read_bits data offset siz n val =
     (if n < siz then
        let o8 = (offset + n) mod 8 in
        bnd (chunk_bits (siz - n) o8) (\<lambda>m.
        bnd (rd data ((offset + n) div 8)) (\<lambda>cur_byte.
        let to_write = cur_byte AND (2 ^ m - 1) in
        guard (n < 64) (
        read_bits data offset siz (n + m) (val OR push_bit n (ucast to_write)))))
      else Ok val)"
  by pat_completeness auto
termination
  by (relation "measure (\<lambda>(data, off, s, n, v). s - n)")
     (auto dest!: chunk_bits_le intro: diff_less_mono2)

declare read_bits.simps [simp del]

text \<open>The buffer a buffer field lives in is a head of the heap, whatever refers to it.\<close>

definition lai_write_buffer :: "'w lai_heap_scheme \<Rightarrow> nat \<Rightarrow> u64 \<Rightarrow> u64 \<Rightarrow> lai_variable \<Rightarrow>
    'w lai_heap_scheme outcome" where
  "lai_write_buffer hp buf offset siz source =
     bnd (buffer_head hp (PHead buf)) (\<lambda>(a, b).
     bnd (write_bits (b_content b) (v_integer source) (unat offset) (unat siz) 0) (\<lambda>c.
     Ok (put_buffer hp a b c)))"

definition lai_read_buffer :: "'w lai_heap_scheme \<Rightarrow> lai_variable \<Rightarrow> nat \<Rightarrow> u64 \<Rightarrow> u64 \<Rightarrow>
    lai_variable outcome" where
  "lai_read_buffer hp dest buf offset siz =
     bnd (buffer_head hp (PHead buf)) (\<lambda>(a, b).
     bnd (read_bits (b_content b) (unat offset) (unat siz) 0 0) (\<lambda>i.
     Ok (dest\<lparr>v_type := LAI_INTEGER, v_integer := i\<rparr>)))"

subsection \<open>Bits of an array\<close>

definition bit_at :: "u8 list \<Rightarrow> nat \<Rightarrow> bool" where
  "bit_at bs i \<longleftrightarrow> i div 8 < length bs \<and> bit (bs ! (i div 8)) (i mod 8)"

lemma bit_at_update:
  "j < length bs \<Longrightarrow> bit_at (bs[j := x]) i = (if i div 8 = j then bit x (i mod 8) else bit_at bs i)"
  by (simp add: bit_at_def)

text \<open>A chunk inside byte \<open>p div 8\<close> covers a range of bit positions.\<close>

lemma chunk_pos:
  fixes p i :: nat
  assumes "i div 8 = p div 8"
  shows "p mod 8 \<le> i mod 8 \<longleftrightarrow> p \<le> i" and "p \<le> i \<Longrightarrow> i mod 8 - p mod 8 = i - p"
    and "i mod 8 < p mod 8 + a \<longleftrightarrow> i < p + a"
proof -
  have "i = 8 * (p div 8) + i mod 8" using assms by (metis mult_div_mod_eq)
  moreover have "p = 8 * (p div 8) + p mod 8" by simp
  ultimately show "p mod 8 \<le> i mod 8 \<longleftrightarrow> p \<le> i" and "p \<le> i \<Longrightarrow> i mod 8 - p mod 8 = i - p"
    and "i mod 8 < p mod 8 + a \<longleftrightarrow> i < p + a"
    by linarith+
qed

lemma chunk_byte:
  fixes p i :: nat
  assumes "p \<le> i" and "i < p + a" and "a + p mod 8 \<le> 8"
  shows "i div 8 = p div 8"
proof (rule div_nat_eqI)
  have "p = 8 * (p div 8) + p mod 8" by simp
  with assms have "8 * (p div 8) \<le> i" and "i < 8 * (p div 8) + 8" by linarith+
  then show "8 * (p div 8) \<le> i" and "i < 8 * Suc (p div 8)" by simp_all
qed

lemma bit_mask_word: "bit (2 ^ a - 1 :: 'a::len word) k \<longleftrightarrow> k < a \<and> k < LENGTH('a)"
  by (auto simp: mask_eq_exp_minus_1 [symmetric] bit_simps)

lemma bit_chunk:
  assumes "k < 8" and "a + q \<le> 8"
  shows "bit (ucast (push_bit q (drop_bit p (v :: u64) AND (2 ^ a - 1))) :: u8) k \<longleftrightarrow>
    q \<le> k \<and> k < q + a \<and> bit v (p + (k - q))"
  using assms by (auto simp: bit_simps bit_mask_word)

text \<open>Writing one byte: the bits of the chunk change, the others stay.\<close>

lemma bit_at_chunk:
  assumes "p div 8 < length bs" and "a + p mod 8 \<le> 8"
    and "\<And>k. k < 8 \<Longrightarrow> bit x k \<longleftrightarrow> (if p mod 8 \<le> k \<and> k < p mod 8 + a
           then f (bit (bs ! (p div 8)) k) (k - p mod 8) else bit (bs ! (p div 8)) k)"
  shows "bit_at (bs[p div 8 := x]) i \<longleftrightarrow>
    (if p \<le> i \<and> i < p + a then f (bit_at bs i) (i - p) else bit_at bs i)"
proof (cases "i div 8 = p div 8")
  case True
  have "bit_at (bs[p div 8 := x]) i \<longleftrightarrow> bit x (i mod 8)"
    using assms(1) True by (simp add: bit_at_update)
  moreover have "bit_at bs i \<longleftrightarrow> bit (bs ! (p div 8)) (i mod 8)"
    using assms(1) True by (simp add: bit_at_def)
  ultimately show ?thesis
    using assms(3) [of "i mod 8"] chunk_pos(1,3) [OF True] chunk_pos(2) [OF True] by simp
next
  case False
  then have "\<not> (p \<le> i \<and> i < p + a)" using chunk_byte [OF _ _ assms(2), of i] by blast
  moreover have "bit_at (bs[p div 8 := x]) i \<longleftrightarrow> bit_at bs i"
    using False assms(1) by (simp add: bit_at_update)
  ultimately show ?thesis by (simp only: if_False)
qed

lemma put_at_loop_spec:
  assumes "off + num \<le> 8 * length buffer" and "num \<le> 64" and "p \<le> num"
  shows "\<exists>b'. put_at_loop buffer val off num p = Ok b' \<and> length b' = length buffer \<and>
    (\<forall>i. bit_at b' i \<longleftrightarrow> bit_at buffer i \<or> off + p \<le> i \<and> i < off + num \<and> bit val (i - off))"
  using assms
proof (induction "num - p" arbitrary: buffer p rule: less_induct)
  case less
  define q where "q = (off + p) mod 8"
  define a where "a = min (num - p) (8 - q)"
  show ?case
  proof (cases "p < num")
    case False
    with less.prems show ?thesis by (subst put_at_loop.simps) auto
  next
    case True
    have j: "(off + p) div 8 < length buffer" using True less.prems(1) by linarith
    define x where "x = buffer ! ((off + p) div 8) OR ucast (push_bit q (drop_bit p val AND (2 ^ a - 1)))"
    define b where "b = buffer[(off + p) div 8 := x]"
    have "q < 8" by (simp add: q_def)
    then have a: "a + q \<le> 8" "p + a \<le> num" "0 < a" using True by (auto simp: a_def)
    have step: "put_at_loop buffer val off num p = put_at_loop b val off num (p + a)"
      using True j less.prems(2)
      by (subst put_at_loop.simps) (simp add: Let_def q_def [symmetric] a_def [symmetric] x_def b_def)
    have h: "num - (p + a) < num - p" "off + num \<le> 8 * length b"
      using a(3) True less.prems(1) by (auto simp: b_def)
    from less.hyps [OF h less.prems(2) a(2)] obtain b' where
      b': "put_at_loop b val off num (p + a) = Ok b'" "length b' = length b"
        "\<forall>i. bit_at b' i \<longleftrightarrow> bit_at b i \<or> off + (p + a) \<le> i \<and> i < off + num \<and> bit val (i - off)"
      by (elim exE conjE)
    have x: "bit_at b i \<longleftrightarrow> (if off + p \<le> i \<and> i < off + p + a
        then bit_at buffer i \<or> bit val (p + (i - (off + p))) else bit_at buffer i)" for i
      unfolding b_def
      by (rule bit_at_chunk [OF j a(1) [unfolded q_def], where f = "\<lambda>c k. c \<or> bit val (p + k)"])
        (simp only: x_def bit_or_iff bit_chunk [OF _ a(1)] q_def [symmetric], auto)
    have "bit_at b' i \<longleftrightarrow> bit_at buffer i \<or> off + p \<le> i \<and> i < off + num \<and> bit val (i - off)" for i
    proof -
      have "off + p \<le> i \<Longrightarrow> p + (i - (off + p)) = i - off" by simp
      moreover have "bit_at b' i \<longleftrightarrow> bit_at b i \<or> off + (p + a) \<le> i \<and> i < off + num \<and> bit val (i - off)"
        using b'(3) by blast
      ultimately show ?thesis unfolding x using a(2) by auto
    qed
    moreover have "length b' = length buffer" using b'(2) by (simp add: b_def)
    ultimately show ?thesis using step b'(1) by auto
  qed
qed

text \<open>A byte of the array under a run, as bits of a value that starts at \<open>p\<close>.\<close>

lemma bit_chunk_value:
  fixes buffer :: "u8 list"
  assumes "(off + p) div 8 < length buffer" and "a + (off + p) mod 8 \<le> 8" and "p + a \<le> 64"
  shows "bit (push_bit p (ucast (drop_bit ((off + p) mod 8) (buffer ! ((off + p) div 8)) AND (2 ^ a - 1))) :: u64) k
    \<longleftrightarrow> p \<le> k \<and> k < p + a \<and> bit_at buffer (off + k)"
proof (cases "p \<le> k \<and> k < p + a")
  case True
  define q where "q = (off + p) mod 8"
  have d: "(off + k) div 8 = (off + p) div 8"
    using chunk_byte [of "off + p" "off + k" a] True assms(2) by simp
  have "q \<le> (off + k) mod 8" "(off + k) mod 8 - q = k - p"
    using chunk_pos(1,2) [OF d] True by (simp_all add: q_def)
  then have "(off + k) mod 8 = q + (k - p)" by linarith
  with True assms d show ?thesis
    by (simp add: q_def [symmetric] bit_at_def bit_simps bit_mask_word) linarith
next
  case False
  then show ?thesis by (auto simp: bit_simps bit_mask_word)
qed

lemma get_at_loop_spec:
  assumes "off + num \<le> 8 * length buffer" and "num \<le> 64" and "p \<le> num"
  shows "\<exists>r. get_at_loop buffer off num p val = Ok r \<and>
    (\<forall>k. bit r k \<longleftrightarrow> bit val k \<or> p \<le> k \<and> k < num \<and> bit_at buffer (off + k))"
  using assms(3)
proof (induction "num - p" arbitrary: val p rule: less_induct)
  case less
  define q where "q = (off + p) mod 8"
  define a where "a = min (num - p) (8 - q)"
  show ?case
  proof (cases "p < num")
    case False
    with less.prems show ?thesis by (subst get_at_loop.simps) auto
  next
    case True
    have j: "(off + p) div 8 < length buffer" using True assms(1) by linarith
    define v where "v = val OR push_bit p (ucast (drop_bit q (buffer ! ((off + p) div 8)) AND (2 ^ a - 1)))"
    have "q < 8" by (simp add: q_def)
    then have a: "a + q \<le> 8" "p + a \<le> num" "0 < a" using True by (auto simp: a_def)
    have step: "get_at_loop buffer off num p val = get_at_loop buffer off num (p + a) v"
      using True j assms(2)
      by (subst get_at_loop.simps) (simp add: Let_def q_def [symmetric] a_def [symmetric] v_def)
    have h: "num - (p + a) < num - p" using a(3) True by simp
    from less.hyps [OF h a(2), of v] obtain r where r: "get_at_loop buffer off num (p + a) v = Ok r"
      "\<forall>k. bit r k \<longleftrightarrow> bit v k \<or> p + a \<le> k \<and> k < num \<and> bit_at buffer (off + k)"
      by (elim exE conjE)
    have v: "bit v k \<longleftrightarrow> bit val k \<or> p \<le> k \<and> k < p + a \<and> bit_at buffer (off + k)" for k
      unfolding v_def bit_or_iff q_def
      using bit_chunk_value [OF j, of a] a assms(2) by (simp add: q_def)
    have "bit r k \<longleftrightarrow> bit val k \<or> p \<le> k \<and> k < num \<and> bit_at buffer (off + k)" for k
      using r(2) [rule_format, of k] v [of k] a(2) by auto
    with step r(1) show ?thesis by auto
  qed
qed

lemma chunk_bits_Ok:
  assumes "0 < n" and "n \<le> 64" and "q < 8"
  shows "chunk_bits n q = Ok (min n (8 - q))"
proof -
  have "sint (of_nat n :: u32) = int n"
    using assms(2) by (simp add: sint_word_ariths signed_take_bit_int_eq_self_iff signed_of_nat)
  then show ?thesis using assms by (auto simp: chunk_bits_def Let_def min_def)
qed

lemma write_bits_spec:
  assumes "off + siz \<le> 8 * length data" and "siz \<le> 64" and "n \<le> siz"
  shows "\<exists>d'. write_bits data val off siz n = Ok d' \<and> length d' = length data \<and>
    (\<forall>i. bit_at d' i \<longleftrightarrow> (if off + n \<le> i \<and> i < off + siz then bit val (i - off) else bit_at data i))"
  using assms
proof (induction "siz - n" arbitrary: data n rule: less_induct)
  case less
  define q where "q = (off + n) mod 8"
  define a where "a = min (siz - n) (8 - q)"
  show ?case
  proof (cases "n < siz")
    case False
    with less.prems show ?thesis by (subst write_bits.simps) auto
  next
    case True
    have j: "(off + n) div 8 < length data" using True less.prems(1) by linarith
    define x where "x = (data ! ((off + n) div 8) AND NOT (push_bit q (2 ^ a - 1))) OR
      ucast (push_bit q (drop_bit n val AND (2 ^ a - 1)))"
    define b where "b = data[(off + n) div 8 := x]"
    have q: "q < 8" by (simp add: q_def)
    then have a: "a + q \<le> 8" "n + a \<le> siz" "0 < a" using True by (auto simp: a_def)
    have m: "chunk_bits (siz - n) q = Ok a"
      unfolding a_def by (rule chunk_bits_Ok) (use True less.prems(2) q in auto)
    have step: "write_bits data val off siz n = write_bits b val off siz (n + a)"
      using True j less.prems(2) m
      by (subst write_bits.simps) (simp add: Let_def q_def [symmetric] x_def b_def)
    have h: "siz - (n + a) < siz - n" "off + siz \<le> 8 * length b"
      using a(3) True less.prems(1) by (auto simp: b_def)
    from less.hyps [OF h less.prems(2) a(2)] obtain d' where
      d': "write_bits b val off siz (n + a) = Ok d'" "length d' = length b"
        "\<forall>i. bit_at d' i \<longleftrightarrow> (if off + (n + a) \<le> i \<and> i < off + siz then bit val (i - off) else bit_at b i)"
      by (elim exE conjE)
    have mask: "bit (NOT (push_bit q (2 ^ a - 1 :: u8))) k \<longleftrightarrow> k < 8 \<and> \<not> (q \<le> k \<and> k < q + a)" for k
      by (auto simp: bit_simps bit_mask_word)
    have x: "bit_at b i \<longleftrightarrow> (if off + n \<le> i \<and> i < off + n + a
        then bit val (n + (i - (off + n))) else bit_at data i)" for i
      unfolding b_def
      by (rule bit_at_chunk [OF j a(1) [unfolded q_def], where f = "\<lambda>c k. bit val (n + k)"])
        (simp only: x_def bit_or_iff bit_and_iff mask bit_chunk [OF _ a(1)] q_def [symmetric], auto)
    have "bit_at d' i \<longleftrightarrow> (if off + n \<le> i \<and> i < off + siz then bit val (i - off) else bit_at data i)" for i
    proof -
      have "off + n \<le> i \<Longrightarrow> n + (i - (off + n)) = i - off" by simp
      moreover have "bit_at d' i \<longleftrightarrow>
          (if off + (n + a) \<le> i \<and> i < off + siz then bit val (i - off) else bit_at b i)"
        using d'(3) by blast
      ultimately show ?thesis unfolding x using a(2) by auto
    qed
    moreover have "length d' = length data" using d'(2) by (simp add: b_def)
    ultimately show ?thesis using step d'(1) by auto
  qed
qed

text \<open>Reading is right as long as every chunk starts at bit 0 of its byte.\<close>

lemma read_bits_aligned:
  assumes "off + siz \<le> 8 * length data" and "siz \<le> 64" and "n \<le> siz"
    and "8 dvd off" and "8 dvd n \<or> n = siz"
  shows "\<exists>r. read_bits data off siz n val = Ok r \<and>
    (\<forall>k. bit r k \<longleftrightarrow> bit val k \<or> n \<le> k \<and> k < siz \<and> bit_at data (off + k))"
  using assms(3,5)
proof (induction "siz - n" arbitrary: val n rule: less_induct)
  case less
  define a where "a = min (siz - n) 8"
  show ?case
  proof (cases "n < siz")
    case False
    with less.prems show ?thesis by (subst read_bits.simps) auto
  next
    case True
    with less.prems(2) assms(4) have q: "(off + n) mod 8 = 0" by auto
    have j: "(off + n) div 8 < length data" using True assms(1) by linarith
    define v where "v = val OR push_bit n (ucast (data ! ((off + n) div 8) AND (2 ^ a - 1)))"
    have a: "a \<le> 8" "n + a \<le> siz" "0 < a" using True by (auto simp: a_def)
    have m: "chunk_bits (siz - n) 0 = Ok a"
      unfolding a_def using chunk_bits_Ok [of "siz - n" 0] True assms(2) by simp
    have step: "read_bits data off siz n val = read_bits data off siz (n + a) v"
      using True j q assms(2) m by (subst read_bits.simps) (simp add: Let_def v_def)
    have h: "siz - (n + a) < siz - n" using a(3) True by simp
    have al: "8 dvd n + a \<or> n + a = siz" using less.prems(2) True by (auto simp: a_def min_def)
    from less.hyps [OF h a(2) al, of v] obtain r where r: "read_bits data off siz (n + a) v = Ok r"
      "\<forall>k. bit r k \<longleftrightarrow> bit v k \<or> n + a \<le> k \<and> k < siz \<and> bit_at data (off + k)"
      by (elim exE conjE)
    have v: "bit v k \<longleftrightarrow> bit val k \<or> n \<le> k \<and> k < n + a \<and> bit_at data (off + k)" for k
      using bit_chunk_value [OF j, of a k] a q assms(2) by (simp add: v_def bit_or_iff)
    have "bit r k \<longleftrightarrow> bit val k \<or> n \<le> k \<and> k < siz \<and> bit_at data (off + k)" for k
      using r(2) [rule_format, of k] v [of k] a(2) by auto
    with step r(1) show ?thesis by auto
  qed
qed

lemma read_bits_one_byte:
  assumes "off div 8 < length data" and "0 < siz" and "siz + off mod 8 \<le> 8"
  shows "read_bits data off siz 0 0 = Ok (ucast (data ! (off div 8) AND (2 ^ siz - 1)))"
proof -
  have "min siz (8 - off mod 8) = siz" using assms(3) by linarith
  then have "chunk_bits siz (off mod 8) = Ok siz"
    using chunk_bits_Ok [of siz "off mod 8"] assms(2,3) by simp
  moreover have "read_bits data off siz siz v = Ok v" for v by (subst read_bits.simps) simp
  ultimately show ?thesis using assms by (subst read_bits.simps) (simp add: Let_def)
qed

subsection \<open>Properties\<close>

text \<open>
  C15. Writing a value into a bit range of an array and reading the range back: with the range
  clear, \<open>lai_buffer_put_at\<close> sets it to the low bits of the value and changes no other bit, and
  \<open>lai_buffer_get_at\<close> of the result returns the value cut to the size of the range.
\<close>

theorem buffer_put_get:
  assumes "off + num \<le> 8 * length buffer" and "num \<le> 64"
    and "\<forall>i. off \<le> i \<and> i < off + num \<longrightarrow> \<not> bit_at buffer i"
  shows "\<exists>b'. lai_buffer_put_at buffer val off num = Ok b' \<and> length b' = length buffer \<and>
    (\<forall>i. \<not> (off \<le> i \<and> i < off + num) \<longrightarrow> (bit_at b' i \<longleftrightarrow> bit_at buffer i)) \<and>
    lai_buffer_get_at b' off num = Ok (take_bit num val)"
proof -
  obtain b' where b': "lai_buffer_put_at buffer val off num = Ok b'" "length b' = length buffer"
    "\<forall>i. bit_at b' i \<longleftrightarrow> bit_at buffer i \<or> off \<le> i \<and> i < off + num \<and> bit val (i - off)"
    using put_at_loop_spec [OF assms(1,2), of 0 val] by (auto simp: lai_buffer_put_at_def)
  obtain r where r: "lai_buffer_get_at b' off num = Ok r"
    "\<forall>k. bit r k \<longleftrightarrow> k < num \<and> bit_at b' (off + k)"
    using get_at_loop_spec [of off num b' 0 0] assms(1,2) b'(2) by (auto simp: lai_buffer_get_at_def)
  have "r = take_bit num val"
    by (rule bit_word_eqI) (use r(2) b'(3) assms(3) in \<open>auto simp: bit_simps\<close>)
  with b' r(1) show ?thesis by auto
qed

lemma buffer_put_get_witness:
  "\<exists>b'. lai_buffer_put_at [0x80, 0x01, 0xFF] 0x2B5 9 6 = Ok b' \<and> length b' = length [0x80, 0x01, 0xFF :: u8] \<and>
    (\<forall>i. \<not> (9 \<le> i \<and> i < 9 + 6) \<longrightarrow> (bit_at b' i \<longleftrightarrow> bit_at [0x80, 0x01, 0xFF] i)) \<and>
    lai_buffer_get_at b' 9 6 = Ok (take_bit 6 0x2B5)"
proof (rule buffer_put_get)
  show "\<forall>i. 9 \<le> i \<and> i < 9 + 6 \<longrightarrow> \<not> bit_at [0x80, 0x01, 0xFF] i"
  proof (intro allI impI)
    fix i :: nat assume "9 \<le> i \<and> i < 9 + 6"
    then have "i \<in> {9, 10, 11, 12, 13, 14}" by auto
    then show "\<not> bit_at [0x80, 0x01, 0xFF] i" by (auto simp: bit_at_def)
  qed
qed simp_all

text \<open>
  C14. A store to a buffer field of at most 64 bits that lies inside its buffer sets the bits of
  the field to the low bits of the integer and leaves every other bit of the buffer, its
  size and every other object alone; a load of the field, if it starts at a byte boundary,
  returns the integer cut to the size of the field.
\<close>

theorem buffer_field_store_load:
  assumes "cell hp a = Some (HBuf b)"
    and "unat off + unat siz \<le> 8 * length (b_content b)" and "unat siz \<le> 64"
  shows "\<exists>c. lai_write_buffer hp a off siz v = Ok (put_buffer hp a b c) \<and>
    length c = length (b_content b) \<and>
    (\<forall>i. bit_at c i \<longleftrightarrow> (if unat off \<le> i \<and> i < unat off + unat siz
       then bit (v_integer v) (i - unat off) else bit_at (b_content b) i)) \<and>
    (8 dvd unat off \<longrightarrow> lai_read_buffer (put_buffer hp a b c) dest a off siz =
       Ok (dest\<lparr>v_type := LAI_INTEGER, v_integer := take_bit (unat siz) (v_integer v)\<rparr>))"
proof -
  obtain c where c: "write_bits (b_content b) (v_integer v) (unat off) (unat siz) 0 = Ok c"
    "length c = length (b_content b)"
    "\<forall>i. bit_at c i \<longleftrightarrow> (if unat off \<le> i \<and> i < unat off + unat siz
       then bit (v_integer v) (i - unat off) else bit_at (b_content b) i)"
    using write_bits_spec [OF assms(2,3), of 0 "v_integer v"] by auto
  have w: "lai_write_buffer hp a off siz v = Ok (put_buffer hp a b c)"
    using assms(1) c(1) by (simp add: lai_write_buffer_def buffer_head_cell)
  have "lai_read_buffer (put_buffer hp a b c) dest a off siz =
      Ok (dest\<lparr>v_type := LAI_INTEGER, v_integer := take_bit (unat siz) (v_integer v)\<rparr>)"
    if al: "8 dvd unat off"
  proof -
    obtain r where r: "read_bits c (unat off) (unat siz) 0 0 = Ok r"
      "\<forall>k. bit r k \<longleftrightarrow> k < unat siz \<and> bit_at c (unat off + k)"
      using read_bits_aligned [of "unat off" "unat siz" c 0 0] assms(2,3) al c(2) by auto
    have "r = take_bit (unat siz) (v_integer v)"
      by (rule bit_word_eqI) (use r(2) c(3) in \<open>auto simp: bit_simps\<close>)
    moreover have "cell (put_buffer hp a b c) a = Some (HBuf (b\<lparr>b_content := c\<rparr>))"
      using cell_Some_lt [OF assms(1)] by (simp add: put_buffer_def cell_put_cell)
    ultimately show ?thesis using r(1) by (simp add: lai_read_buffer_def buffer_head_cell)
  qed
  with w c show ?thesis by blast
qed

lemma buffer_field_store_load_witness:
  "\<exists>c. lai_write_buffer demo_buffer 0 8 12 (int_var 0xABC) =
      Ok (put_buffer demo_buffer 0 \<lparr>b_rc = 2, b_size = 3, b_content = [7, 8, 9]\<rparr> c) \<and>
    lai_read_buffer (put_buffer demo_buffer 0 \<lparr>b_rc = 2, b_size = 3, b_content = [7, 8, 9]\<rparr> c) var0 0 8 12 =
      Ok (int_var 0xABC)"
proof -
  have "cell demo_buffer 0 = Some (HBuf \<lparr>b_rc = 2, b_size = 3, b_content = [7, 8, 9]\<rparr>)"
    by (simp add: demo_buffer_def cell_def)
  from buffer_field_store_load [OF this, of 8 12 "int_var 0xABC" var0]
  show ?thesis by (auto simp: int_var_def)
qed

text \<open>
  A load of a buffer field that lies inside one byte but does not start it returns the
  lowest bits of that byte, not the bits of the field: \<open>lai_read_buffer\<close> does not shift the
  byte down.  With the field above those bits, a store to it is not seen by a load of it.
\<close>

theorem buffer_field_load_ignores_offset:
  assumes "cell hp a = Some (HBuf b)" and "0 < unat siz" and "unat siz \<le> unat off mod 8"
    and "unat siz + unat off mod 8 \<le> 8" and "unat off div 8 < length (b_content b)"
  shows "lai_read_buffer hp dest a off siz = Ok (dest\<lparr>v_type := LAI_INTEGER,
      v_integer := ucast (b_content b ! (unat off div 8) AND (2 ^ unat siz - 1))\<rparr>) \<and>
    (\<exists>hp'. lai_write_buffer hp a off siz v = Ok hp' \<and>
       lai_read_buffer hp' dest a off siz = lai_read_buffer hp dest a off siz)"
proof -
  let ?j = "unat off div 8" and ?m = "2 ^ unat siz - 1 :: u8"
  have read: "lai_read_buffer h dest a off siz =
      Ok (dest\<lparr>v_type := LAI_INTEGER, v_integer := ucast (b_content d ! ?j AND ?m)\<rparr>)"
    if "cell h a = Some (HBuf d)" "length (b_content d) = length (b_content b)" for h d
    using read_bits_one_byte [of "unat off" "b_content d" "unat siz"] that assms(2,4,5)
    by (simp add: lai_read_buffer_def buffer_head_cell)
  have "unat off = 8 * ?j + unat off mod 8" by simp
  with assms(4,5) have "unat off + unat siz \<le> 8 * length (b_content b)" and "unat siz \<le> 64"
    by linarith+
  from write_bits_spec [OF this, of 0 "v_integer v"] obtain c where
    c: "write_bits (b_content b) (v_integer v) (unat off) (unat siz) 0 = Ok c"
      "length c = length (b_content b)"
      "\<forall>i. bit_at c i \<longleftrightarrow> (if unat off \<le> i \<and> i < unat off + unat siz
         then bit (v_integer v) (i - unat off) else bit_at (b_content b) i)" by auto
  have "c ! ?j AND ?m = b_content b ! ?j AND ?m"
  proof (rule bit_word_eqI)
    fix k :: nat
    have "bit_at c (8 * ?j + k) \<longleftrightarrow> bit_at (b_content b) (8 * ?j + k)" if "k < unat siz"
    proof -
      have "8 * ?j + k < unat off" using that assms(3) by presburger
      with c(3) show ?thesis by simp
    qed
    then show "bit (c ! ?j AND ?m) k \<longleftrightarrow> bit (b_content b ! ?j AND ?m) k" if "k < LENGTH(8)"
      using that assms(5) c(2) by (auto simp: bit_at_def bit_and_iff bit_mask_word)
  qed
  moreover have "lai_write_buffer hp a off siz v = Ok (put_buffer hp a b c)"
    using assms(1) c(1) by (simp add: lai_write_buffer_def buffer_head_cell)
  moreover have "cell (put_buffer hp a b c) a = Some (HBuf (b\<lparr>b_content := c\<rparr>))"
    using cell_Some_lt [OF assms(1)] by (simp add: put_buffer_def cell_put_cell)
  ultimately show ?thesis using read [OF assms(1)] read [of "put_buffer hp a b c" "b\<lparr>b_content := c\<rparr>"] c(2)
    by simp
qed

lemma buffer_field_load_ignores_offset_witness:
  "lai_read_buffer demo_buffer var0 0 4 4 = Ok (int_var 7) \<and>
    (\<exists>hp'. lai_write_buffer demo_buffer 0 4 4 (int_var 0xA) = Ok hp' \<and>
       lai_read_buffer hp' var0 0 4 4 = lai_read_buffer demo_buffer var0 0 4 4)"
proof -
  have "cell demo_buffer 0 = Some (HBuf \<lparr>b_rc = 2, b_size = 3, b_content = [7, 8, 9]\<rparr>)"
    by (simp add: demo_buffer_def cell_def)
  from buffer_field_load_ignores_offset [OF this, of 4 4 var0 "int_var 0xA"]
  show ?thesis by (auto simp: int_var_def)
qed

end
