(* ===== verification/Lai_Opregion.thy ===== *)
theory Lai_Opregion
  imports Lai_Ns Lai_Bits
begin

text \<open>
  Operation regions and the fields in them: \<open>lai/core/opregion.c\<close>.

  The hardware is reached through host functions; \<open>host\<close> bundles them.  \<open>h_has\<close> says which of
  the weak \<open>laihost_*\<close> symbols the host defines, \<open>h_read\<close> and \<open>h_write\<close> are their effect on the
  hardware state \<open>dev\<close>, by address space, width in bits and address.  Memory mapped by
  \<open>laihost_map\<close> is read and written as one access of that width.  \<open>eval\<close> is \<open>lai_eval\<close>,
  which runs \<open>_SEG\<close>, \<open>_BBN\<close> and \<open>_ADR\<close>.

  An index field accesses two other fields, so reading and writing call each other; the fuel of
  \<open>field_ops\<close> bounds that nesting.  Releasing local variables that are always integers does
  nothing and is left out; so are tracing and warnings.
\<close>

subsection \<open>The host\<close>

datatype host_fn =
    F_map | F_inb | F_inw | F_ind | F_outb | F_outw | F_outd
  | F_pci_readb | F_pci_readw | F_pci_readd | F_pci_writeb | F_pci_writew | F_pci_writed

datatype io_space = IoOverride nat | IoMmio | IoPort | IoPci u16 u8 u8 u8

record 'd host =
  h_has :: "host_fn \<Rightarrow> bool"
  h_read :: "io_space \<Rightarrow> nat \<Rightarrow> u64 \<Rightarrow> 'd \<Rightarrow> u64 \<times> 'd"
  h_write :: "io_space \<Rightarrow> nat \<Rightarrow> u64 \<Rightarrow> u64 \<Rightarrow> 'd \<Rightarrow> 'd"

type_synonym 'd evaluator =
  "'d lai_world \<Rightarrow> nat \<Rightarrow> (lai_api_error \<times> 'd lai_world \<times> lai_variable) outcome"

text \<open>Results and values have the width of the C type of the access.\<close>

definition host_read :: "'d host \<Rightarrow> 'd lai_world \<Rightarrow> io_space \<Rightarrow> nat \<Rightarrow> u64 \<Rightarrow> u64 \<times> 'd lai_world" where
  "host_read host w sp width addr =
     (let (v, d) = h_read host sp width addr (dev w) in (take_bit width v, w\<lparr>dev := d\<rparr>))"

definition host_write :: "'d host \<Rightarrow> 'd lai_world \<Rightarrow> io_space \<Rightarrow> nat \<Rightarrow> u64 \<Rightarrow> u64 \<Rightarrow> 'd lai_world" where
  "host_write host w sp width addr v =
     w\<lparr>dev := h_write host sp width addr (take_bit width v) (dev w)\<rparr>"

definition ACPI_OPREGION_MEMORY :: u8 where "ACPI_OPREGION_MEMORY = 0"
definition ACPI_OPREGION_IO :: u8 where "ACPI_OPREGION_IO = 1"
definition ACPI_OPREGION_PCI :: u8 where "ACPI_OPREGION_PCI = 2"

subsection \<open>Access width\<close>

text \<open>\<open>bit_length x\<close> is \<open>32 - __builtin_clz(x)\<close> for a 32-bit \<open>x\<close> that is not zero.\<close>

fun bit_length :: "nat \<Rightarrow> nat" where
  "bit_length n = (if n = 0 then 0 else Suc (bit_length (n div 2)))"

declare bit_length.simps [simp del]

definition any_access :: "u8 \<Rightarrow> nat \<Rightarrow> nat outcome" where
  "any_access sp siz =
     (let x = (siz - 1) mod 2 ^ 32; k = bit_length x in
      bnd (if siz > 1 then guard (x \<noteq> 0 \<and> k < 31) (Ok (2 ^ k)) else Ok 1) (\<lambda>access_size.
      let max_access_width = (if sp = ACPI_OPREGION_MEMORY then 64 else 32) in
      Ok (max 8 (min access_size max_access_width))))"

text \<open>
  The region is only looked at for \<open>AnyAcc\<close>, without a check that there is one.
\<close>

definition region_data :: "'d lai_world \<Rightarrow> nat option \<Rightarrow> (u8 \<times> u64 \<times> nat option) outcome" where
  "region_data w region =
     (case region of
        None \<Rightarrow> Fault
      | Some r \<Rightarrow> bnd (node w r) (\<lambda>n. case n_data n of NdRegion sp base _ ovr \<Rightarrow> Ok (sp, base, ovr) | _ \<Rightarrow> Fault))"

definition lai_calculate_access_width :: "'d lai_world \<Rightarrow> nat option \<Rightarrow> nat \<Rightarrow> u8 \<Rightarrow> nat outcome" where
  "lai_calculate_access_width w region siz flags =
     (let acc = flags AND 0xF in
      if acc = 1 then Ok 8
      else if acc = 2 then Ok 16
      else if acc = 3 then Ok 32
      else if acc = 4 then Ok 64
      else if acc = 0 then bnd (region_data w region) (\<lambda>(sp, _). any_access sp siz)
      else Panic)"

subsection \<open>PCI configuration space\<close>

text \<open>
  \<open>lai_find_parent_root_of\<close>: the test is the one of the code, true when
  \<open>lai_check_device_pnp_id\<close> returns 1, that is, when the id does not match.
\<close>

fun find_root_loop :: "nat \<Rightarrow> 'd evaluator \<Rightarrow> 'd lai_world \<Rightarrow> lai_variable \<Rightarrow> lai_variable \<Rightarrow>
    nat option \<Rightarrow> (nat option \<times> 'd lai_world) outcome" where
  "find_root_loop fuel eval w pci_id pcie_id None = Ok (None, w)"
| "find_root_loop 0 eval w pci_id pcie_id (Some p) = Stuck"
| "find_root_loop (Suc fuel) eval w pci_id pcie_id (Some p) =
     bnd (lai_check_device_pnp_id eval w p pci_id) (\<lambda>(r, w).
     if r \<noteq> 0 then Ok (Some p, w)
     else
       bnd (lai_check_device_pnp_id eval w p pcie_id) (\<lambda>(r, w).
       if r \<noteq> 0 then Ok (Some p, w)
       else bnd (lai_ns_get_parent w p) (\<lambda>q. find_root_loop fuel eval w pci_id pcie_id q)))"

definition lai_find_parent_root_of :: "'d evaluator \<Rightarrow> 'd lai_world \<Rightarrow> nat \<Rightarrow>
    (nat option \<times> 'd lai_world) outcome" where
  "lai_find_parent_root_of eval w p =
     bnd (lai_eisaid w var0 (bytes_of ''PNP0A03'' @ [0])) (\<lambda>(w, pci_id).
     bnd (lai_eisaid w var0 (bytes_of ''PNP0A08'' @ [0])) (\<lambda>(w, pcie_id).
     find_root_loop (length (nodes w)) eval w pci_id pcie_id (Some p)))"

text \<open>An optional object that gives a number; the default stays without it.\<close>

definition eval_number :: "'d evaluator \<Rightarrow> 'd lai_world \<Rightarrow> nat option \<Rightarrow>
    (u64 \<times> lai_variable \<times> 'd lai_world) outcome" where
  "eval_number eval w h =
     (case h of
        None \<Rightarrow> Ok (0, var0, w)
      | Some p \<Rightarrow>
          bnd (eval w p) (\<lambda>(e, w, v). ensure (e = LAI_ERROR_NONE) (Ok (v_integer v, v, w))))"

definition lai_get_pci_params :: "'d evaluator \<Rightarrow> 'd lai_world \<Rightarrow> nat \<Rightarrow>
    (u64 \<times> u64 \<times> u64 \<times> 'd lai_world) outcome" where
  "lai_get_pci_params eval w opregion =
     bnd (lai_ns_get_parent w opregion) (\<lambda>device.
     case device of None \<Rightarrow> Panic | Some device \<Rightarrow>
     bnd (lai_ns_get_parent w device) (\<lambda>bus.
     case bus of None \<Rightarrow> Panic | Some bus \<Rightarrow>
     bnd (lai_find_parent_root_of eval w bus) (\<lambda>(root_bus, w).
     ensure (root_bus \<noteq> None) (
     bnd (lai_resolve_search w root_bus (bytes_of ''_SEG'')) (\<lambda>h.
     bnd (eval_number eval w h) (\<lambda>(seg, seg_number, w).
     bnd (lai_resolve_search w root_bus (bytes_of ''_BBN'')) (\<lambda>h.
     bnd (eval_number eval w h) (\<lambda>(bbn, bus_number, w).
     bnd (lai_resolve_search w (Some opregion) (bytes_of ''_ADR'')) (\<lambda>h.
     bnd (eval_number eval w h) (\<lambda>(adr, address_number, w).
     bnd (lai_var_finalize w address_number) (\<lambda>w.
     bnd (lai_var_finalize w seg_number) (\<lambda>w.
     bnd (lai_var_finalize w bus_number) (\<lambda>w.
     Ok (seg, bbn, adr, w))))))))))))))"

definition pci_space :: "u64 \<Rightarrow> u64 \<Rightarrow> u64 \<Rightarrow> io_space" where
  "pci_space seg bbn adr = IoPci (ucast seg) (ucast bbn) (ucast (drop_bit 16 adr)) (ucast (adr AND 0xFF))"

subsection \<open>Single accesses\<close>

text \<open>Port numbers and offsets in PCI configuration space are 16 bits wide.\<close>

definition lai_perform_read :: "'d host \<Rightarrow> 'd evaluator \<Rightarrow> 'd lai_world \<Rightarrow> nat option \<Rightarrow> nat \<Rightarrow>
    u64 \<Rightarrow> (u64 \<times> 'd lai_world) outcome" where
  "lai_perform_read host eval w region access_size offset =
     bnd (region_data w region) (\<lambda>(sp, base, ovr).
     let addr = base + offset in
     case ovr of
       Some o' \<Rightarrow>
         ensure (access_size \<in> {8, 16, 32, 64}) (Ok (host_read host w (IoOverride o') access_size addr))
     | None \<Rightarrow>
         if sp = ACPI_OPREGION_MEMORY then
           ensure (h_has host F_map) (
           ensure (access_size \<in> {8, 16, 32, 64}) (Ok (host_read host w IoMmio access_size addr)))
         else if sp = ACPI_OPREGION_IO then
           ensure (h_has host F_inb \<and> h_has host F_inw \<and> h_has host F_ind) (
           ensure (access_size \<in> {8, 16, 32}) (Ok (host_read host w IoPort access_size (take_bit 16 addr))))
         else if sp = ACPI_OPREGION_PCI then
           bnd (case region of Some r \<Rightarrow> lai_get_pci_params eval w r | None \<Rightarrow> Fault) (\<lambda>(seg, bbn, adr, w).
           ensure (h_has host F_pci_readb \<and> h_has host F_pci_readw \<and> h_has host F_pci_readd) (
           ensure (access_size \<in> {8, 16, 32})
             (Ok (host_read host w (pci_space seg bbn adr) access_size (take_bit 16 addr)))))
         else Ok (0, w))"

text \<open>Port writes test for \<open>laihost_inw\<close>, then call \<open>laihost_outw\<close>.\<close>

definition lai_perform_write :: "'d host \<Rightarrow> 'd evaluator \<Rightarrow> 'd lai_world \<Rightarrow> nat option \<Rightarrow> nat \<Rightarrow>
    u64 \<Rightarrow> u64 \<Rightarrow> 'd lai_world outcome" where
  "lai_perform_write host eval w region access_size offset val =
     bnd (region_data w region) (\<lambda>(sp, base, ovr).
     let addr = base + offset in
     case ovr of
       Some o' \<Rightarrow>
         ensure (access_size \<in> {8, 16, 32, 64}) (Ok (host_write host w (IoOverride o') access_size addr val))
     | None \<Rightarrow>
         if sp = ACPI_OPREGION_MEMORY then
           ensure (h_has host F_map) (
           ensure (access_size \<in> {8, 16, 32, 64}) (Ok (host_write host w IoMmio access_size addr val)))
         else if sp = ACPI_OPREGION_IO then
           ensure (h_has host F_outb \<and> h_has host F_inw \<and> h_has host F_outd) (
           ensure (access_size \<in> {8, 16, 32}) (
           guard (access_size = 16 \<longrightarrow> h_has host F_outw)
             (Ok (host_write host w IoPort access_size (take_bit 16 addr) val))))
         else if sp = ACPI_OPREGION_PCI then
           bnd (case region of Some r \<Rightarrow> lai_get_pci_params eval w r | None \<Rightarrow> Fault) (\<lambda>(seg, bbn, adr, w).
           ensure (h_has host F_pci_writeb \<and> h_has host F_pci_writew \<and> h_has host F_pci_writed) (
           ensure (access_size \<in> {8, 16, 32})
             (Ok (host_write host w (pci_space seg bbn adr) access_size (take_bit 16 addr) val))))
         else Ok w)"

subsection \<open>Fields\<close>

text \<open>
  The loops over the access units of a field.  A width of 0 would not advance; the widths of
  \<open>lai_calculate_access_width\<close> are at least 8.
\<close>

lemma unit_advance:
  fixes p s a :: nat
  assumes "p < s" and "0 < a"
  shows "s - (p + min (s - p) (a - x mod a)) < s - p"
proof -
  have "x mod a < a" using assms(2) by simp
  with assms show ?thesis by linarith
qed

function field_read_loop :: "('w \<Rightarrow> nat \<Rightarrow> u64 \<Rightarrow> (u64 \<times> 'w) outcome) \<Rightarrow> nat \<Rightarrow> nat \<Rightarrow> nat \<Rightarrow> 'w \<Rightarrow>
    u8 list \<Rightarrow> nat \<Rightarrow> u64 \<Rightarrow> ('w \<times> u8 list) outcome" where
  "field_read_loop rdu a off siz w dest progress offset =
     (if progress < siz then
        guard (0 < a) (
        let bit_offset = (off + progress) mod a;
            access_bits = min (siz - progress) (a - bit_offset) in
        guard (access_bits < 64) (
        bnd (rdu w a offset) (\<lambda>r.
        bnd (lai_buffer_put_at dest (drop_bit bit_offset (fst r) AND (2 ^ access_bits - 1)) progress access_bits) (\<lambda>dest.
        field_read_loop rdu a off siz (snd r) dest (progress + access_bits) (offset + of_nat (a div 8))))))
      else Ok (w, dest))"
  by pat_completeness auto
termination
  by (relation "measure (\<lambda>(rdu, a, off, s, w, d, p, offset). s - p)")
     (auto simp: guard_def split: if_splits intro: unit_advance)

declare field_read_loop.simps [simp del]

text \<open>\<open>write_flag\<close>: 0 preserves the other bits of a unit, 1 sets them, 2 clears them.\<close>

function field_write_loop :: "('w \<Rightarrow> nat \<Rightarrow> u64 \<Rightarrow> (u64 \<times> 'w) outcome) \<Rightarrow>
    ('w \<Rightarrow> nat \<Rightarrow> u64 \<Rightarrow> u64 \<Rightarrow> 'w outcome) \<Rightarrow> u8 \<Rightarrow> u8 list \<Rightarrow> nat \<Rightarrow> nat \<Rightarrow> nat \<Rightarrow> 'w \<Rightarrow> nat \<Rightarrow>
    u64 \<Rightarrow> 'w outcome" where
  "field_write_loop rdu wru write_flag src a off siz w progress offset =
     (if progress < siz then
        guard (0 < a) (
        let bit_offset = (off + progress) mod a;
            access_bits = min (siz - progress) (a - bit_offset) in
        guard (access_bits < 64) (
        let mask = push_bit bit_offset (2 ^ access_bits - 1) in
        bnd (if write_flag = 0 then rdu w a offset
             else if write_flag = 1 then Ok (-1, w)
             else if write_flag = 2 then Ok (0, w)
             else Panic) (\<lambda>r.
        bnd (lai_buffer_get_at src progress access_bits) (\<lambda>new_val.
        bnd (wru (snd r) a offset ((fst r AND NOT mask) OR (push_bit bit_offset new_val AND mask))) (\<lambda>w.
        field_write_loop rdu wru write_flag src a off siz w (progress + access_bits)
          (offset + of_nat (a div 8)))))))
      else Ok w)"
  by pat_completeness auto
termination
  by (relation "measure (\<lambda>(rdu, wru, fl, src, a, off, s, w, p, offset). s - p)")
     (auto simp: guard_def split: if_splits intro: unit_advance)

declare field_write_loop.simps [simp del]

text \<open>Reading and writing fields, as they are called for the registers of an index field.\<close>

type_synonym 'd reader = "'d lai_world \<Rightarrow> lai_variable \<Rightarrow> nat \<Rightarrow> ('d lai_world \<times> lai_variable) outcome"
type_synonym 'd writer = "'d lai_world \<Rightarrow> nat \<Rightarrow> lai_variable \<Rightarrow> 'd lai_world outcome"

definition field_index :: "'d lai_world \<Rightarrow> nat \<Rightarrow> (nat \<times> nat) outcome" where
  "field_index w field =
     bnd (node w field) (\<lambda>n. case n_data n of NdField _ _ _ _ (FxIndex i d) \<Rightarrow> Ok (i, d) | _ \<Rightarrow> Fault)"

definition lai_perform_indexfield_read :: "'d reader \<Rightarrow> 'd writer \<Rightarrow> 'd lai_world \<Rightarrow> nat \<Rightarrow> u64 \<Rightarrow>
    (u64 \<times> 'd lai_world) outcome" where
  "lai_perform_indexfield_read rdf wrf w field offset =
     bnd (node w field) (\<lambda>n.
     ensure (n_type n = LAI_NAMESPACE_INDEXFIELD) (
     bnd (field_index w field) (\<lambda>(index_field, data_field).
     bnd (wrf w index_field (int_var offset)) (\<lambda>w.
     bnd (rdf w var0 data_field) (\<lambda>(w, dest).
     ensure (v_type dest = LAI_INTEGER) (Ok (v_integer dest, w)))))))"

definition lai_perform_indexfield_write :: "'d writer \<Rightarrow> 'd lai_world \<Rightarrow> nat \<Rightarrow> u64 \<Rightarrow> u64 \<Rightarrow>
    'd lai_world outcome" where
  "lai_perform_indexfield_write wrf w field offset val =
     bnd (field_index w field) (\<lambda>(index_field, data_field).
     bnd (wrf w index_field (int_var offset)) (\<lambda>w.
     wrf w data_field (int_var val)))"

definition unit_read :: "'d reader \<Rightarrow> 'd writer \<Rightarrow> 'd host \<Rightarrow> 'd evaluator \<Rightarrow> nat \<Rightarrow> ns_type \<Rightarrow>
    nat option \<Rightarrow> 'd lai_world \<Rightarrow> nat \<Rightarrow> u64 \<Rightarrow> (u64 \<times> 'd lai_world) outcome" where
  "unit_read rdf wrf host eval field ty region w access_size offset =
     (if ty = LAI_NAMESPACE_FIELD \<or> ty = LAI_NAMESPACE_BANKFIELD
      then lai_perform_read host eval w region access_size offset
      else if ty = LAI_NAMESPACE_INDEXFIELD then lai_perform_indexfield_read rdf wrf w field offset
      else Panic)"

definition unit_write :: "'d writer \<Rightarrow> 'd host \<Rightarrow> 'd evaluator \<Rightarrow> nat \<Rightarrow> ns_type \<Rightarrow> nat option \<Rightarrow>
    'd lai_world \<Rightarrow> nat \<Rightarrow> u64 \<Rightarrow> u64 \<Rightarrow> 'd lai_world outcome" where
  "unit_write wrf host eval field ty region w access_size offset val =
     (if ty = LAI_NAMESPACE_FIELD \<or> ty = LAI_NAMESPACE_BANKFIELD
      then lai_perform_write host eval w region access_size offset val
      else if ty = LAI_NAMESPACE_INDEXFIELD then lai_perform_indexfield_write wrf w field offset val
      else Panic)"

text \<open>The byte offset of the unit that holds a bit.\<close>

definition unit_offset :: "nat \<Rightarrow> nat \<Rightarrow> u64" where
  "unit_offset a off = of_nat (a div 8 * (off div a))"

definition lai_read_field_internal :: "'d reader \<Rightarrow> 'd writer \<Rightarrow> 'd host \<Rightarrow> 'd evaluator \<Rightarrow>
    'd lai_world \<Rightarrow> u8 list \<Rightarrow> nat \<Rightarrow> ('d lai_world \<times> u8 list) outcome" where
  "lai_read_field_internal rdf wrf host eval w destination field =
     bnd (node w field) (\<lambda>n.
     case n_data n of
       NdField region off siz flags _ \<Rightarrow>
         bnd (lai_calculate_access_width w region siz flags) (\<lambda>a.
         field_read_loop (unit_read rdf wrf host eval field (n_type n) region) a (unat off) siz w
           destination 0 (unit_offset a (unat off)))
     | _ \<Rightarrow> Fault)"

definition lai_write_field_internal :: "'d reader \<Rightarrow> 'd writer \<Rightarrow> 'd host \<Rightarrow> 'd evaluator \<Rightarrow>
    'd lai_world \<Rightarrow> u8 list \<Rightarrow> nat \<Rightarrow> 'd lai_world outcome" where
  "lai_write_field_internal rdf wrf host eval w source field =
     bnd (node w field) (\<lambda>n.
     case n_data n of
       NdField region off siz flags _ \<Rightarrow>
         bnd (lai_calculate_access_width w region siz flags) (\<lambda>a.
         field_write_loop (unit_read rdf wrf host eval field (n_type n) region)
           (unit_write wrf host eval field (n_type n) region) (drop_bit 5 flags AND 0x0F) source a
           (unat off) siz w 0 (unit_offset a (unat off)))
     | _ \<Rightarrow> Fault)"

definition field_bytes :: "'d lai_world \<Rightarrow> nat \<Rightarrow> nat outcome" where
  "field_bytes w field =
     bnd (node w field) (\<lambda>n. case n_data n of NdField _ _ siz _ _ \<Rightarrow> Ok ((siz + 7) div 8) | _ \<Rightarrow> Fault)"

text \<open>A variable-length array of no bytes is undefined; the result of the creation is not checked.\<close>

definition lai_read_field :: "'d reader \<Rightarrow> 'd writer \<Rightarrow> 'd host \<Rightarrow> 'd evaluator \<Rightarrow> 'd reader" where
  "lai_read_field rdf wrf host eval w destination field =
     bnd (field_bytes w field) (\<lambda>bytes.
     bnd (if bytes > 8 then
            let (_, w, var) = lai_create_buffer w var0 bytes in
            bnd (buffer_head w (v_ptr var)) (\<lambda>(a, b).
            bnd (lai_read_field_internal rdf wrf host eval w (b_content b) field) (\<lambda>(w, c).
            Ok (put_buffer w a b c, var)))
          else
            guard (0 < bytes) (
            bnd (lai_read_field_internal rdf wrf host eval w (replicate bytes 0) field) (\<lambda>(w, c).
            Ok (w, int_var (le_word c))))) (\<lambda>(w, var).
     bnd (lai_var_move w destination var) (\<lambda>(w, destination, _). Ok (w, destination))))"

definition lai_write_field :: "'d reader \<Rightarrow> 'd writer \<Rightarrow> 'd host \<Rightarrow> 'd evaluator \<Rightarrow> 'd writer" where
  "lai_write_field rdf wrf host eval w field source = (case v_type source of
     LAI_BUFFER \<Rightarrow>
       bnd (buffer_head w (v_ptr source)) (\<lambda>(_, b).
       lai_write_field_internal rdf wrf host eval w (b_content b) field)
   | LAI_STRING \<Rightarrow>
       bnd (string_head w (v_ptr source)) (\<lambda>(_, s).
       lai_write_field_internal rdf wrf host eval w (s_content s) field)
   | LAI_INTEGER \<Rightarrow> lai_write_field_internal rdf wrf host eval w (le_bytes 8 (v_integer source)) field
   | _ \<Rightarrow> Panic)"

primrec field_ops :: "nat \<Rightarrow> 'd host \<Rightarrow> 'd evaluator \<Rightarrow> 'd reader \<times> 'd writer" where
  "field_ops 0 host eval = (\<lambda>w dest f. Stuck, \<lambda>w f v. Stuck)"
| "field_ops (Suc n) host eval =
     (let (rdf, wrf) = field_ops n host eval in
      (lai_read_field rdf wrf host eval, lai_write_field rdf wrf host eval))"

definition field_bank :: "'d lai_world \<Rightarrow> nat \<Rightarrow> (nat \<times> u64) outcome" where
  "field_bank w field =
     bnd (node w field) (\<lambda>n. case n_data n of NdField _ _ _ _ (FxBank b v) \<Rightarrow> Ok (b, v) | _ \<Rightarrow> Fault)"

definition lai_read_bankfield :: "'d reader \<times> 'd writer \<Rightarrow> 'd reader" where
  "lai_read_bankfield ops w destination field =
     bnd (field_bank w field) (\<lambda>(bank, val).
     bnd (snd ops w bank (int_var val)) (\<lambda>w. fst ops w destination field))"

definition lai_write_bankfield :: "'d reader \<times> 'd writer \<Rightarrow> 'd writer" where
  "lai_write_bankfield ops w field source =
     bnd (field_bank w field) (\<lambda>(bank, val).
     bnd (snd ops w bank (int_var val)) (\<lambda>w. snd ops w field source))"

definition field_fuel :: "'d lai_world \<Rightarrow> nat" where
  "field_fuel w = Suc (length (nodes w))"

definition lai_read_opregion :: "'d host \<Rightarrow> 'd evaluator \<Rightarrow> 'd reader" where
  "lai_read_opregion host eval w destination field =
     (let ops = field_ops (field_fuel w) host eval in
      bnd (node w field) (\<lambda>n.
      if n_type n = LAI_NAMESPACE_FIELD \<or> n_type n = LAI_NAMESPACE_INDEXFIELD
      then fst ops w destination field
      else if n_type n = LAI_NAMESPACE_BANKFIELD then lai_read_bankfield ops w destination field
      else Panic))"

definition lai_write_opregion :: "'d host \<Rightarrow> 'd evaluator \<Rightarrow> 'd writer" where
  "lai_write_opregion host eval w field source =
     (let ops = field_ops (field_fuel w) host eval in
      bnd (node w field) (\<lambda>n.
      if n_type n = LAI_NAMESPACE_FIELD \<or> n_type n = LAI_NAMESPACE_INDEXFIELD
      then snd ops w field source
      else if n_type n = LAI_NAMESPACE_BANKFIELD then lai_write_bankfield ops w field source
      else Panic))"

subsection \<open>A region that stores what is written\<close>

text \<open>
  A bit of a unit that is written and that is not in the field: \<open>Preserve\<close>, \<open>WriteAsOnes\<close>, \<open>WriteAsZeros\<close>.  Then
  the contract of the unit accesses: \<open>good w\<close> are the states in which the \<open>lim\<close> bytes of a
  region behave as a store, \<open>bits\<close> is what it holds.
\<close>

definition update_rule :: "u8 \<Rightarrow> bool \<Rightarrow> bool" where
  "update_rule fl b = (if fl = 0 then b else fl = 1)"

locale unit_store =
  fixes rdu :: "'w \<Rightarrow> nat \<Rightarrow> u64 \<Rightarrow> (u64 \<times> 'w) outcome"
    and wru :: "'w \<Rightarrow> nat \<Rightarrow> u64 \<Rightarrow> u64 \<Rightarrow> 'w outcome"
    and bits :: "'w \<Rightarrow> nat \<Rightarrow> bool"
    and good :: "'w \<Rightarrow> bool"
    and lim :: nat
  assumes read_law: "good w \<Longrightarrow> a \<in> {8, 16, 32} \<Longrightarrow> k + a div 8 \<le> lim \<Longrightarrow>
      \<exists>v. rdu w a (of_nat k) = Ok (v, w) \<and> (\<forall>i<a. bit v i \<longleftrightarrow> bits w (8 * k + i))"
    and write_law: "good w \<Longrightarrow> a \<in> {8, 16, 32} \<Longrightarrow> k + a div 8 \<le> lim \<Longrightarrow>
      \<exists>w'. wru w a (of_nat k) v = Ok w' \<and> good w' \<and>
        (\<forall>i<8 * lim. bits w' i \<longleftrightarrow> (if 8 * k \<le> i \<and> i < 8 * k + a then bit v (i - 8 * k) else bits w i))"
begin

text \<open>The unit of width \<open>a\<close> that holds bit \<open>x\<close>.\<close>

lemma unit_facts:
  assumes "a \<in> {8, 16, 32 :: nat}" and "x < 8 * lim" and "a dvd 8 * lim"
  shows "a div 8 * (x div a) + a div 8 \<le> lim" and "8 * (a div 8 * (x div a)) + x mod a = x"
    and "8 * (a div 8) = a"
proof -
  show a: "8 * (a div 8) = a" using assms(1) by auto
  have ax: "8 * (a div 8 * (x div a)) = a * (x div a)"
    by (simp only: a mult.assoc [symmetric])
  then show x: "8 * (a div 8 * (x div a)) + x mod a = x" by (metis mult_div_mod_eq)
  obtain c where c: "8 * lim = a * c" using assms(3) by blast
  have "0 < a" using assms(1) by auto
  have "a * (x div a) < a * c" using x c assms(2) ax by linarith
  then have "x div a < c" using \<open>0 < a\<close> by simp
  then have "a * Suc (x div a) \<le> a * c" by (intro mult_le_mono2) simp
  then show "a div 8 * (x div a) + a div 8 \<le> lim" using a c ax unfolding mult_Suc_right by linarith
qed

lemma next_unit:
  fixes a off p siz :: nat
  assumes "0 < a" and "p + min (siz - p) (a - (off + p) mod a) < siz"
  shows "unit_offset a (off + p) + of_nat (a div 8) =
    unit_offset a (off + (p + min (siz - p) (a - (off + p) mod a)))"
proof -
  let ?x = "off + p"
  have lt: "?x mod a < a" using assms(1) by simp
  from assms(2) have m: "min (siz - p) (a - ?x mod a) = a - ?x mod a" by linarith
  have "?x = a * (?x div a) + ?x mod a" by simp
  then have "off + (p + (a - ?x mod a)) = a * Suc (?x div a)"
    using lt unfolding mult_Suc_right by linarith
  then have "(off + (p + (a - ?x mod a))) div a = Suc (?x div a)"
    using assms(1) by (metis nonzero_mult_div_cancel_left less_numeral_extra(3))
  then show ?thesis unfolding m by (simp add: unit_offset_def add.commute)
qed

lemma read_loop:
  assumes w: "good w" and a: "a \<in> {8, 16, 32}" "a dvd 8 * lim" and lim: "off + siz \<le> 8 * lim"
    and "siz \<le> 8 * length dest" and "p \<le> siz" and "p < siz \<longrightarrow> offset = unit_offset a (off + p)"
  shows "\<exists>d. field_read_loop rdu a off siz w dest p offset = Ok (w, d) \<and> length d = length dest \<and>
    (\<forall>i. bit_at d i \<longleftrightarrow> bit_at dest i \<or> p \<le> i \<and> i < siz \<and> bits w (off + i))"
  using assms(5-7)
proof (induction "siz - p" arbitrary: dest p offset rule: less_induct)
  case less
  define c where "c = min (siz - p) (a - (off + p) mod a)"
  show ?case
  proof (cases "p < siz")
    case False
    with less.prems show ?thesis by (subst field_read_loop.simps) auto
  next
    case True
    define k where "k = a div 8 * ((off + p) div a)"
    define q where "q = (off + p) mod a"
    have "off + p < 8 * lim" using True lim by linarith
    note u = unit_facts [OF a(1) this a(2), folded k_def q_def]
    have q: "q < a" "0 < a" "a \<le> 32" using a(1) by (auto simp: q_def)
    have c: "0 < c" "c \<le> 32" "p + c \<le> siz" "q + c \<le> a"
      using True q unfolding c_def q_def [symmetric] by linarith+
    have cq: "min (siz - p) (a - q) = c" by (simp only: c_def q_def)
    obtain v where v: "rdu w a (of_nat k) = Ok (v, w)" "\<forall>i<a. bit v i \<longleftrightarrow> bits w (8 * k + i)"
      using read_law [OF w a(1) u(1)] by blast
    have off: "offset = of_nat k" using less.prems(3) True by (simp add: unit_offset_def k_def)
    define z where "z = drop_bit q v AND (2 ^ c - 1)"
    have "p + c \<le> 8 * length dest" "c \<le> 64" using c less.prems(1) by linarith+
    from put_at_loop_spec [OF this le0, of z] obtain d where
      d: "lai_buffer_put_at dest z p c = Ok d" "length d = length dest"
        "\<forall>i. bit_at d i \<longleftrightarrow> bit_at dest i \<or> p + 0 \<le> i \<and> i < p + c \<and> bit z (i - p)"
      unfolding lai_buffer_put_at_def by (elim exE conjE)
    have step: "field_read_loop rdu a off siz w dest p offset =
        field_read_loop rdu a off siz w d (p + c) (offset + of_nat (a div 8))"
      using True q(2) c(2) v(1) d(1) off
      by (subst field_read_loop.simps) (simp add: Let_def q_def [symmetric] cq z_def)
    have h: "siz - (p + c) < siz - p" "siz \<le> 8 * length d"
      using c True less.prems(1) d(2) by auto
    have o': "p + c < siz \<longrightarrow> offset + of_nat (a div 8) = unit_offset a (off + (p + c))"
      using next_unit [OF q(2), of p siz off] less.prems(3) True unfolding c_def by simp
    obtain e where e: "field_read_loop rdu a off siz w d (p + c) (offset + of_nat (a div 8)) = Ok (w, e)"
      "length e = length d"
      "\<forall>i. bit_at e i \<longleftrightarrow> bit_at d i \<or> p + c \<le> i \<and> i < siz \<and> bits w (off + i)"
      using less.hyps [OF h(1) h(2) c(3) o'] by (elim exE conjE)
    have chunk: "bit z (i - p) \<longleftrightarrow> bits w (off + i)"
      if "p \<le> i" "i < p + c" for i
    proof -
      have "q + (i - p) < a" "8 * k + (q + (i - p)) = off + i" using that c(4) u(2) by linarith+
      then have "bit v (q + (i - p)) \<longleftrightarrow> bits w (off + i)" using v(2) by metis
      moreover have "i - p < c" "i - p < 64" using that c(2) by linarith+
      ultimately show ?thesis by (simp add: z_def bit_and_iff bit_drop_bit_eq bit_mask_word)
    qed
    have "bit_at e i \<longleftrightarrow> bit_at dest i \<or> p \<le> i \<and> i < siz \<and> bits w (off + i)" for i
    proof (cases "p \<le> i \<and> i < p + c")
      case True
      with e(3) d(3) chunk [of i] c(3) show ?thesis by (metis add_0_right not_le less_le_trans)
    next
      case False
      then have "bit_at d i \<longleftrightarrow> bit_at dest i" using d(3) by auto
      with False e(3) show ?thesis by (metis add_leD1 not_le)
    qed
    with step e(1,2) d(2) show ?thesis by auto
  qed
qed

lemma write_loop:
  assumes "good w" and a: "a \<in> {8, 16, 32}" "a dvd 8 * lim" and lim: "off + siz \<le> 8 * lim"
    and src: "siz \<le> 8 * length src" and rule_ok: "fl \<in> {0, 1, 2}" and "p \<le> siz"
    and "p < siz \<longrightarrow> offset = unit_offset a (off + p)"
  shows "\<exists>w'. field_write_loop rdu wru fl src a off siz w p offset = Ok w' \<and> good w' \<and>
    (\<forall>i<8 * lim. bits w' i \<longleftrightarrow>
      (if off + p \<le> i \<and> i < off + siz then bit_at src (i - off)
       else if p < siz \<and> (off + p) div a \<le> i div a \<and> i div a \<le> (off + siz - 1) div a then update_rule fl (bits w i)
       else bits w i))"
  using assms(1,7,8)
proof (induction "siz - p" arbitrary: w p offset rule: less_induct)
  case less
  define c where "c = min (siz - p) (a - (off + p) mod a)"
  show ?case
  proof (cases "p < siz")
    case False
    with less.prems show ?thesis by (subst field_write_loop.simps) auto
  next
    case True
    define k where "k = a div 8 * ((off + p) div a)"
    define q where "q = (off + p) mod a"
    have "off + p < 8 * lim" using True lim by linarith
    note u = unit_facts [OF a(1) this a(2), folded k_def q_def]
    have q: "q < a" "0 < a" "a \<le> 32" using a(1) by (auto simp: q_def)
    have c: "0 < c" "c \<le> 32" "p + c \<le> siz" "q + c \<le> a"
      using True q unfolding c_def q_def [symmetric] by linarith+
    have cq: "min (siz - p) (a - q) = c" by (simp only: c_def q_def)
    obtain v0 where v0: "rdu w a (of_nat k) = Ok (v0, w)" "\<forall>i<a. bit v0 i \<longleftrightarrow> bits w (8 * k + i)"
      using read_law [OF less.prems(1) a(1) u(1)] by blast
    define v where "v = (if fl = 0 then v0 else if fl = 1 then -1 else 0)"
    have v: "(if fl = 0 then rdu w a (of_nat k) else if fl = 1 then Ok (-1, w) else if fl = 2 then Ok (0, w) else Panic) = Ok (v, w)"
      "\<forall>i<a. bit v i \<longleftrightarrow> update_rule fl (bits w (8 * k + i))"
      using rule_ok v0 q(3) by (auto simp: v_def update_rule_def)
    have off: "offset = of_nat k" using less.prems(3) True by (simp add: unit_offset_def k_def)
    obtain r where r: "lai_buffer_get_at src p c = Ok r" "\<forall>i. bit r i \<longleftrightarrow> i < c \<and> bit_at src (p + i)"
      using get_at_loop_spec [of p c src 0 0] c src by (auto simp: lai_buffer_get_at_def)
    define mask :: u64 where "mask = push_bit q (2 ^ c - 1)"
    define x where "x = (v AND NOT mask) OR (push_bit q r AND mask)"
    have bmask: "bit mask i \<longleftrightarrow> q \<le> i \<and> i < q + c" if "i < a" for i
      using that q(3) by (auto simp: mask_def bit_simps bit_mask_word)
    have x: "bit x i \<longleftrightarrow> (if q \<le> i \<and> i < q + c then bit_at src (p + (i - q)) else update_rule fl (bits w (8 * k + i)))"
      if "i < a" for i
      using that bmask [OF that] v(2) r(2) q(3) by (auto simp: x_def bit_simps)
    obtain w' where w': "wru w a (of_nat k) x = Ok w'" "good w'"
      "\<forall>i<8 * lim. bits w' i \<longleftrightarrow> (if 8 * k \<le> i \<and> i < 8 * k + a then bit x (i - 8 * k) else bits w i)"
      using write_law [OF less.prems(1) a(1) u(1), of x] by (elim exE conjE)
    have "field_write_loop rdu wru fl src a off siz w p offset =
        bnd (if fl = 0 then rdu w a (of_nat k) else if fl = 1 then Ok (-1, w) else if fl = 2 then Ok (0, w) else Panic) (\<lambda>r.
        bnd (lai_buffer_get_at src p c) (\<lambda>new_val.
        bnd (wru (snd r) a (of_nat k) ((fst r AND NOT mask) OR (push_bit q new_val AND mask))) (\<lambda>w.
        field_write_loop rdu wru fl src a off siz w (p + c) (offset + of_nat (a div 8)))))"
      using True q(2) c(2) off
      by (subst field_write_loop.simps) (simp add: Let_def q_def [symmetric] cq mask_def [symmetric])
    also have "\<dots> = field_write_loop rdu wru fl src a off siz w' (p + c) (offset + of_nat (a div 8))"
      unfolding v(1) r(1) bnd.simps fst_conv snd_conv x_def [symmetric] w'(1) ..
    finally have step: "field_write_loop rdu wru fl src a off siz w p offset =
        field_write_loop rdu wru fl src a off siz w' (p + c) (offset + of_nat (a div 8))" .
    have h: "siz - (p + c) < siz - p" using c True by auto
    have o': "p + c < siz \<longrightarrow> offset + of_nat (a div 8) = unit_offset a (off + (p + c))"
      using next_unit [OF q(2), of p siz off] less.prems(3) True unfolding c_def by simp
    obtain w2 where w2: "field_write_loop rdu wru fl src a off siz w' (p + c) (offset + of_nat (a div 8)) = Ok w2"
      "good w2"
      "\<forall>i<8 * lim. bits w2 i \<longleftrightarrow>
         (if off + (p + c) \<le> i \<and> i < off + siz then bit_at src (i - off)
          else if p + c < siz \<and> (off + (p + c)) div a \<le> i div a \<and> i div a \<le> (off + siz - 1) div a then update_rule fl (bits w' i)
          else bits w' i)"
      using less.hyps [OF h w'(2) c(3) o'] by (elim exE conjE)
    have place: "8 * k \<le> i \<and> i < 8 * k + a \<longleftrightarrow> i div a = (off + p) div a" for i
    proof -
      have k: "8 * k = a * ((off + p) div a)" by (simp only: k_def mult.assoc [symmetric] u(3))
      have m: "i = a * (i div a) + i mod a" "i mod a < a" using q(2) by simp_all
      show ?thesis
      proof
        assume r: "8 * k \<le> i \<and> i < 8 * k + a"
        show "i div a = (off + p) div a"
          by (rule div_nat_eqI) (use r k in \<open>simp_all add: mult.commute\<close>)
      next
        assume "i div a = (off + p) div a"
        then have "i = 8 * k + i mod a" using m(1) k by metis
        then show "8 * k \<le> i \<and> i < 8 * k + a" using m(2) by linarith
      qed
    qed
    have one: "bits w' i \<longleftrightarrow> (if off + p \<le> i \<and> i < off + (p + c) then bit_at src (i - off)
        else if i div a = (off + p) div a then update_rule fl (bits w i) else bits w i)"
      if i: "i < 8 * lim" for i
    proof (cases "8 * k \<le> i \<and> i < 8 * k + a")
      case True
      then have "i - 8 * k < a" "8 * k + (i - 8 * k) = i" by linarith+
      moreover have "q \<le> i - 8 * k \<and> i - 8 * k < q + c \<longleftrightarrow> off + p \<le> i \<and> i < off + (p + c)"
        using True u(2) by linarith
      moreover have "off + p \<le> i \<Longrightarrow> p + (i - 8 * k - q) = i - off" using True u(2) by linarith
      moreover have "i div a = (off + p) div a" using True place by blast
      ultimately show ?thesis using w'(3) i True x [of "i - 8 * k"] by auto
    next
      case False
      then have "\<not> (off + p \<le> i \<and> i < off + (p + c))" using u(2) c(4) by linarith
      moreover have "bits w' i \<longleftrightarrow> bits w i" using w'(3) [rule_format, OF i] by (simp only: False if_False)
      moreover have "i div a \<noteq> (off + p) div a" using False place by blast
      ultimately show ?thesis by (simp only: if_False)
    qed
    have "bits w2 i \<longleftrightarrow> (if off + p \<le> i \<and> i < off + siz then bit_at src (i - off)
        else if p < siz \<and> (off + p) div a \<le> i div a \<and> i div a \<le> (off + siz - 1) div a then update_rule fl (bits w i)
        else bits w i)"
      if i: "i < 8 * lim" for i
    proof (cases "p + c < siz")
      case False
      then have s: "p + c = siz" using c(3) by linarith
      have "8 * k \<le> off + siz - 1 \<and> off + siz - 1 < 8 * k + a" using u(2) c(1,4) s by linarith
      then have "(off + siz - 1) div a = (off + p) div a" using place by blast
      then show ?thesis using w2(3) [rule_format, OF i] one [OF i] s True by auto
    next
      case more': True
      have "c = a - q" using more' c_def q_def by linarith
      then have e: "off + (p + c) = 8 * k + a" using u(2) q(1) by linarith
      have "off + (p + c) = a * Suc ((off + p) div a)"
        unfolding e k_def by (simp only: mult.assoc [symmetric] u(3) mult_Suc_right add.commute)
      then have n: "(off + (p + c)) div a = Suc ((off + p) div a)" using q(2) by (metis nonzero_mult_div_cancel_left less_numeral_extra(3))
      have "(off + (p + c)) div a \<le> (off + siz - 1) div a" by (rule div_le_mono) (use more' in linarith)
      then have m: "Suc ((off + p) div a) \<le> (off + siz - 1) div a" using n by simp
      consider "off + p \<le> i \<and> i < off + (p + c)" | "off + (p + c) \<le> i \<and> i < off + siz"
        | "\<not> (off + p \<le> i \<and> i < off + siz)" by linarith
      then show ?thesis
      proof cases
        case 1
        then have "i div a = (off + p) div a" using place [of i] u(2) c(4) by fastforce
        then show ?thesis using w2(3) [rule_format, OF i] one [OF i] 1 n c(3) by auto
      next
        case 2
        then show ?thesis using w2(3) [rule_format, OF i] c(1) by auto
      next
        case 3
        then have "\<not> (off + (p + c) \<le> i \<and> i < off + siz)" "\<not> (off + p \<le> i \<and> i < off + (p + c))" using c(3) by linarith+
        then show ?thesis
          using w2(3) [rule_format, OF i] one [OF i] 3 True more' m n
          by (cases "i div a = (off + p) div a") (auto simp: not_less_eq_eq)
      qed
    qed
    with step w2(1,2) show ?thesis by auto
  qed
qed

end

text \<open>
  Memory behind \<open>laihost_map\<close>: a read returns the bytes at the address, a write changes them
  and no others.
\<close>

definition ram_like :: "'d host \<Rightarrow> ('d \<Rightarrow> u64 \<Rightarrow> u8) \<Rightarrow> bool" where
  "ram_like host mem \<longleftrightarrow> h_has host F_map \<and>
     (\<forall>a \<in> {8, 16, 32, 64}. \<forall>addr d.
        snd (h_read host IoMmio a addr d) = d \<and>
        (\<forall>i<a. bit (fst (h_read host IoMmio a addr d)) i \<longleftrightarrow> bit (mem d (addr + of_nat (i div 8))) (i mod 8)) \<and>
        (\<forall>v x. mem (h_write host IoMmio a addr v d) x =
           (if unat (x - addr) < a div 8 then ucast (drop_bit (8 * unat (x - addr)) v) else mem d x)))"

definition region_bit :: "('d \<Rightarrow> u64 \<Rightarrow> u8) \<Rightarrow> u64 \<Rightarrow> 'd lai_world \<Rightarrow> nat \<Rightarrow> bool" where
  "region_bit mem base w i \<longleftrightarrow> bit (mem (dev w) (base + of_nat (i div 8))) (i mod 8)"

definition region_ok :: "'d host \<Rightarrow> ('d \<Rightarrow> u64 \<Rightarrow> u8) \<Rightarrow> nat \<Rightarrow> u64 \<Rightarrow> nat \<Rightarrow> 'd lai_world \<Rightarrow>
    'd lai_world \<Rightarrow> bool" where
  "region_ok host mem r base lim w0 w \<longleftrightarrow> ram_like host mem \<and> unat base + lim < 2 ^ 64 \<and>
     region_data w0 (Some r) = Ok (ACPI_OPREGION_MEMORY, base, None) \<and> (\<exists>d. w = w0\<lparr>dev := d\<rparr>)"

lemma node_dev [simp]: "node (w\<lparr>dev := d\<rparr>) p = node w p"
  by (simp add: node_def)

lemma region_data_dev [simp]: "region_data (w\<lparr>dev := d\<rparr>) r = region_data w r"
  by (simp add: region_data_def split: option.splits)

lemma div_mod_range:
  fixes a i k :: nat
  assumes "8 * (a div 8) = a"
  shows "8 * k \<le> i \<and> i < 8 * k + a \<longleftrightarrow> k \<le> i div 8 \<and> i div 8 < k + a div 8"
proof -
  have "i = 8 * (i div 8) + i mod 8" "i mod 8 < 8" by simp_all
  with assms show ?thesis by linarith
qed

lemma unat_offset:
  assumes "x < 2 ^ 64" and "k < 2 ^ 64"
  shows "unat (of_nat x - of_nat k :: u64) = (if k \<le> x then x - k else x + 2 ^ 64 - k)"
  using assms by (simp add: unat_sub_if' unat_of_nat take_bit_nat_eq_self)

text \<open>Distances inside the region: no address of it wraps around.\<close>

lemma in_unit:
  assumes "x < lim" and "k + n \<le> lim" and "lim < 2 ^ 64"
  shows "unat ((base + of_nat x) - (base + of_nat k) :: u64) < n \<longleftrightarrow> k \<le> x \<and> x < k + n"
    and "k \<le> x \<Longrightarrow> unat ((base + of_nat x) - (base + of_nat k) :: u64) = x - k"
proof -
  have "(base + of_nat x) - (base + of_nat k) = (of_nat x - of_nat k :: u64)" by simp
  moreover have "x < 2 ^ 64" "k < 2 ^ 64" using assms by linarith+
  ultimately have u: "unat ((base + of_nat x) - (base + of_nat k) :: u64) =
      (if k \<le> x then x - k else x + 2 ^ 64 - k)" by (simp only: unat_offset)
  show "unat ((base + of_nat x) - (base + of_nat k) :: u64) < n \<longleftrightarrow> k \<le> x \<and> x < k + n"
    unfolding u using assms by auto
  show "k \<le> x \<Longrightarrow> unat ((base + of_nat x) - (base + of_nat k) :: u64) = x - k"
    by (simp only: u if_True)
qed

lemma region_read:
  assumes "region_ok host mem r base lim w0 w" and "a \<in> {8, 16, 32}"
  shows "\<exists>v. lai_perform_read host eval w (Some r) a (of_nat k) = Ok (v, w) \<and>
    (\<forall>i<a. bit v i \<longleftrightarrow> region_bit mem base w (8 * k + i))"
proof -
  from assms(1) obtain d where w: "w = w0\<lparr>dev := d\<rparr>" "ram_like host mem"
    "region_data w0 (Some r) = Ok (ACPI_OPREGION_MEMORY, base, None)"
    by (auto simp: region_ok_def)
  define v where "v = fst (h_read host IoMmio a (base + of_nat k) d)"
  have map: "h_has host F_map" using w(2) by (simp add: ram_like_def)
  have a: "a \<in> {8, 16, 32, 64}" using assms(2) by auto
  with w(2) have law: "snd (h_read host IoMmio a (base + of_nat k) d) = d"
    "\<forall>i<a. bit v i \<longleftrightarrow> bit (mem d (base + of_nat k + of_nat (i div 8))) (i mod 8)"
    unfolding ram_like_def v_def by blast+
  have eq: "h_read host IoMmio a (base + of_nat k) d = (v, d)"
    using law(1) by (simp add: v_def prod_eq_iff)
  have "lai_perform_read host eval w (Some r) a (of_nat k) = Ok (take_bit a v, w)"
    using a eq map w(3) by (simp add: lai_perform_read_def w(1) Let_def host_read_def)
  moreover have "bit (take_bit a v) i \<longleftrightarrow> region_bit mem base w (8 * k + i)" if "i < a" for i
  proof -
    have "(8 * k + i) div 8 = k + i div 8" "(8 * k + i) mod 8 = i mod 8" by simp_all
    with law(2) that show ?thesis by (simp add: region_bit_def w(1) bit_take_bit_iff add.assoc)
  qed
  ultimately show ?thesis by blast
qed

lemma region_write:
  assumes "region_ok host mem r base lim w0 w" and "a \<in> {8, 16, 32}" and "k + a div 8 \<le> lim"
  shows "\<exists>w'. lai_perform_write host eval w (Some r) a (of_nat k) v = Ok w' \<and>
    region_ok host mem r base lim w0 w' \<and>
    (\<forall>i<8 * lim. region_bit mem base w' i \<longleftrightarrow>
       (if 8 * k \<le> i \<and> i < 8 * k + a then bit v (i - 8 * k) else region_bit mem base w i))"
proof -
  from assms(1) obtain d where w: "w = w0\<lparr>dev := d\<rparr>" "ram_like host mem" "unat base + lim < 2 ^ 64"
    "region_data w0 (Some r) = Ok (ACPI_OPREGION_MEMORY, base, None)"
    by (auto simp: region_ok_def)
  define d' where "d' = h_write host IoMmio a (base + of_nat k) (take_bit a v) d"
  define w' where "w' = w0\<lparr>dev := d'\<rparr>"
  have map: "h_has host F_map" using w(2) by (simp add: ram_like_def)
  have a: "a \<in> {8, 16, 32, 64}" "8 * (a div 8) = a" using assms(2) by auto
  with w(2) have law: "mem d' x = (if unat (x - (base + of_nat k)) < a div 8
      then ucast (drop_bit (8 * unat (x - (base + of_nat k))) (take_bit a v)) else mem d x)" for x
    unfolding ram_like_def d'_def by blast
  have lim: "lim < 2 ^ 64" using w(3) by simp
  have "lai_perform_write host eval w (Some r) a (of_nat k) v = Ok w'"
    using a(1) map w(4) by (simp add: lai_perform_write_def w(1) Let_def host_write_def w'_def d'_def)
  moreover have "region_ok host mem r base lim w0 w'"
    using w(2-4) by (auto simp: region_ok_def w'_def)
  moreover have "region_bit mem base w' i \<longleftrightarrow>
      (if 8 * k \<le> i \<and> i < 8 * k + a then bit v (i - 8 * k) else region_bit mem base w i)"
    if i: "i < 8 * lim" for i
  proof -
    let ?x = "i div 8"
    have x: "?x < lim" using i by linarith
    note u = in_unit [OF x assms(3) lim, where base = base]
    have range: "8 * k \<le> i \<and> i < 8 * k + a \<longleftrightarrow> k \<le> ?x \<and> ?x < k + a div 8"
      by (rule div_mod_range [OF a(2)])
    show ?thesis
    proof (cases "k \<le> ?x \<and> ?x < k + a div 8")
      case True
      have m: "8 * (?x - k) + i mod 8 = i - 8 * k"
        using True mult_div_mod_eq [of 8 i] by (simp add: diff_mult_distrib2)
      have "i - 8 * k < a" "i - 8 * k < 64" using True range a(1) by auto
      then show ?thesis using True range u law m
        by (simp add: region_bit_def w'_def bit_simps)
    next
      case False
      have "mem d' (base + of_nat ?x) = mem d (base + of_nat ?x)"
        unfolding law [of "base + of_nat ?x"] u(1) using False by (simp only: if_False)
      then have "region_bit mem base w' i \<longleftrightarrow> region_bit mem base w i"
        by (simp add: region_bit_def w'_def w(1))
      moreover have "\<not> (8 * k \<le> i \<and> i < 8 * k + a)" using False range by blast
      ultimately show ?thesis by (simp only: if_False)
    qed
  qed
  ultimately show ?thesis by blast
qed

interpretation mmio: unit_store
    "\<lambda>w. lai_perform_read host eval w (Some r)" "\<lambda>w. lai_perform_write host eval w (Some r)"
    "region_bit mem base" "region_ok host mem r base lim w0" lim
  for host :: "'d host" and eval mem r base lim w0
  by unfold_locales (blast intro: region_read, blast intro: region_write)

subsection \<open>Properties\<close>

lemma le_bytes_bit: "n \<le> 8 \<Longrightarrow> bit_at (le_bytes n v) i \<longleftrightarrow> i < 8 * n \<and> bit v i"
proof -
  assume n: "n \<le> 8"
  have "8 * (i div 8) + i mod 8 = i" "i mod 8 < 8" by simp_all
  moreover have "i div 8 < n \<longleftrightarrow> i < 8 * n" by linarith
  ultimately show ?thesis using n
    by (auto simp: bit_at_def le_bytes_def bit_simps)
qed

lemma le_word_bit: "length bs \<le> 8 \<Longrightarrow> bit (le_word bs) i \<longleftrightarrow> bit_at bs i"
proof (induction bs arbitrary: i)
  case (Cons b bs)
  show ?case
  proof (cases "i < 8")
    case True
    then show ?thesis by (auto simp: bit_simps bit_at_def)
  next
    case False
    then have "i div 8 = Suc ((i - 8) div 8)" "i mod 8 = (i - 8) mod 8"
      by (simp_all add: div_if mod_if)
    moreover have "bit (ucast b :: u64) i \<longleftrightarrow> False" using False by (auto simp: bit_simps dest: bit_imp_le_length)
    moreover have "i < 64 \<or> \<not> bit_at bs (i - 8)" using Cons.prems by (auto simp: bit_at_def)
    ultimately show ?thesis using False Cons
      by (auto simp: bit_simps bit_at_def)
  qed
qed (simp add: bit_at_def)

lemma pow_width: "max 8 (min (2 ^ k) m) \<in> {8, 16, 32, 64 :: nat}" if "m = 32 \<or> m = 64"
proof -
  consider "k \<le> 3" | "k = 4" | "k = 5" | "6 \<le> k" by linarith
  then show ?thesis
  proof cases
    case 1
    then have "(2 :: nat) ^ k \<le> 2 ^ 3" by (intro power_increasing) simp_all
    with that show ?thesis by auto
  next
    case 4
    then have "(2 :: nat) ^ 6 \<le> 2 ^ k" by (intro power_increasing) simp_all
    with that show ?thesis by auto
  qed (use that in auto)
qed

lemma access_width_cases:
  assumes "lai_calculate_access_width w region siz flags = Ok a"
  shows "a \<in> {8, 16, 32, 64}"
proof -
  have "any_access sp siz = Ok a \<Longrightarrow> a \<in> {8, 16, 32, 64}" for sp
    using pow_width [of 64] pow_width [of 32] pow_width [of 64 0] pow_width [of 32 0]
    by (auto simp: any_access_def Let_def bnd_eq_Ok guard_eq_Ok split: if_splits)
  with assms show ?thesis
    by (auto simp: lai_calculate_access_width_def Let_def bnd_eq_Ok split: if_splits prod.splits)
qed

lemma lai_calculate_access_width_dev [simp]:
  "lai_calculate_access_width (w\<lparr>dev := d\<rparr>) region siz flags = lai_calculate_access_width w region siz flags"
  by (simp only: lai_calculate_access_width_def region_data_dev)

lemma lai_var_finalize_var0: "lai_var_finalize hp var0 = Ok hp"
  by (cases "length (cells hp)") (simp_all add: lai_var_finalize_def var_unref_def counted_head_def var0_def)

lemma lai_var_move_var0: "lai_var_move hp var0 v = Ok (hp, v, var0)"
  by (simp add: lai_var_move_def lai_swap_object_def lai_var_finalize_var0)

text \<open>The unit accesses of a plain field are those of its region.\<close>

lemma unit_access_field:
  "unit_read rdf wrf host eval f LAI_NAMESPACE_FIELD r = (\<lambda>w. lai_perform_read host eval w r)"
  "unit_write wrf host eval f LAI_NAMESPACE_FIELD r = (\<lambda>w. lai_perform_write host eval w r)"
  by (intro ext, simp add: unit_read_def unit_write_def)+

lemma field_ops_Suc:
  "fst (field_ops (Suc n) host eval) = lai_read_field (fst (field_ops n host eval)) (snd (field_ops n host eval)) host eval"
  "snd (field_ops (Suc n) host eval) = lai_write_field (fst (field_ops n host eval)) (snd (field_ops n host eval)) host eval"
  by (simp_all add: case_prod_beta Let_def)

lemma lai_write_opregion_field:
  assumes "node w f = Ok n" and "n_type n = LAI_NAMESPACE_FIELD"
    and "n_data n = NdField r off siz flags ex" and "lai_calculate_access_width w r siz flags = Ok a"
  shows "lai_write_opregion host eval w f (int_var v) =
    field_write_loop (\<lambda>w. lai_perform_read host eval w r) (\<lambda>w. lai_perform_write host eval w r)
      (drop_bit 5 flags AND 0x0F) (le_bytes 8 v) a (unat off) siz w 0 (unit_offset a (unat off))"
  using assms
  by (simp add: lai_write_opregion_def Let_def field_fuel_def field_ops_Suc lai_write_field_def int_var_def
      lai_write_field_internal_def unit_access_field del: field_ops.simps)

lemma lai_read_opregion_field:
  assumes "node w f = Ok n" and "n_type n = LAI_NAMESPACE_FIELD"
    and "n_data n = NdField r off siz flags ex" and "lai_calculate_access_width w r siz flags = Ok a"
    and "0 < siz" and "siz \<le> 64"
    and "field_read_loop (\<lambda>w. lai_perform_read host eval w r) a (unat off) siz w
      (replicate ((siz + 7) div 8) 0) 0 (unit_offset a (unat off)) = Ok (w', c)"
  shows "lai_read_opregion host eval w var0 f = Ok (w', int_var (le_word c))"
proof -
  have "(siz + 7) div 8 \<le> 8" "0 < (siz + 7) div 8" using assms(5,6) by linarith+
  with assms show ?thesis
    by (simp add: lai_read_opregion_def Let_def field_fuel_def field_ops_Suc lai_read_field_def
        field_bytes_def lai_read_field_internal_def unit_access_field lai_var_move_var0 del: field_ops.simps)
qed

lemma bit_at_replicate0: "\<not> bit_at (replicate n 0) i"
  by (simp add: bit_at_def)

text \<open>
  C18. A plain \<open>Field\<close> (not an index or bank field) of 1 to 64 bits in a system memory region
  without address-space override, accessed in units of 8, 16 or 32 bits: \<open>lai_write_opregion\<close> of
  an integer sets the bits of the field to the integer, gives every other bit of the units it
  touches the value the update rule of the field demands (\<open>Preserve\<close> the old one, \<open>WriteAsOnes\<close>
  1, \<open>WriteAsZeros\<close> 0), and leaves all other units of the region alone; \<open>lai_read_opregion\<close>
  then returns the integer cut to the size of the field.  Neither panics, faults nor runs out of
  fuel.  Integers are lai's \<open>uint64_t\<close> of 64 bits; where the build makes it narrower, units as
  wide as it are outside this statement.
\<close>

theorem field_write_read:
  assumes "ram_like host mem" and "unat base + lim < 2 ^ 64"
    and "region_data w (Some r) = Ok (ACPI_OPREGION_MEMORY, base, None)"
    and "node w f = Ok n" and "n_type n = LAI_NAMESPACE_FIELD"
    and "n_data n = NdField (Some r) off siz flags ex"
    and "lai_calculate_access_width w (Some r) siz flags = Ok a" and "a \<le> 32"
    and "drop_bit 5 flags AND 0x0F \<in> {0, 1, 2}" and "0 < siz" and "siz \<le> 64"
    and "unat off + siz \<le> 8 * lim" and "a dvd 8 * lim"
  shows "\<exists>w'. lai_write_opregion host eval w f (int_var v) = Ok w' \<and>
    (\<forall>i<8 * lim. region_bit mem base w' i \<longleftrightarrow>
       (if unat off \<le> i \<and> i < unat off + siz then bit v (i - unat off)
        else if unat off div a \<le> i div a \<and> i div a \<le> (unat off + siz - 1) div a
          then update_rule (drop_bit 5 flags AND 0x0F) (region_bit mem base w i)
        else region_bit mem base w i)) \<and>
    lai_read_opregion host eval w' var0 f = Ok (w', int_var (take_bit siz v))"
proof -
  have a: "a \<in> {8, 16, 32}" using access_width_cases [OF assms(7)] assms(8) by auto
  have ok: "region_ok host mem r base lim w w"
    using assms(1-3) by (auto simp: region_ok_def intro: exI [of _ "dev w"])
  have "siz \<le> 8 * length (le_bytes 8 v)" using assms(11) by simp
  from mmio.write_loop [OF ok a assms(13,12) this assms(9) le0, of "unit_offset a (unat off)" eval]
  obtain w' where w': "field_write_loop (\<lambda>w. lai_perform_read host eval w (Some r))
      (\<lambda>w. lai_perform_write host eval w (Some r)) (drop_bit 5 flags AND 0x0F) (le_bytes 8 v) a (unat off) siz w 0
      (unit_offset a (unat off)) = Ok w'" "region_ok host mem r base lim w w'"
    "\<forall>i<8 * lim. region_bit mem base w' i \<longleftrightarrow>
       (if unat off + 0 \<le> i \<and> i < unat off + siz then bit_at (le_bytes 8 v) (i - unat off)
        else if 0 < siz \<and> (unat off + 0) div a \<le> i div a \<and> i div a \<le> (unat off + siz - 1) div a
          then update_rule (drop_bit 5 flags AND 0x0F) (region_bit mem base w i)
        else region_bit mem base w i)"
    by auto
  have written: "lai_write_opregion host eval w f (int_var v) = Ok w'"
    unfolding lai_write_opregion_field [OF assms(4-7)] by (rule w'(1))
  have bits: "region_bit mem base w' i \<longleftrightarrow>
      (if unat off \<le> i \<and> i < unat off + siz then bit v (i - unat off)
       else if unat off div a \<le> i div a \<and> i div a \<le> (unat off + siz - 1) div a
         then update_rule (drop_bit 5 flags AND 0x0F) (region_bit mem base w i)
       else region_bit mem base w i)"
    if i: "i < 8 * lim" for i
  proof -
    have "bit_at (le_bytes 8 v) (i - unat off) \<longleftrightarrow> bit v (i - unat off)" if "i < unat off + siz"
      using that assms(11) by (auto simp: le_bytes_bit dest: bit_imp_le_length)
    then show ?thesis using w'(3) [rule_format, OF i] assms(10) by simp
  qed
  from w'(2) obtain d where d: "w' = w\<lparr>dev := d\<rparr>" by (auto simp: region_ok_def)
  let ?z = "replicate ((siz + 7) div 8) (0 :: u8)"
  have "siz \<le> 8 * length ?z" by simp
  from mmio.read_loop [OF w'(2) a assms(13,12) this, of 0 "unit_offset a (unat off)"]
  obtain c where c: "field_read_loop (\<lambda>w. lai_perform_read host eval w (Some r)) a (unat off) siz w' ?z 0
      (unit_offset a (unat off)) = Ok (w', c)" "length c = length ?z"
    "\<forall>i. bit_at c i \<longleftrightarrow> i < siz \<and> region_bit mem base w' (unat off + i)"
    by (auto simp: bit_at_replicate0)
  have read: "lai_read_opregion host eval w' var0 f = Ok (w', int_var (le_word c))"
    by (rule lai_read_opregion_field [OF _ assms(5,6) _ assms(10,11) c(1)]) (simp_all add: d assms(4,7))
  have len: "length c \<le> 8" using c(2) assms(11) by simp
  have "le_word c = take_bit siz v"
  proof (rule bit_word_eqI)
    fix i :: nat
    have "i < siz \<Longrightarrow> region_bit mem base w' (unat off + i) \<longleftrightarrow> bit v i"
      using bits assms(12) by simp
    then show "bit (le_word c) i \<longleftrightarrow> bit (take_bit siz v) i"
      using c(3) by (auto simp: le_word_bit [OF len] bit_take_bit_iff)
  qed
  with written bits read show ?thesis by auto
qed

definition ram_host :: "(u64 \<Rightarrow> u8) host" where
  "ram_host = \<lparr>h_has = (\<lambda>_. True),
     h_read = (\<lambda>sp a addr d. (le_word (map (\<lambda>k. d (addr + of_nat k)) [0..<a div 8]), d)),
     h_write = (\<lambda>sp a addr v d x.
       if unat (x - addr) < a div 8 then ucast (drop_bit (8 * unat (x - addr)) v) else d x)\<rparr>"

lemma ram_host_like: "ram_like ram_host (\<lambda>d. d)"
proof -
  have bits: "bit (le_word (map (\<lambda>k. d (addr + of_nat k)) [0..<a div 8])) i \<longleftrightarrow>
      bit (d (addr + of_nat (i div 8))) (i mod 8)" if "a \<in> {8, 16, 32, 64}" "i < a" for a i addr d
  proof -
    have "a div 8 \<le> 8" "i div 8 < a div 8" using that by auto
    then show ?thesis by (simp add: le_word_bit bit_at_def)
  qed
  show ?thesis unfolding ram_like_def ram_host_def host.select_convs
    by (intro conjI ballI allI impI) (auto simp only: fst_conv snd_conv bits)
qed

definition demo_region_world :: "(u64 \<Rightarrow> u8) lai_world" where
  "demo_region_world = \<lparr>cells = [], mem_ok = (\<lambda>_. True), mem_clock = 0, mem_junk = (\<lambda>_. 0),
     nodes = [Some (node0\<lparr>n_type := LAI_NAMESPACE_ROOT\<rparr>),
       Some (node0\<lparr>n_type := LAI_NAMESPACE_OPREGION, n_data := NdRegion 0 0x1000 16 None\<rparr>),
       Some (node0\<lparr>n_type := LAI_NAMESPACE_FIELD, n_data := NdField (Some 1) 5 13 0x22 FxNone\<rparr>)],
     root_node = Some 0, ns_array = [], ns_capacity = 0, acpi_revision = 2, invocations = [],
     dev = (\<lambda>_. 0)\<rparr>"

definition demo_eval :: "'d evaluator" where
  "demo_eval w p = Fault"

lemma field_write_read_witness:
  "\<exists>w'. lai_write_opregion ram_host demo_eval demo_region_world 2 (int_var 0x1ABC) = Ok w' \<and>
    region_bit (\<lambda>d. d) 0x1000 w' 0 \<and> \<not> region_bit (\<lambda>d. d) 0x1000 w' 32 \<and>
    lai_read_opregion ram_host demo_eval w' var0 2 = Ok (w', int_var 0x1ABC)"
proof -
  have "\<exists>w'. lai_write_opregion ram_host demo_eval demo_region_world 2 (int_var 0x1ABC) = Ok w' \<and>
    (\<forall>i<8 * 16. region_bit (\<lambda>d. d) 0x1000 w' i \<longleftrightarrow>
       (if unat (5 :: u64) \<le> i \<and> i < unat (5 :: u64) + 13 then bit (0x1ABC :: u64) (i - unat (5 :: u64))
        else if unat (5 :: u64) div 16 \<le> i div 16 \<and> i div 16 \<le> (unat (5 :: u64) + 13 - 1) div 16
          then update_rule (drop_bit 5 (0x22 :: u8) AND 0x0F) (region_bit (\<lambda>d. d) 0x1000 demo_region_world i)
        else region_bit (\<lambda>d. d) 0x1000 demo_region_world i)) \<and>
    lai_read_opregion ram_host demo_eval w' var0 2 = Ok (w', int_var (take_bit 13 0x1ABC))"
    by (rule field_write_read [OF ram_host_like, where r = 1 and a = 16 and flags = "0x22" and ex = FxNone
        and n = "node0\<lparr>n_type := LAI_NAMESPACE_FIELD, n_data := NdField (Some 1) 5 13 0x22 FxNone\<rparr>"])
      (simp_all add: demo_region_world_def node_def node0_def region_data_def ACPI_OPREGION_MEMORY_def
        lai_calculate_access_width_def)
  moreover have "\<not> region_bit (\<lambda>d. d) 0x1000 demo_region_world i" for i
    by (simp add: region_bit_def demo_region_world_def)
  ultimately show ?thesis by (auto simp: update_rule_def)
qed

text \<open>
  \<open>lai_find_parent_root_of\<close> returns the bus it is given as the PCI root bus whenever that
  bus is not one: \<open>lai_check_device_pnp_id\<close> answers 1 for an id that does not match, and the
  test takes that for a match.
\<close>

theorem find_parent_root_takes_non_root:
  assumes "lai_check_device_pnp_id eval w bus (int_var 0x030AD041) = Ok (1, w')"
    and "bus < length (nodes w)"
  shows "lai_eisaid w var0 (bytes_of ''PNP0A03'' @ [0]) = Ok (w, int_var 0x030AD041) \<and>
    lai_find_parent_root_of eval w bus = Ok (Some bus, w')"
proof -
  have e3: "lai_eisaid w var0 (bytes_of ''PNP0A03'' @ [0]) = Ok (w, int_var 0x030AD041)"
    by (simp add: lai_eisaid_def eisaid_integer_def char_to_hex_def bswap32_def int_var_def Let_def)
  have e8: "\<exists>i. lai_eisaid w var0 (bytes_of ''PNP0A08'' @ [0]) = Ok (w, i)"
    by (simp add: lai_eisaid_def eisaid_integer_def char_to_hex_def Let_def)
  obtain k where "length (nodes w) = Suc k" using assms(2) by (cases "length (nodes w)") auto
  with e3 e8 assms(1) show ?thesis by (auto simp: lai_find_parent_root_of_def)
qed

lemma find_parent_root_takes_non_root_witness:
  "lai_eisaid demo_region_world var0 (bytes_of ''PNP0A03'' @ [0]) = Ok (demo_region_world, int_var 0x030AD041) \<and>
    lai_find_parent_root_of demo_eval demo_region_world 0 = Ok (Some 0, demo_region_world)"
proof -
  have child: "lai_ns_get_child demo_region_world 0 nm = Ok None" if "length nm = 4" for nm
    using that by (simp add: lai_ns_get_child_def lai_hash_string_4 demo_region_world_def node_def node0_def
        chain_find.simps lai_hashtable_chain_advance_def chain_scan.simps empty_hashtable_def)
  have n: "node demo_region_world 0 = Ok (node0\<lparr>n_type := LAI_NAMESPACE_ROOT\<rparr>)"
    by (simp add: demo_region_world_def node_def)
  have four: "(4 :: nat) = Suc (Suc (Suc (Suc 0)))" by simp
  have seg: "path_segment 4 (bytes_of ''_HID'' @ [0]) = Ok (bytes_of ''_HID'', [0])"
    "path_segment 4 (bytes_of ''_CID'' @ [0]) = Ok (bytes_of ''_CID'', [0])"
    unfolding four by (simp_all add: lai_is_name_def)
  have path: "lai_resolve_path demo_region_world (Some 0) (bytes_of ''_HID'' @ [0]) = Ok None"
    "lai_resolve_path demo_region_world (Some 0) (bytes_of ''_CID'' @ [0]) = Ok None"
    using seg child by (simp_all add: lai_resolve_path_def walk_path.simps)
  have "lai_check_device_pnp_id demo_eval demo_region_world 0 (int_var 0x030AD041) = Ok (1, demo_region_world)"
    using path by (simp add: lai_check_device_pnp_id_def lai_var_finalize_var0 var0_def [symmetric])
      (simp add: var0_def)
  then show ?thesis
    by (rule find_parent_root_takes_non_root) (simp add: demo_region_world_def)
qed

text \<open>
  A field that fills a 64-bit access unit shifts by 64 for its mask, before the first access.
\<close>

theorem qword_unit_fault:
  assumes "node w f = Ok n" and "n_type n = LAI_NAMESPACE_FIELD"
    and "n_data n = NdField r off 64 flags ex" and "flags AND 0xF = 4" and "unat off mod 64 = 0"
  shows "lai_read_opregion host eval w var0 f = Fault"
  using assms
  by (simp add: lai_read_opregion_def Let_def field_fuel_def field_ops_Suc lai_read_field_def field_bytes_def
      lai_read_field_internal_def lai_calculate_access_width_def field_read_loop.simps [of _ _ _ 64]
      del: field_ops.simps)

text \<open>An index field has no region; with \<open>AnyAcc\<close> its region is read all the same.\<close>

theorem index_field_any_access_fault:
  assumes "node w f = Ok n" and "n_type n = LAI_NAMESPACE_INDEXFIELD"
    and "n_data n = NdField None off siz flags ex" and "flags AND 0xF = 0" and "0 < siz" and "siz \<le> 64"
  shows "lai_read_opregion host eval w var0 f = Fault"
proof -
  have "(siz + 7) div 8 \<le> 8" "0 < (siz + 7) div 8" using assms(5,6) by linarith+
  with assms show ?thesis
    by (simp add: lai_read_opregion_def Let_def field_fuel_def field_ops_Suc lai_read_field_def field_bytes_def
        lai_read_field_internal_def lai_calculate_access_width_def region_data_def del: field_ops.simps)
qed

end
