(* ===== verification/Lai_Sync.thy ===== *)
theory Lai_Sync
  imports Prelude
begin

text \<open>
  The mutexes and events of \<open>lai/core/exec_impl.h\<close>, on the word \<open>val\<close> of
  \<open>struct lai_sync_state\<close>.

  One iteration of a loop makes at most one atomic access to \<open>val\<close>; \<open>lock_iter\<close> and its
  siblings are these iterations, on \<open>val\<close> and the local copy \<open>v\<close>.  \<open>mutex_step\<close> interleaves any
  number of threads; the atomic accesses are taken to be sequentially consistent on the one
  word.  \<open>laihost_sync_wait\<close> may return at any time, with 0 (woken, or \<open>val\<close> was not the
  value expected) or not (deadline): what the host does with the wait queue is not part of the
  model.  \<open>has_wait\<close> and \<open>has_wake\<close> say whether the host defines the two functions.
\<close>

subsection \<open>Mutexes\<close>

definition LAI_MUTEX_BITS :: u32 where "LAI_MUTEX_BITS = 3"
definition LAI_MUTEX_LOCKED :: u32 where "LAI_MUTEX_LOCKED = 1"
definition LAI_MUTEX_CONTENDED :: u32 where "LAI_MUTEX_CONTENDED = 2"

lemmas mutex_bits = LAI_MUTEX_BITS_def LAI_MUTEX_LOCKED_def LAI_MUTEX_CONTENDED_def

text \<open>What an iteration ends with: the lock is taken, the loop goes on with \<open>v\<close>, or the thread
  calls \<open>laihost_sync_wait\<close> with the value given.\<close>

datatype sync_next = SDone | SAgain u32 | SBlock u32 u32

definition lock_iter :: "bool \<Rightarrow> u32 \<Rightarrow> u32 \<Rightarrow> (u32 \<times> sync_next) outcome" where
  "lock_iter has_wait val v =
     ensure (v AND NOT LAI_MUTEX_BITS = 0) (
     let block = (\<lambda>val. ensure has_wait (Ok (val, SBlock v (LAI_MUTEX_LOCKED OR LAI_MUTEX_CONTENDED)))) in
     if v AND LAI_MUTEX_LOCKED = 0 then
       (if val = v then Ok (LAI_MUTEX_LOCKED, SDone) else Ok (val, SAgain val))
     else if v AND LAI_MUTEX_CONTENDED = 0 then
       (if val = v then block (LAI_MUTEX_LOCKED OR LAI_MUTEX_CONTENDED) else Ok (val, SAgain val))
     else block val)"

text \<open>\<open>lai_mutex_unlock\<close>: the new value, and whether a waiter is woken.\<close>

definition lai_mutex_unlock :: "bool \<Rightarrow> u32 \<Rightarrow> (u32 \<times> bool) outcome" where
  "lai_mutex_unlock has_wake val =
     ensure (val AND NOT LAI_MUTEX_BITS = 0) (
     ensure (val AND LAI_MUTEX_LOCKED \<noteq> 0) (
     if val AND LAI_MUTEX_CONTENDED \<noteq> 0 then ensure has_wake (Ok (0, True)) else Ok (0, False)))"

text \<open>Where a thread is: outside, at the top of the loop, waiting, or holding the mutex.\<close>

datatype mutex_pc = MOut | MLoop u32 | MWait u32 | MHold | MTimeout

record mutex_sys =
  m_val :: u32
  m_pc :: "nat \<Rightarrow> mutex_pc"

definition mutex_init :: mutex_sys where
  "mutex_init = \<lparr>m_val = 0, m_pc = (\<lambda>_. MOut)\<rparr>"

fun pc_after :: "sync_next \<Rightarrow> mutex_pc" where
  "pc_after SDone = MHold"
| "pc_after (SAgain v) = MLoop v"
| "pc_after (SBlock v expected) = MWait v"

inductive mutex_step :: "mutex_sys \<Rightarrow> mutex_sys \<Rightarrow> bool" where
  call: "m_pc s i \<in> {MOut, MTimeout} \<Longrightarrow> mutex_step s (s\<lparr>m_pc := (m_pc s)(i := MLoop (m_val s))\<rparr>)"
| iter: "m_pc s i = MLoop v \<Longrightarrow> lock_iter True (m_val s) v = Ok (x, nx) \<Longrightarrow>
    mutex_step s (s\<lparr>m_val := x, m_pc := (m_pc s)(i := pc_after nx)\<rparr>)"
| woken: "m_pc s i = MWait v \<Longrightarrow> mutex_step s (s\<lparr>m_pc := (m_pc s)(i := MLoop v)\<rparr>)"
| deadline: "m_pc s i = MWait v \<Longrightarrow> mutex_step s (s\<lparr>m_pc := (m_pc s)(i := MTimeout)\<rparr>)"
| unlock: "m_pc s i = MHold \<Longrightarrow> lai_mutex_unlock True (m_val s) = Ok (x, wake) \<Longrightarrow>
    mutex_step s (s\<lparr>m_val := x, m_pc := (m_pc s)(i := MOut)\<rparr>)"

inductive_cases mutex_stepE: "mutex_step s t"

inductive mutex_reach :: "mutex_sys \<Rightarrow> mutex_sys \<Rightarrow> bool" for s where
  here: "mutex_reach s s"
| next': "mutex_reach s t \<Longrightarrow> mutex_step t u \<Longrightarrow> mutex_reach s u"

fun local_of :: "mutex_pc \<Rightarrow> u32 option" where
  "local_of (MLoop v) = Some v"
| "local_of (MWait v) = Some v"
| "local_of _ = None"

text \<open>
  The word is one of three values, and so is every local copy; it is not 0 exactly while one
  thread holds the mutex.
\<close>

definition mutex_inv :: "mutex_sys \<Rightarrow> bool" where
  "mutex_inv s \<longleftrightarrow> m_val s \<in> {0, 1, 3} \<and>
     (\<forall>i v. local_of (m_pc s i) = Some v \<longrightarrow> v \<in> {0, 1, 3}) \<and>
     (if m_val s = 0 then \<forall>i. m_pc s i \<noteq> MHold else \<exists>h. \<forall>i. m_pc s i = MHold \<longleftrightarrow> i = h)"

lemma lock_iter_cases:
  assumes "v \<in> {0, 1, 3}" and "x \<in> {0, 1, 3}"
  shows "lock_iter True x v =
    (if v = 0 then if x = 0 then Ok (1, SDone) else Ok (x, SAgain x)
     else if v = 1 then if x = 1 then Ok (3, SBlock 1 3) else Ok (x, SAgain x)
     else Ok (x, SBlock 3 3))"
  using assms by (auto simp: lock_iter_def mutex_bits)

lemma unlock_cases:
  "lai_mutex_unlock True 0 = Panic" "lai_mutex_unlock True 1 = Ok (0, False)"
  "lai_mutex_unlock True 3 = Ok (0, True)"
  by (simp_all add: lai_mutex_unlock_def mutex_bits)

lemma mutex_inv_init: "mutex_inv mutex_init"
  by (simp add: mutex_inv_def mutex_init_def)

lemma mutex_invD:
  assumes "mutex_inv s"
  shows "m_val s \<in> {0, 1, 3}" and "local_of (m_pc s i) = Some v \<Longrightarrow> v \<in> {0, 1, 3}"
    and "m_val s = 0 \<Longrightarrow> m_pc s i \<noteq> MHold" and "m_pc s i = MHold \<Longrightarrow> m_pc s j = MHold \<Longrightarrow> i = j"
  using assms unfolding mutex_inv_def by (blast, blast, metis, metis)

text \<open>Moves of one thread that neither take nor release the mutex.\<close>

lemma mutex_inv_move:
  assumes inv: "mutex_inv s" and "m_pc s i \<noteq> MHold" and "p \<noteq> MHold"
    and "\<And>v. local_of p = Some v \<Longrightarrow> v \<in> {0, 1, 3}" and "x \<in> {0, 1, 3}" and "x = 0 \<longleftrightarrow> m_val s = 0"
  shows "mutex_inv (s\<lparr>m_val := x, m_pc := (m_pc s)(i := p)\<rparr>)"
proof -
  let ?t = "s\<lparr>m_val := x, m_pc := (m_pc s)(i := p)\<rparr>"
  have hold: "m_pc ?t j = MHold \<longleftrightarrow> m_pc s j = MHold" for j using assms(2,3) by simp
  have val: "m_val ?t = x" by simp
  have loc: "local_of (m_pc ?t j) = Some v \<Longrightarrow> v \<in> {0, 1, 3}" for j v
    using assms(4) mutex_invD(2) [OF inv, of j v] by (cases "j = i") simp_all
  show ?thesis
    using inv loc assms(5) unfolding mutex_inv_def hold val assms(6) by blast
qed

lemma mutex_step_inv:
  assumes "mutex_step s t" and inv: "mutex_inv s"
  shows "mutex_inv t"
  using assms(1)
proof cases
  case (call i)
  have "mutex_inv (s\<lparr>m_val := m_val s, m_pc := (m_pc s)(i := MLoop (m_val s))\<rparr>)"
    by (rule mutex_inv_move [OF inv]) (use call(2) mutex_invD(1) [OF inv] in auto)
  then show ?thesis by (simp add: call(1))
next
  case (iter i v x nx)
  have v: "v \<in> {0, 1, 3}" using mutex_invD(2) [OF inv, of i v] iter(2) by simp
  have val: "m_val s \<in> {0, 1, 3}" by (rule mutex_invD(1) [OF inv])
  show ?thesis
  proof (cases "v = 0 \<and> m_val s = 0")
    case True
    then have new: "x = 1" "nx = SDone" using iter(3) lock_iter_cases [OF v val] by simp_all
    have "\<forall>j. m_pc s j \<noteq> MHold" using mutex_invD(3) [OF inv] True by blast
    then have "\<forall>j. ((m_pc s)(i := MHold)) j = MHold \<longleftrightarrow> j = i" by simp
    moreover have "\<forall>j u. local_of (((m_pc s)(i := MHold)) j) = Some u \<longrightarrow> u \<in> {0, 1, 3}"
      using mutex_invD(2) [OF inv] by (metis fun_upd_apply local_of.simps(4) option.distinct(1))
    ultimately show ?thesis unfolding iter(1) mutex_inv_def by (auto simp: new)
  next
    case False
    then have "nx \<noteq> SDone \<and> x \<in> {0, 1, 3} \<and> (x = 0 \<longleftrightarrow> m_val s = 0) \<and>
        (\<forall>u. local_of (pc_after nx) = Some u \<longrightarrow> u \<in> {0, 1, 3})"
      using iter(3) lock_iter_cases [OF v val] v val by (auto split: if_splits)
    then show ?thesis
      unfolding iter(1) by (intro mutex_inv_move [OF inv]) (use iter(2) in \<open>cases nx; auto\<close>)+
  qed
next
  case (woken i v)
  have "mutex_inv (s\<lparr>m_val := m_val s, m_pc := (m_pc s)(i := MLoop v)\<rparr>)"
    by (rule mutex_inv_move [OF inv])
      (use woken(2) mutex_invD(1) [OF inv] mutex_invD(2) [OF inv, of i v] in auto)
  then show ?thesis by (simp add: woken(1))
next
  case (deadline i v)
  have "mutex_inv (s\<lparr>m_val := m_val s, m_pc := (m_pc s)(i := MTimeout)\<rparr>)"
    by (rule mutex_inv_move [OF inv]) (use deadline(2) mutex_invD(1) [OF inv] in auto)
  then show ?thesis by (simp add: deadline(1))
next
  case (unlock i x wake)
  have "m_val s \<noteq> 0" using mutex_invD(3) [OF inv] unlock(2) by blast
  then have x: "x = 0" using mutex_invD(1) [OF inv] unlock(3) unlock_cases by auto
  have "((m_pc s)(i := MOut)) j \<noteq> MHold" for j using mutex_invD(4) [OF inv unlock(2), of j] by auto
  moreover have "\<forall>j u. local_of (((m_pc s)(i := MOut)) j) = Some u \<longrightarrow> u \<in> {0, 1, 3}"
    using mutex_invD(2) [OF inv] by (metis fun_upd_apply local_of.simps(3) option.distinct(1))
  ultimately show ?thesis unfolding unlock(1) mutex_inv_def by (auto simp: x)
qed

lemma mutex_reach_inv: "mutex_reach s t \<Longrightarrow> mutex_inv s \<Longrightarrow> mutex_inv t"
  by (induction rule: mutex_reach.induct) (auto intro: mutex_step_inv)

text \<open>
  C16. The mutex excludes: in every state that any interleaving of any number of threads can
  reach, at most one thread holds the mutex, and neither an assertion of the lock loop of a
  waiting thread nor one of the unlock of the holder can fail.
\<close>

theorem mutex_safe:
  assumes "mutex_reach mutex_init s"
  shows "(m_pc s i = MHold \<and> m_pc s j = MHold \<longrightarrow> i = j) \<and>
    (m_pc s i = MHold \<longrightarrow> lai_mutex_unlock True (m_val s) \<noteq> Panic) \<and>
    (m_pc s i = MLoop v \<longrightarrow> lock_iter True (m_val s) v \<noteq> Panic)"
proof -
  have inv: "mutex_inv s" by (rule mutex_reach_inv [OF assms mutex_inv_init])
  have val: "m_val s \<in> {0, 1, 3}" by (rule mutex_invD(1) [OF inv])
  have "lock_iter True (m_val s) v \<noteq> Panic" if "m_pc s i = MLoop v"
    using lock_iter_cases [OF mutex_invD(2) [OF inv, of i v] val] that by simp
  moreover have "lai_mutex_unlock True (m_val s) \<noteq> Panic" if "m_pc s i = MHold"
    using mutex_invD(3) [OF inv, of i] that val unlock_cases by auto
  ultimately show ?thesis using mutex_invD(4) [OF inv, of i j] by blast
qed

text \<open>
  What a step means to the caller: \<open>lai_mutex_lock\<close> of thread \<open>i\<close> returns 0, \<open>lai_mutex_unlock\<close> of thread \<open>i\<close>
  returns, or thread \<open>i\<close> does something nobody sees.
\<close>

datatype lock_event = Acquired nat | Released nat | Quiet nat

inductive mutex_does :: "mutex_sys \<Rightarrow> lock_event \<Rightarrow> mutex_sys \<Rightarrow> bool" where
  does_call: "m_pc s i \<in> {MOut, MTimeout} \<Longrightarrow> mutex_does s (Quiet i) (s\<lparr>m_pc := (m_pc s)(i := MLoop (m_val s))\<rparr>)"
| does_iter: "m_pc s i = MLoop v \<Longrightarrow> lock_iter True (m_val s) v = Ok (x, nx) \<Longrightarrow>
    mutex_does s (if nx = SDone then Acquired i else Quiet i) (s\<lparr>m_val := x, m_pc := (m_pc s)(i := pc_after nx)\<rparr>)"
| does_woken: "m_pc s i = MWait v \<Longrightarrow> mutex_does s (Quiet i) (s\<lparr>m_pc := (m_pc s)(i := MLoop v)\<rparr>)"
| does_deadline: "m_pc s i = MWait v \<Longrightarrow> mutex_does s (Quiet i) (s\<lparr>m_pc := (m_pc s)(i := MTimeout)\<rparr>)"
| does_unlock: "m_pc s i = MHold \<Longrightarrow> lai_mutex_unlock True (m_val s) = Ok (x, wake) \<Longrightarrow>
    mutex_does s (Released i) (s\<lparr>m_val := x, m_pc := (m_pc s)(i := MOut)\<rparr>)"

lemma mutex_does_step: "mutex_step s t \<longleftrightarrow> (\<exists>e. mutex_does s e t)"
proof
  assume "mutex_step s t"
  then show "\<exists>e. mutex_does s e t" by cases (blast intro: mutex_does.intros)+
next
  assume "\<exists>e. mutex_does s e t"
  then obtain e where "mutex_does s e t" ..
  then show "mutex_step s t" by cases (auto intro: mutex_step.intros)
qed

text \<open>
  The contract of a lock: an owner at most, which becomes the thread that acquires it when there is none, and
  which alone can give it up.
\<close>

inductive lock_spec :: "nat option \<Rightarrow> lock_event \<Rightarrow> nat option \<Rightarrow> bool" where
  acquire: "lock_spec None (Acquired i) (Some i)"
| release: "lock_spec (Some i) (Released i) None"
| quiet: "lock_spec a (Quiet i) a"

definition owner_is :: "mutex_sys \<Rightarrow> nat option \<Rightarrow> bool" where
  "owner_is s a \<longleftrightarrow> (\<forall>i. m_pc s i = MHold \<longleftrightarrow> a = Some i)"

text \<open>The word and the owner.\<close>

lemma owner_word:
  assumes "mutex_inv s" and "owner_is s a"
  shows "m_val s = 0 \<longleftrightarrow> a = None"
  using assms unfolding mutex_inv_def owner_is_def by (metis not_None_eq)

text \<open>A move of a thread that did not and does not hold the mutex keeps the owner.\<close>

lemma owner_kept: "owner_is s a \<Longrightarrow> m_pc s i \<noteq> MHold \<Longrightarrow> p \<noteq> MHold \<Longrightarrow> m_pc t = (m_pc s)(i := p) \<Longrightarrow> owner_is t a"
  by (auto simp: owner_is_def)

text \<open>
  C17. The loops implement a lock: from a reachable state with a given owner, each step of a thread is one step of
  the abstract lock by that thread, where a return of \<open>lai_mutex_lock\<close> with 0 is an acquire, possible only
  without an owner, a return of \<open>lai_mutex_unlock\<close> is a release, and everything else keeps the owner.  The
  word is 0 exactly while there is none, so that the exchange of a thread that has read 0 succeeds then.
\<close>

theorem mutex_refines:
  assumes reach: "mutex_reach mutex_init s" and does: "mutex_does s e t" and own: "owner_is s a"
  shows "(\<exists>b. owner_is t b \<and> lock_spec a e b \<and> (m_val t = 0 \<longleftrightarrow> b = None)) \<and>
    (\<forall>i. a = None \<and> m_pc s i = MLoop 0 \<longrightarrow> (\<exists>u. mutex_does s (Acquired i) u))"
proof -
  have inv: "mutex_inv s" by (rule mutex_reach_inv [OF reach mutex_inv_init])
  have inv': "mutex_inv t" using mutex_step_inv [OF _ inv] does mutex_does_step by blast
  have "\<exists>b. owner_is t b \<and> lock_spec a e b" using does
  proof cases
    case (does_iter i v x nx)
    show ?thesis
    proof (cases "nx = SDone")
      case True
      have v: "v \<in> {0, 1, 3}" using mutex_invD(2) [OF inv, of i v] does_iter(3) by simp
      have "m_val s = 0"
        using does_iter(4) True lock_iter_cases [OF v mutex_invD(1) [OF inv]] by (auto split: if_splits)
      then have "a = None" using owner_word [OF inv own] by simp
      then have "owner_is t (Some i)" using own does_iter(2) True by (auto simp: owner_is_def)
      then show ?thesis using \<open>a = None\<close> does_iter(1) True by (auto intro: lock_spec.acquire)
    next
      case False
      have "owner_is t a"
        by (rule owner_kept [OF own, of i "pc_after nx"]) (use does_iter False in \<open>cases nx; simp\<close>)+
      then show ?thesis using does_iter(1) False by (auto intro: lock_spec.quiet)
    qed
  next
    case (does_unlock i x wake)
    have "a = Some i" using own does_unlock(3) by (simp add: owner_is_def)
    then have "owner_is t None" using own does_unlock(2) by (auto simp: owner_is_def)
    then show ?thesis using does_unlock(1) \<open>a = Some i\<close> by (auto intro: lock_spec.release)
  next
    case (does_call i)
    have "owner_is t a" by (rule owner_kept [OF own, of i "MLoop (m_val s)"]) (use does_call in auto)
    then show ?thesis using does_call(1) by (auto intro: lock_spec.quiet)
  next
    case (does_woken i v)
    have "owner_is t a" by (rule owner_kept [OF own, of i "MLoop v"]) (use does_woken in auto)
    then show ?thesis using does_woken(1) by (auto intro: lock_spec.quiet)
  next
    case (does_deadline i v)
    have "owner_is t a" by (rule owner_kept [OF own, of i MTimeout]) (use does_deadline in auto)
    then show ?thesis using does_deadline(1) by (auto intro: lock_spec.quiet)
  qed
  then have "\<exists>b. owner_is t b \<and> lock_spec a e b \<and> (m_val t = 0 \<longleftrightarrow> b = None)" using owner_word [OF inv'] by blast
  moreover have "\<exists>u. mutex_does s (Acquired i) u" if "a = None" "m_pc s i = MLoop 0" for i
  proof -
    have "lock_iter True (m_val s) 0 = Ok (1, SDone)"
      using owner_word [OF inv own] that(1) lock_iter_cases [of 0 0] by simp
    from does_iter [OF that(2) this] show ?thesis by auto
  qed
  ultimately show ?thesis by blast
qed

subsubsection \<open>A waiter that is not woken up\<close>

text \<open>The copy \<open>v\<close> is only loaded again by a failed exchange: a thread that read the contended
  value goes from waiting to waiting.\<close>

text \<open>
  A thread whose local copy is the contended value never acquires the mutex in this call:
  whatever it and the others do, it stays in the loop with the same copy or leaves by its
  deadline, even when the mutex is free and nobody else wants it.
\<close>

theorem contended_waiter_stuck:
  assumes "mutex_step s t" and "m_pc s i \<in> {MLoop 3, MWait 3}"
  shows "m_pc t i \<in> {MLoop 3, MWait 3, MTimeout}"
  using assms by cases (auto simp: lock_iter_def mutex_bits split: if_splits)

definition lost_state :: mutex_sys where
  "lost_state = \<lparr>m_val = 0, m_pc = (\<lambda>_. MOut)(0 := MOut, 1 := MWait 1, 2 := MWait 3)\<rparr>"

lemma upd_order: "f(0 := a, 1 := b, 2 := c) = ((f(1 := b))(2 := c))(0 := a)" for f :: "nat \<Rightarrow> 'a"
  by (simp add: fun_eq_iff)

lemma lock_run:
  assumes "m_pc s i \<in> {MOut, MTimeout}" and "m_val s \<in> {0, 1, 3}"
    and "lock_iter True (m_val s) (m_val s) = Ok (x, nx)"
  shows "mutex_reach mutex_init s \<Longrightarrow>
    mutex_reach mutex_init (s\<lparr>m_val := x, m_pc := (m_pc s)(i := pc_after nx)\<rparr>)"
proof -
  let ?u = "s\<lparr>m_pc := (m_pc s)(i := MLoop (m_val s))\<rparr>"
  assume "mutex_reach mutex_init s"
  then have u: "mutex_reach mutex_init ?u" by (rule next') (rule mutex_step.call [OF assms(1)])
  have "mutex_step ?u (?u\<lparr>m_val := x, m_pc := (m_pc ?u)(i := pc_after nx)\<rparr>)"
    by (rule mutex_step.iter) (use assms(3) in simp_all)
  with u have "mutex_reach mutex_init (?u\<lparr>m_val := x, m_pc := (m_pc ?u)(i := pc_after nx)\<rparr>)"
    by (rule next')
  then show ?thesis by simp
qed

definition held_state :: mutex_sys where
  "held_state = \<lparr>m_val = 1, m_pc = (\<lambda>_. MOut)(0 := MHold)\<rparr>"

lemma lock_iter_values:
  "lock_iter True 0 0 = Ok (1, SDone)" "lock_iter True 1 1 = Ok (3, SBlock 1 3)"
  "lock_iter True 3 3 = Ok (3, SBlock 3 3)"
  by (simp_all add: lock_iter_def mutex_bits)

lemma held_state_reachable: "mutex_reach mutex_init held_state"
  using lock_run [of mutex_init 0 1 SDone] lock_iter_values mutex_reach.here
  by (simp add: mutex_init_def held_state_def)

lemma lost_state_reachable: "mutex_reach mutex_init lost_state"
proof -
  let ?b = "\<lparr>m_val = 3, m_pc = (\<lambda>_. MOut)(0 := MHold, 1 := MWait 1)\<rparr>"
  let ?c = "\<lparr>m_val = 3, m_pc = (\<lambda>_. MOut)(0 := MHold, 1 := MWait 1, 2 := MWait 3)\<rparr>"
  have b: "mutex_reach mutex_init ?b"
    using lock_run [of held_state 1 3 "SBlock 1 3"] lock_iter_values held_state_reachable
    by (simp add: held_state_def)
  have c: "mutex_reach mutex_init ?c"
    using lock_run [of ?b 2 3 "SBlock 3 3"] lock_iter_values b by simp
  have "mutex_step ?c (?c\<lparr>m_val := 0, m_pc := (m_pc ?c)(0 := MOut)\<rparr>)"
    by (rule mutex_step.unlock [where wake = True]) (simp_all add: unlock_cases)
  then have "mutex_step ?c lost_state" by (simp add: lost_state_def fun_upd_twist)
  then show ?thesis by (rule next' [OF c])
qed

theorem mutex_safe_witness:
  "m_pc held_state 0 = MHold \<and> lai_mutex_unlock True (m_val held_state) \<noteq> Panic"
  using mutex_safe [OF held_state_reachable, of 0 0 0] by (simp add: held_state_def)

theorem mutex_refines_witness:
  "\<exists>t b. mutex_does held_state (Released 0) t \<and> owner_is t b \<and> lock_spec (Some 0) (Released 0) b \<and> m_val t = 0"
proof -
  let ?t = "held_state\<lparr>m_val := 0, m_pc := (m_pc held_state)(0 := MOut)\<rparr>"
  have own: "owner_is held_state (Some 0)" by (simp add: owner_is_def held_state_def)
  have does: "mutex_does held_state (Released 0) ?t"
    by (rule does_unlock [where wake = False]) (simp_all add: held_state_def unlock_cases)
  obtain b where "owner_is ?t b" "lock_spec (Some 0) (Released 0) b"
    using mutex_refines [OF held_state_reachable does own] by blast
  moreover have "m_val ?t = 0" by simp
  ultimately show ?thesis using does by blast
qed

theorem contended_waiter_stuck_witness:
  "mutex_reach mutex_init lost_state \<and> m_val lost_state = 0 \<and> (\<forall>i. m_pc lost_state i \<noteq> MHold) \<and>
    m_pc lost_state 2 = MWait 3 \<and>
    (\<exists>t. mutex_step lost_state t \<and> m_pc t 2 \<in> {MLoop 3, MWait 3, MTimeout})"
proof -
  have w: "m_pc lost_state 2 = MWait 3" by (simp add: lost_state_def)
  have step: "mutex_step lost_state (lost_state\<lparr>m_pc := (m_pc lost_state)(2 := MLoop 3)\<rparr>)"
    by (rule mutex_step.woken [OF w])
  have "\<exists>t. mutex_step lost_state t \<and> m_pc t 2 \<in> {MLoop 3, MWait 3, MTimeout}"
    using contended_waiter_stuck [OF step, of 2] w step by blast
  then show ?thesis using lost_state_reachable w by (simp add: lost_state_def)
qed

subsection \<open>Events\<close>

definition LAI_EVENT_COUNT :: u32 where "LAI_EVENT_COUNT = 0x7FFFFFFF"
definition LAI_EVENT_WAITERS :: u32 where "LAI_EVENT_WAITERS = 0x80000000"

text \<open>The value given to \<open>laihost_sync_wait\<close> is the one of a mutex here too.\<close>

definition event_wait_iter :: "bool \<Rightarrow> u32 \<Rightarrow> u32 \<Rightarrow> (u32 \<times> sync_next) outcome" where
  "event_wait_iter has_wait val v =
     (let block = (\<lambda>val. ensure has_wait (Ok (val, SBlock v (LAI_MUTEX_LOCKED OR LAI_MUTEX_CONTENDED)))) in
      if v AND LAI_EVENT_COUNT \<noteq> 0 then
        ensure (v AND LAI_EVENT_WAITERS = 0) (
        if val = v then Ok (v - 1, SDone) else Ok (val, SAgain val))
      else if v AND LAI_EVENT_WAITERS = 0 then
        (if val = v then block LAI_EVENT_WAITERS else Ok (val, SAgain val))
      else block val)"

definition event_signal_iter :: "bool \<Rightarrow> u32 \<Rightarrow> u32 \<Rightarrow> (u32 \<times> sync_next) outcome" where
  "event_signal_iter has_wake val v =
     (if v AND LAI_EVENT_WAITERS = 0 then
        ensure ((v + 1) AND NOT LAI_EVENT_COUNT = 0) (
        if val = v then Ok (v + 1, SDone) else Ok (val, SAgain val))
      else
        ensure (v AND LAI_EVENT_COUNT = 0) (
        if val = v then ensure has_wake (Ok (1, SDone)) else Ok (val, SAgain val)))"

definition event_reset_iter :: "u32 \<Rightarrow> u32 \<Rightarrow> (u32 \<times> sync_next) outcome" where
  "event_reset_iter val v =
     (if v AND LAI_EVENT_WAITERS = 0 then
        if v AND LAI_EVENT_COUNT \<noteq> 0 then
          (if val = v then Ok (0, SDone) else Ok (val, SAgain val))
        else Ok (val, SDone)
      else ensure (v AND LAI_EVENT_COUNT = 0) (Ok (val, SDone)))"

text \<open>A word stands for a count, or for no count and somebody waiting.\<close>

definition ev_ok :: "u32 \<Rightarrow> bool" where
  "ev_ok v \<longleftrightarrow> unat v < 2 ^ 31 \<or> v = LAI_EVENT_WAITERS"

definition ev_count :: "u32 \<Rightarrow> nat" where
  "ev_count v = (if v = LAI_EVENT_WAITERS then 0 else unat v)"

lemma event_word:
  assumes "ev_ok v"
  shows "v AND LAI_EVENT_WAITERS = 0 \<longleftrightarrow> v \<noteq> LAI_EVENT_WAITERS"
    and "v AND LAI_EVENT_COUNT = (if v = LAI_EVENT_WAITERS then 0 else v)"
proof -
  have bw: "bit LAI_EVENT_WAITERS n \<longleftrightarrow> n = 31" for n
  proof -
    have "LAI_EVENT_WAITERS = push_bit 31 1" by (simp add: LAI_EVENT_WAITERS_def)
    then have "bit LAI_EVENT_WAITERS n \<longleftrightarrow> bit (push_bit 31 (1 :: u32)) n" by (rule arg_cong)
    also have "\<dots> \<longleftrightarrow> n = 31" unfolding bit_push_bit_iff bit_1_iff by auto
    finally show ?thesis .
  qed
  have c: "LAI_EVENT_COUNT = mask 31"
    by (simp add: LAI_EVENT_COUNT_def mask_eq_exp_minus_1)
  have small: "take_bit 31 v = v" if "unat v < 2 ^ 31"
    using that by (metis unsigned_take_bit_eq take_bit_nat_eq_self unsigned_word_eqI)
  have b31: "\<not> bit v 31" if "unat v < 2 ^ 31"
    using small [OF that] by (metis bit_take_bit_iff less_irrefl)
  have "v AND LAI_EVENT_WAITERS = (if bit v 31 then LAI_EVENT_WAITERS else 0)"
    by (rule bit_word_eqI) (auto simp: bit_and_iff bw)
  moreover have "LAI_EVENT_WAITERS \<noteq> 0" by (simp add: LAI_EVENT_WAITERS_def)
  moreover have "bit v 31 \<longleftrightarrow> v = LAI_EVENT_WAITERS" using assms b31 bw by (auto simp: ev_ok_def)
  ultimately show "v AND LAI_EVENT_WAITERS = 0 \<longleftrightarrow> v \<noteq> LAI_EVENT_WAITERS" by simp
  have "LAI_EVENT_WAITERS AND mask 31 = 0"
    by (rule bit_word_eqI) (auto simp: bit_and_iff bw bit_mask_iff)
  then show "v AND LAI_EVENT_COUNT = (if v = LAI_EVENT_WAITERS then 0 else v)"
    using assms small unfolding ev_ok_def c by (auto simp: take_bit_eq_mask [symmetric])
qed

lemma ev_small: "ev_ok v \<Longrightarrow> v \<noteq> LAI_EVENT_WAITERS \<Longrightarrow> unat v < 2 ^ 31"
  by (simp add: ev_ok_def)

lemma signal_room:
  assumes "ev_ok v" and "v \<noteq> LAI_EVENT_WAITERS"
  shows "(v + 1) AND NOT LAI_EVENT_COUNT = 0 \<longleftrightarrow> unat v + 1 < 2 ^ 31"
proof -
  have u: "unat (v + 1) = unat v + 1"
    using ev_small [OF assms] by (simp add: unat_word_ariths)
  have c: "LAI_EVENT_COUNT = mask 31"
    by (simp add: LAI_EVENT_COUNT_def mask_eq_exp_minus_1)
  have "(v + 1) AND NOT (mask 31) = 0 \<longleftrightarrow> take_bit 31 (v + 1) = v + 1"
  proof
    assume z: "(v + 1) AND NOT (mask 31) = 0"
    show "take_bit 31 (v + 1) = v + 1"
    proof (rule bit_word_eqI)
      fix n assume "n < LENGTH(32)"
      have "\<not> bit ((v + 1) AND NOT (mask 31)) n" using z by simp
      then show "bit (take_bit 31 (v + 1)) n \<longleftrightarrow> bit (v + 1) n"
        using \<open>n < LENGTH(32)\<close> by (auto simp: bit_and_iff bit_not_iff bit_mask_iff bit_take_bit_iff)
    qed
  next
    assume "take_bit 31 (v + 1) = v + 1"
    then have "(v + 1) AND NOT (mask 31) = take_bit 31 (v + 1) AND NOT (mask 31)" by simp
    also have "\<dots> = 0"
      by (rule bit_word_eqI) (auto simp: bit_and_iff bit_not_iff bit_mask_iff bit_take_bit_iff)
    finally show "(v + 1) AND NOT (mask 31) = 0" .
  qed
  also have "\<dots> \<longleftrightarrow> unat (take_bit 31 (v + 1)) = unat (v + 1)"
    by (simp only: word_unat_eq_iff)
  also have "\<dots> \<longleftrightarrow> take_bit 31 (unat (v + 1)) = unat (v + 1)"
    by (simp only: unsigned_take_bit_eq)
  also have "\<dots> \<longleftrightarrow> unat v + 1 < 2 ^ 31" unfolding u by (simp only: take_bit_nat_eq_self_iff)
  finally show ?thesis by (simp only: c)
qed

lemma event_wait_count:
  assumes val: "ev_ok val" and v: "ev_ok v"
  shows "\<exists>x nx. event_wait_iter True val v = Ok (x, nx) \<and> ev_ok x \<and>
    (if nx = SDone then ev_count val = Suc (ev_count x) else ev_count x = ev_count val)"
proof (cases "v = LAI_EVENT_WAITERS")
  case True
  then show ?thesis
    using val event_word [OF v] by (simp add: event_wait_iter_def Let_def LAI_EVENT_WAITERS_def)
next
  case w: False
  have ok_w: "ev_ok LAI_EVENT_WAITERS" by (simp add: ev_ok_def)
  have c_w: "ev_count LAI_EVENT_WAITERS = 0" by (simp add: ev_count_def)
  show ?thesis
  proof (cases "v = 0")
    case True
    have "ev_count 0 = 0" by (simp add: ev_count_def)
    then show ?thesis
      using val event_word [OF v] w True ok_w c_w by (simp add: event_wait_iter_def Let_def)
  next
    case False
    have "unat (v - 1) = unat v - 1" using False by (simp add: unat_minus_one)
    moreover have "0 < unat v" using False by (simp add: unat_gt_0)
    ultimately have u: "unat v = Suc (unat (v - 1))" by simp
    have "unat (v - 1) < 2 ^ 31" using u ev_small [OF v w] by simp
    moreover from this have "v - 1 \<noteq> LAI_EVENT_WAITERS" by (auto simp: LAI_EVENT_WAITERS_def)
    ultimately have "ev_ok (v - 1)" "ev_count v = Suc (ev_count (v - 1))"
      using u w by (simp_all add: ev_ok_def ev_count_def)
    then show ?thesis
      using val event_word [OF v] w False by (simp add: event_wait_iter_def Let_def)
  qed
qed

lemma event_signal_count:
  assumes val: "ev_ok val" and v: "ev_ok v"
  shows "if event_signal_iter True val v = Panic then ev_count v = 2 ^ 31 - 1
    else \<exists>x nx. event_signal_iter True val v = Ok (x, nx) \<and> ev_ok x \<and>
      (if nx = SDone then ev_count x = Suc (ev_count val) else x = val)"
proof (cases "v = LAI_EVENT_WAITERS")
  case True
  have "ev_ok 1" "ev_count 1 = 1" "ev_count LAI_EVENT_WAITERS = 0"
    by (simp_all add: ev_ok_def ev_count_def LAI_EVENT_WAITERS_def)
  then show ?thesis
    using True val event_word [OF v] by (simp add: event_signal_iter_def)
next
  case w: False
  show ?thesis
  proof (cases "unat v + 1 < 2 ^ 31")
    case True
    then have u: "unat (v + 1) = Suc (unat v)" by (simp add: unat_word_ariths)
    then have "v + 1 \<noteq> LAI_EVENT_WAITERS" using True by (auto simp: LAI_EVENT_WAITERS_def)
    then have "ev_ok (v + 1)" "ev_count (v + 1) = Suc (ev_count v)"
      using u True w by (simp_all add: ev_ok_def ev_count_def)
    then show ?thesis
      using val event_word [OF v] signal_room [OF v w] w True by (simp add: event_signal_iter_def)
  next
    case False
    then have "ev_count v = 2 ^ 31 - 1" using ev_small [OF v w] w by (simp add: ev_count_def)
    then show ?thesis
      using event_word [OF v] signal_room [OF v w] w False by (simp add: event_signal_iter_def)
  qed
qed

text \<open>
  A loop iteration on an event does what a counting semaphore does: on a word that stands
  for a count, a wait that succeeds takes exactly one, a signal that succeeds adds exactly one,
  any other iteration leaves the count alone, and the word stays well formed.  The only
  assertion that can fail is the one against overflow of the 31-bit count.
\<close>

theorem event_counts:
  assumes "ev_ok val" and "ev_ok v"
  shows "(\<exists>x nx. event_wait_iter True val v = Ok (x, nx) \<and> ev_ok x \<and>
      (if nx = SDone then ev_count val = Suc (ev_count x) else ev_count x = ev_count val)) \<and>
    (if event_signal_iter True val v = Panic then ev_count v = 2 ^ 31 - 1
     else \<exists>x nx. event_signal_iter True val v = Ok (x, nx) \<and> ev_ok x \<and>
       (if nx = SDone then ev_count x = Suc (ev_count val) else x = val))"
  by (rule conjI [OF event_wait_count [OF assms] event_signal_count [OF assms]])

theorem event_counts_witness:
  "\<exists>x nx. event_wait_iter True 5 5 = Ok (x, nx) \<and> ev_ok x \<and>
    (if nx = SDone then ev_count 5 = Suc (ev_count x) else ev_count x = ev_count 5)"
  by (rule conjunct1 [OF event_counts]) (simp_all add: ev_ok_def)

text \<open>A reset ends with no count, and leaves the waiters waiting.\<close>

lemma event_reset_clears:
  assumes "ev_ok val" and "ev_ok v"
  shows "\<exists>x nx. event_reset_iter val v = Ok (x, nx) \<and>
    (v = val \<longrightarrow> nx = SDone \<and> ev_count x = 0 \<and> (x = LAI_EVENT_WAITERS \<longleftrightarrow> val = LAI_EVENT_WAITERS)) \<and>
    (v \<noteq> val \<longrightarrow> x = val)"
  using assms event_word [OF assms(2)]
  by (auto simp: event_reset_iter_def ev_count_def LAI_EVENT_WAITERS_def)

text \<open>
  A waiter of an event passes the mutex's value 3 to \<open>laihost_sync_wait\<close>, which is never the
  value of an event somebody waits for: a host that compares first does not block.
\<close>

lemma event_block_value:
  assumes "event_wait_iter True val v = Ok (x, SBlock u e)" and "ev_ok val" and "ev_ok v" and "v = val"
  shows "e = 3 \<and> x = LAI_EVENT_WAITERS \<and> x \<noteq> e"
  using assms event_word [OF assms(3)]
  by (auto simp: event_wait_iter_def Let_def mutex_bits LAI_EVENT_WAITERS_def split: if_splits)

end
