(* ===== verification/Lai_Stack.thy ===== *)
theory Lai_Stack
  imports Lai_Ns
begin

text \<open>
  The state of the interpreter: \<open>lai_state_t\<close>, its operands and its stack items, and the inline
  functions of \<open>lai/core/exec_impl.h\<close> on its four stacks.

  The memory of a stack is the list of its slots, \<open>None\<close> where nothing was ever written: a stack
  that grows is copied to fresh memory, so what was stored above its top is lost.  A pointer to
  an item is its index.  Whether the memory is the array inside the state or an allocated block
  is not kept, as both are used in the same way.
\<close>

subsection \<open>Data\<close>

text \<open>\<open>OpZero\<close> is an operand just pushed: its memory is cleared, its tag 0.\<close>

datatype lai_operand =
    OpZero
  | OpObject (op_object: lai_variable)
  | OpNull
  | OpUnresolved (op_ctx_handle: "nat option") (op_aml: "u8 list")
  | OpResolved (op_handle: "nat option")
  | OpArg (op_index: nat)
  | OpLocal (op_index: nat)
  | OpDebug

record lai_ctxitem =
  ci_amls :: "nat option"
  ci_code :: "u8 list"
  ci_handle :: "nat option"
  ci_invocation :: "nat option"

definition ctxitem0 :: lai_ctxitem where
  "ctxitem0 = \<lparr>ci_amls = None, ci_code = [], ci_handle = None, ci_invocation = None\<rparr>"

record lai_blkitem =
  bi_pc :: int
  bi_limit :: int

definition blkitem0 :: lai_blkitem where
  "blkitem0 = \<lparr>bi_pc = 0, bi_limit = 0\<rparr>"

text \<open>The kind of an item with the fields of the union that belong to it.\<close>

datatype stackitem_kind =
    LAI_POPULATE_STACKITEM
  | LAI_METHOD_STACKITEM (mth_want_result: bool)
  | LAI_LOOP_STACKITEM (loop_state: nat) (loop_pred: int)
  | LAI_COND_STACKITEM (cond_state: nat) (cond_has_else: bool) (cond_else_pc: int) (cond_else_limit: int)
  | LAI_BUFFER_STACKITEM (buf_want_result: bool)
  | LAI_PACKAGE_STACKITEM (pkg_index: int) (pkg_phase: nat) (pkg_want_result: bool)
  | LAI_NODE_STACKITEM (node_opcode: nat) (node_arg_modes: "nat list")
  | LAI_OP_STACKITEM (op_opcode: nat) (op_arg_modes: "nat list") (op_want_result: bool)
  | LAI_INVOKE_STACKITEM (ivk_argc: int) (ivk_want_result: bool)
  | LAI_RETURN_STACKITEM
  | LAI_BANKFIELD_STACKITEM
  | LAI_VARPACKAGE_STACKITEM (pkg_index: int) (pkg_phase: nat) (pkg_want_result: bool)

record lai_stackitem =
  si_kind :: stackitem_kind
  si_opstack_frame :: int

record lai_state =
  ctxstack_base :: "lai_ctxitem option list"
  blkstack_base :: "lai_blkitem option list"
  stack_base :: "lai_stackitem option list"
  opstack_base :: "lai_operand option list"
  ctxstack_capacity :: int
  blkstack_capacity :: int
  stack_capacity :: int
  opstack_capacity :: int
  ctxstack_ptr :: int
  blkstack_ptr :: int
  stack_ptr :: int
  opstack_ptr :: int

subsection \<open>Slots\<close>

text \<open>What an item of a stack holds, and writing one.\<close>

definition slot :: "'a option list \<Rightarrow> int \<Rightarrow> 'a outcome" where
  "slot base i = guard (0 \<le> i) (bnd (rd base (nat i)) (\<lambda>x. case x of None \<Rightarrow> Fault | Some x \<Rightarrow> Ok x))"

definition put_slot :: "'a option list \<Rightarrow> int \<Rightarrow> 'a \<Rightarrow> 'a option list outcome" where
  "put_slot base i x = guard (0 \<le> i) (wr base (nat i) (Some x))"

text \<open>
  The part the four \<open>reserve\<close> functions share: a block twice the size, the items in use copied to
  it, the old block freed.  The first result is what \<open>reserve\<close> returns: 1 when out of memory.
\<close>

definition grow_slots :: "'w lai_heap_scheme \<Rightarrow> 'a option list \<Rightarrow> int \<Rightarrow> int \<Rightarrow>
    (nat \<times> 'w lai_heap_scheme \<times> 'a option list \<times> int) outcome" where
  "grow_slots hp base cap items =
     (let (ok, hp) = laihost_malloc hp in
      if \<not> ok then Ok (1, hp, base, cap)
      else bnd (get_block base 0 (nat items)) (\<lambda>xs.
        Ok (0, hp, xs @ replicate (nat (2 * cap) - nat items) None, 2 * cap)))"

subsection \<open>The context stack\<close>

definition lai_exec_reserve_ctxstack :: "'w lai_heap_scheme \<Rightarrow> lai_state \<Rightarrow>
    (nat \<times> 'w lai_heap_scheme \<times> lai_state) outcome" where
  "lai_exec_reserve_ctxstack hp st =
     (if ctxstack_ptr st + 1 = ctxstack_capacity st
      then bnd (grow_slots hp (ctxstack_base st) (ctxstack_capacity st) (ctxstack_ptr st + 1))
        (\<lambda>(err, hp, base, cap).
         Ok (err, hp, st\<lparr>ctxstack_base := base, ctxstack_capacity := cap\<rparr>))
      else Ok (0, hp, st))"

definition lai_exec_push_ctxstack :: "lai_state \<Rightarrow> lai_state outcome" where
  "lai_exec_push_ctxstack st =
     (let p = ctxstack_ptr st + 1 in
      ensure (p < ctxstack_capacity st) (
      bnd (put_slot (ctxstack_base st) p ctxitem0) (\<lambda>base.
      Ok (st\<lparr>ctxstack_ptr := p, ctxstack_base := base\<rparr>))))"

definition lai_exec_peek_ctxstack_back :: "lai_state \<Rightarrow> int option" where
  "lai_exec_peek_ctxstack_back st = (if ctxstack_ptr st < 0 then None else Some (ctxstack_ptr st))"

text \<open>The variables of an invocation are released, then its memory.\<close>

definition free_invocation :: "'d lai_world \<Rightarrow> nat \<Rightarrow> 'd lai_world outcome" where
  "free_invocation w k =
     bnd (rd (invocations w) k) (\<lambda>iv. case iv of None \<Rightarrow> Fault | Some iv \<Rightarrow>
     bnd (get_block (iv_arg iv) 0 7) (\<lambda>args.
     bnd (get_block (iv_local iv) 0 8) (\<lambda>locals.
     bnd (release_all lai_var_finalize w args) (\<lambda>w.
     bnd (release_all lai_var_finalize w locals) (\<lambda>w.
     Ok (w\<lparr>invocations := (invocations w)[k := None]\<rparr>))))))"

definition lai_exec_pop_ctxstack_back :: "'d lai_world \<Rightarrow> lai_state \<Rightarrow> ('d lai_world \<times> lai_state) outcome" where
  "lai_exec_pop_ctxstack_back w st =
     ensure (0 \<le> ctxstack_ptr st) (
     bnd (slot (ctxstack_base st) (ctxstack_ptr st)) (\<lambda>ctxitem.
     bnd (case ci_invocation ctxitem of None \<Rightarrow> Ok w | Some k \<Rightarrow> free_invocation w k) (\<lambda>w.
     Ok (w, st\<lparr>ctxstack_ptr := ctxstack_ptr st - 1\<rparr>))))"

subsection \<open>The block stack\<close>

definition lai_exec_reserve_blkstack :: "'w lai_heap_scheme \<Rightarrow> lai_state \<Rightarrow>
    (nat \<times> 'w lai_heap_scheme \<times> lai_state) outcome" where
  "lai_exec_reserve_blkstack hp st =
     (if blkstack_ptr st + 1 = blkstack_capacity st
      then bnd (grow_slots hp (blkstack_base st) (blkstack_capacity st) (blkstack_ptr st + 1))
        (\<lambda>(err, hp, base, cap).
         Ok (err, hp, st\<lparr>blkstack_base := base, blkstack_capacity := cap\<rparr>))
      else Ok (0, hp, st))"

definition lai_exec_push_blkstack :: "lai_state \<Rightarrow> lai_state outcome" where
  "lai_exec_push_blkstack st =
     (let p = blkstack_ptr st + 1 in
      ensure (p < blkstack_capacity st) (
      bnd (put_slot (blkstack_base st) p blkitem0) (\<lambda>base.
      Ok (st\<lparr>blkstack_ptr := p, blkstack_base := base\<rparr>))))"

definition lai_exec_peek_blkstack_back :: "lai_state \<Rightarrow> int option" where
  "lai_exec_peek_blkstack_back st = (if blkstack_ptr st < 0 then None else Some (blkstack_ptr st))"

definition lai_exec_pop_blkstack_back :: "lai_state \<Rightarrow> lai_state outcome" where
  "lai_exec_pop_blkstack_back st =
     ensure (0 \<le> blkstack_ptr st) (Ok (st\<lparr>blkstack_ptr := blkstack_ptr st - 1\<rparr>))"

subsection \<open>The execution stack\<close>

definition lai_exec_reserve_stack :: "'w lai_heap_scheme \<Rightarrow> lai_state \<Rightarrow>
    (nat \<times> 'w lai_heap_scheme \<times> lai_state) outcome" where
  "lai_exec_reserve_stack hp st =
     (if stack_ptr st + 1 = stack_capacity st
      then bnd (grow_slots hp (stack_base st) (stack_capacity st) (stack_ptr st + 1))
        (\<lambda>(err, hp, base, cap).
         Ok (err, hp, st\<lparr>stack_base := base, stack_capacity := cap\<rparr>))
      else Ok (0, hp, st))"

text \<open>The item keeps what its memory held.\<close>

definition lai_exec_push_stack :: "lai_state \<Rightarrow> lai_state outcome" where
  "lai_exec_push_stack st =
     (let p = stack_ptr st + 1 in
      ensure (p < stack_capacity st) (
      guard (0 \<le> p) (Ok (st\<lparr>stack_ptr := p\<rparr>))))"

definition lai_exec_peek_stack :: "lai_state \<Rightarrow> int \<Rightarrow> int option" where
  "lai_exec_peek_stack st n = (if stack_ptr st - n < 0 then None else Some (stack_ptr st - n))"

definition lai_exec_peek_stack_back :: "lai_state \<Rightarrow> int option" where
  "lai_exec_peek_stack_back st = lai_exec_peek_stack st 0"

definition lai_exec_peek_stack_at :: "lai_state \<Rightarrow> int \<Rightarrow> int option" where
  "lai_exec_peek_stack_at st n = (if n < 0 then None else Some n)"

definition lai_exec_pop_stack_back :: "lai_state \<Rightarrow> lai_state outcome" where
  "lai_exec_pop_stack_back st =
     ensure (0 \<le> stack_ptr st) (Ok (st\<lparr>stack_ptr := stack_ptr st - 1\<rparr>))"

subsection \<open>The operand stack\<close>

text \<open>Its pointer is the number of operands.\<close>

definition lai_exec_reserve_opstack :: "'w lai_heap_scheme \<Rightarrow> lai_state \<Rightarrow>
    (nat \<times> 'w lai_heap_scheme \<times> lai_state) outcome" where
  "lai_exec_reserve_opstack hp st =
     (if opstack_ptr st = opstack_capacity st
      then bnd (grow_slots hp (opstack_base st) (opstack_capacity st) (opstack_ptr st))
        (\<lambda>(err, hp, base, cap).
         Ok (err, hp, st\<lparr>opstack_base := base, opstack_capacity := cap\<rparr>))
      else Ok (0, hp, st))"

fun lai_exec_reserve_opstack_n :: "'w lai_heap_scheme \<Rightarrow> lai_state \<Rightarrow> nat \<Rightarrow>
    (nat \<times> 'w lai_heap_scheme \<times> lai_state) outcome" where
  "lai_exec_reserve_opstack_n hp st 0 = Ok (0, hp, st)"
| "lai_exec_reserve_opstack_n hp st (Suc n) =
     bnd (lai_exec_reserve_opstack hp st) (\<lambda>(err, hp, st).
     if err \<noteq> 0 then Ok (err, hp, st) else lai_exec_reserve_opstack_n hp st n)"

definition lai_exec_push_opstack :: "lai_state \<Rightarrow> lai_state outcome" where
  "lai_exec_push_opstack st =
     ensure (opstack_ptr st < opstack_capacity st) (
     bnd (put_slot (opstack_base st) (opstack_ptr st) OpZero) (\<lambda>base.
     Ok (st\<lparr>opstack_ptr := opstack_ptr st + 1, opstack_base := base\<rparr>)))"

definition lai_exec_get_opstack :: "lai_state \<Rightarrow> int \<Rightarrow> int outcome" where
  "lai_exec_get_opstack st n = ensure (n < opstack_ptr st) (Ok n)"

text \<open>The loop of \<open>lai_exec_pop_opstack\<close>: \<open>k\<close> operands are done, \<open>m\<close> are left.\<close>

definition finalize_operand :: "'w lai_heap_scheme \<Rightarrow> lai_operand \<Rightarrow> ('w lai_heap_scheme \<times> lai_operand) outcome" where
  "finalize_operand hp operand = (case operand of
     OpObject v \<Rightarrow> bnd (lai_var_finalize hp v) (\<lambda>hp. Ok (hp, OpObject var0))
   | _ \<Rightarrow> Ok (hp, operand))"

fun pop_operands :: "'w lai_heap_scheme \<Rightarrow> lai_operand option list \<Rightarrow> int \<Rightarrow> nat \<Rightarrow>
    ('w lai_heap_scheme \<times> lai_operand option list) outcome" where
  "pop_operands hp base p 0 = Ok (hp, base)"
| "pop_operands hp base p (Suc m) =
     bnd (slot base (p - 1)) (\<lambda>operand.
     bnd (finalize_operand hp operand) (\<lambda>(hp, operand).
     bnd (put_slot base (p - 1) operand) (\<lambda>base.
     pop_operands hp base (p - 1) m)))"

definition lai_exec_pop_opstack :: "'w lai_heap_scheme \<Rightarrow> lai_state \<Rightarrow> nat \<Rightarrow>
    ('w lai_heap_scheme \<times> lai_state) outcome" where
  "lai_exec_pop_opstack hp st n =
     bnd (pop_operands hp (opstack_base st) (opstack_ptr st) n) (\<lambda>(hp, base).
     Ok (hp, st\<lparr>opstack_base := base, opstack_ptr := opstack_ptr st - int n\<rparr>))"

definition lai_exec_pop_opstack_back :: "'w lai_heap_scheme \<Rightarrow> lai_state \<Rightarrow>
    ('w lai_heap_scheme \<times> lai_state) outcome" where
  "lai_exec_pop_opstack_back hp st = lai_exec_pop_opstack hp st 1"

subsection \<open>Creation and destruction of a state\<close>

definition LAI_SMALL_CTXSTACK_SIZE :: nat where "LAI_SMALL_CTXSTACK_SIZE = 8"
definition LAI_SMALL_BLKSTACK_SIZE :: nat where "LAI_SMALL_BLKSTACK_SIZE = 8"
definition LAI_SMALL_STACK_SIZE :: nat where "LAI_SMALL_STACK_SIZE = 16"
definition LAI_SMALL_OPSTACK_SIZE :: nat where "LAI_SMALL_OPSTACK_SIZE = 16"

lemmas small_sizes = LAI_SMALL_CTXSTACK_SIZE_def LAI_SMALL_BLKSTACK_SIZE_def
  LAI_SMALL_STACK_SIZE_def LAI_SMALL_OPSTACK_SIZE_def

definition lai_init_state :: lai_state where
  "lai_init_state =
     \<lparr>ctxstack_base = replicate LAI_SMALL_CTXSTACK_SIZE None,
      blkstack_base = replicate LAI_SMALL_BLKSTACK_SIZE None,
      stack_base = replicate LAI_SMALL_STACK_SIZE None,
      opstack_base = replicate LAI_SMALL_OPSTACK_SIZE None,
      ctxstack_capacity = int LAI_SMALL_CTXSTACK_SIZE,
      blkstack_capacity = int LAI_SMALL_BLKSTACK_SIZE,
      stack_capacity = int LAI_SMALL_STACK_SIZE,
      opstack_capacity = int LAI_SMALL_OPSTACK_SIZE,
      ctxstack_ptr = -1, blkstack_ptr = -1, stack_ptr = -1, opstack_ptr = 0\<rparr>"

text \<open>
  The loops \<open>while (ptr >= 0) pop\<close> of \<open>lai_finalize_state\<close>.  The number of items is the bound of
  the recursion; a pop that did not lower the pointer would show as \<open>Stuck\<close>.
\<close>

fun pop_contexts :: "nat \<Rightarrow> 'd lai_world \<Rightarrow> lai_state \<Rightarrow> ('d lai_world \<times> lai_state) outcome" where
  "pop_contexts n w st =
     (if 0 \<le> ctxstack_ptr st then
        (case n of 0 \<Rightarrow> Stuck
         | Suc n \<Rightarrow> bnd (lai_exec_pop_ctxstack_back w st) (\<lambda>(w, st). pop_contexts n w st))
      else Ok (w, st))"

fun pop_blocks :: "nat \<Rightarrow> lai_state \<Rightarrow> lai_state outcome" where
  "pop_blocks n st =
     (if 0 \<le> blkstack_ptr st then
        (case n of 0 \<Rightarrow> Stuck | Suc n \<Rightarrow> bnd (lai_exec_pop_blkstack_back st) (pop_blocks n))
      else Ok st)"

fun pop_items :: "nat \<Rightarrow> lai_state \<Rightarrow> lai_state outcome" where
  "pop_items n st =
     (if 0 \<le> stack_ptr st then
        (case n of 0 \<Rightarrow> Stuck | Suc n \<Rightarrow> bnd (lai_exec_pop_stack_back st) (pop_items n))
      else Ok st)"

definition lai_finalize_state :: "'d lai_world \<Rightarrow> lai_state \<Rightarrow> ('d lai_world \<times> lai_state) outcome" where
  "lai_finalize_state w st =
     bnd (pop_contexts (nat (ctxstack_ptr st + 1)) w st) (\<lambda>(w, st).
     bnd (pop_blocks (nat (blkstack_ptr st + 1)) st) (\<lambda>st.
     bnd (pop_items (nat (stack_ptr st + 1)) st) (\<lambda>st.
     lai_exec_pop_opstack w st (nat (opstack_ptr st)))))"

declare pop_contexts.simps [simp del] pop_blocks.simps [simp del] pop_items.simps [simp del]

subsection \<open>What releasing leaves alone\<close>

text \<open>Object code changes the heap cells of a world, and nothing else.\<close>

definition cells_only :: "'w lai_heap_scheme \<Rightarrow> 'w lai_heap_scheme \<Rightarrow> bool" where
  "cells_only hp hp' \<longleftrightarrow> (\<exists>cs. hp' = hp\<lparr>cells := cs\<rparr>)"

lemma cells_only_refl [intro]: "cells_only hp hp"
  unfolding cells_only_def by (rule exI [of _ "cells hp"]) simp

lemma cells_only_trans [trans]: "cells_only a b \<Longrightarrow> cells_only b c \<Longrightarrow> cells_only a c"
  by (auto simp: cells_only_def)

lemma cells_only_put [intro]: "cells_only hp (put_cell hp a h)"
  by (auto simp: cells_only_def put_cell_def)

lemma cells_only_set_elem: "set_elem hp a i v = Ok hp' \<Longrightarrow> cells_only hp hp'"
  by (auto simp: set_elem_def lai_outcome)

lemma cells_only_unref: "var_unref hp v = Ok (hp', z) \<Longrightarrow> cells_only hp hp'"
  unfolding var_unref_def
  by (elim bnd_OkE) (auto elim!: bnd_OkE split: option.splits prod.splits if_splits)

lemma cells_only_elems:
  assumes "\<And>hp v hp'. fin hp v = Ok hp' \<Longrightarrow> cells_only hp hp'"
  shows "finalize_elems fin hp a is = Ok hp' \<Longrightarrow> cells_only hp hp'"
proof (induction "is" arbitrary: hp)
  case (Cons i "is")
  then obtain e h1 h2 where s: "fin hp e = Ok h1" "set_elem h1 a i var0 = Ok h2"
      "finalize_elems fin h2 a is = Ok hp'"
    by (auto simp: bnd_eq_Ok)
  have "cells_only hp h1" by (rule assms [OF s(1)])
  also have "cells_only h1 h2" by (rule cells_only_set_elem [OF s(2)])
  also have "cells_only h2 hp'" by (rule Cons.IH [OF s(3)])
  finally show ?case .
qed auto

lemma cells_only_free_package:
  assumes "\<And>hp v hp'. fin hp v = Ok hp' \<Longrightarrow> cells_only hp hp'"
    and "laihost_free_package fin hp a = Ok hp'"
  shows "cells_only hp hp'"
proof -
  from assms(2) obtain g h1 where s: "finalize_elems fin hp a [0..<g] = Ok h1" "hp' = put_cell h1 a None"
    by (auto simp: laihost_free_package_def bnd_eq_Ok split: prod.splits)
  have "cells_only hp h1" by (rule cells_only_elems [OF assms(1) s(1)])
  also have "cells_only h1 hp'" using s(2) by auto
  finally show ?thesis .
qed

lemma cells_only_fuel: "var_finalize_fuel n hp v = Ok hp' \<Longrightarrow> cells_only hp hp'"
proof (induction n arbitrary: hp v hp')
  case 0
  then show ?case by (auto simp: bnd_eq_Ok intro: cells_only_unref split: option.splits prod.splits)
next
  case (Suc n)
  then obtain h1 z where z: "var_unref hp v = Ok (h1, z)"
      "(case z of None \<Rightarrow> Ok h1 | Some a \<Rightarrow> laihost_free_package (var_finalize_fuel n) h1 a) = Ok hp'"
    by (auto simp: bnd_eq_Ok)
  have "cells_only hp h1" by (rule cells_only_unref [OF z(1)])
  also have "cells_only h1 hp'"
    using z(2) by (cases z) (auto intro: cells_only_free_package [OF Suc.IH])
  finally show ?case .
qed

lemma cells_only_finalize: "lai_var_finalize hp v = Ok hp' \<Longrightarrow> cells_only hp hp'"
  unfolding lai_var_finalize_def by (rule cells_only_fuel)

lemma cells_only_release: "release_all lai_var_finalize hp vs = Ok hp' \<Longrightarrow> cells_only hp hp'"
proof (induction vs arbitrary: hp)
  case (Cons v vs)
  then obtain h1 where s: "lai_var_finalize hp v = Ok h1" "release_all lai_var_finalize h1 vs = Ok hp'"
    by (auto simp: bnd_eq_Ok)
  from cells_only_finalize [OF s(1)] Cons.IH [OF s(2)] show ?case by (rule cells_only_trans)
qed auto

lemma cells_only_world:
  fixes w :: "'d lai_world"
  assumes "cells_only w w'"
  shows "invocations w' = invocations w" "nodes w' = nodes w" "dev w' = dev w"
  using assms by (auto simp: cells_only_def)

lemma heap_inv_cells:
  fixes hp :: "'a lai_heap_scheme" and hp' :: "'b lai_heap_scheme"
  shows "cells hp' = cells hp \<Longrightarrow> heap_inv R hp' = heap_inv R hp"
  by (simp add: heap_inv_def rc_ok_def dead_def heap_refs_def cell_def)

subsection \<open>The contract of a stack\<close>

text \<open>
  The callers' protocol is \<open>reserve\<close> and then \<open>push\<close>.  \<open>live\<close> is the list of the items from the
  bottom, \<open>room\<close> the number of free slots, \<open>rest\<close> the part of the state other than this stack.
\<close>

locale reserved_stack =
  fixes ok :: "'s \<Rightarrow> bool" and live :: "'s \<Rightarrow> 'i list" and room :: "'s \<Rightarrow> nat" and rest :: "'s \<Rightarrow> 'r"
    and reserve :: "'h \<Rightarrow> 's \<Rightarrow> (nat \<times> 'h \<times> 's) outcome" and push :: "'s \<Rightarrow> 's outcome"
  assumes reserve_law: "ok s \<Longrightarrow> \<exists>err h' s'. reserve h s = Ok (err, h', s') \<and>
      (if err = 0 then ok s' \<and> live s' = live s \<and> rest s' = rest s \<and> 0 < room s' else s' = s)"
    and push_law: "ok s \<Longrightarrow> 0 < room s \<Longrightarrow> \<exists>s' x. push s = Ok s' \<and> ok s' \<and> live s' = live s @ [x] \<and>
      rest s' = rest s \<and> room s = Suc (room s')"
    and full_law: "ok s \<Longrightarrow> room s = 0 \<Longrightarrow> push s = Panic"
begin

primrec pushes :: "nat \<Rightarrow> 's \<Rightarrow> 's outcome" where
  "pushes 0 s = Ok s"
| "pushes (Suc n) s = bnd (push s) (pushes n)"

lemma pushes_fit: "ok s \<Longrightarrow> n \<le> room s \<Longrightarrow>
    \<exists>s' xs. pushes n s = Ok s' \<and> ok s' \<and> live s' = live s @ xs \<and> length xs = n \<and> rest s' = rest s"
proof (induction n arbitrary: s)
  case (Suc n)
  from push_law [of s] Suc.prems obtain s1 x where s1: "push s = Ok s1" "ok s1"
      "live s1 = live s @ [x]" "rest s1 = rest s" "room s = Suc (room s1)"
    by auto
  from Suc.IH [OF s1(2)] Suc.prems(2) s1(5) obtain s' xs where "pushes n s1 = Ok s'" "ok s'"
      "live s' = live s1 @ xs" "length xs = n" "rest s' = rest s1"
    by auto
  then have "pushes (Suc n) s = Ok s' \<and> ok s' \<and> live s' = live s @ (x # xs) \<and> length (x # xs) = Suc n \<and>
      rest s' = rest s"
    using s1 by simp
  then show ?case by blast
qed simp

lemma pushes_overflow: "ok s \<Longrightarrow> room s < n \<Longrightarrow> pushes n s = Panic"
proof (induction n arbitrary: s)
  case (Suc n)
  show ?case
  proof (cases "room s")
    case 0
    then show ?thesis using full_law [OF Suc.prems(1)] by simp
  next
    case (Suc r)
    then obtain s1 where "push s = Ok s1" "ok s1" "room s = Suc (room s1)"
      using push_law [OF Suc.prems(1)] by auto
    then show ?thesis using Suc.IH [of s1] Suc.prems by simp
  qed
qed simp

lemma reserve_push:
  assumes "ok s"
  shows "\<exists>err h' s'. reserve h s = Ok (err, h', s') \<and>
    (if err = 0 then \<exists>s2 x. push s' = Ok s2 \<and> ok s2 \<and> live s2 = live s @ [x] \<and> rest s2 = rest s
     else s' = s)"
proof -
  from reserve_law [OF assms, of h] obtain err h' s' where r: "reserve h s = Ok (err, h', s')"
      "if err = 0 then ok s' \<and> live s' = live s \<and> rest s' = rest s \<and> 0 < room s' else s' = s"
    by blast
  show ?thesis
  proof (cases "err = 0")
    case True
    with r(2) have s': "ok s'" "live s' = live s" "rest s' = rest s" "0 < room s'" by simp_all
    from push_law [OF s'(1,4)] s'(2,3) obtain s2 x where "push s' = Ok s2" "ok s2"
        "live s2 = live s @ [x]" "rest s2 = rest s"
      by auto
    with r(1) True show ?thesis by auto
  qed (use r in auto)
qed

end

text \<open>A stack whose items need no release can also be popped within the contract.\<close>

locale popped_stack = reserved_stack ok live room rest reserve push
  for ok :: "'s \<Rightarrow> bool" and live :: "'s \<Rightarrow> 'i list" and room :: "'s \<Rightarrow> nat" and rest :: "'s \<Rightarrow> 'r"
    and reserve :: "'h \<Rightarrow> 's \<Rightarrow> (nat \<times> 'h \<times> 's) outcome" and push :: "'s \<Rightarrow> 's outcome" +
  fixes pop :: "'s \<Rightarrow> 's outcome"
  assumes pop_law: "ok s \<Longrightarrow> live s = xs @ [x] \<Longrightarrow> \<exists>s'. pop s = Ok s' \<and> ok s' \<and> live s' = xs \<and> rest s' = rest s"
    and empty_law: "ok s \<Longrightarrow> live s = [] \<Longrightarrow> pop s = Panic"
begin

lemma push_pop:
  assumes "ok s" and "0 < room s"
  shows "\<exists>s1 s2. push s = Ok s1 \<and> pop s1 = Ok s2 \<and> ok s2 \<and> live s2 = live s \<and> rest s2 = rest s"
proof -
  from push_law [OF assms] obtain s1 x where s1: "push s = Ok s1" "ok s1" "live s1 = live s @ [x]" "rest s1 = rest s"
    by blast
  from pop_law [OF s1(2,3)] s1 show ?thesis by auto
qed

end

subsection \<open>The four stacks keep it\<close>

definition slots_ok :: "'a option list \<Rightarrow> int \<Rightarrow> int \<Rightarrow> bool" where
  "slots_ok base cap n \<longleftrightarrow> cap = int (length base) \<and> 0 < cap \<and> 0 \<le> n \<and> n \<le> cap"

definition state_ok :: "lai_state \<Rightarrow> bool" where
  "state_ok st \<longleftrightarrow>
     slots_ok (ctxstack_base st) (ctxstack_capacity st) (ctxstack_ptr st + 1) \<and>
     slots_ok (blkstack_base st) (blkstack_capacity st) (blkstack_ptr st + 1) \<and>
     slots_ok (stack_base st) (stack_capacity st) (stack_ptr st + 1) \<and>
     slots_ok (opstack_base st) (opstack_capacity st) (opstack_ptr st)"

definition live_ctx :: "lai_state \<Rightarrow> lai_ctxitem option list" where
  "live_ctx st = take (nat (ctxstack_ptr st + 1)) (ctxstack_base st)"
definition live_blk :: "lai_state \<Rightarrow> lai_blkitem option list" where
  "live_blk st = take (nat (blkstack_ptr st + 1)) (blkstack_base st)"
definition live_items :: "lai_state \<Rightarrow> lai_stackitem option list" where
  "live_items st = take (nat (stack_ptr st + 1)) (stack_base st)"
definition live_ops :: "lai_state \<Rightarrow> lai_operand option list" where
  "live_ops st = take (nat (opstack_ptr st)) (opstack_base st)"

lemmas live_defs = live_ctx_def live_blk_def live_items_def live_ops_def

definition room_of :: "int \<Rightarrow> int \<Rightarrow> nat" where
  "room_of cap n = nat (cap - n)"

definition but_ctx :: "lai_state \<Rightarrow> lai_state" where
  "but_ctx st = st\<lparr>ctxstack_base := [], ctxstack_capacity := 0, ctxstack_ptr := 0\<rparr>"
definition but_blk :: "lai_state \<Rightarrow> lai_state" where
  "but_blk st = st\<lparr>blkstack_base := [], blkstack_capacity := 0, blkstack_ptr := 0\<rparr>"
definition but_items :: "lai_state \<Rightarrow> lai_state" where
  "but_items st = st\<lparr>stack_base := [], stack_capacity := 0, stack_ptr := 0\<rparr>"
definition but_ops :: "lai_state \<Rightarrow> lai_state" where
  "but_ops st = st\<lparr>opstack_base := [], opstack_capacity := 0, opstack_ptr := 0\<rparr>"

lemmas but_defs = but_ctx_def but_blk_def but_items_def but_ops_def

lemma grow_slots_Ok:
  assumes "slots_ok base cap cap"
  shows "\<exists>err hp' base' cap'. grow_slots hp base cap cap = Ok (err, hp', base', cap') \<and>
    slots_ok base' cap' cap \<and> take (nat cap) base' = take (nat cap) base \<and>
    (if err = 0 then cap < cap' else base' = base \<and> cap' = cap)"
proof -
  obtain okay hp1 where m: "laihost_malloc hp = (okay, hp1)" by (cases "laihost_malloc hp")
  show ?thesis
    using assms by (cases okay) (auto simp: grow_slots_def m slots_ok_def get_block_def)
qed

lemma take_put_slot:
  assumes "0 \<le> p" and "nat p < length base"
  shows "put_slot base p x = Ok (base[nat p := Some x])"
    and "take (nat (p + 1)) (base[nat p := Some x]) = take (nat p) base @ [Some x]"
  using assms by (simp_all add: put_slot_def nat_add_distrib take_Suc_conv_app_nth)

lemma take_next:
  assumes "0 \<le> p" and "nat p < length base"
  shows "take (nat (p + 1)) base = take (nat p) base @ [base ! nat p]"
  using assms by (simp add: nat_add_distrib take_Suc_conv_app_nth)

text \<open>Each stack provides the contract.\<close>

interpretation ctxs: reserved_stack state_ok live_ctx "\<lambda>st. room_of (ctxstack_capacity st) (ctxstack_ptr st + 1)" but_ctx
  lai_exec_reserve_ctxstack lai_exec_push_ctxstack
proof
  fix st :: lai_state and hp :: "'w lai_heap_scheme"
  assume ok: "state_ok st"
  show "\<exists>err h' s'. lai_exec_reserve_ctxstack hp st = Ok (err, h', s') \<and>
      (if err = 0 then state_ok s' \<and> live_ctx s' = live_ctx st \<and> but_ctx s' = but_ctx st \<and>
         0 < room_of (ctxstack_capacity s') (ctxstack_ptr s' + 1) else s' = st)"
  proof (cases "ctxstack_ptr st + 1 = ctxstack_capacity st")
    case True
    with ok have "slots_ok (ctxstack_base st) (ctxstack_capacity st) (ctxstack_capacity st)" by (simp add: state_ok_def)
    from grow_slots_Ok [OF this, of hp] obtain err hp' b c
      where g: "grow_slots hp (ctxstack_base st) (ctxstack_capacity st) (ctxstack_capacity st) = Ok (err, hp', b, c)"
        and b: "slots_ok b c (ctxstack_capacity st)" "take (nat (ctxstack_capacity st)) b = take (nat (ctxstack_capacity st)) (ctxstack_base st)"
        and e: "if err = 0 then ctxstack_capacity st < c else b = ctxstack_base st \<and> c = ctxstack_capacity st"
      by blast
    show ?thesis
      using ok True g b e
      by (cases "err = 0") (simp_all add: lai_exec_reserve_ctxstack_def state_ok_def live_defs but_defs room_of_def)
  next
    case False
    with ok have "0 < room_of (ctxstack_capacity st) (ctxstack_ptr st + 1)"
      by (simp add: state_ok_def slots_ok_def room_of_def)
    with ok False show ?thesis by (simp add: lai_exec_reserve_ctxstack_def)
  qed
next
  fix st assume ok: "state_ok st" and room: "0 < room_of (ctxstack_capacity st) (ctxstack_ptr st + 1)"
  from ok room have p: "0 \<le> ctxstack_ptr st + 1" "nat (ctxstack_ptr st + 1) < length (ctxstack_base st)"
    by (auto simp: state_ok_def slots_ok_def room_of_def)
  show "\<exists>s' x. lai_exec_push_ctxstack st = Ok s' \<and> state_ok s' \<and> live_ctx s' = live_ctx st @ [x] \<and>
      but_ctx s' = but_ctx st \<and> room_of (ctxstack_capacity st) (ctxstack_ptr st + 1) = Suc (room_of (ctxstack_capacity s') (ctxstack_ptr s' + 1))"
    using ok room take_put_slot [OF p]
    by (auto simp: lai_exec_push_ctxstack_def Let_def state_ok_def slots_ok_def room_of_def live_ctx_def but_ctx_def)
next
  fix st assume "state_ok st" and "room_of (ctxstack_capacity st) (ctxstack_ptr st + 1) = 0"
  then show "lai_exec_push_ctxstack st = Panic"
    by (simp add: lai_exec_push_ctxstack_def Let_def state_ok_def slots_ok_def room_of_def)
qed

interpretation blks: popped_stack state_ok live_blk "\<lambda>st. room_of (blkstack_capacity st) (blkstack_ptr st + 1)" but_blk
  lai_exec_reserve_blkstack lai_exec_push_blkstack lai_exec_pop_blkstack_back
proof
  fix st :: lai_state and hp :: "'w lai_heap_scheme"
  assume ok: "state_ok st"
  show "\<exists>err h' s'. lai_exec_reserve_blkstack hp st = Ok (err, h', s') \<and>
      (if err = 0 then state_ok s' \<and> live_blk s' = live_blk st \<and> but_blk s' = but_blk st \<and>
         0 < room_of (blkstack_capacity s') (blkstack_ptr s' + 1) else s' = st)"
  proof (cases "blkstack_ptr st + 1 = blkstack_capacity st")
    case True
    with ok have "slots_ok (blkstack_base st) (blkstack_capacity st) (blkstack_capacity st)" by (simp add: state_ok_def)
    from grow_slots_Ok [OF this, of hp] obtain err hp' b c
      where g: "grow_slots hp (blkstack_base st) (blkstack_capacity st) (blkstack_capacity st) = Ok (err, hp', b, c)"
        and b: "slots_ok b c (blkstack_capacity st)" "take (nat (blkstack_capacity st)) b = take (nat (blkstack_capacity st)) (blkstack_base st)"
        and e: "if err = 0 then blkstack_capacity st < c else b = blkstack_base st \<and> c = blkstack_capacity st"
      by blast
    show ?thesis
      using ok True g b e
      by (cases "err = 0") (simp_all add: lai_exec_reserve_blkstack_def state_ok_def live_defs but_defs room_of_def)
  next
    case False
    with ok have "0 < room_of (blkstack_capacity st) (blkstack_ptr st + 1)"
      by (simp add: state_ok_def slots_ok_def room_of_def)
    with ok False show ?thesis by (simp add: lai_exec_reserve_blkstack_def)
  qed
next
  fix st assume ok: "state_ok st" and room: "0 < room_of (blkstack_capacity st) (blkstack_ptr st + 1)"
  from ok room have p: "0 \<le> blkstack_ptr st + 1" "nat (blkstack_ptr st + 1) < length (blkstack_base st)"
    by (auto simp: state_ok_def slots_ok_def room_of_def)
  show "\<exists>s' x. lai_exec_push_blkstack st = Ok s' \<and> state_ok s' \<and> live_blk s' = live_blk st @ [x] \<and>
      but_blk s' = but_blk st \<and> room_of (blkstack_capacity st) (blkstack_ptr st + 1) = Suc (room_of (blkstack_capacity s') (blkstack_ptr s' + 1))"
    using ok room take_put_slot [OF p]
    by (auto simp: lai_exec_push_blkstack_def Let_def state_ok_def slots_ok_def room_of_def live_blk_def but_blk_def)
next
  fix st assume "state_ok st" and "room_of (blkstack_capacity st) (blkstack_ptr st + 1) = 0"
  then show "lai_exec_push_blkstack st = Panic"
    by (simp add: lai_exec_push_blkstack_def Let_def state_ok_def slots_ok_def room_of_def)
next
  fix st xs x assume ok: "state_ok st" and l: "live_blk st = xs @ [x]"
  then have p: "0 \<le> blkstack_ptr st" by (auto simp: live_blk_def not_less [symmetric])
  with ok have "nat (blkstack_ptr st) < length (blkstack_base st)" by (auto simp: state_ok_def slots_ok_def)
  from take_next [OF p this] l have "xs = take (nat (blkstack_ptr st)) (blkstack_base st)" by (simp add: live_blk_def)
  with p show "\<exists>s'. lai_exec_pop_blkstack_back st = Ok s' \<and> state_ok s' \<and> live_blk s' = xs \<and> but_blk s' = but_blk st"
    using ok by (auto simp: lai_exec_pop_blkstack_back_def state_ok_def slots_ok_def live_blk_def but_blk_def)
next
  fix st assume "state_ok st" and "live_blk st = []"
  then have "blkstack_ptr st < 0" by (auto simp: live_blk_def state_ok_def slots_ok_def)
  then show "lai_exec_pop_blkstack_back st = Panic" by (simp add: lai_exec_pop_blkstack_back_def)
qed

interpretation items: popped_stack state_ok live_items "\<lambda>st. room_of (stack_capacity st) (stack_ptr st + 1)" but_items
  lai_exec_reserve_stack lai_exec_push_stack lai_exec_pop_stack_back
proof
  fix st :: lai_state and hp :: "'w lai_heap_scheme"
  assume ok: "state_ok st"
  show "\<exists>err h' s'. lai_exec_reserve_stack hp st = Ok (err, h', s') \<and>
      (if err = 0 then state_ok s' \<and> live_items s' = live_items st \<and> but_items s' = but_items st \<and>
         0 < room_of (stack_capacity s') (stack_ptr s' + 1) else s' = st)"
  proof (cases "stack_ptr st + 1 = stack_capacity st")
    case True
    with ok have "slots_ok (stack_base st) (stack_capacity st) (stack_capacity st)" by (simp add: state_ok_def)
    from grow_slots_Ok [OF this, of hp] obtain err hp' b c
      where g: "grow_slots hp (stack_base st) (stack_capacity st) (stack_capacity st) = Ok (err, hp', b, c)"
        and b: "slots_ok b c (stack_capacity st)" "take (nat (stack_capacity st)) b = take (nat (stack_capacity st)) (stack_base st)"
        and e: "if err = 0 then stack_capacity st < c else b = stack_base st \<and> c = stack_capacity st"
      by blast
    show ?thesis
      using ok True g b e
      by (cases "err = 0") (simp_all add: lai_exec_reserve_stack_def state_ok_def live_defs but_defs room_of_def)
  next
    case False
    with ok have "0 < room_of (stack_capacity st) (stack_ptr st + 1)"
      by (simp add: state_ok_def slots_ok_def room_of_def)
    with ok False show ?thesis by (simp add: lai_exec_reserve_stack_def)
  qed
next
  fix st assume ok: "state_ok st" and room: "0 < room_of (stack_capacity st) (stack_ptr st + 1)"
  from ok room have p: "0 \<le> stack_ptr st + 1" "nat (stack_ptr st + 1) < length (stack_base st)"
    by (auto simp: state_ok_def slots_ok_def room_of_def)
  show "\<exists>s' x. lai_exec_push_stack st = Ok s' \<and> state_ok s' \<and> live_items s' = live_items st @ [x] \<and>
      but_items s' = but_items st \<and> room_of (stack_capacity st) (stack_ptr st + 1) = Suc (room_of (stack_capacity s') (stack_ptr s' + 1))"
    using ok room take_next [OF p]
    by (auto simp: lai_exec_push_stack_def Let_def state_ok_def slots_ok_def room_of_def live_items_def but_items_def)
next
  fix st assume "state_ok st" and "room_of (stack_capacity st) (stack_ptr st + 1) = 0"
  then show "lai_exec_push_stack st = Panic"
    by (simp add: lai_exec_push_stack_def Let_def state_ok_def slots_ok_def room_of_def)
next
  fix st xs x assume ok: "state_ok st" and l: "live_items st = xs @ [x]"
  then have p: "0 \<le> stack_ptr st" by (auto simp: live_items_def not_less [symmetric])
  with ok have "nat (stack_ptr st) < length (stack_base st)" by (auto simp: state_ok_def slots_ok_def)
  from take_next [OF p this] l have "xs = take (nat (stack_ptr st)) (stack_base st)" by (simp add: live_items_def)
  with p show "\<exists>s'. lai_exec_pop_stack_back st = Ok s' \<and> state_ok s' \<and> live_items s' = xs \<and> but_items s' = but_items st"
    using ok by (auto simp: lai_exec_pop_stack_back_def state_ok_def slots_ok_def live_items_def but_items_def)
next
  fix st assume "state_ok st" and "live_items st = []"
  then have "stack_ptr st < 0" by (auto simp: live_items_def state_ok_def slots_ok_def)
  then show "lai_exec_pop_stack_back st = Panic" by (simp add: lai_exec_pop_stack_back_def)
qed

interpretation operands: reserved_stack state_ok live_ops "\<lambda>st. room_of (opstack_capacity st) (opstack_ptr st)" but_ops
  lai_exec_reserve_opstack lai_exec_push_opstack
proof
  fix st :: lai_state and hp :: "'w lai_heap_scheme"
  assume ok: "state_ok st"
  show "\<exists>err h' s'. lai_exec_reserve_opstack hp st = Ok (err, h', s') \<and>
      (if err = 0 then state_ok s' \<and> live_ops s' = live_ops st \<and> but_ops s' = but_ops st \<and>
         0 < room_of (opstack_capacity s') (opstack_ptr s') else s' = st)"
  proof (cases "opstack_ptr st = opstack_capacity st")
    case True
    with ok have "slots_ok (opstack_base st) (opstack_capacity st) (opstack_capacity st)" by (simp add: state_ok_def)
    from grow_slots_Ok [OF this, of hp] obtain err hp' b c
      where g: "grow_slots hp (opstack_base st) (opstack_capacity st) (opstack_capacity st) = Ok (err, hp', b, c)"
        and b: "slots_ok b c (opstack_capacity st)" "take (nat (opstack_capacity st)) b = take (nat (opstack_capacity st)) (opstack_base st)"
        and e: "if err = 0 then opstack_capacity st < c else b = opstack_base st \<and> c = opstack_capacity st"
      by blast
    show ?thesis
      using ok True g b e
      by (cases "err = 0") (simp_all add: lai_exec_reserve_opstack_def state_ok_def live_defs but_defs room_of_def)
  next
    case False
    with ok have "0 < room_of (opstack_capacity st) (opstack_ptr st)"
      by (simp add: state_ok_def slots_ok_def room_of_def)
    with ok False show ?thesis by (simp add: lai_exec_reserve_opstack_def)
  qed
next
  fix st assume ok: "state_ok st" and room: "0 < room_of (opstack_capacity st) (opstack_ptr st)"
  from ok room have p: "0 \<le> opstack_ptr st" "nat (opstack_ptr st) < length (opstack_base st)"
    by (auto simp: state_ok_def slots_ok_def room_of_def)
  show "\<exists>s' x. lai_exec_push_opstack st = Ok s' \<and> state_ok s' \<and> live_ops s' = live_ops st @ [x] \<and>
      but_ops s' = but_ops st \<and> room_of (opstack_capacity st) (opstack_ptr st) = Suc (room_of (opstack_capacity s') (opstack_ptr s'))"
    using ok room take_put_slot [OF p]
    by (auto simp: lai_exec_push_opstack_def Let_def state_ok_def slots_ok_def room_of_def live_ops_def but_ops_def)
next
  fix st assume "state_ok st" and "room_of (opstack_capacity st) (opstack_ptr st) = 0"
  then show "lai_exec_push_opstack st = Panic"
    by (simp add: lai_exec_push_opstack_def Let_def state_ok_def slots_ok_def room_of_def)
qed

lemma lai_init_state_ok: "state_ok lai_init_state"
  by (simp add: state_ok_def slots_ok_def lai_init_state_def small_sizes)

subsection \<open>References held by a state\<close>

definition operand_refs :: "lai_operand option \<Rightarrow> lai_ref multiset" where
  "operand_refs x = (case x of Some (OpObject v) \<Rightarrow> var_refs v | _ \<Rightarrow> {#})"

definition invocation_of :: "lai_ctxitem option \<Rightarrow> nat list" where
  "invocation_of x = (case x of None \<Rightarrow> [] | Some c \<Rightarrow> (case ci_invocation c of None \<Rightarrow> [] | Some k \<Rightarrow> [k]))"

definition invocation_refs :: "'d lai_world \<Rightarrow> nat \<Rightarrow> lai_ref multiset" where
  "invocation_refs w k = (case invocations w ! k of
     None \<Rightarrow> {#} | Some iv \<Rightarrow> sum_list (map var_refs (iv_arg iv @ iv_local iv)))"

definition contexts_refs :: "'d lai_world \<Rightarrow> lai_ctxitem option list \<Rightarrow> lai_ref multiset" where
  "contexts_refs w cs = sum_list (map (invocation_refs w) (concat (map invocation_of cs)))"

definition state_refs :: "'d lai_world \<Rightarrow> lai_state \<Rightarrow> lai_ref multiset" where
  "state_refs w st = contexts_refs w (live_ctx st) + sum_list (map operand_refs (live_ops st))"

text \<open>The items in use were written, and each running method has an invocation of its own.\<close>

definition invocation_ok :: "'d lai_world \<Rightarrow> nat \<Rightarrow> bool" where
  "invocation_ok w k \<longleftrightarrow> (\<exists>iv. k < length (invocations w) \<and> invocations w ! k = Some iv \<and>
     length (iv_arg iv) = 7 \<and> length (iv_local iv) = 8)"

definition contexts_ok :: "'d lai_world \<Rightarrow> lai_ctxitem option list \<Rightarrow> bool" where
  "contexts_ok w cs \<longleftrightarrow> None \<notin> set cs \<and> distinct (concat (map invocation_of cs)) \<and>
     (\<forall>k \<in> set (concat (map invocation_of cs)). invocation_ok w k)"

lemma free_invocation_Ok:
  assumes "heap_inv (R + invocation_refs w k) w" and "invocation_ok w k"
  shows "\<exists>w'. free_invocation w k = Ok w' \<and> heap_inv R w' \<and> invocations w' = (invocations w)[k := None]"
proof -
  from assms(2) obtain iv where iv: "k < length (invocations w)" "invocations w ! k = Some iv"
      "length (iv_arg iv) = 7" "length (iv_local iv) = 8"
    by (auto simp: invocation_ok_def)
  let ?A = "sum_list (map var_refs (iv_arg iv))" and ?L = "sum_list (map var_refs (iv_local iv))"
  have "heap_inv ((R + ?L) + ?A) w" using assms(1) iv(2) by (simp add: invocation_refs_def ac_simps)
  from vars.release_all_inv [OF this] obtain w1 where
    w1: "release_all lai_var_finalize w (iv_arg iv) = Ok w1" "heap_inv (R + ?L) w1" by blast
  from vars.release_all_inv [OF w1(2)] obtain w2 where
    w2: "release_all lai_var_finalize w1 (iv_local iv) = Ok w2" "heap_inv R w2" by blast
  have "cells_only w w2" by (rule cells_only_trans [OF cells_only_release [OF w1(1)] cells_only_release [OF w2(1)]])
  then have inv: "invocations w2 = invocations w" by (rule cells_only_world(1))
  have "free_invocation w k = Ok (w2\<lparr>invocations := (invocations w2)[k := None]\<rparr>)"
    using iv w1(1) w2(1) by (simp add: free_invocation_def get_block_def)
  moreover have "heap_inv R (w2\<lparr>invocations := (invocations w2)[k := None]\<rparr>) = heap_inv R w2"
    by (rule heap_inv_cells) simp
  ultimately show ?thesis using w2(2) inv by simp
qed

lemma contexts_snoc:
  "contexts_refs w (cs @ [Some c]) = contexts_refs w cs +
     (case ci_invocation c of None \<Rightarrow> {#} | Some k \<Rightarrow> invocation_refs w k)"
  by (simp add: contexts_refs_def invocation_of_def split: option.split)

lemma contexts_cong:
  assumes "invocations w' = (invocations w)[k := None]" and "k \<notin> set (concat (map invocation_of cs))"
  shows "contexts_refs w' cs = contexts_refs w cs" and "contexts_ok w cs \<Longrightarrow> contexts_ok w' cs"
proof -
  have same: "invocations w' ! j = invocations w ! j" if "j \<in> set (concat (map invocation_of cs))" for j
    using that assms by (metis nth_list_update_neq)
  have "map (invocation_refs w') (concat (map invocation_of cs)) =
      map (invocation_refs w) (concat (map invocation_of cs))"
    by (rule map_cong [OF refl]) (simp only: invocation_refs_def same)
  then show "contexts_refs w' cs = contexts_refs w cs" by (simp only: contexts_refs_def)
  show "contexts_ok w' cs" if "contexts_ok w cs"
    using that same assms(1) unfolding contexts_ok_def invocation_ok_def by (metis length_list_update)
qed

lemma state_ok_pop:
  "state_ok st \<Longrightarrow> 0 \<le> ctxstack_ptr st \<Longrightarrow> state_ok (st\<lparr>ctxstack_ptr := ctxstack_ptr st - 1\<rparr>)"
  by (auto simp: state_ok_def slots_ok_def)

lemma pop_contexts_Ok:
  assumes "live_ctx st = cs" and "state_ok st" and "contexts_ok w cs" and "heap_inv (R + contexts_refs w cs) w"
  shows "\<exists>w'. pop_contexts (length cs) w st = Ok (w', st\<lparr>ctxstack_ptr := -1\<rparr>) \<and> heap_inv R w'"
  using assms
proof (induction cs arbitrary: w st rule: rev_induct)
  case Nil
  then have "ctxstack_ptr st = -1" by (auto simp: live_ctx_def state_ok_def slots_ok_def)
  then show ?case using Nil.prems(4) by (subst pop_contexts.simps) (auto simp: contexts_refs_def)
next
  case (snoc x cs)
  then have p: "0 \<le> ctxstack_ptr st" by (auto simp: live_ctx_def not_less [symmetric])
  with snoc.prems(2) have lt: "nat (ctxstack_ptr st) < length (ctxstack_base st)"
    by (auto simp: state_ok_def slots_ok_def)
  from take_next [OF p lt] snoc.prems(1)
  have top: "ctxstack_base st ! nat (ctxstack_ptr st) = x" and below: "take (nat (ctxstack_ptr st)) (ctxstack_base st) = cs"
    by (simp_all add: live_ctx_def)
  obtain c where c: "x = Some c" using snoc.prems(3) by (cases x) (auto simp: contexts_ok_def)
  have slot: "slot (ctxstack_base st) (ctxstack_ptr st) = Ok c" using p lt top c by (simp add: slot_def)
  let ?st = "st\<lparr>ctxstack_ptr := ctxstack_ptr st - 1\<rparr>"
  have st: "live_ctx ?st = cs" "?st\<lparr>ctxstack_ptr := -1\<rparr> = st\<lparr>ctxstack_ptr := -1\<rparr>"
    using below by (simp_all add: live_ctx_def)
  have ok: "state_ok ?st"
    by (rule state_ok_pop [OF snoc.prems(2) p])
  have "\<exists>w'. (case ci_invocation c of None \<Rightarrow> Ok w | Some k \<Rightarrow> free_invocation w k) = Ok w' \<and>
      heap_inv (R + contexts_refs w' cs) w' \<and> contexts_ok w' cs"
  proof (cases "ci_invocation c")
    case None
    then show ?thesis using snoc.prems(3,4) c by (auto simp: contexts_snoc contexts_ok_def)
  next
    case (Some k)
    then have k: "invocation_ok w k" "k \<notin> set (concat (map invocation_of cs))" "contexts_ok w cs"
      using snoc.prems(3) c by (auto simp: contexts_ok_def invocation_of_def)
    have "heap_inv ((R + contexts_refs w cs) + invocation_refs w k) w"
      using snoc.prems(4) c Some by (simp add: contexts_snoc ac_simps)
    from free_invocation_Ok [OF this k(1)] obtain w' where w': "free_invocation w k = Ok w'"
        "heap_inv (R + contexts_refs w cs) w'" "invocations w' = (invocations w)[k := None]"
      by blast
    then show ?thesis using Some contexts_cong [OF w'(3) k(2)] k(3) by auto
  qed
  then obtain w' where w': "(case ci_invocation c of None \<Rightarrow> Ok w | Some k \<Rightarrow> free_invocation w k) = Ok w'"
      "heap_inv (R + contexts_refs w' cs) w'" "contexts_ok w' cs"
    by blast
  have "lai_exec_pop_ctxstack_back w st = Ok (w', ?st)"
    using p slot w'(1) by (simp add: lai_exec_pop_ctxstack_back_def)
  then show ?case using snoc.IH [OF st(1) ok w'(3,2)] p st(2) by (subst pop_contexts.simps) simp
qed

lemma pop_blocks_Ok: "nat (blkstack_ptr st + 1) \<le> n \<Longrightarrow> -1 \<le> blkstack_ptr st \<Longrightarrow>
    pop_blocks n st = Ok (st\<lparr>blkstack_ptr := -1\<rparr>)"
proof (induction n arbitrary: st)
  case (Suc n)
  then show ?case by (subst pop_blocks.simps) (auto simp: lai_exec_pop_blkstack_back_def)
qed (subst pop_blocks.simps, auto)

lemma pop_items_Ok: "nat (stack_ptr st + 1) \<le> n \<Longrightarrow> -1 \<le> stack_ptr st \<Longrightarrow>
    pop_items n st = Ok (st\<lparr>stack_ptr := -1\<rparr>)"
proof (induction n arbitrary: st)
  case (Suc n)
  then show ?case by (subst pop_items.simps) (auto simp: lai_exec_pop_stack_back_def)
qed (subst pop_items.simps, auto)

lemma finalize_operand_Ok:
  assumes "heap_inv (R + operand_refs (Some x)) hp"
  shows "\<exists>hp' x'. finalize_operand hp x = Ok (hp', x') \<and> heap_inv R hp' \<and> cells_only hp hp'"
proof (cases x)
  case (OpObject v)
  with assms have "heap_inv (R + var_refs v) hp" by (simp add: operand_refs_def)
  from vars.release_law [OF this] OpObject show ?thesis
    by (auto simp: finalize_operand_def intro: cells_only_finalize)
qed (use assms in \<open>auto simp: finalize_operand_def operand_refs_def\<close>)

lemma pop_operands_Ok:
  assumes "n \<le> p" and "p \<le> length base" and "None \<notin> set (take p base)"
    and "heap_inv (R + sum_list (map operand_refs (take n (drop (p - n) base)))) hp"
  shows "\<exists>hp' base'. pop_operands hp base (int p) n = Ok (hp', base') \<and> heap_inv R hp' \<and> cells_only hp hp' \<and>
    length base' = length base \<and> take (p - n) base' = take (p - n) base"
  using assms
proof (induction n arbitrary: hp base p)
  case 0
  then show ?case by auto
next
  case (Suc n)
  obtain q where p: "p = Suc q" using Suc.prems(1) by (cases p) auto
  have q: "q < length base" using Suc.prems(2) p by simp
  then obtain x where x: "base ! q = Some x"
    using Suc.prems(3) p by (cases "base ! q") (auto simp: take_Suc_conv_app_nth)
  have seg: "take (Suc n) (drop (p - Suc n) base) = take n (drop (q - n) base) @ [Some x]"
    using Suc.prems(1) p q x by (simp add: take_Suc_conv_app_nth)
  then have "heap_inv ((R + sum_list (map operand_refs (take n (drop (q - n) base)))) + operand_refs (Some x)) hp"
    using Suc.prems(4) by (simp add: ac_simps)
  from finalize_operand_Ok [OF this] obtain h1 x' where
    h1: "finalize_operand hp x = Ok (h1, x')" "cells_only hp h1"
      "heap_inv (R + sum_list (map operand_refs (take n (drop (q - n) base)))) h1"
    by blast
  let ?b = "base[q := Some x']"
  have b: "take n (drop (q - n) ?b) = take n (drop (q - n) base)" "take q ?b = take q base"
    using Suc.prems(1) p by (simp_all add: take_drop)
  have "None \<notin> set (take q ?b)" using Suc.prems(3) p q by (simp add: take_Suc_conv_app_nth)
  from Suc.IH [of q ?b h1, OF _ _ this] Suc.prems(1) p q h1(3) b obtain h2 b2 where
    r: "pop_operands h1 ?b (int q) n = Ok (h2, b2)" "heap_inv R h2" "cells_only h1 h2"
      "length b2 = length base" "take (q - n) b2 = take (q - n) ?b"
    by auto
  have "pop_operands hp base (int p) (Suc n) = Ok (h2, b2)"
    using h1(1) r(1) x p q by (simp add: slot_def put_slot_def)
  moreover have "take (q - n) ?b = take (q - n) base" using p Suc.prems(1) by simp
  ultimately show ?case using r cells_only_trans [OF h1(2) r(3)] p by auto
qed

subsection \<open>Properties\<close>

text \<open>
  On each of the four stacks \<open>reserve\<close> followed by \<open>push\<close> either reports that there is no
  memory and leaves the state as it was, or adds one item: neither panics nor faults, the items
  below keep their place and contents, growing included, and the other stacks are not touched.
\<close>

theorem stacks_reserve_push:
  assumes "state_ok st"
  shows "(\<exists>err hp' s. lai_exec_reserve_ctxstack hp st = Ok (err, hp', s) \<and>
      (if err = 0 then \<exists>s2 x. lai_exec_push_ctxstack s = Ok s2 \<and> state_ok s2 \<and>
         live_ctx s2 = live_ctx st @ [x] \<and> but_ctx s2 = but_ctx st else s = st)) \<and>
    (\<exists>err hp' s. lai_exec_reserve_blkstack hp st = Ok (err, hp', s) \<and>
      (if err = 0 then \<exists>s2 x. lai_exec_push_blkstack s = Ok s2 \<and> state_ok s2 \<and>
         live_blk s2 = live_blk st @ [x] \<and> but_blk s2 = but_blk st else s = st)) \<and>
    (\<exists>err hp' s. lai_exec_reserve_stack hp st = Ok (err, hp', s) \<and>
      (if err = 0 then \<exists>s2 x. lai_exec_push_stack s = Ok s2 \<and> state_ok s2 \<and>
         live_items s2 = live_items st @ [x] \<and> but_items s2 = but_items st else s = st)) \<and>
    (\<exists>err hp' s. lai_exec_reserve_opstack hp st = Ok (err, hp', s) \<and>
      (if err = 0 then \<exists>s2 x. lai_exec_push_opstack s = Ok s2 \<and> state_ok s2 \<and>
         live_ops s2 = live_ops st @ [x] \<and> but_ops s2 = but_ops st else s = st))"
  by (intro conjI ctxs.reserve_push [OF assms] blks.reserve_push [OF assms]
      items.reserve_push [OF assms] operands.reserve_push [OF assms])

theorem stacks_reserve_push_witness:
  "\<exists>err hp' s. lai_exec_reserve_opstack demo_heap lai_init_state = Ok (err, hp', s) \<and>
    (if err = 0 then \<exists>s2 x. lai_exec_push_opstack s = Ok s2 \<and> state_ok s2 \<and>
       live_ops s2 = live_ops lai_init_state @ [x] \<and> but_ops s2 = but_ops lai_init_state
     else s = lai_init_state)"
  using stacks_reserve_push [OF lai_init_state_ok, of demo_heap] by blast

text \<open>
  \<open>lai_exec_reserve_opstack_n\<close> does not reserve \<open>n\<close> operands: with one free slot it succeeds
  for every \<open>n\<close> without growing the stack, and the second push that a caller then does panics.
\<close>

theorem reserve_opstack_n_reserves_one:
  assumes "state_ok st" and "opstack_ptr st + 1 = opstack_capacity st"
  shows "lai_exec_reserve_opstack_n hp st n = Ok (0, hp, st) \<and>
    bnd (lai_exec_push_opstack st) lai_exec_push_opstack = Panic"
proof
  have one: "lai_exec_reserve_opstack hp st = Ok (0, hp, st)"
    using assms(2) by (simp add: lai_exec_reserve_opstack_def)
  show "lai_exec_reserve_opstack_n hp st n = Ok (0, hp, st)" by (induction n) (simp_all add: one)
  have "room_of (opstack_capacity st) (opstack_ptr st) < 2"
    using assms(2) by (simp add: room_of_def)
  have pushes0: "operands.pushes 0 = Ok" and pushes1: "operands.pushes (Suc 0) = lai_exec_push_opstack"
    by (simp_all add: fun_eq_iff cong: bnd_cong)
  from operands.pushes_overflow [OF assms(1) \<open>room_of _ _ < 2\<close>]
  show "bnd (lai_exec_push_opstack st) lai_exec_push_opstack = Panic"
    by (simp add: numeral_2_eq_2 pushes0 pushes1)
qed

theorem reserve_opstack_n_reserves_one_witness:
  "lai_exec_reserve_opstack_n demo_heap (lai_init_state\<lparr>opstack_ptr := 15\<rparr>) 2 =
      Ok (0, demo_heap, lai_init_state\<lparr>opstack_ptr := 15\<rparr>) \<and>
    bnd (lai_exec_push_opstack (lai_init_state\<lparr>opstack_ptr := 15\<rparr>)) lai_exec_push_opstack = Panic"
  by (rule reserve_opstack_n_reserves_one)
    (simp_all add: state_ok_def slots_ok_def lai_init_state_def small_sizes)

text \<open>
  C19. \<open>lai_finalize_state\<close> releases everything the interpreter state owns, wherever execution
  stopped: it terminates, neither panics nor faults, empties the four stacks, and afterwards
  every counter is exact for the references that are left outside of the state.
\<close>

theorem finalize_state_releases:
  assumes "state_ok st" and "contexts_ok w (live_ctx st)" and "None \<notin> set (live_ops st)"
    and "heap_inv (R + state_refs w st) w"
  shows "\<exists>w' st'. lai_finalize_state w st = Ok (w', st') \<and> heap_inv R w' \<and>
    live_ctx st' = [] \<and> live_blk st' = [] \<and> live_items st' = [] \<and> live_ops st' = []"
proof -
  let ?ops = "sum_list (map operand_refs (live_ops st))"
  have len: "length (live_ctx st) = nat (ctxstack_ptr st + 1)"
    using assms(1) by (auto simp: live_ctx_def state_ok_def slots_ok_def min_def)
  have "heap_inv ((R + ?ops) + contexts_refs w (live_ctx st)) w"
    using assms(4) by (simp add: state_refs_def ac_simps)
  from pop_contexts_Ok [OF refl assms(1,2) this] obtain w1 where
    w1: "pop_contexts (nat (ctxstack_ptr st + 1)) w st = Ok (w1, st\<lparr>ctxstack_ptr := -1\<rparr>)" "heap_inv (R + ?ops) w1"
    by (auto simp: len)
  let ?st = "st\<lparr>ctxstack_ptr := -1, blkstack_ptr := -1, stack_ptr := -1\<rparr>"
  have ptr: "-1 \<le> blkstack_ptr st" "-1 \<le> stack_ptr st" "0 \<le> opstack_ptr st"
      "nat (opstack_ptr st) \<le> length (opstack_base st)"
    using assms(1) by (auto simp: state_ok_def slots_ok_def)
  from pop_operands_Ok [of "nat (opstack_ptr st)" "nat (opstack_ptr st)" "opstack_base st" R w1]
  obtain w2 b where "pop_operands w1 (opstack_base st) (opstack_ptr st) (nat (opstack_ptr st)) = Ok (w2, b)"
      "heap_inv R w2"
    using ptr(3,4) assms(3) w1(2) by (auto simp: live_ops_def)
  then have "lai_finalize_state w st = Ok (w2, ?st\<lparr>opstack_base := b, opstack_ptr := 0\<rparr>)"
    using w1(1) ptr by (simp add: lai_finalize_state_def pop_blocks_Ok pop_items_Ok lai_exec_pop_opstack_def)
  then show ?thesis using \<open>heap_inv R w2\<close> by (simp add: live_defs)
qed

definition busy_world :: "unit lai_world" where
  "busy_world = demo_world\<lparr>cells := cells demo_heap, invocations :=
     [Some \<lparr>iv_arg = demo_string # replicate 6 var0, iv_local = replicate 8 var0, iv_nodes = []\<rparr>]\<rparr>"

definition busy_state :: lai_state where
  "busy_state = lai_init_state\<lparr>
     ctxstack_base := Some (ctxitem0\<lparr>ci_invocation := Some 0\<rparr>) # replicate 7 None, ctxstack_ptr := 0,
     opstack_base := Some (OpObject demo_pkg) # replicate 15 None, opstack_ptr := 1\<rparr>"

theorem finalize_state_releases_witness:
  "\<exists>w' st'. lai_finalize_state busy_world busy_state = Ok (w', st') \<and> heap_inv {#} w' \<and>
    live_ctx st' = [] \<and> live_blk st' = [] \<and> live_items st' = [] \<and> live_ops st' = []"
proof (rule finalize_state_releases)
  show "state_ok busy_state"
    by (simp add: state_ok_def slots_ok_def busy_state_def lai_init_state_def small_sizes)
  have ctx: "live_ctx busy_state = [Some (ctxitem0\<lparr>ci_invocation := Some 0\<rparr>)]"
    by (simp add: busy_state_def live_ctx_def)
  have ops: "live_ops busy_state = [Some (OpObject demo_pkg)]" by (simp add: busy_state_def live_ops_def)
  show "contexts_ok busy_world (live_ctx busy_state)" unfolding ctx
    by (simp add: contexts_ok_def invocation_of_def invocation_ok_def busy_world_def)
  show "None \<notin> set (live_ops busy_state)" by (simp add: ops)
  have "state_refs busy_world busy_state = {#(KStr, PHead 0), (KPkg, PHead 1)#}"
    unfolding state_refs_def ctx ops
    by (simp add: contexts_refs_def invocation_of_def invocation_refs_def busy_world_def operand_refs_def
        demo_refs var_refs_def [of var0] var0_def eval_nat_numeral demo_string_def demo_pkg_def var_refs_def)
  moreover have "heap_inv R busy_world = heap_inv R demo_heap" for R
    by (rule heap_inv_cells) (simp add: busy_world_def)
  ultimately show "heap_inv ({#} + state_refs busy_world busy_state) busy_world"
    using demo_heap_inv by simp
qed

end
