(* ===== verification/Lai_Operand.thy ===== *)
theory Lai_Operand
  imports Lai_Opregion Lai_Stack
begin

text \<open>
  Loads and stores of operands: \<open>lai/core/exec-operand.c\<close>, without the buffer fields, which are
  in \<open>Lai_Bits\<close>.

  A variable that is changed in place lives in an invocation, a node, a package or an operand;
  the functions take the place and return the new world.  \<open>env\<close> bundles what the code gets from
  outside: the hardware, \<open>lai_eval\<close> (which the PCI regions run) and the host functions of the
  operators; while a thread waits in \<open>e_sync_wait\<close> the others may change the world, and \<open>e_rounds\<close>
  bounds the loops that wait for the host.  Messages of \<open>lai_debug\<close> and \<open>lai_warn\<close> have no effect on the state.
\<close>

record 'd exec_env =
  e_host :: "'d host"
  e_eval :: "'d evaluator"
  e_amldebug :: "('d \<Rightarrow> lai_variable \<Rightarrow> 'd) option"
  e_global_notify :: "('d \<Rightarrow> nat \<Rightarrow> u64 \<Rightarrow> 'd) option"
  e_notify :: "nat \<Rightarrow> 'd \<Rightarrow> nat \<Rightarrow> u64 \<Rightarrow> bool \<times> 'd"
  e_timer :: "('d \<Rightarrow> u64 \<times> 'd) option"
  e_sleep :: "('d \<Rightarrow> u64 \<Rightarrow> 'd) option"
  e_memcmp :: "u8 list \<Rightarrow> u8 list \<Rightarrow> nat \<Rightarrow> int outcome"
  e_sync_wait :: "('d lai_world \<Rightarrow> nat \<Rightarrow> u32 \<Rightarrow> u64 \<Rightarrow> 'd lai_world \<times> bool) option"
  e_sync_wake :: "('d lai_world \<Rightarrow> nat \<Rightarrow> 'd lai_world) option"
  e_rounds :: nat

subsection \<open>The variables of an invocation\<close>

definition invocation :: "'d lai_world \<Rightarrow> nat \<Rightarrow> lai_invocation outcome" where
  "invocation w k = bnd (rd (invocations w) k) (\<lambda>iv. case iv of None \<Rightarrow> Fault | Some iv \<Rightarrow> Ok iv)"

definition put_invocation :: "'d lai_world \<Rightarrow> nat \<Rightarrow> lai_invocation \<Rightarrow> 'd lai_world" where
  "put_invocation w k iv = w\<lparr>invocations := (invocations w)[k := Some iv]\<rparr>"

definition load_arg :: "'d lai_world \<Rightarrow> nat \<Rightarrow> nat \<Rightarrow> lai_variable outcome" where
  "load_arg w k i = bnd (invocation w k) (\<lambda>iv. rd (iv_arg iv) i)"

definition load_local :: "'d lai_world \<Rightarrow> nat \<Rightarrow> nat \<Rightarrow> lai_variable outcome" where
  "load_local w k i = bnd (invocation w k) (\<lambda>iv. rd (iv_local iv) i)"

definition assign_arg :: "'d lai_world \<Rightarrow> nat \<Rightarrow> nat \<Rightarrow> lai_variable \<Rightarrow> 'd lai_world outcome" where
  "assign_arg w k i object =
     bnd (load_arg w k i) (\<lambda>old.
     bnd (lai_var_assign w old object) (\<lambda>(w, v).
     bnd (invocation w k) (\<lambda>iv.
     Ok (put_invocation w k (iv\<lparr>iv_arg := (iv_arg iv)[i := v]\<rparr>)))))"

definition assign_local :: "'d lai_world \<Rightarrow> nat \<Rightarrow> nat \<Rightarrow> lai_variable \<Rightarrow> 'd lai_world outcome" where
  "assign_local w k i object =
     bnd (load_local w k i) (\<lambda>old.
     bnd (lai_var_assign w old object) (\<lambda>(w, v).
     bnd (invocation w k) (\<lambda>iv.
     Ok (put_invocation w k (iv\<lparr>iv_local := (iv_local iv)[i := v]\<rparr>)))))"

text \<open>The invocation of the running method: \<open>ctxitem->invocation\<close> of the top context.\<close>

definition current_context :: "lai_state \<Rightarrow> lai_ctxitem outcome" where
  "current_context st = (case lai_exec_peek_ctxstack_back st of
     None \<Rightarrow> Fault | Some p \<Rightarrow> slot (ctxstack_base st) p)"

definition current_invocation :: "lai_state \<Rightarrow> nat outcome" where
  "current_invocation st = bnd (current_context st) (\<lambda>ctxitem.
     case ci_invocation ctxitem of None \<Rightarrow> Panic | Some k \<Rightarrow> Ok k)"

subsection \<open>Named objects\<close>

definition buffer_field_of :: "lai_nsnode \<Rightarrow> (nat \<times> u64 \<times> u64) outcome" where
  "buffer_field_of n = (case n_data n of NdBuffer buf offset siz \<Rightarrow> Ok (buf, offset, siz) | _ \<Rightarrow> Fault)"

definition lai_exec_access :: "'d exec_env \<Rightarrow> 'd lai_world \<Rightarrow> lai_variable \<Rightarrow> nat \<Rightarrow>
    ('d lai_world \<times> lai_variable) outcome" where
  "lai_exec_access env w object src =
     bnd (node w src) (\<lambda>n.
     let handle = Ok (w, object\<lparr>v_type := LAI_HANDLE, v_handle := Some src\<rparr>) in
     case n_type n of
       LAI_NAMESPACE_NAME \<Rightarrow> lai_var_assign w object (n_object n)
     | LAI_NAMESPACE_FIELD \<Rightarrow> lai_read_opregion (e_host env) (e_eval env) w object src
     | LAI_NAMESPACE_INDEXFIELD \<Rightarrow> lai_read_opregion (e_host env) (e_eval env) w object src
     | LAI_NAMESPACE_BANKFIELD \<Rightarrow> lai_read_opregion (e_host env) (e_eval env) w object src
     | LAI_NAMESPACE_BUFFER_FIELD \<Rightarrow>
         bnd (buffer_field_of n) (\<lambda>(buf, offset, siz).
         bnd (lai_read_buffer w object buf offset siz) (\<lambda>object. Ok (w, object)))
     | LAI_NAMESPACE_EVENT \<Rightarrow> handle
     | LAI_NAMESPACE_MUTEX \<Rightarrow> handle
     | LAI_NAMESPACE_OPREGION \<Rightarrow> handle
     | LAI_NAMESPACE_THERMALZONE \<Rightarrow> handle
     | LAI_NAMESPACE_PROCESSOR \<Rightarrow> handle
     | LAI_NAMESPACE_POWERRESOURCE \<Rightarrow> handle
     | LAI_NAMESPACE_DEVICE \<Rightarrow> handle
     | _ \<Rightarrow> Panic)"

definition assign_object :: "'d lai_world \<Rightarrow> nat \<Rightarrow> lai_variable \<Rightarrow> 'd lai_world outcome" where
  "assign_object w target object =
     bnd (node w target) (\<lambda>n.
     bnd (lai_var_assign w (n_object n) object) (\<lambda>(w, v).
     Ok (put_node w target (n\<lparr>n_object := v\<rparr>))))"

definition lai_store_ns :: "'d exec_env \<Rightarrow> 'd lai_world \<Rightarrow> nat \<Rightarrow> lai_variable \<Rightarrow> 'd lai_world outcome" where
  "lai_store_ns env w target object =
     bnd (node w target) (\<lambda>n. case n_type n of
       LAI_NAMESPACE_NAME \<Rightarrow> assign_object w target object
     | LAI_NAMESPACE_FIELD \<Rightarrow> lai_write_opregion (e_host env) (e_eval env) w target object
     | LAI_NAMESPACE_INDEXFIELD \<Rightarrow> lai_write_opregion (e_host env) (e_eval env) w target object
     | LAI_NAMESPACE_BANKFIELD \<Rightarrow> lai_write_opregion (e_host env) (e_eval env) w target object
     | LAI_NAMESPACE_BUFFER_FIELD \<Rightarrow>
         bnd (buffer_field_of n) (\<lambda>(buf, offset, siz). lai_write_buffer w buf offset siz object)
     | _ \<Rightarrow> Panic)"

subsection \<open>References\<close>

definition iref :: "lai_variable \<Rightarrow> (nat \<times> nat) outcome" where
  "iref ref = (case v_ptr ref of PIref k i \<Rightarrow> Ok (k, i) | _ \<Rightarrow> Fault)"

definition handle_of :: "lai_variable \<Rightarrow> nat outcome" where
  "handle_of ref = (case v_handle ref of Some p \<Rightarrow> Ok p | None \<Rightarrow> Fault)"

definition lai_exec_ref_load :: "'d exec_env \<Rightarrow> 'd lai_world \<Rightarrow> lai_variable \<Rightarrow> lai_variable \<Rightarrow>
    ('d lai_world \<times> lai_variable) outcome" where
  "lai_exec_ref_load env w object ref = (case v_type ref of
     LAI_ARG_REF \<Rightarrow>
       bnd (iref ref) (\<lambda>(k, i). bnd (load_arg w k i) (\<lambda>v. lai_var_assign w object v))
   | LAI_LOCAL_REF \<Rightarrow>
       bnd (iref ref) (\<lambda>(k, i). bnd (load_local w k i) (\<lambda>v. lai_var_assign w object v))
   | LAI_NODE_REF \<Rightarrow> bnd (handle_of ref) (\<lambda>p. lai_exec_access env w object p)
   | _ \<Rightarrow> Panic)"

definition lai_exec_ref_store :: "'d exec_env \<Rightarrow> 'd lai_world \<Rightarrow> lai_variable \<Rightarrow> lai_variable \<Rightarrow>
    'd lai_world outcome" where
  "lai_exec_ref_store env w ref object = (case v_type ref of
     LAI_ARG_REF \<Rightarrow> bnd (iref ref) (\<lambda>(k, i). assign_arg w k i object)
   | LAI_LOCAL_REF \<Rightarrow> bnd (iref ref) (\<lambda>(k, i). assign_local w k i object)
   | LAI_NODE_REF \<Rightarrow> bnd (handle_of ref) (\<lambda>p. lai_store_ns env w p object)
   | _ \<Rightarrow> Panic)"

subsection \<open>Loads\<close>

definition lai_operand_load :: "'d exec_env \<Rightarrow> 'd lai_world \<Rightarrow> lai_state \<Rightarrow> lai_operand \<Rightarrow>
    lai_variable \<Rightarrow> ('d lai_world \<times> lai_variable) outcome" where
  "lai_operand_load env w st src object = (case src of
     OpArg i \<Rightarrow>
       bnd (current_invocation st) (\<lambda>k. bnd (load_arg w k i) (\<lambda>v. lai_var_assign w object v))
   | OpLocal i \<Rightarrow>
       bnd (current_invocation st) (\<lambda>k. bnd (load_local w k i) (\<lambda>v. lai_var_assign w object v))
   | OpResolved p \<Rightarrow> (case p of None \<Rightarrow> Fault | Some p \<Rightarrow> lai_exec_access env w object p)
   | _ \<Rightarrow> Panic)"

definition lai_exec_get_objectref :: "'w lai_heap_scheme \<Rightarrow> lai_operand \<Rightarrow> lai_variable \<Rightarrow>
    ('w lai_heap_scheme \<times> lai_variable) outcome" where
  "lai_exec_get_objectref w src object = (case src of
     OpObject v \<Rightarrow> lai_var_assign w object v | _ \<Rightarrow> Panic)"

definition lai_exec_get_integer :: "'w lai_heap_scheme \<Rightarrow> lai_operand \<Rightarrow> lai_variable \<Rightarrow>
    (lai_api_error \<times> 'w lai_heap_scheme \<times> lai_variable) outcome" where
  "lai_exec_get_integer w src object = (case src of
     OpObject v \<Rightarrow>
       bnd (lai_var_assign w var0 v) (\<lambda>(w, temp).
       if v_type temp = LAI_NONE then Ok (LAI_ERROR_EXECUTION_FAILURE, w, object)
       else
         ensure (v_type temp = LAI_INTEGER) (
         bnd (lai_var_move w object temp) (\<lambda>(w, object, _). Ok (LAI_ERROR_NONE, w, object))))
   | _ \<Rightarrow> Panic)"

subsection \<open>Stores\<close>

text \<open>The loop that copies a package into the target: the variable \<open>temp\<close> is not released.\<close>

fun mutate_pkg_elems :: "'w lai_heap_scheme \<Rightarrow> lai_variable \<Rightarrow> lai_variable \<Rightarrow> nat list \<Rightarrow>
    'w lai_heap_scheme outcome" where
  "mutate_pkg_elems w target object [] = Ok w"
| "mutate_pkg_elems w target object (i # is) =
     bnd (lai_exec_pkg_load w var0 object i) (\<lambda>(w, temp).
     bnd (lai_exec_pkg_store w temp target i) (\<lambda>w.
     mutate_pkg_elems w target object is))"

definition mutate_named :: "'d lai_world \<Rightarrow> nat \<Rightarrow> lai_nsnode \<Rightarrow> lai_variable \<Rightarrow> 'd lai_world outcome" where
  "mutate_named w target n object = (case v_type (n_object n) of
     LAI_INTEGER \<Rightarrow>
       bnd (lai_mutate_integer w (n_object n) object) (\<lambda>(e, w, v).
       ensure (e = LAI_ERROR_NONE) (Ok (put_node w target (n\<lparr>n_object := v\<rparr>))))
   | LAI_STRING \<Rightarrow>
       bnd (lai_mutate_string w (n_object n) object) (\<lambda>(e, w). ensure (e = LAI_ERROR_NONE) (Ok w))
   | LAI_BUFFER \<Rightarrow>
       bnd (lai_mutate_buffer w (n_object n) object) (\<lambda>(e, w). ensure (e = LAI_ERROR_NONE) (Ok w))
   | LAI_PACKAGE \<Rightarrow>
       ensure (v_type object = LAI_PACKAGE) (
       bnd (lai_exec_pkg_size w object) (\<lambda>m.
       bnd (lai_obj_resize_pkg w (n_object n) m) (\<lambda>(e, w).
       ensure (e = LAI_ERROR_NONE) (mutate_pkg_elems w (n_object n) object [0..<m]))))
   | _ \<Rightarrow> assign_object w target object)"

definition lai_exec_mutate_ns :: "'d exec_env \<Rightarrow> 'd lai_world \<Rightarrow> nat \<Rightarrow> lai_variable \<Rightarrow>
    'd lai_world outcome" where
  "lai_exec_mutate_ns env w target object =
     bnd (node w target) (\<lambda>n. case n_type n of
       LAI_NAMESPACE_NAME \<Rightarrow> mutate_named w target n object
     | LAI_NAMESPACE_FIELD \<Rightarrow> lai_write_opregion (e_host env) (e_eval env) w target object
     | LAI_NAMESPACE_INDEXFIELD \<Rightarrow> lai_write_opregion (e_host env) (e_eval env) w target object
     | LAI_NAMESPACE_BANKFIELD \<Rightarrow> lai_write_opregion (e_host env) (e_eval env) w target object
     | LAI_NAMESPACE_BUFFER_FIELD \<Rightarrow>
         bnd (buffer_field_of n) (\<lambda>(buf, offset, siz). lai_write_buffer w buf offset siz object)
     | _ \<Rightarrow> Panic)"

text \<open>Stores through an index, which both kinds of store do in the same way.\<close>

definition store_index :: "'w lai_heap_scheme \<Rightarrow> lai_variable \<Rightarrow> lai_variable \<Rightarrow>
    'w lai_heap_scheme outcome" where
  "store_index w dest object = (case v_type dest of
     LAI_STRING_INDEX \<Rightarrow>
       bnd (string_head w (v_ptr dest)) (\<lambda>(a, s).
       bnd (wr (s_content s) (unat (v_integer dest)) (ucast (v_integer object))) (\<lambda>c.
       Ok (put_string w a s c)))
   | LAI_BUFFER_INDEX \<Rightarrow>
       bnd (buffer_head w (v_ptr dest)) (\<lambda>(a, b).
       bnd (wr (b_content b) (unat (v_integer dest)) (ucast (v_integer object))) (\<lambda>c.
       Ok (put_buffer w a b c)))
   | LAI_PACKAGE_INDEX \<Rightarrow>
       bnd (lai_var_assign w var0 object) (\<lambda>(w, copy).
       bnd (pkg_head w (v_ptr dest)) (\<lambda>(a, _).
       bnd (elem_assign w a (unat (v_integer dest)) copy) (\<lambda>w.
       lai_var_finalize w copy)))
   | _ \<Rightarrow> Panic)"

text \<open>Stores to an argument that holds a reference go to what it refers to.\<close>

definition store_arg :: "'d exec_env \<Rightarrow> 'd lai_world \<Rightarrow> lai_state \<Rightarrow> nat \<Rightarrow> lai_variable \<Rightarrow>
    'd lai_world outcome" where
  "store_arg env w st i object =
     bnd (current_invocation st) (\<lambda>k.
     bnd (load_arg w k i) (\<lambda>arg_var.
     if v_type arg_var \<in> {LAI_ARG_REF, LAI_LOCAL_REF, LAI_NODE_REF}
     then lai_exec_ref_store env w arg_var object
     else assign_arg w k i object))"

definition store_debug :: "'d exec_env \<Rightarrow> 'd lai_world \<Rightarrow> lai_variable \<Rightarrow> 'd lai_world outcome" where
  "store_debug env w object = (case e_amldebug env of
     Some f \<Rightarrow> Ok (w\<lparr>dev := f (dev w) object\<rparr>)
   | None \<Rightarrow> (case v_type object of
       LAI_STRING \<Rightarrow> bnd (lai_exec_string_access w object) (\<lambda>_. Ok w)
     | LAI_BUFFER \<Rightarrow> bnd (lai_exec_buffer_access w object) (\<lambda>_. Ok w)
     | _ \<Rightarrow> Ok w))"

definition lai_operand_mutate :: "'d exec_env \<Rightarrow> 'd lai_world \<Rightarrow> lai_state \<Rightarrow> lai_operand \<Rightarrow>
    lai_variable \<Rightarrow> 'd lai_world outcome" where
  "lai_operand_mutate env w st dest object = (case dest of
     OpObject v \<Rightarrow> store_index w v object
   | OpNull \<Rightarrow> Ok w
   | OpResolved p \<Rightarrow> (case p of None \<Rightarrow> Fault | Some p \<Rightarrow> lai_exec_mutate_ns env w p object)
   | OpArg i \<Rightarrow> store_arg env w st i object
   | OpLocal i \<Rightarrow> bnd (current_invocation st) (\<lambda>k. assign_local w k i object)
   | OpDebug \<Rightarrow> store_debug env w object
   | _ \<Rightarrow> Panic)"

definition lai_operand_emplace :: "'d exec_env \<Rightarrow> 'd lai_world \<Rightarrow> lai_state \<Rightarrow> lai_operand \<Rightarrow>
    lai_variable \<Rightarrow> 'd lai_world outcome" where
  "lai_operand_emplace env w st dest object = (case dest of
     OpObject v \<Rightarrow> store_index w v object
   | OpNull \<Rightarrow> Ok w
   | OpResolved p \<Rightarrow> (case p of None \<Rightarrow> Fault | Some p \<Rightarrow> lai_store_ns env w p object)
   | OpArg i \<Rightarrow> store_arg env w st i object
   | OpLocal i \<Rightarrow> bnd (current_invocation st) (\<lambda>k. assign_local w k i object)
   | OpDebug \<Rightarrow> store_debug env w object
   | _ \<Rightarrow> Panic)"

subsection \<open>Stores into variables\<close>

lemma invocation_eq: "invocation_ok w k \<Longrightarrow> invocation w k = Ok (the (invocations w ! k))"
  by (auto simp: invocation_ok_def invocation_def)

lemma invocation_put:
  assumes "k < length (invocations w)"
  shows "invocation (put_invocation w k iv) j = (if j = k then Ok iv else invocation w j)"
  using assms by (auto simp: invocation_def put_invocation_def rd_def)

lemma invocation_cells: "cells_only w w' \<Longrightarrow> invocation w' k = invocation w k"
  by (simp add: invocation_def cells_only_world)

lemma cells_only_ref: "var_ref hp v = Ok hp' \<Longrightarrow> cells_only hp hp'"
  unfolding var_ref_def by (elim bnd_OkE) (auto elim!: bnd_OkE split: option.splits prod.splits)

lemma cells_only_assign: "lai_var_assign hp dest src = Ok (hp', v) \<Longrightarrow> cells_only hp hp'"
  unfolding lai_var_assign_eq
  by (elim bnd_OkE) (auto intro: cells_only_trans [OF cells_only_ref cells_only_finalize])

text \<open>An assignment to a variable that is counted with others among the roots.\<close>

lemma assign_root:
  assumes "heap_inv (R + S) w" and "S = T + var_refs old" and "var_refs v \<subseteq># R + S + heap_refs w"
  shows "\<exists>w'. lai_var_assign w old v = Ok (w', v) \<and> heap_inv (R + (T + var_refs v)) w' \<and> cells_only w w'"
proof -
  have "heap_inv ((R + T) + var_refs old) w" using assms(1,2) by (simp add: ac_simps)
  moreover have "var_refs v \<subseteq># (R + T) + var_refs old + heap_refs w"
    using assms(2,3) by (simp add: ac_simps)
  ultimately obtain w' where "bnd (var_ref w v) (\<lambda>h. lai_var_finalize h old) = Ok w'"
      "heap_inv ((R + T) + var_refs v) w'"
    using vars.replace_inv by blast
  then have "lai_var_assign w old v = Ok (w', v)" "heap_inv (R + (T + var_refs v)) w'"
    by (simp_all add: lai_var_assign_eq ac_simps)
  then show ?thesis using cells_only_assign by blast
qed

lemma sum_refs_update:
  assumes "i < length xs"
  shows "\<exists>T. sum_list (map var_refs xs) = T + var_refs (xs ! i) \<and>
    (\<forall>v. sum_list (map var_refs (xs[i := v])) = T + var_refs v)"
proof -
  have xs: "xs = take i xs @ xs ! i # drop (Suc i) xs" by (rule id_take_nth_drop [OF assms])
  let ?T = "sum_list (map var_refs (take i xs)) + sum_list (map var_refs (drop (Suc i) xs))"
  have "sum_list (map var_refs xs) = ?T + var_refs (xs ! i)" by (subst xs) (simp add: ac_simps)
  moreover have "sum_list (map var_refs (xs[i := v])) = ?T + var_refs v" for v
    using assms by (simp add: upd_conv_take_nth_drop ac_simps)
  ultimately show ?thesis by blast
qed

lemma heap_inv_put_invocation: "heap_inv R (put_invocation w k iv) = heap_inv R w"
  by (rule heap_inv_cells) (simp add: put_invocation_def)

lemma assign_local_Ok:
  assumes ok: "invocation_ok w k" and i: "i < 8" and inv: "heap_inv (R + invocation_refs w k) w"
    and v: "var_refs v \<subseteq># R + invocation_refs w k + heap_refs w"
  shows "\<exists>w'. assign_local w k i v = Ok w' \<and> heap_inv (R + invocation_refs w' k) w' \<and> invocation_ok w' k \<and>
    (\<forall>j. load_local w' k j = (if j = i then Ok v else load_local w k j)) \<and>
    (\<forall>j. load_arg w' k j = load_arg w k j) \<and> (\<forall>l. l \<noteq> k \<longrightarrow> invocation w' l = invocation w l)"
proof -
  from ok obtain iv where iv: "k < length (invocations w)" "invocations w ! k = Some iv"
      "length (iv_arg iv) = 7" "length (iv_local iv) = 8"
    by (auto simp: invocation_ok_def)
  have here: "invocation w k = Ok iv" using iv by (simp add: invocation_def)
  obtain T where T: "sum_list (map var_refs (iv_local iv)) = T + var_refs (iv_local iv ! i)"
      "\<And>v. sum_list (map var_refs ((iv_local iv)[i := v])) = T + var_refs v"
    using sum_refs_update [of i "iv_local iv"] i iv(4) by auto
  let ?A = "sum_list (map var_refs (iv_arg iv))"
  have S: "invocation_refs w k = (?A + T) + var_refs (iv_local iv ! i)"
    using iv T by (simp add: invocation_refs_def ac_simps)
  from assign_root [OF inv S v] obtain w1 where w1: "lai_var_assign w (iv_local iv ! i) v = Ok (w1, v)"
      "heap_inv (R + ((?A + T) + var_refs v)) w1" "cells_only w w1"
    by blast
  let ?iv = "iv\<lparr>iv_local := (iv_local iv)[i := v]\<rparr>"
  let ?w = "put_invocation w1 k ?iv"
  have len: "k < length (invocations w1)" using iv(1) cells_only_world(1) [OF w1(3)] by simp
  have step: "assign_local w k i v = Ok ?w"
    using here iv i w1(1) invocation_cells [OF w1(3), of k] by (simp add: assign_local_def load_local_def)
  have refs: "invocation_refs ?w k = (?A + T) + var_refs v"
    using len T(2) by (simp add: invocation_refs_def put_invocation_def ac_simps)
  have all: "invocation ?w j = (if j = k then Ok ?iv else invocation w j)" for j
    using invocation_put [OF len, of ?iv j] invocation_cells [OF w1(3), of j] by simp
  have "heap_inv (R + invocation_refs ?w k) ?w"
    unfolding refs heap_inv_put_invocation by (rule w1(2))
  moreover have "invocation_ok ?w k" using len iv by (simp add: invocation_ok_def put_invocation_def)
  ultimately show ?thesis
    using step all iv i here by (auto simp: load_local_def load_arg_def rd_def)
qed

subsection \<open>Properties\<close>

text \<open>
  C20. A store to a local variable of the running method (\<open>lai_operand_mutate\<close>) is seen by the
  next load of it (\<open>lai_operand_load\<close>), changes no other local and no argument, and keeps every
  reference counter exact; neither panics nor faults.
\<close>

theorem local_store_load:
  assumes cur: "current_invocation st = Ok k" and ok: "invocation_ok w k" and i: "i < 8"
    and inv: "heap_inv (R + invocation_refs w k) w"
    and v: "var_refs v \<subseteq># R + invocation_refs w k + heap_refs w"
  shows "\<exists>w' w''. lai_operand_mutate env w st (OpLocal i) v = Ok w' \<and>
    (\<forall>j. load_local w' k j = (if j = i then Ok v else load_local w k j)) \<and>
    (\<forall>j. load_arg w' k j = load_arg w k j) \<and>
    heap_inv (R + invocation_refs w' k) w' \<and>
    lai_operand_load env w' st (OpLocal i) var0 = Ok (w'', v) \<and>
    heap_inv (R + invocation_refs w' k + var_refs v) w''"
proof -
  from assign_local_Ok [OF ok i inv v] obtain w' where w': "assign_local w k i v = Ok w'"
      "heap_inv (R + invocation_refs w' k) w'" "invocation_ok w' k"
      "\<And>j. load_local w' k j = (if j = i then Ok v else load_local w k j)"
      "\<And>j. load_arg w' k j = load_arg w k j"
    by blast
  from w'(3) obtain iv where iv: "invocation w' k = Ok iv" "invocations w' ! k = Some iv"
    by (auto simp: invocation_ok_def invocation_def)
  have "i < length (iv_local iv)" "iv_local iv ! i = v"
    using w'(4) [of i] iv(1) by (simp_all add: load_local_def rd_eq_Ok)
  then have "var_refs v \<in> set (map var_refs (iv_local iv))" by (metis length_map nth_map nth_mem)
  then have "var_refs v \<subseteq># sum_list (map var_refs (iv_local iv))"
    by (metis mset_subset_eq_add_left sum_list.Cons split_list sum_list_append union_commute union_assoc)
  then have "var_refs v \<subseteq># invocation_refs w' k"
    using iv(2) by (simp add: invocation_refs_def subset_mset.add_increasing)
  then have "var_refs v \<subseteq># (R + invocation_refs w' k) + heap_refs w'"
    by (simp add: subset_mset.add_increasing subset_mset.add_increasing2)
  from vars.take_law [OF w'(2) this] obtain w'' where
    "var_ref w' v = Ok w''" "heap_inv (R + invocation_refs w' k + var_refs v) w''" by blast
  moreover from this have "lai_operand_load env w' st (OpLocal i) var0 = Ok (w'', v)"
    using cur w'(4) [of i] by (simp add: lai_operand_load_def lai_var_assign_def lai_var_move_var0)
  ultimately show ?thesis using w' cur by (auto simp: lai_operand_mutate_def)
qed

text \<open>
  A store to an argument that holds a reference to a local writes that local, of whatever
  invocation it is, and leaves the argument itself as it is.
\<close>

theorem arg_reference_store:
  assumes cur: "current_invocation st = Ok k" and arg: "load_arg w k i = Ok r"
    and r: "v_type r = LAI_LOCAL_REF" "v_ptr r = PIref l j"
    and ok: "invocation_ok w l" and j: "j < 8" and inv: "heap_inv (R + invocation_refs w l) w"
    and v: "var_refs v \<subseteq># R + invocation_refs w l + heap_refs w"
  shows "\<exists>w'. lai_operand_mutate env w st (OpArg i) v = Ok w' \<and> load_local w' l j = Ok v \<and>
    load_arg w' k i = Ok r \<and> heap_inv (R + invocation_refs w' l) w'"
proof -
  from assign_local_Ok [OF ok j inv v] obtain w' where w': "assign_local w l j v = Ok w'"
      "heap_inv (R + invocation_refs w' l) w'" "\<And>n. load_local w' l n = (if n = j then Ok v else load_local w l n)"
      "\<And>n. load_arg w' l n = load_arg w l n" "\<And>m. m \<noteq> l \<Longrightarrow> invocation w' m = invocation w m"
    by blast
  have "load_arg w' k i = Ok r"
    using arg w'(4,5) by (cases "k = l") (simp_all add: load_arg_def)
  then show ?thesis
    using w' cur arg r
    by (simp add: lai_operand_mutate_def store_arg_def lai_exec_ref_store_def iref_def)
qed

text \<open>
  A reference to a local variable does not keep the invocation it points into: when the
  context of the method is popped, a load through the reference reads freed memory.
\<close>

theorem local_reference_dangles:
  assumes pop: "lai_exec_pop_ctxstack_back w st = Ok (w', st')"
    and top: "current_invocation st = Ok k"
    and r: "v_type r = LAI_LOCAL_REF" "v_ptr r = PIref k j"
  shows "lai_exec_ref_load env w' object r = Fault"
proof -
  from top obtain p c where p: "lai_exec_peek_ctxstack_back st = Some p" "slot (ctxstack_base st) p = Ok c"
      "ci_invocation c = Some k"
    by (auto simp: current_invocation_def current_context_def bnd_eq_Ok split: option.splits)
  have "ctxstack_ptr st = p" using p(1) by (simp add: lai_exec_peek_ctxstack_back_def split: if_splits)
  with pop p have "free_invocation w k = Ok w'"
    by (auto simp: lai_exec_pop_ctxstack_back_def ensure_eq_Ok bnd_eq_Ok)
  then obtain w1 where "w' = w1\<lparr>invocations := (invocations w1)[k := None]\<rparr>"
    by (auto simp: free_invocation_def bnd_eq_Ok split: option.splits)
  then have "invocation w' k = Fault"
    by (cases "k < length (invocations w1)") (simp_all add: invocation_def rd_def)
  then show ?thesis using r by (simp add: lai_exec_ref_load_def iref_def load_local_def)
qed

subsection \<open>Storing a package into a named package\<close>

lemma elem_refs:
  assumes "cell hp b = Some (HPkg g)" and "p_rc g \<noteq> 0" and "i < p_size g" and "p_size g \<le> length (p_elems g)"
  shows "var_refs (p_elems g ! i) \<subseteq># heap_refs hp"
proof -
  have "var_refs (p_elems g ! i) \<subseteq># head_refs (HPkg g)"
  proof -
    have "p_elems g ! i \<in> set (take (p_size g) (p_elems g))"
      using assms(3,4) by (metis length_take min.absorb2 nth_mem nth_take)
    then obtain xs ys where "take (p_size g) (p_elems g) = xs @ p_elems g ! i # ys" by (meson split_list)
    then show ?thesis using assms(2) by (simp add: subset_mset.add_increasing)
  qed
  moreover have "heap_refs hp = heap_refs (put_cell hp b None) + head_refs (HPkg g)"
    using heap_refs_put [OF assms(1), of None] by (simp add: cell_refs_def)
  ultimately show ?thesis by (simp add: subset_mset.add_increasing)
qed

lemma finalize_uncounted: "counted (v_type v) = None \<Longrightarrow> lai_var_finalize hp v = Ok hp"
  by (cases "length (cells hp)") (simp_all add: lai_var_finalize_def var_unref_def counted_head_def)

text \<open>A package as long as \<open>g\<close> with the same elements, whatever its counter is now.\<close>

definition pkg_like :: "'w lai_heap_scheme \<Rightarrow> nat \<Rightarrow> lai_variable list \<Rightarrow> nat \<Rightarrow> bool" where
  "pkg_like hp a es m \<longleftrightarrow> (\<exists>g. cell hp a = Some (HPkg g) \<and> p_elems g = es \<and> p_size g = m)"

lemma pkg_like_ref: "pkg_like hp a es m \<Longrightarrow> var_ref hp v = Ok hp' \<Longrightarrow> pkg_like hp' a es m"
  by (auto simp: pkg_like_def dest!: var_ref_cells)

lemma inv_pkg:
  assumes "heap_inv R hp" and "cell hp a = Some (HPkg g)"
  shows "p_rc g \<noteq> 0" and "p_size g \<le> length (p_elems g)"
proof -
  have "rc_ok R hp" "dead hp = {}" using assms(1) by (auto simp: heap_inv_def)
  then have "head_rc (HPkg g) \<noteq> 0" "head_ok (HPkg g)"
    using assms(2) rc_okD(1) [of R hp a "HPkg g"] unfolding dead_def by blast+
  then show "p_rc g \<noteq> 0" "p_size g \<le> length (p_elems g)" by simp_all
qed

lemma elem_assign_uncounted:
  assumes inv: "heap_inv R hp" and a: "pkg_like hp a es m" and i: "i < m" and old: "counted (v_type (es ! i)) = None"
    and v: "var_refs v \<subseteq># R + heap_refs hp" and b: "b \<noteq> a" "pkg_like hp b fs n"
  shows "\<exists>hp'. elem_assign hp a i v = Ok hp' \<and> heap_inv R hp' \<and> pkg_like hp' a (es[i := v]) m \<and> pkg_like hp' b fs n"
proof -
  from a obtain g where g: "cell hp a = Some (HPkg g)" "p_elems g = es" "p_size g = m" by (auto simp: pkg_like_def)
  from elem_assign_correct [OF inv g(1) _ v] i g(3) obtain hp' where hp': "elem_assign hp a i v = Ok hp'" "heap_inv R hp'"
    by blast
  from hp'(1) obtain h1 where h1: "var_ref hp v = Ok h1" "elem_move h1 a i v = Ok hp'"
    by (auto simp: elem_assign_def bnd_eq_Ok)
  from pkg_like_ref [OF a h1(1)] obtain g1 where g1: "cell h1 a = Some (HPkg g1)" "p_elems g1 = es" "p_size g1 = m"
    by (auto simp: pkg_like_def)
  have "i < length es" using inv_pkg(2) [OF inv g(1)] g i by simp
  then have "hp' = put_cell h1 a (Some (HPkg (g1\<lparr>p_elems := es[i := v]\<rparr>)))"
    using h1(2) g1 old
    by (simp add: elem_move_def pkg_elem_def set_elem_def pkg_head_def deref_def finalize_uncounted)
  then have "pkg_like hp' a (es[i := v]) m" "pkg_like hp' b fs n"
    using g1 cell_Some_lt [OF g1(1)] b(1) pkg_like_ref [OF b(2) h1(1)]
    by (auto simp: pkg_like_def cell_put_cell)
  then show ?thesis using hp' by blast
qed

lemma mutate_pkg_elems_leaks:
  assumes "heap_inv R w" and "pkg_like w a es m" and "pkg_like w b fs m" and "a \<noteq> b"
    and "\<forall>i \<in> set is. i < m \<and> counted (v_type (es ! i)) = None" and "distinct is"
    and t: "v_type target = LAI_PACKAGE" "v_ptr target = PHead a"
    and s: "v_type source = LAI_PACKAGE" "v_ptr source = PHead b"
  shows "\<exists>w'. mutate_pkg_elems w target source is = Ok w' \<and>
    heap_inv (R + sum_list (map (\<lambda>i. var_refs (fs ! i)) is)) w'"
  using assms(1-6)
proof (induction "is" arbitrary: w R es)
  case Nil
  then show ?case by simp
next
  case (Cons i "is")
  from Cons.prems(3) obtain gb where gb: "cell w b = Some (HPkg gb)" "p_elems gb = fs" "p_size gb = m"
    by (auto simp: pkg_like_def)
  have i: "i < m" "i < length fs" "counted (v_type (es ! i)) = None"
    using Cons.prems(5) inv_pkg(2) [OF Cons.prems(1) gb(1)] gb by auto
  have "var_refs (fs ! i) \<subseteq># heap_refs w"
    using elem_refs [OF gb(1)] inv_pkg [OF Cons.prems(1) gb(1)] gb i by simp
  then have "var_refs (fs ! i) \<subseteq># R + heap_refs w" by (simp add: subset_mset.add_increasing)
  from vars.take_law [OF Cons.prems(1) this] obtain w1 where
    w1: "var_ref w (fs ! i) = Ok w1" "heap_inv (R + var_refs (fs ! i)) w1" by blast
  have load: "lai_exec_pkg_load w var0 source i = Ok (w1, fs ! i)"
    using s gb i w1(1)
    by (simp add: lai_exec_pkg_load_def pkg_head_def deref_def pkg_elem_def lai_var_assign_def lai_var_move_var0)
  have like: "pkg_like w1 a es m" "pkg_like w1 b fs m"
    using pkg_like_ref [OF Cons.prems(2) w1(1)] pkg_like_ref [OF Cons.prems(3) w1(1)] .
  from elem_assign_uncounted [OF w1(2) like(1) i(1,3), of "fs ! i" b] Cons.prems(4) like(2) obtain w2 where
    w2: "elem_assign w1 a i (fs ! i) = Ok w2" "heap_inv (R + var_refs (fs ! i)) w2"
      "pkg_like w2 a (es[i := fs ! i]) m" "pkg_like w2 b fs m"
    by auto
  have store: "lai_exec_pkg_store w1 (fs ! i) target i = Ok w2"
    using t like(1) w2(1) by (auto simp: lai_exec_pkg_store_def pkg_like_def pkg_head_def deref_def)
  have "\<forall>j \<in> set is. j < m \<and> counted (v_type (es[i := fs ! i] ! j)) = None"
    using Cons.prems(5,6) by (metis distinct.simps(2) list.set_intros(2) nth_list_update_neq)
  from Cons.IH [OF w2(2,3,4) Cons.prems(4) this] Cons.prems(6) show ?case
    using load store by (simp add: ac_simps)
qed

text \<open>
  Storing a package into a named package (\<open>lai_exec_mutate_ns\<close>) leaks: each element is loaded
  into a variable that is never released, so that afterwards every counter is one too high for
  every element that refers to an object, and those objects are never freed.
\<close>

theorem mutate_package_leaks:
  assumes inv: "heap_inv R w" and n: "node w t = Ok n" "n_type n = LAI_NAMESPACE_NAME"
    and tv: "v_type (n_object n) = LAI_PACKAGE" "v_ptr (n_object n) = PHead a"
    and a: "cell w a = Some (HPkg ga)" "\<forall>e \<in> set (p_elems ga). counted (v_type e) = None"
    and s: "v_type source = LAI_PACKAGE" "v_ptr source = PHead b"
    and b: "cell w b = Some (HPkg gb)" "a \<noteq> b" "p_size ga = p_size gb"
  shows "\<exists>w'. lai_operand_mutate env w st (OpResolved (Some t)) source = Ok w' \<and>
    heap_inv (R + sum_list (map (\<lambda>i. var_refs (p_elems gb ! i)) [0..<p_size gb])) w'"
proof -
  have same: "ga\<lparr>p_size := p_size gb\<rparr> = ga" using b(3) by (cases ga) simp
  have "put_cell w a (Some (HPkg (ga\<lparr>p_size := p_size gb\<rparr>))) = w"
    using a(1) unfolding same by (simp add: put_cell_def cell_def list_update_same_conv split: if_splits)
  then have resize: "lai_obj_resize_pkg w (n_object n) (p_size gb) = Ok (LAI_ERROR_NONE, w)"
    using tv a(1) b(3) by (simp add: lai_obj_resize_pkg_def pkg_head_def deref_def)
  have "\<forall>i \<in> set [0..<p_size gb]. i < p_size gb \<and> counted (v_type (p_elems ga ! i)) = None"
    using a inv_pkg(2) [OF inv a(1)] b(3) by simp
  from mutate_pkg_elems_leaks [OF inv _ _ b(2) this _ tv s, of "p_elems gb"] a b
  obtain w' where "mutate_pkg_elems w (n_object n) source [0..<p_size gb] = Ok w'"
      "heap_inv (R + sum_list (map (\<lambda>i. var_refs (p_elems gb ! i)) [0..<p_size gb])) w'"
    by (auto simp: pkg_like_def)
  then show ?thesis
    using n tv s b(1) resize
    by (simp add: lai_operand_mutate_def lai_exec_mutate_ns_def mutate_named_def lai_exec_pkg_size_def
        pkg_head_def deref_def)
qed

subsection \<open>Instances\<close>

definition demo_env :: "unit exec_env" where
  "demo_env = \<lparr>e_host = \<lparr>h_has = (\<lambda>_. False), h_read = (\<lambda>_ _ _ d. (0, d)), h_write = (\<lambda>_ _ _ _ d. d)\<rparr>,
     e_eval = (\<lambda>_ _. Fault), e_amldebug = None, e_global_notify = None, e_notify = (\<lambda>_ d _ _. (False, d)),
     e_timer = None, e_sleep = None, e_memcmp = (\<lambda>_ _ _. Ok 0),
     e_sync_wait = None, e_sync_wake = None, e_rounds = 0\<rparr>"

lemma replicate_refs: "sum_list (replicate n (var_refs var0)) = {#}"
  by (induction n) (simp_all add: var_refs_def var0_def)

lemma busy_facts:
  "current_invocation busy_state = Ok 0" "invocation_ok busy_world 0"
  "invocation_refs busy_world 0 = {#(KStr, PHead 0)#}"
  "heap_inv R busy_world = heap_inv R demo_heap"
proof -
  show "current_invocation busy_state = Ok 0"
    by (simp add: busy_state_def current_invocation_def current_context_def lai_exec_peek_ctxstack_back_def slot_def)
  show "invocation_ok busy_world 0" by (simp add: invocation_ok_def busy_world_def)
  show "invocation_refs busy_world 0 = {#(KStr, PHead 0)#}"
    by (simp add: invocation_refs_def busy_world_def demo_refs replicate_refs)
  show "heap_inv R busy_world = heap_inv R demo_heap" by (rule heap_inv_cells) (simp add: busy_world_def)
qed

theorem local_store_load_witness:
  "\<exists>w' w''. lai_operand_mutate demo_env busy_world busy_state (OpLocal 3) demo_pkg = Ok w' \<and>
    lai_operand_load demo_env w' busy_state (OpLocal 3) var0 = Ok (w'', demo_pkg)"
proof -
  have "heap_inv ({#(KPkg, PHead 1)#} + invocation_refs busy_world 0) busy_world"
    using demo_heap_inv by (simp add: busy_facts add_mset_commute)
  from local_store_load [OF busy_facts(1,2) _ this, of 3 demo_pkg demo_env] show ?thesis
    by (auto simp: demo_refs)
qed

definition ref_arg :: lai_variable where
  "ref_arg = var0\<lparr>v_type := LAI_LOCAL_REF, v_ptr := PIref 0 2\<rparr>"

definition ref_world :: "unit lai_world" where
  "ref_world = demo_world\<lparr>cells := cells demo_heap, invocations :=
     [Some \<lparr>iv_arg = ref_arg # replicate 6 var0, iv_local = replicate 8 var0, iv_nodes = []\<rparr>]\<rparr>"

theorem arg_reference_store_witness:
  "\<exists>w'. lai_operand_mutate demo_env ref_world busy_state (OpArg 0) demo_string = Ok w' \<and>
    load_local w' 0 2 = Ok demo_string \<and> load_arg w' 0 0 = Ok ref_arg"
proof -
  have arg: "load_arg ref_world 0 0 = Ok ref_arg" and ok: "invocation_ok ref_world 0"
    by (simp_all add: load_arg_def invocation_def ref_world_def invocation_ok_def)
  have refs: "invocation_refs ref_world 0 = {#}"
    by (simp add: invocation_refs_def ref_world_def replicate_refs var_refs_def [of ref_arg])
      (simp add: ref_arg_def)
  have r: "v_type ref_arg = LAI_LOCAL_REF" "v_ptr ref_arg = PIref 0 2" by (simp_all add: ref_arg_def)
  have "heap_inv ({#(KStr, PHead 0), (KPkg, PHead 1)#} + invocation_refs ref_world 0) ref_world
      = heap_inv {#(KStr, PHead 0), (KPkg, PHead 1)#} demo_heap"
    unfolding refs by (simp only: empty_neutral) (rule heap_inv_cells, simp add: ref_world_def)
  with demo_heap_inv have inv: "heap_inv ({#(KStr, PHead 0), (KPkg, PHead 1)#} + invocation_refs ref_world 0) ref_world"
    by simp
  from arg_reference_store [OF busy_facts(1) arg r ok _ inv, of demo_string demo_env]
  show ?thesis by (auto simp: demo_refs)
qed

theorem local_reference_dangles_witness:
  "\<exists>w' st'. lai_exec_pop_ctxstack_back busy_world busy_state = Ok (w', st') \<and>
    lai_exec_ref_load demo_env w' var0 ref_arg = Fault"
proof -
  have "heap_inv ({#(KPkg, PHead 1)#} + invocation_refs busy_world 0) busy_world"
    using demo_heap_inv by (simp add: busy_facts add_mset_commute)
  from free_invocation_Ok [OF this busy_facts(2)] obtain w' where "free_invocation busy_world 0 = Ok w'" by blast
  then have pop: "lai_exec_pop_ctxstack_back busy_world busy_state = Ok (w', busy_state\<lparr>ctxstack_ptr := -1\<rparr>)"
    by (simp add: lai_exec_pop_ctxstack_back_def busy_state_def slot_def)
  then have "lai_exec_ref_load demo_env w' var0 ref_arg = Fault"
    by (rule local_reference_dangles [OF _ busy_facts(1)]) (simp_all add: ref_arg_def)
  with pop show ?thesis by blast
qed

definition leak_world :: "unit lai_world" where
  "leak_world = demo_world\<lparr>
     cells := [Some (HStr \<lparr>s_rc = 1, s_capacity = 1, s_content = [0]\<rparr>),
       Some (HPkg \<lparr>p_rc = 1, p_size = 1, p_elems = [demo_string]\<rparr>),
       Some (HPkg \<lparr>p_rc = 1, p_size = 1, p_elems = [var0]\<rparr>)],
     nodes := [Some (node0\<lparr>n_type := LAI_NAMESPACE_NAME,
       n_object := var0\<lparr>v_type := LAI_PACKAGE, v_ptr := PHead 2\<rparr>\<rparr>)]\<rparr>"

lemma leak_world_cell:
  "cell leak_world c = Some h \<longleftrightarrow>
     c = 0 \<and> h = HStr \<lparr>s_rc = 1, s_capacity = 1, s_content = [0]\<rparr> \<or>
     c = 1 \<and> h = HPkg \<lparr>p_rc = 1, p_size = 1, p_elems = [demo_string]\<rparr> \<or>
     c = 2 \<and> h = HPkg \<lparr>p_rc = 1, p_size = 1, p_elems = [var0]\<rparr>"
  by (auto simp: cell_def leak_world_def less_Suc_eq numeral_3_eq_3)

lemma leak_world_inv: "heap_inv {#(KPkg, PHead 1), (KPkg, PHead 2)#} leak_world"
proof -
  have "heap_refs leak_world = {#(KStr, PHead 0)#}"
    by (simp add: heap_refs_def leak_world_def cell_refs_def demo_refs) (simp add: var_refs_def var0_def)
  then show ?thesis by (auto simp: heap_inv_def rc_ok_def dead_def leak_world_cell)
qed

theorem mutate_package_leaks_witness:
  "\<exists>w'. lai_operand_mutate demo_env leak_world lai_init_state (OpResolved (Some 0)) demo_pkg = Ok w' \<and>
    heap_inv {#(KPkg, PHead 1), (KPkg, PHead 2), (KStr, PHead 0)#} w'"
proof -
  have "\<exists>w'. lai_operand_mutate demo_env leak_world lai_init_state (OpResolved (Some 0)) demo_pkg = Ok w' \<and>
    heap_inv ({#(KPkg, PHead 1), (KPkg, PHead 2)#} +
      sum_list (map (\<lambda>i. var_refs (p_elems \<lparr>p_rc = 1, p_size = 1, p_elems = [demo_string]\<rparr> ! i))
        [0..<p_size \<lparr>p_rc = 1, p_size = 1, p_elems = [demo_string]\<rparr>])) w'"
    by (rule mutate_package_leaks [OF leak_world_inv, where a = 2 and b = 1 and
        ga = "\<lparr>p_rc = 1, p_size = 1, p_elems = [var0]\<rparr>" and
        n = "node0\<lparr>n_type := LAI_NAMESPACE_NAME, n_object := var0\<lparr>v_type := LAI_PACKAGE, v_ptr := PHead 2\<rparr>\<rparr>"])
      (simp_all add: leak_world_cell node_def demo_pkg_def, simp_all add: leak_world_def var0_def)
  then show ?thesis by (simp add: demo_refs add_mset_commute)
qed

end
