(* ===== verification/Lai_Ops.thy ===== *)
theory Lai_Ops
  imports Lai_Operand
begin

text \<open>
  The operators of \<open>lai_exec_reduce_op\<close> (\<open>lai/core/exec.c\<close>) on integers, references and indices:
  one definition per \<open>case\<close>.

  An operator takes the operands of its frame and returns the error code, the world and the
  variable \<open>result\<close>, which the end of the function moves to the caller's; an early return with an
  error leaves the caller's variable as it was, which is \<open>var0\<close> here.  \<open>LAI_TRY\<close> is \<open>try_integer\<close>.
  A variable that \<open>lai_exec_get_integer\<close> filled holds an integer, so releasing it does nothing
  and is left out.
\<close>

type_synonym 'd reduction = "(lai_api_error \<times> 'd lai_world \<times> lai_variable) outcome"

definition try_integer :: "'d lai_world \<Rightarrow> lai_operand list \<Rightarrow> nat \<Rightarrow> ('d lai_world \<Rightarrow> u64 \<Rightarrow> 'd reduction) \<Rightarrow>
    'd reduction" where
  "try_integer w ops i k =
     bnd (rd ops i) (\<lambda>operand.
     bnd (lai_exec_get_integer w operand var0) (\<lambda>(e, w, v).
     if e \<noteq> LAI_ERROR_NONE then Ok (e, w, var0) else k w (v_integer v)))"

definition get_objectref :: "'d lai_world \<Rightarrow> lai_operand list \<Rightarrow> nat \<Rightarrow> ('d lai_world \<times> lai_variable) outcome" where
  "get_objectref w ops i = bnd (rd ops i) (\<lambda>operand. lai_exec_get_objectref w operand var0)"

text \<open>The result is stored to an operand and returned.\<close>

definition mutate_result :: "'d exec_env \<Rightarrow> 'd lai_world \<Rightarrow> lai_state \<Rightarrow> lai_operand list \<Rightarrow> nat \<Rightarrow>
    lai_variable \<Rightarrow> 'd reduction" where
  "mutate_result env w st ops i result =
     bnd (rd ops i) (\<lambda>target.
     bnd (lai_operand_mutate env w st target result) (\<lambda>w. Ok (LAI_ERROR_NONE, w, result)))"

definition emplace_result :: "'d exec_env \<Rightarrow> 'd lai_world \<Rightarrow> lai_state \<Rightarrow> lai_operand list \<Rightarrow> nat \<Rightarrow>
    lai_variable \<Rightarrow> 'd reduction" where
  "emplace_result env w st ops i result =
     bnd (rd ops i) (\<lambda>target.
     bnd (lai_operand_emplace env w st target result) (\<lambda>w. Ok (LAI_ERROR_NONE, w, result)))"

subsection \<open>Stores\<close>

definition reduce_store :: "'d exec_env \<Rightarrow> 'd lai_world \<Rightarrow> lai_state \<Rightarrow> lai_operand list \<Rightarrow> 'd reduction" where
  "reduce_store env w st ops =
     bnd (get_objectref w ops 0) (\<lambda>(w, objectref).
     bnd (lai_obj_clone w var0 objectref) (\<lambda>(w, result).
     bnd (lai_obj_clone w var0 result) (\<lambda>(w, out).
     bnd (rd ops 1) (\<lambda>target.
     bnd (lai_operand_mutate env w st target result) (\<lambda>w.
     bnd (lai_var_finalize w objectref) (\<lambda>w.
     bnd (lai_var_finalize w out) (\<lambda>w.
     Ok (LAI_ERROR_NONE, w, result))))))))"

definition reduce_copyobject :: "'d exec_env \<Rightarrow> 'd lai_world \<Rightarrow> lai_state \<Rightarrow> lai_operand list \<Rightarrow> 'd reduction" where
  "reduce_copyobject env w st ops =
     bnd (get_objectref w ops 0) (\<lambda>(w, objectref).
     bnd (lai_obj_clone w var0 objectref) (\<lambda>(w, result).
     bnd (lai_obj_clone w var0 result) (\<lambda>(w, out).
     bnd (rd ops 1) (\<lambda>target.
     bnd (lai_operand_emplace env w st target result) (\<lambda>w.
     bnd (lai_var_finalize w objectref) (\<lambda>w.
     bnd (lai_var_finalize w out) (\<lambda>w.
     Ok (LAI_ERROR_NONE, w, result))))))))"

subsection \<open>Arithmetic\<close>

text \<open>The operators with two integer operands and a target; \<open>f\<close> is their expression.\<close>

definition reduce_binary :: "(u64 \<Rightarrow> u64 \<Rightarrow> u64 outcome) \<Rightarrow> 'd exec_env \<Rightarrow> 'd lai_world \<Rightarrow> lai_state \<Rightarrow>
    lai_operand list \<Rightarrow> 'd reduction" where
  "reduce_binary f env w st ops =
     try_integer w ops 0 (\<lambda>w lhs.
     try_integer w ops 1 (\<lambda>w rhs.
     bnd (f lhs rhs) (\<lambda>r. mutate_result env w st ops 2 (int_var r))))"

definition reduce_add :: "'d exec_env \<Rightarrow> 'd lai_world \<Rightarrow> lai_state \<Rightarrow> lai_operand list \<Rightarrow> 'd reduction" where
  "reduce_add = reduce_binary (\<lambda>lhs rhs. Ok (lhs + rhs))"
definition reduce_subtract :: "'d exec_env \<Rightarrow> 'd lai_world \<Rightarrow> lai_state \<Rightarrow> lai_operand list \<Rightarrow> 'd reduction" where
  "reduce_subtract = reduce_binary (\<lambda>lhs rhs. Ok (lhs - rhs))"
definition reduce_mod :: "'d exec_env \<Rightarrow> 'd lai_world \<Rightarrow> lai_state \<Rightarrow> lai_operand list \<Rightarrow> 'd reduction" where
  "reduce_mod = reduce_binary (\<lambda>lhs rhs. guard (rhs \<noteq> 0) (Ok (lhs mod rhs)))"
definition reduce_multiply :: "'d exec_env \<Rightarrow> 'd lai_world \<Rightarrow> lai_state \<Rightarrow> lai_operand list \<Rightarrow> 'd reduction" where
  "reduce_multiply = reduce_binary (\<lambda>lhs rhs. Ok (lhs * rhs))"
definition reduce_and :: "'d exec_env \<Rightarrow> 'd lai_world \<Rightarrow> lai_state \<Rightarrow> lai_operand list \<Rightarrow> 'd reduction" where
  "reduce_and = reduce_binary (\<lambda>lhs rhs. Ok (lhs AND rhs))"
definition reduce_or :: "'d exec_env \<Rightarrow> 'd lai_world \<Rightarrow> lai_state \<Rightarrow> lai_operand list \<Rightarrow> 'd reduction" where
  "reduce_or = reduce_binary (\<lambda>lhs rhs. Ok (lhs OR rhs))"
definition reduce_xor :: "'d exec_env \<Rightarrow> 'd lai_world \<Rightarrow> lai_state \<Rightarrow> lai_operand list \<Rightarrow> 'd reduction" where
  "reduce_xor = reduce_binary (\<lambda>lhs rhs. Ok (lhs XOR rhs))"
definition reduce_nand :: "'d exec_env \<Rightarrow> 'd lai_world \<Rightarrow> lai_state \<Rightarrow> lai_operand list \<Rightarrow> 'd reduction" where
  "reduce_nand = reduce_binary (\<lambda>lhs rhs. Ok (NOT (lhs AND rhs)))"
definition reduce_nor :: "'d exec_env \<Rightarrow> 'd lai_world \<Rightarrow> lai_state \<Rightarrow> lai_operand list \<Rightarrow> 'd reduction" where
  "reduce_nor = reduce_binary (\<lambda>lhs rhs. Ok (NOT (lhs OR rhs)))"

text \<open>A shift by the width or more is undefined.\<close>

definition reduce_shl :: "'d exec_env \<Rightarrow> 'd lai_world \<Rightarrow> lai_state \<Rightarrow> lai_operand list \<Rightarrow> 'd reduction" where
  "reduce_shl = reduce_binary (\<lambda>lhs rhs. guard (rhs < 64) (Ok (push_bit (unat rhs) lhs)))"
definition reduce_shr :: "'d exec_env \<Rightarrow> 'd lai_world \<Rightarrow> lai_state \<Rightarrow> lai_operand list \<Rightarrow> 'd reduction" where
  "reduce_shr = reduce_binary (\<lambda>lhs rhs. guard (rhs < 64) (Ok (drop_bit (unat rhs) lhs)))"

text \<open>\<open>Divide\<close> has two targets and no result.\<close>

definition reduce_divide :: "'d exec_env \<Rightarrow> 'd lai_world \<Rightarrow> lai_state \<Rightarrow> lai_operand list \<Rightarrow> 'd reduction" where
  "reduce_divide env w st ops =
     try_integer w ops 0 (\<lambda>w lhs.
     try_integer w ops 1 (\<lambda>w rhs.
     guard (rhs \<noteq> 0) (
     bnd (rd ops 2) (\<lambda>t2.
     bnd (lai_operand_mutate env w st t2 (int_var (lhs mod rhs))) (\<lambda>w.
     bnd (rd ops 3) (\<lambda>t3.
     bnd (lai_operand_mutate env w st t3 (int_var (lhs div rhs))) (\<lambda>w.
     Ok (LAI_ERROR_NONE, w, var0))))))))"

definition reduce_not :: "'d exec_env \<Rightarrow> 'd lai_world \<Rightarrow> lai_state \<Rightarrow> lai_operand list \<Rightarrow> 'd reduction" where
  "reduce_not env w st ops =
     try_integer w ops 0 (\<lambda>w i. mutate_result env w st ops 1 (int_var (NOT i)))"

definition step_operand :: "(u64 \<Rightarrow> u64) \<Rightarrow> 'd exec_env \<Rightarrow> 'd lai_world \<Rightarrow> lai_state \<Rightarrow> lai_operand list \<Rightarrow>
    'd reduction" where
  "step_operand f env w st ops =
     bnd (rd ops 0) (\<lambda>operand.
     bnd (lai_operand_load env w st operand var0) (\<lambda>(w, result).
     ensure (v_type result = LAI_INTEGER) (
     mutate_result env w st ops 0 (result\<lparr>v_integer := f (v_integer result)\<rparr>))))"

definition reduce_increment :: "'d exec_env \<Rightarrow> 'd lai_world \<Rightarrow> lai_state \<Rightarrow> lai_operand list \<Rightarrow> 'd reduction" where
  "reduce_increment = step_operand (\<lambda>i. i + 1)"
definition reduce_decrement :: "'d exec_env \<Rightarrow> 'd lai_world \<Rightarrow> lai_state \<Rightarrow> lai_operand list \<Rightarrow> 'd reduction" where
  "reduce_decrement = step_operand (\<lambda>i. i - 1)"

subsection \<open>The highest and the lowest bit\<close>

function msb_loop :: "u64 \<Rightarrow> nat \<Rightarrow> nat" where
  "msb_loop i msb = (if i \<noteq> 0 then msb_loop (drop_bit 1 i) (msb + 1) else msb)"
  by pat_completeness auto
termination
proof (relation "measure (\<lambda>(i, m). unat i)")
  fix i :: u64 and m :: nat assume "i \<noteq> 0"
  then have "0 < unat i" by (simp add: unat_gt_0)
  then show "((drop_bit 1 i, m + 1), (i, m)) \<in> measure (\<lambda>(i, m). unat i)"
    by (simp add: unsigned_drop_bit_eq drop_bit_Suc drop_bit_eq_div unat_div)
qed simp

text \<open>Each shift to the left clears a bit from below: 64 shifts at most.\<close>

fun lsb_loop :: "nat \<Rightarrow> u64 \<Rightarrow> nat \<Rightarrow> nat outcome" where
  "lsb_loop fuel i lsb =
     (if i \<noteq> 0 then (case fuel of 0 \<Rightarrow> Stuck | Suc fuel \<Rightarrow> lsb_loop fuel (push_bit 1 i) (lsb + 1))
      else Ok lsb)"

declare msb_loop.simps [simp del] lsb_loop.simps [simp del]

definition reduce_findsetleftbit :: "'d exec_env \<Rightarrow> 'd lai_world \<Rightarrow> lai_state \<Rightarrow> lai_operand list \<Rightarrow> 'd reduction" where
  "reduce_findsetleftbit env w st ops =
     try_integer w ops 0 (\<lambda>w i. mutate_result env w st ops 1 (int_var (of_nat (msb_loop i 0))))"

definition reduce_findsetrightbit :: "'d exec_env \<Rightarrow> 'd lai_world \<Rightarrow> lai_state \<Rightarrow> lai_operand list \<Rightarrow> 'd reduction" where
  "reduce_findsetrightbit env w st ops =
     try_integer w ops 0 (\<lambda>w i.
     bnd (lsb_loop 64 i 0) (\<lambda>lsb.
     mutate_result env w st ops 1 (int_var (of_nat (if lsb = 0 then 0 else 65 - lsb)))))"

subsection \<open>Logic\<close>

definition reduce_lnot :: "'d lai_world \<Rightarrow> lai_operand list \<Rightarrow> 'd reduction" where
  "reduce_lnot w ops =
     try_integer w ops 0 (\<lambda>w i. Ok (LAI_ERROR_NONE, w, int_var (if i = 0 then 1 else 0)))"

definition reduce_land :: "'d lai_world \<Rightarrow> lai_operand list \<Rightarrow> 'd reduction" where
  "reduce_land w ops =
     try_integer w ops 0 (\<lambda>w lhs. try_integer w ops 1 (\<lambda>w rhs.
     Ok (LAI_ERROR_NONE, w, int_var (if lhs \<noteq> 0 \<and> rhs \<noteq> 0 then 1 else 0))))"

definition reduce_lor :: "'d lai_world \<Rightarrow> lai_operand list \<Rightarrow> 'd reduction" where
  "reduce_lor w ops =
     try_integer w ops 0 (\<lambda>w lhs. try_integer w ops 1 (\<lambda>w rhs.
     Ok (LAI_ERROR_NONE, w, int_var (if lhs \<noteq> 0 \<or> rhs \<noteq> 0 then 1 else 0))))"

text \<open>The three comparisons; both operands are released on every path.\<close>

definition reduce_compare :: "match_op \<Rightarrow> 'd exec_env \<Rightarrow> 'd lai_world \<Rightarrow> lai_operand list \<Rightarrow> 'd reduction" where
  "reduce_compare op env w ops =
     bnd (get_objectref w ops 0) (\<lambda>(w, lhs).
     bnd (get_objectref w ops 1) (\<lambda>(w, rhs).
     bnd (lai_obj_exec_match_op (e_memcmp env) op w lhs rhs) (\<lambda>(err, w, res).
     bnd (release_all lai_var_finalize w [rhs, lhs]) (\<lambda>w.
     if err \<noteq> LAI_ERROR_NONE then Ok (LAI_ERROR_ILLEGAL_ARGUMENTS, w, var0)
     else Ok (LAI_ERROR_NONE, w, int_var (if res = Some True then NOT 0 else 0))))))"

definition reduce_lequal :: "'d exec_env \<Rightarrow> 'd lai_world \<Rightarrow> lai_operand list \<Rightarrow> 'd reduction" where
  "reduce_lequal = reduce_compare MATCH_MEQ"
definition reduce_lless :: "'d exec_env \<Rightarrow> 'd lai_world \<Rightarrow> lai_operand list \<Rightarrow> 'd reduction" where
  "reduce_lless = reduce_compare MATCH_MLT"
definition reduce_lgreater :: "'d exec_env \<Rightarrow> 'd lai_world \<Rightarrow> lai_operand list \<Rightarrow> 'd reduction" where
  "reduce_lgreater = reduce_compare MATCH_MGT"

subsection \<open>Indices, references and sizes\<close>

text \<open>The bound that \<open>Index\<close> checks and the type of the index.\<close>

definition index_limit :: "'d lai_world \<Rightarrow> lai_variable \<Rightarrow> (var_type \<times> nat) outcome" where
  "index_limit w object = (case v_type object of
     LAI_STRING \<Rightarrow> bnd (lai_exec_string_length w object) (\<lambda>n. Ok (LAI_STRING_INDEX, n))
   | LAI_BUFFER \<Rightarrow> bnd (lai_exec_buffer_size w object) (\<lambda>n. Ok (LAI_BUFFER_INDEX, n))
   | LAI_PACKAGE \<Rightarrow> bnd (lai_exec_pkg_size w object) (\<lambda>n. Ok (LAI_PACKAGE_INDEX, n))
   | _ \<Rightarrow> Panic)"

definition reduce_index :: "'d exec_env \<Rightarrow> 'd lai_world \<Rightarrow> lai_state \<Rightarrow> lai_operand list \<Rightarrow> 'd reduction" where
  "reduce_index env w st ops =
     bnd (get_objectref w ops 0) (\<lambda>(w, object).
     try_integer w ops 1 (\<lambda>w n.
     bnd (index_limit w object) (\<lambda>(ty, limit).
     ensure (unat n < limit) (
     let result = var0\<lparr>v_type := ty, v_ptr := v_ptr object, v_integer := n\<rparr> in
     bnd (var_ref w result) (\<lambda>w.
     bnd (lai_var_finalize w object) (\<lambda>w.
     mutate_result env w st ops 2 result))))))"

text \<open>The variable \<open>ref\<close> is not released, and a character is extended with its sign.\<close>

definition reduce_deref :: "'d exec_env \<Rightarrow> 'd lai_world \<Rightarrow> lai_operand list \<Rightarrow> 'd reduction" where
  "reduce_deref env w ops =
     bnd (get_objectref w ops 0) (\<lambda>(w, ref).
     let i = unat (v_integer ref) in
     case v_type ref of
       LAI_STRING_INDEX \<Rightarrow>
         bnd (string_head w (v_ptr ref)) (\<lambda>(_, s).
         bnd (rd (s_content s) i) (\<lambda>c. Ok (LAI_ERROR_NONE, w, int_var (scast c))))
     | LAI_BUFFER_INDEX \<Rightarrow>
         bnd (buffer_head w (v_ptr ref)) (\<lambda>(_, b).
         bnd (rd (b_content b) i) (\<lambda>c. Ok (LAI_ERROR_NONE, w, int_var (ucast c))))
     | LAI_PACKAGE_INDEX \<Rightarrow>
         bnd (pkg_head w (v_ptr ref)) (\<lambda>(a, _).
         bnd (pkg_elem w a i) (\<lambda>e.
         bnd (lai_var_assign w var0 e) (\<lambda>(w, result). Ok (LAI_ERROR_NONE, w, result))))
     | ty \<Rightarrow>
         if ty \<in> {LAI_ARG_REF, LAI_LOCAL_REF, LAI_NODE_REF} then
           bnd (lai_exec_ref_load env w var0 ref) (\<lambda>(w, temp).
           bnd (lai_obj_clone w var0 temp) (\<lambda>(w, result).
           bnd (lai_var_finalize w temp) (\<lambda>w. Ok (LAI_ERROR_NONE, w, result))))
         else Panic)"

text \<open>The variable \<open>object\<close> is not released.\<close>

definition reduce_sizeof :: "'d lai_world \<Rightarrow> lai_operand list \<Rightarrow> 'd reduction" where
  "reduce_sizeof w ops =
     bnd (get_objectref w ops 0) (\<lambda>(w, object).
     bnd (case v_type object of
            LAI_STRING \<Rightarrow> lai_exec_string_length w object
          | LAI_BUFFER \<Rightarrow> lai_exec_buffer_size w object
          | LAI_PACKAGE \<Rightarrow> lai_exec_pkg_size w object
          | _ \<Rightarrow> Panic) (\<lambda>n.
     Ok (LAI_ERROR_NONE, w, int_var (of_nat n))))"

definition reduce_refof :: "'d lai_world \<Rightarrow> lai_state \<Rightarrow> lai_operand list \<Rightarrow> 'd reduction" where
  "reduce_refof w st ops =
     bnd (rd ops 0) (\<lambda>operand. case operand of
       OpArg i \<Rightarrow> bnd (current_invocation st) (\<lambda>k.
         Ok (LAI_ERROR_NONE, w, var0\<lparr>v_type := LAI_ARG_REF, v_ptr := PIref k i\<rparr>))
     | OpLocal i \<Rightarrow> bnd (current_invocation st) (\<lambda>k.
         Ok (LAI_ERROR_NONE, w, var0\<lparr>v_type := LAI_LOCAL_REF, v_ptr := PIref k i\<rparr>))
     | OpResolved p \<Rightarrow> Ok (LAI_ERROR_NONE, w, var0\<lparr>v_type := LAI_NODE_REF, v_handle := p\<rparr>)
     | _ \<Rightarrow> Panic)"

definition reduce_condref :: "'d exec_env \<Rightarrow> 'd lai_world \<Rightarrow> lai_state \<Rightarrow> lai_operand list \<Rightarrow> 'd reduction" where
  "reduce_condref env w st ops =
     bnd (rd ops 0) (\<lambda>operand. case operand of
       OpResolved None \<Rightarrow> Ok (LAI_ERROR_NONE, w, int_var 0)
     | OpResolved (Some p) \<Rightarrow>
         bnd (rd ops 1) (\<lambda>target.
         bnd (lai_operand_mutate env w st target (var0\<lparr>v_type := LAI_HANDLE, v_handle := Some p\<rparr>)) (\<lambda>w.
         Ok (LAI_ERROR_NONE, w, int_var 1)))
     | _ \<Rightarrow> Panic)"

text \<open>The type of a named object, with aliases and names that hold a reference followed once.\<close>

definition objecttype_of_node :: "'d lai_world \<Rightarrow> nat option \<Rightarrow> nat outcome" where
  "objecttype_of_node w p = (case p of None \<Rightarrow> Fault | Some p \<Rightarrow>
     bnd (node w p) (\<lambda>n.
     if n_type n = LAI_NAMESPACE_ALIAS then
       (case n_data n of NdAlias t \<Rightarrow> lai_objecttype_ns w t | _ \<Rightarrow> Fault)
     else if n_type n = LAI_NAMESPACE_NAME \<and> v_type (n_object n) = LAI_NODE_REF then
       bnd (handle_of (n_object n)) (lai_objecttype_ns w)
     else lai_objecttype_ns w p))"

definition reduce_objecttype :: "'d exec_env \<Rightarrow> 'd lai_world \<Rightarrow> lai_state \<Rightarrow> lai_operand list \<Rightarrow> 'd reduction" where
  "reduce_objecttype env w st ops =
     (let done = (\<lambda>w n. Ok (LAI_ERROR_NONE, w, int_var (of_nat n)));
          loaded = (\<lambda>operand.
            bnd (lai_operand_load env w st operand var0) (\<lambda>(w, var).
            bnd (lai_var_finalize w var) (\<lambda>w. done w (lai_objecttype_obj var)))) in
      bnd (rd ops 0) (\<lambda>operand. case operand of
        OpResolved p \<Rightarrow> bnd (objecttype_of_node w p) (done w)
      | OpObject v \<Rightarrow> bnd (objecttype_of_node w (v_handle v)) (done w)
      | OpArg i \<Rightarrow> loaded operand
      | OpLocal i \<Rightarrow> loaded operand
      | OpDebug \<Rightarrow> done w 16
      | _ \<Rightarrow> done w 0))"

subsection \<open>Binary coded decimals\<close>

fun from_bcd_loop :: "u64 \<Rightarrow> u64 \<Rightarrow> u64 \<Rightarrow> nat list \<Rightarrow> u64" where
  "from_bcd_loop v pw r [] = r"
| "from_bcd_loop v pw r (i # is) =
     from_bcd_loop v (pw * 10) (r + (drop_bit (4 * i) v AND 0xF) * pw) is"

fun to_bcd_loop :: "nat \<Rightarrow> u64 \<Rightarrow> u64 \<Rightarrow> u64" where
  "to_bcd_loop 0 o' r = r"
| "to_bcd_loop (Suc n) o' r =
     (let r = push_bit 4 r OR (o' mod 10); o' = o' div 10 in
      if o' = 0 then r else to_bcd_loop n o' r)"

definition reduce_from_bcd :: "'d exec_env \<Rightarrow> 'd lai_world \<Rightarrow> lai_state \<Rightarrow> lai_operand list \<Rightarrow> 'd reduction" where
  "reduce_from_bcd env w st ops =
     bnd (get_objectref w ops 0) (\<lambda>(w, operand).
     bnd (emplace_result env w st ops 1 (int_var (from_bcd_loop (v_integer operand) 1 0 [0..<16]))) (\<lambda>(e, w, result).
     bnd (lai_var_finalize w operand) (\<lambda>w. Ok (e, w, result))))"

definition reduce_to_bcd :: "'d exec_env \<Rightarrow> 'd lai_world \<Rightarrow> lai_state \<Rightarrow> lai_operand list \<Rightarrow> 'd reduction" where
  "reduce_to_bcd env w st ops =
     bnd (get_objectref w ops 0) (\<lambda>(w, operand).
     bnd (emplace_result env w st ops 1 (int_var (to_bcd_loop 20 (v_integer operand) 0))) (\<lambda>(e, w, result).
     bnd (lai_var_finalize w operand) (\<lambda>w. Ok (e, w, result))))"

subsection \<open>Integer operands\<close>

lemma assign_int: "lai_var_assign hp var0 (int_var i) = Ok (hp, int_var i)"
  by (simp add: lai_var_assign_def var_ref_def counted_head_def lai_var_move_var0)
    (simp add: int_var_def var0_def)

lemma get_integer_int [simp]: "lai_exec_get_integer hp (OpObject (int_var i)) var0 = Ok (LAI_ERROR_NONE, hp, int_var i)"
  by (simp add: lai_exec_get_integer_def assign_int lai_var_move_var0) (simp add: int_var_def)

lemma get_objectref_int: "lai_exec_get_objectref hp (OpObject (int_var i)) var0 = Ok (hp, int_var i)"
  by (simp add: lai_exec_get_objectref_def assign_int)

lemma v_integer_int [simp]: "v_integer (int_var i) = i"
  by (simp add: int_var_def)

lemma finalize_int: "lai_var_finalize hp (int_var i) = Ok hp"
  by (rule finalize_uncounted) (simp add: int_var_def)

lemma null_target: "lai_operand_mutate env w st OpNull v = Ok w" "lai_operand_emplace env w st OpNull v = Ok w"
  by (simp_all add: lai_operand_mutate_def lai_operand_emplace_def)

text \<open>The word that all two-operand operators share: the expression of the two integers.\<close>

lemma reduce_binary_ints:
  "reduce_binary f env w st [OpObject (int_var a), OpObject (int_var b), OpNull] =
     bnd (f a b) (\<lambda>r. Ok (LAI_ERROR_NONE, w, int_var r))"
  by (simp add: reduce_binary_def try_integer_def mutate_result_def null_target)

subsection \<open>The bit operators\<close>

definition highest_bit :: "u64 \<Rightarrow> nat \<Rightarrow> bool" where
  "highest_bit i n \<longleftrightarrow> (if i = 0 then n = 0 else 0 < n \<and> bit i (n - 1) \<and> (\<forall>j\<ge>n. \<not> bit i j))"

definition lowest_bit :: "u64 \<Rightarrow> nat \<Rightarrow> bool" where
  "lowest_bit i n \<longleftrightarrow> (if i = 0 then n = 0 else 0 < n \<and> bit i (n - 1) \<and> (\<forall>j<n - 1. \<not> bit i j))"

lemma highest_bit_step:
  assumes "i \<noteq> 0" and "highest_bit (drop_bit 1 i) n"
  shows "highest_bit i (Suc n)"
proof (cases "drop_bit 1 i = 0")
  case True
  then have up: "\<not> bit i (Suc j)" for j using bit_drop_bit_eq [of 1 i] by (auto simp: fun_eq_iff)
  have "bit i 0"
  proof (rule ccontr)
    assume "\<not> bit i 0"
    with up have "\<not> bit i j" for j by (cases j) auto
    then have "i = 0" by (auto intro: bit_word_eqI)
    with assms(1) show False by simp
  qed
  moreover have "n = 0" using True assms(2) by (simp add: highest_bit_def)
  moreover have "\<not> bit i j" if "1 \<le> j" for j using up [of "j - 1"] that by simp
  ultimately show ?thesis using assms(1) by (simp add: highest_bit_def)
next
  case False
  then have n: "0 < n" "bit i n" "\<forall>j\<ge>n. \<not> bit i (Suc j)"
    using assms(2) by (auto simp: highest_bit_def bit_drop_bit_eq)
  have "\<not> bit i j" if "Suc n \<le> j" for j using n(3) that by (cases j) auto
  then show ?thesis using n assms(1) by (simp add: highest_bit_def)
qed

lemma msb_loop_spec: "\<exists>n. msb_loop i m = m + n \<and> highest_bit i n"
proof (induction i m rule: msb_loop.induct)
  case (1 i m)
  show ?case
  proof (cases "i = 0")
    case True
    then show ?thesis by (subst msb_loop.simps) (simp add: highest_bit_def)
  next
    case False
    from 1 [OF False] obtain n where "msb_loop (drop_bit 1 i) (m + 1) = m + 1 + n" "highest_bit (drop_bit 1 i) n"
      by auto
    then show ?thesis
      using False highest_bit_step [OF False, of n] by (subst msb_loop.simps) (auto intro: exI [of _ "Suc n"])
  qed
qed

lemma lsb_loop_spec:
  assumes "bit i p" and "\<forall>j<p. \<not> bit i j" and "64 - p \<le> fuel"
  shows "lsb_loop fuel i l = Ok (l + (64 - p))"
  using assms
proof (induction fuel arbitrary: i p l)
  case 0
  then show ?case using bit_imp_le_length [of i p] by simp
next
  case (Suc fuel)
  have p: "p < 64" using bit_imp_le_length [OF Suc.prems(1)] by simp
  have nz: "i \<noteq> 0" using Suc.prems(1) by auto
  have b: "bit (push_bit 1 i) j \<longleftrightarrow> 0 < j \<and> j < 64 \<and> bit i (j - 1)" for j
    unfolding bit_push_bit_iff by (auto dest: bit_imp_le_length)
  show ?case
  proof (cases "p = 63")
    case True
    have "push_bit 1 i = 0"
      by (rule bit_word_eqI) (use b Suc.prems(2) True in \<open>auto simp del: One_nat_def\<close>)
    then show ?thesis using nz True by (subst lsb_loop.simps) (simp add: lsb_loop.simps [of fuel 0])
  next
    case False
    have "bit (push_bit 1 i) (Suc p)" using b [of "Suc p"] p False Suc.prems(1) by simp
    moreover have "\<forall>j<Suc p. \<not> bit (push_bit 1 i) j" using b Suc.prems(2) by auto
    ultimately have "lsb_loop fuel (push_bit 1 i) (l + 1) = Ok (l + 1 + (64 - Suc p))"
      using Suc.IH [of "push_bit 1 i" "Suc p" "l + 1"] Suc.prems(3) by auto
    then show ?thesis using nz p by (subst lsb_loop.simps) auto
  qed
qed

lemma lowest_bit_exists:
  assumes "i \<noteq> (0 :: u64)"
  obtains p where "bit i p" "\<forall>j<p. \<not> bit i j" "p < 64"
proof -
  have "\<exists>n. bit i n"
  proof (rule ccontr)
    assume "\<nexists>n. bit i n"
    then have "i = 0" by (auto intro: bit_word_eqI)
    with assms show False by simp
  qed
  then obtain n where "bit i n" ..
  then have "bit i (LEAST n. bit i n)" "\<forall>j<(LEAST n. bit i n). \<not> bit i j"
    by (auto intro: LeastI dest: not_less_Least)
  then show ?thesis by (rule that) (use bit_imp_le_length [OF \<open>bit i (LEAST n. bit i n)\<close>] in simp)
qed

subsection \<open>Digits\<close>

text \<open>The number with the given decimal digits, and its code, from the lowest digit on.\<close>

fun undigits :: "nat list \<Rightarrow> nat" where
  "undigits [] = 0"
| "undigits (d # ds) = d + 10 * undigits ds"

fun bcd :: "nat list \<Rightarrow> u64" where
  "bcd [] = 0"
| "bcd (d # ds) = push_bit 4 (bcd ds) OR of_nat d"

definition decimals :: "nat list \<Rightarrow> bool" where
  "decimals ds \<longleftrightarrow> length ds \<le> 16 \<and> (\<forall>d \<in> set ds. d < 10)"

lemma undigits_less: "\<forall>d \<in> set ds. d < 10 \<Longrightarrow> undigits ds < 10 ^ length ds"
  by (induction ds) auto

lemma undigits_small:
  assumes "decimals ds"
  shows "undigits ds < 2 ^ 64"
proof -
  have "undigits ds < 10 ^ length ds" using assms undigits_less by (simp add: decimals_def)
  also have "(10 :: nat) ^ length ds \<le> 10 ^ 16" by (rule power_increasing) (use assms in \<open>simp_all add: decimals_def\<close>)
  also have "(10 :: nat) ^ 16 < 2 ^ 64" by simp
  finally show ?thesis .
qed

lemma decimals_Cons: "decimals (d # ds) \<Longrightarrow> decimals ds \<and> d < 10"
  by (simp add: decimals_def)

lemma of_nat_div_10:
  assumes "n < 2 ^ 64"
  shows "(of_nat n :: u64) mod 10 = of_nat (n mod 10)" and "(of_nat n :: u64) div 10 = of_nat (n div 10)"
    and "(of_nat n :: u64) = 0 \<longleftrightarrow> n = 0"
proof -
  have v: "unat (of_nat m :: u64) = m" if "m < 2 ^ 64" for m
    using that by (simp add: unsigned_of_nat take_bit_nat_eq_self)
  have small: "n mod 10 < 2 ^ 64" "n div 10 < 2 ^ 64" using assms by (auto intro: le_less_trans [OF div_le_dividend])
  have ten: "unat (10 :: u64) = 10" by simp
  show "(of_nat n :: u64) mod 10 = of_nat (n mod 10)" "(of_nat n :: u64) div 10 = of_nat (n div 10)"
    unfolding word_unat_eq_iff unat_mod unat_div ten v [OF assms] v [OF small(1)] v [OF small(2)] by (rule refl)+
  have u: "unat (of_nat n :: u64) = n" by (rule v [OF assms])
  show "(of_nat n :: u64) = 0 \<longleftrightarrow> n = 0" unfolding word_unat_eq_iff u unat_0 by (rule refl)
qed

text \<open>The loop of \<open>ToBCD\<close> appends the digits as it splits them off: the lowest becomes the highest.\<close>

fun shift_in :: "u64 \<Rightarrow> nat list \<Rightarrow> u64" where
  "shift_in r [] = r"
| "shift_in r (d # ds) = shift_in (push_bit 4 r OR of_nat d) ds"

lemma shift_in_bcd: "shift_in (bcd xs) ds = bcd (rev ds @ xs)"
proof (induction ds arbitrary: xs)
  case (Cons d ds)
  from Cons.IH [of "d # xs"] show ?case by simp
qed simp

lemma to_bcd_digits:
  assumes "decimals ds" and "ds \<noteq> []" and "last ds \<noteq> 0" and "length ds \<le> n"
  shows "to_bcd_loop n (of_nat (undigits ds)) r = shift_in r ds"
  using assms
proof (induction ds arbitrary: n r)
  case (Cons d ds)
  obtain m where n: "n = Suc m" using Cons.prems(4) by (cases n) auto
  have d: "decimals ds" "d < 10" using decimals_Cons [OF Cons.prems(1)] by simp_all
  note w = of_nat_div_10 [OF undigits_small [OF Cons.prems(1)]] of_nat_div_10(3) [OF undigits_small [OF d(1)]]
  have q: "undigits (d # ds) mod 10 = d" "undigits (d # ds) div 10 = undigits ds" using d(2) by simp_all
  show ?case
  proof (cases "ds = []")
    case True
    then show ?thesis using w q n by (simp add: Let_def)
  next
    case False
    have pos: "undigits xs \<noteq> 0" if "xs \<noteq> []" "last xs \<noteq> 0" for xs
      using that by (induction xs) (auto split: if_splits)
    have "undigits ds \<noteq> 0" using pos [OF False] Cons.prems(3) False by simp
    then show ?thesis using Cons.IH [OF d(1) False, of m "push_bit 4 r OR of_nat d"] Cons.prems(3,4) False w q n
      by (simp add: Let_def)
  qed
qed simp

lemma bit_of_digit:
  assumes "d < 16" and "bit (of_nat d :: u64) j"
  shows "j < 4"
proof -
  have "unat (of_nat d :: u64) < 2 ^ 4" using assms(1) by (simp add: unsigned_of_nat take_bit_nat_eq_self)
  then have "take_bit 4 (of_nat d :: u64) = of_nat d"
    by (metis unsigned_take_bit_eq take_bit_nat_eq_self unsigned_word_eqI)
  then show ?thesis using assms(2) by (metis bit_take_bit_iff)
qed

lemma bit_bcd:
  assumes "decimals ds"
  shows "bit (bcd ds) j \<longleftrightarrow> j div 4 < length ds \<and> bit (of_nat (ds ! (j div 4)) :: u64) (j mod 4)"
  using assms
proof (induction ds arbitrary: j)
  case (Cons d ds)
  have ds: "decimals ds" "d < 16" "length ds < 16" using Cons.prems by (simp_all add: decimals_def)
  show ?case
  proof (cases "j < 4")
    case True
    then show ?thesis by (simp add: bit_or_iff bit_push_bit_iff)
  next
    case False
    have "\<not> bit (of_nat d :: u64) j" using bit_of_digit [OF ds(2)] False by blast
    moreover have "j div 4 = Suc ((j - 4) div 4)" "j mod 4 = (j - 4) mod 4"
      using False by (simp_all add: le_div_geq le_mod_geq)
    moreover have "j < 64" if "(j - 4) div 4 < length ds"
    proof -
      have "(j - 4) div 4 < 15" using that ds(3) by linarith
      then show ?thesis by (simp add: div_less_iff_less_mult)
    qed
    ultimately show ?thesis using Cons.IH [OF ds(1)] False by (auto simp: bit_or_iff bit_push_bit_iff)
  qed
qed simp

lemma digit_of_bcd:
  assumes "decimals ds"
  shows "drop_bit (4 * i) (bcd ds) AND 0xF = of_nat (if i < length ds then ds ! i else 0)"
proof (rule bit_word_eqI)
  fix j assume j: "j < LENGTH(64)"
  have m: "(0xF :: u64) = mask 4" by (simp add: mask_eq_exp_minus_1)
  have idx: "(4 * i + j) div 4 = i" "(4 * i + j) mod 4 = j" if "j < 4" using that by simp_all
  have dig: "bit (of_nat (ds ! i) :: u64) j \<Longrightarrow> j < 4" if "i < length ds"
  proof -
    have "ds ! i < 10" using assms nth_mem [OF that] unfolding decimals_def by blast
    then have "ds ! i < 16" by simp
    then show "bit (of_nat (ds ! i) :: u64) j \<Longrightarrow> j < 4" by (rule bit_of_digit)
  qed
  show "bit (drop_bit (4 * i) (bcd ds) AND 0xF) j \<longleftrightarrow> bit (of_nat (if i < length ds then ds ! i else 0) :: u64) j"
    unfolding m
    using idx dig by (auto simp: bit_and_iff bit_mask_iff bit_drop_bit_eq bit_bcd [OF assms] simp del: of_nat_0)
qed

lemma from_bcd_digits:
  assumes "decimals ds" and "k \<le> 16"
  shows "from_bcd_loop (bcd ds) (10 ^ k) r [k..<16] = r + 10 ^ k * of_nat (undigits (drop k (ds @ replicate (16 - length ds) 0)))"
  using assms(2)
proof (induction "16 - k" arbitrary: k r)
  case 0
  then show ?case using assms(1) by (simp add: decimals_def)
next
  case (Suc n)
  let ?D = "ds @ replicate (16 - length ds) 0"
  have k: "k < 16" "[k..<16] = k # [Suc k..<16]" using Suc.hyps(2) by (simp_all add: upt_conv_Cons)
  have len: "length ?D = 16" using assms(1) by (simp add: decimals_def)
  have D: "drop k ?D = ?D ! k # drop (Suc k) ?D" by (rule Cons_nth_drop_Suc [symmetric]) (simp only: len k)
  have d: "(if k < length ds then ds ! k else 0) = ?D ! k" using k by (simp add: nth_append)
  have "from_bcd_loop (bcd ds) (10 ^ k) r [k..<16] =
      from_bcd_loop (bcd ds) (10 ^ Suc k) (r + of_nat (?D ! k) * 10 ^ k) [Suc k..<16]"
    unfolding k(2) from_bcd_loop.simps digit_of_bcd [OF assms(1)] d by (simp add: mult.commute)
  also have "\<dots> = r + of_nat (?D ! k) * 10 ^ k + 10 ^ Suc k * of_nat (undigits (drop (Suc k) ?D))"
    by (rule Suc.hyps(1)) (use Suc.hyps(2) in simp_all)
  also have "\<dots> = r + 10 ^ k * of_nat (undigits (drop k ?D))"
    unfolding D undigits.simps by (simp add: algebra_simps)
  finally show ?case .
qed

lemma undigits_pad: "undigits (ds @ replicate n 0) = undigits ds"
  by (induction ds) (simp, induction n, simp_all)

subsection \<open>Properties\<close>

text \<open>
  \<open>FindSetLeftBit\<close> gives the position of the highest bit that is set and \<open>FindSetRightBit\<close>
  that of the lowest, counted from one, and both give 0 for 0; the loops end.
\<close>

theorem find_set_bits:
  "\<exists>l r. reduce_findsetleftbit env w st [OpObject (int_var i), OpNull] = Ok (LAI_ERROR_NONE, w, int_var (of_nat l)) \<and>
    highest_bit i l \<and>
    reduce_findsetrightbit env w st [OpObject (int_var i), OpNull] = Ok (LAI_ERROR_NONE, w, int_var (of_nat r)) \<and>
    lowest_bit i r"
proof -
  obtain l where l: "msb_loop i 0 = l" "highest_bit i l" using msb_loop_spec [of i 0] by auto
  have "\<exists>r. (bnd (lsb_loop 64 i 0) (\<lambda>lsb. Ok (if lsb = 0 then 0 else 65 - lsb))) = Ok r \<and> lowest_bit i r"
  proof (cases "i = 0")
    case True
    then show ?thesis by (simp add: lsb_loop.simps [of 64 0] lowest_bit_def)
  next
    case False
    obtain p where p: "bit i p" "\<forall>j<p. \<not> bit i j" "p < 64" by (rule lowest_bit_exists [OF False])
    have "65 - (64 - p) = Suc p" using p(3) by simp
    then show ?thesis using lsb_loop_spec [OF p(1,2), of 64 0] p False by (simp add: lowest_bit_def)
  qed
  then obtain r n where "lsb_loop 64 i 0 = Ok n" "r = (if n = 0 then 0 else 65 - n)" "lowest_bit i r"
    by (auto simp only: bnd_eq_Ok outcome.inject)
  then have "reduce_findsetrightbit env w st [OpObject (int_var i), OpNull] = Ok (LAI_ERROR_NONE, w, int_var (of_nat r))"
    by (simp add: reduce_findsetrightbit_def try_integer_def mutate_result_def null_target)
  moreover have "reduce_findsetleftbit env w st [OpObject (int_var i), OpNull] = Ok (LAI_ERROR_NONE, w, int_var (of_nat l))"
    using l(1) by (simp add: reduce_findsetleftbit_def try_integer_def mutate_result_def null_target)
  ultimately show ?thesis using l(2) \<open>lowest_bit i r\<close> by blast
qed

text \<open>
  For the decimal digits \<open>ds\<close>, lowest first, \<open>FromBCD\<close> of their code gives the number, but
  \<open>ToBCD\<close> of the number gives the code of the digits in the opposite order: 12 becomes 0x21.
\<close>

theorem bcd_conversions:
  assumes "decimals ds" and "ds \<noteq> []" and "last ds \<noteq> 0"
  shows "reduce_from_bcd env w st [OpObject (int_var (bcd ds)), OpNull] =
      Ok (LAI_ERROR_NONE, w, int_var (of_nat (undigits ds))) \<and>
    reduce_to_bcd env w st [OpObject (int_var (of_nat (undigits ds))), OpNull] =
      Ok (LAI_ERROR_NONE, w, int_var (bcd (rev ds)))"
proof
  have "from_bcd_loop (bcd ds) 1 0 [0..<16] = of_nat (undigits ds)"
    using from_bcd_digits [OF assms(1), of 0 0] by (simp add: undigits_pad)
  then show "reduce_from_bcd env w st [OpObject (int_var (bcd ds)), OpNull] =
      Ok (LAI_ERROR_NONE, w, int_var (of_nat (undigits ds)))"
    by (simp add: reduce_from_bcd_def get_objectref_def get_objectref_int emplace_result_def null_target finalize_int)
  have "length ds \<le> 20" using assms(1) by (simp add: decimals_def)
  from to_bcd_digits [OF assms this, of 0] shift_in_bcd [of "[]" ds]
  have "to_bcd_loop 20 (of_nat (undigits ds)) 0 = bcd (rev ds)" by simp
  then show "reduce_to_bcd env w st [OpObject (int_var (of_nat (undigits ds))), OpNull] =
      Ok (LAI_ERROR_NONE, w, int_var (bcd (rev ds)))"
    by (simp add: reduce_to_bcd_def get_objectref_def get_objectref_int emplace_result_def null_target finalize_int)
qed

theorem bcd_conversions_witness:
  "reduce_from_bcd demo_env demo_world lai_init_state [OpObject (int_var 0x12), OpNull] =
      Ok (LAI_ERROR_NONE, demo_world, int_var 12) \<and>
    reduce_to_bcd demo_env demo_world lai_init_state [OpObject (int_var 12), OpNull] =
      Ok (LAI_ERROR_NONE, demo_world, int_var 0x21)"
  using bcd_conversions [of "[2, 1]" demo_env demo_world lai_init_state] by (simp add: decimals_def)

text \<open>
  \<open>SizeOf\<close> gives the length of its operand, but the reference it takes to it is never
  released: every evaluation leaves the counter of the object one too high.
\<close>

theorem sizeof_leaks_reference:
  assumes inv: "heap_inv R w" and held: "var_refs v \<subseteq># R + heap_refs w"
    and ty: "v_type v = LAI_BUFFER" and b: "buffer_head w (v_ptr v) = Ok (a, b)"
  shows "\<exists>w'. reduce_sizeof w [OpObject v] = Ok (LAI_ERROR_NONE, w', int_var (of_nat (b_size b))) \<and>
    heap_inv (R + var_refs v) w'"
proof -
  from vars.take_law [OF inv held] obtain w' where w': "var_ref w v = Ok w'" "heap_inv (R + var_refs v) w'" by blast
  have c: "cell w a = Some (HBuf b)" "v_ptr v = PHead a"
    using b by (auto simp: buffer_head_def deref_def bnd_eq_Ok split: lai_ptr.splits option.splits lai_head.splits)
  from var_ref_cells [OF w'(1) c(1)] obtain n where "cell w' a = Some (HBuf (b\<lparr>b_rc := n\<rparr>))" by auto
  then have "lai_exec_buffer_size w' v = Ok (b_size b)"
    using ty c(2) by (simp add: lai_exec_buffer_size_def lai_exec_buffer_access_def buffer_head_def deref_def)
  moreover have "get_objectref w [OpObject v] 0 = Ok (w', v)"
    using w'(1) by (simp add: get_objectref_def lai_exec_get_objectref_def lai_var_assign_def lai_var_move_var0)
  ultimately show ?thesis using w'(2) ty by (simp add: reduce_sizeof_def)
qed

definition buffer_world :: "unit lai_world" where
  "buffer_world = demo_world\<lparr>cells := [Some (HBuf \<lparr>b_rc = 1, b_size = 3, b_content = [7, 8, 9]\<rparr>)]\<rparr>"

definition buffer_var :: lai_variable where
  "buffer_var = var0\<lparr>v_type := LAI_BUFFER, v_ptr := PHead 0\<rparr>"

lemma buffer_world_inv: "heap_inv {#(KBuf, PHead 0)#} buffer_world"
  by (auto simp: heap_inv_def rc_ok_def dead_def heap_refs_def cell_refs_def buffer_world_def cell_def
      split: if_splits)

theorem sizeof_leaks_reference_witness:
  "\<exists>w'. reduce_sizeof buffer_world [OpObject buffer_var] = Ok (LAI_ERROR_NONE, w', int_var 3) \<and>
    heap_inv {#(KBuf, PHead 0), (KBuf, PHead 0)#} w'"
proof -
  have "buffer_head buffer_world (v_ptr buffer_var) = Ok (0, \<lparr>b_rc = 1, b_size = 3, b_content = [7, 8, 9]\<rparr>)"
    by (simp add: buffer_head_def deref_def buffer_world_def cell_def buffer_var_def)
  moreover have "var_refs buffer_var = {#(KBuf, PHead 0)#}" by (simp add: var_refs_def buffer_var_def)
  ultimately show ?thesis
    using sizeof_leaks_reference [OF buffer_world_inv, of buffer_var 0] by (simp add: buffer_var_def)
qed

end
