(* ===== verification/Lai_Opcodes.thy ===== *)
theory Lai_Opcodes
  imports Main
begin

text \<open>
  The numbers of \<open>lai/core/aml_opcodes.h\<close>; the prefix characters of names are in \<open>Lai_Name\<close>.
  An extended opcode is dispatched as \<open>EXTOP_PREFIX << 8 | opcode\<close>.
\<close>

definition ZERO_OP :: nat where "ZERO_OP = 0x00"
definition ONE_OP :: nat where "ONE_OP = 0x01"
definition ALIAS_OP :: nat where "ALIAS_OP = 0x06"
definition NAME_OP :: nat where "NAME_OP = 0x08"
definition BYTEPREFIX :: nat where "BYTEPREFIX = 0x0A"
definition WORDPREFIX :: nat where "WORDPREFIX = 0x0B"
definition DWORDPREFIX :: nat where "DWORDPREFIX = 0x0C"
definition STRINGPREFIX :: nat where "STRINGPREFIX = 0x0D"
definition QWORDPREFIX :: nat where "QWORDPREFIX = 0x0E"
definition SCOPE_OP :: nat where "SCOPE_OP = 0x10"
definition BUFFER_OP :: nat where "BUFFER_OP = 0x11"
definition PACKAGE_OP :: nat where "PACKAGE_OP = 0x12"
definition VARPACKAGE_OP :: nat where "VARPACKAGE_OP = 0x13"
definition METHOD_OP :: nat where "METHOD_OP = 0x14"
definition EXTERNAL_OP :: nat where "EXTERNAL_OP = 0x15"
definition EXTOP_PREFIX :: nat where "EXTOP_PREFIX = 0x5B"
definition LOCAL0_OP :: nat where "LOCAL0_OP = 0x60"
definition LOCAL1_OP :: nat where "LOCAL1_OP = 0x61"
definition LOCAL2_OP :: nat where "LOCAL2_OP = 0x62"
definition LOCAL3_OP :: nat where "LOCAL3_OP = 0x63"
definition LOCAL4_OP :: nat where "LOCAL4_OP = 0x64"
definition LOCAL5_OP :: nat where "LOCAL5_OP = 0x65"
definition LOCAL6_OP :: nat where "LOCAL6_OP = 0x66"
definition LOCAL7_OP :: nat where "LOCAL7_OP = 0x67"
definition ARG0_OP :: nat where "ARG0_OP = 0x68"
definition ARG1_OP :: nat where "ARG1_OP = 0x69"
definition ARG2_OP :: nat where "ARG2_OP = 0x6A"
definition ARG3_OP :: nat where "ARG3_OP = 0x6B"
definition ARG4_OP :: nat where "ARG4_OP = 0x6C"
definition ARG5_OP :: nat where "ARG5_OP = 0x6D"
definition ARG6_OP :: nat where "ARG6_OP = 0x6E"
definition STORE_OP :: nat where "STORE_OP = 0x70"
definition REFOF_OP :: nat where "REFOF_OP = 0x71"
definition ADD_OP :: nat where "ADD_OP = 0x72"
definition CONCAT_OP :: nat where "CONCAT_OP = 0x73"
definition SUBTRACT_OP :: nat where "SUBTRACT_OP = 0x74"
definition INCREMENT_OP :: nat where "INCREMENT_OP = 0x75"
definition DECREMENT_OP :: nat where "DECREMENT_OP = 0x76"
definition MULTIPLY_OP :: nat where "MULTIPLY_OP = 0x77"
definition DIVIDE_OP :: nat where "DIVIDE_OP = 0x78"
definition SHL_OP :: nat where "SHL_OP = 0x79"
definition SHR_OP :: nat where "SHR_OP = 0x7A"
definition AND_OP :: nat where "AND_OP = 0x7B"
definition OR_OP :: nat where "OR_OP = 0x7D"
definition XOR_OP :: nat where "XOR_OP = 0x7F"
definition NAND_OP :: nat where "NAND_OP = 0x7C"
definition NOR_OP :: nat where "NOR_OP = 0x7E"
definition NOT_OP :: nat where "NOT_OP = 0x80"
definition FINDSETLEFTBIT_OP :: nat where "FINDSETLEFTBIT_OP = 0x81"
definition FINDSETRIGHTBIT_OP :: nat where "FINDSETRIGHTBIT_OP = 0x82"
definition DEREF_OP :: nat where "DEREF_OP = 0x83"
definition CONCATRES_OP :: nat where "CONCATRES_OP = 0x84"
definition MOD_OP :: nat where "MOD_OP = 0x85"
definition NOTIFY_OP :: nat where "NOTIFY_OP = 0x86"
definition SIZEOF_OP :: nat where "SIZEOF_OP = 0x87"
definition INDEX_OP :: nat where "INDEX_OP = 0x88"
definition MATCH_OP :: nat where "MATCH_OP = 0x89"
definition DWORDFIELD_OP :: nat where "DWORDFIELD_OP = 0x8A"
definition WORDFIELD_OP :: nat where "WORDFIELD_OP = 0x8B"
definition BYTEFIELD_OP :: nat where "BYTEFIELD_OP = 0x8C"
definition BITFIELD_OP :: nat where "BITFIELD_OP = 0x8D"
definition OBJECTTYPE_OP :: nat where "OBJECTTYPE_OP = 0x8E"
definition QWORDFIELD_OP :: nat where "QWORDFIELD_OP = 0x8F"
definition LAND_OP :: nat where "LAND_OP = 0x90"
definition LOR_OP :: nat where "LOR_OP = 0x91"
definition LNOT_OP :: nat where "LNOT_OP = 0x92"
definition LEQUAL_OP :: nat where "LEQUAL_OP = 0x93"
definition LGREATER_OP :: nat where "LGREATER_OP = 0x94"
definition LLESS_OP :: nat where "LLESS_OP = 0x95"
definition TOBUFFER_OP :: nat where "TOBUFFER_OP = 0x96"
definition TODECIMALSTRING_OP :: nat where "TODECIMALSTRING_OP = 0x97"
definition TOHEXSTRING_OP :: nat where "TOHEXSTRING_OP = 0x98"
definition TOINTEGER_OP :: nat where "TOINTEGER_OP = 0x99"
definition TOSTRING_OP :: nat where "TOSTRING_OP = 0x9C"
definition MID_OP :: nat where "MID_OP = 0x9E"
definition COPYOBJECT_OP :: nat where "COPYOBJECT_OP = 0x9D"
definition CONTINUE_OP :: nat where "CONTINUE_OP = 0x9F"
definition IF_OP :: nat where "IF_OP = 0xA0"
definition ELSE_OP :: nat where "ELSE_OP = 0xA1"
definition WHILE_OP :: nat where "WHILE_OP = 0xA2"
definition NOP_OP :: nat where "NOP_OP = 0xA3"
definition RETURN_OP :: nat where "RETURN_OP = 0xA4"
definition BREAK_OP :: nat where "BREAK_OP = 0xA5"
definition BREAKPOINT_OP :: nat where "BREAKPOINT_OP = 0xCC"
definition ONES_OP :: nat where "ONES_OP = 0xFF"
definition MUTEX :: nat where "MUTEX = 0x01"
definition EVENT :: nat where "EVENT = 0x02"
definition CONDREF_OP :: nat where "CONDREF_OP = 0x12"
definition ARBFIELD_OP :: nat where "ARBFIELD_OP = 0x13"
definition STALL_OP :: nat where "STALL_OP = 0x21"
definition SLEEP_OP :: nat where "SLEEP_OP = 0x22"
definition ACQUIRE_OP :: nat where "ACQUIRE_OP = 0x23"
definition RELEASE_OP :: nat where "RELEASE_OP = 0x27"
definition SIGNAL_OP :: nat where "SIGNAL_OP = 0x24"
definition WAIT_OP :: nat where "WAIT_OP = 0x25"
definition RESET_OP :: nat where "RESET_OP = 0x26"
definition FROM_BCD_OP :: nat where "FROM_BCD_OP = 0x28"
definition TO_BCD_OP :: nat where "TO_BCD_OP = 0x29"
definition REVISION_OP :: nat where "REVISION_OP = 0x30"
definition DEBUG_OP :: nat where "DEBUG_OP = 0x31"
definition FATAL_OP :: nat where "FATAL_OP = 0x32"
definition TIMER_OP :: nat where "TIMER_OP = 0x33"
definition OPREGION :: nat where "OPREGION = 0x80"
definition FIELD :: nat where "FIELD = 0x81"
definition DEVICE :: nat where "DEVICE = 0x82"
definition PROCESSOR :: nat where "PROCESSOR = 0x83"
definition POWER_RES :: nat where "POWER_RES = 0x84"
definition THERMALZONE :: nat where "THERMALZONE = 0x85"
definition INDEXFIELD :: nat where "INDEXFIELD = 0x86"
definition BANKFIELD :: nat where "BANKFIELD = 0x87"
definition FIELD_ANY_ACCESS :: nat where "FIELD_ANY_ACCESS = 0x00"
definition FIELD_BYTE_ACCESS :: nat where "FIELD_BYTE_ACCESS = 0x01"
definition FIELD_WORD_ACCESS :: nat where "FIELD_WORD_ACCESS = 0x02"
definition FIELD_DWORD_ACCESS :: nat where "FIELD_DWORD_ACCESS = 0x03"
definition FIELD_QWORD_ACCESS :: nat where "FIELD_QWORD_ACCESS = 0x04"
definition FIELD_LOCK :: nat where "FIELD_LOCK = 0x10"
definition FIELD_PRESERVE :: nat where "FIELD_PRESERVE = 0x00"
definition FIELD_WRITE_ONES :: nat where "FIELD_WRITE_ONES = 0x01"
definition FIELD_WRITE_ZEROES :: nat where "FIELD_WRITE_ZEROES = 0x02"
definition METHOD_ARGC_MASK :: nat where "METHOD_ARGC_MASK = 0x07"
definition METHOD_SERIALIZED :: nat where "METHOD_SERIALIZED = 0x08"

definition extended :: "nat \<Rightarrow> nat" where
  "extended opcode = EXTOP_PREFIX * 256 + opcode"

lemmas opcode_defs =
  ZERO_OP_def ONE_OP_def ALIAS_OP_def NAME_OP_def
  BYTEPREFIX_def WORDPREFIX_def DWORDPREFIX_def STRINGPREFIX_def
  QWORDPREFIX_def SCOPE_OP_def BUFFER_OP_def PACKAGE_OP_def
  VARPACKAGE_OP_def METHOD_OP_def EXTERNAL_OP_def EXTOP_PREFIX_def
  LOCAL0_OP_def LOCAL1_OP_def LOCAL2_OP_def LOCAL3_OP_def
  LOCAL4_OP_def LOCAL5_OP_def LOCAL6_OP_def LOCAL7_OP_def
  ARG0_OP_def ARG1_OP_def ARG2_OP_def ARG3_OP_def
  ARG4_OP_def ARG5_OP_def ARG6_OP_def STORE_OP_def
  REFOF_OP_def ADD_OP_def CONCAT_OP_def SUBTRACT_OP_def
  INCREMENT_OP_def DECREMENT_OP_def MULTIPLY_OP_def DIVIDE_OP_def
  SHL_OP_def SHR_OP_def AND_OP_def OR_OP_def
  XOR_OP_def NAND_OP_def NOR_OP_def NOT_OP_def
  FINDSETLEFTBIT_OP_def FINDSETRIGHTBIT_OP_def DEREF_OP_def CONCATRES_OP_def
  MOD_OP_def NOTIFY_OP_def SIZEOF_OP_def INDEX_OP_def
  MATCH_OP_def DWORDFIELD_OP_def WORDFIELD_OP_def BYTEFIELD_OP_def
  BITFIELD_OP_def OBJECTTYPE_OP_def QWORDFIELD_OP_def LAND_OP_def
  LOR_OP_def LNOT_OP_def LEQUAL_OP_def LGREATER_OP_def
  LLESS_OP_def TOBUFFER_OP_def TODECIMALSTRING_OP_def TOHEXSTRING_OP_def
  TOINTEGER_OP_def TOSTRING_OP_def MID_OP_def COPYOBJECT_OP_def
  CONTINUE_OP_def IF_OP_def ELSE_OP_def WHILE_OP_def
  NOP_OP_def RETURN_OP_def BREAK_OP_def BREAKPOINT_OP_def
  ONES_OP_def MUTEX_def EVENT_def CONDREF_OP_def
  ARBFIELD_OP_def STALL_OP_def SLEEP_OP_def ACQUIRE_OP_def
  RELEASE_OP_def SIGNAL_OP_def WAIT_OP_def RESET_OP_def
  FROM_BCD_OP_def TO_BCD_OP_def REVISION_OP_def DEBUG_OP_def
  FATAL_OP_def TIMER_OP_def OPREGION_def FIELD_def
  DEVICE_def PROCESSOR_def POWER_RES_def THERMALZONE_def
  INDEXFIELD_def BANKFIELD_def FIELD_ANY_ACCESS_def FIELD_BYTE_ACCESS_def
  FIELD_WORD_ACCESS_def FIELD_DWORD_ACCESS_def FIELD_QWORD_ACCESS_def FIELD_LOCK_def
  FIELD_PRESERVE_def FIELD_WRITE_ONES_def FIELD_WRITE_ZEROES_def METHOD_ARGC_MASK_def
  METHOD_SERIALIZED_def extended_def

end
