(* ===== verification/Lai_Convert.thy ===== *)
theory Lai_Convert
  imports Lai_Ops
begin

text \<open>
  The operators of \<open>lai_exec_reduce_op\<close> (\<open>lai/core/exec.c\<close>) on strings, buffers and packages:
  \<open>Concatenate\<close>, \<open>ConcatenateResTemplate\<close>, \<open>Mid\<close>, \<open>Match\<close> and the explicit conversions.

  Variables declared with \<open>LAI_CLEANUP_VAR\<close> are released on every way out, the last declared
  first: that is the list given to \<open>release_all\<close>.
\<close>

subsection \<open>Concatenate\<close>

text \<open>Operands other than integers, strings and buffers are replaced by a string.\<close>

definition concat_first :: "'d lai_world \<Rightarrow> lai_variable \<Rightarrow> 'd reduction" where
  "concat_first w operand0 =
     (if v_type operand0 \<notin> {LAI_INTEGER, LAI_BUFFER, LAI_STRING} then
        if v_type operand0 = LAI_HANDLE then
          bnd (handle_of operand0) (\<lambda>p. lai_obj_to_type_string w var0 p)
        else if v_type operand0 = LAI_NONE then
          lai_create_c_string w var0 (bytes_of ''[Uninitialized Object]'' @ [0])
        else if v_type operand0 = LAI_PACKAGE then
          lai_create_c_string w var0 (bytes_of ''[Package Object]'' @ [0])
        else Ok (LAI_ERROR_NONE, w, var0)
      else bnd (lai_obj_clone w var0 operand0) (\<lambda>(w, c0). Ok (LAI_ERROR_NONE, w, c0)))"

definition string_of_length :: "'d lai_world \<Rightarrow> nat \<Rightarrow> u8 list \<Rightarrow> 'd reduction" where
  "string_of_length w n s =
     (let (e, w, t) = lai_create_string w var0 n in
      if e \<noteq> LAI_ERROR_NONE then Ok (e, w, t)
      else
        bnd (lai_exec_string_access w t) (\<lambda>(a, h).
        bnd (lai_strcpy (s_content h) s) (\<lambda>c.
        Ok (LAI_ERROR_NONE, put_string w a h c, t))))"

text \<open>For a handle a first string is created and its only reference is overwritten.\<close>

definition concat_second :: "'d lai_world \<Rightarrow> lai_variable \<Rightarrow> 'd reduction" where
  "concat_second w operand1 =
     (if v_type operand1 \<notin> {LAI_INTEGER, LAI_BUFFER, LAI_STRING} then
        if v_type operand1 = LAI_HANDLE then
          let (e, w, t) = lai_create_string w var0 0 in
          if e \<noteq> LAI_ERROR_NONE then Ok (e, w, t)
          else bnd (handle_of operand1) (\<lambda>p. lai_obj_to_type_string w t p)
        else if v_type operand1 = LAI_NONE then
          string_of_length w 22 (bytes_of ''[Uninitialized Object]'' @ [0])
        else if v_type operand1 = LAI_PACKAGE then
          string_of_length w 16 (bytes_of ''[Package Object]'' @ [0])
        else Ok (LAI_ERROR_NONE, w, var0)
      else bnd (lai_obj_clone w var0 operand1) (\<lambda>(w, t). Ok (LAI_ERROR_NONE, w, t)))"

text \<open>The three cases return the error, the world, \<open>operand1_convert\<close> and \<open>result\<close>.\<close>

type_synonym 'd concat_result = "(lai_api_error \<times> 'd lai_world \<times> lai_variable \<times> lai_variable) outcome"

definition concat_integers :: "'d lai_world \<Rightarrow> lai_variable \<Rightarrow> lai_variable \<Rightarrow> 'd concat_result" where
  "concat_integers w c0 t1 =
     bnd (lai_mutate_integer w (int_var 0) t1) (\<lambda>(e, w, c1).
     if e \<noteq> LAI_ERROR_NONE then Ok (e, w, c1, var0)
     else
       let (e, w, result) = lai_create_buffer w var0 16 in
       if e \<noteq> LAI_ERROR_NONE then Ok (e, w, c1, result)
       else
         bnd (buffer_write w result 0 (le_bytes 8 (v_integer c0) @ le_bytes 8 (v_integer c1))) (\<lambda>w.
         Ok (LAI_ERROR_NONE, w, c1, result)))"

text \<open>\<open>buffer_of_size\<close>: a buffer of the size, filled by \<open>lai_mutate_buffer\<close>.\<close>

definition buffer_of_size :: "'d lai_world \<Rightarrow> nat \<Rightarrow> lai_variable \<Rightarrow> 'd reduction" where
  "buffer_of_size w n t1 =
     (let (e, w, c1) = lai_create_buffer w var0 n in
      if e \<noteq> LAI_ERROR_NONE then Ok (e, w, c1)
      else bnd (lai_mutate_buffer w c1 t1) (\<lambda>(e, w). Ok (e, w, c1)))"

text \<open>The second \<open>memcpy\<close> copies as many bytes as the first.\<close>

definition concat_buffers :: "'d lai_world \<Rightarrow> lai_variable \<Rightarrow> lai_variable \<Rightarrow> 'd concat_result" where
  "concat_buffers w c0 t1 =
     bnd (case v_type t1 of
            LAI_STRING \<Rightarrow> bnd (lai_exec_string_length w t1) (\<lambda>strl. buffer_of_size w (strl + 1) t1)
          | LAI_INTEGER \<Rightarrow> buffer_of_size w 8 t1
          | LAI_BUFFER \<Rightarrow> bnd (lai_obj_clone w var0 t1) (\<lambda>(w, c1). Ok (LAI_ERROR_NONE, w, c1))
          | _ \<Rightarrow> Ok (LAI_ERROR_NONE, w, var0)) (\<lambda>(e, w, c1).
     if e \<noteq> LAI_ERROR_NONE then Ok (e, w, c1, var0)
     else
       bnd (lai_exec_buffer_size w c0) (\<lambda>b0size.
       bnd (lai_exec_buffer_size w c1) (\<lambda>b1size.
       let (e, w, result) = lai_create_buffer w var0 (b0size + b1size) in
       if e \<noteq> LAI_ERROR_NONE then Ok (e, w, c1, result)
       else
         bnd (lai_exec_buffer_access w c0) (\<lambda>(_, b0).
         bnd (lai_exec_buffer_access w c1) (\<lambda>(_, b1).
         bnd (get_block (b_content b0) 0 b0size) (\<lambda>bs0.
         bnd (buffer_write w result 0 bs0) (\<lambda>w.
         bnd (get_block (b_content b1) 0 b0size) (\<lambda>bs1.
         bnd (buffer_write w result b0size bs1) (\<lambda>w.
         Ok (LAI_ERROR_NONE, w, c1, result))))))))))"

text \<open>The terminator is written one behind the end; the allocation was cleared before.\<close>

definition string_of_object :: "'d lai_world \<Rightarrow> lai_variable \<Rightarrow> 'd reduction" where
  "string_of_object w t1 =
     (let (e, w, c1) = lai_create_string w var0 0 in
      if e \<noteq> LAI_ERROR_NONE then Ok (e, w, c1)
      else bnd (lai_mutate_string w c1 t1) (\<lambda>(e, w). Ok (e, w, c1)))"

definition concat_strings :: "'d lai_world \<Rightarrow> lai_variable \<Rightarrow> lai_variable \<Rightarrow> 'd concat_result" where
  "concat_strings w c0 t1 =
     bnd (case v_type t1 of
            LAI_STRING \<Rightarrow> bnd (lai_obj_clone w var0 t1) (\<lambda>(w, c1). Ok (LAI_ERROR_NONE, w, c1))
          | LAI_INTEGER \<Rightarrow> string_of_object w t1
          | LAI_BUFFER \<Rightarrow> string_of_object w t1
          | _ \<Rightarrow> Ok (LAI_ERROR_NONE, w, var0)) (\<lambda>(e, w, c1).
     if e \<noteq> LAI_ERROR_NONE then Ok (e, w, c1, var0)
     else
       bnd (lai_exec_string_length w c0) (\<lambda>s0len.
       bnd (lai_exec_string_length w c1) (\<lambda>s1len.
       let (e, w, result) = lai_create_string w var0 (s0len + s1len + 1) in
       if e \<noteq> LAI_ERROR_NONE then Ok (e, w, c1, result)
       else
         bnd (lai_exec_string_access w c0) (\<lambda>(_, s0).
         bnd (lai_exec_string_access w c1) (\<lambda>(_, s1).
         bnd (get_block (s_content s0) 0 s0len) (\<lambda>bs0.
         bnd (string_write w result 0 bs0) (\<lambda>w.
         bnd (get_block (s_content s1) 0 s1len) (\<lambda>bs1.
         bnd (string_write w result s0len bs1) (\<lambda>w.
         bnd (string_write w result (s0len + s1len + 1) [0]) (\<lambda>w.
         Ok (LAI_ERROR_NONE, w, c1, result)))))))))))"

definition reduce_concat :: "'d exec_env \<Rightarrow> 'd lai_world \<Rightarrow> lai_state \<Rightarrow> lai_operand list \<Rightarrow> 'd reduction" where
  "reduce_concat env w st ops =
     (let leave = (\<lambda>w vars e result.
        bnd (release_all lai_var_finalize w vars) (\<lambda>w. Ok (e, w, result))) in
      bnd (get_objectref w ops 0) (\<lambda>(w, operand0).
      bnd (get_objectref w ops 1) (\<lambda>(w, operand1).
      bnd (concat_first w operand0) (\<lambda>(e, w, c0).
      if e \<noteq> LAI_ERROR_NONE then leave w [c0, operand1, operand0] e var0
      else
        bnd (concat_second w operand1) (\<lambda>(e, w, t1).
        if e \<noteq> LAI_ERROR_NONE then leave w [t1, c0, operand1, operand0] e var0
        else
          bnd (case v_type c0 of
                 LAI_INTEGER \<Rightarrow> concat_integers w c0 t1
               | LAI_BUFFER \<Rightarrow> concat_buffers w c0 t1
               | LAI_STRING \<Rightarrow> concat_strings w c0 t1
               | _ \<Rightarrow> Ok (LAI_ERROR_NONE, w, var0, var0)) (\<lambda>(e, w, c1, result).
          if e \<noteq> LAI_ERROR_NONE then leave w [c1, t1, c0, operand1, operand0] e var0
          else
            bnd (emplace_result env w st ops 2 result) (\<lambda>(e, w, result).
            leave w [c1, t1, c0, operand1, operand0] e result)))))))"

subsection \<open>Resource templates\<close>

text \<open>An empty buffer counts as one that is only an end tag.\<close>

definition template_body :: "lai_buffer_head \<Rightarrow> u8 list outcome" where
  "template_body b = get_block (b_content b) 0 ((if b_size b = 0 then 2 else b_size b) - 2)"

definition reduce_concatres :: "'d exec_env \<Rightarrow> 'd lai_world \<Rightarrow> lai_state \<Rightarrow> lai_operand list \<Rightarrow> 'd reduction" where
  "reduce_concatres env w st ops =
     bnd (get_objectref w ops 0) (\<lambda>(w, buf1).
     bnd (get_objectref w ops 1) (\<lambda>(w, buf2).
     bnd (lai_exec_buffer_access w buf1) (\<lambda>(_, b1).
     bnd (lai_exec_buffer_access w buf2) (\<lambda>(_, b2).
     if b_size b1 = 1 \<or> b_size b2 = 1 then
       bnd (release_all lai_var_finalize w [buf2, buf1]) (\<lambda>w. Ok (LAI_ERROR_UNEXPECTED_RESULT, w, var0))
     else
       bnd (template_body b1) (\<lambda>bs1.
       bnd (template_body b2) (\<lambda>bs2.
       let n = length bs1 + length bs2; (_, w, result) = lai_create_buffer w var0 (n + 2) in
       bnd (lai_exec_buffer_access w result) (\<lambda>_.
       let bytes = bs1 @ bs2 @ [0x79]; check = sum_list bytes in
       bnd (buffer_write w result 0 (bytes @ [- check])) (\<lambda>w.
       bnd (emplace_result env w st ops 2 result) (\<lambda>(e, w, result).
       bnd (release_all lai_var_finalize w [buf2, buf1]) (\<lambda>w. Ok (e, w, result)))))))))))"

subsection \<open>Mid\<close>

text \<open>The sum of start and length is taken in 64 bits.\<close>

definition mid_length :: "u64 \<Rightarrow> u64 \<Rightarrow> u64 \<Rightarrow> u64" where
  "mid_length strl n sz = (if n \<ge> strl then 0 else if n + sz > strl then strl - n else sz)"

definition reduce_mid :: "'d exec_env \<Rightarrow> 'd lai_world \<Rightarrow> lai_state \<Rightarrow> lai_operand list \<Rightarrow> 'd reduction" where
  "reduce_mid env w st ops =
     (let leave = (\<lambda>w object e result. bnd (lai_var_finalize w object) (\<lambda>w. Ok (e, w, result))) in
      bnd (get_objectref w ops 0) (\<lambda>(w, object).
      bnd (rd ops 1) (\<lambda>op1. bnd (lai_exec_get_integer w op1 var0) (\<lambda>(e, w, index).
      if e \<noteq> LAI_ERROR_NONE then leave w object e var0
      else
        bnd (rd ops 2) (\<lambda>op2. bnd (lai_exec_get_integer w op2 var0) (\<lambda>(e, w, len).
        if e \<noteq> LAI_ERROR_NONE then leave w object e var0
        else
          bnd (if v_type object = LAI_STRING then lai_exec_string_length w object
               else if v_type object = LAI_BUFFER then lai_exec_buffer_size w object else Ok 0) (\<lambda>strl.
          let n = unat (v_integer index); sz = mid_length (of_nat strl) (v_integer index) (v_integer len) in
          bnd (case v_type object of
                 LAI_STRING \<Rightarrow>
                   (let (e, w, result) = lai_create_string w var0 (unat (sz + 1)) in
                    if e \<noteq> LAI_ERROR_NONE then Ok (e, w, var0)
                    else
                      bnd (lai_exec_string_access w object) (\<lambda>(_, s).
                      bnd (get_block (s_content s) n (unat sz)) (\<lambda>bs.
                      bnd (string_write w result 0 bs) (\<lambda>w. Ok (LAI_ERROR_NONE, w, result)))))
               | LAI_BUFFER \<Rightarrow>
                   (let (e, w, result) = lai_create_buffer w var0 (unat sz) in
                    if e \<noteq> LAI_ERROR_NONE then Ok (e, w, var0)
                    else
                      bnd (lai_exec_buffer_access w object) (\<lambda>(_, b).
                      bnd (get_block (b_content b) n (unat sz)) (\<lambda>bs.
                      bnd (buffer_write w result 0 bs) (\<lambda>w. Ok (LAI_ERROR_NONE, w, result)))))
               | _ \<Rightarrow> Ok (LAI_ERROR_NONE, w, var0)) (\<lambda>(e, w, result).
          if e \<noteq> LAI_ERROR_NONE then leave w object e var0
          else
            bnd (mutate_result env w st ops 3 result) (\<lambda>(e, w, result). leave w object e result)))))))))"

subsection \<open>Match\<close>

definition match_op_of :: "u64 \<Rightarrow> match_op" where
  "match_op_of n =
     (if n = 0 then MATCH_MTR else if n = 1 then MATCH_MEQ else if n = 2 then MATCH_MLE
      else if n = 3 then MATCH_MLT else if n = 4 then MATCH_MGE else if n = 5 then MATCH_MGT
      else MATCH_OTHER (unat n))"

text \<open>The loop returns the index of the first element that satisfies both conditions.\<close>

fun match_loop :: "'d exec_env \<Rightarrow> 'd lai_world \<Rightarrow> lai_variable \<Rightarrow> match_op \<Rightarrow> lai_variable \<Rightarrow> match_op \<Rightarrow>
    lai_variable \<Rightarrow> nat list \<Rightarrow> (lai_api_error \<times> 'd lai_world \<times> u64) outcome" where
  "match_loop env w package op1 object1 op2 object2 [] = Ok (LAI_ERROR_NONE, w, NOT 0)"
| "match_loop env w package op1 object1 op2 object2 (i # is) =
     bnd (lai_exec_pkg_load w var0 package i) (\<lambda>(w, object).
     bnd (lai_obj_exec_match_op (e_memcmp env) op1 w object object1) (\<lambda>(e, w, a).
     if e \<noteq> LAI_ERROR_NONE then
       bnd (lai_var_finalize w object) (\<lambda>w. Ok (LAI_ERROR_ILLEGAL_ARGUMENTS, w, 0))
     else
       bnd (lai_obj_exec_match_op (e_memcmp env) op2 w object object2) (\<lambda>(e, w, b).
       bnd (lai_var_finalize w object) (\<lambda>w.
       if e \<noteq> LAI_ERROR_NONE then Ok (LAI_ERROR_ILLEGAL_ARGUMENTS, w, 0)
       else if a = Some True \<and> b = Some True then Ok (LAI_ERROR_NONE, w, of_nat i)
       else match_loop env w package op1 object1 op2 object2 is))))"

definition reduce_match :: "'d exec_env \<Rightarrow> 'd lai_world \<Rightarrow> lai_operand list \<Rightarrow> 'd reduction" where
  "reduce_match env w ops =
     (let leave = (\<lambda>w vars e result.
        bnd (release_all lai_var_finalize w vars) (\<lambda>w. Ok (e, w, result))) in
      bnd (get_objectref w ops 0) (\<lambda>(w, package).
      if v_type package \<noteq> LAI_PACKAGE then leave w [package] LAI_ERROR_UNEXPECTED_RESULT var0
      else
        bnd (rd ops 1) (\<lambda>o1. bnd (lai_exec_get_integer w o1 var0) (\<lambda>(e, w, op1).
        if e \<noteq> LAI_ERROR_NONE then leave w [package] e var0
        else
          bnd (get_objectref w ops 2) (\<lambda>(w, object1).
          bnd (rd ops 3) (\<lambda>o3. bnd (lai_exec_get_integer w o3 var0) (\<lambda>(e, w, op2).
          if e \<noteq> LAI_ERROR_NONE then leave w [object1, package] e var0
          else
            bnd (get_objectref w ops 4) (\<lambda>(w, object2).
            bnd (rd ops 5) (\<lambda>o5. bnd (lai_exec_get_integer w o5 var0) (\<lambda>(e, w, start).
            if e \<noteq> LAI_ERROR_NONE then leave w [object2, object1, package] e var0
            else
              bnd (lai_exec_pkg_size w package) (\<lambda>n.
              bnd (match_loop env w package (match_op_of (v_integer op1)) object1
                     (match_op_of (v_integer op2)) object2 [unat (v_integer start)..<n]) (\<lambda>(e, w, i).
              leave w [object2, object1, package] e
                (if e = LAI_ERROR_NONE then int_var i else var0)))))))))))))"

subsection \<open>Explicit conversions\<close>

definition reduce_conversion :: "('d lai_world \<Rightarrow> lai_variable \<Rightarrow> lai_variable \<Rightarrow> 'd reduction) \<Rightarrow> nat \<Rightarrow>
    'd exec_env \<Rightarrow> 'd lai_world \<Rightarrow> lai_state \<Rightarrow> lai_operand list \<Rightarrow> 'd reduction" where
  "reduce_conversion convert t env w st ops =
     bnd (get_objectref w ops 0) (\<lambda>(w, operand).
     bnd (convert w var0 operand) (\<lambda>(e, w, result).
     ensure (e = LAI_ERROR_NONE) (
     bnd (emplace_result env w st ops t result) (\<lambda>(e, w, result).
     bnd (lai_var_finalize w operand) (\<lambda>w. Ok (e, w, result))))))"

definition reduce_tobuffer :: "'d exec_env \<Rightarrow> 'd lai_world \<Rightarrow> lai_state \<Rightarrow> lai_operand list \<Rightarrow> 'd reduction" where
  "reduce_tobuffer = reduce_conversion lai_obj_to_buffer 1"
definition reduce_todecimalstring :: "'d exec_env \<Rightarrow> 'd lai_world \<Rightarrow> lai_state \<Rightarrow> lai_operand list \<Rightarrow> 'd reduction" where
  "reduce_todecimalstring = reduce_conversion lai_obj_to_decimal_string 1"
definition reduce_tohexstring :: "'d exec_env \<Rightarrow> 'd lai_world \<Rightarrow> lai_state \<Rightarrow> lai_operand list \<Rightarrow> 'd reduction" where
  "reduce_tohexstring = reduce_conversion lai_obj_to_hex_string 1"
definition reduce_tointeger :: "'d exec_env \<Rightarrow> 'd lai_world \<Rightarrow> lai_state \<Rightarrow> lai_operand list \<Rightarrow> 'd reduction" where
  "reduce_tointeger = reduce_conversion lai_obj_to_integer 1"

definition reduce_tostring :: "'d exec_env \<Rightarrow> 'd lai_world \<Rightarrow> lai_state \<Rightarrow> lai_operand list \<Rightarrow> 'd reduction" where
  "reduce_tostring env w st ops =
     bnd (get_objectref w ops 0) (\<lambda>(w, operand).
     bnd (rd ops 1) (\<lambda>op1. bnd (lai_exec_get_integer w op1 var0) (\<lambda>(e, w, siz).
     if e \<noteq> LAI_ERROR_NONE then bnd (lai_var_finalize w operand) (\<lambda>w. Ok (e, w, var0))
     else
       bnd (lai_obj_to_string w var0 operand (unat (v_integer siz))) (\<lambda>(e, w, result).
       ensure (e = LAI_ERROR_NONE) (
       bnd (emplace_result env w st ops 2 result) (\<lambda>(e, w, result).
       bnd (lai_var_finalize w operand) (\<lambda>w. Ok (e, w, result))))))))"

subsection \<open>Buffers in the heap\<close>

text \<open>\<open>holds w v bs\<close>: the variable is a buffer with exactly these bytes.\<close>

definition holds :: "'w lai_heap_scheme \<Rightarrow> lai_variable \<Rightarrow> u8 list \<Rightarrow> bool" where
  "holds w v bs \<longleftrightarrow> v_type v = LAI_BUFFER \<and>
     (\<exists>a b. v_ptr v = PHead a \<and> cell w a = Some (HBuf b) \<and> b_size b = length bs \<and> b_content b = bs)"

definition memory_left :: "'w lai_heap_scheme \<Rightarrow> bool" where
  "memory_left w \<longleftrightarrow> (\<forall>k. mem_ok w k)"

lemma holds_simps:
  assumes "holds w v bs"
  shows "lai_exec_buffer_size w v = Ok (length bs)"
    and "\<exists>a b. lai_exec_buffer_access w v = Ok (a, b) \<and> b_content b = bs \<and> b_size b = length bs"
  using assms by (auto simp: holds_def lai_exec_buffer_size_def lai_exec_buffer_access_def buffer_head_def deref_def)

text \<open>A fresh buffer that is then filled up to its size.\<close>

lemma create_buffer_Ok:
  assumes "memory_left w"
  obtains w' r where "lai_create_buffer w var0 n = (LAI_ERROR_NONE, w', r)" "memory_left w'"
    "holds w' r (replicate n 0)" "v_ptr r = PHead (length (cells w))"
    "\<And>v bs. holds w v bs \<Longrightarrow> holds w' v bs \<and> v_ptr v \<noteq> v_ptr r"
    "\<And>a h. cell w a = Some h \<Longrightarrow> cell w' a = Some h"
proof -
  let ?w = "w\<lparr>mem_clock := Suc (Suc (mem_clock w))\<rparr>"
  let ?h = "HBuf \<lparr>b_rc = 1, b_size = n, b_content = replicate n 0\<rparr>"
  let ?r = "var0\<lparr>v_type := LAI_BUFFER, v_ptr := PHead (length (cells w))\<rparr>"
  have e: "lai_create_buffer w var0 n = (LAI_ERROR_NONE, new_cell ?w (Some ?h), ?r)"
    using assms by (simp add: lai_create_buffer_def create_head_def laihost_malloc_def memory_left_def)
  have c: "cell (new_cell ?w (Some ?h)) a = (if a = length (cells w) then Some ?h else cell w a)" for a
    by (auto simp: cell_def new_cell_def nth_append)
  show ?thesis
  proof (rule that [OF e])
    show "memory_left (new_cell ?w (Some ?h))" using assms by (simp add: memory_left_def new_cell_def)
    show "holds (new_cell ?w (Some ?h)) ?r (replicate n 0)" by (simp add: holds_def c)
    show "v_ptr ?r = PHead (length (cells w))" by simp
    show "holds (new_cell ?w (Some ?h)) v bs \<and> v_ptr v \<noteq> v_ptr ?r" if "holds w v bs" for v bs
      using that cell_Some_lt by (fastforce simp: holds_def c)
    show "cell (new_cell ?w (Some ?h)) a = Some h" if "cell w a = Some h" for a h
      using that cell_Some_lt [OF that] by (simp add: c)
  qed
qed

lemma buffer_write_Ok:
  assumes "holds w r cs" and "off + length bs \<le> length cs"
  obtains w' where "buffer_write w r off bs = Ok w'"
    "holds w' r (take off cs @ bs @ drop (off + length bs) cs)"
    "\<And>v ds. holds w v ds \<Longrightarrow> v_ptr v \<noteq> v_ptr r \<Longrightarrow> holds w' v ds"
    "\<And>a. PHead a \<noteq> v_ptr r \<Longrightarrow> cell w' a = cell w a" "mem_ok w' = mem_ok w" "length (cells w') = length (cells w)"
proof -
  from assms(1) obtain a b where b: "v_type r = LAI_BUFFER" "v_ptr r = PHead a" "cell w a = Some (HBuf b)"
      "b_size b = length cs" "b_content b = cs"
    by (auto simp: holds_def)
  let ?cs = "take off cs @ bs @ drop (off + length bs) cs"
  have e: "buffer_write w r off bs = Ok (put_buffer w a b ?cs)"
    using b assms(2) by (simp add: buffer_write_def buffer_head_def deref_def put_block_def)
  have c: "cell (put_buffer w a b ?cs) d = (if d = a then Some (HBuf (b\<lparr>b_content := ?cs\<rparr>)) else cell w d)" for d
    using cell_Some_lt [OF b(3)] by (simp add: put_buffer_def cell_put_cell)
  show ?thesis
  proof (rule that [OF e])
    show "holds (put_buffer w a b ?cs) r ?cs" using b assms(2) by (simp add: holds_def c)
    show "holds (put_buffer w a b ?cs) v ds" if "holds w v ds" "v_ptr v \<noteq> v_ptr r" for v ds
      using that b(2) by (auto simp: holds_def c)
    show "cell (put_buffer w a b ?cs) d = cell w d" if "PHead d \<noteq> v_ptr r" for d
      using that b(2) by (simp add: c)
    show "mem_ok (put_buffer w a b ?cs) = mem_ok w" "length (cells (put_buffer w a b ?cs)) = length (cells w)"
      by (simp_all add: put_buffer_def put_cell_def)
  qed
qed

text \<open>A clone of a buffer is another buffer with the same bytes.\<close>

lemma clone_buffer_Ok:
  assumes "holds w v bs" and "memory_left w"
  obtains w' c where "lai_obj_clone w var0 v = Ok (w', c)" "holds w' c bs" "memory_left w'"
    "\<And>u ds. holds w u ds \<Longrightarrow> holds w' u ds \<and> v_ptr u \<noteq> v_ptr c"
proof -
  obtain w1 r where r: "lai_create_buffer w var0 (length bs) = (LAI_ERROR_NONE, w1, r)" "memory_left w1"
      "holds w1 r (replicate (length bs) 0)"
      "\<And>v bs. holds w v bs \<Longrightarrow> holds w1 v bs \<and> v_ptr v \<noteq> v_ptr r"
    using create_buffer_Ok [OF assms(2), of "length bs"] by metis
  obtain w2 where w2: "buffer_write w1 r 0 bs = Ok w2"
      "holds w2 r (take 0 (replicate (length bs) 0) @ bs @ drop (0 + length bs) (replicate (length bs) 0))"
      "\<And>v ds. holds w1 v ds \<Longrightarrow> v_ptr v \<noteq> v_ptr r \<Longrightarrow> holds w2 v ds" "mem_ok w2 = mem_ok w1"
    by (rule buffer_write_Ok [OF r(3), of 0 bs]) simp_all
  have w2_holds: "holds w2 r bs" using w2(2) by simp
  from holds_simps(2) [of w1 v bs] r(4) [OF assms(1)] obtain a b where
    "lai_exec_buffer_access w1 v = Ok (a, b)" "b_content b = bs" by blast
  then have "lai_clone_buffer w var0 v = Ok (w2, r)"
    using holds_simps(1) [OF assms(1)] r(1) w2(1) by (simp add: lai_clone_buffer_def get_block_def)
  then have "lai_obj_clone w var0 v = Ok (w2, r)"
    using assms(1) by (simp add: lai_obj_clone_def holds_def lai_swap_object_def lai_var_finalize_var0)
  then show ?thesis
    by (rule that) (use w2 w2_holds r in \<open>auto simp: memory_left_def\<close>)
qed

subsection \<open>Properties\<close>

text \<open>
  Concatenating two buffers copies as many bytes of the second as the first has: with a
  second operand at least as long the result has the right length, but only zeros from there
  on; with a shorter one the copy reads behind the end of it.
\<close>

theorem concat_buffers_wrong_length:
  assumes h0: "holds w c0 bs0" and h1: "holds w t1 bs1" and m: "memory_left w"
  shows "if length bs0 \<le> length bs1 then
      \<exists>w' c1 r. concat_buffers w c0 t1 = Ok (LAI_ERROR_NONE, w', c1, r) \<and>
        holds w' r (bs0 @ take (length bs0) bs1 @ replicate (length bs1 - length bs0) 0)
    else concat_buffers w c0 t1 = Fault"
proof -
  let ?m = "length bs0" and ?n = "length bs1"
  from clone_buffer_Ok [OF h1 m] obtain w1 c1 where
    w1: "lai_obj_clone w var0 t1 = Ok (w1, c1)" "holds w1 c1 bs1" "memory_left w1" "holds w1 c0 bs0"
    using h0 by metis
  obtain w2 r where w2: "lai_create_buffer w1 var0 (?m + ?n) = (LAI_ERROR_NONE, w2, r)"
      "holds w2 r (replicate (?m + ?n) 0)" "\<And>v bs. holds w1 v bs \<Longrightarrow> holds w2 v bs \<and> v_ptr v \<noteq> v_ptr r"
    using create_buffer_Ok [OF w1(3), of "?m + ?n"] by metis
  obtain a0 b0 where b0: "lai_exec_buffer_access w2 c0 = Ok (a0, b0)" "b_content b0 = bs0"
    using holds_simps(2) w2(3) [OF w1(4)] by blast
  obtain a1 b1 where b1: "lai_exec_buffer_access w2 c1 = Ok (a1, b1)" "b_content b1 = bs1"
    using holds_simps(2) w2(3) [OF w1(2)] by blast
  obtain w3 where w3: "buffer_write w2 r 0 bs0 = Ok w3"
      "holds w3 r (take 0 (replicate (?m + ?n) 0) @ bs0 @ drop (0 + ?m) (replicate (?m + ?n) 0))"
    by (rule buffer_write_Ok [OF w2(2), of 0 bs0]) simp_all
  have w3_holds: "holds w3 r (bs0 @ replicate ?n 0)" using w3(2) by simp
  have ty: "v_type t1 = LAI_BUFFER" using h1 by (simp add: holds_def)
  note run = concat_buffers_def ty w1(1) holds_simps(1) [OF w1(2)] holds_simps(1) [OF w1(4)] w2(1) b0 b1 w3(1)
    get_block_def
  show ?thesis
  proof (cases "?m \<le> ?n")
    case True
    obtain w4 where w4: "buffer_write w3 r ?m (take ?m bs1) = Ok w4"
        "holds w4 r (take ?m (bs0 @ replicate ?n 0) @ take ?m bs1 @
          drop (?m + length (take ?m bs1)) (bs0 @ replicate ?n 0))"
      by (rule buffer_write_Ok [OF w3_holds, of ?m "take ?m bs1"]) (use True in simp_all)
    then have "holds w4 r (bs0 @ take ?m bs1 @ replicate (?n - ?m) 0)" using True by (simp add: min_absorb1 min_absorb2)
    then show ?thesis using True w4(1) by (auto simp: run)
  next
    case False
    then show ?thesis by (simp add: run)
  qed
qed

definition two_buffers :: "unit lai_world" where
  "two_buffers = demo_world\<lparr>cells := [Some (HBuf \<lparr>b_rc = 1, b_size = 1, b_content = [5]\<rparr>),
     Some (HBuf \<lparr>b_rc = 1, b_size = 3, b_content = [7, 8, 9]\<rparr>)]\<rparr>"

definition buffer_at :: "nat \<Rightarrow> lai_variable" where
  "buffer_at a = var0\<lparr>v_type := LAI_BUFFER, v_ptr := PHead a\<rparr>"

lemma two_buffers_hold: "holds two_buffers (buffer_at 0) [5]" "holds two_buffers (buffer_at 1) [7, 8, 9]"
    "memory_left two_buffers"
  by (simp_all add: holds_def two_buffers_def cell_def buffer_at_def memory_left_def demo_world_def)

theorem concat_buffers_wrong_length_witness:
  "(\<exists>w' c1 r. concat_buffers two_buffers (buffer_at 0) (buffer_at 1) = Ok (LAI_ERROR_NONE, w', c1, r) \<and>
      holds w' r [5, 7, 0, 0]) \<and>
    concat_buffers two_buffers (buffer_at 1) (buffer_at 0) = Fault"
  using concat_buffers_wrong_length [OF two_buffers_hold]
    concat_buffers_wrong_length [OF two_buffers_hold(2,1,3)]
  by (simp add: numeral_2_eq_2)

text \<open>
  \<open>Mid\<close> of a string from a positive index inside it with the length \<open>Ones\<close>, the usual way to
  ask for the rest of a string, wraps around when start and length are added: the length is not
  cut, and the copy runs out of the string.
\<close>

theorem mid_rest_of_string_faults:
  assumes s: "v_type v = LAI_STRING" "v_ptr v = PHead a" "cell w a = Some (HStr s)" "0 < s_rc s"
    and len: "lai_strlen (s_content s) = Ok l" "l < 2 ^ 64" "length (s_content s) < 2 ^ 64 - 1"
    and n: "0 < n" "n < of_nat l" and m: "memory_left w"
  shows "reduce_mid env w st [OpObject v, OpObject (int_var n), OpObject (int_var (NOT 0)), OpNull] = Fault"
proof -
  let ?w = "put_cell w a (Some (HStr (s\<lparr>s_rc := s_rc s + 1\<rparr>)))"
  have ref: "var_ref w v = Ok ?w"
    using s by (simp add: var_ref_def counted_head_def deref_def lai_rc_ref_def)
  have obj: "get_objectref w [OpObject v, OpObject (int_var n), OpObject (int_var (NOT 0)), OpNull] 0 = Ok (?w, v)"
    using ref by (simp add: get_objectref_def lai_exec_get_objectref_def lai_var_assign_def lai_var_move_var0)
  have c: "cell ?w a = Some (HStr (s\<lparr>s_rc := s_rc s + 1\<rparr>))"
    using cell_Some_lt [OF s(3)] by (simp add: cell_put_cell)
  have strlen: "lai_exec_string_length ?w v = Ok l"
    using s c len(1) by (simp add: lai_exec_string_length_def string_head_def deref_def)
  have "n + NOT 0 = n - 1" by simp
  moreover have "\<not> of_nat l < n - 1" "\<not> of_nat l \<le> n" using n by unat_arith+
  ultimately have sz: "mid_length (of_nat l) n (NOT 0) = NOT 0" by (simp add: mid_length_def)
  obtain w' r where r: "lai_create_string ?w var0 0 = (LAI_ERROR_NONE, w', r)"
      "cell w' a = Some (HStr (s\<lparr>s_rc := s_rc s + 1\<rparr>))"
    using m cell_Some_lt [OF c] c
    by (auto simp: lai_create_string_def create_head_def laihost_malloc_def memory_left_def put_cell_def
        new_cell_def cell_def nth_append)
  have "unat (- 1 :: u64) = 2 ^ 64 - 1" by (simp add: unsigned_minus_1_eq_mask mask_eq_exp_minus_1)
  then have "length (s_content s) < unat n + unat (- 1 :: u64)" using len(3) by linarith
  then show ?thesis
    using s(1,2) obj strlen sz r
    by (simp add: reduce_mid_def lai_exec_string_access_def string_head_def deref_def get_block_def)
qed

definition text_world :: "unit lai_world" where
  "text_world = demo_world\<lparr>cells := [Some (HStr \<lparr>s_rc = 1, s_capacity = 4, s_content = [65, 66, 67, 0]\<rparr>)]\<rparr>"

theorem mid_rest_of_string_faults_witness:
  "reduce_mid demo_env text_world lai_init_state
     [OpObject (var0\<lparr>v_type := LAI_STRING, v_ptr := PHead 0\<rparr>), OpObject (int_var 1), OpObject (int_var (NOT 0)), OpNull]
   = Fault"
  by (rule mid_rest_of_string_faults [where a = 0 and l = 3 and
        s = "\<lparr>s_rc = 1, s_capacity = 4, s_content = [65, 66, 67, 0]\<rparr>"])
    (simp_all add: text_world_def cell_def memory_left_def demo_world_def lai_strlen_spec)

end
