(* ===== verification/Lai_Reduce.thy ===== *)
theory Lai_Reduce
  imports Lai_Convert Lai_Sync Lai_Opcodes
begin

text \<open>
  The rest of \<open>lai_exec_reduce_op\<close> (\<open>lai/core/exec.c\<close>): the operators that wait, synchronise and
  notify, and the dispatch over the opcode; and \<open>lai_exec_reduce_node\<close>, which creates namespace
  nodes.
\<close>

subsection \<open>Time\<close>

text \<open>\<open>Stall\<close> polls the timer, at most \<open>e_rounds\<close> times.\<close>

fun stall_loop :: "nat \<Rightarrow> ('d \<Rightarrow> u64 \<times> 'd) \<Rightarrow> 'd lai_world \<Rightarrow> u64 \<Rightarrow> u64 \<Rightarrow> 'd lai_world outcome" where
  "stall_loop 0 timer w start ticks = Stuck"
| "stall_loop (Suc fuel) timer w start ticks =
     (let (now, d) = timer (dev w); w = w\<lparr>dev := d\<rparr> in
      if now - start \<le> ticks then stall_loop fuel timer w start ticks else Ok w)"

definition reduce_stall :: "'d exec_env \<Rightarrow> 'd lai_world \<Rightarrow> lai_operand list \<Rightarrow> 'd reduction" where
  "reduce_stall env w ops = (case e_timer env of
     None \<Rightarrow> Panic
   | Some timer \<Rightarrow>
       try_integer w ops 0 (\<lambda>w i.
       let t = (if i = 0 then 1 else i) in
       if t > 100 then
         (case e_sleep env of
            None \<Rightarrow> Fault
          | Some sleep \<Rightarrow> Ok (LAI_ERROR_NONE, w\<lparr>dev := sleep (dev w) (t * 1000)\<rparr>, var0))
       else
         let (start, d) = timer (dev w) in
         bnd (stall_loop (e_rounds env) timer (w\<lparr>dev := d\<rparr>) start (t * 10)) (\<lambda>w.
         Ok (LAI_ERROR_NONE, w, var0))))"

definition reduce_sleep :: "'d exec_env \<Rightarrow> 'd lai_world \<Rightarrow> lai_operand list \<Rightarrow> 'd reduction" where
  "reduce_sleep env w ops = (case e_sleep env of
     None \<Rightarrow> Panic
   | Some sleep \<Rightarrow>
       try_integer w ops 0 (\<lambda>w i.
       Ok (LAI_ERROR_NONE, w\<lparr>dev := sleep (dev w) (if i = 0 then 1 else i)\<rparr>, var0)))"

text \<open>The three operands of \<open>Fatal\<close> are only read for the message.\<close>

definition reduce_fatal :: "'d lai_world \<Rightarrow> lai_operand list \<Rightarrow> 'd reduction" where
  "reduce_fatal w ops =
     try_integer w ops 0 (\<lambda>w ty. try_integer w ops 1 (\<lambda>w data. try_integer w ops 2 (\<lambda>w arg. Panic)))"

subsection \<open>Mutexes and events of the namespace\<close>

definition named_node :: "'d lai_world \<Rightarrow> lai_operand list \<Rightarrow> nat outcome" where
  "named_node w ops = bnd (rd ops 0) (\<lambda>operand. case operand of
     OpResolved (Some p) \<Rightarrow> Ok p | OpResolved None \<Rightarrow> Fault | _ \<Rightarrow> Panic)"

definition sync_val :: "'d lai_world \<Rightarrow> nat \<Rightarrow> u32 outcome" where
  "sync_val w p = bnd (node w p) (\<lambda>n. case n_data n of NdSync v \<Rightarrow> Ok v | _ \<Rightarrow> Fault)"

definition put_sync :: "'d lai_world \<Rightarrow> nat \<Rightarrow> u32 \<Rightarrow> 'd lai_world outcome" where
  "put_sync w p v = bnd (node w p) (\<lambda>n. Ok (put_node w p (n\<lparr>n_data := NdSync v\<rparr>)))"

text \<open>
  The loops of \<open>lai_mutex_lock\<close> and \<open>lai_event_wait\<close>, run by one thread: \<open>step\<close> is the iteration
  of \<open>Lai_Sync\<close>.  The flag of the result is the return value 1, the deadline has passed.
\<close>

fun sync_loop :: "nat \<Rightarrow> (bool \<Rightarrow> u32 \<Rightarrow> u32 \<Rightarrow> (u32 \<times> sync_next) outcome) \<Rightarrow> 'd exec_env \<Rightarrow>
    'd lai_world \<Rightarrow> nat \<Rightarrow> u64 \<Rightarrow> u32 \<Rightarrow> ('d lai_world \<times> bool) outcome" where
  "sync_loop 0 step env w p deadline v = Stuck"
| "sync_loop (Suc fuel) step env w p deadline v =
     bnd (sync_val w p) (\<lambda>val.
     bnd (step (e_sync_wait env \<noteq> None) val v) (\<lambda>(val, nx).
     bnd (put_sync w p val) (\<lambda>w. case nx of
       SDone \<Rightarrow> Ok (w, False)
     | SAgain v \<Rightarrow> sync_loop fuel step env w p deadline v
     | SBlock v expected \<Rightarrow>
         (case e_sync_wait env of
            None \<Rightarrow> Panic
          | Some wait \<Rightarrow>
              let (w, timed_out) = wait w p expected deadline in
              if timed_out then Ok (w, True) else sync_loop fuel step env w p deadline v))))"

definition reduce_wait :: "ns_type \<Rightarrow> (bool \<Rightarrow> u32 \<Rightarrow> u32 \<Rightarrow> (u32 \<times> sync_next) outcome) \<Rightarrow> 'd exec_env \<Rightarrow>
    'd lai_world \<Rightarrow> lai_operand list \<Rightarrow> 'd reduction" where
  "reduce_wait ty step env w ops =
     bnd (rd ops 0) (\<lambda>operand.
     ensure (case operand of OpResolved _ \<Rightarrow> True | _ \<Rightarrow> False) (
     try_integer w ops 1 (\<lambda>w timeout.
     bnd (named_node w ops) (\<lambda>p.
     bnd (node w p) (\<lambda>n.
     ensure (n_type n = ty) (
     bnd (sync_val w p) (\<lambda>v.
     bnd (sync_loop (e_rounds env) step env w p timeout v) (\<lambda>(w, timed_out).
     Ok (LAI_ERROR_NONE, w, int_var (if timed_out then 1 else 0))))))))))"

definition reduce_acquire :: "'d exec_env \<Rightarrow> 'd lai_world \<Rightarrow> lai_operand list \<Rightarrow> 'd reduction" where
  "reduce_acquire = reduce_wait LAI_NAMESPACE_MUTEX lock_iter"
definition reduce_event_wait :: "'d exec_env \<Rightarrow> 'd lai_world \<Rightarrow> lai_operand list \<Rightarrow> 'd reduction" where
  "reduce_event_wait = reduce_wait LAI_NAMESPACE_EVENT event_wait_iter"

definition wake :: "'d exec_env \<Rightarrow> 'd lai_world \<Rightarrow> nat \<Rightarrow> 'd lai_world" where
  "wake env w p = (case e_sync_wake env of None \<Rightarrow> w | Some f \<Rightarrow> f w p)"

definition reduce_release :: "'d exec_env \<Rightarrow> 'd lai_world \<Rightarrow> lai_operand list \<Rightarrow> 'd reduction" where
  "reduce_release env w ops =
     bnd (named_node w ops) (\<lambda>p.
     bnd (node w p) (\<lambda>n.
     ensure (n_type n = LAI_NAMESPACE_MUTEX) (
     bnd (sync_val w p) (\<lambda>v.
     bnd (lai_mutex_unlock (e_sync_wake env \<noteq> None) v) (\<lambda>(v, waiting).
     bnd (put_sync w p v) (\<lambda>w.
     Ok (LAI_ERROR_NONE, if waiting then wake env w p else w, var0)))))))"

text \<open>\<open>Signal\<close> and \<open>Reset\<close> do not wait: with nobody between the load and the exchange one
  iteration is enough.\<close>

definition reduce_signal :: "'d exec_env \<Rightarrow> 'd lai_world \<Rightarrow> lai_operand list \<Rightarrow> 'd reduction" where
  "reduce_signal env w ops =
     bnd (named_node w ops) (\<lambda>p.
     bnd (node w p) (\<lambda>n.
     ensure (n_type n = LAI_NAMESPACE_EVENT) (
     bnd (sync_val w p) (\<lambda>v.
     bnd (event_signal_iter (e_sync_wake env \<noteq> None) v v) (\<lambda>(x, _).
     bnd (put_sync w p x) (\<lambda>w.
     Ok (LAI_ERROR_NONE, if v AND LAI_EVENT_WAITERS = 0 then w else wake env w p, var0)))))))"

definition reduce_reset :: "'d lai_world \<Rightarrow> lai_operand list \<Rightarrow> 'd reduction" where
  "reduce_reset w ops =
     bnd (named_node w ops) (\<lambda>p.
     bnd (node w p) (\<lambda>n.
     ensure (n_type n = LAI_NAMESPACE_EVENT) (
     bnd (sync_val w p) (\<lambda>v.
     bnd (event_reset_iter v v) (\<lambda>(x, _).
     bnd (put_sync w p x) (\<lambda>w. Ok (LAI_ERROR_NONE, w, var0)))))))"

definition reduce_notify :: "'d exec_env \<Rightarrow> 'd lai_world \<Rightarrow> lai_operand list \<Rightarrow> 'd reduction" where
  "reduce_notify env w ops =
     bnd (rd ops 0) (\<lambda>operand.
     ensure (case operand of OpResolved _ \<Rightarrow> True | _ \<Rightarrow> False) (
     try_integer w ops 1 (\<lambda>w code.
     bnd (named_node w ops) (\<lambda>p.
     bnd (node w p) (\<lambda>n.
     ensure (n_type n \<in> {LAI_NAMESPACE_DEVICE, LAI_NAMESPACE_PROCESSOR, LAI_NAMESPACE_THERMALZONE}) (
     let w = (case e_global_notify env of None \<Rightarrow> w | Some f \<Rightarrow> w\<lparr>dev := f (dev w) p code\<rparr>) in
     case n_notify n of
       Some h \<Rightarrow>
         (let (failed, d) = e_notify env h (dev w) p code in
          ensure (\<not> failed) (Ok (LAI_ERROR_NONE, w\<lparr>dev := d\<rparr>, var0)))
     | None \<Rightarrow> bnd (lai_stringify_node_path w p) (\<lambda>_. Ok (LAI_ERROR_NONE, w, var0))))))))"

subsection \<open>Dispatch\<close>

text \<open>The cases that are integers, references and indices, then the others.\<close>

definition reduce_op_integers :: "'d exec_env \<Rightarrow> 'd lai_world \<Rightarrow> lai_state \<Rightarrow> nat \<Rightarrow> lai_operand list \<Rightarrow>
    'd reduction option" where
  "reduce_op_integers env w st opcode ops =
     (if opcode = NOT_OP then Some (reduce_not env w st ops)
      else if opcode = FINDSETLEFTBIT_OP then Some (reduce_findsetleftbit env w st ops)
      else if opcode = FINDSETRIGHTBIT_OP then Some (reduce_findsetrightbit env w st ops)
      else if opcode = ADD_OP then Some (reduce_add env w st ops)
      else if opcode = SUBTRACT_OP then Some (reduce_subtract env w st ops)
      else if opcode = MOD_OP then Some (reduce_mod env w st ops)
      else if opcode = MULTIPLY_OP then Some (reduce_multiply env w st ops)
      else if opcode = AND_OP then Some (reduce_and env w st ops)
      else if opcode = OR_OP then Some (reduce_or env w st ops)
      else if opcode = XOR_OP then Some (reduce_xor env w st ops)
      else if opcode = NAND_OP then Some (reduce_nand env w st ops)
      else if opcode = NOR_OP then Some (reduce_nor env w st ops)
      else if opcode = SHL_OP then Some (reduce_shl env w st ops)
      else if opcode = SHR_OP then Some (reduce_shr env w st ops)
      else if opcode = DIVIDE_OP then Some (reduce_divide env w st ops)
      else if opcode = INCREMENT_OP then Some (reduce_increment env w st ops)
      else if opcode = DECREMENT_OP then Some (reduce_decrement env w st ops)
      else if opcode = LNOT_OP then Some (reduce_lnot w ops)
      else if opcode = LAND_OP then Some (reduce_land w ops)
      else if opcode = LOR_OP then Some (reduce_lor w ops)
      else if opcode = LEQUAL_OP then Some (reduce_lequal env w ops)
      else if opcode = LLESS_OP then Some (reduce_lless env w ops)
      else if opcode = LGREATER_OP then Some (reduce_lgreater env w ops)
      else None)"

definition reduce_op_objects :: "'d exec_env \<Rightarrow> 'd lai_world \<Rightarrow> lai_state \<Rightarrow> nat \<Rightarrow> lai_operand list \<Rightarrow>
    'd reduction option" where
  "reduce_op_objects env w st opcode ops =
     (if opcode = STORE_OP then Some (reduce_store env w st ops)
      else if opcode = COPYOBJECT_OP then Some (reduce_copyobject env w st ops)
      else if opcode = CONCAT_OP then Some (reduce_concat env w st ops)
      else if opcode = INDEX_OP then Some (reduce_index env w st ops)
      else if opcode = MATCH_OP then Some (reduce_match env w ops)
      else if opcode = CONCATRES_OP then Some (reduce_concatres env w st ops)
      else if opcode = DEREF_OP then Some (reduce_deref env w ops)
      else if opcode = SIZEOF_OP then Some (reduce_sizeof w ops)
      else if opcode = REFOF_OP then Some (reduce_refof w st ops)
      else if opcode = TOBUFFER_OP then Some (reduce_tobuffer env w st ops)
      else if opcode = TODECIMALSTRING_OP then Some (reduce_todecimalstring env w st ops)
      else if opcode = TOHEXSTRING_OP then Some (reduce_tohexstring env w st ops)
      else if opcode = TOINTEGER_OP then Some (reduce_tointeger env w st ops)
      else if opcode = TOSTRING_OP then Some (reduce_tostring env w st ops)
      else if opcode = MID_OP then Some (reduce_mid env w st ops)
      else if opcode = OBJECTTYPE_OP then Some (reduce_objecttype env w st ops)
      else if opcode = extended CONDREF_OP then Some (reduce_condref env w st ops)
      else if opcode = extended FROM_BCD_OP then Some (reduce_from_bcd env w st ops)
      else if opcode = extended TO_BCD_OP then Some (reduce_to_bcd env w st ops)
      else None)"

definition reduce_op_system :: "'d exec_env \<Rightarrow> 'd lai_world \<Rightarrow> nat \<Rightarrow> lai_operand list \<Rightarrow>
    'd reduction option" where
  "reduce_op_system env w opcode ops =
     (if opcode = NOTIFY_OP then Some (reduce_notify env w ops)
      else if opcode = extended STALL_OP then Some (reduce_stall env w ops)
      else if opcode = extended SLEEP_OP then Some (reduce_sleep env w ops)
      else if opcode = extended FATAL_OP then Some (reduce_fatal w ops)
      else if opcode = extended ACQUIRE_OP then Some (reduce_acquire env w ops)
      else if opcode = extended RELEASE_OP then Some (reduce_release env w ops)
      else if opcode = extended WAIT_OP then Some (reduce_event_wait env w ops)
      else if opcode = extended SIGNAL_OP then Some (reduce_signal env w ops)
      else if opcode = extended RESET_OP then Some (reduce_reset w ops)
      else None)"

text \<open>The result replaces what the caller's variable held.\<close>

definition lai_exec_reduce_op :: "'d exec_env \<Rightarrow> 'd lai_world \<Rightarrow> lai_state \<Rightarrow> nat \<Rightarrow> lai_operand list \<Rightarrow>
    lai_variable \<Rightarrow> 'd reduction" where
  "lai_exec_reduce_op env w st opcode ops reduction_res =
     bnd (case reduce_op_integers env w st opcode ops of
            Some r \<Rightarrow> r
          | None \<Rightarrow> (case reduce_op_objects env w st opcode ops of
              Some r \<Rightarrow> r
            | None \<Rightarrow> (case reduce_op_system env w opcode ops of
                Some r \<Rightarrow> r
              | None \<Rightarrow> Ok (LAI_ERROR_UNSUPPORTED, w, var0)))) (\<lambda>(e, w, result).
     if e \<noteq> LAI_ERROR_NONE then Ok (e, w, reduction_res)
     else bnd (lai_var_move w reduction_res result) (\<lambda>(w, reduction_res, _).
          Ok (LAI_ERROR_NONE, w, reduction_res)))"

subsection \<open>Namespace nodes\<close>

definition unresolved :: "lai_operand list \<Rightarrow> nat \<Rightarrow> (nat option \<times> u8 list) outcome" where
  "unresolved ops i = bnd (rd ops i) (\<lambda>operand. case operand of
     OpUnresolved ctx aml \<Rightarrow> Ok (ctx, aml) | _ \<Rightarrow> Panic)"

text \<open>A fresh node of a type, with the name and parent that the AML name gives.\<close>

definition new_named_node :: "'d lai_world \<Rightarrow> ns_type \<Rightarrow> nat option \<Rightarrow> u8 list \<Rightarrow> (nat \<times> 'd lai_world) outcome" where
  "new_named_node w ty ctx aml =
     bnd (lai_amlname_parse aml) (\<lambda>(amln, _).
     bnd (lai_create_nsnode_or_die w) (\<lambda>(p, w).
     bnd (node w p) (\<lambda>n.
     bnd (lai_do_resolve_new_node (put_node w p (n\<lparr>n_type := ty\<rparr>)) p ctx amln) (\<lambda>w.
     Ok (p, w)))))"

text \<open>The node is installed and, inside a method, linked to the nodes the method created.\<close>

definition link_to_method :: "'d lai_world \<Rightarrow> lai_state \<Rightarrow> nat \<Rightarrow> 'd lai_world outcome" where
  "link_to_method w st p =
     bnd (current_context st) (\<lambda>ctxitem. case ci_invocation ctxitem of
       None \<Rightarrow> Ok w
     | Some k \<Rightarrow> bnd (invocation w k) (\<lambda>iv.
         Ok (put_invocation w k (iv\<lparr>iv_nodes := iv_nodes iv @ [p]\<rparr>))))"

definition install_and_link :: "'d lai_world \<Rightarrow> lai_state \<Rightarrow> nat \<Rightarrow> (lai_api_error \<times> 'd lai_world) outcome" where
  "install_and_link w st p =
     bnd (lai_install_nsnode w p) (\<lambda>(e, w).
     if e \<noteq> LAI_ERROR_NONE then Ok (e, w)
     else bnd (link_to_method w st p) (\<lambda>w. Ok (LAI_ERROR_NONE, w)))"

definition reduce_name :: "'d lai_world \<Rightarrow> lai_state \<Rightarrow> lai_operand list \<Rightarrow> nat option \<Rightarrow>
    (lai_api_error \<times> 'd lai_world) outcome" where
  "reduce_name w st ops ctx_handle =
     bnd (get_objectref w ops 1) (\<lambda>(w, object).
     bnd (unresolved ops 0) (\<lambda>(_, aml).
     bnd (new_named_node w LAI_NAMESPACE_NAME ctx_handle aml) (\<lambda>(p, w).
     bnd (node w p) (\<lambda>n.
     bnd (lai_var_move w (n_object n) object) (\<lambda>(w, v, _).
     install_and_link (put_node w p (n\<lparr>n_object := v\<rparr>)) st p)))))"

text \<open>
  A buffer field keeps a reference to the buffer.  The operand is taken for a buffer without a
  check of its type; with another object the field would point to something else.
\<close>

definition attach_buffer :: "'d exec_env \<Rightarrow> 'd lai_world \<Rightarrow> lai_state \<Rightarrow> lai_operand list \<Rightarrow> nat \<Rightarrow> u64 \<Rightarrow> u64 \<Rightarrow>
    (lai_api_error \<times> 'd lai_world) outcome" where
  "attach_buffer env w st ops p offset siz =
     bnd (rd ops 0) (\<lambda>operand.
     bnd (lai_operand_load env w st operand var0) (\<lambda>(w, buf).
     bnd (buffer_head w (v_ptr buf)) (\<lambda>(a, b).
     bnd (lai_rc_ref (b_rc b)) (\<lambda>rc.
     let w = put_cell w a (Some (HBuf (b\<lparr>b_rc := rc\<rparr>))) in
     bnd (node w p) (\<lambda>n.
     bnd (install_and_link (put_node w p (n\<lparr>n_data := NdBuffer a offset siz\<rparr>)) st p) (\<lambda>(e, w).
     bnd (lai_var_finalize w buf) (\<lambda>w. Ok (e, w))))))))"

definition field_bits :: "nat \<Rightarrow> u64" where
  "field_bits opcode =
     (if opcode = BITFIELD_OP then 1 else if opcode = BYTEFIELD_OP then 8
      else if opcode = WORDFIELD_OP then 16 else if opcode = DWORDFIELD_OP then 32 else 64)"

definition reduce_fixed_field :: "nat \<Rightarrow> 'd exec_env \<Rightarrow> 'd lai_world \<Rightarrow> lai_state \<Rightarrow> lai_operand list \<Rightarrow>
    (lai_api_error \<times> 'd lai_world) outcome" where
  "reduce_fixed_field opcode env w st ops =
     bnd (rd ops 1) (\<lambda>op1. bnd (lai_exec_get_integer w op1 var0) (\<lambda>(e, w, offset).
     if e \<noteq> LAI_ERROR_NONE then Ok (e, w)
     else
       bnd (unresolved ops 2) (\<lambda>(ctx, aml).
       bnd (new_named_node w LAI_NAMESPACE_BUFFER_FIELD ctx aml) (\<lambda>(p, w).
       attach_buffer env w st ops p
         (if opcode = BITFIELD_OP then v_integer offset else v_integer offset * 8) (field_bits opcode)))))"

definition reduce_arbfield :: "'d exec_env \<Rightarrow> 'd lai_world \<Rightarrow> lai_state \<Rightarrow> lai_operand list \<Rightarrow>
    (lai_api_error \<times> 'd lai_world) outcome" where
  "reduce_arbfield env w st ops =
     bnd (rd ops 1) (\<lambda>op1. bnd (lai_exec_get_integer w op1 var0) (\<lambda>(e, w, offset).
     if e \<noteq> LAI_ERROR_NONE then Ok (e, w)
     else
       bnd (rd ops 2) (\<lambda>op2. bnd (lai_exec_get_integer w op2 var0) (\<lambda>(e, w, siz).
       if e \<noteq> LAI_ERROR_NONE then Ok (e, w)
       else
         bnd (unresolved ops 3) (\<lambda>(ctx, aml).
         bnd (new_named_node w LAI_NAMESPACE_BUFFER_FIELD ctx aml) (\<lambda>(p, w).
         attach_buffer env w st ops p (v_integer offset) (v_integer siz)))))))"

definition reduce_opregion :: "'d lai_world \<Rightarrow> lai_state \<Rightarrow> lai_operand list \<Rightarrow> nat option \<Rightarrow>
    (lai_api_error \<times> 'd lai_world) outcome" where
  "reduce_opregion w st ops ctx_handle =
     bnd (rd ops 2) (\<lambda>op2. bnd (lai_exec_get_integer w op2 var0) (\<lambda>(e, w, base).
     if e \<noteq> LAI_ERROR_NONE then Ok (e, w)
     else
       bnd (rd ops 3) (\<lambda>op3. bnd (lai_exec_get_integer w op3 var0) (\<lambda>(e, w, siz).
       if e \<noteq> LAI_ERROR_NONE then Ok (e, w)
       else
         bnd (unresolved ops 0) (\<lambda>(_, aml).
         bnd (rd ops 1) (\<lambda>op1.
         bnd (case op1 of OpObject v \<Rightarrow> ensure (v_type v = LAI_INTEGER) (Ok (v_integer v)) | _ \<Rightarrow> Panic) (\<lambda>space.
         bnd (new_named_node w LAI_NAMESPACE_OPREGION ctx_handle aml) (\<lambda>(p, w).
         bnd (node w p) (\<lambda>n.
         install_and_link
           (put_node w p (n\<lparr>n_data := NdRegion (ucast space) (v_integer base) (v_integer siz) None\<rparr>)) st p)))))))))"

definition lai_exec_reduce_node :: "'d exec_env \<Rightarrow> nat \<Rightarrow> 'd lai_world \<Rightarrow> lai_state \<Rightarrow> lai_operand list \<Rightarrow>
    nat option \<Rightarrow> (lai_api_error \<times> 'd lai_world) outcome" where
  "lai_exec_reduce_node env opcode w st ops ctx_handle =
     (if opcode = NAME_OP then reduce_name w st ops ctx_handle
      else if opcode \<in> {BITFIELD_OP, BYTEFIELD_OP, WORDFIELD_OP, DWORDFIELD_OP, QWORDFIELD_OP}
      then reduce_fixed_field opcode env w st ops
      else if opcode = extended ARBFIELD_OP then reduce_arbfield env w st ops
      else if opcode = extended OPREGION then reduce_opregion w st ops ctx_handle
      else Panic)"

subsection \<open>The predefined methods\<close>

text \<open>\<open>lai/core/os_methods.c\<close>: \<open>_OSI\<close>, \<open>_OS\<close> and \<open>_REV\<close>.\<close>

definition supported_osi_strings :: "string list" where
  "supported_osi_strings =
     [''Windows 2000'', ''Windows 2001'', ''Windows 2001 SP1'', ''Windows 2001.1'', ''Windows 2006'',
      ''Windows 2006.1'', ''Windows 2006 SP1'', ''Windows 2006 SP2'', ''Windows 2009'', ''Windows 2012'',
      ''Windows 2013'', ''Windows 2015'']"

fun osi_loop :: "u8 list \<Rightarrow> string list \<Rightarrow> bool outcome" where
  "osi_loop query [] = Ok False"
| "osi_loop query (s # ss) =
     bnd (lai_strcmp query (bytes_of s @ [0])) (\<lambda>c. if c = 0 then Ok True else osi_loop query ss)"

definition lai_do_osi_method :: "'w lai_heap_scheme \<Rightarrow> lai_variable \<Rightarrow> lai_variable \<Rightarrow> lai_variable outcome" where
  "lai_do_osi_method w arg result =
     bnd (lai_exec_string_access w arg) (\<lambda>(_, s).
     bnd (osi_loop (s_content s) supported_osi_strings) (\<lambda>found.
     bnd (if found then Ok 0 else lai_strcmp (s_content s) (bytes_of ''Linux'' @ [0])) (\<lambda>_.
     Ok (result\<lparr>v_type := LAI_INTEGER, v_integer := if found then 0xFFFFFFFF else 0\<rparr>))))"

definition lai_do_os_method :: "'w lai_heap_scheme \<Rightarrow> lai_variable \<Rightarrow> ('w lai_heap_scheme \<times> lai_variable) outcome" where
  "lai_do_os_method w result =
     bnd (lai_create_c_string w result (bytes_of ''Microsoft Windows NT'' @ [0])) (\<lambda>(e, w, result).
     ensure (e = LAI_ERROR_NONE) (Ok (w, result)))"

definition lai_do_rev_method :: "lai_variable \<Rightarrow> lai_variable" where
  "lai_do_rev_method result = result\<lparr>v_type := LAI_INTEGER, v_integer := 2\<rparr>"

text \<open>\<open>_OSI\<close> answers for exactly the strings of the list.\<close>

lemma osi_loop_spec:
  assumes "terminated query" and "\<forall>s \<in> set ss. 0 \<notin> set (bytes_of s)"
  shows "osi_loop query ss = Ok (\<exists>s \<in> set ss. c_str query = bytes_of s)"
  using assms(2)
proof (induction ss)
  case (Cons s ss)
  have t: "terminated (bytes_of s @ [0])" "c_str (bytes_of s @ [0]) = bytes_of s"
    using Cons.prems by (simp_all add: terminated_append0 c_str_append0)
  obtain c where c: "lai_strcmp query (bytes_of s @ [0]) = Ok c"
    using lai_strcmp_total [OF assms(1) t(1)] by blast
  have "c = 0 \<longleftrightarrow> c_str query = bytes_of s" using lai_strcmp_zero [OF assms(1) t(1)] c t(2) by simp
  then show ?case using c Cons by auto
qed simp

end
