(* ===== verification/Lai_Parse.thy ===== *)
theory Lai_Parse
  imports Lai_Stack Lai_Object
begin

text \<open>
  The byte-level parsers of the interpreter (\<open>lai/core/exec.c\<close>): package lengths, integers and
  names, and the program counter of the current block; with the parse modes of
  \<open>lai/core/exec_impl.h\<close>.

  \<open>code\<close> is the memory from the pointer on, \<open>pc\<close> and \<open>limit\<close> are indices into it.  The result is
  \<open>None\<close> where the function returns 1 and leaves \<open>pc\<close> alone, else the value and the new \<open>pc\<close>.
\<close>

subsection \<open>Parse modes\<close>

definition LAI_DATA_MODE :: nat where "LAI_DATA_MODE = 1"
definition LAI_OBJECT_MODE :: nat where "LAI_OBJECT_MODE = 2"
definition LAI_EXEC_MODE :: nat where "LAI_EXEC_MODE = 3"
definition LAI_UNRESOLVED_MODE :: nat where "LAI_UNRESOLVED_MODE = 4"
definition LAI_REFERENCE_MODE :: nat where "LAI_REFERENCE_MODE = 5"
definition LAI_OPTIONAL_REFERENCE_MODE :: nat where "LAI_OPTIONAL_REFERENCE_MODE = 6"
definition LAI_IMMEDIATE_BYTE_MODE :: nat where "LAI_IMMEDIATE_BYTE_MODE = 7"
definition LAI_IMMEDIATE_WORD_MODE :: nat where "LAI_IMMEDIATE_WORD_MODE = 8"
definition LAI_IMMEDIATE_DWORD_MODE :: nat where "LAI_IMMEDIATE_DWORD_MODE = 9"

definition LAI_MF_RESULT :: u32 where "LAI_MF_RESULT = 1"
definition LAI_MF_RESOLVE :: u32 where "LAI_MF_RESOLVE = 2"
definition LAI_MF_NULLABLE :: u32 where "LAI_MF_NULLABLE = 4"
definition LAI_MF_INVOKE :: u32 where "LAI_MF_INVOKE = 8"

text \<open>The table by index; entry 0 is not given and so is 0.\<close>

definition lai_mode_flags :: "u32 list" where
  "lai_mode_flags =
     [0,
      LAI_MF_RESULT,
      LAI_MF_RESULT OR LAI_MF_RESOLVE OR LAI_MF_INVOKE,
      LAI_MF_RESOLVE OR LAI_MF_INVOKE,
      LAI_MF_RESULT,
      LAI_MF_RESULT OR LAI_MF_RESOLVE,
      LAI_MF_RESULT OR LAI_MF_RESOLVE OR LAI_MF_NULLABLE,
      LAI_MF_RESULT,
      LAI_MF_RESULT,
      LAI_MF_RESULT]"

subsection \<open>Package lengths\<close>

type_synonym 'a parsed = "('a \<times> nat) option outcome"

definition lai_parse_varint :: "u8 list \<Rightarrow> nat \<Rightarrow> nat \<Rightarrow> nat parsed" where
  "lai_parse_varint code pc limit =
     (if pc + 1 > limit then Ok None
      else
        bnd (rd code pc) (\<lambda>b0.
        let sz = drop_bit 6 b0 AND 3; low = unat (b0 AND 0x0F) in
        if sz = 0 then Ok (Some (unat (b0 AND 0x3F), pc + 1))
        else if sz = 1 then
          (if pc + 2 > limit then Ok None
           else bnd (rd code (pc + 1)) (\<lambda>b1. Ok (Some (low + unat b1 * 2 ^ 4, pc + 2))))
        else if sz = 2 then
          (if pc + 3 > limit then Ok None
           else bnd (rd code (pc + 1)) (\<lambda>b1. bnd (rd code (pc + 2)) (\<lambda>b2.
                Ok (Some (low + unat b1 * 2 ^ 4 + unat b2 * 2 ^ 12, pc + 3)))))
        else
          ensure (sz = 3)
          (if pc + 4 > limit then Ok None
           else bnd (rd code (pc + 1)) (\<lambda>b1. bnd (rd code (pc + 2)) (\<lambda>b2. bnd (rd code (pc + 3)) (\<lambda>b3.
                Ok (Some (low + unat b1 * 2 ^ 4 + unat b2 * 2 ^ 12 + unat b3 * 2 ^ 20, pc + 4))))))))"

subsection \<open>Integers\<close>

definition lai_parse_u8 :: "u8 list \<Rightarrow> nat \<Rightarrow> nat \<Rightarrow> u8 parsed" where
  "lai_parse_u8 code pc limit =
     (if pc + 1 > limit then Ok None else bnd (rd code pc) (\<lambda>b. Ok (Some (b, pc + 1))))"

definition lai_parse_u16 :: "u8 list \<Rightarrow> nat \<Rightarrow> nat \<Rightarrow> u16 parsed" where
  "lai_parse_u16 code pc limit =
     (if pc + 2 > limit then Ok None
      else bnd (rd code pc) (\<lambda>b0. bnd (rd code (pc + 1)) (\<lambda>b1.
           Ok (Some (ucast b0 OR push_bit 8 (ucast b1), pc + 2)))))"

definition lai_parse_u32 :: "u8 list \<Rightarrow> nat \<Rightarrow> nat \<Rightarrow> u32 parsed" where
  "lai_parse_u32 code pc limit =
     (if pc + 4 > limit then Ok None
      else bnd (rd code pc) (\<lambda>b0. bnd (rd code (pc + 1)) (\<lambda>b1.
           bnd (rd code (pc + 2)) (\<lambda>b2. bnd (rd code (pc + 3)) (\<lambda>b3.
           Ok (Some (ucast b0 OR push_bit 8 (ucast b1) OR push_bit 16 (ucast b2) OR push_bit 24 (ucast b3),
             pc + 4)))))))"

definition lai_parse_u64 :: "u8 list \<Rightarrow> nat \<Rightarrow> nat \<Rightarrow> u64 parsed" where
  "lai_parse_u64 code pc limit =
     (if pc + 8 > limit then Ok None
      else bnd (rd code pc) (\<lambda>b0. bnd (rd code (pc + 1)) (\<lambda>b1.
           bnd (rd code (pc + 2)) (\<lambda>b2. bnd (rd code (pc + 3)) (\<lambda>b3.
           bnd (rd code (pc + 4)) (\<lambda>b4. bnd (rd code (pc + 5)) (\<lambda>b5.
           bnd (rd code (pc + 6)) (\<lambda>b6. bnd (rd code (pc + 7)) (\<lambda>b7.
           Ok (Some (ucast b0 OR push_bit 8 (ucast b1) OR push_bit 16 (ucast b2) OR push_bit 24 (ucast b3)
             OR push_bit 32 (ucast b4) OR push_bit 40 (ucast b5) OR push_bit 48 (ucast b6) OR push_bit 56 (ucast b7),
             pc + 8)))))))))))"

text \<open>A name is parsed without regard to the limit.\<close>

definition lai_parse_name :: "u8 list \<Rightarrow> nat \<Rightarrow> nat \<Rightarrow> (lai_amlname \<times> nat) outcome" where
  "lai_parse_name code pc limit =
     guard (pc \<le> length code) (
     bnd (lai_amlname_parse (drop pc code)) (\<lambda>(amln, n). Ok (amln, pc + n)))"

text \<open>The program counter of the top block; \<open>block\<close> is read again.\<close>

definition lai_exec_commit_pc :: "lai_state \<Rightarrow> int \<Rightarrow> lai_state outcome" where
  "lai_exec_commit_pc st pc = (case lai_exec_peek_blkstack_back st of
     None \<Rightarrow> Panic
   | Some p \<Rightarrow>
       bnd (slot (blkstack_base st) p) (\<lambda>block.
       bnd (put_slot (blkstack_base st) p (block\<lparr>bi_pc := pc\<rparr>)) (\<lambda>base.
       Ok (st\<lparr>blkstack_base := base\<rparr>))))"

subsection \<open>The encoding\<close>

text \<open>The shortest encoding of a length below \<open>2 ^ 28\<close>.\<close>

definition varint_bytes :: "nat \<Rightarrow> u8 list" where
  "varint_bytes n =
     (if n < 2 ^ 6 then [of_nat n]
      else
        (if n < 2 ^ 12 then [of_nat (0x40 + n mod 16), of_nat (n div 2 ^ 4)]
         else if n < 2 ^ 20 then
           [of_nat (0x80 + n mod 16), of_nat (n div 2 ^ 4 mod 256), of_nat (n div 2 ^ 12)]
         else
           [of_nat (0xC0 + n mod 16), of_nat (n div 2 ^ 4 mod 256), of_nat (n div 2 ^ 12 mod 256),
            of_nat (n div 2 ^ 20)]))"

lemma unat_byte: "k < 256 \<Longrightarrow> unat (of_nat k :: u8) = k"
  by (simp add: unsigned_of_nat take_bit_nat_eq_self)

lemma byte_fields:
  assumes "k < 256"
  shows "unat (drop_bit 6 (of_nat k :: u8) AND 3) = k div 64"
    and "unat ((of_nat k :: u8) AND 0x3F) = k mod 64" and "unat ((of_nat k :: u8) AND 0x0F) = k mod 16"
proof -
  have m: "(3 :: u8) = mask 2" "(0x3F :: u8) = mask 6" "(0x0F :: u8) = mask 4"
    by (simp_all add: mask_eq_exp_minus_1)
  have d: "unat (drop_bit 6 (of_nat k :: u8)) = k div 64"
    unfolding unsigned_drop_bit_eq unat_byte [OF assms]
    by (simp only: drop_bit_eq_div take_bit_eq_mod) (use assms in simp)
  have "k div 64 < 4" using assms by simp
  then show "unat (drop_bit 6 (of_nat k :: u8) AND 3) = k div 64"
    unfolding m take_bit_eq_mask [symmetric] unsigned_take_bit_eq d by (simp add: take_bit_eq_mod)
  show "unat ((of_nat k :: u8) AND 0x3F) = k mod 64"
    unfolding m take_bit_eq_mask [symmetric] unsigned_take_bit_eq by (simp only: unat_byte [OF assms]) (simp add: take_bit_eq_mod)
  show "unat ((of_nat k :: u8) AND 0x0F) = k mod 16"
    unfolding m take_bit_eq_mask [symmetric] unsigned_take_bit_eq by (simp only: unat_byte [OF assms]) (simp add: take_bit_eq_mod)
qed

lemma byte_tag:
  assumes "k < 256"
  shows "drop_bit 6 (of_nat k :: u8) AND 3 = of_nat (k div 64)"
proof -
  have "k div 64 < 256" using assms by simp
  then show ?thesis
    by (simp only: word_unat_eq_iff byte_fields(1) [OF assms] unat_byte)
qed

lemma rd_at: "i < length xs \<Longrightarrow> rd (pre @ xs @ post) (length pre + i) = Ok (xs ! i)"
  by (simp add: rd_def nth_append)

lemma varint_bytes_cases:
  assumes "n < 2 ^ 28"
  obtains (one) "n < 64" "varint_bytes n = [of_nat n]"
    | (two) "64 \<le> n" "n < 2 ^ 12" "varint_bytes n = [of_nat (0x40 + n mod 16), of_nat (n div 2 ^ 4)]"
    | (three) "2 ^ 12 \<le> n" "n < 2 ^ 20"
        "varint_bytes n = [of_nat (0x80 + n mod 16), of_nat (n div 2 ^ 4 mod 256), of_nat (n div 2 ^ 12)]"
    | (four) "2 ^ 20 \<le> n"
        "varint_bytes n = [of_nat (0xC0 + n mod 16), of_nat (n div 2 ^ 4 mod 256), of_nat (n div 2 ^ 12 mod 256),
           of_nat (n div 2 ^ 20)]"
proof -
  consider "n < 64" | "64 \<le> n" "n < 2 ^ 12" | "2 ^ 12 \<le> n" "n < 2 ^ 20" | "2 ^ 20 \<le> n" by linarith
  then show thesis
    by cases (rule that, simp_all add: varint_bytes_def)+
qed

text \<open>The first byte: its two top bits give the size, its low bits the first digits.\<close>

lemma varint_first:
  assumes "m < 16" and "t < 4"
  shows "unat (of_nat (t * 64 + m) AND 0x0F :: u8) = m"
    and "drop_bit 6 (of_nat (t * 64 + m) :: u8) AND 3 = of_nat t"
proof -
  have k: "t * 64 + m < 256" using assms by linarith
  have e: "(t * 64 + m) mod 16 = m" "(t * 64 + m) div 64 = t"
  proof -
    have "t * 64 + m = m + (t * 4) * 16" by simp
    then show "(t * 64 + m) mod 16 = m" using assms(1) by (simp only: mod_mult_self1) simp
    have "(m + t * 64) div 64 = t + m div 64" by (rule div_mult_self1) simp
    then show "(t * 64 + m) div 64 = t" using assms(1) by (simp add: add.commute)
  qed
  show "unat (of_nat (t * 64 + m) AND 0x0F :: u8) = m"
    unfolding byte_fields(3) [OF k] by (rule e)
  show "drop_bit 6 (of_nat (t * 64 + m) :: u8) AND 3 = of_nat t"
    unfolding byte_tag [OF k] e ..
qed

lemma parse_varint_one:
  assumes "n < 64"
  shows "lai_parse_varint (pre @ [of_nat n] @ post) (length pre) limit =
    (if length pre + 1 \<le> limit then Ok (Some (n, length pre + 1)) else Ok None)"
proof -
  have t: "drop_bit 6 (of_nat n :: u8) AND 3 = 0" "unat (of_nat n AND 0x3F :: u8) = n"
    using assms byte_tag [of n] byte_fields(2) [of n] by simp_all
  have r: "rd (pre @ [of_nat n :: u8] @ post) (length pre) = Ok (of_nat n)"
    using rd_at [of 0 "[of_nat n :: u8]" pre post] by simp
  show ?thesis
    unfolding lai_parse_varint_def r by (simp add: t Let_def del: append_Cons append_Nil)
qed

lemma sums:
  fixes g :: "nat \<Rightarrow> nat"
  shows "(\<Sum>i<1. g i) = g 0" "(\<Sum>i<2. g i) = g 0 + g 1" "(\<Sum>i<3. g i) = g 0 + g 1 + g 2"
  by (simp_all add: eval_nat_numeral)

lemma parse_varint_more:
  assumes m: "m < 16" and t: "0 < t" "t < 4"
    and len: "length bs = t" and v: "\<And>i. i < length bs \<Longrightarrow> bs ! i < 256"
  shows "lai_parse_varint (pre @ (of_nat (t * 64 + m) # map of_nat bs) @ post) (length pre) limit =
    (if length pre + 1 + t \<le> limit
     then Ok (Some (m + (\<Sum>i<t. bs ! i * 2 ^ (4 + 8 * i)), length pre + 1 + t)) else Ok None)"
proof -
  let ?c = "pre @ (of_nat (t * 64 + m) # map of_nat bs :: u8 list) @ post"
  have f: "unat (of_nat (t * 64 + m) AND 0x0F :: u8) = m"
      "drop_bit 6 (of_nat (t * 64 + m) :: u8) AND 3 = of_nat t"
    by (rule varint_first [OF m t(2)])+
  have r0: "rd ?c (length pre) = Ok (of_nat (t * 64 + m))"
    using rd_at [of 0 "of_nat (t * 64 + m) # map of_nat bs :: u8 list" pre post] by simp
  have r: "rd ?c (length pre + Suc i) = Ok (of_nat (bs ! i))" if "i < t" for i
    using rd_at [of "Suc i" "of_nat (t * 64 + m) # map of_nat bs :: u8 list" pre post] that len by simp
  have u: "unat (of_nat (bs ! i) :: u8) = bs ! i" if "i < t" for i
    using v [of i] that len by (simp only: unat_byte)
  have r': "rd ?c (length pre + Suc i) = Ok (of_nat (bs ! i))" "unat (of_nat (bs ! i) :: u8) = bs ! i" if "i < t" for i
    using r u that by blast+
  consider "t = 1" | "t = 2" | "t = 3" using t by linarith
  then show ?thesis
  proof cases
    case 1
    have tag: "drop_bit 6 (of_nat (t * 64 + m) :: u8) AND 3 = 1" using f(2) 1 by simp
    have r1: "rd ?c (length pre + 1) = Ok (of_nat (bs ! 0))" using r [of 0] 1 by simp
    show ?thesis
      unfolding lai_parse_varint_def r0 bnd.simps(1) Let_def tag f(1) r1
      unfolding 1 sums using u [of 0] 1 by simp
  next
    case 2
    have tag: "drop_bit 6 (of_nat (t * 64 + m) :: u8) AND 3 = 2" using f(2) 2 by simp
    have r1: "rd ?c (length pre + 1) = Ok (of_nat (bs ! 0))" "rd ?c (length pre + 2) = Ok (of_nat (bs ! 1))"
      using r [of 0] r [of 1] 2 by (simp_all only: One_nat_def add_2_eq_Suc' add_Suc_right) simp_all
    show ?thesis
      unfolding lai_parse_varint_def r0 bnd.simps(1) Let_def tag f(1) r1
      unfolding 2 sums using u [of 0] u [of 1] 2 by simp
  next
    case 3
    have tag: "drop_bit 6 (of_nat (t * 64 + m) :: u8) AND 3 = 3" using f(2) 3 by simp
    have i3: "Suc 0 = 1" "Suc 1 = 2" "Suc 2 = 3" by simp_all
    have r1: "rd ?c (length pre + 1) = Ok (of_nat (bs ! 0))" "rd ?c (length pre + 2) = Ok (of_nat (bs ! 1))"
        "rd ?c (length pre + 3) = Ok (of_nat (bs ! 2))"
      using r [of 0] r [of 1] r [of 2] 3 unfolding i3 by simp_all
    show ?thesis
      unfolding lai_parse_varint_def r0 bnd.simps(1) Let_def tag f(1) r1
      unfolding 3 sums using u [of 0] u [of 1] u [of 2] 3 by simp
  qed
qed

lemma varint_digits:
  fixes n :: nat
  shows "n < 2 ^ 12 \<Longrightarrow> n mod 16 + n div 2 ^ 4 * 2 ^ 4 = n"
    and "n < 2 ^ 20 \<Longrightarrow> n mod 16 + n div 2 ^ 4 mod 256 * 2 ^ 4 + n div 2 ^ 12 * 2 ^ 12 = n"
    and "n mod 16 + n div 2 ^ 4 mod 256 * 2 ^ 4 + n div 2 ^ 12 mod 256 * 2 ^ 12 + n div 2 ^ 20 * 2 ^ 20 = n"
proof -
  have a: "n div 2 ^ 12 = n div 2 ^ 4 div 256" "n div 2 ^ 20 = n div 2 ^ 12 div 256"
    by (simp_all add: div_mult2_eq [symmetric])
  have b: "n mod 16 + n div 2 ^ 4 * 2 ^ 4 = n" by simp
  have m: "x + y * 256 = z \<Longrightarrow> x * 2 ^ 4 + y * 2 ^ 12 = z * 2 ^ 4" "x + y * 256 = z \<Longrightarrow> x * 2 ^ 12 + y * 2 ^ 20 = z * 2 ^ 12"
    for x y z :: nat by auto
  have c: "n div 2 ^ 4 mod 256 + n div 2 ^ 12 * 256 = n div 2 ^ 4" unfolding a(1) by simp
  have d: "n div 2 ^ 12 mod 256 + n div 2 ^ 20 * 256 = n div 2 ^ 12" unfolding a(2) by simp
  show "n mod 16 + n div 2 ^ 4 * 2 ^ 4 = n" by (rule b)
  show e: "n mod 16 + n div 2 ^ 4 mod 256 * 2 ^ 4 + n div 2 ^ 12 * 2 ^ 12 = n"
    using b m(1) [OF c] by linarith
  show "n mod 16 + n div 2 ^ 4 mod 256 * 2 ^ 4 + n div 2 ^ 12 mod 256 * 2 ^ 12 + n div 2 ^ 20 * 2 ^ 20 = n"
    using e m(2) [OF d] by linarith
qed

lemma parse_varint_bytes:
  assumes "n < 2 ^ 28"
  shows "lai_parse_varint (pre @ varint_bytes n @ post) (length pre) limit =
    (if length pre + length (varint_bytes n) \<le> limit
     then Ok (Some (n, length pre + length (varint_bytes n))) else Ok None)"
  using assms
proof (cases rule: varint_bytes_cases)
  case one
  show ?thesis
    unfolding one(2) parse_varint_one [OF one(1)] by simp
next
  case two
  let ?bs = "[n div 2 ^ 4]"
  have v: "\<And>i. i < length ?bs \<Longrightarrow> ?bs ! i < 256" using two by simp
  have e: "varint_bytes n = of_nat (1 * 64 + n mod 16) # map of_nat ?bs" unfolding two(3) by simp
  have d: "n mod 16 + (\<Sum>i<1. ?bs ! i * 2 ^ (4 + 8 * i)) = n"
    unfolding sums using varint_digits(1) [OF two(2)] by simp
  have "lai_parse_varint (pre @ varint_bytes n @ post) (length pre) limit =
      (if length pre + 1 + 1 \<le> limit then Ok (Some (n, length pre + 1 + 1)) else Ok None)"
    unfolding e by (subst parse_varint_more [OF _ _ _ _ v]) (simp_all only: d, simp_all)
  then show ?thesis unfolding e by simp
next
  case three
  let ?bs = "[n div 2 ^ 4 mod 256, n div 2 ^ 12]"
  have v: "\<And>i. i < length ?bs \<Longrightarrow> ?bs ! i < 256" using three by (auto simp: less_Suc_eq)
  have e: "varint_bytes n = of_nat (2 * 64 + n mod 16) # map of_nat ?bs" unfolding three(3) by simp
  have d: "n mod 16 + (\<Sum>i<2. ?bs ! i * 2 ^ (4 + 8 * i)) = n"
    unfolding sums using varint_digits(2) [OF three(2)] by simp
  have "lai_parse_varint (pre @ varint_bytes n @ post) (length pre) limit =
      (if length pre + 1 + 2 \<le> limit then Ok (Some (n, length pre + 1 + 2)) else Ok None)"
    unfolding e by (subst parse_varint_more [OF _ _ _ _ v]) (simp_all only: d, simp_all)
  then show ?thesis unfolding e by simp
next
  case four
  let ?bs = "[n div 2 ^ 4 mod 256, n div 2 ^ 12 mod 256, n div 2 ^ 20]"
  have v: "\<And>i. i < length ?bs \<Longrightarrow> ?bs ! i < 256" using assms by (auto simp: less_Suc_eq)
  have e: "varint_bytes n = of_nat (3 * 64 + n mod 16) # map of_nat ?bs" unfolding four(2) by simp
  have d: "n mod 16 + (\<Sum>i<3. ?bs ! i * 2 ^ (4 + 8 * i)) = n"
    unfolding sums using varint_digits(3) [of n] by (simp add: add.assoc)
  have "lai_parse_varint (pre @ varint_bytes n @ post) (length pre) limit =
      (if length pre + 1 + 3 \<le> limit then Ok (Some (n, length pre + 1 + 3)) else Ok None)"
    unfolding e by (subst parse_varint_more [OF _ _ _ _ v]) (simp_all only: d, simp_all)
  then show ?thesis unfolding e by simp
qed

text \<open>
  C21. Every package length below \<open>2 ^ 28\<close> is read back from its shortest encoding, whatever code
  surrounds it, with the program counter behind it; where the limit cuts the encoding, the parser
  reports failure instead of reading on.
\<close>

theorem varint_roundtrip:
  assumes "n < 2 ^ 28"
  shows "lai_parse_varint (pre @ varint_bytes n @ post) (length pre) limit =
    (if length pre + length (varint_bytes n) \<le> limit
     then Ok (Some (n, length pre + length (varint_bytes n))) else Ok None)"
  using assms by (rule parse_varint_bytes)

theorem varint_roundtrip_witness:
  "lai_parse_varint ([0x10] @ varint_bytes 5000 @ [0xA4]) (length [0x10 :: u8]) 4 = Ok (Some (5000, 4))"
  using varint_roundtrip [of 5000 "[0x10]" "[0xA4]" 4] by (simp add: varint_bytes_def)

end
