(* ===== verification/Lai_Interp.thy ===== *)
theory Lai_Interp
  imports Lai_Parse Lai_Reduce
begin

text \<open>
  \<open>lai_exec_parse\<close> (\<open>lai/core/exec.c\<close>): the parsing of one name or opcode, which pushes an operand
  or the stack items that will compute it.

  The local variables of the function that do not change are the fields of \<open>parser\<close>; \<open>code\<close> is
  the memory from \<open>method\<close> on.  The parts of the big \<open>switch\<close> are definitions of their own, a group
  for each kind of opcode.  Program counters are below \<open>2 ^ 31\<close>, so \<open>int\<close> arithmetic on them does
  not overflow.  Tracing and \<open>lai_warn\<close> have no effect on the state.
\<close>

subsection \<open>The parser's variables\<close>

record parser =
  px_mode :: nat
  px_amls :: "nat option"
  px_code :: "u8 list"
  px_handle :: "nat option"
  px_invocation :: "nat option"
  px_opcode_pc :: nat
  px_limit :: nat

type_synonym 'd step = "(lai_api_error \<times> 'd lai_world \<times> lai_state) outcome"

definition mode_flag :: "parser \<Rightarrow> u32 \<Rightarrow> bool" where
  "mode_flag px f \<longleftrightarrow> px_mode px < length lai_mode_flags \<and> (lai_mode_flags ! px_mode px) AND f \<noteq> 0"

definition want_result :: "parser \<Rightarrow> bool" where
  "want_result px \<longleftrightarrow> mode_flag px LAI_MF_RESULT"

text \<open>A failed parse and a failed reservation end the function with an error.\<close>

definition parsed :: "'a parsed \<Rightarrow> 'd lai_world \<Rightarrow> lai_state \<Rightarrow> ('a \<Rightarrow> nat \<Rightarrow> 'd step) \<Rightarrow> 'd step" where
  "parsed p w st k = bnd p (\<lambda>r. case r of
     None \<Rightarrow> Ok (LAI_ERROR_EXECUTION_FAILURE, w, st)
   | Some (x, pc) \<Rightarrow> k x pc)"

definition reserve :: "('d lai_world \<Rightarrow> lai_state \<Rightarrow> (nat \<times> 'd lai_world \<times> lai_state) outcome) \<Rightarrow>
    'd lai_world \<Rightarrow> lai_state \<Rightarrow> ('d lai_world \<Rightarrow> lai_state \<Rightarrow> 'd step) \<Rightarrow> 'd step" where
  "reserve f w st k = bnd (f w st) (\<lambda>(err, w, st).
     if err \<noteq> 0 then Ok (LAI_ERROR_OUT_OF_MEMORY, w, st) else k w st)"

text \<open>Pushing an item and filling it in.\<close>

definition push_operand :: "lai_state \<Rightarrow> lai_operand \<Rightarrow> lai_state outcome" where
  "push_operand st operand =
     bnd (lai_exec_push_opstack st) (\<lambda>st.
     bnd (put_slot (opstack_base st) (opstack_ptr st - 1) operand) (\<lambda>base.
     Ok (st\<lparr>opstack_base := base\<rparr>)))"

definition push_block :: "lai_state \<Rightarrow> int \<Rightarrow> int \<Rightarrow> lai_state outcome" where
  "push_block st pc limit =
     bnd (lai_exec_push_blkstack st) (\<lambda>st.
     bnd (put_slot (blkstack_base st) (blkstack_ptr st) \<lparr>bi_pc = pc, bi_limit = limit\<rparr>) (\<lambda>base.
     Ok (st\<lparr>blkstack_base := base\<rparr>)))"

definition push_context :: "lai_state \<Rightarrow> lai_ctxitem \<Rightarrow> lai_state outcome" where
  "push_context st ctxitem =
     bnd (lai_exec_push_ctxstack st) (\<lambda>st.
     bnd (put_slot (ctxstack_base st) (ctxstack_ptr st) ctxitem) (\<lambda>base.
     Ok (st\<lparr>ctxstack_base := base\<rparr>)))"

text \<open>The frame of items that have none keeps its old value, which nobody reads; it is 0 here.\<close>

definition push_item :: "lai_state \<Rightarrow> stackitem_kind \<Rightarrow> int \<Rightarrow> lai_state outcome" where
  "push_item st kind frame =
     bnd (lai_exec_push_stack st) (\<lambda>st.
     bnd (put_slot (stack_base st) (stack_ptr st) \<lparr>si_kind = kind, si_opstack_frame = frame\<rparr>) (\<lambda>base.
     Ok (st\<lparr>stack_base := base\<rparr>)))"

subsection \<open>Integers\<close>

text \<open>Room for the result, the new program counter, the result: the common end of many cases.\<close>

definition commit_operand :: "'d lai_world \<Rightarrow> lai_state \<Rightarrow> nat \<Rightarrow> lai_operand \<Rightarrow> 'd step" where
  "commit_operand w st pc operand =
     reserve lai_exec_reserve_opstack w st (\<lambda>w st.
     bnd (lai_exec_commit_pc st (int pc)) (\<lambda>st.
     bnd (push_operand st operand) (\<lambda>st. Ok (LAI_ERROR_NONE, w, st))))"

definition parse_immediate :: "parser \<Rightarrow> 'd lai_world \<Rightarrow> lai_state \<Rightarrow> 'd step" where
  "parse_immediate px w st =
     (let pc = px_opcode_pc px; code = px_code px; limit = px_limit px in
      if px_mode px = LAI_IMMEDIATE_BYTE_MODE then
        parsed (lai_parse_u8 code pc limit) w st (\<lambda>v pc. commit_operand w st pc (OpObject (int_var (ucast v))))
      else if px_mode px = LAI_IMMEDIATE_WORD_MODE then
        parsed (lai_parse_u16 code pc limit) w st (\<lambda>v pc. commit_operand w st pc (OpObject (int_var (ucast v))))
      else
        parsed (lai_parse_u32 code pc limit) w st (\<lambda>v pc. commit_operand w st pc (OpObject (int_var (ucast v)))))"

text \<open>Constants are pushed in data and object mode and have no effect in execution mode.\<close>

definition commit_constant :: "parser \<Rightarrow> 'd lai_world \<Rightarrow> lai_state \<Rightarrow> nat \<Rightarrow> u64 \<Rightarrow> 'd step" where
  "commit_constant px w st pc value =
     reserve lai_exec_reserve_opstack w st (\<lambda>w st.
     bnd (lai_exec_commit_pc st (int pc)) (\<lambda>st.
     if px_mode px = LAI_DATA_MODE \<or> px_mode px = LAI_OBJECT_MODE
     then bnd (push_operand st (OpObject (int_var value))) (\<lambda>st. Ok (LAI_ERROR_NONE, w, st))
     else ensure (px_mode px = LAI_EXEC_MODE) (Ok (LAI_ERROR_NONE, w, st))))"

definition parse_zero :: "parser \<Rightarrow> 'd lai_world \<Rightarrow> lai_state \<Rightarrow> nat \<Rightarrow> 'd step" where
  "parse_zero px w st pc =
     (if px_mode px = LAI_REFERENCE_MODE \<or> px_mode px = LAI_OPTIONAL_REFERENCE_MODE
      then commit_operand w st pc OpNull
      else commit_constant px w st pc 0)"

definition parse_one :: "parser \<Rightarrow> 'd lai_world \<Rightarrow> lai_state \<Rightarrow> nat \<Rightarrow> 'd step" where
  "parse_one px w st pc = commit_constant px w st pc 1"
definition parse_ones :: "parser \<Rightarrow> 'd lai_world \<Rightarrow> lai_state \<Rightarrow> nat \<Rightarrow> 'd step" where
  "parse_ones px w st pc = commit_constant px w st pc (NOT 0)"
definition LAI_REVISION :: u64 where "LAI_REVISION = 0x20200712"
definition parse_revision :: "parser \<Rightarrow> 'd lai_world \<Rightarrow> lai_state \<Rightarrow> nat \<Rightarrow> 'd step" where
  "parse_revision px w st pc = commit_constant px w st pc LAI_REVISION"

definition parse_timer :: "'d exec_env \<Rightarrow> parser \<Rightarrow> 'd lai_world \<Rightarrow> lai_state \<Rightarrow> nat \<Rightarrow> 'd step" where
  "parse_timer env px w st pc =
     reserve lai_exec_reserve_opstack w st (\<lambda>w st.
     bnd (lai_exec_commit_pc st (int pc)) (\<lambda>st.
     if px_mode px = LAI_DATA_MODE \<or> px_mode px = LAI_OBJECT_MODE then
       (case e_timer env of
          None \<Rightarrow> Panic
        | Some timer \<Rightarrow>
            let (now, d) = timer (dev w) in
            bnd (push_operand st (OpObject (int_var now))) (\<lambda>st. Ok (LAI_ERROR_NONE, w\<lparr>dev := d\<rparr>, st)))
     else ensure (px_mode px = LAI_EXEC_MODE) (Ok (LAI_ERROR_NONE, w, st))))"

definition parse_prefixed :: "parser \<Rightarrow> nat \<Rightarrow> 'd lai_world \<Rightarrow> lai_state \<Rightarrow> nat \<Rightarrow> 'd step" where
  "parse_prefixed px opcode w st pc =
     (let code = px_code px; limit = px_limit px in
      if opcode = BYTEPREFIX then
        parsed (lai_parse_u8 code pc limit) w st (\<lambda>v pc. commit_constant px w st pc (ucast v))
      else if opcode = WORDPREFIX then
        parsed (lai_parse_u16 code pc limit) w st (\<lambda>v pc. commit_constant px w st pc (ucast v))
      else if opcode = DWORDPREFIX then
        parsed (lai_parse_u32 code pc limit) w st (\<lambda>v pc. commit_constant px w st pc (ucast v))
      else parsed (lai_parse_u64 code pc limit) w st (\<lambda>v pc. commit_constant px w st pc v))"

subsection \<open>Names\<close>

definition link_node :: "'d lai_world \<Rightarrow> nat option \<Rightarrow> nat \<Rightarrow> 'd lai_world outcome" where
  "link_node w ivk p = (case ivk of
     None \<Rightarrow> Ok w
   | Some k \<Rightarrow> bnd (invocation w k) (\<lambda>iv. Ok (put_invocation w k (iv\<lparr>iv_nodes := iv_nodes iv @ [p]\<rparr>))))"

text \<open>A name that was resolved: a method to call, an object to load, or a reference to a node.\<close>

definition parse_resolved :: "'d exec_env \<Rightarrow> parser \<Rightarrow> 'd lai_world \<Rightarrow> lai_state \<Rightarrow> nat \<Rightarrow> 'd step" where
  "parse_resolved env px w st handle =
     bnd (node w handle) (\<lambda>n.
     if n_type n = LAI_NAMESPACE_METHOD \<and> mode_flag px LAI_MF_INVOKE then
       bnd (push_item st
         (LAI_INVOKE_STACKITEM (int (unat (n_method_flags n AND of_nat METHOD_ARGC_MASK))) (want_result px))
         (opstack_ptr st)) (\<lambda>st.
       bnd (push_operand st (OpResolved (Some handle))) (\<lambda>st. Ok (LAI_ERROR_NONE, w, st)))
     else if mode_flag px LAI_MF_INVOKE then
       bnd (lai_exec_access env w var0 handle) (\<lambda>(w, result).
       if want_result px
       then bnd (push_operand st (OpObject result)) (\<lambda>st. Ok (LAI_ERROR_NONE, w, st))
       else bnd (lai_var_finalize w result) (\<lambda>w. Ok (LAI_ERROR_NONE, w, st)))
     else if want_result px
     then bnd (push_operand st (OpResolved (Some handle))) (\<lambda>st. Ok (LAI_ERROR_NONE, w, st))
     else Ok (LAI_ERROR_NONE, w, st))"

definition parse_name :: "'d exec_env \<Rightarrow> parser \<Rightarrow> 'd lai_world \<Rightarrow> lai_state \<Rightarrow> 'd step" where
  "parse_name env px w st =
     (let aml = drop (px_opcode_pc px) (px_code px) in
      bnd (lai_parse_name (px_code px) (px_opcode_pc px) (px_limit px)) (\<lambda>(amln, pc).
      reserve lai_exec_reserve_opstack w st (\<lambda>w st.
      reserve lai_exec_reserve_stack w st (\<lambda>w st.
      bnd (lai_exec_commit_pc st (int pc)) (\<lambda>st.
      if px_mode px = LAI_DATA_MODE then
        (if want_result px
         then bnd (push_operand st (OpObject
           (var0\<lparr>v_type := LAI_LAZY_HANDLE, v_ptr := PUnres (px_handle px) aml\<rparr>))) (\<lambda>st. Ok (LAI_ERROR_NONE, w, st))
         else Ok (LAI_ERROR_NONE, w, st))
      else if \<not> mode_flag px LAI_MF_RESOLVE then
        (if want_result px
         then bnd (push_operand st (OpUnresolved (px_handle px) aml)) (\<lambda>st. Ok (LAI_ERROR_NONE, w, st))
         else Ok (LAI_ERROR_NONE, w, st))
      else
        bnd (lai_do_resolve w (px_handle px) amln) (\<lambda>handle. case handle of
          Some handle \<Rightarrow> parse_resolved env px w st handle
        | None \<Rightarrow>
            if mode_flag px LAI_MF_NULLABLE then
              (if want_result px
               then bnd (push_operand st (OpResolved None)) (\<lambda>st. Ok (LAI_ERROR_NONE, w, st))
               else Ok (LAI_ERROR_NONE, w, st))
            else Ok (LAI_ERROR_UNEXPECTED_RESULT, w, st)))))))"

subsection \<open>Strings, buffers, packages and blocks\<close>

primrec string_extent :: "u8 list \<Rightarrow> nat \<Rightarrow> nat \<Rightarrow> nat outcome" where
  "string_extent code pc 0 = Ok 0"
| "string_extent code pc (Suc k) =
     bnd (rd code pc) (\<lambda>b. if b = 0 then Ok 0 else bnd (string_extent code (pc + 1) k) (\<lambda>n. Ok (Suc n)))"

definition parse_string :: "parser \<Rightarrow> 'd lai_world \<Rightarrow> lai_state \<Rightarrow> nat \<Rightarrow> 'd step" where
  "parse_string px w st pc =
     bnd (string_extent (px_code px) pc (px_limit px - pc)) (\<lambda>n.
     ensure (pc + n \<noteq> px_limit px) (
     reserve lai_exec_reserve_opstack w st (\<lambda>w st.
     bnd (lai_exec_commit_pc st (int (pc + n + 1))) (\<lambda>st.
     if px_mode px = LAI_DATA_MODE \<or> px_mode px = LAI_OBJECT_MODE then
       (let (e, w, v) = lai_create_string w var0 n in
        ensure (e = LAI_ERROR_NONE) (
        bnd (get_block (px_code px) pc n) (\<lambda>bs.
        bnd (string_write w v 0 bs) (\<lambda>w.
        bnd (push_operand st (OpObject v)) (\<lambda>st. Ok (LAI_ERROR_NONE, w, st))))))
     else ensure (px_mode px = LAI_EXEC_MODE) (Ok (LAI_ERROR_NONE, w, st))))))"

text \<open>
  An encoded size counts from behind the opcode.  The block that follows gets its own item on
  the block stack, and the program counter of the current block goes behind it.
\<close>

definition parse_buffer :: "parser \<Rightarrow> 'd lai_world \<Rightarrow> lai_state \<Rightarrow> nat \<Rightarrow> 'd step" where
  "parse_buffer px w st pc =
     parsed (lai_parse_varint (px_code px) pc (px_limit px)) w st (\<lambda>encoded_size data_pc.
     let end_pc = px_opcode_pc px + 1 + encoded_size in
     reserve lai_exec_reserve_blkstack w st (\<lambda>w st.
     reserve lai_exec_reserve_stack w st (\<lambda>w st.
     bnd (lai_exec_commit_pc st (int end_pc)) (\<lambda>st.
     bnd (push_block st (int data_pc) (int end_pc)) (\<lambda>st.
     bnd (push_item st (LAI_BUFFER_STACKITEM (want_result px)) (opstack_ptr st)) (\<lambda>st.
     Ok (LAI_ERROR_NONE, w, st)))))))"

definition parse_package :: "(int \<Rightarrow> nat \<Rightarrow> bool \<Rightarrow> stackitem_kind) \<Rightarrow> parser \<Rightarrow> 'd lai_world \<Rightarrow> lai_state \<Rightarrow> nat \<Rightarrow>
    'd step" where
  "parse_package kind px w st pc =
     parsed (lai_parse_varint (px_code px) pc (px_limit px)) w st (\<lambda>encoded_size data_pc.
     let end_pc = px_opcode_pc px + 1 + encoded_size in
     reserve lai_exec_reserve_opstack w st (\<lambda>w st.
     reserve lai_exec_reserve_blkstack w st (\<lambda>w st.
     reserve lai_exec_reserve_stack w st (\<lambda>w st.
     bnd (lai_exec_commit_pc st (int end_pc)) (\<lambda>st.
     bnd (push_block st (int data_pc) (int end_pc)) (\<lambda>st.
     bnd (push_item st (kind 0 0 (want_result px)) (opstack_ptr st)) (\<lambda>st.
     bnd (push_operand st (OpObject var0)) (\<lambda>st.
     Ok (LAI_ERROR_NONE, w, st)))))))))"

definition parse_varpackage_op :: "parser \<Rightarrow> 'd lai_world \<Rightarrow> lai_state \<Rightarrow> nat \<Rightarrow> 'd step" where
  "parse_varpackage_op = parse_package LAI_VARPACKAGE_STACKITEM"
definition parse_package_op :: "parser \<Rightarrow> 'd lai_world \<Rightarrow> lai_state \<Rightarrow> nat \<Rightarrow> 'd step" where
  "parse_package_op = parse_package LAI_PACKAGE_STACKITEM"

subsection \<open>Control flow\<close>

definition parse_return :: "'d lai_world \<Rightarrow> lai_state \<Rightarrow> nat \<Rightarrow> 'd step" where
  "parse_return w st pc =
     reserve lai_exec_reserve_stack w st (\<lambda>w st.
     bnd (lai_exec_commit_pc st (int pc)) (\<lambda>st.
     bnd (push_item st LAI_RETURN_STACKITEM (opstack_ptr st)) (\<lambda>st. Ok (LAI_ERROR_NONE, w, st))))"

definition parse_while :: "parser \<Rightarrow> 'd lai_world \<Rightarrow> lai_state \<Rightarrow> nat \<Rightarrow> 'd step" where
  "parse_while px w st pc =
     parsed (lai_parse_varint (px_code px) pc (px_limit px)) w st (\<lambda>loop_size body_pc.
     let end_pc = px_opcode_pc px + 1 + loop_size in
     reserve lai_exec_reserve_blkstack w st (\<lambda>w st.
     reserve lai_exec_reserve_stack w st (\<lambda>w st.
     bnd (lai_exec_commit_pc st (int end_pc)) (\<lambda>st.
     bnd (push_block st (int body_pc) (int end_pc)) (\<lambda>st.
     bnd (push_item st (LAI_LOOP_STACKITEM 0 (int body_pc)) (opstack_ptr st)) (\<lambda>st.
     Ok (LAI_ERROR_NONE, w, st)))))))"

text \<open>
  \<open>Continue\<close> and \<open>Break\<close> look down the stack for the innermost loop, across conditions only; the
  result is the number of items above it.
\<close>

definition is_loop :: "lai_stackitem \<Rightarrow> bool" where
  "is_loop item \<longleftrightarrow> (case si_kind item of LAI_LOOP_STACKITEM _ _ \<Rightarrow> True | _ \<Rightarrow> False)"
definition is_cond :: "lai_stackitem \<Rightarrow> bool" where
  "is_cond item \<longleftrightarrow> (case si_kind item of LAI_COND_STACKITEM _ _ _ _ \<Rightarrow> True | _ \<Rightarrow> False)"

primrec find_item :: "(lai_stackitem \<Rightarrow> bool) \<Rightarrow> lai_state \<Rightarrow> nat \<Rightarrow> nat outcome" where
  "find_item wanted st 0 = Panic"
| "find_item wanted st (Suc p) =
     bnd (slot (stack_base st) (int p)) (\<lambda>item.
     if wanted item then Ok p
     else ensure (is_cond item \<or> is_loop item) (find_item wanted st p))"

primrec pop_nested :: "nat \<Rightarrow> lai_state \<Rightarrow> lai_state outcome" where
  "pop_nested 0 st = Ok st"
| "pop_nested (Suc m) st =
     (case lai_exec_peek_stack_back st of
        None \<Rightarrow> Fault
      | Some p \<Rightarrow>
          bnd (slot (stack_base st) p) (\<lambda>item.
          ensure (is_cond item \<or> is_loop item) (
          bnd (lai_exec_pop_blkstack_back st) (\<lambda>st.
          bnd (lai_exec_pop_stack_back st) (\<lambda>st. pop_nested m st)))))"

text \<open>\<open>Continue\<close> sets its local \<open>pc\<close> to the start of the loop, and nobody reads it again.\<close>

definition parse_continue :: "'d lai_world \<Rightarrow> lai_state \<Rightarrow> 'd step" where
  "parse_continue w st =
     bnd (find_item is_loop st (nat (stack_ptr st + 1))) (\<lambda>p.
     bnd (pop_nested (nat (stack_ptr st) - p) st) (\<lambda>st.
     Ok (LAI_ERROR_NONE, w, st)))"

definition parse_break :: "'d lai_world \<Rightarrow> lai_state \<Rightarrow> 'd step" where
  "parse_break w st =
     bnd (find_item is_loop st (nat (stack_ptr st + 1))) (\<lambda>p.
     bnd (pop_nested (nat (stack_ptr st) - p) st) (\<lambda>st.
     bnd (lai_exec_pop_blkstack_back st) (\<lambda>st.
     bnd (lai_exec_pop_stack_back st) (\<lambda>st.
     Ok (LAI_ERROR_NONE, w, st)))))"

text \<open>\<open>If\<close>, with the \<open>Else\<close> that may follow it.\<close>

definition enter_cond :: "parser \<Rightarrow> 'd lai_world \<Rightarrow> lai_state \<Rightarrow> nat \<Rightarrow> nat \<Rightarrow> bool \<Rightarrow> nat \<Rightarrow> nat \<Rightarrow> nat \<Rightarrow> 'd step" where
  "enter_cond px w st if_pc if_size has_else else_pc else_size pc =
     reserve lai_exec_reserve_blkstack w st (\<lambda>w st.
     reserve lai_exec_reserve_stack w st (\<lambda>w st.
     bnd (lai_exec_commit_pc st (int pc)) (\<lambda>st.
     bnd (push_block st (int if_pc) (int (px_opcode_pc px + 1 + if_size))) (\<lambda>st.
     bnd (push_item st (LAI_COND_STACKITEM 0 has_else (int else_pc)
         (int (px_opcode_pc px + 1 + if_size + 1 + else_size))) (opstack_ptr st)) (\<lambda>st.
     Ok (LAI_ERROR_NONE, w, st))))))"

definition parse_if :: "parser \<Rightarrow> 'd lai_world \<Rightarrow> lai_state \<Rightarrow> nat \<Rightarrow> 'd step" where
  "parse_if px w st pc =
     parsed (lai_parse_varint (px_code px) pc (px_limit px)) w st (\<lambda>if_size if_pc.
     let pc = px_opcode_pc px + 1 + if_size in
     bnd (if pc < px_limit px then bnd (rd (px_code px) pc) (\<lambda>b. Ok (unat b = ELSE_OP)) else Ok False) (\<lambda>has_else.
     if has_else then
       parsed (lai_parse_varint (px_code px) (pc + 1) (px_limit px)) w st (\<lambda>else_size else_pc.
       enter_cond px w st if_pc if_size True else_pc else_size (px_opcode_pc px + 1 + if_size + 1 + else_size))
     else enter_cond px w st if_pc if_size False 0 0 pc))"

subsection \<open>Nodes of the namespace\<close>

text \<open>A fresh node with the given fields, named and placed; then installed and linked to the method.\<close>

definition fresh_node :: "'d lai_world \<Rightarrow> lai_nsnode \<Rightarrow> nat option \<Rightarrow> lai_amlname \<Rightarrow> (nat \<times> 'd lai_world) outcome" where
  "fresh_node w n ctx amln =
     bnd (lai_create_nsnode_or_die w) (\<lambda>(p, w).
     bnd (lai_do_resolve_new_node (put_node w p n) p ctx amln) (\<lambda>w. Ok (p, w)))"

definition install_for :: "parser \<Rightarrow> 'd lai_world \<Rightarrow> nat \<Rightarrow> (lai_api_error \<times> 'd lai_world) outcome" where
  "install_for px w p =
     bnd (lai_install_nsnode w p) (\<lambda>(e, w).
     if e \<noteq> LAI_ERROR_NONE then Ok (e, w)
     else bnd (link_node w (px_invocation px) p) (\<lambda>w. Ok (LAI_ERROR_NONE, w)))"

definition declare_node :: "parser \<Rightarrow> 'd lai_world \<Rightarrow> lai_state \<Rightarrow> lai_nsnode \<Rightarrow> lai_amlname \<Rightarrow>
    (nat \<Rightarrow> 'd lai_world \<Rightarrow> 'd step) \<Rightarrow> 'd step" where
  "declare_node px w st n amln k =
     bnd (fresh_node w n (px_handle px) amln) (\<lambda>(p, w).
     bnd (install_for px w p) (\<lambda>(e, w).
     if e \<noteq> LAI_ERROR_NONE then Ok (e, w, st) else k p w))"

text \<open>Scopes: the contents are executed in a context of their own, without an invocation.\<close>

definition reserve_scope :: "'d lai_world \<Rightarrow> lai_state \<Rightarrow> ('d lai_world \<Rightarrow> lai_state \<Rightarrow> 'd step) \<Rightarrow> 'd step" where
  "reserve_scope w st k =
     reserve lai_exec_reserve_ctxstack w st (\<lambda>w st.
     reserve lai_exec_reserve_blkstack w st (\<lambda>w st.
     reserve lai_exec_reserve_stack w st k))"

definition enter_scope :: "parser \<Rightarrow> 'd lai_world \<Rightarrow> lai_state \<Rightarrow> nat \<Rightarrow> nat \<Rightarrow> nat \<Rightarrow> 'd step" where
  "enter_scope px w st handle nested_pc end_pc =
     bnd (push_context st \<lparr>ci_amls = px_amls px, ci_code = px_code px, ci_handle = Some handle,
       ci_invocation = None\<rparr>) (\<lambda>st.
     bnd (push_block st (int nested_pc) (int end_pc)) (\<lambda>st.
     bnd (push_item st LAI_POPULATE_STACKITEM 0) (\<lambda>st.
     Ok (LAI_ERROR_NONE, w, st))))"

definition parse_scope :: "parser \<Rightarrow> 'd lai_world \<Rightarrow> lai_state \<Rightarrow> nat \<Rightarrow> 'd step" where
  "parse_scope px w st pc =
     parsed (lai_parse_varint (px_code px) pc (px_limit px)) w st (\<lambda>encoded_size pc.
     bnd (lai_parse_name (px_code px) pc (px_limit px)) (\<lambda>(amln, nested_pc).
     let end_pc = px_opcode_pc px + 1 + encoded_size in
     reserve_scope w st (\<lambda>w st.
     bnd (lai_exec_commit_pc st (int end_pc)) (\<lambda>st.
     bnd (lai_do_resolve w (px_handle px) amln) (\<lambda>scoped. case scoped of
       None \<Rightarrow> Ok (LAI_ERROR_UNEXPECTED_RESULT, w, st)
     | Some h \<Rightarrow> enter_scope px w st h nested_pc end_pc)))))"

text \<open>The common end of the objects with a scope; \<open>pc\<close> is behind the header of the object.\<close>

definition declare_scope :: "parser \<Rightarrow> 'd lai_world \<Rightarrow> lai_state \<Rightarrow> lai_nsnode \<Rightarrow> lai_amlname \<Rightarrow> nat \<Rightarrow> nat \<Rightarrow> 'd step" where
  "declare_scope px w st n amln encoded_size nested_pc =
     (let end_pc = px_opcode_pc px + 2 + encoded_size in
      reserve_scope w st (\<lambda>w st.
      bnd (lai_exec_commit_pc st (int end_pc)) (\<lambda>st.
      declare_node px w st n amln (\<lambda>p w. enter_scope px w st p nested_pc end_pc))))"

definition parse_device :: "parser \<Rightarrow> 'd lai_world \<Rightarrow> lai_state \<Rightarrow> nat \<Rightarrow> 'd step" where
  "parse_device px w st pc =
     parsed (lai_parse_varint (px_code px) pc (px_limit px)) w st (\<lambda>encoded_size pc.
     bnd (lai_parse_name (px_code px) pc (px_limit px)) (\<lambda>(amln, nested_pc).
     declare_scope px w st (node0\<lparr>n_type := LAI_NAMESPACE_DEVICE\<rparr>) amln encoded_size nested_pc))"

definition parse_processor :: "parser \<Rightarrow> 'd lai_world \<Rightarrow> lai_state \<Rightarrow> nat \<Rightarrow> 'd step" where
  "parse_processor px w st pc =
     (let code = px_code px; limit = px_limit px in
      parsed (lai_parse_varint code pc limit) w st (\<lambda>pkgsize pc.
      bnd (lai_parse_name code pc limit) (\<lambda>(amln, pc).
      parsed (lai_parse_u8 code pc limit) w st (\<lambda>cpu_id pc.
      parsed (lai_parse_u32 code pc limit) w st (\<lambda>pblk_addr pc.
      parsed (lai_parse_u8 code pc limit) w st (\<lambda>pblk_len nested_pc.
      declare_scope px w st
        (node0\<lparr>n_type := LAI_NAMESPACE_PROCESSOR, n_data := NdProcessor cpu_id pblk_addr pblk_len\<rparr>)
        amln pkgsize nested_pc))))))"

text \<open>The level and the order of a power resource are skipped.\<close>

definition parse_power_res :: "parser \<Rightarrow> 'd lai_world \<Rightarrow> lai_state \<Rightarrow> nat \<Rightarrow> 'd step" where
  "parse_power_res px w st pc =
     parsed (lai_parse_varint (px_code px) pc (px_limit px)) w st (\<lambda>encoded_size pc.
     bnd (lai_parse_name (px_code px) pc (px_limit px)) (\<lambda>(amln, pc).
     declare_scope px w st (node0\<lparr>n_type := LAI_NAMESPACE_POWERRESOURCE\<rparr>) amln encoded_size (pc + 1 + 2)))"

definition parse_thermalzone :: "parser \<Rightarrow> 'd lai_world \<Rightarrow> lai_state \<Rightarrow> nat \<Rightarrow> 'd step" where
  "parse_thermalzone px w st pc =
     parsed (lai_parse_varint (px_code px) pc (px_limit px)) w st (\<lambda>encoded_size pc.
     bnd (lai_parse_name (px_code px) pc (px_limit px)) (\<lambda>(amln, nested_pc).
     declare_scope px w st (node0\<lparr>n_type := LAI_NAMESPACE_THERMALZONE\<rparr>) amln encoded_size nested_pc))"

text \<open>Objects without contents.  The body of a method is not looked at.\<close>

definition parse_method :: "parser \<Rightarrow> 'd lai_world \<Rightarrow> lai_state \<Rightarrow> nat \<Rightarrow> 'd step" where
  "parse_method px w st pc =
     (let code = px_code px; limit = px_limit px in
      parsed (lai_parse_varint code pc limit) w st (\<lambda>encoded_size pc.
      bnd (lai_parse_name code pc limit) (\<lambda>(amln, pc).
      parsed (lai_parse_u8 code pc limit) w st (\<lambda>flags nested_pc.
      let end_pc = px_opcode_pc px + 1 + encoded_size in
      bnd (lai_exec_commit_pc st (int end_pc)) (\<lambda>st.
      declare_node px w st
        (node0\<lparr>n_type := LAI_NAMESPACE_METHOD, n_method_flags := flags, n_amls := px_amls px,
           n_pointer := drop nested_pc code, n_size := nat ((int end_pc - int nested_pc) mod 2 ^ 64)\<rparr>)
        amln (\<lambda>p w. Ok (LAI_ERROR_NONE, w, st)))))))"

definition parse_external :: "parser \<Rightarrow> 'd lai_world \<Rightarrow> lai_state \<Rightarrow> nat \<Rightarrow> 'd step" where
  "parse_external px w st pc =
     (let code = px_code px; limit = px_limit px in
      bnd (lai_parse_name code pc limit) (\<lambda>(amln, pc).
      parsed (lai_parse_u8 code pc limit) w st (\<lambda>object_type pc.
      parsed (lai_parse_u8 code pc limit) w st (\<lambda>argument_count pc.
      bnd (lai_exec_commit_pc st (int pc)) (\<lambda>st. Ok (LAI_ERROR_NONE, w, st))))))"

definition parse_alias :: "parser \<Rightarrow> 'd lai_world \<Rightarrow> lai_state \<Rightarrow> nat \<Rightarrow> 'd step" where
  "parse_alias px w st pc =
     (let code = px_code px; limit = px_limit px in
      bnd (lai_parse_name code pc limit) (\<lambda>(target_amln, pc).
      bnd (lai_parse_name code pc limit) (\<lambda>(dest_amln, pc).
      bnd (lai_exec_commit_pc st (int pc)) (\<lambda>st.
      bnd (lai_create_nsnode_or_die w) (\<lambda>(p, w).
      bnd (lai_do_resolve w (px_handle px) target_amln) (\<lambda>target. case target of
        None \<Rightarrow> Panic
      | Some t \<Rightarrow>
          bnd (lai_do_resolve_new_node
            (put_node w p (node0\<lparr>n_type := LAI_NAMESPACE_ALIAS, n_data := NdAlias t\<rparr>)) p (px_handle px) dest_amln) (\<lambda>w.
          bnd (install_for px w p) (\<lambda>(e, w). Ok (e, w, st)))))))))"

definition parse_mutex :: "parser \<Rightarrow> 'd lai_world \<Rightarrow> lai_state \<Rightarrow> nat \<Rightarrow> 'd step" where
  "parse_mutex px w st pc =
     bnd (lai_parse_name (px_code px) pc (px_limit px)) (\<lambda>(amln, pc).
     bnd (lai_exec_commit_pc st (int (pc + 1))) (\<lambda>st.
     declare_node px w st (node0\<lparr>n_type := LAI_NAMESPACE_MUTEX, n_data := NdSync 0\<rparr>) amln
       (\<lambda>p w. Ok (LAI_ERROR_NONE, w, st))))"

definition parse_event :: "parser \<Rightarrow> 'd lai_world \<Rightarrow> lai_state \<Rightarrow> nat \<Rightarrow> 'd step" where
  "parse_event px w st pc =
     bnd (lai_parse_name (px_code px) pc (px_limit px)) (\<lambda>(amln, pc).
     bnd (lai_exec_commit_pc st (int pc)) (\<lambda>st.
     declare_node px w st (node0\<lparr>n_type := LAI_NAMESPACE_EVENT, n_data := NdSync 0\<rparr>) amln
       (\<lambda>p w. Ok (LAI_ERROR_NONE, w, st))))"

subsection \<open>Fields\<close>

lemma parse_varint_advances: "lai_parse_varint code pc limit = Ok (Some (n, pc')) \<Longrightarrow> pc < pc'"
  unfolding lai_parse_varint_def Let_def ensure_def
  by (elim bnd_OkE | (simp split: if_splits))+

lemma parse_name_advances: "lai_parse_name code pc limit = Ok (amln, pc') \<Longrightarrow> pc \<le> pc'"
  by (auto simp: lai_parse_name_def guard_eq_Ok bnd_eq_Ok)

text \<open>
  The loop over a field list: bits to skip, a new access type, or a named field, for which
  \<open>mk\<close> gives the node.  The result has the new program counter.
\<close>

function field_list :: "parser \<Rightarrow> (u8 \<Rightarrow> nat \<Rightarrow> u64 \<Rightarrow> lai_nsnode) \<Rightarrow> nat \<Rightarrow> 'd lai_world \<Rightarrow> u8 \<Rightarrow> u64 \<Rightarrow> nat \<Rightarrow>
    (lai_api_error \<times> 'd lai_world \<times> nat) outcome" where
  "field_list px mk end_pc w access_type curr_off pc =
     (if pc < end_pc then
        bnd (rd (px_code px) pc) (\<lambda>b.
        if b = 0 then
          bnd (lai_parse_varint (px_code px) (pc + 1) (px_limit px)) (\<lambda>r. case r of
            None \<Rightarrow> Ok (LAI_ERROR_EXECUTION_FAILURE, w, pc)
          | Some (skip_bits, pc') \<Rightarrow>
              field_list px mk end_pc w access_type (curr_off + of_nat skip_bits) pc')
        else if b = 1 then
          bnd (rd (px_code px) (pc + 1)) (\<lambda>access. field_list px mk end_pc w access curr_off (pc + 3))
        else if b = 2 then Panic
        else
          bnd (lai_parse_name (px_code px) pc (px_limit px)) (\<lambda>(amln, pc').
          bnd (lai_parse_varint (px_code px) pc' (px_limit px)) (\<lambda>r. case r of
            None \<Rightarrow> Ok (LAI_ERROR_EXECUTION_FAILURE, w, pc)
          | Some (skip_bits, pc'') \<Rightarrow>
              bnd (fresh_node w (mk access_type skip_bits curr_off) (px_handle px) amln) (\<lambda>(p, w).
              bnd (install_for px w p) (\<lambda>(e, w).
              if e \<noteq> LAI_ERROR_NONE then Ok (e, w, pc'')
              else field_list px mk end_pc w access_type (curr_off + of_nat skip_bits) pc'')))))
      else Ok (LAI_ERROR_NONE, w, pc))"
  by pat_completeness auto
termination
  by (relation "measure (\<lambda>(px, mk, end_pc, w, access_type, curr_off, pc). end_pc - pc)")
    (auto dest!: parse_varint_advances parse_name_advances)

declare field_list.simps [simp del]

text \<open>After a failure in a field list the program counter is not committed.\<close>

definition parse_field_list :: "parser \<Rightarrow> (u8 \<Rightarrow> nat \<Rightarrow> u64 \<Rightarrow> lai_nsnode) \<Rightarrow> nat \<Rightarrow> 'd lai_world \<Rightarrow> lai_state \<Rightarrow> nat \<Rightarrow>
    'd step" where
  "parse_field_list px mk end_pc w st pc =
     bnd (rd (px_code px) pc) (\<lambda>access_type.
     bnd (field_list px mk end_pc w access_type 0 (pc + 1)) (\<lambda>(e, w, pc).
     if e \<noteq> LAI_ERROR_NONE then Ok (e, w, st)
     else bnd (lai_exec_commit_pc st (int pc)) (\<lambda>st. Ok (LAI_ERROR_NONE, w, st))))"

definition parse_field :: "parser \<Rightarrow> 'd lai_world \<Rightarrow> lai_state \<Rightarrow> nat \<Rightarrow> 'd step" where
  "parse_field px w st pc =
     parsed (lai_parse_varint (px_code px) pc (px_limit px)) w st (\<lambda>pkgsize pc.
     bnd (lai_parse_name (px_code px) pc (px_limit px)) (\<lambda>(region_amln, pc).
     bnd (lai_do_resolve w (px_handle px) region_amln) (\<lambda>region.
     ensure (region \<noteq> None) (
     parse_field_list px
       (\<lambda>flags siz off. node0\<lparr>n_type := LAI_NAMESPACE_FIELD, n_data := NdField region off siz flags FxNone\<rparr>)
       (px_opcode_pc px + 2 + pkgsize) w st pc))))"

definition parse_indexfield :: "parser \<Rightarrow> 'd lai_world \<Rightarrow> lai_state \<Rightarrow> nat \<Rightarrow> 'd step" where
  "parse_indexfield px w st pc =
     parsed (lai_parse_varint (px_code px) pc (px_limit px)) w st (\<lambda>pkgsize pc.
     bnd (lai_parse_name (px_code px) pc (px_limit px)) (\<lambda>(index_amln, pc).
     bnd (lai_parse_name (px_code px) pc (px_limit px)) (\<lambda>(data_amln, pc).
     bnd (lai_do_resolve w (px_handle px) index_amln) (\<lambda>index_node.
     bnd (lai_do_resolve w (px_handle px) data_amln) (\<lambda>data_node. case (index_node, data_node) of
       (Some i, Some d) \<Rightarrow>
         parse_field_list px
           (\<lambda>flags siz off. node0\<lparr>n_type := LAI_NAMESPACE_INDEXFIELD, n_data := NdField None off siz flags (FxIndex i d)\<rparr>)
           (px_opcode_pc px + 2 + pkgsize) w st pc
     | _ \<Rightarrow> Panic)))))"

text \<open>The region and the bank register of a bank field become its first two operands.\<close>

definition parse_bankfield :: "parser \<Rightarrow> 'd lai_world \<Rightarrow> lai_state \<Rightarrow> nat \<Rightarrow> 'd step" where
  "parse_bankfield px w st pc =
     parsed (lai_parse_varint (px_code px) pc (px_limit px)) w st (\<lambda>pkgsize pc.
     bnd (lai_parse_name (px_code px) pc (px_limit px)) (\<lambda>(region_amln, pc).
     bnd (lai_parse_name (px_code px) pc (px_limit px)) (\<lambda>(bank_amln, start_pc).
     let end_pc = px_opcode_pc px + 2 + pkgsize in
     bnd (lai_do_resolve w (px_handle px) region_amln) (\<lambda>region.
     bnd (lai_do_resolve w (px_handle px) bank_amln) (\<lambda>bank.
     ensure (region \<noteq> None \<and> bank \<noteq> None) (
     reserve lai_exec_reserve_blkstack w st (\<lambda>w st.
     reserve lai_exec_reserve_stack w st (\<lambda>w st.
     reserve (\<lambda>w st. lai_exec_reserve_opstack_n w st 2) w st (\<lambda>w st.
     bnd (lai_exec_commit_pc st (int end_pc)) (\<lambda>st.
     bnd (push_block st (int start_pc) (int end_pc)) (\<lambda>st.
     bnd (push_item st LAI_BANKFIELD_STACKITEM (opstack_ptr st)) (\<lambda>st.
     bnd (push_operand st (OpResolved region)) (\<lambda>st.
     bnd (push_operand st (OpResolved bank)) (\<lambda>st.
     Ok (LAI_ERROR_NONE, w, st)))))))))))))))"

subsection \<open>Variables of a method\<close>

definition parse_arg :: "parser \<Rightarrow> 'd lai_world \<Rightarrow> lai_state \<Rightarrow> nat \<Rightarrow> nat \<Rightarrow> 'd step" where
  "parse_arg px w st pc i =
     reserve lai_exec_reserve_opstack w st (\<lambda>w st.
     bnd (lai_exec_commit_pc st (int pc)) (\<lambda>st.
     if px_mode px = LAI_REFERENCE_MODE \<or> px_mode px = LAI_OPTIONAL_REFERENCE_MODE
     then bnd (push_operand st (OpArg i)) (\<lambda>st. Ok (LAI_ERROR_NONE, w, st))
     else
       ensure (px_mode px = LAI_OBJECT_MODE) (case px_invocation px of
         None \<Rightarrow> Panic
       | Some k \<Rightarrow>
           bnd (load_arg w k i) (\<lambda>v.
           bnd (lai_var_assign w var0 v) (\<lambda>(w, v).
           bnd (push_operand st (OpObject v)) (\<lambda>st. Ok (LAI_ERROR_NONE, w, st)))))))"

definition parse_local :: "parser \<Rightarrow> 'd lai_world \<Rightarrow> lai_state \<Rightarrow> nat \<Rightarrow> nat \<Rightarrow> 'd step" where
  "parse_local px w st pc i =
     reserve lai_exec_reserve_opstack w st (\<lambda>w st.
     bnd (lai_exec_commit_pc st (int pc)) (\<lambda>st.
     if px_mode px = LAI_REFERENCE_MODE \<or> px_mode px = LAI_OPTIONAL_REFERENCE_MODE
     then bnd (push_operand st (OpLocal i)) (\<lambda>st. Ok (LAI_ERROR_NONE, w, st))
     else
       ensure (px_mode px = LAI_OBJECT_MODE) (case px_invocation px of
         None \<Rightarrow> Panic
       | Some k \<Rightarrow>
           bnd (load_local w k i) (\<lambda>v.
           bnd (lai_var_assign w var0 v) (\<lambda>(w, v).
           bnd (push_operand st (OpObject v)) (\<lambda>st. Ok (LAI_ERROR_NONE, w, st)))))))"

definition parse_debug :: "parser \<Rightarrow> 'd lai_world \<Rightarrow> lai_state \<Rightarrow> nat \<Rightarrow> 'd step" where
  "parse_debug px w st pc =
     reserve lai_exec_reserve_opstack w st (\<lambda>w st.
     bnd (lai_exec_commit_pc st (int pc)) (\<lambda>st.
     ensure (px_mode px = LAI_REFERENCE_MODE \<or> px_mode px = LAI_OPTIONAL_REFERENCE_MODE) (
     bnd (push_operand st OpDebug) (\<lambda>st. Ok (LAI_ERROR_NONE, w, st)))))"

subsection \<open>Operators\<close>

text \<open>The modes of the operands of each operator, in the order of the code, ended by 0.\<close>

definition convert_modes :: "nat \<Rightarrow> nat list option" where
  "convert_modes opcode =
     (if opcode = TOBUFFER_OP then Some [LAI_OBJECT_MODE, LAI_REFERENCE_MODE, 0]
      else if opcode = TODECIMALSTRING_OP then Some [LAI_OBJECT_MODE, LAI_REFERENCE_MODE, 0]
      else if opcode = TOHEXSTRING_OP then Some [LAI_OBJECT_MODE, LAI_REFERENCE_MODE, 0]
      else if opcode = TOINTEGER_OP then Some [LAI_OBJECT_MODE, LAI_REFERENCE_MODE, 0]
      else if opcode = TOSTRING_OP then Some [LAI_OBJECT_MODE, LAI_OBJECT_MODE, LAI_REFERENCE_MODE, 0]
      else if opcode = MID_OP then Some [LAI_OBJECT_MODE, LAI_OBJECT_MODE, LAI_OBJECT_MODE, LAI_REFERENCE_MODE, 0]
      else if opcode = extended FATAL_OP
      then Some [LAI_IMMEDIATE_BYTE_MODE, LAI_IMMEDIATE_DWORD_MODE, LAI_OBJECT_MODE, 0]
      else None)"

definition arith_modes :: "nat \<Rightarrow> nat list option" where
  "arith_modes opcode =
     (if opcode \<in> {STORE_OP, COPYOBJECT_OP, NOT_OP} then Some [LAI_OBJECT_MODE, LAI_REFERENCE_MODE, 0]
      else if opcode = FINDSETLEFTBIT_OP then Some [LAI_OBJECT_MODE, LAI_REFERENCE_MODE, 0]
      else if opcode = FINDSETRIGHTBIT_OP then Some [LAI_OBJECT_MODE, LAI_REFERENCE_MODE, 0]
      else if opcode = CONCAT_OP then Some [LAI_OBJECT_MODE, LAI_OBJECT_MODE, LAI_REFERENCE_MODE, 0]
      else if opcode \<in> {ADD_OP, SUBTRACT_OP, MOD_OP, MULTIPLY_OP, AND_OP, OR_OP, XOR_OP, SHR_OP, SHL_OP,
        NAND_OP, NOR_OP} then Some [LAI_OBJECT_MODE, LAI_OBJECT_MODE, LAI_REFERENCE_MODE, 0]
      else if opcode = DIVIDE_OP
      then Some [LAI_OBJECT_MODE, LAI_OBJECT_MODE, LAI_REFERENCE_MODE, LAI_REFERENCE_MODE, 0]
      else if opcode \<in> {INCREMENT_OP, DECREMENT_OP} then Some [LAI_REFERENCE_MODE, 0]
      else if opcode = LNOT_OP then Some [LAI_OBJECT_MODE, 0]
      else None)"

definition object_modes :: "nat \<Rightarrow> nat list option" where
  "object_modes opcode =
     (if opcode \<in> {LAND_OP, LOR_OP, LEQUAL_OP, LLESS_OP, LGREATER_OP}
      then Some [LAI_OBJECT_MODE, LAI_OBJECT_MODE, 0]
      else if opcode = INDEX_OP then Some [LAI_OBJECT_MODE, LAI_OBJECT_MODE, LAI_REFERENCE_MODE, 0]
      else if opcode = MATCH_OP
      then Some [LAI_OBJECT_MODE, LAI_IMMEDIATE_BYTE_MODE, LAI_OBJECT_MODE, LAI_IMMEDIATE_BYTE_MODE,
        LAI_OBJECT_MODE, LAI_OBJECT_MODE, 0]
      else if opcode = CONCATRES_OP then Some [LAI_OBJECT_MODE, LAI_OBJECT_MODE, LAI_REFERENCE_MODE, 0]
      else if opcode = OBJECTTYPE_OP then Some [LAI_REFERENCE_MODE, 0]
      else if opcode \<in> {DEREF_OP, SIZEOF_OP} then Some [LAI_OBJECT_MODE, 0]
      else if opcode = REFOF_OP then Some [LAI_REFERENCE_MODE, 0]
      else None)"

definition system_modes :: "nat \<Rightarrow> nat list option" where
  "system_modes opcode =
     (if opcode = NOTIFY_OP then Some [LAI_REFERENCE_MODE, LAI_OBJECT_MODE, 0]
      else if opcode = extended CONDREF_OP then Some [LAI_OPTIONAL_REFERENCE_MODE, LAI_REFERENCE_MODE, 0]
      else if opcode \<in> {extended STALL_OP, extended SLEEP_OP} then Some [LAI_OBJECT_MODE, 0]
      else if opcode = extended ACQUIRE_OP then Some [LAI_REFERENCE_MODE, LAI_IMMEDIATE_WORD_MODE, 0]
      else if opcode = extended RELEASE_OP then Some [LAI_REFERENCE_MODE, 0]
      else if opcode = extended WAIT_OP then Some [LAI_REFERENCE_MODE, LAI_OBJECT_MODE, 0]
      else if opcode = extended SIGNAL_OP then Some [LAI_REFERENCE_MODE, 0]
      else if opcode = extended RESET_OP then Some [LAI_REFERENCE_MODE, 0]
      else if opcode = extended FROM_BCD_OP then Some [LAI_OBJECT_MODE, LAI_REFERENCE_MODE, 0]
      else if opcode = extended TO_BCD_OP then Some [LAI_OBJECT_MODE, LAI_REFERENCE_MODE, 0]
      else None)"

text \<open>An operator becomes an item on the stack, which waits for its operands.\<close>

definition parse_operator :: "parser \<Rightarrow> nat \<Rightarrow> nat list \<Rightarrow> 'd lai_world \<Rightarrow> lai_state \<Rightarrow> nat \<Rightarrow> 'd step" where
  "parse_operator px opcode modes w st pc =
     reserve lai_exec_reserve_stack w st (\<lambda>w st.
     bnd (lai_exec_commit_pc st (int pc)) (\<lambda>st.
     bnd (push_item st (LAI_OP_STACKITEM opcode modes (want_result px)) (opstack_ptr st)) (\<lambda>st.
     Ok (LAI_ERROR_NONE, w, st))))"

text \<open>The same for the declarations that evaluate operands.\<close>

definition node_modes :: "nat \<Rightarrow> nat list option" where
  "node_modes opcode =
     (if opcode = NAME_OP then Some [LAI_UNRESOLVED_MODE, LAI_OBJECT_MODE, 0]
      else if opcode \<in> {BITFIELD_OP, BYTEFIELD_OP, WORDFIELD_OP, DWORDFIELD_OP, QWORDFIELD_OP}
      then Some [LAI_REFERENCE_MODE, LAI_OBJECT_MODE, LAI_UNRESOLVED_MODE, 0]
      else if opcode = extended ARBFIELD_OP
      then Some [LAI_REFERENCE_MODE, LAI_OBJECT_MODE, LAI_OBJECT_MODE, LAI_UNRESOLVED_MODE, 0]
      else if opcode = extended OPREGION
      then Some [LAI_UNRESOLVED_MODE, LAI_IMMEDIATE_BYTE_MODE, LAI_OBJECT_MODE, LAI_OBJECT_MODE, 0]
      else None)"

definition parse_node_op :: "nat \<Rightarrow> nat list \<Rightarrow> 'd lai_world \<Rightarrow> lai_state \<Rightarrow> nat \<Rightarrow> 'd step" where
  "parse_node_op opcode modes w st pc =
     reserve lai_exec_reserve_stack w st (\<lambda>w st.
     bnd (lai_exec_commit_pc st (int pc)) (\<lambda>st.
     bnd (push_item st (LAI_NODE_STACKITEM opcode modes) (opstack_ptr st)) (\<lambda>st.
     Ok (LAI_ERROR_NONE, w, st))))"

subsection \<open>Dispatch\<close>

text \<open>The cases of the \<open>switch\<close> by group; \<open>None\<close> where the opcode is not of the group.\<close>

definition parse_data_op :: "'d exec_env \<Rightarrow> parser \<Rightarrow> nat \<Rightarrow> 'd lai_world \<Rightarrow> lai_state \<Rightarrow> nat \<Rightarrow> 'd step option" where
  "parse_data_op env px opcode w st pc =
     (if opcode = ZERO_OP then Some (parse_zero px w st pc)
      else if opcode = ONE_OP then Some (parse_one px w st pc)
      else if opcode = ONES_OP then Some (parse_ones px w st pc)
      else if opcode = extended REVISION_OP then Some (parse_revision px w st pc)
      else if opcode = extended TIMER_OP then Some (parse_timer env px w st pc)
      else if opcode \<in> {BYTEPREFIX, WORDPREFIX, DWORDPREFIX, QWORDPREFIX} then Some (parse_prefixed px opcode w st pc)
      else if opcode = STRINGPREFIX then Some (parse_string px w st pc)
      else if opcode = BUFFER_OP then Some (parse_buffer px w st pc)
      else if opcode = VARPACKAGE_OP then Some (parse_varpackage_op px w st pc)
      else if opcode = PACKAGE_OP then Some (parse_package_op px w st pc)
      else if opcode \<in> {ARG0_OP..ARG6_OP} then Some (parse_arg px w st pc (opcode - ARG0_OP))
      else if opcode \<in> {LOCAL0_OP..LOCAL7_OP} then Some (parse_local px w st pc (opcode - LOCAL0_OP))
      else if opcode = extended DEBUG_OP then Some (parse_debug px w st pc)
      else None)"

definition parse_control_op :: "parser \<Rightarrow> nat \<Rightarrow> 'd lai_world \<Rightarrow> lai_state \<Rightarrow> nat \<Rightarrow> 'd step option" where
  "parse_control_op px opcode w st pc =
     (if opcode = NOP_OP \<or> opcode = BREAKPOINT_OP
      then Some (bnd (lai_exec_commit_pc st (int pc)) (\<lambda>st. Ok (LAI_ERROR_NONE, w, st)))
      else if opcode = RETURN_OP then Some (parse_return w st pc)
      else if opcode = WHILE_OP then Some (parse_while px w st pc)
      else if opcode = CONTINUE_OP then Some (parse_continue w st)
      else if opcode = BREAK_OP then Some (parse_break w st)
      else if opcode = IF_OP then Some (parse_if px w st pc)
      else if opcode = ELSE_OP then Some Panic
      else None)"

definition parse_declaration_op :: "parser \<Rightarrow> nat \<Rightarrow> 'd lai_world \<Rightarrow> lai_state \<Rightarrow> nat \<Rightarrow> 'd step option" where
  "parse_declaration_op px opcode w st pc =
     (if opcode = SCOPE_OP then Some (parse_scope px w st pc)
      else if opcode = extended DEVICE then Some (parse_device px w st pc)
      else if opcode = extended PROCESSOR then Some (parse_processor px w st pc)
      else if opcode = extended POWER_RES then Some (parse_power_res px w st pc)
      else if opcode = extended THERMALZONE then Some (parse_thermalzone px w st pc)
      else if opcode = METHOD_OP then Some (parse_method px w st pc)
      else if opcode = EXTERNAL_OP then Some (parse_external px w st pc)
      else if opcode = ALIAS_OP then Some (parse_alias px w st pc)
      else if opcode = extended MUTEX then Some (parse_mutex px w st pc)
      else if opcode = extended EVENT then Some (parse_event px w st pc)
      else if opcode = extended FIELD then Some (parse_field px w st pc)
      else if opcode = extended INDEXFIELD then Some (parse_indexfield px w st pc)
      else if opcode = extended BANKFIELD then Some (parse_bankfield px w st pc)
      else map_option (\<lambda>modes. parse_node_op opcode modes w st pc) (node_modes opcode))"

definition op_modes :: "nat \<Rightarrow> nat list option" where
  "op_modes opcode = (case convert_modes opcode of Some m \<Rightarrow> Some m | None \<Rightarrow>
     (case arith_modes opcode of Some m \<Rightarrow> Some m | None \<Rightarrow>
     (case object_modes opcode of Some m \<Rightarrow> Some m | None \<Rightarrow> system_modes opcode)))"

definition parse_opcode :: "'d exec_env \<Rightarrow> parser \<Rightarrow> nat \<Rightarrow> 'd lai_world \<Rightarrow> lai_state \<Rightarrow> nat \<Rightarrow> 'd step" where
  "parse_opcode env px opcode w st pc = (case op_modes opcode of
     Some modes \<Rightarrow> parse_operator px opcode modes w st pc
   | None \<Rightarrow> (case parse_data_op env px opcode w st pc of Some r \<Rightarrow> r
   | None \<Rightarrow> (case parse_control_op px opcode w st pc of Some r \<Rightarrow> r
   | None \<Rightarrow> (case parse_declaration_op px opcode w st pc of Some r \<Rightarrow> r
   | None \<Rightarrow> Panic))))"

text \<open>An opcode of one or, after the prefix, two bytes.\<close>

definition fetch_opcode :: "u8 list \<Rightarrow> nat \<Rightarrow> nat \<Rightarrow> (nat \<times> nat) outcome" where
  "fetch_opcode code pc limit =
     bnd (rd code pc) (\<lambda>b.
     if unat b = EXTOP_PREFIX then
       ensure (pc + 1 \<noteq> limit) (bnd (rd code (pc + 1)) (\<lambda>c. Ok (extended (unat c), pc + 2)))
     else Ok (unat b, pc + 1))"

definition lai_exec_parse :: "'d exec_env \<Rightarrow> nat \<Rightarrow> 'd lai_world \<Rightarrow> lai_state \<Rightarrow> 'd step" where
  "lai_exec_parse env parse_mode w st =
     (case (lai_exec_peek_ctxstack_back st, lai_exec_peek_blkstack_back st) of
        (Some c, Some b) \<Rightarrow>
          bnd (slot (ctxstack_base st) c) (\<lambda>ctxitem.
          bnd (slot (blkstack_base st) b) (\<lambda>block.
          guard (ci_amls ctxitem \<noteq> None \<and> 0 \<le> bi_pc block \<and> parse_mode < length lai_mode_flags) (
          ensure (bi_pc block < bi_limit block) (
          let pc = nat (bi_pc block); limit = nat (bi_limit block);
              px = \<lparr>px_mode = parse_mode, px_amls = ci_amls ctxitem, px_code = ci_code ctxitem,
                    px_handle = ci_handle ctxitem, px_invocation = ci_invocation ctxitem,
                    px_opcode_pc = pc, px_limit = limit\<rparr> in
          if parse_mode \<in> {LAI_IMMEDIATE_BYTE_MODE, LAI_IMMEDIATE_WORD_MODE, LAI_IMMEDIATE_DWORD_MODE}
          then parse_immediate px w st
          else
            bnd (rd (ci_code ctxitem) pc) (\<lambda>b.
            if lai_is_name b then parse_name env px w st
            else
              bnd (fetch_opcode (ci_code ctxitem) pc limit) (\<lambda>(opcode, pc).
              parse_opcode env px opcode w st pc))))))
      | _ \<Rightarrow> Panic)"

end
