(* ===== verification/Lai_Process.thy ===== *)
theory Lai_Process
  imports Lai_Interp
begin

text \<open>
  The interpreter loop (\<open>lai/core/exec.c\<close>): \<open>lai_exec_process\<close>, which carries out the top item of
  the execution stack, \<open>lai_exec_run\<close>, and the entry points \<open>lai_populate\<close> and \<open>lai_eval_args\<close>.

  There is a definition per kind of item.  \<open>item\<close> and \<open>block\<close> are indices into their stacks; what
  they point to is read when the function starts.
\<close>

subsection \<open>The items and their operands\<close>

text \<open>The number of operands pushed since the item was; the frame of operands from there on.\<close>

definition operand_count :: "lai_state \<Rightarrow> lai_stackitem \<Rightarrow> int" where
  "operand_count st item = opstack_ptr st - si_opstack_frame item"

definition frame_operand :: "lai_state \<Rightarrow> lai_stackitem \<Rightarrow> int \<Rightarrow> lai_operand outcome" where
  "frame_operand st item i =
     bnd (lai_exec_get_opstack st (si_opstack_frame item + i)) (\<lambda>p. slot (opstack_base st) p)"

primrec operands_from :: "lai_operand option list \<Rightarrow> int \<Rightarrow> nat \<Rightarrow> lai_operand list outcome" where
  "operands_from base p 0 = Ok []"
| "operands_from base p (Suc n) =
     bnd (slot base p) (\<lambda>x. bnd (operands_from base (p + 1) n) (\<lambda>xs. Ok (x # xs)))"

text \<open>The operands an item with \<open>k > 0\<close> of them hands to an operator.\<close>

definition frame_operands :: "lai_state \<Rightarrow> lai_stackitem \<Rightarrow> nat \<Rightarrow> lai_operand list outcome" where
  "frame_operands st item k =
     bnd (lai_exec_get_opstack st (si_opstack_frame item)) (\<lambda>p. operands_from (opstack_base st) p k)"

definition put_item :: "lai_state \<Rightarrow> int \<Rightarrow> lai_stackitem \<Rightarrow> lai_state outcome" where
  "put_item st p item = bnd (put_slot (stack_base st) p item) (\<lambda>base. Ok (st\<lparr>stack_base := base\<rparr>))"

definition put_blk :: "lai_state \<Rightarrow> int \<Rightarrow> lai_blkitem \<Rightarrow> lai_state outcome" where
  "put_blk st p block = bnd (put_slot (blkstack_base st) p block) (\<lambda>base. Ok (st\<lparr>blkstack_base := base\<rparr>))"

definition put_operand :: "lai_state \<Rightarrow> int \<Rightarrow> lai_operand \<Rightarrow> lai_state outcome" where
  "put_operand st p operand =
     bnd (put_slot (opstack_base st) p operand) (\<lambda>base. Ok (st\<lparr>opstack_base := base\<rparr>))"

text \<open>The block and the item are done.\<close>

definition pop_block_item :: "'d lai_world \<Rightarrow> lai_state \<Rightarrow> 'd step" where
  "pop_block_item w st =
     bnd (lai_exec_pop_blkstack_back st) (\<lambda>st.
     bnd (lai_exec_pop_stack_back st) (\<lambda>st. Ok (LAI_ERROR_NONE, w, st)))"

subsection \<open>Methods and scopes\<close>

definition pop_context_block_item :: "'d lai_world \<Rightarrow> lai_state \<Rightarrow> 'd step" where
  "pop_context_block_item w st =
     bnd (lai_exec_pop_blkstack_back st) (\<lambda>st.
     bnd (lai_exec_pop_ctxstack_back w st) (\<lambda>(w, st).
     bnd (lai_exec_pop_stack_back st) (\<lambda>st. Ok (LAI_ERROR_NONE, w, st))))"

definition process_populate :: "'d exec_env \<Rightarrow> lai_blkitem \<Rightarrow> 'd lai_world \<Rightarrow> lai_state \<Rightarrow> 'd step" where
  "process_populate env block w st =
     (if bi_pc block = bi_limit block then pop_context_block_item w st
      else lai_exec_parse env LAI_EXEC_MODE w st)"

text \<open>The nodes a method created are removed in the order of their creation.\<close>

definition release_field_buffer :: "'d lai_world \<Rightarrow> lai_nsnode \<Rightarrow> 'd lai_world outcome" where
  "release_field_buffer w n =
     (if n_type n = LAI_NAMESPACE_BUFFER_FIELD then
        bnd (buffer_field_of n) (\<lambda>(buf, _, _).
        bnd (buffer_head w (PHead buf)) (\<lambda>(a, b).
        bnd (lai_rc_unref (b_rc b)) (\<lambda>(rc, last).
        Ok (put_cell w a (if last then None else Some (HBuf (b\<lparr>b_rc := rc\<rparr>)))))))
      else Ok w)"

primrec remove_nodes :: "nat \<Rightarrow> 'd lai_world \<Rightarrow> nat list \<Rightarrow> 'd lai_world outcome" where
  "remove_nodes k w [] = Ok w"
| "remove_nodes k w (p # ps) =
     bnd (node w p) (\<lambda>n.
     bnd (release_field_buffer w n) (\<lambda>w.
     bnd (lai_uninstall_nsnode w p) (\<lambda>w.
     bnd (invocation w k) (\<lambda>iv.
     remove_nodes k (put_invocation w k (iv\<lparr>iv_nodes := ps\<rparr>)) ps))))"

definition remove_method_nodes :: "nat option \<Rightarrow> 'd lai_world \<Rightarrow> 'd lai_world outcome" where
  "remove_method_nodes ivk w = (case ivk of
     None \<Rightarrow> Fault
   | Some k \<Rightarrow> bnd (invocation w k) (\<lambda>iv. remove_nodes k w (iv_nodes iv)))"

text \<open>At its end a method returns 0.\<close>

definition process_method :: "'d exec_env \<Rightarrow> lai_ctxitem \<Rightarrow> lai_blkitem \<Rightarrow> bool \<Rightarrow> 'd lai_world \<Rightarrow> lai_state \<Rightarrow> 'd step" where
  "process_method env ctxitem block wants w st =
     (if bi_pc block = bi_limit block then
        reserve lai_exec_reserve_opstack w st (\<lambda>w st.
        ensure (opstack_ptr st = 0) (
        bnd (if wants then push_operand st (OpObject (int_var 0)) else Ok st) (\<lambda>st.
        bnd (remove_method_nodes (ci_invocation ctxitem) w) (\<lambda>w.
        pop_context_block_item w st))))
      else lai_exec_parse env LAI_EXEC_MODE w st)"

subsection \<open>Buffers and packages\<close>

definition process_buffer :: "'d exec_env \<Rightarrow> lai_ctxitem \<Rightarrow> lai_blkitem \<Rightarrow> lai_stackitem \<Rightarrow> bool \<Rightarrow> 'd lai_world \<Rightarrow>
    lai_state \<Rightarrow> 'd step" where
  "process_buffer env ctxitem block item wants w st =
     (let k = operand_count st item in
      ensure (k \<le> 1) (
      if k = 1 then
        bnd (frame_operand st item 0) (\<lambda>operand.
        bnd (lai_exec_get_objectref w operand var0) (\<lambda>(w, siz).
        bnd (lai_exec_pop_opstack_back w st) (\<lambda>(w, st).
        let (e, w, result) = lai_create_buffer w var0 (unat (v_integer siz)) in
        ensure (e = LAI_ERROR_NONE) (
        let initial_size = bi_limit block - bi_pc block in
        ensure (0 \<le> initial_size) (
        bnd (lai_exec_buffer_size w result) (\<lambda>n.
        ensure (initial_size \<le> sint (of_nat n :: 32 word)) (
        bnd (get_block (ci_code ctxitem) (nat (bi_pc block)) (nat initial_size)) (\<lambda>bs.
        bnd (buffer_write w result 0 bs) (\<lambda>w.
        bnd (if wants then bnd (push_operand st (OpObject result)) (\<lambda>st. Ok (w, st))
             else bnd (lai_var_finalize w result) (\<lambda>w. Ok (w, st))) (\<lambda>(w, st).
        bnd (lai_var_finalize w siz) (\<lambda>w.
        pop_block_item w st)))))))))))
      else lai_exec_parse env LAI_OBJECT_MODE w st))"

text \<open>
  While a package is built, its item counts the phases: the size is parsed, the package is
  created, then every further operand is stored as an element.  The phase is advanced through
  \<open>item\<close> after the parser has run; when that moved the stack, \<open>item\<close> is the old memory: the
  array inside the state, where the write has no effect, or a freed block.
\<close>

definition advance_phase :: "lai_state \<Rightarrow> int \<Rightarrow> lai_stackitem \<Rightarrow> lai_state \<Rightarrow> lai_state outcome" where
  "advance_phase old p item st =
     (let item' = item\<lparr>si_kind := (case si_kind item of
            LAI_PACKAGE_STACKITEM i ph wants \<Rightarrow> LAI_PACKAGE_STACKITEM i (ph + 1) wants
          | LAI_VARPACKAGE_STACKITEM i ph wants \<Rightarrow> LAI_VARPACKAGE_STACKITEM i (ph + 1) wants
          | kind \<Rightarrow> kind)\<rparr> in
      if stack_capacity st = stack_capacity old then put_item st p item'
      else guard (stack_capacity old = int LAI_SMALL_STACK_SIZE) (Ok st))"

definition store_element :: "lai_stackitem \<Rightarrow> int \<Rightarrow> int \<Rightarrow> 'd lai_world \<Rightarrow> lai_state \<Rightarrow> ('d lai_world \<times> lai_state) outcome" where
  "store_element item p index w st =
     bnd (frame_operand st item 0) (\<lambda>package. case package of
       OpObject pkg \<Rightarrow>
         bnd (frame_operand st item 1) (\<lambda>initializer. case initializer of
           OpObject v \<Rightarrow>
             bnd (lai_exec_pkg_size w pkg) (\<lambda>n.
             ensure (index < sint (of_nat n :: 32 word)) (
             bnd (lai_exec_pkg_store w v pkg (nat index)) (\<lambda>w.
             bnd (put_item st p (item\<lparr>si_kind := (case si_kind item of
                 LAI_PACKAGE_STACKITEM i ph wants \<Rightarrow> LAI_PACKAGE_STACKITEM (index + 1) ph wants
               | LAI_VARPACKAGE_STACKITEM i ph wants \<Rightarrow> LAI_VARPACKAGE_STACKITEM (index + 1) ph wants
               | kind \<Rightarrow> kind)\<rparr>)) (\<lambda>st.
             lai_exec_pop_opstack_back w st))))
         | _ \<Rightarrow> Panic)
     | _ \<Rightarrow> Panic)"

definition process_package :: "'d exec_env \<Rightarrow> nat \<Rightarrow> lai_blkitem \<Rightarrow> lai_stackitem \<Rightarrow> int \<Rightarrow> int \<Rightarrow> nat \<Rightarrow> bool \<Rightarrow>
    'd lai_world \<Rightarrow> lai_state \<Rightarrow> 'd step" where
  "process_package env size_mode block item p index phase wants w st =
     bnd (lai_exec_get_opstack st (si_opstack_frame item)) (\<lambda>frame.
     if phase = 0 then
       bnd (lai_exec_parse env size_mode w st) (\<lambda>(e, w, st').
       bnd (advance_phase st p item st') (\<lambda>st'. Ok (e, w, st')))
     else if phase = 1 then
       bnd (slot (opstack_base st) (frame + 1)) (\<lambda>operand.
       bnd (lai_exec_get_integer w operand var0) (\<lambda>(e, w, siz).
       if e \<noteq> LAI_ERROR_NONE then Ok (e, w, st)
       else
         bnd (lai_exec_pop_opstack_back w st) (\<lambda>(w, st).
         bnd (slot (opstack_base st) frame) (\<lambda>target. case target of
           OpObject v \<Rightarrow>
             let (e, w, v) = lai_create_pkg w v (unat (v_integer siz)) in
             ensure (e = LAI_ERROR_NONE) (
             bnd (put_operand st frame (OpObject v)) (\<lambda>st.
             bnd (advance_phase st p item st) (\<lambda>st. Ok (LAI_ERROR_NONE, w, st))))
         | _ \<Rightarrow> Fault))))
     else
       bnd (if opstack_ptr st = frame + 2 then store_element item p index w st else Ok (w, st)) (\<lambda>(w, st).
       ensure (opstack_ptr st = frame + 1) (
       if bi_pc block = bi_limit block then
         bnd (if wants then Ok (w, st) else lai_exec_pop_opstack_back w st) (\<lambda>(w, st).
         pop_block_item w st)
       else lai_exec_parse env LAI_DATA_MODE w st)))"

subsection \<open>Operators and declarations\<close>

definition process_node :: "'d exec_env \<Rightarrow> lai_ctxitem \<Rightarrow> lai_stackitem \<Rightarrow> nat \<Rightarrow> nat list \<Rightarrow> 'd lai_world \<Rightarrow>
    lai_state \<Rightarrow> 'd step" where
  "process_node env ctxitem item opcode modes w st =
     (let k = operand_count st item in
      guard (0 \<le> k) (
      bnd (rd modes (nat k)) (\<lambda>mode.
      if mode = 0 then
        bnd (frame_operands st item (nat k)) (\<lambda>operands.
        bnd (lai_exec_reduce_node env opcode w st operands (ci_handle ctxitem)) (\<lambda>(_, w).
        bnd (lai_exec_pop_opstack w st (nat k)) (\<lambda>(w, st).
        bnd (lai_exec_pop_stack_back st) (\<lambda>st. Ok (LAI_ERROR_NONE, w, st)))))
      else lai_exec_parse env mode w st)))"

definition process_op :: "'d exec_env \<Rightarrow> lai_stackitem \<Rightarrow> nat \<Rightarrow> nat list \<Rightarrow> bool \<Rightarrow> 'd lai_world \<Rightarrow> lai_state \<Rightarrow>
    'd step" where
  "process_op env item opcode modes wants w st =
     (let k = operand_count st item in
      guard (0 \<le> k) (
      bnd (rd modes (nat k)) (\<lambda>mode.
      if mode = 0 then
        reserve lai_exec_reserve_opstack w st (\<lambda>w st.
        bnd (frame_operands st item (nat k)) (\<lambda>operands.
        bnd (lai_exec_reduce_op env w st opcode operands var0) (\<lambda>(e, w, result).
        if e \<noteq> LAI_ERROR_NONE then Ok (e, w, st)
        else
          bnd (lai_exec_pop_opstack w st (nat k)) (\<lambda>(w, st).
          bnd (if wants then bnd (push_operand st (OpObject result)) (\<lambda>st. Ok (w, st))
               else bnd (lai_var_finalize w result) (\<lambda>w. Ok (w, st))) (\<lambda>(w, st).
          bnd (lai_exec_pop_stack_back st) (\<lambda>st. Ok (LAI_ERROR_NONE, w, st)))))))
      else lai_exec_parse env mode w st)))"

subsection \<open>Invocations\<close>

primrec fetch_args :: "'d lai_world \<Rightarrow> lai_operand option list \<Rightarrow> int \<Rightarrow> nat \<Rightarrow>
    ('d lai_world \<times> lai_variable list) outcome" where
  "fetch_args w base p 0 = Ok (w, [])"
| "fetch_args w base p (Suc n) =
     bnd (slot base p) (\<lambda>operand.
     bnd (lai_exec_get_objectref w operand var0) (\<lambda>(w, v).
     bnd (fetch_args w base (p + 1) n) (\<lambda>(w, vs). Ok (w, v # vs))))"

text \<open>The predefined methods, by the number the node has for its C function.\<close>

definition method_override :: "nat \<Rightarrow> 'd lai_world \<Rightarrow> lai_variable list \<Rightarrow> ('d lai_world \<times> lai_variable) outcome" where
  "method_override f w args =
     (if f = 0 then bnd (rd args 0) (\<lambda>arg. bnd (lai_do_osi_method w arg var0) (\<lambda>v. Ok (w, v)))
      else if f = 1 then lai_do_os_method w var0
      else Ok (w, lai_do_rev_method var0))"

text \<open>A context, a block and an item for an AML method; the memory of the invocation is zeroed.\<close>

definition enter_method :: "'d lai_world \<Rightarrow> lai_state \<Rightarrow> nat \<Rightarrow> lai_nsnode \<Rightarrow> lai_variable list \<Rightarrow> bool \<Rightarrow> 'd step" where
  "enter_method w st handle n args wants =
     ensure (n_amls n \<noteq> None) (
     let (ok, w) = laihost_malloc w in
     ensure ok (
     let k = length (invocations w);
         iv = \<lparr>iv_arg = args, iv_local = replicate 8 var0, iv_nodes = []\<rparr>;
         w = w\<lparr>invocations := invocations w @ [Some iv]\<rparr> in
     bnd (push_context st \<lparr>ci_amls = n_amls n, ci_code = n_pointer n, ci_handle = Some handle,
       ci_invocation = Some k\<rparr>) (\<lambda>st.
     bnd (push_block st 0 (sint (of_nat (n_size n) :: 32 word))) (\<lambda>st.
     bnd (push_item st (LAI_METHOD_STACKITEM wants) 0) (\<lambda>st.
     Ok (LAI_ERROR_NONE, w, st))))))"

text \<open>The arguments for a predefined method are not released.\<close>

definition process_invoke :: "'d exec_env \<Rightarrow> lai_stackitem \<Rightarrow> int \<Rightarrow> bool \<Rightarrow> 'd lai_world \<Rightarrow> lai_state \<Rightarrow> 'd step" where
  "process_invoke env item argc wants w st =
     (let k = operand_count st item in
      ensure (k \<le> argc + 1) (
      if k = argc + 1 then
        reserve lai_exec_reserve_ctxstack w st (\<lambda>w st.
        reserve lai_exec_reserve_blkstack w st (\<lambda>w st.
        bnd (frame_operand st item 0) (\<lambda>opstack_method. case opstack_method of
          OpResolved (Some handle) \<Rightarrow>
            bnd (node w handle) (\<lambda>n.
            ensure (n_type n = LAI_NAMESPACE_METHOD) (
            bnd (fetch_args w (opstack_base st) (si_opstack_frame item + 1) (nat argc)) (\<lambda>(w, vs).
            let args = vs @ replicate (7 - length vs) var0 in
            bnd (lai_exec_pop_opstack w st (nat (argc + 1))) (\<lambda>(w, st).
            bnd (lai_exec_pop_stack_back st) (\<lambda>st.
            case n_method_override n of
              Some f \<Rightarrow>
                bnd (method_override f w args) (\<lambda>(w, result).
                if wants then bnd (push_operand st (OpObject result)) (\<lambda>st. Ok (LAI_ERROR_NONE, w, st))
                else bnd (lai_var_finalize w result) (\<lambda>w. Ok (LAI_ERROR_NONE, w, st)))
            | None \<Rightarrow> enter_method w st handle n args wants)))))
        | OpResolved None \<Rightarrow> Fault
        | _ \<Rightarrow> Panic)))
      else lai_exec_parse env LAI_OBJECT_MODE w st))"

text \<open>\<open>Return\<close> leaves the loops and conditions it is in, and the method.\<close>

definition is_method :: "lai_stackitem \<Rightarrow> bool" where
  "is_method item \<longleftrightarrow> (case si_kind item of LAI_METHOD_STACKITEM _ \<Rightarrow> True | _ \<Rightarrow> False)"

definition process_return :: "'d exec_env \<Rightarrow> lai_ctxitem \<Rightarrow> lai_stackitem \<Rightarrow> 'd lai_world \<Rightarrow> lai_state \<Rightarrow> 'd step" where
  "process_return env ctxitem item w st =
     (let k = operand_count st item in
      ensure (k \<le> 1) (
      if k = 1 then
        bnd (frame_operand st item 0) (\<lambda>operand.
        bnd (lai_exec_get_objectref w operand var0) (\<lambda>(w, result).
        bnd (lai_exec_pop_opstack_back w st) (\<lambda>(w, st).
        bnd (find_item is_method st (nat (stack_ptr st))) (\<lambda>p.
        bnd (slot (stack_base st) (int p)) (\<lambda>method_item.
        bnd (case si_kind method_item of
               LAI_METHOD_STACKITEM True \<Rightarrow>
                 bnd (lai_obj_clone w var0 result) (\<lambda>(w, v).
                 bnd (push_operand st (OpObject v)) (\<lambda>st. Ok (w, st)))
             | _ \<Rightarrow> Ok (w, st)) (\<lambda>(w, st).
        bnd (remove_method_nodes (ci_invocation ctxitem) w) (\<lambda>w.
        bnd (lai_exec_pop_stack_back st) (\<lambda>st.
        bnd (pop_nested (nat (stack_ptr st) - p) st) (\<lambda>st.
        bnd (lai_exec_pop_ctxstack_back w st) (\<lambda>(w, st).
        bnd (lai_exec_pop_blkstack_back st) (\<lambda>st.
        bnd (lai_exec_pop_stack_back st) (\<lambda>st.
        bnd (lai_var_finalize w result) (\<lambda>w. Ok (LAI_ERROR_NONE, w, st))))))))))))))
      else lai_exec_parse env LAI_OBJECT_MODE w st))"

subsection \<open>Loops and conditions\<close>

text \<open>The predicate is one operand; \<open>k\<close> gets its truth value.\<close>

definition with_predicate :: "'d exec_env \<Rightarrow> lai_stackitem \<Rightarrow> (bool \<Rightarrow> 'd lai_world \<Rightarrow> lai_state \<Rightarrow> 'd step) \<Rightarrow>
    'd lai_world \<Rightarrow> lai_state \<Rightarrow> 'd step" where
  "with_predicate env item f w st =
     (let k = operand_count st item in
      ensure (k \<le> 1) (
      if k = 1 then
        bnd (frame_operand st item 0) (\<lambda>operand.
        bnd (lai_exec_get_integer w operand var0) (\<lambda>(e, w, predicate).
        if e \<noteq> LAI_ERROR_NONE then Ok (e, w, st)
        else bnd (lai_exec_pop_opstack_back w st) (\<lambda>(w, st). f (v_integer predicate \<noteq> 0) w st)))
      else lai_exec_parse env LAI_OBJECT_MODE w st))"

definition LAI_LOOP_ITERATION :: nat where "LAI_LOOP_ITERATION = 1"
definition LAI_COND_BRANCH :: nat where "LAI_COND_BRANCH = 1"

definition process_loop :: "'d exec_env \<Rightarrow> int \<Rightarrow> lai_blkitem \<Rightarrow> lai_stackitem \<Rightarrow> int \<Rightarrow> nat \<Rightarrow> int \<Rightarrow> 'd lai_world \<Rightarrow>
    lai_state \<Rightarrow> 'd step" where
  "process_loop env b block item p state pred w st =
     (if state = 0 then
        with_predicate env item (\<lambda>holds w st.
          if holds then
            bnd (put_item st p (item\<lparr>si_kind := LAI_LOOP_STACKITEM LAI_LOOP_ITERATION pred\<rparr>)) (\<lambda>st.
            Ok (LAI_ERROR_NONE, w, st))
          else pop_block_item w st) w st
      else
        ensure (state = LAI_LOOP_ITERATION) (
        if bi_pc block = bi_limit block then
          bnd (put_item st p (item\<lparr>si_kind := LAI_LOOP_STACKITEM 0 pred\<rparr>)) (\<lambda>st.
          bnd (put_blk st b (block\<lparr>bi_pc := pred\<rparr>)) (\<lambda>st. Ok (LAI_ERROR_NONE, w, st)))
        else lai_exec_parse env LAI_EXEC_MODE w st))"

definition process_cond :: "'d exec_env \<Rightarrow> int \<Rightarrow> lai_blkitem \<Rightarrow> lai_stackitem \<Rightarrow> int \<Rightarrow> nat \<Rightarrow> bool \<Rightarrow> int \<Rightarrow> int \<Rightarrow>
    'd lai_world \<Rightarrow> lai_state \<Rightarrow> 'd step" where
  "process_cond env b block item p state has_else else_pc else_limit w st =
     (if state = 0 then
        with_predicate env item (\<lambda>holds w st.
          let branch = item\<lparr>si_kind := LAI_COND_STACKITEM LAI_COND_BRANCH has_else else_pc else_limit\<rparr> in
          if holds then bnd (put_item st p branch) (\<lambda>st. Ok (LAI_ERROR_NONE, w, st))
          else if has_else then
            bnd (put_item st p branch) (\<lambda>st.
            bnd (put_blk st b (block\<lparr>bi_pc := else_pc, bi_limit := else_limit\<rparr>)) (\<lambda>st. Ok (LAI_ERROR_NONE, w, st)))
          else pop_block_item w st) w st
      else
        ensure (state = LAI_COND_BRANCH) (
        if bi_pc block = bi_limit block then pop_block_item w st
        else lai_exec_parse env LAI_EXEC_MODE w st))"

subsection \<open>Bank fields\<close>

definition handle_operand :: "lai_state \<Rightarrow> lai_stackitem \<Rightarrow> int \<Rightarrow> nat option outcome" where
  "handle_operand st item i = bnd (frame_operand st item i) (\<lambda>operand. case operand of
     OpResolved p \<Rightarrow> Ok p | _ \<Rightarrow> Fault)"

text \<open>The third operand is the value of the bank; the field list follows in the block.\<close>

definition process_bankfield :: "'d exec_env \<Rightarrow> lai_ctxitem \<Rightarrow> lai_blkitem \<Rightarrow> lai_stackitem \<Rightarrow> 'd lai_world \<Rightarrow>
    lai_state \<Rightarrow> 'd step" where
  "process_bankfield env ctxitem block item w st =
     (let k = operand_count st item in
      ensure (k \<le> 3) (
      if k = 3 then
        bnd (handle_operand st item 0) (\<lambda>region_node.
        bnd (handle_operand st item 1) (\<lambda>bank_node.
        bnd (frame_operand st item 2) (\<lambda>operand.
        bnd (lai_exec_get_integer w operand var0) (\<lambda>(e, w, bank_value).
        if e \<noteq> LAI_ERROR_NONE then Ok (e, w, st)
        else
          bnd (lai_exec_pop_opstack w st 3) (\<lambda>(w, st).
          guard (0 \<le> bi_pc block \<and> bank_node \<noteq> None) (
          let pc = nat (bi_pc block); limit = nat (bi_limit block);
              px = \<lparr>px_mode = LAI_OBJECT_MODE, px_amls = ci_amls ctxitem, px_code = ci_code ctxitem,
                    px_handle = ci_handle ctxitem, px_invocation = ci_invocation ctxitem,
                    px_opcode_pc = pc, px_limit = limit\<rparr>;
              mk = (\<lambda>flags siz off. node0\<lparr>n_type := LAI_NAMESPACE_BANKFIELD,
                    n_data := NdField region_node off siz flags (FxBank (the bank_node) (v_integer bank_value))\<rparr>) in
          bnd (rd (ci_code ctxitem) pc) (\<lambda>access_type.
          bnd (field_list px mk limit w access_type 0 (pc + 1)) (\<lambda>(e, w, _).
          if e \<noteq> LAI_ERROR_NONE then Ok (e, w, st) else pop_block_item w st))))))))
      else lai_exec_parse env LAI_OBJECT_MODE w st))"

subsection \<open>The loop\<close>

definition process_item :: "'d exec_env \<Rightarrow> lai_ctxitem \<Rightarrow> int \<Rightarrow> lai_blkitem \<Rightarrow> lai_stackitem \<Rightarrow> int \<Rightarrow> 'd lai_world \<Rightarrow>
    lai_state \<Rightarrow> 'd step" where
  "process_item env ctxitem b block item p w st = (case si_kind item of
     LAI_POPULATE_STACKITEM \<Rightarrow> process_populate env block w st
   | LAI_METHOD_STACKITEM wants \<Rightarrow> process_method env ctxitem block wants w st
   | LAI_BUFFER_STACKITEM wants \<Rightarrow> process_buffer env ctxitem block item wants w st
   | LAI_PACKAGE_STACKITEM index phase wants \<Rightarrow>
       process_package env LAI_IMMEDIATE_BYTE_MODE block item p index phase wants w st
   | LAI_VARPACKAGE_STACKITEM index phase wants \<Rightarrow>
       process_package env LAI_OBJECT_MODE block item p index phase wants w st
   | LAI_NODE_STACKITEM opcode modes \<Rightarrow> process_node env ctxitem item opcode modes w st
   | LAI_OP_STACKITEM opcode modes wants \<Rightarrow> process_op env item opcode modes wants w st
   | LAI_INVOKE_STACKITEM argc wants \<Rightarrow> process_invoke env item argc wants w st
   | LAI_RETURN_STACKITEM \<Rightarrow> process_return env ctxitem item w st
   | LAI_LOOP_STACKITEM state pred \<Rightarrow> process_loop env b block item p state pred w st
   | LAI_COND_STACKITEM state has_else else_pc else_limit \<Rightarrow>
       process_cond env b block item p state has_else else_pc else_limit w st
   | LAI_BANKFIELD_STACKITEM \<Rightarrow> process_bankfield env ctxitem block item w st)"

definition lai_exec_process :: "'d exec_env \<Rightarrow> 'd lai_world \<Rightarrow> lai_state \<Rightarrow> 'd step" where
  "lai_exec_process env w st =
     (case (lai_exec_peek_ctxstack_back st, lai_exec_peek_blkstack_back st) of
        (Some c, Some b) \<Rightarrow>
          bnd (slot (ctxstack_base st) c) (\<lambda>ctxitem.
          bnd (slot (blkstack_base st) b) (\<lambda>block.
          guard (ci_amls ctxitem \<noteq> None) (
          ensure (bi_pc block \<le> bi_limit block) (case lai_exec_peek_stack_back st of
            None \<Rightarrow> Fault
          | Some p \<Rightarrow> bnd (slot (stack_base st) p) (\<lambda>item. process_item env ctxitem b block item p w st)))))
      | _ \<Rightarrow> Panic)"

text \<open>\<open>lai_exec_run\<close> may never return; \<open>fuel\<close> bounds its rounds and running out of it is \<open>Stuck\<close>.\<close>

fun lai_exec_run :: "nat \<Rightarrow> 'd exec_env \<Rightarrow> 'd lai_world \<Rightarrow> lai_state \<Rightarrow> 'd step" where
  "lai_exec_run fuel env w st = (case lai_exec_peek_stack_back st of
     None \<Rightarrow> Ok (LAI_ERROR_NONE, w, st)
   | Some _ \<Rightarrow> (case fuel of
       0 \<Rightarrow> Stuck
     | Suc fuel \<Rightarrow>
         bnd (lai_exec_process env w st) (\<lambda>(e, w, st).
         if e \<noteq> LAI_ERROR_NONE then Ok (e, w, st) else lai_exec_run fuel env w st)))"

declare lai_exec_run.simps [simp del]

subsection \<open>Entry points\<close>

text \<open>A table is executed as the contents of \<open>parent\<close>.\<close>

definition lai_populate :: "nat \<Rightarrow> 'd exec_env \<Rightarrow> 'd lai_world \<Rightarrow> lai_state \<Rightarrow> nat \<Rightarrow> nat \<Rightarrow> u8 list \<Rightarrow> 'd step" where
  "lai_populate fuel env w st parent amls table_data =
     reserve lai_exec_reserve_ctxstack w st (\<lambda>w st.
     reserve lai_exec_reserve_blkstack w st (\<lambda>w st.
     reserve lai_exec_reserve_stack w st (\<lambda>w st.
     bnd (push_context st \<lparr>ci_amls = Some amls, ci_code = table_data, ci_handle = Some parent,
       ci_invocation = None\<rparr>) (\<lambda>st.
     bnd (push_block st 0 (int (length table_data))) (\<lambda>st.
     bnd (push_item st LAI_POPULATE_STACKITEM 0) (\<lambda>st.
     bnd (lai_exec_run fuel env w st) (\<lambda>(status, w, st).
     if status \<noteq> LAI_ERROR_NONE then Ok (status, w, st)
     else ensure (ctxstack_ptr st = -1 \<and> stack_ptr st = -1 \<and> opstack_ptr st = 0)
       (Ok (LAI_ERROR_NONE, w, st)))))))))"

text \<open>The value a method left on the operand stack, cloned; after an error the state is reset.\<close>

definition method_value :: "lai_api_error \<Rightarrow> 'd lai_world \<Rightarrow> lai_state \<Rightarrow>
    (lai_api_error \<times> 'd lai_world \<times> lai_state \<times> lai_variable) outcome" where
  "method_value e w st =
     (if e = LAI_ERROR_NONE then
        ensure (ctxstack_ptr st = -1 \<and> stack_ptr st = -1) (
        ensure (opstack_ptr st = 1) (
        bnd (lai_exec_get_opstack st 0) (\<lambda>p.
        bnd (slot (opstack_base st) p) (\<lambda>opstack_top.
        bnd (lai_exec_get_objectref w opstack_top var0) (\<lambda>(w, objectref).
        bnd (lai_obj_clone w var0 objectref) (\<lambda>(w, method_result).
        bnd (lai_var_finalize w objectref) (\<lambda>w.
        bnd (lai_exec_pop_opstack w st 1) (\<lambda>(w, st).
        Ok (LAI_ERROR_NONE, w, st, method_result)))))))))
      else bnd (lai_finalize_state w st) (\<lambda>(w, st). Ok (e, w, lai_init_state, var0)))"

primrec assign_args :: "'d lai_world \<Rightarrow> lai_variable list \<Rightarrow> ('d lai_world \<times> lai_variable list) outcome" where
  "assign_args w [] = Ok (w, [])"
| "assign_args w (v # vs) =
     bnd (lai_var_assign w var0 v) (\<lambda>(w, v). bnd (assign_args w vs) (\<lambda>(w, vs). Ok (w, v # vs)))"

definition eval_method :: "nat \<Rightarrow> 'd exec_env \<Rightarrow> 'd lai_world \<Rightarrow> lai_state \<Rightarrow> nat \<Rightarrow> lai_nsnode \<Rightarrow> lai_variable list \<Rightarrow>
    (lai_api_error \<times> 'd lai_world \<times> lai_state \<times> lai_variable) outcome" where
  "eval_method fuel env w st handle n args = (case n_method_override n of
     Some f \<Rightarrow> bnd (method_override f w args) (\<lambda>(w, v). Ok (LAI_ERROR_NONE, w, st, v))
   | None \<Rightarrow>
       bnd (assign_args w args) (\<lambda>(w, vs).
       bnd (enter_method w st handle n (vs @ replicate (7 - length vs) var0) True) (\<lambda>(_, w, st).
       bnd (lai_exec_run fuel env w st) (\<lambda>(e, w, st). method_value e w st))))"

text \<open>\<open>result\<close> is \<open>None\<close> for a null pointer, else what the caller's variable holds.\<close>

definition lai_eval_args :: "nat \<Rightarrow> 'd exec_env \<Rightarrow> 'd lai_world \<Rightarrow> lai_variable option \<Rightarrow> nat option \<Rightarrow> lai_state \<Rightarrow>
    lai_variable list \<Rightarrow> (lai_api_error \<times> 'd lai_world \<times> lai_state \<times> lai_variable option) outcome" where
  "lai_eval_args fuel env w result handle st args = (case handle of
     None \<Rightarrow> Panic
   | Some handle \<Rightarrow>
       bnd (node w handle) (\<lambda>n.
       ensure (n_type n \<noteq> LAI_NAMESPACE_ALIAS) (
       if n_type n = LAI_NAMESPACE_NAME then
         (if args \<noteq> [] then Ok (LAI_ERROR_TYPE_MISMATCH, w, st, result)
          else (case result of
            None \<Rightarrow> Ok (LAI_ERROR_NONE, w, st, None)
          | Some v \<Rightarrow> bnd (lai_obj_clone w v (n_object n)) (\<lambda>(w, v). Ok (LAI_ERROR_NONE, w, st, Some v))))
       else if n_type n = LAI_NAMESPACE_METHOD then
         (let out_of_memory = (\<lambda>w st. Ok (LAI_ERROR_OUT_OF_MEMORY, w, st, result)) in
          bnd (lai_exec_reserve_ctxstack w st) (\<lambda>(err, w, st). if err \<noteq> 0 then out_of_memory w st else
          bnd (lai_exec_reserve_blkstack w st) (\<lambda>(err, w, st). if err \<noteq> 0 then out_of_memory w st else
          bnd (lai_exec_reserve_stack w st) (\<lambda>(err, w, st). if err \<noteq> 0 then out_of_memory w st else
          bnd (eval_method fuel env w st handle n args) (\<lambda>(e, w, st, v).
          case result of
            Some old \<Rightarrow>
              if e = LAI_ERROR_NONE
              then bnd (lai_var_move w old v) (\<lambda>(w, v, _). Ok (e, w, st, Some v))
              else bnd (lai_var_finalize w v) (\<lambda>w. Ok (e, w, st, Some old))
          | None \<Rightarrow> bnd (lai_var_finalize w v) (\<lambda>w. Ok (e, w, st, None)))))))
       else Ok (LAI_ERROR_TYPE_MISMATCH, w, st, result))))"

definition lai_eval :: "nat \<Rightarrow> 'd exec_env \<Rightarrow> 'd lai_world \<Rightarrow> lai_variable option \<Rightarrow> nat option \<Rightarrow> lai_state \<Rightarrow>
    (lai_api_error \<times> 'd lai_world \<times> lai_state \<times> lai_variable option) outcome" where
  "lai_eval fuel env w result handle st = lai_eval_args fuel env w result handle st []"

end
