(* ===== verification/Lai_View.thy ===== *)
theory Lai_View
  imports Lai_Process
begin

text \<open>
  The interpreter state as four lists, bottom first, and its operations on them: what the parser
  and the loop do to the stacks when memory is left.  \<open>runs\<close> is the progress of \<open>lai_exec_run\<close>.
\<close>

subsection \<open>One stack\<close>

text \<open>The memory \<open>base\<close> of capacity \<open>cap\<close> holds the \<open>n\<close> items \<open>xs\<close>.\<close>

definition stk :: "'a option list \<Rightarrow> int \<Rightarrow> int \<Rightarrow> 'a list \<Rightarrow> bool" where
  "stk base cap n xs \<longleftrightarrow> slots_ok base cap n \<and> take (nat n) base = map Some xs"

lemma stk_length: "stk base cap n xs \<Longrightarrow> n = int (length xs)"
proof -
  assume a: "stk base cap n xs"
  then have "length (take (nat n) base) = length xs" by (simp add: stk_def)
  then show ?thesis using a by (auto simp: stk_def slots_ok_def min_def split: if_splits)
qed

lemma stk_nth: "stk base cap n xs \<Longrightarrow> i < length xs \<Longrightarrow> i < length base \<and> base ! i = Some (xs ! i)"
proof -
  assume a: "stk base cap n xs" and i: "i < length xs"
  have n: "nat n = length xs" using stk_length [OF a] by simp
  then have "take (length xs) base = map Some xs" using a by (simp add: stk_def)
  then have "length xs \<le> length base" "take (length xs) base ! i = Some (xs ! i)"
    using i by (auto dest: arg_cong [where f = length])
  then show ?thesis using i by simp
qed

lemma stk_slot: "stk base cap n xs \<Longrightarrow> i < length xs \<Longrightarrow> slot base (int i) = Ok (xs ! i)"
  using stk_nth by (fastforce simp: slot_def)

lemma stk_put:
  assumes "stk base cap n xs" and "i < length xs"
  shows "\<exists>base'. put_slot base (int i) x = Ok base' \<and> stk base' cap n (xs[i := x])"
proof (intro exI conjI)
  show "put_slot base (int i) x = Ok (base[i := Some x])"
    using stk_nth [OF assms] by (simp add: put_slot_def)
  show "stk (base[i := Some x]) cap n (xs[i := x])"
    using assms by (auto simp: stk_def slots_ok_def take_update_swap map_update)
qed

lemma stk_push:
  assumes "stk base cap n xs" and "n < cap"
  shows "\<exists>base'. put_slot base n x = Ok base' \<and> stk base' cap (n + 1) (xs @ [x])"
proof (intro exI conjI)
  have p: "0 \<le> n" "nat n < length base" using assms by (auto simp: stk_def slots_ok_def)
  show "put_slot base n x = Ok (base[nat n := Some x])" by (rule take_put_slot(1) [OF p])
  show "stk (base[nat n := Some x]) cap (n + 1) (xs @ [x])"
    using assms take_put_slot(2) [OF p] by (auto simp: stk_def slots_ok_def)
qed

lemma stk_pop: "stk base cap n (xs @ [x]) \<Longrightarrow> stk base cap (n - 1) xs"
proof -
  assume a: "stk base cap n (xs @ [x])"
  have n: "n = int (length xs) + 1" using stk_length [OF a] by simp
  have "take (length xs) (take (nat n) base) = map Some xs" using a by (simp add: stk_def)
  then have "take (length xs) base = map Some xs" using n by (simp add: min_def nat_add_distrib)
  then show ?thesis using a n by (auto simp: stk_def slots_ok_def)
qed

lemma stk_drop: "stk base cap n (xs @ ys) \<Longrightarrow> stk base cap (n - int (length ys)) xs"
proof (induction ys arbitrary: n rule: rev_induct)
  case (snoc y ys)
  have "stk base cap (n - 1) (xs @ ys)" using snoc.prems by (intro stk_pop) simp
  from snoc.IH [OF this] show ?case by (simp add: algebra_simps)
qed simp

text \<open>With memory left a full stack grows.\<close>

definition mem_left :: "'w lai_heap_scheme \<Rightarrow> bool" where
  "mem_left hp \<longleftrightarrow> (\<forall>t. mem_ok hp t)"

lemma stk_grow:
  assumes "stk base cap cap xs" and "mem_left hp"
  shows "\<exists>base'. grow_slots hp base cap cap = Ok (0, hp\<lparr>mem_clock := Suc (mem_clock hp)\<rparr>, base', 2 * cap) \<and>
    stk base' (2 * cap) cap xs \<and> cap < 2 * cap"
proof -
  have "slots_ok base cap cap" using assms(1) by (simp add: stk_def)
  moreover have "take (nat cap) base = map Some xs" using assms(1) by (simp add: stk_def)
  ultimately show ?thesis
    using assms(2) by (auto simp: grow_slots_def laihost_malloc_def mem_left_def slots_ok_def get_block_def stk_def)
qed

subsection \<open>The state\<close>

definition view :: "lai_state \<Rightarrow> lai_ctxitem list \<Rightarrow> lai_blkitem list \<Rightarrow> lai_stackitem list \<Rightarrow> lai_operand list \<Rightarrow> bool" where
  "view st cs bs is os \<longleftrightarrow>
     stk (ctxstack_base st) (ctxstack_capacity st) (ctxstack_ptr st + 1) cs \<and>
     stk (blkstack_base st) (blkstack_capacity st) (blkstack_ptr st + 1) bs \<and>
     stk (stack_base st) (stack_capacity st) (stack_ptr st + 1) is \<and>
     stk (opstack_base st) (opstack_capacity st) (opstack_ptr st) os"

definition room_ctx :: "lai_state \<Rightarrow> bool" where "room_ctx st \<longleftrightarrow> ctxstack_ptr st + 1 < ctxstack_capacity st"
definition room_blk :: "lai_state \<Rightarrow> bool" where "room_blk st \<longleftrightarrow> blkstack_ptr st + 1 < blkstack_capacity st"
definition room_item :: "lai_state \<Rightarrow> bool" where "room_item st \<longleftrightarrow> stack_ptr st + 1 < stack_capacity st"
definition room_op :: "lai_state \<Rightarrow> bool" where "room_op st \<longleftrightarrow> opstack_ptr st < opstack_capacity st"

lemmas room_defs = room_ctx_def room_blk_def room_item_def room_op_def

lemma view_ptrs:
  assumes "view st cs bs is os"
  shows "ctxstack_ptr st = int (length cs) - 1" "blkstack_ptr st = int (length bs) - 1"
    "stack_ptr st = int (length is) - 1" "opstack_ptr st = int (length os)"
  using assms stk_length unfolding view_def by fastforce+

lemma view_slots:
  assumes "view st cs bs is os"
  shows "i < length cs \<Longrightarrow> slot (ctxstack_base st) (int i) = Ok (cs ! i)"
    and "i < length bs \<Longrightarrow> slot (blkstack_base st) (int i) = Ok (bs ! i)"
    and "i < length is \<Longrightarrow> slot (stack_base st) (int i) = Ok (is ! i)"
    and "i < length os \<Longrightarrow> slot (opstack_base st) (int i) = Ok (os ! i)"
  using assms stk_slot unfolding view_def by blast+

lemma view_init: "view lai_init_state [] [] [] []"
  by (simp add: view_def stk_def slots_ok_def lai_init_state_def small_sizes)

text \<open>Reservations succeed and may move the clock of the allocator.\<close>

definition ticked :: "'w lai_heap_scheme \<Rightarrow> 'w lai_heap_scheme \<Rightarrow> bool" where
  "ticked hp hp' \<longleftrightarrow> (\<exists>t. hp' = hp\<lparr>mem_clock := t\<rparr>)"

lemma ticked_refl [simp, intro]: "ticked hp hp"
  unfolding ticked_def by (rule exI [of _ "mem_clock hp"]) simp

lemma ticked_trans [trans]: "ticked a b \<Longrightarrow> ticked b c \<Longrightarrow> ticked a c"
  by (auto simp: ticked_def)

lemma ticked_tick [simp, intro]: "ticked hp (hp\<lparr>mem_clock := t\<rparr>)"
  by (auto simp: ticked_def)

lemma ticked_mem: "ticked hp hp' \<Longrightarrow> mem_left hp \<Longrightarrow> mem_left hp'"
  by (auto simp: ticked_def mem_left_def)

subsection \<open>Reserving\<close>

lemma reserve_ctx_view:
  fixes w :: "'d lai_world"
  assumes "view st cs bs is os" and "mem_left w"
  shows "\<exists>w' st'. lai_exec_reserve_ctxstack w st = Ok (0, w', st') \<and> ticked w w' \<and> view st' cs bs is os \<and> room_ctx st'"
proof (cases "ctxstack_ptr st + 1 = ctxstack_capacity st")
  case True
  then have "stk (ctxstack_base st) (ctxstack_capacity st) (ctxstack_capacity st) cs" using assms(1) by (simp add: view_def)
  from stk_grow [OF this assms(2)] True assms(1) show ?thesis
    by (auto simp: lai_exec_reserve_ctxstack_def view_def room_defs)
next
  case False
  then have "room_ctx st" using assms(1) by (auto simp: view_def stk_def slots_ok_def room_defs)
  with False assms(1) show ?thesis by (auto simp: lai_exec_reserve_ctxstack_def)
qed

lemma reserve_blk_view:
  fixes w :: "'d lai_world"
  assumes "view st cs bs is os" and "mem_left w"
  shows "\<exists>w' st'. lai_exec_reserve_blkstack w st = Ok (0, w', st') \<and> ticked w w' \<and> view st' cs bs is os \<and>
    room_blk st' \<and> (room_ctx st \<longrightarrow> room_ctx st')"
proof (cases "blkstack_ptr st + 1 = blkstack_capacity st")
  case True
  then have "stk (blkstack_base st) (blkstack_capacity st) (blkstack_capacity st) bs" using assms(1) by (simp add: view_def)
  from stk_grow [OF this assms(2)] True assms(1) show ?thesis
    by (auto simp: lai_exec_reserve_blkstack_def view_def room_defs)
next
  case False
  then have "room_blk st" using assms(1) by (auto simp: view_def stk_def slots_ok_def room_defs)
  with False assms(1) show ?thesis by (auto simp: lai_exec_reserve_blkstack_def)
qed

lemma reserve_item_view:
  fixes w :: "'d lai_world"
  assumes "view st cs bs is os" and "mem_left w"
  shows "\<exists>w' st'. lai_exec_reserve_stack w st = Ok (0, w', st') \<and> ticked w w' \<and> view st' cs bs is os \<and>
    room_item st' \<and> (room_ctx st \<longrightarrow> room_ctx st') \<and> (room_blk st \<longrightarrow> room_blk st')"
proof (cases "stack_ptr st + 1 = stack_capacity st")
  case True
  then have "stk (stack_base st) (stack_capacity st) (stack_capacity st) is" using assms(1) by (simp add: view_def)
  from stk_grow [OF this assms(2)] True assms(1) show ?thesis
    by (auto simp: lai_exec_reserve_stack_def view_def room_defs)
next
  case False
  then have "room_item st" using assms(1) by (auto simp: view_def stk_def slots_ok_def room_defs)
  with False assms(1) show ?thesis by (auto simp: lai_exec_reserve_stack_def)
qed

lemma reserve_op_view:
  fixes w :: "'d lai_world"
  assumes "view st cs bs is os" and "mem_left w"
  shows "\<exists>w' st'. lai_exec_reserve_opstack w st = Ok (0, w', st') \<and> ticked w w' \<and> view st' cs bs is os \<and> room_op st'"
proof (cases "opstack_ptr st = opstack_capacity st")
  case True
  then have "stk (opstack_base st) (opstack_capacity st) (opstack_capacity st) os" using assms(1) by (simp add: view_def)
  from stk_grow [OF this assms(2)] True assms(1) show ?thesis
    by (auto simp: lai_exec_reserve_opstack_def view_def room_defs)
next
  case False
  then have "room_op st" using assms(1) by (auto simp: view_def stk_def slots_ok_def room_defs)
  with False assms(1) show ?thesis by (auto simp: lai_exec_reserve_opstack_def)
qed

subsection \<open>Pushing and popping\<close>

lemma put_twice:
  assumes "stk base cap n xs" and "n < cap"
  shows "\<exists>b1 b2. put_slot base n y = Ok b1 \<and> put_slot b1 n x = Ok b2 \<and> stk b2 cap (n + 1) (xs @ [x])"
proof -
  from stk_push [OF assms, of y] obtain b1 where b1: "put_slot base n y = Ok b1" "stk b1 cap (n + 1) (xs @ [y])" by blast
  have n: "n = int (length xs)" by (rule stk_length [OF assms(1)])
  from stk_put [OF b1(2), of "length xs" x] b1(1) n show ?thesis by auto
qed

lemma push_context_view:
  assumes "view st cs bs is os" and "room_ctx st"
  shows "\<exists>st'. push_context st c = Ok st' \<and> view st' (cs @ [c]) bs is os \<and>
    (room_blk st \<longrightarrow> room_blk st') \<and> (room_item st \<longrightarrow> room_item st') \<and> (room_op st \<longrightarrow> room_op st')"
proof -
  from assms have s: "stk (ctxstack_base st) (ctxstack_capacity st) (ctxstack_ptr st + 1) cs"
      "ctxstack_ptr st + 1 < ctxstack_capacity st"
    by (simp_all add: view_def room_defs)
  from put_twice [OF s, of ctxitem0 c] assms show ?thesis
    by (auto simp: push_context_def lai_exec_push_ctxstack_def Let_def view_def room_defs ensure_def)
qed

lemma push_block_view:
  assumes "view st cs bs is os" and "room_blk st"
  shows "\<exists>st'. push_block st pc limit = Ok st' \<and> view st' cs (bs @ [\<lparr>bi_pc = pc, bi_limit = limit\<rparr>]) is os \<and>
    (room_ctx st \<longrightarrow> room_ctx st') \<and> (room_item st \<longrightarrow> room_item st') \<and> (room_op st \<longrightarrow> room_op st')"
proof -
  from assms have s: "stk (blkstack_base st) (blkstack_capacity st) (blkstack_ptr st + 1) bs"
      "blkstack_ptr st + 1 < blkstack_capacity st"
    by (simp_all add: view_def room_defs)
  from put_twice [OF s, of blkitem0 "\<lparr>bi_pc = pc, bi_limit = limit\<rparr>"] assms show ?thesis
    by (auto simp: push_block_def lai_exec_push_blkstack_def Let_def view_def room_defs ensure_def)
qed

lemma push_item_view:
  assumes "view st cs bs is os" and "room_item st"
  shows "\<exists>st'. push_item st kind frame = Ok st' \<and> view st' cs bs (is @ [\<lparr>si_kind = kind, si_opstack_frame = frame\<rparr>]) os \<and>
    (room_ctx st \<longrightarrow> room_ctx st') \<and> (room_blk st \<longrightarrow> room_blk st') \<and> (room_op st \<longrightarrow> room_op st')"
proof -
  from assms have s: "stk (stack_base st) (stack_capacity st) (stack_ptr st + 1) is"
      "stack_ptr st + 1 < stack_capacity st" "0 \<le> stack_ptr st + 1"
    by (auto simp: view_def room_defs stk_def slots_ok_def)
  from stk_push [OF s(1,2), of "\<lparr>si_kind = kind, si_opstack_frame = frame\<rparr>"] assms s(2,3) show ?thesis
    by (auto simp: push_item_def lai_exec_push_stack_def Let_def view_def room_defs ensure_def)
qed

lemma push_operand_view:
  assumes "view st cs bs is os" and "room_op st"
  shows "\<exists>st'. push_operand st x = Ok st' \<and> view st' cs bs is (os @ [x])"
proof -
  from assms have s: "stk (opstack_base st) (opstack_capacity st) (opstack_ptr st) os"
      "opstack_ptr st < opstack_capacity st"
    by (simp_all add: view_def room_defs)
  from put_twice [OF s, of OpZero x] assms show ?thesis
    by (auto simp: push_operand_def lai_exec_push_opstack_def Let_def view_def room_defs ensure_def)
qed

lemma view_tops:
  assumes "view st cs bs is os"
  shows "cs = cs0 @ [c] \<Longrightarrow> lai_exec_peek_ctxstack_back st = Some (int (length cs0)) \<and>
      slot (ctxstack_base st) (int (length cs0)) = Ok c"
    and "bs = bs0 @ [b] \<Longrightarrow> lai_exec_peek_blkstack_back st = Some (int (length bs0)) \<and>
      slot (blkstack_base st) (int (length bs0)) = Ok b"
    and "is = is0 @ [it] \<Longrightarrow> lai_exec_peek_stack_back st = Some (int (length is0)) \<and>
      slot (stack_base st) (int (length is0)) = Ok it"
  using view_ptrs [OF assms] view_slots [OF assms, of "length cs0"] view_slots [OF assms, of "length bs0"]
    view_slots [OF assms, of "length is0"]
  by (auto simp: lai_exec_peek_ctxstack_back_def lai_exec_peek_blkstack_back_def lai_exec_peek_stack_back_def
      lai_exec_peek_stack_def)

lemma view_current_invocation:
  "view st (cs @ [c]) bs is os \<Longrightarrow> ci_invocation c = Some k \<Longrightarrow> current_invocation st = Ok k"
  using view_tops(1) [of st "cs @ [c]" bs "is" os cs c]
  by (simp add: current_invocation_def current_context_def)

lemma commit_pc_view:
  assumes "view st cs (bs @ [b]) is os"
  shows "\<exists>st'. lai_exec_commit_pc st pc = Ok st' \<and> view st' cs (bs @ [b\<lparr>bi_pc := pc\<rparr>]) is os \<and>
    (room_ctx st \<longrightarrow> room_ctx st') \<and> (room_blk st \<longrightarrow> room_blk st') \<and> (room_item st \<longrightarrow> room_item st') \<and>
    (room_op st \<longrightarrow> room_op st')"
proof -
  have s: "stk (blkstack_base st) (blkstack_capacity st) (blkstack_ptr st + 1) (bs @ [b])"
    using assms by (simp add: view_def)
  from stk_put [OF s, of "length bs" "b\<lparr>bi_pc := pc\<rparr>"] view_tops(2) [OF assms refl] assms show ?thesis
    by (auto simp: lai_exec_commit_pc_def view_def room_defs)
qed

lemma put_blk_view:
  assumes "view st cs (bs @ [b]) is os"
  shows "\<exists>st'. put_blk st (int (length bs)) b' = Ok st' \<and> view st' cs (bs @ [b']) is os"
proof -
  have s: "stk (blkstack_base st) (blkstack_capacity st) (blkstack_ptr st + 1) (bs @ [b])"
    using assms by (simp add: view_def)
  from stk_put [OF s, of "length bs" b'] assms show ?thesis by (auto simp: put_blk_def view_def)
qed

lemma put_item_view:
  assumes "view st cs bs (is @ [it]) os"
  shows "\<exists>st'. put_item st (int (length is)) it' = Ok st' \<and> view st' cs bs (is @ [it']) os"
proof -
  have s: "stk (stack_base st) (stack_capacity st) (stack_ptr st + 1) (is @ [it])"
    using assms by (simp add: view_def)
  from stk_put [OF s, of "length is" it'] assms show ?thesis by (auto simp: put_item_def view_def)
qed

lemma pop_blk_view:
  assumes "view st cs (bs @ [b]) is os"
  shows "\<exists>st'. lai_exec_pop_blkstack_back st = Ok st' \<and> view st' cs bs is os"
proof -
  have "stk (blkstack_base st) (blkstack_capacity st) (blkstack_ptr st + 1) (bs @ [b])"
    using assms by (simp add: view_def)
  from stk_pop [OF this] view_ptrs(2) [OF assms] assms show ?thesis
    by (auto simp: lai_exec_pop_blkstack_back_def view_def)
qed

lemma pop_item_view:
  assumes "view st cs bs (is @ [it]) os"
  shows "\<exists>st'. lai_exec_pop_stack_back st = Ok st' \<and> view st' cs bs is os \<and> (room_op st \<longrightarrow> room_op st')"
proof -
  have "stk (stack_base st) (stack_capacity st) (stack_ptr st + 1) (is @ [it])"
    using assms by (simp add: view_def)
  from stk_pop [OF this] view_ptrs(3) [OF assms] assms show ?thesis
    by (auto simp: lai_exec_pop_stack_back_def view_def room_defs)
qed

lemma pop_block_item_view:
  assumes "view st cs (bs @ [b]) (is @ [it]) os"
  shows "\<exists>st'. pop_block_item w st = Ok (LAI_ERROR_NONE, w, st') \<and> view st' cs bs is os"
proof -
  from pop_blk_view [OF assms] obtain s1 where s1: "lai_exec_pop_blkstack_back st = Ok s1"
    "view s1 cs bs (is @ [it]) os" by blast
  from pop_item_view [OF s1(2)] s1(1) show ?thesis by (auto simp: pop_block_item_def)
qed

text \<open>Operands without a counted object are popped without a change of the world.\<close>

definition plain :: "lai_operand \<Rightarrow> bool" where
  "plain x \<longleftrightarrow> (case x of OpObject v \<Rightarrow> counted (v_type v) = None | _ \<Rightarrow> True)"

lemma plain_simps [simp]: "plain (OpObject (int_var i))" "plain OpNull" "plain (OpLocal n)"
  by (simp_all add: plain_def int_var_def)

lemma finalize_plain: "plain x \<Longrightarrow> \<exists>x'. finalize_operand w x = Ok (w, x')"
  by (cases x) (simp_all add: finalize_operand_def plain_def finalize_uncounted)

lemma pop_operands_plain:
  "stk base cap (int p) (os @ xs) \<Longrightarrow> \<forall>x \<in> set xs. plain x \<Longrightarrow> p = length os + length xs \<Longrightarrow>
    \<exists>base'. pop_operands w base (int p) (length xs) = Ok (w, base') \<and> stk base' cap (int (length os)) os"
proof (induction xs arbitrary: base p rule: rev_induct)
  case (snoc x xs)
  let ?q = "length os + length xs"
  have p: "int p - 1 = int ?q" using snoc.prems(3) by simp
  have s: "slot base (int ?q) = Ok x" using stk_slot [OF snoc.prems(1), of ?q] by (simp add: nth_append)
  obtain x' where x': "finalize_operand w x = Ok (w, x')" using finalize_plain snoc.prems(2) by force
  from stk_put [OF snoc.prems(1), of ?q x'] obtain b1 where
    b1: "put_slot base (int ?q) x' = Ok b1" "stk b1 cap (int p) (os @ xs @ [x'])"
    by (auto simp: list_update_append)
  from b1(2) have "stk b1 cap (int p - 1) (os @ xs)" using stk_pop [of b1 cap "int p" "os @ xs" x'] by simp
  then have "stk b1 cap (int ?q) (os @ xs)" by (simp only: p)
  from snoc.IH [OF this] snoc.prems(2) obtain b2 where
    "pop_operands w b1 (int ?q) (length xs) = Ok (w, b2)" "stk b2 cap (int (length os)) os" by auto
  with s x' b1(1) p show ?case by simp
qed simp

lemma pop_ops_view:
  assumes "view st cs bs is (os @ xs)" and "\<forall>x \<in> set xs. plain x" and "xs \<noteq> []"
  shows "\<exists>st'. lai_exec_pop_opstack w st (length xs) = Ok (w, st') \<and> view st' cs bs is os \<and> room_op st'"
proof -
  have s: "stk (opstack_base st) (opstack_capacity st) (int (length os + length xs)) (os @ xs)"
    using assms(1) view_ptrs(4) [OF assms(1)] by (simp add: view_def)
  from pop_operands_plain [OF s assms(2) refl, of w] obtain b where
    b: "pop_operands w (opstack_base st) (int (length os + length xs)) (length xs) = Ok (w, b)"
      "stk b (opstack_capacity st) (int (length os)) os"
    by blast
  moreover have "int (length os) < opstack_capacity st"
    using s assms(3) by (auto simp: stk_def slots_ok_def neq_Nil_conv)
  ultimately show ?thesis
    using assms(1) view_ptrs(4) [OF assms(1)]
    by (auto simp: lai_exec_pop_opstack_def view_def room_defs)
qed

subsection \<open>Progress\<close>

text \<open>With some fuel more, the run from the first configuration is the run from the second.\<close>

definition runs :: "'d exec_env \<Rightarrow> 'd lai_world \<times> lai_state \<Rightarrow> 'd lai_world \<times> lai_state \<Rightarrow> bool" where
  "runs env c c' \<longleftrightarrow> (\<exists>n. \<forall>m. lai_exec_run (n + m) env (fst c) (snd c) = lai_exec_run m env (fst c') (snd c'))"

lemma runs_refl [simp, intro]: "runs env c c"
  unfolding runs_def by (rule exI [of _ 0]) simp

lemma runs_trans [trans]:
  assumes "runs env a b" and "runs env b c"
  shows "runs env a c"
proof -
  from assms(1) obtain n where n: "\<And>m. lai_exec_run (n + m) env (fst a) (snd a) = lai_exec_run m env (fst b) (snd b)"
    by (auto simp: runs_def)
  from assms(2) obtain k where k: "\<And>m. lai_exec_run (k + m) env (fst b) (snd b) = lai_exec_run m env (fst c) (snd c)"
    by (auto simp: runs_def)
  have "lai_exec_run ((n + k) + m) env (fst a) (snd a) = lai_exec_run m env (fst c) (snd c)" for m
    using n [of "k + m"] k [of m] by (simp add: add.assoc)
  then show ?thesis unfolding runs_def by blast
qed

lemma runs_process:
  assumes v: "view st (cs @ [c]) (bs @ [b]) (is @ [it]) os"
    and c: "ci_amls c \<noteq> None" and b: "bi_pc b \<le> bi_limit b"
    and p: "process_item env c (int (length bs)) b it (int (length is)) w st = Ok (LAI_ERROR_NONE, w', st')"
  shows "runs env (w, st) (w', st')"
proof -
  note tops = view_tops(1) [OF v refl] view_tops(2) [OF v refl] view_tops(3) [OF v refl]
  have "lai_exec_process env w st = Ok (LAI_ERROR_NONE, w', st')"
    using tops c b p by (simp add: lai_exec_process_def)
  then have "lai_exec_run (Suc m) env w st = lai_exec_run m env w' st'" for m
    using tops(3) by (subst lai_exec_run.simps) simp
  then show ?thesis unfolding runs_def by (intro exI [of _ 1]) simp
qed

text \<open>A run that ends with an empty execution stack has ended.\<close>

lemma runs_finished:
  assumes "runs env (w, st) (w', st')" and "view st' cs bs [] os"
  shows "\<exists>n. \<forall>m \<ge> n. lai_exec_run m env w st = Ok (LAI_ERROR_NONE, w', st')"
proof -
  from assms(1) obtain n where n: "\<And>m. lai_exec_run (n + m) env w st = lai_exec_run m env w' st'"
    by (auto simp: runs_def)
  have "lai_exec_peek_stack_back st' = None"
    using view_ptrs(3) [OF assms(2)] by (simp add: lai_exec_peek_stack_back_def lai_exec_peek_stack_def)
  then have fin: "lai_exec_run m env w' st' = Ok (LAI_ERROR_NONE, w', st')" for m
    by (subst lai_exec_run.simps) simp
  have "lai_exec_run m env w st = Ok (LAI_ERROR_NONE, w', st')" if "n \<le> m" for m
    using n [of "m - n"] fin that by simp
  then show ?thesis by blast
qed

end
