(* ===== verification/Lai_Steps.thy ===== *)
theory Lai_Steps
  imports Lai_Program
begin

text \<open>
  How the interpreter makes progress on the code of the programs of \<open>Lai_Program\<close>: one lemma for
  each way an item of the execution stack is carried out.
\<close>

subsection \<open>Configurations\<close>

text \<open>The surroundings of a running method: what does not change while its body runs.\<close>

record 'd setting =
  s_env :: "'d exec_env"
  s_world :: "'d lai_world"
  s_key :: nat
  s_iv :: lai_invocation
  s_cs :: "lai_ctxitem list"
  s_ctx :: lai_ctxitem

definition setting_ok :: "'d setting \<Rightarrow> bool" where
  "setting_ok S \<longleftrightarrow> ci_amls (s_ctx S) \<noteq> None \<and> ci_invocation (s_ctx S) = Some (s_key S) \<and>
     mem_left (s_world S) \<and> s_key S < length (invocations (s_world S))"

definition local_var :: "u64 option \<Rightarrow> lai_variable" where
  "local_var x = (case x of None \<Rightarrow> var0 | Some v \<Rightarrow> int_var v)"

text \<open>The world while the locals are \<open>L\<close>.\<close>

definition with_locals :: "'d setting \<Rightarrow> locals \<Rightarrow> 'd lai_world \<Rightarrow> bool" where
  "with_locals S L w \<longleftrightarrow> length L = 8 \<and>
     (\<exists>t. w = put_invocation ((s_world S)\<lparr>mem_clock := t\<rparr>) (s_key S) ((s_iv S)\<lparr>iv_local := map local_var L\<rparr>))"

definition conf :: "'d setting \<Rightarrow> lai_blkitem list \<Rightarrow> lai_stackitem list \<Rightarrow> lai_operand list \<Rightarrow> locals \<Rightarrow>
    'd lai_world \<times> lai_state \<Rightarrow> bool" where
  "conf S bs is os L c \<longleftrightarrow> view (snd c) (s_cs S @ [s_ctx S]) bs is os \<and> with_locals S L (fst c)"

definition leads :: "'d setting \<Rightarrow> ('d lai_world \<times> lai_state \<Rightarrow> bool) \<Rightarrow> ('d lai_world \<times> lai_state \<Rightarrow> bool) \<Rightarrow> bool" where
  "leads S P Q \<longleftrightarrow> (\<forall>c. P c \<longrightarrow> (\<exists>c'. runs (s_env S) c c' \<and> Q c'))"

lemma leads_refl [intro]: "leads S P P"
  unfolding leads_def by blast

lemma leads_trans [trans]: "leads S P Q \<Longrightarrow> leads S Q R \<Longrightarrow> leads S P R"
  unfolding leads_def using runs_trans by metis

lemma with_locals_ticked: "with_locals S L w \<Longrightarrow> ticked w w' \<Longrightarrow> with_locals S L w'"
proof -
  assume "with_locals S L w" and "ticked w w'"
  then obtain t u where "length L = 8" "w' = w\<lparr>mem_clock := t\<rparr>"
      "w = put_invocation ((s_world S)\<lparr>mem_clock := u\<rparr>) (s_key S) ((s_iv S)\<lparr>iv_local := map local_var L\<rparr>)"
    by (auto simp: with_locals_def ticked_def)
  then have "length L = 8"
      "w' = put_invocation ((s_world S)\<lparr>mem_clock := t\<rparr>) (s_key S) ((s_iv S)\<lparr>iv_local := map local_var L\<rparr>)"
    by (simp_all add: put_invocation_def)
  then show ?thesis unfolding with_locals_def by blast
qed

lemma with_locals_mem: "setting_ok S \<Longrightarrow> with_locals S L w \<Longrightarrow> mem_left w"
  by (auto simp: with_locals_def put_invocation_def setting_ok_def mem_left_def)

lemma with_locals_invocation:
  assumes "setting_ok S" and "with_locals S L w"
  shows "invocation w (s_key S) = Ok ((s_iv S)\<lparr>iv_local := map local_var L\<rparr>)"
  using assms by (auto simp: with_locals_def setting_ok_def invocation_put)

lemma with_locals_load:
  assumes "setting_ok S" and "with_locals S L w" and "i < length L"
  shows "load_local w (s_key S) i = Ok (local_var (L ! i))"
  using with_locals_invocation [OF assms(1,2)] assms(3) by (simp add: load_local_def)

lemma finalize_local: "lai_var_finalize w (local_var x) = Ok w"
  by (cases x) (simp_all add: local_var_def finalize_int lai_var_finalize_var0)

lemma assign_over_local: "lai_var_assign w (local_var x) (int_var v) = Ok (w, int_var v)"
proof -
  have "var_ref w (int_var v) = Ok w" by (simp add: var_ref_def int_var_def counted_head_def)
  then show ?thesis by (simp add: lai_var_assign_eq finalize_local)
qed

lemma with_locals_assign:
  assumes "setting_ok S" and "with_locals S L w" and "i < length L"
  shows "\<exists>w'. assign_local w (s_key S) i (int_var v) = Ok w' \<and> with_locals S (L[i := Some v]) w'"
proof -
  let ?iv = "(s_iv S)\<lparr>iv_local := map local_var (L[i := Some v])\<rparr>"
  have "assign_local w (s_key S) i (int_var v) = Ok (put_invocation w (s_key S) ?iv)"
    using with_locals_invocation [OF assms(1,2)] assms(3)
    by (simp add: assign_local_def with_locals_load [OF assms] assign_over_local map_update)
       (simp add: local_var_def)
  moreover have "with_locals S (L[i := Some v]) (put_invocation w (s_key S) ?iv)"
    using assms(2,3) unfolding with_locals_def by (auto simp: put_invocation_def)
  ultimately show ?thesis by blast
qed

subsection \<open>One round of the loop\<close>

text \<open>The block at \<open>pc\<close>; the item \<open>it\<close> with \<open>n\<close> operands on the stack asks the parser for another.\<close>

definition blk :: "nat \<Rightarrow> nat \<Rightarrow> lai_blkitem" where
  "blk pc limit = \<lparr>bi_pc = int pc, bi_limit = int limit\<rparr>"

lemma blk_simps [simp]: "bi_pc (blk pc limit) = int pc" "bi_limit (blk pc limit) = int limit"
    "blk pc limit\<lparr>bi_pc := int pc'\<rparr> = blk pc' limit"
  by (simp_all add: blk_def)

definition asks :: "'d setting \<Rightarrow> lai_stackitem \<Rightarrow> nat \<Rightarrow> nat \<Rightarrow> nat \<Rightarrow> nat \<Rightarrow> bool" where
  "asks S it n pc limit mode \<longleftrightarrow> pc < limit \<and> mode < length lai_mode_flags \<and>
     (\<forall>p q w st. opstack_ptr st = int n \<longrightarrow>
        process_item (s_env S) (s_ctx S) p (blk pc limit) it q w st = lai_exec_parse (s_env S) mode w st)"

lemma leads_process:
  assumes "setting_ok S" and "pc \<le> limit"
    and "\<And>w st. view st (s_cs S @ [s_ctx S]) (bs @ [blk pc limit]) (is @ [it]) os \<Longrightarrow> with_locals S L w \<Longrightarrow>
      \<exists>w' st'. process_item (s_env S) (s_ctx S) (int (length bs)) (blk pc limit) it (int (length is)) w st =
        Ok (LAI_ERROR_NONE, w', st') \<and> Q (w', st')"
  shows "leads S (conf S (bs @ [blk pc limit]) (is @ [it]) os L) Q"
  unfolding leads_def
proof (intro allI impI)
  fix c assume a: "conf S (bs @ [blk pc limit]) (is @ [it]) os L c"
  obtain w st where c: "c = (w, st)" by (cases c)
  from a c have v: "view st (s_cs S @ [s_ctx S]) (bs @ [blk pc limit]) (is @ [it]) os" "with_locals S L w"
    by (simp_all add: conf_def)
  from assms(3) [OF this] obtain w' st' where
    p: "process_item (s_env S) (s_ctx S) (int (length bs)) (blk pc limit) it (int (length is)) w st =
      Ok (LAI_ERROR_NONE, w', st')" and q: "Q (w', st')"
    by blast
  have "runs (s_env S) (w, st) (w', st')"
    by (rule runs_process [OF v(1) _ _ p]) (use assms(1,2) in \<open>simp_all add: setting_ok_def\<close>)
  with q c show "\<exists>c'. runs (s_env S) c c' \<and> Q c'" by blast
qed

definition px :: "'d setting \<Rightarrow> nat \<Rightarrow> nat \<Rightarrow> nat \<Rightarrow> parser" where
  "px S mode pc limit = \<lparr>px_mode = mode, px_amls = ci_amls (s_ctx S), px_code = ci_code (s_ctx S),
     px_handle = ci_handle (s_ctx S), px_invocation = ci_invocation (s_ctx S), px_opcode_pc = pc, px_limit = limit\<rparr>"

text \<open>The code at \<open>pc\<close>.\<close>

definition at_code :: "'d setting \<Rightarrow> nat \<Rightarrow> u8 list \<Rightarrow> bool" where
  "at_code S pc bs \<longleftrightarrow> (\<exists>pre post. ci_code (s_ctx S) = pre @ bs @ post \<and> length pre = pc)"

lemma at_code_Cons: "at_code S pc (b # bs) \<Longrightarrow> rd (ci_code (s_ctx S)) pc = Ok b \<and> at_code S (Suc pc) bs"
proof -
  assume "at_code S pc (b # bs)"
  then obtain pre post where c: "ci_code (s_ctx S) = pre @ (b # bs) @ post" "length pre = pc"
    by (auto simp: at_code_def)
  from c have "ci_code (s_ctx S) = (pre @ [b]) @ bs @ post" by simp
  then have "at_code S (Suc pc) bs" unfolding at_code_def using c(2) by (metis length_append_singleton)
  moreover have "rd (ci_code (s_ctx S)) pc = Ok b" using c by (simp add: rd_def nth_append)
  ultimately show ?thesis by blast
qed

lemma at_code_append: "at_code S pc (as @ bs) \<Longrightarrow> at_code S pc as \<and> at_code S (pc + length as) bs"
proof -
  assume "at_code S pc (as @ bs)"
  then obtain pre post where c: "ci_code (s_ctx S) = pre @ (as @ bs) @ post" "length pre = pc"
    by (auto simp: at_code_def)
  from c have "ci_code (s_ctx S) = pre @ as @ (bs @ post)" "ci_code (s_ctx S) = (pre @ as) @ bs @ post" by simp_all
  with c show ?thesis unfolding at_code_def by (metis length_append)
qed

lemma leads_parse:
  assumes "setting_ok S" and "asks S it (length os) pc limit mode"
    and "at_code S pc [b]" and "\<not> lai_is_name b" and "unat b \<noteq> EXTOP_PREFIX"
    and "mode \<notin> {LAI_IMMEDIATE_BYTE_MODE, LAI_IMMEDIATE_WORD_MODE, LAI_IMMEDIATE_DWORD_MODE}"
    and Q: "\<And>w st. view st (s_cs S @ [s_ctx S]) (bs @ [blk pc limit]) (is @ [it]) os \<Longrightarrow> with_locals S L w \<Longrightarrow>
      \<exists>w' st'. parse_opcode (s_env S) (px S mode pc limit) (unat b) w st (Suc pc) = Ok (LAI_ERROR_NONE, w', st') \<and>
        Q (w', st')"
  shows "leads S (conf S (bs @ [blk pc limit]) (is @ [it]) os L) Q"
proof (rule leads_process [OF assms(1)])
  have pc: "pc < limit" "mode < length lai_mode_flags" using assms(2) by (simp_all add: asks_def)
  then show "pc \<le> limit" by simp
  fix w st
  assume v: "view st (s_cs S @ [s_ctx S]) (bs @ [blk pc limit]) (is @ [it]) os" and w: "with_locals S L w"
  have "opstack_ptr st = int (length os)" by (rule view_ptrs(4) [OF v])
  then have "process_item (s_env S) (s_ctx S) (int (length bs)) (blk pc limit) it (int (length is)) w st =
      lai_exec_parse (s_env S) mode w st"
    using assms(2) by (simp add: asks_def)
  also have "\<dots> = parse_opcode (s_env S) (px S mode pc limit) (unat b) w st (Suc pc)"
    using view_tops(1) [OF v refl] view_tops(2) [OF v refl] assms(1,4,5,6) pc at_code_Cons [OF assms(3)]
    by (simp add: lai_exec_parse_def fetch_opcode_def px_def setting_ok_def)
  finally show "\<exists>w' st'. process_item (s_env S) (s_ctx S) (int (length bs)) (blk pc limit) it (int (length is)) w st =
      Ok (LAI_ERROR_NONE, w', st') \<and> Q (w', st')"
    using Q [OF v w] by simp
qed

subsection \<open>Operands and operators\<close>

lemma commit_operand_view:
  fixes w :: "'d lai_world"
  assumes v: "view st cs (bs @ [blk pc limit]) is os" and m: "mem_left w"
  shows "\<exists>w' st'. commit_operand w st pc' x = Ok (LAI_ERROR_NONE, w', st') \<and> ticked w w' \<and>
    view st' cs (bs @ [blk pc' limit]) is (os @ [x])"
proof -
  from reserve_op_view [OF v m] obtain w1 s1 where
    1: "lai_exec_reserve_opstack w st = Ok (0, w1, s1)" "ticked w w1" "view s1 cs (bs @ [blk pc limit]) is os" "room_op s1"
    by blast
  from commit_pc_view [OF 1(3), of "int pc'"] 1(4) obtain s2 where
    2: "lai_exec_commit_pc s1 (int pc') = Ok s2" "view s2 cs (bs @ [blk pc' limit]) is os" "room_op s2"
    by auto
  from push_operand_view [OF 2(2,3), of x] 1 2 show ?thesis
    by (auto simp: commit_operand_def reserve_def)
qed

lemma commit_constant_object:
  "px_mode p = LAI_OBJECT_MODE \<Longrightarrow> commit_constant p w st pc v = commit_operand w st pc (OpObject (int_var v))"
  by (simp add: commit_constant_def commit_operand_def)

text \<open>The item of an operator.\<close>

definition op_item :: "nat \<Rightarrow> nat list \<Rightarrow> bool \<Rightarrow> nat \<Rightarrow> lai_stackitem" where
  "op_item opcode modes wants n = \<lparr>si_kind = LAI_OP_STACKITEM opcode modes wants, si_opstack_frame = int n\<rparr>"

lemma commit_item_view:
  fixes w :: "'d lai_world"
  assumes v: "view st cs (bs @ [blk pc limit]) is os" and m: "mem_left w"
  shows "\<exists>w' st'. reserve lai_exec_reserve_stack w st (\<lambda>w st.
      bnd (lai_exec_commit_pc st (int pc')) (\<lambda>st.
      bnd (push_item st kind (opstack_ptr st)) (\<lambda>st. Ok (LAI_ERROR_NONE, w, st)))) = Ok (LAI_ERROR_NONE, w', st') \<and>
    ticked w w' \<and>
    view st' cs (bs @ [blk pc' limit]) (is @ [\<lparr>si_kind = kind, si_opstack_frame = int (length os)\<rparr>]) os"
proof -
  from reserve_item_view [OF v m] obtain w1 s1 where
    1: "lai_exec_reserve_stack w st = Ok (0, w1, s1)" "ticked w w1" "view s1 cs (bs @ [blk pc limit]) is os" "room_item s1"
    by blast
  from commit_pc_view [OF 1(3), of "int pc'"] 1(4) obtain s2 where
    2: "lai_exec_commit_pc s1 (int pc') = Ok s2" "view s2 cs (bs @ [blk pc' limit]) is os" "room_item s2"
    by auto
  from push_item_view [OF 2(2,3), of kind "opstack_ptr s2"] 1 2 view_ptrs(4) [OF 2(2)] show ?thesis
    by (auto simp: reserve_def)
qed

lemma leads_operator:
  assumes S: "setting_ok S" and a: "asks S it (length os) pc limit mode" and c: "at_code S pc [of_nat opcode]"
    and o: "op_modes opcode = Some modes" "opcode < 256" "\<not> lai_is_name (of_nat opcode)" "opcode \<noteq> EXTOP_PREFIX"
    and m: "mode \<notin> {LAI_IMMEDIATE_BYTE_MODE, LAI_IMMEDIATE_WORD_MODE, LAI_IMMEDIATE_DWORD_MODE}"
  shows "leads S (conf S (bs @ [blk pc limit]) (is @ [it]) os L)
    (conf S (bs @ [blk (Suc pc) limit])
      ((is @ [it]) @ [op_item opcode modes ((lai_mode_flags ! mode) AND LAI_MF_RESULT \<noteq> 0) (length os)]) os L)"
proof (rule leads_parse [OF S a c o(3) _ m])
  show "unat (of_nat opcode :: u8) \<noteq> EXTOP_PREFIX" using o(2,4) by (simp add: unat_byte)
  fix w st
  assume v: "view st (s_cs S @ [s_ctx S]) (bs @ [blk pc limit]) (is @ [it]) os" and w: "with_locals S L w"
  let ?wants = "(lai_mode_flags ! mode) AND LAI_MF_RESULT \<noteq> 0"
  have "mode < length lai_mode_flags" using a by (simp add: asks_def)
  then have wants: "want_result (px S mode pc limit) = ?wants"
    by (simp add: want_result_def mode_flag_def px_def)
  from commit_item_view [OF v with_locals_mem [OF S w], of "Suc pc" "LAI_OP_STACKITEM opcode modes ?wants"]
  obtain w' st' where "parse_operator (px S mode pc limit) opcode modes w st (Suc pc) = Ok (LAI_ERROR_NONE, w', st')"
      "ticked w w'" "view st' (s_cs S @ [s_ctx S]) (bs @ [blk (Suc pc) limit])
        ((is @ [it]) @ [op_item opcode modes ?wants (length os)]) os"
    unfolding parse_operator_def wants op_item_def by blast
  then show "\<exists>w' st'. parse_opcode (s_env S) (px S mode pc limit) (unat (of_nat opcode :: u8)) w st (Suc pc) =
      Ok (LAI_ERROR_NONE, w', st') \<and>
      conf S (bs @ [blk (Suc pc) limit]) ((is @ [it]) @ [op_item opcode modes ?wants (length os)]) os L (w', st')"
    using o(1,2) with_locals_ticked [OF w] by (simp add: parse_opcode_def unat_byte conf_def)
qed

text \<open>An operator asks for the operand its list of modes names next.\<close>

lemma op_item_asks:
  assumes "pc < limit" and "k < length modes" and "modes ! k \<noteq> 0" and "modes ! k < length lai_mode_flags"
  shows "asks S (op_item opcode modes wants n) (n + k) pc limit (modes ! k)"
  using assms by (simp add: asks_def process_item_def op_item_def process_op_def operand_count_def rd_def Let_def)

lemma operands_from_view:
  "stk base cap n (os @ xs @ ys) \<Longrightarrow> operands_from base (int (length os)) (length xs) = Ok xs"
proof (induction xs arbitrary: os)
  case (Cons x xs)
  have "slot base (int (length os)) = Ok x" using stk_slot [OF Cons.prems, of "length os"] by simp
  moreover have "operands_from base (int (length (os @ [x]))) (length xs) = Ok xs"
    using Cons.IH [of "os @ [x]"] Cons.prems by simp
  ultimately show ?case by (simp add: algebra_simps)
qed simp

lemma frame_operands_view:
  assumes "view st cs bs is (os @ xs)" and "xs \<noteq> []" and "si_opstack_frame it = int (length os)"
  shows "frame_operands st it (length xs) = Ok xs"
proof -
  have "stk (opstack_base st) (opstack_capacity st) (opstack_ptr st) (os @ xs @ [])"
    using assms(1) by (simp add: view_def)
  from operands_from_view [OF this] show ?thesis
    using view_ptrs(4) [OF assms(1)] assms(2,3)
    by (simp add: frame_operands_def lai_exec_get_opstack_def ensure_def)
qed

text \<open>The last operand is there: the operator is carried out.\<close>

lemma leads_reduce:
  assumes S: "setting_ok S" and pc: "pc \<le> limit"
    and m: "length xs < length modes" "modes ! length xs = 0"
    and xs: "xs \<noteq> []" "\<forall>x \<in> set xs. plain x"
    and red: "\<And>w st. with_locals S L w \<Longrightarrow> current_invocation st = Ok (s_key S) \<Longrightarrow>
      \<exists>w' r. lai_exec_reduce_op (s_env S) w st opcode xs var0 = Ok (LAI_ERROR_NONE, w', int_var r) \<and>
        with_locals S L' w' \<and> (wants \<longrightarrow> r = v)"
  shows "leads S (conf S (bs @ [blk pc limit]) (is @ [op_item opcode modes wants (length os)]) (os @ xs) L)
    (conf S (bs @ [blk pc limit]) is (os @ (if wants then [OpObject (int_var v)] else [])) L')"
proof (rule leads_process [OF S pc])
  let ?it = "op_item opcode modes wants (length os)"
  fix w st
  assume v: "view st (s_cs S @ [s_ctx S]) (bs @ [blk pc limit]) (is @ [?it]) (os @ xs)" and w: "with_locals S L w"
  from reserve_op_view [OF v with_locals_mem [OF S w]] obtain w1 s1 where
    1: "lai_exec_reserve_opstack w st = Ok (0, w1, s1)" "ticked w w1"
      "view s1 (s_cs S @ [s_ctx S]) (bs @ [blk pc limit]) (is @ [?it]) (os @ xs)" "room_op s1"
    by blast
  have ops: "frame_operands s1 ?it (length xs) = Ok xs"
    by (rule frame_operands_view [OF 1(3) xs(1)]) (simp add: op_item_def)
  have "current_invocation s1 = Ok (s_key S)"
    by (rule view_current_invocation [OF 1(3)]) (use S in \<open>simp add: setting_ok_def\<close>)
  from red [OF with_locals_ticked [OF w 1(2)] this] obtain w2 r where
    2: "lai_exec_reduce_op (s_env S) w1 s1 opcode xs var0 = Ok (LAI_ERROR_NONE, w2, int_var r)"
      "with_locals S L' w2" "wants \<longrightarrow> r = v"
    by blast
  from pop_ops_view [OF 1(3) xs(2,1), of w2] obtain s3 where
    3: "lai_exec_pop_opstack w2 s1 (length xs) = Ok (w2, s3)"
      "view s3 (s_cs S @ [s_ctx S]) (bs @ [blk pc limit]) (is @ [?it]) os" "room_op s3"
    by blast
  let ?ys = "if wants then [OpObject (int_var v)] else []"
  have "\<exists>s4. (if wants then bnd (push_operand s3 (OpObject (int_var r))) (\<lambda>st. Ok (w2, st))
       else bnd (lai_var_finalize w2 (int_var r)) (\<lambda>w. Ok (w, s3))) = Ok (w2, s4) \<and>
      view s4 (s_cs S @ [s_ctx S]) (bs @ [blk pc limit]) (is @ [?it]) (os @ ?ys)"
    using push_operand_view [OF 3(2,3), of "OpObject (int_var r)"] 2(3) 3(2)
    by (cases wants) (auto simp: finalize_int)
  then obtain s4 where
    4: "(if wants then bnd (push_operand s3 (OpObject (int_var r))) (\<lambda>st. Ok (w2, st))
       else bnd (lai_var_finalize w2 (int_var r)) (\<lambda>w. Ok (w, s3))) = Ok (w2, s4)"
      "view s4 (s_cs S @ [s_ctx S]) (bs @ [blk pc limit]) (is @ [?it]) (os @ ?ys)"
    by blast
  from pop_item_view [OF 4(2)] obtain s5 where
    5: "lai_exec_pop_stack_back s4 = Ok s5" "view s5 (s_cs S @ [s_ctx S]) (bs @ [blk pc limit]) is (os @ ?ys)"
    by blast
  have k: "opstack_ptr st - int (length os) = int (length xs)" using view_ptrs(4) [OF v] by simp
  have "process_item (s_env S) (s_ctx S) (int (length bs)) (blk pc limit) ?it (int (length is)) w st =
      Ok (LAI_ERROR_NONE, w2, s5)"
    using m 1(1) ops 2(1) 3(1) 4(1) 5(1) k
    by (simp add: process_item_def process_op_def operand_count_def reserve_def op_item_def)
  with 5(2) 2(2) show "\<exists>w' st'. process_item (s_env S) (s_ctx S) (int (length bs)) (blk pc limit) ?it
      (int (length is)) w st = Ok (LAI_ERROR_NONE, w', st') \<and>
      conf S (bs @ [blk pc limit]) is (os @ ?ys) L' (w', st')"
    by (auto simp: conf_def)
qed

subsection \<open>Constants and locals\<close>

text \<open>A word is put together again from its bytes.\<close>

lemma bytes_u16: "(ucast (ucast v :: u8) OR push_bit 8 (ucast (ucast (drop_bit 8 v) :: u8)) :: u16) = ucast (v :: u64)"
proof (rule bit_word_eqI)
  fix n assume "n < LENGTH(16)"
  then have n: "n < 16" by simp
  show "bit (ucast (ucast v :: u8) OR push_bit 8 (ucast (ucast (drop_bit 8 v) :: u8)) :: u16) n = bit (ucast v :: u16) n"
    using n by (cases "n < 8") (auto simp: bit_simps)
qed
lemma bytes_u32: "(ucast (ucast v :: u8) OR push_bit 8 (ucast (ucast (drop_bit 8 v) :: u8))
   OR push_bit 16 (ucast (ucast (drop_bit 16 v) :: u8)) OR push_bit 24 (ucast (ucast (drop_bit 24 v) :: u8)) :: u32) = ucast (v :: u64)"
proof (rule bit_word_eqI)
  fix n assume "n < LENGTH(32)"
  then have n: "n < 32" by simp
  consider "n < 8" | "8 \<le> n" "n < 16" | "16 \<le> n" "n < 24" | "24 \<le> n" by linarith
  then show "bit (ucast (ucast v :: u8) OR push_bit 8 (ucast (ucast (drop_bit 8 v) :: u8)) OR push_bit 16 (ucast (ucast (drop_bit 16 v) :: u8)) OR push_bit 24 (ucast (ucast (drop_bit 24 v) :: u8)) :: u32) n = bit (ucast v :: u32) n"
    using n by cases (auto simp: bit_simps)
qed
lemma bytes_u64: "(ucast (ucast v :: u8) OR push_bit 8 (ucast (ucast (drop_bit 8 v) :: u8))
   OR push_bit 16 (ucast (ucast (drop_bit 16 v) :: u8)) OR push_bit 24 (ucast (ucast (drop_bit 24 v) :: u8))
   OR push_bit 32 (ucast (ucast (drop_bit 32 v) :: u8)) OR push_bit 40 (ucast (ucast (drop_bit 40 v) :: u8))
   OR push_bit 48 (ucast (ucast (drop_bit 48 v) :: u8)) OR push_bit 56 (ucast (ucast (drop_bit 56 v) :: u8))) = (v :: u64)"
  (is "?l = _")
proof (rule bit_word_eqI)
  fix n assume "n < LENGTH(64)"
  then have n: "n < 64" by simp
  consider "n < 8" | "8 \<le> n" "n < 16" | "16 \<le> n" "n < 24" | "24 \<le> n" "n < 32" | "32 \<le> n" "n < 40" | "40 \<le> n" "n < 48"
    | "48 \<le> n" "n < 56" | "56 \<le> n" by linarith
  then show "bit ?l n = bit v n"
    using n by cases (auto simp: bit_simps)
qed
lemma small_cast:
  assumes "unat v < 2 ^ n" and "n \<le> LENGTH('a)"
  shows "ucast (ucast (v :: u64) :: 'a::len word) = v"
proof (rule bit_word_eqI)
  fix i assume i: "i < LENGTH(64)"
  have t: "take_bit n v = v"
    using assms(1) by (simp add: word_unat_eq_iff unsigned_take_bit_eq take_bit_nat_eq_self)
  have "bit v i \<Longrightarrow> i < n" using t by (metis bit_take_bit_iff)
  then show "bit (ucast (ucast v :: 'a word) :: u64) i = bit v i"
    using i assms(2) by (auto simp: bit_simps)
qed

lemma at_code_nth: "at_code S pc bs \<Longrightarrow> i < length bs \<Longrightarrow> rd (ci_code (s_ctx S)) (pc + i) = Ok (bs ! i)"
  by (auto simp: at_code_def rd_def nth_append)

lemma le_bytes_length [simp]: "length (le_bytes n v) = n"
  by (simp add: le_bytes_def)

lemma le_bytes_nth: "i < n \<Longrightarrow> le_bytes n v ! i = ucast (drop_bit (8 * i) v)"
  by (simp add: le_bytes_def)

lemma read_bytes:
  assumes "at_code S pc (le_bytes n v)"
  shows "i < n \<Longrightarrow> rd (ci_code (s_ctx S)) (pc + i) = Ok (ucast (drop_bit (8 * i) v))"
  using at_code_nth [OF assms, of i] by (simp add: le_bytes_nth)

lemma parse_le_bytes:
  shows "at_code S pc (le_bytes 1 v) \<Longrightarrow> pc + 1 \<le> limit \<Longrightarrow>
      lai_parse_u8 (ci_code (s_ctx S)) pc limit = Ok (Some (ucast v, pc + 1))"
    and "at_code S pc (le_bytes 2 v) \<Longrightarrow> pc + 2 \<le> limit \<Longrightarrow>
      lai_parse_u16 (ci_code (s_ctx S)) pc limit = Ok (Some (ucast v, pc + 2))"
    and "at_code S pc (le_bytes 4 v) \<Longrightarrow> pc + 4 \<le> limit \<Longrightarrow>
      lai_parse_u32 (ci_code (s_ctx S)) pc limit = Ok (Some (ucast v, pc + 4))"
    and "at_code S pc (le_bytes 8 v) \<Longrightarrow> pc + 8 \<le> limit \<Longrightarrow>
      lai_parse_u64 (ci_code (s_ctx S)) pc limit = Ok (Some (v, pc + 8))"
proof -
  let ?c = "ci_code (s_ctx S)"
  show "lai_parse_u8 ?c pc limit = Ok (Some (ucast v, pc + 1))" if "at_code S pc (le_bytes 1 v)" "pc + 1 \<le> limit"
    using read_bytes [OF that(1), of 0] that(2) by (simp add: lai_parse_u8_def)
  show "lai_parse_u16 ?c pc limit = Ok (Some (ucast v, pc + 2))" if "at_code S pc (le_bytes 2 v)" "pc + 2 \<le> limit"
    using read_bytes [OF that(1), of 0] read_bytes [OF that(1), of 1] that(2)
    by (simp add: lai_parse_u16_def bytes_u16)
  show "lai_parse_u32 ?c pc limit = Ok (Some (ucast v, pc + 4))" if "at_code S pc (le_bytes 4 v)" "pc + 4 \<le> limit"
    using read_bytes [OF that(1), of 0] read_bytes [OF that(1), of 1] read_bytes [OF that(1), of 2]
      read_bytes [OF that(1), of 3] that(2)
    by (simp add: lai_parse_u32_def bytes_u32)
  show "lai_parse_u64 ?c pc limit = Ok (Some (v, pc + 8))" if "at_code S pc (le_bytes 8 v)" "pc + 8 \<le> limit"
    using read_bytes [OF that(1), of 0] read_bytes [OF that(1), of 1] read_bytes [OF that(1), of 2]
      read_bytes [OF that(1), of 3] read_bytes [OF that(1), of 4] read_bytes [OF that(1), of 5]
      read_bytes [OF that(1), of 6] read_bytes [OF that(1), of 7] that(2)
    by (simp add: lai_parse_u64_def bytes_u64)
qed

lemma at_code_head: "at_code S pc (b # bs) \<Longrightarrow> at_code S pc [b]"
  using at_code_append [of S pc "[b]" bs] by simp

text \<open>An opcode that pushes one operand.\<close>

lemma leads_operand:
  assumes S: "setting_ok S" and a: "asks S it (length os) pc limit mode" and c: "at_code S pc [b]"
    and b: "\<not> lai_is_name b" "unat b \<noteq> EXTOP_PREFIX"
    and m: "mode \<notin> {LAI_IMMEDIATE_BYTE_MODE, LAI_IMMEDIATE_WORD_MODE, LAI_IMMEDIATE_DWORD_MODE}"
    and p: "\<And>w st. with_locals S L w \<Longrightarrow> parse_opcode (s_env S) (px S mode pc limit) (unat b) w st (Suc pc) =
      commit_operand w st pc' x"
  shows "leads S (conf S (bs @ [blk pc limit]) (is @ [it]) os L)
    (conf S (bs @ [blk pc' limit]) (is @ [it]) (os @ [x]) L)"
proof (rule leads_parse [OF S a c b m])
  fix w st
  assume v: "view st (s_cs S @ [s_ctx S]) (bs @ [blk pc limit]) (is @ [it]) os" and w: "with_locals S L w"
  from commit_operand_view [OF v with_locals_mem [OF S w], of pc' x] p [OF w] with_locals_ticked [OF w]
  show "\<exists>w' st'. parse_opcode (s_env S) (px S mode pc limit) (unat b) w st (Suc pc) = Ok (LAI_ERROR_NONE, w', st') \<and>
      conf S (bs @ [blk pc' limit]) (is @ [it]) (os @ [x]) L (w', st')"
    by (fastforce simp: conf_def)
qed

lemmas mode_defs = LAI_DATA_MODE_def LAI_OBJECT_MODE_def LAI_EXEC_MODE_def LAI_UNRESOLVED_MODE_def
  LAI_REFERENCE_MODE_def LAI_OPTIONAL_REFERENCE_MODE_def LAI_IMMEDIATE_BYTE_MODE_def
  LAI_IMMEDIATE_WORD_MODE_def LAI_IMMEDIATE_DWORD_MODE_def

lemmas modes_of_defs = op_modes_def convert_modes_def arith_modes_def object_modes_def system_modes_def

text \<open>The cases of the \<open>switch\<close> that the encodings of expressions use.\<close>

lemma parse_opcode_data:
  "parse_opcode env p ZERO_OP w st pc = parse_zero p w st pc"
  "parse_opcode env p ONE_OP w st pc = parse_one p w st pc"
  "parse_opcode env p ONES_OP w st pc = parse_ones p w st pc"
  "parse_opcode env p BYTEPREFIX w st pc = parse_prefixed p BYTEPREFIX w st pc"
  "parse_opcode env p WORDPREFIX w st pc = parse_prefixed p WORDPREFIX w st pc"
  "parse_opcode env p DWORDPREFIX w st pc = parse_prefixed p DWORDPREFIX w st pc"
  "parse_opcode env p QWORDPREFIX w st pc = parse_prefixed p QWORDPREFIX w st pc"
  by (simp_all add: parse_opcode_def modes_of_defs parse_data_op_def opcode_defs)

lemma parse_opcode_local:
  "i < 8 \<Longrightarrow> parse_opcode env p (LOCAL0_OP + i) w st pc = parse_local p w st pc i"
  by (simp add: parse_opcode_def modes_of_defs parse_data_op_def opcode_defs)

text \<open>None of the opcodes of an encoding starts a name or is the prefix of two-byte opcodes.\<close>

definition simple_opcode :: "nat \<Rightarrow> bool" where
  "simple_opcode n \<longleftrightarrow> n < 256 \<and> n \<noteq> EXTOP_PREFIX \<and> \<not> lai_is_name (of_nat n)"

lemma simple_opcodes:
  "simple_opcode ZERO_OP" "simple_opcode ONE_OP" "simple_opcode ONES_OP" "simple_opcode BYTEPREFIX"
  "simple_opcode WORDPREFIX" "simple_opcode DWORDPREFIX" "simple_opcode QWORDPREFIX" "simple_opcode LNOT_OP"
  "simple_opcode STORE_OP" "simple_opcode IF_OP" "simple_opcode WHILE_OP" "simple_opcode BREAK_OP"
  "simple_opcode CONTINUE_OP" "simple_opcode RETURN_OP" "simple_opcode ELSE_OP"
  by (simp_all add: simple_opcode_def opcode_defs lai_is_name_def word_le_nat_alt)

lemma simple_arith: "simple_opcode (arith_opcode f)"
  by (cases f) (simp_all add: simple_opcode_def opcode_defs lai_is_name_def word_le_nat_alt)

lemma simple_test: "simple_opcode (test_opcode t)"
  by (cases t) (simp_all add: simple_opcode_def opcode_defs lai_is_name_def word_le_nat_alt)

lemma less_8_cases: "i < (8::nat) \<Longrightarrow> i = 0 \<or> i = 1 \<or> i = 2 \<or> i = 3 \<or> i = 4 \<or> i = 5 \<or> i = 6 \<or> i = 7"
  by linarith

lemma simple_local: "i < 8 \<Longrightarrow> simple_opcode (LOCAL0_OP + i)"
  by (drule less_8_cases, elim disjE) (simp_all add: simple_opcode_def opcode_defs lai_is_name_def word_le_nat_alt)

lemma simple_opcodeD:
  assumes "simple_opcode n"
  shows "unat (of_nat n :: u8) = n" "\<not> lai_is_name (of_nat n)" "n \<noteq> EXTOP_PREFIX" "n < 256"
  using assms by (simp_all add: simple_opcode_def unat_byte)

end
