(* ===== verification/Lai_Expr.thy ===== *)
theory Lai_Expr
  imports Lai_Steps
begin

text \<open>
  The interpreter computes the values of the expressions of \<open>Lai_Program\<close>: every operand of an
  expression ends up on the operand stack, with the program counter behind its encoding.
\<close>

subsection \<open>Operators on integers\<close>

lemma reduce_op_integer:
  assumes "reduce_op_integers env w st opcode ops = Some (Ok (LAI_ERROR_NONE, w', int_var v))"
  shows "lai_exec_reduce_op env w st opcode ops var0 = Ok (LAI_ERROR_NONE, w', int_var v)"
  using assms by (simp add: lai_exec_reduce_op_def lai_var_move_var0)

lemmas reduce_int_defs = reduce_add_def reduce_subtract_def reduce_multiply_def reduce_and_def reduce_or_def
  reduce_xor_def reduce_nand_def reduce_nor_def reduce_mod_def reduce_shl_def reduce_shr_def
  reduce_lnot_def reduce_land_def reduce_lor_def reduce_lequal_def reduce_lless_def reduce_lgreater_def

lemma reduce_arith:
  assumes "arith_value f x y = Some v"
  shows "lai_exec_reduce_op env w st (arith_opcode f) [OpObject (int_var x), OpObject (int_var y), OpNull] var0 =
    Ok (LAI_ERROR_NONE, w, int_var v)"
  by (rule reduce_op_integer, use assms in \<open>cases f\<close>)
    (auto simp: reduce_op_integers_def opcode_defs reduce_int_defs reduce_binary_def try_integer_def rd_def
      mutate_result_def null_target guard_def split: if_splits)

lemma v_type_int [simp]: "v_type (int_var v) = LAI_INTEGER"
  by (simp add: int_var_def)

lemma var_ref_int [simp]: "var_ref w (int_var v) = Ok w"
  by (simp add: var_ref_def int_var_def counted_head_def)

lemma clone_int: "lai_obj_clone w var0 (int_var v) = Ok (w, int_var v)"
  by (simp add: lai_obj_clone_def lai_swap_object_def lai_var_finalize_var0)

lemma match_ints:
  "match_integers op x y = Some r \<Longrightarrow>
    lai_obj_exec_match_op cmp op hp (int_var x) (int_var y) = Ok (LAI_ERROR_NONE, hp, Some r)"
  by (simp add: lai_obj_exec_match_op_def match_result_def lai_obj_to_integer_def clone_int finalize_int)

lemma reduce_test:
  "lai_exec_reduce_op env w st (test_opcode t) [OpObject (int_var x), OpObject (int_var y)] var0 =
    Ok (LAI_ERROR_NONE, w, int_var (test_value t x y))"
  by (rule reduce_op_integer, cases t)
    (simp_all add: reduce_op_integers_def opcode_defs reduce_int_defs try_integer_def rd_def reduce_compare_def
      get_objectref_def get_objectref_int match_ints finalize_int)

lemma reduce_lnot_int:
  "lai_exec_reduce_op env w st LNOT_OP [OpObject (int_var x)] var0 =
    Ok (LAI_ERROR_NONE, w, int_var (if x = 0 then 1 else 0))"
  by (rule reduce_op_integer)
    (simp add: reduce_op_integers_def opcode_defs reduce_int_defs try_integer_def rd_def)

lemma reduce_store_int:
  assumes "current_invocation st = Ok k" and "assign_local w k i (int_var v) = Ok w'"
  shows "lai_exec_reduce_op env w st STORE_OP [OpObject (int_var v), OpLocal i] var0 = Ok (LAI_ERROR_NONE, w', int_var v)"
proof -
  have "reduce_store env w st [OpObject (int_var v), OpLocal i] = Ok (LAI_ERROR_NONE, w', int_var v)"
    using assms by (simp add: reduce_store_def get_objectref_def rd_def get_objectref_int clone_int finalize_int
        lai_operand_mutate_def)
  then show ?thesis
    by (simp add: lai_exec_reduce_op_def reduce_op_integers_def reduce_op_objects_def opcode_defs lai_var_move_var0)
qed

subsection \<open>Constants and locals as operands\<close>

lemma leads_opcode_operand:
  assumes S: "setting_ok S" and a: "asks S it (length os) pc limit mode" and c: "at_code S pc (of_nat n # cs)"
    and n: "simple_opcode n"
    and m: "mode \<notin> {LAI_IMMEDIATE_BYTE_MODE, LAI_IMMEDIATE_WORD_MODE, LAI_IMMEDIATE_DWORD_MODE}"
    and p: "\<And>w st. with_locals S L w \<Longrightarrow>
      parse_opcode (s_env S) (px S mode pc limit) n w st (Suc pc) = commit_operand w st pc' x"
  shows "leads S (conf S (bs @ [blk pc limit]) (is @ [it]) os L)
    (conf S (bs @ [blk pc' limit]) (is @ [it]) (os @ [x]) L)"
  by (rule leads_operand [OF S a at_code_head [OF c] _ _ m]) (simp_all add: simple_opcodeD [OF n] p)

lemma px_simps [simp]: "px_mode (px S mode pc limit) = mode" "px_code (px S mode pc limit) = ci_code (s_ctx S)"
    "px_limit (px S mode pc limit) = limit" "px_invocation (px S mode pc limit) = ci_invocation (s_ctx S)"
    "px_opcode_pc (px S mode pc limit) = pc" "px_handle (px S mode pc limit) = ci_handle (s_ctx S)"
    "px_amls (px S mode pc limit) = ci_amls (s_ctx S)"
  by (simp_all add: px_def)

lemma parse_prefixes:
  "parse_prefixed p BYTEPREFIX w st pc =
     parsed (lai_parse_u8 (px_code p) pc (px_limit p)) w st (\<lambda>v pc. commit_constant p w st pc (ucast v))"
  "parse_prefixed p WORDPREFIX w st pc =
     parsed (lai_parse_u16 (px_code p) pc (px_limit p)) w st (\<lambda>v pc. commit_constant p w st pc (ucast v))"
  "parse_prefixed p DWORDPREFIX w st pc =
     parsed (lai_parse_u32 (px_code p) pc (px_limit p)) w st (\<lambda>v pc. commit_constant p w st pc (ucast v))"
  "parse_prefixed p QWORDPREFIX w st pc =
     parsed (lai_parse_u64 (px_code p) pc (px_limit p)) w st (\<lambda>v pc. commit_constant p w st pc v)"
  by (simp_all add: parse_prefixed_def opcode_defs)

lemma parse_const:
  assumes c: "at_code S pc (const_bytes v)" and l: "pc + length (const_bytes v) \<le> limit"
  obtains n cs where "const_bytes v = of_nat n # cs" "simple_opcode n"
    "\<And>env w st. parse_opcode env (px S LAI_OBJECT_MODE pc limit) n w st (Suc pc) =
      commit_operand w st (pc + length (const_bytes v)) (OpObject (int_var v))"
proof -
  note ops = parse_opcode_data parse_zero_def parse_one_def parse_ones_def commit_constant_object mode_defs
  note pre = parse_opcode_data parse_prefixes commit_constant_object parsed_def
  have rest: "const_bytes v = (if unat v < 2 ^ 8 then of_nat BYTEPREFIX # le_bytes 1 v
      else if unat v < 2 ^ 16 then of_nat WORDPREFIX # le_bytes 2 v
      else if unat v < 2 ^ 32 then of_nat DWORDPREFIX # le_bytes 4 v
      else of_nat QWORDPREFIX # le_bytes 8 v)" if "v \<noteq> 0" "v \<noteq> 1" "v \<noteq> NOT 0"
    using that unfolding const_bytes_def by (simp only: if_False)
  consider "v = 0" | "v = 1" | "v = NOT 0" "v \<noteq> 0" "v \<noteq> 1"
    | "unat v < 2 ^ 8" "const_bytes v = of_nat BYTEPREFIX # le_bytes 1 v"
    | "unat v < 2 ^ 16" "const_bytes v = of_nat WORDPREFIX # le_bytes 2 v"
    | "unat v < 2 ^ 32" "const_bytes v = of_nat DWORDPREFIX # le_bytes 4 v"
    | "const_bytes v = of_nat QWORDPREFIX # le_bytes 8 v"
    using rest by metis
  then show thesis
  proof cases
    case 1
    show ?thesis by (rule that [of ZERO_OP "[]"]) (simp_all add: 1 const_bytes_def simple_opcodes ops)
  next
    case 2
    show ?thesis by (rule that [of ONE_OP "[]"]) (simp_all add: 2 const_bytes_def simple_opcodes ops)
  next
    case 3
    show ?thesis by (rule that [of ONES_OP "[]"]) (simp_all add: 3 const_bytes_def simple_opcodes ops)
  next
    case 4
    have "lai_parse_u8 (ci_code (s_ctx S)) (Suc pc) limit = Ok (Some (ucast v, Suc pc + 1))"
      by (rule parse_le_bytes) (use 4 c l in \<open>auto dest: at_code_Cons\<close>)
    moreover have "ucast (ucast v :: u8) = v" by (rule small_cast [OF 4(1)]) simp
    ultimately show ?thesis using 4 by (intro that [of BYTEPREFIX "le_bytes 1 v"]) (simp_all add: simple_opcodes pre)
  next
    case 5
    have "lai_parse_u16 (ci_code (s_ctx S)) (Suc pc) limit = Ok (Some (ucast v, Suc pc + 2))"
      by (rule parse_le_bytes) (use 5 c l in \<open>auto dest: at_code_Cons\<close>)
    moreover have "ucast (ucast v :: u16) = v" by (rule small_cast [OF 5(1)]) simp
    ultimately show ?thesis using 5 by (intro that [of WORDPREFIX "le_bytes 2 v"]) (simp_all add: simple_opcodes pre numeral_3_eq_3)
  next
    case 6
    have "lai_parse_u32 (ci_code (s_ctx S)) (Suc pc) limit = Ok (Some (ucast v, Suc pc + 4))"
      by (rule parse_le_bytes) (use 6 c l in \<open>auto dest: at_code_Cons\<close>)
    moreover have "ucast (ucast v :: u32) = v" by (rule small_cast [OF 6(1)]) simp
    ultimately show ?thesis using 6 by (intro that [of DWORDPREFIX "le_bytes 4 v"]) (simp_all add: simple_opcodes pre ac_simps)
  next
    case 7
    have "lai_parse_u64 (ci_code (s_ctx S)) (Suc pc) limit = Ok (Some (v, Suc pc + 8))"
      by (rule parse_le_bytes) (use 7 c l in \<open>auto dest: at_code_Cons\<close>)
    then show ?thesis using 7 by (intro that [of QWORDPREFIX "le_bytes 8 v"]) (simp_all add: simple_opcodes pre ac_simps)
  qed
qed

lemma object_mode: "LAI_OBJECT_MODE \<notin> {LAI_IMMEDIATE_BYTE_MODE, LAI_IMMEDIATE_WORD_MODE, LAI_IMMEDIATE_DWORD_MODE}"
    "LAI_REFERENCE_MODE \<notin> {LAI_IMMEDIATE_BYTE_MODE, LAI_IMMEDIATE_WORD_MODE, LAI_IMMEDIATE_DWORD_MODE}"
    "LAI_EXEC_MODE \<notin> {LAI_IMMEDIATE_BYTE_MODE, LAI_IMMEDIATE_WORD_MODE, LAI_IMMEDIATE_DWORD_MODE}"
  by (simp_all add: mode_defs)

lemma leads_const:
  assumes S: "setting_ok S" and a: "asks S it (length os) pc limit LAI_OBJECT_MODE"
    and c: "at_code S pc (const_bytes v)" and l: "pc + length (const_bytes v) \<le> limit"
  shows "leads S (conf S (bs @ [blk pc limit]) (is @ [it]) os L)
    (conf S (bs @ [blk (pc + length (const_bytes v)) limit]) (is @ [it]) (os @ [OpObject (int_var v)]) L)"
proof -
  obtain n cs where n: "const_bytes v = of_nat n # cs" "simple_opcode n"
    "\<And>w st. parse_opcode (s_env S) (px S LAI_OBJECT_MODE pc limit) n w st (Suc pc) =
      commit_operand w st (pc + length (const_bytes v)) (OpObject (int_var v))"
    by (rule parse_const [OF c l]) blast
  show ?thesis by (rule leads_opcode_operand [OF S a c [unfolded n(1)] n(2) object_mode(1) n(3)])
qed

lemma reserve_op_ticked:
  fixes w :: "'d lai_world"
  shows "lai_exec_reserve_opstack w st = Ok (e, w', st') \<Longrightarrow> ticked w w'"
  by (auto simp: lai_exec_reserve_opstack_def grow_slots_def laihost_malloc_def bnd_eq_Ok guard_eq_Ok
      split: if_splits)

lemma leads_local:
  assumes S: "setting_ok S" and a: "asks S it (length os) pc limit LAI_OBJECT_MODE"
    and c: "at_code S pc [of_nat (LOCAL0_OP + i)]" and i: "i < 8" "L ! i = Some v"
  shows "leads S (conf S (bs @ [blk pc limit]) (is @ [it]) os L)
    (conf S (bs @ [blk (Suc pc) limit]) (is @ [it]) (os @ [OpObject (int_var v)]) L)"
proof (rule leads_opcode_operand [OF S a c simple_local [OF i(1)] object_mode(1)])
  have k: "ci_invocation (s_ctx S) = Some (s_key S)" using S by (simp add: setting_ok_def)
  fix w st assume w: "with_locals S L w"
  have "load_local w' (s_key S) i = Ok (int_var v)" if "lai_exec_reserve_opstack w st = Ok (e, w', st')" for e w' st'
    using with_locals_load [OF S with_locals_ticked [OF w reserve_op_ticked [OF that]], of i] w i
    by (simp add: with_locals_def local_var_def)
  then have *: "bnd (lai_exec_reserve_opstack w st) f = bnd (lai_exec_reserve_opstack w st) g"
    if "\<And>e w' st'. load_local w' (s_key S) i = Ok (int_var v) \<Longrightarrow> f (e, w', st') = g (e, w', st')" for f g
    by (cases "lai_exec_reserve_opstack w st") (auto intro: that)
  show "parse_opcode (s_env S) (px S LAI_OBJECT_MODE pc limit) (LOCAL0_OP + i) w st (Suc pc) =
      commit_operand w st (Suc pc) (OpObject (int_var v))"
    unfolding parse_opcode_local [OF i(1)] parse_local_def commit_operand_def reserve_def
    by (rule *) (simp add: mode_defs k assign_int ensure_def)
qed

lemma leads_zero_target:
  assumes S: "setting_ok S" and a: "asks S it (length os) pc limit LAI_REFERENCE_MODE"
    and c: "at_code S pc [of_nat ZERO_OP]"
  shows "leads S (conf S (bs @ [blk pc limit]) (is @ [it]) os L)
    (conf S (bs @ [blk (Suc pc) limit]) (is @ [it]) (os @ [OpNull]) L)"
  by (rule leads_opcode_operand [OF S a c simple_opcodes(1) object_mode(2)])
    (simp add: parse_opcode_data parse_zero_def)

lemma leads_local_target:
  assumes S: "setting_ok S" and a: "asks S it (length os) pc limit LAI_REFERENCE_MODE"
    and c: "at_code S pc [of_nat (LOCAL0_OP + i)]" and i: "i < 8"
  shows "leads S (conf S (bs @ [blk pc limit]) (is @ [it]) os L)
    (conf S (bs @ [blk (Suc pc) limit]) (is @ [it]) (os @ [OpLocal i]) L)"
  by (rule leads_opcode_operand [OF S a c simple_local [OF i] object_mode(2)])
    (simp add: parse_opcode_local [OF i] parse_local_def commit_operand_def)

subsection \<open>Expressions\<close>

lemma op_modes_of:
  "op_modes (arith_opcode f) = Some [LAI_OBJECT_MODE, LAI_OBJECT_MODE, LAI_REFERENCE_MODE, 0]"
  "op_modes (test_opcode t) = Some [LAI_OBJECT_MODE, LAI_OBJECT_MODE, 0]"
  "op_modes LNOT_OP = Some [LAI_OBJECT_MODE, 0]"
  "op_modes STORE_OP = Some [LAI_OBJECT_MODE, LAI_REFERENCE_MODE, 0]"
  by (cases f, simp_all add: modes_of_defs opcode_defs) (cases t, simp_all add: modes_of_defs opcode_defs)

lemma aexp_bytes_nonempty [simp]: "0 < length (aexp_bytes e)"
  by (cases e) (simp_all add: const_bytes_def)

lemma mode_flags_object:
  "lai_mode_flags ! LAI_OBJECT_MODE AND LAI_MF_RESULT \<noteq> 0" "lai_mode_flags ! LAI_EXEC_MODE AND LAI_MF_RESULT = 0"
  by (simp_all add: mode_defs lai_mode_flags_def LAI_MF_RESULT_def LAI_MF_RESOLVE_def LAI_MF_INVOKE_def)

text \<open>An operator in object mode leaves an item that wants the result.\<close>

lemma leads_object_operator:
  assumes "setting_ok S" and "asks S it (length os) pc limit LAI_OBJECT_MODE" and "at_code S pc (of_nat n # cs)"
    and "op_modes n = Some modes" and n: "simple_opcode n"
  shows "leads S (conf S (bs @ [blk pc limit]) (is @ [it]) os L)
    (conf S (bs @ [blk (Suc pc) limit]) ((is @ [it]) @ [op_item n modes True (length os)]) os L)"
  using leads_operator [OF assms(1,2) at_code_head [OF assms(3)] assms(4) simple_opcodeD(4,2,3) [OF n] object_mode(1),
      of bs "is" L]
  by (simp add: mode_flags_object)

lemma op_item_asks_object:
  assumes "pc < limit" and "k < length modes" and "modes ! k = LAI_OBJECT_MODE \<or> modes ! k = LAI_REFERENCE_MODE"
  shows "asks S (op_item opcode modes wants n) (n + k) pc limit (modes ! k)"
proof -
  have "modes ! k \<noteq> 0" "modes ! k < length lai_mode_flags"
    using assms(3) by (auto simp: mode_defs lai_mode_flags_def)
  then show ?thesis by (rule op_item_asks [OF assms(1,2)])
qed

lemma leads_aexp:
  assumes S: "setting_ok S"
  shows "aval e L = Some v \<Longrightarrow> length L = 8 \<Longrightarrow> asks S it (length os) pc limit LAI_OBJECT_MODE \<Longrightarrow>
    at_code S pc (aexp_bytes e) \<Longrightarrow> pc + length (aexp_bytes e) \<le> limit \<Longrightarrow>
    leads S (conf S (bs @ [blk pc limit]) (is @ [it]) os L)
      (conf S (bs @ [blk (pc + length (aexp_bytes e)) limit]) (is @ [it]) (os @ [OpObject (int_var v)]) L)"
proof (induction e arbitrary: v pc "is" it os)
  case (Const c)
  then show ?case using leads_const [OF S, of it os pc limit c bs "is" L] by simp
next
  case (Local i)
  then show ?case using leads_local [OF S, of it os pc limit i L v bs "is"] by (simp split: if_splits)
next
  case (Arith f a b)
  let ?it = "op_item (arith_opcode f) [LAI_OBJECT_MODE, LAI_OBJECT_MODE, LAI_REFERENCE_MODE, 0] True (length os)"
  let ?p1 = "Suc pc + length (aexp_bytes a)" and ?p2 = "Suc pc + length (aexp_bytes a) + length (aexp_bytes b)"
  obtain x y where xy: "aval a L = Some x" "aval b L = Some y" "arith_value f x y = Some v"
    using Arith.prems(1) by (auto split: option.splits)
  have c: "at_code S pc (of_nat (arith_opcode f) # aexp_bytes a @ aexp_bytes b @ [of_nat ZERO_OP])"
    using Arith.prems(4) by simp
  from c have ca: "at_code S (Suc pc) (aexp_bytes a @ aexp_bytes b @ [of_nat ZERO_OP])" by (auto dest: at_code_Cons)
  note cb = at_code_append [OF conjunct2 [OF at_code_append [OF ca]]]
  have l: "Suc ?p2 \<le> limit" using Arith.prems(5) by simp
  have l1: "?p1 < limit" using l by simp
  note asks = op_item_asks_object [where modes = "[LAI_OBJECT_MODE, LAI_OBJECT_MODE, LAI_REFERENCE_MODE, 0]"]
  have "leads S (conf S (bs @ [blk pc limit]) (is @ [it]) os L)
      (conf S (bs @ [blk (Suc pc) limit]) ((is @ [it]) @ [?it]) os L)"
    by (rule leads_object_operator [OF S Arith.prems(3) c op_modes_of(1) simple_arith])
  also have "leads S \<dots> (conf S (bs @ [blk ?p1 limit]) ((is @ [it]) @ [?it]) (os @ [OpObject (int_var x)]) L)"
    by (rule Arith.IH(1) [OF xy(1) Arith.prems(2)])
      (use asks [of "Suc pc" limit 0] l at_code_append [OF ca] in simp_all)
  also have "leads S \<dots> (conf S (bs @ [blk ?p2 limit]) ((is @ [it]) @ [?it])
      ((os @ [OpObject (int_var x)]) @ [OpObject (int_var y)]) L)"
    by (rule Arith.IH(2) [OF xy(2) Arith.prems(2)]) (use asks [of ?p1 limit 1] l l1 cb in simp_all)
  also have "leads S \<dots> (conf S (bs @ [blk (Suc ?p2) limit]) ((is @ [it]) @ [?it])
      (((os @ [OpObject (int_var x)]) @ [OpObject (int_var y)]) @ [OpNull]) L)"
    by (rule leads_zero_target [OF S]) (use asks [of ?p2 limit 2] l cb in simp_all)
  also have "\<dots> = conf S (bs @ [blk (Suc ?p2) limit]) ((is @ [it]) @ [?it])
      (os @ [OpObject (int_var x), OpObject (int_var y), OpNull]) L" by simp
  also have "leads S \<dots> (conf S (bs @ [blk (Suc ?p2) limit]) (is @ [it])
      (os @ (if True then [OpObject (int_var v)] else [])) L)"
    by (rule leads_reduce [OF S l]) (use reduce_arith [OF xy(3)] in auto)
  finally show ?case by (simp add: add.assoc)
next
  case (Test t a b)
  let ?it = "op_item (test_opcode t) [LAI_OBJECT_MODE, LAI_OBJECT_MODE, 0] True (length os)"
  let ?p1 = "Suc pc + length (aexp_bytes a)" and ?p2 = "Suc pc + length (aexp_bytes a) + length (aexp_bytes b)"
  obtain x y where xy: "aval a L = Some x" "aval b L = Some y" "v = test_value t x y"
    using Test.prems(1) by (auto split: option.splits)
  have c: "at_code S pc (of_nat (test_opcode t) # aexp_bytes a @ aexp_bytes b)"
    using Test.prems(4) by simp
  from c have ca: "at_code S (Suc pc) (aexp_bytes a @ aexp_bytes b)" by (auto dest: at_code_Cons)
  note cb = conjunct2 [OF at_code_append [OF ca]]
  have l: "?p2 \<le> limit" using Test.prems(5) by simp
  have b: "?p1 < limit" using l aexp_bytes_nonempty [of b] by linarith
  note asks = op_item_asks_object [where modes = "[LAI_OBJECT_MODE, LAI_OBJECT_MODE, 0]"]
  have "leads S (conf S (bs @ [blk pc limit]) (is @ [it]) os L)
      (conf S (bs @ [blk (Suc pc) limit]) ((is @ [it]) @ [?it]) os L)"
    by (rule leads_object_operator [OF S Test.prems(3) c op_modes_of(2) simple_test])
  also have "leads S \<dots> (conf S (bs @ [blk ?p1 limit]) ((is @ [it]) @ [?it]) (os @ [OpObject (int_var x)]) L)"
    by (rule Test.IH(1) [OF xy(1) Test.prems(2)])
      (use asks [of "Suc pc" limit 0] l b at_code_append [OF ca] in simp_all)
  also have "leads S \<dots> (conf S (bs @ [blk ?p2 limit]) ((is @ [it]) @ [?it])
      ((os @ [OpObject (int_var x)]) @ [OpObject (int_var y)]) L)"
    by (rule Test.IH(2) [OF xy(2) Test.prems(2)]) (use asks [of ?p1 limit 1] l b cb in simp_all)
  also have "\<dots> = conf S (bs @ [blk ?p2 limit]) ((is @ [it]) @ [?it])
      (os @ [OpObject (int_var x), OpObject (int_var y)]) L" by simp
  also have "leads S \<dots> (conf S (bs @ [blk ?p2 limit]) (is @ [it])
      (os @ (if True then [OpObject (int_var v)] else [])) L)"
    by (rule leads_reduce [OF S l]) (use reduce_test [of _ _ _ t x y] xy(3) in auto)
  finally show ?case by (simp add: add.assoc)
next
  case (LNot a)
  let ?it = "op_item LNOT_OP [LAI_OBJECT_MODE, 0] True (length os)"
  let ?p1 = "Suc pc + length (aexp_bytes a)"
  obtain x where x: "aval a L = Some x" "v = (if x = 0 then 1 else 0)"
    using LNot.prems(1) by auto
  have c: "at_code S pc (of_nat LNOT_OP # aexp_bytes a)" using LNot.prems(4) by simp
  from c have ca: "at_code S (Suc pc) (aexp_bytes a)" by (auto dest: at_code_Cons)
  have l: "?p1 \<le> limit" using LNot.prems(5) by simp
  have b: "Suc pc < limit" using l aexp_bytes_nonempty [of a] by linarith
  note asks = op_item_asks_object [where modes = "[LAI_OBJECT_MODE, 0]"]
  have "leads S (conf S (bs @ [blk pc limit]) (is @ [it]) os L)
      (conf S (bs @ [blk (Suc pc) limit]) ((is @ [it]) @ [?it]) os L)"
    by (rule leads_object_operator [OF S LNot.prems(3) c op_modes_of(3) simple_opcodes(8)])
  also have "leads S \<dots> (conf S (bs @ [blk ?p1 limit]) ((is @ [it]) @ [?it]) (os @ [OpObject (int_var x)]) L)"
    by (rule LNot.IH [OF x(1) LNot.prems(2)]) (use asks [of "Suc pc" limit 0] l b ca in simp_all)
  also have "leads S \<dots> (conf S (bs @ [blk ?p1 limit]) (is @ [it])
      (os @ (if True then [OpObject (int_var v)] else [])) L)"
    by (rule leads_reduce [OF S l]) (use x(2) in \<open>auto simp: reduce_lnot_int\<close>)
  finally show ?case by (simp add: add.assoc)
qed

end
