(* ===== verification/Lai_Stmts.thy ===== *)
theory Lai_Stmts
  imports Lai_Expr
begin

text \<open>
  The interpreter carries out the statements of \<open>Lai_Program\<close>: assignments, conditions, loops,
  \<open>Break\<close> and \<open>Return\<close>, one lemma for each step of an item.
\<close>

subsection \<open>Parsing statements\<close>

lemma parse_opcode_control:
  "parse_opcode env p IF_OP w st pc = parse_if p w st pc"
  "parse_opcode env p WHILE_OP w st pc = parse_while p w st pc"
  "parse_opcode env p BREAK_OP w st pc = parse_break w st"
  "parse_opcode env p CONTINUE_OP w st pc = parse_continue w st"
  "parse_opcode env p RETURN_OP w st pc = parse_return w st pc"
  by (simp_all add: parse_opcode_def modes_of_defs parse_data_op_def parse_control_op_def opcode_defs)

lemma pkg_length_eq: "length (pkg body) = pkg_length (length body)"
  by (simp add: pkg_def pkg_length_def varint_bytes_def)

lemma parse_pkg:
  assumes "at_code S pc (pkg body)" and "pc + length (pkg body) \<le> limit" and "limit < 2 ^ 28"
  obtains q where "lai_parse_varint (ci_code (s_ctx S)) pc limit = Ok (Some (length (pkg body), q))"
    and "at_code S q body" and "q + length body = pc + length (pkg body)"
proof
  let ?v = "varint_bytes (length (pkg body))"
  have p: "?v @ body = pkg body" by (simp only: pkg_length_eq) (simp only: pkg_def)
  have l: "length ?v + length body = length (pkg body)" using arg_cong [OF p, of length] by (simp only: length_append)
  have a: "at_code S pc (?v @ body)" unfolding p by (rule assms(1))
  then obtain pre post where c: "ci_code (s_ctx S) = pre @ ?v @ (body @ post)" "length pre = pc"
    by (auto simp: at_code_def)
  have n: "length (pkg body) < 2 ^ 28" using assms(2,3) by linarith
  have k: "pc + length ?v \<le> limit" using assms(2) l by linarith
  show "lai_parse_varint (ci_code (s_ctx S)) pc limit = Ok (Some (length (pkg body), pc + length ?v))"
    using parse_varint_bytes [OF n, of pre "body @ post" limit] k unfolding c(1) c(2) [symmetric] by (simp only: if_True)
  show "at_code S (pc + length ?v) body" using at_code_append [OF a] by (rule conjunct2)
  show "pc + length ?v + length body = pc + length (pkg body)" using l by linarith
qed

lemma enter_block_view:
  fixes w :: "'d lai_world"
  assumes v: "view st cs (bs @ [blk pc limit]) is os" and m: "mem_left w"
  shows "\<exists>w' st'. reserve lai_exec_reserve_blkstack w st (\<lambda>w st. reserve lai_exec_reserve_stack w st (\<lambda>w st.
      bnd (lai_exec_commit_pc st (int pc')) (\<lambda>st.
      bnd (push_block st (int p) (int l)) (\<lambda>st.
      bnd (push_item st kind (opstack_ptr st)) (\<lambda>st. Ok (LAI_ERROR_NONE, w, st)))))) = Ok (LAI_ERROR_NONE, w', st') \<and>
    ticked w w' \<and>
    view st' cs ((bs @ [blk pc' limit]) @ [blk p l]) (is @ [\<lparr>si_kind = kind, si_opstack_frame = int (length os)\<rparr>]) os"
proof -
  from reserve_blk_view [OF v m] obtain w1 s1 where
    1: "lai_exec_reserve_blkstack w st = Ok (0, w1, s1)" "ticked w w1" "view s1 cs (bs @ [blk pc limit]) is os" "room_blk s1"
    by blast
  from reserve_item_view [OF 1(3) ticked_mem [OF 1(2) m]] 1(4) obtain w2 s2 where
    2: "lai_exec_reserve_stack w1 s1 = Ok (0, w2, s2)" "ticked w1 w2" "view s2 cs (bs @ [blk pc limit]) is os"
      "room_item s2" "room_blk s2"
    by blast
  from commit_pc_view [OF 2(3), of "int pc'"] 2(4,5) obtain s3 where
    3: "lai_exec_commit_pc s2 (int pc') = Ok s3" "view s3 cs (bs @ [blk pc' limit]) is os" "room_item s3" "room_blk s3"
    by auto
  from push_block_view [OF 3(2,4), of "int p" "int l"] 3(3) obtain s4 where
    4: "push_block s3 (int p) (int l) = Ok s4" "view s4 cs ((bs @ [blk pc' limit]) @ [blk p l]) is os" "room_item s4"
    by (auto simp: blk_def)
  from push_item_view [OF 4(2,3), of kind "opstack_ptr s4"] view_ptrs(4) [OF 4(2)] obtain s5 where
    5: "push_item s4 kind (opstack_ptr s4) = Ok s5" "view s5 cs ((bs @ [blk pc' limit]) @ [blk p l])
      (is @ [\<lparr>si_kind = kind, si_opstack_frame = int (length os)\<rparr>]) os"
    by auto
  show ?thesis
    using 1(1) 2(1) 3(1) 4(1) 5 ticked_trans [OF 1(2) 2(2)] by (auto simp: reserve_def)
qed

subsection \<open>The items of statements\<close>

definition if_item :: "nat \<Rightarrow> bool \<Rightarrow> nat \<Rightarrow> nat \<Rightarrow> lai_stackitem" where
  "if_item state has_else p l =
     \<lparr>si_kind = LAI_COND_STACKITEM state has_else (int p) (int l), si_opstack_frame = 0\<rparr>"

definition loop_item :: "nat \<Rightarrow> nat \<Rightarrow> lai_stackitem" where
  "loop_item state pred = \<lparr>si_kind = LAI_LOOP_STACKITEM state (int pred), si_opstack_frame = 0\<rparr>"

definition return_item :: lai_stackitem where
  "return_item = \<lparr>si_kind = LAI_RETURN_STACKITEM, si_opstack_frame = 0\<rparr>"

lemmas item_defs = if_item_def loop_item_def return_item_def

text \<open>An item whose block is executed statement by statement.\<close>

definition runs_body :: "'d setting \<Rightarrow> lai_stackitem \<Rightarrow> bool" where
  "runs_body S it \<longleftrightarrow> (\<forall>pc limit. pc < limit \<longrightarrow> asks S it 0 pc limit LAI_EXEC_MODE)"

lemma runs_body_items [simp]:
  "runs_body S (if_item LAI_COND_BRANCH h p l)" "runs_body S (loop_item LAI_LOOP_ITERATION p)"
  "runs_body S \<lparr>si_kind = LAI_METHOD_STACKITEM wants, si_opstack_frame = n\<rparr>"
  by (simp_all add: runs_body_def asks_def process_item_def item_defs process_cond_def process_loop_def process_method_def
      LAI_COND_BRANCH_def LAI_LOOP_ITERATION_def mode_defs lai_mode_flags_def)

lemma asks_predicate:
  assumes "pc < limit"
  shows "asks S (if_item 0 h p l) 0 pc limit LAI_OBJECT_MODE" "asks S (loop_item 0 p) 0 pc limit LAI_OBJECT_MODE"
    "asks S return_item 0 pc limit LAI_OBJECT_MODE"
  using assms by (simp_all add: asks_def process_item_def item_defs process_cond_def process_loop_def process_return_def
      with_predicate_def operand_count_def Let_def mode_defs lai_mode_flags_def)

text \<open>A statement that enters a block.\<close>

lemma leads_enter:
  assumes S: "setting_ok S" and it: "runs_body S it" and l: "pc < limit" and c: "at_code S pc (of_nat n # cs)"
    and n: "simple_opcode n"
    and p: "\<And>w st. parse_opcode (s_env S) (px S LAI_EXEC_MODE pc limit) n w st (Suc pc) =
      reserve lai_exec_reserve_blkstack w st (\<lambda>w st. reserve lai_exec_reserve_stack w st (\<lambda>w st.
      bnd (lai_exec_commit_pc st (int pc')) (\<lambda>st.
      bnd (push_block st (int q) (int e)) (\<lambda>st.
      bnd (push_item st kind (opstack_ptr st)) (\<lambda>st. Ok (LAI_ERROR_NONE, w, st))))))"
  shows "leads S (conf S (bs @ [blk pc limit]) (is @ [it]) [] L)
    (conf S ((bs @ [blk pc' limit]) @ [blk q e]) ((is @ [it]) @ [\<lparr>si_kind = kind, si_opstack_frame = 0\<rparr>]) [] L)"
proof (rule leads_parse [OF S _ at_code_head [OF c] _ _ object_mode(3)])
  show "asks S it (length []) pc limit LAI_EXEC_MODE" using it l by (simp add: runs_body_def)
  show "\<not> lai_is_name (of_nat n)" "unat (of_nat n :: u8) \<noteq> EXTOP_PREFIX" by (simp_all add: simple_opcodeD [OF n])
  fix w st
  assume v: "view st (s_cs S @ [s_ctx S]) (bs @ [blk pc limit]) (is @ [it]) []" and w: "with_locals S L w"
  from enter_block_view [OF v with_locals_mem [OF S w], of pc' q e kind] with_locals_ticked [OF w]
  show "\<exists>w' st'. parse_opcode (s_env S) (px S LAI_EXEC_MODE pc limit) (unat (of_nat n :: u8)) w st (Suc pc) =
      Ok (LAI_ERROR_NONE, w', st') \<and>
      conf S ((bs @ [blk pc' limit]) @ [blk q e]) ((is @ [it]) @ [\<lparr>si_kind = kind, si_opstack_frame = 0\<rparr>]) [] L (w', st')"
    by (fastforce simp: simple_opcodeD [OF n] p conf_def)
qed

lemma leads_while_head:
  assumes S: "setting_ok S" and it: "runs_body S it" and c: "at_code S pc (of_nat WHILE_OP # pkg body)"
    and e: "e = Suc pc + length (pkg body)" "e \<le> limit" "limit < 2 ^ 28"
  obtains q where "at_code S q body" "q + length body = e"
    "\<And>L. leads S (conf S (bs @ [blk pc limit]) (is @ [it]) [] L)
      (conf S ((bs @ [blk e limit]) @ [blk q e]) ((is @ [it]) @ [loop_item 0 q]) [] L)"
proof -
  have l: "Suc pc + length (pkg body) \<le> limit" using e by linarith
  obtain q where q: "lai_parse_varint (ci_code (s_ctx S)) (Suc pc) limit = Ok (Some (length (pkg body), q))"
      "at_code S q body" "q + length body = Suc pc + length (pkg body)"
    by (rule parse_pkg [OF conjunct2 [OF at_code_Cons [OF c]] l e(3)])
  show thesis
  proof (rule that [of q])
    show "at_code S q body" "q + length body = e" using q e(1) by simp_all
    show "leads S (conf S (bs @ [blk pc limit]) (is @ [it]) [] L)
        (conf S ((bs @ [blk e limit]) @ [blk q e]) ((is @ [it]) @ [loop_item 0 q]) [] L)" for L
      unfolding loop_item_def
      by (rule leads_enter [OF S it _ c])
        (use l in \<open>simp_all add: simple_opcodes parse_opcode_control parse_while_def parsed_def q(1) e(1)\<close>)
  qed
qed

lemma leads_if_head:
  assumes S: "setting_ok S" and it: "runs_body S it" and c: "at_code S pc (of_nat IF_OP # pkg body)"
    and e: "e = Suc pc + length (pkg body)" "e \<le> limit" "limit < 2 ^ 28"
    and no: "e < limit \<Longrightarrow> \<exists>b. rd (ci_code (s_ctx S)) e = Ok b \<and> unat b \<noteq> ELSE_OP"
  obtains q where "at_code S q body" "q + length body = e"
    "\<And>L. leads S (conf S (bs @ [blk pc limit]) (is @ [it]) [] L)
      (conf S ((bs @ [blk e limit]) @ [blk q e]) ((is @ [it]) @ [if_item 0 False 0 (Suc e)]) [] L)"
proof -
  have l: "Suc pc + length (pkg body) \<le> limit" using e by linarith
  obtain q where q: "lai_parse_varint (ci_code (s_ctx S)) (Suc pc) limit = Ok (Some (length (pkg body), q))"
      "at_code S q body" "q + length body = Suc pc + length (pkg body)"
    by (rule parse_pkg [OF conjunct2 [OF at_code_Cons [OF c]] l e(3)])
  have els: "(if e < limit then bnd (rd (ci_code (s_ctx S)) e) (\<lambda>b. Ok (unat b = ELSE_OP)) else Ok False) = Ok False"
    using no by auto
  show thesis
  proof (rule that [of q])
    show "at_code S q body" "q + length body = e" using q e(1) by simp_all
    show "leads S (conf S (bs @ [blk pc limit]) (is @ [it]) [] L)
        (conf S ((bs @ [blk e limit]) @ [blk q e]) ((is @ [it]) @ [if_item 0 False 0 (Suc e)]) [] L)" for L
      unfolding if_item_def
    proof (rule leads_enter [OF S it _ c])
      show "pc < limit" using l(1) by simp
      show "simple_opcode IF_OP" by (rule simple_opcodes)
      have k: "pc + 1 + length (pkg body) = e" "e + 1 + 0 = Suc e" using e by simp_all
      show "parse_opcode (s_env S) (px S LAI_EXEC_MODE pc limit) IF_OP w st (Suc pc) =
          reserve lai_exec_reserve_blkstack w st (\<lambda>w st. reserve lai_exec_reserve_stack w st (\<lambda>w st.
          bnd (lai_exec_commit_pc st (int e)) (\<lambda>st. bnd (push_block st (int q) (int e)) (\<lambda>st.
          bnd (push_item st (LAI_COND_STACKITEM 0 False (int 0) (int (Suc e))) (opstack_ptr st)) (\<lambda>st.
          Ok (LAI_ERROR_NONE, w, st))))))" for w st
        unfolding parse_opcode_control parse_if_def parsed_def px_simps q(1) bnd.simps option.case prod.case Let_def
          k els if_False enter_cond_def ..
    qed
  qed
qed

lemma leads_if_else_head:
  assumes S: "setting_ok S" and it: "runs_body S it"
    and c: "at_code S pc (of_nat IF_OP # pkg body @ of_nat ELSE_OP # pkg els)"
    and e: "e = Suc pc + length (pkg body)" "e' = Suc e + length (pkg els)" "e' \<le> limit" "limit < 2 ^ 28"
  obtains q q' where "at_code S q body" "q + length body = e" "at_code S q' els" "q' + length els = e'"
    "\<And>L. leads S (conf S (bs @ [blk pc limit]) (is @ [it]) [] L)
      (conf S ((bs @ [blk e' limit]) @ [blk q e]) ((is @ [it]) @ [if_item 0 True q' e']) [] L)"
proof -
  have l: "Suc pc + length (pkg body) \<le> limit" "Suc e + length (pkg els) \<le> limit" "e < limit" using e by linarith+
  have c1: "at_code S (Suc pc) (pkg body @ of_nat ELSE_OP # pkg els)" using at_code_Cons [OF c] by blast
  note cb = at_code_append [OF c1]
  have c2: "at_code S e (of_nat ELSE_OP # pkg els)" using cb e(1) by simp
  note c3 = at_code_Cons [OF c2]
  obtain q where q: "lai_parse_varint (ci_code (s_ctx S)) (Suc pc) limit = Ok (Some (length (pkg body), q))"
      "at_code S q body" "q + length body = Suc pc + length (pkg body)"
    by (rule parse_pkg [OF conjunct1 [OF cb] l(1) e(4)])
  obtain q' where q': "lai_parse_varint (ci_code (s_ctx S)) (Suc e) limit = Ok (Some (length (pkg els), q'))"
      "at_code S q' els" "q' + length els = Suc e + length (pkg els)"
    by (rule parse_pkg [OF conjunct2 [OF c3] l(2) e(4)])
  have els: "(if e < limit then bnd (rd (ci_code (s_ctx S)) e) (\<lambda>b. Ok (unat b = ELSE_OP)) else Ok False) = Ok True"
    using c3 l(3) simple_opcodeD(1) [OF simple_opcodes(15)] by simp
  show thesis
  proof (rule that [of q q'])
    show "at_code S q body" "q + length body = e" "at_code S q' els" "q' + length els = e'"
      using q q' e(1,2) by simp_all
    show "leads S (conf S (bs @ [blk pc limit]) (is @ [it]) [] L)
        (conf S ((bs @ [blk e' limit]) @ [blk q e]) ((is @ [it]) @ [if_item 0 True q' e']) [] L)" for L
      unfolding if_item_def
    proof (rule leads_enter [OF S it _ c])
      show "pc < limit" using l(1) by simp
      show "simple_opcode IF_OP" by (rule simple_opcodes)
      show "parse_opcode (s_env S) (px S LAI_EXEC_MODE pc limit) IF_OP w st (Suc pc) =
          reserve lai_exec_reserve_blkstack w st (\<lambda>w st. reserve lai_exec_reserve_stack w st (\<lambda>w st.
          bnd (lai_exec_commit_pc st (int e')) (\<lambda>st. bnd (push_block st (int q) (int e)) (\<lambda>st.
          bnd (push_item st (LAI_COND_STACKITEM 0 True (int q') (int e')) (opstack_ptr st)) (\<lambda>st.
          Ok (LAI_ERROR_NONE, w, st))))))" for w st
      proof -
        have k: "pc + 1 + length (pkg body) = e" "pc + 1 + length (pkg body) + 1 + length (pkg els) = e'"
          using e by simp_all
        show ?thesis
          unfolding parse_opcode_control parse_if_def parsed_def px_simps q(1) bnd.simps option.case prod.case Let_def
            k els if_True enter_cond_def q'(1) [folded Suc_eq_plus1] Suc_eq_plus1 [of e, symmetric]
          by (simp only: e(2))
      qed
    qed
  qed
qed

subsection \<open>Carrying out statements\<close>

lemma pop_one_view:
  assumes "view st cs bs is [OpObject (int_var v)]"
  shows "\<exists>st'. lai_exec_pop_opstack_back w st = Ok (w, st') \<and> view st' cs bs is [] \<and> room_op st'"
  using pop_ops_view [of st cs bs "is" "[]" "[OpObject (int_var v)]" w] assms
  by (simp add: lai_exec_pop_opstack_back_def)

lemma frame_operand_view:
  assumes "view st cs bs is [x]" and "si_opstack_frame it = 0"
  shows "operand_count st it = 1" "frame_operand st it 0 = Ok x"
  using view_ptrs(4) [OF assms(1)] view_slots(4) [OF assms(1), of 0] assms(2)
  by (simp_all add: operand_count_def frame_operand_def lai_exec_get_opstack_def ensure_def)

lemma with_predicate_view:
  assumes v: "view st cs bs is [OpObject (int_var v)]" and it: "si_opstack_frame it = 0"
  shows "\<exists>st'. with_predicate env it f w st = f (v \<noteq> 0) w st' \<and> view st' cs bs is []"
proof -
  from pop_one_view [OF v, of w] obtain st' where "lai_exec_pop_opstack_back w st = Ok (w, st')" "view st' cs bs is []"
    by blast
  then show ?thesis
    using frame_operand_view [OF v it] by (auto simp: with_predicate_def ensure_def)
qed

lemma leads_predicate:
  assumes S: "setting_ok S" and l: "pc \<le> e" and it: "si_opstack_frame it = 0"
    and f: "\<And>p q w st. process_item (s_env S) (s_ctx S) p (blk pc e) it q w st = with_predicate (s_env S) it (f p q) w st"
    and Q: "\<And>w st. view st (s_cs S @ [s_ctx S]) (B @ [blk pc e]) (is @ [it]) [] \<Longrightarrow> with_locals S L w \<Longrightarrow>
      \<exists>w' st'. f (int (length B)) (int (length is)) (v \<noteq> 0) w st = Ok (LAI_ERROR_NONE, w', st') \<and> Q (w', st')"
  shows "leads S (conf S (B @ [blk pc e]) (is @ [it]) [OpObject (int_var v)] L) Q"
proof (rule leads_process [OF S l])
  fix w st
  assume a: "view st (s_cs S @ [s_ctx S]) (B @ [blk pc e]) (is @ [it]) [OpObject (int_var v)]" and w: "with_locals S L w"
  from with_predicate_view [OF a it] obtain s1 where
    "with_predicate (s_env S) it (f (int (length B)) (int (length is))) w st =
      f (int (length B)) (int (length is)) (v \<noteq> 0) w s1"
    "view s1 (s_cs S @ [s_ctx S]) (B @ [blk pc e]) (is @ [it]) []" by blast
  with Q [OF this(2) w] show "\<exists>w' st'. process_item (s_env S) (s_ctx S) (int (length B)) (blk pc e) it
      (int (length is)) w st = Ok (LAI_ERROR_NONE, w', st') \<and> Q (w', st')"
    by (simp only: f)
qed

lemma leads_if_predicate:
  assumes S: "setting_ok S" and l: "p \<le> e"
  shows "leads S (conf S (B @ [blk p e]) (is @ [if_item 0 h ep el]) [OpObject (int_var v)] L)
    (if v \<noteq> 0 then conf S (B @ [blk p e]) (is @ [if_item LAI_COND_BRANCH h ep el]) [] L
     else if h then conf S (B @ [blk ep el]) (is @ [if_item LAI_COND_BRANCH h ep el]) [] L
     else conf S B is [] L)"
proof (rule leads_predicate [OF S l])
  let ?it = "if_item 0 h ep el" and ?it' = "if_item LAI_COND_BRANCH h ep el"
  show "si_opstack_frame ?it = 0" by (simp add: if_item_def)
  let ?f = "\<lambda>b p' (holds :: bool) (w :: 'a lai_world) st.
    if holds then bnd (put_item st p' ?it') (\<lambda>st. Ok (LAI_ERROR_NONE, w, st))
    else if h then bnd (put_item st p' ?it') (\<lambda>st. bnd (put_blk st b (blk ep el)) (\<lambda>st. Ok (LAI_ERROR_NONE, w, st)))
    else pop_block_item w st"
  show "process_item (s_env S) (s_ctx S) b (blk p e) ?it p' w st = with_predicate (s_env S) ?it (?f b p') w st" for b p' w st
    by (simp add: process_item_def if_item_def process_cond_def blk_def Let_def cong del: if_weak_cong)
  fix w st
  assume v: "view st (s_cs S @ [s_ctx S]) (B @ [blk p e]) (is @ [?it]) []" and w: "with_locals S L w"
  from put_item_view [OF v, of ?it'] obtain s1 where
    1: "put_item st (int (length is)) ?it' = Ok s1" "view s1 (s_cs S @ [s_ctx S]) (B @ [blk p e]) (is @ [?it']) []"
    by blast
  from put_blk_view [OF 1(2), of "blk ep el"] obtain s2 where
    2: "put_blk s1 (int (length B)) (blk ep el) = Ok s2" "view s2 (s_cs S @ [s_ctx S]) (B @ [blk ep el]) (is @ [?it']) []"
    by blast
  from pop_block_item_view [OF v, of w] obtain s3 where
    3: "pop_block_item w st = Ok (LAI_ERROR_NONE, w, s3)" "view s3 (s_cs S @ [s_ctx S]) B is []"
    by blast
  show "\<exists>w' st'. ?f (int (length B)) (int (length is)) (v \<noteq> 0) w st = Ok (LAI_ERROR_NONE, w', st') \<and>
      (if v \<noteq> 0 then conf S (B @ [blk p e]) (is @ [?it']) [] L
       else if h then conf S (B @ [blk ep el]) (is @ [?it']) [] L else conf S B is [] L) (w', st')"
    using 1 2 3 w by (cases "v = 0"; cases h) (simp_all add: conf_def)
qed

lemma leads_loop_predicate:
  assumes S: "setting_ok S" and l: "p \<le> e"
  shows "leads S (conf S (B @ [blk p e]) (is @ [loop_item 0 q]) [OpObject (int_var v)] L)
    (if v \<noteq> 0 then conf S (B @ [blk p e]) (is @ [loop_item LAI_LOOP_ITERATION q]) [] L else conf S B is [] L)"
proof (rule leads_predicate [OF S l])
  let ?it = "loop_item 0 q" and ?it' = "loop_item LAI_LOOP_ITERATION q"
  show "si_opstack_frame ?it = 0" by (simp add: loop_item_def)
  let ?f = "\<lambda>p' (holds :: bool) (w :: 'a lai_world) st.
    if holds then bnd (put_item st p' ?it') (\<lambda>st. Ok (LAI_ERROR_NONE, w, st)) else pop_block_item w st"
  show "process_item (s_env S) (s_ctx S) b (blk p e) ?it p' w st = with_predicate (s_env S) ?it (?f p') w st" for b p' w st
    by (simp add: process_item_def loop_item_def process_loop_def cong del: if_weak_cong)
  fix w st
  assume v: "view st (s_cs S @ [s_ctx S]) (B @ [blk p e]) (is @ [?it]) []" and w: "with_locals S L w"
  from put_item_view [OF v, of ?it'] obtain s1 where
    1: "put_item st (int (length is)) ?it' = Ok s1" "view s1 (s_cs S @ [s_ctx S]) (B @ [blk p e]) (is @ [?it']) []"
    by blast
  from pop_block_item_view [OF v, of w] obtain s3 where
    3: "pop_block_item w st = Ok (LAI_ERROR_NONE, w, s3)" "view s3 (s_cs S @ [s_ctx S]) B is []"
    by blast
  show "\<exists>w' st'. ?f (int (length is)) (v \<noteq> 0) w st = Ok (LAI_ERROR_NONE, w', st') \<and>
      (if v \<noteq> 0 then conf S (B @ [blk p e]) (is @ [?it']) [] L else conf S B is [] L) (w', st')"
    using 1 3 w by (cases "v = 0") (simp_all add: conf_def)
qed

lemma leads_if_end:
  assumes S: "setting_ok S"
  shows "leads S (conf S (B @ [blk e e]) (is @ [if_item LAI_COND_BRANCH h ep el]) [] L) (conf S B is [] L)"
proof (rule leads_process [OF S order_refl])
  fix w st
  assume v: "view st (s_cs S @ [s_ctx S]) (B @ [blk e e]) (is @ [if_item LAI_COND_BRANCH h ep el]) []"
    and w: "with_locals S L w"
  from pop_block_item_view [OF v, of w] w
  show "\<exists>w' st'. process_item (s_env S) (s_ctx S) (int (length B)) (blk e e) (if_item LAI_COND_BRANCH h ep el)
      (int (length is)) w st = Ok (LAI_ERROR_NONE, w', st') \<and> conf S B is [] L (w', st')"
    by (auto simp: process_item_def if_item_def process_cond_def LAI_COND_BRANCH_def ensure_def conf_def)
qed

lemma leads_loop_end:
  assumes S: "setting_ok S"
  shows "leads S (conf S (B @ [blk e e]) (is @ [loop_item LAI_LOOP_ITERATION q]) [] L)
    (conf S (B @ [blk q e]) (is @ [loop_item 0 q]) [] L)"
proof (rule leads_process [OF S order_refl])
  fix w st
  assume v: "view st (s_cs S @ [s_ctx S]) (B @ [blk e e]) (is @ [loop_item LAI_LOOP_ITERATION q]) []"
    and w: "with_locals S L w"
  from put_item_view [OF v, of "loop_item 0 q"] obtain s1 where
    1: "put_item st (int (length is)) (loop_item 0 q) = Ok s1"
      "view s1 (s_cs S @ [s_ctx S]) (B @ [blk e e]) (is @ [loop_item 0 q]) []"
    by blast
  from put_blk_view [OF 1(2), of "blk q e"] 1(1) w
  show "\<exists>w' st'. process_item (s_env S) (s_ctx S) (int (length B)) (blk e e) (loop_item LAI_LOOP_ITERATION q)
      (int (length is)) w st = Ok (LAI_ERROR_NONE, w', st') \<and>
      conf S (B @ [blk q e]) (is @ [loop_item 0 q]) [] L (w', st')"
    by (auto simp: process_item_def loop_item_def process_loop_def LAI_LOOP_ITERATION_def ensure_def conf_def)
qed

subsection \<open>Assignments\<close>

lemma leads_store:
  assumes S: "setting_ok S" and it: "runs_body S it" and c: "at_code S pc (stmt_bytes (Store e i))"
    and l: "pc + length (stmt_bytes (Store e i)) \<le> limit"
    and e: "aval e L = Some v" "length L = 8" "i < length L"
  shows "leads S (conf S (bs @ [blk pc limit]) (is @ [it]) [] L)
    (conf S (bs @ [blk (pc + length (stmt_bytes (Store e i))) limit]) (is @ [it]) [] (L[i := Some v]))"
proof -
  let ?it = "op_item STORE_OP [LAI_OBJECT_MODE, LAI_REFERENCE_MODE, 0] False (length ([] :: lai_operand list))"
  let ?p1 = "Suc pc + length (aexp_bytes e)"
  have c: "at_code S pc (of_nat STORE_OP # aexp_bytes e @ [of_nat (LOCAL0_OP + i)])" using c by simp
  from c have ca: "at_code S (Suc pc) (aexp_bytes e @ [of_nat (LOCAL0_OP + i)])" by (auto dest: at_code_Cons)
  note cb = at_code_append [OF ca]
  have l: "Suc ?p1 \<le> limit" using l by simp
  have i: "i < 8" using e by simp
  note asks = op_item_asks_object [where modes = "[LAI_OBJECT_MODE, LAI_REFERENCE_MODE, 0]"]
  note n = simple_opcodeD [OF simple_opcodes(9)]
  have a: "asks S it (length ([] :: lai_operand list)) pc limit LAI_EXEC_MODE"
    using it l by (simp add: runs_body_def)
  have "leads S (conf S (bs @ [blk pc limit]) (is @ [it]) [] L)
      (conf S (bs @ [blk (Suc pc) limit]) ((is @ [it]) @ [?it]) [] L)"
    using leads_operator [OF S a at_code_head [OF c] op_modes_of(4) n(4,2,3) object_mode(3), of bs "is" L]
    by (simp add: mode_flags_object)
  also have "leads S \<dots> (conf S (bs @ [blk ?p1 limit]) ((is @ [it]) @ [?it]) ([] @ [OpObject (int_var v)]) L)"
    by (rule leads_aexp [OF S e(1,2)]) (use asks [of "Suc pc" limit 0] l cb in simp_all)
  also have "leads S \<dots> (conf S (bs @ [blk (Suc ?p1) limit]) ((is @ [it]) @ [?it])
      (([] @ [OpObject (int_var v)]) @ [OpLocal i]) L)"
    by (rule leads_local_target [OF S]) (use asks [of ?p1 limit 1] l cb i in simp_all)
  also have "\<dots> = conf S (bs @ [blk (Suc ?p1) limit]) ((is @ [it]) @ [?it]) ([] @ [OpObject (int_var v), OpLocal i]) L"
    by simp
  also have "leads S \<dots> (conf S (bs @ [blk (Suc ?p1) limit]) (is @ [it])
      ([] @ (if False then [OpObject (int_var v)] else [])) (L[i := Some v]))"
  proof (rule leads_reduce [OF S l])
    fix w :: "'a lai_world" and st assume w: "with_locals S L w" and k: "current_invocation st = Ok (s_key S)"
    from with_locals_assign [OF S w e(3)] obtain w' where
      w': "assign_local w (s_key S) i (int_var v) = Ok w'" "with_locals S (L[i := Some v]) w'" by blast
    show "\<exists>w' r. lai_exec_reduce_op (s_env S) w st STORE_OP [OpObject (int_var v), OpLocal i] var0 =
        Ok (LAI_ERROR_NONE, w', int_var r) \<and> with_locals S (L[i := Some v]) w' \<and> (False \<longrightarrow> r = v)"
      using reduce_store_int [OF k w'(1)] w'(2) by auto
  qed auto
  finally show ?thesis by simp
qed

subsection \<open>Leaving blocks\<close>

text \<open>The innermost loop, across conditions; the method, across conditions and loops.\<close>

definition breaks :: "lai_blkitem list \<Rightarrow> lai_stackitem list \<Rightarrow> lai_blkitem list \<Rightarrow> lai_stackitem list \<Rightarrow> bool" where
  "breaks bs is bs' is' \<longleftrightarrow> (\<exists>l cs bl ds. is = is' @ l # cs \<and> bs = bs' @ bl # ds \<and> length ds = length cs \<and>
     is_loop l \<and> (\<forall>c\<in>set cs. is_cond c))"

definition returns :: "lai_blkitem list \<Rightarrow> lai_stackitem list \<Rightarrow> lai_blkitem list \<Rightarrow> lai_stackitem list \<Rightarrow> bool" where
  "returns bs is bs' is' \<longleftrightarrow> (\<exists>m cs bl ds. is = is' @ m # cs \<and> bs = bs' @ bl # ds \<and> length ds = length cs \<and>
     si_kind m = LAI_METHOD_STACKITEM True \<and> (\<forall>c\<in>set cs. is_cond c \<or> is_loop c))"

lemma find_item_view:
  assumes "view st C bs (is @ x # cs @ es) os" and "wanted x" and "\<forall>c\<in>set cs. \<not> wanted c \<and> (is_cond c \<or> is_loop c)"
  shows "n \<le> length cs \<Longrightarrow> find_item wanted st (Suc (length is) + n) = Ok (length is)"
proof (induction n)
  case 0
  have "slot (stack_base st) (int (length is)) = Ok x"
    using view_slots(3) [OF assms(1), of "length is"] by simp
  then show ?case using assms(2) by simp
next
  case (Suc n)
  have "slot (stack_base st) (int (Suc (length is) + n)) = Ok (cs ! n)"
    using view_slots(3) [OF assms(1), of "Suc (length is) + n"] Suc.prems by (simp add: nth_append)
  moreover have "cs ! n \<in> set cs" using Suc.prems by simp
  ultimately show ?case using Suc assms(3) by (auto simp: ensure_def)
qed

lemma pop_nested_view:
  "view st C (bs @ ds) (is @ cs) os \<Longrightarrow> length ds = length cs \<Longrightarrow> \<forall>c\<in>set cs. is_cond c \<or> is_loop c \<Longrightarrow>
    \<exists>st'. pop_nested (length cs) st = Ok st' \<and> view st' C bs is os"
proof (induction cs arbitrary: st ds rule: rev_induct)
  case (snoc c cs)
  then obtain d ds' where d: "ds = ds' @ [d]" "length ds' = length cs" by (cases ds rule: rev_cases) auto
  have v: "view st C ((bs @ ds') @ [d]) ((is @ cs) @ [c]) os" using snoc.prems(1) d by simp
  from pop_blk_view [OF v] obtain s1 where
    1: "lai_exec_pop_blkstack_back st = Ok s1" "view s1 C (bs @ ds') ((is @ cs) @ [c]) os" by blast
  from pop_item_view [OF 1(2)] obtain s2 where
    2: "lai_exec_pop_stack_back s1 = Ok s2" "view s2 C (bs @ ds') (is @ cs) os" by blast
  from snoc.IH [OF 2(2) d(2)] snoc.prems(3) obtain s3 where
    3: "pop_nested (length cs) s2 = Ok s3" "view s3 C bs is os" by auto
  have "is_cond c \<or> is_loop c" using snoc.prems(3) by simp
  then show ?case using 1(1) 2(1) 3 view_tops(3) [OF v refl] by (simp add: ensure_def)
qed simp

lemma is_cond_not_loop: "is_cond c \<Longrightarrow> \<not> is_loop c"
  by (cases "si_kind c") (simp_all add: is_cond_def is_loop_def)

lemma parse_break_view:
  assumes v: "view st C bs is os" and b: "breaks bs is bs' is'"
  shows "\<exists>st'. parse_break w st = Ok (LAI_ERROR_NONE, w, st') \<and> view st' C bs' is' os"
proof -
  from b obtain l cs bl ds where d: "is = is' @ l # cs" "bs = bs' @ bl # ds" "length ds = length cs"
    "is_loop l" "\<forall>c\<in>set cs. is_cond c"
    by (auto simp: breaks_def)
  have v1: "view st C bs (is' @ l # cs) os" using v d(1) by simp
  have p: "nat (stack_ptr st + 1) = Suc (length is') + length cs" "nat (stack_ptr st) - length is' = length cs"
    using view_ptrs(3) [OF v1] by simp_all
  have "\<forall>c\<in>set cs. \<not> is_loop c \<and> (is_cond c \<or> is_loop c)" using d(5) is_cond_not_loop by auto
  then have f: "find_item is_loop st (Suc (length is') + length cs) = Ok (length is')"
    using find_item_view [of st C bs is' l cs "[]" os is_loop "length cs"] v1 d(4) unfolding append_Nil2 by blast
  have "view st C ((bs' @ [bl]) @ ds) ((is' @ [l]) @ cs) os" using v d(1,2) by simp
  from pop_nested_view [OF this d(3)] d(5) obtain s1 where
    1: "pop_nested (length cs) st = Ok s1" "view s1 C (bs' @ [bl]) (is' @ [l]) os" by auto
  from pop_blk_view [OF 1(2)] obtain s2 where
    2: "lai_exec_pop_blkstack_back s1 = Ok s2" "view s2 C bs' (is' @ [l]) os" by blast
  from pop_item_view [OF 2(2)] 1(1) 2(1) f p show ?thesis by (auto simp: parse_break_def)
qed

lemma leads_break:
  assumes S: "setting_ok S" and it: "runs_body S it" and l: "pc < limit" and c: "at_code S pc (of_nat BREAK_OP # cs)"
    and b: "breaks (bs @ [blk pc limit]) (is @ [it]) bs' is'"
  shows "leads S (conf S (bs @ [blk pc limit]) (is @ [it]) [] L) (conf S bs' is' [] L)"
proof (rule leads_parse [OF S _ at_code_head [OF c] _ _ object_mode(3)])
  note n = simple_opcodeD [OF simple_opcodes(12)]
  show "asks S it (length []) pc limit LAI_EXEC_MODE" using it l by (simp add: runs_body_def)
  show "\<not> lai_is_name (of_nat BREAK_OP)" "unat (of_nat BREAK_OP :: u8) \<noteq> EXTOP_PREFIX" using n by simp_all
  fix w st
  assume v: "view st (s_cs S @ [s_ctx S]) (bs @ [blk pc limit]) (is @ [it]) []" and w: "with_locals S L w"
  from parse_break_view [OF v b, of w] w n(1)
  show "\<exists>w' st'. parse_opcode (s_env S) (px S LAI_EXEC_MODE pc limit) (unat (of_nat BREAK_OP :: u8)) w st (Suc pc) =
      Ok (LAI_ERROR_NONE, w', st') \<and> conf S bs' is' [] L (w', st')"
    by (auto simp: parse_opcode_control conf_def)
qed

subsection \<open>Returning\<close>

text \<open>The method has only integer arguments and has declared no nodes.\<close>

definition quiet :: "'d setting \<Rightarrow> bool" where
  "quiet S \<longleftrightarrow> (\<exists>as. iv_arg (s_iv S) = map local_var as \<and> length as = 7) \<and> iv_nodes (s_iv S) = []"

text \<open>Its invocation is freed and its value is the only operand.\<close>

definition returned :: "'d setting \<Rightarrow> lai_blkitem list \<Rightarrow> lai_stackitem list \<Rightarrow> u64 \<Rightarrow> 'd lai_world \<times> lai_state \<Rightarrow> bool" where
  "returned S bs is v c \<longleftrightarrow> view (snd c) (s_cs S) bs is [OpObject (int_var v)] \<and>
     (\<exists>t. fst c = (s_world S)\<lparr>mem_clock := t, invocations := (invocations (s_world S))[s_key S := None]\<rparr>)"

lemma release_locals: "release_all lai_var_finalize w (map local_var xs) = Ok w"
  by (induction xs) (simp_all add: finalize_local)

lemma pop_ctx_view:
  assumes S: "setting_ok S" "quiet S" and w: "with_locals S L w" and v: "view st (s_cs S @ [s_ctx S]) bs is os"
  shows "\<exists>w' st'. lai_exec_pop_ctxstack_back w st = Ok (w', st') \<and> view st' (s_cs S) bs is os \<and>
    (\<exists>t. w' = (s_world S)\<lparr>mem_clock := t, invocations := (invocations (s_world S))[s_key S := None]\<rparr>)"
proof -
  let ?iv = "(s_iv S)\<lparr>iv_local := map local_var L\<rparr>"
  from w obtain t where L: "length L = 8" and e: "w = put_invocation ((s_world S)\<lparr>mem_clock := t\<rparr>) (s_key S) ?iv"
    by (auto simp: with_locals_def)
  have k: "s_key S < length (invocations (s_world S))" using S(1) by (simp add: setting_ok_def)
  from S(2) obtain as where as: "iv_arg (s_iv S) = map local_var as" "length as = 7" by (auto simp: quiet_def)
  have "rd (invocations w) (s_key S) = Ok (Some ?iv)" using k by (simp add: e put_invocation_def rd_def)
  then have f: "free_invocation w (s_key S) = Ok (w\<lparr>invocations := (invocations w)[s_key S := None]\<rparr>)"
    using L as by (simp add: free_invocation_def get_block_def guard_def release_locals)
  have "stk (ctxstack_base st) (ctxstack_capacity st) (ctxstack_ptr st + 1) (s_cs S @ [s_ctx S])"
    using v by (simp add: view_def)
  from stk_pop [OF this] view_ptrs(1) [OF v] v
  have "view (st\<lparr>ctxstack_ptr := ctxstack_ptr st - 1\<rparr>) (s_cs S) bs is os" by (simp add: view_def)
  moreover have "slot (ctxstack_base st) (ctxstack_ptr st) = Ok (s_ctx S)" "0 \<le> ctxstack_ptr st"
    using view_tops(1) [OF v refl] view_ptrs(1) [OF v] by simp_all
  ultimately show ?thesis
    using f S(1) by (auto simp: lai_exec_pop_ctxstack_back_def setting_ok_def ensure_def e put_invocation_def)
qed

lemma is_method_not_nested: "is_cond c \<or> is_loop c \<Longrightarrow> \<not> is_method c"
  by (cases "si_kind c") (simp_all add: is_cond_def is_loop_def is_method_def)

lemma process_return_view:
  assumes S: "setting_ok S" "quiet S" and w: "with_locals S L w"
    and v: "view st (s_cs S @ [s_ctx S]) bs (is @ [return_item]) [OpObject (int_var x)]"
    and b: "returns bs is bs' is'"
  shows "\<exists>w' st'. process_return (s_env S) (s_ctx S) return_item w st = Ok (LAI_ERROR_NONE, w', st') \<and>
    returned S bs' is' x (w', st')"
proof -
  let ?C = "s_cs S @ [s_ctx S]"
  from b obtain m cs bl ds where d: "is = is' @ m # cs" "bs = bs' @ bl # ds" "length ds = length cs"
    "si_kind m = LAI_METHOD_STACKITEM True" "\<forall>c\<in>set cs. is_cond c \<or> is_loop c"
    by (auto simp: returns_def)
  have fr: "si_opstack_frame return_item = 0" by (simp add: return_item_def)
  from pop_one_view [OF v, of w] obtain s1 where
    1: "lai_exec_pop_opstack_back w st = Ok (w, s1)" "view s1 ?C bs (is @ [return_item]) []" "room_op s1" by blast
  have v1: "view s1 ?C bs (is' @ m # cs @ [return_item]) []" using 1(2) d(1) by simp
  have p: "nat (stack_ptr s1) = Suc (length is') + length cs" using view_ptrs(3) [OF v1] by simp
  have "\<forall>c\<in>set cs. \<not> is_method c \<and> (is_cond c \<or> is_loop c)" using d(5) is_method_not_nested by blast
  moreover have "is_method m" using d(4) by (simp add: is_method_def)
  ultimately have f: "find_item is_method s1 (nat (stack_ptr s1)) = Ok (length is')"
    using find_item_view [OF v1, of is_method "length cs"] unfolding p by blast
  have m: "slot (stack_base s1) (int (length is')) = Ok m" using view_slots(3) [OF v1, of "length is'"] by simp
  from push_operand_view [OF v1 1(3), of "OpObject (int_var x)"] obtain s2 where
    2: "push_operand s1 (OpObject (int_var x)) = Ok s2"
      "view s2 ?C bs ((is' @ m # cs) @ [return_item]) [OpObject (int_var x)]" by auto
  from pop_item_view [OF 2(2)] obtain s3 where
    3: "lai_exec_pop_stack_back s2 = Ok s3" "view s3 ?C bs (is' @ m # cs) [OpObject (int_var x)]" by blast
  have q: "nat (stack_ptr s3) - length is' = length cs" using view_ptrs(3) [OF 3(2)] by simp
  have "view s3 ?C ((bs' @ [bl]) @ ds) ((is' @ [m]) @ cs) [OpObject (int_var x)]" using 3(2) d(2) by simp
  from pop_nested_view [OF this d(3,5)] obtain s4 where
    4: "pop_nested (length cs) s3 = Ok s4" "view s4 ?C (bs' @ [bl]) (is' @ [m]) [OpObject (int_var x)]" by blast
  from pop_ctx_view [OF S w 4(2)] obtain w' s5 t where
    5: "lai_exec_pop_ctxstack_back w s4 = Ok (w', s5)"
      "view s5 (s_cs S) (bs' @ [bl]) (is' @ [m]) [OpObject (int_var x)]"
      "w' = (s_world S)\<lparr>mem_clock := t, invocations := (invocations (s_world S))[s_key S := None]\<rparr>" by blast
  from pop_blk_view [OF 5(2)] obtain s6 where
    6: "lai_exec_pop_blkstack_back s5 = Ok s6" "view s6 (s_cs S) bs' (is' @ [m]) [OpObject (int_var x)]" by blast
  from pop_item_view [OF 6(2)] obtain s7 where
    7: "lai_exec_pop_stack_back s6 = Ok s7" "view s7 (s_cs S) bs' is' [OpObject (int_var x)]" by blast
  have n: "remove_method_nodes (ci_invocation (s_ctx S)) w = Ok w"
    using S with_locals_invocation [OF S(1) w] by (simp add: remove_method_nodes_def setting_ok_def quiet_def)
  have "process_return (s_env S) (s_ctx S) return_item w st = Ok (LAI_ERROR_NONE, w', s7)"
    using frame_operand_view [OF v fr]
    by (simp add: process_return_def ensure_def get_objectref_int 1(1) f m d(4) clone_int 2(1) n 3(1) q 4(1) 5(1)
        6(1) 7(1) finalize_int)
  then show ?thesis using 7(2) 5(3) by (auto simp: returned_def)
qed

lemma leads_return:
  assumes S: "setting_ok S" "quiet S" and it: "runs_body S it"
    and c: "at_code S pc (of_nat RETURN_OP # aexp_bytes e)" and l: "Suc pc + length (aexp_bytes e) \<le> limit"
    and e: "aval e L = Some v" "length L = 8"
    and b: "\<And>bl. returns (bs @ [bl]) (is @ [it]) bs' is'"
  shows "leads S (conf S (bs @ [blk pc limit]) (is @ [it]) [] L) (returned S bs' is' v)"
proof -
  note n = simple_opcodeD [OF simple_opcodes(14)]
  have pos: "Suc pc < limit" using l aexp_bytes_nonempty [of e] by linarith
  have "leads S (conf S (bs @ [blk pc limit]) (is @ [it]) [] L)
      (conf S (bs @ [blk (Suc pc) limit]) ((is @ [it]) @ [return_item]) [] L)"
  proof (rule leads_parse [OF S(1) _ at_code_head [OF c] _ _ object_mode(3)])
    show "asks S it (length []) pc limit LAI_EXEC_MODE" using it pos by (simp add: runs_body_def)
    show "\<not> lai_is_name (of_nat RETURN_OP)" "unat (of_nat RETURN_OP :: u8) \<noteq> EXTOP_PREFIX" using n by simp_all
    fix w st
    assume v: "view st (s_cs S @ [s_ctx S]) (bs @ [blk pc limit]) (is @ [it]) []" and w: "with_locals S L w"
    from commit_item_view [OF v with_locals_mem [OF S(1) w], of "Suc pc" LAI_RETURN_STACKITEM] with_locals_ticked [OF w] n(1)
    show "\<exists>w' st'. parse_opcode (s_env S) (px S LAI_EXEC_MODE pc limit) (unat (of_nat RETURN_OP :: u8)) w st (Suc pc) =
        Ok (LAI_ERROR_NONE, w', st') \<and> conf S (bs @ [blk (Suc pc) limit]) ((is @ [it]) @ [return_item]) [] L (w', st')"
      by (fastforce simp: parse_opcode_control parse_return_def conf_def return_item_def)
  qed
  also have "leads S \<dots> (conf S (bs @ [blk (Suc pc + length (aexp_bytes e)) limit]) ((is @ [it]) @ [return_item])
      ([] @ [OpObject (int_var v)]) L)"
    by (rule leads_aexp [OF S(1) e]) (use asks_predicate(3) [OF pos] l at_code_Cons [OF c] in simp_all)
  also have "leads S \<dots> (returned S bs' is' v)"
  proof (rule leads_process [OF S(1) l])
    fix w st
    assume v: "view st (s_cs S @ [s_ctx S]) (bs @ [blk (Suc pc + length (aexp_bytes e)) limit])
        ((is @ [it]) @ [return_item]) ([] @ [OpObject (int_var v)])" and w: "with_locals S L w"
    show "\<exists>w' st'. process_item (s_env S) (s_ctx S) (int (length bs)) (blk (Suc pc + length (aexp_bytes e)) limit)
        return_item (int (length (is @ [it]))) w st = Ok (LAI_ERROR_NONE, w', st') \<and> returned S bs' is' v (w', st')"
      using process_return_view [OF S w v [unfolded append_Nil] b] by (simp add: process_item_def return_item_def)
  qed
  finally show ?thesis .
qed

end
