(* ===== verification/Lai_Correct.thy ===== *)
theory Lai_Correct
  imports Lai_Stmts
begin

text \<open>
  The interpreter computes the meaning of the programs of \<open>Lai_Program\<close>: induction on executions,
  then the evaluation of a whole method.
\<close>

subsection \<open>What an execution leads to\<close>

text \<open>\<open>bs\<close> are the blocks below the one that is executed, \<open>is\<close> the items up to its own.\<close>

definition target :: "'d setting \<Rightarrow> lai_blkitem list \<Rightarrow> lai_stackitem list \<Rightarrow> nat \<Rightarrow> ending \<Rightarrow>
    ('d lai_world \<times> lai_state \<Rightarrow> bool) \<Rightarrow> bool" where
  "target S bs is limit r Q \<longleftrightarrow> (case r of
     Fin L \<Rightarrow> Q = conf S (bs @ [blk limit limit]) is [] L
   | Brk L \<Rightarrow> \<exists>bs' is'. (\<forall>bl. breaks (bs @ [bl]) is bs' is') \<and> Q = conf S bs' is' [] L
   | Ret v \<Rightarrow> \<exists>bs' is'. (\<forall>bl. returns (bs @ [bl]) is bs' is') \<and> Q = returned S bs' is' v)"

lemma breaks_nest:
  assumes "breaks bs is bs' is'" and "is_cond c"
  shows "breaks (bs @ [b]) (is @ [c]) bs' is'"
proof -
  from assms(1) obtain l cs bl ds where "is = is' @ l # cs" "bs = bs' @ bl # ds" "length ds = length cs"
    "is_loop l" "\<forall>c\<in>set cs. is_cond c" by (auto simp: breaks_def)
  then have "is @ [c] = is' @ l # (cs @ [c])" "bs @ [b] = bs' @ bl # (ds @ [b])" "length (ds @ [b]) = length (cs @ [c])"
    "is_loop l" "\<forall>c\<in>set (cs @ [c]). is_cond c" using assms(2) by auto
  then show ?thesis unfolding breaks_def by blast
qed

lemma returns_nest:
  assumes "returns bs is bs' is'" and "is_cond c \<or> is_loop c"
  shows "returns (bs @ [b]) (is @ [c]) bs' is'"
proof -
  from assms(1) obtain m cs bl ds where "is = is' @ m # cs" "bs = bs' @ bl # ds" "length ds = length cs"
    "si_kind m = LAI_METHOD_STACKITEM True" "\<forall>c\<in>set cs. is_cond c \<or> is_loop c" by (auto simp: returns_def)
  then have "is @ [c] = is' @ m # (cs @ [c])" "bs @ [b] = bs' @ bl # (ds @ [b])" "length (ds @ [b]) = length (cs @ [c])"
    "si_kind m = LAI_METHOD_STACKITEM True" "\<forall>c\<in>set (cs @ [c]). is_cond c \<or> is_loop c" using assms(2) by auto
  then show ?thesis unfolding returns_def by blast
qed

lemma target_nest:
  assumes "target S bs is limit r Q" and "is_cond c" and "\<And>L. r \<noteq> Fin L"
  shows "target S (bs @ [b]) (is @ [c]) limit' r Q"
proof (cases r)
  case (Brk L)
  then obtain bs' is' where "\<And>bl. breaks (bs @ [bl]) is bs' is'" "Q = conf S bs' is' [] L"
    using assms(1) by (auto simp: target_def)
  then have "\<forall>bl. breaks ((bs @ [b]) @ [bl]) (is @ [c]) bs' is'" "Q = conf S bs' is' [] L"
    using breaks_nest [OF _ assms(2)] by blast+
  then show ?thesis unfolding target_def Brk by auto
next
  case (Ret v)
  then obtain bs' is' where "\<And>bl. returns (bs @ [bl]) is bs' is'" "Q = returned S bs' is' v"
    using assms(1) by (auto simp: target_def)
  then have "\<forall>bl. returns ((bs @ [b]) @ [bl]) (is @ [c]) bs' is'" "Q = returned S bs' is' v"
    using returns_nest assms(2) by blast+
  then show ?thesis unfolding target_def Ret by auto
qed (use assms(3) in blast)

lemma target_loop_return:
  assumes "target S bs is limit (Ret v) Q" and "is_loop c"
  shows "target S (bs @ [b]) (is @ [c]) limit' (Ret v) Q"
proof -
  obtain bs' is' where "\<And>bl. returns (bs @ [bl]) is bs' is'" "Q = returned S bs' is' v"
    using assms(1) by (auto simp: target_def)
  then have "\<forall>bl. returns ((bs @ [b]) @ [bl]) (is @ [c]) bs' is'" "Q = returned S bs' is' v"
    using returns_nest assms(2) by blast+
  then show ?thesis unfolding target_def by auto
qed

lemma target_loop_break: "is_loop c \<Longrightarrow> target S bs (is @ [c]) limit (Brk L) (conf S bs is [] L)"
  unfolding target_def ending.case breaks_def
  by (intro exI [of _ bs] exI [of _ "is"] conjI allI exI [of _ c] exI [of _ "[] :: lai_stackitem list"] exI
      exI [of _ "[] :: lai_blkitem list"]) auto

lemma item_kinds [simp]: "is_loop (loop_item s p)" "is_cond (if_item s h p l)"
  by (simp_all add: is_loop_def is_cond_def item_defs)

text \<open>The configurations a list of statements is carried out from: a loop is entered again at its head.\<close>

definition heads :: "'d setting \<Rightarrow> lai_blkitem list \<Rightarrow> lai_stackitem list \<Rightarrow> nat \<Rightarrow> nat \<Rightarrow> stmt list \<Rightarrow> locals \<Rightarrow>
    ('d lai_world \<times> lai_state \<Rightarrow> bool) set" where
  "heads S bs is pc limit ps L = insert (conf S (bs @ [blk pc limit]) is [] L)
     (case ps of
        While e body # _ \<Rightarrow>
          let en = pc + length (stmt_bytes (While e body)); q = en - length (aexp_bytes e @ program_bytes body) in
          {conf S ((bs @ [blk en limit]) @ [blk q en]) (is @ [loop_item 0 q]) [] L}
      | _ \<Rightarrow> {})"

definition carries :: "'d setting \<Rightarrow> stmt list \<Rightarrow> locals \<Rightarrow> ending \<Rightarrow> bool" where
  "carries S ps L r \<longleftrightarrow> (\<forall>pc limit bs is it Q. \<forall>P \<in> heads S bs (is @ [it]) pc limit ps L.
     length L = 8 \<longrightarrow> at_code S pc (program_bytes ps) \<longrightarrow> pc + length (program_bytes ps) = limit \<longrightarrow> limit < 2 ^ 28 \<longrightarrow>
     runs_body S it \<longrightarrow> target S bs (is @ [it]) limit r Q \<longrightarrow> leads S P Q)"

lemma carriesD:
  assumes "carries S ps L r" and "P \<in> heads S bs (is @ [it]) pc limit ps L" and "length L = 8"
    and "at_code S pc (program_bytes ps)" and "pc + length (program_bytes ps) = limit" and "limit < 2 ^ 28"
    and "runs_body S it" and "target S bs (is @ [it]) limit r Q"
  shows "leads S P Q"
  using assms unfolding carries_def by blast

lemma start_in_heads [simp, intro]: "conf S (bs @ [blk pc limit]) is [] L \<in> heads S bs is pc limit ps L"
  by (simp add: heads_def)

lemma program_bytes_simps [simp]: "program_bytes [] = []" "program_bytes (p # ps) = stmt_bytes p @ program_bytes ps"
  by (simp_all add: program_bytes_def)

lemma stmt_bytes_blocks:
  "stmt_bytes (While e bs) = of_nat WHILE_OP # pkg (aexp_bytes e @ program_bytes bs)"
  "stmt_bytes (If e ts None) = of_nat IF_OP # pkg (aexp_bytes e @ program_bytes ts)"
  "stmt_bytes (If e ts (Some es)) = of_nat IF_OP # pkg (aexp_bytes e @ program_bytes ts) @
     of_nat ELSE_OP # pkg (program_bytes es)"
  by (simp_all add: program_bytes_def)

lemma exec_length: "exec ps L r \<Longrightarrow> (\<forall>L'. r = Fin L' \<or> r = Brk L' \<longrightarrow> length L' = length L)"
  by (induction rule: exec.induct) auto

subsection \<open>Conditions\<close>

text \<open>No statement begins with \<open>Else\<close>, so an \<open>If\<close> without one does not take the next statement for it.\<close>

lemma stmt_head:
  obtains n cs where "stmt_bytes p = of_nat n # cs" "simple_opcode n" "n \<noteq> ELSE_OP"
proof (cases p)
  case (Store e i)
  show ?thesis by (rule that [of STORE_OP]) (simp_all add: Store simple_opcodes, simp add: opcode_defs)
next
  case (If e ts es)
  show ?thesis by (rule that [of IF_OP]) (simp_all add: If simple_opcodes, simp add: opcode_defs)
next
  case (While e bs)
  show ?thesis by (rule that [of WHILE_OP]) (simp_all add: While simple_opcodes, simp add: opcode_defs)
next
  case Break
  show ?thesis by (rule that [of BREAK_OP]) (simp_all add: Break simple_opcodes, simp add: opcode_defs)
next
  case (Return e)
  show ?thesis by (rule that [of RETURN_OP]) (simp_all add: Return simple_opcodes, simp add: opcode_defs)
qed

lemma program_head:
  assumes "at_code S pc (program_bytes ps)" and "program_bytes ps \<noteq> []"
  shows "\<exists>b. rd (ci_code (s_ctx S)) pc = Ok b \<and> unat b \<noteq> ELSE_OP"
proof -
  from assms(2) obtain p qs where p: "ps = p # qs" by (cases ps) auto
  obtain n cs where n: "stmt_bytes p = of_nat n # cs" "simple_opcode n" "n \<noteq> ELSE_OP" by (rule stmt_head)
  have "at_code S pc (of_nat n # cs @ program_bytes qs)" using assms(1) p n(1) by simp
  then show ?thesis using at_code_Cons n(3) simple_opcodeD(1) [OF n(2)] by fastforce
qed

text \<open>The predicate of a condition or a loop.\<close>

lemma leads_test:
  assumes S: "setting_ok S" and it: "\<And>p. p < e \<Longrightarrow> asks S it 0 p e LAI_OBJECT_MODE"
    and c: "at_code S q (aexp_bytes x @ body)" and l: "q + length (aexp_bytes x @ body) = e"
    and v: "aval x L = Some v" "length L = 8"
  shows "leads S (conf S (B @ [blk q e]) (is @ [it]) [] L)
    (conf S (B @ [blk (q + length (aexp_bytes x)) e]) (is @ [it]) [OpObject (int_var v)] L)"
proof -
  have "q < e" using l aexp_bytes_nonempty [of x] unfolding length_append by linarith
  then show ?thesis
    using leads_aexp [OF S v, of it "[]" q e B "is"] it at_code_append [OF c] l by simp
qed

definition branch :: "u64 \<Rightarrow> stmt list \<Rightarrow> stmt list option \<Rightarrow> stmt list option" where
  "branch v ts es = (if v \<noteq> 0 then Some ts else es)"

lemma leads_if_only:
  assumes S: "setting_ok S" and it: "runs_body S it" and c: "at_code S pc (stmt_bytes (If x ts None) @ program_bytes ps)"
    and l: "pc + length (stmt_bytes (If x ts None) @ program_bytes ps) = limit" "limit < 2 ^ 28"
    and v: "aval x L = Some v" "length L = 8"
    and en: "en = pc + length (stmt_bytes (If x ts None))"
  obtains q where "at_code S q (program_bytes ts)" "q + length (program_bytes ts) = en"
    "leads S (conf S (bs @ [blk pc limit]) (is @ [it]) [] L)
      (if v \<noteq> 0 then conf S ((bs @ [blk en limit]) @ [blk q en]) ((is @ [it]) @ [if_item LAI_COND_BRANCH False 0 (Suc en)]) [] L
       else conf S (bs @ [blk en limit]) (is @ [it]) [] L)"
proof -
  let ?body = "aexp_bytes x @ program_bytes ts"
  note c = c [unfolded stmt_bytes_blocks] and l = l [unfolded stmt_bytes_blocks]
    and en = en [unfolded stmt_bytes_blocks]
  have a: "at_code S pc (of_nat IF_OP # pkg ?body)" "at_code S en (program_bytes ps)"
    using at_code_append [OF c] en by simp_all
  have e: "en = Suc pc + length (pkg ?body)" "en + length (program_bytes ps) = limit" using l en by simp_all
  then have "en \<le> limit" by linarith
  moreover have "\<exists>b. rd (ci_code (s_ctx S)) en = Ok b \<and> unat b \<noteq> ELSE_OP" if "en < limit"
    by (rule program_head [OF a(2)]) (use that e(2) in auto)
  ultimately obtain q where q: "at_code S q ?body" "q + length ?body = en"
    "\<And>L. leads S (conf S (bs @ [blk pc limit]) (is @ [it]) [] L)
      (conf S ((bs @ [blk en limit]) @ [blk q en]) ((is @ [it]) @ [if_item 0 False 0 (Suc en)]) [] L)"
    using leads_if_head [OF S it a(1) e(1) _ l(2), of bs "is" thesis] by blast
  let ?q = "q + length (aexp_bytes x)"
  have le: "?q \<le> en" using q(2) unfolding length_append by linarith
  note q(3) [of L]
  also have "leads S (conf S ((bs @ [blk en limit]) @ [blk q en]) ((is @ [it]) @ [if_item 0 False 0 (Suc en)]) [] L)
      (conf S ((bs @ [blk en limit]) @ [blk ?q en]) ((is @ [it]) @ [if_item 0 False 0 (Suc en)]) [OpObject (int_var v)] L)"
    by (rule leads_test [OF S asks_predicate(1) q(1,2) v])
  also note leads_if_predicate [OF S le]
  finally show thesis
    by (intro that [of ?q]) (use at_code_append [OF q(1)] q(2) in \<open>simp_all split: if_splits\<close>)
qed

lemma leads_if_else:
  assumes S: "setting_ok S" and it: "runs_body S it"
    and c: "at_code S pc (stmt_bytes (If x ts (Some fs)) @ program_bytes ps)"
    and l: "pc + length (stmt_bytes (If x ts (Some fs)) @ program_bytes ps) = limit" "limit < 2 ^ 28"
    and v: "aval x L = Some v" "length L = 8"
    and en: "en = pc + length (stmt_bytes (If x ts (Some fs)))"
  obtains q e q' where "at_code S q (program_bytes ts)" "q + length (program_bytes ts) = e" "e \<le> limit"
    "at_code S q' (program_bytes fs)" "q' + length (program_bytes fs) = en"
    "leads S (conf S (bs @ [blk pc limit]) (is @ [it]) [] L)
      (conf S ((bs @ [blk en limit]) @ [if v \<noteq> 0 then blk q e else blk q' en])
        ((is @ [it]) @ [if_item LAI_COND_BRANCH True q' en]) [] L)"
proof -
  let ?body = "aexp_bytes x @ program_bytes ts"
  note c = c [unfolded stmt_bytes_blocks] and l = l [unfolded stmt_bytes_blocks]
    and en = en [unfolded stmt_bytes_blocks]
  have a: "at_code S pc (of_nat IF_OP # pkg ?body @ of_nat ELSE_OP # pkg (program_bytes fs))"
    using at_code_append [OF c] by simp
  define e where "e = Suc pc + length (pkg ?body)"
  have e: "en = Suc e + length (pkg (program_bytes fs))" "en + length (program_bytes ps) = limit"
    using l en e_def by simp_all
  then have "en \<le> limit" by linarith
  then obtain q q' where q: "at_code S q ?body" "q + length ?body = e" "at_code S q' (program_bytes fs)"
    "q' + length (program_bytes fs) = en"
    "\<And>L. leads S (conf S (bs @ [blk pc limit]) (is @ [it]) [] L)
      (conf S ((bs @ [blk en limit]) @ [blk q e]) ((is @ [it]) @ [if_item 0 True q' en]) [] L)"
    by (rule leads_if_else_head [OF S it a e_def e(1) _ l(2), of bs "is"]) blast
  let ?q = "q + length (aexp_bytes x)"
  have le: "?q \<le> e" using q(2) unfolding length_append by linarith
  note q(5) [of L]
  also have "leads S (conf S ((bs @ [blk en limit]) @ [blk q e]) ((is @ [it]) @ [if_item 0 True q' en]) [] L)
      (conf S ((bs @ [blk en limit]) @ [blk ?q e]) ((is @ [it]) @ [if_item 0 True q' en]) [OpObject (int_var v)] L)"
    by (rule leads_test [OF S asks_predicate(1) q(1,2) v])
  also note leads_if_predicate [OF S le]
  finally have "leads S (conf S (bs @ [blk pc limit]) (is @ [it]) [] L)
      (conf S ((bs @ [blk en limit]) @ [if v \<noteq> 0 then blk ?q e else blk q' en])
        ((is @ [it]) @ [if_item LAI_COND_BRANCH True q' en]) [] L)"
    by (simp split: if_splits)
  moreover have "e \<le> limit" using e by linarith
  ultimately show thesis
    by (intro that [of ?q e q']) (use at_code_append [OF q(1)] q(2,3,4) in simp_all)
qed

lemma leads_if:
  assumes S: "setting_ok S" and it: "runs_body S it" and c: "at_code S pc (stmt_bytes (If x ts es) @ program_bytes ps)"
    and l: "pc + length (stmt_bytes (If x ts es) @ program_bytes ps) = limit" "limit < 2 ^ 28"
    and v: "aval x L = Some v" "length L = 8" and b: "branch v ts es = Some br"
  obtains q e h p f where "at_code S q (program_bytes br)" "q + length (program_bytes br) = e" "e \<le> limit"
    "leads S (conf S (bs @ [blk pc limit]) (is @ [it]) [] L)
      (conf S ((bs @ [blk (pc + length (stmt_bytes (If x ts es))) limit]) @ [blk q e])
        ((is @ [it]) @ [if_item LAI_COND_BRANCH h p f]) [] L)"
proof (cases es)
  case None
  then have br: "v \<noteq> 0" "br = ts" using b by (simp_all add: branch_def split: if_splits)
  obtain q where q: "at_code S q (program_bytes ts)" "q + length (program_bytes ts) = pc + length (stmt_bytes (If x ts None))"
    "leads S (conf S (bs @ [blk pc limit]) (is @ [it]) [] L)
      (if v \<noteq> 0 then conf S ((bs @ [blk (pc + length (stmt_bytes (If x ts None))) limit]) @
         [blk q (pc + length (stmt_bytes (If x ts None)))])
         ((is @ [it]) @ [if_item LAI_COND_BRANCH False 0 (Suc (pc + length (stmt_bytes (If x ts None))))]) [] L
       else conf S (bs @ [blk (pc + length (stmt_bytes (If x ts None))) limit]) (is @ [it]) [] L)"
    by (rule leads_if_only [OF S it c [unfolded None] l [unfolded None] v refl, of bs "is"])
  have "pc + length (stmt_bytes (If x ts None)) \<le> limit" using l(1) None by simp
  with q br show ?thesis using that [of q] unfolding None by (simp del: stmt_bytes.simps)
next
  case (Some fs)
  obtain q e q' where q: "at_code S q (program_bytes ts)" "q + length (program_bytes ts) = e" "e \<le> limit"
    "at_code S q' (program_bytes fs)" "q' + length (program_bytes fs) = pc + length (stmt_bytes (If x ts (Some fs)))"
    "leads S (conf S (bs @ [blk pc limit]) (is @ [it]) [] L)
      (conf S ((bs @ [blk (pc + length (stmt_bytes (If x ts (Some fs)))) limit]) @
        [if v \<noteq> 0 then blk q e else blk q' (pc + length (stmt_bytes (If x ts (Some fs))))])
        ((is @ [it]) @ [if_item LAI_COND_BRANCH True q' (pc + length (stmt_bytes (If x ts (Some fs))))]) [] L)"
    by (rule leads_if_else [OF S it c [unfolded Some] l [unfolded Some] v refl, of bs "is"])
  have le: "pc + length (stmt_bytes (If x ts (Some fs))) \<le> limit" using l(1) Some by simp
  show ?thesis
  proof (cases "v = 0")
    case True
    then have "br = fs" using b Some by (simp add: branch_def)
    with q(4-6) True le show ?thesis by (intro that [unfolded Some]) (simp_all del: stmt_bytes.simps)
  next
    case False
    then have "br = ts" using b by (simp add: branch_def)
    with q(1-3,6) False show ?thesis by (intro that [unfolded Some]) (simp_all del: stmt_bytes.simps)
  qed
qed

subsection \<open>Induction on executions\<close>

text \<open>A list of statements that is not a loop is carried out from its beginning only.\<close>

lemma carriesI:
  assumes "\<And>e body. p \<noteq> While e body"
    and "\<And>pc limit bs is it Q. length L = 8 \<Longrightarrow> at_code S pc (stmt_bytes p @ program_bytes ps) \<Longrightarrow>
      pc + length (stmt_bytes p @ program_bytes ps) = limit \<Longrightarrow> limit < 2 ^ 28 \<Longrightarrow> runs_body S it \<Longrightarrow>
      target S bs (is @ [it]) limit r Q \<Longrightarrow> leads S (conf S (bs @ [blk pc limit]) (is @ [it]) [] L) Q"
  shows "carries S (p # ps) L r"
  unfolding carries_def
proof (intro allI ballI impI)
  fix pc limit bs "is" it Q P
  assume P: "P \<in> heads S bs (is @ [it]) pc limit (p # ps) L" and a: "length L = 8" "at_code S pc (program_bytes (p # ps))"
    "pc + length (program_bytes (p # ps)) = limit" "limit < 2 ^ 28" "runs_body S it" "target S bs (is @ [it]) limit r Q"
  have "P = conf S (bs @ [blk pc limit]) (is @ [it]) [] L"
  proof (cases p)
    case (While e body)
    then show ?thesis using assms(1) by blast
  qed (use P in \<open>simp_all add: heads_def\<close>)
  then show "leads S P Q" using assms(2) [OF a(1) _ _ a(4-6)] a(2,3) by simp
qed

lemma carries_Nil: "carries S [] L (Fin L)"
  by (auto simp: carries_def heads_def target_def)

text \<open>After a statement at its place the rest is carried out.\<close>

lemma carries_rest:
  assumes "carries S ps L' r" and "length L' = 8" and "at_code S pc (stmt_bytes p @ program_bytes ps)"
    and "pc + length (stmt_bytes p @ program_bytes ps) = limit" and "limit < 2 ^ 28" and "runs_body S it"
    and "target S bs (is @ [it]) limit r Q"
  shows "leads S (conf S (bs @ [blk (pc + length (stmt_bytes p)) limit]) (is @ [it]) [] L') Q"
  by (rule carriesD [OF assms(1) start_in_heads assms(2) _ _ assms(5-7)])
    (use at_code_append [OF assms(3)] assms(4) in simp_all)

lemma carries_Store:
  assumes S: "setting_ok S" and e: "aval e L = Some v" "i < length L" and r: "carries S ps (L[i := Some v]) r"
  shows "carries S (Store e i # ps) L r"
proof (rule carriesI)
  fix pc limit bs "is" it Q
  assume a: "length L = 8" "at_code S pc (stmt_bytes (Store e i) @ program_bytes ps)"
    "pc + length (stmt_bytes (Store e i) @ program_bytes ps) = limit" "limit < 2 ^ 28" "runs_body S it"
    "target S bs (is @ [it]) limit r Q"
  have "leads S (conf S (bs @ [blk pc limit]) (is @ [it]) [] L)
      (conf S (bs @ [blk (pc + length (stmt_bytes (Store e i))) limit]) (is @ [it]) [] (L[i := Some v]))"
    by (rule leads_store [OF S a(5) _ _ e(1) a(1) e(2)]) (use at_code_append [OF a(2)] a(3) in simp_all)
  also have "leads S \<dots> Q" by (rule carries_rest [OF r _ a(2-6)]) (use a(1) in simp)
  finally show "leads S (conf S (bs @ [blk pc limit]) (is @ [it]) [] L) Q" .
qed simp

lemma carries_If:
  assumes S: "setting_ok S" and v: "aval e L = Some v" "branch v ts es = Some br"
    and b: "carries S br L (Fin L')" "length L = 8 \<Longrightarrow> length L' = 8" and r: "carries S ps L' r"
  shows "carries S (If e ts es # ps) L r"
proof (rule carriesI)
  fix pc limit bs "is" it Q
  assume a: "length L = 8" "at_code S pc (stmt_bytes (If e ts es) @ program_bytes ps)"
    "pc + length (stmt_bytes (If e ts es) @ program_bytes ps) = limit" "limit < 2 ^ 28" "runs_body S it"
    "target S bs (is @ [it]) limit r Q"
  let ?B = "bs @ [blk (pc + length (stmt_bytes (If e ts es))) limit]"
  obtain q en h p f where q: "at_code S q (program_bytes br)" "q + length (program_bytes br) = en" "en \<le> limit"
    "leads S (conf S (bs @ [blk pc limit]) (is @ [it]) [] L)
      (conf S (?B @ [blk q en]) ((is @ [it]) @ [if_item LAI_COND_BRANCH h p f]) [] L)"
    by (rule leads_if [OF S a(5,2-4) v(1) a(1) v(2), of bs "is"])
  note q(4)
  also have "leads S (conf S (?B @ [blk q en]) ((is @ [it]) @ [if_item LAI_COND_BRANCH h p f]) [] L)
      (conf S (?B @ [blk en en]) ((is @ [it]) @ [if_item LAI_COND_BRANCH h p f]) [] L')"
    by (rule carriesD [OF b(1) start_in_heads a(1) q(1,2)]) (use q(3) a(4) in \<open>simp_all add: target_def\<close>)
  also note leads_if_end [OF S]
  also have "leads S (conf S ?B (is @ [it]) [] L') Q" by (rule carries_rest [OF r b(2) [OF a(1)] a(2-6)])
  finally show "leads S (conf S (bs @ [blk pc limit]) (is @ [it]) [] L) Q" .
qed simp

lemma carries_If_end:
  assumes S: "setting_ok S" and v: "aval e L = Some v" "branch v ts es = Some br"
    and b: "carries S br L r" and r: "\<And>L'. r \<noteq> Fin L'"
  shows "carries S (If e ts es # ps) L r"
proof (rule carriesI)
  fix pc limit bs "is" it Q
  assume a: "length L = 8" "at_code S pc (stmt_bytes (If e ts es) @ program_bytes ps)"
    "pc + length (stmt_bytes (If e ts es) @ program_bytes ps) = limit" "limit < 2 ^ 28" "runs_body S it"
    "target S bs (is @ [it]) limit r Q"
  let ?B = "bs @ [blk (pc + length (stmt_bytes (If e ts es))) limit]"
  obtain q en h p f where q: "at_code S q (program_bytes br)" "q + length (program_bytes br) = en" "en \<le> limit"
    "leads S (conf S (bs @ [blk pc limit]) (is @ [it]) [] L)
      (conf S (?B @ [blk q en]) ((is @ [it]) @ [if_item LAI_COND_BRANCH h p f]) [] L)"
    by (rule leads_if [OF S a(5,2-4) v(1) a(1) v(2), of bs "is"])
  note q(4)
  also have "leads S (conf S (?B @ [blk q en]) ((is @ [it]) @ [if_item LAI_COND_BRANCH h p f]) [] L) Q"
    by (rule carriesD [OF b start_in_heads a(1) q(1,2) _ _ target_nest [OF a(6) _ r]]) (use q(3) a(4) in simp_all)
  finally show "leads S (conf S (bs @ [blk pc limit]) (is @ [it]) [] L) Q" .
qed simp

lemma carries_If_none:
  assumes S: "setting_ok S" and v: "aval e L = Some 0" and r: "carries S ps L r"
  shows "carries S (If e ts None # ps) L r"
proof (rule carriesI)
  fix pc limit bs "is" it Q
  assume a: "length L = 8" "at_code S pc (stmt_bytes (If e ts None) @ program_bytes ps)"
    "pc + length (stmt_bytes (If e ts None) @ program_bytes ps) = limit" "limit < 2 ^ 28" "runs_body S it"
    "target S bs (is @ [it]) limit r Q"
  have "leads S (conf S (bs @ [blk pc limit]) (is @ [it]) [] L)
      (conf S (bs @ [blk (pc + length (stmt_bytes (If e ts None))) limit]) (is @ [it]) [] L)"
    by (rule leads_if_only [OF S a(5,2-4) v a(1) refl, of bs "is"]) simp
  also have "leads S \<dots> Q" by (rule carries_rest [OF r a(1-6)])
  finally show "leads S (conf S (bs @ [blk pc limit]) (is @ [it]) [] L) Q" .
qed simp

lemma carries_Break: "setting_ok S \<Longrightarrow> carries S (Break # ps) L (Brk L)"
proof (rule carriesI)
  assume S: "setting_ok S"
  fix pc limit bs "is" it Q
  assume a: "length L = 8" "at_code S pc (stmt_bytes Break @ program_bytes ps)"
    "pc + length (stmt_bytes Break @ program_bytes ps) = limit" "limit < 2 ^ 28" "runs_body S it"
    "target S bs (is @ [it]) limit (Brk L) Q"
  from a(6) obtain bs' is' where b: "\<And>bl. breaks (bs @ [bl]) (is @ [it]) bs' is'" "Q = conf S bs' is' [] L"
    by (auto simp: target_def)
  show "leads S (conf S (bs @ [blk pc limit]) (is @ [it]) [] L) Q"
    unfolding b(2) by (rule leads_break [OF S a(5) _ _ b(1)]) (use a(2,3) in auto)
qed simp

lemma carries_Return:
  assumes S: "setting_ok S" "quiet S" and v: "aval e L = Some v"
  shows "carries S (Return e # ps) L (Ret v)"
proof (rule carriesI)
  fix pc limit bs "is" it Q
  assume a: "length L = 8" "at_code S pc (stmt_bytes (Return e) @ program_bytes ps)"
    "pc + length (stmt_bytes (Return e) @ program_bytes ps) = limit" "limit < 2 ^ 28" "runs_body S it"
    "target S bs (is @ [it]) limit (Ret v) Q"
  from a(6) obtain bs' is' where b: "\<And>bl. returns (bs @ [bl]) (is @ [it]) bs' is'" "Q = returned S bs' is' v"
    by (auto simp: target_def)
  show "leads S (conf S (bs @ [blk pc limit]) (is @ [it]) [] L) Q"
    unfolding b(2) by (rule leads_return [OF S a(5) _ _ v a(1) b(1)]) (use at_code_append [OF a(2)] a(3) in simp_all)
qed simp

subsection \<open>Loops\<close>

lemma carries_While:
  assumes S: "setting_ok S" and v: "aval e L = Some v"
    and k: "\<And>pc limit bs is it Q q en. length L = 8 \<Longrightarrow> at_code S pc (stmt_bytes (While e body) @ program_bytes ps) \<Longrightarrow>
      pc + length (stmt_bytes (While e body) @ program_bytes ps) = limit \<Longrightarrow> limit < 2 ^ 28 \<Longrightarrow> runs_body S it \<Longrightarrow>
      target S bs (is @ [it]) limit r Q \<Longrightarrow> en = pc + length (stmt_bytes (While e body)) \<Longrightarrow>
      q = en - length (aexp_bytes e @ program_bytes body) \<Longrightarrow> en \<le> limit \<Longrightarrow>
      at_code S (q + length (aexp_bytes e)) (program_bytes body) \<Longrightarrow>
      q + length (aexp_bytes e) + length (program_bytes body) = en \<Longrightarrow>
      leads S (if v \<noteq> 0
        then conf S ((bs @ [blk en limit]) @ [blk (q + length (aexp_bytes e)) en])
          ((is @ [it]) @ [loop_item LAI_LOOP_ITERATION q]) [] L
        else conf S (bs @ [blk en limit]) (is @ [it]) [] L) Q"
  shows "carries S (While e body # ps) L r"
  unfolding carries_def
proof (intro allI ballI impI)
  fix pc limit bs "is" it Q P
  let ?body = "aexp_bytes e @ program_bytes body"
  define en where "en = pc + length (stmt_bytes (While e body))"
  define q where "q = en - length ?body"
  assume P: "P \<in> heads S bs (is @ [it]) pc limit (While e body # ps) L" and L: "length L = 8"
    and c: "at_code S pc (program_bytes (While e body # ps))" and l: "pc + length (program_bytes (While e body # ps)) = limit"
    and l28: "limit < 2 ^ 28" and it: "runs_body S it" and Q: "target S bs (is @ [it]) limit r Q"
  let ?H = "conf S ((bs @ [blk en limit]) @ [blk q en]) ((is @ [it]) @ [loop_item 0 q]) [] L"
  have c': "at_code S pc (stmt_bytes (While e body) @ program_bytes ps)"
    and l': "pc + length (stmt_bytes (While e body) @ program_bytes ps) = limit"
    using c l by (simp_all only: program_bytes_simps)
  have cw: "at_code S pc (of_nat WHILE_OP # pkg ?body)"
    using at_code_append [OF c'] unfolding stmt_bytes_blocks by blast
  have en: "en = Suc pc + length (pkg ?body)" "en \<le> limit" using l' unfolding en_def stmt_bytes_blocks by simp_all
  obtain q' where q': "at_code S q' ?body" "q' + length ?body = en"
    "leads S (conf S (bs @ [blk pc limit]) (is @ [it]) [] L)
      (conf S ((bs @ [blk en limit]) @ [blk q' en]) ((is @ [it]) @ [loop_item 0 q']) [] L)"
    using leads_while_head [OF S it cw en l28, of bs "is" thesis] by blast
  have qq: "q' = q" using q'(2) by (simp add: q_def)
  note q = q' [unfolded qq]
  have le: "q + length (aexp_bytes e) \<le> en" using q(2) unfolding length_append by linarith
  have "leads S ?H (conf S ((bs @ [blk en limit]) @ [blk (q + length (aexp_bytes e)) en])
      ((is @ [it]) @ [loop_item 0 q]) [OpObject (int_var v)] L)"
    by (rule leads_test [OF S asks_predicate(2) q(1,2) v L])
  also note leads_loop_predicate [OF S le]
  also have "leads S (if v \<noteq> 0
      then conf S ((bs @ [blk en limit]) @ [blk (q + length (aexp_bytes e)) en])
        ((is @ [it]) @ [loop_item LAI_LOOP_ITERATION q]) [] L
      else conf S (bs @ [blk en limit]) (is @ [it]) [] L) Q"
    by (rule k [OF L c' l' l28 it Q en_def q_def en(2)])
      (use at_code_append [OF q(1)] q(2) in simp_all)
  finally have H: "leads S ?H Q" .
  have "P = conf S (bs @ [blk pc limit]) (is @ [it]) [] L \<or> P = ?H"
    using P unfolding heads_def q_def en_def by (simp add: Let_def)
  then show "leads S P Q" using H leads_trans [OF q(3) H] by blast
qed

lemma carries_While_end:
  assumes "setting_ok S" and "aval e L = Some 0" and r: "carries S ps L r"
  shows "carries S (While e body # ps) L r"
  by (rule carries_While [OF assms(1,2)]) (simp only: if_False simp_thms carries_rest [OF r])

lemma carries_While_again:
  assumes S: "setting_ok S" and v: "aval e L = Some v" "v \<noteq> 0" and b: "carries S body L (Fin L')"
    and L': "length L = 8 \<Longrightarrow> length L' = 8" and r: "carries S (While e body # ps) L' r"
  shows "carries S (While e body # ps) L r"
proof (rule carries_While [OF S v(1)])
  fix pc limit bs "is" it Q q en
  assume a: "length L = 8" "at_code S pc (stmt_bytes (While e body) @ program_bytes ps)"
    "pc + length (stmt_bytes (While e body) @ program_bytes ps) = limit" "limit < 2 ^ 28" "runs_body S it"
    "target S bs (is @ [it]) limit r Q"
    and en: "en = pc + length (stmt_bytes (While e body))" "q = en - length (aexp_bytes e @ program_bytes body)" "en \<le> limit"
    and q: "at_code S (q + length (aexp_bytes e)) (program_bytes body)"
      "q + length (aexp_bytes e) + length (program_bytes body) = en"
  let ?B = "bs @ [blk en limit]" and ?I = "\<lambda>s. (is @ [it]) @ [loop_item s q]"
  have "leads S (conf S (?B @ [blk (q + length (aexp_bytes e)) en]) (?I LAI_LOOP_ITERATION) [] L)
      (conf S (?B @ [blk en en]) (?I LAI_LOOP_ITERATION) [] L')"
    by (rule carriesD [OF b start_in_heads a(1) q]) (use en(3) a(4) in \<open>simp_all add: target_def\<close>)
  also note leads_loop_end [OF S]
  also have "leads S (conf S (?B @ [blk q en]) (?I 0) [] L') Q"
    by (rule carriesD [OF r _ L' [OF a(1)] _ _ a(4-6)]) (use a(2,3) in \<open>simp_all add: heads_def Let_def en(1,2)\<close>)
  finally show "leads S (if v \<noteq> 0
      then conf S (?B @ [blk (q + length (aexp_bytes e)) en]) (?I LAI_LOOP_ITERATION) [] L
      else conf S ?B (is @ [it]) [] L) Q"
    using v(2) by simp
qed

lemma carries_While_break:
  assumes S: "setting_ok S" and v: "aval e L = Some v" "v \<noteq> 0" and b: "carries S body L (Brk L')"
    and L': "length L = 8 \<Longrightarrow> length L' = 8" and r: "carries S ps L' r"
  shows "carries S (While e body # ps) L r"
proof (rule carries_While [OF S v(1)])
  fix pc limit bs "is" it Q q en
  assume a: "length L = 8" "at_code S pc (stmt_bytes (While e body) @ program_bytes ps)"
    "pc + length (stmt_bytes (While e body) @ program_bytes ps) = limit" "limit < 2 ^ 28" "runs_body S it"
    "target S bs (is @ [it]) limit r Q"
    and en: "en = pc + length (stmt_bytes (While e body))" "en \<le> limit"
    and q: "at_code S (q + length (aexp_bytes e)) (program_bytes body)"
      "q + length (aexp_bytes e) + length (program_bytes body) = en"
  let ?B = "bs @ [blk en limit]" and ?I = "(is @ [it]) @ [loop_item LAI_LOOP_ITERATION q]"
  have "leads S (conf S (?B @ [blk (q + length (aexp_bytes e)) en]) ?I [] L) (conf S ?B (is @ [it]) [] L')"
    by (rule carriesD [OF b start_in_heads a(1) q _ _ target_loop_break]) (use en(2) a(4) in simp_all)
  also have "leads S \<dots> Q" unfolding en(1) by (rule carries_rest [OF r L' [OF a(1)] a(2-6)])
  finally show "leads S (if v \<noteq> 0
      then conf S (?B @ [blk (q + length (aexp_bytes e)) en]) ?I [] L else conf S ?B (is @ [it]) [] L) Q"
    using v(2) by simp
qed

lemma carries_While_return:
  assumes S: "setting_ok S" and v: "aval e L = Some v" "v \<noteq> 0" and b: "carries S body L (Ret x)"
  shows "carries S (While e body # ps) L (Ret x)"
proof (rule carries_While [OF S v(1)])
  fix pc limit bs "is" it Q q en
  assume a: "length L = 8" "limit < 2 ^ 28" "target S bs (is @ [it]) limit (Ret x) Q" "en \<le> limit"
    and q: "at_code S (q + length (aexp_bytes e)) (program_bytes body)"
      "q + length (aexp_bytes e) + length (program_bytes body) = en"
  let ?B = "bs @ [blk en limit]" and ?I = "(is @ [it]) @ [loop_item LAI_LOOP_ITERATION q]"
  have "leads S (conf S (?B @ [blk (q + length (aexp_bytes e)) en]) ?I [] L) Q"
    by (rule carriesD [OF b start_in_heads a(1) q _ _ target_loop_return [OF a(3)]]) (use a(2,4) in simp_all)
  then show "leads S (if v \<noteq> 0
      then conf S (?B @ [blk (q + length (aexp_bytes e)) en]) ?I [] L else conf S ?B (is @ [it]) [] L) Q"
    using v(2) by simp
qed

text \<open>Every execution of the language is carried out by the interpreter.\<close>

lemma exec_carries:
  assumes S: "setting_ok S" "quiet S"
  shows "exec ps L r \<Longrightarrow> carries S ps L r"
proof (induction rule: exec.induct)
  case (Nil L)
  show ?case by (rule carries_Nil)
next
  case (Store e L v i ps r)
  show ?case by (rule carries_Store [OF S(1) Store.hyps(1,2) Store.IH])
next
  case (If_true e L v ts L' ps r es)
  show ?case
    by (rule carries_If [OF S(1) If_true.hyps(1) _ If_true.IH(1) _ If_true.IH(2)])
      (use If_true.hyps(2) exec_length [OF If_true.hyps(3)] in \<open>simp_all add: branch_def\<close>)
next
  case (If_true_end e L v ts r es ps)
  show ?case
    by (rule carries_If_end [OF S(1) If_true_end.hyps(1) _ If_true_end.IH If_true_end.hyps(4)])
      (use If_true_end.hyps(2) in \<open>simp add: branch_def\<close>)
next
  case (If_none e L ps r ts)
  show ?case by (rule carries_If_none [OF S(1) If_none.hyps(1) If_none.IH])
next
  case (If_false e L es L' ps r ts)
  show ?case
    by (rule carries_If [OF S(1) If_false.hyps(1) _ If_false.IH(1) _ If_false.IH(2)])
      (use exec_length [OF If_false.hyps(2)] in \<open>simp_all add: branch_def\<close>)
next
  case (If_false_end e L es r ts ps)
  show ?case
    by (rule carries_If_end [OF S(1) If_false_end.hyps(1) _ If_false_end.IH If_false_end.hyps(3)]) (simp add: branch_def)
next
  case (While_end e L ps r bs)
  show ?case by (rule carries_While_end [OF S(1) While_end.hyps(1) While_end.IH])
next
  case (While_again e L v bs L' ps r)
  show ?case
    by (rule carries_While_again [OF S(1) While_again.hyps(1,2) While_again.IH(1) _ While_again.IH(2)])
      (use exec_length [OF While_again.hyps(3)] in simp)
next
  case (While_break e L v bs L' ps r)
  show ?case
    by (rule carries_While_break [OF S(1) While_break.hyps(1,2) While_break.IH(1) _ While_break.IH(2)])
      (use exec_length [OF While_break.hyps(3)] in simp)
next
  case (While_return e L v bs x ps)
  show ?case by (rule carries_While_return [OF S(1) While_return.hyps(1,2) While_return.IH])
next
  case (Break ps L)
  show ?case by (rule carries_Break [OF S(1)])
next
  case (Return e L v ps)
  show ?case by (rule carries_Return [OF S Return.hyps])
qed

end
