(* ===== verification/Lai_Eval.thy ===== *)
theory Lai_Eval
  imports Lai_Correct
begin

text \<open>
  The evaluation of a method whose body is a program of \<open>Lai_Program\<close>, from \<open>lai_eval\<close> to its value;
  and what \<open>Continue\<close>, which the language does not have, does instead of going back to the predicate.
\<close>

subsection \<open>The end of a method\<close>

definition method_item :: lai_stackitem where
  "method_item = \<lparr>si_kind = LAI_METHOD_STACKITEM True, si_opstack_frame = 0\<rparr>"

lemma leads_method_end:
  assumes S: "setting_ok S" "quiet S"
  shows "leads S (conf S (bs @ [blk e e]) (is @ [method_item]) [] L) (returned S bs is 0)"
proof (rule leads_process [OF S(1) order_refl])
  let ?C = "s_cs S @ [s_ctx S]"
  fix w st
  assume v: "view st ?C (bs @ [blk e e]) (is @ [method_item]) []" and w: "with_locals S L w"
  from reserve_op_view [OF v with_locals_mem [OF S(1) w]] obtain w1 s1 where
    1: "lai_exec_reserve_opstack w st = Ok (0, w1, s1)" "ticked w w1" "view s1 ?C (bs @ [blk e e]) (is @ [method_item]) []"
      "room_op s1" by blast
  note w1 = with_locals_ticked [OF w 1(2)]
  from push_operand_view [OF 1(3,4), of "OpObject (int_var 0)"] obtain s2 where
    2: "push_operand s1 (OpObject (int_var 0)) = Ok s2"
      "view s2 ?C (bs @ [blk e e]) (is @ [method_item]) [OpObject (int_var 0)]" by auto
  from pop_blk_view [OF 2(2)] obtain s3 where
    3: "lai_exec_pop_blkstack_back s2 = Ok s3" "view s3 ?C bs (is @ [method_item]) [OpObject (int_var 0)]" by blast
  from pop_ctx_view [OF S w1 3(2)] obtain w' s4 t where
    4: "lai_exec_pop_ctxstack_back w1 s3 = Ok (w', s4)" "view s4 (s_cs S) bs (is @ [method_item]) [OpObject (int_var 0)]"
      "w' = (s_world S)\<lparr>mem_clock := t, invocations := (invocations (s_world S))[s_key S := None]\<rparr>" by blast
  from pop_item_view [OF 4(2)] obtain s5 where
    5: "lai_exec_pop_stack_back s4 = Ok s5" "view s5 (s_cs S) bs is [OpObject (int_var 0)]" by blast
  have n: "remove_method_nodes (ci_invocation (s_ctx S)) w1 = Ok w1"
    using S with_locals_invocation [OF S(1) w1] by (simp add: remove_method_nodes_def setting_ok_def quiet_def)
  have "process_item (s_env S) (s_ctx S) (int (length bs)) (blk e e) method_item (int (length is)) w st =
      Ok (LAI_ERROR_NONE, w', s5)"
    using view_ptrs(4) [OF 1(3)]
    by (simp add: process_item_def method_item_def process_method_def reserve_def ensure_def pop_context_block_item_def
        1(1) 2(1) n 3(1) 4(1) 5(1))
  then show "\<exists>w' st'. process_item (s_env S) (s_ctx S) (int (length bs)) (blk e e) method_item (int (length is)) w st =
      Ok (LAI_ERROR_NONE, w', st') \<and> returned S bs is 0 (w', st')"
    using 5(2) 4(3) by (auto simp: returned_def)
qed

text \<open>The value of a body: what it returns, 0 at its end.\<close>

definition body_value :: "stmt list \<Rightarrow> u64 \<Rightarrow> bool" where
  "body_value ps v \<longleftrightarrow> exec ps (replicate 8 None) (Ret v) \<or> v = 0 \<and> (\<exists>L. exec ps (replicate 8 None) (Fin L))"

lemma leads_body:
  assumes S: "setting_ok S" "quiet S" and v: "body_value ps v" and c: "ci_code (s_ctx S) = program_bytes ps @ rest"
    and l: "length (program_bytes ps) < 2 ^ 28"
  shows "leads S (conf S (bs @ [blk 0 (length (program_bytes ps))]) (is @ [method_item]) [] (replicate 8 None))
    (returned S bs is v)"
proof -
  let ?n = "length (program_bytes ps)"
  let ?P = "conf S (bs @ [blk 0 ?n]) (is @ [method_item]) [] (replicate 8 None)"
  have at: "at_code S 0 (program_bytes ps)" using c by (auto simp: at_code_def)
  have b: "runs_body S method_item" by (simp add: method_item_def)
  have go: "leads S ?P Q" if "exec ps (replicate 8 None) r" "target S bs (is @ [method_item]) ?n r Q" for r Q
    by (rule carriesD [OF exec_carries [OF S that(1)] start_in_heads _ at _ l b that(2)]) simp_all
  from v consider "exec ps (replicate 8 None) (Ret v)" | L where "v = 0" "exec ps (replicate 8 None) (Fin L)"
    unfolding body_value_def by blast
  then show ?thesis
  proof cases
    case 1
    have "\<forall>bl. returns (bs @ [bl]) (is @ [method_item]) bs is"
      unfolding returns_def by (intro allI exI [of _ method_item] exI [of _ "[] :: lai_stackitem list"]
          exI [of _ "[] :: lai_blkitem list"] exI) (simp add: method_item_def)
    then show ?thesis by (intro go [OF 1]) (auto simp: target_def)
  next
    case 2
    have "leads S ?P (conf S (bs @ [blk ?n ?n]) (is @ [method_item]) [] L)"
      by (rule go [OF 2(2)]) (simp add: target_def)
    also have "leads S \<dots> (returned S bs is 0)" by (rule leads_method_end [OF S])
    finally show ?thesis by (simp only: 2(1))
  qed
qed

subsection \<open>The evaluation of a method\<close>

text \<open>A method in AML whose code is the encoding of \<open>ps\<close>.\<close>

definition program_method :: "lai_nsnode \<Rightarrow> stmt list \<Rightarrow> bool" where
  "program_method n ps \<longleftrightarrow> n_type n = LAI_NAMESPACE_METHOD \<and> n_method_override n = None \<and> n_amls n \<noteq> None \<and>
     n_size n = length (program_bytes ps) \<and> take (n_size n) (n_pointer n) = program_bytes ps \<and> n_size n < 2 ^ 28"

text \<open>A state with empty stacks.\<close>

definition idle :: "lai_state \<Rightarrow> bool" where
  "idle st \<longleftrightarrow> view st [] [] [] []"

lemma reserve_all_view:
  fixes w :: "'d lai_world"
  assumes "view st cs bs is os" and "mem_left w"
  obtains w1 s1 w2 s2 w3 s3 where "lai_exec_reserve_ctxstack w st = Ok (0, w1, s1)"
    "lai_exec_reserve_blkstack w1 s1 = Ok (0, w2, s2)" "lai_exec_reserve_stack w2 s2 = Ok (0, w3, s3)"
    "ticked w w3" "view s3 cs bs is os" "room_ctx s3" "room_blk s3" "room_item s3"
proof -
  from reserve_ctx_view [OF assms] obtain w1 s1 where
    1: "lai_exec_reserve_ctxstack w st = Ok (0, w1, s1)" "ticked w w1" "view s1 cs bs is os" "room_ctx s1" by blast
  from reserve_blk_view [OF 1(3) ticked_mem [OF 1(2) assms(2)]] 1(4) obtain w2 s2 where
    2: "lai_exec_reserve_blkstack w1 s1 = Ok (0, w2, s2)" "ticked w1 w2" "view s2 cs bs is os" "room_ctx s2" "room_blk s2"
    by blast
  note t = ticked_trans [OF 1(2) 2(2)]
  from reserve_item_view [OF 2(3) ticked_mem [OF t assms(2)]] 2(4,5) obtain w3 s3 where
    3: "lai_exec_reserve_stack w2 s2 = Ok (0, w3, s3)" "ticked w2 w3" "view s3 cs bs is os" "room_item s3"
      "room_ctx s3" "room_blk s3" by blast
  show thesis by (rule that [OF 1(1) 2(1) 3(1) ticked_trans [OF t 3(2)] 3(3,5,6,4)])
qed

lemma enter_method_view:
  fixes w :: "'d lai_world"
  assumes v: "view st [] [] [] []" and room: "room_ctx st" "room_blk st" "room_item st"
    and m: "mem_left w" and n: "program_method n ps"
  shows "\<exists>st'. enter_method w st h n args True = Ok (LAI_ERROR_NONE,
      w\<lparr>mem_clock := Suc (mem_clock w),
        invocations := invocations w @ [Some \<lparr>iv_arg = args, iv_local = replicate 8 var0, iv_nodes = []\<rparr>]\<rparr>, st') \<and>
    view st' [\<lparr>ci_amls = n_amls n, ci_code = n_pointer n, ci_handle = Some h, ci_invocation = Some (length (invocations w))\<rparr>]
      [blk 0 (n_size n)] [method_item] []"
proof -
  let ?c = "\<lparr>ci_amls = n_amls n, ci_code = n_pointer n, ci_handle = Some h, ci_invocation = Some (length (invocations w))\<rparr>"
  have small: "n_size n < 2 ^ 28" using n by (simp add: program_method_def)
  have "sint (of_nat (n_size n) :: 32 word) = signed_take_bit 31 (int (n_size n))" by (simp add: signed_of_nat)
  also have "\<dots> = int (n_size n)" by (rule signed_take_bit_int_eq_self) (use small in simp_all)
  finally have l: "sint (of_nat (n_size n) :: 32 word) = int (n_size n)" .
  from push_context_view [OF v room(1), of ?c] room(2,3) obtain s1 where
    1: "push_context st ?c = Ok s1" "view s1 [?c] [] [] []" "room_blk s1" "room_item s1" by auto
  from push_block_view [OF 1(2,3), of 0 "int (n_size n)"] 1(4) obtain s2 where
    2: "push_block s1 0 (int (n_size n)) = Ok s2" "view s2 [?c] [blk 0 (n_size n)] [] []" "room_item s2"
    by (auto simp: blk_def)
  from push_item_view [OF 2(2,3), of "LAI_METHOD_STACKITEM True" 0] obtain s3 where
    3: "push_item s2 (LAI_METHOD_STACKITEM True) 0 = Ok s3" "view s3 [?c] [blk 0 (n_size n)] [method_item] []"
    by (auto simp: method_item_def)
  have "n_amls n \<noteq> None" using n by (simp add: program_method_def)
  then show ?thesis
    using 1(1) 2(1) 3 m
    by (auto simp: enter_method_def Let_def laihost_malloc_def mem_left_def ensure_def l)
qed

lemma method_value_view:
  assumes "view st [] [] [] [OpObject (int_var v)]"
  shows "\<exists>st'. method_value LAI_ERROR_NONE w st = Ok (LAI_ERROR_NONE, w, st', int_var v) \<and> idle st'"
proof -
  from pop_ops_view [of st "[]" "[]" "[]" "[]" "[OpObject (int_var v)]" w] assms obtain s1 where
    "lai_exec_pop_opstack w st 1 = Ok (w, s1)" "view s1 [] [] [] []" by auto
  then show ?thesis
    using view_ptrs [OF assms] view_slots(4) [OF assms, of 0]
    by (simp add: method_value_def ensure_def lai_exec_get_opstack_def get_objectref_int clone_int finalize_int idle_def)
qed

lemma run_program:
  fixes w :: "'d lai_world"
  assumes n: "program_method n ps" and b: "body_value ps v" and m: "mem_left w"
    and v: "view st [\<lparr>ci_amls = n_amls n, ci_code = n_pointer n, ci_handle = Some h, ci_invocation = Some k\<rparr>]
      [blk 0 (n_size n)] [method_item] []"
    and k: "invocations w = ivs @ [Some \<lparr>iv_arg = replicate 7 var0, iv_local = replicate 8 var0, iv_nodes = []\<rparr>]" "k = length ivs"
  shows "\<exists>f t st'. (\<forall>fuel \<ge> f. lai_exec_run fuel env w st =
      Ok (LAI_ERROR_NONE, w\<lparr>mem_clock := t, invocations := ivs @ [None]\<rparr>, st')) \<and>
    view st' [] [] [] [OpObject (int_var v)]"
proof -
  let ?iv = "\<lparr>iv_arg = replicate 7 var0, iv_local = replicate 8 var0, iv_nodes = []\<rparr>"
  define S where "S = \<lparr>s_env = env, s_world = w, s_key = k, s_iv = ?iv, s_cs = [],
    s_ctx = \<lparr>ci_amls = n_amls n, ci_code = n_pointer n, ci_handle = Some h, ci_invocation = Some k\<rparr>\<rparr>"
  have S: "setting_ok S" using n m k by (simp add: setting_ok_def S_def program_method_def)
  have q: "quiet S"
    unfolding quiet_def S_def by (intro conjI exI [of _ "replicate 7 None"]) (simp_all add: local_var_def)
  have "put_invocation (w\<lparr>mem_clock := mem_clock w\<rparr>) k (?iv\<lparr>iv_local := map local_var (replicate 8 None)\<rparr>) = w"
    using k by (simp add: put_invocation_def local_var_def)
  then have "with_locals S (replicate 8 None) w"
    unfolding with_locals_def S_def by (intro conjI exI [of _ "mem_clock w"]) simp_all
  then have "conf S ([] @ [blk 0 (length (program_bytes ps))]) ([] @ [method_item]) [] (replicate 8 None) (w, st)"
    using v n by (simp add: conf_def S_def program_method_def)
  moreover have "n_pointer n = program_bytes ps @ drop (n_size n) (n_pointer n)"
    using n unfolding program_method_def by (metis append_take_drop_id)
  then have "ci_code (s_ctx S) = program_bytes ps @ drop (n_size n) (n_pointer n)" by (simp add: S_def)
  moreover have "length (program_bytes ps) < 2 ^ 28" using n by (simp add: program_method_def)
  ultimately obtain c where c: "runs (s_env S) (w, st) c" "returned S [] [] v c"
    using leads_body [OF S q b, of _ "[]" "[]"] unfolding leads_def by blast
  obtain w' st' where e: "c = (w', st')" by (cases c)
  from c(2) obtain t where t: "view st' [] [] [] [OpObject (int_var v)]" "w' = w\<lparr>mem_clock := t, invocations := ivs @ [None]\<rparr>"
    unfolding returned_def e by (auto simp: S_def k)
  from runs_finished [OF c(1) [unfolded e] t(1)] obtain f where
    "\<forall>fuel \<ge> f. lai_exec_run fuel env w st = Ok (LAI_ERROR_NONE, w', st')" by (auto simp: S_def)
  then show ?thesis using t by blast
qed

text \<open>
  C1. The interpreter is correct for programs on integers: a method whose code is the encoding of a
  program returns the value that the meaning of the program gives, whatever conditions, loops and
  returns it is made of.  With enough fuel \<open>lai_eval\<close> returns, the stacks are empty again, and the
  world is as before but for the clock of the allocator and the place of the freed invocation.
\<close>

theorem eval_program:
  fixes w :: "'d lai_world"
  assumes "node w h = Ok n" and "program_method n ps" and "body_value ps v" and "mem_left w" and "idle st"
  shows "\<exists>f t st'. idle st' \<and> (\<forall>fuel \<ge> f. lai_eval fuel env w (Some var0) (Some h) st =
    Ok (LAI_ERROR_NONE, w\<lparr>mem_clock := t, invocations := invocations w @ [None]\<rparr>, st', Some (int_var v)))"
proof -
  obtain w1 s1 w2 s2 w3 s3 where 1: "lai_exec_reserve_ctxstack w st = Ok (0, w1, s1)"
    "lai_exec_reserve_blkstack w1 s1 = Ok (0, w2, s2)" "lai_exec_reserve_stack w2 s2 = Ok (0, w3, s3)"
    "ticked w w3" "view s3 [] [] [] []" "room_ctx s3" "room_blk s3" "room_item s3"
    by (rule reserve_all_view [OF assms(5) [unfolded idle_def] assms(4)])
  from 1(4) obtain u where u: "w3 = w\<lparr>mem_clock := u\<rparr>" by (auto simp: ticked_def)
  note m3 = ticked_mem [OF 1(4) assms(4)]
  let ?iv = "\<lparr>iv_arg = replicate 7 var0, iv_local = replicate 8 var0, iv_nodes = []\<rparr>"
  let ?w4 = "w3\<lparr>mem_clock := Suc (mem_clock w3), invocations := invocations w3 @ [Some ?iv]\<rparr>"
  from enter_method_view [OF 1(5-8) m3 assms(2), of h "replicate 7 var0"] obtain s4 where
    4: "enter_method w3 s3 h n (replicate 7 var0) True = Ok (LAI_ERROR_NONE, ?w4, s4)"
      "view s4 [\<lparr>ci_amls = n_amls n, ci_code = n_pointer n, ci_handle = Some h,
         ci_invocation = Some (length (invocations w3))\<rparr>] [blk 0 (n_size n)] [method_item] []"
    by blast
  have m4: "mem_left ?w4" using m3 by (simp add: mem_left_def)
  have k: "invocations ?w4 = invocations w3 @ [Some ?iv]" by simp
  from run_program [OF assms(2,3) m4 4(2) k refl] obtain f t s5 where
    5: "\<forall>fuel \<ge> f. lai_exec_run fuel env ?w4 s4 =
        Ok (LAI_ERROR_NONE, ?w4\<lparr>mem_clock := t, invocations := invocations w3 @ [None]\<rparr>, s5)"
      "view s5 [] [] [] [OpObject (int_var v)]"
    by blast
  have w5: "w3\<lparr>mem_clock := t, invocations := invocations w3 @ [None]\<rparr> =
      w\<lparr>mem_clock := t, invocations := invocations w @ [None]\<rparr>" by (simp add: u)
  from method_value_view [OF 5(2)] obtain s6 where
    6: "method_value LAI_ERROR_NONE (w\<lparr>mem_clock := t, invocations := invocations w @ [None]\<rparr>) s5 =
      Ok (LAI_ERROR_NONE, w\<lparr>mem_clock := t, invocations := invocations w @ [None]\<rparr>, s6, int_var v)" "idle s6"
    by blast
  have n: "n_type n = LAI_NAMESPACE_METHOD" "n_method_override n = None"
    using assms(2) by (simp_all add: program_method_def)
  have "lai_eval fuel env w (Some var0) (Some h) st =
      Ok (LAI_ERROR_NONE, w\<lparr>mem_clock := t, invocations := invocations w @ [None]\<rparr>, s6, Some (int_var v))"
    if "f \<le> fuel" for fuel
  proof -
    have run: "lai_exec_run fuel env ?w4 s4 =
        Ok (LAI_ERROR_NONE, w\<lparr>mem_clock := t, invocations := invocations w @ [None]\<rparr>, s5)"
      using 5(1) that w5 by simp
    have e: "eval_method fuel env w3 s3 h n [] =
        Ok (LAI_ERROR_NONE, w\<lparr>mem_clock := t, invocations := invocations w @ [None]\<rparr>, s6, int_var v)"
      unfolding eval_method_def n(2) using 4(1) run 6(1) by simp
    show ?thesis
      unfolding lai_eval_def lai_eval_args_def using assms(1) n(1) 1(1-3) e by (simp add: ensure_def lai_var_move_var0)
  qed
  then show ?thesis using 6(2) by blast
qed

text \<open>A loop that counts to 3, with a condition that leaves it.\<close>

definition count_program :: "stmt list" where
  "count_program =
     [Store (Const 0) 0,
      While (Const 1)
        [Store (Arith Add (Local 0) (Const 1)) 0,
         If (Test LEqual (Local 0) (Const 3)) [Break] None],
      Return (Local 0)]"

lemma count_program_value: "body_value count_program 3"
proof -
  let ?L = "\<lambda>i :: u64. (replicate 8 None)[0 := Some i]"
  let ?body = "[Store (Arith Add (Local 0) (Const 1)) 0, If (Test LEqual (Local 0) (Const 3)) [Break] None]"
  have again: "exec ?body (?L i) (Fin (?L (i + 1)))" if "i + 1 \<noteq> 3" for i
    by (rule exec.Store [where v = "i + 1"], simp_all, rule exec.If_none) (use that in \<open>simp_all add: exec.Nil\<close>)
  have last: "exec ?body (?L 2) (Brk (?L 3))"
    by (rule exec.Store [where v = 3], simp_all, rule exec.If_true_end [where v = "NOT 0"])
      (simp_all add: exec.Break)
  have ret: "exec [Return (Local 0)] (?L 3) (Ret 3)" by (rule exec.Return) simp
  let ?rest = "[While (Const 1) ?body, Return (Local 0)]"
  have "exec ?rest (?L 2) (Ret 3)" by (rule exec.While_break [OF _ _ last ret, of _ 1]) simp_all
  then have "exec ?rest (?L 1) (Ret 3)"
    using exec.While_again [of "Const 1" "?L 1" 1 ?body "?L 2"] again [of 1] by simp
  then have "exec ?rest (?L 0) (Ret 3)"
    using exec.While_again [of "Const 1" "?L 0" 1 ?body "?L 1"] again [of 0] by simp
  then have "exec count_program (replicate 8 None) (Ret 3)"
    unfolding count_program_def by (intro exec.Store [where v = 0]) simp_all
  then show ?thesis by (simp add: body_value_def)
qed

definition program_node :: "stmt list \<Rightarrow> lai_nsnode" where
  "program_node ps = node0\<lparr>n_type := LAI_NAMESPACE_METHOD, n_amls := Some 0,
     n_pointer := program_bytes ps, n_size := length (program_bytes ps)\<rparr>"

definition program_world :: "stmt list \<Rightarrow> unit lai_world" where
  "program_world ps = demo_world\<lparr>nodes := [Some (program_node ps)]\<rparr>"

theorem eval_program_witness:
  "\<forall>env. \<exists>f t st'. idle st' \<and> (\<forall>fuel. lai_eval (f + fuel) env (program_world count_program) (Some var0) (Some 0) lai_init_state =
    Ok (LAI_ERROR_NONE, (program_world count_program)\<lparr>mem_clock := t, invocations := [None]\<rparr>, st', Some (int_var 3)))"
proof
  fix env :: "unit exec_env"
  have "node (program_world count_program) 0 = Ok (program_node count_program)"
    by (simp add: node_def program_world_def demo_world_def)
  moreover have "length (program_bytes count_program) < 2 ^ 28"
    by (simp add: program_bytes_def count_program_def const_bytes_def pkg_def varint_bytes_def pkg_length_def)
  then have "program_method (program_node count_program) count_program"
    by (simp add: program_method_def program_node_def node0_def)
  moreover have "mem_left (program_world count_program)" by (simp add: mem_left_def program_world_def demo_world_def)
  moreover have "idle lai_init_state" by (simp add: idle_def view_init)
  ultimately obtain f t st' where "idle st'" "\<forall>fuel \<ge> f. lai_eval fuel env (program_world count_program) (Some var0)
      (Some 0) lai_init_state = Ok (LAI_ERROR_NONE, (program_world count_program)\<lparr>mem_clock := t,
        invocations := invocations (program_world count_program) @ [None]\<rparr>, st', Some (int_var 3))"
    using eval_program [OF _ _ count_program_value] by blast
  moreover have "invocations (program_world count_program) = []" by (simp add: program_world_def demo_world_def)
  ultimately show "\<exists>f t st'. idle st' \<and> (\<forall>fuel. lai_eval (f + fuel) env (program_world count_program) (Some var0) (Some 0)
      lai_init_state = Ok (LAI_ERROR_NONE, (program_world count_program)\<lparr>mem_clock := t, invocations := [None]\<rparr>, st', Some (int_var 3)))"
    by (intro exI [of _ f] exI [of _ t] exI [of _ st']) simp
qed

subsection \<open>Continue\<close>

lemma process_continue:
  fixes w :: "'d lai_world"
  assumes v: "view st (cs @ [c]) (bs @ [blk pc e]) (is @ [it]) os" and c: "ci_amls c \<noteq> None" "rd (ci_code c) pc = Ok (of_nat CONTINUE_OP)"
    and l: "pc < e" and it: "si_kind it = LAI_LOOP_STACKITEM LAI_LOOP_ITERATION q \<or> si_kind it = LAI_COND_STACKITEM LAI_COND_BRANCH h a b"
  shows "lai_exec_process env w st = parse_continue w st"
proof -
  note n = simple_opcodeD [OF simple_opcodes(13)]
  have "lai_exec_process env w st = process_item env c (int (length bs)) (blk pc e) it (int (length is)) w st"
    using view_tops(1) [OF v refl] view_tops(2) [OF v refl] view_tops(3) [OF v refl] c(1) l
    by (simp add: lai_exec_process_def ensure_def)
  also have "\<dots> = lai_exec_parse env LAI_EXEC_MODE w st"
    using it l by (auto simp: process_item_def process_loop_def process_cond_def LAI_LOOP_ITERATION_def
        LAI_COND_BRANCH_def ensure_def)
  also have "\<dots> = parse_continue w st"
    using view_tops(1) [OF v refl] view_tops(2) [OF v refl] c l n object_mode(3)
    by (simp add: lai_exec_parse_def fetch_opcode_def ensure_def parse_opcode_control LAI_EXEC_MODE_def lai_mode_flags_def)
  finally show ?thesis .
qed

lemma parse_continue_view:
  assumes v: "view st C (bs @ b # ds) (is @ x # cs) os" and d: "length ds = length cs" "is_loop x" "\<forall>c\<in>set cs. is_cond c"
  shows "\<exists>st'. parse_continue w st = Ok (LAI_ERROR_NONE, w, st') \<and> view st' C (bs @ [b]) (is @ [x]) os"
proof -
  have "\<forall>c\<in>set cs. \<not> is_loop c \<and> (is_cond c \<or> is_loop c)" using d(3) is_cond_not_loop by auto
  moreover have p: "nat (stack_ptr st + 1) = Suc (length is) + length cs" "nat (stack_ptr st) - length is = length cs"
    using view_ptrs(3) [OF v] by simp_all
  ultimately have f: "find_item is_loop st (nat (stack_ptr st + 1)) = Ok (length is)"
    using find_item_view [of st C "bs @ b # ds" "is" x cs "[]" os is_loop "length cs"] v d(2) unfolding append_Nil2 by auto
  have "view st C ((bs @ [b]) @ ds) ((is @ [x]) @ cs) os" using v by simp
  from pop_nested_view [OF this d(1)] d(3) f p(2) show ?thesis by (auto simp: parse_continue_def)
qed

text \<open>
  C2. \<open>Continue\<close> does not go back to the predicate.  The conditions around it are left, but the
  innermost loop stays at the program counter \<open>p\<close> its block had: behind the \<open>If\<close>, whose execution
  goes on there as if nothing had been said, or, directly in the loop, at the \<open>Continue\<close> itself,
  where the interpreter never gets away from.
\<close>

theorem continue_does_not_go_back:
  fixes w :: "'d lai_world"
  assumes v: "view st (cs @ [c]) (bs @ blk p limit # ds) (is @ loop_item LAI_LOOP_ITERATION q # conds) os"
    and conds: "conds = map (\<lambda>(h, a, b). if_item LAI_COND_BRANCH h a b) ifs" "length ds = length conds"
    and top: "last (blk p limit # ds) = blk pc e" "pc < e"
    and code: "ci_amls c \<noteq> None" "rd (ci_code c) pc = Ok (of_nat CONTINUE_OP)"
  shows "(\<exists>st'. lai_exec_process env w st = Ok (LAI_ERROR_NONE, w, st') \<and>
      view st' (cs @ [c]) (bs @ [blk p limit]) (is @ [loop_item LAI_LOOP_ITERATION q]) os) \<and>
    (conds = [] \<longrightarrow> lai_exec_run fuel env w st = Stuck)"
proof -
  let ?x = "loop_item LAI_LOOP_ITERATION q"
  have step: "\<exists>st'. lai_exec_process env w st = Ok (LAI_ERROR_NONE, w, st') \<and>
      view st' (cs @ [c]) (bs @ [blk p limit]) (is @ [?x]) os"
    if v: "view st (cs @ [c]) (bs @ blk p limit # ds) (is @ ?x # conds) os" for st
  proof -
    have b: "bs @ blk p limit # ds = (bs @ butlast (blk p limit # ds)) @ [blk pc e]"
      using append_butlast_last_id [of "blk p limit # ds"] top(1) by simp
    have i: "is @ ?x # conds = (is @ butlast (?x # conds)) @ [last (?x # conds)]"
      using append_butlast_last_id [of "?x # conds"] by simp
    have "last (?x # conds) \<in> set (?x # conds)" by (rule last_in_set) simp
    then obtain h a d where "si_kind (last (?x # conds)) = LAI_LOOP_STACKITEM LAI_LOOP_ITERATION (int q) \<or>
        si_kind (last (?x # conds)) = LAI_COND_STACKITEM LAI_COND_BRANCH h a d"
      unfolding conds(1) by (auto simp: item_defs)
    from process_continue [OF v [unfolded b i] code top(2) this]
    have "lai_exec_process env w st = parse_continue w st" .
    moreover have "\<forall>c\<in>set conds. is_cond c" unfolding conds(1) by auto
    ultimately show ?thesis using parse_continue_view [OF v conds(2) item_kinds(1)] by simp
  qed
  have stuck: "lai_exec_run fuel env w st = Stuck" if "conds = []"
    "view st (cs @ [c]) (bs @ blk p limit # ds) (is @ ?x # conds) os" for st
    using that(2)
  proof (induction fuel arbitrary: st)
    case 0
    have "lai_exec_peek_stack_back st \<noteq> None"
      using view_tops(3) [of st "cs @ [c]" "bs @ blk p limit # ds" "is @ [?x]" os "is" ?x] 0 that(1) by simp
    then show ?case by (subst lai_exec_run.simps) auto
  next
    case (Suc fuel)
    note nil = that(1)
    have d: "ds = []" using conds(2) nil by simp
    have "lai_exec_peek_stack_back st \<noteq> None"
      using view_tops(3) [of st "cs @ [c]" "bs @ blk p limit # ds" "is @ [?x]" os "is" ?x] Suc.prems that(1) by simp
    moreover from step [OF Suc.prems] obtain st' where
      "lai_exec_process env w st = Ok (LAI_ERROR_NONE, w, st')"
      "view st' (cs @ [c]) (bs @ blk p limit # ds) (is @ ?x # conds) os" using d nil by auto
    ultimately show ?case using Suc.IH by (subst lai_exec_run.simps) auto
  qed
  show ?thesis using step [OF v] stuck [OF _ v] by blast
qed

text \<open>In \<open>While (One) { Continue }\<close>.\<close>

definition continue_state :: lai_state where
  "continue_state = lai_init_state\<lparr>
     ctxstack_base := (ctxstack_base lai_init_state)[0 := Some (ctxitem0\<lparr>ci_amls := Some 0,
       ci_code := [of_nat WHILE_OP, 3, of_nat ONE_OP, of_nat CONTINUE_OP]\<rparr>)], ctxstack_ptr := 0,
     blkstack_base := (blkstack_base lai_init_state)[0 := Some (blk 3 4)], blkstack_ptr := 0,
     stack_base := (stack_base lai_init_state)[0 := Some (loop_item LAI_LOOP_ITERATION 2)], stack_ptr := 0\<rparr>"

theorem continue_does_not_go_back_witness:
  "\<forall>env. lai_exec_run 1000 env demo_world continue_state = Stuck"
proof
  fix env :: "unit exec_env"
  let ?c = "ctxitem0\<lparr>ci_amls := Some 0, ci_code := [of_nat WHILE_OP, 3, of_nat ONE_OP, of_nat CONTINUE_OP]\<rparr>"
  have v: "view continue_state ([] @ [?c]) ([] @ blk 3 4 # []) ([] @ loop_item LAI_LOOP_ITERATION 2 # []) []"
    by (simp add: continue_state_def view_def stk_def slots_ok_def lai_init_state_def small_sizes numeral_eq_Suc)
  show "lai_exec_run 1000 env demo_world continue_state = Stuck"
    by (rule continue_does_not_go_back [OF v, of "[]" 3 4, THEN conjunct2, rule_format]) (simp_all add: rd_def)
qed

end
