(* ===== verification/Lai_List.thy ===== *)
theory Lai_List
  imports Prelude
begin

text \<open>
  The doubly linked lists of \<open>lai/core/util-list.h\<close>.  An invocation keeps the nodes its method
  declares in such a list.  The items are embedded in the elements; the list itself is one more
  item, the hook, and the items form a ring through it.

  The store maps the addresses of items to items.  \<open>ring s h xs\<close> says that the list with the hook
  \<open>h\<close> holds the items \<open>xs\<close>, in that order.  The operations are shown to be those of the list \<open>xs\<close>:
  \<open>lai_list_link\<close> appends, \<open>lai_list_unlink\<close> removes from any place, \<open>lai_list_first\<close> and
  \<open>lai_list_next\<close> iterate.  The locale \<open>item_list\<close> is the contract, and its clients are the two loops
  the interpreter runs on a list.
\<close>

record lai_list_item =
  li_next :: "nat option"
  li_prev :: "nat option"

type_synonym item_store = "nat \<Rightarrow> lai_list_item option"

subsection \<open>Operations\<close>

definition item_at :: "item_store \<Rightarrow> nat option \<Rightarrow> lai_list_item outcome" where
  "item_at s p = (case p of None \<Rightarrow> Fault | Some a \<Rightarrow> (case s a of None \<Rightarrow> Fault | Some x \<Rightarrow> Ok x))"

definition set_next :: "item_store \<Rightarrow> nat option \<Rightarrow> nat option \<Rightarrow> item_store outcome" where
  "set_next s p q = bnd (item_at s p) (\<lambda>x. Ok (s(the p \<mapsto> x\<lparr>li_next := q\<rparr>)))"

definition set_prev :: "item_store \<Rightarrow> nat option \<Rightarrow> nat option \<Rightarrow> item_store outcome" where
  "set_prev s p q = bnd (item_at s p) (\<lambda>x. Ok (s(the p \<mapsto> x\<lparr>li_prev := q\<rparr>)))"

definition lai_list_init :: "item_store \<Rightarrow> nat \<Rightarrow> item_store outcome" where
  "lai_list_init s list =
     bnd (set_next s (Some list) (Some list)) (\<lambda>s. set_prev s (Some list) (Some list))"

definition lai_list_link :: "item_store \<Rightarrow> nat \<Rightarrow> nat \<Rightarrow> item_store outcome" where
  "lai_list_link s list item =
     bnd (item_at s (Some list)) (\<lambda>hook.
     let tail = li_prev hook in
     bnd (set_next s (Some item) (Some list)) (\<lambda>s.
     bnd (set_prev s (Some item) tail) (\<lambda>s.
     bnd (set_next s tail (Some item)) (\<lambda>s.
     set_prev s (Some list) (Some item)))))"

definition lai_list_unlink :: "item_store \<Rightarrow> nat \<Rightarrow> item_store outcome" where
  "lai_list_unlink s item =
     bnd (item_at s (Some item)) (\<lambda>x.
     let before = li_prev x; behind = li_next x in
     bnd (set_prev s (Some item) None) (\<lambda>s.
     bnd (set_next s (Some item) None) (\<lambda>s.
     bnd (set_next s before behind) (\<lambda>s.
     set_prev s behind before))))"

definition lai_list_first :: "item_store \<Rightarrow> nat \<Rightarrow> nat option outcome" where
  "lai_list_first s list = bnd (item_at s (Some list)) (\<lambda>hook.
     Ok (if li_next hook = Some list then None else li_next hook))"

definition lai_list_next :: "item_store \<Rightarrow> nat \<Rightarrow> nat \<Rightarrow> nat option outcome" where
  "lai_list_next s list item = bnd (item_at s (Some item)) (\<lambda>x.
     Ok (if li_next x = Some list then None else li_next x))"

subsection \<open>The ring\<close>

definition link_next :: "item_store \<Rightarrow> nat \<Rightarrow> nat option" where
  "link_next s a = Option.bind (s a) li_next"

definition link_prev :: "item_store \<Rightarrow> nat \<Rightarrow> nat option" where
  "link_prev s a = Option.bind (s a) li_prev"

fun links :: "item_store \<Rightarrow> nat \<Rightarrow> nat list \<Rightarrow> nat \<Rightarrow> bool" where
  "links s a [] b \<longleftrightarrow> link_next s a = Some b \<and> link_prev s b = Some a"
| "links s a (x # xs) b \<longleftrightarrow> link_next s a = Some x \<and> link_prev s x = Some a \<and> links s x xs b"

definition ring :: "item_store \<Rightarrow> nat \<Rightarrow> nat list \<Rightarrow> bool" where
  "ring s h xs \<longleftrightarrow> distinct (h # xs) \<and> links s h xs h"

lemma links_append: "links s a (xs @ y # ys) b \<longleftrightarrow> links s a xs y \<and> links s y ys b"
  by (induction xs arbitrary: a) auto

lemma links_frame:
  assumes "links s a xs b"
    and "\<And>x. x \<in> insert a (set xs) \<Longrightarrow> link_next s' x = link_next s x"
    and "\<And>x. x \<in> insert b (set xs) \<Longrightarrow> link_prev s' x = link_prev s x"
  shows "links s' a xs b"
  using assms by (induction xs arbitrary: a) auto

text \<open>A segment whose last item gets another successor.\<close>

lemma links_retarget:
  assumes "links s a xs b"
    and "\<And>z. z \<in> set (butlast (a # xs)) \<Longrightarrow> link_next s' z = link_next s z"
    and "\<And>z. z \<in> set xs \<Longrightarrow> link_prev s' z = link_prev s z"
    and "link_next s' (last (a # xs)) = Some c" and "link_prev s' c = Some (last (a # xs))"
  shows "links s' a xs c"
  using assms by (induction xs arbitrary: a) auto

lemma last_not_butlast:
  assumes "distinct (a # xs)"
  shows "last (a # xs) \<notin> set (butlast (a # xs))"
  using assms append_butlast_last_id [of "a # xs"] by (metis list.distinct(1) not_distinct_conv_prefix distinct_butlast)

lemma link_next_upd [simp]: "link_next (s(a \<mapsto> x)) b = (if b = a then li_next x else link_next s b)"
  by (simp add: link_next_def)

lemma link_prev_upd [simp]: "link_prev (s(a \<mapsto> x)) b = (if b = a then li_prev x else link_prev s b)"
  by (simp add: link_prev_def)

lemma link_nextD: "link_next s a = Some b \<Longrightarrow> \<exists>x. s a = Some x \<and> li_next x = Some b"
  by (auto simp: link_next_def bind_eq_Some_conv)

lemma link_prevD: "link_prev s a = Some b \<Longrightarrow> \<exists>x. s a = Some x \<and> li_prev x = Some b"
  by (auto simp: link_prev_def bind_eq_Some_conv)

text \<open>Every item of a ring has the item before it and the item behind it.\<close>

lemma ring_split:
  "ring s h (xs @ x # ys) \<Longrightarrow> links s h xs x \<and> links s x ys h \<and> distinct (h # xs @ x # ys)"
  by (simp add: ring_def links_append)

lemma links_last:
  assumes "links s a xs b"
  obtains ys where "link_next s (last (a # xs)) = Some b" "link_prev s b = Some (last (a # xs))"
    "a # xs = ys @ [last (a # xs)]"
proof -
  have "link_next s (last (a # xs)) = Some b \<and> link_prev s b = Some (last (a # xs))"
    using assms by (induction xs arbitrary: a) auto
  then show thesis using that [of "butlast (a # xs)"] by (metis append_butlast_last_id list.distinct(1))
qed

lemma links_hd:
  assumes "links s a xs b"
  shows "link_next s a = Some (hd (xs @ [b]))" "link_prev s (hd (xs @ [b])) = Some a"
  using assms by (cases xs; simp)+

lemma links_allocated: "links s a xs b \<Longrightarrow> x \<in> set (a # xs) \<Longrightarrow> s x \<noteq> None"
  by (induction xs arbitrary: a) (auto dest: link_nextD)

lemma ring_allocated: "ring s h xs \<Longrightarrow> x \<in> set (h # xs) \<Longrightarrow> s x \<noteq> None"
  unfolding ring_def using links_allocated by blast

text \<open>A store and the two assignments to an item, by what they do to the links.\<close>

lemma set_next_allocated:
  assumes "s a \<noteq> None"
  obtains s' where "set_next s (Some a) q = Ok s'" "link_next s' = (link_next s)(a := q)" "link_prev s' = link_prev s"
    "\<And>b. s' b = None \<longleftrightarrow> s b = None" "\<And>b. b \<noteq> a \<Longrightarrow> s' b = s b"
proof -
  obtain x where "s a = Some x" using assms by blast
  then show thesis
    by (intro that [of "s(a \<mapsto> x\<lparr>li_next := q\<rparr>)"]) (auto simp: set_next_def item_at_def fun_eq_iff link_prev_def)
qed

lemma set_prev_allocated:
  assumes "s a \<noteq> None"
  obtains s' where "set_prev s (Some a) q = Ok s'" "link_prev s' = (link_prev s)(a := q)" "link_next s' = link_next s"
    "\<And>b. s' b = None \<longleftrightarrow> s b = None" "\<And>b. b \<noteq> a \<Longrightarrow> s' b = s b"
proof -
  obtain x where "s a = Some x" using assms by blast
  then show thesis
    by (intro that [of "s(a \<mapsto> x\<lparr>li_prev := q\<rparr>)"]) (auto simp: set_prev_def item_at_def fun_eq_iff link_next_def)
qed

lemma item_at_link:
  assumes "s a \<noteq> None"
  obtains x where "item_at s (Some a) = Ok x" "li_next x = link_next s a" "li_prev x = link_prev s a"
  using assms by (auto simp: item_at_def link_next_def link_prev_def)

subsection \<open>The operations on a ring\<close>

lemma list_init_ring:
  assumes "s h \<noteq> None"
  shows "\<exists>s'. lai_list_init s h = Ok s' \<and> ring s' h [] \<and> (\<forall>b. b \<noteq> h \<longrightarrow> s' b = s b)"
proof -
  obtain s1 where 1: "set_next s (Some h) (Some h) = Ok s1" "link_next s1 = (link_next s)(h := Some h)"
    "\<And>b. s1 b = None \<longleftrightarrow> s b = None" "\<And>b. b \<noteq> h \<Longrightarrow> s1 b = s b"
    using set_next_allocated [of s h "Some h"] assms by blast
  have "s1 h \<noteq> None" using 1(3) assms by simp
  then obtain s2 where 2: "set_prev s1 (Some h) (Some h) = Ok s2" "link_prev s2 = (link_prev s1)(h := Some h)"
    "link_next s2 = link_next s1" "\<And>b. b \<noteq> h \<Longrightarrow> s2 b = s1 b"
    using set_prev_allocated [of s1 h "Some h"] by blast
  show ?thesis by (simp add: lai_list_init_def 1 2 ring_def)
qed

lemma list_link_ring:
  assumes ring: "ring s h xs" and item: "s x \<noteq> None" "x \<notin> set (h # xs)"
  shows "\<exists>s'. lai_list_link s h x = Ok s' \<and> ring s' h (xs @ [x]) \<and>
    (\<forall>b. b \<notin> set (h # x # xs) \<longrightarrow> s' b = s b) \<and> (\<forall>b. s' b = None \<longleftrightarrow> s b = None)"
proof -
  let ?t = "last (h # xs)"
  have l: "links s h xs h" and d: "distinct (h # xs)" using ring by (simp_all add: ring_def)
  from l obtain ys where t: "link_prev s h = Some ?t" "h # xs = ys @ [?t]" by (rule links_last)
  have al: "s h \<noteq> None" "s ?t \<noteq> None" using ring_allocated [OF ring] last_in_set [of "h # xs"] by auto
  have ne: "x \<noteq> h" "x \<noteq> ?t" using item(2) last_in_set [of "h # xs"] by auto
  obtain hook where h: "item_at s (Some h) = Ok hook" "li_prev hook = Some ?t"
    using item_at_link [of s h] al(1) t(1) by metis
  obtain s1 where 1: "set_next s (Some x) (Some h) = Ok s1" "link_next s1 = (link_next s)(x := Some h)"
    "link_prev s1 = link_prev s" "\<And>b. s1 b = None \<longleftrightarrow> s b = None" "\<And>b. b \<noteq> x \<Longrightarrow> s1 b = s b"
    using set_next_allocated [of s x "Some h"] item(1) by blast
  have "s1 x \<noteq> None" using 1(4) item(1) by simp
  then obtain s2 where 2: "set_prev s1 (Some x) (Some ?t) = Ok s2" "link_prev s2 = (link_prev s1)(x := Some ?t)"
    "link_next s2 = link_next s1" "\<And>b. s2 b = None \<longleftrightarrow> s1 b = None" "\<And>b. b \<noteq> x \<Longrightarrow> s2 b = s1 b"
    using set_prev_allocated [of s1 x "Some ?t"] by blast
  have "s2 ?t \<noteq> None" using 1(4) 2(4) al(2) by simp
  then obtain s3 where 3: "set_next s2 (Some ?t) (Some x) = Ok s3" "link_next s3 = (link_next s2)(?t := Some x)"
    "link_prev s3 = link_prev s2" "\<And>b. s3 b = None \<longleftrightarrow> s2 b = None" "\<And>b. b \<noteq> ?t \<Longrightarrow> s3 b = s2 b"
    using set_next_allocated [of s2 ?t "Some x"] by blast
  have "s3 h \<noteq> None" using 1(4) 2(4) 3(4) al(1) by simp
  then obtain s4 where 4: "set_prev s3 (Some h) (Some x) = Ok s4" "link_prev s4 = (link_prev s3)(h := Some x)"
    "link_next s4 = link_next s3" "\<And>b. s4 b = None \<longleftrightarrow> s3 b = None" "\<And>b. b \<noteq> h \<Longrightarrow> s4 b = s3 b"
    using set_prev_allocated [of s3 h "Some x"] by blast
  have N: "link_next s4 = (link_next s)(x := Some h, ?t := Some x)" using 1(2) 2(3) 3(2) 4(3) by simp
  have P: "link_prev s4 = (link_prev s)(x := Some ?t, h := Some x)" using 1(3) 2(2) 3(3) 4(2) by simp
  have "links s4 h xs x"
    by (rule links_retarget [OF l]) (use N P d ne item(2) last_not_butlast [OF d] in \<open>auto dest: in_set_butlastD\<close>)
  moreover have "links s4 x [] h" using N P ne by simp
  ultimately have "links s4 h (xs @ [x]) h" by (simp add: links_append)
  then have "ring s4 h (xs @ [x])" using d item(2) by (auto simp: ring_def)
  moreover have "lai_list_link s h x = Ok s4" by (simp only: lai_list_link_def Let_def bnd.simps h 1(1) 2(1) 3(1) 4(1))
  moreover have "s4 b = s b" if b: "b \<notin> set (h # x # xs)" for b
  proof -
    have "?t \<in> set (h # xs)" by (rule last_in_set) simp
    then have "b \<noteq> h" "b \<noteq> x" "b \<noteq> ?t" using b by (auto simp del: last.simps)
    then show ?thesis by (simp only: 4(5) 3(5) 2(5) 1(5) not_False_eq_True)
  qed
  moreover have "\<forall>b. s4 b = None \<longleftrightarrow> s b = None" by (simp only: 4(4) 3(4) 2(4) 1(4) simp_thms)
  ultimately show ?thesis by blast
qed

lemma list_unlink_ring:
  assumes ring: "ring s h (xs @ x # ys)"
  shows "\<exists>s'. lai_list_unlink s x = Ok s' \<and> ring s' h (xs @ ys) \<and> s' x = Some \<lparr>li_next = None, li_prev = None\<rparr> \<and>
    (\<forall>b. b \<notin> set (h # xs @ x # ys) \<longrightarrow> s' b = s b) \<and> (\<forall>b. s' b = None \<longleftrightarrow> s b = None)"
proof -
  let ?p = "last (h # xs)" and ?n = "hd (ys @ [h])"
  from ring_split [OF ring] have l: "links s h xs x" "links s x ys h" and d: "distinct (h # xs @ x # ys)" by auto
  from l(1) obtain zs where p: "link_next s ?p = Some x" "link_prev s x = Some ?p" by (rule links_last)
  note n = links_hd [OF l(2)]
  have mem: "?p \<in> set (h # xs)" "?n \<in> set (h # ys)" by (simp_all add: hd_append)
  have ne: "?p \<noteq> x" "?n \<noteq> x" using mem d by auto
  have al: "s x \<noteq> None" "s ?p \<noteq> None" "s ?n \<noteq> None" using ring_allocated [OF ring] mem by auto
  obtain it where it: "item_at s (Some x) = Ok it" "li_next it = Some ?n" "li_prev it = Some ?p"
    using item_at_link [of s x] al(1) p(2) n(1) by metis
  obtain s1 where 1: "set_prev s (Some x) None = Ok s1" "link_prev s1 = (link_prev s)(x := None)"
    "link_next s1 = link_next s" "\<And>b. s1 b = None \<longleftrightarrow> s b = None" "\<And>b. b \<noteq> x \<Longrightarrow> s1 b = s b"
    using set_prev_allocated [of s x None] al(1) by blast
  have "s1 x \<noteq> None" using 1(4) al(1) by simp
  then obtain s2 where 2: "set_next s1 (Some x) None = Ok s2" "link_next s2 = (link_next s1)(x := None)"
    "link_prev s2 = link_prev s1" "\<And>b. s2 b = None \<longleftrightarrow> s1 b = None" "\<And>b. b \<noteq> x \<Longrightarrow> s2 b = s1 b"
    using set_next_allocated [of s1 x None] by blast
  have "s2 ?p \<noteq> None" using 1(4) 2(4) al(2) by simp
  then obtain s3 where 3: "set_next s2 (Some ?p) (Some ?n) = Ok s3" "link_next s3 = (link_next s2)(?p := Some ?n)"
    "link_prev s3 = link_prev s2" "\<And>b. s3 b = None \<longleftrightarrow> s2 b = None" "\<And>b. b \<noteq> ?p \<Longrightarrow> s3 b = s2 b"
    using set_next_allocated [of s2 ?p "Some ?n"] by blast
  have "s3 ?n \<noteq> None" using 1(4) 2(4) 3(4) al(3) by simp
  then obtain s4 where 4: "set_prev s3 (Some ?n) (Some ?p) = Ok s4" "link_prev s4 = (link_prev s3)(?n := Some ?p)"
    "link_next s4 = link_next s3" "\<And>b. s4 b = None \<longleftrightarrow> s3 b = None" "\<And>b. b \<noteq> ?n \<Longrightarrow> s4 b = s3 b"
    using set_prev_allocated [of s3 ?n "Some ?p"] by blast
  have N: "link_next s4 = (link_next s)(x := None, ?p := Some ?n)" using 1(3) 2(2) 3(2) 4(3) by simp
  have P: "link_prev s4 = (link_prev s)(x := None, ?n := Some ?p)" using 1(2) 2(3) 3(3) 4(2) by simp
  have hx: "distinct (h # xs)" "x \<notin> set xs" "x \<noteq> h" using d by auto
  have first: "links s4 h xs ?n"
    by (rule links_retarget [OF l(1)])
      (use N P hx mem d last_not_butlast [OF hx(1)] in \<open>auto dest: in_set_butlastD split: if_splits\<close>)
  have "links s4 h (xs @ ys) h"
  proof (cases ys)
    case Nil
    then show ?thesis using first by simp
  next
    case (Cons y zs)
    then have "links s y zs h" using l(2) by simp
    then have "links s4 y zs h"
      by (rule links_frame) (use N P d mem Cons in auto)
    then show ?thesis using first Cons by (simp add: links_append)
  qed
  then have "ring s4 h (xs @ ys)" using d by (auto simp: ring_def)
  moreover have "lai_list_unlink s x = Ok s4" by (simp only: lai_list_unlink_def Let_def bnd.simps it 1(1) 2(1) 3(1) 4(1))
  moreover have "s4 x = Some \<lparr>li_next = None, li_prev = None\<rparr>"
  proof -
    have "link_next s4 x = None" "link_prev s4 x = None" using N P ne by simp_all
    moreover have "s4 x \<noteq> None" using 1(4) 2(4) 3(4) 4(4) al(1) by simp
    ultimately show ?thesis by (cases "s4 x") (auto simp: link_next_def link_prev_def)
  qed
  moreover have "s4 b = s b" if b: "b \<notin> set (h # xs @ x # ys)" for b
  proof -
    have "b \<noteq> x" "b \<noteq> ?p" "b \<noteq> ?n" using b mem by (auto simp del: last.simps)
    then show ?thesis by (simp only: 4(5) 3(5) 2(5) 1(5) not_False_eq_True)
  qed
  moreover have "\<forall>b. s4 b = None \<longleftrightarrow> s b = None" by (simp only: 4(4) 3(4) 2(4) 1(4) simp_thms)
  ultimately show ?thesis by blast
qed

lemma list_first_ring:
  assumes "ring s h xs"
  shows "lai_list_first s h = Ok (case xs of [] \<Rightarrow> None | x # _ \<Rightarrow> Some x)"
proof -
  have "s h \<noteq> None" using ring_allocated [OF assms] by simp
  then obtain hook where "item_at s (Some h) = Ok hook" "li_next hook = link_next s h" by (rule item_at_link [of s h])
  then show ?thesis using assms by (cases xs) (auto simp: lai_list_first_def ring_def)
qed

lemma list_next_ring:
  assumes "ring s h (xs @ x # ys)"
  shows "lai_list_next s h x = Ok (case ys of [] \<Rightarrow> None | y # _ \<Rightarrow> Some y)"
proof -
  have "s x \<noteq> None" using ring_allocated [OF assms] by simp
  then obtain it where "item_at s (Some x) = Ok it" "li_next it = link_next s x" by (rule item_at_link [of s x])
  then show ?thesis using ring_split [OF assms] by (cases ys) (auto simp: lai_list_next_def)
qed

subsection \<open>The contract and the loops on a list\<close>

text \<open>
  The loop that iterates over a list (\<open>for (item = first; item; item = next (item))\<close>) and the loop
  that empties it (\<open>while ((item = first)) { \<dots> unlink (item); }\<close>, \<open>lai/core/exec.c\<close>), with a body
  that works on another part of the state.
\<close>

fun list_iterate :: "nat \<Rightarrow> (nat \<Rightarrow> 'w \<Rightarrow> 'w outcome) \<Rightarrow> item_store \<Rightarrow> nat \<Rightarrow> nat option \<Rightarrow> 'w \<Rightarrow> 'w outcome" where
  "list_iterate fuel body s h None w = Ok w"
| "list_iterate 0 body s h (Some x) w = Stuck"
| "list_iterate (Suc fuel) body s h (Some x) w =
     bnd (body x w) (\<lambda>w. bnd (lai_list_next s h x) (\<lambda>y. list_iterate fuel body s h y w))"

fun list_drain :: "nat \<Rightarrow> (nat \<Rightarrow> 'w \<Rightarrow> 'w outcome) \<Rightarrow> item_store \<Rightarrow> nat \<Rightarrow> 'w \<Rightarrow> (item_store \<times> 'w) outcome" where
  "list_drain 0 body s h w = Stuck"
| "list_drain (Suc fuel) body s h w =
     bnd (lai_list_first s h) (\<lambda>item. case item of
       None \<Rightarrow> Ok (s, w)
     | Some x \<Rightarrow> bnd (body x w) (\<lambda>w. bnd (lai_list_unlink s x) (\<lambda>s. list_drain fuel body s h w)))"

primrec each :: "('a \<Rightarrow> 'w \<Rightarrow> 'w outcome) \<Rightarrow> 'a list \<Rightarrow> 'w \<Rightarrow> 'w outcome" where
  "each f [] w = Ok w"
| "each f (x # xs) w = bnd (f x w) (each f xs)"

locale item_list =
  fixes rep :: "'s \<Rightarrow> nat \<Rightarrow> nat list \<Rightarrow> bool"
    and first :: "'s \<Rightarrow> nat \<Rightarrow> nat option outcome"
    and succ :: "'s \<Rightarrow> nat \<Rightarrow> nat \<Rightarrow> nat option outcome"
    and unlink :: "'s \<Rightarrow> nat \<Rightarrow> 's outcome"
  assumes first_law: "rep s h xs \<Longrightarrow> first s h = Ok (case xs of [] \<Rightarrow> None | x # _ \<Rightarrow> Some x)"
    and succ_law: "rep s h (xs @ x # ys) \<Longrightarrow> succ s h x = Ok (case ys of [] \<Rightarrow> None | y # _ \<Rightarrow> Some y)"
    and unlink_law: "rep s h (xs @ x # ys) \<Longrightarrow> \<exists>s'. unlink s x = Ok s' \<and> rep s' h (xs @ ys)"
begin

text \<open>Any two loops that make these calls visit the elements in order and end.\<close>

lemma iterate_visits:
  assumes "\<And>k w. it k None w = Ok w"
    and "\<And>k x w. it (Suc k) (Some x) w = bnd (body x w) (\<lambda>w. bnd (succ s h x) (\<lambda>y. it k y w))"
    and "rep s h (pre @ xs)" and "length xs \<le> fuel"
  shows "it fuel (case xs of [] \<Rightarrow> None | x # _ \<Rightarrow> Some x) w = each body xs w"
  using assms(3,4)
proof (induction xs arbitrary: pre fuel w)
  case Nil
  then show ?case by (simp add: assms(1))
next
  case (Cons x xs)
  then obtain k where k: "fuel = Suc k" "length xs \<le> k" by (cases fuel) auto
  show ?case
    using Cons.IH [of "pre @ [x]" k] Cons.prems(1) k(2) succ_law [OF Cons.prems(1)]
    by (simp add: k(1) assms(2) cong: bnd_cong)
qed

lemma drain_visits:
  assumes "\<And>k s w. dr (Suc k) s w = bnd (first s h) (\<lambda>item. case item of
      None \<Rightarrow> Ok (s, w)
    | Some x \<Rightarrow> bnd (body x w) (\<lambda>w. bnd (unlink s x) (\<lambda>s. dr k s w)))"
    and "rep s h xs" and "length xs < fuel"
  shows "\<exists>s'. dr fuel s w = bnd (each body xs w) (\<lambda>w. Ok (s', w)) \<and> rep s' h []"
  using assms(2,3)
proof (induction xs arbitrary: fuel s w)
  case Nil
  then obtain k where "fuel = Suc k" by (cases fuel) auto
  then show ?case using Nil by (auto simp: assms(1) first_law)
next
  case (Cons x xs)
  then obtain k where k: "fuel = Suc k" "length xs < k" by (cases fuel) auto
  obtain s1 where s1: "unlink s x = Ok s1" "rep s1 h xs"
    using unlink_law [of s h "[]" x xs] Cons.prems(1) by auto
  show ?case
  proof (cases "body x w")
    case (Ok w1)
    then show ?thesis using Cons.IH [OF s1(2) k(2), of w1] by (simp add: k(1) assms(1) first_law [OF Cons.prems(1)] s1(1))
  qed (use s1(2) Cons.IH [OF s1(2) k(2)] in \<open>auto simp: k(1) assms(1) first_law [OF Cons.prems(1)]\<close>)
qed

end

interpretation rings: item_list ring lai_list_first lai_list_next lai_list_unlink
  by unfold_locales (auto simp: list_first_ring list_next_ring dest: list_unlink_ring)

subsection \<open>Properties\<close>

text \<open>
  C22. The doubly linked lists are lists: on a ring that holds \<open>xs\<close>, \<open>lai_list_link\<close> of a new item
  appends it, \<open>lai_list_unlink\<close> removes an item from any place and clears its links,
  \<open>lai_list_first\<close> and \<open>lai_list_next\<close> give the head and the successor or \<open>NULL\<close> at the end.  Nothing
  outside the ring changes and no operation follows a null or dangling link.
\<close>

theorem list_refines:
  assumes "ring s h xs"
  shows "(\<forall>x. s x \<noteq> None \<and> x \<notin> set (h # xs) \<longrightarrow>
      (\<exists>s'. lai_list_link s h x = Ok s' \<and> ring s' h (xs @ [x]) \<and> (\<forall>b. b \<notin> set (h # x # xs) \<longrightarrow> s' b = s b))) \<and>
    (\<forall>ys x zs. xs = ys @ x # zs \<longrightarrow>
      (\<exists>s'. lai_list_unlink s x = Ok s' \<and> ring s' h (ys @ zs) \<and> s' x = Some \<lparr>li_next = None, li_prev = None\<rparr> \<and>
         (\<forall>b. b \<notin> set (h # xs) \<longrightarrow> s' b = s b)) \<and>
      lai_list_next s h x = Ok (case zs of [] \<Rightarrow> None | z # _ \<Rightarrow> Some z)) \<and>
    lai_list_first s h = Ok (case xs of [] \<Rightarrow> None | x # _ \<Rightarrow> Some x)"
proof (intro conjI allI impI)
  fix x assume "s x \<noteq> None \<and> x \<notin> set (h # xs)"
  then show "\<exists>s'. lai_list_link s h x = Ok s' \<and> ring s' h (xs @ [x]) \<and> (\<forall>b. b \<notin> set (h # x # xs) \<longrightarrow> s' b = s b)"
    using list_link_ring [OF assms] by blast
next
  fix ys x zs assume xs: "xs = ys @ x # zs"
  note r = assms [unfolded xs]
  from list_unlink_ring [OF r] show "\<exists>s'. lai_list_unlink s x = Ok s' \<and> ring s' h (ys @ zs) \<and>
      s' x = Some \<lparr>li_next = None, li_prev = None\<rparr> \<and> (\<forall>b. b \<notin> set (h # xs) \<longrightarrow> s' b = s b)"
    unfolding xs by blast
  show "lai_list_next s h x = Ok (case zs of [] \<Rightarrow> None | z # _ \<Rightarrow> Some z)" by (rule rings.succ_law [OF r])
qed (rule rings.first_law [OF assms])

definition demo_items :: item_store where
  "demo_items = (\<lambda>_. Some \<lparr>li_next = None, li_prev = None\<rparr>)"

lemma list_refines_witness:
  "\<exists>s1 s2 s3 s4. lai_list_init demo_items 0 = Ok s1 \<and> lai_list_link s1 0 1 = Ok s2 \<and> lai_list_link s2 0 2 = Ok s3 \<and>
     ring s3 0 [1, 2] \<and> lai_list_unlink s3 1 = Ok s4 \<and> ring s4 0 [2]"
proof -
  obtain s1 where 1: "lai_list_init demo_items 0 = Ok s1" "ring s1 0 []" "\<forall>b. b \<noteq> 0 \<longrightarrow> s1 b = demo_items b"
    using list_init_ring [of demo_items 0] by (auto simp: demo_items_def)
  have "s1 1 \<noteq> None" "s1 2 \<noteq> None" using 1(3) by (simp_all add: demo_items_def)
  with list_refines [OF 1(2), THEN conjunct1] obtain s2 where
    2: "lai_list_link s1 0 1 = Ok s2" "ring s2 0 [1]" "s2 2 \<noteq> None" by force
  from list_refines [OF 2(2), THEN conjunct1] 2(3) obtain s3 where 3: "lai_list_link s2 0 2 = Ok s3" "ring s3 0 [1, 2]"
    by force
  from list_refines [OF 3(2), THEN conjunct2, THEN conjunct1, rule_format, of "[]" 1 "[2]"] obtain s4 where
    "lai_list_unlink s3 1 = Ok s4" "ring s4 0 [2]" by auto
  then show ?thesis using 1(1) 2(1) 3 by blast
qed

end
