(* ===== verification/Lai_Owned.thy ===== *)
theory Lai_Owned
  imports Lai_List Lai_Process
begin

text \<open>
  The nodes of a method: the interpreter model keeps them as the list \<open>iv_nodes\<close> of an invocation,
  the code as a ring of \<open>per_method_item\<close>s (\<open>per_method_list\<close>, \<open>lai/include/lai/internal-exec.h\<close>).
  The loop at the end of a method (\<open>lai/core/exec.c\<close>), which empties the ring, is the removal along
  the list.
\<close>

text \<open>The body of the loop; \<open>iv_nodes\<close> follows the ring.\<close>

definition remove_owned :: "nat \<Rightarrow> nat \<Rightarrow> 'd lai_world \<Rightarrow> 'd lai_world outcome" where
  "remove_owned k p w =
     bnd (node w p) (\<lambda>n.
     bnd (release_field_buffer w n) (\<lambda>w.
     bnd (lai_uninstall_nsnode w p) (\<lambda>w.
     bnd (invocation w k) (\<lambda>iv.
     Ok (put_invocation w k (iv\<lparr>iv_nodes := tl (iv_nodes iv)\<rparr>))))))"

lemma release_field_buffer_invocations: "release_field_buffer w n = Ok w' \<Longrightarrow> invocations w' = invocations w"
  by (auto simp: release_field_buffer_def put_cell_def lai_outcome split: if_splits prod.splits)

lemma uninstall_invocations: "lai_uninstall_nsnode w p = Ok w' \<Longrightarrow> invocations w' = invocations w"
  by (auto simp: lai_uninstall_nsnode_def put_node_def Let_def lai_outcome split: option.splits if_splits prod.splits)

text \<open>A body that leaves the invocations alone sees the list it iterates over.\<close>

lemma each_remove_owned:
  assumes "invocation w k = Ok iv" and "iv_nodes iv = ps"
  shows "each (remove_owned k) ps w = remove_nodes k w ps"
  using assms
proof (induction ps arbitrary: w iv)
  case (Cons p ps)
  have "bnd (invocation w2 k) (\<lambda>iv. Ok (put_invocation w2 k (iv\<lparr>iv_nodes := tl (iv_nodes iv)\<rparr>))) =
      Ok (put_invocation w2 k (iv\<lparr>iv_nodes := ps\<rparr>))"
    "bnd (invocation w2 k) (\<lambda>iv. remove_nodes k (put_invocation w2 k (iv\<lparr>iv_nodes := ps\<rparr>)) ps) =
      each (remove_owned k) ps (put_invocation w2 k (iv\<lparr>iv_nodes := ps\<rparr>))"
    if "release_field_buffer w n = Ok w1" "lai_uninstall_nsnode w1 p = Ok w2" for n w1 w2
  proof -
    have i: "invocations w2 = invocations w"
      using release_field_buffer_invocations [OF that(1)] uninstall_invocations [OF that(2)] by simp
    then have iv: "invocation w2 k = Ok iv" using Cons.prems(1) by (simp add: invocation_def)
    then show "bnd (invocation w2 k) (\<lambda>iv. Ok (put_invocation w2 k (iv\<lparr>iv_nodes := tl (iv_nodes iv)\<rparr>))) =
      Ok (put_invocation w2 k (iv\<lparr>iv_nodes := ps\<rparr>))" using Cons.prems(2) by simp
    have "invocation (put_invocation w2 k (iv\<lparr>iv_nodes := ps\<rparr>)) k = Ok (iv\<lparr>iv_nodes := ps\<rparr>)"
      using iv by (auto simp: invocation_def put_invocation_def rd_def split: if_splits)
    from Cons.IH [OF this] iv show "bnd (invocation w2 k) (\<lambda>iv. remove_nodes k (put_invocation w2 k (iv\<lparr>iv_nodes := ps\<rparr>)) ps) =
      each (remove_owned k) ps (put_invocation w2 k (iv\<lparr>iv_nodes := ps\<rparr>))" by simp
  qed
  then show ?case by (simp add: remove_owned_def [of k p w] bnd_assoc cong: bnd_cong)
qed simp

text \<open>
  C23. The loop \<open>while ((pmi = lai_list_first (\<dots>)))\<close> at the end of a method ends after one round per
  item, with an empty ring, and does to the namespace and the heap what the model does along
  \<open>iv_nodes\<close>: every node the method declared is uninstalled, in the order of declaration.
\<close>

theorem method_nodes_drained:
  assumes "ring s h (iv_nodes iv)" and "invocation w k = Ok iv" and "length (iv_nodes iv) < fuel"
  shows "\<exists>s'. list_drain fuel (remove_owned k) s h w =
      bnd (remove_method_nodes (Some k) w) (\<lambda>w'. Ok (s', w')) \<and> ring s' h []"
  using rings.drain_visits [where dr = "\<lambda>j s. list_drain j (remove_owned k) s h", OF list_drain.simps(2) assms(1,3), of w]
  by (simp add: remove_method_nodes_def assms(2) each_remove_owned [OF assms(2) refl])

text \<open>A method that declared the node 1.\<close>

definition owning_world :: "unit lai_world" where
  "owning_world = demo_world\<lparr>invocations :=
     [Some \<lparr>iv_arg = replicate 7 var0, iv_local = replicate 8 var0, iv_nodes = [1]\<rparr>]\<rparr>"

lemma method_nodes_drained_witness:
  "\<exists>s s'. ring s 0 [1] \<and> list_drain 2 (remove_owned 0) s 0 owning_world =
     bnd (remove_method_nodes (Some 0) owning_world) (\<lambda>w'. Ok (s', w')) \<and> ring s' 0 []"
proof -
  obtain s1 where 1: "ring s1 0 []" "\<forall>b. b \<noteq> 0 \<longrightarrow> s1 b = demo_items b"
    using list_init_ring [of demo_items 0] by (auto simp: demo_items_def)
  have "s1 1 \<noteq> None" using 1(2) by (simp add: demo_items_def)
  with list_link_ring [OF 1(1)] obtain s2 where r: "ring s2 0 [1]" by force
  have i: "invocation owning_world 0 = Ok \<lparr>iv_arg = replicate 7 var0, iv_local = replicate 8 var0, iv_nodes = [1]\<rparr>"
    by (simp add: invocation_def owning_world_def)
  show ?thesis using method_nodes_drained [of s2 0, OF _ i, of 2] r by auto
qed

end
