(* ===== verification/Lai_Resource.thy ===== *)
theory Lai_Resource
  imports Lai_Process
begin

text \<open>
  Resource templates: \<open>lai/helpers/resource.c\<close>.  A template is a buffer of descriptors, small ones
  with the length in the low bits of the first byte, large ones with two bytes of length.

  The pointer \<open>entry\<close> of a view is an offset into the buffer \<open>rv_buf\<close> of the view; a read behind
  the buffer is a fault, since the code has no bounds of its own.  Left shifts of an \<open>int\<close> into its
  sign bit have the meaning the compiler gives them, two's complement.

  The theory shows that the iteration over the encoding of a list of descriptors visits them in
  order, with their values, and ends at the end tag, and which interrupts it does not report.
\<close>

subsection \<open>Constants\<close>

definition ACPI_SMALL_IRQ :: u8 where "ACPI_SMALL_IRQ = 0x04"
definition ACPI_SMALL_DMA :: u8 where "ACPI_SMALL_DMA = 0x05"
definition ACPI_SMALL_IO :: u8 where "ACPI_SMALL_IO = 0x08"
definition ACPI_SMALL_FIXED_IO :: u8 where "ACPI_SMALL_FIXED_IO = 0x09"
definition ACPI_SMALL_FIXED_DMA :: u8 where "ACPI_SMALL_FIXED_DMA = 0x0A"
definition ACPI_SMALL_VENDOR :: u8 where "ACPI_SMALL_VENDOR = 0x0E"
definition ACPI_SMALL_END :: u8 where "ACPI_SMALL_END = 0x0F"
definition ACPI_LARGE_MEM24 :: u8 where "ACPI_LARGE_MEM24 = 0x81"
definition ACPI_LARGE_REGISTER :: u8 where "ACPI_LARGE_REGISTER = 0x82"
definition ACPI_LARGE_MEM32 :: u8 where "ACPI_LARGE_MEM32 = 0x85"
definition ACPI_LARGE_FIXED_MEM32 :: u8 where "ACPI_LARGE_FIXED_MEM32 = 0x86"
definition ACPI_LARGE_IRQ :: u8 where "ACPI_LARGE_IRQ = 0x89"

lemmas resource_tags = ACPI_SMALL_IRQ_def ACPI_SMALL_DMA_def ACPI_SMALL_IO_def ACPI_SMALL_FIXED_IO_def
  ACPI_SMALL_FIXED_DMA_def ACPI_SMALL_VENDOR_def ACPI_SMALL_END_def ACPI_LARGE_MEM24_def
  ACPI_LARGE_REGISTER_def ACPI_LARGE_MEM32_def ACPI_LARGE_FIXED_MEM32_def ACPI_LARGE_IRQ_def

definition ACPI_SMALL_IRQ_EDGE_TRIGGERED :: u8 where "ACPI_SMALL_IRQ_EDGE_TRIGGERED = 0x01"
definition ACPI_SMALL_IRQ_ACTIVE_LOW :: u8 where "ACPI_SMALL_IRQ_ACTIVE_LOW = 0x08"
definition ACPI_EXTENDED_IRQ_EDGE_TRIGGERED :: u8 where "ACPI_EXTENDED_IRQ_EDGE_TRIGGERED = 0x02"
definition ACPI_EXTENDED_IRQ_ACTIVE_LOW :: u8 where "ACPI_EXTENDED_IRQ_ACTIVE_LOW = 0x04"

lemmas irq_flags = ACPI_SMALL_IRQ_EDGE_TRIGGERED_def ACPI_SMALL_IRQ_ACTIVE_LOW_def
  ACPI_EXTENDED_IRQ_EDGE_TRIGGERED_def ACPI_EXTENDED_IRQ_ACTIVE_LOW_def

subsection \<open>Little-endian fields\<close>

definition le16 :: "u8 \<Rightarrow> u8 \<Rightarrow> u16" where
  "le16 a b = ucast a OR push_bit 8 (ucast b)"

definition le32 :: "u8 \<Rightarrow> u8 \<Rightarrow> u8 \<Rightarrow> u8 \<Rightarrow> u32" where
  "le32 a b c d = ucast a OR push_bit 8 (ucast b) OR push_bit 16 (ucast c) OR push_bit 24 (ucast d)"

subsection \<open>Views\<close>

datatype lai_resource_type =
    LAI_RESOURCE_NULL | LAI_RESOURCE_IRQ | LAI_RESOURCE_DMA | LAI_RESOURCE_IO | LAI_RESOURCE_MEM
  | LAI_RESOURCE_VENDOR | LAI_RESOURCE_REGISTER

record lai_resource_view =
  rv_buf :: "u8 list"
  rv_entry :: nat
  rv_skip_size :: nat
  rv_entry_idx :: nat
  rv_base :: u64
  rv_length :: u64
  rv_alignment :: u64
  rv_flags :: u8
  rv_gsi :: u32

definition resource_view :: "u8 list \<Rightarrow> lai_resource_view" where
  "resource_view buf = \<lparr>rv_buf = buf, rv_entry = 0, rv_skip_size = 0, rv_entry_idx = 0, rv_base = 0,
     rv_length = 0, rv_alignment = 0, rv_flags = 0, rv_gsi = 0\<rparr>"

record lai_resource_header_info =
  hi_type :: u8
  hi_size :: nat
  hi_skip_size :: nat

definition lai_get_header_info :: "u8 list \<Rightarrow> nat \<Rightarrow> lai_resource_header_info outcome" where
  "lai_get_header_info buf p =
     bnd (rd buf p) (\<lambda>b0.
     if \<not> bit b0 7 then
       let n = unat (b0 AND 7) in
       Ok \<lparr>hi_type = drop_bit 3 b0 AND 0xF, hi_size = n, hi_skip_size = n + 1\<rparr>
     else
       bnd (rd buf (p + 1)) (\<lambda>b1.
       bnd (rd buf (p + 2)) (\<lambda>b2.
       let n = unat (le16 b1 b2) in
       Ok \<lparr>hi_type = b0, hi_size = n, hi_skip_size = n + 3\<rparr>)))"

text \<open>The byte \<open>i\<close> of the current entry.\<close>

definition entry_byte :: "lai_resource_view \<Rightarrow> nat \<Rightarrow> u8 outcome" where
  "entry_byte v i = rd (rv_buf v) (rv_entry v + i)"

text \<open>Four bytes of the entry.\<close>

definition entry_le32 :: "lai_resource_view \<Rightarrow> nat \<Rightarrow> u32 outcome" where
  "entry_le32 v i =
     bnd (entry_byte v i) (\<lambda>a. bnd (entry_byte v (i + 1)) (\<lambda>b.
     bnd (entry_byte v (i + 2)) (\<lambda>c. bnd (entry_byte v (i + 3)) (\<lambda>d. Ok (le32 a b c d)))))"

subsection \<open>Iteration\<close>

definition lai_resource_iterate :: "lai_resource_view \<Rightarrow> (lai_api_error \<times> lai_resource_view) outcome" where
  "lai_resource_iterate iter =
     (let v = iter\<lparr>rv_entry := rv_entry iter + rv_skip_size iter\<rparr>; entry = entry_byte v in
      bnd (lai_get_header_info (rv_buf v) (rv_entry v)) (\<lambda>info.
      let t = hi_type info; skipping = v\<lparr>rv_skip_size := hi_skip_size info\<rparr> in
      if t = ACPI_SMALL_FIXED_IO then
        bnd (entry 1) (\<lambda>b1. bnd (entry 2) (\<lambda>b2. bnd (entry 3) (\<lambda>b3.
        Ok (LAI_ERROR_NONE, skipping\<lparr>rv_base := ucast (le16 b1 (b2 AND 3)), rv_length := ucast b3\<rparr>))))
      else if t = ACPI_SMALL_IO then
        bnd (entry 1) (\<lambda>b1. bnd (entry 2) (\<lambda>b2. bnd (entry 3) (\<lambda>b3.
        bnd (entry 6) (\<lambda>b6. bnd (entry 7) (\<lambda>b7.
        Ok (LAI_ERROR_NONE, skipping\<lparr>rv_flags := b1, rv_base := ucast (le16 b2 b3), rv_alignment := ucast b6,
          rv_length := ucast b7\<rparr>))))))
      else if t = ACPI_SMALL_IRQ then
        (if hi_size info = 2 then
           Ok (LAI_ERROR_NONE, skipping\<lparr>rv_entry_idx := 0, rv_flags := ACPI_SMALL_IRQ_EDGE_TRIGGERED\<rparr>)
         else if hi_size info = 3 then
           bnd (entry 3) (\<lambda>b3. Ok (LAI_ERROR_NONE, skipping\<lparr>rv_entry_idx := 0, rv_flags := b3\<rparr>))
         else Ok (LAI_ERROR_UNEXPECTED_RESULT, v\<lparr>rv_entry_idx := 0\<rparr>))
      else if t = ACPI_SMALL_END then Ok (LAI_ERROR_END_REACHED, skipping)
      else if t = ACPI_LARGE_IRQ then
        bnd (entry 3) (\<lambda>b3. Ok (LAI_ERROR_NONE, skipping\<lparr>rv_entry_idx := 0, rv_flags := b3\<rparr>))
      else if t = ACPI_LARGE_FIXED_MEM32 then
        bnd (entry 3) (\<lambda>b3.
        bnd (entry_le32 v 4) (\<lambda>base.
        bnd (entry_le32 v 8) (\<lambda>len.
        Ok (LAI_ERROR_NONE, skipping\<lparr>rv_flags := b3, rv_base := ucast base, rv_length := scast len\<rparr>))))
      else Ok (LAI_ERROR_NONE, skipping)))"

definition lai_resource_get_type :: "lai_resource_view \<Rightarrow> lai_resource_type outcome" where
  "lai_resource_get_type v =
     bnd (lai_get_header_info (rv_buf v) (rv_entry v)) (\<lambda>info.
     let t = hi_type info in
     Ok (if t = ACPI_SMALL_IRQ then LAI_RESOURCE_IRQ
         else if t = ACPI_SMALL_DMA then LAI_RESOURCE_DMA
         else if t = ACPI_SMALL_IO then LAI_RESOURCE_IO
         else if t = ACPI_SMALL_FIXED_IO then LAI_RESOURCE_IO
         else if t = ACPI_SMALL_FIXED_DMA then LAI_RESOURCE_DMA
         else if t = ACPI_SMALL_VENDOR then LAI_RESOURCE_VENDOR
         else if t = ACPI_SMALL_END then LAI_RESOURCE_NULL
         else if t = ACPI_LARGE_MEM24 then LAI_RESOURCE_MEM
         else if t = ACPI_LARGE_REGISTER then LAI_RESOURCE_REGISTER
         else if t = ACPI_LARGE_MEM32 then LAI_RESOURCE_MEM
         else if t = ACPI_LARGE_FIXED_MEM32 then LAI_RESOURCE_MEM
         else if t = ACPI_LARGE_IRQ then LAI_RESOURCE_IRQ
         else LAI_RESOURCE_NULL))"

definition lai_resource_irq_is_level_triggered :: "lai_resource_view \<Rightarrow> bool outcome" where
  "lai_resource_irq_is_level_triggered v =
     bnd (lai_get_header_info (rv_buf v) (rv_entry v)) (\<lambda>info.
     if hi_type info = ACPI_SMALL_IRQ then
       (if hi_size info < 3 then Ok False
        else bnd (entry_byte v 3) (\<lambda>b. Ok (b AND ACPI_SMALL_IRQ_EDGE_TRIGGERED = 0)))
     else if hi_type info = ACPI_LARGE_IRQ then
       bnd (entry_byte v 3) (\<lambda>b. Ok (b AND ACPI_EXTENDED_IRQ_EDGE_TRIGGERED = 0))
     else Panic)"

definition lai_resource_irq_is_active_low :: "lai_resource_view \<Rightarrow> bool outcome" where
  "lai_resource_irq_is_active_low v =
     bnd (lai_get_header_info (rv_buf v) (rv_entry v)) (\<lambda>info.
     if hi_type info = ACPI_SMALL_IRQ then
       (if hi_size info < 3 then Ok False
        else bnd (entry_byte v 3) (\<lambda>b. Ok (b AND ACPI_SMALL_IRQ_ACTIVE_LOW \<noteq> 0)))
     else if hi_type info = ACPI_LARGE_IRQ then
       bnd (entry_byte v 3) (\<lambda>b. Ok (b AND ACPI_EXTENDED_IRQ_ACTIVE_LOW \<noteq> 0))
     else Panic)"

text \<open>The scan of the interrupt mask from \<open>idx\<close>; the mask is a \<open>uint8_t\<close>.\<close>

function small_irq_scan :: "u8 \<Rightarrow> nat \<Rightarrow> nat option \<times> nat" where
  "small_irq_scan irq_mask idx =
     (if idx \<le> 15 then
        if (ucast irq_mask :: u32) AND push_bit idx 1 \<noteq> 0 then (Some idx, Suc idx)
        else small_irq_scan irq_mask (Suc idx)
      else (None, idx))"
  by pat_completeness auto
termination by (relation "measure (\<lambda>(_, idx). 16 - idx)") auto

declare small_irq_scan.simps [simp del]

definition lai_resource_next_irq :: "lai_resource_view \<Rightarrow> (lai_api_error \<times> lai_resource_view) outcome" where
  "lai_resource_next_irq v =
     bnd (lai_get_header_info (rv_buf v) (rv_entry v)) (\<lambda>info.
     if hi_type info = ACPI_SMALL_IRQ then
       bnd (entry_byte v 1) (\<lambda>b1. bnd (entry_byte v 2) (\<lambda>b2.
       case small_irq_scan (ucast (le16 b1 b2)) (rv_entry_idx v) of
         (Some i, idx) \<Rightarrow> Ok (LAI_ERROR_NONE, v\<lparr>rv_gsi := of_nat i, rv_entry_idx := idx\<rparr>)
       | (None, idx) \<Rightarrow> Ok (LAI_ERROR_END_REACHED, v\<lparr>rv_entry_idx := idx\<rparr>)))
     else if hi_type info = ACPI_LARGE_IRQ then
       bnd (entry_byte v 4) (\<lambda>n.
       if rv_entry_idx v < unat n then
         let offset = unat (of_nat (4 * rv_entry_idx v + 5) :: u8) in
         bnd (entry_le32 v offset) (\<lambda>gsi.
         Ok (LAI_ERROR_NONE, v\<lparr>rv_gsi := gsi, rv_entry_idx := Suc (rv_entry_idx v)\<rparr>))
       else Ok (LAI_ERROR_END_REACHED, v))
     else Ok (LAI_ERROR_ILLEGAL_ARGUMENTS, v))"

subsection \<open>The old interface\<close>

record acpi_resource =
  ar_type :: u8
  ar_base :: u64
  ar_length :: u64
  ar_address_space :: u8
  ar_bit_width :: u8
  ar_bit_offset :: u8
  ar_irq_flags :: u8

definition ACPI_RESOURCE_IRQ :: u8 where "ACPI_RESOURCE_IRQ = 3"

definition set_irq :: "acpi_resource list \<Rightarrow> nat \<Rightarrow> u64 \<Rightarrow> u8 \<Rightarrow> acpi_resource list outcome" where
  "set_irq dest cnt base flags =
     bnd (rd dest cnt) (\<lambda>r.
     wr dest cnt (r\<lparr>ar_type := ACPI_RESOURCE_IRQ, ar_base := base, ar_irq_flags := flags\<rparr>))"

text \<open>
  The loop \<open>while (small_irq_mask)\<close>, which clears the bits it finds.  16 rounds are enough; after
  them a mask that is still set would keep it going for ever, so that \<open>Stuck\<close> is that loop.
\<close>

fun small_irq_fill :: "nat \<Rightarrow> u16 \<Rightarrow> u8 \<Rightarrow> nat \<Rightarrow> acpi_resource list \<Rightarrow> nat \<Rightarrow> (acpi_resource list \<times> nat) outcome" where
  "small_irq_fill 0 irqs flags i dest cnt = (if irqs = 0 then Ok (dest, cnt) else Stuck)"
| "small_irq_fill (Suc fuel) irqs flags i dest cnt =
     (if irqs = 0 then Ok (dest, cnt)
      else if bit irqs i then
        bnd (set_irq dest cnt (of_nat i) flags) (\<lambda>dest.
        small_irq_fill fuel (irqs AND NOT (push_bit i 1)) flags (Suc i) dest (Suc cnt))
      else small_irq_fill fuel irqs flags (Suc i) dest cnt)"

function read_resources :: "u8 list \<Rightarrow> nat \<Rightarrow> acpi_resource list \<Rightarrow> nat \<Rightarrow> (nat \<times> acpi_resource list) outcome" where
  "read_resources buf p dest cnt =
     bnd (rd buf p) (\<lambda>b0.
     if b0 = 0x79 then Ok (cnt, dest)
     else if \<not> bit b0 7 then
       let data_size = unat (b0 AND 7) in
       if drop_bit 3 b0 = ACPI_SMALL_END then Ok (cnt, dest)
       else if drop_bit 3 b0 = ACPI_SMALL_IRQ then
         bnd (rd buf (p + 1)) (\<lambda>b1. bnd (rd buf (p + 2)) (\<lambda>b2.
         bnd (if data_size \<ge> 3 \<and> le16 b1 b2 \<noteq> 0 then rd buf (p + 3) else Ok ACPI_SMALL_IRQ_EDGE_TRIGGERED) (\<lambda>flags.
         bnd (small_irq_fill 16 (le16 b1 b2) flags 0 dest cnt) (\<lambda>(dest, cnt).
         read_resources buf (p + (data_size + 1)) dest cnt))))
       else Ok (0, dest)
     else
       bnd (rd buf (p + 1)) (\<lambda>b1. bnd (rd buf (p + 2)) (\<lambda>b2.
       let data_size = unat (le16 b1 b2) in
       if b0 = ACPI_LARGE_IRQ then
         bnd (rd buf (p + 3)) (\<lambda>config.
         bnd (rd buf (p + 5)) (\<lambda>i0. bnd (rd buf (p + 6)) (\<lambda>i1.
         bnd (rd buf (p + 7)) (\<lambda>i2. bnd (rd buf (p + 8)) (\<lambda>i3.
         bnd (set_irq dest cnt (ucast (le32 i0 i1 i2 i3)) config) (\<lambda>dest.
         read_resources buf (p + (data_size + 3)) dest (Suc cnt)))))))
       else Ok (0, dest))))"
  by pat_completeness auto
termination by (relation "measure (\<lambda>(buf, p, _, _). length buf - p)") (auto simp: rd_def split: if_splits)

declare read_resources.simps [simp del]

text \<open>
  \<open>lai_read_resource\<close>.  The state and the buffer are released on every return (\<open>LAI_CLEANUP_STATE\<close>,
  \<open>LAI_CLEANUP_VAR\<close>).  An evaluation that fails gives 0 resources.
\<close>

definition lai_read_resource :: "nat \<Rightarrow> 'd exec_env \<Rightarrow> 'd lai_world \<Rightarrow> nat \<Rightarrow> acpi_resource list \<Rightarrow>
    (nat \<times> acpi_resource list \<times> 'd lai_world) outcome" where
  "lai_read_resource fuel env w device dest =
     bnd (lai_resolve_path w (Some device) (bytes_of ''_CRS'' @ [0])) (\<lambda>crs_handle.
     case crs_handle of
       None \<Rightarrow> bnd (lai_finalize_state w lai_init_state) (\<lambda>(w, _). Ok (0, dest, w))
     | Some h \<Rightarrow>
         bnd (lai_eval fuel env w (Some var0) (Some h) lai_init_state) (\<lambda>(status, w, st, buffer).
         case buffer of None \<Rightarrow> Fault | Some buffer \<Rightarrow>
         bnd (if status \<noteq> LAI_ERROR_NONE then Ok (0, dest)
              else bnd (lai_exec_buffer_access w buffer) (\<lambda>(_, b). read_resources (b_content b) 0 dest 0)) (\<lambda>(n, dest).
         bnd (lai_var_finalize w buffer) (\<lambda>w.
         bnd (lai_finalize_state w st) (\<lambda>(w, _). Ok (n, dest, w))))))"

subsection \<open>Templates\<close>

text \<open>
  Descriptors and their encoding: the six whose contents the iteration reads, and all others, which it passes over:
  a small one is its first byte with its contents, a large one its tag with its contents.
\<close>

datatype descriptor =
    FixedIo u16 u8
  | IoPorts u8 u16 u16 u8 u8
  | SmallIrq u16
  | SmallIrqFlags u16 u8
  | ExtendedIrq u8 "u32 list"
  | FixedMem32 u8 u32 u32
  | OtherSmall u8 "u8 list"
  | OtherLarge u8 "u8 list"

definition bytes16 :: "u16 \<Rightarrow> u8 list" where
  "bytes16 x = [ucast x, ucast (drop_bit 8 x)]"

definition bytes32 :: "u32 \<Rightarrow> u8 list" where
  "bytes32 x = [ucast x, ucast (drop_bit 8 x), ucast (drop_bit 16 x), ucast (drop_bit 24 x)]"

fun descriptor_bytes :: "descriptor \<Rightarrow> u8 list" where
  "descriptor_bytes (FixedIo base len) = 0x4B # bytes16 base @ [len]"
| "descriptor_bytes (IoPorts info lowest highest align len) = 0x47 # info # bytes16 lowest @ bytes16 highest @ [align, len]"
| "descriptor_bytes (SmallIrq irqs) = 0x22 # bytes16 irqs"
| "descriptor_bytes (SmallIrqFlags irqs flags) = 0x23 # bytes16 irqs @ [flags]"
| "descriptor_bytes (ExtendedIrq flags gsis) =
     0x89 # bytes16 (of_nat (2 + 4 * length gsis)) @ [flags, of_nat (length gsis)] @ concat (map bytes32 gsis)"
| "descriptor_bytes (FixedMem32 flags base len) = 0x86 # bytes16 9 @ [flags] @ bytes32 base @ bytes32 len"
| "descriptor_bytes (OtherSmall b0 bs) = b0 # bs"
| "descriptor_bytes (OtherLarge tag bs) = tag # bytes16 (of_nat (length bs)) @ bs"

fun descriptor_ok :: "descriptor \<Rightarrow> bool" where
  "descriptor_ok (FixedIo base len) \<longleftrightarrow> base < 0x400"
| "descriptor_ok (ExtendedIrq flags gsis) \<longleftrightarrow> length gsis < 256"
| "descriptor_ok (OtherSmall b0 bs) \<longleftrightarrow> \<not> bit b0 7 \<and> length bs = unat (b0 AND 7) \<and>
     drop_bit 3 b0 AND 0xF \<notin> {ACPI_SMALL_IRQ, ACPI_SMALL_IO, ACPI_SMALL_FIXED_IO, ACPI_SMALL_END}"
| "descriptor_ok (OtherLarge tag bs) \<longleftrightarrow> bit tag 7 \<and> length bs < 2 ^ 16 \<and> tag \<notin> {ACPI_LARGE_IRQ, ACPI_LARGE_FIXED_MEM32}"
| "descriptor_ok _ \<longleftrightarrow> True"

definition template_bytes :: "descriptor list \<Rightarrow> u8 list" where
  "template_bytes ds = concat (map descriptor_bytes ds) @ [0x79, 0]"

text \<open>What a view at a descriptor holds.  The length of a fixed memory range is extended with its sign.\<close>

fun shows_descriptor :: "lai_resource_view \<Rightarrow> descriptor \<Rightarrow> bool" where
  "shows_descriptor v (FixedIo base len) \<longleftrightarrow> rv_base v = ucast base \<and> rv_length v = ucast len"
| "shows_descriptor v (IoPorts info lowest highest align len) \<longleftrightarrow>
     rv_flags v = info \<and> rv_base v = ucast lowest \<and> rv_alignment v = ucast align \<and> rv_length v = ucast len"
| "shows_descriptor v (SmallIrq irqs) \<longleftrightarrow> rv_flags v = ACPI_SMALL_IRQ_EDGE_TRIGGERED \<and> rv_entry_idx v = 0"
| "shows_descriptor v (SmallIrqFlags irqs flags) \<longleftrightarrow> rv_flags v = flags \<and> rv_entry_idx v = 0"
| "shows_descriptor v (ExtendedIrq flags gsis) \<longleftrightarrow> rv_flags v = flags \<and> rv_entry_idx v = 0"
| "shows_descriptor v (FixedMem32 flags base len) \<longleftrightarrow>
     rv_flags v = flags \<and> rv_base v = ucast base \<and> rv_length v = scast len"
| "shows_descriptor v _ \<longleftrightarrow> True"

fun descriptor_type :: "descriptor \<Rightarrow> lai_resource_type" where
  "descriptor_type (FixedIo _ _) = LAI_RESOURCE_IO"
| "descriptor_type (IoPorts _ _ _ _ _) = LAI_RESOURCE_IO"
| "descriptor_type (FixedMem32 _ _ _) = LAI_RESOURCE_MEM"
| "descriptor_type (OtherSmall b0 _) =
     (let t = drop_bit 3 b0 AND 0xF in
      if t \<in> {ACPI_SMALL_DMA, ACPI_SMALL_FIXED_DMA} then LAI_RESOURCE_DMA
      else if t = ACPI_SMALL_VENDOR then LAI_RESOURCE_VENDOR else LAI_RESOURCE_NULL)"
| "descriptor_type (OtherLarge tag _) =
     (if tag \<in> {ACPI_LARGE_MEM24, ACPI_LARGE_MEM32} then LAI_RESOURCE_MEM
      else if tag = ACPI_LARGE_REGISTER then LAI_RESOURCE_REGISTER else LAI_RESOURCE_NULL)"
| "descriptor_type _ = LAI_RESOURCE_IRQ"

lemma le16_bytes [simp]: "le16 (ucast x) (ucast (drop_bit 8 x)) = x"
proof (rule bit_word_eqI)
  fix n assume "n < LENGTH(16)"
  then consider "n < 8" | "8 \<le> n" "n - 8 < 8" by fastforce
  then show "bit (le16 (ucast x) (ucast (drop_bit 8 x))) n \<longleftrightarrow> bit x n"
    by cases (auto simp: le16_def bit_simps)
qed

lemma le32_bytes [simp]: "le32 (ucast x) (ucast (drop_bit 8 x)) (ucast (drop_bit 16 x)) (ucast (drop_bit 24 x)) = x"
proof (rule bit_word_eqI)
  fix n assume n: "n < LENGTH(32)"
  then consider "n < 8" | "8 \<le> n" "n < 16" | "16 \<le> n" "n < 24" | "24 \<le> n" by linarith
  then show "bit (le32 (ucast x) (ucast (drop_bit 8 x)) (ucast (drop_bit 16 x)) (ucast (drop_bit 24 x))) n \<longleftrightarrow> bit x n"
    by cases (use n in \<open>auto simp: le32_def bit_simps\<close>)
qed

text \<open>The header of a descriptor, behind any other bytes.\<close>

lemma rd_behind: "length pre \<le> i \<Longrightarrow> rd (pre @ xs) i = rd xs (i - length pre)"
  by (auto simp: rd_def nth_append)

lemma rd_Cons: "rd (x # xs) 0 = Ok x" "rd (x # xs) (Suc i) = rd xs i"
  by (simp_all add: rd_def)

lemma rd_Cons_numeral [simp]: "rd (x # xs) (numeral k) = rd xs (pred_numeral k)"
  by (simp add: numeral_eq_Suc rd_Cons)

lemmas byte_reads = rd_behind rd_Cons bytes16_def bytes32_def

lemma length_gsis [simp]: "length (concat (map bytes32 gsis)) = 4 * length gsis"
  by (induction gsis) (auto simp: bytes32_def)

lemma unat_table_length: "n < 256 \<Longrightarrow> unat (2 + 4 * of_nat n :: u16) = 2 + 4 * n"
  by (simp add: unat_word_ariths unat_of_nat)

lemma le16_9 [simp]: "le16 9 0 = 9"
  by (simp add: le16_def)

text \<open>One step of the iteration.\<close>

lemma no_high_bits:
  fixes x :: "'a::len word"
  assumes "unat x < 2 ^ k" and "k \<le> n"
  shows "\<not> bit x n"
proof -
  have "unat x < 2 ^ n" using assms by (meson less_le_trans one_le_numeral power_increasing)
  then have "\<not> bit (unat x) n" by (simp add: bit_iff_odd)
  then show ?thesis by (auto simp: bit_unsigned_iff dest: bit_imp_le_length)
qed

lemma le16_short:
  fixes x :: u16
  assumes "x < 0x400"
  shows "le16 (ucast x) (ucast (drop_bit 8 x) AND 3) = x"
proof -
  have "n < 2" if "bit x (8 + n)" for n
    using no_high_bits [of x 10 "8 + n"] assms that by (cases "n < 2") (auto simp: word_less_nat_alt)
  moreover have "(3 :: u8) = mask 2" by (simp add: mask_eq_exp_minus_1)
  then have "bit (3 :: u8) n \<longleftrightarrow> n < 2" for n by (simp only: bit_mask_iff) auto
  ultimately have "ucast (drop_bit 8 x) AND (3 :: u8) = ucast (drop_bit 8 x)"
    by (intro bit_word_eqI) (auto simp: bit_simps not_less)
  then show ?thesis by simp
qed

text \<open>No type of a small descriptor is the tag of a large one.\<close>

lemma small_type:
  fixes b :: u8
  shows "drop_bit 3 b AND 0xF < 16"
proof -
  have "unat (drop_bit 3 b AND mask 4) < 2 ^ 4"
    by (simp only: take_bit_eq_mask [symmetric] unsigned_take_bit_eq take_bit_nat_less_exp)
  moreover have "(0xF :: u8) = mask 4" by (simp add: mask_eq_exp_minus_1)
  ultimately show ?thesis by (simp add: word_less_nat_alt)
qed

lemma large_tag:
  fixes t :: u8
  assumes "bit t 7"
  shows "\<not> t < 0x80"
  using no_high_bits [of t 7 7] assms by (auto simp: word_less_nat_alt)

lemma iterate_other:
  assumes "descriptor_ok d" and "(\<exists>b bs. d = OtherSmall b bs) \<or> (\<exists>t bs. d = OtherLarge t bs)"
    and buf: "rv_buf v = pre @ descriptor_bytes d @ rest" and at: "rv_entry v + rv_skip_size v = length pre"
  shows "\<exists>v'. lai_resource_iterate v = Ok (LAI_ERROR_NONE, v') \<and> rv_buf v' = rv_buf v \<and> rv_entry v' = length pre \<and>
    rv_skip_size v' = length (descriptor_bytes d) \<and> lai_resource_get_type v' = Ok (descriptor_type d)"
  using assms(2)
proof (elim disjE exE)
  fix b bs assume d: "d = OtherSmall b bs"
  have ok: "\<not> bit b 7" "length bs = unat (b AND 7)"
    "drop_bit 3 b AND 0xF \<noteq> ACPI_SMALL_IRQ" "drop_bit 3 b AND 0xF \<noteq> ACPI_SMALL_IO"
    "drop_bit 3 b AND 0xF \<noteq> ACPI_SMALL_FIXED_IO" "drop_bit 3 b AND 0xF \<noteq> ACPI_SMALL_END"
    using assms(1) by (simp_all add: d)
  define t where "t = drop_bit 3 b AND 0xF"
  have "t < 16" unfolding t_def by (rule small_type)
  then have nl: "t \<noteq> ACPI_LARGE_IRQ" "t \<noteq> ACPI_LARGE_FIXED_MEM32" "t \<noteq> ACPI_LARGE_MEM24" "t \<noteq> ACPI_LARGE_MEM32"
    "t \<noteq> ACPI_LARGE_REGISTER"
    by (auto simp: resource_tags)
  have h: "lai_get_header_info (rv_buf v) (length pre) =
      Ok \<lparr>hi_type = t, hi_size = length bs, hi_skip_size = length bs + 1\<rparr>"
    using ok(1,2) by (simp add: buf d lai_get_header_info_def byte_reads Let_def t_def del: rd_Ok)
  show ?thesis
    using h nl ok(3-6) [folded t_def] by (simp add: lai_resource_iterate_def lai_resource_get_type_def Let_def at d t_def [symmetric])
      (auto simp: resource_tags)
next
  fix t bs assume d: "d = OtherLarge t bs"
  have ok: "bit t 7" "length bs < 2 ^ 16" "t \<noteq> ACPI_LARGE_IRQ" "t \<noteq> ACPI_LARGE_FIXED_MEM32"
    using assms(1) by (simp_all add: d)
  have ns: "t \<noteq> ACPI_SMALL_IRQ" "t \<noteq> ACPI_SMALL_IO" "t \<noteq> ACPI_SMALL_FIXED_IO" "t \<noteq> ACPI_SMALL_END"
    "t \<noteq> ACPI_SMALL_DMA" "t \<noteq> ACPI_SMALL_FIXED_DMA" "t \<noteq> ACPI_SMALL_VENDOR"
    using large_tag [OF ok(1)] by (auto simp: resource_tags)
  have "unat (of_nat (length bs) :: u16) = length bs" using ok(2) by (simp add: unat_of_nat)
  then have h: "lai_get_header_info (rv_buf v) (length pre) =
      Ok \<lparr>hi_type = t, hi_size = length bs, hi_skip_size = length bs + 3\<rparr>"
    using ok(1) by (simp add: buf d lai_get_header_info_def byte_reads Let_def del: rd_Ok)
  show ?thesis
    using h ns ok(3,4) by (simp add: lai_resource_iterate_def lai_resource_get_type_def Let_def at d bytes16_def)
      (auto simp: resource_tags)
qed

lemma iterate_descriptor:
  assumes ok: "descriptor_ok d" and buf: "rv_buf v = pre @ descriptor_bytes d @ rest"
    and at: "rv_entry v + rv_skip_size v = length pre"
  shows "\<exists>v'. lai_resource_iterate v = Ok (LAI_ERROR_NONE, v') \<and> rv_buf v' = rv_buf v \<and> rv_entry v' = length pre \<and>
    rv_skip_size v' = length (descriptor_bytes d) \<and> shows_descriptor v' d \<and>
    lai_resource_get_type v' = Ok (descriptor_type d)"
proof (cases "(\<exists>b bs. d = OtherSmall b bs) \<or> (\<exists>t bs. d = OtherLarge t bs)")
  case True
  then have "shows_descriptor v' d" for v' by auto
  then show ?thesis using iterate_other [OF ok True buf at] by blast
next
  case False
  then show ?thesis using ok
    by (cases d)
      (simp_all add: lai_resource_iterate_def lai_resource_get_type_def Let_def at buf lai_get_header_info_def byte_reads
         resource_tags entry_byte_def entry_le32_def le16_short unat_table_length del: rd_Ok)
qed

text \<open>The loop \<open>while (!lai_resource_iterate (&view))\<close>, with the views it goes through.\<close>

fun resource_walk :: "nat \<Rightarrow> lai_resource_view \<Rightarrow> ((lai_resource_type \<times> lai_resource_view) list \<times> lai_api_error) outcome" where
  "resource_walk 0 v = Stuck"
| "resource_walk (Suc fuel) v =
     bnd (lai_resource_iterate v) (\<lambda>(e, v).
     if e \<noteq> LAI_ERROR_NONE then Ok ([], e)
     else
       bnd (lai_resource_get_type v) (\<lambda>t.
       bnd (resource_walk fuel v) (\<lambda>(rs, e). Ok ((t, v) # rs, e))))"

lemma iterate_end:
  assumes "rv_buf v = pre @ [0x79, 0]" and "rv_entry v + rv_skip_size v = length pre"
  shows "\<exists>v'. lai_resource_iterate v = Ok (LAI_ERROR_END_REACHED, v')"
  using assms by (simp add: lai_resource_iterate_def Let_def lai_get_header_info_def byte_reads resource_tags del: rd_Ok)

subsection \<open>Interrupts\<close>

lemma filter_upt_Cons:
  "filter P [a..<b] = x # xs \<Longrightarrow> xs = filter P [Suc x..<b] \<and> a \<le> x"
proof (induction "b - a" arbitrary: a)
  case (Suc n)
  then have "[a..<b] = a # [Suc a..<b]" by (simp add: upt_conv_Cons)
  then show ?case using Suc.hyps(1) [of "Suc a"] Suc.hyps(2) Suc.prems by (fastforce split: if_splits)
qed simp

lemma mask_bit_u32: "i \<le> 15 \<Longrightarrow> (ucast m :: u32) AND push_bit i 1 \<noteq> 0 \<longleftrightarrow> bit (m :: u8) i"
  by (simp add: push_bit_eq_mult and_exp_eq_0_iff_not_bit) (auto simp: bit_simps dest: bit_imp_le_length)

lemma small_irq_scan_filter:
  assumes "idx \<le> 16"
  shows "small_irq_scan m idx = (case filter (bit m) [idx..<8] of [] \<Rightarrow> (None, 16) | i # _ \<Rightarrow> (Some i, Suc i))"
  using assms
proof (induction m idx rule: small_irq_scan.induct)
  case (1 m idx)
  show ?case
  proof (cases "idx < 8")
    case True
    then show ?thesis using "1.IH" mask_bit_u32 [of idx m]
      by (cases "bit m idx") (simp_all add: small_irq_scan.simps [of m idx] upt_conv_Cons)
  next
    case False
    then have "\<not> bit m idx" by (auto dest: bit_imp_le_length)
    then show ?thesis using "1.IH" "1.prems" False mask_bit_u32 [of idx m]
      by (auto simp: small_irq_scan.simps [of m idx])
  qed
qed

text \<open>The loop \<open>while (!lai_resource_next_irq (&view))\<close>.\<close>

fun irq_walk :: "nat \<Rightarrow> lai_resource_view \<Rightarrow> (u32 list \<times> lai_api_error) outcome" where
  "irq_walk 0 v = Stuck"
| "irq_walk (Suc fuel) v =
     bnd (lai_resource_next_irq v) (\<lambda>(e, v).
     if e \<noteq> LAI_ERROR_NONE then Ok ([], e)
     else bnd (irq_walk fuel v) (\<lambda>(gs, e). Ok (rv_gsi v # gs, e)))"

fun small_irqs :: "descriptor \<Rightarrow> u16 option" where
  "small_irqs (SmallIrq m) = Some m"
| "small_irqs (SmallIrqFlags m _) = Some m"
| "small_irqs _ = None"

lemma next_small_irq:
  assumes "small_irqs d = Some m" and "rv_buf v = pre @ descriptor_bytes d @ rest" and "rv_entry v = length pre"
  shows "lai_resource_next_irq v = (case small_irq_scan (ucast m) (rv_entry_idx v) of
     (Some i, idx) \<Rightarrow> Ok (LAI_ERROR_NONE, v\<lparr>rv_gsi := of_nat i, rv_entry_idx := idx\<rparr>)
   | (None, idx) \<Rightarrow> Ok (LAI_ERROR_END_REACHED, v\<lparr>rv_entry_idx := idx\<rparr>))"
  using assms
  by (cases d) (auto simp: lai_resource_next_irq_def lai_get_header_info_def entry_byte_def byte_reads Let_def
      resource_tags simp del: rd_Ok)

lemma irq_walk_from:
  assumes d: "small_irqs d = Some m"
    and "rv_buf v = pre @ descriptor_bytes d @ rest" and "rv_entry v = length pre"
    and "rv_entry_idx v \<le> 16" and "length (filter (bit (ucast m :: u8)) [rv_entry_idx v..<8]) < fuel"
  shows "irq_walk fuel v =
    Ok (map of_nat (filter (bit (ucast m :: u8)) [rv_entry_idx v..<8]), LAI_ERROR_END_REACHED)"
  using assms(2-)
proof (induction fuel arbitrary: v)
  case (Suc k)
  let ?l = "filter (bit (ucast m :: u8)) [rv_entry_idx v..<8]"
  note n = next_small_irq [OF d Suc.prems(1,2)] small_irq_scan_filter [OF Suc.prems(3)]
  show ?case
  proof (cases ?l)
    case Nil
    then show ?thesis by (simp add: n)
  next
    case (Cons i js)
    from filter_upt_Cons [OF Cons] have l: "js = filter (bit (ucast m :: u8)) [Suc i..<8]" by simp
    have "i \<in> set ?l" using Cons by simp
    then have "i < 8" by simp
    then have "irq_walk k (v\<lparr>rv_gsi := of_nat i, rv_entry_idx := Suc i\<rparr>) =
        Ok (map of_nat js, LAI_ERROR_END_REACHED)"
      using Suc.IH [of "v\<lparr>rv_gsi := of_nat i, rv_entry_idx := Suc i\<rparr>"] Suc.prems Cons l by simp
    then show ?thesis by (simp add: n Cons)
  qed
qed simp

text \<open>The interrupts of an extended descriptor; the offset of an entry is a \<open>uint8_t\<close>, which holds for 63 of them.\<close>

lemma rd_gsis:
  assumes "i < length gsis" and "j < 4"
  shows "rd (concat (map bytes32 gsis) @ rest) (4 * i + j) = Ok (bytes32 (gsis ! i) ! j)"
  using assms
proof (induction gsis arbitrary: i)
  case (Cons g gsis)
  have l: "length (bytes32 g) = 4" by (simp add: bytes32_def)
  show ?case
  proof (cases i)
    case 0
    then show ?thesis using Cons.prems(2) l by (simp add: rd_def nth_append)
  next
    case (Suc k)
    then have "rd (bytes32 g @ (concat (map bytes32 gsis) @ rest)) (4 * i + j) =
        rd (concat (map bytes32 gsis) @ rest) (4 * k + j)" using rd_behind [of "bytes32 g" "4 * i + j"] l by simp
    then show ?thesis using Cons.IH [of k] Cons.prems Suc by simp
  qed
qed simp

lemma extended_header:
  assumes "length gsis \<le> 63" and "rv_buf v = pre @ descriptor_bytes (ExtendedIrq flags gsis) @ rest" and "rv_entry v = length pre"
  shows "\<exists>info. lai_get_header_info (rv_buf v) (rv_entry v) = Ok info \<and> hi_type info = ACPI_LARGE_IRQ"
    "entry_byte v 4 = Ok (of_nat (length gsis))"
    "i < length gsis \<Longrightarrow> entry_le32 v (unat (of_nat (4 * i + 5) :: u8)) = Ok (gsis ! i)"
proof -
  show "\<exists>info. lai_get_header_info (rv_buf v) (rv_entry v) = Ok info \<and> hi_type info = ACPI_LARGE_IRQ"
    "entry_byte v 4 = Ok (of_nat (length gsis))"
    by (simp_all add: lai_get_header_info_def entry_byte_def assms(2,3) byte_reads resource_tags Let_def del: rd_Ok)
  assume i: "i < length gsis"
  have e: "entry_byte v (5 + k) = rd (concat (map bytes32 gsis) @ rest) k" for k
    using rd_behind [of "pre @ 0x89 # bytes16 (of_nat (2 + 4 * length gsis)) @ [flags, of_nat (length gsis)]"
        "length pre + (5 + k)" "concat (map bytes32 gsis) @ rest"]
    by (simp add: entry_byte_def assms(2,3) bytes16_def)
  have b: "entry_byte v (5 + (4 * i + j)) = Ok (bytes32 (gsis ! i) ! j)" if "j < 4" for j
    unfolding e by (rule rd_gsis [OF i that])
  have "4 * i + 5 < 2 ^ LENGTH(8)" using i assms(1) by simp
  then have "unat (of_nat (4 * i + 5) :: u8) = 4 * i + 5" by (simp only: unat_of_nat mod_less)
  then have "unat (of_nat (4 * i + 5) :: u8) = 5 + 4 * i" by (simp only: add.commute)
  then show "entry_le32 v (unat (of_nat (4 * i + 5) :: u8)) = Ok (gsis ! i)"
    using b [of 0] b [of 1] b [of 2] b [of 3] by (simp add: entry_le32_def bytes32_def add.assoc)
qed

lemma irq_walk_extended:
  assumes "length gsis \<le> 63"
    and "rv_buf v = pre @ descriptor_bytes (ExtendedIrq flags gsis) @ rest" and "rv_entry v = length pre"
    and "rv_entry_idx v \<le> length gsis" and "length gsis - rv_entry_idx v < fuel"
  shows "irq_walk fuel v = Ok (drop (rv_entry_idx v) gsis, LAI_ERROR_END_REACHED)"
  using assms(2-)
proof (induction fuel arbitrary: v)
  case (Suc k)
  note h = extended_header [OF assms(1) Suc.prems(1,2)]
  obtain info where info: "lai_get_header_info (rv_buf v) (rv_entry v) = Ok info" "hi_type info = ACPI_LARGE_IRQ"
    using h(1) by blast
  have n: "unat (of_nat (length gsis) :: u8) = length gsis" using assms(1) by (simp add: unat_of_nat)
  have t: "ACPI_LARGE_IRQ \<noteq> ACPI_SMALL_IRQ" by (simp add: resource_tags)
  show ?case
  proof (cases "rv_entry_idx v < length gsis")
    case False
    then show ?thesis using Suc.prems(3) info t h(2) n by (simp add: lai_resource_next_irq_def)
  next
    case True
    let ?v = "v\<lparr>rv_gsi := gsis ! rv_entry_idx v, rv_entry_idx := Suc (rv_entry_idx v)\<rparr>"
    have "irq_walk k ?v = Ok (drop (rv_entry_idx ?v) gsis, LAI_ERROR_END_REACHED)"
      using Suc.IH [of ?v] Suc.prems True by simp
    moreover have "lai_resource_next_irq v = Ok (LAI_ERROR_NONE, ?v)"
      using info t h(2) h(3) [OF True] n True by (simp add: lai_resource_next_irq_def Let_def)
    ultimately show ?thesis using True by (simp add: Cons_nth_drop_Suc)
  qed
qed simp

text \<open>The interrupts that are reported of a descriptor.\<close>

fun reported_irqs :: "descriptor \<Rightarrow> u32 list option" where
  "reported_irqs (SmallIrq m) = Some (map of_nat (filter (bit m) [0..<8]))"
| "reported_irqs (SmallIrqFlags m _) = Some (map of_nat (filter (bit m) [0..<8]))"
| "reported_irqs (ExtendedIrq _ gsis) = (if length gsis \<le> 63 then Some gsis else None)"
| "reported_irqs _ = None"

definition reports_irqs :: "lai_resource_view \<Rightarrow> descriptor \<Rightarrow> bool" where
  "reports_irqs v d \<longleftrightarrow> (case reported_irqs d of None \<Rightarrow> True
     | Some irqs \<Rightarrow> \<forall>fuel > length irqs. irq_walk fuel v = Ok (irqs, LAI_ERROR_END_REACHED))"

lemma irq_walk_reports:
  assumes "rv_buf v = pre @ descriptor_bytes d @ rest" and "rv_entry v = length pre" and "shows_descriptor v d"
  shows "reports_irqs v d"
proof -
  have f: "filter (bit (ucast m :: u8)) [0..<8] = filter (bit m) [0..<8]" for m :: u16
    by (rule filter_cong) (auto simp: bit_simps)
  have small: "irq_walk fuel v = Ok (map of_nat (filter (bit m) [0..<8]), LAI_ERROR_END_REACHED)"
    if "small_irqs d = Some m" "rv_entry_idx v = 0" "length (filter (bit m) [0..<8]) < fuel" for m fuel
    using irq_walk_from [OF that(1) assms(1,2), of fuel] that(2,3) f [of m] by simp
  show ?thesis
  proof (cases d)
    case (ExtendedIrq flags gsis)
    then show ?thesis using irq_walk_extended [of gsis v pre flags rest] assms by (simp add: reports_irqs_def)
  qed (use small assms(3) in \<open>simp_all add: reports_irqs_def\<close>)
qed

text \<open>The iteration over a template.\<close>

lemma resource_walk_from:
  assumes "list_all descriptor_ok ds" and "rv_buf v = pre @ template_bytes ds"
    and "rv_entry v + rv_skip_size v = length pre" and "length ds < fuel"
  shows "\<exists>rs. resource_walk fuel v = Ok (rs, LAI_ERROR_END_REACHED) \<and>
    list_all2 (\<lambda>(t, v) d. t = descriptor_type d \<and> shows_descriptor v d \<and> reports_irqs v d) rs ds"
  using assms
proof (induction ds arbitrary: v pre fuel)
  case Nil
  then obtain k where "fuel = Suc k" by (cases fuel) auto
  then show ?case using iterate_end [of v pre] Nil by (auto simp: template_bytes_def)
next
  case (Cons d ds)
  then obtain k where k: "fuel = Suc k" "length ds < k" by (cases fuel) auto
  have b: "rv_buf v = pre @ descriptor_bytes d @ template_bytes ds" using Cons.prems(2) by (simp add: template_bytes_def)
  obtain v' where v: "lai_resource_iterate v = Ok (LAI_ERROR_NONE, v')" "rv_buf v' = rv_buf v" "rv_entry v' = length pre"
    "rv_skip_size v' = length (descriptor_bytes d)" "shows_descriptor v' d"
    "lai_resource_get_type v' = Ok (descriptor_type d)"
    using iterate_descriptor [OF _ b Cons.prems(3)] Cons.prems(1) by auto
  have i: "reports_irqs v' d" using irq_walk_reports [OF _ v(3,5)] b v(2) by simp
  have "\<exists>rs. resource_walk k v' = Ok (rs, LAI_ERROR_END_REACHED) \<and>
    list_all2 (\<lambda>(t, v) d. t = descriptor_type d \<and> shows_descriptor v d \<and> reports_irqs v d) rs ds"
    by (rule Cons.IH [of v' "pre @ descriptor_bytes d"]) (use Cons.prems(1) k(2) b v in simp_all)
  then show ?case using v(5) i by (auto simp: k(1) v(1,6))
qed

subsection \<open>Properties\<close>

text \<open>
  C24. The iteration over a resource template visits its descriptors in order: on the encoding of a list of
  descriptors of any kinds with an end tag, repeated \<open>lai_resource_iterate\<close> reads exactly the encoding, gives the
  type of every descriptor, and ends with \<open>LAI_ERROR_END_REACHED\<close>.  It reads the contents of six kinds: base and
  length of fixed I/O ports; flags, lowest base, alignment and length of I/O ports; the flags of the three kinds of
  interrupt descriptors; and flags, base and length of fixed 32-bit memory, the length extended with its sign.
  At each interrupt descriptor repeated \<open>lai_resource_next_irq\<close> then reports, in order, the interrupts below 8 of
  a small one (those of 8 to 15 are lost) and all of an extended one with at most 63.
\<close>

theorem resource_template_walk:
  assumes "list_all descriptor_ok ds" and "length ds < fuel"
  shows "\<exists>rs. resource_walk fuel (resource_view (template_bytes ds)) = Ok (rs, LAI_ERROR_END_REACHED) \<and>
    list_all2 (\<lambda>(t, v) d. t = descriptor_type d \<and> shows_descriptor v d \<and> reports_irqs v d) rs ds"
  using resource_walk_from [of ds "resource_view (template_bytes ds)" "[]" fuel] assms
  by (simp add: resource_view_def)

definition demo_template :: "descriptor list" where
  "demo_template = [FixedIo 0x60 1, SmallIrqFlags 0x1002 1, OtherSmall 0x2A [4, 0], ExtendedIrq 1 [16, 17],
     FixedMem32 0 0xFED00000 0x80000000, OtherLarge 0x81 [0, 1, 2]]"

lemma resource_template_walk_witness:
  "\<exists>rs. resource_walk 7 (resource_view (template_bytes demo_template)) = Ok (rs, LAI_ERROR_END_REACHED) \<and>
    map fst rs = [LAI_RESOURCE_IO, LAI_RESOURCE_IRQ, LAI_RESOURCE_DMA, LAI_RESOURCE_IRQ, LAI_RESOURCE_MEM, LAI_RESOURCE_MEM] \<and>
    irq_walk 3 (snd (rs ! 3)) = Ok ([16, 17], LAI_ERROR_END_REACHED) \<and> rv_length (snd (rs ! 4)) = scast (0x80000000 :: u32)"
proof -
  obtain rs where rs: "resource_walk 7 (resource_view (template_bytes demo_template)) = Ok (rs, LAI_ERROR_END_REACHED)"
    "list_all2 (\<lambda>(t, v) d. t = descriptor_type d \<and> shows_descriptor v d \<and> reports_irqs v d) rs demo_template"
    using resource_template_walk [of demo_template 7] by (auto simp: demo_template_def resource_tags)
  have l: "length rs = 6" using list_all2_lengthD [OF rs(2)] by (simp add: demo_template_def)
  have p: "fst (rs ! i) = descriptor_type (demo_template ! i) \<and> shows_descriptor (snd (rs ! i)) (demo_template ! i) \<and>
      reports_irqs (snd (rs ! i)) (demo_template ! i)" if "i < 6" for i
    using list_all2_nthD [OF rs(2), of i] that l by (simp add: case_prod_beta)
  have "length demo_template = 6" by (simp add: demo_template_def)
  then have "map fst rs = map descriptor_type demo_template"
    by (intro nth_equalityI) (simp_all add: l p)
  then have "map fst rs = [LAI_RESOURCE_IO, LAI_RESOURCE_IRQ, LAI_RESOURCE_DMA, LAI_RESOURCE_IRQ, LAI_RESOURCE_MEM, LAI_RESOURCE_MEM]"
    by (simp add: demo_template_def Let_def resource_tags)
  moreover have "irq_walk 3 (snd (rs ! 3)) = Ok ([16, 17], LAI_ERROR_END_REACHED)"
    using p [of 3] by (simp add: demo_template_def reports_irqs_def)
  moreover have "rv_length (snd (rs ! 4)) = scast (0x80000000 :: u32)"
  proof -
    have d: "demo_template ! 4 = FixedMem32 0 0xFED00000 0x80000000" by (simp add: demo_template_def)
    have "shows_descriptor (snd (rs ! 4)) (demo_template ! 4)" using p [of 4] by simp
    then show ?thesis unfolding d shows_descriptor.simps by blast
  qed
  ultimately show ?thesis using rs(1) by (intro exI [of _ rs] conjI)
qed

text \<open>
  Of the 16 interrupts of a small descriptor \<open>lai_resource_next_irq\<close> reports those below 8, in
  ascending order, and never one of 8 to 15: the mask is cut to a \<open>uint8_t\<close>.
\<close>

theorem small_irqs_reported:
  assumes "small_irqs d = Some m" and "rv_buf v = pre @ descriptor_bytes d @ rest" and "rv_entry v = length pre"
    and "rv_entry_idx v = 0" and "8 < fuel"
  shows "irq_walk fuel v = Ok (map of_nat (filter (bit m) [0..<8]), LAI_ERROR_END_REACHED)"
proof -
  have f: "filter (bit (ucast m :: u8)) [0..<8] = filter (bit m) [0..<8]"
    by (rule filter_cong) (auto simp: bit_simps)
  have "length (filter (bit (ucast m :: u8)) [0..<8]) \<le> 8"
    using length_filter_le [of "bit (ucast m :: u8)" "[0..<8]"] by simp
  then show ?thesis using irq_walk_from [OF assms(1-3), of fuel] assms(4,5) f by simp
qed

lemma small_irqs_reported_witness:
  "irq_walk 9 (resource_view (template_bytes [SmallIrq 0x1002])) = Ok ([1], LAI_ERROR_END_REACHED)"
proof -
  have "filter (bit (0x1002 :: u16)) [0..<8] = [1]" by (simp add: upt_rec)
  then show ?thesis
    using small_irqs_reported [of "SmallIrq 0x1002" "0x1002" "resource_view (template_bytes [SmallIrq 0x1002])" "[]" "[0x79, 0]" 9]
    by (simp add: resource_view_def template_bytes_def)
qed

end
