(* ===== verification/Lai_Ec.thy ===== *)
theory Lai_Ec
  imports Lai_Opregion
begin

text \<open>
  The driver of the embedded controller: the transfers of \<open>lai/drivers/ec.c\<close>.  The controller is reached
  through two ports; the driver polls its status for the buffers to become empty or full.

  The host and its hardware are those of \<open>Lai_Opregion\<close>.  A polling loop may go on for ever; its fuel
  counts the reads of the status port and \<open>Stuck\<close> is a loop that needs more.

  The controller itself is not part of the program.  The locale \<open>embedded_controller\<close> states what its
  documentation (ACPI 6.3, chapter 12) promises the driver: the phases of a transaction and the meaning
  of the status bits.  Inside it the transfers are shown to end, to move the bytes and to leave burst
  mode; a controller with an arbitrary latency is shown to satisfy the contract.
\<close>

subsection \<open>The driver\<close>

record lai_ec_driver =
  cmd_port :: u16
  data_port :: u16

definition ACPI_EC_READ :: u8 where "ACPI_EC_READ = 0x80"
definition ACPI_EC_WRITE :: u8 where "ACPI_EC_WRITE = 0x81"
definition ACPI_EC_BURST_ENABLE :: u8 where "ACPI_EC_BURST_ENABLE = 0x82"
definition ACPI_EC_BURST_DISABLE :: u8 where "ACPI_EC_BURST_DISABLE = 0x83"
definition ACPI_EC_QUERY :: u8 where "ACPI_EC_QUERY = 0x84"
definition ACPI_EC_STATUS_OBF :: u8 where "ACPI_EC_STATUS_OBF = 0x1"
definition ACPI_EC_STATUS_IBF :: u8 where "ACPI_EC_STATUS_IBF = 0x2"
definition ACPI_EC_STATUS_BURST :: u8 where "ACPI_EC_STATUS_BURST = 0x10"

lemmas ec_commands = ACPI_EC_READ_def ACPI_EC_WRITE_def ACPI_EC_BURST_ENABLE_def ACPI_EC_BURST_DISABLE_def
  ACPI_EC_QUERY_def

text \<open>Port accesses.\<close>

definition port_inb :: "'d host \<Rightarrow> u16 \<Rightarrow> 'd \<Rightarrow> (u8 \<times> 'd) outcome" where
  "port_inb host port d = guard (h_has host F_inb) (
     let (v, d) = h_read host IoPort 8 (ucast port) d in Ok (ucast v, d))"

definition port_outb :: "'d host \<Rightarrow> u16 \<Rightarrow> u8 \<Rightarrow> 'd \<Rightarrow> 'd outcome" where
  "port_outb host port v d = guard (h_has host F_outb) (Ok (h_write host IoPort 8 (ucast port) (ucast v) d))"

text \<open>\<open>while (1) { status = laihost_inb (cmd_port); if (\<dots>) return; }\<close>\<close>

fun poll_status :: "nat \<Rightarrow> 'd host \<Rightarrow> lai_ec_driver \<Rightarrow> u8 \<Rightarrow> bool \<Rightarrow> 'd \<Rightarrow> 'd outcome" where
  "poll_status 0 host driver k full d = Stuck"
| "poll_status (Suc fuel) host driver k full d =
     bnd (port_inb host (cmd_port driver) d) (\<lambda>(status, d).
     if (status AND k \<noteq> 0) = full then Ok d else poll_status fuel host driver k full d)"

definition poll_ibf :: "nat \<Rightarrow> 'd host \<Rightarrow> lai_ec_driver \<Rightarrow> 'd \<Rightarrow> 'd outcome" where
  "poll_ibf fuel host driver d = poll_status fuel host driver ACPI_EC_STATUS_IBF False d"

definition poll_obf :: "nat \<Rightarrow> 'd host \<Rightarrow> lai_ec_driver \<Rightarrow> 'd \<Rightarrow> 'd outcome" where
  "poll_obf fuel host driver d = poll_status fuel host driver ACPI_EC_STATUS_OBF True d"

definition enable_burst :: "nat \<Rightarrow> 'd host \<Rightarrow> lai_ec_driver \<Rightarrow> 'd \<Rightarrow> 'd outcome" where
  "enable_burst fuel host driver d =
     bnd (port_outb host (cmd_port driver) ACPI_EC_BURST_ENABLE d) (\<lambda>d.
     bnd (poll_obf fuel host driver d) (\<lambda>d.
     bnd (port_inb host (data_port driver) d) (\<lambda>(ack, d).
     ensure (ack = 0x90) (Ok d))))"

definition disable_burst :: "nat \<Rightarrow> 'd host \<Rightarrow> lai_ec_driver \<Rightarrow> 'd \<Rightarrow> 'd outcome" where
  "disable_burst fuel host driver d =
     bnd (poll_ibf fuel host driver d) (\<lambda>d.
     bnd (port_outb host (cmd_port driver) ACPI_EC_BURST_DISABLE d) (\<lambda>d.
     poll_status fuel host driver ACPI_EC_STATUS_BURST False d))"

definition ec_ready :: "lai_ec_driver \<Rightarrow> bool" where
  "ec_ready driver \<longleftrightarrow> cmd_port driver \<noteq> 0 \<and> data_port driver \<noteq> 0"

definition has_port_io :: "'d host \<Rightarrow> bool" where
  "has_port_io host \<longleftrightarrow> h_has host F_outb \<and> h_has host F_inb"

definition lai_read_ec :: "nat \<Rightarrow> 'd host \<Rightarrow> u8 \<Rightarrow> lai_ec_driver \<Rightarrow> 'd \<Rightarrow> (u8 \<times> 'd) outcome" where
  "lai_read_ec fuel host offset driver d =
     (if \<not> ec_ready driver then Ok (0, d)
      else ensure (has_port_io host) (
        bnd (poll_ibf fuel host driver d) (\<lambda>d.
        bnd (port_outb host (cmd_port driver) ACPI_EC_READ d) (\<lambda>d.
        bnd (poll_ibf fuel host driver d) (\<lambda>d.
        bnd (port_outb host (data_port driver) offset d) (\<lambda>d.
        bnd (poll_obf fuel host driver d) (\<lambda>d.
        port_inb host (data_port driver) d)))))))"

definition lai_write_ec :: "nat \<Rightarrow> 'd host \<Rightarrow> u8 \<Rightarrow> u8 \<Rightarrow> lai_ec_driver \<Rightarrow> 'd \<Rightarrow> 'd outcome" where
  "lai_write_ec fuel host offset val driver d =
     (if \<not> ec_ready driver then Ok d
      else ensure (has_port_io host) (
        bnd (poll_ibf fuel host driver d) (\<lambda>d.
        bnd (port_outb host (cmd_port driver) ACPI_EC_WRITE d) (\<lambda>d.
        bnd (poll_ibf fuel host driver d) (\<lambda>d.
        bnd (port_outb host (data_port driver) offset d) (\<lambda>d.
        bnd (poll_ibf fuel host driver d) (\<lambda>d.
        port_outb host (data_port driver) val d)))))))"

definition lai_query_ec :: "nat \<Rightarrow> 'd host \<Rightarrow> lai_ec_driver \<Rightarrow> 'd \<Rightarrow> (u8 \<times> 'd) outcome" where
  "lai_query_ec fuel host driver d =
     (if \<not> ec_ready driver then Ok (0, d)
      else ensure (has_port_io host) (
        bnd (enable_burst fuel host driver d) (\<lambda>d.
        bnd (port_outb host (cmd_port driver) ACPI_EC_QUERY d) (\<lambda>d.
        bnd (poll_obf fuel host driver d) (\<lambda>d.
        bnd (disable_burst fuel host driver d) (\<lambda>d.
        port_inb host (data_port driver) d))))))"

text \<open>
  The operations of \<open>lai_ec_opregion_override\<close>.  The bytes of a wider access are transferred one by one,
  the lowest first; \<open>offset + i\<close> is cut to a \<open>uint8_t\<close> by the call.
\<close>

primrec read_bytes :: "nat \<Rightarrow> 'd host \<Rightarrow> lai_ec_driver \<Rightarrow> u64 \<Rightarrow> nat \<Rightarrow> 'd \<Rightarrow> (u64 \<times> 'd) outcome" where
  "read_bytes fuel host driver offset 0 d = Ok (0, d)"
| "read_bytes fuel host driver offset (Suc n) d =
     bnd (read_bytes fuel host driver offset n d) (\<lambda>(v, d).
     bnd (lai_read_ec fuel host (ucast (offset + of_nat n)) driver d) (\<lambda>(b, d).
     Ok (v OR push_bit (8 * n) (ucast b), d)))"

primrec write_bytes :: "nat \<Rightarrow> 'd host \<Rightarrow> lai_ec_driver \<Rightarrow> u64 \<Rightarrow> u64 \<Rightarrow> nat \<Rightarrow> 'd \<Rightarrow> 'd outcome" where
  "write_bytes fuel host driver offset val 0 d = Ok d"
| "write_bytes fuel host driver offset val (Suc n) d =
     bnd (write_bytes fuel host driver offset val n d) (\<lambda>d.
     lai_write_ec fuel host (ucast (offset + of_nat n)) (ucast (drop_bit (8 * n) val)) driver d)"

definition ec_read :: "nat \<Rightarrow> nat \<Rightarrow> 'd host \<Rightarrow> lai_ec_driver \<Rightarrow> u64 \<Rightarrow> 'd \<Rightarrow> (u64 \<times> 'd) outcome" where
  "ec_read n fuel host driver offset d =
     bnd (enable_burst fuel host driver d) (\<lambda>d.
     bnd (read_bytes fuel host driver offset n d) (\<lambda>(ret, d).
     bnd (disable_burst fuel host driver d) (\<lambda>d. Ok (ret, d))))"

definition ec_write :: "nat \<Rightarrow> nat \<Rightarrow> 'd host \<Rightarrow> lai_ec_driver \<Rightarrow> u64 \<Rightarrow> u64 \<Rightarrow> 'd \<Rightarrow> 'd outcome" where
  "ec_write n fuel host driver offset val d =
     bnd (enable_burst fuel host driver d) (\<lambda>d.
     bnd (write_bytes fuel host driver offset val n d) (\<lambda>d.
     disable_burst fuel host driver d))"

definition ec_readb :: "nat \<Rightarrow> 'd host \<Rightarrow> lai_ec_driver \<Rightarrow> u64 \<Rightarrow> 'd \<Rightarrow> (u64 \<times> 'd) outcome" where "ec_readb = ec_read 1"
definition ec_readw :: "nat \<Rightarrow> 'd host \<Rightarrow> lai_ec_driver \<Rightarrow> u64 \<Rightarrow> 'd \<Rightarrow> (u64 \<times> 'd) outcome" where "ec_readw = ec_read 2"
definition ec_readd :: "nat \<Rightarrow> 'd host \<Rightarrow> lai_ec_driver \<Rightarrow> u64 \<Rightarrow> 'd \<Rightarrow> (u64 \<times> 'd) outcome" where "ec_readd = ec_read 4"
definition ec_readq :: "nat \<Rightarrow> 'd host \<Rightarrow> lai_ec_driver \<Rightarrow> u64 \<Rightarrow> 'd \<Rightarrow> (u64 \<times> 'd) outcome" where "ec_readq = ec_read 8"

definition ec_writeb :: "nat \<Rightarrow> 'd host \<Rightarrow> lai_ec_driver \<Rightarrow> u64 \<Rightarrow> u8 \<Rightarrow> 'd \<Rightarrow> 'd outcome" where
  "ec_writeb fuel host driver offset val = ec_write 1 fuel host driver offset (ucast val)"
definition ec_writew :: "nat \<Rightarrow> 'd host \<Rightarrow> lai_ec_driver \<Rightarrow> u64 \<Rightarrow> u16 \<Rightarrow> 'd \<Rightarrow> 'd outcome" where
  "ec_writew fuel host driver offset val = ec_write 2 fuel host driver offset (ucast val)"
definition ec_writed :: "nat \<Rightarrow> 'd host \<Rightarrow> lai_ec_driver \<Rightarrow> u64 \<Rightarrow> u32 \<Rightarrow> 'd \<Rightarrow> 'd outcome" where
  "ec_writed fuel host driver offset val = ec_write 4 fuel host driver offset (ucast val)"
definition ec_writeq :: "nat \<Rightarrow> 'd host \<Rightarrow> lai_ec_driver \<Rightarrow> u64 \<Rightarrow> u64 \<Rightarrow> 'd \<Rightarrow> 'd outcome" where
  "ec_writeq = ec_write 8"

subsection \<open>Computations that end\<close>

text \<open>With enough fuel the result is a value that satisfies \<open>Q\<close>, the same for all greater fuel.\<close>

definition ends :: "(nat \<Rightarrow> 'a outcome) \<Rightarrow> ('a \<Rightarrow> bool) \<Rightarrow> bool" where
  "ends c Q \<longleftrightarrow> (\<exists>f x. Q x \<and> (\<forall>fuel \<ge> f. c fuel = Ok x))"

lemma ends_Ok: "c = Ok x \<Longrightarrow> Q x \<Longrightarrow> ends (\<lambda>_. c) Q"
  by (auto simp: ends_def)

lemma endsI: "Q x \<Longrightarrow> (\<And>j. c (f + j) = Ok x) \<Longrightarrow> ends c Q"
  unfolding ends_def by (metis le_Suc_ex)

lemma ends_bnd:
  assumes "ends c Q" and "\<And>x. Q x \<Longrightarrow> ends (\<lambda>fuel. g fuel x) R"
  shows "ends (\<lambda>fuel. bnd (c fuel) (g fuel)) R"
proof -
  from assms(1) obtain f x where x: "Q x" "\<forall>fuel \<ge> f. c fuel = Ok x" unfolding ends_def by blast
  from assms(2) [OF x(1)] obtain f' y where y: "R y" "\<forall>fuel \<ge> f'. g fuel x = Ok y" unfolding ends_def by blast
  have "\<forall>fuel \<ge> max f f'. bnd (c fuel) (g fuel) = Ok y" using x(2) y(2) by simp
  then show ?thesis using y(1) unfolding ends_def by blast
qed

lemma ends_step: "c = Ok x \<Longrightarrow> ends (\<lambda>fuel. g fuel x) R \<Longrightarrow> ends (\<lambda>fuel. bnd c (g fuel)) R"
  by simp

lemma ends_mono: "ends c Q \<Longrightarrow> (\<And>x. Q x \<Longrightarrow> R x) \<Longrightarrow> ends c R"
  unfolding ends_def by blast

subsection \<open>The controller\<close>

text \<open>\<open>n\<close> bytes of the memory of the controller, little-endian.\<close>

primrec ec_load :: "(u8 \<Rightarrow> u8) \<Rightarrow> u64 \<Rightarrow> nat \<Rightarrow> u64" where
  "ec_load m offset 0 = 0"
| "ec_load m offset (Suc n) = ec_load m offset n OR push_bit (8 * n) (ucast (m (ucast (offset + of_nat n))))"

primrec ec_store :: "(u8 \<Rightarrow> u8) \<Rightarrow> u64 \<Rightarrow> u64 \<Rightarrow> nat \<Rightarrow> u8 \<Rightarrow> u8" where
  "ec_store m offset val 0 = m"
| "ec_store m offset val (Suc n) =
     (ec_store m offset val n)(ucast (offset + of_nat n) := ucast (drop_bit (8 * n) val))"

text \<open>The phases of a transaction; \<open>EcFull b\<close> has the byte \<open>b\<close> for the driver.\<close>

datatype ec_phase = EcIdle | EcReadOffset | EcWriteOffset | EcWriteData u8 | EcFull u8 | EcLeaving

text \<open>
  \<open>at ph m b k d\<close>: the hardware \<open>d\<close> is in the phase \<open>ph\<close> with the memory \<open>m\<close>, in burst mode or not,
  and is busy with the last byte it was sent for the next \<open>k\<close> reads of its status.
\<close>

locale embedded_controller =
  fixes host :: "'d host" and driver :: lai_ec_driver
    and at :: "ec_phase \<Rightarrow> (u8 \<Rightarrow> u8) \<Rightarrow> bool \<Rightarrow> nat \<Rightarrow> 'd \<Rightarrow> bool"
  assumes set_up: "ec_ready driver" "has_port_io host"
    and status: "at ph m b k d \<Longrightarrow> ph \<noteq> EcLeaving \<Longrightarrow> \<exists>s d'. port_inb host (cmd_port driver) d = Ok (s, d') \<and>
      (s AND ACPI_EC_STATUS_IBF \<noteq> 0 \<longleftrightarrow> 0 < k) \<and>
      (s AND ACPI_EC_STATUS_OBF \<noteq> 0 \<longleftrightarrow> k = 0 \<and> (\<exists>x. ph = EcFull x)) \<and> at ph m b (k - 1) d'"
    and leaving: "at EcLeaving m b k d \<Longrightarrow> \<exists>s d'. port_inb host (cmd_port driver) d = Ok (s, d') \<and>
      (s AND ACPI_EC_STATUS_BURST \<noteq> 0 \<longleftrightarrow> 0 < k) \<and>
      (if k = 0 then at EcIdle m False 0 d' else at EcLeaving m b (k - 1) d')"
    and command: "at EcIdle m b 0 d \<Longrightarrow> (c, ph, b') \<in> {(ACPI_EC_READ, EcReadOffset, b), (ACPI_EC_WRITE, EcWriteOffset, b),
        (ACPI_EC_BURST_ENABLE, EcFull 0x90, True), (ACPI_EC_BURST_DISABLE, EcLeaving, b)} \<Longrightarrow>
      \<exists>k d'. port_outb host (cmd_port driver) c d = Ok d' \<and> at ph m b' k d'"
    and read_offset: "at EcReadOffset m b 0 d \<Longrightarrow> \<exists>k d'. port_outb host (data_port driver) x d = Ok d' \<and> at (EcFull (m x)) m b k d'"
    and write_offset: "at EcWriteOffset m b 0 d \<Longrightarrow> \<exists>k d'. port_outb host (data_port driver) x d = Ok d' \<and> at (EcWriteData x) m b k d'"
    and write_data: "at (EcWriteData x) m b 0 d \<Longrightarrow> \<exists>k d'. port_outb host (data_port driver) v d = Ok d' \<and> at EcIdle (m(x := v)) b k d'"
    and take_data: "at (EcFull x) m b 0 d \<Longrightarrow> \<exists>k d'. port_inb host (data_port driver) d = Ok (x, d') \<and> at EcIdle m b k d'"
begin

lemma poll_ends:
  assumes "at ph m b k d" and "ph \<noteq> EcLeaving" and "i = ACPI_EC_STATUS_IBF \<and> \<not> full \<or> i = ACPI_EC_STATUS_OBF \<and> full \<and> (\<exists>x. ph = EcFull x)"
  shows "ends (\<lambda>fuel. poll_status fuel host driver i full d) (at ph m b 0)"
proof -
  have "\<exists>d'. at ph m b 0 d' \<and> (\<forall>j. poll_status (Suc k + j) host driver i full d = Ok d')"
    using assms(1)
  proof (induction k arbitrary: d)
    case 0
    from status [OF 0 assms(2)] obtain s d' where "port_inb host (cmd_port driver) d = Ok (s, d')"
      "s AND ACPI_EC_STATUS_IBF = 0" "s AND ACPI_EC_STATUS_OBF \<noteq> 0 \<longleftrightarrow> (\<exists>x. ph = EcFull x)" "at ph m b 0 d'" by auto
    then show ?case using assms(3) by auto
  next
    case (Suc k)
    from status [OF Suc.prems assms(2)] obtain s d' where "port_inb host (cmd_port driver) d = Ok (s, d')"
      "s AND ACPI_EC_STATUS_IBF \<noteq> 0" "s AND ACPI_EC_STATUS_OBF = 0" "at ph m b k d'" by auto
    then show ?case using Suc.IH [of d'] assms(3) by auto
  qed
  then show ?thesis by (blast intro: endsI)
qed

lemma poll_ibf_ends: "at ph m b k d \<Longrightarrow> ph \<noteq> EcLeaving \<Longrightarrow> ends (\<lambda>fuel. poll_ibf fuel host driver d) (at ph m b 0)"
  unfolding poll_ibf_def by (rule poll_ends) auto

lemma poll_obf_ends: "at (EcFull x) m b k d \<Longrightarrow> ends (\<lambda>fuel. poll_obf fuel host driver d) (at (EcFull x) m b 0)"
  unfolding poll_obf_def by (rule poll_ends) auto

lemma poll_burst_ends:
  assumes "at EcLeaving m b k d"
  shows "ends (\<lambda>fuel. poll_status fuel host driver ACPI_EC_STATUS_BURST False d) (at EcIdle m False 0)"
proof -
  have "\<exists>d'. at EcIdle m False 0 d' \<and> (\<forall>j. poll_status (Suc k + j) host driver ACPI_EC_STATUS_BURST False d = Ok d')"
    using assms
  proof (induction k arbitrary: d)
    case 0
    from leaving [OF 0] obtain s d' where "port_inb host (cmd_port driver) d = Ok (s, d')"
      "s AND ACPI_EC_STATUS_BURST = 0" "at EcIdle m False 0 d'" by auto
    then show ?case by auto
  next
    case (Suc k)
    from leaving [OF Suc.prems] obtain s d' where "port_inb host (cmd_port driver) d = Ok (s, d')"
      "s AND ACPI_EC_STATUS_BURST \<noteq> 0" "at EcLeaving m b k d'" by auto
    then show ?case using Suc.IH [of d'] by auto
  qed
  then show ?thesis by (blast intro: endsI)
qed

lemma enable_burst_ends:
  assumes "at EcIdle m b 0 d"
  shows "ends (\<lambda>fuel. enable_burst fuel host driver d) (\<lambda>d. \<exists>k. at EcIdle m True k d)"
proof -
  from command [OF assms, of ACPI_EC_BURST_ENABLE "EcFull 0x90" True] obtain k d1 where
    1: "port_outb host (cmd_port driver) ACPI_EC_BURST_ENABLE d = Ok d1" "at (EcFull 0x90) m True k d1" by auto
  have "ends (\<lambda>fuel. bnd (poll_obf fuel host driver d1) (\<lambda>d. bnd (port_inb host (data_port driver) d) (\<lambda>(ack, d). ensure (ack = 0x90) (Ok d))))
      (\<lambda>d. \<exists>k. at EcIdle m True k d)"
  proof (rule ends_bnd [OF poll_obf_ends [OF 1(2)]])
    fix d2 assume "at (EcFull 0x90) m True 0 d2"
    from take_data [OF this] obtain k d3 where "port_inb host (data_port driver) d2 = Ok (0x90, d3)" "at EcIdle m True k d3"
      by blast
    then show "ends (\<lambda>_. bnd (port_inb host (data_port driver) d2) (\<lambda>(ack, d). ensure (ack = 0x90) (Ok d))) (\<lambda>d. \<exists>k. at EcIdle m True k d)"
      by (intro ends_Ok) auto
  qed
  then show ?thesis by (simp add: enable_burst_def 1(1))
qed

lemma disable_burst_ends:
  assumes "at EcIdle m b k d"
  shows "ends (\<lambda>fuel. disable_burst fuel host driver d) (at EcIdle m False 0)"
  unfolding disable_burst_def
proof (rule ends_bnd [OF poll_ibf_ends [OF assms]])
  fix d1 assume "at EcIdle m b 0 d1"
  from command [OF this, of ACPI_EC_BURST_DISABLE EcLeaving b] obtain k d2 where
    2: "port_outb host (cmd_port driver) ACPI_EC_BURST_DISABLE d1 = Ok d2" "at EcLeaving m b k d2" by auto
  show "ends (\<lambda>fuel. bnd (port_outb host (cmd_port driver) ACPI_EC_BURST_DISABLE d1)
      (poll_status fuel host driver ACPI_EC_STATUS_BURST False)) (at EcIdle m False 0)"
    using poll_burst_ends [OF 2(2)] by (simp add: 2(1))
qed simp

lemma read_ec_ends:
  assumes "at EcIdle m b k d"
  shows "ends (\<lambda>fuel. lai_read_ec fuel host offset driver d) (\<lambda>(v, d). v = m offset \<and> (\<exists>k. at EcIdle m b k d))"
  unfolding lai_read_ec_def using set_up
proof (simp, intro ends_bnd [OF poll_ibf_ends [OF assms]])
  fix d1 assume "at EcIdle m b 0 d1"
  from command [OF this, of ACPI_EC_READ EcReadOffset b] obtain k d2 where
    2: "port_outb host (cmd_port driver) ACPI_EC_READ d1 = Ok d2" "at EcReadOffset m b k d2" by auto
  show "ends (\<lambda>fuel. bnd (port_outb host (cmd_port driver) ACPI_EC_READ d1) (\<lambda>d. bnd (poll_ibf fuel host driver d)
      (\<lambda>d. bnd (port_outb host (data_port driver) offset d) (\<lambda>d. bnd (poll_obf fuel host driver d)
      (port_inb host (data_port driver)))))) (\<lambda>(v, d). v = m offset \<and> (\<exists>k. at EcIdle m b k d))"
  proof (intro ends_step [OF 2(1)] ends_bnd [OF poll_ibf_ends [OF 2(2)]])
    fix d3 assume "at EcReadOffset m b 0 d3"
    from read_offset [OF this] obtain k d4 where
      4: "port_outb host (data_port driver) offset d3 = Ok d4" "at (EcFull (m offset)) m b k d4" by blast
    show "ends (\<lambda>fuel. bnd (port_outb host (data_port driver) offset d3) (\<lambda>d. bnd (poll_obf fuel host driver d)
      (port_inb host (data_port driver)))) (\<lambda>(v, d). v = m offset \<and> (\<exists>k. at EcIdle m b k d))"
    proof (intro ends_step [OF 4(1)] ends_bnd [OF poll_obf_ends [OF 4(2)]])
      fix d5 assume "at (EcFull (m offset)) m b 0 d5"
      from take_data [OF this] show "ends (\<lambda>_. port_inb host (data_port driver) d5) (\<lambda>(v, d). v = m offset \<and> (\<exists>k. at EcIdle m b k d))"
        by (auto intro: ends_Ok)
    qed
  qed simp
qed simp

lemma write_ec_ends:
  assumes "at EcIdle m b k d"
  shows "ends (\<lambda>fuel. lai_write_ec fuel host offset v driver d) (\<lambda>d. \<exists>k. at EcIdle (m(offset := v)) b k d)"
  unfolding lai_write_ec_def using set_up
proof (simp, intro ends_bnd [OF poll_ibf_ends [OF assms]])
  fix d1 assume "at EcIdle m b 0 d1"
  from command [OF this, of ACPI_EC_WRITE EcWriteOffset b] obtain k d2 where
    2: "port_outb host (cmd_port driver) ACPI_EC_WRITE d1 = Ok d2" "at EcWriteOffset m b k d2" by auto
  show "ends (\<lambda>fuel. bnd (port_outb host (cmd_port driver) ACPI_EC_WRITE d1) (\<lambda>d. bnd (poll_ibf fuel host driver d)
      (\<lambda>d. bnd (port_outb host (data_port driver) offset d) (\<lambda>d. bnd (poll_ibf fuel host driver d)
      (port_outb host (data_port driver) v))))) (\<lambda>d. \<exists>k. at EcIdle (m(offset := v)) b k d)"
  proof (intro ends_step [OF 2(1)] ends_bnd [OF poll_ibf_ends [OF 2(2)]])
    fix d3 assume "at EcWriteOffset m b 0 d3"
    from write_offset [OF this] obtain k d4 where
      4: "port_outb host (data_port driver) offset d3 = Ok d4" "at (EcWriteData offset) m b k d4" by blast
    show "ends (\<lambda>fuel. bnd (port_outb host (data_port driver) offset d3) (\<lambda>d. bnd (poll_ibf fuel host driver d)
      (port_outb host (data_port driver) v))) (\<lambda>d. \<exists>k. at EcIdle (m(offset := v)) b k d)"
    proof (intro ends_step [OF 4(1)] ends_bnd [OF poll_ibf_ends [OF 4(2)]])
      fix d5 assume "at (EcWriteData offset) m b 0 d5"
      from write_data [OF this, of v] show "ends (\<lambda>_. port_outb host (data_port driver) v d5) (\<lambda>d. \<exists>k. at EcIdle (m(offset := v)) b k d)"
        by (auto intro: ends_Ok)
    qed simp
  qed simp
qed simp

lemma read_bytes_ends:
  assumes "at EcIdle m b k d"
  shows "ends (\<lambda>fuel. read_bytes fuel host driver offset n d) (\<lambda>(v, d). v = ec_load m offset n \<and> (\<exists>k. at EcIdle m b k d))"
proof (induction n)
  case 0
  show ?case using assms by (auto intro: ends_Ok)
next
  case (Suc n)
  show ?case
    unfolding read_bytes.simps
  proof (rule ends_bnd [OF Suc.IH])
    fix x assume "case x of (v, d) \<Rightarrow> v = ec_load m offset n \<and> (\<exists>k. at EcIdle m b k d)"
    then obtain d1 k1 where x: "x = (ec_load m offset n, d1)" "at EcIdle m b k1 d1" by auto
    have "ends (\<lambda>fuel. bnd (lai_read_ec fuel host (ucast (offset + of_nat n)) driver d1)
        (\<lambda>(y, d). Ok (ec_load m offset n OR push_bit (8 * n) (ucast y), d)))
        (\<lambda>(v, d). v = ec_load m offset (Suc n) \<and> (\<exists>k. at EcIdle m b k d))"
      by (rule ends_bnd [OF read_ec_ends [OF x(2)]]) (auto intro: ends_Ok)
    then show "ends (\<lambda>fuel. case x of (v, d) \<Rightarrow> bnd (lai_read_ec fuel host (ucast (offset + of_nat n)) driver d)
        (\<lambda>(b, d). Ok (v OR push_bit (8 * n) (ucast b), d)))
        (\<lambda>(v, d). v = ec_load m offset (Suc n) \<and> (\<exists>k. at EcIdle m b k d))" by (simp add: x(1))
  qed
qed

lemma write_bytes_ends:
  assumes "at EcIdle m b k d"
  shows "ends (\<lambda>fuel. write_bytes fuel host driver offset v n d) (\<lambda>d. \<exists>k. at EcIdle (ec_store m offset v n) b k d)"
proof (induction n)
  case 0
  show ?case using assms by (auto intro: ends_Ok)
next
  case (Suc n)
  show ?case
    unfolding write_bytes.simps ec_store.simps by (rule ends_bnd [OF Suc.IH]) (elim exE, rule write_ec_ends)
qed

lemma ec_read_ends:
  assumes "at EcIdle m b 0 d"
  shows "ends (\<lambda>fuel. ec_read n fuel host driver offset d) (\<lambda>(v, d). v = ec_load m offset n \<and> at EcIdle m False 0 d)"
  unfolding ec_read_def
proof (rule ends_bnd [OF enable_burst_ends [OF assms]])
  fix d1 assume "\<exists>k. at EcIdle m True k d1"
  then obtain k where 1: "at EcIdle m True k d1" by blast
  show "ends (\<lambda>fuel. bnd (read_bytes fuel host driver offset n d1) (\<lambda>(ret, d). bnd (disable_burst fuel host driver d) (\<lambda>d. Ok (ret, d))))
      (\<lambda>(v, d). v = ec_load m offset n \<and> at EcIdle m False 0 d)"
  proof (rule ends_bnd [OF read_bytes_ends [OF 1]])
    fix x assume "case x of (v, d) \<Rightarrow> v = ec_load m offset n \<and> (\<exists>k. at EcIdle m True k d)"
    then obtain d2 k2 where x: "x = (ec_load m offset n, d2)" "at EcIdle m True k2 d2" by auto
    have "ends (\<lambda>fuel. bnd (disable_burst fuel host driver d2) (\<lambda>d. Ok (ec_load m offset n, d)))
        (\<lambda>(v, d). v = ec_load m offset n \<and> at EcIdle m False 0 d)"
      by (rule ends_bnd [OF disable_burst_ends [OF x(2)]]) (auto intro: ends_Ok)
    then show "ends (\<lambda>fuel. case x of (ret, d) \<Rightarrow> bnd (disable_burst fuel host driver d) (\<lambda>d. Ok (ret, d)))
        (\<lambda>(v, d). v = ec_load m offset n \<and> at EcIdle m False 0 d)" by (simp add: x(1))
  qed
qed

lemma ec_write_ends:
  assumes "at EcIdle m b 0 d"
  shows "ends (\<lambda>fuel. ec_write n fuel host driver offset v d) (at EcIdle (ec_store m offset v n) False 0)"
  unfolding ec_write_def
proof (rule ends_bnd [OF enable_burst_ends [OF assms]])
  fix d1 assume "\<exists>k. at EcIdle m True k d1"
  then obtain k where 1: "at EcIdle m True k d1" by blast
  show "ends (\<lambda>fuel. bnd (write_bytes fuel host driver offset v n d1) (disable_burst fuel host driver))
      (at EcIdle (ec_store m offset v n) False 0)"
    by (rule ends_bnd [OF write_bytes_ends [OF 1]]) (auto intro: disable_burst_ends)
qed

end

subsection \<open>A controller with a latency\<close>

text \<open>\<open>ec_latency\<close> reads of the status port are needed for every byte the controller is sent.\<close>

record ec_device =
  ec_phase :: ec_phase
  ec_mem :: "u8 \<Rightarrow> u8"
  ec_burst :: bool
  ec_busy :: nat
  ec_latency :: nat

definition ec_status :: "ec_device \<Rightarrow> u8" where
  "ec_status e =
     (if 0 < ec_busy e then 2 else case ec_phase e of EcFull _ \<Rightarrow> 1 | _ \<Rightarrow> 0) OR
     (if ec_phase e = EcLeaving then if 0 < ec_busy e then 0x10 else 0 else if ec_burst e then 0x10 else 0)"

definition ec_turn :: "ec_device \<Rightarrow> ec_device" where
  "ec_turn e =
     (if ec_phase e = EcLeaving \<and> ec_busy e = 0 then e\<lparr>ec_phase := EcIdle, ec_burst := False\<rparr>
      else e\<lparr>ec_busy := ec_busy e - 1\<rparr>)"

definition ec_take :: "ec_device \<Rightarrow> u8 \<times> ec_device" where
  "ec_take e = (case ec_phase e of EcFull x \<Rightarrow> (x, e\<lparr>ec_phase := EcIdle\<rparr>) | _ \<Rightarrow> (0, e))"

definition ec_command :: "u8 \<Rightarrow> ec_device \<Rightarrow> ec_device" where
  "ec_command c e =
     (if ec_busy e \<noteq> 0 \<or> ec_phase e \<noteq> EcIdle then e
      else let e = e\<lparr>ec_busy := ec_latency e\<rparr> in
        if c = ACPI_EC_READ then e\<lparr>ec_phase := EcReadOffset\<rparr>
        else if c = ACPI_EC_WRITE then e\<lparr>ec_phase := EcWriteOffset\<rparr>
        else if c = ACPI_EC_BURST_ENABLE then e\<lparr>ec_phase := EcFull 0x90, ec_burst := True\<rparr>
        else if c = ACPI_EC_BURST_DISABLE then e\<lparr>ec_phase := EcLeaving\<rparr>
        else e)"

definition ec_data :: "u8 \<Rightarrow> ec_device \<Rightarrow> ec_device" where
  "ec_data x e =
     (if ec_busy e \<noteq> 0 then e
      else let e = e\<lparr>ec_busy := ec_latency e\<rparr> in
        case ec_phase e of
          EcReadOffset \<Rightarrow> e\<lparr>ec_phase := EcFull (ec_mem e x)\<rparr>
        | EcWriteOffset \<Rightarrow> e\<lparr>ec_phase := EcWriteData x\<rparr>
        | EcWriteData a \<Rightarrow> e\<lparr>ec_phase := EcIdle, ec_mem := (ec_mem e)(a := x)\<rparr>
        | _ \<Rightarrow> e)"

text \<open>The usual ports of the controller.\<close>

definition ec_ports :: lai_ec_driver where
  "ec_ports = \<lparr>cmd_port = 0x66, data_port = 0x62\<rparr>"

definition ec_host :: "ec_device host" where
  "ec_host = \<lparr>h_has = (\<lambda>_. True),
     h_read = (\<lambda>sp n a e. if a = 0x66 then (ucast (ec_status e), ec_turn e)
       else if a = 0x62 then let (x, e) = ec_take e in (ucast x, e) else (0, e)),
     h_write = (\<lambda>sp n a v e. if a = 0x66 then ec_command (ucast v) e else if a = 0x62 then ec_data (ucast v) e else e)\<rparr>"

definition ec_at :: "ec_phase \<Rightarrow> (u8 \<Rightarrow> u8) \<Rightarrow> bool \<Rightarrow> nat \<Rightarrow> ec_device \<Rightarrow> bool" where
  "ec_at ph m b k e \<longleftrightarrow> ec_phase e = ph \<and> ec_mem e = m \<and> ec_burst e = b \<and> ec_busy e = k"

lemma ucast_u8_up [simp]: "ucast (ucast (x :: u8) :: u64) = x"
  by (rule bit_word_eqI) (simp add: bit_simps)

lemma ec_host_ports [simp]:
  "port_inb ec_host 0x66 e = Ok (ec_status e, ec_turn e)"
  "port_inb ec_host 0x62 e = Ok (ec_take e)"
  "port_outb ec_host 0x66 v e = Ok (ec_command v e)"
  "port_outb ec_host 0x62 v e = Ok (ec_data v e)"
  by (simp_all add: port_inb_def port_outb_def ec_host_def split: prod.splits)

interpretation slow_ec: embedded_controller ec_host ec_ports ec_at
proof
  show "ec_ready ec_ports" "has_port_io ec_host"
    by (simp_all add: ec_ready_def ec_ports_def has_port_io_def ec_host_def)
qed (auto simp: ec_at_def ec_ports_def ec_status_def ec_turn_def ec_take_def ec_command_def ec_data_def ec_commands
    ACPI_EC_STATUS_OBF_def ACPI_EC_STATUS_IBF_def ACPI_EC_STATUS_BURST_def bit_simps split: ec_phase.splits)

subsection \<open>What was written is read\<close>

lemma ucast_offset: "(ucast (x + of_nat i :: u64) :: u8) = ucast x + of_nat i"
  by (simp add: word_unat_eq_iff unsigned_ucast_eq unat_word_ariths unat_of_nat take_bit_eq_mod mod_mod_cancel mod_add_left_eq
      mod_add_right_eq mod_simps)

lemma ucast_offset_eq: "i < 256 \<Longrightarrow> j < 256 \<Longrightarrow> (ucast (x + of_nat i :: u64) :: u8) = ucast (x + of_nat j) \<longleftrightarrow> i = j"
  unfolding ucast_offset add_left_cancel by (simp add: word_unat_eq_iff unat_of_nat)

lemma ec_store_at: "i < n \<Longrightarrow> n \<le> 256 \<Longrightarrow> ec_store m x v n (ucast (x + of_nat i)) = ucast (drop_bit (8 * i) v)"
  by (induction n) (auto simp: less_Suc_eq ucast_offset_eq)

lemma ec_store_other: "(\<forall>i < n. a \<noteq> ucast (x + of_nat i)) \<Longrightarrow> ec_store m x v n a = m a"
  by (induction n) auto

lemma take_bit_byte: "n < 8 \<Longrightarrow> take_bit (8 * n) v OR push_bit (8 * n) (ucast (ucast (drop_bit (8 * n) v) :: u8)) = take_bit (8 * Suc n) (v :: u64)"
  by (rule bit_word_eqI) (auto simp: bit_simps)

lemma ec_load_store:
  assumes "j \<le> n" and "n \<le> 8"
  shows "ec_load (ec_store m x v n) x j = take_bit (8 * j) v"
  using assms
proof (induction j)
  case (Suc j)
  then have "ec_store m x v n (ucast (x + of_nat j)) = ucast (drop_bit (8 * j) v)" by (intro ec_store_at) auto
  then show ?case using Suc take_bit_byte [of j v] by simp
qed simp

text \<open>
  C25. What is written to the embedded controller is read back.  On every controller that keeps the
  contract, a write of up to eight bytes followed by a read of as many at the same offset ends, gives
  the written value cut to its bytes, leaves the controller idle outside of burst mode, and changes no
  other byte of its memory.
\<close>

theorem ec_write_read:
  assumes "embedded_controller host driver at" and "at EcIdle m b 0 d" and "n \<le> 8"
  shows "ends (\<lambda>fuel. bnd (ec_write n fuel host driver offset v d) (ec_read n fuel host driver offset))
    (\<lambda>(r, d'). r = take_bit (8 * n) v \<and>
      (\<exists>m'. at EcIdle m' False 0 d' \<and> (\<forall>a. (\<forall>i < n. a \<noteq> ucast (offset + of_nat i)) \<longrightarrow> m' a = m a)))"
proof (rule ends_bnd [OF embedded_controller.ec_write_ends [OF assms(1), OF assms(2)]])
  fix d1 assume "at EcIdle (ec_store m offset v n) False 0 d1"
  note r = embedded_controller.ec_read_ends [OF assms(1), OF this]
  show "ends (\<lambda>fuel. ec_read n fuel host driver offset d1)
    (\<lambda>(r, d'). r = take_bit (8 * n) v \<and>
      (\<exists>m'. at EcIdle m' False 0 d' \<and> (\<forall>a. (\<forall>i < n. a \<noteq> ucast (offset + of_nat i)) \<longrightarrow> m' a = m a)))"
  proof (rule ends_mono [OF r])
    fix y assume "case y of (u, d) \<Rightarrow> u = ec_load (ec_store m offset v n) offset n \<and> at EcIdle (ec_store m offset v n) False 0 d"
    then obtain d2 where y: "y = (ec_load (ec_store m offset v n) offset n, d2)" "at EcIdle (ec_store m offset v n) False 0 d2"
      by auto
    have "\<forall>a. (\<forall>i < n. a \<noteq> ucast (offset + of_nat i)) \<longrightarrow> ec_store m offset v n a = m a"
      using ec_store_other by blast
    then show "case y of (r, d') \<Rightarrow> r = take_bit (8 * n) v \<and>
      (\<exists>m'. at EcIdle m' False 0 d' \<and> (\<forall>a. (\<forall>i < n. a \<noteq> ucast (offset + of_nat i)) \<longrightarrow> m' a = m a))"
      unfolding y(1) prod.case ec_load_store [OF order_refl assms(3)] using y(2) by blast
  qed
qed

lemma ec_write_read_witness:
  "\<exists>f d'. \<forall>fuel. bnd (ec_writew (f + fuel) ec_host ec_ports 0x10 0xBEEF
       \<lparr>ec_phase = EcIdle, ec_mem = (\<lambda>_. 0), ec_burst = False, ec_busy = 0, ec_latency = 3\<rparr>)
     (ec_readw (f + fuel) ec_host ec_ports 0x10) = Ok (0xBEEF, d')"
proof -
  let ?d = "\<lparr>ec_phase = EcIdle, ec_mem = (\<lambda>_. 0), ec_burst = False, ec_busy = 0, ec_latency = 3\<rparr>"
  have "take_bit 16 (ucast (0xBEEF :: u16)) = (0xBEEF :: u64)" by (simp add: take_bit_eq_mod)
  moreover have "ec_at EcIdle (\<lambda>_. 0) False 0 ?d" by (simp add: ec_at_def)
  ultimately have "ends (\<lambda>fuel. bnd (ec_write 2 fuel ec_host ec_ports 0x10 (ucast (0xBEEF :: u16)) ?d)
      (ec_read 2 fuel ec_host ec_ports 0x10)) (\<lambda>(r, d'). r = 0xBEEF)"
    using ends_mono [OF ec_write_read [OF slow_ec.embedded_controller_axioms, where m = "\<lambda>_. 0" and b = False and d = ?d
        and n = 2 and offset = "0x10" and v = "ucast (0xBEEF :: u16)"], where R = "\<lambda>(r, d'). r = 0xBEEF"] by auto
  then obtain f d' where "bnd (ec_write 2 fuel ec_host ec_ports 0x10 (ucast (0xBEEF :: u16)) ?d)
      (ec_read 2 fuel ec_host ec_ports 0x10) = Ok (0xBEEF, d')" if "f \<le> fuel" for fuel unfolding ends_def by auto
  then show ?thesis unfolding ec_writew_def ec_readw_def by (intro exI [of _ f] exI [of _ d']) simp
qed

end
