(* ===== verification/Lai_Power.thy ===== *)
theory Lai_Power
  imports Lai_Process Lai_Ec
begin

text \<open>
  The fixed hardware of ACPI: the system control interrupt and the initialisation of the devices
  (\<open>lai/helpers/sci.c\<close>), sleep states and reset (\<open>lai/helpers/pm.c\<close>), and the power management timer
  (\<open>lai/drivers/timer.c\<close>).

  The registers are found through the FADT, a table of the firmware, of which \<open>acpi_fadt\<close> has the
  members the code reads.  Port numbers are cut to 16 bits by the calls.  Every evaluation runs in a
  state of its own, as the code makes it with \<open>lai_init_state\<close>; the fuel is that of \<open>lai_exec_run\<close>.
\<close>

subsection \<open>Tables\<close>

record acpi_gas =
  gas_address_space :: u8
  gas_bit_width :: u8
  gas_bit_offset :: u8
  gas_base :: u64

record acpi_fadt =
  fa_revision :: u8
  smi_command_port :: u32
  acpi_enable :: u8
  acpi_disable :: u8
  pm1a_event_block :: u32
  pm1b_event_block :: u32
  pm1a_control_block :: u32
  pm1b_control_block :: u32
  pm_timer_block :: u32
  pm1_event_length :: u8
  pm_timer_length :: u8
  fa_flags :: u32
  reset_register :: acpi_gas
  reset_command :: u8
  x_pm_timer_block :: acpi_gas
  sleep_control_reg :: acpi_gas

definition ACPI_TIMER :: u16 where "ACPI_TIMER = 0x0001"
definition ACPI_POWER_BUTTON :: u16 where "ACPI_POWER_BUTTON = 0x0100"
definition ACPI_SLEEP_BUTTON :: u16 where "ACPI_SLEEP_BUTTON = 0x0200"
definition ACPI_WAKE :: u16 where "ACPI_WAKE = 0x8000"
definition ACPI_ENABLED :: u16 where "ACPI_ENABLED = 0x0001"
definition ACPI_SLEEP :: u16 where "ACPI_SLEEP = 0x2000"
definition ACPI_GAS_MMIO :: u8 where "ACPI_GAS_MMIO = 0"
definition ACPI_GAS_IO :: u8 where "ACPI_GAS_IO = 1"
definition ACPI_GAS_PCI :: u8 where "ACPI_GAS_PCI = 2"

definition ACPI_STA_PRESENT :: int where "ACPI_STA_PRESENT = 0x01"
definition ACPI_STA_FUNCTION :: int where "ACPI_STA_FUNCTION = 0x08"

text \<open>The members of \<open>struct lai_instance\<close> that only this code reads.\<close>

record lai_fixed =
  fx_fadt :: "acpi_fadt option"
  is_hw_reduced :: bool

definition instance_fadt :: "lai_fixed \<Rightarrow> acpi_fadt outcome" where
  "instance_fadt fx = (case fx_fadt fx of None \<Rightarrow> Fault | Some t \<Rightarrow> Ok t)"

subsection \<open>Ports\<close>

definition laihost_inw :: "'d exec_env \<Rightarrow> 'd lai_world \<Rightarrow> u16 \<Rightarrow> u16 \<times> 'd lai_world" where
  "laihost_inw env w port = (let (v, w) = host_read (e_host env) w IoPort 16 (ucast port) in (ucast v, w))"

definition laihost_outw :: "'d exec_env \<Rightarrow> 'd lai_world \<Rightarrow> u16 \<Rightarrow> u16 \<Rightarrow> 'd lai_world" where
  "laihost_outw env w port v = host_write (e_host env) w IoPort 16 (ucast port) (ucast v)"

definition laihost_outb :: "'d exec_env \<Rightarrow> 'd lai_world \<Rightarrow> u16 \<Rightarrow> u8 \<Rightarrow> 'd lai_world" where
  "laihost_outb env w port v = host_write (e_host env) w IoPort 8 (ucast port) (ucast v)"

definition has_fn :: "'d exec_env \<Rightarrow> host_fn \<Rightarrow> bool" where
  "has_fn env f \<longleftrightarrow> h_has (e_host env) f"

subsection \<open>Events\<close>

text \<open>The status bits are cleared by writing them back.\<close>

definition take_events :: "'d exec_env \<Rightarrow> 'd lai_world \<Rightarrow> u32 \<Rightarrow> u16 \<times> 'd lai_world" where
  "take_events env w block =
     (if block \<noteq> 0 then
        let (a, w) = laihost_inw env w (ucast block) in (a, laihost_outw env w (ucast block) a)
      else (0, w))"

definition lai_get_sci_event :: "'d exec_env \<Rightarrow> lai_fixed \<Rightarrow> 'd lai_world \<Rightarrow> (u16 \<times> 'd lai_world) outcome" where
  "lai_get_sci_event env fx w =
     (if is_hw_reduced fx then Ok (0, w)
      else ensure (has_fn env F_inw \<and> has_fn env F_outw) (
        bnd (instance_fadt fx) (\<lambda>fadt.
        let (a, w) = take_events env w (pm1a_event_block fadt); (b, w) = take_events env w (pm1b_event_block fadt) in
        Ok (a OR b, w))))"

definition lai_set_sci_event :: "'d exec_env \<Rightarrow> lai_fixed \<Rightarrow> 'd lai_world \<Rightarrow> u16 \<Rightarrow> 'd lai_world outcome" where
  "lai_set_sci_event env fx w val =
     (if is_hw_reduced fx then Ok w
      else ensure (has_fn env F_inw \<and> has_fn env F_outw) (
        bnd (instance_fadt fx) (\<lambda>fadt.
        let half = of_nat (unat (pm1_event_length fadt) div 2);
            a = ucast (pm1a_event_block fadt) + half; b = ucast (pm1b_event_block fadt) + half;
            w = (if pm1a_event_block fadt \<noteq> 0 then laihost_outw env w a val else w);
            w = (if pm1b_event_block fadt \<noteq> 0 then laihost_outw env w b val else w) in
        Ok w)))"

subsection \<open>Devices\<close>

text \<open>
  Evaluation with a list of arguments (\<open>lai/core/exec.c\<close>).  The list ends with a null pointer, for which
  the test for room is made as well, so that seven arguments panic.  The copies are never released.
\<close>

definition lai_eval_vargs :: "nat \<Rightarrow> 'd exec_env \<Rightarrow> 'd lai_world \<Rightarrow> lai_variable option \<Rightarrow> nat option \<Rightarrow> lai_state \<Rightarrow>
    lai_variable list \<Rightarrow> (lai_api_error \<times> 'd lai_world \<times> lai_state \<times> lai_variable option) outcome" where
  "lai_eval_vargs fuel env w result handle st objects =
     ensure (length objects < 7) (
     bnd (assign_args w objects) (\<lambda>(w, args). lai_eval_args fuel env w result handle st args))"

definition lai_eval_largs :: "nat \<Rightarrow> 'd exec_env \<Rightarrow> 'd lai_world \<Rightarrow> lai_variable option \<Rightarrow> nat option \<Rightarrow> lai_state \<Rightarrow>
    lai_variable list \<Rightarrow> (lai_api_error \<times> 'd lai_world \<times> lai_state \<times> lai_variable option) outcome" where
  "lai_eval_largs = lai_eval_vargs"

text \<open>Objects evaluated for their effect: \<open>lai_init_state\<close>, the evaluation, \<open>lai_finalize_state\<close>.\<close>

definition run_object :: "nat \<Rightarrow> 'd exec_env \<Rightarrow> 'd lai_world \<Rightarrow> nat option \<Rightarrow> 'd lai_world outcome" where
  "run_object fuel env w handle = (case handle of
     None \<Rightarrow> Ok w
   | Some h \<Rightarrow>
       bnd (lai_eval fuel env w None (Some h) lai_init_state) (\<lambda>(_, w, st, _).
       bnd (lai_finalize_state w st) (\<lambda>(w, _). Ok w)))"

definition run_method :: "nat \<Rightarrow> 'd exec_env \<Rightarrow> 'd lai_world \<Rightarrow> nat option \<Rightarrow> u64 \<Rightarrow> 'd lai_world outcome" where
  "run_method fuel env w handle arg = (case handle of
     None \<Rightarrow> Ok w
   | Some h \<Rightarrow>
       bnd (lai_eval_largs fuel env w None (Some h) lai_init_state [int_var arg]) (\<lambda>(_, w, st, _).
       bnd (lai_finalize_state w st) (\<lambda>(w, _). Ok w)))"

definition lai_evaluate_sta :: "nat \<Rightarrow> 'd exec_env \<Rightarrow> 'd lai_world \<Rightarrow> nat \<Rightarrow> (int \<times> 'd lai_world) outcome" where
  "lai_evaluate_sta fuel env w p =
     bnd (lai_resolve_path w (Some p) (bytes_of ''_STA'' @ [0])) (\<lambda>handle.
     case handle of
       None \<Rightarrow> Ok (0x0F, w)
     | Some h \<Rightarrow>
         bnd (lai_eval fuel env w (Some var0) (Some h) lai_init_state) (\<lambda>(err, w, st, result).
         case result of None \<Rightarrow> Fault | Some result \<Rightarrow>
         bnd (if err \<noteq> LAI_ERROR_NONE then Ok 0
              else case lai_obj_get_integer result of
                (LAI_ERROR_NONE, Some sta) \<Rightarrow> Ok (sint (ucast sta :: u32))
              | _ \<Rightarrow> Panic) (\<lambda>sta.
         bnd (lai_var_finalize w result) (\<lambda>w.
         bnd (lai_finalize_state w st) (\<lambda>(w, _). Ok (sta, w))))))"

text \<open>
  \<open>lai_init_children\<close>: the loop over the children, from the position \<open>i\<close> of the iterator.  \<open>depth\<close> bounds
  the steps of the loops and the nesting together.
\<close>

fun lai_init_children :: "nat \<Rightarrow> nat \<Rightarrow> 'd exec_env \<Rightarrow> 'd lai_world \<Rightarrow> nat \<Rightarrow> nat \<Rightarrow> 'd lai_world outcome" where
  "lai_init_children 0 fuel env w parent i = Stuck"
| "lai_init_children (Suc depth) fuel env w parent i =
     bnd (lai_ns_child_iterate w parent i) (\<lambda>(child, i).
     case child of
       None \<Rightarrow> Ok w
     | Some p \<Rightarrow>
         bnd (lai_ns_get_node_type w (Some p)) (\<lambda>t.
         bnd (if t = LAI_NODETYPE_DEVICE then
                bnd (lai_evaluate_sta fuel env w p) (\<lambda>(sta, w).
                bnd (if sta AND ACPI_STA_PRESENT \<noteq> 0 then
                       bnd (lai_resolve_path w (Some p) (bytes_of ''_INI'' @ [0])) (\<lambda>handle.
                       run_object fuel env w handle)
                     else Ok w) (\<lambda>w.
                if sta AND ACPI_STA_PRESENT \<noteq> 0 \<or> sta AND ACPI_STA_FUNCTION \<noteq> 0
                then lai_init_children depth fuel env w p 0 else Ok w))
              else Ok w) (\<lambda>w.
         lai_init_children depth fuel env w parent i)))"

subsection \<open>ACPI mode\<close>

fun wait_enabled :: "nat \<Rightarrow> 'd exec_env \<Rightarrow> ('d \<Rightarrow> u64 \<Rightarrow> 'd) \<Rightarrow> acpi_fadt \<Rightarrow> 'd lai_world \<Rightarrow> 'd lai_world" where
  "wait_enabled 0 env sleep fadt w = w"
| "wait_enabled (Suc n) env sleep fadt w =
     (let (v, w) = laihost_inw env w (ucast (pm1a_control_block fadt)) in
      if v AND ACPI_ENABLED \<noteq> 0 then w
      else wait_enabled n env sleep fadt (w\<lparr>dev := sleep (dev w) 10\<rparr>))"

definition lai_enable_acpi :: "nat \<Rightarrow> nat \<Rightarrow> 'd exec_env \<Rightarrow> lai_fixed \<Rightarrow> 'd lai_world \<Rightarrow> u32 \<Rightarrow> (int \<times> 'd lai_world) outcome" where
  "lai_enable_acpi depth fuel env fx w mode =
     bnd (lai_resolve_path w None (bytes_of (CHR 0x5C # ''_SB_._INI'') @ [0])) (\<lambda>handle.
     bnd (run_object fuel env w handle) (\<lambda>w.
     bnd (lai_resolve_path w None (bytes_of (CHR 0x5C # ''_SB_'') @ [0])) (\<lambda>handle.
     bnd (case handle of None \<Rightarrow> Fault | Some sb \<Rightarrow> lai_init_children depth fuel env w sb 0) (\<lambda>w.
     bnd (lai_resolve_path w None (bytes_of (CHR 0x5C # ''_PIC'') @ [0])) (\<lambda>handle.
     bnd (run_method fuel env w handle (ucast mode)) (\<lambda>w.
     if is_hw_reduced fx then Ok (0, w)
     else ensure (has_fn env F_inw \<and> has_fn env F_outb) (case e_sleep env of
       None \<Rightarrow> Panic
     | Some sleep \<Rightarrow>
         bnd (instance_fadt fx) (\<lambda>fadt.
         let w = laihost_outb env w (ucast (smi_command_port fadt)) (acpi_enable fadt);
             w = w\<lparr>dev := sleep (dev w) 10\<rparr>;
             w = wait_enabled 100 env sleep fadt w in
         bnd (lai_set_sci_event env fx w (ACPI_POWER_BUTTON OR ACPI_SLEEP_BUTTON OR ACPI_WAKE)) (\<lambda>w.
         bnd (lai_get_sci_event env fx w) (\<lambda>(_, w). Ok (0, w)))))))))))"

definition clear_enabled :: "'d exec_env \<Rightarrow> 'd lai_world \<Rightarrow> u32 \<Rightarrow> 'd lai_world" where
  "clear_enabled env w block =
     (let (v, w) = laihost_inw env w (ucast block) in laihost_outw env w (ucast block) (v AND NOT ACPI_ENABLED))"

definition lai_disable_acpi :: "'d exec_env \<Rightarrow> lai_fixed \<Rightarrow> 'd lai_world \<Rightarrow> (int \<times> 'd lai_world) outcome" where
  "lai_disable_acpi env fx w =
     (if is_hw_reduced fx then Ok (0, w)
      else ensure (has_fn env F_inw \<and> has_fn env F_outw) (
        bnd (lai_set_sci_event env fx w 0) (\<lambda>w.
        bnd (lai_get_sci_event env fx w) (\<lambda>(_, w).
        bnd (instance_fadt fx) (\<lambda>fadt.
        let w = clear_enabled env w (pm1a_control_block fadt);
            w = (if pm1b_control_block fadt \<noteq> 0 then clear_enabled env w (pm1b_control_block fadt) else w) in
        guard (has_fn env F_outb)
          (Ok (0, laihost_outb env w (ucast (smi_command_port fadt)) (acpi_disable fadt))))))))"

subsection \<open>Sleep\<close>

text \<open>\<open>laihost_pci_writeb\<close> with the address in the three 16-bit parts of a generic address.\<close>

definition gas_pci_writeb :: "'d exec_env \<Rightarrow> 'd lai_world \<Rightarrow> u64 \<Rightarrow> u8 \<Rightarrow> 'd lai_world" where
  "gas_pci_writeb env w base v =
     host_write (e_host env) w (IoPci 0 0 (ucast (drop_bit 32 base)) (ucast (drop_bit 16 base))) 8 (take_bit 16 base) (ucast v)"

text \<open>\<open>_PTS\<close> and \<open>_GTS\<close>, with the sleep state as argument.\<close>

definition prepare_sleep :: "nat \<Rightarrow> 'd exec_env \<Rightarrow> 'd lai_world \<Rightarrow> string \<Rightarrow> u8 \<Rightarrow> 'd lai_world outcome" where
  "prepare_sleep fuel env w path sleep_state =
     bnd (lai_resolve_path w None (bytes_of path @ [0])) (\<lambda>handle.
     run_method fuel env w handle (ucast sleep_state))"

definition hw_reduced_sleep :: "'d exec_env \<Rightarrow> acpi_gas \<Rightarrow> 'd lai_world \<Rightarrow> u64 \<Rightarrow> (lai_api_error \<times> 'd lai_world) outcome" where
  "hw_reduced_sleep env reg w slp_typa =
     (let val = push_bit 2 (ucast slp_typa AND 7) OR 0x20 in
      if gas_base reg = 0 then Ok (LAI_ERROR_UNSUPPORTED, w)
      else if gas_address_space reg = ACPI_GAS_IO then
        ensure (has_fn env F_outb) (Ok (LAI_ERROR_NONE, laihost_outb env w (ucast (gas_base reg)) val))
      else if gas_address_space reg = ACPI_GAS_MMIO then
        ensure (has_fn env F_map)
          (Ok (LAI_ERROR_NONE, host_write (e_host env) w IoMmio 8 (gas_base reg) (ucast val)))
      else if gas_address_space reg = ACPI_GAS_PCI then
        ensure (has_fn env F_pci_writeb) (Ok (LAI_ERROR_NONE, gas_pci_writeb env w (gas_base reg) val))
      else Ok (LAI_ERROR_UNEXPECTED_RESULT, w))"

text \<open>The control register of a block: the sleep type, not cut to its three bits, and \<open>SLP_EN\<close>.\<close>

definition write_sleep_type :: "'d exec_env \<Rightarrow> 'd lai_world \<Rightarrow> u32 \<Rightarrow> u64 \<Rightarrow> 'd lai_world" where
  "write_sleep_type env w block slp_typ =
     (let (data, w) = laihost_inw env w (ucast block) in
      laihost_outw env w (ucast block)
        ((data AND 0xE3FF) OR ucast (push_bit 10 slp_typ OR ucast ACPI_SLEEP)))"

definition fixed_sleep :: "'d exec_env \<Rightarrow> acpi_fadt \<Rightarrow> 'd lai_world \<Rightarrow> u64 \<Rightarrow> u64 \<Rightarrow> (lai_api_error \<times> 'd lai_world) outcome" where
  "fixed_sleep env fadt w slp_typa slp_typb =
     ensure (has_fn env F_inw \<and> has_fn env F_outw) (
       let w = write_sleep_type env w (pm1a_control_block fadt) slp_typa;
           w = (if pm1b_control_block fadt \<noteq> 0 then write_sleep_type env w (pm1b_control_block fadt) slp_typb else w) in
       Ok (LAI_ERROR_NONE, w))"

definition sleep_path :: "u8 \<Rightarrow> string option" where
  "sleep_path sleep_state =
     (if sleep_state = 0 then Some (CHR 0x5C # ''_S0'')
      else if sleep_state = 1 then Some (CHR 0x5C # ''_S1'')
      else if sleep_state = 2 then Some (CHR 0x5C # ''_S2'')
      else if sleep_state = 3 then Some (CHR 0x5C # ''_S3'')
      else if sleep_state = 4 then Some (CHR 0x5C # ''_S4'')
      else if sleep_state = 5 then Some (CHR 0x5C # ''_S5'')
      else None)"

text \<open>
  The two sleep types.  A failure of \<open>lai_obj_get_pkg\<close> is ignored: the type stays 0.  The variables and
  the state are released when the function returns.
\<close>

definition enter_sleep_with :: "nat \<Rightarrow> 'd exec_env \<Rightarrow> lai_fixed \<Rightarrow> 'd lai_world \<Rightarrow> u8 \<Rightarrow> lai_variable \<Rightarrow> lai_state \<Rightarrow>
    (lai_api_error \<times> 'd lai_world) outcome" where
  "enter_sleep_with fuel env fx w sleep_state package st =
     bnd (lai_obj_get_pkg w package 0 var0) (\<lambda>(_, w, slp_typa).
     bnd (lai_obj_get_pkg w package 1 var0) (\<lambda>(_, w, slp_typb).
     bnd (prepare_sleep fuel env w (CHR 0x5C # ''_PTS'') sleep_state) (\<lambda>w.
     bnd (instance_fadt fx) (\<lambda>fadt.
     bnd (if fa_revision fadt < 5 then prepare_sleep fuel env w (CHR 0x5C # ''_GTS'') sleep_state else Ok w) (\<lambda>w.
     bnd (if is_hw_reduced fx then hw_reduced_sleep env (sleep_control_reg fadt) w (v_integer slp_typa)
          else fixed_sleep env fadt w (v_integer slp_typa) (v_integer slp_typb)) (\<lambda>(err, w).
     bnd (lai_var_finalize w slp_typb) (\<lambda>w.
     bnd (lai_var_finalize w slp_typa) (\<lambda>w.
     bnd (lai_var_finalize w package) (\<lambda>w.
     bnd (lai_finalize_state w st) (\<lambda>(w, _). Ok (err, w)))))))))))"

definition lai_enter_sleep :: "nat \<Rightarrow> 'd exec_env \<Rightarrow> lai_fixed \<Rightarrow> 'd lai_world \<Rightarrow> u8 \<Rightarrow> (lai_api_error \<times> 'd lai_world) outcome" where
  "lai_enter_sleep fuel env fx w sleep_state =
     (case sleep_path sleep_state of
        None \<Rightarrow> Panic
      | Some path \<Rightarrow>
          bnd (lai_resolve_path w None (bytes_of path @ [0])) (\<lambda>handle.
          case handle of
            None \<Rightarrow> bnd (lai_finalize_state w lai_init_state) (\<lambda>(w, _). Ok (LAI_ERROR_UNSUPPORTED, w))
          | Some h \<Rightarrow>
              bnd (lai_eval fuel env w (Some var0) (Some h) lai_init_state) (\<lambda>(status, w, st, package).
              case package of None \<Rightarrow> Fault | Some package \<Rightarrow>
              if status \<noteq> LAI_ERROR_NONE then
                bnd (lai_var_finalize w package) (\<lambda>w.
                bnd (lai_finalize_state w st) (\<lambda>(w, _). Ok (LAI_ERROR_UNSUPPORTED, w)))
              else enter_sleep_with fuel env fx w sleep_state package st)))"

subsection \<open>Reset\<close>

text \<open>\<open>scan\<close> is what \<open>laihost_scan (''FACP'', 0)\<close> gives, if the host has it.\<close>

definition lai_acpi_reset :: "'d exec_env \<Rightarrow> lai_fixed \<Rightarrow> acpi_fadt option option \<Rightarrow> 'd lai_world \<Rightarrow>
    (lai_api_error \<times> 'd lai_world) outcome" where
  "lai_acpi_reset env fx scan w =
     bnd (case fx_fadt fx of
            Some t \<Rightarrow> Ok t
          | None \<Rightarrow> (case scan of None \<Rightarrow> Panic | Some None \<Rightarrow> Panic | Some (Some t) \<Rightarrow> Ok t)) (\<lambda>fadt.
     let reg = reset_register fadt; cmd = reset_command fadt in
     if \<not> bit (fa_flags fadt) 10 then Ok (LAI_ERROR_UNSUPPORTED, w)
     else if gas_address_space reg = ACPI_GAS_MMIO then
       ensure (has_fn env F_map) (Ok (LAI_ERROR_NONE, host_write (e_host env) w IoMmio 8 (gas_base reg) (ucast cmd)))
     else if gas_address_space reg = ACPI_GAS_IO then
       ensure (has_fn env F_outb) (Ok (LAI_ERROR_NONE, laihost_outb env w (ucast (gas_base reg)) cmd))
     else if gas_address_space reg = ACPI_GAS_PCI then
       guard (has_fn env F_pci_writeb) (Ok (LAI_ERROR_NONE, gas_pci_writeb env w (gas_base reg) cmd))
     else Panic)"

subsection \<open>The timer\<close>

record lai_timer =
  timer_block :: "u8 \<times> u64"
  timer_mmio_reg :: "u64 option"
  extended_timer :: bool
  supported :: bool

definition timer0 :: lai_timer where
  "timer0 = \<lparr>timer_block = (0, 0), timer_mmio_reg = None, extended_timer = False, supported = False\<rparr>"

definition lai_read_pm_timer_value :: "'d exec_env \<Rightarrow> lai_timer \<Rightarrow> 'd lai_world \<Rightarrow> (u32 \<times> 'd lai_world) outcome" where
  "lai_read_pm_timer_value env tm w =
     (let (space, base) = timer_block tm in
      if space = ACPI_GAS_IO then
        guard (has_fn env F_ind)
          (let (v, w) = host_read (e_host env) w IoPort 32 (take_bit 16 base) in Ok (ucast v, w))
      else if space = ACPI_GAS_MMIO then
        (case timer_mmio_reg tm of
           None \<Rightarrow> Fault
         | Some a \<Rightarrow> (let (v, w) = host_read (e_host env) w IoMmio 32 a in Ok (ucast v, w)))
      else Panic)"

definition lai_start_pm_timer :: "'d exec_env \<Rightarrow> lai_fixed \<Rightarrow> lai_timer \<Rightarrow> 'd lai_world \<Rightarrow>
    (lai_api_error \<times> lai_timer \<times> 'd lai_world) outcome" where
  "lai_start_pm_timer env fx tm w =
     bnd (instance_fadt fx) (\<lambda>fadt.
     if pm_timer_length fadt \<noteq> 4 then Ok (LAI_ERROR_UNSUPPORTED, tm, w)
     else
       let tm = tm\<lparr>supported := True\<rparr>; x = x_pm_timer_block fadt in
       bnd (if 2 \<le> acpi_revision w \<and> gas_base x \<noteq> 0 then
              let tm = tm\<lparr>timer_block := (gas_address_space x, gas_base x)\<rparr> in
              if gas_address_space x = ACPI_GAS_MMIO
              then guard (has_fn env F_map) (Ok (tm\<lparr>timer_mmio_reg := Some (gas_base x)\<rparr>)) else Ok tm
            else Ok (tm\<lparr>timer_block := (ACPI_GAS_IO, ucast (pm_timer_block fadt))\<rparr>)) (\<lambda>tm.
       let tm = (if bit (fa_flags fadt) 8 then tm\<lparr>extended_timer := True\<rparr> else tm) in
       bnd (lai_get_sci_event env fx w) (\<lambda>(ev, w).
       bnd (lai_set_sci_event env fx w (ev OR ACPI_TIMER)) (\<lambda>w. Ok (LAI_ERROR_NONE, tm, w)))))"

definition lai_stop_pm_timer :: "'d exec_env \<Rightarrow> lai_fixed \<Rightarrow> lai_timer \<Rightarrow> 'd lai_world \<Rightarrow> (lai_api_error \<times> 'd lai_world) outcome" where
  "lai_stop_pm_timer env fx tm w =
     (if \<not> supported tm then Ok (LAI_ERROR_UNSUPPORTED, w)
      else bnd (lai_get_sci_event env fx w) (\<lambda>(ev, w).
           bnd (lai_set_sci_event env fx w (ev AND NOT ACPI_TIMER)) (\<lambda>w. Ok (LAI_ERROR_NONE, w))))"

fun wait_goal :: "nat \<Rightarrow> 'd exec_env \<Rightarrow> lai_timer \<Rightarrow> u32 \<Rightarrow> 'd lai_world \<Rightarrow> 'd lai_world outcome" where
  "wait_goal 0 env tm goal w = Stuck"
| "wait_goal (Suc fuel) env tm goal w =
     bnd (lai_read_pm_timer_value env tm w) (\<lambda>(v, w).
     if v < goal then wait_goal fuel env tm goal w else Ok w)"

definition lai_busy_wait_pm_timer :: "nat \<Rightarrow> 'd exec_env \<Rightarrow> lai_timer \<Rightarrow> 'd lai_world \<Rightarrow> u64 \<Rightarrow>
    (lai_api_error \<times> 'd lai_world) outcome" where
  "lai_busy_wait_pm_timer fuel env tm w ms =
     (if \<not> supported tm then Ok (LAI_ERROR_UNSUPPORTED, w)
      else
        bnd (lai_read_pm_timer_value env tm w) (\<lambda>(v, w).
        let goal = ucast (ucast v + ms * 3580 :: u64) in
        if \<not> extended_timer tm \<and> 0xFFFFFF < goal then Ok (LAI_ERROR_UNSUPPORTED, w)
        else bnd (wait_goal fuel env tm goal w) (\<lambda>w. Ok (LAI_ERROR_NONE, w))))"

subsection \<open>Waiting\<close>

text \<open>
  A free-running counter: every read of the timer gives the low 32 bits of a clock, which goes on by at
  least one and at most \<open>step\<close> ticks between two reads.
\<close>

definition counts_up :: "'d exec_env \<Rightarrow> lai_timer \<Rightarrow> ('d \<Rightarrow> nat) \<Rightarrow> nat \<Rightarrow> bool" where
  "counts_up env tm clock step \<longleftrightarrow> (\<forall>w. \<exists>d. lai_read_pm_timer_value env tm w = Ok (of_nat (clock (dev w)), w\<lparr>dev := d\<rparr>) \<and>
     clock (dev w) < clock d \<and> clock d \<le> clock (dev w) + step)"

text \<open>Up to the goal the clock needs at most as many reads as ticks.\<close>

lemma wait_goal_ends:
  assumes up: "counts_up env tm clock step" and goal: "of_nat (b + g) = goal" "g < 2 ^ 32" "b mod 2 ^ 32 = 0"
    and room: "g + step \<le> 2 ^ 32" and now: "b \<le> clock (dev w)" "clock (dev w) < b + 2 ^ 32"
  shows "ends (\<lambda>fuel. wait_goal fuel env tm goal w) (\<lambda>w'. \<exists>d. w' = w\<lparr>dev := d\<rparr> \<and> b + g < clock d)"
proof -
  have "\<exists>d. b + g < clock d \<and> (\<forall>j. wait_goal (Suc (b + g - clock (dev w)) + j) env tm goal w = Ok (w\<lparr>dev := d\<rparr>))"
    using now
  proof (induction "b + g - clock (dev w)" arbitrary: w rule: less_induct)
    case less
    let ?c = "clock (dev w)"
    from up obtain d where d: "lai_read_pm_timer_value env tm w = Ok (of_nat ?c, w\<lparr>dev := d\<rparr>)"
      "?c < clock d" "clock d \<le> ?c + step" unfolding counts_up_def by blast
    have v: "(of_nat ?c :: u32) < goal \<longleftrightarrow> ?c < b + g"
    proof -
      obtain q where q: "b = 2 ^ 32 * q" using goal(3) by (metis dvd_def mod_0_imp_dvd)
      obtain r where r: "?c = 2 ^ 32 * q + r" "r < 2 ^ 32"
        using less.prems q by (metis le_Suc_ex nat_add_left_cancel_less)
      have "unat (of_nat ?c :: u32) = ?c mod 2 ^ 32" by (simp add: unat_of_nat)
      then have "unat (of_nat ?c :: u32) = ?c - b" using r by (simp add: q)
      moreover have "unat goal = (b + g) mod 2 ^ 32" by (simp only: goal(1) [symmetric] unat_of_nat) simp
      then have "unat goal = g" using goal(2) by (simp add: q)
      ultimately show ?thesis using less.prems(1) by (auto simp: word_less_nat_alt)
    qed
    show ?case
    proof (cases "?c < b + g")
      case True
      have "clock d < b + 2 ^ 32" using d(3) True room by linarith
      then have "\<exists>e. b + g < clock e \<and> (\<forall>j. wait_goal (Suc (b + g - clock (dev (w\<lparr>dev := d\<rparr>))) + j) env tm goal (w\<lparr>dev := d\<rparr>) =
          Ok ((w\<lparr>dev := d\<rparr>)\<lparr>dev := e\<rparr>))"
        by (intro less.hyps) (use d(2) True less.prems(1) in auto)
      then obtain e where e: "b + g < clock e"
        "\<And>j. wait_goal (Suc (b + g - clock d) + j) env tm goal (w\<lparr>dev := d\<rparr>) = Ok (w\<lparr>dev := e\<rparr>)"
        by (simp del: wait_goal.simps) blast
      obtain j0 where "b + g - ?c = Suc (b + g - clock d) + j0"
        using d(2) True by (metis Suc_leI diff_less_mono2 le_Suc_ex)
      then show ?thesis using d(1) v True e by (intro exI [of _ e]) (simp add: add.assoc del: wait_goal.simps add: wait_goal.simps(2) [where fuel = "Suc n" for n])
    next
      case False
      then show ?thesis using d v by (intro exI [of _ d]) auto
    qed
  qed
  then show ?thesis by (blast intro: endsI)
qed

text \<open>
  C26. Waiting on the timer ends and waits long enough: on a counter that does not jump over the rest of
  its range in one read, with no wrap-around before the goal (in 24 bits for a short timer), the busy
  wait returns with success after at least \<open>ms * 3580\<close> ticks, at 3579.545 ticks per millisecond.
\<close>

theorem busy_wait_waits:
  assumes "counts_up env tm clock step" and "supported tm"
    and "clock (dev w) mod 2 ^ 32 + unat ms * 3580 + step < (if extended_timer tm then 2 ^ 32 else 2 ^ 24)"
  shows "ends (\<lambda>fuel. lai_busy_wait_pm_timer fuel env tm w ms)
    (\<lambda>(e, w'). e = LAI_ERROR_NONE \<and> (\<exists>d. w' = w\<lparr>dev := d\<rparr> \<and> clock (dev w) + unat ms * 3580 < clock d))"
proof -
  let ?c = "clock (dev w)" and ?g = "clock (dev w) mod 2 ^ 32 + unat ms * 3580"
  let ?b = "?c - ?c mod 2 ^ 32"
  from assms(1) obtain d where d: "lai_read_pm_timer_value env tm w = Ok (of_nat ?c, w\<lparr>dev := d\<rparr>)" "?c < clock d"
    "clock d \<le> ?c + step" unfolding counts_up_def by blast
  have g: "?g + step < 2 ^ 32" using assms(3) by (auto split: if_splits)
  have s: "0 < step" using d by linarith
  have small: "unat ms * 3580 < 2 ^ 64" using g by simp
  then have ms: "unat (ms * 3580) = unat ms * 3580" by (simp add: unat_word_ariths)
  let ?goal = "ucast (ucast (of_nat ?c :: u32) + ms * 3580 :: u64) :: u32"
  have "unat (ucast (of_nat ?c :: u32) :: u64) = ?c mod 2 ^ 32" 
    by (simp only: unsigned_ucast_eq unat_of_nat) (simp add: take_bit_nat_eq_self less_trans [OF mod_less_divisor])
  then have "unat (ucast (of_nat ?c :: u32) + ms * 3580 :: u64) = ?g"
    using g s by (simp add: unat_word_ariths ms)
  then have goal: "unat ?goal = ?g" using g s by (simp add: unsigned_ucast_eq take_bit_nat_eq_self)
  have bg: "?b + ?g = ?c + unat ms * 3580" using mod_less_eq_dividend [of ?c "2 ^ 32"] by linarith
  have b: "?b mod 2 ^ 32 = 0" by (simp add: minus_mod_eq_mult_div)
  then have "of_nat ?b = (0 :: u32)" by (simp only: word_unat_eq_iff unat_of_nat) simp
  then have eq: "of_nat (?b + ?g) = ?goal" by (simp only: of_nat_add add_0 goal [symmetric] of_nat_unat ucast_id)
  have wait: "ends (\<lambda>fuel. wait_goal fuel env tm ?goal (w\<lparr>dev := d\<rparr>)) (\<lambda>w'. \<exists>e. w' = (w\<lparr>dev := d\<rparr>)\<lparr>dev := e\<rparr> \<and> ?b + ?g < clock e)"
  proof (rule wait_goal_ends [OF assms(1) eq _ b])
    show "?g < 2 ^ 32" "?g + step \<le> 2 ^ 32" using g by linarith+
    show "?b \<le> clock (dev (w\<lparr>dev := d\<rparr>))" using d(2) by simp
    have "clock d < ?b + 2 ^ 32" using d(3) g mod_less_eq_dividend [of ?c "2 ^ 32"] by linarith
    then show "clock (dev (w\<lparr>dev := d\<rparr>)) < ?b + 2 ^ 32" by simp
  qed
  have short: "(\<not> extended_timer tm \<and> 0xFFFFFF < ?goal) = False"
    using assms(3) s goal by (auto simp: word_less_nat_alt split: if_splits)
  have "ends (\<lambda>fuel. bnd (wait_goal fuel env tm ?goal (w\<lparr>dev := d\<rparr>)) (\<lambda>w. Ok (LAI_ERROR_NONE, w)))
    (\<lambda>(e, w'). e = LAI_ERROR_NONE \<and> (\<exists>d. w' = w\<lparr>dev := d\<rparr> \<and> clock (dev w) + unat ms * 3580 < clock d))"
    by (rule ends_bnd [OF wait]) (use bg in \<open>auto intro!: ends_Ok\<close>)
  then show ?thesis by (simp only: lai_busy_wait_pm_timer_def assms(2) d(1) Let_def short bnd.simps prod.case if_False not_True_eq_False)
qed

text \<open>A counter at port 0x608 that starts at 100 and counts its reads.\<close>

definition counter_env :: "nat exec_env" where
  "counter_env = \<lparr>e_host = \<lparr>h_has = (\<lambda>_. True), h_read = (\<lambda>_ _ _ d. (of_nat d, Suc d)), h_write = (\<lambda>_ _ _ _ d. d)\<rparr>,
     e_eval = (\<lambda>_ _. Fault), e_amldebug = None, e_global_notify = None, e_notify = (\<lambda>_ d _ _. (False, d)),
     e_timer = None, e_sleep = None, e_memcmp = (\<lambda>_ _ _. Ok 0),
     e_sync_wait = None, e_sync_wake = None, e_rounds = 0\<rparr>"

definition counter_timer :: lai_timer where
  "counter_timer = timer0\<lparr>timer_block := (ACPI_GAS_IO, 0x608), supported := True\<rparr>"

definition counter_world :: "nat lai_world" where
  "counter_world = \<lparr>cells = [], mem_ok = (\<lambda>_. True), mem_clock = 0, mem_junk = (\<lambda>_. 0), nodes = [], root_node = None,
     ns_array = [], ns_capacity = 0, acpi_revision = 2, invocations = [], dev = 100\<rparr>"

lemma counter_counts: "counts_up counter_env counter_timer (\<lambda>d. d) 1"
proof -
  have "ucast (take_bit 32 (of_nat n :: u64)) = (of_nat n :: u32)" for n
    by (rule bit_word_eqI) (simp add: bit_simps)
  then have "lai_read_pm_timer_value counter_env counter_timer w = Ok (of_nat (dev w), w\<lparr>dev := Suc (dev w)\<rparr>)" for w
    by (simp add: lai_read_pm_timer_value_def counter_timer_def counter_env_def host_read_def has_fn_def timer0_def Let_def)
  then show ?thesis unfolding counts_up_def by (metis Suc_eq_plus1 lessI order_refl)
qed

lemma busy_wait_waits_witness:
  "\<exists>f d. 3680 < d \<and> (\<forall>fuel. lai_busy_wait_pm_timer (f + fuel) counter_env counter_timer counter_world 1 =
     Ok (LAI_ERROR_NONE, counter_world\<lparr>dev := d\<rparr>))"
proof -
  have "ends (\<lambda>fuel. lai_busy_wait_pm_timer fuel counter_env counter_timer counter_world 1)
    (\<lambda>(e, w'). e = LAI_ERROR_NONE \<and> (\<exists>d. w' = counter_world\<lparr>dev := d\<rparr> \<and> dev counter_world + unat (1 :: u64) * 3580 < d))"
    by (rule busy_wait_waits [OF counter_counts]) (simp_all add: counter_timer_def counter_world_def timer0_def)
  then obtain f d where "dev counter_world + 3580 < d"
    "\<And>fuel. f \<le> fuel \<Longrightarrow> lai_busy_wait_pm_timer fuel counter_env counter_timer counter_world 1 =
      Ok (LAI_ERROR_NONE, counter_world\<lparr>dev := d\<rparr>)" unfolding ends_def by auto
  moreover have "dev counter_world = 100" by (simp add: counter_world_def)
  ultimately show ?thesis by (intro exI [of _ f] exI [of _ d]) simp
qed

text \<open>A goal that wraps around is already reached: the wait is over at once.\<close>

lemma wrapped_wait_is_short:
  assumes "lai_read_pm_timer_value env tm w = Ok (v, w1)" and "lai_read_pm_timer_value env tm w1 = Ok (v', w2)"
    and "supported tm" "extended_timer tm" and "ucast (ucast v + ms * 3580 :: u64) \<le> v'"
  shows "lai_busy_wait_pm_timer (Suc fuel) env tm w ms = Ok (LAI_ERROR_NONE, w2)"
proof -
  have "\<not> v' < ucast (ucast v + ms * 3580 :: u64)" using assms(5) by (simp only: not_less)
  then show ?thesis using assms(1-4) by (simp add: lai_busy_wait_pm_timer_def Let_def)
qed

end
