(* ===== verification/Lai_Pci.thy ===== *)
theory Lai_Pci
  imports Lai_Resource Lai_Power
begin

text \<open>
  Clients of the namespace and the interpreter: the routing of PCI interrupts (\<open>lai/helpers/pci.c\<close>) and the
  set-up of the embedded controller (\<open>lai/drivers/ec.c\<close>).

  An evaluation that is over leaves its state empty, so every evaluation starts in a fresh one here.
  Variables with \<open>LAI_CLEANUP_VAR\<close> are released on every return; those not yet assigned are empty.
  \<open>rounds\<close> bounds the loops over the children of a node and over the entries of a table.
\<close>

definition fresh_eval :: "nat \<Rightarrow> 'd exec_env \<Rightarrow> 'd evaluator" where
  "fresh_eval fuel env w p =
     bnd (lai_eval fuel env w (Some var0) (Some p) lai_init_state) (\<lambda>(e, w, st, v).
     case v of None \<Rightarrow> Fault | Some v \<Rightarrow>
     bnd (lai_finalize_state w st) (\<lambda>(w, _). Ok (e, w, v)))"

primrec release :: "lai_variable list \<Rightarrow> 'd lai_world \<Rightarrow> 'd lai_world outcome" where
  "release [] w = Ok w"
| "release (v # vs) w = bnd (lai_var_finalize w v) (\<lambda>w. release vs w)"

subsection \<open>The embedded controller\<close>

text \<open>\<open>ecdt\<close> is what \<open>laihost_scan\<close> gives for the ECDT, if the host has it: the two registers.\<close>

definition lai_early_init_ec :: "(acpi_gas \<times> acpi_gas) option option \<Rightarrow> lai_ec_driver \<Rightarrow> lai_ec_driver outcome" where
  "lai_early_init_ec ecdt driver = (case ecdt of
     None \<Rightarrow> Panic
   | Some None \<Rightarrow> Ok driver
   | Some (Some (control, data)) \<Rightarrow>
       if gas_address_space control \<noteq> ACPI_GAS_IO then Ok driver
       else let driver = driver\<lparr>cmd_port := ucast (gas_base control)\<rparr> in
         if gas_address_space data \<noteq> ACPI_GAS_IO then Ok driver
         else Ok (driver\<lparr>data_port := ucast (gas_base data)\<rparr>))"

text \<open>The two I/O resources of \<open>_CRS\<close>: the data port and the command port.\<close>

definition ec_resources :: "u8 list \<Rightarrow> lai_ec_driver \<Rightarrow> lai_ec_driver outcome" where
  "ec_resources buf driver =
     bnd (lai_resource_iterate (resource_view buf)) (\<lambda>(e, crs_it).
     if e \<noteq> LAI_ERROR_NONE then Ok driver
     else
       bnd (lai_resource_get_type crs_it) (\<lambda>t.
       if t \<noteq> LAI_RESOURCE_IO then Ok driver
       else
         let driver = driver\<lparr>data_port := ucast (rv_base crs_it)\<rparr> in
         bnd (lai_resource_iterate crs_it) (\<lambda>(e, crs_it).
         if e \<noteq> LAI_ERROR_NONE then Ok driver
         else
           bnd (lai_resource_get_type crs_it) (\<lambda>t.
           if t \<noteq> LAI_RESOURCE_IO then Ok driver
           else Ok (driver\<lparr>cmd_port := ucast (rv_base crs_it)\<rparr>)))))"

definition lai_init_ec :: "nat \<Rightarrow> 'd exec_env \<Rightarrow> 'd lai_world \<Rightarrow> nat \<Rightarrow> lai_ec_driver \<Rightarrow> (lai_ec_driver \<times> 'd lai_world) outcome" where
  "lai_init_ec fuel env w p driver =
     bnd (lai_eisaid w var0 (bytes_of ''PNP0C09'' @ [0])) (\<lambda>(w, pnp_id).
     bnd (lai_check_device_pnp_id (fresh_eval fuel env) w p pnp_id) (\<lambda>(r, w).
     if r \<noteq> 0 then bnd (release [pnp_id] w) (\<lambda>w. Ok (driver, w))
     else
       bnd (lai_resolve_path w (Some p) (bytes_of ''_CRS'' @ [0])) (\<lambda>crs_node.
       case crs_node of
         None \<Rightarrow> bnd (release [pnp_id] w) (\<lambda>w. Ok (driver, w))
       | Some h \<Rightarrow>
           bnd (fresh_eval fuel env w h) (\<lambda>(e, w, crs).
           bnd (if e \<noteq> LAI_ERROR_NONE then Ok driver
                else bnd (lai_exec_buffer_access w crs) (\<lambda>(_, b). ec_resources (b_content b) driver)) (\<lambda>driver.
           bnd (release [crs, pnp_id] w) (\<lambda>w. Ok (driver, w)))))))"

subsection \<open>Finding buses and devices\<close>

text \<open>The value of an optional object, 0 by default; \<open>None\<close> when its evaluation fails.\<close>

definition bus_number :: "nat \<Rightarrow> 'd exec_env \<Rightarrow> 'd lai_world \<Rightarrow> nat \<Rightarrow> string \<Rightarrow> (u64 option \<times> lai_variable \<times> 'd lai_world) outcome" where
  "bus_number fuel env w p name =
     bnd (lai_resolve_path w (Some p) (bytes_of name @ [0])) (\<lambda>handle.
     case handle of
       None \<Rightarrow> Ok (Some 0, var0, w)
     | Some h \<Rightarrow>
         bnd (fresh_eval fuel env w h) (\<lambda>(e, w, v).
         if e \<noteq> LAI_ERROR_NONE then Ok (None, v, w)
         else case lai_obj_get_integer v of
             (LAI_ERROR_NONE, Some n) \<Rightarrow> Ok (Some n, v, w)
           | _ \<Rightarrow> Ok (Some 0, v, w)))"

fun find_bus_loop :: "nat \<Rightarrow> nat \<Rightarrow> 'd exec_env \<Rightarrow> 'd lai_world \<Rightarrow> nat \<Rightarrow> nat \<Rightarrow> lai_variable \<Rightarrow> lai_variable \<Rightarrow> u16 \<Rightarrow> u8 \<Rightarrow>
    (nat option \<times> 'd lai_world) outcome" where
  "find_bus_loop 0 fuel env w sb i pci_id pcie_id seg bus = Stuck"
| "find_bus_loop (Suc rounds) fuel env w sb i pci_id pcie_id seg bus =
     bnd (lai_ns_child_iterate w sb i) (\<lambda>(child, i).
     case child of
       None \<Rightarrow> Ok (None, w)
     | Some p \<Rightarrow>
         let again = (\<lambda>w. find_bus_loop rounds fuel env w sb i pci_id pcie_id seg bus) in
         bnd (lai_check_device_pnp_id (fresh_eval fuel env) w p pci_id) (\<lambda>(r, w).
         bnd (if r \<noteq> 0 then lai_check_device_pnp_id (fresh_eval fuel env) w p pcie_id else Ok (0, w)) (\<lambda>(r', w).
         if r \<noteq> 0 \<and> r' \<noteq> 0 then again w
         else
           bnd (bus_number fuel env w p ''_BBN'') (\<lambda>(bbn, bbn_var, w).
           case bbn of
             None \<Rightarrow> bnd (release [bbn_var] w) again
           | Some bbn \<Rightarrow>
               bnd (bus_number fuel env w p ''_SEG'') (\<lambda>(sg, seg_var, w).
               case sg of
                 None \<Rightarrow> bnd (release [seg_var, bbn_var] w) again
               | Some sg \<Rightarrow>
                   bnd (release [seg_var, bbn_var] w) (\<lambda>w.
                   if sg = ucast seg \<and> bbn = ucast bus then Ok (Some p, w) else again w))))))"

definition lai_pci_find_bus :: "nat \<Rightarrow> nat \<Rightarrow> 'd exec_env \<Rightarrow> 'd lai_world \<Rightarrow> u16 \<Rightarrow> u8 \<Rightarrow> (nat option \<times> 'd lai_world) outcome" where
  "lai_pci_find_bus rounds fuel env w seg bus =
     bnd (lai_eisaid w var0 (bytes_of ''PNP0A03'' @ [0])) (\<lambda>(w, pci_id).
     bnd (lai_eisaid w var0 (bytes_of ''PNP0A08'' @ [0])) (\<lambda>(w, pcie_id).
     bnd (lai_resolve_path w None (bytes_of (CHR 0x5C # ''_SB_'') @ [0])) (\<lambda>sb.
     case sb of None \<Rightarrow> Panic | Some sb \<Rightarrow>
     bnd (find_bus_loop rounds fuel env w sb 0 pci_id pcie_id seg bus) (\<lambda>(r, w).
     bnd (release [pcie_id, pci_id] w) (\<lambda>w. Ok (r, w))))))"

text \<open>An \<open>_ADR\<close> that is not an integer leaves \<open>adr_result\<close> without a value.\<close>

fun find_device_loop :: "nat \<Rightarrow> nat \<Rightarrow> 'd exec_env \<Rightarrow> 'd lai_world \<Rightarrow> nat \<Rightarrow> nat \<Rightarrow> u64 \<Rightarrow> (nat option \<times> 'd lai_world) outcome" where
  "find_device_loop 0 fuel env w bus i adr = Stuck"
| "find_device_loop (Suc rounds) fuel env w bus i adr =
     bnd (lai_ns_child_iterate w bus i) (\<lambda>(child, i).
     case child of
       None \<Rightarrow> Ok (None, w)
     | Some p \<Rightarrow>
         let again = (\<lambda>w. find_device_loop rounds fuel env w bus i adr) in
         bnd (lai_resolve_path w (Some p) (bytes_of ''_ADR'' @ [0])) (\<lambda>handle.
         case handle of
           None \<Rightarrow> again w
         | Some h \<Rightarrow>
             bnd (fresh_eval fuel env w h) (\<lambda>(e, w, v).
             if e \<noteq> LAI_ERROR_NONE then bnd (release [v] w) again
             else case lai_obj_get_integer v of
                 (LAI_ERROR_NONE, Some n) \<Rightarrow>
                   bnd (release [v] w) (\<lambda>w. if n = adr then Ok (Some p, w) else again w)
               | _ \<Rightarrow> Fault)))"

definition lai_pci_find_device :: "nat \<Rightarrow> nat \<Rightarrow> 'd exec_env \<Rightarrow> 'd lai_world \<Rightarrow> nat \<Rightarrow> u8 \<Rightarrow> u8 \<Rightarrow> (nat option \<times> 'd lai_world) outcome" where
  "lai_pci_find_device rounds fuel env w bus pslot func =
     find_device_loop rounds fuel env w bus 0 (push_bit 16 (ucast pslot) OR ucast func)"

subsection \<open>The routing table\<close>

record lai_prt_iterator =
  prt_i :: nat
  prt :: lai_variable
  prt_slot :: int
  prt_function :: int
  prt_pin :: u8
  prt_link :: "nat option"
  prt_resource_idx :: u64
  prt_gsi :: u32
  prt_level_triggered :: bool
  prt_active_low :: bool

definition prt_iterator :: "lai_variable \<Rightarrow> lai_prt_iterator" where
  "prt_iterator table = \<lparr>prt_i = 0, prt = table, prt_slot = 0, prt_function = 0, prt_pin = 0, prt_link = None,
     prt_resource_idx = 0, prt_gsi = 0, prt_level_triggered = False, prt_active_low = False\<rparr>"

text \<open>The resource with the number \<open>res_index\<close>; a descriptor is at least one byte long.\<close>

fun find_resource :: "nat \<Rightarrow> lai_resource_view \<Rightarrow> u32 \<Rightarrow> u64 \<Rightarrow> lai_resource_view option outcome" where
  "find_resource 0 v current res_index = Stuck"
| "find_resource (Suc n) v current res_index =
     bnd (lai_resource_iterate v) (\<lambda>(e, v).
     if e \<noteq> LAI_ERROR_NONE then Ok None
     else if ucast current = res_index then Ok (Some v)
     else find_resource n v (current + 1) res_index)"

definition link_resource :: "u8 list \<Rightarrow> lai_prt_iterator \<Rightarrow> nat \<Rightarrow> u64 \<Rightarrow> (lai_api_error \<times> lai_prt_iterator) outcome" where
  "link_resource buf iter link_handle res_index =
     bnd (find_resource (length buf + 2) (resource_view buf) 0 res_index) (\<lambda>found.
     case found of
       None \<Rightarrow> Ok (LAI_ERROR_UNEXPECTED_RESULT, iter)
     | Some view \<Rightarrow>
         bnd (lai_resource_get_type view) (\<lambda>t.
         if t \<noteq> LAI_RESOURCE_IRQ then Ok (LAI_ERROR_UNEXPECTED_RESULT, iter)
         else
           bnd (lai_resource_next_irq view) (\<lambda>(e, view).
           if e \<noteq> LAI_ERROR_NONE then Ok (LAI_ERROR_UNEXPECTED_RESULT, iter)
           else
             bnd (lai_resource_irq_is_level_triggered view) (\<lambda>level.
             bnd (lai_resource_irq_is_active_low view) (\<lambda>low.
             Ok (LAI_ERROR_NONE, iter\<lparr>prt_link := Some link_handle, prt_resource_idx := res_index,
               prt_gsi := rv_gsi view, prt_level_triggered := level, prt_active_low := low\<rparr>))))))"

definition parse_link :: "nat \<Rightarrow> 'd exec_env \<Rightarrow> 'd lai_world \<Rightarrow> lai_prt_iterator \<Rightarrow> nat \<Rightarrow> u64 \<Rightarrow>
    (lai_api_error \<times> lai_prt_iterator \<times> 'd lai_world) outcome" where
  "parse_link fuel env w iter link_handle res_index =
     bnd (lai_resolve_path w (Some link_handle) (bytes_of ''_CRS'' @ [0])) (\<lambda>crs_handle.
     case crs_handle of
       None \<Rightarrow> Ok (LAI_ERROR_UNEXPECTED_RESULT, iter, w)
     | Some h \<Rightarrow>
         bnd (fresh_eval fuel env w h) (\<lambda>(status, w, crs_buffer).
         bnd (if status \<noteq> LAI_ERROR_NONE then Ok (LAI_ERROR_EXECUTION_FAILURE, iter)
              else bnd (lai_exec_buffer_access w crs_buffer) (\<lambda>(_, b).
                   link_resource (b_content b) iter link_handle res_index)) (\<lambda>(e, iter).
         bnd (release [crs_buffer] w) (\<lambda>w. Ok (e, iter, w)))))"

text \<open>The elements of a package from the number \<open>i\<close>, up to the first that is missing.\<close>

fun pkg_items :: "nat \<Rightarrow> 'd lai_world \<Rightarrow> lai_variable \<Rightarrow> nat \<Rightarrow> (bool \<times> lai_variable list \<times> 'd lai_world) outcome" where
  "pkg_items 0 w v i = Ok (True, [], w)"
| "pkg_items (Suc n) w v i =
     bnd (lai_obj_get_pkg w v i var0) (\<lambda>(e, w, x).
     if e \<noteq> LAI_ERROR_NONE then Ok (False, replicate (Suc n) x, w)
     else bnd (pkg_items n w v (Suc i)) (\<lambda>(ok, xs, w). Ok (ok, x # xs, w)))"

definition parse_entry :: "nat \<Rightarrow> 'd exec_env \<Rightarrow> 'd lai_world \<Rightarrow> lai_prt_iterator \<Rightarrow> lai_variable list \<Rightarrow>
    (lai_api_error \<times> lai_prt_iterator \<times> 'd lai_world) outcome" where
  "parse_entry fuel env w iter items =
     (case map lai_obj_get_integer items of
        [(LAI_ERROR_NONE, Some addr), pin, _, index] \<Rightarrow>
          let f = addr AND 0xFFFF;
              iter = iter\<lparr>prt_slot := int (unat (drop_bit 16 addr AND 0xFFFF)),
                prt_function := (if f = 0xFFFF then -1 else int (unat f))\<rparr> in
          (case pin of
             (LAI_ERROR_NONE, Some pin) \<Rightarrow>
               let iter = iter\<lparr>prt_pin := ucast pin\<rparr> in
               bnd (lai_obj_get_type w (items ! 2)) (\<lambda>t.
               if t = LAI_TYPE_INTEGER then
                 (case index of
                    (LAI_ERROR_NONE, Some gsi) \<Rightarrow>
                      Ok (LAI_ERROR_NONE, iter\<lparr>prt_link := None, prt_resource_idx := 0, prt_level_triggered := True,
                        prt_active_low := True, prt_gsi := ucast gsi\<rparr>, w)
                  | _ \<Rightarrow> Ok (LAI_ERROR_UNEXPECTED_RESULT, iter, w))
               else if t = LAI_TYPE_DEVICE then
                 bnd (lai_obj_get_handle w (items ! 2)) (\<lambda>(e, h).
                 if e \<noteq> LAI_ERROR_NONE then Ok (LAI_ERROR_UNEXPECTED_RESULT, iter, w)
                 else case index of
                     (LAI_ERROR_NONE, Some res_index) \<Rightarrow>
                       (case h of None \<Rightarrow> Fault | Some h \<Rightarrow> parse_link fuel env w iter h res_index)
                   | _ \<Rightarrow> Ok (LAI_ERROR_UNEXPECTED_RESULT, iter, w))
               else Ok (LAI_ERROR_TYPE_MISMATCH, iter, w))
           | _ \<Rightarrow> Ok (LAI_ERROR_UNEXPECTED_RESULT, iter, w))
      | _ \<Rightarrow> Ok (LAI_ERROR_UNEXPECTED_RESULT, iter, w))"

definition lai_pci_parse_prt :: "nat \<Rightarrow> 'd exec_env \<Rightarrow> 'd lai_world \<Rightarrow> lai_prt_iterator \<Rightarrow>
    (lai_api_error \<times> lai_prt_iterator \<times> 'd lai_world) outcome" where
  "lai_pci_parse_prt fuel env w iter =
     bnd (lai_obj_get_pkg w (prt iter) (prt_i iter) var0) (\<lambda>(e, w, prt_entry).
     if e \<noteq> LAI_ERROR_NONE then bnd (release [prt_entry] w) (\<lambda>w. Ok (LAI_ERROR_UNEXPECTED_RESULT, iter, w))
     else
       let iter = iter\<lparr>prt_i := Suc (prt_i iter)\<rparr> in
       bnd (pkg_items 4 w prt_entry 0) (\<lambda>(ok, items, w).
       bnd (if ok then parse_entry fuel env w iter items else Ok (LAI_ERROR_UNEXPECTED_RESULT, iter, w)) (\<lambda>(e, iter, w).
       bnd (release (rev items @ [prt_entry]) w) (\<lambda>w. Ok (e, iter, w)))))"

text \<open>The entry for a device: its slot, its function or all of them, and its pin.\<close>

definition entry_matches :: "lai_prt_iterator \<Rightarrow> u8 \<Rightarrow> u8 \<Rightarrow> u8 \<Rightarrow> bool" where
  "entry_matches iter pslot func pin \<longleftrightarrow>
     prt_slot iter = uint pslot \<and> (prt_function iter = uint func \<or> prt_function iter = -1) \<and> prt_pin iter = pin"

definition route_entry :: "lai_prt_iterator \<Rightarrow> acpi_resource \<Rightarrow> acpi_resource" where
  "route_entry iter dest = dest\<lparr>ar_type := ACPI_RESOURCE_IRQ, ar_base := ucast (prt_gsi iter),
     ar_irq_flags := (if prt_level_triggered iter then 0 else ACPI_SMALL_IRQ_EDGE_TRIGGERED) OR
       (if prt_active_low iter then ACPI_SMALL_IRQ_ACTIVE_LOW else 0)\<rparr>"

fun route_loop :: "nat \<Rightarrow> nat \<Rightarrow> 'd exec_env \<Rightarrow> 'd lai_world \<Rightarrow> lai_prt_iterator \<Rightarrow> u8 \<Rightarrow> u8 \<Rightarrow> u8 \<Rightarrow> acpi_resource \<Rightarrow>
    (lai_api_error \<times> acpi_resource \<times> 'd lai_world) outcome" where
  "route_loop 0 fuel env w iter pslot func pin dest = Stuck"
| "route_loop (Suc rounds) fuel env w iter pslot func pin dest =
     bnd (lai_pci_parse_prt fuel env w iter) (\<lambda>(e, iter, w).
     if e \<noteq> LAI_ERROR_NONE then Ok (e, dest, w)
     else if entry_matches iter pslot func pin then Ok (LAI_ERROR_NONE, route_entry iter dest, w)
     else route_loop rounds fuel env w iter pslot func pin dest)"

definition lai_pci_route_pin :: "nat \<Rightarrow> nat \<Rightarrow> 'd exec_env \<Rightarrow> 'd lai_world \<Rightarrow> acpi_resource \<Rightarrow> u16 \<Rightarrow> u8 \<Rightarrow> u8 \<Rightarrow> u8 \<Rightarrow> u8 \<Rightarrow>
    (lai_api_error \<times> acpi_resource \<times> 'd lai_world) outcome" where
  "lai_pci_route_pin rounds fuel env w dest seg bus pslot func pin =
     ensure (pin \<noteq> 0 \<and> pin \<le> 4) (
     bnd (lai_pci_find_bus rounds fuel env w seg bus) (\<lambda>(handle, w).
     case handle of
       None \<Rightarrow> Ok (LAI_ERROR_NO_SUCH_NODE, dest, w)
     | Some handle \<Rightarrow>
         bnd (lai_resolve_path w (Some handle) (bytes_of ''_PRT'' @ [0])) (\<lambda>prt_handle.
         case prt_handle of
           None \<Rightarrow> Ok (LAI_ERROR_NO_SUCH_NODE, dest, w)
         | Some h \<Rightarrow>
             bnd (fresh_eval fuel env w h) (\<lambda>(e, w, table).
             bnd (if e \<noteq> LAI_ERROR_NONE then Ok (LAI_ERROR_EXECUTION_FAILURE, dest, w)
                  else route_loop rounds fuel env w (prt_iterator table) pslot func (pin - 1) dest) (\<lambda>(e, dest, w).
             bnd (release [table] w) (\<lambda>w. Ok (e, dest, w)))))))"

definition lai_pci_route :: "nat \<Rightarrow> nat \<Rightarrow> 'd exec_env \<Rightarrow> 'd lai_world \<Rightarrow> acpi_resource \<Rightarrow> u16 \<Rightarrow> u8 \<Rightarrow> u8 \<Rightarrow> u8 \<Rightarrow>
    (int \<times> acpi_resource \<times> 'd lai_world) outcome" where
  "lai_pci_route rounds fuel env w dest seg bus pslot func =
     guard (h_has (e_host env) F_pci_readb) (
     let (v, w) = host_read (e_host env) w (IoPci seg bus pslot func) 8 0x3D; pin = ucast v in
     if pin = 0 \<or> 4 < pin then Ok (1, dest, w)
     else
       bnd (lai_pci_route_pin rounds fuel env w dest seg bus pslot func pin) (\<lambda>(e, dest, w).
       Ok (if e \<noteq> LAI_ERROR_NONE then 1 else 0, dest, w)))"

subsection \<open>A table of direct routes\<close>

text \<open>
  A routing table in the heap: a package of packages \<open>{address, pin, 0, interrupt}\<close>, the form with the
  interrupt itself in place of a link device.
\<close>

definition pkg_var :: "nat \<Rightarrow> lai_variable" where
  "pkg_var a = var0\<lparr>v_type := LAI_PACKAGE, v_ptr := PHead a\<rparr>"

definition pkg_at :: "'w lai_heap_scheme \<Rightarrow> nat \<Rightarrow> lai_variable list \<Rightarrow> bool" where
  "pkg_at hp a vs \<longleftrightarrow> (\<exists>g. cell hp a = Some (HPkg g) \<and> 0 < p_rc g \<and> p_size g = length vs \<and> p_elems g = vs)"

fun row_items :: "u64 \<times> u64 \<times> u64 \<Rightarrow> lai_variable list" where
  "row_items (addr, pin, gsi) = [int_var addr, int_var pin, int_var 0, int_var gsi]"

definition prt_table :: "'w lai_heap_scheme \<Rightarrow> lai_variable \<Rightarrow> (u64 \<times> u64 \<times> u64) list \<Rightarrow> bool" where
  "prt_table hp v rows \<longleftrightarrow> (\<exists>t entries. v = pkg_var t \<and> pkg_at hp t (map pkg_var entries) \<and>
     list_all2 (\<lambda>a row. pkg_at hp a (row_items row)) entries rows)"

lemma put_cell_back: "cell hp a = Some h \<Longrightarrow> put_cell (put_cell hp a x) a (Some h) = hp"
  by (cases hp) (simp add: put_cell_def cell_def list_update_same_conv split: if_splits)

lemma load_int:
  assumes "pkg_at hp a vs" and "i < length vs" and "vs ! i = int_var x"
  shows "lai_obj_get_pkg hp (pkg_var a) i var0 = Ok (LAI_ERROR_NONE, hp, int_var x)"
proof -
  from assms(1) obtain g where g: "cell hp a = Some (HPkg g)" "p_size g = length vs" "p_elems g = vs"
    by (auto simp: pkg_at_def)
  have "lai_var_assign hp var0 (int_var x) = Ok (hp, int_var x)"
    by (simp add: lai_var_assign_def lai_var_move_var0 var_ref_def counted_head_def int_var_def)
  with g assms(2,3) show ?thesis
    by (simp add: lai_obj_get_pkg_def pkg_var_def lai_exec_pkg_size_def lai_exec_pkg_load_def pkg_elem_def pkg_head_def deref_def)
qed

lemma load_pkg:
  assumes "pkg_at hp t (map pkg_var entries)" and "i < length entries" and "cell hp (entries ! i) = Some (HPkg g)" "0 < p_rc g"
  shows "lai_obj_get_pkg hp (pkg_var t) i var0 =
    Ok (LAI_ERROR_NONE, put_cell hp (entries ! i) (Some (HPkg (g\<lparr>p_rc := p_rc g + 1\<rparr>))), pkg_var (entries ! i))"
proof -
  from assms(1) obtain k where k: "cell hp t = Some (HPkg k)" "p_size k = length entries" "p_elems k = map pkg_var entries"
    by (auto simp: pkg_at_def)
  have "var_ref hp (pkg_var (entries ! i)) = Ok (put_cell hp (entries ! i) (Some (HPkg (g\<lparr>p_rc := p_rc g + 1\<rparr>))))"
    using assms(3,4) by (simp add: var_ref_def counted_head_def pkg_var_def deref_def lai_rc_ref_def)
  with k assms(2) show ?thesis
    by (simp add: lai_obj_get_pkg_def pkg_var_def lai_exec_pkg_size_def lai_exec_pkg_load_def pkg_elem_def pkg_head_def deref_def
        lai_var_assign_def lai_var_move_var0)
qed

lemma release_pkg:
  assumes "cell hp a = Some (HPkg g)" and "1 < p_rc g"
  shows "lai_var_finalize hp (pkg_var a) = Ok (put_cell hp a (Some (HPkg (g\<lparr>p_rc := p_rc g - 1\<rparr>))))"
  using assms
  by (cases "length (cells hp)")
    (simp_all add: lai_var_finalize_def var_unref_def counted_head_def pkg_var_def deref_def lai_rc_unref_def)

text \<open>One entry of the table.\<close>

definition row_iterator :: "lai_prt_iterator \<Rightarrow> u64 \<times> u64 \<times> u64 \<Rightarrow> lai_prt_iterator" where
  "row_iterator iter row = (case row of (addr, pin, gsi) \<Rightarrow>
     let f = addr AND 0xFFFF in
     iter\<lparr>prt_i := Suc (prt_i iter), prt_slot := int (unat (drop_bit 16 addr AND 0xFFFF)),
       prt_function := (if f = 0xFFFF then -1 else int (unat f)), prt_pin := ucast pin, prt_link := None, prt_resource_idx := 0,
       prt_level_triggered := True, prt_active_low := True, prt_gsi := ucast gsi\<rparr>)"

lemma parse_prt_row:
  assumes "prt_table w (prt iter) rows" and "prt_i iter < length rows"
  shows "lai_pci_parse_prt fuel env w iter = Ok (LAI_ERROR_NONE, row_iterator iter (rows ! prt_i iter), w)"
proof -
  let ?i = "prt_i iter"
  obtain addr pin gsi where row: "rows ! ?i = (addr, pin, gsi)" by (cases "rows ! ?i")
  from assms obtain t entries where t: "prt iter = pkg_var t" "pkg_at w t (map pkg_var entries)"
    "?i < length entries" "pkg_at w (entries ! ?i) (row_items (addr, pin, gsi))"
    unfolding prt_table_def by (metis list_all2_conv_all_nth row)
  let ?a = "entries ! ?i"
  from t(4) obtain g where g: "cell w ?a = Some (HPkg g)" "0 < p_rc g" "p_size g = 4" "p_elems g = row_items (addr, pin, gsi)"
    by (auto simp: pkg_at_def)
  let ?w = "put_cell w ?a (Some (HPkg (g\<lparr>p_rc := p_rc g + 1\<rparr>)))"
  note l = load_pkg [OF t(2,3) g(1,2)]
  have c: "cell ?w ?a = Some (HPkg (g\<lparr>p_rc := p_rc g + 1\<rparr>))" using cell_Some_lt [OF g(1)] by (simp add: cell_put_cell)
  then have p: "pkg_at ?w ?a (row_items (addr, pin, gsi))" using g by (auto simp: pkg_at_def)
  have "pkg_items 4 ?w (pkg_var ?a) 0 = Ok (True, row_items (addr, pin, gsi), ?w)"
    using load_int [OF p, of 0] load_int [OF p, of 1] load_int [OF p, of 2] load_int [OF p, of 3]
    by (simp add: numeral_eq_Suc)
  moreover have "parse_entry fuel env ?w (iter\<lparr>prt_i := Suc ?i\<rparr>) (row_items (addr, pin, gsi)) =
      Ok (LAI_ERROR_NONE, row_iterator iter (addr, pin, gsi), ?w)"
    by (simp add: parse_entry_def row_iterator_def Let_def lai_obj_get_integer_def int_var_def lai_obj_get_type_def)
  moreover have "release (rev (row_items (addr, pin, gsi)) @ [pkg_var ?a]) ?w = Ok w"
    using release_pkg [OF c] g(2) put_cell_back [OF g(1)] by (simp add: finalize_int)
  ultimately show ?thesis by (simp add: lai_pci_parse_prt_def t(1) l Let_def row)
qed

lemma parse_prt_end:
  assumes "prt_table w (prt iter) rows" and "length rows \<le> prt_i iter"
  shows "lai_pci_parse_prt fuel env w iter = Ok (LAI_ERROR_UNEXPECTED_RESULT, iter, w)"
proof -
  from assms obtain t entries where t: "prt iter = pkg_var t" "pkg_at w t (map pkg_var entries)" "length entries \<le> prt_i iter"
    unfolding prt_table_def by (metis list_all2_lengthD)
  from t(2) obtain g where "cell w t = Some (HPkg g)" "p_size g = length entries" by (auto simp: pkg_at_def)
  then show ?thesis using t(3)
    by (simp add: lai_pci_parse_prt_def t(1) lai_obj_get_pkg_def pkg_var_def lai_exec_pkg_size_def pkg_head_def deref_def
        lai_var_finalize_var0)
qed

text \<open>Rows that route the pin of a device, and the resource they give.\<close>

fun row_matches :: "u8 \<Rightarrow> u8 \<Rightarrow> u8 \<Rightarrow> u64 \<times> u64 \<times> u64 \<Rightarrow> bool" where
  "row_matches pslot func pin (addr, p, gsi) \<longleftrightarrow>
     uint (drop_bit 16 addr AND 0xFFFF) = uint pslot \<and>
     (uint (addr AND 0xFFFF) = uint func \<or> addr AND 0xFFFF = 0xFFFF) \<and> ucast p = pin"

definition row_route :: "u64 \<times> u64 \<times> u64 \<Rightarrow> acpi_resource \<Rightarrow> acpi_resource" where
  "row_route row dest = dest\<lparr>ar_type := ACPI_RESOURCE_IRQ, ar_base := ucast (ucast (snd (snd row)) :: u32),
     ar_irq_flags := ACPI_SMALL_IRQ_ACTIVE_LOW\<rparr>"

lemma row_iterator_matches: "entry_matches (row_iterator iter row) pslot func pin \<longleftrightarrow> row_matches pslot func pin row"
proof -
  have "uint x \<noteq> -1" for x :: u64 using uint_nonnegative [of x] by linarith
  then show ?thesis by (cases row) (auto simp: entry_matches_def row_iterator_def Let_def)
qed

lemma row_iterator_route: "route_entry (row_iterator iter row) dest = row_route row dest"
  by (cases row) (simp add: route_entry_def row_iterator_def row_route_def Let_def)

lemma route_loop_from:
  assumes "prt_table w (prt iter) rows" and "prt_i iter \<le> length rows" and "length rows - prt_i iter < rounds"
  shows "route_loop rounds fuel env w iter pslot func pin dest =
    Ok (case find (row_matches pslot func pin) (drop (prt_i iter) rows) of
      Some row \<Rightarrow> (LAI_ERROR_NONE, row_route row dest, w) | None \<Rightarrow> (LAI_ERROR_UNEXPECTED_RESULT, dest, w))"
  using assms
proof (induction rounds arbitrary: iter)
  case (Suc rounds)
  show ?case
  proof (cases "prt_i iter < length rows")
    case True
    let ?j = "row_iterator iter (rows ! prt_i iter)"
    have j: "prt ?j = prt iter" "prt_i ?j = Suc (prt_i iter)" by (cases "rows ! prt_i iter"; simp add: row_iterator_def Let_def)+
    have d: "drop (prt_i iter) rows = rows ! prt_i iter # drop (Suc (prt_i iter)) rows" using True by (simp add: Cons_nth_drop_Suc)
    have IH: "route_loop rounds fuel env w ?j pslot func pin dest =
      Ok (case find (row_matches pslot func pin) (drop (Suc (prt_i iter)) rows) of
        Some row \<Rightarrow> (LAI_ERROR_NONE, row_route row dest, w) | None \<Rightarrow> (LAI_ERROR_UNEXPECTED_RESULT, dest, w))"
      using Suc.IH [of ?j] Suc.prems True j by simp
    show ?thesis
      by (simp add: parse_prt_row [OF Suc.prems(1) True] row_iterator_matches row_iterator_route IH d)
  next
    case False
    then show ?thesis using parse_prt_end [OF Suc.prems(1), of fuel env] by simp
  qed
qed simp

text \<open>
  C27. The routing of a PCI interrupt over a table of direct routes takes the first row for the slot, the
  function or all functions, and the pin: its interrupt, level-triggered and active low.  Without such a
  row the result is the error at the end of the table.  The search ends, and the reference counters of
  the table and its rows are as before.
\<close>

theorem prt_routes_first_match:
  assumes "prt_table w table rows" and "length rows < rounds"
  shows "route_loop rounds fuel env w (prt_iterator table) pslot func pin dest =
    Ok (case find (row_matches pslot func pin) rows of
      Some row \<Rightarrow> (LAI_ERROR_NONE, row_route row dest, w) | None \<Rightarrow> (LAI_ERROR_UNEXPECTED_RESULT, dest, w))"
  using route_loop_from [of w "prt_iterator table" rows rounds] assms by (simp add: prt_iterator_def)

definition prt_world :: "unit lai_world" where
  "prt_world = demo_world\<lparr>cells := [Some (HPkg \<lparr>p_rc = 1, p_size = 2, p_elems = [pkg_var 1, pkg_var 2]\<rparr>),
     Some (HPkg \<lparr>p_rc = 1, p_size = 4, p_elems = row_items (0x1FFFF, 0, 16)\<rparr>),
     Some (HPkg \<lparr>p_rc = 1, p_size = 4, p_elems = row_items (0x2FFFF, 1, 17)\<rparr>)]\<rparr>"

lemma prt_routes_first_match_witness:
  "\<forall>(env :: unit exec_env) dest. route_loop 3 0 env prt_world (prt_iterator (pkg_var 0)) 2 7 1 dest =
     Ok (LAI_ERROR_NONE, dest\<lparr>ar_type := ACPI_RESOURCE_IRQ, ar_base := 17, ar_irq_flags := ACPI_SMALL_IRQ_ACTIVE_LOW\<rparr>, prt_world)"
proof (intro allI)
  fix env :: "unit exec_env" and dest
  have "prt_table prt_world (pkg_var 0) [(0x1FFFF, 0, 16), (0x2FFFF, 1, 17)]"
    unfolding prt_table_def
    by (intro exI [of _ 0] exI [of _ "[1, 2]"]) (simp add: pkg_at_def prt_world_def cell_def)
  from prt_routes_first_match [OF this, of 3 0 env 2 7 1 dest]
  show "route_loop 3 0 env prt_world (prt_iterator (pkg_var 0)) 2 7 1 dest =
     Ok (LAI_ERROR_NONE, dest\<lparr>ar_type := ACPI_RESOURCE_IRQ, ar_base := 17, ar_irq_flags := ACPI_SMALL_IRQ_ACTIVE_LOW\<rparr>, prt_world)"
    by (simp add: row_route_def)
qed

end
