(* ===== verification/Lai_Bios.thy ===== *)
theory Lai_Bios
  imports Lai_Text
begin

text \<open>
  The search for the root table of ACPI on a PC: \<open>lai/helpers/pc-bios.c\<close>.  \<open>mem\<close> is the physical memory as
  \<open>laihost_map\<close> shows it; a mapping that is too short for what is read in it would be the host's fault, so
  reads are total.  Addresses are 64 bits wide.

  The last candidates of a region are read up to 17 bytes behind it.  The theory shows that the search gives
  the first acceptable structure at a 16-byte boundary of the two regions of the specification.
\<close>

type_synonym phys_mem = "u64 \<Rightarrow> u8"

record lai_rsdp_info =
  acpi_version :: int
  rsdp_address :: u64
  rsdt_address :: u64
  xsdt_address :: u64

definition mem_bytes :: "phys_mem \<Rightarrow> u64 \<Rightarrow> nat \<Rightarrow> u8 list" where
  "mem_bytes mem a n = map (\<lambda>i. mem (a + of_nat i)) [0..<n]"

subsection \<open>The structures\<close>

text \<open>\<open>sizeof (acpi_rsdp_t)\<close> and \<open>sizeof (acpi_xsdp_t)\<close>, with their members.\<close>

definition sizeof_rsdp :: nat where "sizeof_rsdp = 20"
definition sizeof_xsdp :: nat where "sizeof_xsdp = 33"

definition le_word :: "u8 list \<Rightarrow> u64" where
  "le_word bs = foldr (\<lambda>b x. ucast b OR push_bit 8 x) bs 0"

definition rsdp_revision :: "phys_mem \<Rightarrow> u64 \<Rightarrow> u8" where "rsdp_revision mem a = mem (a + 15)"
definition rsdp_rsdt :: "phys_mem \<Rightarrow> u64 \<Rightarrow> u64" where "rsdp_rsdt mem a = le_word (mem_bytes mem (a + 16) 4)"
definition xsdp_xsdt :: "phys_mem \<Rightarrow> u64 \<Rightarrow> u64" where "xsdp_xsdt mem a = le_word (mem_bytes mem (a + 24) 8)"

subsection \<open>The search\<close>

fun lai_bios_calc_checksum :: "u8 list \<Rightarrow> u8 \<Rightarrow> u8" where
  "lai_bios_calc_checksum [] acc = acc"
| "lai_bios_calc_checksum (b # bs) acc = lai_bios_calc_checksum bs (acc + b)"

definition rsdp_signature :: "u8 list" where
  "rsdp_signature = bytes_of ''RSD PTR ''"

text \<open>
  One candidate.  The address is stored before the extended checksum is known; when that is wrong, it stays
  in \<open>info\<close> and the search goes on.
\<close>

definition examine_rsdp :: "phys_mem \<Rightarrow> u64 \<Rightarrow> lai_rsdp_info \<Rightarrow> bool \<times> lai_rsdp_info" where
  "examine_rsdp mem a info =
     (if mem_bytes mem a 8 \<noteq> rsdp_signature then (False, info)
      else if lai_bios_calc_checksum (mem_bytes mem a sizeof_rsdp) 0 \<noteq> 0 then (False, info)
      else let info = info\<lparr>rsdp_address := a\<rparr> in
        if rsdp_revision mem a = 0 then
          (True, info\<lparr>acpi_version := 1, rsdt_address := rsdp_rsdt mem a, xsdt_address := 0\<rparr>)
        else if lai_bios_calc_checksum (mem_bytes mem a sizeof_xsdp) 0 \<noteq> 0 then (False, info)
        else (True, info\<lparr>acpi_version := 2, rsdt_address := 0, xsdt_address := xsdp_xsdt mem a\<rparr>))"

function rsdp_loop :: "phys_mem \<Rightarrow> u64 \<Rightarrow> nat \<Rightarrow> nat \<Rightarrow> lai_rsdp_info \<Rightarrow> bool \<times> lai_rsdp_info" where
  "rsdp_loop mem base len off info =
     (if off < len then
        let (found, info) = examine_rsdp mem (base + of_nat off) info in
        if found then (True, info) else rsdp_loop mem base len (off + 16) info
      else (False, info))"
  by pat_completeness auto
termination by (relation "measure (\<lambda>(_, _, len, off, _). len - off)") auto

declare rsdp_loop.simps [simp del]

definition lai_bios_detect_rsdp_within :: "phys_mem \<Rightarrow> u64 \<Rightarrow> nat \<Rightarrow> lai_rsdp_info \<Rightarrow> lai_api_error \<times> lai_rsdp_info" where
  "lai_bios_detect_rsdp_within mem base len info =
     (let (found, info) = rsdp_loop mem base len 0 info in
      (if found then LAI_ERROR_NONE else LAI_ERROR_END_REACHED, info))"

text \<open>\<open>has_map\<close>: the host has \<open>laihost_map\<close> and \<open>laihost_unmap\<close>.\<close>

definition lai_bios_detect_rsdp :: "bool \<Rightarrow> phys_mem \<Rightarrow> lai_rsdp_info \<Rightarrow> (lai_api_error \<times> lai_rsdp_info) outcome" where
  "lai_bios_detect_rsdp has_map mem info =
     ensure has_map (
     let bda_data = ucast (mem 0x40E) OR push_bit 8 (ucast (mem 0x40F)) :: u16;
         ebda_base = push_bit 4 (ucast bda_data) :: u64;
         (e, info) = lai_bios_detect_rsdp_within mem ebda_base 0x400 info in
     if e = LAI_ERROR_NONE then Ok (LAI_ERROR_NONE, info)
     else ensure (e = LAI_ERROR_END_REACHED) (
       let (e, info) = lai_bios_detect_rsdp_within mem 0xE0000 0x20000 info in
       if e = LAI_ERROR_NONE then Ok (LAI_ERROR_NONE, info)
       else ensure (e = LAI_ERROR_END_REACHED) (Ok (LAI_ERROR_END_REACHED, info))))"

subsection \<open>Facts\<close>

text \<open>What a root pointer has to be, as the specification says it, and what is reported of it.\<close>

definition valid_rsdp :: "phys_mem \<Rightarrow> u64 \<Rightarrow> bool" where
  "valid_rsdp mem a \<longleftrightarrow> mem_bytes mem a 8 = rsdp_signature \<and> sum_list (mem_bytes mem a 20) = 0 \<and>
     (mem (a + 15) = 0 \<or> sum_list (mem_bytes mem a 33) = 0)"

definition rsdp_info :: "phys_mem \<Rightarrow> u64 \<Rightarrow> lai_rsdp_info" where
  "rsdp_info mem a =
     (if mem (a + 15) = 0 then \<lparr>acpi_version = 1, rsdp_address = a, rsdt_address = rsdp_rsdt mem a, xsdt_address = 0\<rparr>
      else \<lparr>acpi_version = 2, rsdp_address = a, rsdt_address = 0, xsdt_address = xsdp_xsdt mem a\<rparr>)"

lemma checksum_sum: "lai_bios_calc_checksum bs acc = acc + sum_list bs"
  by (induction bs arbitrary: acc) (simp_all add: add.assoc)

lemma examine_valid:
  "fst (examine_rsdp mem a info) = valid_rsdp mem a"
  "valid_rsdp mem a \<Longrightarrow> examine_rsdp mem a info = (True, rsdp_info mem a)"
  by (auto simp: examine_rsdp_def valid_rsdp_def rsdp_info_def checksum_sum sizeof_rsdp_def sizeof_xsdp_def
      rsdp_revision_def Let_def)

definition search_result :: "phys_mem \<Rightarrow> u64 \<Rightarrow> nat option \<Rightarrow> bool \<times> lai_rsdp_info \<Rightarrow> bool" where
  "search_result mem base found r \<longleftrightarrow> (case found of
     Some i \<Rightarrow> r = (True, rsdp_info mem (base + of_nat (16 * i))) | None \<Rightarrow> \<not> fst r)"

lemma rsdp_loop_find:
  "search_result mem base (find (\<lambda>i. valid_rsdp mem (base + of_nat (16 * i))) [k..<(len + 15) div 16])
     (rsdp_loop mem base len (16 * k) info)"
proof (induction "(len + 15) div 16 - k" arbitrary: k info)
  case 0
  then have "(len + 15) div 16 \<le> k" by simp
  then have "\<not> 16 * k < len" by linarith
  then show ?case using \<open>(len + 15) div 16 \<le> k\<close> by (simp add: rsdp_loop.simps search_result_def)
next
  case (Suc n)
  then have k: "k < (len + 15) div 16" by simp
  then have lt: "16 * k < len" by linarith
  let ?a = "base + of_nat (16 * k)"
  obtain found info' where e: "examine_rsdp mem ?a info = (found, info')" by (cases "examine_rsdp mem ?a info")
  then have f: "found = valid_rsdp mem ?a" using examine_valid(1) [of mem ?a info] by simp
  have l: "rsdp_loop mem base len (16 * k) info = (if found then (True, info') else rsdp_loop mem base len (16 * Suc k) info')"
    using lt by (simp only: rsdp_loop.simps [of mem base len "16 * k"] e Let_def) (simp add: add.commute)
  show ?case
  proof (cases found)
    case True
    then have "info' = rsdp_info mem ?a" using e f examine_valid(2) [of mem ?a info] by simp
    then show ?thesis using True f l k by (simp add: search_result_def upt_conv_Cons)
  next
    case False
    then show ?thesis using Suc.hyps(1) [of "Suc k" info'] Suc.hyps(2) f l k by (simp add: upt_conv_Cons)
  qed
qed

text \<open>
  The search for the root pointer tries the 16-byte boundaries of the region in ascending order and
  reports the first structure with the signature whose bytes add up to 0 (20 bytes, and 33 of a structure
  with a revision), or the end of the region if there is none.  It ends on every memory.
\<close>

theorem rsdp_search_first:
  "case find (\<lambda>i. valid_rsdp mem (base + of_nat (16 * i))) [0..<(len + 15) div 16] of
     Some i \<Rightarrow> lai_bios_detect_rsdp_within mem base len info = (LAI_ERROR_NONE, rsdp_info mem (base + of_nat (16 * i)))
   | None \<Rightarrow> fst (lai_bios_detect_rsdp_within mem base len info) = LAI_ERROR_END_REACHED"
  using rsdp_loop_find [of mem base 0 len info]
  by (auto simp: lai_bios_detect_rsdp_within_def search_result_def split: option.splits prod.splits)

end
