(* ===== verification/Krn_Libc.thy ===== *)
theory Krn_Libc
  imports Lai_Text "HOL-Library.Sublist"
begin

text \<open>
  The C library of the kernel: \<open>base/libc\<close> without the formatter.  As in \<open>Lai_Text\<close> a pointer to characters
  is the list of bytes from it to the end of its object.

  These functions are not those of the C standard: \<open>memcmp\<close> and \<open>strcmp\<close> return a truth value,
  \<open>strcmp\<close> compares as far as its second argument goes, \<open>strncmp\<close> is its negation, \<open>strcpy\<close> and
  \<open>strdup\<close> leave out the terminator.  The theory shows what they compute, that \<open>itoa\<close> writes the numeral of
  its argument, and that \<open>atoi\<close> reads it back.
\<close>

subsection \<open>Memory\<close>

text \<open>\<open>num\<close> is an \<open>int\<close>; a negative one counts down until it wraps around.\<close>

fun memcpy_loop :: "u8 list \<Rightarrow> u8 list \<Rightarrow> nat \<Rightarrow> nat \<Rightarrow> u8 list outcome" where
  "memcpy_loop dst src out 0 = Ok dst"
| "memcpy_loop dst src out (Suc a) =
     bnd (rd src out) (\<lambda>c. bnd (wr dst out c) (\<lambda>dst. memcpy_loop dst src (Suc out) a))"

definition k_memcpy :: "u8 list \<Rightarrow> u8 list \<Rightarrow> int \<Rightarrow> (u8 list \<times> int) outcome" where
  "k_memcpy dst src num = guard (0 \<le> num) (bnd (memcpy_loop dst src 0 (nat num)) (\<lambda>dst. Ok (dst, num)))"

fun memset_loop :: "u8 list \<Rightarrow> u8 \<Rightarrow> nat \<Rightarrow> nat \<Rightarrow> u8 list outcome" where
  "memset_loop dst v i 0 = Ok dst"
| "memset_loop dst v i (Suc n) = bnd (wr dst i v) (\<lambda>dst. memset_loop dst v (Suc i) n)"

definition k_memset :: "u8 list \<Rightarrow> u8 \<Rightarrow> int \<Rightarrow> u8 list outcome" where
  "k_memset dst v n = memset_loop dst v 0 (nat n)"

fun memcmp_loop :: "u8 list \<Rightarrow> u8 list \<Rightarrow> nat \<Rightarrow> nat \<Rightarrow> bool outcome" where
  "memcmp_loop data1 data2 i 0 = Ok False"
| "memcmp_loop data1 data2 i (Suc n) =
     bnd (rd data1 i) (\<lambda>a. bnd (rd data2 i) (\<lambda>b.
     if a \<noteq> b then Ok True else memcmp_loop data1 data2 (Suc i) n))"

definition k_memcmp :: "u8 list \<Rightarrow> u8 list \<Rightarrow> int \<Rightarrow> bool outcome" where
  "k_memcmp data1 data2 n = memcmp_loop data1 data2 0 (nat n)"

definition k_memcmpn :: "u8 list \<Rightarrow> u8 list \<Rightarrow> int \<Rightarrow> bool outcome" where
  "k_memcmpn data1 data2 n = bnd (k_memcmp data1 data2 n) (\<lambda>b. Ok (\<not> b))"

subsection \<open>Strings\<close>

fun k_strlen :: "u8 list \<Rightarrow> nat outcome" where
  "k_strlen [] = Fault"
| "k_strlen (c # txt) = (if c \<noteq> 0 then bnd (k_strlen txt) (\<lambda>len. Ok (Suc len)) else Ok 0)"

text \<open>The bound of the loop is computed again in every round; \<open>n\<close> is what is left of it.\<close>

fun strcmp_loop :: "u8 list \<Rightarrow> u8 list \<Rightarrow> nat \<Rightarrow> nat \<Rightarrow> bool outcome" where
  "strcmp_loop dst src i 0 = Ok False"
| "strcmp_loop dst src i (Suc n) =
     bnd (rd src i) (\<lambda>a. bnd (rd dst i) (\<lambda>b. if a \<noteq> b then Ok True else strcmp_loop dst src (Suc i) n))"

definition k_strcmp :: "u8 list \<Rightarrow> u8 list \<Rightarrow> bool outcome" where
  "k_strcmp dst src = bnd (k_strlen src) (strcmp_loop dst src 0)"

definition k_strncmp :: "u8 list \<Rightarrow> u8 list \<Rightarrow> bool outcome" where
  "k_strncmp dst src = bnd (k_strcmp dst src) (\<lambda>b. Ok (\<not> b))"

definition k_strcpy :: "u8 list \<Rightarrow> u8 list \<Rightarrow> (u8 list \<times> nat) outcome" where
  "k_strcpy dst src =
     bnd (k_strlen src) (\<lambda>a. bnd (memcpy_loop dst src 0 a) (\<lambda>dst. Ok (dst, a)))"

text \<open>The new object, for an allocation that succeeds: \<open>strlen (str)\<close> bytes, zeroed and overwritten.\<close>

definition k_strdup :: "u8 list \<Rightarrow> u8 list outcome" where
  "k_strdup str = bnd (k_strlen str) (\<lambda>n.
     bnd (k_memset (replicate n 0) 0 (int n)) (\<lambda>buf.
     bnd (k_memcpy buf str (int n)) (\<lambda>(buf, _). Ok buf)))"

fun strtok_loop :: "u8 list \<Rightarrow> u8 \<Rightarrow> nat \<Rightarrow> nat \<Rightarrow> nat outcome" where
  "strtok_loop str tok i 0 = Ok 0"
| "strtok_loop str tok i (Suc n) =
     bnd (rd str i) (\<lambda>c. if c = tok then Ok i else strtok_loop str tok (Suc i) n)"

definition k_strtok :: "u8 list \<Rightarrow> u8 \<Rightarrow> nat outcome" where
  "k_strtok str tok = bnd (k_strlen str) (strtok_loop str tok 0)"

subsection \<open>Numbers\<close>

definition k_isspace :: "u8 \<Rightarrow> bool" where
  "k_isspace c \<longleftrightarrow> c = 32 \<or> c = 9 \<or> c = 10 \<or> c = 11 \<or> c = 12 \<or> c = 13"

fun skip_spaces :: "u8 list \<Rightarrow> u8 list outcome" where
  "skip_spaces [] = Fault"
| "skip_spaces (c # s) = (if k_isspace c then skip_spaces s else Ok (c # s))"

text \<open>
  A value of type \<open>int\<close>, and the conversion to it.  \<open>10 * result\<close> is computed with \<open>int\<close>s and must not
  overflow; the sum with the unsigned digit wraps around.
\<close>

definition in_int :: "int \<Rightarrow> bool" where
  "in_int x \<longleftrightarrow> -(2 ^ 31) \<le> x \<and> x < 2 ^ 31"

definition to_int :: "int \<Rightarrow> int" where
  "to_int x = sint (word_of_int x :: u32)"

fun atoi_digits :: "u8 list \<Rightarrow> int \<Rightarrow> int outcome" where
  "atoi_digits [] result = Fault"
| "atoi_digits (c # s) result =
     (let digit = unat (ucast c - 48 :: u32) in
      if 9 < digit then Ok result
      else guard (in_int (10 * result)) (atoi_digits s (to_int (10 * result + int digit))))"

definition k_atoi :: "u8 list \<Rightarrow> int outcome" where
  "k_atoi string =
     bnd (skip_spaces string) (\<lambda>s. bnd (rd s 0) (\<lambda>c.
     let sgn = (c = 45); s = (if c = 45 \<or> c = 43 then tl s else s) in
     bnd (atoi_digits s 0) (\<lambda>result. if sgn then guard (in_int (- result)) (Ok (- result)) else Ok result)))"

definition itoa_char :: "u32 \<Rightarrow> u8" where
  "itoa_char tmp = ucast (if tmp < 10 then tmp + 48 else tmp + 97 - 10)"

text \<open>The digits from the lowest on; \<open>base\<close> is converted to \<open>unsigned long\<close>, which is 32 bits wide.\<close>

function itoa_digits :: "u8 list \<Rightarrow> nat \<Rightarrow> u32 \<Rightarrow> u32 \<Rightarrow> (u8 list \<times> nat) outcome" where
  "itoa_digits buf i n base =
     guard (base \<noteq> 0) (bnd (wr buf i (itoa_char (n mod base))) (\<lambda>buf.
     if n div base \<noteq> 0 then itoa_digits buf (Suc i) (n div base) base else Ok (buf, Suc i)))"
  by pat_completeness auto
termination
  by (relation "measure (\<lambda>(buf, i, _). length buf - i)") (auto simp: wr_eq_Ok)

declare itoa_digits.simps [simp del]

function swap_ends :: "u8 list \<Rightarrow> nat \<Rightarrow> nat \<Rightarrow> u8 list outcome" where
  "swap_ends buf j i =
     (if j < i then bnd (rd buf j) (\<lambda>a. bnd (rd buf i) (\<lambda>b. bnd (wr buf j b) (\<lambda>buf. bnd (wr buf i a) (\<lambda>buf.
        swap_ends buf (Suc j) (i - 1)))))
      else Ok buf)"
  by pat_completeness auto
termination
  by (relation "measure (\<lambda>(_, j, i). i - j)") auto

declare swap_ends.simps [simp del]

definition k_itoa :: "u8 list \<Rightarrow> u32 \<Rightarrow> u32 \<Rightarrow> u8 list outcome" where
  "k_itoa buf n base =
     bnd (itoa_digits buf 0 n base) (\<lambda>(buf, i). bnd (wr buf i 0) (\<lambda>buf. swap_ends buf 0 (i - 1)))"

subsection \<open>What the loops compute\<close>

lemma memcpy_loop_spec:
  assumes "out + n \<le> length dst" and "out + n \<le> length src"
  shows "memcpy_loop dst src out n = Ok (take out dst @ take n (drop out src) @ drop (out + n) dst)"
  using assms
proof (induction n arbitrary: dst out)
  case (Suc n)
  then have "src ! out # take n (drop (Suc out) src) = take (Suc n) (drop out src)"
    by (metis Cons_nth_drop_Suc Suc_le_lessD add_Suc_right le_add1 order.strict_trans1 take_Suc_Cons)
  then show ?case using Suc
    by (simp add: take_Suc_conv_app_nth [of out] upd_conv_take_nth_drop add.commute)
qed simp

lemma memset_loop_spec:
  assumes "i + n \<le> length dst"
  shows "memset_loop dst v i n = Ok (take i dst @ replicate n v @ drop (i + n) dst)"
  using assms
proof (induction n arbitrary: dst i)
  case (Suc n)
  then show ?case by (simp add: take_Suc_conv_app_nth [of i] upd_conv_take_nth_drop add.commute)
qed simp

lemma k_strlen_spec: "k_strlen s = (if terminated s then Ok (length (c_str s)) else Fault)"
  by (induction s) auto

lemma c_str_no_zero: "0 \<notin> set (c_str s)"
  by (induction s) auto

lemma nth_c_str: "i < length (c_str s) \<Longrightarrow> s ! i = c_str s ! i"
  by (simp add: c_str_def takeWhile_nth)

lemma nth_c_str_length: "terminated s \<Longrightarrow> s ! length (c_str s) = 0"
  by (induction s) auto

lemma strcmp_loop_spec:
  assumes "terminated dst" "terminated src" and "i + n = length (c_str src)" and "i \<le> length (c_str dst)"
  shows "strcmp_loop dst src i n = Ok (\<not> prefix (drop i (c_str src)) (drop i (c_str dst)))"
  using assms
proof (induction n arbitrary: i)
  case (Suc n)
  have i: "i < length (c_str src)" "i < length src" "i < length dst"
    using Suc.prems(3,4) c_str_length [OF Suc.prems(2)] c_str_length [OF Suc.prems(1)] by linarith+
  have src: "drop i (c_str src) = src ! i # drop (Suc i) (c_str src)"
    using i(1) Cons_nth_drop_Suc [of i "c_str src"] nth_c_str [of i src] by simp
  have nz: "src ! i \<noteq> 0"
    using nth_mem [OF i(1)] c_str_no_zero [of src] nth_c_str [OF i(1)] by auto
  show ?case
  proof (cases "i < length (c_str dst)")
    case True
    then have "drop i (c_str dst) = dst ! i # drop (Suc i) (c_str dst)"
      using Cons_nth_drop_Suc [of i "c_str dst"] nth_c_str [of i dst] by simp
    then show ?thesis using Suc.IH [of "Suc i"] Suc.prems i(2,3) src True by (simp add: Cons_prefix_Cons)
  next
    case False
    then have "dst ! i = 0" "drop i (c_str dst) = []"
      using Suc.prems(4) nth_c_str_length [OF Suc.prems(1)] by auto
    then show ?thesis using i src nz by simp
  qed
qed simp

lemma k_strcmp_spec:
  assumes "terminated dst" and "terminated src"
  shows "k_strcmp dst src = Ok (\<not> prefix (c_str src) (c_str dst))"
  using assms strcmp_loop_spec [of dst src 0 "length (c_str src)"]
  by (simp add: k_strcmp_def k_strlen_spec)

lemma k_strncmp_spec:
  assumes "terminated dst" and "terminated src"
  shows "k_strncmp dst src = Ok (prefix (c_str src) (c_str dst))"
  using assms by (simp add: k_strncmp_def k_strcmp_spec)

text \<open>The copy of \<open>strdup\<close> has no terminator: its length is read behind its end.\<close>

lemma k_strdup_spec: "terminated s \<Longrightarrow> k_strdup s = Ok (c_str s)"
  by (simp add: k_strdup_def k_strlen_spec k_memset_def k_memcpy_def memset_loop_spec memcpy_loop_spec
      c_str_take c_str_length less_imp_le)

lemma k_strdup_unterminated:
  assumes "k_strdup s = Ok t"
  shows "k_strlen t = Fault"
proof -
  have "terminated s" using assms by (auto simp: k_strdup_def k_strlen_spec split: if_splits)
  then have "t = c_str s" using assms by (simp add: k_strdup_spec)
  then show ?thesis by (simp add: k_strlen_spec terminated_def c_str_no_zero)
qed

subsection \<open>Numerals\<close>

text \<open>The digits of a number, the highest first, and their value.\<close>

function digits_in :: "nat \<Rightarrow> nat \<Rightarrow> nat list" where
  "digits_in b n = (if b < 2 \<or> n < b then [n] else digits_in b (n div b) @ [n mod b])"
  by pat_completeness auto
termination
  by (relation "measure snd") (auto intro: div_less_dividend)

declare digits_in.simps [simp del]

definition digits_value :: "nat \<Rightarrow> nat list \<Rightarrow> nat" where
  "digits_value b ds = foldl (\<lambda>a d. b * a + d) 0 ds"

abbreviation numeral_of :: "nat \<Rightarrow> nat \<Rightarrow> u8 list" where
  "numeral_of b n \<equiv> map (\<lambda>d. itoa_char (of_nat d)) (digits_in b n)"

lemma digits_in_nonempty [simp]: "digits_in b n \<noteq> []"
  by (subst digits_in.simps) simp

lemma digits_in_small: "d \<in> set (digits_in b n) \<Longrightarrow> 1 < b \<Longrightarrow> d < b"
proof (induction b n rule: digits_in.induct)
  case (1 b n)
  then show ?case by (subst (asm) digits_in.simps [of b n]) (auto split: if_splits)
qed

lemma digits_value_of: "1 < b \<Longrightarrow> digits_value b (digits_in b n) = n"
proof (induction b n rule: digits_in.induct)
  case (1 b n)
  then show ?case by (subst digits_in.simps [of b n]) (auto simp: digits_value_def)
qed

lemma itoa_digits_spec:
  assumes "1 < unat base" and "i + length (digits_in (unat base) (unat n)) \<le> length buf"
  shows "itoa_digits buf i n base =
    Ok (take i buf @ rev (numeral_of (unat base) (unat n)) @ drop (i + length (digits_in (unat base) (unat n))) buf,
        i + length (digits_in (unat base) (unat n)))"
  using assms
proof (induction buf i n base rule: itoa_digits.induct)
  case (1 buf i n base)
  let ?b = "unat base" and ?n = "unat n"
  have nz: "base \<noteq> 0" using "1.prems"(1) by auto
  have i: "i < length buf"
  proof -
    have "0 < length (digits_in ?b ?n)" by simp
    then show ?thesis using "1.prems"(2) by linarith
  qed
  have dv: "n div base \<noteq> 0 \<longleftrightarrow> ?b \<le> ?n"
    using nz by (simp add: unat_eq_0 [symmetric] unat_div div_eq_0_iff not_less del: unat_eq_0)
  have small: "digits_in ?b ?n = [?n]" "n mod base = n" if "\<not> ?b \<le> ?n"
    using that by (simp_all add: digits_in.simps [of ?b ?n] word_arith_nat_mod)
  have big: "digits_in ?b ?n = digits_in ?b (?n div ?b) @ [?n mod ?b]" if "?b \<le> ?n"
    using that "1.prems"(1) by (subst digits_in.simps) simp
  show ?case
  proof (cases "?b \<le> ?n")
    case True
    let ?ds = "digits_in ?b (?n div ?b)" and ?c = "itoa_char (n mod base)"
    have len: "length (digits_in ?b ?n) = Suc (length ?ds)" using big [OF True] by simp
    have "itoa_digits (buf[i := ?c]) (Suc i) (n div base) base =
      Ok (take (Suc i) (buf[i := ?c]) @ rev (numeral_of ?b (?n div ?b)) @ drop (Suc i + length ?ds) (buf[i := ?c]),
          Suc i + length ?ds)"
      using "1.IH" [OF nz] i True dv "1.prems" len by (simp add: unat_div)
    moreover have "take (Suc i) (buf[i := ?c]) = take i buf @ [?c]"
      using i by (simp add: take_Suc_conv_app_nth)
    moreover have "of_nat (?n mod ?b) = n mod base" by (simp add: word_arith_nat_mod)
    ultimately show ?thesis
      using i nz True dv len by (subst itoa_digits.simps) (simp add: big [OF True])
  next
    case False
    then show ?thesis
      using i nz dv small
      by (subst itoa_digits.simps) (simp add: upd_conv_take_nth_drop)
  qed
qed

lemma swap_ends_rev:
  assumes "j = length pre" and "Suc i = length pre + length xs \<or> xs = [] \<and> i \<le> j"
  shows "swap_ends (pre @ xs @ post) j i = Ok (pre @ rev xs @ post)"
  using assms
proof (induction "length xs" arbitrary: xs pre post i j rule: less_induct)
  case less
  show ?case
  proof (cases "length xs < 2")
    case True
    then have "rev xs = xs" "\<not> j < i" using less.prems by (cases xs; auto simp: length_Suc_conv less_Suc_eq)+
    then show ?thesis by (simp add: swap_ends.simps)
  next
    case False
    then obtain a ys b where xs: "xs = a # ys @ [b]"
      by (metis (no_types) append_butlast_last_id length_Cons length_butlast less_Suc_eq list.size(3) list.exhaust
          lessI numeral_2_eq_2 One_nat_def)
    have i: "i = Suc (j + length ys)" "j < i" using less.prems xs by auto
    have "swap_ends ((pre @ [b]) @ ys @ (a # post)) (Suc j) (i - 1) = Ok ((pre @ [b]) @ rev ys @ (a # post))"
      using less.hyps [of ys "Suc j" "pre @ [b]" "i - 1" "a # post"] less.prems xs i by auto
    moreover have "(pre @ xs @ post)[j := b, i := a] = (pre @ [b]) @ ys @ (a # post)"
      using less.prems(1) i xs by (simp add: list_update_append)
    moreover have "(pre @ xs @ post) ! j = a" "(pre @ xs @ post) ! i = b"
      using less.prems(1) i xs by (simp_all add: nth_append)
    ultimately show ?thesis
      using i less.prems(1) xs by (subst swap_ends.simps) simp
  qed
qed

lemma k_itoa_spec:
  assumes "1 < unat base" and "length (digits_in (unat base) (unat n)) < length buf"
  shows "k_itoa buf n base = Ok (numeral_of (unat base) (unat n) @ 0 #
    drop (Suc (length (digits_in (unat base) (unat n)))) buf)"
proof -
  let ?ds = "digits_in (unat base) (unat n)" and ?c = "numeral_of (unat base) (unat n)"
  have "itoa_digits buf 0 n base = Ok (rev ?c @ drop (length ?ds) buf, length ?ds)"
    using itoa_digits_spec [of base 0 n buf] assms by simp
  moreover have "(rev ?c @ drop (length ?ds) buf)[length ?ds := 0] = rev ?c @ 0 # drop (Suc (length ?ds)) buf"
    using assms(2) by (simp add: list_update_append Cons_nth_drop_Suc [symmetric] del: Cons_nth_drop_Suc)
  moreover have "swap_ends (rev ?c @ 0 # drop (Suc (length ?ds)) buf) 0 (length ?ds - 1) =
      Ok (?c @ 0 # drop (Suc (length ?ds)) buf)"
    using swap_ends_rev [of 0 "[]" "length ?ds - 1" "rev ?c" "0 # drop (Suc (length ?ds)) buf"] by simp
  ultimately show ?thesis using assms(2) by (simp add: k_itoa_def)
qed

lemma digits_in_length: "n < b ^ k \<Longrightarrow> 1 < b \<Longrightarrow> 0 < k \<Longrightarrow> length (digits_in b n) \<le> k"
proof (induction k arbitrary: n)
  case (Suc k)
  show ?case
  proof (cases "n < b")
    case True
    then show ?thesis by (subst digits_in.simps) simp
  next
    case False
    then have k: "0 < k" using Suc.prems(1) by (cases k) auto
    have "n div b < b ^ k" using Suc.prems by (simp add: less_mult_imp_div_less mult.commute)
    with Suc.IH [OF this] k Suc.prems(2) have "length (digits_in b (n div b)) \<le> k" by simp
    then show ?thesis using False Suc.prems(2) by (subst digits_in.simps) simp
  qed
qed simp

lemma decimal_cases:
  fixes d :: nat
  assumes "d < 10"
  shows "d = 0 \<or> d = 1 \<or> d = 2 \<or> d = 3 \<or> d = 4 \<or> d = 5 \<or> d = 6 \<or> d = 7 \<or> d = 8 \<or> d = 9"
  using assms by presburger

lemma decimal_char_value: "d < 10 \<Longrightarrow> unat (ucast (itoa_char (of_nat d)) - 48 :: u32) = d"
  by (drule decimal_cases, elim disjE) (simp_all add: itoa_char_def)

lemma foldl_digits_ge: "a * b ^ length ds \<le> foldl (\<lambda>a d. b * a + d) a ds" for a b :: nat
proof (induction ds arbitrary: a)
  case (Cons d ds)
  have "a * b ^ Suc (length ds) \<le> (b * a + d) * b ^ length ds" by (simp add: algebra_simps)
  then show ?case using Cons [of "b * a + d"] by (simp only: foldl_Cons list.size(4) One_nat_def add_Suc_right add_0_right)
qed simp

lemma to_int_id: "in_int x \<Longrightarrow> to_int x = x"
  by (simp add: in_int_def to_int_def signed_of_int signed_take_bit_int_eq_self)

lemma atoi_digits_spec:
  assumes "\<forall>d \<in> set ds. d < 10" and "foldl (\<lambda>a d. 10 * a + d) acc ds < 2 ^ 31" and "9 < unat (ucast c - 48 :: u32)"
  shows "atoi_digits (map (\<lambda>d. itoa_char (of_nat d)) ds @ c # rest) (int acc) =
    Ok (int (foldl (\<lambda>a d. 10 * a + d) acc ds))"
  using assms(1,2)
proof (induction ds arbitrary: acc)
  case Nil
  then show ?case using assms(3) by simp
next
  case (Cons d ds)
  have "(10 * acc + d) * 10 ^ length ds < 2 ^ 31"
    using foldl_digits_ge [of "10 * acc + d" 10 ds] Cons.prems(2) by simp
  moreover have "(10 * acc + d) * 1 \<le> (10 * acc + d) * 10 ^ length ds" by (intro mult_le_mono) simp_all
  ultimately have s: "10 * acc + d < 2 ^ 31" by (simp only: mult_1_right le_less_trans)
  then have ints: "in_int (10 * int acc)" "to_int (10 * int acc + int d) = int (10 * acc + d)"
    using to_int_id [of "int (10 * acc + d)"] by (auto simp: in_int_def)
  show ?case
    using Cons.prems Cons.IH [of "10 * acc + d"] ints
    by (simp add: decimal_char_value Let_def del: of_nat_add of_nat_mult)
qed

lemma decimal_not_special:
  "d < 10 \<Longrightarrow> \<not> k_isspace (itoa_char (of_nat d)) \<and> itoa_char (of_nat d) \<noteq> 45 \<and> itoa_char (of_nat d) \<noteq> 43"
  by (drule decimal_cases, elim disjE) (simp_all add: itoa_char_def k_isspace_def)

lemma atoi_numeral:
  assumes "n < 2 ^ 31" and "9 < unat (ucast c - 48 :: u32)"
  shows "k_atoi (numeral_of 10 n @ c # rest) = Ok (int n)"
proof -
  obtain d ds where ds: "digits_in 10 n = d # ds" by (cases "digits_in 10 n") simp_all
  have small: "\<forall>d \<in> set (digits_in 10 n). d < 10" using digits_in_small [of _ 10 n] by auto
  have v: "foldl (\<lambda>a d. 10 * a + d) 0 (digits_in 10 n) = n"
    using digits_value_of [of 10 n] by (simp add: digits_value_def)
  have d: "\<not> k_isspace (itoa_char (of_nat d))" "itoa_char (of_nat d) \<noteq> 45" "itoa_char (of_nat d) \<noteq> 43"
    using decimal_not_special [of d] small ds by auto
  have "atoi_digits (numeral_of 10 n @ c # rest) (int 0) = Ok (int n)"
    using atoi_digits_spec [OF small, of 0 c rest] v assms by simp
  then show ?thesis using d ds by (simp add: k_atoi_def)
qed

subsection \<open>Properties\<close>

text \<open>
  C28. Numbers survive printing: \<open>itoa\<close> of a 32-bit number in base 10 ends, stays inside a buffer of 11
  bytes, writes the decimal numeral, the highest digit first and without leading zeros, and a terminator;
  \<open>atoi\<close> of the result is the number again if it is below \<open>2^31\<close>.
\<close>

theorem itoa_atoi:
  assumes "11 \<le> length buf"
  shows "\<exists>s. k_itoa buf n 10 = Ok s \<and> length s = length buf \<and> c_str s = numeral_of 10 (unat n) \<and>
    digits_value 10 (digits_in 10 (unat n)) = unat n \<and> (unat n < 2 ^ 31 \<longrightarrow> k_atoi s = Ok (uint n))"
proof -
  have l: "length (digits_in 10 (unat n)) \<le> 10"
    using digits_in_length [of "unat n" 10 10] unsigned_less [of n, where 'a = nat] by simp
  have nz: "0 \<notin> set (numeral_of 10 (unat n))"
  proof
    assume "0 \<in> set (numeral_of 10 (unat n))"
    then obtain d where d: "d \<in> set (digits_in 10 (unat n))" "itoa_char (of_nat d) = 0" by (auto simp: eq_commute [of 0])
    then have d: "d < 10" "itoa_char (of_nat d) = 0" using digits_in_small by simp_all
    then have "9 < unat (ucast (itoa_char (of_nat d)) - 48 :: u32)" by simp
    then show False using decimal_char_value [OF d(1)] d(1) by simp
  qed
  have "k_itoa buf n 10 = Ok (numeral_of 10 (unat n) @ 0 # drop (Suc (length (digits_in 10 (unat n)))) buf)"
    using k_itoa_spec [of 10 n buf] l assms by simp
  then show ?thesis
    using l assms nz atoi_numeral [of "unat n" 0] digits_value_of [of 10 "unat n"] by simp
qed

lemma itoa_atoi_witness:
  "\<exists>s. k_itoa (replicate 12 7) 4096 10 = Ok s \<and> c_str s = bytes_of ''4096'' \<and> k_atoi s = Ok 4096"
proof -
  have "numeral_of 10 4096 = bytes_of ''4096''"
    by (simp add: digits_in.simps itoa_char_def)
  then show ?thesis using itoa_atoi [of "replicate 12 7" 4096] by auto
qed

text \<open>
  \<open>strcmp\<close> of the kernel tells whether its second string is not a prefix of the first, and \<open>strncmp\<close>
  whether it is; neither reads behind a terminator.
\<close>

lemma strcmp_is_prefix_test:
  assumes "terminated dst" and "terminated src"
  shows "k_strcmp dst src = Ok (\<not> prefix (c_str src) (c_str dst)) \<and> k_strncmp dst src = Ok (prefix (c_str src) (c_str dst))"
  using k_strcmp_spec [OF assms] k_strncmp_spec [OF assms] by simp

end
