(* ===== verification/Krn_Printf.thy ===== *)
theory Krn_Printf
  imports Krn_Libc
begin

text \<open>
  The formatter of the kernel, \<open>base/libc/printf.cpp\<close>.  Its output goes to the screen, character by character,
  or to a string; a \<open>sink\<close> is either.  The string is not terminated.

  The theory shows that formats without widths print what their conversions mean, and what a width prints:
  the padded number and then whatever an earlier, longer number has left behind it in the buffer.
\<close>

subsection \<open>Output\<close>

datatype sink = Screen "u8 list" | Memory "u8 list" nat

fun emit :: "sink \<Rightarrow> u8 \<Rightarrow> sink outcome" where
  "emit (Screen out) c = Ok (Screen (out @ [c]))"
| "emit (Memory str pos) c = bnd (wr str pos c) (\<lambda>str. Ok (Memory str (pos + 1)))"

fun emit_str :: "sink \<Rightarrow> u8 list \<Rightarrow> sink outcome" where
  "emit_str (Screen out) t = bnd (k_strlen t) (\<lambda>n. Ok (Screen (out @ take n t)))"
| "emit_str (Memory str pos) t =
     bnd (k_strcpy (drop pos str) t) (\<lambda>(d, n). Ok (Memory (take pos str @ d) (pos + n)))"

subsection \<open>Conversions\<close>

definition is_format_letter :: "u8 \<Rightarrow> bool" where
  "is_format_letter c \<longleftrightarrow> c \<in> set (bytes_of ''cdieEfgGosuxXpn'')"

text \<open>
  The variables of \<open>vsprintf_helper\<close> that outlive a conversion.  \<open>size\<close> and \<open>size_override\<close> are never set
  back, so that the width of one conversion holds for all that follow.
\<close>

record fmt_state =
  fs_buf :: "u8 list"
  fs_size :: u32
  fs_override :: bool

definition fmt_init :: fmt_state where
  "fmt_init = \<lparr>fs_buf = replicate 512 0, fs_size = 8, fs_override = False\<rparr>"

text \<open>The characters between \<open>%0\<close> and the letter; \<open>width_str\<close> has room for ten, and is not read behind them.\<close>

fun scan_width :: "u8 list \<Rightarrow> u8 list \<Rightarrow> nat \<Rightarrow> (u8 \<times> u8 list \<times> u8 list \<times> nat) outcome" where
  "scan_width [] width_str i = Fault"
| "scan_width (c # format) width_str i =
     (if is_format_letter c then Ok (c, format, width_str, i)
      else bnd (wr width_str i c) (\<lambda>width_str. scan_width format width_str (Suc i)))"

fun shift_loop :: "u8 list \<Rightarrow> nat \<Rightarrow> nat \<Rightarrow> nat \<Rightarrow> nat \<Rightarrow> u8 list outcome" where
  "shift_loop buf sz len i 0 = Ok buf"
| "shift_loop buf sz len i (Suc n) =
     bnd (rd buf (len - 1 - i)) (\<lambda>c. bnd (wr buf (sz - 1 - i) c) (\<lambda>buf. shift_loop buf sz len (Suc i) n))"

definition pad_number :: "u8 list \<Rightarrow> nat \<Rightarrow> nat \<Rightarrow> u8 list outcome" where
  "pad_number buf sz len = bnd (shift_loop buf sz len 0 len) (\<lambda>buf. memset_loop buf 48 0 (sz - len))"

text \<open>The letter is not looked at again behind a width: any letter prints a number there.\<close>

definition fmt_number :: "u8 \<Rightarrow> u32 \<Rightarrow> fmt_state \<Rightarrow> sink \<Rightarrow> (fmt_state \<times> sink) outcome" where
  "fmt_number c ival st sink =
     (let sys = (if c = 100 \<or> c = 117 then 10 else 16);
          sgn = (c = 100 \<and> sint ival < 0) in
      guard (sgn \<longrightarrow> in_int (- sint ival)) (
      bnd (k_itoa (fs_buf st) (if sgn then - ival else ival) sys) (\<lambda>buf.
      bnd (k_strlen buf) (\<lambda>len.
      let sz = (if fs_override st then fs_size st else of_nat len) in
      bnd (if (c = 120 \<or> c = 112 \<or> c = 100) \<and> len < unat sz then pad_number buf (unat sz) len else Ok buf) (\<lambda>buf.
      bnd (if sgn then emit sink 45 else Ok sink) (\<lambda>sink.
      bnd (emit_str sink buf) (\<lambda>sink.
      Ok (st\<lparr>fs_buf := buf, fs_size := sz\<rparr>, sink))))))))"

fun va_arg_int :: "va_arg list \<Rightarrow> (u32 \<times> va_arg list) outcome" where
  "va_arg_int (VInt w # arg) = Ok (w, arg)"
| "va_arg_int arg = Fault"

fun va_arg_str :: "va_arg list \<Rightarrow> (u8 list \<times> va_arg list) outcome" where
  "va_arg_str (VStr s # arg) = Ok (s, arg)"
| "va_arg_str arg = Fault"

text \<open>What stands behind a percent sign.\<close>

definition fmt_conversion :: "u8 list \<Rightarrow> va_arg list \<Rightarrow> fmt_state \<Rightarrow> sink \<Rightarrow>
    (u8 list \<times> va_arg list \<times> fmt_state \<times> sink) outcome" where
  "fmt_conversion format arg st sink =
     bnd (rd format 0) (\<lambda>c.
     let format = tl format in
     if c = 48 then
       bnd (scan_width format (replicate 10 0) 0) (\<lambda>(c, format, width_str, i).
       bnd (wr width_str i 0) (\<lambda>width_str.
       bnd (k_atoi width_str) (\<lambda>sz.
       bnd (va_arg_int arg) (\<lambda>(ival, arg).
       bnd (fmt_number c ival (st\<lparr>fs_override := True, fs_size := word_of_int sz\<rparr>) sink) (\<lambda>(st, sink).
       Ok (format, arg, st, sink))))))
     else if c = 100 \<or> c = 117 \<or> c = 120 \<or> c = 112 then
       bnd (va_arg_int arg) (\<lambda>(ival, arg).
       bnd (fmt_number c ival st sink) (\<lambda>(st, sink).
       Ok (format, arg, st, sink)))
     else if c = 99 then
       bnd (va_arg_int arg) (\<lambda>(v, arg). bnd (emit sink (ucast v)) (\<lambda>sink. Ok (format, arg, st, sink)))
     else if c = 115 then
       bnd (va_arg_str arg) (\<lambda>(t, arg). bnd (emit_str sink t) (\<lambda>sink. Ok (format, arg, st, sink)))
     else Ok (format, arg, st, sink))"

lemma scan_width_length: "scan_width format ws i = Ok (c, f, ws', j) \<Longrightarrow> length f < length format"
  by (induction format ws i rule: scan_width.induct) (fastforce simp: bnd_eq_Ok split: if_splits)+

lemma fmt_conversion_length:
  "fmt_conversion format arg st sink = Ok (f, arg', st', sink') \<Longrightarrow> length f < length format"
  by (cases format)
    (auto simp: fmt_conversion_def Let_def bnd_eq_Ok rd_def split: if_splits dest!: scan_width_length)

function vsprintf_helper :: "u8 list \<Rightarrow> va_arg list \<Rightarrow> fmt_state \<Rightarrow> sink \<Rightarrow> sink outcome" where
  "vsprintf_helper [] arg st sink = Fault"
| "vsprintf_helper (c # format) arg st sink =
     (if c = 0 then Ok sink
      else if c = 37 then
        bnd (fmt_conversion format arg st sink) (\<lambda>(f, arg, st, sink). vsprintf_helper f arg st sink)
      else bnd (emit sink c) (\<lambda>sink. vsprintf_helper format arg st sink))"
  by pat_completeness auto
termination
  by (relation "measure (\<lambda>(format, _). length format)") (auto dest: fmt_conversion_length)

definition k_vsprintf :: "sink \<Rightarrow> u8 list \<Rightarrow> va_arg list \<Rightarrow> sink outcome" where
  "k_vsprintf sink format arg = vsprintf_helper format arg fmt_init sink"

text \<open>The bytes \<open>printf\<close> hands to \<open>putc\<close>.\<close>

definition k_printf :: "u8 list \<Rightarrow> va_arg list \<Rightarrow> u8 list outcome" where
  "k_printf s arg = bnd (k_vsprintf (Screen []) s arg) (\<lambda>sink. case sink of Screen out \<Rightarrow> Ok out | Memory _ _ \<Rightarrow> Fault)"

subsection \<open>Text at the end of the output\<close>

fun sink_append :: "sink \<Rightarrow> u8 list \<Rightarrow> sink outcome" where
  "sink_append (Screen out) bs = Ok (Screen (out @ bs))"
| "sink_append (Memory str pos) bs =
     (if pos + length bs \<le> length str
      then Ok (Memory (take pos str @ bs @ drop (pos + length bs) str) (pos + length bs)) else Fault)"

lemma sink_append_Nil: "sink_append sink [] = Ok sink' \<Longrightarrow> sink' = sink"
  by (cases sink) (auto split: if_splits)

lemma sink_append_split:
  assumes "sink_append sink (a @ b) = Ok sink''"
  obtains sink' where "sink_append sink a = Ok sink'" and "sink_append sink' b = Ok sink''"
proof (cases sink)
  case (Screen out)
  then show ?thesis using assms that by auto
next
  case (Memory str pos)
  then have "pos + length a + length b \<le> length str" using assms by (auto split: if_splits)
  then show ?thesis using assms Memory that by (auto simp: ac_simps)
qed

lemma emit_append: "sink_append sink [c] = Ok sink' \<Longrightarrow> emit sink c = Ok sink'"
  by (cases sink) (auto simp: upd_conv_take_nth_drop split: if_splits)

lemma emit_str_append:
  assumes "sink_append sink (c_str t) = Ok sink'" and "terminated t"
  shows "emit_str sink t = Ok sink'"
proof (cases sink)
  case (Screen out)
  then show ?thesis using assms by (auto simp: k_strlen_spec c_str_take)
next
  case (Memory str pos)
  then have l: "pos + length (c_str t) \<le> length str" using assms by (auto split: if_splits)
  have "memcpy_loop (drop pos str) t 0 (length (c_str t)) =
      Ok (take 0 (drop pos str) @ take (length (c_str t)) (drop 0 t) @ drop (0 + length (c_str t)) (drop pos str))"
    using l c_str_length [OF assms(2)] by (intro memcpy_loop_spec) simp_all
  then show ?thesis
    using assms Memory l by (auto simp: k_strcpy_def k_strlen_spec c_str_take add.commute)
qed

subsection \<open>Numbers\<close>

lemma itoa_char_nonzero: "d < 16 \<Longrightarrow> itoa_char (of_nat d) \<noteq> 0"
proof -
  assume "d < 16"
  then have "d < 10 \<or> d = 10 \<or> d = 11 \<or> d = 12 \<or> d = 13 \<or> d = 14 \<or> d = 15" by presburger
  then show ?thesis
  proof (elim disjE)
    assume "d < 10"
    then have "d = 0 \<or> d = 1 \<or> d = 2 \<or> d = 3 \<or> d = 4 \<or> d = 5 \<or> d = 6 \<or> d = 7 \<or> d = 8 \<or> d = 9"
      by (rule decimal_cases)
    then show ?thesis by (elim disjE) (simp_all add: itoa_char_def)
  qed (simp_all add: itoa_char_def)
qed

lemma numeral_no_zero: "1 < b \<Longrightarrow> b \<le> 16 \<Longrightarrow> 0 \<notin> set (numeral_of b n)"
  using digits_in_small [of _ b n] itoa_char_nonzero by (force simp: eq_commute [of 0])

lemma numeral_length: "1 < b \<Longrightarrow> length (digits_in b (unat (n :: u32))) \<le> 32"
proof -
  assume b: "1 < b"
  have "(2 :: nat) ^ 32 \<le> b ^ 32" using b by (intro power_mono) simp_all
  then have "unat n < b ^ 32" using unsigned_less [of n, where 'a = nat] by simp
  then show ?thesis using digits_in_length [of "unat n" b 32] b by simp
qed

lemma itoa_in_buffer:
  assumes "1 < unat base" and "unat base \<le> 16" and "length buf = 512"
  shows "\<exists>buf'. k_itoa buf n base = Ok buf' \<and> length buf' = 512 \<and> terminated buf' \<and> c_str buf' = numeral_of (unat base) (unat n) \<and>
    (\<forall>k > length (digits_in (unat base) (unat n)). drop k buf' = drop k buf)"
proof -
  let ?ds = "digits_in (unat base) (unat n)" and ?t = "numeral_of (unat base) (unat n)"
  have l: "length ?ds \<le> 32" using numeral_length assms(1) .
  have "k_itoa buf n base = Ok (?t @ 0 # drop (Suc (length ?ds)) buf)"
    using l assms by (intro k_itoa_spec) simp_all
  then show ?thesis
    using l assms numeral_no_zero [of "unat base" "unat n"] by (auto simp: drop_Cons' drop_append)
qed

text \<open>The text of a number without a width.\<close>

definition number_text :: "u8 \<Rightarrow> u32 \<Rightarrow> u8 list" where
  "number_text c v = (if c = 100 \<and> sint v < 0 then 45 # numeral_of 10 (nat (- sint v))
     else numeral_of (if c = 100 \<or> c = 117 then 10 else 16) (unat v))"

lemma number_text_simps:
  "number_text 100 v = (if sint v < 0 then 45 # numeral_of 10 (nat (- sint v)) else numeral_of 10 (unat v))"
  "number_text 117 v = numeral_of 10 (unat v)"
  "number_text 120 v = numeral_of 16 (unat v)"
  "number_text 112 v = numeral_of 16 (unat v)"
  by (simp_all add: number_text_def)

lemma unat_minus_sint: "sint v < 0 \<Longrightarrow> unat (- v) = nat (- sint v)" for v :: u32
proof -
  assume neg: "sint v < 0"
  have r: "- (2 ^ 31) \<le> sint v" using sint_range_size [of v] by (simp add: word_size)
  have "- v = word_of_int (- sint v)" by simp
  then have "uint (- v) = uint (word_of_int (- sint v) :: u32)" by (simp only:)
  also have "\<dots> = take_bit 32 (- sint v)" by (simp only: unsigned_of_int) simp
  finally have "uint (- v) = take_bit 32 (- sint v)" .
  then show ?thesis using neg r by (simp add: take_bit_int_eq_self nat_uint_eq [symmetric] del: nat_uint_eq)
qed

lemma fmt_number_plain:
  assumes "length (fs_buf st) = 512" and "\<not> fs_override st" and "c = 100 \<longrightarrow> sint v \<noteq> -(2 ^ 31)"
    and "sink_append sink (number_text c v) = Ok sink'"
  shows "\<exists>st'. fmt_number c v st sink = Ok (st', sink') \<and> length (fs_buf st') = 512 \<and> \<not> fs_override st'"
proof -
  let ?neg = "c = 100 \<and> sint v < 0" and ?sys = "if c = 100 \<or> c = 117 then 10 else 16 :: u32"
  let ?u = "if ?neg then - v else v"
  have sys: "1 < unat ?sys" "unat ?sys \<le> 16" by simp_all
  obtain buf where buf: "k_itoa (fs_buf st) ?u ?sys = Ok buf" "length buf = 512" "terminated buf"
    "c_str buf = numeral_of (unat ?sys) (unat ?u)"
    using itoa_in_buffer [OF sys assms(1), of ?u] by blast
  have len: "k_strlen buf = Ok (length (c_str buf))" "length (c_str buf) < 512"
    using buf c_str_length [OF buf(3)] by (simp_all add: k_strlen_spec)
  have ok: "in_int (- sint v)" if "?neg"
    using that assms(3) sint_range_size [of v] by (auto simp: in_int_def word_size)
  have num: "number_text c v = (if ?neg then [45] else []) @ c_str buf"
    using unat_minus_sint [of v] by (auto simp: number_text_def buf(4))
  obtain sink1 where s1: "sink_append sink (if ?neg then [45] else []) = Ok sink1" "sink_append sink1 (c_str buf) = Ok sink'"
    using assms(4) unfolding num by (rule sink_append_split)
  have "(if ?neg then emit sink 45 else Ok sink) = Ok sink1"
    using s1(1) emit_append [of sink 45 sink1] sink_append_Nil [of sink sink1] by (auto split: if_splits)
  moreover have "emit_str sink1 buf = Ok sink'" using emit_str_append s1(2) buf(3) .
  moreover have "unat (of_nat (length (c_str buf)) :: u32) = length (c_str buf)"
    using len(2) by (simp add: unat_of_nat)
  ultimately show ?thesis
    using assms(2) buf len ok by (auto simp: fmt_number_def Let_def guard_def)
qed

subsection \<open>Formats without widths\<close>

datatype piece = Literal "u8 list" | Signed u32 | Unsigned u32 | Hex u32 | Pointer u32 | Char u32 | String "u8 list"

fun piece_format :: "piece \<Rightarrow> u8 list" where
  "piece_format (Literal bs) = bs"
| "piece_format (Signed v) = bytes_of ''%d''"
| "piece_format (Unsigned v) = bytes_of ''%u''"
| "piece_format (Hex v) = bytes_of ''%x''"
| "piece_format (Pointer v) = bytes_of ''%p''"
| "piece_format (Char v) = bytes_of ''%c''"
| "piece_format (String t) = bytes_of ''%s''"

fun piece_args :: "piece \<Rightarrow> va_arg list" where
  "piece_args (Literal bs) = []"
| "piece_args (Signed v) = [VInt v]"
| "piece_args (Unsigned v) = [VInt v]"
| "piece_args (Hex v) = [VInt v]"
| "piece_args (Pointer v) = [VInt v]"
| "piece_args (Char v) = [VInt v]"
| "piece_args (String t) = [VStr t]"

fun piece_text :: "piece \<Rightarrow> u8 list" where
  "piece_text (Literal bs) = bs"
| "piece_text (Signed v) =
     (if sint v < 0 then 45 # numeral_of 10 (nat (- sint v)) else numeral_of 10 (unat v))"
| "piece_text (Unsigned v) = numeral_of 10 (unat v)"
| "piece_text (Hex v) = numeral_of 16 (unat v)"
| "piece_text (Pointer v) = numeral_of 16 (unat v)"
| "piece_text (Char v) = [ucast v]"
| "piece_text (String t) = c_str t"

fun piece_ok :: "piece \<Rightarrow> bool" where
  "piece_ok (Literal bs) \<longleftrightarrow> 0 \<notin> set bs \<and> 37 \<notin> set bs"
| "piece_ok (Signed v) \<longleftrightarrow> sint v \<noteq> -(2 ^ 31)"
| "piece_ok (String t) \<longleftrightarrow> terminated t"
| "piece_ok _ \<longleftrightarrow> True"

lemma literal_printed:
  assumes "0 \<notin> set bs" and "37 \<notin> set bs" and "sink_append sink bs = Ok sink'"
  shows "vsprintf_helper (bs @ format) arg st sink = vsprintf_helper format arg st sink'"
  using assms
proof (induction bs arbitrary: sink)
  case Nil
  then show ?case using sink_append_Nil [of sink sink'] by simp
next
  case (Cons b bs)
  obtain sink1 where "sink_append sink [b] = Ok sink1" "sink_append sink1 bs = Ok sink'"
    using sink_append_split [of sink "[b]" bs sink'] Cons.prems(3) by auto
  then show ?case using Cons emit_append [of sink b sink1] by auto
qed

lemma number_piece:
  assumes "length (fs_buf st) = 512" "\<not> fs_override st" "c = 100 \<longrightarrow> sint v \<noteq> -(2 ^ 31)"
    "sink_append sink (number_text c v) = Ok sink'" "c = 100 \<or> c = 117 \<or> c = 120 \<or> c = 112"
  shows "\<exists>st'. vsprintf_helper (37 # c # format) (VInt v # arg) st sink = vsprintf_helper format arg st' sink' \<and>
    length (fs_buf st') = 512 \<and> \<not> fs_override st'"
  using fmt_number_plain [OF assms(1-4)] assms(5) by (auto simp: fmt_conversion_def)

lemma piece_printed:
  assumes "piece_ok p" "length (fs_buf st) = 512" "\<not> fs_override st" "sink_append sink (piece_text p) = Ok sink'"
  shows "\<exists>st'. vsprintf_helper (piece_format p @ format) (piece_args p @ arg) st sink = vsprintf_helper format arg st' sink' \<and>
    length (fs_buf st') = 512 \<and> \<not> fs_override st'"
proof (cases p)
  case (Literal bs)
  then show ?thesis using assms literal_printed [of bs sink sink' format arg st] by auto
next
  case (Signed v)
  then show ?thesis using assms number_piece [of st 100 v sink sink' format arg] by (simp add: number_text_simps)
next
  case (Unsigned v)
  then show ?thesis using assms number_piece [of st 117 v sink sink' format arg] by (simp add: number_text_simps)
next
  case (Hex v)
  then show ?thesis using assms number_piece [of st 120 v sink sink' format arg] by (simp add: number_text_simps)
next
  case (Pointer v)
  then show ?thesis using assms number_piece [of st 112 v sink sink' format arg] by (simp add: number_text_simps)
next
  case (Char v)
  then show ?thesis using assms emit_append [of sink "ucast v" sink'] by (auto simp: fmt_conversion_def)
next
  case (String t)
  then show ?thesis using assms emit_str_append [of sink t sink'] by (auto simp: fmt_conversion_def)
qed

lemma pieces_printed:
  assumes "\<forall>p \<in> set ps. piece_ok p" "length (fs_buf st) = 512" "\<not> fs_override st"
    "sink_append sink (concat (map piece_text ps)) = Ok sink'"
  shows "vsprintf_helper (concat (map piece_format ps) @ [0]) (concat (map piece_args ps) @ arg) st sink = Ok sink'"
  using assms
proof (induction ps arbitrary: st sink)
  case Nil
  then show ?case using sink_append_Nil [of sink sink'] by simp
next
  case (Cons p ps)
  obtain sink1 where s1: "sink_append sink (piece_text p) = Ok sink1"
    "sink_append sink1 (concat (map piece_text ps)) = Ok sink'"
    using sink_append_split [of sink "piece_text p" "concat (map piece_text ps)" sink'] Cons.prems(4) by auto
  obtain st' where "vsprintf_helper (piece_format p @ concat (map piece_format ps) @ [0])
      (piece_args p @ concat (map piece_args ps) @ arg) st sink =
    vsprintf_helper (concat (map piece_format ps) @ [0]) (concat (map piece_args ps) @ arg) st' sink1"
    "length (fs_buf st') = 512" "\<not> fs_override st'"
    using piece_printed [of p st sink sink1] Cons.prems(1-3) s1(1) by fastforce
  then show ?case using Cons.IH [of st' sink1] Cons.prems(1) s1(2) by simp
qed

subsection \<open>Widths\<close>

lemma shift_loop_spec:
  assumes "i + n = len" and "len < sz" and "sz \<le> length buf"
  shows "\<exists>buf'. shift_loop buf sz len i n = Ok buf' \<and> length buf' = length buf \<and>
    (\<forall>k < length buf. buf' ! k = (if sz - len \<le> k \<and> k < sz - i then buf ! (k - (sz - len)) else buf ! k))"
  using assms
proof (induction n arbitrary: i buf)
  case (Suc n)
  let ?b = "buf[sz - 1 - i := buf ! (len - 1 - i)]"
  obtain buf' where b: "shift_loop ?b sz len (Suc i) n = Ok buf'" "length buf' = length buf"
    "\<forall>k < length buf. buf' ! k = (if sz - len \<le> k \<and> k < sz - Suc i then ?b ! (k - (sz - len)) else ?b ! k)"
    using Suc.IH [of "Suc i" ?b] Suc.prems by auto
  have "buf' ! k = (if sz - len \<le> k \<and> k < sz - i then buf ! (k - (sz - len)) else buf ! k)" if "k < length buf" for k
  proof (cases "k = sz - 1 - i")
    case True
    then have "k - (sz - len) = len - 1 - i" using Suc.prems by linarith
    then show ?thesis using True that b(3) Suc.prems by auto
  next
    case False
    have "k - (sz - len) \<noteq> sz - 1 - i" if "k < sz - Suc i" using that Suc.prems by linarith
    then show ?thesis using False that b(3) Suc.prems by auto
  qed
  then show ?case using Suc.prems b by simp
qed auto

lemma pad_number_spec:
  assumes "len < sz" and "sz \<le> length buf"
  shows "pad_number buf sz len = Ok (replicate (sz - len) 48 @ take len buf @ drop sz buf)"
proof -
  obtain buf' where b: "shift_loop buf sz len 0 len = Ok buf'" "length buf' = length buf"
    "\<forall>k < length buf. buf' ! k = (if sz - len \<le> k \<and> k < sz then buf ! (k - (sz - len)) else buf ! k)"
    using shift_loop_spec [of 0 len len sz buf] assms by auto
  have "drop (sz - len) buf' = take len buf @ drop sz buf"
  proof (rule nth_equalityI)
    fix k assume "k < length (drop (sz - len) buf')"
    then have k: "sz - len + k < length buf" using b(2) by simp
    show "drop (sz - len) buf' ! k = (take len buf @ drop sz buf) ! k"
    proof (cases "k < len")
      case True
      then have "sz - len + k < sz" "sz - len \<le> sz - len + k" "sz - len + k - (sz - len) = k" using assms by linarith+
      then have "buf' ! (sz - len + k) = buf ! k" using b(3) k by metis
      then show ?thesis using True k b(2) assms by (simp add: nth_append)
    next
      case False
      then have e: "sz - len + k = sz + (k - len)" using assms by linarith
      then have "buf' ! (sz + (k - len)) = buf ! (sz + (k - len))" using b(3) k by simp
      then show ?thesis using False k b(2) assms e by (simp add: nth_append del: add_diff_assoc add_diff_assoc2)
    qed
  qed (use b(2) assms in simp)
  then show ?thesis
    using b(1,2) assms memset_loop_spec [of 0 "sz - len" buf' 48] by (simp add: pad_number_def)
qed

lemma unat_of_small: "n \<le> 512 \<Longrightarrow> unat (of_nat n :: u32) = n"
  by (simp add: unat_of_nat)

lemma numeral_of_nonneg:
  assumes "n < 2 ^ 31"
  shows "\<not> sint (of_nat n :: u32) < 0" and "unat (of_nat n :: u32) = n"
proof -
  show u: "unat (of_nat n :: u32) = n" using assms by (simp add: unat_of_nat take_bit_nat_eq_self)
  have "to_int (int n) = int n" using assms by (intro to_int_id) (simp add: in_int_def)
  then show "\<not> sint (of_nat n :: u32) < 0" by (simp add: to_int_def)
qed

lemma fmt_number_signed:
  assumes "n < 2 ^ 31" and "length (fs_buf st) = 512" and "fs_override st \<longrightarrow> length (digits_in 10 n) < unat (fs_size st) \<and> unat (fs_size st) \<le> 512"
  shows "fmt_number 100 (of_nat n) st (Screen out) =
    (let len = length (digits_in 10 n); sz = (if fs_override st then fs_size st else of_nat len);
       buf = numeral_of 10 n @ 0 # drop (Suc len) (fs_buf st);
       padded = (if fs_override st then replicate (unat sz - len) 48 @ numeral_of 10 n @ drop (unat sz) (fs_buf st) else buf) in
     bnd (emit_str (Screen out) padded) (\<lambda>sink. Ok (st\<lparr>fs_buf := padded, fs_size := sz\<rparr>, sink)))"
proof -
  let ?len = "length (digits_in 10 n)" and ?v = "of_nat n :: u32"
  note v = numeral_of_nonneg [OF assms(1)]
  have len: "?len \<le> 32" using numeral_length [of 10 ?v] v(2) by simp
  have itoa: "k_itoa (fs_buf st) ?v 10 = Ok (numeral_of 10 n @ 0 # drop (Suc ?len) (fs_buf st))"
    using k_itoa_spec [of 10 ?v "fs_buf st"] len assms(2) v(2) by simp
  have c: "c_str (numeral_of 10 n @ 0 # drop (Suc ?len) (fs_buf st)) = numeral_of 10 n"
    by (intro c_str_append0 numeral_no_zero) simp_all
  have slen: "k_strlen (numeral_of 10 n @ 0 # drop (Suc ?len) (fs_buf st)) = Ok ?len"
    using c by (simp add: k_strlen_spec)
  show ?thesis
  proof (cases "fs_override st")
    case True
    then have sz: "?len < unat (fs_size st)" "unat (fs_size st) \<le> 512" using assms(3) by auto
    have "pad_number (numeral_of 10 n @ 0 # drop (Suc ?len) (fs_buf st)) (unat (fs_size st)) ?len =
      Ok (replicate (unat (fs_size st) - ?len) 48 @ numeral_of 10 n @ drop (unat (fs_size st)) (fs_buf st))"
      using sz assms(2) len by (subst pad_number_spec) (auto simp: drop_Cons' drop_append)
    then show ?thesis using True v itoa slen sz by (simp add: fmt_number_def Let_def)
  next
    case False
    then show ?thesis using v itoa slen len unat_of_small [of ?len] by (simp add: fmt_number_def Let_def)
  qed
qed

subsection \<open>Properties\<close>

text \<open>
  C29. A format made of literal text and of the conversions \<open>%d\<close>, \<open>%u\<close>, \<open>%x\<close>, \<open>%p\<close>, \<open>%c\<close>, \<open>%s\<close> prints
  the text of each piece in order: numbers in decimal or hexadecimal, with a sign if negative.  In a string
  nothing but the bytes of that text is written, so that it gets no terminator.
\<close>

theorem printf_renders:
  assumes "\<forall>p \<in> set ps. piece_ok p"
  shows "k_printf (concat (map piece_format ps) @ [0]) (concat (map piece_args ps)) = Ok (concat (map piece_text ps)) \<and>
    (length (concat (map piece_text ps)) \<le> length str \<longrightarrow>
      k_vsprintf (Memory str 0) (concat (map piece_format ps) @ [0]) (concat (map piece_args ps)) =
        Ok (Memory (concat (map piece_text ps) @ drop (length (concat (map piece_text ps))) str)
          (length (concat (map piece_text ps)))))"
  using pieces_printed [OF assms, of fmt_init "Screen []" _ "[]"] pieces_printed [OF assms, of fmt_init "Memory str 0" _ "[]"]
  by (simp add: k_printf_def k_vsprintf_def fmt_init_def)

lemma printf_renders_witness:
  "k_printf (bytes_of ''%d. %s EIP: 0x%x'' @ [0]) [VInt (- 1), VStr (bytes_of ''th1'' @ [0]), VInt 0xC0DE] =
     Ok (bytes_of ''-1. th1 EIP: 0xc0de'')"
proof -
  let ?ps = "[Signed (- 1), Literal (bytes_of ''. ''), String (bytes_of ''th1'' @ [0]), Literal (bytes_of '' EIP: 0x''), Hex 0xC0DE]"
  have "concat (map piece_text ?ps) = bytes_of ''-1. th1 EIP: 0xc0de''"
    by (simp add: digits_in.simps itoa_char_def)
  then show ?thesis using printf_renders [of ?ps "[]"] by simp
qed

text \<open>
  A width does not only pad: \<open>"%d%0<w>d"\<close> prints the first number, then the second one padded with
  zeros to \<open>w\<close> digits, and then the digits of the first from the \<open>w\<close>-th on, which are still in the buffer.
\<close>

theorem printf_width_shows_old_digits:
  assumes "a < 2 ^ 31" and "b < 2 ^ 31" and "w < 10" and "length (digits_in 10 b) < w"
  shows "k_printf (bytes_of ''%d%0'' @ itoa_char (of_nat w) # bytes_of ''d'' @ [0]) [VInt (of_nat a), VInt (of_nat b)] =
    Ok (numeral_of 10 a @ replicate (w - length (digits_in 10 b)) 48 @ numeral_of 10 b @ drop w (numeral_of 10 a))"
proof -
  let ?la = "length (digits_in 10 a)" and ?lb = "length (digits_in 10 b)"
  let ?buf = "numeral_of 10 a @ 0 # drop (Suc ?la) (replicate 512 0)"
  let ?out = "replicate (w - ?lb) 48 @ numeral_of 10 b @ drop w ?buf"
  have la: "?la \<le> 32" using numeral_length [of 10 "of_nat a"] numeral_of_nonneg [OF assms(1)] by simp
  have nz: "0 \<notin> set (numeral_of 10 a)" "0 \<notin> set (numeral_of 10 b)" by (intro numeral_no_zero; simp)+
  have buf: "terminated ?buf" "c_str ?buf = numeral_of 10 a" using nz by simp_all
  obtain m where "512 - w - (?la - w) = Suc m" using la assms(3) by (cases "512 - w - (?la - w)") auto
  then have "drop w ?buf = drop w (numeral_of 10 a) @ 0 # replicate m 0"
    using la assms(3) by (cases "w \<le> ?la") (auto simp: drop_Cons' replicate_append_same simp flip: replicate_Suc)
  then have out: "?out = (replicate (w - ?lb) 48 @ numeral_of 10 b @ drop w (numeral_of 10 a)) @ 0 # replicate m 0" by simp
  have "0 \<notin> set (replicate (w - ?lb) 48 @ numeral_of 10 b @ drop w (numeral_of 10 a))"
    using nz by (auto dest: in_set_dropD)
  then have out: "terminated ?out" "c_str ?out = replicate (w - ?lb) 48 @ numeral_of 10 b @ drop w (numeral_of 10 a)"
    unfolding out by - (rule terminated_append0, erule c_str_append0)
  have emits: "emit_str (Screen t) u = Ok (Screen (t @ c_str u))" if "terminated u" for t u
    using that by (simp add: k_strlen_spec c_str_take)
  let ?st = "fmt_init\<lparr>fs_buf := ?buf, fs_size := of_nat ?la\<rparr>"
  have n1: "fmt_number 100 (of_nat a) fmt_init (Screen []) = Ok (?st, Screen (numeral_of 10 a))"
    using fmt_number_signed [OF assms(1), of fmt_init "[]"] emits [OF buf(1), of "[]"] buf(2)
    by (simp add: fmt_init_def Let_def del: emit_str.simps)
  have w: "unat (word_of_int (int w) :: u32) = w" using assms(3) unat_of_small [of w] by simp
  obtain st2 where n2: "fmt_number 100 (of_nat b) (?st\<lparr>fs_override := True, fs_size := word_of_int (int w)\<rparr>) (Screen (numeral_of 10 a)) =
    Ok (st2, Screen (numeral_of 10 a @ c_str ?out))"
    using fmt_number_signed [OF assms(2), of "?st\<lparr>fs_override := True, fs_size := word_of_int (int w)\<rparr>" "numeral_of 10 a"]
      emits [OF out(1), of "numeral_of 10 a"] w assms(3,4) la by (simp add: Let_def del: emit_str.simps)
  have letter: "\<not> is_format_letter (itoa_char (of_nat w))" "is_format_letter 100" "itoa_char (of_nat w) \<noteq> 0"
    using decimal_cases [OF assms(3)] by (elim disjE; simp add: is_format_letter_def itoa_char_def)+
  have "numeral_of 10 w = [itoa_char (of_nat w)]" using assms(3) by (simp add: digits_in.simps)
  moreover have ten: "replicate 10 (0 :: u8) = 0 # 0 # replicate 8 0" by (simp add: numeral_eq_Suc)
  ultimately have width: "k_atoi (itoa_char (of_nat w) # 0 # replicate 8 0) = Ok (int w)"
    using atoi_numeral [of w 0 "replicate 8 0"] assms(3) by simp
  then have "fmt_conversion (48 # itoa_char (of_nat w) # 100 # [0]) [VInt (of_nat b)] ?st (Screen (numeral_of 10 a)) =
    Ok ([0], [], st2, Screen (numeral_of 10 a @ c_str ?out))"
    using n2 letter ten by (simp add: fmt_conversion_def)
  then have "vsprintf_helper (37 # 48 # itoa_char (of_nat w) # 100 # [0]) [VInt (of_nat b)] ?st (Screen (numeral_of 10 a)) =
    Ok (Screen (numeral_of 10 a @ c_str ?out))"
    by simp
  moreover have "fmt_conversion (100 # 37 # 48 # itoa_char (of_nat w) # 100 # [0]) [VInt (of_nat a), VInt (of_nat b)] fmt_init (Screen []) =
    Ok (37 # 48 # itoa_char (of_nat w) # 100 # [0], [VInt (of_nat b)], ?st, Screen (numeral_of 10 a))"
    using n1 by (simp add: fmt_conversion_def)
  ultimately show ?thesis
    using out(2) by (simp add: k_printf_def k_vsprintf_def)
qed

lemma printf_width_shows_old_digits_witness:
  "k_printf (bytes_of ''%d%04d'' @ [0]) [VInt 123456789, VInt 7] = Ok (bytes_of ''123456789000756789'')"
proof -
  have "numeral_of 10 123456789 = bytes_of ''123456789''" "numeral_of 10 7 = bytes_of ''7''" "itoa_char 4 = 52"
    "length (digits_in 10 7) = 1"
    by (simp_all add: digits_in.simps itoa_char_def)
  moreover have "replicate 3 (48 :: u8) = [48, 48, 48]" by (simp add: numeral_eq_Suc)
  ultimately show ?thesis
    using printf_width_shows_old_digits [of 123456789 7 4] by simp
qed

end
