(* ===== verification/Krn_Sched.thy ===== *)
theory Krn_Sched
  imports Lai_Text
begin

text \<open>
  The scheduler of the kernel, \<open>base/core/scheduler.cpp\<close>, with \<open>sched.hpp\<close> and the register frame of
  \<open>idt.hpp\<close>.  A task is a cell of \<open>tasks\<close>, \<open>None\<close> once it is freed; a pointer is an index or \<open>None\<close>.  What
  \<open>new\<close> gives is a parameter where it shows: the address of a stack and the registers of a task that
  \<open>create_task\<close> does not set.  \<open>wiped\<close> records the ranges of memory that are overwritten with zeros.

  The theory shows that the tasks take turns, that a task gets its registers back unchanged after a
  full round, and what happens to tasks that are killed.
\<close>

subsection \<open>State\<close>

record registers =
  r_ds :: u32
  r_edi :: u32
  r_esi :: u32
  r_ebp :: u32
  r_esp :: u32
  r_ebx :: u32
  r_edx :: u32
  r_ecx :: u32
  r_eax :: u32
  r_int_no :: u32
  r_err_code :: u32
  r_eip :: u32
  r_cs :: u32
  r_eflags :: u32
  r_useresp :: u32
  r_ss :: u32

datatype TASK_STATE = TASK_CREATED | TASK_RUNNING | TASK_PENDING | TASK_KILLED

record task_struct =
  t_pid :: int
  t_name :: "u8 list"
  t_regs :: registers
  t_stack :: u32
  t_entry :: u32
  t_next :: "nat option"
  t_state :: TASK_STATE

record sched_state =
  tasks :: "task_struct option list"
  root_task :: "nat option"
  current_task :: "nat option"
  nextpid :: int
  timer_tick :: int
  wiped :: "(u32 \<times> nat) list"

definition task :: "sched_state \<Rightarrow> nat option \<Rightarrow> task_struct outcome" where
  "task s p = (case p of None \<Rightarrow> Fault | Some i \<Rightarrow>
     if i < length (tasks s) then (case tasks s ! i of None \<Rightarrow> Fault | Some t \<Rightarrow> Ok t) else Fault)"

definition put_task :: "sched_state \<Rightarrow> nat option \<Rightarrow> task_struct \<Rightarrow> sched_state" where
  "put_task s p t = (case p of None \<Rightarrow> s | Some i \<Rightarrow> s\<lparr>tasks := (tasks s)[i := Some t]\<rparr>)"

subsection \<open>Operations\<close>

definition getpid :: "sched_state \<Rightarrow> int outcome" where
  "getpid s = bnd (task s (current_task s)) (\<lambda>t. Ok (t_pid t))"

text \<open>The walks along the list; a list that runs in a circle uses up the fuel.\<close>

fun kill_loop :: "nat \<Rightarrow> int \<Rightarrow> nat option \<Rightarrow> sched_state \<Rightarrow> sched_state outcome" where
  "kill_loop fuel pid None s = Ok s"
| "kill_loop 0 pid (Some p) s = Stuck"
| "kill_loop (Suc fuel) pid (Some p) s =
     bnd (task s (Some p)) (\<lambda>t.
     if t_pid t = pid then Ok (put_task s (Some p) (t\<lparr>t_state := TASK_KILLED\<rparr>))
     else kill_loop fuel pid (t_next t) s)"

definition kill_task :: "int \<Rightarrow> sched_state \<Rightarrow> sched_state outcome" where
  "kill_task pid s = kill_loop (length (tasks s)) pid (root_task s) s"

fun unlink_loop :: "nat \<Rightarrow> nat option \<Rightarrow> sched_state \<Rightarrow> sched_state outcome" where
  "unlink_loop fuel None s = Ok s"
| "unlink_loop 0 (Some p) s = Stuck"
| "unlink_loop (Suc fuel) (Some p) s =
     bnd (task s (Some p)) (\<lambda>t.
     bnd (if t_next t = current_task s
          then bnd (task s (current_task s)) (\<lambda>c. Ok (put_task s (Some p) (t\<lparr>t_next := t_next c\<rparr>)))
          else Ok s) (\<lambda>s.
     bnd (task s (Some p)) (\<lambda>t. unlink_loop fuel (t_next t) s)))"

text \<open>The current task was killed: it is taken out of the list, and the next one is the current task.\<close>

definition remove_current :: "sched_state \<Rightarrow> sched_state outcome" where
  "remove_current s =
     bnd (unlink_loop (length (tasks s)) (root_task s) s) (\<lambda>s.
     bnd (task s (current_task s)) (\<lambda>t.
     Ok (case current_task s of None \<Rightarrow> s | Some p \<Rightarrow>
       s\<lparr>current_task := t_next t, wiped := wiped s @ [(t_stack t, 16384)], tasks := (tasks s)[p := None]\<rparr>)))"

definition start_task :: "registers \<Rightarrow> sched_state \<Rightarrow> task_struct \<Rightarrow> registers \<times> sched_state" where
  "start_task regs s t =
     (regs\<lparr>r_eax := 0, r_ebx := 0, r_edi := 0, r_ecx := 0, r_ebp := 0, r_esp := t_stack t, r_eip := t_entry t\<rparr>,
      put_task s (current_task s) (t\<lparr>t_state := TASK_RUNNING\<rparr>))"

text \<open>The current task is suspended with its registers; the next one, or the first, becomes the current task.\<close>

definition suspend :: "registers \<Rightarrow> sched_state \<Rightarrow> task_struct \<Rightarrow> sched_state" where
  "suspend regs s t =
     (put_task s (current_task s) (t\<lparr>t_regs := regs, t_state := TASK_PENDING\<rparr>))
       \<lparr>current_task := (if t_next t = None then root_task s else t_next t)\<rparr>"

definition sched :: "registers \<Rightarrow> sched_state \<Rightarrow> (registers \<times> sched_state) outcome" where
  "sched regs s =
     (let s = s\<lparr>timer_tick := timer_tick s + 1\<rparr> in
      bnd (task s (current_task s)) (\<lambda>t.
      bnd (if t_state t = TASK_KILLED then remove_current s else Ok s) (\<lambda>s.
      ensure (current_task s \<noteq> None) (
      bnd (task s (current_task s)) (\<lambda>t.
      if t_state t = TASK_CREATED then Ok (start_task regs s t)
      else
        let s = suspend regs s t in
        bnd (task s (current_task s)) (\<lambda>t.
        if t_state t = TASK_CREATED then Ok (start_task regs s t)
        else Ok (t_regs t, put_task s (current_task s) (t\<lparr>t_state := TASK_RUNNING\<rparr>))))))))"

text \<open>The last task of a list.\<close>

fun last_task :: "nat \<Rightarrow> sched_state \<Rightarrow> nat \<Rightarrow> nat outcome" where
  "last_task 0 s p = Stuck"
| "last_task (Suc fuel) s p =
     bnd (task s (Some p)) (\<lambda>t. case t_next t of None \<Rightarrow> Ok p | Some q \<Rightarrow> last_task fuel s q)"

definition create_task :: "u32 \<Rightarrow> u8 list \<Rightarrow> u32 \<Rightarrow> registers \<Rightarrow> sched_state \<Rightarrow> sched_state outcome" where
  "create_task entry name mem junk s =
     (let p = length (tasks s);
          s = s\<lparr>tasks := tasks s @ [Some \<lparr>t_pid = nextpid s, t_name = name, t_regs = junk, t_stack = mem + 16384,
                t_entry = entry, t_next = None, t_state = TASK_CREATED\<rparr>], nextpid := nextpid s + 1\<rparr> in
      case root_task s of None \<Rightarrow> Fault
      | Some r \<Rightarrow>
          bnd (last_task (length (tasks s)) s r) (\<lambda>l.
          bnd (task s (Some l)) (\<lambda>t. Ok (put_task s (Some l) (t\<lparr>t_next := Some p\<rparr>)))))"

definition no_registers :: registers where
  "no_registers = \<lparr>r_ds = 0, r_edi = 0, r_esi = 0, r_ebp = 0, r_esp = 0, r_ebx = 0, r_edx = 0, r_ecx = 0, r_eax = 0,
     r_int_no = 0, r_err_code = 0, r_eip = 0, r_cs = 0, r_eflags = 0, r_useresp = 0, r_ss = 0\<rparr>"

text \<open>\<open>idle\<close> is the address of the idle loop, \<open>mem\<close> that of its stack.\<close>

definition sched_init :: "u32 \<Rightarrow> u32 \<Rightarrow> sched_state \<Rightarrow> sched_state" where
  "sched_init idle mem s =
     (let p = length (tasks s) in
      s\<lparr>tasks := tasks s @ [Some \<lparr>t_pid = nextpid s, t_name = bytes_of ''Idle task'', t_regs = no_registers,
          t_stack = mem + 16384, t_entry = idle, t_next = None, t_state = TASK_CREATED\<rparr>],
        root_task := Some p, current_task := Some p, nextpid := nextpid s + 1\<rparr>)"

definition boot_state :: sched_state where
  "boot_state = \<lparr>tasks = [], root_task = None, current_task = None, nextpid = 0, timer_tick = 0, wiped = []\<rparr>"

subsection \<open>The list of tasks\<close>

definition live :: "sched_state \<Rightarrow> nat \<Rightarrow> bool" where
  "live s p \<longleftrightarrow> p < length (tasks s) \<and> tasks s ! p \<noteq> None"

definition tsk :: "sched_state \<Rightarrow> nat \<Rightarrow> task_struct" where
  "tsk s p = the (tasks s ! p)"

fun chain :: "sched_state \<Rightarrow> nat option \<Rightarrow> nat list \<Rightarrow> bool" where
  "chain s p [] \<longleftrightarrow> p = None"
| "chain s p (q # qs) \<longleftrightarrow> p = Some q \<and> live s q \<and> chain s (t_next (tsk s q)) qs"

lemma task_live [simp]: "live s p \<Longrightarrow> task s (Some p) = Ok (tsk s p)"
  by (auto simp: task_def live_def tsk_def)

lemma live_put [simp]: "live (put_task s (Some p) t) q \<longleftrightarrow> live s q \<or> p = q \<and> p < length (tasks s)"
  by (cases "p = q") (auto simp: live_def put_task_def nth_list_update)

lemma live_length: "live s p \<Longrightarrow> p < length (tasks s)"
  by (simp add: live_def)

lemma tsk_put: "live s p \<Longrightarrow> tsk (put_task s (Some p) t) q = (if q = p then t else tsk s q)"
  by (auto simp: tsk_def put_task_def live_def nth_list_update)

lemma put_task_fields [simp]:
  "root_task (put_task s p t) = root_task s" "current_task (put_task s p t) = current_task s"
  "nextpid (put_task s p t) = nextpid s" "wiped (put_task s p t) = wiped s"
  "timer_tick (put_task s p t) = timer_tick s" "length (tasks (put_task s p t)) = length (tasks s)"
  by (cases p; simp add: put_task_def)+

lemma update_fields [simp]:
  "live (s\<lparr>current_task := c\<rparr>) p = live s p" "live (s\<lparr>timer_tick := n\<rparr>) p = live s p"
  "tsk (s\<lparr>current_task := c\<rparr>) p = tsk s p" "tsk (s\<lparr>timer_tick := n\<rparr>) p = tsk s p"
  by (simp_all add: live_def tsk_def)

lemma chain_cong:
  assumes "\<And>q. q \<in> set ps \<Longrightarrow> live s' q = live s q \<and> t_next (tsk s' q) = t_next (tsk s q)"
  shows "chain s' p ps = chain s p ps"
  using assms by (induction ps arbitrary: p) auto

lemma chain_live: "chain s p ps \<Longrightarrow> q \<in> set ps \<Longrightarrow> live s q"
  by (induction ps arbitrary: p) auto

lemma chain_next:
  "chain s p ps \<Longrightarrow> i < length ps \<Longrightarrow> t_next (tsk s (ps ! i)) = (if Suc i < length ps then Some (ps ! Suc i) else None)"
proof (induction ps arbitrary: p i)
  case (Cons q qs)
  show ?case
  proof (cases i)
    case 0
    then show ?thesis using Cons.prems by (cases qs) auto
  next
    case (Suc j)
    then show ?thesis using Cons by auto
  qed
qed simp

lemma chain_tail: "chain s p (as @ c # bs) \<Longrightarrow> chain s (t_next (tsk s c)) bs"
  by (induction as arbitrary: p) auto

lemma chain_head: "chain s p ps \<Longrightarrow> ps \<noteq> [] \<Longrightarrow> p = Some (ps ! 0)"
  by (cases ps) auto

text \<open>
  A well-formed state: the list \<open>ps\<close> of tasks, none of them killed, of which the current one, at position
  \<open>i\<close>, runs or is about to be started, and no other runs.
\<close>

definition ready :: "sched_state \<Rightarrow> nat list \<Rightarrow> nat \<Rightarrow> bool" where
  "ready s ps i \<longleftrightarrow> chain s (root_task s) ps \<and> distinct ps \<and> i < length ps \<and> current_task s = Some (ps ! i) \<and>
     (\<forall>p \<in> set ps. t_state (tsk s p) \<noteq> TASK_KILLED \<and> (t_state (tsk s p) = TASK_RUNNING \<longrightarrow> p = ps ! i)) \<and>
     t_state (tsk s (ps ! i)) \<noteq> TASK_PENDING"

definition successor :: "nat list \<Rightarrow> nat \<Rightarrow> nat" where
  "successor ps i = Suc i mod length ps"

lemma successor_next:
  assumes "chain s (root_task s) ps" and "i < length ps"
  shows "(if t_next (tsk s (ps ! i)) = None then root_task s else t_next (tsk s (ps ! i))) = Some (ps ! successor ps i)"
proof (cases "Suc i < length ps")
  case True
  then show ?thesis using assms chain_next [OF assms] by (simp add: successor_def)
next
  case False
  then have "Suc i = length ps" using assms(2) by simp
  then show ?thesis using assms chain_next [OF assms] chain_head [OF assms(1)] by (cases ps) (auto simp: successor_def)
qed

lemma successor_less: "i < length ps \<Longrightarrow> successor ps i < length ps"
  unfolding successor_def by (rule mod_less_divisor) linarith

text \<open>What a task sees when it is started.\<close>

definition started :: "registers \<Rightarrow> task_struct \<Rightarrow> registers" where
  "started regs t = regs\<lparr>r_eax := 0, r_ebx := 0, r_edi := 0, r_ecx := 0, r_ebp := 0, r_esp := t_stack t, r_eip := t_entry t\<rparr>"

lemma ready_cur:
  assumes "ready s ps i"
  shows "live s (ps ! i)" "ps ! i \<in> set ps" "current_task s = Some (ps ! i)"
  using assms chain_live [of s "root_task s" ps "ps ! i"] by (auto simp: ready_def)

text \<open>A tick of the timer while a task runs: it is suspended with its registers, and its successor goes on.\<close>

lemma sched_switch:
  assumes ch: "chain s (root_task s) ps" "i < length ps" "distinct ps"
    and cur: "current_task s = Some (ps ! i)" "t_state (tsk s (ps ! i)) = TASK_RUNNING \<or> t_state (tsk s (ps ! i)) = TASK_PENDING"
  defines "c \<equiv> ps ! i" and "n \<equiv> ps ! successor ps i"
  shows "\<exists>s'. sched regs s =
      Ok (if n = c then regs else if t_state (tsk s n) = TASK_CREATED then started regs (tsk s n) else t_regs (tsk s n), s') \<and>
    chain s' (root_task s') ps \<and> current_task s' = Some n \<and> t_state (tsk s' n) = TASK_RUNNING \<and>
    wiped s' = wiped s \<and> (\<forall>p. live s' p = live s p) \<and>
    (n \<noteq> c \<longrightarrow> tsk s' c = (tsk s c)\<lparr>t_regs := regs, t_state := TASK_PENDING\<rparr>) \<and>
    (\<forall>p. p \<noteq> n \<and> p \<noteq> c \<longrightarrow> tsk s' p = tsk s p)"
proof -
  let ?s0 = "s\<lparr>timer_tick := timer_tick s + 1\<rparr>"
  define s1 where "s1 = put_task ?s0 (Some c) ((tsk s c)\<lparr>t_regs := regs, t_state := TASK_PENDING\<rparr>)"
  define s2 where "s2 = s1\<lparr>current_task := Some n\<rparr>"
  define s3 where "s3 = put_task s2 (Some n) ((tsk s2 n)\<lparr>t_state := TASK_RUNNING\<rparr>)"
  have cn: "live s c" "c \<in> set ps" "n \<in> set ps" "live s n" "current_task s = Some c"
    using cur chain_live [OF ch(1)] successor_less [OF ch(2)] ch(2) by (auto simp: c_def n_def)
  have nxt: "(if t_next (tsk s c) = None then root_task s else t_next (tsk s c)) = Some n"
    using successor_next [OF ch(1,2)] unfolding c_def n_def .
  have t1: "tsk s1 p = (if p = c then (tsk s c)\<lparr>t_regs := regs, t_state := TASK_PENDING\<rparr> else tsk s p)" for p
    using cn(1) by (simp add: s1_def tsk_put)
  have l1: "live s1 p = live s p" for p
    using cn(1) live_length [OF cn(1)] by (cases "p = c") (simp_all add: s1_def)
  have t2: "tsk s2 p = tsk s1 p" "live s2 p = live s p" "root_task s2 = root_task s" "current_task s2 = Some n" for p
    by (simp_all add: s2_def l1) (simp add: s1_def)
  have n2: "n < length (tasks s2)" using t2(2) cn(4) live_length by blast
  have t3: "tsk s3 p = (if p = n then (tsk s1 n)\<lparr>t_state := TASK_RUNNING\<rparr> else tsk s1 p)" for p
    using cn(4) by (simp add: s3_def tsk_put t2)
  have l3: "live s3 p = live s p" "root_task s3 = root_task s" "current_task s3 = Some n" for p
    using n2 cn(4) by (cases "p = n"; simp add: s3_def t2)+
  have sus: "suspend regs ?s0 (tsk s c) = s2"
    using cn(5) nxt by (cases "t_next (tsk s c)") (simp_all add: suspend_def s1_def s2_def)
  have "sched regs s = (if t_state (tsk s2 n) = TASK_CREATED then Ok (start_task regs s2 (tsk s2 n)) else Ok (t_regs (tsk s2 n), s3))"
    using cn cur(2) sus t2 by (auto simp: sched_def c_def [symmetric] Let_def s3_def)
  then have run: "sched regs s = Ok (if n = c then regs else if t_state (tsk s n) = TASK_CREATED
      then started regs (tsk s n) else t_regs (tsk s n), s3)"
    by (auto simp: start_task_def started_def t2 t1 s3_def)
  have ch3: "chain s3 (root_task s) ps"
    using ch(1) l3 by (subst chain_cong [where s = s]) (auto simp: t3 t1)
  have "wiped s3 = wiped s" by (simp add: s3_def s2_def s1_def)
  then show ?thesis using run ch3 l3 by (intro exI [of _ s3]) (simp add: t3 t1)
qed

lemma sched_turn:
  assumes "ready s ps i" and "t_state (tsk s (ps ! i)) = TASK_RUNNING"
  defines "c \<equiv> ps ! i" and "n \<equiv> ps ! successor ps i"
  shows "\<exists>s'. sched regs s =
      Ok (if n = c then regs else if t_state (tsk s n) = TASK_CREATED then started regs (tsk s n) else t_regs (tsk s n), s') \<and>
    ready s' ps (successor ps i) \<and> t_state (tsk s' n) = TASK_RUNNING \<and>
    (n \<noteq> c \<longrightarrow> tsk s' c = (tsk s c)\<lparr>t_regs := regs, t_state := TASK_PENDING\<rparr>) \<and>
    (\<forall>p. p \<noteq> n \<and> p \<noteq> c \<longrightarrow> tsk s' p = tsk s p)"
proof -
  have ch: "chain s (root_task s) ps" "i < length ps" "distinct ps" using assms(1) by (auto simp: ready_def)
  obtain s' where s': "sched regs s =
      Ok (if n = c then regs else if t_state (tsk s n) = TASK_CREATED then started regs (tsk s n) else t_regs (tsk s n), s')"
    "chain s' (root_task s') ps" "current_task s' = Some n" "t_state (tsk s' n) = TASK_RUNNING"
    "n \<noteq> c \<longrightarrow> tsk s' c = (tsk s c)\<lparr>t_regs := regs, t_state := TASK_PENDING\<rparr>"
    "\<forall>p. p \<noteq> n \<and> p \<noteq> c \<longrightarrow> tsk s' p = tsk s p"
    using sched_switch [OF ch ready_cur(3) [OF assms(1)], of regs] assms(2) unfolding c_def n_def by blast
  have old: "t_state (tsk s p) \<noteq> TASK_KILLED" "t_state (tsk s p) = TASK_RUNNING \<Longrightarrow> p = c" if "p \<in> set ps" for p
    using assms(1) that by (auto simp: ready_def c_def)
  have "t_state (tsk s' p) \<noteq> TASK_KILLED \<and> (t_state (tsk s' p) = TASK_RUNNING \<longrightarrow> p = n)" if "p \<in> set ps" for p
  proof (cases "p = n")
    case False
    show ?thesis
    proof (cases "p = c")
      case True
      then have "t_state (tsk s' p) = TASK_PENDING" using False s'(5) by simp
      then show ?thesis by simp
    next
      case False
      with \<open>p \<noteq> n\<close> have "tsk s' p = tsk s p" using s'(6) by blast
      then show ?thesis using old [OF that] False by auto
    qed
  qed (use s'(4) in simp)
  then have "ready s' ps (successor ps i)"
    using s'(2-4) ch(3) successor_less [OF ch(2)] unfolding ready_def n_def by simp
  then show ?thesis using s' by blast
qed

lemma sched_start:
  assumes "ready s ps i" and "t_state (tsk s (ps ! i)) = TASK_CREATED"
  shows "\<exists>s'. sched regs s = Ok (started regs (tsk s (ps ! i)), s') \<and> ready s' ps i \<and>
    tsk s' (ps ! i) = (tsk s (ps ! i))\<lparr>t_state := TASK_RUNNING\<rparr> \<and> (\<forall>p. p \<noteq> ps ! i \<longrightarrow> tsk s' p = tsk s p)"
proof -
  let ?c = "ps ! i" and ?s0 = "s\<lparr>timer_tick := timer_tick s + 1\<rparr>"
  define s1 where "s1 = put_task ?s0 (Some ?c) ((tsk s ?c)\<lparr>t_state := TASK_RUNNING\<rparr>)"
  note c = ready_cur [OF assms(1)]
  have t1: "tsk s1 p = (if p = ?c then (tsk s ?c)\<lparr>t_state := TASK_RUNNING\<rparr> else tsk s p)" for p
    using c(1) by (simp add: s1_def tsk_put)
  have l1: "live s1 p = live s p" "root_task s1 = root_task s" "current_task s1 = current_task s" for p
    using c(1) live_length [OF c(1)] by (cases "p = ?c"; simp add: s1_def)+
  have "chain s (root_task s) ps" using assms(1) by (simp add: ready_def)
  then have "chain s1 (root_task s) ps"
    using l1 by (subst chain_cong [where s = s]) (auto simp: t1)
  then have "ready s1 ps i" using assms(1) by (auto simp: ready_def t1 l1)
  moreover have "sched regs s = Ok (started regs (tsk s ?c), s1)"
    using c assms(2) by (simp add: sched_def Let_def start_task_def started_def s1_def)
  ultimately show ?thesis by (intro exI [of _ s1]) (simp add: t1)
qed

subsection \<open>Rounds\<close>

fun ticks :: "registers list \<Rightarrow> sched_state \<Rightarrow> (registers list \<times> sched_state) outcome" where
  "ticks [] s = Ok ([], s)"
| "ticks (r # rs) s = bnd (sched r s) (\<lambda>(out, s). bnd (ticks rs s) (\<lambda>(outs, s). Ok (out # outs, s)))"

definition running :: "sched_state \<Rightarrow> nat list \<Rightarrow> nat \<Rightarrow> bool" where
  "running s ps i \<longleftrightarrow> ready s ps i \<and> t_state (tsk s (ps ! i)) = TASK_RUNNING"

lemma turn_position: "i < length ps \<Longrightarrow> (successor ps i + k) mod length ps = (i + Suc k) mod length ps"
  by (simp add: successor_def mod_add_left_eq)

lemma ticks_position:
  assumes "running s ps i"
  shows "\<exists>outs s'. ticks rs s = Ok (outs, s') \<and> running s' ps ((i + length rs) mod length ps)"
  using assms
proof (induction rs arbitrary: s i)
  case Nil
  then show ?case by (simp add: running_def ready_def)
next
  case (Cons r rs)
  then have i: "i < length ps" by (simp add: running_def ready_def)
  obtain out s1 where "sched r s = Ok (out, s1)" "running s1 ps (successor ps i)"
    using sched_turn [of s ps i r] Cons.prems by (auto simp: running_def)
  then show ?case using Cons.IH [of s1 "successor ps i"] turn_position [OF i, of "length rs"] by fastforce
qed

lemma ticks_resume:
  assumes "running s ps j" and "k < length ps" and "t_state (tsk s (ps ! k)) = TASK_PENDING" and "t_regs (tsk s (ps ! k)) = r"
    and "(j + length rs) mod length ps = k" and "\<forall>m < length rs. (j + m) mod length ps \<noteq> k" and "rs \<noteq> []"
  shows "\<exists>outs s'. ticks rs s = Ok (outs, s') \<and> last outs = r \<and> outs \<noteq> []"
  using assms(1,3-7)
proof (induction rs arbitrary: s j)
  case (Cons q rs)
  let ?c = "ps ! j" and ?n = "ps ! successor ps j"
  have ps: "j < length ps" "distinct ps" using Cons.prems(1) by (auto simp: running_def ready_def)
  note sl = successor_less [OF ps(1)]
  obtain s1 where s1: "sched q s = Ok (if ?n = ?c then q else if t_state (tsk s ?n) = TASK_CREATED
      then started q (tsk s ?n) else t_regs (tsk s ?n), s1)"
    "running s1 ps (successor ps j)" "\<forall>p. p \<noteq> ?n \<and> p \<noteq> ?c \<longrightarrow> tsk s1 p = tsk s p"
    using sched_turn [of s ps j q] Cons.prems(1) by (auto simp: running_def)
  have "j \<noteq> k" using Cons.prems(5) ps(1) by (metis add_0_right length_Cons mod_less zero_less_Suc)
  then have kc: "ps ! k \<noteq> ?c" using ps assms(2) by (simp add: nth_eq_iff_index_eq)
  show ?case
  proof (cases "rs = []")
    case True
    then have "successor ps j = k" using Cons.prems(4) by (simp add: successor_def)
    then show ?thesis using True s1(1) kc Cons.prems(2,3) by simp
  next
    case False
    then have "successor ps j \<noteq> k" using Cons.prems(5) [rule_format, of 1] by (simp add: successor_def)
    then have "ps ! k \<noteq> ?n" using ps sl assms(2) by (simp add: nth_eq_iff_index_eq)
    then have same: "tsk s1 (ps ! k) = tsk s (ps ! k)" using s1(3) kc by blast
    have "(successor ps j + m) mod length ps \<noteq> k" if "m < length rs" for m
      using Cons.prems(5) that turn_position [OF ps(1), of m] by auto
    moreover have "(successor ps j + length rs) mod length ps = k"
      using Cons.prems(4) turn_position [OF ps(1), of "length rs"] by simp
    ultimately obtain outs s' where "ticks rs s1 = Ok (outs, s')" "last outs = r" "outs \<noteq> []"
      using Cons.IH [OF s1(2)] Cons.prems(2,3) same False by auto
    then show ?thesis using s1(1) by simp
  qed
qed simp

subsection \<open>New tasks\<close>

lemma last_task_chain:
  "chain s (Some p) ps \<Longrightarrow> length ps \<le> fuel \<Longrightarrow> last_task fuel s p = Ok (last ps)"
proof (induction ps arbitrary: p fuel)
  case (Cons q qs)
  then obtain f where f: "fuel = Suc f" by (cases fuel) auto
  then show ?case
  proof (cases qs)
    case Nil
    then show ?thesis using Cons.prems f by simp
  next
    case (Cons q' qs')
    then have "t_next (tsk s q) = Some q'" using Cons.prems by simp
    then show ?thesis using Cons.prems Cons.IH [of q' f] Cons f by simp
  qed
qed simp

lemma chain_bounded: "chain s p ps \<Longrightarrow> distinct ps \<Longrightarrow> length ps \<le> length (tasks s)"
proof -
  assume "chain s p ps" "distinct ps"
  then have "set ps \<subseteq> {..<length (tasks s)}" using chain_live live_length by blast
  then show ?thesis using card_mono [of "{..<length (tasks s)}" "set ps"] \<open>distinct ps\<close>
    by (simp add: distinct_card)
qed

lemma chain_append:
  assumes "chain s p ps" and "ps \<noteq> []" and "q \<notin> set ps" and "distinct ps"
    and "\<And>r. r \<in> set ps \<Longrightarrow> live s' r \<and> t_next (tsk s' r) = (if r = last ps then Some q else t_next (tsk s r))"
    and "live s' q" and "t_next (tsk s' q) = None"
  shows "chain s' p (ps @ [q])"
  using assms(1-5)
proof (induction ps arbitrary: p)
  case (Cons r rs)
  show ?case
  proof (cases rs)
    case Nil
    then show ?thesis using Cons.prems assms(6,7) by simp
  next
    case (Cons r' rs')
    then have "r \<noteq> last rs" using Cons.prems(4) by auto
    then show ?thesis using Cons.prems Cons.IH [of "t_next (tsk s r)"] Cons by auto
  qed
qed simp

lemma create_task_ready:
  assumes "ready s ps i"
  shows "\<exists>s'. create_task entry name mem junk s = Ok s' \<and> ready s' (ps @ [length (tasks s)]) i"
proof -
  let ?p = "length (tasks s)"
  define new where "new = \<lparr>t_pid = nextpid s, t_name = name, t_regs = junk, t_stack = mem + 16384,
    t_entry = entry, t_next = None, t_state = TASK_CREATED\<rparr>"
  define s1 where "s1 = s\<lparr>tasks := tasks s @ [Some new], nextpid := nextpid s + 1\<rparr>"
  let ?l = "last ps"
  define s2 where "s2 = put_task s1 (Some ?l) ((tsk s1 ?l)\<lparr>t_next := Some ?p\<rparr>)"
  have ch: "chain s (root_task s) ps" "i < length ps" "distinct ps" "ps \<noteq> []" using assms by (auto simp: ready_def)
  have old: "live s1 q" "tsk s1 q = tsk s q" "q \<noteq> ?p" if "q \<in> set ps" for q
    using chain_live [OF ch(1) that] by (auto simp: s1_def live_def tsk_def nth_append)
  have s1: "live s1 ?p" "tsk s1 ?p = new" "root_task s1 = root_task s" "current_task s1 = current_task s"
    by (simp_all add: s1_def live_def tsk_def)
  have l: "live s1 ?l" "?l \<noteq> ?p" "?l \<in> set ps" using old [of ?l] ch(4) by auto
  have ch1: "chain s1 (root_task s) ps" using ch(1) chain_live [OF ch(1)] old by (subst chain_cong [where s = s]) auto
  obtain r where r: "root_task s = Some r" using ch(1,4) by (cases ps) auto
  have "last_task (length (tasks s1)) s1 r = Ok ?l"
    using ch1 chain_bounded [OF ch1 ch(3)] r by (intro last_task_chain) simp_all
  then have run: "create_task entry name mem junk s = Ok s2"
    using l(1) s1(3) r by (simp add: create_task_def Let_def s1_def [symmetric] new_def [symmetric] s2_def)
  have t2: "tsk s2 q = (if q = ?l then (tsk s1 ?l)\<lparr>t_next := Some ?p\<rparr> else tsk s1 q)" for q
    using l(1) by (simp add: s2_def tsk_put)
  have l2: "live s2 q" if "live s1 q" for q using that by (simp add: s2_def)
  have f2: "root_task s2 = root_task s" "current_task s2 = current_task s" by (simp_all add: s2_def s1)
  have "chain s2 (root_task s) (ps @ [?p])"
  proof (rule chain_append [OF ch1 ch(4) _ ch(3)])
    show "?p \<notin> set ps" using old(3) by blast
    show "live s2 r \<and> t_next (tsk s2 r) = (if r = ?l then Some ?p else t_next (tsk s1 r))" if "r \<in> set ps" for r
      using old(1) [OF that] l2 t2 by simp
    show "live s2 ?p" "t_next (tsk s2 ?p) = None" using l l2 s1(1,2) t2 by (simp_all add: new_def)
  qed
  moreover have "t_state (tsk s2 q) = t_state (tsk s q)" if "q \<in> set ps" for q using old(2) [OF that] t2 l(3) old(2) by simp
  moreover have "t_state (tsk s2 ?p) = TASK_CREATED" using l(2) s1(2) t2 by (simp add: new_def)
  moreover have "?p \<notin> set ps" using old(3) by blast
  ultimately have "ready s2 (ps @ [?p]) i"
    using assms f2 by (auto simp: ready_def nth_append)
  then show ?thesis using run by blast
qed

text \<open>What can happen without kills: tasks are created, and the timer ticks.\<close>

inductive reachable :: "sched_state \<Rightarrow> bool" where
  init: "reachable (sched_init idle mem boot_state)"
| create: "reachable s \<Longrightarrow> create_task entry name mem junk s = Ok s' \<Longrightarrow> reachable s'"
| tick: "reachable s \<Longrightarrow> sched regs s = Ok (out, s') \<Longrightarrow> reachable s'"

lemma ready_state_cases:
  assumes "ready s ps i"
  obtains "t_state (tsk s (ps ! i)) = TASK_RUNNING" | "t_state (tsk s (ps ! i)) = TASK_CREATED"
  using assms by (cases "t_state (tsk s (ps ! i))") (auto simp: ready_def)

lemma sched_ready:
  assumes "ready s ps i"
  shows "\<exists>out s' j. sched regs s = Ok (out, s') \<and> ready s' ps j \<and> t_state (tsk s' (ps ! j)) = TASK_RUNNING"
  using assms
proof (cases rule: ready_state_cases)
  case 1
  then show ?thesis using sched_turn [OF assms, of regs] by blast
next
  case 2
  then obtain s' where "sched regs s = Ok (started regs (tsk s (ps ! i)), s')" "ready s' ps i"
    "tsk s' (ps ! i) = (tsk s (ps ! i))\<lparr>t_state := TASK_RUNNING\<rparr>"
    using sched_start [OF assms, of regs] by blast
  then show ?thesis by (intro exI conjI) auto
qed

lemma reachable_ready: "reachable s \<Longrightarrow> \<exists>ps i. ready s ps i"
proof (induction rule: reachable.induct)
  case (init idle mem)
  have "ready (sched_init idle mem boot_state) [0] 0"
    by (simp add: ready_def sched_init_def boot_state_def live_def tsk_def)
  then show ?case by blast
next
  case (create s entry name mem junk s')
  then obtain ps i where "ready s ps i" by blast
  then show ?case using create_task_ready [of s ps i entry name mem junk] create.hyps(2) by auto
next
  case (tick s regs out s')
  then obtain ps i where "ready s ps i" by blast
  then show ?case using sched_ready [of s ps i regs] tick.hyps(2) by auto
qed

subsection \<open>Kills\<close>

definition killed :: "sched_state \<Rightarrow> nat \<Rightarrow> sched_state" where
  "killed s q = put_task s (Some q) ((tsk s q)\<lparr>t_state := TASK_KILLED\<rparr>)"

lemma kill_loop_chain:
  assumes "chain s p ps" and "q \<in> set ps" and "inj_on (\<lambda>p. t_pid (tsk s p)) (set ps)" and "length ps \<le> fuel"
  shows "kill_loop fuel (t_pid (tsk s q)) p s = Ok (killed s q)"
  using assms
proof (induction ps arbitrary: p fuel)
  case (Cons r rs)
  then obtain f where f: "fuel = Suc f" by (cases fuel) auto
  show ?case
  proof (cases "q = r")
    case False
    then have "q \<in> set rs" "t_pid (tsk s r) \<noteq> t_pid (tsk s q)"
      using Cons.prems(2,3) by (auto dest: inj_onD)
    moreover have "inj_on (\<lambda>p. t_pid (tsk s p)) (set rs)" using Cons.prems(3) by (rule inj_on_subset) auto
    ultimately show ?thesis using Cons f by simp
  qed (use Cons.prems f in \<open>simp add: killed_def\<close>)
qed simp

lemma kill_task_chain:
  assumes "chain s (root_task s) ps" and "distinct ps" and "q \<in> set ps" and "inj_on (\<lambda>p. t_pid (tsk s p)) (set ps)"
  shows "kill_task (t_pid (tsk s q)) s = Ok (killed s q)"
  unfolding kill_task_def using assms chain_bounded [OF assms(1,2)] by (intro kill_loop_chain)

lemma killed_simps:
  assumes "live s q"
  shows "tsk (killed s q) p = (if p = q then (tsk s q)\<lparr>t_state := TASK_KILLED\<rparr> else tsk s p)"
    "live (killed s q) p = live s p" "root_task (killed s q) = root_task s"
    "current_task (killed s q) = current_task s" "wiped (killed s q) = wiped s"
    "length (tasks (killed s q)) = length (tasks s)"
  using assms live_length [OF assms] by (cases "p = q"; simp add: killed_def tsk_put)+

lemma killed_chain:
  assumes "chain s r ps" and "live s q"
  shows "chain (killed s q) r ps"
  using assms by (subst chain_cong [where s = s]) (auto simp: killed_simps)

text \<open>The walk that takes the current task out of the list.\<close>

lemma unlink_loop_behind:
  assumes "chain s p ps" and "current_task s = Some c" and "c \<notin> set ps" and "length ps \<le> fuel"
  shows "unlink_loop fuel p s = Ok s"
  using assms
proof (induction ps arbitrary: p fuel)
  case (Cons q qs)
  then obtain f where f: "fuel = Suc f" by (cases fuel) auto
  have "t_next (tsk s q) \<noteq> Some c" using Cons.prems by (cases qs) auto
  then show ?case using Cons f by simp
qed simp

lemma unlink_loop_chain:
  assumes "chain s p (as @ c # bs)" and "distinct (as @ c # bs)" and "current_task s = Some c"
    and "length (as @ c # bs) \<le> fuel"
  shows "unlink_loop fuel p s = Ok (if as = [] then s
    else put_task s (Some (last as)) ((tsk s (last as))\<lparr>t_next := t_next (tsk s c)\<rparr>))"
  using assms
proof (induction as arbitrary: p fuel)
  case Nil
  then obtain f where f: "fuel = Suc f" by (cases fuel) auto
  have "t_next (tsk s c) \<noteq> Some c" using Nil.prems(1,2) by (cases bs) auto
  moreover have "unlink_loop f (t_next (tsk s c)) s = Ok s"
    using Nil.prems f by (intro unlink_loop_behind [of s _ bs c]) auto
  ultimately show ?case using Nil.prems f by simp
next
  case (Cons a as)
  then obtain f where f: "fuel = Suc f" by (cases fuel) auto
  show ?case
  proof (cases "as = []")
    case True
    define s' where "s' = put_task s (Some a) ((tsk s a)\<lparr>t_next := t_next (tsk s c)\<rparr>)"
    have a: "live s a" "t_next (tsk s a) = Some c" "live s c" "p = Some a" using Cons.prems(1) True by auto
    have t': "tsk s' q = (if q = a then (tsk s a)\<lparr>t_next := t_next (tsk s c)\<rparr> else tsk s q)" "live s' q = live s q" for q
      using a(1) live_length [OF a(1)] by (cases "q = a"; simp add: s'_def tsk_put)+
    have "chain s' (t_next (tsk s c)) bs"
      using Cons.prems(1,2) True t' by (subst chain_cong [where s = s]) auto
    then have "unlink_loop f (t_next (tsk s c)) s' = Ok s'"
      using Cons.prems(2-4) f True by (intro unlink_loop_behind [of s' _ bs c]) (auto simp: s'_def)
    moreover have "task s' (Some a) = Ok ((tsk s a)\<lparr>t_next := t_next (tsk s c)\<rparr>)" using t' a(1) by simp
    ultimately show ?thesis using a Cons.prems(3) f True by (simp add: s'_def)
  next
    case False
    then have "t_next (tsk s a) \<noteq> Some c" using Cons.prems(1,2) by (cases as) auto
    then show ?thesis using Cons f False by simp
  qed
qed

lemma remove_current_chain:
  assumes "chain s (root_task s) (as @ c # bs)" and "distinct (as @ c # bs)" and "current_task s = Some c" and "as \<noteq> []"
  shows "\<exists>s'. remove_current s = Ok s' \<and> chain s' (root_task s') (as @ bs) \<and> \<not> live s' c \<and>
    current_task s' = (case bs of [] \<Rightarrow> None | n # _ \<Rightarrow> Some n) \<and> wiped s' = wiped s @ [(t_stack (tsk s c), 16384)] \<and>
    (\<forall>q. q \<noteq> c \<longrightarrow> t_regs (tsk s' q) = t_regs (tsk s q) \<and> t_state (tsk s' q) = t_state (tsk s q) \<and>
       started regs (tsk s' q) = started regs (tsk s q))"
proof -
  let ?l = "last as"
  define s1 where "s1 = put_task s (Some ?l) ((tsk s ?l)\<lparr>t_next := t_next (tsk s c)\<rparr>)"
  define s2 where "s2 = s1\<lparr>current_task := t_next (tsk s c), wiped := wiped s @ [(t_stack (tsk s c), 16384)],
    tasks := (tasks s1)[c := None]\<rparr>"
  have all: "live s q" if "q \<in> set (as @ c # bs)" for q using chain_live [OF assms(1) that] .
  have l: "?l \<in> set as" "?l \<noteq> c" using assms(2,4) by auto
  have t1: "tsk s1 q = (if q = ?l then (tsk s ?l)\<lparr>t_next := t_next (tsk s c)\<rparr> else tsk s q)" "live s1 q = live s q" for q
    using all [of ?l] l live_length [of s ?l] by (cases "q = ?l"; simp add: s1_def tsk_put)+
  have "unlink_loop (length (tasks s)) (root_task s) s = Ok s1"
    using unlink_loop_chain [OF assms(1-3) chain_bounded [OF assms(1,2)]] assms(4) by (simp add: s1_def)
  moreover have c1: "current_task s1 = Some c" "wiped s1 = wiped s" "tsk s1 c = tsk s c" "live s1 c"
    using assms(3) l t1 all by (simp_all add: s1_def)
  ultimately have run: "remove_current s = Ok s2"
    by (simp add: remove_current_def s2_def)
  have t2: "tsk s2 q = tsk s1 q" "live s2 q = live s q" if "q \<noteq> c" for q
    using that t1 by (simp_all add: s2_def tsk_def live_def)
  have dead: "\<not> live s2 c" by (auto simp: s2_def live_def)
  have cut: "chain s2 p (ds @ bs)" if "chain s p (ds @ c # bs)" "distinct (ds @ c # bs)" "ds \<noteq> []" "last ds = ?l" for p ds
    using that
  proof (induction ds arbitrary: p)
    case (Cons d ds)
    then have d: "d \<noteq> c" "live s d" by auto
    show ?case
    proof (cases "ds = []")
      case True
      then have "d = ?l" "c \<notin> set bs" "?l \<notin> set bs" using Cons.prems by auto
      moreover have "live s2 q = live s q \<and> t_next (tsk s2 q) = t_next (tsk s q)" if "q \<in> set bs" for q
      proof -
        have "q \<noteq> c" "q \<noteq> ?l" using that calculation by auto
        then show ?thesis using t1 t2 by simp
      qed
      then have "chain s2 (t_next (tsk s c)) bs"
        using Cons.prems(1) True by (subst chain_cong [where s = s]) auto
      ultimately show ?thesis using Cons.prems True d t2 t1 by simp
    next
      case False
      then have "d \<noteq> ?l" using Cons.prems(2,4) last_in_set [OF False] by auto
      then show ?thesis using Cons False d t2 t1 by auto
    qed
  qed simp
  have "chain s2 (root_task s) (as @ bs)" using cut assms by blast
  moreover have "current_task s2 = (case bs of [] \<Rightarrow> None | n # _ \<Rightarrow> Some n)"
  proof -
    have "chain s (t_next (tsk s c)) bs" using assms(1) by (rule chain_tail)
    then show ?thesis by (cases bs) (simp_all add: s2_def)
  qed
  ultimately show ?thesis using run dead t1 t2
    by (intro exI [of _ s2]) (auto simp: s2_def s1_def started_def)
qed

text \<open>The switch does not look whether the next task was killed.\<close>

lemma ticks_killed:
  assumes "distinct ps" and "k < length ps"
    and "chain s (root_task s) ps" and "j < length ps" and "current_task s = Some (ps ! j)"
    and "t_state (tsk s (ps ! j)) = TASK_RUNNING" and "t_state (tsk s (ps ! k)) = TASK_KILLED" and "t_regs (tsk s (ps ! k)) = r"
    and "(j + length rs) mod length ps = k" and "\<forall>m < length rs. (j + m) mod length ps \<noteq> k" and "rs \<noteq> []"
  shows "\<exists>outs s'. ticks rs s = Ok (outs, s') \<and> outs \<noteq> [] \<and> last outs = r \<and> current_task s' = Some (ps ! k) \<and>
    t_state (tsk s' (ps ! k)) = TASK_RUNNING"
  using assms(3-)
proof (induction rs arbitrary: s j)
  case (Cons q rs)
  let ?c = "ps ! j" and ?n = "ps ! successor ps j"
  note sl = successor_less [OF Cons.prems(2)]
  obtain s1 where s1: "sched q s = Ok (if ?n = ?c then q else if t_state (tsk s ?n) = TASK_CREATED
      then started q (tsk s ?n) else t_regs (tsk s ?n), s1)"
    "chain s1 (root_task s1) ps" "current_task s1 = Some ?n" "t_state (tsk s1 ?n) = TASK_RUNNING"
    "\<forall>p. p \<noteq> ?n \<and> p \<noteq> ?c \<longrightarrow> tsk s1 p = tsk s p"
    using sched_switch [of s ps j q] assms(1) Cons.prems by auto
  have "j \<noteq> k" using Cons.prems(8) Cons.prems(2) by (metis add_0_right length_Cons mod_less zero_less_Suc)
  then have kc: "ps ! k \<noteq> ?c" using assms(1,2) Cons.prems(2) by (simp add: nth_eq_iff_index_eq)
  show ?case
  proof (cases "rs = []")
    case True
    then have "successor ps j = k" using Cons.prems(7) by (simp add: successor_def)
    then show ?thesis using True s1 kc Cons.prems(5,6) by simp
  next
    case False
    then have "successor ps j \<noteq> k" using Cons.prems(8) [rule_format, of 1] by (simp add: successor_def)
    then have "ps ! k \<noteq> ?n" using assms(1,2) sl by (simp add: nth_eq_iff_index_eq)
    then have same: "tsk s1 (ps ! k) = tsk s (ps ! k)" using s1(5) kc by blast
    have "(successor ps j + m) mod length ps \<noteq> k" if "m < length rs" for m
      using Cons.prems(8) that turn_position [OF Cons.prems(2), of m] by auto
    moreover have "(successor ps j + length rs) mod length ps = k"
      using Cons.prems(7) turn_position [OF Cons.prems(2), of "length rs"] by simp
    ultimately obtain outs s' where "ticks rs s1 = Ok (outs, s')" "last outs = r" "outs \<noteq> []"
      "current_task s' = Some (ps ! k)" "t_state (tsk s' (ps ! k)) = TASK_RUNNING"
      using Cons.IH [OF s1(2) sl s1(3,4)] Cons.prems(5,6) same False by auto
    then show ?thesis using s1(1) by simp
  qed
qed simp

lemma mod_apart:
  assumes "m < l" and "l < (n :: nat)"
  shows "(i + m) mod n \<noteq> (i + l) mod n"
proof
  assume "(i + m) mod n = (i + l) mod n"
  then have "n dvd (i + l) - (i + m)" using assms(1) by (metis add_le_cancel_left less_imp_le mod_eq_dvd_iff_nat)
  then show False using assms by (auto dest: dvd_imp_le)
qed

text \<open>The tick after the current task was killed.\<close>

lemma sched_removes:
  assumes "chain s (root_task s) ps" and "distinct ps" and "current_task s = Some c" and ps: "ps = as @ c # bs" and "as \<noteq> []"
    and "\<forall>p \<in> set ps. t_state (tsk s p) \<noteq> TASK_KILLED \<and> (t_state (tsk s p) = TASK_RUNNING \<longrightarrow> p = c)"
  shows "bs = [] \<Longrightarrow> sched regs (killed s c) = Panic"
    and "bs = n # ds \<Longrightarrow> \<exists>out s2. sched regs (killed s c) = Ok (out, s2) \<and> chain s2 (root_task s2) (as @ bs) \<and>
      \<not> live s2 c \<and> wiped s2 = wiped s @ [(t_stack (tsk s c), 16384)] \<and>
      (if t_state (tsk s n) = TASK_CREATED
       then out = started regs (tsk s n) \<and> current_task s2 = Some n \<and> t_state (tsk s2 n) = TASK_RUNNING
       else t_regs (tsk s2 n) = regs \<and> t_state (tsk s2 n) = TASK_PENDING \<and>
         current_task s2 = Some ((as @ bs) ! successor (as @ bs) (length as)))"
proof -
  have c: "c \<in> set ps" using ps by simp
  note lc = chain_live [OF assms(1) c]
  note k = killed_simps [OF lc]
  let ?s1 = "(killed s c)\<lparr>timer_tick := timer_tick (killed s c) + 1\<rparr>"
  have ch1: "chain ?s1 (root_task ?s1) (as @ c # bs)"
    using killed_chain [OF assms(1) lc] ps k by (subst chain_cong [where s = "killed s c"]) auto
  obtain s2 where s2: "remove_current ?s1 = Ok s2" "chain s2 (root_task s2) (as @ bs)" "\<not> live s2 c"
    "current_task s2 = (case bs of [] \<Rightarrow> None | n # _ \<Rightarrow> Some n)" "wiped s2 = wiped ?s1 @ [(t_stack (tsk ?s1 c), 16384)]"
    "\<forall>q. q \<noteq> c \<longrightarrow> t_regs (tsk s2 q) = t_regs (tsk ?s1 q) \<and> t_state (tsk s2 q) = t_state (tsk ?s1 q) \<and>
       started regs (tsk s2 q) = started regs (tsk ?s1 q)"
    using remove_current_chain [OF ch1, of regs] assms(2,3,5) ps k by auto
  have run: "sched regs (killed s c) = ensure (current_task s2 \<noteq> None) (bnd (task s2 (current_task s2)) (\<lambda>t.
      if t_state t = TASK_CREATED then Ok (start_task regs s2 t)
      else let s = suspend regs s2 t in bnd (task s (current_task s)) (\<lambda>t.
        if t_state t = TASK_CREATED then Ok (start_task regs s t)
        else Ok (t_regs t, put_task s (current_task s) (t\<lparr>t_state := TASK_RUNNING\<rparr>)))))"
    using s2(1) assms(3) lc k by (simp add: sched_def Let_def)
  show "sched regs (killed s c) = Panic" if "bs = []" using run s2(4) that by simp
  assume n: "bs = n # ds"
  let ?s0 = "s2\<lparr>timer_tick := timer_tick s2 - 1\<rparr>" and ?qs = "as @ bs"
  have nc: "n \<noteq> c" "distinct ?qs" "?qs ! length as = n" "n \<in> set ps" using ps assms(2) n by auto
  then have st: "t_state (tsk s2 n) = t_state (tsk s n)" "started regs (tsk s2 n) = started regs (tsk s n)"
    using s2(6) n k by (simp_all add: started_def)
  have n2: "current_task s2 = Some n" "live s2 n" using s2(2,4) n chain_live [OF s2(2), of n] by auto
  have w: "wiped s2 = wiped s @ [(t_stack (tsk s c), 16384)]" using s2(5) k by simp
  show "\<exists>out s2. sched regs (killed s c) = Ok (out, s2) \<and> chain s2 (root_task s2) (as @ bs) \<and>
      \<not> live s2 c \<and> wiped s2 = wiped s @ [(t_stack (tsk s c), 16384)] \<and>
      (if t_state (tsk s n) = TASK_CREATED
       then out = started regs (tsk s n) \<and> current_task s2 = Some n \<and> t_state (tsk s2 n) = TASK_RUNNING
       else t_regs (tsk s2 n) = regs \<and> t_state (tsk s2 n) = TASK_PENDING \<and>
         current_task s2 = Some ((as @ bs) ! successor (as @ bs) (length as)))"
  proof (cases "t_state (tsk s n) = TASK_CREATED")
    case True
    let ?s3 = "put_task s2 (Some n) ((tsk s2 n)\<lparr>t_state := TASK_RUNNING\<rparr>)"
    have "sched regs (killed s c) = Ok (started regs (tsk s n), ?s3)"
      using run n2 st True by (simp add: start_task_def started_def)
    moreover have "chain ?s3 (root_task ?s3) ?qs" using s2(2) n2(2) by (subst chain_cong [where s = s2]) (auto simp: tsk_put live_length)
    ultimately show ?thesis using True n2 s2(3) nc w by (auto simp: tsk_put)
  next
    case False
    then have p: "t_state (tsk s2 n) = TASK_PENDING" using st assms(6) nc by (cases "t_state (tsk s n)") auto
    have "sched regs (killed s c) = sched regs ?s0"
      unfolding run using n2 p by (simp add: sched_def Let_def)
    moreover have "chain ?s0 (root_task ?s0) ?qs" using s2(2) by (subst chain_cong [where s = s2]) auto
    moreover have "length as < length ?qs" using n by simp
    moreover have "?qs ! successor ?qs (length as) \<noteq> n"
    proof -
      have "successor ?qs (length as) \<noteq> length as"
        using assms(5) n by (cases "Suc (length as) < length ?qs") (auto simp: successor_def mod_if)
      then show ?thesis
        using nc n successor_less [of "length as" ?qs] nth_eq_iff_index_eq [of ?qs "successor ?qs (length as)" "length as"] by simp
    qed
    ultimately show ?thesis
      using sched_switch [of ?s0 ?qs "length as" regs] False nc p n2 s2(3) w by auto
  qed
qed

subsection \<open>Properties\<close>

text \<open>
  C30. The tasks take turns and keep their registers.  From a state with the tasks \<open>ps\<close>, none of them
  killed, the \<open>k\<close>-th tick of the timer switches to the \<open>k\<close>-th task after the current one, around the list,
  for every \<open>k\<close>; after as many ticks as there are tasks the interrupted task goes on with exactly the
  registers it was interrupted with, whatever the other tasks did.
\<close>

theorem sched_round:
  assumes "ready s ps i" and "t_state (tsk s (ps ! i)) = TASK_RUNNING" and "Suc (length rs) = length ps"
  shows "(\<exists>outs s'. ticks (r # rs) s = Ok (outs, s') \<and> last outs = r) \<and>
    (\<forall>rs'. \<exists>outs s'. ticks rs' s = Ok (outs, s') \<and> ready s' ps ((i + length rs') mod length ps) \<and>
      current_task s' = Some (ps ! ((i + length rs') mod length ps)))"
proof
  have run: "running s ps i" using assms(1,2) by (simp add: running_def)
  have i: "i < length ps" "distinct ps" using assms(1) by (auto simp: ready_def)
  obtain s1 where s1: "sched r s = Ok (if ps ! successor ps i = ps ! i then r else
      if t_state (tsk s (ps ! successor ps i)) = TASK_CREATED then started r (tsk s (ps ! successor ps i))
      else t_regs (tsk s (ps ! successor ps i)), s1)" "running s1 ps (successor ps i)"
    "ps ! successor ps i \<noteq> ps ! i \<longrightarrow> tsk s1 (ps ! i) = (tsk s (ps ! i))\<lparr>t_regs := r, t_state := TASK_PENDING\<rparr>"
    using sched_turn [OF assms(1,2), of r] by (auto simp: running_def)
  show "\<exists>outs s'. ticks (r # rs) s = Ok (outs, s') \<and> last outs = r"
  proof (cases "rs = []")
    case True
    then have "successor ps i = i" using assms(3) i by (cases ps) (auto simp: successor_def)
    then show ?thesis using True s1(1) by simp
  next
    case False
    have neq: "(i + Suc m) mod length ps \<noteq> i" if "m < length rs" for m
    proof (cases "i + Suc m < length ps")
      case False
      then have "(i + Suc m) mod length ps = i + Suc m - length ps" using that i assms(3) by (simp add: mod_if)
      then show ?thesis using that assms(3) False by linarith
    qed simp
    have "successor ps i \<noteq> i" using neq [of 0] False by (simp add: successor_def)
    then have "ps ! successor ps i \<noteq> ps ! i" using i successor_less [OF i(1)] by (simp add: nth_eq_iff_index_eq)
    moreover have "(successor ps i + length rs) mod length ps = i"
      using turn_position [OF i(1), of "length rs"] assms(3) i(1) by simp
    moreover have "(successor ps i + m) mod length ps \<noteq> i" if "m < length rs" for m
      using turn_position [OF i(1), of m] neq that by simp
    ultimately obtain outs s' where "ticks rs s1 = Ok (outs, s')" "last outs = r" "outs \<noteq> []"
      using ticks_resume [OF s1(2) i(1), of r rs] s1(3) False by auto
    then show ?thesis using s1(1) by simp
  qed
  show "\<forall>rs'. \<exists>outs s'. ticks rs' s = Ok (outs, s') \<and> ready s' ps ((i + length rs') mod length ps) \<and>
      current_task s' = Some (ps ! ((i + length rs') mod length ps))"
    using ticks_position [OF run] ready_cur(3) by (fastforce simp: running_def)
qed

text \<open>Three tasks, of which the second runs.\<close>

definition demo_task :: "int \<Rightarrow> nat option \<Rightarrow> TASK_STATE \<Rightarrow> task_struct" where
  "demo_task pid nxt st = \<lparr>t_pid = pid, t_name = bytes_of ''task'', t_regs = no_registers\<lparr>r_eip := of_int pid\<rparr>,
     t_stack = 0x4000, t_entry = 0x1000, t_next = nxt, t_state = st\<rparr>"

definition demo_sched :: sched_state where
  "demo_sched = \<lparr>tasks = [Some (demo_task 0 (Some 1) TASK_PENDING), Some (demo_task 1 (Some 2) TASK_RUNNING),
     Some (demo_task 2 None TASK_PENDING)], root_task = Some 0, current_task = Some 1, nextpid = 3, timer_tick = 7,
     wiped = []\<rparr>"

lemma demo_sched_ready: "ready demo_sched [0, 1, 2] 1" "t_state (tsk demo_sched 1) = TASK_RUNNING"
  by (simp_all add: ready_def demo_sched_def demo_task_def live_def tsk_def)

lemma sched_round_witness:
  "\<exists>outs s'. ticks [no_registers, no_registers, no_registers] demo_sched = Ok (outs, s') \<and> last outs = no_registers"
  using sched_round [of demo_sched "[0, 1, 2]" 1 "[no_registers, no_registers]" no_registers] demo_sched_ready by simp

text \<open>
  C31. As long as no task is killed, the scheduler keeps its list of tasks: in every state that is reached
  from \<open>sched_init\<close> by creating tasks and by ticks, the tasks form a list without repetition from
  \<open>root_task\<close>, the current task is one of them and no other one is running.  A tick then never panics or
  faults and leaves a task running, and a task can be created.
\<close>

theorem sched_invariant:
  assumes "reachable s"
  shows "(\<exists>ps i. ready s ps i) \<and> (\<exists>out s' ps j. sched regs s = Ok (out, s') \<and> ready s' ps j \<and>
      t_state (tsk s' (ps ! j)) = TASK_RUNNING) \<and> (\<exists>s'. create_task entry name mem junk s = Ok s')"
proof -
  obtain ps i where r: "ready s ps i" using reachable_ready [OF assms] by blast
  then show ?thesis using sched_ready [OF r, of regs] create_task_ready [OF r, of entry name mem junk] by blast
qed

lemma sched_invariant_witness:
  "\<exists>out s'. sched no_registers (sched_init 0x1000 0x2000 boot_state) = Ok (out, s')"
  using sched_invariant [OF reachable.init] by blast

text \<open>
  C32. What becomes of a killed task.  If a task other than the current one is killed, wherever it is in the list,
  the kill is lost: when its turn comes it goes on with the registers saved in its structure (also if it had never been
  started), and its state says that it is running.  If the current task, which is not the first of the list, is killed,
  the next tick frees it, overwrites the 16 KiB above its stack with zeros, and panics if it was the last of the
  list; otherwise a successor that was never started is started, but one that was is not resumed: the
  registers of the killed task are saved as its own, and the task behind it (or the first) becomes the current one.
\<close>

theorem kill_effects:
  assumes "ready s ps i" and "t_state (tsk s (ps ! i)) = TASK_RUNNING" and "inj_on (\<lambda>p. t_pid (tsk s p)) (set ps)"
  shows "(\<forall>k rs. k < length ps \<and> k \<noteq> i \<and> length rs < length ps \<and> (i + length rs) mod length ps = k \<longrightarrow>
      (\<exists>s1 outs s2. kill_task (t_pid (tsk s (ps ! k))) s = Ok s1 \<and> t_state (tsk s1 (ps ! k)) = TASK_KILLED \<and>
        ticks rs s1 = Ok (outs, s2) \<and> last outs = t_regs (tsk s (ps ! k)) \<and>
        current_task s2 = Some (ps ! k) \<and> t_state (tsk s2 (ps ! k)) = TASK_RUNNING)) \<and>
    (\<forall>as c bs. ps = as @ c # bs \<and> as \<noteq> [] \<and> i = length as \<longrightarrow>
      (\<exists>s1. kill_task (t_pid (tsk s c)) s = Ok s1 \<and>
        (bs = [] \<longrightarrow> sched regs s1 = Panic) \<and>
        (\<forall>n ds. bs = n # ds \<longrightarrow>
          (\<exists>out s2. sched regs s1 = Ok (out, s2) \<and> chain s2 (root_task s2) (as @ bs) \<and> \<not> live s2 c \<and>
            wiped s2 = wiped s @ [(t_stack (tsk s c), 16384)] \<and>
            (if t_state (tsk s n) = TASK_CREATED
             then out = started regs (tsk s n) \<and> current_task s2 = Some n \<and> t_state (tsk s2 n) = TASK_RUNNING
             else t_regs (tsk s2 n) = regs \<and> t_state (tsk s2 n) = TASK_PENDING \<and>
               current_task s2 = Some ((as @ bs) ! successor (as @ bs) (length as)))))))"
proof (intro conjI allI impI)
  have ch: "chain s (root_task s) ps" "i < length ps" "distinct ps" "current_task s = Some (ps ! i)"
    using assms(1) by (auto simp: ready_def)
  fix k and rs :: "registers list"
  assume k: "k < length ps \<and> k \<noteq> i \<and> length rs < length ps \<and> (i + length rs) mod length ps = k"
  let ?q = "ps ! k"
  have q: "?q \<in> set ps" "ps ! i \<noteq> ?q" using k ch(2,3) by (auto simp: nth_eq_iff_index_eq)
  note lq = chain_live [OF ch(1) q(1)]
  note s = killed_simps [OF lq]
  have "chain (killed s ?q) (root_task (killed s ?q)) ps" using killed_chain [OF ch(1) lq] s by simp
  moreover have "\<forall>m < length rs. (i + m) mod length ps \<noteq> k" using mod_apart k by metis
  moreover have "rs \<noteq> []" using k ch(2) by auto
  ultimately obtain outs s2 where "ticks rs (killed s ?q) = Ok (outs, s2)" "last outs = t_regs (tsk s ?q)"
      "current_task s2 = Some ?q" "t_state (tsk s2 ?q) = TASK_RUNNING"
    using ticks_killed [OF ch(3), of k "killed s ?q" i "t_regs (tsk s ?q)" rs] k ch(2,4) assms(2) q(2) s by auto
  then show "\<exists>s1 outs s2. kill_task (t_pid (tsk s ?q)) s = Ok s1 \<and> t_state (tsk s1 ?q) = TASK_KILLED \<and>
        ticks rs s1 = Ok (outs, s2) \<and> last outs = t_regs (tsk s ?q) \<and>
        current_task s2 = Some ?q \<and> t_state (tsk s2 ?q) = TASK_RUNNING"
    using kill_task_chain [OF ch(1,3) q(1) assms(3)] s(1) [of ?q] by auto
next
  fix as c bs assume ps: "ps = as @ c # bs \<and> as \<noteq> [] \<and> i = length as"
  have ch: "chain s (root_task s) ps" "distinct ps" "current_task s = Some c" "c \<in> set ps"
    using assms(1) ps by (auto simp: ready_def)
  note kill = kill_task_chain [OF ch(1,2,4) assms(3)] and lc = chain_live [OF ch(1,4)]
  show "\<exists>s1. kill_task (t_pid (tsk s c)) s = Ok s1 \<and> (bs = [] \<longrightarrow> sched regs s1 = Panic) \<and>
        (\<forall>n ds. bs = n # ds \<longrightarrow>
          (\<exists>out s2. sched regs s1 = Ok (out, s2) \<and> chain s2 (root_task s2) (as @ bs) \<and> \<not> live s2 c \<and>
            wiped s2 = wiped s @ [(t_stack (tsk s c), 16384)] \<and>
            (if t_state (tsk s n) = TASK_CREATED
             then out = started regs (tsk s n) \<and> current_task s2 = Some n \<and> t_state (tsk s2 n) = TASK_RUNNING
             else t_regs (tsk s2 n) = regs \<and> t_state (tsk s2 n) = TASK_PENDING \<and>
               current_task s2 = Some ((as @ bs) ! successor (as @ bs) (length as)))))"
    using sched_removes [OF ch(1-3) ps [THEN conjunct1] ps [THEN conjunct2, THEN conjunct1]] assms(1) ps
    by (intro exI [of _ "killed s c"] conjI kill) (auto simp: ready_def)
qed

lemma kill_effects_witness:
  "(\<exists>s1. kill_task 1 demo_sched = Ok s1 \<and>
      (\<exists>out s2. sched no_registers s1 = Ok (out, s2) \<and> t_regs (tsk s2 2) = no_registers \<and> current_task s2 = Some 0)) \<and>
    (\<exists>s1 outs s2. kill_task 0 demo_sched = Ok s1 \<and> ticks [no_registers, no_registers] s1 = Ok (outs, s2) \<and>
      last outs = no_registers\<lparr>r_eip := 0\<rparr> \<and> t_state (tsk s2 0) = TASK_RUNNING)"
proof -
  have inj: "inj_on (\<lambda>p. t_pid (tsk demo_sched p)) (set [0, 1, 2])"
    by (auto simp: inj_on_def demo_sched_def demo_task_def tsk_def)
  have t: "tsk demo_sched 0 = demo_task 0 (Some 1) TASK_PENDING" "tsk demo_sched 1 = demo_task 1 (Some 2) TASK_RUNNING"
    "tsk demo_sched 2 = demo_task 2 None TASK_PENDING"
    by (simp_all add: demo_sched_def tsk_def)
  have run: "t_state (tsk demo_sched ([0, 1, 2] ! 1)) = TASK_RUNNING" using demo_sched_ready(2) by simp
  note e = kill_effects [where regs = no_registers, OF demo_sched_ready(1) run inj]
  have one: "\<exists>s1 outs s2. kill_task 0 demo_sched = Ok s1 \<and> ticks [no_registers, no_registers] s1 = Ok (outs, s2) \<and>
      last outs = no_registers\<lparr>r_eip := 0\<rparr> \<and> t_state (tsk s2 0) = TASK_RUNNING"
    using e [THEN conjunct1, rule_format, of 0 "[no_registers, no_registers]"] t(1) by (auto simp: demo_task_def)
  have "\<exists>s1. kill_task 1 demo_sched = Ok s1 \<and>
      (\<exists>out s2. sched no_registers s1 = Ok (out, s2) \<and> t_regs (tsk s2 2) = no_registers \<and> current_task s2 = Some 0)"
    using e [THEN conjunct2, rule_format, of "[0]" 1 "[2]"] t(2,3) by (fastforce simp: demo_task_def successor_def)
  then show ?thesis using one by blast
qed

end
