(* ===== verification/Krn_Machine.thy ===== *)
theory Krn_Machine
  imports Lai_Resource
begin

text \<open>
  The processor as the C code of the kernel sees it: memory, \<open>base/include/io.h\<close> and accesses to device memory.
  The devices are not part of the sources: their state is a type \<open>'d\<close>, and a record of functions gives the
  effect of every access, by width in bits.
\<close>

record 'd machine =
  p_in :: "nat \<Rightarrow> u16 \<Rightarrow> 'd \<Rightarrow> u64 \<times> 'd"
  p_out :: "nat \<Rightarrow> u16 \<Rightarrow> u64 \<Rightarrow> 'd \<Rightarrow> 'd"
  m_load :: "nat \<Rightarrow> u32 \<Rightarrow> 'd \<Rightarrow> u64 \<times> 'd"
  m_store :: "nat \<Rightarrow> u32 \<Rightarrow> u64 \<Rightarrow> 'd \<Rightarrow> 'd"

definition outb :: "'d machine \<Rightarrow> u16 \<Rightarrow> u8 \<Rightarrow> 'd \<Rightarrow> 'd" where
  "outb m port val d = p_out m 8 port (ucast val) d"

definition outw :: "'d machine \<Rightarrow> u16 \<Rightarrow> u16 \<Rightarrow> 'd \<Rightarrow> 'd" where
  "outw m port val d = p_out m 16 port (ucast val) d"

definition outl :: "'d machine \<Rightarrow> u16 \<Rightarrow> u32 \<Rightarrow> 'd \<Rightarrow> 'd" where
  "outl m port val d = p_out m 32 port (ucast val) d"

definition inb :: "'d machine \<Rightarrow> u16 \<Rightarrow> 'd \<Rightarrow> u8 \<times> 'd" where
  "inb m port d = (case p_in m 8 port d of (v, d) \<Rightarrow> (ucast v, d))"

definition inw :: "'d machine \<Rightarrow> u16 \<Rightarrow> 'd \<Rightarrow> u16 \<times> 'd" where
  "inw m port d = (case p_in m 16 port d of (v, d) \<Rightarrow> (ucast v, d))"

definition inl :: "'d machine \<Rightarrow> u16 \<Rightarrow> 'd \<Rightarrow> u32 \<times> 'd" where
  "inl m port d = (case p_in m 32 port d of (v, d) \<Rightarrow> (ucast v, d))"

definition load32 :: "'d machine \<Rightarrow> u32 \<Rightarrow> 'd \<Rightarrow> u32 \<times> 'd" where
  "load32 m a d = (case m_load m 32 a d of (v, d) \<Rightarrow> (ucast v, d))"

definition store32 :: "'d machine \<Rightarrow> u32 \<Rightarrow> u32 \<Rightarrow> 'd \<Rightarrow> 'd" where
  "store32 m a v d = m_store m 32 a (ucast v) d"

subsection \<open>Memory\<close>

text \<open>Memory that is no device, by address, and the little-endian words in it.\<close>

type_synonym kernel_mem = "u32 \<Rightarrow> u8"

definition mem_le16 :: "kernel_mem \<Rightarrow> u32 \<Rightarrow> u16" where
  "mem_le16 mem a = le16 (mem a) (mem (a + 1))"

definition mem_le32 :: "kernel_mem \<Rightarrow> u32 \<Rightarrow> u32" where
  "mem_le32 mem a = le32 (mem a) (mem (a + 1)) (mem (a + 2)) (mem (a + 3))"

definition mem_le64 :: "kernel_mem \<Rightarrow> u32 \<Rightarrow> u64" where
  "mem_le64 mem a = ucast (mem_le32 mem a) OR push_bit 32 (ucast (mem_le32 mem (a + 4)))"

definition mem_put32 :: "kernel_mem \<Rightarrow> u32 \<Rightarrow> u32 \<Rightarrow> kernel_mem" where
  "mem_put32 mem a v = mem(a := ucast v, a + 1 := ucast (drop_bit 8 v), a + 2 := ucast (drop_bit 16 v),
     a + 3 := ucast (drop_bit 24 v))"

fun mem_put_bytes :: "kernel_mem \<Rightarrow> u32 \<Rightarrow> u8 list \<Rightarrow> kernel_mem" where
  "mem_put_bytes mem a [] = mem"
| "mem_put_bytes mem a (b # bs) = mem_put_bytes (mem(a := b)) (a + 1) bs"

lemma mem_le32_put32: "mem_le32 (mem_put32 mem a v) a = v"
proof -
  have "(ucast (ucast v :: u8) :: u32) OR push_bit 8 (ucast (ucast (drop_bit 8 v) :: u8)) OR
      push_bit 16 (ucast (ucast (drop_bit 16 v) :: u8)) OR push_bit 24 (ucast (ucast (drop_bit 24 v) :: u8)) = v"
  proof (rule bit_word_eqI)
    fix n assume "n < LENGTH(32)"
    then consider "n < 8" | "8 \<le> n \<and> n < 16" | "16 \<le> n \<and> n < 24" | "24 \<le> n \<and> n < 32" by fastforce
    then show "bit ((ucast (ucast v :: u8) :: u32) OR push_bit 8 (ucast (ucast (drop_bit 8 v) :: u8)) OR
      push_bit 16 (ucast (ucast (drop_bit 16 v) :: u8)) OR push_bit 24 (ucast (ucast (drop_bit 24 v) :: u8))) n = bit v n"
      by cases (auto simp: bit_simps)
  qed
  then show ?thesis by (simp add: mem_le32_def le32_def mem_put32_def)
qed

text \<open>Addresses as natural numbers.\<close>

lemma of_nat_addr_eq:
  assumes "n < 2 ^ 32" and "m < 2 ^ 32"
  shows "(of_nat n :: u32) = of_nat m \<longleftrightarrow> n = m"
  using assms by (simp add: word_of_nat_eq_iff take_bit_nat_eq_self_iff [THEN iffD2])

lemma put32_other:
  assumes "a + 4 \<le> 2 ^ 32" and "n < 2 ^ 32" and "n < a \<or> a + 4 \<le> n"
  shows "mem_put32 mem (of_nat a) v (of_nat n) = mem (of_nat n)"
proof -
  have "(of_nat n :: u32) \<noteq> of_nat a + of_nat k" if "k < 4" for k
    unfolding of_nat_add [symmetric] using assms that by (subst of_nat_addr_eq) auto
  from this [of 0] this [of 1] this [of 2] this [of 3] show ?thesis by (simp add: mem_put32_def)
qed

lemma put_bytes_at:
  assumes "a + length bs \<le> 2 ^ 32" and "n < 2 ^ 32"
  shows "mem_put_bytes mem (of_nat a) bs (of_nat n) = (if a \<le> n \<and> n < a + length bs then bs ! (n - a) else mem (of_nat n))"
  using assms
proof (induction bs arbitrary: a mem)
  case (Cons b bs)
  have e: "(of_nat n :: u32) = of_nat a \<longleftrightarrow> n = a" using Cons.prems by (intro of_nat_addr_eq) simp_all
  have "mem_put_bytes (mem(of_nat a := b)) (of_nat (Suc a)) bs (of_nat n) =
      (if Suc a \<le> n \<and> n < Suc a + length bs then bs ! (n - Suc a) else (mem(of_nat a := b)) (of_nat n))"
    using Cons by (intro Cons.IH) simp_all
  then show ?case by (auto simp: e add.commute nth_Cons' Suc_le_eq)
qed auto

end
