(* ===== verification/Lai_Tables.thy ===== *)
theory Lai_Tables
  imports Lai_Power Krn_Machine
begin

text \<open>
  The tables of the firmware: the layout of \<open>acpispec/tables.h\<close> and the creation of the namespace from them,
  \<open>lai_create_namespace\<close> and \<open>lai_load_table\<close> of \<open>lai/core/ns.c\<close>.

  \<open>mem\<close> is the physical memory, which holds the tables and is not written here.  \<open>scan\<close> is \<open>laihost_scan\<close>:
  the address of the table with a signature and an index, 0 if there is none.  The theory shows that the
  loops over the secondary tables end and load every table of the firmware once, in order.
\<close>

subsection \<open>Layout\<close>

text \<open>
  The structures are packed, and hold members of type \<open>uint64_t\<close>, whose size in bytes is the parameter \<open>u\<close>: 8 for
  the layout of the ACPI specification, 4 in a build with the kernel's \<open>base/include/stdint.h\<close>, where the type
  is \<open>unsigned long\<close>.
\<close>

definition mem_uint64 :: "nat \<Rightarrow> kernel_mem \<Rightarrow> u32 \<Rightarrow> u64" where
  "mem_uint64 u mem a = (if u = 4 then ucast (mem_le32 mem a) else mem_le64 mem a)"

definition gas_of :: "nat \<Rightarrow> kernel_mem \<Rightarrow> u32 \<Rightarrow> acpi_gas" where
  "gas_of u mem a = \<lparr>gas_address_space = mem a, gas_bit_width = mem (a + 1), gas_bit_offset = mem (a + 2),
     gas_base = mem_uint64 u mem (a + 4)\<rparr>"

definition sizeof_gas :: "nat \<Rightarrow> u32" where "sizeof_gas u = of_nat (4 + u)"

text \<open>The members of \<open>acpi_fadt_t\<close>; from \<open>reset_register\<close> on their offsets depend on the size of \<open>uint64_t\<close>.\<close>

definition fadt_of :: "nat \<Rightarrow> kernel_mem \<Rightarrow> u32 \<Rightarrow> acpi_fadt" where
  "fadt_of u mem a =
     (let reset = a + 116; wide = reset + sizeof_gas u + 4; blocks = wide + 2 * of_nat u in
     \<lparr>fa_revision = mem (a + 8), smi_command_port = mem_le32 mem (a + 48), acpi_enable = mem (a + 52),
      acpi_disable = mem (a + 53), pm1a_event_block = mem_le32 mem (a + 56), pm1b_event_block = mem_le32 mem (a + 60),
      pm1a_control_block = mem_le32 mem (a + 64), pm1b_control_block = mem_le32 mem (a + 68),
      pm_timer_block = mem_le32 mem (a + 76), pm1_event_length = mem (a + 88), pm_timer_length = mem (a + 91),
      fa_flags = mem_le32 mem (a + 112), reset_register = gas_of u mem reset, reset_command = mem (reset + sizeof_gas u),
      x_pm_timer_block = gas_of u mem (blocks + 5 * sizeof_gas u), sleep_control_reg = gas_of u mem (blocks + 8 * sizeof_gas u)\<rparr>)"

text \<open>With 8 bytes the offsets are those of the specification.\<close>

lemma fadt_of_specification:
  "reset_command (fadt_of 8 mem a) = mem (a + 128)" "x_pm_timer_block (fadt_of 8 mem a) = gas_of 8 mem (a + 208)"
  "sleep_control_reg (fadt_of 8 mem a) = gas_of 8 mem (a + 244)"
  by (simp_all add: fadt_of_def sizeof_gas_def Let_def add.commute)

definition sizeof_header :: nat where "sizeof_header = 36"

definition header_length :: "kernel_mem \<Rightarrow> u32 \<Rightarrow> nat" where
  "header_length mem a = unat (mem_le32 mem (a + 4))"

text \<open>The code of an AML table.  A length below that of the header would wrap around.\<close>

definition table_data :: "kernel_mem \<Rightarrow> u32 \<Rightarrow> u8 list outcome" where
  "table_data mem a = guard (sizeof_header \<le> header_length mem a)
     (Ok (map (\<lambda>i. mem (a + of_nat i)) [sizeof_header..<header_length mem a]))"

subsection \<open>Loading\<close>

record lai_aml_segment =
  am_table :: u32
  am_index :: nat

definition lai_load_table :: "'d lai_world \<Rightarrow> lai_aml_segment list \<Rightarrow> u32 \<Rightarrow> nat \<Rightarrow>
    (nat \<times> 'd lai_world \<times> lai_aml_segment list) outcome" where
  "lai_load_table w segs ptr index =
     (let (ok, w) = laihost_malloc w in
      ensure ok (Ok (length segs, w, segs @ [\<lparr>am_table = ptr, am_index = index\<rparr>])))"

text \<open>One table is run; the result of \<open>lai_populate\<close> is not looked at.\<close>

definition load_one :: "nat \<Rightarrow> 'd exec_env \<Rightarrow> kernel_mem \<Rightarrow> nat \<Rightarrow> u32 \<Rightarrow> nat \<Rightarrow> 'd lai_world \<times> lai_aml_segment list \<Rightarrow>
    ('d lai_world \<times> lai_aml_segment list) outcome" where
  "load_one fuel env mem root ptr index ws =
     bnd (lai_load_table (fst ws) (snd ws) ptr index) (\<lambda>(amls, w, segs).
     bnd (table_data mem ptr) (\<lambda>data.
     bnd (lai_populate fuel env w lai_init_state root amls data) (\<lambda>(status, w, st).
     bnd (lai_finalize_state w st) (\<lambda>(w, st). Ok (w, segs)))))"

text \<open>\<open>while ((table = laihost_scan (sig, index)))\<close>.\<close>

fun load_tables :: "nat \<Rightarrow> nat \<Rightarrow> 'd exec_env \<Rightarrow> kernel_mem \<Rightarrow> (u8 list \<Rightarrow> nat \<Rightarrow> u32) \<Rightarrow> u8 list \<Rightarrow> nat \<Rightarrow> nat \<Rightarrow>
    'd lai_world \<times> lai_aml_segment list \<Rightarrow> ('d lai_world \<times> lai_aml_segment list) outcome" where
  "load_tables 0 fuel env mem scan sig root index ws = Stuck"
| "load_tables (Suc rounds) fuel env mem scan sig root index ws =
     (let ptr = scan sig index in
      if ptr = 0 then Ok ws
      else bnd (load_one fuel env mem root ptr index ws) (\<lambda>ws.
        load_tables rounds fuel env mem scan sig root (Suc index) ws))"

definition signature :: "string \<Rightarrow> u8 list" where
  "signature s = bytes_of s @ [0]"

definition lai_create_namespace :: "nat \<Rightarrow> nat \<Rightarrow> nat \<Rightarrow> 'd exec_env \<Rightarrow> kernel_mem \<Rightarrow> (u8 list \<Rightarrow> nat \<Rightarrow> u32) option \<Rightarrow>
    'd lai_world \<Rightarrow> (lai_fixed \<times> 'd lai_world \<times> lai_aml_segment list) outcome" where
  "lai_create_namespace u rounds fuel env mem laihost_scan w =
     (case laihost_scan of None \<Rightarrow> Panic
      | Some scan \<Rightarrow>
         let fadt = scan (signature ''FACP'') 0 in
         ensure (fadt \<noteq> 0) (
         let fx = \<lparr>fx_fadt = Some (fadt_of u mem fadt),
                   is_hw_reduced = (drop_bit 20 (fa_flags (fadt_of u mem fadt)) AND 1 \<noteq> 0)\<rparr> in
         bnd (lai_create_root w) (\<lambda>(root, w).
         let dsdt = scan (signature ''DSDT'') 0 in
         ensure (dsdt \<noteq> 0) (
         bnd (load_one fuel env mem root dsdt 0 (w, [])) (\<lambda>ws.
         bnd (load_tables rounds fuel env mem scan (signature ''SSDT'') root 0 ws) (\<lambda>ws.
         bnd (load_tables rounds fuel env mem scan (signature ''PSDT'') root 0 ws) (\<lambda>(w, segs).
         Ok (fx, w, segs))))))))"

subsection \<open>The order of the tables\<close>

text \<open>The tables of one signature are those the scan gives, from index 0 on.\<close>

definition scan_lists :: "(u8 list \<Rightarrow> nat \<Rightarrow> u32) \<Rightarrow> u8 list \<Rightarrow> u32 list \<Rightarrow> bool" where
  "scan_lists scan sig ts \<longleftrightarrow> 0 \<notin> set ts \<and> (\<forall>i. scan sig i = (if i < length ts then ts ! i else 0))"

fun load_all :: "nat \<Rightarrow> 'd exec_env \<Rightarrow> kernel_mem \<Rightarrow> nat \<Rightarrow> (u32 \<times> nat) list \<Rightarrow>
    'd lai_world \<times> lai_aml_segment list \<Rightarrow> ('d lai_world \<times> lai_aml_segment list) outcome" where
  "load_all fuel env mem root [] ws = Ok ws"
| "load_all fuel env mem root ((ptr, index) # ts) ws =
     bnd (load_one fuel env mem root ptr index ws) (load_all fuel env mem root ts)"

definition indexed :: "nat \<Rightarrow> u32 list \<Rightarrow> (u32 \<times> nat) list" where
  "indexed k ts = zip ts [k..<k + length ts]"

lemma load_all_append: "load_all fuel env mem root (xs @ ys) ws =
    bnd (load_all fuel env mem root xs ws) (load_all fuel env mem root ys)"
  by (induction xs arbitrary: ws) (auto simp: bnd_assoc intro!: bnd_cong)

lemma load_tables_all:
  assumes "scan_lists scan sig ts" and "length ts - k < rounds" and "k \<le> length ts"
  shows "load_tables rounds fuel env mem scan sig root k ws = load_all fuel env mem root (indexed k (drop k ts)) ws"
  using assms
proof (induction "length ts - k" arbitrary: k rounds ws)
  case 0
  then show ?case by (cases rounds) (simp_all add: scan_lists_def indexed_def)
next
  case (Suc n)
  then obtain r where r: "rounds = Suc r" "k < length ts" by (cases rounds) auto
  have nz: "ts ! k \<noteq> 0" using Suc.prems(1) r(2) by (metis nth_mem scan_lists_def)
  have "indexed k (drop k ts) = (ts ! k, k) # indexed (Suc k) (drop (Suc k) ts)"
  proof -
    have "k + length (drop k ts) = length ts" "Suc k + length (drop (Suc k) ts) = length ts" using r(2) by simp_all
    then show ?thesis using r(2) unfolding indexed_def
      by (simp only: Cons_nth_drop_Suc [of k ts, symmetric] upt_conv_Cons [of k "length ts"] zip_Cons_Cons)
  qed
  moreover have "load_tables r fuel env mem scan sig root (Suc k) =
      load_all fuel env mem root (indexed (Suc k) (drop (Suc k) ts))"
  proof (rule ext, rule Suc.hyps(1))
    show "n = length ts - Suc k" "length ts - Suc k < r" "Suc k \<le> length ts" using Suc.hyps(2) Suc.prems(2) r by linarith+
  qed (rule Suc.prems(1))
  ultimately show ?case using r nz Suc.prems(1) by (simp add: scan_lists_def)
qed

text \<open>What is recorded of the tables that were loaded.\<close>

lemma load_one_segs:
  assumes "load_one fuel env mem root ptr index (w, segs) = Ok (w', segs')"
  shows "segs' = segs @ [\<lparr>am_table = ptr, am_index = index\<rparr>]"
  using assms by (auto simp: load_one_def lai_load_table_def bnd_eq_Ok ensure_eq_Ok split: prod.splits)

lemma load_all_segs:
  "load_all fuel env mem root ts (w, segs) = Ok (w', segs') \<Longrightarrow>
     segs' = segs @ map (\<lambda>(ptr, index). \<lparr>am_table = ptr, am_index = index\<rparr>) ts"
proof (induction ts arbitrary: w segs)
  case (Cons t ts)
  obtain ptr index where t: "t = (ptr, index)" by (cases t)
  with Cons.prems obtain w1 s1 where 1: "load_one fuel env mem root ptr index (w, segs) = Ok (w1, s1)"
    "load_all fuel env mem root ts (w1, s1) = Ok (w', segs')" by (auto simp: bnd_eq_Ok)
  show ?case using Cons.IH [OF 1(2)] load_one_segs [OF 1(1)] by (simp add: t)
qed simp

text \<open>A table that is no more than its header is loaded in one round.\<close>

lemma populate_empty:
  "\<exists>st. lai_populate (Suc fuel) env w lai_init_state root amls [] = Ok (LAI_ERROR_NONE, w, st) \<and>
     ctxstack_ptr st = -1 \<and> blkstack_ptr st = -1 \<and> stack_ptr st = -1 \<and> opstack_ptr st = 0"
  by (simp add: lai_populate_def reserve_def lai_exec_reserve_ctxstack_def lai_exec_reserve_blkstack_def
      lai_exec_reserve_stack_def lai_init_state_def small_sizes push_context_def push_block_def push_item_def
      lai_exec_push_ctxstack_def lai_exec_push_blkstack_def lai_exec_push_stack_def put_blk_def put_item_def
      put_slot_def slot_def lai_exec_run.simps lai_exec_peek_stack_back_def lai_exec_peek_stack_def lai_exec_process_def
      lai_exec_peek_ctxstack_back_def lai_exec_peek_blkstack_back_def process_item_def process_populate_def
      pop_context_block_item_def lai_exec_pop_ctxstack_back_def lai_exec_pop_blkstack_back_def lai_exec_pop_stack_back_def)

lemma finalize_empty:
  assumes "ctxstack_ptr st = -1" and "blkstack_ptr st = -1" and "stack_ptr st = -1" and "opstack_ptr st = 0"
  shows "\<exists>st'. lai_finalize_state w st = Ok (w, st')"
  using assms
  by (simp add: lai_finalize_state_def pop_contexts.simps pop_blocks.simps pop_items.simps lai_exec_pop_opstack_def)

lemma load_empty:
  assumes "header_length mem ptr = sizeof_header" and "\<forall>k. mem_ok w k"
  shows "\<exists>w'. load_one (Suc fuel) env mem root ptr index (w, segs) = Ok (w', segs @ [\<lparr>am_table = ptr, am_index = index\<rparr>]) \<and>
    (\<forall>k. mem_ok w' k)"
proof -
  let ?w = "w\<lparr>mem_clock := Suc (mem_clock w)\<rparr>"
  have d: "table_data mem ptr = Ok []" using assms(1) by (simp add: table_data_def)
  obtain st where 1: "lai_populate (Suc fuel) env ?w lai_init_state root (length segs) [] = Ok (LAI_ERROR_NONE, ?w, st)"
    and st: "ctxstack_ptr st = -1" "blkstack_ptr st = -1" "stack_ptr st = -1" "opstack_ptr st = 0"
    using populate_empty by metis
  obtain st' where "lai_finalize_state ?w st = Ok (?w, st')" using finalize_empty [OF st] by metis
  with 1 d assms(2) show ?thesis by (simp add: load_one_def lai_load_table_def laihost_malloc_def)
qed

lemma load_all_empty:
  assumes "\<forall>t \<in> set ts. header_length mem (fst t) = sizeof_header" and "\<forall>k. mem_ok w k"
  shows "\<exists>w' segs'. load_all (Suc fuel) env mem root ts (w, segs) = Ok (w', segs')"
  using assms
proof (induction ts arbitrary: w segs)
  case (Cons t ts)
  obtain ptr index where t: "t = (ptr, index)" by (cases t)
  with Cons.prems obtain w1 where 1: "load_one (Suc fuel) env mem root ptr index (w, segs) =
      Ok (w1, segs @ [\<lparr>am_table = ptr, am_index = index\<rparr>])" "\<forall>k. mem_ok w1 k"
    using load_empty by fastforce
  show ?case using Cons.IH [OF _ 1(2)] Cons.prems(1) 1(1) by (simp add: t)
qed simp

text \<open>Creating the root keeps the answers of the host to later allocations.\<close>

lemma install_keeps_mem: "lai_install_nsnode w p = Ok (e, w') \<Longrightarrow> mem_ok w' = mem_ok w"
  by (auto simp: lai_install_nsnode_def ns_array_reserve_def laihost_malloc_def put_node_def Let_def bnd_eq_Ok
      ensure_eq_Ok split: if_splits option.splits prod.splits)

lemma install_predefined_keeps_mem: "install_predefined w root ps = Ok w' \<Longrightarrow> mem_ok w' = mem_ok w"
proof (induction w root ps rule: install_predefined.induct)
  case (2 w root nm ty flags ovr ps)
  from 2(2) obtain p w1 e w2 where 1: "lai_create_nsnode_or_die w = Ok (p, w1)"
    "lai_install_nsnode (put_node w1 p (node0\<lparr>n_type := ty, n_name := bytes_of nm, n_parent := Some root,
       n_method_flags := flags, n_method_override := ovr\<rparr>)) p = Ok (e, w2)" "install_predefined w2 root ps = Ok w'"
    by (auto simp: bnd_eq_Ok Let_def)
  have "mem_ok w1 = mem_ok w"
    using 1(1) by (auto simp: lai_create_nsnode_or_die_def lai_create_nsnode_def laihost_malloc_def Let_def split: if_splits)
  then show ?case using 2(1) [OF 1(1) refl refl 1(2) refl 1(3)] install_keeps_mem [OF 1(2)] by (simp add: put_node_def)
qed simp

lemma create_root_keeps_mem:
  assumes "lai_create_root w = Ok (root, w')"
  shows "mem_ok w' = mem_ok w"
proof -
  from assms obtain w1 where 1: "lai_create_nsnode_or_die w = Ok (root, w1)"
    "install_predefined (put_node (w1\<lparr>root_node := Some root\<rparr>) root
       (node0\<lparr>n_type := LAI_NAMESPACE_ROOT, n_name := ROOT_CHAR # bytes_of ''___''\<rparr>)) root predefined_nodes = Ok w'"
    by (auto simp: lai_create_root_def bnd_eq_Ok Let_def)
  have "mem_ok w1 = mem_ok w"
    using 1(1) by (auto simp: lai_create_nsnode_or_die_def lai_create_nsnode_def laihost_malloc_def Let_def split: if_splits)
  then show ?thesis using install_predefined_keeps_mem [OF 1(2)] by (simp add: put_node_def)
qed

subsection \<open>Properties\<close>

text \<open>
  The namespace is made from all tables of the firmware.  If the host's scan lists the tables \<open>ss\<close> under
  \<open>SSDT\<close> and \<open>ps\<close> under \<open>PSDT\<close>, the loops over them end, and \<open>lai_create_namespace\<close> creates the root and
  then loads the DSDT, every table of \<open>ss\<close> and every table of \<open>ps\<close>, each once and in order; it panics if
  there is no FADT or no DSDT.
\<close>

theorem create_namespace_loads_all:
  assumes "scan_lists scan (signature ''SSDT'') ss" and "scan_lists scan (signature ''PSDT'') ps"
    and "length ss < rounds" and "length ps < rounds"
  defines "fadt \<equiv> scan (signature ''FACP'') 0" and "dsdt \<equiv> scan (signature ''DSDT'') 0"
  shows "lai_create_namespace u rounds fuel env mem (Some scan) w =
    ensure (fadt \<noteq> 0) (bnd (lai_create_root w) (\<lambda>(root, w). ensure (dsdt \<noteq> 0) (
      bnd (load_all fuel env mem root ((dsdt, 0) # indexed 0 ss @ indexed 0 ps) (w, [])) (\<lambda>(w, segs).
      Ok (\<lparr>fx_fadt = Some (fadt_of u mem fadt), is_hw_reduced = bit (fa_flags (fadt_of u mem fadt)) 20\<rparr>, w, segs)))))"
proof -
  have "drop_bit 20 f AND 1 \<noteq> 0 \<longleftrightarrow> bit f 20" for f :: u32
    by (simp add: and_one_eq odd_iff_mod_2_eq_one [symmetric] bit_iff_odd_drop_bit)
  moreover have "length ss - 0 < rounds" "length ps - 0 < rounds" using assms(3,4) by simp_all
  ultimately show ?thesis
    by (simp add: lai_create_namespace_def Let_def fadt_def dsdt_def load_all_append bnd_assoc split_beta
        load_tables_all [OF assms(1)] load_tables_all [OF assms(2)])
qed

definition demo_scan :: "u8 list \<Rightarrow> nat \<Rightarrow> u32" where
  "demo_scan sig i = (if i = 0 then
     if sig = signature ''FACP'' then 0x1000 else if sig = signature ''DSDT'' then 0x2000
     else if sig = signature ''SSDT'' then 0x3000 else 0 else 0)"

lemma create_namespace_loads_all_witness:
  "\<forall>u fuel (env :: unit exec_env) mem w. lai_create_namespace u 2 fuel env mem (Some demo_scan) w =
     bnd (lai_create_root w) (\<lambda>(root, w).
     bnd (load_all fuel env mem root [(0x2000, 0), (0x3000, 0)] (w, [])) (\<lambda>(w, segs).
     Ok (\<lparr>fx_fadt = Some (fadt_of u mem 0x1000), is_hw_reduced = bit (fa_flags (fadt_of u mem 0x1000)) 20\<rparr>, w, segs)))"
proof (intro allI)
  fix u fuel and env :: "unit exec_env" and mem w
  have "scan_lists demo_scan (signature ''SSDT'') [0x3000]" "scan_lists demo_scan (signature ''PSDT'') []"
    by (simp_all add: scan_lists_def demo_scan_def signature_def)
  from create_namespace_loads_all [OF this, of 2 u fuel env mem w]
  show "lai_create_namespace u 2 fuel env mem (Some demo_scan) w =
     bnd (lai_create_root w) (\<lambda>(root, w).
     bnd (load_all fuel env mem root [(0x2000, 0), (0x3000, 0)] (w, [])) (\<lambda>(w, segs).
     Ok (\<lparr>fx_fadt = Some (fadt_of u mem 0x1000), is_hw_reduced = bit (fa_flags (fadt_of u mem 0x1000)) 20\<rparr>, w, segs)))"
    by (simp add: demo_scan_def signature_def indexed_def)
qed

end
