(* ===== verification/Krn_Acpi.thy ===== *)
theory Krn_Acpi
  imports Krn_Libc Krn_Machine Lai_Tables
begin

text \<open>
  The kernel as the host of the interpreter: \<open>base/other/acpi.cpp\<close>.  Addresses are 32 bits wide and \<open>mem\<close> is the
  physical memory.  The structures of this file are not packed, and its \<open>uint64_t\<close> has 32 bits, so that
  \<open>X_Dsdt\<close> of \<open>FADT\<close> is at offset 136.

  The theory shows which tables \<open>laihost_scan\<close> gives to the interpreter, that the interpreter loads all of
  them, where the search for the root pointer looks, and what the accesses to PCI configuration space do.
\<close>

subsection \<open>Strings in memory\<close>

definition at_mem :: "kernel_mem \<Rightarrow> u32 \<Rightarrow> nat \<Rightarrow> u8 list" where
  "at_mem mem a n = map (\<lambda>i. mem (a + of_nat i)) [0..<n]"

text \<open>\<open>strcmp\<close> reads no more of its first argument than its second is long.\<close>

definition mem_strcmp :: "kernel_mem \<Rightarrow> u32 \<Rightarrow> u8 list \<Rightarrow> bool outcome" where
  "mem_strcmp mem a src = k_strcmp (at_mem mem a (length src)) src"

subsection \<open>Tables\<close>

record acpi_glue =
  g_rsdp :: u32
  g_rsdt :: u32
  g_pointers :: u32
  g_fields :: int

definition rsdt_pointer :: "kernel_mem \<Rightarrow> acpi_glue \<Rightarrow> nat \<Rightarrow> u32" where
  "rsdt_pointer mem g i = mem_le32 mem (g_pointers g + 4 * of_nat i)"

text \<open>\<open>for (i = 0; i < rsdt_fields; i++)\<close>: the FADT, and the table with a given signature and index.\<close>

fun find_facp :: "kernel_mem \<Rightarrow> acpi_glue \<Rightarrow> nat \<Rightarrow> nat \<Rightarrow> u32 option outcome" where
  "find_facp mem g i 0 = Ok None"
| "find_facp mem g i (Suc n) =
     bnd (mem_strcmp mem (rsdt_pointer mem g i) (signature ''FACP'')) (\<lambda>differs.
     if \<not> differs then Ok (Some (rsdt_pointer mem g i)) else find_facp mem g (Suc i) n)"

fun scan_loop :: "kernel_mem \<Rightarrow> acpi_glue \<Rightarrow> u8 list \<Rightarrow> nat \<Rightarrow> nat \<Rightarrow> nat \<Rightarrow> nat \<Rightarrow> u32 outcome" where
  "scan_loop mem g sig index ind i 0 = Ok 0"
| "scan_loop mem g sig index ind i (Suc n) =
     bnd (mem_strcmp mem (rsdt_pointer mem g i) sig) (\<lambda>differs.
     if \<not> differs then
       if ind = index then Ok (rsdt_pointer mem g i) else scan_loop mem g sig index (Suc ind) (Suc i) n
     else scan_loop mem g sig index ind (Suc i) n)"

definition fadt_dsdt :: "kernel_mem \<Rightarrow> u32 \<Rightarrow> u32" where "fadt_dsdt mem fadt = mem_le32 mem (fadt + 40)"
definition fadt_x_dsdt :: "kernel_mem \<Rightarrow> u32 \<Rightarrow> u32" where "fadt_x_dsdt mem fadt = mem_le32 mem (fadt + 136)"
definition rsdp_revision_at :: "kernel_mem \<Rightarrow> u32 \<Rightarrow> u8" where "rsdp_revision_at mem rsdp = mem (rsdp + 15)"

text \<open>The DSDT of a FADT; from revision 2 on the wide pointer is preferred.\<close>

definition chosen_dsdt :: "kernel_mem \<Rightarrow> acpi_glue \<Rightarrow> u32 \<Rightarrow> u32" where
  "chosen_dsdt mem g fadt =
     (if 2 \<le> rsdp_revision_at mem (g_rsdp g) \<and> fadt_x_dsdt mem fadt \<noteq> 0
      then fadt_x_dsdt mem fadt else fadt_dsdt mem fadt)"

text \<open>A signature that starts with \<open>D\<close> is taken for that of the DSDT, whatever the index.\<close>

definition laihost_scan :: "kernel_mem \<Rightarrow> acpi_glue \<Rightarrow> u8 list \<Rightarrow> nat \<Rightarrow> u32 outcome" where
  "laihost_scan mem g sig index =
     bnd (rd sig 0) (\<lambda>c.
     bnd (if c = 68 then find_facp mem g 0 (nat (g_fields g)) else Ok None) (\<lambda>facp.
     case facp of
       Some fadt \<Rightarrow> Ok (chosen_dsdt mem g fadt)
     | None \<Rightarrow> scan_loop mem g sig index 0 0 (nat (g_fields g))))"

definition GetTable :: "kernel_mem \<Rightarrow> acpi_glue \<Rightarrow> u8 list \<Rightarrow> nat \<Rightarrow> u32 outcome" where
  "GetTable mem g sig index =
     bnd (rd sig 0) (\<lambda>c.
     bnd (if c = 68 then find_facp mem g 0 (nat (g_fields g)) else Ok None) (\<lambda>facp.
     case facp of Some fadt \<Rightarrow> Ok (fadt_dsdt mem fadt)
     | None \<Rightarrow> scan_loop mem g sig index 0 0 (nat (g_fields g))))"

text \<open>\<open>Length\<close> is converted to \<open>int\<close>; a negative one gives the sum 0.\<close>

fun byte_sum :: "kernel_mem \<Rightarrow> u32 \<Rightarrow> nat \<Rightarrow> u8 \<Rightarrow> u8" where
  "byte_sum mem a 0 acc = acc"
| "byte_sum mem a (Suc n) acc = byte_sum mem (a + 1) n (acc + mem a)"

definition doChecksum :: "kernel_mem \<Rightarrow> u32 \<Rightarrow> bool" where
  "doChecksum mem table = (byte_sum mem table (nat (sint (mem_le32 mem (table + 4)))) 0 = 0)"

subsection \<open>Set-up\<close>

text \<open>\<open>acpi\<close> points to 32-bit words, so that \<open>i += 16\<close> moves on by 64 bytes.\<close>

function find_rsdp :: "kernel_mem \<Rightarrow> nat \<Rightarrow> u32 outcome" where
  "find_rsdp mem i =
     (if i < 0x1FFFF then
        bnd (mem_strcmp mem (0xE0000 + 4 * of_nat i) (signature ''RSD PTR '')) (\<lambda>differs.
        if \<not> differs then Ok (0xE0000 + 4 * of_nat i) else find_rsdp mem (i + 16))
      else Ok 0xE0000)"
  by pat_completeness auto
termination
  by (relation "measure (\<lambda>(_, i). 0x1FFFF - i)") auto

declare find_rsdp.simps [simp del]

text \<open>\<open>ACPI::Setup\<close> up to the tables: \<open>None\<close> when there is no root pointer.  The checksum is only printed.\<close>

definition setup_tables :: "kernel_mem \<Rightarrow> acpi_glue option outcome" where
  "setup_tables mem =
     bnd (find_rsdp mem 0) (\<lambda>rsdp.
     bnd (mem_strcmp mem rsdp (signature ''RSD PTR '')) (\<lambda>differs.
     if differs then Ok None
     else
       let rsdt = mem_le32 mem (rsdp + 16) in
       Ok (Some \<lparr>g_rsdp = rsdp, g_rsdt = rsdt, g_pointers = rsdt + 36,
         g_fields = sint ((mem_le32 mem (rsdt + 4) - 36) div 4)\<rparr>)))"

text \<open>
  The scan as the interpreter sees it.  Every call finds a terminated signature, so that it does not
  fault; the value for a fault is never used (see \<open>laihost_scan_spec\<close>).
\<close>

definition kernel_scan :: "kernel_mem \<Rightarrow> acpi_glue \<Rightarrow> u8 list \<Rightarrow> nat \<Rightarrow> u32" where
  "kernel_scan mem g sig index = (case laihost_scan mem g sig index of Ok p \<Rightarrow> p | _ \<Rightarrow> 0)"

text \<open>The handler of the interrupt: it looks at the number of the port, not at the register behind it.\<close>

definition acpi_event :: "acpi_fadt \<Rightarrow> bool" where
  "acpi_event fadt \<longleftrightarrow> pm1a_event_block fadt AND 0x0200 = 0x0200"

definition laihost_timer :: "int \<Rightarrow> (int \<times> int) outcome" where
  "laihost_timer t = guard (in_int (t + 100)) (Ok (t + 100, t + 100))"

subsection \<open>The devices\<close>

definition set_bits :: "u32 \<Rightarrow> nat \<Rightarrow> nat \<Rightarrow> u32 \<Rightarrow> u32" where
  "set_bits w s n v = (w AND NOT (push_bit s (mask n))) OR push_bit s (take_bit n v)"

text \<open>\<open>pci_dev_t dev\<close> is not initialised: \<open>junk\<close> is what it holds.\<close>

definition pci_address :: "u32 \<Rightarrow> u8 \<Rightarrow> u8 \<Rightarrow> u8 \<Rightarrow> u16 \<Rightarrow> u32" where
  "pci_address junk bus device func off =
     (let d = set_bits junk 16 8 (ucast bus);
          d = set_bits d 11 5 (ucast device);
          d = set_bits d 8 3 (ucast func) in
      set_bits d 2 6 (ucast (drop_bit 2 (off AND 0xFC))))"

definition pci_data_port :: "nat \<Rightarrow> u16 \<Rightarrow> u16" where
  "pci_data_port width off =
     (if width = 8 then 0xCFC + (off AND 3) else if width = 16 then 0xCFC + (off AND 2) else 0xCFC)"

definition laihost_pci_read :: "u32 \<Rightarrow> 'd machine \<Rightarrow> nat \<Rightarrow> u8 \<Rightarrow> u8 \<Rightarrow> u8 \<Rightarrow> u16 \<Rightarrow> 'd \<Rightarrow> u64 \<times> 'd" where
  "laihost_pci_read junk m width bus device func off d =
     p_in m width (pci_data_port width off) (p_out m 32 0xCF8 (ucast (pci_address junk bus device func off)) d)"

text \<open>The host functions the kernel defines.  It has no writes to configuration space.  \<open>ovr\<close> handles regions
  with an override; the kernel installs none.\<close>

definition kernel_host :: "u32 \<Rightarrow> 'd machine \<Rightarrow> 'd host \<Rightarrow> 'd host" where
  "kernel_host junk m ovr =
     \<lparr>h_has = (\<lambda>f. f \<in> {F_map, F_inb, F_inw, F_ind, F_outb, F_outw, F_outd, F_pci_readb, F_pci_readw, F_pci_readd}),
      h_read = (\<lambda>sp width addr d. case sp of
         IoPort \<Rightarrow> p_in m width (ucast addr) d
       | IoMmio \<Rightarrow> m_load m width (ucast addr) d
       | IoPci seg bus device func \<Rightarrow> laihost_pci_read junk m width bus device func (ucast addr) d
       | IoOverride k \<Rightarrow> h_read ovr (IoOverride k) width addr d),
      h_write = (\<lambda>sp width addr v d. case sp of
         IoPort \<Rightarrow> p_out m width (ucast addr) v d
       | IoMmio \<Rightarrow> m_store m width (ucast addr) v d
       | IoPci seg bus device func \<Rightarrow> d
       | IoOverride k \<Rightarrow> h_write ovr (IoOverride k) width addr v d)\<rparr>"

subsection \<open>Scanning\<close>

definition table_ptrs :: "kernel_mem \<Rightarrow> acpi_glue \<Rightarrow> u32 list" where
  "table_ptrs mem g = map (rsdt_pointer mem g) [0..<nat (g_fields g)]"

definition has_signature :: "kernel_mem \<Rightarrow> u8 list \<Rightarrow> u32 \<Rightarrow> bool" where
  "has_signature mem sig p \<longleftrightarrow> at_mem mem p (length (c_str sig)) = c_str sig"

lemma strcmp_loop_prefix:
  assumes "i + n \<le> length src" and "i + n \<le> length dst"
  shows "strcmp_loop dst src i n = Ok (take n (drop i src) \<noteq> take n (drop i dst))"
  using assms
proof (induction n arbitrary: i)
  case (Suc n)
  have "drop i src = src ! i # drop (Suc i) src" "drop i dst = dst ! i # drop (Suc i) dst"
    using Suc.prems by (simp_all add: Cons_nth_drop_Suc)
  then show ?case using Suc.prems Suc.IH [of "Suc i"] by auto
qed simp

lemma at_mem_length [simp]: "length (at_mem mem a n) = n"
  by (simp add: at_mem_def)

lemma at_mem_take: "k \<le> n \<Longrightarrow> take k (at_mem mem a n) = at_mem mem a k"
  by (simp add: at_mem_def take_map take_upt)

lemma mem_strcmp_spec:
  assumes "terminated src"
  shows "mem_strcmp mem a src = Ok (\<not> has_signature mem src a)"
proof -
  let ?n = "length (c_str src)"
  have n: "?n < length src" using c_str_length [OF assms] .
  have "strcmp_loop (at_mem mem a (length src)) src 0 ?n = Ok (take ?n src \<noteq> take ?n (at_mem mem a (length src)))"
    using strcmp_loop_prefix [of 0 ?n src "at_mem mem a (length src)"] n by simp
  then show ?thesis
    using assms n by (auto simp: mem_strcmp_def k_strcmp_def k_strlen_spec has_signature_def at_mem_take c_str_take)
qed

lemma scan_loop_spec:
  assumes "terminated sig" and "ind \<le> index"
  shows "scan_loop mem g sig index ind i n =
    Ok (let ts = filter (has_signature mem sig) (map (rsdt_pointer mem g) [i..<i + n]) in
      if index - ind < length ts then ts ! (index - ind) else 0)"
  using assms
proof (induction n arbitrary: i ind)
  case (Suc n)
  have l: "[i..<i + Suc n] = i # [Suc i..<Suc i + n]" by (simp add: upt_conv_Cons)
  show ?case
  proof (cases "has_signature mem sig (rsdt_pointer mem g i)")
    case True
    show ?thesis
    proof (cases "ind = index")
      case False
      then have "index - ind = Suc (index - Suc ind)" using Suc.prems(2) by simp
      then show ?thesis using True False Suc.prems Suc.IH [of "Suc ind" "Suc i"]
        by (simp only: scan_loop.simps l) (simp add: mem_strcmp_spec Let_def)
    qed (use True Suc.prems in \<open>simp only: scan_loop.simps l, simp add: mem_strcmp_spec\<close>)
  next
    case False
    then show ?thesis using Suc.prems Suc.IH [of ind "Suc i"]
      by (simp only: scan_loop.simps l) (simp add: mem_strcmp_spec)
  qed
qed simp

lemma find_facp_spec:
  "find_facp mem g i n = Ok (find (has_signature mem (signature ''FACP'')) (map (rsdt_pointer mem g) [i..<i + n]))"
proof (induction n arbitrary: i)
  case (Suc n)
  have "[i..<i + Suc n] = i # [Suc i..<Suc i + n]" by (simp add: upt_conv_Cons)
  moreover have "terminated (signature ''FACP'')" by (simp add: signature_def)
  ultimately show ?case using Suc by (simp add: mem_strcmp_spec)
qed simp

lemma laihost_scan_spec:
  assumes "terminated sig" and "hd sig \<noteq> 68" and "sig \<noteq> []"
  shows "laihost_scan mem g sig index =
    Ok (let ts = filter (has_signature mem sig) (table_ptrs mem g) in if index < length ts then ts ! index else 0)"
  using assms scan_loop_spec [OF assms(1), of 0 index mem g 0 "nat (g_fields g)"]
  by (simp add: laihost_scan_def table_ptrs_def hd_conv_nth)

lemma kernel_scan_lists:
  assumes "terminated sig" and "hd sig \<noteq> 68" and "sig \<noteq> []" and "0 \<notin> set (table_ptrs mem g)"
  shows "scan_lists (kernel_scan mem g) sig (filter (has_signature mem sig) (table_ptrs mem g))"
  using assms by (auto simp: scan_lists_def kernel_scan_def laihost_scan_spec Let_def)

lemma kernel_scan_dsdt:
  "kernel_scan mem g (signature ''DSDT'') k =
    (case find (has_signature mem (signature ''FACP'')) (table_ptrs mem g) of
       Some fadt \<Rightarrow> chosen_dsdt mem g fadt
     | None \<Rightarrow> let ts = filter (has_signature mem (signature ''DSDT'')) (table_ptrs mem g) in
         if k < length ts then ts ! k else 0)"
proof -
  have "terminated (signature ''DSDT'')" "signature ''DSDT'' ! 0 = 68" "signature ''DSDT'' \<noteq> []" by (simp_all add: signature_def)
  then show ?thesis
    using find_facp_spec [of mem g 0 "nat (g_fields g)"] scan_loop_spec [of "signature ''DSDT''" 0 k mem g 0 "nat (g_fields g)"]
    by (simp add: kernel_scan_def laihost_scan_def table_ptrs_def split: option.split)
qed

lemma find_rsdp_spec:
  assumes "i = 16 * k" and "k \<le> 8192"
  shows "find_rsdp mem i = Ok (case find (\<lambda>k. has_signature mem (signature ''RSD PTR '') (0xE0000 + 64 * of_nat k)) [k..<8192] of
    Some k \<Rightarrow> 0xE0000 + 64 * of_nat k | None \<Rightarrow> 0xE0000)"
  using assms
proof (induction "8192 - k" arbitrary: k i)
  case 0
  then have "\<not> i < 0x1FFFF" "[k..<8192] = []" by simp_all
  then show ?case by (simp add: find_rsdp.simps [of mem i])
next
  case (Suc n)
  have t: "terminated (signature ''RSD PTR '')" by (simp add: signature_def)
  have a: "(0xE0000 + 4 * of_nat i :: u32) = 0xE0000 + 64 * of_nat k" using Suc.prems(1) by simp
  have k: "k < 8192" "n = 8192 - Suc k" using Suc.hyps(2) by linarith+
  then have i: "i < 0x1FFFF" "i + 16 = 16 * Suc k" using Suc.prems(1) by simp_all
  have ih: "find_rsdp mem (i + 16) = Ok (case find (\<lambda>k. has_signature mem (signature ''RSD PTR '') (0xE0000 + 64 * of_nat k)) [Suc k..<8192] of
      Some k \<Rightarrow> 0xE0000 + 64 * of_nat k | None \<Rightarrow> 0xE0000)"
    by (rule Suc.hyps(1) [OF k(2) i(2)]) (use k in simp)
  have "[k..<8192] = k # [Suc k..<8192]" using k(1) by (simp add: upt_conv_Cons)
  then show ?case
    using i(1) ih mem_strcmp_spec [OF t, of mem "0xE0000 + 64 * of_nat k"]
    by (simp only: find_rsdp.simps [of mem i] a) simp
qed

subsection \<open>Configuration space\<close>

lemma bit_set_bits: "s + n \<le> 32 \<Longrightarrow> bit (set_bits w s n v) k = (if s \<le> k \<and> k < s + n then bit v (k - s) else bit w k)"
  by (auto simp: set_bits_def bit_simps dest: bit_imp_le_length)

lemma bit_register: "j < 6 \<Longrightarrow> bit (ucast (drop_bit 2 (off AND 0xFC)) :: u32) j = bit off (j + 2)" for off :: u16
proof -
  assume "j < 6"
  then have "j = 0 \<or> j = 1 \<or> j = 2 \<or> j = 3 \<or> j = 4 \<or> j = 5" by presburger
  then show ?thesis by (elim disjE) (simp_all add: bit_simps numeral_eq_Suc)
qed

lemma bit_pci_address:
  "bit (pci_address junk bus device func off) k =
     (if k < 2 then bit junk k else if k < 8 then bit off k else if k < 11 then bit func (k - 8)
      else if k < 16 then bit device (k - 11) else if k < 24 then bit bus (k - 16) else bit junk k)"
proof (cases "2 \<le> k \<and> k < 8")
  case True
  define j where "j = k - 2"
  have k: "k = j + 2" "j < 6" using True unfolding j_def by linarith+
  show ?thesis using bit_register [OF k(2), of off] k
    by (simp only: pci_address_def Let_def bit_set_bits) simp
next
  case False
  then show ?thesis by (auto simp: pci_address_def Let_def bit_set_bits bit_simps)
qed

subsection \<open>Properties\<close>

text \<open>
  C33. The kernel gives the interpreter all its tables.  Over the kernel's \<open>laihost_scan\<close> the loops of
  \<open>lai_create_namespace\<close> over the secondary tables never run on: the namespace is created by making the root and
  then loading the DSDT the first FADT points to, every table of the RSDT with the signature \<open>SSDT\<close> and every
  one with \<open>PSDT\<close>, each once, in the order of the RSDT.  (What the run of a single table gives, an endless loop or
  a panic included, is what the interpreter makes of its code.)  If the creation comes to its end, exactly these
  tables are recorded, in this order and with these indices; and it does come to its end when no table holds more
  than its header and there is memory.  \<open>u\<close> is the size of \<open>uint64_t\<close> in the interpreter's layout of the FADT, 4 in
  the kernel's build.
\<close>

theorem kernel_loads_tables:
  assumes "0 \<notin> set (table_ptrs mem g)" and "length (table_ptrs mem g) < rounds"
    and "find (has_signature mem (signature ''FACP'')) (table_ptrs mem g) = Some fadt"
    and "chosen_dsdt mem g fadt \<noteq> 0"
  defines "tables \<equiv> \<lambda>sig. filter (has_signature mem (signature sig)) (table_ptrs mem g)"
  defines "order \<equiv> (chosen_dsdt mem g fadt, 0) # indexed 0 (tables ''SSDT'') @ indexed 0 (tables ''PSDT'')"
  shows "lai_create_namespace u rounds fuel env mem (Some (kernel_scan mem g)) w =
      bnd (lai_create_root w) (\<lambda>(root, w).
      bnd (load_all fuel env mem root order (w, [])) (\<lambda>(w, segs).
      Ok (\<lparr>fx_fadt = Some (fadt_of u mem fadt), is_hw_reduced = bit (fa_flags (fadt_of u mem fadt)) 20\<rparr>, w, segs))) \<and>
    (\<forall>fx w' segs. lai_create_namespace u rounds fuel env mem (Some (kernel_scan mem g)) w = Ok (fx, w', segs) \<longrightarrow>
      map (\<lambda>seg. (am_table seg, am_index seg)) segs = order) \<and>
    (\<forall>root w1. lai_create_root w = Ok (root, w1) \<and> (\<forall>k. mem_ok w k) \<and> 0 < fuel \<and>
        (\<forall>t \<in> set order. header_length mem (fst t) = sizeof_header) \<longrightarrow>
      (\<exists>fx w' segs. lai_create_namespace u rounds fuel env mem (Some (kernel_scan mem g)) w = Ok (fx, w', segs)))"
proof -
  have lists: "scan_lists (kernel_scan mem g) (signature ''SSDT'') (tables ''SSDT'')"
    "scan_lists (kernel_scan mem g) (signature ''PSDT'') (tables ''PSDT'')"
    unfolding tables_def using assms(1) by (intro kernel_scan_lists; simp add: signature_def)+
  have len: "length (tables sig) < rounds" for sig
    using length_filter_le [of "has_signature mem (signature sig)" "table_ptrs mem g"] assms(2)
    unfolding tables_def by (rule le_less_trans)
  have "find P xs = Some x \<Longrightarrow> filter P xs \<noteq> [] \<and> filter P xs ! 0 = x" for P and xs :: "u32 list" and x
    by (induction xs) (auto split: if_splits)
  from this [OF assms(3)] have facp: "kernel_scan mem g (signature ''FACP'') 0 = fadt"
    by (simp add: kernel_scan_def laihost_scan_spec signature_def Let_def)
  have "fadt \<in> set (table_ptrs mem g)" using assms(3) by (auto simp: find_Some_iff)
  then have nz: "fadt \<noteq> 0" using assms(1) by auto
  have dsdt: "kernel_scan mem g (signature ''DSDT'') 0 = chosen_dsdt mem g fadt"
    using assms(3) by (simp add: kernel_scan_dsdt)
  have eq: "lai_create_namespace u rounds fuel env mem (Some (kernel_scan mem g)) w =
      bnd (lai_create_root w) (\<lambda>(root, w).
      bnd (load_all fuel env mem root order (w, [])) (\<lambda>(w, segs).
      Ok (\<lparr>fx_fadt = Some (fadt_of u mem fadt), is_hw_reduced = bit (fa_flags (fadt_of u mem fadt)) 20\<rparr>, w, segs)))"
    using create_namespace_loads_all [OF lists len len, of u fuel env mem w] nz assms(4)
    by (simp add: facp dsdt order_def)
  show ?thesis
  proof (intro conjI allI impI eq)
    fix fx w' segs
    assume "lai_create_namespace u rounds fuel env mem (Some (kernel_scan mem g)) w = Ok (fx, w', segs)"
    then obtain root w1 w2 where "load_all fuel env mem root order (w1, []) = Ok (w2, segs)"
      unfolding eq by (auto simp: bnd_eq_Ok)
    from load_all_segs [OF this] show "map (\<lambda>seg. (am_table seg, am_index seg)) segs = order"
      by (simp add: case_prod_beta o_def)
  next
    fix root w1
    assume h: "lai_create_root w = Ok (root, w1) \<and> (\<forall>k. mem_ok w k) \<and> 0 < fuel \<and>
      (\<forall>t \<in> set order. header_length mem (fst t) = sizeof_header)"
    then obtain n where "fuel = Suc n" by (cases fuel) auto
    moreover have "\<forall>k. mem_ok w1 k" using create_root_keeps_mem [of w root w1] h by simp
    ultimately obtain w2 segs where "load_all fuel env mem root order (w1, []) = Ok (w2, segs)"
      using load_all_empty [of order mem w1 n env root "[]"] h by auto
    with h show "\<exists>fx w' segs. lai_create_namespace u rounds fuel env mem (Some (kernel_scan mem g)) w = Ok (fx, w', segs)"
      unfolding eq by simp
  qed
qed

text \<open>A machine with an RSDT of three tables: a FADT that points to the DSDT, and two SSDTs.\<close>

definition demo_put32 :: "u32 \<Rightarrow> u32 \<Rightarrow> kernel_mem \<Rightarrow> kernel_mem" where
  "demo_put32 a v mem = mem(a := ucast v, a + 1 := ucast (drop_bit 8 v), a + 2 := ucast (drop_bit 16 v), a + 3 := ucast (drop_bit 24 v))"

definition demo_mem :: kernel_mem where
  "demo_mem = demo_put32 0x24 0x1000 (demo_put32 0x28 0x2000 (demo_put32 0x2C 0x3000 (demo_put32 0x1028 0x4000
     (demo_put32 0x1000 0x50434146 (demo_put32 0x2000 0x54445353 (demo_put32 0x3000 0x54445353
     (demo_put32 0x2004 36 (demo_put32 0x3004 36 (demo_put32 0x4004 36 (\<lambda>_. 0))))))))))"

definition demo_glue :: acpi_glue where
  "demo_glue = \<lparr>g_rsdp = 0x5000, g_rsdt = 0, g_pointers = 0x24, g_fields = 3\<rparr>"

lemma demo_tables:
  "table_ptrs demo_mem demo_glue = [0x1000, 0x2000, 0x3000]"
  "chosen_dsdt demo_mem demo_glue 0x1000 = 0x4000"
  "has_signature demo_mem (signature ''FACP'') 0x1000"
  "\<not> has_signature demo_mem (signature ''SSDT'') 0x1000" "has_signature demo_mem (signature ''SSDT'') 0x2000"
  "has_signature demo_mem (signature ''SSDT'') 0x3000" "\<not> has_signature demo_mem (signature ''PSDT'') 0x1000"
  "\<not> has_signature demo_mem (signature ''PSDT'') 0x2000" "\<not> has_signature demo_mem (signature ''PSDT'') 0x3000"
  by (simp_all add: table_ptrs_def demo_glue_def rsdt_pointer_def mem_le32_def le32_def demo_mem_def demo_put32_def
      upt_conv_Cons chosen_dsdt_def fadt_dsdt_def fadt_x_dsdt_def rsdp_revision_at_def has_signature_def at_mem_def signature_def)

lemma demo_lengths:
  "header_length demo_mem 0x4000 = sizeof_header" "header_length demo_mem 0x2000 = sizeof_header"
  "header_length demo_mem 0x3000 = sizeof_header"
  by (simp_all add: header_length_def sizeof_header_def mem_le32_def le32_def demo_mem_def demo_put32_def)

definition boot_world :: "unit lai_world" where
  "boot_world = \<lparr>cells = [], mem_ok = (\<lambda>_. True), mem_clock = 0, mem_junk = (\<lambda>_. 0), nodes = [], root_node = None,
     ns_array = [], ns_capacity = 0, acpi_revision = 2, invocations = [], dev = ()\<rparr>"

lemma boot_root: "\<exists>root w. lai_create_root boot_world = Ok (root, w)"
proof -
  have "case lai_create_root boot_world of Ok (root, w) \<Rightarrow> True | _ \<Rightarrow> False" by code_simp
  then show ?thesis by (auto split: outcome.splits)
qed

lemma kernel_loads_tables_witness:
  "\<exists>fx w segs. lai_create_namespace 4 4 1 demo_env demo_mem (Some (kernel_scan demo_mem demo_glue)) boot_world = Ok (fx, w, segs) \<and>
     map (\<lambda>seg. (am_table seg, am_index seg)) segs = [(0x4000, 0), (0x2000, 0), (0x3000, 1)]"
proof -
  obtain root w1 where r: "lai_create_root boot_world = Ok (root, w1)" using boot_root by blast
  have "0 \<notin> set (table_ptrs demo_mem demo_glue)" "length (table_ptrs demo_mem demo_glue) < 4"
    "find (has_signature demo_mem (signature ''FACP'')) (table_ptrs demo_mem demo_glue) = Some 0x1000"
    "chosen_dsdt demo_mem demo_glue 0x1000 \<noteq> 0"
    by (simp_all add: demo_tables)
  note k = kernel_loads_tables [OF this, of 4 1 demo_env boot_world]
  have order: "(chosen_dsdt demo_mem demo_glue 0x1000, 0) #
      indexed 0 (filter (has_signature demo_mem (signature ''SSDT'')) (table_ptrs demo_mem demo_glue)) @
      indexed 0 (filter (has_signature demo_mem (signature ''PSDT'')) (table_ptrs demo_mem demo_glue)) =
      [(0x4000, 0), (0x2000, 0), (0x3000, 1)]"
    by (simp add: demo_tables indexed_def upt_conv_Cons)
  note k' = k [unfolded order]
  have "\<forall>k. mem_ok boot_world k" by (simp add: boot_world_def)
  with r have "\<exists>fx w' segs. lai_create_namespace 4 4 1 demo_env demo_mem (Some (kernel_scan demo_mem demo_glue)) boot_world =
      Ok (fx, w', segs)"
    by (intro k' [THEN conjunct2, THEN conjunct2, rule_format]) (auto simp: demo_lengths)
  with k' [THEN conjunct2, THEN conjunct1] show ?thesis by blast
qed

text \<open>
  The kernel's search for the root pointer looks at every fourth of the places where it may be: at the
  addresses \<open>0xE0000 + 64 * k\<close> for \<open>k < 8192\<close>, most of which are behind the end of the BIOS area at
  \<open>0xFFFFF\<close>.  It takes the first of them with the signature, whatever its checksum; if there is none, the
  set-up of ACPI ends, also when a root pointer is at a 16-byte boundary between them.
\<close>

theorem kernel_rsdp_search:
  "setup_tables mem = Ok (case find (\<lambda>k. has_signature mem (signature ''RSD PTR '') (0xE0000 + 64 * of_nat k)) [0..<8192] of
     None \<Rightarrow> None
   | Some k \<Rightarrow>
       let rsdp = 0xE0000 + 64 * of_nat k; rsdt = mem_le32 mem (rsdp + 16) in
       Some \<lparr>g_rsdp = rsdp, g_rsdt = rsdt, g_pointers = rsdt + 36,
         g_fields = sint ((mem_le32 mem (rsdt + 4) - 36) div 4)\<rparr>)"
proof -
  let ?P = "\<lambda>k. has_signature mem (signature ''RSD PTR '') (0xE0000 + 64 * of_nat k)"
  have t: "terminated (signature ''RSD PTR '')" by (simp add: signature_def)
  show ?thesis
  proof (cases "find ?P [0..<8192]")
    case None
    then have "\<forall>k < 8192. \<not> ?P k" by (simp add: find_None_iff)
    from this [rule_format, of 0] have "\<not> ?P 0" by simp
    then show ?thesis using None find_rsdp_spec [of 0 0 mem] t by (simp add: setup_tables_def mem_strcmp_spec)
  next
    case (Some k)
    then have "?P k" by (auto simp: find_Some_iff)
    then show ?thesis using Some find_rsdp_spec [of 0 0 mem] t by (simp add: setup_tables_def mem_strcmp_spec Let_def)
  qed
qed

text \<open>
  Configuration space on this kernel: the address written for an access has the bus, device, function
  and register at their places, but bits 0, 1 and 24 to 31 are those of a variable that was never
  initialised; in particular the bit that enables the access is.  A write of an AML field in configuration
  space panics, because the kernel defines no such host function.
\<close>

theorem pci_config_access:
  assumes "region_data w (Some r) = Ok (ACPI_OPREGION_PCI, base, None)"
  shows "(\<forall>k < 32. bit (pci_address junk bus device func off) k =
      (if k < 2 \<or> 24 \<le> k then bit junk k else if k < 8 then bit off k else if k < 11 then bit func (k - 8)
       else if k < 16 then bit device (k - 11) else bit bus (k - 16))) \<and>
    lai_perform_write (kernel_host junk m ovr) eval w (Some r) n offset v \<noteq> Ok w'"
  using assms
  by (auto simp: bit_pci_address lai_perform_write_def ACPI_OPREGION_PCI_def ACPI_OPREGION_MEMORY_def ACPI_OPREGION_IO_def
      kernel_host_def ensure_def bnd_eq_Ok)

definition pci_region_world :: "unit lai_world" where
  "pci_region_world = demo_world\<lparr>nodes := [Some (node0\<lparr>n_data := NdRegion ACPI_OPREGION_PCI 0 256 None\<rparr>)]\<rparr>"

lemma pci_config_access_witness:
  "\<forall>junk (m :: unit machine) ovr eval w'. bit (pci_address junk 0 3 0 4) 31 = bit junk 31 \<and> bit (pci_address junk 0 3 0 4) 11 \<and>
     lai_perform_write (kernel_host junk m ovr) eval pci_region_world (Some 0) 32 4 7 \<noteq> Ok w'"
proof (intro allI)
  fix junk and m :: "unit machine" and ovr eval w'
  have "region_data pci_region_world (Some 0) = Ok (ACPI_OPREGION_PCI, 0, None)"
    by (simp add: region_data_def node_def pci_region_world_def)
  from pci_config_access [OF this, of junk 0 3 0 4 m ovr eval 32 4 7 w']
  show "bit (pci_address junk 0 3 0 4) 31 = bit junk 31 \<and> bit (pci_address junk 0 3 0 4) 11 \<and>
     lai_perform_write (kernel_host junk m ovr) eval pci_region_world (Some 0) 32 4 7 \<noteq> Ok w'"
    by (auto dest: spec [of _ 31] spec [of _ 11])
qed

end
