(* ===== verification/Krn_Cpu.thy ===== *)
theory Krn_Cpu
  imports Krn_Machine Krn_Libc Krn_Sched
begin

text \<open>
  Descriptor tables, interrupts and paging: \<open>base/core/gdt.cpp\<close>, \<open>idt.cpp\<close>, \<open>syscall.cpp\<close> and
  \<open>base/memory/paging.cpp\<close>.  \<open>isr\<close> is the table of entry points of \<open>idt2.asm\<close>.  The instructions that load
  the registers of the processor have no counterpart; the tables they load are results.  What is printed
  is left out.

  How the processor and the interrupt controllers read what the code writes is stated by the definitions
  \<open>seg_base\<close>, \<open>gate_offset\<close>, \<open>page_walk\<close> and \<open>pic_laws\<close>.  The theory shows the segments, gates, vectors and
  masks the set-up leaves, where an interrupt is acknowledged, and that paging maps nothing.
\<close>

subsection \<open>Segments\<close>

record gdt_entry =
  limit_low :: u16
  base_low :: u16
  base_middle :: u8
  access :: u8
  granularity :: u8
  base_high :: u8

definition gdt_entry0 :: gdt_entry where
  "gdt_entry0 = \<lparr>limit_low = 0, base_low = 0, base_middle = 0, access = 0, granularity = 0, base_high = 0\<rparr>"

definition SetEntry :: "gdt_entry list \<Rightarrow> nat \<Rightarrow> u32 \<Rightarrow> u32 \<Rightarrow> u8 \<Rightarrow> u8 \<Rightarrow> gdt_entry list outcome" where
  "SetEntry gdt_entries index base limit acc gran =
     bnd (rd gdt_entries index) (\<lambda>entry.
     let entry = entry\<lparr>base_low := ucast (base AND 0xFFFF), base_middle := ucast (drop_bit 16 base AND 0xFF),
           base_high := ucast (drop_bit 24 base AND 0xFF)\<rparr>;
         entry = entry\<lparr>limit_low := ucast (limit AND 0xFFFF), granularity := ucast (drop_bit 16 limit AND 0x0F)\<rparr>;
         entry = entry\<lparr>access := acc\<rparr> in
     wr gdt_entries index (entry\<lparr>granularity := granularity entry OR (gran AND 0xF0)\<rparr>))"

record descriptor_ptr =
  dp_limit :: u16
  dp_base :: u32

definition GDT_Init :: "u32 \<Rightarrow> (gdt_entry list \<times> descriptor_ptr) outcome" where
  "GDT_Init gdt_addr =
     bnd (SetEntry (replicate 8 gdt_entry0) 0 0 0 0 0) (\<lambda>es.
     bnd (SetEntry es 1 0 0xFFFFFFFF 0x9A 0xCF) (\<lambda>es.
     bnd (SetEntry es 2 0 0xFFFFFFFF 0x92 0xCF) (\<lambda>es.
     bnd (SetEntry es 3 0 0xFFFFFFFF 0xFA 0xCF) (\<lambda>es.
     bnd (SetEntry es 4 0 0xFFFFFFFF 0xF2 0xCF) (\<lambda>es.
     Ok (es, \<lparr>dp_limit = 8 * 8 - 1, dp_base = gdt_addr\<rparr>))))))"

text \<open>How the processor reads a segment descriptor.\<close>

definition seg_base :: "gdt_entry \<Rightarrow> u32" where
  "seg_base e = ucast (base_low e) OR push_bit 16 (ucast (base_middle e)) OR push_bit 24 (ucast (base_high e))"

definition seg_limit :: "gdt_entry \<Rightarrow> u32" where
  "seg_limit e =
     (let l = ucast (limit_low e) OR push_bit 16 (ucast (granularity e AND 0x0F)) in
      if bit (granularity e) 7 then push_bit 12 l OR 0xFFF else l)"

definition seg_present :: "gdt_entry \<Rightarrow> bool" where "seg_present e \<longleftrightarrow> bit (access e) 7"
definition seg_ring :: "gdt_entry \<Rightarrow> u8" where "seg_ring e = drop_bit 5 (access e) AND 3"
definition seg_code :: "gdt_entry \<Rightarrow> bool" where "seg_code e \<longleftrightarrow> bit (access e) 4 \<and> bit (access e) 3"

subsection \<open>Interrupt gates\<close>

record InterruptDescriptor32 =
  offset_1 :: u16
  selector :: u16
  gate_zero :: u8
  type_attributes :: u8
  offset_2 :: u16

definition gate0 :: InterruptDescriptor32 where
  "gate0 = \<lparr>offset_1 = 0, selector = 0, gate_zero = 0, type_attributes = 0, offset_2 = 0\<rparr>"

definition idt_set_entry :: "InterruptDescriptor32 list \<Rightarrow> nat \<Rightarrow> u32 \<Rightarrow> u16 \<Rightarrow> u8 \<Rightarrow> InterruptDescriptor32 list outcome" where
  "idt_set_entry idt_desc index base sel fl =
     bnd (rd idt_desc index) (\<lambda>entry.
     wr idt_desc index (entry\<lparr>offset_1 := ucast (base AND 0xFFFF), offset_2 := ucast (drop_bit 16 base AND 0xFFFF),
       gate_zero := 0, selector := sel, type_attributes := fl OR 0x60\<rparr>))"

definition gate_offset :: "InterruptDescriptor32 \<Rightarrow> u32" where
  "gate_offset g = ucast (offset_1 g) OR push_bit 16 (ucast (offset_2 g))"

definition gate_present :: "InterruptDescriptor32 \<Rightarrow> bool" where
  "gate_present g \<longleftrightarrow> bit (type_attributes g) 7"

definition gate_ring :: "InterruptDescriptor32 \<Rightarrow> u8" where
  "gate_ring g = drop_bit 5 (type_attributes g) AND 3"

subsection \<open>The interrupt controllers\<close>

definition PIC_sendEOI :: "'d machine \<Rightarrow> u8 \<Rightarrow> 'd \<Rightarrow> 'd" where
  "PIC_sendEOI m irq d = outb m 0x20 0x20 (if 8 \<le> irq then outb m 0xA0 0x20 d else d)"

definition PIC_remap :: "'d machine \<Rightarrow> u8 \<Rightarrow> u8 \<Rightarrow> 'd \<Rightarrow> 'd" where
  "PIC_remap m offset1 offset2 d =
     (case inb m 0x21 d of (a1, d) \<Rightarrow> case inb m 0xA1 d of (a2, d) \<Rightarrow>
      let d = outb m 0x20 0x11 d;
          d = outb m 0xA0 0x11 d;
          d = outb m 0x21 offset1 d;
          d = outb m 0xA1 offset2 d;
          d = outb m 0x21 4 d;
          d = outb m 0xA1 2 d;
          d = outb m 0x21 1 d;
          d = outb m 0xA1 1 d;
          d = outb m 0x21 a1 d in
      outb m 0xA1 a2 d)"

definition IRQ_clear_mask :: "'d machine \<Rightarrow> u8 \<Rightarrow> 'd \<Rightarrow> 'd" where
  "IRQ_clear_mask m IRQline d =
     (let port = (if IRQline < 8 then 0x21 else 0xA1);
          IRQline = (if IRQline < 8 then IRQline else IRQline - 8) in
      case inb m port d of (v, d) \<Rightarrow> outb m port (v AND NOT (push_bit (unat IRQline) 1)) d)"

subsection \<open>Set-up and handling of interrupts\<close>

fun set_gates :: "u32 list \<Rightarrow> InterruptDescriptor32 list \<Rightarrow> nat \<Rightarrow> nat \<Rightarrow> InterruptDescriptor32 list outcome" where
  "set_gates isr idt i 0 = Ok idt"
| "set_gates isr idt i (Suc n) =
     bnd (rd isr i) (\<lambda>base. bnd (idt_set_entry idt i base 0x08 0x8E) (\<lambda>idt. set_gates isr idt (Suc i) n))"

fun clear_masks :: "'d machine \<Rightarrow> nat \<Rightarrow> nat \<Rightarrow> 'd \<Rightarrow> 'd" where
  "clear_masks m i 0 d = d"
| "clear_masks m i (Suc n) d = clear_masks m (Suc i) n (IRQ_clear_mask m (of_nat i) d)"

definition IDT_Init :: "'d machine \<Rightarrow> u32 list \<Rightarrow> u32 \<Rightarrow> 'd \<Rightarrow> (InterruptDescriptor32 list \<times> descriptor_ptr \<times> 'd) outcome" where
  "IDT_Init m isr idt_addr d =
     bnd (set_gates isr (replicate 256 gate0) 0 64) (\<lambda>idt.
     Ok (idt, \<lparr>dp_limit = 256 * 8 - 1, dp_base = idt_addr\<rparr>, clear_masks m 0 16 (PIC_remap m 32 40 d)))"

text \<open>\<open>stubs\<close> has 225 elements; \<open>None\<close> is a null pointer.  \<open>run\<close> is a call of a stub.\<close>

definition SetStub :: "'h option list \<Rightarrow> 'h \<Rightarrow> nat \<Rightarrow> 'h option list outcome" where
  "SetStub stubs stub no = wr stubs no (Some stub)"

definition irq_handler ::
    "('h \<Rightarrow> registers \<times> 'd \<Rightarrow> (registers \<times> 'd) outcome) \<Rightarrow> 'd machine \<Rightarrow> 'h option list \<Rightarrow> registers \<times> 'd \<Rightarrow> (registers \<times> 'd) outcome" where
  "irq_handler run m stubs rd0 =
     (case rd0 of (regs, d) \<Rightarrow>
      if 31 < r_int_no regs then
        bnd (rd stubs (unat (r_int_no regs - 32))) (\<lambda>stub.
        bnd (case stub of Some h \<Rightarrow> run h (regs, d)
             | None \<Rightarrow> if r_int_no regs - 32 = 1 then Ok (regs, snd (inb m 0x60 d)) else Ok (regs, d)) (\<lambda>(regs', d).
        Ok (regs', PIC_sendEOI m (ucast (r_int_no regs')) d)))
      else Stuck)"

definition idt_timer :: "int \<Rightarrow> int outcome" where
  "idt_timer tick = guard (in_int (tick + 1)) (Ok (tick + 1))"

text \<open>\<open>syscall_setup\<close> and \<open>syscall_int\<close>: call 0 kills the task that runs.\<close>

definition syscall_setup :: "'h option list \<Rightarrow> 'h \<Rightarrow> 'h option list outcome" where
  "syscall_setup stubs syscall_int = SetStub stubs syscall_int 0x81"

definition syscall_int :: "registers \<Rightarrow> sched_state \<Rightarrow> sched_state outcome" where
  "syscall_int reg s =
     (if r_eax reg = 0 then bnd (getpid s) (\<lambda>pid. kill_task pid s) else Ok s)"

subsection \<open>Paging\<close>

fun fill :: "(nat \<Rightarrow> u32) \<Rightarrow> u32 list \<Rightarrow> nat \<Rightarrow> nat \<Rightarrow> u32 list outcome" where
  "fill f xs i 0 = Ok xs"
| "fill f xs i (Suc n) = bnd (wr xs i (f i)) (\<lambda>xs. fill f xs (Suc i) n)"

definition page_setup :: "(u32 list \<times> u32 list) outcome" where
  "page_setup =
     bnd (fill (\<lambda>i. 0x00000002) (replicate 1024 0) 0 1024) (\<lambda>page_directory.
     bnd (fill (\<lambda>i. (of_nat i * 0x1000) OR 3) (replicate 1024 0) 0 1024) (\<lambda>first_page_table.
     Ok (page_directory, first_page_table)))"

text \<open>How the processor translates an address: \<open>tables\<close> gives the page table at a physical address.\<close>

definition page_walk :: "u32 list \<Rightarrow> (u32 \<Rightarrow> u32 list) \<Rightarrow> u32 \<Rightarrow> u32 option" where
  "page_walk dir tables va =
     (let pde = dir ! unat (drop_bit 22 va) in
      if \<not> bit pde 0 then None
      else let pte = tables (pde AND 0xFFFFF000) ! unat (drop_bit 12 va AND 0x3FF) in
        if \<not> bit pte 0 then None else Some ((pte AND 0xFFFFF000) OR (va AND 0xFFF)))"

subsection \<open>Encodings\<close>

lemma field_masks:
  "(0xFFFF :: u32) = mask 16" "(0xFF :: u32) = mask 8" "(0x0F :: u32) = mask 4" "(0x0F :: u8) = mask 4"
  "(0xF0 :: u8) = push_bit 4 (mask 4)" "(0xFFF :: u32) = mask 12" "(0x3FF :: u32) = mask 10"
  "(0xFFFFF000 :: u32) = push_bit 12 (mask 20)"
  by (simp_all add: mask_eq_exp_minus_1 push_bit_eq_mult)

lemma SetEntry_spec:
  assumes "SetEntry es i base limit acc gran = Ok es'"
  shows "seg_base (es' ! i) = base" "access (es' ! i) = acc" "length es' = length es"
    "j \<noteq> i \<Longrightarrow> es' ! j = es ! j"
    "seg_limit (es' ! i) = (if bit gran 7 then push_bit 12 (take_bit 20 limit) OR 0xFFF else take_bit 20 limit)"
proof -
  have i: "i < length es" using assms by (simp add: SetEntry_def bnd_eq_Ok rd_eq_Ok)
  note a = assms [unfolded SetEntry_def field_masks rd_Ok [OF i] wr_Ok [OF i] bnd.simps Let_def outcome.inject, symmetric]
  have g: "bit (granularity (es' ! i)) 7 = bit gran 7"
    using i by (simp add: a bit_simps)
  have l: "ucast (limit_low (es' ! i)) OR push_bit 16 (ucast (granularity (es' ! i) AND 0x0F)) = take_bit 20 limit"
    unfolding field_masks by (rule bit_word_eqI) (use i in \<open>auto simp: a bit_simps\<close>)
  show "seg_base (es' ! i) = base"
  proof (rule bit_word_eqI)
    fix n assume "n < LENGTH(32)"
    then show "bit (seg_base (es' ! i)) n = bit base n"
      using i by (cases "n < 24") (auto simp: a seg_base_def bit_simps)
  qed
  show "access (es' ! i) = acc" "length es' = length es" "j \<noteq> i \<Longrightarrow> es' ! j = es ! j"
    using i by (simp_all add: a)
  show "seg_limit (es' ! i) = (if bit gran 7 then push_bit 12 (take_bit 20 limit) OR 0xFFF else take_bit 20 limit)"
    by (simp add: seg_limit_def l g)
qed

lemma gate_offset_spec:
  "gate_offset (e\<lparr>offset_1 := ucast (base AND 0xFFFF), offset_2 := ucast (drop_bit 16 base AND 0xFFFF),
     gate_zero := z, selector := sel, type_attributes := fl\<rparr>) = base"
  unfolding field_masks gate_offset_def by (rule bit_word_eqI) (auto simp: bit_simps)

definition gate_for :: "u32 \<Rightarrow> InterruptDescriptor32" where
  "gate_for base = gate0\<lparr>offset_1 := ucast (base AND 0xFFFF), offset_2 := ucast (drop_bit 16 base AND 0xFFFF),
     gate_zero := 0, selector := 0x08, type_attributes := 0xEE\<rparr>"

lemma gate_for_simps: "gate_offset (gate_for base) = base" "gate_present (gate_for base)"
  "gate_ring (gate_for base) = 3" "type_attributes (gate_for base) = 0xEE" "selector (gate_for base) = 8" "\<not> gate_present gate0"
  unfolding gate_for_def gate_offset_spec by (simp_all add: gate_present_def gate_ring_def gate0_def)

lemma set_gates_spec:
  assumes "i + n \<le> length isr" and "i + n \<le> length idt" and "\<forall>j. i \<le> j \<longrightarrow> j < length idt \<longrightarrow> idt ! j = gate0"
  shows "set_gates isr idt i n = Ok (take i idt @ map gate_for (take n (drop i isr)) @ drop (i + n) idt)"
  using assms
proof (induction n arbitrary: i idt)
  case (Suc n)
  have s: "idt_set_entry idt i (isr ! i) 8 0x8E = Ok (idt[i := gate_for (isr ! i)])"
    using Suc.prems by (simp add: idt_set_entry_def gate_for_def)
  have d: "drop i isr = isr ! i # drop (Suc i) isr" using Suc.prems(1) by (simp add: Cons_nth_drop_Suc)
  have "set_gates isr (idt[i := gate_for (isr ! i)]) (Suc i) n =
      Ok (take (Suc i) (idt[i := gate_for (isr ! i)]) @ map gate_for (take n (drop (Suc i) isr)) @ drop (Suc i + n) idt)"
    using Suc.prems Suc.IH [of "Suc i" "idt[i := gate_for (isr ! i)]"] by simp
  then show ?case using Suc.prems by (simp add: s d take_Suc_conv_app_nth)
qed simp

lemma fill_spec:
  assumes "i + n \<le> length xs"
  shows "fill f xs i n = Ok (take i xs @ map f [i..<i + n] @ drop (i + n) xs)"
  using assms
proof (induction n arbitrary: i xs)
  case (Suc n)
  have "[i..<i + Suc n] = i # [Suc i..<Suc i + n]" by (simp add: upt_conv_Cons)
  then show ?case using Suc by (simp add: take_Suc_conv_app_nth del: upt_Suc)
qed simp

lemma page_setup_spec:
  "page_setup = Ok (replicate 1024 2, map (\<lambda>i. (of_nat i * 0x1000) OR 3) [0..<1024])"
  by (simp add: page_setup_def fill_spec map_replicate_const del: upt_Suc upt_rec_numeral)

subsection \<open>What the controllers are documented to do\<close>

text \<open>
  A controller of the kind 8259.  A command with bit 4 (ICW1) clears its mask and makes it expect words at its data
  port: the vector, then the cascade unless bit 1 says that it is alone, then the mode if bit 0 says that it comes; a
  mode that does not come is 0 (the mode of the 8080, which no x86 processor understands).  With no word expected
  the data port is the mask.  A command with bits 2 and 3 and without bit 4 asks for a poll word, which the next
  read returns.  \<open>True\<close> is the second controller.
\<close>

datatype pic_word = IcwVector | IcwCascade | IcwMode

record pic_chip =
  pc_wait :: "pic_word list"
  pc_poll :: bool
  pc_vector :: u8
  pc_cascade :: u8
  pc_mode :: u8
  pc_mask :: u8

definition pic_command :: "u8 \<Rightarrow> pic_chip \<Rightarrow> pic_chip" where
  "pic_command v c =
     (if bit v 4 then
        c\<lparr>pc_wait := IcwVector # (if bit v 1 then [] else [IcwCascade]) @ (if bit v 0 then [IcwMode] else []),
          pc_poll := False, pc_mode := 0, pc_mask := 0\<rparr>
      else if bit v 3 \<and> bit v 2 then c\<lparr>pc_poll := True\<rparr>
      else c)"

definition pic_data :: "u8 \<Rightarrow> pic_chip \<Rightarrow> pic_chip" where
  "pic_data v c =
     (case pc_wait c of
        [] \<Rightarrow> c\<lparr>pc_mask := v\<rparr>
      | IcwVector # ws \<Rightarrow> c\<lparr>pc_wait := ws, pc_vector := v AND 0xF8\<rparr>
      | IcwCascade # ws \<Rightarrow> c\<lparr>pc_wait := ws, pc_cascade := v\<rparr>
      | IcwMode # ws \<Rightarrow> c\<lparr>pc_wait := ws, pc_mode := v\<rparr>)"

definition pic_idle :: "pic_chip \<Rightarrow> bool" where
  "pic_idle c \<longleftrightarrow> pc_wait c = [] \<and> \<not> pc_poll c"

definition command_port :: "bool \<Rightarrow> u16" where "command_port c = (if c then 0xA0 else 0x20)"
definition data_port_of :: "bool \<Rightarrow> u16" where "data_port_of c = (if c then 0xA1 else 0x21)"

definition pic_laws :: "'d machine \<Rightarrow> ('d \<Rightarrow> bool \<Rightarrow> pic_chip) \<Rightarrow> bool" where
  "pic_laws m chip \<longleftrightarrow>
     (\<forall>c v d. chip (outb m (command_port c) v d) = (chip d)(c := pic_command v (chip d c))) \<and>
     (\<forall>c v d. chip (outb m (data_port_of c) v d) = (chip d)(c := pic_data v (chip d c))) \<and>
     (\<forall>c d. pic_idle (chip d c) \<longrightarrow> fst (inb m (data_port_of c) d) = pc_mask (chip d c)) \<and>
     (\<forall>c d. pic_idle (chip d c) \<longrightarrow> chip (snd (inb m (data_port_of c) d)) = chip d)"

lemma pic_lawsD:
  assumes "pic_laws m chip"
  shows "chip (outb m 0x20 v d) = (chip d)(False := pic_command v (chip d False))"
    "chip (outb m 0xA0 v d) = (chip d)(True := pic_command v (chip d True))"
    "chip (outb m 0x21 v d) = (chip d)(False := pic_data v (chip d False))"
    "chip (outb m 0xA1 v d) = (chip d)(True := pic_data v (chip d True))"
    "pic_idle (chip d False) \<Longrightarrow> fst (inb m 0x21 d) = pc_mask (chip d False)"
    "pic_idle (chip d True) \<Longrightarrow> fst (inb m 0xA1 d) = pc_mask (chip d True)"
    "pic_idle (chip d False) \<Longrightarrow> chip (snd (inb m 0x21 d)) = chip d"
    "pic_idle (chip d True) \<Longrightarrow> chip (snd (inb m 0xA1 d)) = chip d"
proof -
  have l: "\<And>c v d. chip (outb m (command_port c) v d) = (chip d)(c := pic_command v (chip d c))"
    "\<And>c v d. chip (outb m (data_port_of c) v d) = (chip d)(c := pic_data v (chip d c))"
    "\<And>c d. pic_idle (chip d c) \<Longrightarrow> fst (inb m (data_port_of c) d) = pc_mask (chip d c)"
    "\<And>c d. pic_idle (chip d c) \<Longrightarrow> chip (snd (inb m (data_port_of c) d)) = chip d"
    using assms by (simp_all add: pic_laws_def)
  note l' = l [where c = False, unfolded command_port_def data_port_of_def, simplified]
    l [where c = True, unfolded command_port_def data_port_of_def, simplified]
  show "chip (outb m 0x20 v d) = (chip d)(False := pic_command v (chip d False))"
    "chip (outb m 0xA0 v d) = (chip d)(True := pic_command v (chip d True))"
    "chip (outb m 0x21 v d) = (chip d)(False := pic_data v (chip d False))"
    "chip (outb m 0xA1 v d) = (chip d)(True := pic_data v (chip d True))"
    "pic_idle (chip d False) \<Longrightarrow> fst (inb m 0x21 d) = pc_mask (chip d False)"
    "pic_idle (chip d True) \<Longrightarrow> fst (inb m 0xA1 d) = pc_mask (chip d True)"
    "pic_idle (chip d False) \<Longrightarrow> chip (snd (inb m 0x21 d)) = chip d"
    "pic_idle (chip d True) \<Longrightarrow> chip (snd (inb m 0xA1 d)) = chip d"
    by (rule l' | assumption)+
qed

lemma PIC_remap_chips:
  assumes laws: "pic_laws m chip" and idle: "pic_idle (chip d False)" "pic_idle (chip d True)"
  shows "chip (PIC_remap m offset1 offset2 d) =
    (\<lambda>c. \<lparr>pc_wait = [], pc_poll = False, pc_vector = (if c then offset2 else offset1) AND 0xF8, pc_cascade = (if c then 2 else 4),
       pc_mode = 1, pc_mask = pc_mask (chip d c)\<rparr>)"
proof -
  obtain a1 d1 where 1: "inb m 0x21 d = (a1, d1)" by fastforce
  obtain a2 d2 where 2: "inb m 0xA1 d1 = (a2, d2)" by fastforce
  have a: "a1 = pc_mask (chip d False)" "chip d1 = chip d" "a2 = pc_mask (chip d True)" "chip d2 = chip d"
    using pic_lawsD(5,7) [OF laws idle(1)] pic_lawsD(6,8) [OF laws, of d1] idle by (simp_all add: 1 2)
  show ?thesis
    unfolding PIC_remap_def 1 2 prod.case Let_def pic_lawsD(1-4) [OF laws] a(4)
    by (rule ext) (simp add: a pic_command_def pic_data_def)
qed

lemma IRQ_clear_mask_chips:
  assumes laws: "pic_laws m chip" and idle: "\<forall>c. pic_idle (chip d c)" and "k < 16"
  shows "chip (IRQ_clear_mask m (of_nat k) d) =
    (let c = (8 \<le> k) in (chip d)(c := (chip d c)\<lparr>pc_mask := pc_mask (chip d c) AND NOT (push_bit (k mod 8) 1)\<rparr>))"
proof (cases "k < 8")
  case True
  obtain a1 d1 where 1: "inb m 0x21 d = (a1, d1)" by fastforce
  have a: "a1 = pc_mask (chip d False)" "chip d1 = chip d"
    using pic_lawsD(5) [OF laws, of d] pic_lawsD(7) [OF laws, of d] idle by (simp_all add: 1)
  have "(of_nat k :: u8) < 8" "unat (of_nat k :: u8) = k"
    using True by (simp_all add: word_less_nat_alt unat_of_nat)
  then show ?thesis using True idle by (simp add: IRQ_clear_mask_def 1 pic_lawsD(3) [OF laws] a pic_data_def pic_idle_def)
next
  case False
  obtain a1 d1 where 1: "inb m 0xA1 d = (a1, d1)" by fastforce
  have a: "a1 = pc_mask (chip d True)" "chip d1 = chip d"
    using pic_lawsD(6) [OF laws, of d] pic_lawsD(8) [OF laws, of d] idle by (simp_all add: 1)
  have k: "\<not> (of_nat k :: u8) < 8" using False \<open>k < 16\<close> by (simp add: word_less_nat_alt unat_of_nat)
  obtain j where j: "k = 8 + j" "j < 8" using False \<open>k < 16\<close> by (metis le_add_diff_inverse less_diff_conv2 linorder_not_less numeral_Bit0)
  have "(of_nat k :: u8) - 8 = of_nat j" by (simp add: j(1))
  moreover have "unat (of_nat j :: u8) = j" using j(2) by (simp add: unat_of_nat)
  ultimately have u: "unat ((of_nat k :: u8) - 8) = k mod 8" using j by simp
  show ?thesis using False k u idle by (simp add: IRQ_clear_mask_def 1 pic_lawsD(4) [OF laws] a pic_data_def pic_idle_def)
qed

lemma clear_masks_chips:
  assumes laws: "pic_laws m chip" and "\<forall>c. pic_idle (chip d c)" and "k + n \<le> 16"
  shows "chip (clear_masks m k n d) =
    (\<lambda>c. (chip d c)\<lparr>pc_mask := foldl (\<lambda>v j. if (8 \<le> j) = c then v AND NOT (push_bit (j mod 8) 1) else v)
       (pc_mask (chip d c)) [k..<k + n]\<rparr>)"
  using assms(2,3)
proof (induction n arbitrary: k d)
  case (Suc n)
  let ?d = "IRQ_clear_mask m (of_nat k) d"
  have c: "chip ?d = (let c = (8 \<le> k) in (chip d)(c := (chip d c)\<lparr>pc_mask := pc_mask (chip d c) AND NOT (push_bit (k mod 8) 1)\<rparr>))"
    using IRQ_clear_mask_chips [OF laws, of d k] Suc.prems by simp
  then have "\<forall>c. pic_idle (chip ?d c)" using Suc.prems(1) by (simp add: Let_def pic_idle_def)
  from Suc.IH [OF this, of "Suc k"] Suc.prems(2)
  have i: "chip (clear_masks m (Suc k) n ?d) = (\<lambda>c. (chip ?d c)\<lparr>pc_mask := foldl (\<lambda>v j. if (8 \<le> j) = c then v AND NOT (push_bit (j mod 8) 1) else v)
       (pc_mask (chip ?d c)) [Suc k..<Suc k + n]\<rparr>)" by simp
  have "[k..<k + Suc n] = k # [Suc k..<Suc k + n]" by (simp add: upt_conv_Cons)
  then show ?case unfolding clear_masks.simps i by (rule_tac ext) (auto simp: c Let_def)
qed simp

lemma all_bits_cleared:
  "foldl (\<lambda>v j. if (8 \<le> j) = c then v AND NOT (push_bit (j mod 8) 1) else v) (w :: u8) [0..<16] = 0"
proof -
  have l: "[0..<16] = [0, 1, 2, 3, 4, 5, 6, 7, 8, 9, 10, 11, 12, 13, 14, 15 :: nat]" by (simp add: upt_rec)
  show ?thesis unfolding l by (cases c; simp; rule bit_word_eqI) (auto simp: bit_simps less_Suc_eq numeral_eq_Suc)
qed

lemma IDT_Init_spec:
  assumes "length isr = 64"
  shows "IDT_Init m isr addr d = Ok (map gate_for isr @ replicate 192 gate0, \<lparr>dp_limit = 2047, dp_base = addr\<rparr>,
      clear_masks m 0 16 (PIC_remap m 32 40 d))"
    "v < 64 \<Longrightarrow> (map gate_for isr @ replicate 192 gate0) ! v = gate_for (isr ! v)"
    "64 \<le> v \<Longrightarrow> v < 256 \<Longrightarrow> (map gate_for isr @ replicate 192 gate0) ! v = gate0"
  using set_gates_spec [of 0 64 isr "replicate 256 gate0"] assms by (simp_all add: IDT_Init_def nth_append)

subsection \<open>Properties\<close>

text \<open>
  C37. Interrupts after set-up, for controllers that behave as documented for the 8259: vectors 0 to 63 enter their
  routines of \<open>idt2.asm\<close> through the segment 8 by a present 32-bit interrupt gate that any ring may raise
  (type 0xEE), and no other vector has a gate.  The first controller delivers at vector 32, the second at 40, both
  in the mode of the 8086 with an explicit end of interrupt, they are cascaded at line 2, and every line of both is
  enabled, whatever was masked before.
\<close>

theorem interrupts_set_up:
  assumes "pic_laws m chip" and "\<forall>c. pic_idle (chip d c)" and "length isr = 64"
  shows "\<exists>idt ptr d'. IDT_Init m isr addr d = Ok (idt, ptr, d') \<and> length idt = 256 \<and> dp_base ptr = addr \<and>
    (\<forall>v < 64. gate_present (idt ! v) \<and> gate_offset (idt ! v) = isr ! v \<and> selector (idt ! v) = 8 \<and>
       type_attributes (idt ! v) = 0xEE \<and> gate_ring (idt ! v) = 3) \<and>
    (\<forall>v. 64 \<le> v \<and> v < 256 \<longrightarrow> \<not> gate_present (idt ! v)) \<and>
    chip d' = (\<lambda>c. \<lparr>pc_wait = [], pc_poll = False, pc_vector = if c then 40 else 32, pc_cascade = if c then 2 else 4, pc_mode = 1, pc_mask = 0\<rparr>)"
proof -
  let ?d = "PIC_remap m 32 40 d"
  have r: "chip ?d = (\<lambda>c. \<lparr>pc_wait = [], pc_poll = False, pc_vector = (if c then 40 else 32) AND 0xF8, pc_cascade = (if c then 2 else 4),
       pc_mode = 1, pc_mask = pc_mask (chip d c)\<rparr>)"
    using PIC_remap_chips [OF assms(1), of d 32 40] assms(2) by simp
  have "chip (clear_masks m 0 16 ?d) = (\<lambda>c. (chip ?d c)\<lparr>pc_mask := 0\<rparr>)"
    using clear_masks_chips [OF assms(1), of ?d 0 16] by (simp add: r all_bits_cleared pic_idle_def del: upt_rec_numeral)
  then have c: "chip (clear_masks m 0 16 ?d) = (\<lambda>c. \<lparr>pc_wait = [], pc_poll = False, pc_vector = if c then 40 else 32,
      pc_cascade = if c then 2 else 4, pc_mode = 1, pc_mask = 0\<rparr>)"
    by (simp add: r fun_eq_iff)
  show ?thesis using c assms(3) by (simp add: IDT_Init_spec gate_for_simps)
qed

text \<open>
  System calls cannot arrive: \<open>syscall_setup\<close> puts its stub at index 0x81 of the table of stubs, which belongs to
  vector 161, while \<open>task_main\<close> ends a task with interrupt 129; the set-up gives neither vector a gate.
  The stub runs for no other vector than 161.
\<close>

theorem system_call_unreachable:
  assumes "SetStub (replicate 225 (None :: 'h option)) first 0 = Ok stubs" and "syscall_setup stubs call = Ok stubs'"
    and "IDT_Init m isr addr d = Ok (idt, ptr, d')" and "length isr = 64"
  shows "\<not> gate_present (idt ! 129) \<and> \<not> gate_present (idt ! 161) \<and>
    (\<forall>run regs. 31 < r_int_no regs \<longrightarrow> r_int_no regs < 256 \<longrightarrow> r_int_no regs \<noteq> 32 \<longrightarrow> r_int_no regs \<noteq> 161 \<longrightarrow>
      irq_handler run m stubs' (regs, d) = irq_handler (\<lambda>h x. Ok x) m stubs' (regs, d))"
proof -
  have i: "idt = map gate_for isr @ replicate 192 gate0" using assms(3,4) by (simp add: IDT_Init_spec)
  define null :: "'h option list" where "null = replicate 225 None"
  have l: "length null = 225" by (simp add: null_def)
  have s: "stubs' = null[0 := Some first, 0x81 := Some call]"
    using assms(1,2) by (auto simp: SetStub_def syscall_setup_def null_def [symmetric] l wr_eq_Ok)
  have "irq_handler run m stubs' (regs, d) = irq_handler (\<lambda>h x. Ok x) m stubs' (regs, d)"
    if n: "31 < r_int_no regs" "r_int_no regs < 256" "r_int_no regs \<noteq> 32" "r_int_no regs \<noteq> 161" for run regs
  proof -
    let ?k = "unat (r_int_no regs - 32)" and ?n = "unat (r_int_no regs)"
    have u: "31 < ?n" "?n < 256" using n(1,2) by (simp_all add: word_less_nat_alt)
    have e: "?n \<noteq> 32" "?n \<noteq> 161" using n(3,4) by (simp_all add: word_unat_eq_iff)
    have "?k = ?n - 32" using u(1) by (simp add: unat_sub word_le_nat_alt)
    with u e have k: "?k \<noteq> 0" "?k \<noteq> 0x81" "?k < 225" by linarith+
    then have "rd stubs' ?k = Ok None" by (simp only: s rd_def length_list_update l nth_list_update_neq) (simp only: null_def nth_replicate if_True)
    then show ?thesis using n(1) by (simp add: irq_handler_def)
  qed
  moreover have "\<not> gate_present (idt ! 129)" "\<not> gate_present (idt ! 161)"
    using assms(4) by (simp_all add: i IDT_Init_spec(3) gate_for_simps)
  ultimately show ?thesis by blast
qed

lemma unat_drop_22: "unat (drop_bit 22 (va :: u32)) < 1024"
proof -
  have "unat (drop_bit 22 va) = unat va div unat (2 ^ 22 :: u32)" by (simp only: drop_bit_eq_div unat_div)
  also have "unat (2 ^ 22 :: u32) = 2 ^ 22" by simp
  finally have "unat (drop_bit 22 va) = unat va div 2 ^ 22" .
  moreover have "unat va < 2 ^ LENGTH(32)" by (rule unsigned_less)
  then have "unat va < 1024 * 2 ^ 22" by simp
  ultimately show ?thesis by (simp only: less_mult_imp_div_less)
qed

lemma low_page_index:
  assumes "drop_bit 22 (va :: u32) = 0"
  shows "drop_bit 12 va AND 0x3FF = drop_bit 12 va" "unat (drop_bit 12 va) < 1024"
proof -
  have z: "\<not> bit va (n + 22)" for n using arg_cong [OF assms, of "\<lambda>w. bit w n"] by (simp only: bit_simps) (simp add: add.commute)
  have "drop_bit 12 va AND mask 10 = drop_bit 12 va"
  proof (rule bit_word_eqI)
    fix n assume "n < LENGTH(32)"
    show "bit (drop_bit 12 va AND mask 10) n = bit (drop_bit 12 va) n"
      using z [of "n - 10"] by (cases "n < 10") (auto simp: bit_simps add.commute)
  qed
  then show e: "drop_bit 12 va AND 0x3FF = drop_bit 12 va" unfolding field_masks .
  have "unat (drop_bit 12 va AND 0x3FF) < 1024" using and_mask_nat [of "drop_bit 12 va" 10] by simp
  then show "unat (drop_bit 12 va) < 1024" unfolding e .
qed

lemma identity_entry:
  "(((of_nat (unat (drop_bit 12 (va :: u32))) * 0x1000) OR 3) AND 0xFFFFF000) OR (va AND 0xFFF) = va"
proof -
  have "of_nat (unat w) = w" for w :: u32 by simp
  then have p: "of_nat (unat (drop_bit 12 va)) * 0x1000 = push_bit 12 (drop_bit 12 va)"
    by (simp only: push_bit_eq_mult) simp
  have m: "(3 :: u32) = mask 2" by (simp add: mask_eq_exp_minus_1)
  define w where "w = drop_bit 12 va"
  have b: "bit w k = bit va (12 + k)" for k by (simp only: w_def bit_drop_bit_eq o_def)
  have "((push_bit 12 w OR mask 2) AND push_bit 12 (mask 20)) OR (va AND mask 12) = va"
  proof (rule bit_word_eqI)
    fix n assume "n < LENGTH(32)"
    then show "bit (((push_bit 12 w OR mask 2) AND push_bit 12 (mask 20)) OR (va AND mask 12)) n = bit va n"
      by (cases "n < 12") (auto simp: bit_simps b)
  qed
  then show ?thesis by (simp only: p m field_masks w_def)
qed

text \<open>
  C38. Paging on this kernel: \<open>page_setup\<close> fills a page table that maps the first 4 MiB to themselves, and a
  directory without a present entry.  Wherever the tables are, no address is translated once the directory is
  loaded; with the table in the first entry of the directory the first 4 MiB would be mapped to themselves.
\<close>

theorem paging_maps_nothing:
  "\<exists>dir table. page_setup = Ok (dir, table) \<and> (\<forall>tables va. page_walk dir tables va = None) \<and>
    (\<forall>tables at va. tables (push_bit 12 at) = table \<and> drop_bit 22 va = 0 \<longrightarrow>
       page_walk (dir[0 := push_bit 12 at OR 3]) tables va = Some va)"
proof -
  let ?dir = "replicate 1024 (2 :: u32)" and ?table = "map (\<lambda>i. (of_nat i * 0x1000) OR 3 :: u32) [0..<1024]"
  have dir: "?dir ! unat (drop_bit 22 va) = 2" for va :: u32
  proof -
    have "unat (drop_bit 22 va) < 1024" by (rule unat_drop_22)
    then show ?thesis by simp
  qed
  have none: "page_walk ?dir tables va = None" for tables va
    unfolding page_walk_def Let_def dir by simp
  have same: "page_walk (?dir[0 := push_bit 12 at OR 3]) tables va = Some va"
    if t: "tables (push_bit 12 at) = ?table" and va: "drop_bit 22 va = 0" for tables at and va :: u32
  proof -
    have m: "(3 :: u32) = mask 2" "(1 :: u32) = mask 1" by (simp_all add: mask_eq_exp_minus_1)
    have e: "(push_bit 12 at OR 3) AND 0xFFFFF000 = push_bit 12 at"
      unfolding m field_masks
    proof (rule bit_word_eqI)
      fix n assume "n < LENGTH(32)"
      then show "bit ((push_bit 12 at OR mask 2) AND push_bit 12 (mask 20)) n = bit (push_bit 12 at) n"
        by (cases "n < 12") (auto simp: bit_simps)
    qed
    have present: "bit (w OR 3 :: u32) 0" for w unfolding m by (simp add: bit_simps)
    have first: "?dir[0 := push_bit 12 at OR 3] ! unat (0 :: u32) = push_bit 12 at OR 3" by simp
    have entry: "?table ! unat (drop_bit 12 va) = of_nat (unat (drop_bit 12 va)) * 0x1000 OR 3"
      using low_page_index(2) [OF va] by (simp only: nth_map_upt length_upt) simp
    show ?thesis
      unfolding page_walk_def va first e t low_page_index(1) [OF va] entry Let_def identity_entry
      by (simp only: present not_True_eq_False if_False)
  qed
  show ?thesis using none same page_setup_spec by blast
qed

definition pic_pair :: "u16 \<Rightarrow> bool option" where
  "pic_pair port = (if port = 0x20 \<or> port = 0x21 then Some False else if port = 0xA0 \<or> port = 0xA1 then Some True else None)"

definition pic_machine :: "(bool \<Rightarrow> pic_chip) machine" where
  "pic_machine = \<lparr>
     p_in = (\<lambda>width port d. (case pic_pair port of None \<Rightarrow> 0 | Some c \<Rightarrow> ucast (pc_mask (d c)), d)),
     p_out = (\<lambda>width port v d. case pic_pair port of None \<Rightarrow> d
       | Some c \<Rightarrow> d(c := (if bit port 0 then pic_data else pic_command) (ucast v) (d c))),
     m_load = (\<lambda>width a d. (0, d)), m_store = (\<lambda>width a v d. d)\<rparr>"

definition pic_reset :: "bool \<Rightarrow> pic_chip" where
  "pic_reset c = \<lparr>pc_wait = [], pc_poll = False, pc_vector = if c then 0x70 else 8, pc_cascade = 0, pc_mode = 0, pc_mask = 0xB8\<rparr>"

lemma ucast_ucast_u8: "ucast (ucast (v :: u8) :: u64) = v"
  by (rule bit_word_eqI) (simp add: bit_simps)

lemma pic_machine_laws: "pic_laws pic_machine (\<lambda>d. d)"
  by (auto simp: pic_laws_def pic_machine_def outb_def inb_def command_port_def data_port_of_def pic_pair_def ucast_ucast_u8
      split: prod.splits)

lemma interrupts_set_up_witness:
  "\<exists>idt ptr. IDT_Init pic_machine (map of_nat [1000..<1064]) 0x5000 pic_reset =
     Ok (idt, ptr, \<lambda>c. \<lparr>pc_wait = [], pc_poll = False, pc_vector = if c then 40 else 32, pc_cascade = if c then 2 else 4, pc_mode = 1, pc_mask = 0\<rparr>)"
  using interrupts_set_up [OF pic_machine_laws, where d = pic_reset and isr = "map of_nat [1000..<1064]" and addr = "0x5000"]
  by (auto simp: pic_reset_def pic_idle_def)

lemma system_call_unreachable_witness:
  "\<exists>stubs' idt ptr d'. syscall_setup ((replicate 225 None)[0 := Some ''timer'']) ''syscall'' = Ok stubs' \<and>
     IDT_Init pic_machine (map of_nat [1000..<1064]) 0x5000 pic_reset = Ok (idt, ptr, d') \<and>
     \<not> gate_present (idt ! 129) \<and> \<not> gate_present (idt ! 161)"
proof -
  define null :: "string option list" where "null = replicate 225 None"
  have l: "length null = 225" by (simp add: null_def)
  have 1: "SetStub null ''timer'' 0 = Ok (null[0 := Some ''timer''])"
    "syscall_setup (null[0 := Some ''timer'']) ''syscall'' = Ok (null[0 := Some ''timer'', 0x81 := Some ''syscall''])"
    by (simp_all add: SetStub_def syscall_setup_def l)
  obtain idt ptr d' where 2: "IDT_Init pic_machine (map of_nat [1000..<1064]) 0x5000 pic_reset = Ok (idt, ptr, d')"
    using interrupts_set_up_witness by blast
  show ?thesis using 1 2 system_call_unreachable [OF 1(1) [unfolded null_def] 1(2) [unfolded null_def] 2]
    unfolding null_def by fastforce
qed

lemma segments_set_up:
  "\<exists>es. GDT_Init a = Ok (es, \<lparr>dp_limit = 63, dp_base = a\<rparr>) \<and> length es = 8 \<and>
     (\<forall>i < 8. seg_present (es ! i) \<longleftrightarrow> 1 \<le> i \<and> i \<le> 4) \<and>
     (\<forall>i. 1 \<le> i \<and> i \<le> 4 \<longrightarrow> seg_base (es ! i) = 0 \<and> seg_limit (es ! i) = 0xFFFFFFFF \<and>
        seg_ring (es ! i) = (if i \<le> 2 then 0 else 3) \<and> seg_code (es ! i) = odd i)"
proof -
  have step: "\<exists>es'. SetEntry es i base limit acc gran = Ok es'" if "i < length es" for es i base limit acc gran
    using that by (simp add: SetEntry_def Let_def)
  let ?es = "replicate 8 gdt_entry0"
  obtain e0 where 0: "SetEntry ?es 0 0 0 0 0 = Ok e0" using step [of 0 ?es] by fastforce
  note s0 = SetEntry_spec [OF 0]
  obtain e1 where 1: "SetEntry e0 1 0 0xFFFFFFFF 0x9A 0xCF = Ok e1" using step [of 1 e0] s0(3) by fastforce
  note s1 = SetEntry_spec [OF 1]
  obtain e2 where 2: "SetEntry e1 2 0 0xFFFFFFFF 0x92 0xCF = Ok e2" using step [of 2 e1] s0(3) s1(3) by fastforce
  note s2 = SetEntry_spec [OF 2]
  obtain e3 where 3: "SetEntry e2 3 0 0xFFFFFFFF 0xFA 0xCF = Ok e3" using step [of 3 e2] s0(3) s1(3) s2(3) by fastforce
  note s3 = SetEntry_spec [OF 3]
  obtain e4 where 4: "SetEntry e3 4 0 0xFFFFFFFF 0xF2 0xCF = Ok e4" using step [of 4 e3] s0(3) s1(3) s2(3) s3(3) by fastforce
  note s4 = SetEntry_spec [OF 4]
  have len: "length e4 = 8" by (simp add: s0(3) s1(3) s2(3) s3(3) s4(3))
  have g: "e4 ! 1 = e1 ! 1" "e4 ! 2 = e2 ! 2" "e4 ! 3 = e3 ! 3" "e4 ! 0 = e0 ! 0"
    "e4 ! 5 = gdt_entry0" "e4 ! 6 = gdt_entry0" "e4 ! 7 = gdt_entry0"
    by (simp_all add: s0(4) s1(4) s2(4) s3(4) s4(4))
  have lim: "push_bit 12 (take_bit 20 0xFFFFFFFF) OR 0xFFF = (0xFFFFFFFF :: u32)" by simp
  note facts = g s0(1,2,5) s1(1,2,5) s2(1,2,5) s3(1,2,5) s4(1,2,5)
  have p: "\<not> seg_present gdt_entry0" by (simp add: seg_present_def gdt_entry0_def)
  have "seg_present (e4 ! i) \<longleftrightarrow> 1 \<le> i \<and> i \<le> 4" if "i < 8" for i
  proof -
    from that consider "i = 0" | "i = 1" | "i = 2" | "i = 3" | "i = 4" | "i = 5" | "i = 6" | "i = 7" by linarith
    then show ?thesis by cases (simp_all only: seg_present_def facts, simp_all add: gdt_entry0_def)
  qed
  moreover have "seg_base (e4 ! i) = 0 \<and> seg_limit (e4 ! i) = 0xFFFFFFFF \<and>
      seg_ring (e4 ! i) = (if i \<le> 2 then 0 else 3) \<and> seg_code (e4 ! i) = odd i" if "1 \<le> i" "i \<le> 4" for i
  proof -
    from that consider "i = 1" | "i = 2" | "i = 3" | "i = 4" by linarith
    then show ?thesis by cases (simp_all only: facts seg_ring_def seg_code_def, simp_all)
  qed
  moreover have "GDT_Init a = Ok (e4, \<lparr>dp_limit = 63, dp_base = a\<rparr>)"
    by (simp only: GDT_Init_def 0 1 2 3 4 bnd.simps) simp
  ultimately show ?thesis using len by blast
qed

lemma paging_maps_nothing_witness:
  "\<exists>dir table. page_setup = Ok (dir, table) \<and> page_walk dir (\<lambda>p. table) 0x1234 = None \<and>
     page_walk (dir[0 := push_bit 12 5 OR 3]) (\<lambda>p. table) 0x1234 = Some 0x1234"
proof -
  obtain dir table where p: "page_setup = Ok (dir, table)" and n: "\<forall>tables va. page_walk dir tables va = None"
    and i: "\<forall>tables at va. tables (push_bit 12 at) = table \<and> drop_bit 22 va = 0 \<longrightarrow>
       page_walk (dir[0 := push_bit 12 at OR 3]) tables va = Some va"
    using paging_maps_nothing by blast
  show ?thesis using p n i [THEN spec, THEN spec, THEN spec, of "\<lambda>p. table" "5" "0x1234"]
    by (intro exI [of _ dir] exI [of _ table]) simp
qed

end
