(* ===== verification/Krn_Memory.thy ===== *)
theory Krn_Memory
  imports Krn_Machine Krn_Libc
begin

text \<open>
  The allocator of the kernel, \<open>base/memory/malloc.cpp\<close>, and the operators and host functions on top of it
  (\<open>base/core/cxx_support.cpp\<close>), on the bytes of memory.  \<open>struct alloc_struct\<close> has 28 bytes: \<open>allocated\<close> at
  0, \<open>id\<close> at 4, \<open>size\<close> at 8, \<open>magic\<close> at 12, \<open>prev\<close> at 20 and \<open>next\<close> at 24; the signature has six letters and
  runs into the padding behind \<open>magic\<close>.  \<open>size_t\<close> has 64 bits (\<open>stdint.h\<close>), pointers and
  \<open>uint64_t\<close> have 32.

  Steps from block to block count in headers and not in bytes: a block takes 28 bytes for every byte
  asked for, its data start 112 bytes behind its header when it is new and 784 when it is used again.
  The theory shows that the blocks stay apart, which of them \<open>free\<close> finds, and what region is managed.
\<close>

subsection \<open>State\<close>

record kheap =
  kh_mem :: kernel_mem
  kh_id :: int
  kh_addr :: u64
  kh_len :: u64
  kh_root :: u32
  kh_avaible :: int

definition a_allocated :: "kernel_mem \<Rightarrow> u32 \<Rightarrow> bool" where "a_allocated mem d \<longleftrightarrow> mem d \<noteq> 0"
definition a_size :: "kernel_mem \<Rightarrow> u32 \<Rightarrow> u32" where "a_size mem d = mem_le32 mem (d + 8)"

definition check_magic :: "kernel_mem \<Rightarrow> u32 \<Rightarrow> bool" where
  "check_magic mem d \<longleftrightarrow> map (\<lambda>i. mem (d + 12 + of_nat i)) [0..<6] = bytes_of ''FLOPPA''"

definition set_signature :: "kernel_mem \<Rightarrow> u32 \<Rightarrow> kernel_mem" where
  "set_signature mem d = mem_put_bytes mem (d + 12) (bytes_of ''FLOPPA'')"

subsection \<open>The region\<close>

text \<open>The entries of the memory map of the boot loader; an entry of size 2^32 - 4 is read again and again.\<close>

fun mmap_loop :: "nat \<Rightarrow> kernel_mem \<Rightarrow> u32 \<Rightarrow> u32 \<Rightarrow> int \<Rightarrow> u64 \<times> u64 \<Rightarrow> (int \<times> u64 \<times> u64) outcome" where
  "mmap_loop 0 mem mmap bound avaible big = Stuck"
| "mmap_loop (Suc fuel) mem mmap bound avaible big =
     (if mmap < bound then
        let len = mem_le64 mem (mmap + 12);
            usable = (mem_le32 mem (mmap + 20) = 1);
            avaible' = (if usable then to_int (avaible + uint len) else avaible);
            big' = (if usable \<and> snd big < len then (mem_le64 mem (mmap + 4), len) else big) in
        mmap_loop fuel mem (mmap + mem_le32 mem mmap + 4) bound avaible' big'
      else Ok (avaible, big))"

text \<open>\<open>&kernel_end - &kernel_start\<close> is a difference of pointers to \<open>int\<close>.\<close>

definition pmm_setup :: "nat \<Rightarrow> kernel_mem \<Rightarrow> u32 \<Rightarrow> u32 \<Rightarrow> u32 \<Rightarrow> kheap outcome" where
  "pmm_setup fuel mem mbi kernel_start kernel_end =
     (let mmap_length = mem_le32 mem (mbi + 44); mmap_addr = mem_le32 mem (mbi + 48) in
      bnd (mmap_loop fuel mem mmap_addr (mmap_addr + mmap_length) 0 (0, 0)) (\<lambda>(avaible, addr, len).
      let (addr, len) = (if addr = ucast kernel_start
            then (ucast kernel_end, len - word_of_int ((sint kernel_end - sint kernel_start) div 4)) else (addr, len));
          root = ucast addr;
          mem = set_signature (mem(root := 0)) root;
          mem = mem_put32 mem (root + 24) root;
          mem = mem_put32 mem (root + 20) root;
          mem = mem_put32 mem (root + 4) 0;
          mem = mem_put32 mem (root + 8) 0 in
      Ok \<lparr>kh_mem = mem, kh_id = 1, kh_addr = addr, kh_len = len, kh_root = root, kh_avaible = avaible\<rparr>))"

subsection \<open>Allocation\<close>

text \<open>A new block at \<open>d\<close>; the block before it is linked to it.\<close>

definition new_block :: "kheap \<Rightarrow> u64 \<Rightarrow> u32 \<Rightarrow> u32 \<Rightarrow> (kheap \<times> u32) outcome" where
  "new_block h sz prev d =
     (let mem = (kh_mem h)(d := 1);
          mem = mem_put32 mem (d + 20) prev;
          mem = mem_put32 mem (prev + 24) d;
          mem = set_signature mem d;
          mem = mem_put32 mem (d + 8) (ucast sz);
          mem = mem_put32 mem (d + 4) (word_of_int (kh_id h)) in
      guard (in_int (kh_id h + 1)) (Ok (h\<lparr>kh_mem := mem, kh_id := kh_id h + 1\<rparr>, d + 4 * 28)))"

text \<open>
  \<open>prev\<close> has no value before a block is passed: it starts as a parameter.  \<open>(int)d\<close> is extended with its
  sign where it is compared with the end of the region.
\<close>

fun malloc_loop :: "nat \<Rightarrow> kheap \<Rightarrow> u64 \<Rightarrow> u32 \<Rightarrow> u32 \<Rightarrow> (kheap \<times> u32) outcome" where
  "malloc_loop 0 h sz prev d = Stuck"
| "malloc_loop (Suc fuel) h sz prev d =
     (if (scast d :: u64) < kh_len h + kh_addr h then
        if check_magic (kh_mem h) d then
          if \<not> a_allocated (kh_mem h) d \<and> sz \<le> scast (a_size (kh_mem h) d)
          then Ok (h\<lparr>kh_mem := (kh_mem h)(d := 1)\<rparr>, d + 28 * 28)
          else malloc_loop fuel h sz d (d + 28 * (a_size (kh_mem h) d + 28))
        else if kh_addr h + kh_len h < ucast (d + 28) + sz then Ok (h, - 1)
        else new_block h sz prev d
      else Ok (h, - 1))"

definition k_malloc :: "nat \<Rightarrow> u32 \<Rightarrow> kheap \<Rightarrow> u64 \<Rightarrow> (kheap \<times> u32) outcome" where
  "k_malloc fuel prev h sz = malloc_loop fuel h sz prev (ucast (kh_addr h + 28))"

definition k_free :: "u32 \<Rightarrow> kheap \<Rightarrow> kheap" where
  "k_free p h =
     (let d = p - 4 * 28 in
      if check_magic (kh_mem h) d \<and> a_allocated (kh_mem h) d then h\<lparr>kh_mem := (kh_mem h)(d := 0)\<rparr> else h)"

subsection \<open>Operators and host functions\<close>

definition operator_new :: "nat \<Rightarrow> u32 \<Rightarrow> kheap \<Rightarrow> u32 \<Rightarrow> (kheap \<times> u32) outcome" where
  "operator_new fuel prev h sz = k_malloc fuel prev h (ucast sz)"

definition operator_delete :: "u32 \<Rightarrow> kheap \<Rightarrow> kheap" where "operator_delete p h = k_free p h"

definition host_malloc :: "nat \<Rightarrow> u32 \<Rightarrow> kheap \<Rightarrow> u64 \<Rightarrow> (kheap \<times> u32) outcome" where
  "host_malloc fuel prev h sz = k_malloc fuel prev h sz"

definition host_free :: "u32 \<Rightarrow> u64 \<Rightarrow> kheap \<Rightarrow> kheap" where "host_free p sz h = k_free p h"

fun mem_copy :: "kernel_mem \<Rightarrow> u32 \<Rightarrow> u32 \<Rightarrow> nat \<Rightarrow> kernel_mem" where
  "mem_copy mem dst src 0 = mem"
| "mem_copy mem dst src (Suc n) = mem_copy (mem(dst := mem src)) (dst + 1) (src + 1) n"

text \<open>All of the old object is copied, also into a smaller one; the copy is in the block as \<open>malloc\<close> gives it.\<close>

definition host_realloc :: "nat \<Rightarrow> u32 \<Rightarrow> kheap \<Rightarrow> u32 \<Rightarrow> u64 \<Rightarrow> u64 \<Rightarrow> (kheap \<times> u32) outcome" where
  "host_realloc fuel prev h p new_size old_size =
     bnd (k_malloc fuel prev h new_size) (\<lambda>(h, n).
     let num = sint (ucast old_size :: u32) in
     guard (0 \<le> num) (
     Ok (k_free p (h\<lparr>kh_mem := mem_copy (kh_mem h) n p (nat num)\<rparr>), n)))"

subsection \<open>The blocks\<close>

text \<open>The headers from \<open>d\<close> on, as sizes and states, up to the first place without a signature.\<close>

definition block_step :: "nat \<Rightarrow> nat" where "block_step s = 28 * (s + 28)"

fun blocks :: "kernel_mem \<Rightarrow> nat \<Rightarrow> (nat \<times> bool) list \<Rightarrow> bool" where
  "blocks mem d [] \<longleftrightarrow> \<not> check_magic mem (of_nat d)"
| "blocks mem d ((s, al) # bs) \<longleftrightarrow> check_magic mem (of_nat d) \<and> a_size mem (of_nat d) = of_nat s \<and> s < 2 ^ 31 \<and>
     a_allocated mem (of_nat d) = al \<and> blocks mem (d + block_step s) bs"

fun blocks_end :: "nat \<Rightarrow> (nat \<times> bool) list \<Rightarrow> nat" where
  "blocks_end d [] = d"
| "blocks_end d ((s, al) # bs) = blocks_end (d + block_step s) bs"

text \<open>The first block that is free and large enough: the address of its data and the blocks with it in use.\<close>

fun first_fit :: "nat \<Rightarrow> nat \<Rightarrow> (nat \<times> bool) list \<Rightarrow> (nat \<times> (nat \<times> bool) list) option" where
  "first_fit n d [] = None"
| "first_fit n d ((s, al) # bs) =
     (if \<not> al \<and> n \<le> s then Some (d + 784, (s, True) # bs)
      else map_option (\<lambda>(p, bs). (p, (s, al) # bs)) (first_fit n (d + block_step s) bs))"

fun headers :: "nat \<Rightarrow> (nat \<times> bool) list \<Rightarrow> nat list" where
  "headers d [] = []"
| "headers d ((s, al) # bs) = d # headers (d + block_step s) bs"

lemma blocks_end_ge: "d \<le> blocks_end d bs"
  by (induction d bs rule: blocks_end.induct) (simp_all add: block_step_def)

lemma headers_bounds: "x \<in> set (headers d bs) \<Longrightarrow> d \<le> x \<and> x + 784 \<le> blocks_end d bs"
proof (induction d bs rule: headers.induct)
  case (2 d s al bs)
  then show ?case using blocks_end_ge [of "d + block_step s" bs] by (auto simp: block_step_def)
qed simp

lemma headers_apart:
  "x \<in> set (headers d bs) \<Longrightarrow> y \<in> set (headers d bs) \<Longrightarrow> x = y \<or> x + 784 \<le> y \<or> y + 784 \<le> x"
proof (induction d bs rule: headers.induct)
  case (2 d s al bs)
  then show ?case using headers_bounds [of x "d + block_step s" bs] headers_bounds [of y "d + block_step s" bs] by (auto simp: block_step_def)
qed simp

text \<open>The bytes of a header that the walk reads: the state, the size and the signature.\<close>

definition walked :: "nat set" where "walked = {0} \<union> {8..<18}"

definition same_header :: "kernel_mem \<Rightarrow> kernel_mem \<Rightarrow> nat \<Rightarrow> bool" where
  "same_header mem mem' x \<longleftrightarrow> (\<forall>k \<in> walked. mem' (of_nat (x + k)) = mem (of_nat (x + k)))"

lemma header_reads:
  "check_magic mem (of_nat d) \<longleftrightarrow> map (\<lambda>i. mem (of_nat (d + (12 + i)))) [0..<6] = bytes_of ''FLOPPA''"
  "a_size mem (of_nat d) = le32 (mem (of_nat (d + 8))) (mem (of_nat (d + 9))) (mem (of_nat (d + 10))) (mem (of_nat (d + 11)))"
  by (simp_all add: check_magic_def a_size_def mem_le32_def add.assoc add.commute add.left_commute)

lemma magic_cong:
  assumes k: "\<And>k. 12 \<le> k \<Longrightarrow> k < 18 \<Longrightarrow> mem' (of_nat (d + k)) = mem (of_nat (d + k))"
  shows "check_magic mem' (of_nat d) = check_magic mem (of_nat d)"
proof -
  have "map (\<lambda>i. mem' (of_nat (d + (12 + i)))) [0..<6] = map (\<lambda>i. mem (of_nat (d + (12 + i)))) [0..<6]"
    by (rule map_cong [OF refl], rule k) auto
  then show ?thesis by (simp only: header_reads)
qed

lemma size_cong:
  assumes k: "\<And>k. 8 \<le> k \<Longrightarrow> k < 12 \<Longrightarrow> mem' (of_nat (d + k)) = mem (of_nat (d + k))"
  shows "a_size mem' (of_nat d) = a_size mem (of_nat d)"
  using k [of 8] k [of 9] k [of 10] k [of 11] by (simp only: header_reads)

lemma fields_cong:
  assumes k: "\<And>k. 8 \<le> k \<Longrightarrow> k < 18 \<Longrightarrow> mem' (of_nat (d + k)) = mem (of_nat (d + k))"
  shows "check_magic mem' (of_nat d) = check_magic mem (of_nat d)" "a_size mem' (of_nat d) = a_size mem (of_nat d)"
  by (rule magic_cong size_cong, rule k, simp_all)+

lemma header_cong:
  assumes "same_header mem mem' d"
  shows "check_magic mem' (of_nat d) = check_magic mem (of_nat d)" "a_size mem' (of_nat d) = a_size mem (of_nat d)"
    "a_allocated mem' (of_nat d) = a_allocated mem (of_nat d)"
proof -
  have k: "mem' (of_nat (d + k)) = mem (of_nat (d + k))" if "k \<in> walked" for k
    using assms that by (simp add: same_header_def)
  show "check_magic mem' (of_nat d) = check_magic mem (of_nat d)" "a_size mem' (of_nat d) = a_size mem (of_nat d)"
    by (rule fields_cong, rule k, simp add: walked_def)+
  show "a_allocated mem' (of_nat d) = a_allocated mem (of_nat d)" using k [of 0] by (simp add: a_allocated_def walked_def)
qed

lemma blocks_cong:
  assumes "blocks mem d bs" and "\<forall>x \<in> set (headers d bs). same_header mem mem' x" and "same_header mem mem' (blocks_end d bs)"
  shows "blocks mem' d bs"
  using assms
proof (induction mem d bs rule: blocks.induct)
  case (2 mem d s al bs)
  then have "same_header mem mem' d" by simp
  from header_cong [OF this] 2 show ?case by simp
qed (simp add: header_cong)

lemma same_header_trans: "same_header m1 m2 x \<Longrightarrow> same_header m2 m3 x \<Longrightarrow> same_header m1 m3 x"
  by (simp add: same_header_def)

lemma walked_less: "k \<in> walked \<Longrightarrow> k < 18"
  by (auto simp: walked_def)

lemma same_header_put32:
  assumes "a + 4 \<le> 2 ^ 32" and "x + 18 \<le> 2 ^ 32" and "\<forall>k \<in> walked. x + k < a \<or> a + 4 \<le> x + k"
  shows "same_header mem (mem_put32 mem (of_nat a) v) x"
  using assms unfolding same_header_def by (fastforce intro!: put32_other dest: walked_less)

lemma same_header_upd:
  assumes "a < 2 ^ 32" and "x + 18 \<le> 2 ^ 32" and "\<forall>k \<in> walked. a \<noteq> x + k"
  shows "same_header mem (mem(of_nat a := b)) x"
  unfolding same_header_def
proof
  fix k assume k: "k \<in> walked"
  then have "(of_nat (x + k) :: u32) \<noteq> of_nat a"
    using assms walked_less [OF k] by (subst of_nat_addr_eq) auto
  then show "(mem(of_nat a := b)) (of_nat (x + k)) = mem (of_nat (x + k))" by simp
qed

lemma same_header_state:
  assumes "d + 28 \<le> x \<or> x + 28 \<le> d" and "d < 2 ^ 31" and "x \<le> 2 ^ 31"
  shows "same_header mem (mem(of_nat d := b)) x"
proof (rule same_header_upd)
  show "\<forall>k \<in> walked. d \<noteq> x + k"
  proof
    fix k assume "k \<in> walked"
    from walked_less [OF this] show "d \<noteq> x + k" using assms(1) by linarith
  qed
qed (use assms in simp_all)

lemma same_header_signature:
  assumes "a + 18 \<le> 2 ^ 32" and "x + 18 \<le> 2 ^ 32" and "\<forall>k \<in> walked. x + k < a + 12 \<or> a + 18 \<le> x + k"
  shows "same_header mem (set_signature mem (of_nat a)) x"
  unfolding same_header_def
proof
  fix k assume k: "k \<in> walked"
  have "set_signature mem (of_nat a) = mem_put_bytes mem (of_nat (a + 12)) (bytes_of ''FLOPPA'')"
    by (simp add: set_signature_def add.commute)
  moreover have "length (bytes_of ''FLOPPA'') = 6" by simp
  ultimately show "set_signature mem (of_nat a) (of_nat (x + k)) = mem (of_nat (x + k))"
    using assms k walked_less [OF k] put_bytes_at [of "a + 12" "bytes_of ''FLOPPA''" "x + k" mem] by force
qed

subsection \<open>The walk\<close>

lemma scast_positive:
  fixes x :: u32
  assumes "x < 0x80000000"
  shows "(scast x :: u64) = ucast x"
proof (rule bit_word_eqI)
  have "\<not> bit x 31" by (rule no_high_bits [of _ 31]) (use assms in \<open>simp_all add: word_less_nat_alt\<close>)
  then show "bit (scast x :: u64) n \<longleftrightarrow> bit (ucast x :: u64) n" if "n < LENGTH(64)" for n
    using that by (cases "n < 32") (auto simp: bit_simps dest: bit_imp_le_length)
qed

lemma scast_addr:
  assumes "n < 2 ^ 31"
  shows "(scast (of_nat n :: u32) :: u64) = of_nat n"
proof -
  have t: "take_bit 32 n = n" using assms by (simp add: take_bit_nat_eq_self_iff)
  have "(of_nat n :: u32) < 0x80000000" using assms by (simp add: word_less_nat_alt unat_of_nat t)
  then have "(scast (of_nat n :: u32) :: u64) = ucast (of_nat n :: u32)" by (rule scast_positive)
  also have "\<dots> = of_nat n" by (simp add: unsigned_of_nat t)
  finally show ?thesis .
qed

lemma u64_less:
  assumes "n < 2 ^ 64" and "m < 2 ^ 64"
  shows "(of_nat n :: u64) < of_nat m \<longleftrightarrow> n < m" "(of_nat n :: u64) \<le> of_nat m \<longleftrightarrow> n \<le> m"
  using assms by (simp_all add: word_less_nat_alt word_le_nat_alt unat_of_nat take_bit_nat_eq_self_iff [THEN iffD2])

lemma loop_header:
  assumes "blocks (kh_mem h) d ((s, al) # bs)" and "d < lim" and "kh_len h + kh_addr h = of_nat lim"
    and "lim \<le> 2 ^ 31" and "n < 2 ^ 64"
  shows "malloc_loop (Suc fuel) h (of_nat n) prev (of_nat d) =
    (if \<not> al \<and> n \<le> s then Ok (h\<lparr>kh_mem := (kh_mem h)(of_nat d := 1)\<rparr>, of_nat (d + 784))
     else malloc_loop fuel h (of_nat n) (of_nat d) (of_nat (d + block_step s)))"
proof -
  have b: "check_magic (kh_mem h) (of_nat d)" "a_size (kh_mem h) (of_nat d) = of_nat s" "s < 2 ^ 31"
    "a_allocated (kh_mem h) (of_nat d) = al" using assms(1) by simp_all
  have 1: "(scast (of_nat d :: u32) :: u64) < kh_len h + kh_addr h"
    using assms(2-4) by (simp add: scast_addr u64_less)
  have 2: "of_nat n \<le> (scast (of_nat s :: u32) :: u64) \<longleftrightarrow> n \<le> s"
    using b(3) assms(5) by (simp add: scast_addr u64_less)
  have 3: "(of_nat d + 28 * (of_nat s + 28) :: u32) = of_nat (d + block_step s)"
    "(of_nat d + 28 * 28 :: u32) = of_nat (d + 784)" by (simp_all add: block_step_def)
  show ?thesis using 1 b(1) by (simp only: malloc_loop.simps b 2 3 if_True simp_thms)
qed

lemma set_state:
  assumes "d + 18 \<le> 2 ^ 32"
  shows "check_magic (mem(of_nat d := b)) (of_nat d) = check_magic mem (of_nat d)"
    "a_size (mem(of_nat d := b)) (of_nat d) = a_size mem (of_nat d)"
    "a_allocated (mem(of_nat d := b)) (of_nat d) = (b \<noteq> 0)"
proof -
  have "(of_nat (d + k) :: u32) \<noteq> of_nat d" if "8 \<le> k" "k < 18" for k
    using assms that by (subst of_nat_addr_eq) auto
  then have "(mem(of_nat d := b)) (of_nat (d + k)) = mem (of_nat (d + k))" if "8 \<le> k" "k < 18" for k
    using that by (simp del: of_nat_add)
  from fields_cong [where mem' = "mem(of_nat d := b)" and mem = mem and d = d, OF this]
  show "check_magic (mem(of_nat d := b)) (of_nat d) = check_magic mem (of_nat d)"
    "a_size (mem(of_nat d := b)) (of_nat d) = a_size mem (of_nat d)" by simp_all
qed (simp add: a_allocated_def)

lemma loop_first_fit:
  assumes "blocks (kh_mem h) d bs" and "(\<forall>x \<in> set (headers d bs). x < lim) \<and> blocks_end d bs < 2 ^ 31"
    and "kh_len h + kh_addr h = of_nat lim" and "lim \<le> 2 ^ 31" and "n < 2 ^ 64" and "length bs < fuel" and "first_fit n d bs = Some (p, bs')"
  shows "\<exists>x \<in> set (headers d bs). p = x + 784 \<and>
    malloc_loop fuel h (of_nat n) prev (of_nat d) = Ok (h\<lparr>kh_mem := (kh_mem h)(of_nat x := 1)\<rparr>, of_nat p) \<and>
    blocks ((kh_mem h)(of_nat x := 1)) d bs'"
  using assms
proof (induction n d bs arbitrary: fuel prev p bs' rule: first_fit.induct)
  case (2 n d s al bs)
  obtain f where f: "fuel = Suc f" "length bs < f" using 2(7) by (cases fuel) simp_all
  have e: "d + block_step s \<le> blocks_end (d + block_step s) bs" by (rule blocks_end_ge)
  have d: "d < lim" using 2(3) by simp
  note loop = loop_header [OF 2(2) d 2(4,5,6)]
  show ?case
  proof (cases "\<not> al \<and> n \<le> s")
    case True
    then have p: "p = d + 784" "bs' = (s, True) # bs" using 2(8) by auto
    have "same_header (kh_mem h) ((kh_mem h)(of_nat d := 1)) x" if "x \<in> set (headers (d + block_step s) bs) \<or> x = blocks_end (d + block_step s) bs" for x
    proof -
      have "d + 784 \<le> x \<and> x \<le> blocks_end (d + block_step s) bs"
        using that headers_bounds [of x "d + block_step s" bs] e by (auto simp: block_step_def)
      moreover have "blocks_end (d + block_step s) bs < 2 ^ 31" using 2(3) by simp
      ultimately have "d + 28 \<le> x" "d < 2 ^ 31" "x \<le> 2 ^ 31" using 2(5) d by linarith+
      then show ?thesis by (intro same_header_state) simp_all
    qed
    note same = this
    have "blocks (kh_mem h) (d + block_step s) bs" using 2(2) by simp
    then have "blocks ((kh_mem h)(of_nat d := 1)) (d + block_step s) bs"
      by (rule blocks_cong) (use same in blast)+
    moreover have "d + 18 \<le> 2 ^ 32" using d 2(5) by simp
    ultimately have "blocks ((kh_mem h)(of_nat d := 1)) d ((s, True) # bs)"
      using 2(2) by (simp add: set_state)
    moreover have "malloc_loop fuel h (of_nat n) prev (of_nat d) = Ok (h\<lparr>kh_mem := (kh_mem h)(of_nat d := 1)\<rparr>, of_nat (d + 784))"
      using loop [of "fuel - 1" prev] True f by simp
    moreover have "d \<in> set (headers d ((s, al) # bs))" by simp
    ultimately show ?thesis unfolding p by blast
  next
    case False
    then obtain q cs where q: "first_fit n (d + block_step s) bs = Some (q, cs)" "p = q" "bs' = (s, al) # cs"
      using 2(8) by auto
    have pre: "blocks (kh_mem h) (d + block_step s) bs"
      "(\<forall>x \<in> set (headers (d + block_step s) bs). x < lim) \<and> blocks_end (d + block_step s) bs < 2 ^ 31" using 2(2,3) by simp_all
    from 2(1) [OF False pre 2(4,5,6) f(2) q(1), of "of_nat d"]
    obtain x where x: "x \<in> set (headers (d + block_step s) bs)" "q = x + 784"
      "malloc_loop f h (of_nat n) (of_nat d) (of_nat (d + block_step s)) = Ok (h\<lparr>kh_mem := (kh_mem h)(of_nat x := 1)\<rparr>, of_nat q)"
      "blocks ((kh_mem h)(of_nat x := 1)) (d + block_step s) cs" by blast
    have "d + 784 \<le> x \<and> x < lim" using headers_bounds [OF x(1)] x(1) 2(3) by (simp add: block_step_def)
    then have "d + 28 \<le> x" "x < 2 ^ 31" "d \<le> 2 ^ 31" using 2(5) by linarith+
    then have "same_header (kh_mem h) ((kh_mem h)(of_nat x := 1)) d" by (intro same_header_state) simp_all
    from header_cong [OF this] 2(2) have "blocks ((kh_mem h)(of_nat x := 1)) d ((s, al) # cs)" using x(4) by simp
    moreover have "malloc_loop fuel h (of_nat n) prev (of_nat d) = Ok (h\<lparr>kh_mem := (kh_mem h)(of_nat x := 1)\<rparr>, of_nat q)"
      using loop [of f prev] x(3) False by (simp only: f(1) if_False)
    moreover have "x \<in> set (headers d ((s, al) # bs))" using x(1) by simp
    ultimately show ?thesis using q(2,3) x(2) by blast
  qed
qed simp

fun last_header :: "u32 \<Rightarrow> nat \<Rightarrow> (nat \<times> bool) list \<Rightarrow> u32" where
  "last_header prev d [] = prev"
| "last_header prev d ((s, al) # bs) = last_header (of_nat d) (d + block_step s) bs"

lemma loop_no_fit:
  assumes "blocks (kh_mem h) d bs" and "(\<forall>x \<in> set (headers d bs). x < lim) \<and> blocks_end d bs < 2 ^ 31"
    and "kh_len h + kh_addr h = of_nat lim" and "lim \<le> 2 ^ 31" and "n < 2 ^ 64" and "length bs < fuel" and "first_fit n d bs = None"
  shows "malloc_loop fuel h (of_nat n) prev (of_nat d) =
    malloc_loop (fuel - length bs) h (of_nat n) (last_header prev d bs) (of_nat (blocks_end d bs))"
  using assms
proof (induction n d bs arbitrary: fuel prev rule: first_fit.induct)
  case (2 n d s al bs)
  obtain f where f: "fuel = Suc f" "length bs < f" using 2(7) by (cases fuel) simp_all
  have "d < lim" using 2(3) by simp
  note loop = loop_header [OF 2(2) this 2(4,5,6)]
  from 2(8) have no: "\<not> (\<not> al \<and> n \<le> s)" "first_fit n (d + block_step s) bs = None" by (auto split: if_splits)
  show ?case using loop [of f prev] 2(1) [OF no(1) _ _ 2(4,5,6) f(2) no(2), of "of_nat d"] 2(2,3) no(1)
    by (simp add: f(1))
qed simp

lemma last_header_in: "bs \<noteq> [] \<Longrightarrow> last_header prev d bs = of_nat (last (headers d bs)) \<and> last (headers d bs) \<in> set (headers d bs)"
proof (induction prev d bs rule: last_header.induct)
  case (2 prev d s al bs)
  then show ?case by (cases bs) auto
qed simp

text \<open>The write of \<open>prev->next\<close> misses what the walk reads of a header.\<close>

definition spares :: "u32 \<Rightarrow> nat \<Rightarrow> bool" where
  "spares p x \<longleftrightarrow> (\<forall>k \<in> walked. \<forall>j < 4. p + 24 + of_nat j \<noteq> of_nat (x + k))"

lemma spares_put32:
  assumes "spares p x" and "k \<in> walked"
  shows "mem_put32 mem (p + 24) v (of_nat (x + k)) = mem (of_nat (x + k))"
proof -
  have "p + 24 + of_nat j \<noteq> of_nat (x + k)" if "j < 4" for j using assms that by (simp add: spares_def)
  from this [of 0] this [of 1] this [of 2] this [of 3] show ?thesis by (simp add: mem_put32_def add.assoc)
qed

lemma put32_header:
  assumes "e + 28 \<le> 2 ^ 31" and "off + 4 \<le> 28" and "x + 28 \<le> 2 ^ 32" and "k < 28"
    and "x + k < e + off \<or> e + off + 4 \<le> x + k"
  shows "mem_put32 mem (of_nat e + of_nat off) v (of_nat (x + k)) = mem (of_nat (x + k))"
  using put32_other [of "e + off" "x + k" mem v] assms by simp

lemma signature_header:
  assumes "e + 28 \<le> 2 ^ 31" and "x + 28 \<le> 2 ^ 32" and "k < 28"
  shows "set_signature mem (of_nat e) (of_nat (x + k)) =
    (if e + 12 \<le> x + k \<and> x + k < e + 18 then bytes_of ''FLOPPA'' ! (x + k - (e + 12)) else mem (of_nat (x + k)))"
proof -
  have "length (bytes_of ''FLOPPA'') = 6" by simp
  moreover have "set_signature mem (of_nat e) = mem_put_bytes mem (of_nat (e + 12)) (bytes_of ''FLOPPA'')"
    by (simp add: set_signature_def add.commute)
  ultimately show ?thesis
    using put_bytes_at [of "e + 12" "bytes_of ''FLOPPA''" "x + k" mem] assms
    by (simp only: add.assoc) (simp del: length_map list.map)
qed

lemma new_block_spec:
  assumes "e + 28 \<le> 2 ^ 31" and "n < 2 ^ 31" and "in_int (kh_id h + 1)" and "spares prev e"
  shows "\<exists>mem'. new_block h (of_nat n) prev (of_nat e) = Ok (h\<lparr>kh_mem := mem', kh_id := kh_id h + 1\<rparr>, of_nat (e + 112)) \<and>
    check_magic mem' (of_nat e) \<and> a_size mem' (of_nat e) = of_nat n \<and> a_allocated mem' (of_nat e) \<and>
    (\<forall>x. (x + 28 \<le> e \<or> e + 28 \<le> x) \<and> x < 2 ^ 31 \<and> spares prev x \<longrightarrow> same_header (kh_mem h) mem' x)"
proof -
  define m1 where "m1 = (kh_mem h)(of_nat e := 1)"
  define m2 where "m2 = mem_put32 m1 (of_nat e + of_nat 20) prev"
  define m3 where "m3 = mem_put32 m2 (prev + 24) (of_nat e)"
  define m4 where "m4 = set_signature m3 (of_nat e)"
  define m5 where "m5 = mem_put32 m4 (of_nat e + of_nat 8) (of_nat n)"
  define m6 where "m6 = mem_put32 m5 (of_nat e + of_nat 4) (word_of_int (kh_id h))"
  note defs = m1_def m2_def m3_def m4_def m5_def m6_def
  have n: "(ucast (of_nat n :: u64) :: u32) = of_nat n"
    using assms(2) by (simp add: unsigned_of_nat take_bit_nat_eq_self_iff [THEN iffD2])
  have run: "new_block h (of_nat n) prev (of_nat e) = Ok (h\<lparr>kh_mem := m6, kh_id := kh_id h + 1\<rparr>, of_nat (e + 112))"
    using assms(3) by (simp add: new_block_def Let_def n defs)
  have w: "k < 28" if "k \<in> walked" for k using walked_less [OF that] by simp
  have other: "same_header (kh_mem h) m6 x" if x: "x + 28 \<le> e \<or> e + 28 \<le> x" "x < 2 ^ 31" "spares prev x" for x
    unfolding same_header_def
  proof
    fix k assume k: "k \<in> walked"
    note b = w [OF k]
    have ne: "(of_nat (x + k) :: u32) \<noteq> of_nat e" using assms(1) x(1,2) b by (subst of_nat_addr_eq) auto
    have "m6 (of_nat (x + k)) = m5 (of_nat (x + k))" unfolding m6_def using assms(1) x(1,2) b by (intro put32_header) auto
    also have "\<dots> = m4 (of_nat (x + k))" unfolding m5_def using assms(1) x(1,2) b by (intro put32_header) auto
    also have "\<dots> = m3 (of_nat (x + k))" unfolding m4_def using assms(1) x(1,2) b by (subst signature_header) auto
    also have "\<dots> = m2 (of_nat (x + k))" unfolding m3_def using x(3) k by (rule spares_put32)
    also have "\<dots> = m1 (of_nat (x + k))" unfolding m2_def using assms(1) x(1,2) b by (intro put32_header) auto
    also have "\<dots> = kh_mem h (of_nat (x + k))" unfolding m1_def using ne by simp
    finally show "m6 (of_nat (x + k)) = kh_mem h (of_nat (x + k))" .
  qed
  have state: "m6 (of_nat e) = 1"
  proof -
    have z: "0 \<in> walked" by (simp add: walked_def)
    have "m6 (of_nat (e + 0)) = m5 (of_nat (e + 0))" unfolding m6_def using assms(1) by (intro put32_header) auto
    also have "\<dots> = m4 (of_nat (e + 0))" unfolding m5_def using assms(1) by (intro put32_header) auto
    also have "\<dots> = m3 (of_nat (e + 0))" unfolding m4_def using assms(1) by (subst signature_header) auto
    also have "\<dots> = m2 (of_nat (e + 0))" unfolding m3_def using assms(4) z by (rule spares_put32)
    also have "\<dots> = m1 (of_nat (e + 0))" unfolding m2_def using assms(1) by (intro put32_header) auto
    also have "\<dots> = 1" by (simp add: m1_def)
    finally show ?thesis by simp
  qed
  have magic: "check_magic m6 (of_nat e)"
  proof -
    have "check_magic m6 (of_nat e) = check_magic m5 (of_nat e)"
      unfolding m6_def using assms(1) by (intro magic_cong put32_header) auto
    also have "\<dots> = check_magic m4 (of_nat e)"
      unfolding m5_def using assms(1) by (intro magic_cong put32_header) auto
    also have "check_magic m4 (of_nat e)"
    proof -
      have "map (\<lambda>i. m4 (of_nat (e + (12 + i)))) [0..<6] = map (\<lambda>i. bytes_of ''FLOPPA'' ! i) [0..<6]"
      proof (rule map_cong [OF refl])
        fix i assume "i \<in> set [0..<6::nat]"
        then show "m4 (of_nat (e + (12 + i))) = bytes_of ''FLOPPA'' ! i"
          unfolding m4_def using assms(1) by (subst signature_header) auto
      qed
      also have "\<dots> = bytes_of ''FLOPPA''" by (simp add: upt_rec)
      finally show ?thesis by (simp only: header_reads)
    qed
    finally show ?thesis .
  qed
  have siz: "a_size m6 (of_nat e) = of_nat n"
  proof -
    have "a_size m6 (of_nat e) = a_size m5 (of_nat e)"
      unfolding m6_def using assms(1) by (intro size_cong put32_header) auto
    also have "\<dots> = of_nat n" by (simp add: m5_def a_size_def mem_le32_put32)
    finally show ?thesis .
  qed
  show ?thesis using run other state magic siz by (intro exI [of _ m6]) (simp add: a_allocated_def)
qed

lemma loop_end:
  assumes "\<not> check_magic (kh_mem h) (of_nat e)" and "e < 2 ^ 31" and "kh_len h + kh_addr h = of_nat lim"
    and "lim \<le> 2 ^ 31" and "n < 2 ^ 63" and "0 < fuel"
  shows "malloc_loop fuel h (of_nat n) prev (of_nat e) =
    (if e + 28 + n \<le> lim then new_block h (of_nat n) prev (of_nat e) else Ok (h, - 1))"
proof -
  obtain f where f: "fuel = Suc f" using assms(6) by (cases fuel) simp_all
  have 1: "(scast (of_nat e :: u32) :: u64) < kh_len h + kh_addr h \<longleftrightarrow> e < lim"
    using assms(2-4) by (simp add: scast_addr u64_less)
  have "(ucast (of_nat (e + 28) :: u32) :: u64) = of_nat (e + 28)"
    using assms(2) by (simp add: unsigned_of_nat take_bit_nat_eq_self_iff [THEN iffD2] del: of_nat_add)
  then have 2: "(ucast (of_nat e + 28 :: u32) :: u64) + of_nat n = of_nat (e + 28 + n)" by simp
  have 3: "kh_addr h + kh_len h = of_nat lim" using assms(3) by (simp add: add.commute)
  have 4: "(of_nat lim :: u64) < of_nat (e + 28 + n) \<longleftrightarrow> lim < e + 28 + n"
    using assms(2,4,5) by (intro u64_less) auto
  show ?thesis
    unfolding f malloc_loop.simps 1 2 3 4 using assms(1) by auto
qed

lemma blocks_extend:
  assumes "blocks mem d bs" and "\<forall>x \<in> set (headers d bs). same_header mem mem' x"
    and "check_magic mem' (of_nat (blocks_end d bs))" and "a_size mem' (of_nat (blocks_end d bs)) = of_nat n" and "n < 2 ^ 31"
    and "a_allocated mem' (of_nat (blocks_end d bs))" and "\<not> check_magic mem' (of_nat (blocks_end d bs + block_step n))"
  shows "blocks mem' d (bs @ [(n, True)])"
  using assms
proof (induction mem d bs rule: blocks.induct)
  case (2 mem d s al bs)
  then have "same_header mem mem' d" by simp
  from header_cong [OF this] 2 show ?case by simp
qed simp

definition heap_ok :: "kheap \<Rightarrow> nat \<Rightarrow> nat \<Rightarrow> (nat \<times> bool) list \<Rightarrow> bool" where
  "heap_ok h a lim bs \<longleftrightarrow> kh_addr h = of_nat a \<and> kh_len h + kh_addr h = of_nat lim \<and> a < 2 ^ 30 \<and> lim \<le> 2 ^ 31 \<and>
     blocks (kh_mem h) (a + 28) bs \<and> (\<forall>x \<in> set (headers (a + 28) bs). x < lim) \<and> blocks_end (a + 28) bs < 2 ^ 31"

lemma heap_ok_mem:
  "heap_ok (h\<lparr>kh_mem := mem\<rparr>) a lim bs \<longleftrightarrow> kh_addr h = of_nat a \<and> kh_len h + kh_addr h = of_nat lim \<and> a < 2 ^ 30 \<and>
     lim \<le> 2 ^ 31 \<and> blocks mem (a + 28) bs \<and> (\<forall>x \<in> set (headers (a + 28) bs). x < lim) \<and> blocks_end (a + 28) bs < 2 ^ 31"
  by (simp add: heap_ok_def)

lemma blocks_end_free: "blocks mem d bs \<Longrightarrow> \<not> check_magic mem (of_nat (blocks_end d bs))"
  by (induction mem d bs rule: blocks.induct) simp_all

lemma headers_append: "headers d (bs @ cs) = headers d bs @ headers (blocks_end d bs) cs"
  by (induction d bs rule: headers.induct) simp_all

lemma blocks_end_append: "blocks_end d (bs @ cs) = blocks_end (blocks_end d bs) cs"
  by (induction d bs rule: blocks_end.induct) simp_all

lemma first_fit_shape: "first_fit n d bs = Some (p, bs') \<Longrightarrow> headers d bs' = headers d bs \<and> blocks_end d bs' = blocks_end d bs"
  by (induction n d bs arbitrary: p bs' rule: first_fit.induct) (auto split: if_splits)

lemma spares_behind:
  assumes "q + 28 \<le> x \<or> x \<le> q" and "q < 2 ^ 31" and "x \<le> 2 ^ 31"
  shows "spares (of_nat q) x"
  unfolding spares_def
proof (intro ballI allI impI)
  fix k j :: nat
  assume k: "k \<in> walked" and j: "j < 4"
  have "(of_nat (q + 24 + j) :: u32) \<noteq> of_nat (x + k)"
    using assms walked_less [OF k] j by (subst of_nat_addr_eq) auto
  then show "of_nat q + 24 + of_nat j \<noteq> (of_nat (x + k) :: u32)" by simp
qed

lemma malloc_keeps:
  assumes ok: "heap_ok h a lim bs" and n: "n < 2 ^ 31" and fuel: "length bs < fuel" and id: "in_int (kh_id h + 1)"
  shows "first_fit n (a + 28) bs = Some (p, bs') \<Longrightarrow>
      \<exists>x \<in> set (headers (a + 28) bs). p = x + 784 \<and>
        k_malloc fuel prev h (of_nat n) = Ok (h\<lparr>kh_mem := (kh_mem h)(of_nat x := 1)\<rparr>, of_nat p) \<and>
        heap_ok (h\<lparr>kh_mem := (kh_mem h)(of_nat x := 1)\<rparr>) a lim bs'" (is "?F \<Longrightarrow> ?A")
    and "first_fit n (a + 28) bs = None \<Longrightarrow> e = blocks_end (a + 28) bs \<Longrightarrow> e + 28 + n \<le> lim \<Longrightarrow> e + block_step n < 2 ^ 31 \<Longrightarrow>
      \<not> check_magic (kh_mem h) (of_nat (e + block_step n)) \<Longrightarrow> bs = [] \<longrightarrow> spares prev e \<and> spares prev (e + block_step n) \<Longrightarrow>
      \<exists>h'. k_malloc fuel prev h (of_nat n) = Ok (h', of_nat (e + 112)) \<and> heap_ok h' a lim (bs @ [(n, True)])"
    and "first_fit n (a + 28) bs = None \<Longrightarrow> lim < blocks_end (a + 28) bs + 28 + n \<Longrightarrow>
      k_malloc fuel prev h (of_nat n) = Ok (h, - 1)"
proof -
  note h = ok [unfolded heap_ok_def]
  have "kh_addr h + 28 = of_nat (a + 28)" using h by simp
  moreover have "(ucast (of_nat (a + 28) :: u64) :: u32) = of_nat (a + 28)"
    using h by (simp add: unsigned_of_nat take_bit_nat_eq_self_iff [THEN iffD2] del: of_nat_add)
  ultimately have "(ucast (kh_addr h + 28) :: u32) = of_nat (a + 28)" by simp
  then have k: "k_malloc fuel prev h (of_nat n) = malloc_loop fuel h (of_nat n) prev (of_nat (a + 28))"
    by (simp only: k_malloc_def)
  have b: "blocks (kh_mem h) (a + 28) bs" "(\<forall>x \<in> set (headers (a + 28) bs). x < lim) \<and> blocks_end (a + 28) bs < 2 ^ 31"
    and l: "kh_len h + kh_addr h = of_nat lim" "lim \<le> 2 ^ 31" and n64: "n < 2 ^ 64" "n < 2 ^ 63" using h n by auto
  show "?F \<Longrightarrow> ?A"
  proof -
    assume F: ?F
    from loop_first_fit [OF b l n64(1) fuel F, of prev] obtain x where x: "x \<in> set (headers (a + 28) bs)" "p = x + 784"
      "malloc_loop fuel h (of_nat n) prev (of_nat (a + 28)) = Ok (h\<lparr>kh_mem := (kh_mem h)(of_nat x := 1)\<rparr>, of_nat p)"
      "blocks ((kh_mem h)(of_nat x := 1)) (a + 28) bs'" by blast
    have "heap_ok (h\<lparr>kh_mem := (kh_mem h)(of_nat x := 1)\<rparr>) a lim bs'"
      unfolding heap_ok_mem first_fit_shape [OF F, THEN conjunct1] first_fit_shape [OF F, THEN conjunct2]
      using h x(4) by blast
    then show ?A using x(1-3) unfolding k by blast
  qed
  have walk: "k_malloc fuel prev h (of_nat n) =
      (if blocks_end (a + 28) bs + 28 + n \<le> lim
       then new_block h (of_nat n) (last_header prev (a + 28) bs) (of_nat (blocks_end (a + 28) bs)) else Ok (h, - 1))"
    if none: "first_fit n (a + 28) bs = None"
  proof -
    have "\<not> check_magic (kh_mem h) (of_nat (blocks_end (a + 28) bs))" using b(1) by (rule blocks_end_free)
    from loop_end [OF this _ l n64(2), of "fuel - length bs"] b(2) fuel loop_no_fit [OF b l n64(1) fuel none, of prev]
    show ?thesis by (simp only: k)
  qed
  show "first_fit n (a + 28) bs = None \<Longrightarrow> lim < blocks_end (a + 28) bs + 28 + n \<Longrightarrow>
      k_malloc fuel prev h (of_nat n) = Ok (h, - 1)"
    by (simp add: walk)
  assume none: "first_fit n (a + 28) bs = None" and e: "e = blocks_end (a + 28) bs" and room: "e + 28 + n \<le> lim"
    and small: "e + block_step n < 2 ^ 31" and beyond: "\<not> check_magic (kh_mem h) (of_nat (e + block_step n))"
    and first: "bs = [] \<longrightarrow> spares prev e \<and> spares prev (e + block_step n)"
  let ?prev = "last_header prev (a + 28) bs"
  have spared: "spares ?prev x" if "x \<in> set (headers (a + 28) bs) \<or> x = e \<or> x = e + block_step n" for x
  proof (cases bs)
    case Nil
    then show ?thesis using that first by auto
  next
    case (Cons c cs)
    then obtain q where q: "?prev = of_nat q" "q \<in> set (headers (a + 28) bs)"
      using last_header_in [of bs prev "a + 28"] by blast
    have "q + 784 \<le> e" using headers_bounds [OF q(2)] e by simp
    then have "q + 28 \<le> x \<or> x \<le> q" "q < 2 ^ 31" "x \<le> 2 ^ 31"
      using that headers_apart [OF _ q(2), of x] headers_bounds [of x "a + 28" bs] small e by (auto simp: block_step_def)
    then show ?thesis unfolding q(1) by (rule spares_behind)
  qed
  have e31: "e + 28 \<le> 2 ^ 31" using room l(2) by simp
  obtain mem' where m: "new_block h (of_nat n) ?prev (of_nat e) = Ok (h\<lparr>kh_mem := mem', kh_id := kh_id h + 1\<rparr>, of_nat (e + 112))"
    "check_magic mem' (of_nat e)" "a_size mem' (of_nat e) = of_nat n" "a_allocated mem' (of_nat e)"
    "\<And>x. (x + 28 \<le> e \<or> e + 28 \<le> x) \<and> x < 2 ^ 31 \<and> spares ?prev x \<Longrightarrow> same_header (kh_mem h) mem' x"
    using new_block_spec [OF e31 n id spared [of e]] by blast
  have "\<forall>x \<in> set (headers (a + 28) bs). same_header (kh_mem h) mem' x"
  proof
    fix x assume x: "x \<in> set (headers (a + 28) bs)"
    have "x + 784 \<le> e" using headers_bounds [OF x] e by simp
    then show "same_header (kh_mem h) mem' x" using m(5) [of x] spared [of x] x e31 by simp
  qed
  moreover have "same_header (kh_mem h) mem' (e + block_step n)" using m(5) spared small by (simp add: block_step_def)
  then have "\<not> check_magic mem' (of_nat (e + block_step n))" using beyond header_cong(1) by blast
  ultimately have "blocks mem' (a + 28) (bs @ [(n, True)])"
    using blocks_extend [OF b(1), of mem' n] m(2-4) n e by simp
  moreover have "e < lim" using room by simp
  ultimately have "heap_ok (h\<lparr>kh_mem := mem', kh_id := kh_id h + 1\<rparr>) a lim (bs @ [(n, True)])"
    using h small e by (auto simp: heap_ok_def headers_append blocks_end_append)
  then show "\<exists>h'. k_malloc fuel prev h (of_nat n) = Ok (h', of_nat (e + 112)) \<and> heap_ok h' a lim (bs @ [(n, True)])"
    using walk [OF none] room m(1) e by simp
qed

subsection \<open>Places of the data\<close>

fun slots :: "nat \<Rightarrow> (nat \<times> bool) list \<Rightarrow> (nat \<times> nat) list" where
  "slots d [] = []"
| "slots d ((s, al) # bs) = (d, s) # slots (d + block_step s) bs"

lemma slots_bounds: "(x, s) \<in> set (slots d bs) \<Longrightarrow> d \<le> x \<and> x + block_step s \<le> blocks_end d bs"
proof (induction d bs rule: slots.induct)
  case (2 d s al bs)
  then show ?case using blocks_end_ge [of "d + block_step s" bs] by (auto simp: block_step_def)
qed simp

lemma slots_apart:
  "(x, s) \<in> set (slots d bs) \<Longrightarrow> (y, t) \<in> set (slots d bs) \<Longrightarrow> (x, s) = (y, t) \<or> x + block_step s \<le> y \<or> y + block_step t \<le> x"
proof (induction d bs rule: slots.induct)
  case (2 d s' al bs)
  then show ?case using slots_bounds [of x s "d + block_step s'" bs] slots_bounds [of y t "d + block_step s'" bs] by auto
qed simp

lemma slots_append: "slots d (bs @ cs) = slots d bs @ slots (blocks_end d bs) cs"
  by (induction d bs rule: slots.induct) simp_all

text \<open>What the search finds is the first block that is free and large enough.\<close>

lemma first_fit_None: "first_fit n d bs = None \<longleftrightarrow> (\<forall>(s, al) \<in> set bs. al \<or> s < n)"
proof (induction n d bs rule: first_fit.induct)
  case (2 n d s al bs)
  show ?case
  proof (cases "\<not> al \<and> n \<le> s")
    case False
    then have "al \<or> s < n" by auto
    moreover have "first_fit n d ((s, al) # bs) = None \<longleftrightarrow> first_fit n (d + block_step s) bs = None"
      by (simp only: first_fit.simps False if_False map_option_is_None)
    ultimately show ?thesis using 2 [OF False] by (simp only: list.set ball_simps prod.case simp_thms)
  qed (auto simp: not_less)
qed simp

lemma first_fit_Some:
  "first_fit n d bs = Some (p, bs') \<Longrightarrow> \<exists>pre s post. bs = pre @ (s, False) # post \<and> bs' = pre @ (s, True) # post \<and>
     n \<le> s \<and> (\<forall>(t, al) \<in> set pre. al \<or> t < n) \<and> p = blocks_end d pre + 784"
proof (induction n d bs arbitrary: p bs' rule: first_fit.induct)
  case (2 n d s al bs)
  show ?case
  proof (cases "\<not> al \<and> n \<le> s")
    case True
    with 2(2) show ?thesis by (intro exI [of _ "[]"] exI [of _ s] exI [of _ bs]) simp
  next
    case False
    with 2(2) obtain cs where c: "first_fit n (d + block_step s) bs = Some (p, cs)" "bs' = (s, al) # cs" by auto
    from 2(1) [OF False c(1)] obtain pre t post where
      "bs = pre @ (t, False) # post" "cs = pre @ (t, True) # post"
      "n \<le> t" "\<forall>(t, al) \<in> set pre. al \<or> t < n" "p = blocks_end (d + block_step s) pre + 784" by blast
    moreover have "al \<or> s < n" using False by auto
    ultimately show ?thesis unfolding c(2)
      by (intro exI [of _ "(s, al) # pre"] exI [of _ t] exI [of _ post] conjI) simp_all
  qed
qed simp

lemma blocks_last_state:
  assumes "blocks mem d (bs @ [(n, al)])" and "\<forall>x \<in> set (headers d bs). same_header mem mem' x"
    and "check_magic mem' (of_nat (blocks_end d bs)) = check_magic mem (of_nat (blocks_end d bs))"
    and "a_size mem' (of_nat (blocks_end d bs)) = a_size mem (of_nat (blocks_end d bs))"
    and "a_allocated mem' (of_nat (blocks_end d bs)) = al'" and "same_header mem mem' (blocks_end d bs + block_step n)"
  shows "blocks mem' d (bs @ [(n, al')])"
  using assms
proof (induction bs arbitrary: d)
  case Nil
  then show ?case using header_cong(1) [OF Nil(6)] by simp
next
  case (Cons b bs)
  obtain s st where b: "b = (s, st)" by (cases b)
  have "same_header mem mem' d" using Cons.prems(2) by (simp add: b)
  from header_cong [OF this] Cons show ?case by (simp add: b)
qed

text \<open>
  C34. Allocation from a heap of well-formed blocks: \<open>malloc\<close> ends.  When some free block is large enough, the first
  such block is marked as in use (one byte of memory changes) and its data are 784 bytes behind its header; when
  none is and the region has room, a block in use of exactly the size asked for is appended behind the last one,
  its data 112 bytes behind its header; in both cases the heap is well formed again, no other block changes its size
  or state, and the data lie behind the header and end before the next block.  Otherwise it returns -1 and changes
  nothing.  The condition on a new block is that its slot, 28 bytes for each byte asked for, ends below 2 GiB at a
  place without a signature and, for the first block, that the write through the uninitialised \<open>prev\<close> misses the
  headers.
\<close>

theorem kernel_malloc_blocks:
  assumes "heap_ok h a lim bs" and "n < 2 ^ 31" and "length bs < fuel" and "in_int (kh_id h + 1)"
    and "e = blocks_end (a + 28) bs"
    and "(\<forall>(s, al) \<in> set bs. al \<or> s < n) \<and> e + 28 + n \<le> lim \<Longrightarrow> e + block_step n < 2 ^ 31 \<and>
      \<not> check_magic (kh_mem h) (of_nat (e + block_step n)) \<and> (bs = [] \<longrightarrow> spares prev e \<and> spares prev (e + block_step n))"
  shows "\<exists>h' p. k_malloc fuel prev h (of_nat n) = Ok (h', p) \<and>
    (if (\<exists>(s, al) \<in> set bs. \<not> al \<and> n \<le> s) \<or> e + 28 + n \<le> lim then
       (\<exists>pre s post q. p = of_nat q \<and> heap_ok h' a lim (pre @ (s, True) # post) \<and> n \<le> s \<and>
          (\<forall>(t, al) \<in> set pre. al \<or> t < n) \<and>
          (bs = pre @ (s, False) # post \<and> q = blocks_end (a + 28) pre + 784 \<and>
             h' = h\<lparr>kh_mem := (kh_mem h)(of_nat (blocks_end (a + 28) pre) := 1)\<rparr> \<or>
           bs = pre \<and> post = [] \<and> s = n \<and> q = e + 112) \<and>
          blocks_end (a + 28) pre + 28 \<le> q \<and> q + n \<le> blocks_end (a + 28) (pre @ [(s, True)]))
     else p = - 1 \<and> h' = h)"
proof (cases "first_fit n (a + 28) bs")
  case (Some r)
  obtain p bs' where r: "r = (p, bs')" by (cases r)
  note F = Some [unfolded r]
  obtain x where x: "p = x + 784" "k_malloc fuel prev h (of_nat n) = Ok (h\<lparr>kh_mem := (kh_mem h)(of_nat x := 1)\<rparr>, of_nat p)"
    "heap_ok (h\<lparr>kh_mem := (kh_mem h)(of_nat x := 1)\<rparr>) a lim bs'"
    using malloc_keeps(1) [OF assms(1-4) F, of prev] by blast
  obtain pre s post where b: "bs = pre @ (s, False) # post" "bs' = pre @ (s, True) # post" "n \<le> s"
    "\<forall>(t, al) \<in> set pre. al \<or> t < n" "p = blocks_end (a + 28) pre + 784"
    using first_fit_Some [OF F] by blast
  have e: "x = blocks_end (a + 28) pre" using x(1) b(5) by simp
  have c: "(\<exists>(s, al) \<in> set bs. \<not> al \<and> n \<le> s) \<or> e + 28 + n \<le> lim" using b(1,3) by auto
  show ?thesis unfolding if_P [OF c]
  proof (rule exI, rule exI, rule conjI [OF x(2)], rule exI [of _ pre], rule exI [of _ s], rule exI [of _ post],
      rule exI [of _ p], intro conjI)
    show "heap_ok (h\<lparr>kh_mem := (kh_mem h)(of_nat x := 1)\<rparr>) a lim (pre @ (s, True) # post)" using x(3) unfolding b(2) .
    have "h\<lparr>kh_mem := (kh_mem h)(of_nat x := 1)\<rparr> = h\<lparr>kh_mem := (kh_mem h)(of_nat (blocks_end (a + 28) pre) := 1)\<rparr>"
      by (simp only: e)
    with b(1,5) show "bs = pre @ (s, False) # post \<and> p = blocks_end (a + 28) pre + 784 \<and>
        h\<lparr>kh_mem := (kh_mem h)(of_nat x := 1)\<rparr> = h\<lparr>kh_mem := (kh_mem h)(of_nat (blocks_end (a + 28) pre) := 1)\<rparr> \<or>
      bs = pre \<and> post = [] \<and> s = n \<and> p = e + 112" by blast
    show "p + n \<le> blocks_end (a + 28) (pre @ [(s, True)])" using b(3,5) by (simp add: blocks_end_append block_step_def)
  qed (use b(3-5) in simp_all)
next
  case None
  note none = None [unfolded first_fit_None]
  show ?thesis
  proof (cases "e + 28 + n \<le> lim")
    case True
    obtain h' where h': "k_malloc fuel prev h (of_nat n) = Ok (h', of_nat (e + 112))" "heap_ok h' a lim (bs @ [(n, True)])"
      using malloc_keeps(2) [OF assms(1-4) None assms(5) True, of prev] assms(6) [OF conjI [OF none True]] by blast
    have c: "(\<exists>(s, al) \<in> set bs. \<not> al \<and> n \<le> s) \<or> e + 28 + n \<le> lim" using True by blast
    have "e + 112 + n \<le> blocks_end (a + 28) (bs @ [(n, True)])" using assms(5) by (simp add: blocks_end_append block_step_def)
    show ?thesis unfolding if_P [OF c]
    proof (rule exI, rule exI, rule conjI [OF h'(1)], rule exI [of _ bs], rule exI [of _ n], rule exI [of _ "[]"],
        rule exI [of _ "e + 112"], intro conjI)
      show "e + 112 + n \<le> blocks_end (a + 28) (bs @ [(n, True)])" by fact
    qed (use h'(2) none assms(5) in simp_all)
  next
    case False
    then have c: "\<not> ((\<exists>(s, al) \<in> set bs. \<not> al \<and> n \<le> s) \<or> e + 28 + n \<le> lim)" using none by fastforce
    show ?thesis unfolding if_not_P [OF c] using malloc_keeps(3) [OF assms(1-4) None, of prev] False assms(5) by auto
  qed
qed

lemma blocks_snocD:
  "blocks mem d (bs @ [(n, True)]) \<Longrightarrow> check_magic mem (of_nat (blocks_end d bs)) \<and> a_allocated mem (of_nat (blocks_end d bs))"
proof (induction bs arbitrary: d)
  case (Cons b bs)
  then show ?case by (cases b) simp
qed simp

lemma free_last:
  assumes "heap_ok h a lim (bs @ [(n, True)])" and "e = blocks_end (a + 28) bs"
  shows "k_free (of_nat (e + 112)) h = h\<lparr>kh_mem := (kh_mem h)(of_nat e := 0)\<rparr>"
    "heap_ok (h\<lparr>kh_mem := (kh_mem h)(of_nat e := 0)\<rparr>) a lim (bs @ [(n, False)])"
proof -
  note h = assms(1) [unfolded heap_ok_def headers_append blocks_end_append, folded assms(2)]
  have e: "e + block_step n < 2 ^ 31" "blocks_end (a + 28) bs = e" using h assms(2) by simp_all
  have eb: "blocks (kh_mem h) (a + 28) (bs @ [(n, True)])" using h by blast
  note me = blocks_snocD [OF eb, unfolded e(2)]
  let ?m = "(kh_mem h)(of_nat e := 0)"
  have d: "(of_nat (e + 112) :: u32) - 4 * 28 = of_nat e" by simp
  have e18: "e + 18 \<le> 2 ^ 32" using e(1) by (simp add: block_step_def)
  have same: "\<forall>x \<in> set (headers (a + 28) bs). same_header (kh_mem h) ?m x"
  proof
    fix x assume x: "x \<in> set (headers (a + 28) bs)"
    have "x + 784 \<le> e" using headers_bounds [OF x] e(2) by simp
    then show "same_header (kh_mem h) ?m x" using e(1) by (intro same_header_state) (simp_all add: block_step_def)
  qed
  have "same_header (kh_mem h) ?m (e + block_step n)" using e(1) by (intro same_header_state) (simp_all add: block_step_def)
  with same have "blocks ?m (a + 28) (bs @ [(n, False)])"
    using blocks_last_state [OF eb, of ?m False] set_state [OF e18, of "kh_mem h" 0] by (simp add: e(2) del: fun_upd_apply)
  then show "heap_ok (h\<lparr>kh_mem := ?m\<rparr>) a lim (bs @ [(n, False)])"
    unfolding heap_ok_mem headers_append blocks_end_append e(2) using h by (auto simp: e(2) simp del: fun_upd_apply)
  show "k_free (of_nat (e + 112)) h = h\<lparr>kh_mem := ?m\<rparr>"
    unfolding k_free_def Let_def d using me by simp
qed

text \<open>
  C35. What \<open>free\<close> gives back.  The newest block, returned new, is free again after \<open>free\<close>.  A block that
  \<open>malloc\<close> then uses for a second time is lost: its data start 784 bytes behind the header, \<open>free\<close> looks
  112 bytes in front of them, and unless the data there look like a header it does nothing.
\<close>

theorem kernel_free_blocks:
  assumes "heap_ok h a lim (bs @ [(n, True)])" and "e = blocks_end (a + 28) bs"
    and "first_fit k (a + 28) (bs @ [(n, False)]) = Some (q, cs)" and "k < 2 ^ 31" and "length bs + 1 < fuel"
    and "in_int (kh_id h + 1)" and "\<not> check_magic (kh_mem h) (of_nat (q - 112))"
  shows "\<exists>h1 h2. k_free (of_nat (e + 112)) h = h1 \<and> heap_ok h1 a lim (bs @ [(n, False)]) \<and>
    k_malloc fuel prev h1 (of_nat k) = Ok (h2, of_nat q) \<and> heap_ok h2 a lim cs \<and> k_free (of_nat q) h2 = h2"
proof -
  let ?h1 = "h\<lparr>kh_mem := (kh_mem h)(of_nat e := 0)\<rparr>"
  note f = free_last [OF assms(1,2)]
  have l: "length (bs @ [(n, False)]) < fuel" "in_int (kh_id ?h1 + 1)" using assms(5,6) by simp_all
  obtain x where x: "x \<in> set (headers (a + 28) (bs @ [(n, False)]))" "q = x + 784"
    "k_malloc fuel prev ?h1 (of_nat k) = Ok (?h1\<lparr>kh_mem := (kh_mem ?h1)(of_nat x := 1)\<rparr>, of_nat q)"
    "heap_ok (?h1\<lparr>kh_mem := (kh_mem ?h1)(of_nat x := 1)\<rparr>) a lim cs"
    using malloc_keeps(1) [OF f(2) assms(4) l assms(3), of prev] by blast
  let ?h2 = "?h1\<lparr>kh_mem := (kh_mem ?h1)(of_nat x := 1)\<rparr>"
  have lim: "x < 2 ^ 31 - 784 \<and> e < 2 ^ 31"
    using headers_bounds [OF x(1)] f(2) assms(2) by (auto simp: heap_ok_def blocks_end_append block_step_def)
  have apart: "x = e \<or> x + 784 \<le> e \<or> e + 784 \<le> x"
    using headers_apart [OF x(1), of e] assms(2) by (simp add: headers_append)
  have m: "kh_mem ?h1 = (kh_mem h)(of_nat e := 0)" "kh_mem ?h2 = (kh_mem ?h1)(of_nat x := 1)"
    by (simp_all del: fun_upd_apply)
  have "same_header (kh_mem h) (kh_mem ?h1) (x + 672)" "same_header (kh_mem ?h1) (kh_mem ?h2) (x + 672)"
    unfolding m using lim apart by (auto intro!: same_header_state)
  from header_cong(1) [OF same_header_trans [OF this]]
  have c: "check_magic (kh_mem ?h2) (of_nat (x + 672)) = check_magic (kh_mem h) (of_nat (x + 672))" .
  have q: "q - 112 = x + 672" using x(2) by simp
  have p: "(of_nat q :: u32) - 4 * 28 = of_nat (x + 672)" unfolding x(2) by simp
  have "k_free (of_nat q) ?h2 = ?h2"
    unfolding k_free_def Let_def p c by (simp only: assms(7) [unfolded q] simp_thms if_False)
  then show ?thesis using f x(3,4) by blast
qed

subsection \<open>Examples\<close>

definition heap0 :: kheap where
  "heap0 = \<lparr>kh_mem = (\<lambda>_. 0), kh_id = 1, kh_addr = 0x100000, kh_len = 0x100000, kh_root = 0x100000, kh_avaible = 0\<rparr>"

lemma heap0_ok: "heap_ok heap0 0x100000 0x200000 []" "\<not> check_magic (kh_mem heap0) d"
  by (simp_all add: heap_ok_def heap0_def check_magic_def upt_rec)

lemma kernel_malloc_blocks_witness:
  "\<exists>h'. k_malloc 1 0 heap0 (of_nat 100) = Ok (h', of_nat (0x10001C + 112)) \<and> heap_ok h' 0x100000 0x200000 [(100, True)]"
proof -
  have sp: "spares (of_nat 0) x" if "28 \<le> x" "x < 2 ^ 31" for x using that by (intro spares_behind) simp_all
  have "\<exists>h' p. k_malloc 1 0 heap0 (of_nat 100) = Ok (h', p) \<and>
    (if (\<exists>(s, al) \<in> set ([] :: (nat \<times> bool) list). \<not> al \<and> 100 \<le> s) \<or> 0x10001C + 28 + 100 \<le> (0x200000 :: nat) then
       (\<exists>pre s post q. p = of_nat q \<and> heap_ok h' 0x100000 0x200000 (pre @ (s, True) # post) \<and> 100 \<le> s \<and>
          (\<forall>(t, al) \<in> set pre. al \<or> t < 100) \<and>
          ([] = pre @ (s, False) # post \<and> q = blocks_end (0x100000 + 28) pre + 784 \<and>
             h' = heap0\<lparr>kh_mem := (kh_mem heap0)(of_nat (blocks_end (0x100000 + 28) pre) := 1)\<rparr> \<or>
           [] = pre \<and> post = [] \<and> s = 100 \<and> q = 0x10001C + 112) \<and>
          blocks_end (0x100000 + 28) pre + 28 \<le> q \<and> q + 100 \<le> blocks_end (0x100000 + 28) (pre @ [(s, True)]))
     else p = - 1 \<and> h' = heap0)"
    by (intro kernel_malloc_blocks heap0_ok(1)) (use heap0_ok(2) sp in \<open>simp_all add: heap0_def in_int_def block_step_def\<close>)
  then show ?thesis by auto
qed

lemma kernel_free_blocks_witness:
  "\<exists>h h1 h2. k_free (of_nat (0x10001C + 112)) h = h1 \<and> heap_ok h1 0x100000 0x200000 [(100, False)] \<and>
     k_malloc 3 0 h1 (of_nat 40) = Ok (h2, of_nat (0x10001C + 784)) \<and> k_free (of_nat (0x10001C + 784)) h2 = h2"
proof -
  have sp: "spares (of_nat 0) x" if "28 \<le> x" "x < 2 ^ 31" for x using that by (intro spares_behind) simp_all
  obtain m where m: "check_magic m (of_nat 0x10001C)" "a_size m (of_nat 0x10001C) = of_nat 100" "a_allocated m (of_nat 0x10001C)"
    "\<And>x. (x + 28 \<le> 0x10001C \<or> 0x10001C + 28 \<le> x) \<and> x < 2 ^ 31 \<and> spares (of_nat 0) x \<Longrightarrow> same_header (kh_mem heap0) m x"
    using new_block_spec [of "0x10001C" 100 heap0 "of_nat 0"] sp [of "0x10001C"] by (auto simp: heap0_def in_int_def)
  let ?h = "heap0\<lparr>kh_mem := m\<rparr>"
  have free: "\<not> check_magic m (of_nat x)" if "0x10001C + 28 \<le> x" "x < 2 ^ 31" for x
    using header_cong(1) [OF m(4) [of x]] heap0_ok(2) sp [of x] that by simp
  have "\<not> check_magic m (of_nat (0x10001C + block_step 100))" by (rule free) (simp_all add: block_step_def)
  then have ok: "heap_ok ?h 0x100000 0x200000 ([] @ [(100, True)])"
    using m(1-3) by (simp add: heap_ok_def heap0_def block_step_def)
  have "\<not> check_magic (kh_mem ?h) (of_nat (0x10001C + 784 - 112))" using free [of "0x10001C + 672"] by simp
  moreover have "first_fit 40 (0x100000 + 28) ([] @ [(100, False)]) = Some (0x10001C + 784, [(100, True)])" by simp
  ultimately obtain h1 h2 where "k_free (of_nat (0x10001C + 112)) ?h = h1" "heap_ok h1 0x100000 0x200000 ([] @ [(100, False)])"
    "k_malloc 3 0 h1 (of_nat 40) = Ok (h2, of_nat (0x10001C + 784))" "k_free (of_nat (0x10001C + 784)) h2 = h2"
    using kernel_free_blocks [OF ok, of "0x10001C" 40 "0x10001C + 784" "[(100, True)]" 3 0] by (auto simp: heap0_def in_int_def)
  then show ?thesis by auto
qed

text \<open>Data of a new block may end up to 84 bytes behind the region.\<close>

lemma new_block_overruns:
  assumes "heap_ok h a lim bs" and "e = blocks_end (a + 28) bs" and "e + 28 + n = lim" and "n < 2 ^ 31" and "length bs < fuel"
    and "in_int (kh_id h + 1)" and "first_fit n (a + 28) bs = None" and "e + block_step n < 2 ^ 31"
    and "\<not> check_magic (kh_mem h) (of_nat (e + block_step n))" and "bs = [] \<longrightarrow> spares prev e \<and> spares prev (e + block_step n)"
  shows "\<exists>h' q. k_malloc fuel prev h (of_nat n) = Ok (h', of_nat q) \<and> q + n = lim + 84"
proof -
  have "e + 28 + n \<le> lim" "e + 112 + n = lim + 84" using assms(3) by simp_all
  then show ?thesis using malloc_keeps(2) [OF assms(1,4,5,6,7,2) _ assms(8,9,10)] by blast
qed

end
