(* ===== verification/Krn_Hashmap.thy ===== *)
theory Krn_Hashmap
  imports Krn_Libc
begin

text \<open>
  The hash table of \<open>base/include/hashmap.hpp\<close>, a family of macros over the type \<open>'v\<close> of the items.  An
  array is a list of its capacity.  \<open>malloc\<close> does not clear memory: what a new array of buckets or items holds is given by
  \<open>fresh_buckets\<close> and \<open>fresh_items\<close>, of the length asked for.  Sizes are natural numbers: a size that does not fit
  in 64 bits belongs to an array that does not fit in memory.

  The theory shows that the table is a map, for memory that happens to be zero: \<open>hm_map\<close> is what
  \<open>HASHMAP_GET\<close> finds.
\<close>

subsection \<open>State and operations\<close>

record 'v hm_item =
  it_key :: "u8 list"
  it_len :: nat
  it_val :: 'v

record 'v hm_bucket =
  b_cap :: nat
  b_filled :: nat
  b_items :: "'v hm_item list"

record 'v hashmap =
  hm_cap :: nat
  hm_buckets :: "'v hm_bucket list option"

definition HASHMAP_INIT :: "nat \<Rightarrow> 'v hashmap" where
  "HASHMAP_INIT cap = \<lparr>hm_cap = cap, hm_buckets = None\<rparr>"

fun sdbm_loop :: "u8 list \<Rightarrow> nat \<Rightarrow> nat \<Rightarrow> u32 \<Rightarrow> u32 outcome" where
  "sdbm_loop data i 0 h = Ok h"
| "sdbm_loop data i (Suc n) h =
     bnd (rd data i) (\<lambda>c. sdbm_loop data (Suc i) n (ucast c + push_bit 6 h + push_bit 16 h - h))"

definition hm_hash :: "u8 list \<Rightarrow> nat \<Rightarrow> u32 outcome" where
  "hm_hash data n = sdbm_loop data 0 n 0"

text \<open>The bucket of a key; a table of capacity 0 divides by zero.\<close>

definition hm_index :: "nat \<Rightarrow> u8 list \<Rightarrow> nat \<Rightarrow> nat outcome" where
  "hm_index cap key n = bnd (hm_hash key n) (\<lambda>h. guard (cap \<noteq> 0) (Ok (unat h mod cap)))"

text \<open>The search of both macros, from \<open>i\<close> on: the place of the key.\<close>

fun search_items :: "u8 list \<Rightarrow> nat \<Rightarrow> 'v hm_item list \<Rightarrow> nat \<Rightarrow> nat \<Rightarrow> nat option outcome" where
  "search_items key n items i 0 = Ok None"
| "search_items key n items i (Suc left) =
     bnd (rd items i) (\<lambda>it.
     if n \<noteq> it_len it then search_items key n items (Suc i) left
     else bnd (k_memcmp key (it_key it) (int n)) (\<lambda>differs.
       if \<not> differs then Ok (Some i) else search_items key n items (Suc i) left))"

definition HASHMAP_GET :: "'v hashmap \<Rightarrow> u8 list \<Rightarrow> nat \<Rightarrow> 'v option outcome" where
  "HASHMAP_GET hm key n =
     (case hm_buckets hm of
       None \<Rightarrow> Ok None
     | Some buckets \<Rightarrow>
         bnd (hm_index (hm_cap hm) key n) (\<lambda>index.
         bnd (rd buckets index) (\<lambda>bucket.
         bnd (search_items key n (b_items bucket) 0 (b_filled bucket)) (\<lambda>r.
         case r of None \<Rightarrow> Ok None
         | Some i \<Rightarrow> bnd (rd (b_items bucket) i) (\<lambda>it. Ok (Some (it_val it)))))))"

definition HASHMAP_REMOVE :: "'v hashmap \<Rightarrow> u8 list \<Rightarrow> nat \<Rightarrow> (bool \<times> 'v hashmap) outcome" where
  "HASHMAP_REMOVE hm key n =
     (case hm_buckets hm of
       None \<Rightarrow> Ok (False, hm)
     | Some buckets \<Rightarrow>
         bnd (hm_index (hm_cap hm) key n) (\<lambda>index.
         bnd (rd buckets index) (\<lambda>bucket.
         bnd (search_items key n (b_items bucket) 0 (b_filled bucket)) (\<lambda>r.
         case r of None \<Rightarrow> Ok (False, hm)
         | Some i \<Rightarrow>
             bnd (if i \<noteq> b_filled bucket - 1
                  then bnd (rd (b_items bucket) (b_filled bucket - 1)) (\<lambda>it. wr (b_items bucket) i it)
                  else Ok (b_items bucket)) (\<lambda>items.
             Ok (True, hm\<lparr>hm_buckets :=
               Some (buckets[index := bucket\<lparr>b_items := items, b_filled := b_filled bucket - 1\<rparr>])\<rparr>))))))"

text \<open>\<open>realloc\<close> keeps the items; the kernel has no such function.\<close>

definition grown_bucket :: "(nat \<Rightarrow> 'v hm_item list) \<Rightarrow> 'v hm_bucket \<Rightarrow> 'v hm_bucket" where
  "grown_bucket fresh_items bucket =
     (let bucket = (if b_cap bucket = 0 then bucket\<lparr>b_cap := 16, b_items := fresh_items 16\<rparr> else bucket) in
      if b_filled bucket = b_cap bucket
      then bucket\<lparr>b_cap := b_cap bucket * 2,
        b_items := b_items bucket @ drop (length (b_items bucket)) (fresh_items (b_cap bucket * 2))\<rparr>
      else bucket)"

text \<open>The key is copied into 256 bytes whatever its length.\<close>

definition HASHMAP_INSERT ::
    "(nat \<Rightarrow> 'v hm_bucket list) \<Rightarrow> (nat \<Rightarrow> 'v hm_item list) \<Rightarrow> 'v hashmap \<Rightarrow> u8 list \<Rightarrow> nat \<Rightarrow> 'v \<Rightarrow> 'v hashmap outcome" where
  "HASHMAP_INSERT fresh_buckets fresh_items hm key n v =
     (let buckets = (case hm_buckets hm of None \<Rightarrow> fresh_buckets (hm_cap hm) | Some bs \<Rightarrow> bs) in
      bnd (hm_index (hm_cap hm) key n) (\<lambda>index.
      bnd (rd buckets index) (\<lambda>bucket.
      let bucket = grown_bucket fresh_items bucket in
      bnd (rd (b_items bucket) (b_filled bucket)) (\<lambda>it.
      bnd (memcpy_loop (it_key it) key 0 n) (\<lambda>kd.
      Ok (hm\<lparr>hm_buckets := Some (buckets[index := bucket\<lparr>
        b_items := (b_items bucket)[b_filled bucket := it\<lparr>it_key := kd, it_len := n, it_val := v\<rparr>],
        b_filled := b_filled bucket + 1\<rparr>])\<rparr>))))))"

text \<open>The arrays \<open>HASHMAP_DELETE\<close> hands to \<open>free\<close>: those of the buckets, then the buckets.\<close>

definition HASHMAP_DELETE :: "'v hashmap \<Rightarrow> ('v hm_item list list \<times> 'v hm_bucket list) option" where
  "HASHMAP_DELETE hm = (case hm_buckets hm of None \<Rightarrow> None
     | Some buckets \<Rightarrow> Some (map b_items (take (hm_cap hm) buckets), buckets))"

definition HASHMAP_SGET :: "'v hashmap \<Rightarrow> u8 list \<Rightarrow> 'v option outcome" where
  "HASHMAP_SGET hm str = bnd (k_strlen str) (HASHMAP_GET hm str)"

definition HASHMAP_SREMOVE :: "'v hashmap \<Rightarrow> u8 list \<Rightarrow> (bool \<times> 'v hashmap) outcome" where
  "HASHMAP_SREMOVE hm str = bnd (k_strlen str) (HASHMAP_REMOVE hm str)"

definition HASHMAP_SINSERT ::
    "(nat \<Rightarrow> 'v hm_bucket list) \<Rightarrow> (nat \<Rightarrow> 'v hm_item list) \<Rightarrow> 'v hashmap \<Rightarrow> u8 list \<Rightarrow> 'v \<Rightarrow> 'v hashmap outcome" where
  "HASHMAP_SINSERT fresh_buckets fresh_items hm str v =
     bnd (k_strlen str) (\<lambda>n. HASHMAP_INSERT fresh_buckets fresh_items hm str n v)"

subsection \<open>The map\<close>

definition sdbm :: "u8 list \<Rightarrow> u32" where
  "sdbm key = foldl (\<lambda>h c. ucast c + push_bit 6 h + push_bit 16 h - h) 0 key"

definition item_pair :: "'v hm_item \<Rightarrow> u8 list \<times> 'v" where
  "item_pair it = (take (it_len it) (it_key it), it_val it)"

definition pairs :: "'v hm_bucket \<Rightarrow> (u8 list \<times> 'v) list" where
  "pairs b = map item_pair (take (b_filled b) (b_items b))"

definition hm_map :: "'v hashmap \<Rightarrow> u8 list \<Rightarrow> 'v option" where
  "hm_map hm key = (case hm_buckets hm of None \<Rightarrow> None
     | Some buckets \<Rightarrow> map_of (pairs (buckets ! (unat (sdbm key) mod hm_cap hm))) key)"

definition item_ok :: "'v hm_item \<Rightarrow> bool" where
  "item_ok it \<longleftrightarrow> length (it_key it) = 256 \<and> it_len it \<le> 256"

definition bucket_ok :: "nat \<Rightarrow> nat \<Rightarrow> 'v hm_bucket \<Rightarrow> bool" where
  "bucket_ok cap j b \<longleftrightarrow> b_filled b \<le> b_cap b \<and> (b_cap b \<noteq> 0 \<longrightarrow> length (b_items b) = b_cap b) \<and>
     (b_cap b = 0 \<longrightarrow> b_items b = []) \<and> (\<forall>it \<in> set (b_items b). length (it_key it) = 256) \<and>
     (\<forall>it \<in> set (take (b_filled b) (b_items b)). it_len it \<le> 256) \<and>
     (\<forall>(k, v) \<in> set (pairs b). unat (sdbm k) mod cap = j) \<and> distinct (map fst (pairs b))"

definition hm_ok :: "'v hashmap \<Rightarrow> bool" where
  "hm_ok hm \<longleftrightarrow> hm_cap hm \<noteq> 0 \<and> (case hm_buckets hm of None \<Rightarrow> True
     | Some bs \<Rightarrow> length bs = hm_cap hm \<and> (\<forall>j < hm_cap hm. bucket_ok (hm_cap hm) j (bs ! j)))"

text \<open>Memory from \<open>malloc\<close>, of the right length, in which every bucket is empty.\<close>

definition zeroed :: "(nat \<Rightarrow> 'v hm_bucket list) \<Rightarrow> (nat \<Rightarrow> 'v hm_item list) \<Rightarrow> bool" where
  "zeroed fresh_buckets fresh_items \<longleftrightarrow>
     (\<forall>n. length (fresh_buckets n) = n \<and> (\<forall>b \<in> set (fresh_buckets n). b_cap b = 0 \<and> b_filled b = 0 \<and> b_items b = [])) \<and>
     (\<forall>n. length (fresh_items n) = n \<and> (\<forall>it \<in> set (fresh_items n). length (it_key it) = 256))"

lemma sdbm_loop_spec:
  "i + n \<le> length data \<Longrightarrow>
    sdbm_loop data i n h = Ok (foldl (\<lambda>h c. ucast c + push_bit 6 h + push_bit 16 h - h) h (take n (drop i data)))"
proof (induction n arbitrary: i h)
  case (Suc n)
  have "drop i data = data ! i # drop (Suc i) data" using Suc.prems by (simp add: Cons_nth_drop_Suc)
  then show ?case using Suc by simp
qed simp

lemma hm_index_spec: "n \<le> length key \<Longrightarrow> cap \<noteq> 0 \<Longrightarrow> hm_index cap key n = Ok (unat (sdbm (take n key)) mod cap)"
  by (simp add: hm_index_def hm_hash_def sdbm_loop_spec sdbm_def)

lemma memcmp_loop_spec:
  assumes "i + n \<le> length a" and "i + n \<le> length b"
  shows "memcmp_loop a b i n = Ok (take n (drop i a) \<noteq> take n (drop i b))"
  using assms
proof (induction n arbitrary: i)
  case (Suc n)
  have "drop i a = a ! i # drop (Suc i) a" "drop i b = b ! i # drop (Suc i) b"
    using Suc.prems by (simp_all add: Cons_nth_drop_Suc)
  then show ?case using Suc.prems Suc.IH [of "Suc i"] by auto
qed simp

text \<open>The first place from \<open>i\<close> on whose key is \<open>k\<close>.\<close>

definition place :: "u8 list \<Rightarrow> 'v hm_item list \<Rightarrow> nat \<Rightarrow> nat \<Rightarrow> nat option" where
  "place k items i n = find (\<lambda>j. fst (item_pair (items ! j)) = k) [i..<i + n]"

lemma place_simps [simp]:
  "place k items i 0 = None"
  "place k items i (Suc n) = (if fst (item_pair (items ! i)) = k then Some i else place k items (Suc i) n)"
proof -
  have "[i..<i + Suc n] = i # [Suc i..<Suc i + n]" by (simp add: upt_conv_Cons)
  then show "place k items i (Suc n) = (if fst (item_pair (items ! i)) = k then Some i else place k items (Suc i) n)"
    by (simp only: place_def find.simps)
qed (simp add: place_def)

lemma search_items_spec:
  assumes "i + l \<le> length items" and "\<forall>it \<in> set items. length (it_key it) = 256"
    and "\<forall>j. i \<le> j \<longrightarrow> j < i + l \<longrightarrow> it_len (items ! j) \<le> 256" and "n \<le> length key" and "n \<le> 256"
  shows "search_items key n items i l = Ok (place (take n key) items i l)"
  using assms
proof (induction l arbitrary: i)
  case (Suc l)
  have i: "i < length items" "length (it_key (items ! i)) = 256" "it_len (items ! i) \<le> 256" using Suc.prems by auto
  have m: "k_memcmp key (it_key (items ! i)) (int n) = Ok (take n key \<noteq> take n (it_key (items ! i)))"
    using memcmp_loop_spec [of 0 n key "it_key (items ! i)"] Suc.prems(4,5) i(2) by (simp add: k_memcmp_def)
  have rest: "search_items key n items (Suc i) l = Ok (place (take n key) items (Suc i) l)"
    using Suc by simp
  have len: "length (fst (item_pair (items ! i))) = it_len (items ! i)" "length (take n key) = n"
    using i Suc.prems(4) by (simp_all add: item_pair_def)
  show ?case
  proof (cases "n = it_len (items ! i)")
    case True
    then show ?thesis using i(1) m rest by (auto simp: item_pair_def)
  next
    case False
    then have "fst (item_pair (items ! i)) \<noteq> take n key" using len by metis
    then show ?thesis using False i(1) rest by simp
  qed
qed simp

lemma place_map_of:
  assumes "i + l \<le> length items"
  shows "(case place k items i l of None \<Rightarrow> map_of (map item_pair (take l (drop i items))) k = None
    | Some j \<Rightarrow> i \<le> j \<and> j < i + l \<and> fst (item_pair (items ! j)) = k \<and>
        map_of (map item_pair (take l (drop i items))) k = Some (it_val (items ! j)))"
  using assms
proof (induction l arbitrary: i)
  case (Suc l)
  have d: "drop i items = items ! i # drop (Suc i) items" using Suc.prems by (simp add: Cons_nth_drop_Suc)
  show ?case
  proof (cases "fst (item_pair (items ! i)) = k")
    case True
    then show ?thesis by (simp add: d map_of_Cons_code item_pair_def)
  next
    case False
    then show ?thesis using Suc.IH [of "Suc i"] Suc.prems by (cases "item_pair (items ! i)") (auto simp: d split: option.splits)
  qed
qed simp

text \<open>The bucket of a key in a well-formed table, and what the search finds there.\<close>

lemma bucket_search:
  assumes "bucket_ok cap j b" and "n \<le> length key" and "n \<le> 256"
  shows "search_items key n (b_items b) 0 (b_filled b) = Ok (place (take n key) (b_items b) 0 (b_filled b))"
    and "case place (take n key) (b_items b) 0 (b_filled b) of None \<Rightarrow> map_of (pairs b) (take n key) = None
      | Some i \<Rightarrow> i < b_filled b \<and> i < length (b_items b) \<and> fst (item_pair (b_items b ! i)) = take n key \<and>
          map_of (pairs b) (take n key) = Some (it_val (b_items b ! i))"
proof -
  have f: "b_filled b \<le> length (b_items b)" using assms(1) by (cases "b_cap b = 0") (auto simp: bucket_ok_def)
  have "it_len (b_items b ! i) \<le> 256" if "i < b_filled b" for i
  proof -
    have "b_items b ! i \<in> set (take (b_filled b) (b_items b))" using that f by (metis in_set_conv_nth length_take min.absorb2 nth_take)
    then show ?thesis using assms(1) by (simp add: bucket_ok_def)
  qed
  then show "search_items key n (b_items b) 0 (b_filled b) = Ok (place (take n key) (b_items b) 0 (b_filled b))"
    using assms f by (intro search_items_spec) (auto simp: bucket_ok_def)
  show "case place (take n key) (b_items b) 0 (b_filled b) of None \<Rightarrow> map_of (pairs b) (take n key) = None
      | Some i \<Rightarrow> i < b_filled b \<and> i < length (b_items b) \<and> fst (item_pair (b_items b ! i)) = take n key \<and>
          map_of (pairs b) (take n key) = Some (it_val (b_items b ! i))"
    using place_map_of [of 0 "b_filled b" "b_items b" "take n key"] f by (auto simp: pairs_def split: option.splits)
qed

lemma hm_get:
  assumes "hm_ok hm" and "n \<le> length key" and "n \<le> 256"
  shows "HASHMAP_GET hm key n = Ok (hm_map hm (take n key))"
proof (cases "hm_buckets hm")
  case (Some bs)
  let ?j = "unat (sdbm (take n key)) mod hm_cap hm"
  have c: "hm_cap hm \<noteq> 0" "length bs = hm_cap hm" "bucket_ok (hm_cap hm) ?j (bs ! ?j)" "?j < hm_cap hm"
    using assms(1) Some by (simp_all add: hm_ok_def)
  note s = bucket_search [OF c(3) assms(2,3)]
  show ?thesis
    using s(2) c(2,4) by (simp add: HASHMAP_GET_def Some hm_index_spec assms(2) c(1) s(1) hm_map_def split: option.splits)
qed (simp add: HASHMAP_GET_def hm_map_def)

subsection \<open>Insertion and removal\<close>

lemma grown_bucket_ok:
  assumes "bucket_ok cap j b" and "zeroed fb fi"
  shows "bucket_ok cap j (grown_bucket fi b)" "pairs (grown_bucket fi b) = pairs b" "b_filled (grown_bucket fi b) = b_filled b"
    "b_filled b < length (b_items (grown_bucket fi b))"
proof -
  have z: "length (fi n) = n" "\<forall>it \<in> set (fi n). length (it_key it) = 256" for n using assms(2) by (simp_all add: zeroed_def)
  consider (none) "b_cap b = 0" | (full) "b_cap b \<noteq> 0" "b_filled b = b_cap b" | (room) "b_cap b \<noteq> 0" "b_filled b < b_cap b"
    using assms(1) by (fastforce simp: bucket_ok_def)
  then have all: "bucket_ok cap j (grown_bucket fi b) \<and> pairs (grown_bucket fi b) = pairs b \<and>
      b_filled (grown_bucket fi b) = b_filled b \<and> b_filled b < length (b_items (grown_bucket fi b))"
  proof cases
    case none
    then show ?thesis using assms(1) z by (simp add: grown_bucket_def bucket_ok_def pairs_def)
  next
    case full
    have "\<forall>it \<in> set (drop (b_cap b) (fi (2 * b_cap b))). length (it_key it) = 256" using z(2) in_set_dropD by fast
    then show ?thesis using full assms(1) z(1) by (auto simp: grown_bucket_def bucket_ok_def pairs_def mult.commute)
  next
    case room
    then show ?thesis using assms(1) by (simp add: grown_bucket_def bucket_ok_def)
  qed
  from all show "bucket_ok cap j (grown_bucket fi b)" "pairs (grown_bucket fi b) = pairs b" "b_filled (grown_bucket fi b) = b_filled b"
    "b_filled b < length (b_items (grown_bucket fi b))" by simp_all
qed

lemma hm_map_update:
  assumes "length bs = hm_cap hm" and "j < hm_cap hm" and "\<forall>(k, v) \<in> set (pairs b). unat (sdbm k) mod hm_cap hm = j"
  shows "hm_map (hm\<lparr>hm_buckets := Some (bs[j := b])\<rparr>) k =
    (if unat (sdbm k) mod hm_cap hm = j then map_of (pairs b) k else map_of (pairs (bs ! (unat (sdbm k) mod hm_cap hm))) k)"
  using assms by (simp add: hm_map_def nth_list_update)

lemma hm_ok_update:
  assumes "hm_cap hm \<noteq> 0" and "length bs = hm_cap hm" and "\<forall>i < hm_cap hm. bucket_ok (hm_cap hm) i (bs ! i)"
    and "j < hm_cap hm" and "bucket_ok (hm_cap hm) j b"
  shows "hm_ok (hm\<lparr>hm_buckets := Some (bs[j := b])\<rparr>)"
  using assms by (auto simp: hm_ok_def nth_list_update)

lemma bucket_append:
  assumes ok: "bucket_ok cap j b" and room: "b_filled b < length (b_items b)"
    and it: "length (it_key it) = 256" "it_len it \<le> 256" "unat (sdbm (fst (item_pair it))) mod cap = j"
    and absent: "fst (item_pair it) \<notin> fst ` set (pairs b)"
  defines "b' \<equiv> b\<lparr>b_items := (b_items b)[b_filled b := it], b_filled := b_filled b + 1\<rparr>"
  shows "bucket_ok cap j b'" "pairs b' = pairs b @ [item_pair it]"
proof -
  have tk: "take (Suc (b_filled b)) ((b_items b)[b_filled b := it]) = take (b_filled b) (b_items b) @ [it]"
    using room by (simp add: take_Suc_conv_app_nth)
  then show p: "pairs b' = pairs b @ [item_pair it]" by (simp add: b'_def pairs_def)
  have "set ((b_items b)[b_filled b := it]) \<subseteq> insert it (set (b_items b))" by (rule set_update_subset_insert)
  then have k: "\<forall>it \<in> set (b_items b'). length (it_key it) = 256"
    using ok it(1) by (auto simp: bucket_ok_def b'_def)
  have c: "b_cap b \<noteq> 0" "b_filled b < b_cap b" using ok room by (auto simp: bucket_ok_def)
  have f: "\<forall>it \<in> set (take (b_filled b') (b_items b')). it_len it \<le> 256"
    using ok it(2) by (auto simp: b'_def tk bucket_ok_def)
  have h: "\<forall>(k, v) \<in> set (pairs b'). unat (sdbm k) mod cap = j"
    using ok it(3) by (cases "item_pair it") (auto simp: p bucket_ok_def)
  have d: "distinct (map fst (pairs b'))" using ok absent by (simp add: p bucket_ok_def)
  show "bucket_ok cap j b'" using k f h d c ok by (simp add: bucket_ok_def b'_def)
qed

lemma hm_insert:
  assumes ok: "hm_ok hm" and z: "zeroed fb fi" and n: "n \<le> length key" "n \<le> 256" and new: "hm_map hm (take n key) = None"
  shows "\<exists>hm'. HASHMAP_INSERT fb fi hm key n v = Ok hm' \<and> hm_ok hm' \<and> hm_cap hm' = hm_cap hm \<and>
    hm_map hm' = (hm_map hm)(take n key \<mapsto> v)"
proof -
  let ?k = "take n key" and ?cap = "hm_cap hm"
  let ?j = "unat (sdbm ?k) mod ?cap"
  define bs where "bs = (case hm_buckets hm of None \<Rightarrow> fb ?cap | Some bs \<Rightarrow> bs)"
  have cap: "?cap \<noteq> 0" "?j < ?cap" using ok by (simp_all add: hm_ok_def)
  have fresh: "length (fb ?cap) = ?cap" "b \<in> set (fb ?cap) \<Longrightarrow> b_cap b = 0 \<and> b_filled b = 0 \<and> b_items b = []" for b
    using z by (simp_all add: zeroed_def)
  have bs: "length bs = ?cap" "\<forall>i < ?cap. bucket_ok ?cap i (bs ! i)"
    using ok fresh by (auto simp: bs_def hm_ok_def bucket_ok_def pairs_def split: option.splits)
  have map0: "hm_map hm k = map_of (pairs (bs ! (unat (sdbm k) mod ?cap))) k" for k
    using fresh(1) fresh(2) [of "fb ?cap ! (unat (sdbm k) mod ?cap)"] cap(1)
    by (simp add: hm_map_def bs_def pairs_def split: option.splits)
  let ?b = "grown_bucket fi (bs ! ?j)"
  note g = grown_bucket_ok [OF bs(2) [rule_format, OF cap(2)] z]
  let ?i = "b_filled (bs ! ?j)"
  let ?it = "b_items ?b ! ?i"
  have len: "length (it_key ?it) = 256" using g(1,4) by (simp add: bucket_ok_def)
  have copy: "memcpy_loop (it_key ?it) key 0 n = Ok (?k @ drop n (it_key ?it))"
    using memcpy_loop_spec [of 0 n "it_key ?it" key] len n by simp
  let ?it' = "?it\<lparr>it_key := ?k @ drop n (it_key ?it), it_len := n, it_val := v\<rparr>"
  let ?b' = "?b\<lparr>b_items := (b_items ?b)[?i := ?it'], b_filled := ?i + 1\<rparr>"
  have pair: "item_pair ?it' = (?k, v)" using n by (simp add: item_pair_def)
  have absent: "?k \<notin> fst ` set (pairs (bs ! ?j))" using new map0 [of ?k] by (simp add: map_of_eq_None_iff)
  have "length (it_key ?it') = 256" "it_len ?it' \<le> 256" "unat (sdbm (fst (item_pair ?it'))) mod ?cap = ?j"
    "fst (item_pair ?it') \<notin> fst ` set (pairs ?b)"
    unfolding pair g(2) using len n absent by simp_all
  from bucket_append [OF g(1) _ this] g(3,4) pair
  have b': "bucket_ok ?cap ?j ?b'" and p: "pairs ?b' = pairs (bs ! ?j) @ [(?k, v)]" by (simp_all add: g(2))
  have run: "HASHMAP_INSERT fb fi hm key n v = Ok (hm\<lparr>hm_buckets := Some (bs[?j := ?b'])\<rparr>)"
    using cap bs(1) g(3,4) copy by (simp add: HASHMAP_INSERT_def hm_index_spec n(1) Let_def flip: bs_def)
  have "hm_map (hm\<lparr>hm_buckets := Some (bs[?j := ?b'])\<rparr>) = (hm_map hm)(?k \<mapsto> v)"
  proof
    fix k
    have "\<forall>(k, v) \<in> set (pairs ?b'). unat (sdbm k) mod ?cap = ?j" using b' by (simp add: bucket_ok_def)
    note u = hm_map_update [OF bs(1) cap(2) this, of k]
    show "hm_map (hm\<lparr>hm_buckets := Some (bs[?j := ?b'])\<rparr>) k = ((hm_map hm)(?k \<mapsto> v)) k"
      unfolding u p using new map0 [of k] map0 [of ?k] by (auto simp: map_add_def split: option.splits)
  qed
  then show ?thesis using run hm_ok_update [OF cap(1) bs cap(2) b'] by simp
qed

lemma mset_swap_remove:
  assumes "i < length xs"
  shows "mset (butlast (xs[i := last xs])) = mset xs - {#xs ! i#}"
proof -
  have ne: "xs \<noteq> []" using assms by auto
  have l: "last (xs[i := last xs]) = last xs" using assms ne by (simp add: last_conv_nth nth_list_update)
  have "xs[i := last xs] = butlast (xs[i := last xs]) @ [last xs]" using ne l append_butlast_last_id [of "xs[i := last xs]"] by simp
  then have "mset (xs[i := last xs]) = add_mset (last xs) (mset (butlast (xs[i := last xs])))" by (metis add_mset_add_single mset_append mset.simps(1) mset.simps(2))
  then show ?thesis using mset_update [OF assms, of "last xs"] by simp
qed

lemma map_of_removed:
  assumes d: "distinct (map fst xs)" and m: "mset (p # ys) = mset xs"
  shows "distinct (map fst ys)" "map_of ys = (map_of xs)(fst p := None)"
proof -
  have "mset (map fst (p # ys)) = mset (map fst xs)" using m by (metis mset_map)
  then have e: "distinct (map fst (p # ys))" using d mset_eq_imp_distinct_iff by blast
  then show dy: "distinct (map fst ys)" by simp
  have "map_of xs = map_of (p # ys)" using map_of_inject_set [OF d e] mset_eq_setD [OF m] by blast
  moreover have "map_of ys (fst p) = None" using e by (simp add: map_of_eq_None_iff)
  ultimately show "map_of ys = (map_of xs)(fst p := None)" by (cases p) (simp add: fun_upd_idem)
qed

lemma bucket_remove:
  assumes ok: "bucket_ok cap j b" and i: "i < b_filled b"
  defines "items \<equiv> (if i \<noteq> b_filled b - 1 then (b_items b)[i := b_items b ! (b_filled b - 1)] else b_items b)"
  defines "b' \<equiv> b\<lparr>b_items := items, b_filled := b_filled b - 1\<rparr>"
  shows "bucket_ok cap j b'" "mset (pairs b') = mset (pairs b) - {#pairs b ! i#}"
proof -
  have c: "b_filled b \<le> length (b_items b)" "b_cap b \<noteq> 0" using ok i by (auto simp: bucket_ok_def)
  let ?xs = "take (b_filled b) (b_items b)"
  have ne: "?xs \<noteq> []" "length ?xs = b_filled b" using i c(1) by auto
  have ne3: "last ?xs = b_items b ! (b_filled b - 1)" using last_conv_nth [OF ne(1)] i ne(2) by simp
  have tk: "take (b_filled b - 1) items = butlast (?xs[i := last ?xs])"
  proof (rule nth_equalityI)
    show "length (take (b_filled b - 1) items) = length (butlast (?xs[i := last ?xs]))"
      using c(1) by (simp add: items_def)
    fix m assume "m < length (take (b_filled b - 1) items)"
    then have "m < b_filled b - 1" by simp
    then show "take (b_filled b - 1) items ! m = butlast (?xs[i := last ?xs]) ! m"
      using c(1) ne(2) ne3 by (cases "m = i") (auto simp: items_def nth_butlast)
  qed
  have sub: "mset (take (b_filled b - 1) items) = mset ?xs - {#?xs ! i#}"
    unfolding tk using mset_swap_remove [of i ?xs] i ne(2) by simp
  have "mset (pairs b') = image_mset item_pair (mset (take (b_filled b - 1) items))" by (simp add: pairs_def b'_def)
  also have "\<dots> = mset (pairs b) - {#pairs b ! i#}"
  proof -
    have "{#?xs ! i#} \<subseteq># mset ?xs" using nth_mem [of i ?xs] i ne(2) by simp
    then show ?thesis unfolding sub by (subst image_mset_Diff) (use i c(1) in \<open>simp_all add: pairs_def\<close>)
  qed
  finally show m: "mset (pairs b') = mset (pairs b) - {#pairs b ! i#}" .
  have "set (take (b_filled b - 1) items) \<subseteq> set ?xs" using mset_subset_eqD [of "mset (take (b_filled b - 1) items)" "mset ?xs"]
    by (metis diff_subset_eq_self set_mset_mono set_mset_mset sub)
  then have f: "\<forall>it \<in> set (take (b_filled b') (b_items b')). it_len it \<le> 256"
    using ok by (auto simp: b'_def bucket_ok_def)
  have "set items \<subseteq> set (b_items b)" using c(1) i by (auto simp: items_def dest!: set_update_subset_insert [THEN subsetD])
  then have k: "\<forall>it \<in> set (b_items b'). length (it_key it) = 256" using ok by (auto simp: b'_def bucket_ok_def)
  have "set (pairs b') \<subseteq> set (pairs b)" using m by (metis diff_subset_eq_self set_mset_mono set_mset_mset)
  then have h: "\<forall>(k, v) \<in> set (pairs b'). unat (sdbm k) mod cap = j" using ok by (auto simp: bucket_ok_def)
  have "pairs b ! i \<in># mset (pairs b)" using nth_mem [of i "pairs b"] i c(1) by (simp add: pairs_def del: nth_map)
  then have "mset (pairs b ! i # pairs b') = mset (pairs b)" using m by simp
  note rest = this
  have "distinct (map fst (pairs b))" using ok by (simp add: bucket_ok_def)
  from map_of_removed(1) [OF this rest] have d: "distinct (map fst (pairs b'))" .
  have "length items = length (b_items b)" by (simp add: items_def)
  then have l: "b_filled b' \<le> b_cap b'" "b_cap b' \<noteq> 0" "length (b_items b') = b_cap b'"
    using ok c(2) by (auto simp: b'_def bucket_ok_def)
  show "bucket_ok cap j b'" unfolding bucket_ok_def using k f h d l by blast
qed

lemma hm_remove:
  assumes ok: "hm_ok hm" and n: "n \<le> length key" "n \<le> 256"
  shows "\<exists>hm'. HASHMAP_REMOVE hm key n = Ok (hm_map hm (take n key) \<noteq> None, hm') \<and> hm_ok hm' \<and> hm_cap hm' = hm_cap hm \<and>
    hm_map hm' = (hm_map hm)(take n key := None)"
proof (cases "hm_buckets hm")
  case None
  then show ?thesis using ok by (simp add: HASHMAP_REMOVE_def hm_map_def fun_eq_iff)
next
  case (Some bs)
  let ?k = "take n key" and ?cap = "hm_cap hm"
  let ?j = "unat (sdbm ?k) mod ?cap"
  let ?b = "bs ! ?j"
  have c: "?cap \<noteq> 0" "length bs = ?cap" "\<forall>i < ?cap. bucket_ok ?cap i (bs ! i)" "?j < ?cap"
    using ok Some by (simp_all add: hm_ok_def)
  note b = c(3) [rule_format, OF c(4)]
  note s = bucket_search [OF b n]
  have map0: "hm_map hm k = map_of (pairs (bs ! (unat (sdbm k) mod ?cap))) k" for k by (simp add: hm_map_def Some)
  show ?thesis
  proof (cases "place ?k (b_items ?b) 0 (b_filled ?b)")
    case None
    then have m: "hm_map hm ?k = None" using s(2) by (simp add: map0)
    then have "HASHMAP_REMOVE hm key n = Ok (False, hm)"
      using c None by (simp add: HASHMAP_REMOVE_def Some hm_index_spec n(1) s(1))
    then show ?thesis using ok m by (simp add: fun_upd_idem)
  next
    case P: (Some i)
    then have i: "i < b_filled ?b" "i < length (b_items ?b)" "fst (item_pair (b_items ?b ! i)) = ?k"
      and m: "hm_map hm ?k \<noteq> None" using s(2) by (simp_all add: map0)
    let ?items = "if i \<noteq> b_filled ?b - 1 then (b_items ?b)[i := b_items ?b ! (b_filled ?b - 1)] else b_items ?b"
    let ?b' = "?b\<lparr>b_items := ?items, b_filled := b_filled ?b - 1\<rparr>"
    note r = bucket_remove [OF b i(1)]
    have f: "b_filled ?b \<le> length (b_items ?b)" using b i(1) by (auto simp: bucket_ok_def)
    have run: "HASHMAP_REMOVE hm key n = Ok (True, hm\<lparr>hm_buckets := Some (bs[?j := ?b'])\<rparr>)"
      using c P i(1,2) f by (simp add: HASHMAP_REMOVE_def Some hm_index_spec n(1) s(1))
    have pi: "pairs ?b ! i = (?k, it_val (b_items ?b ! i))" "i < length (pairs ?b)"
      using i f by (simp_all add: pairs_def item_pair_def)
    have d: "distinct (map fst (pairs ?b))" using b by (simp add: bucket_ok_def)
    have "pairs ?b ! i \<in># mset (pairs ?b)" using nth_mem [OF pi(2)] by simp
    then have "mset (pairs ?b ! i # pairs ?b') = mset (pairs ?b)" using r(2) by simp
    note new = map_of_removed(2) [OF d this, unfolded pi(1) fst_conv]
    have "hm_map (hm\<lparr>hm_buckets := Some (bs[?j := ?b'])\<rparr>) = (hm_map hm)(?k := None)"
    proof
      fix k
      have "\<forall>(k, v) \<in> set (pairs ?b'). unat (sdbm k) mod ?cap = ?j" using r(1) by (simp add: bucket_ok_def)
      note u = hm_map_update [OF c(2,4) this, of k]
      show "hm_map (hm\<lparr>hm_buckets := Some (bs[?j := ?b'])\<rparr>) k = ((hm_map hm)(?k := None)) k"
        unfolding u new using map0 [of k] by simp
    qed
    then show ?thesis using run m hm_ok_update [OF c(1,2,3,4) r(1)] by simp
  qed
qed

text \<open>
  C36. The hash table is a map on keys of at most 256 bytes, if the memory of its buckets happens to be zero: \<open>HASHMAP_GET\<close> finds
  what the map has, \<open>HASHMAP_INSERT\<close> of a key that is not in it adds the pair and grows a full bucket,
  and \<open>HASHMAP_REMOVE\<close> takes exactly the key out and reports whether it was there.  None of them faults, and the table
  stays well formed.
\<close>

theorem hashmap_refines_map:
  assumes "hm_ok hm" and "zeroed fresh_buckets fresh_items" and "n \<le> length key" and "n \<le> 256"
  shows "HASHMAP_GET hm key n = Ok (hm_map hm (take n key)) \<and>
    (hm_map hm (take n key) = None \<longrightarrow> (\<exists>hm'. HASHMAP_INSERT fresh_buckets fresh_items hm key n v = Ok hm' \<and> hm_ok hm' \<and>
       hm_map hm' = (hm_map hm)(take n key \<mapsto> v))) \<and>
    (\<exists>hm'. HASHMAP_REMOVE hm key n = Ok (hm_map hm (take n key) \<noteq> None, hm') \<and> hm_ok hm' \<and>
       hm_map hm' = (hm_map hm)(take n key := None))"
  using hm_get [OF assms(1,3,4)] hm_insert [OF assms] hm_remove [OF assms(1,3,4)] by blast

definition empty_buckets :: "nat \<Rightarrow> nat hm_bucket list" where
  "empty_buckets n = replicate n \<lparr>b_cap = 0, b_filled = 0, b_items = []\<rparr>"

definition empty_items :: "nat \<Rightarrow> nat hm_item list" where
  "empty_items n = replicate n \<lparr>it_key = replicate 256 0, it_len = 0, it_val = 0\<rparr>"

lemma hashmap_refines_map_witness:
  "\<exists>hm1 hm2. HASHMAP_INSERT empty_buckets empty_items (HASHMAP_INIT 8) [1, 2, 3] 2 42 = Ok hm1 \<and>
     HASHMAP_GET hm1 [1, 2] 2 = Ok (Some 42) \<and> HASHMAP_REMOVE hm1 [1, 2, 9] 2 = Ok (True, hm2) \<and> HASHMAP_GET hm2 [1, 2] 2 = Ok None"
proof -
  let ?h0 = "HASHMAP_INIT 8 :: nat hashmap"
  have z: "zeroed empty_buckets empty_items" by (simp add: zeroed_def empty_buckets_def empty_items_def)
  have 0: "hm_ok ?h0" "hm_map ?h0 k = None" for k by (simp_all add: hm_ok_def HASHMAP_INIT_def hm_map_def)
  obtain hm1 where 1: "HASHMAP_INSERT empty_buckets empty_items ?h0 [1, 2, 3] 2 42 = Ok hm1" "hm_ok hm1"
    "hm_map hm1 = (hm_map ?h0)([1, 2] \<mapsto> 42)"
    using hashmap_refines_map [OF 0(1) z, of 2 "[1, 2, 3]" 42] 0(2) by auto
  obtain hm2 where 2: "HASHMAP_REMOVE hm1 [1, 2, 9] 2 = Ok (True, hm2)" "hm_ok hm2" "hm_map hm2 [1, 2] = None"
    using hashmap_refines_map [OF 1(2) z, of 2 "[1, 2, 9]" 0] 1(3) by auto
  have "HASHMAP_GET hm1 [1, 2] 2 = Ok (Some 42)" using hashmap_refines_map [OF 1(2) z, of 2 "[1, 2]" 0] 1(3) by simp
  moreover have "HASHMAP_GET hm2 [1, 2] 2 = Ok None" using hashmap_refines_map [OF 2(2) z, of 2 "[1, 2]" 0] 2(3) by simp
  ultimately show ?thesis using 1(1) 2(1) by blast
qed

end
