(* ===== verification/Krn_List.thy ===== *)
theory Krn_List
  imports Prelude
begin

text \<open>
  The linked lists of the kernel, \<open>base/core/list.cpp\<close> and \<open>list.hpp\<close>.  An entry is a cell of a store, \<open>None\<close> once
  it is deleted; a pointer is an index or \<open>None\<close>.  \<open>new\<close> is taken to succeed.  The data are addresses, 0 is null.

  \<open>add_entry\<close> links a new entry only into a list that has a second one, and nothing ever gives it that: the theory
  shows that no \<open>next\<close> is ever set, whatever is called in whatever order, and what follows for iteration and removal.
\<close>

record list_entry_t =
  le_prev :: "nat option"
  le_next :: "nat option"
  le_data :: nat

type_synonym list_store = "list_entry_t option list"

definition list_at :: "list_store \<Rightarrow> nat option \<Rightarrow> list_entry_t outcome" where
  "list_at s p = (case p of None \<Rightarrow> Fault | Some i \<Rightarrow>
     if i < length s then (case s ! i of None \<Rightarrow> Fault | Some e \<Rightarrow> Ok e) else Fault)"

definition put_entry :: "list_store \<Rightarrow> nat option \<Rightarrow> list_entry_t \<Rightarrow> list_store" where
  "put_entry s p e = (case p of None \<Rightarrow> s | Some i \<Rightarrow> s[i := Some e])"

definition gen_list :: "nat \<Rightarrow> list_store \<Rightarrow> list_store \<times> nat option" where
  "gen_list d s = (s @ [Some \<lparr>le_prev = None, le_next = None, le_data = d\<rparr>], Some (length s))"

definition add_entry :: "nat \<Rightarrow> nat option \<Rightarrow> list_store \<Rightarrow> (list_store \<times> nat option) outcome" where
  "add_entry d list s =
     (let list2 = Some (length s);
          s = s @ [Some \<lparr>le_prev = None, le_next = None, le_data = 0\<rparr>] in
      bnd (list_at s list) (\<lambda>l.
      bnd (if le_next l \<noteq> None then
             bnd (list_at s list2) (\<lambda>e2.
             let s = put_entry s list2 (e2\<lparr>le_next := le_next l\<rparr>) in
             bnd (list_at s list) (\<lambda>l'.
             let s = put_entry s list (l'\<lparr>le_next := list2\<rparr>) in
             bnd (list_at s (le_next l)) (\<lambda>n. Ok (put_entry s (le_next l) (n\<lparr>le_prev := list2\<rparr>)))))
           else Ok s) (\<lambda>s.
      bnd (list_at s list2) (\<lambda>e2.
      Ok (put_entry s list2 (e2\<lparr>le_prev := list, le_data := d\<rparr>), list2)))))"

definition pop_entry :: "nat option \<Rightarrow> list_store \<Rightarrow> list_store outcome" where
  "pop_entry entry s =
     bnd (list_at s entry) (\<lambda>e.
     bnd (if le_prev e \<noteq> None then
            bnd (list_at s (le_prev e)) (\<lambda>p.
            let s = put_entry s (le_prev e) (p\<lparr>le_next := le_next e\<rparr>) in
            bnd (list_at s entry) (\<lambda>e.
            bnd (list_at s (le_next e)) (\<lambda>n. Ok (put_entry s (le_next e) (n\<lparr>le_prev := le_prev e\<rparr>)))))
          else Ok s) (\<lambda>s.
     Ok (case entry of None \<Rightarrow> s | Some i \<Rightarrow> s[i := None])))"

datatype LIST_ENTRY_AVAIBLE_IN = NEXT | PREV

definition iterator_avaible :: "list_store \<Rightarrow> nat option \<Rightarrow> LIST_ENTRY_AVAIBLE_IN \<Rightarrow> bool outcome" where
  "iterator_avaible s it avaible_in =
     bnd (list_at s it) (\<lambda>e.
     bnd (list_at s (if avaible_in = NEXT then le_next e else le_prev e)) (\<lambda>o'. Ok (le_data o' \<noteq> 0)))"

definition iterator_next :: "list_store \<Rightarrow> nat option \<Rightarrow> (nat option \<times> nat) outcome" where
  "iterator_next s it = bnd (list_at s it) (\<lambda>e. bnd (list_at s (le_next e)) (\<lambda>n. Ok (le_next e, le_data n)))"

definition iterator_prev :: "list_store \<Rightarrow> nat option \<Rightarrow> (nat option \<times> nat) outcome" where
  "iterator_prev s it = bnd (list_at s it) (\<lambda>e. bnd (list_at s (le_prev e)) (\<lambda>n. Ok (le_prev e, le_data n)))"

text \<open>The stores that calls of the three functions lead to.\<close>

inductive list_reachable :: "list_store \<Rightarrow> bool" where
  start_empty: "list_reachable []"
| after_gen: "list_reachable s \<Longrightarrow> gen_list d s = (s', p) \<Longrightarrow> list_reachable s'"
| after_add: "list_reachable s \<Longrightarrow> add_entry d list s = Ok (s', p) \<Longrightarrow> list_reachable s'"
| after_pop: "list_reachable s \<Longrightarrow> pop_entry p s = Ok s' \<Longrightarrow> list_reachable s'"

definition no_next :: "list_store \<Rightarrow> bool" where
  "no_next s \<longleftrightarrow> (\<forall>i e. i < length s \<longrightarrow> s ! i = Some e \<longrightarrow> le_next e = None)"

lemma list_at_Ok: "list_at s p = Ok e \<longleftrightarrow> (\<exists>i. p = Some i \<and> i < length s \<and> s ! i = Some e)"
  by (auto simp: list_at_def split: option.splits)

lemma list_at_put: "list_at s p = Ok e \<Longrightarrow> \<exists>e'. list_at (put_entry s q x) p = Ok e'"
proof -
  assume "list_at s p = Ok e"
  then obtain i where i: "p = Some i" "i < length s" "s ! i = Some e" by (auto simp: list_at_Ok)
  show ?thesis
  proof (cases "q = Some i")
    case True
    then show ?thesis using i by (simp add: list_at_def put_entry_def)
  next
    case False
    then show ?thesis using i by (cases q) (simp_all add: list_at_def put_entry_def)
  qed
qed

lemma no_next_update: "no_next s \<Longrightarrow> (\<And>e. x = Some e \<Longrightarrow> le_next e = None) \<Longrightarrow> no_next (s[i := x])"
  unfolding no_next_def by (metis length_list_update nth_list_update_eq nth_list_update_neq)

lemma no_next_put: "no_next s \<Longrightarrow> le_next e = None \<Longrightarrow> no_next (put_entry s p e)"
  by (cases p) (auto simp: put_entry_def intro!: no_next_update)

lemma add_entry_no_next:
  assumes "no_next s" and "add_entry d list s = Ok (s', p)"
  shows "no_next s'" "\<exists>i. p = Some i \<and> i = length s \<and> s' = s @ [Some \<lparr>le_prev = list, le_next = None, le_data = d\<rparr>]"
proof -
  let ?s = "s @ [Some \<lparr>le_prev = None, le_next = None, le_data = 0\<rparr>]"
  have n: "no_next ?s" using assms(1) by (auto simp: no_next_def nth_append less_Suc_eq)
  obtain l where l: "list_at ?s list = Ok l" using assms(2) by (auto simp: add_entry_def bnd_eq_Ok Let_def)
  then have "le_next l = None" using n by (auto simp: list_at_Ok no_next_def)
  then have r: "s' = s @ [Some \<lparr>le_prev = list, le_next = None, le_data = d\<rparr>]" "p = Some (length s)"
    using assms(2) l by (auto simp: add_entry_def Let_def bnd_eq_Ok put_entry_def list_at_Ok)
  then show "\<exists>i. p = Some i \<and> i = length s \<and> s' = s @ [Some \<lparr>le_prev = list, le_next = None, le_data = d\<rparr>]" by simp
  show "no_next s'" using assms(1) by (auto simp: r(1) no_next_def nth_append less_Suc_eq)
qed

lemma pop_entry_no_next:
  assumes "no_next s" and "pop_entry p s = Ok s'"
  shows "no_next s'"
proof -
  obtain e where e: "list_at s p = Ok e" using assms(2) by (auto simp: pop_entry_def bnd_eq_Ok)
  then have nx: "le_next e = None" using assms(1) by (auto simp: list_at_Ok no_next_def)
  have "le_prev e = None"
  proof (rule ccontr)
    assume "le_prev e \<noteq> None"
    then obtain q pe where q: "list_at s (le_prev e) = Ok pe" using assms(2) e by (auto simp: pop_entry_def bnd_eq_Ok)
    let ?s = "put_entry s (le_prev e) (pe\<lparr>le_next := None\<rparr>)"
    have "no_next ?s" using assms(1) by (simp add: no_next_put)
    moreover obtain e' n where "list_at ?s p = Ok e'" "list_at ?s (le_next e') = Ok n"
      using assms(2) e q nx \<open>le_prev e \<noteq> None\<close> by (auto simp: pop_entry_def bnd_eq_Ok Let_def)
    ultimately show False by (auto simp: list_at_Ok no_next_def)
  qed
  then have "s' = (case p of None \<Rightarrow> s | Some i \<Rightarrow> s[i := None])" using assms(2) e by (auto simp: pop_entry_def)
  then show ?thesis using assms(1) by (cases p) (auto intro!: no_next_update)
qed

lemma reachable_no_next: "list_reachable s \<Longrightarrow> no_next s"
proof (induction rule: list_reachable.induct)
  case start_empty
  then show ?case by (simp add: no_next_def)
next
  case (after_gen s d s' p)
  then show ?case by (auto simp: gen_list_def no_next_def nth_append less_Suc_eq)
next
  case (after_add s d list s' p)
  then show ?case using add_entry_no_next(1) by blast
next
  case (after_pop s p s')
  then show ?case using pop_entry_no_next by blast
qed

text \<open>
  C39. Lists of the kernel never have a second element: in every store that calls of \<open>gen_list\<close>, \<open>add_entry\<close> and \<open>pop_entry\<close> lead
  to, no entry has a successor.  Moving an iterator forward, or asking it whether it can, dereferences a null
  pointer at every entry, and so does \<open>pop_entry\<close> of every entry that \<open>add_entry\<close> made.
\<close>

theorem kernel_lists_stay_single:
  assumes "list_reachable s" and "list_at s p = Ok e"
  shows "le_next e = None \<and> iterator_avaible s p NEXT = Fault \<and> iterator_next s p = Fault \<and>
    (le_prev e \<noteq> None \<longrightarrow> pop_entry p s = Fault)"
proof -
  have n: "no_next s" using reachable_no_next [OF assms(1)] .
  then have nx: "le_next e = None" using assms(2) by (auto simp: list_at_Ok no_next_def)
  have f: "list_at t None = Fault" for t by (simp add: list_at_def)
  have "pop_entry p s = Fault" if "le_prev e \<noteq> None"
  proof (cases "list_at s (le_prev e)")
    case (Ok pe)
    let ?s = "put_entry s (le_prev e) (pe\<lparr>le_next := None\<rparr>)"
    have m: "no_next ?s" using n by (simp add: no_next_put)
    obtain e' where e': "list_at ?s p = Ok e'"
      using list_at_put [OF assms(2)] by blast
    then have "le_next e' = None" using m by (auto simp: list_at_Ok no_next_def)
    then show ?thesis using that assms(2) Ok nx e' by (simp add: pop_entry_def f)
  qed (use that assms(2) in \<open>auto simp: pop_entry_def list_at_def split: option.splits if_splits\<close>)
  then show ?thesis using nx assms(2) by (simp add: iterator_avaible_def iterator_next_def f)
qed

lemma kernel_lists_stay_single_witness:
  "\<exists>s p s' q. gen_list 5 [] = (s, p) \<and> add_entry 6 p s = Ok (s', q) \<and> iterator_next s' p = Fault \<and> pop_entry q s' = Fault"
proof -
  obtain s p where g: "gen_list 5 [] = (s, p)" by fastforce
  then have s: "s = [Some \<lparr>le_prev = None, le_next = None, le_data = 5\<rparr>]" "p = Some 0" by (simp_all add: gen_list_def)
  let ?s' = "s @ [Some \<lparr>le_prev = Some 0, le_next = None, le_data = 6\<rparr>]"
  have a: "add_entry 6 p s = Ok (?s', Some 1)" by (simp add: s add_entry_def list_at_def put_entry_def)
  have r: "list_reachable ?s'" using after_add [OF after_gen [OF start_empty g] a] .
  have "list_at ?s' p = Ok \<lparr>le_prev = None, le_next = None, le_data = 5\<rparr>"
    "list_at ?s' (Some 1) = Ok \<lparr>le_prev = Some 0, le_next = None, le_data = 6\<rparr>" by (simp_all add: s list_at_def)
  from kernel_lists_stay_single [OF r this(1)] kernel_lists_stay_single [OF r this(2)]
  have "iterator_next ?s' p = Fault" "pop_entry (Some 1) ?s' = Fault" by simp_all
  then show ?thesis using g a by blast
qed

end
