(* ===== verification/Krn_Vfs.thy ===== *)
theory Krn_Vfs
  imports Krn_Machine Krn_Libc
begin

text \<open>
  The virtual file system of the kernel: \<open>base/core/vfs.cpp\<close>, \<open>vfs_drive_mgr.cpp\<close> and \<open>vfs_defs.hpp\<close>.  A \<open>struct node\<close> has 32
  bytes: its name, its flags and a union of 24 bytes, which is kept here as the words at its offsets 12, 16 and 20, because the code
  reads a member that was not written.  \<open>uint64_t\<close> has 32 bits.  The members of the union at smaller offsets (owner and times) are
  never read and are left out.

  Drivers are functions that may change nodes, strings and a state of their own.  \<open>currpath\<close> is an array that the
  functions do not initialise; what it holds is a parameter.  The theory shows what absolute paths do: \<open>strcmp\<close> takes
  every one of them for \<open>"/"\<close>.
\<close>

subsection \<open>State\<close>

record vnode =
  vn_name :: u32
  vn_flags :: u8
  vn_x12 :: u32
  vn_x16 :: u32
  vn_x20 :: u32

definition dir_disk_id :: "vnode \<Rightarrow> u16" where "dir_disk_id n = ucast (vn_x12 n)"
definition dir_num_dirs :: "vnode \<Rightarrow> u16" where "dir_num_dirs n = ucast (drop_bit 16 (vn_x12 n))"
definition dir_files :: "vnode \<Rightarrow> u32" where "dir_files n = vn_x16 n"
definition file_disk_id :: "vnode \<Rightarrow> u16" where "file_disk_id n = ucast (vn_x16 n)"
definition file_contents :: "vnode \<Rightarrow> u32" where "file_contents n = vn_x20 n"

definition set_dir :: "u16 \<Rightarrow> u16 \<Rightarrow> u32 \<Rightarrow> vnode \<Rightarrow> vnode" where
  "set_dir disk num files n = n\<lparr>vn_x12 := ucast disk OR push_bit 16 (ucast num), vn_x16 := files\<rparr>"

definition FLAGS_PRESENT :: u8 where "FLAGS_PRESENT = 1"
definition FLAGS_ISDIR :: u8 where "FLAGS_ISDIR = 2"
definition FLAGS_LOADED :: u8 where "FLAGS_LOADED = 4"
definition FLAGS_MOUNT_POINT :: u8 where "FLAGS_MOUNT_POINT = 8"

definition is_dir :: "vnode \<Rightarrow> bool" where "is_dir n \<longleftrightarrow> vn_flags n AND FLAGS_ISDIR \<noteq> 0"
definition is_loaded :: "vnode \<Rightarrow> bool" where "is_loaded n \<longleftrightarrow> vn_flags n AND FLAGS_LOADED \<noteq> 0"

record 'd vfs =
  v_first :: vnode
  v_nodes :: "u32 \<Rightarrow> vnode"
  v_mem :: kernel_mem
  v_dev :: 'd

text \<open>A pointer to a node: \<open>first_node\<close>, or an address; null is the address 0.\<close>

datatype vptr = First | At u32

definition vnode_at :: "'d vfs \<Rightarrow> vptr \<Rightarrow> vnode outcome" where
  "vnode_at s p = (case p of First \<Rightarrow> Ok (v_first s) | At a \<Rightarrow> guard (a \<noteq> 0) (Ok (v_nodes s a)))"

definition put_vnode :: "'d vfs \<Rightarrow> vptr \<Rightarrow> vnode \<Rightarrow> 'd vfs" where
  "put_vnode s p n = (case p of First \<Rightarrow> s\<lparr>v_first := n\<rparr> | At a \<Rightarrow> s\<lparr>v_nodes := (v_nodes s)(a := n)\<rparr>)"

subsection \<open>Drives\<close>

type_synonym dir_report = "u32 \<times> u32"
type_synonym file_buffer = "u32 \<times> u64"

record 'd fs_driver =
  d_present :: bool
  d_inspect :: "u8 list \<Rightarrow> 'd vfs \<Rightarrow> vnode \<times> 'd vfs"
  d_iterate :: "u8 list \<Rightarrow> 'd vfs \<Rightarrow> dir_report \<times> 'd vfs"
  d_read :: "u32 \<Rightarrow> u32 \<Rightarrow> u32 \<Rightarrow> 'd vfs \<Rightarrow> file_buffer \<times> 'd vfs"
  d_write :: "u32 \<Rightarrow> u32 \<Rightarrow> file_buffer \<Rightarrow> 'd vfs \<Rightarrow> bool \<times> 'd vfs"

definition drive_read_file :: "'d fs_driver list \<Rightarrow> u32 \<Rightarrow> u32 \<Rightarrow> u32 \<Rightarrow> u32 \<Rightarrow> 'd vfs \<Rightarrow> (file_buffer \<times> 'd vfs) outcome" where
  "drive_read_file drives device_id path offset sz s =
     bnd (rd drives (unat device_id)) (\<lambda>d. Ok (if \<not> d_present d then ((0, 0), s) else d_read d path offset sz s))"

definition drive_write_file :: "'d fs_driver list \<Rightarrow> u32 \<Rightarrow> u32 \<Rightarrow> u32 \<Rightarrow> file_buffer \<Rightarrow> 'd vfs \<Rightarrow> (bool \<times> 'd vfs) outcome" where
  "drive_write_file drives device_id path offset buf s =
     bnd (rd drives (unat device_id)) (\<lambda>d. Ok (if \<not> d_present d then (False, s) else d_write d path offset buf s))"

definition drive_iterate_dir :: "'d fs_driver list \<Rightarrow> u32 \<Rightarrow> u8 list \<Rightarrow> 'd vfs \<Rightarrow> (dir_report \<times> 'd vfs) outcome" where
  "drive_iterate_dir drives device_id path s =
     bnd (rd drives (unat device_id)) (\<lambda>d. Ok (if \<not> d_present d then ((0, 0), s) else d_iterate d path s))"

definition vnode0 :: vnode where
  "vnode0 = \<lparr>vn_name = 0, vn_flags = 0, vn_x12 = 0, vn_x16 = 0, vn_x20 = 0\<rparr>"

definition drive_inspect :: "'d fs_driver list \<Rightarrow> u32 \<Rightarrow> u8 list \<Rightarrow> 'd vfs \<Rightarrow> (vnode \<times> 'd vfs) outcome" where
  "drive_inspect drives device_id path s =
     bnd (rd drives (unat device_id)) (\<lambda>d. Ok (if \<not> d_present d then (vnode0, s) else d_inspect d path s))"

fun register_loop :: "'d fs_driver list \<Rightarrow> 'd fs_driver \<Rightarrow> nat \<Rightarrow> nat \<Rightarrow> ('d fs_driver list \<times> nat) outcome" where
  "register_loop drives driver i 0 = Ok (drives, 0)"
| "register_loop drives driver i (Suc n) =
     bnd (rd drives i) (\<lambda>d.
     if d_present d then register_loop drives driver (Suc i) n else Ok (drives[i := driver], i))"

definition fs_driver_register :: "'d fs_driver list \<Rightarrow> 'd fs_driver \<Rightarrow> ('d fs_driver list \<times> nat) outcome" where
  "fs_driver_register drives driver = register_loop drives driver 0 16"

subsection \<open>Nodes\<close>

text \<open>The number of entries is cut to 16 bits.\<close>

definition vfs_load_contents :: "'d fs_driver list \<Rightarrow> vptr \<Rightarrow> u8 list \<Rightarrow> 'd vfs \<Rightarrow> 'd vfs outcome" where
  "vfs_load_contents drives p path s =
     bnd (vnode_at s p) (\<lambda>n.
     bnd (drive_iterate_dir drives (ucast (dir_disk_id n)) path s) (\<lambda>((num, entries), s).
     bnd (vnode_at s p) (\<lambda>n.
     Ok (put_vnode s p ((set_dir (dir_disk_id n) (ucast num) entries n)\<lparr>vn_flags := vn_flags n OR FLAGS_LOADED\<rparr>)))))"

text \<open>The string at an address; \<open>limit\<close> bounds the search for its end.\<close>

fun mem_str :: "nat \<Rightarrow> kernel_mem \<Rightarrow> u32 \<Rightarrow> u8 list outcome" where
  "mem_str 0 mem a = Stuck"
| "mem_str (Suc limit) mem a = (if mem a = 0 then Ok [0] else bnd (mem_str limit mem (a + 1)) (\<lambda>r. Ok (mem a # r)))"

text \<open>The search for the next slash has no effect but to read the path up to one, or to its end.\<close>

fun next_slash :: "u8 list \<Rightarrow> nat \<Rightarrow> nat \<Rightarrow> nat outcome" where
  "next_slash path at 0 = Stuck"
| "next_slash path at (Suc n) =
     (if at = 0 then next_slash path (Suc at) n
      else bnd (rd path at) (\<lambda>c. if c = 47 \<or> c = 0 then Ok at else next_slash path (Suc at) n))"

text \<open>
  The entries \<open>i\<close>, \<open>i + 1\<close>, \<dots> of a directory, up to one whose name \<open>strncmp\<close> accepts: \<open>accepts\<close> is the value
  of \<open>strncmp\<close> it looks for.  The name is appended to \<open>currpath\<close>.
\<close>

fun find_entry :: "nat \<Rightarrow> bool \<Rightarrow> 'd vfs \<Rightarrow> u32 \<Rightarrow> u8 list \<Rightarrow> u8 list \<Rightarrow> u8 \<Rightarrow> nat \<Rightarrow> nat \<Rightarrow> (vptr \<times> u8 list \<times> u8) option outcome" where
  "find_entry limit accepts s files path currpath idx i 0 = Ok None"
| "find_entry limit accepts s files path currpath idx i (Suc n) =
     bnd (vnode_at s (At (files + 32 * of_nat i))) (\<lambda>f.
     bnd (mem_str limit (v_mem s) (vn_name f)) (\<lambda>name.
     bnd (k_strncmp name (drop (unat idx + 1) path)) (\<lambda>r.
     if r = accepts then
       bnd (wr currpath (unat idx) 47) (\<lambda>currpath.
       bnd (put_block currpath (unat idx + 1) name) (\<lambda>currpath.
       Ok (Some (At (files + 32 * of_nat i), currpath, idx + of_nat (length name - 1) + 1))))
     else find_entry limit accepts s files path currpath idx (Suc i) n)))"

text \<open>\<open>currpathidx\<close> has 8 bits.  The rounds are bounded by fuel.\<close>

fun inspect_loop :: "nat \<Rightarrow> 'd fs_driver list \<Rightarrow> u8 list \<Rightarrow> vptr \<Rightarrow> u8 list \<Rightarrow> u8 \<Rightarrow> 'd vfs \<Rightarrow> (vptr \<times> 'd vfs) outcome" where
  "inspect_loop 0 drives path cur currpath idx s = Stuck"
| "inspect_loop (Suc fuel) drives path cur currpath idx s =
     bnd (vnode_at s cur) (\<lambda>n.
     bnd (if \<not> is_loaded n \<and> is_dir n then vfs_load_contents drives cur currpath s else Ok s) (\<lambda>s.
     bnd (rd path (unat idx)) (\<lambda>c.
     if c = 0 then Ok (cur, s)
     else if cur = At 0 then Ok (At 0, s)
     else bnd (vnode_at s cur) (\<lambda>n.
       if \<not> is_dir n then Ok (At 0, s)
       else
         bnd (next_slash path (unat idx) (length path + 1)) (\<lambda>_.
         bnd (find_entry fuel True s (dir_files n) path currpath idx 0 (unat (dir_num_dirs n))) (\<lambda>r.
         case r of
           None \<Rightarrow> Ok (At 0, s)
         | Some (q, currpath, idx) \<Rightarrow> inspect_loop fuel drives path q currpath idx s))))))"

definition vfs_inspect :: "nat \<Rightarrow> 'd fs_driver list \<Rightarrow> u8 list \<Rightarrow> u8 list \<Rightarrow> 'd vfs \<Rightarrow> (vptr \<times> 'd vfs) outcome" where
  "vfs_inspect fuel drives junk path s =
     bnd (k_strcmp path [47, 0]) (\<lambda>differs.
     if \<not> differs then Ok (First, s) else inspect_loop fuel drives path First junk 0 s)"

definition vfs_is_dir :: "nat \<Rightarrow> 'd fs_driver list \<Rightarrow> u8 list \<Rightarrow> u8 list \<Rightarrow> 'd vfs \<Rightarrow> (bool \<times> 'd vfs) outcome" where
  "vfs_is_dir fuel drives junk path s =
     bnd (vfs_inspect fuel drives junk path s) (\<lambda>(p, s).
     if p = At 0 then Ok (False, s) else bnd (vnode_at s p) (\<lambda>n. Ok (is_dir n, s)))"

definition vfs_read :: "nat \<Rightarrow> 'd fs_driver list \<Rightarrow> u8 list \<Rightarrow> u8 list \<Rightarrow> u32 \<Rightarrow> u32 \<Rightarrow> 'd vfs \<Rightarrow> (file_buffer \<times> 'd vfs) outcome" where
  "vfs_read fuel drives junk path offset sz s =
     bnd (vfs_inspect fuel drives junk path s) (\<lambda>(p, s).
     bnd (vnode_at s p) (\<lambda>n. drive_read_file drives (ucast (file_disk_id n)) (file_contents n) offset sz s))"

definition vfs_write :: "nat \<Rightarrow> 'd fs_driver list \<Rightarrow> u8 list \<Rightarrow> u8 list \<Rightarrow> file_buffer \<Rightarrow> u32 \<Rightarrow> 'd vfs \<Rightarrow> 'd vfs outcome" where
  "vfs_write fuel drives junk path buf offset s =
     bnd (vfs_inspect fuel drives junk path s) (\<lambda>(p, s).
     bnd (vnode_at s p) (\<lambda>n.
     bnd (drive_write_file drives (ucast (file_disk_id n)) (file_contents n) offset buf s) (\<lambda>(_, s). Ok s)))"

definition vfs_iterate_dir :: "nat \<Rightarrow> 'd fs_driver list \<Rightarrow> u8 list \<Rightarrow> u8 list \<Rightarrow> 'd vfs \<Rightarrow> (dir_report \<times> 'd vfs) outcome" where
  "vfs_iterate_dir fuel drives junk path s =
     bnd (vfs_inspect fuel drives junk path s) (\<lambda>(p, s).
     if p = At 0 then Ok ((0, 0), s)
     else bnd (vnode_at s p) (\<lambda>n.
       Ok (if \<not> is_dir n then (0, 0) else (ucast (dir_num_dirs n), dir_files n), s)))"

subsection \<open>Mounting\<close>

text \<open>The outer loop over entries goes on in the directory the inner one found.\<close>

fun mount_entries :: "nat \<Rightarrow> 'd vfs \<Rightarrow> u8 list \<Rightarrow> nat \<Rightarrow> bool \<Rightarrow> vptr \<Rightarrow> u8 list \<Rightarrow> u8 \<Rightarrow> (bool \<times> vptr \<times> u8 list \<times> u8) outcome" where
  "mount_entries 0 s path i found cur currpath idx = Stuck"
| "mount_entries (Suc fuel) s path i found cur currpath idx =
     bnd (vnode_at s cur) (\<lambda>n.
     if i < unat (dir_num_dirs n) then
       bnd (find_entry fuel False s (dir_files n) path currpath idx 0 (unat (dir_num_dirs n))) (\<lambda>r.
       case r of
         None \<Rightarrow> mount_entries fuel s path (Suc i) found cur currpath idx
       | Some (q, currpath, idx) \<Rightarrow> mount_entries fuel s path (Suc i) True q currpath idx)
     else Ok (found, cur, currpath, idx))"

fun mount_loop :: "nat \<Rightarrow> 'd fs_driver list \<Rightarrow> u8 list \<Rightarrow> vptr \<Rightarrow> u8 list \<Rightarrow> u8 \<Rightarrow> 'd vfs \<Rightarrow> (vptr option \<times> 'd vfs) outcome" where
  "mount_loop 0 drives path cur currpath idx s = Stuck"
| "mount_loop (Suc fuel) drives path cur currpath idx s =
     bnd (rd path (unat idx)) (\<lambda>c.
     if c = 0 then Ok (Some cur, s)
     else bnd (vnode_at s cur) (\<lambda>n.
       if \<not> is_dir n then Ok (None, s)
       else if \<not> is_loaded n then
         bnd (vfs_load_contents drives cur currpath s) (\<lambda>s. mount_loop fuel drives path cur currpath idx s)
       else
         bnd (next_slash path (unat idx) (length path + 1)) (\<lambda>_.
         bnd (mount_entries fuel s path 0 False cur currpath idx) (\<lambda>(found, cur, currpath, idx).
         if \<not> found then Ok (None, s) else mount_loop fuel drives path cur currpath idx s))))"

text \<open>\<open>root_name\<close> is the address of the literal \<open>"/"\<close>.\<close>

definition vfs_mount :: "nat \<Rightarrow> 'd fs_driver list \<Rightarrow> u8 list \<Rightarrow> u32 \<Rightarrow> u16 \<Rightarrow> u8 list \<Rightarrow> 'd vfs \<Rightarrow> (bool \<times> 'd vfs) outcome" where
  "vfs_mount fuel drives junk root_name disk_id path s =
     bnd (k_strcmp path [47, 0]) (\<lambda>differs.
     bnd (if differs then mount_loop fuel drives path First junk 0 s
          else Ok (Some First, s\<lparr>v_first := (set_dir 0 1 0 (v_first s))\<lparr>vn_name := root_name,
            vn_flags := FLAGS_PRESENT OR FLAGS_ISDIR OR FLAGS_LOADED\<rparr>\<rparr>)) (\<lambda>(r, s).
     case r of
       None \<Rightarrow> Ok (False, s)
     | Some p \<Rightarrow>
         bnd (vnode_at s p) (\<lambda>n.
         let s = put_vnode s p (n\<lparr>vn_flags := vn_flags n OR FLAGS_MOUNT_POINT\<rparr>) in
         bnd (drive_iterate_dir drives (ucast disk_id) [47, 0] s) (\<lambda>((num, entries), s).
         bnd (vnode_at s p) (\<lambda>n.
         Ok (True, put_vnode s p (set_dir (dir_disk_id n) (ucast num) entries n)))))))"

subsection \<open>Absolute paths\<close>

lemma unat_u16_up: "unat (ucast (w :: u16) :: u32) = unat w"
proof -
  have "unat w < 2 ^ LENGTH(16)" by (rule unsigned_less)
  then have "take_bit 32 (unat w) = unat w" by (simp add: take_bit_nat_eq_self_iff)
  then show ?thesis by (simp add: unsigned_ucast_eq)
qed

lemma strcmp_slash:
  assumes "path ! 0 = 47" and "path \<noteq> []"
  shows "k_strcmp path [47, 0] = Ok False"
  using assms by (simp add: k_strcmp_def)

lemma set_dir_fields [simp]:
  "dir_disk_id (set_dir disk num files n) = disk" "dir_num_dirs (set_dir disk num files n) = num"
  "dir_files (set_dir disk num files n) = files" "vn_flags (set_dir disk num files n) = vn_flags n"
  "file_disk_id (set_dir disk num files n) = ucast files" "file_contents (set_dir disk num files n) = file_contents n"
proof -
  show "dir_disk_id (set_dir disk num files n) = disk"
    unfolding dir_disk_id_def set_dir_def by (rule bit_word_eqI) (auto simp: bit_simps)
  show "dir_num_dirs (set_dir disk num files n) = num"
    unfolding dir_num_dirs_def set_dir_def by (rule bit_word_eqI) (auto simp: bit_simps dest: bit_imp_le_length)
qed (simp_all add: set_dir_def dir_files_def file_disk_id_def file_contents_def)

text \<open>
  C40. Every absolute path is the root: whatever follows the first slash, \<open>vfs_inspect\<close> answers \<open>first_node\<close> and looks at no
  directory, \<open>vfs_mount\<close> mounts over the root, and \<open>vfs_read\<close> and \<open>vfs_write\<close>, which take the node for a file,
  ask the drive whose number is the low half of the address of the root's entries; from number 16 on that is
  behind the array of drives.
\<close>

theorem vfs_absolute_paths:
  assumes "path \<noteq> []" and "path ! 0 = 47"
  shows "vfs_inspect fuel drives junk path s = Ok (First, s) \<and>
    vfs_is_dir fuel drives junk path s = Ok (is_dir (v_first s), s) \<and>
    vfs_mount fuel drives junk root_name disk path s = vfs_mount fuel drives junk root_name disk [47, 0] s \<and>
    vfs_read fuel drives junk path offset n s =
      drive_read_file drives (ucast (file_disk_id (v_first s))) (file_contents (v_first s)) offset n s \<and>
    (length drives \<le> unat (file_disk_id (v_first s)) \<longrightarrow>
      vfs_read fuel drives junk path offset n s = Fault \<and> vfs_write fuel drives junk path buf offset s = Fault)"
proof -
  have i: "vfs_inspect fuel drives junk path s = Ok (First, s)" by (simp add: vfs_inspect_def strcmp_slash assms)
  have r: "vfs_read fuel drives junk path offset n s =
      drive_read_file drives (ucast (file_disk_id (v_first s))) (file_contents (v_first s)) offset n s"
    by (simp add: vfs_read_def i vnode_at_def)
  have u: "unat (ucast (file_disk_id (v_first s)) :: u32) = unat (file_disk_id (v_first s))" by (rule unat_u16_up)
  show ?thesis
    using i r by (simp add: vfs_is_dir_def vfs_write_def vnode_at_def vfs_mount_def strcmp_slash assms drive_read_file_def
        drive_write_file_def u rd_def)
qed

text \<open>A mount gives the root the entries of the drive, cut to 65535 of them, and keeps disk number 0.\<close>

lemma vfs_mount_root:
  assumes "unat disk < length drives" and "d_present (drives ! unat disk)"
    and "d_iterate (drives ! unat disk) [47, 0]
      (s\<lparr>v_first := (set_dir 0 1 0 (v_first s))\<lparr>vn_name := root_name, vn_flags := 15\<rparr>\<rparr>) = ((num, entries), s')"
  shows "\<exists>s''. vfs_mount fuel drives junk root_name disk [47, 0] s = Ok (True, s'') \<and>
    v_first s'' = set_dir (dir_disk_id (v_first s')) (ucast num) entries (v_first s')"
proof -
  have u: "unat (ucast disk :: u32) = unat disk" by (rule unat_u16_up)
  show ?thesis
    using assms by (simp add: vfs_mount_def k_strcmp_def vnode_at_def put_vnode_def FLAGS_PRESENT_def FLAGS_ISDIR_def
        FLAGS_LOADED_def FLAGS_MOUNT_POINT_def drive_iterate_dir_def u)
qed

lemma register_loop_spec:
  assumes "i + n \<le> length drives"
  shows "register_loop drives driver i n = Ok (case find (\<lambda>j. \<not> d_present (drives ! j)) [i..<i + n] of
    None \<Rightarrow> (drives, 0) | Some j \<Rightarrow> (drives[j := driver], j))"
  using assms
proof (induction n arbitrary: i)
  case (Suc n)
  have "[i..<i + Suc n] = i # [Suc i..<Suc i + n]" by (simp add: upt_conv_Cons)
  then show ?case using Suc by (simp only: register_loop.simps find.simps) simp
qed simp

text \<open>
  A drive is registered in the first free of the 16 places and its number returned, and no other place changes.
  When all are taken nothing changes and the number is 0, that of the first drive.
\<close>

theorem drive_registration:
  assumes "length drives = 16"
  shows "fs_driver_register drives driver = Ok (case find (\<lambda>j. \<not> d_present (drives ! j)) [0..<16] of
    None \<Rightarrow> (drives, 0) | Some j \<Rightarrow> (drives[j := driver], j))"
  using register_loop_spec [of 0 16 drives driver] assms by (simp add: fs_driver_register_def del: upt_rec_numeral upt_Suc)

definition quiet_driver :: "unit fs_driver" where
  "quiet_driver = \<lparr>d_present = True, d_inspect = (\<lambda>path s. (vnode0, s)), d_iterate = (\<lambda>path s. ((2, 0x200020), s)),
     d_read = (\<lambda>path offset n s. ((0, 0), s)), d_write = (\<lambda>path offset buf s. (False, s))\<rparr>"

definition vfs0 :: "unit vfs" where
  "vfs0 = \<lparr>v_first = vnode0, v_nodes = (\<lambda>_. vnode0), v_mem = (\<lambda>_. 0), v_dev = ()\<rparr>"

lemma vfs_absolute_paths_witness:
  "\<exists>s. vfs_mount 1 (quiet_driver # replicate 15 (quiet_driver\<lparr>d_present := False\<rparr>)) [] 0x300000 0 [47, 100, 0] vfs0 = Ok (True, s) \<and>
     vfs_inspect 1 (quiet_driver # replicate 15 (quiet_driver\<lparr>d_present := False\<rparr>)) [] [47, 120, 0] s = Ok (First, s) \<and>
     vfs_read 1 (quiet_driver # replicate 15 (quiet_driver\<lparr>d_present := False\<rparr>)) [] [47, 100, 0] 0 10 s = Fault"
proof -
  define drives where "drives = quiet_driver # replicate 15 (quiet_driver\<lparr>d_present := False\<rparr>)"
  have d: "length drives = 16" "drives ! 0 = quiet_driver" by (simp_all add: drives_def)
  have "d_iterate (drives ! unat (0 :: u16)) [47, 0] t = ((2, 0x200020), t)" for t by (simp add: d quiet_driver_def)
  moreover have "unat (0 :: u16) < length drives" "d_present (drives ! unat (0 :: u16))" using d by (simp_all add: quiet_driver_def)
  ultimately obtain s where s: "vfs_mount 1 drives [] 0x300000 0 [47, 0] vfs0 = Ok (True, s)"
    "\<exists>n. v_first s = set_dir 0 2 0x200020 n \<or> v_first s = set_dir (dir_disk_id n) (ucast (2 :: u32)) 0x200020 n"
    using vfs_mount_root [where fuel = 1 and junk = "[]"] by blast
  then have "file_disk_id (v_first s) = 0x20" by auto
  then have "length drives \<le> unat (file_disk_id (v_first s))" using d by simp
  then show ?thesis
    using s(1) vfs_absolute_paths [where path = "[47, 100, 0]" and fuel = 1 and drives = drives and junk = "[]" and s = vfs0 and
          root_name = "0x300000" and disk = 0 and n = 0 and offset = 0 and buf = "(0, 0)"]
      vfs_absolute_paths [where path = "[47, 100, 0]" and fuel = 1 and drives = drives and junk = "[]" and s = s and
          root_name = "0x300000" and disk = 0 and n = 10 and offset = 0 and buf = "(0, 0)"]
      vfs_absolute_paths [where path = "[47, 120, 0]" and fuel = 1 and drives = drives and junk = "[]" and s = s and
          root_name = "0x300000" and disk = 0 and n = 10 and offset = 0 and buf = "(0, 0)"]
    unfolding drives_def [symmetric] by fastforce
qed

lemma drive_registration_witness:
  "fs_driver_register (quiet_driver # replicate 15 (quiet_driver\<lparr>d_present := False\<rparr>)) quiet_driver =
     Ok (quiet_driver # quiet_driver # replicate 14 (quiet_driver\<lparr>d_present := False\<rparr>), 1)"
proof -
  have "length (quiet_driver # replicate 15 (quiet_driver\<lparr>d_present := False\<rparr>)) = 16" by simp
  from drive_registration [OF this, of quiet_driver] show ?thesis
    by (simp add: quiet_driver_def upt_conv_Cons numeral_eq_Suc)
qed

end
