(* ===== verification/Krn_Locks.thy ===== *)
theory Krn_Locks
  imports Prelude
begin

text \<open>
  The locks of the kernel, under interleaving: the spin lock of \<open>base/core/spinlock.cpp\<close> and \<open>spinlock.hpp\<close>, and the
  flag that \<open>logger\<close> (\<open>logging.cpp\<close>) and \<open>bsp_lock\<close> (\<open>madt.cpp\<close>) wait for and then set.  A step relation lets any
  thread do its next access of the shared words; threads are numbers.

  The theory shows that the spin lock excludes and names its holder as long as nobody gives up, what happens when one
  does, and that the flag does not exclude.
\<close>

subsection \<open>The spin lock\<close>

record spinlock_t =
  sl_lock :: int
  sl_last :: u32

definition SPINLOCK_INIT :: spinlock_t where "SPINLOCK_INIT = \<lparr>sl_lock = 0, sl_last = 0\<rparr>"

definition spinlock_test_and_acq :: "spinlock_t \<Rightarrow> bool \<times> spinlock_t" where
  "spinlock_test_and_acq l = (if sl_lock l = 0 then (True, l\<lparr>sl_lock := 1\<rparr>) else (False, l))"

text \<open>
  Where a thread is: outside; in the loop of \<open>spinlock_acquire\<close> after \<open>k\<close> failures; behind the loop, before it has
  written \<open>last_acquirer\<close>; returned with the lock; between the two stores of \<open>spinlock_release\<close>; or returned through the label
  \<open>deadlock\<close>, which its caller cannot tell from a success.
\<close>

datatype spin_pc = Out | Trying nat | Acquired | Held | Releasing | GaveUp

definition deadlock_limit :: nat where "deadlock_limit = 100000000"

text \<open>One round of the loop; then the store behind it.  \<open>ra\<close> is the return address.\<close>

definition acquire_round :: "nat \<Rightarrow> nat \<Rightarrow> spinlock_t \<Rightarrow> spin_pc \<times> spinlock_t" where
  "acquire_round limit k l =
     (case spinlock_test_and_acq l of
       (True, l) \<Rightarrow> (Acquired, l)
     | (False, l) \<Rightarrow> (if limit \<le> k + 1 then GaveUp else Trying (k + 1), l))"

definition acquire_done :: "u32 \<Rightarrow> spinlock_t \<Rightarrow> spin_pc \<times> spinlock_t" where
  "acquire_done ra l = (Held, l\<lparr>sl_last := ra\<rparr>)"

definition release_first :: "spinlock_t \<Rightarrow> spin_pc \<times> spinlock_t" where
  "release_first l = (Releasing, l\<lparr>sl_last := 0\<rparr>)"

definition release_second :: "spinlock_t \<Rightarrow> spin_pc \<times> spinlock_t" where
  "release_second l = (Out, l\<lparr>sl_lock := 0\<rparr>)"

text \<open>The next access of a thread; whoever returned from \<open>spinlock_acquire\<close> calls \<open>spinlock_release\<close> some time.\<close>

fun thread_step :: "nat \<Rightarrow> u32 \<Rightarrow> spin_pc \<Rightarrow> spinlock_t \<Rightarrow> spin_pc \<times> spinlock_t" where
  "thread_step limit ra Out l = (Trying 0, l)"
| "thread_step limit ra (Trying k) l = acquire_round limit k l"
| "thread_step limit ra Acquired l = acquire_done ra l"
| "thread_step limit ra Held l = release_first l"
| "thread_step limit ra GaveUp l = release_first l"
| "thread_step limit ra Releasing l = release_second l"

record spin_state =
  sp_word :: spinlock_t
  sp_pcs :: "nat \<Rightarrow> spin_pc"

definition spin_init :: spin_state where "spin_init = \<lparr>sp_word = SPINLOCK_INIT, sp_pcs = (\<lambda>_. Out)\<rparr>"

definition moved :: "nat \<Rightarrow> (nat \<Rightarrow> u32) \<Rightarrow> nat \<Rightarrow> spin_state \<Rightarrow> spin_state" where
  "moved limit ra t s = (case thread_step limit (ra t) (sp_pcs s t) (sp_word s) of
     (pc, l) \<Rightarrow> \<lparr>sp_word = l, sp_pcs = (sp_pcs s)(t := pc)\<rparr>)"

inductive spin_reach :: "nat \<Rightarrow> (nat \<Rightarrow> u32) \<Rightarrow> spin_state \<Rightarrow> bool" for limit ra where
  spin_start: "spin_reach limit ra spin_init"
| spin_more: "spin_reach limit ra s \<Longrightarrow> spin_reach limit ra (moved limit ra t s)"

text \<open>The states reached without anybody giving up on the way.\<close>

inductive patient_reach :: "nat \<Rightarrow> (nat \<Rightarrow> u32) \<Rightarrow> spin_state \<Rightarrow> bool" for limit ra where
  patient_start: "patient_reach limit ra spin_init"
| patient_more: "patient_reach limit ra s \<Longrightarrow> sp_pcs (moved limit ra t s) t \<noteq> GaveUp \<Longrightarrow>
    patient_reach limit ra (moved limit ra t s)"

definition inside :: "spin_pc \<Rightarrow> bool" where
  "inside pc \<longleftrightarrow> pc = Acquired \<or> pc = Held \<or> pc = Releasing \<or> pc = GaveUp"

text \<open>The lock has an owner, or none.\<close>

definition spin_inv :: "(nat \<Rightarrow> u32) \<Rightarrow> nat option \<Rightarrow> spin_state \<Rightarrow> bool" where
  "spin_inv ra own s \<longleftrightarrow> (\<forall>t. sp_pcs s t \<noteq> GaveUp) \<and> (\<forall>t. inside (sp_pcs s t) \<longleftrightarrow> own = Some t) \<and>
     sl_lock (sp_word s) = (if own = None then 0 else 1) \<and>
     sl_last (sp_word s) = (case own of None \<Rightarrow> 0 | Some t \<Rightarrow> if sp_pcs s t = Held then ra t else 0)"

lemmas step_defs = acquire_round_def acquire_done_def release_first_def release_second_def spinlock_test_and_acq_def

lemma moved_inv:
  assumes "spin_inv ra own s" and "sp_pcs (moved limit ra t s) t \<noteq> GaveUp"
  shows "\<exists>own. spin_inv ra own (moved limit ra t s)"
proof (cases "sp_pcs s t")
  case Out
  then have "own \<noteq> Some t" using assms(1) unfolding spin_inv_def inside_def by (metis spin_pc.distinct)
  with assms(1) Out have "spin_inv ra own (moved limit ra t s)"
    by (auto simp: spin_inv_def moved_def inside_def split: option.split)
  then show ?thesis ..
next
  case (Trying k)
  then have o: "own \<noteq> Some t" using assms(1) by (metis inside_def spin_inv_def spin_pc.distinct)
  show ?thesis
  proof (cases own)
    case None
    with assms(1) Trying have "spin_inv ra (Some t) (moved limit ra t s)"
      by (auto simp: spin_inv_def moved_def inside_def step_defs)
    then show ?thesis ..
  next
    case (Some u)
    with assms(1,2) Trying o have "spin_inv ra own (moved limit ra t s)"
      by (auto simp: spin_inv_def moved_def inside_def step_defs)
    then show ?thesis ..
  qed
next
  case Acquired
  then have o: "own = Some t" using assms(1) by (metis inside_def spin_inv_def)
  with assms(1) Acquired have "spin_inv ra own (moved limit ra t s)" by (auto simp: spin_inv_def moved_def inside_def step_defs)
  then show ?thesis ..
next
  case Held
  then have o: "own = Some t" using assms(1) by (metis inside_def spin_inv_def)
  with assms(1) Held have "spin_inv ra own (moved limit ra t s)" by (auto simp: spin_inv_def moved_def inside_def step_defs)
  then show ?thesis ..
next
  case Releasing
  then have o: "own = Some t" using assms(1) by (metis inside_def spin_inv_def)
  with assms(1) Releasing have "spin_inv ra None (moved limit ra t s)" by (auto simp: spin_inv_def moved_def inside_def step_defs)
  then show ?thesis ..
next
  case GaveUp
  then show ?thesis using assms(1) by (simp add: spin_inv_def)
qed

lemma patient_inv: "patient_reach limit ra s \<Longrightarrow> \<exists>own. spin_inv ra own s"
proof (induction rule: patient_reach.induct)
  case patient_start
  have "spin_inv ra None spin_init" by (simp add: spin_inv_def spin_init_def SPINLOCK_INIT_def inside_def)
  then show ?case ..
next
  case (patient_more s t)
  then show ?case using moved_inv by blast
qed

subsection \<open>A thread that gives up\<close>

text \<open>The states with threads 0, 1 and 2 under way.\<close>

definition three :: "int \<Rightarrow> u32 \<Rightarrow> spin_pc \<Rightarrow> spin_pc \<Rightarrow> spin_pc \<Rightarrow> spin_state" where
  "three w la p0 p1 p2 = \<lparr>sp_word = \<lparr>sl_lock = w, sl_last = la\<rparr>, sp_pcs = (\<lambda>_. Out)(0 := p0, 1 := p1, 2 := p2)\<rparr>"

lemma spin_init_three: "spin_init = three 0 0 Out Out Out"
  by (auto simp: spin_init_def three_def SPINLOCK_INIT_def)

lemma moved_three:
  "moved limit ra 0 (three w la p0 p1 p2) =
    (case thread_step limit (ra 0) p0 \<lparr>sl_lock = w, sl_last = la\<rparr> of (pc, l) \<Rightarrow> three (sl_lock l) (sl_last l) pc p1 p2)"
  "moved limit ra 1 (three w la p0 p1 p2) =
    (case thread_step limit (ra 1) p1 \<lparr>sl_lock = w, sl_last = la\<rparr> of (pc, l) \<Rightarrow> three (sl_lock l) (sl_last l) p0 pc p2)"
  "moved limit ra 2 (three w la p0 p1 p2) =
    (case thread_step limit (ra 2) p2 \<lparr>sl_lock = w, sl_last = la\<rparr> of (pc, l) \<Rightarrow> three (sl_lock l) (sl_last l) p0 p1 pc)"
  by (auto simp: moved_def three_def fun_eq_iff split: prod.split)

lemmas moves = moved_three moved_three(2) [unfolded One_nat_def]

lemma three_pcs [simp]:
  "sp_pcs (three w la p0 p1 p2) 0 = p0" "sp_pcs (three w la p0 p1 p2) (Suc 0) = p1" "sp_pcs (three w la p0 p1 p2) 2 = p2"
  "sp_word (three w la p0 p1 p2) = \<lparr>sl_lock = w, sl_last = la\<rparr>"
  by (simp_all add: three_def)

lemma holder_waited_for:
  assumes "k < limit"
  shows "spin_reach limit ra (three 1 (ra 0) Held (Trying k) Out)"
  using assms
proof (induction k)
  case 0
  have "spin_reach limit ra (three 0 0 Out Out Out)" using spin_start [of limit ra] by (simp add: spin_init_three)
  from spin_more [OF spin_more [OF spin_more [OF spin_more [OF this, of 0], of 0], of 0], of 1]
  show ?case by (simp add: moves step_defs)
next
  case (Suc k)
  from spin_more [OF Suc.IH, of 1] Suc.prems show ?case by (simp add: moves step_defs)
qed

lemma gave_up_reached: "0 < limit \<Longrightarrow> spin_reach limit ra (three 1 (ra 0) Held GaveUp Out)"
  using spin_more [OF holder_waited_for [of "limit - 1" limit ra], of 1] by (simp add: moves step_defs)

lemma two_holders: "0 < limit \<Longrightarrow> spin_reach limit ra (three 1 (ra 2) Held Out Held)"
  using spin_more [OF spin_more [OF spin_more [OF spin_more [OF spin_more [OF gave_up_reached [of limit ra], of 1], of 1], of 2], of 2], of 2]
  by (simp add: moves step_defs)

text \<open>
  The spin lock: as long as no thread has given up, at most one is behind \<open>spinlock_acquire\<close>, the word is free exactly
  when none is, and \<open>last_acquirer\<close> is the return address of the one that has the lock.  A thread that fails
  100000000 times returns as if it had the lock, and its release frees the lock of another: a state can be
  reached in which it has left and two threads hold the lock, both by the atomic exchange.
\<close>

theorem spinlock_exclusive_until_timeout:
  "(\<forall>s. patient_reach deadlock_limit ra s \<longrightarrow>
      (\<forall>t u. inside (sp_pcs s t) \<and> inside (sp_pcs s u) \<longrightarrow> t = u) \<and>
      (sl_lock (sp_word s) = 0 \<longleftrightarrow> (\<forall>t. \<not> inside (sp_pcs s t))) \<and>
      (\<forall>t. sp_pcs s t = Held \<longrightarrow> sl_last (sp_word s) = ra t)) \<and>
   (\<exists>s. spin_reach deadlock_limit ra s \<and> sp_pcs s 0 = Held \<and> sp_pcs s 1 = GaveUp) \<and>
   (\<exists>s. spin_reach deadlock_limit ra s \<and> sp_pcs s 0 = Held \<and> sp_pcs s 1 = Out \<and> sp_pcs s 2 = Held)"
proof (intro conjI)
  have safe: "(inside (sp_pcs s t) \<and> inside (sp_pcs s u) \<longrightarrow> t = u) \<and>
      (sl_lock (sp_word s) = 0 \<longleftrightarrow> (\<forall>t. \<not> inside (sp_pcs s t))) \<and> (sp_pcs s t = Held \<longrightarrow> sl_last (sp_word s) = ra t)"
    if r: "patient_reach deadlock_limit ra s" for s t u
  proof -
    obtain own where i: "spin_inv ra own s" using patient_inv [OF r] ..
    then have "sp_pcs s t = Held \<longrightarrow> own = Some t" unfolding spin_inv_def inside_def by metis
    with i show ?thesis by (cases own) (auto simp: spin_inv_def)
  qed
  then show "\<forall>s. patient_reach deadlock_limit ra s \<longrightarrow>
      (\<forall>t u. inside (sp_pcs s t) \<and> inside (sp_pcs s u) \<longrightarrow> t = u) \<and>
      (sl_lock (sp_word s) = 0 \<longleftrightarrow> (\<forall>t. \<not> inside (sp_pcs s t))) \<and>
      (\<forall>t. sp_pcs s t = Held \<longrightarrow> sl_last (sp_word s) = ra t)" by blast
  have l: "0 < deadlock_limit" by (simp add: deadlock_limit_def)
  show "\<exists>s. spin_reach deadlock_limit ra s \<and> sp_pcs s 0 = Held \<and> sp_pcs s 1 = GaveUp"
    by (rule exI [of _ "three 1 (ra 0) Held GaveUp Out"]) (simp add: gave_up_reached [OF l])
  show "\<exists>s. spin_reach deadlock_limit ra s \<and> sp_pcs s 0 = Held \<and> sp_pcs s 1 = Out \<and> sp_pcs s 2 = Held"
    by (rule exI [of _ "three 1 (ra 2) Held Out Held"]) (simp add: two_holders [OF l])
qed

text \<open>Threads 0 and 1 compete, thread 0 wins and has its name in the lock.\<close>

lemma spinlock_exclusive_until_timeout_witness:
  "\<exists>s. patient_reach deadlock_limit (\<lambda>t. of_nat t + 0x1000) s \<and> sp_pcs s 0 = Held \<and> sp_pcs s 1 = Trying 1 \<and> sl_last (sp_word s) = 0x1000"
proof -
  let ?ra = "\<lambda>t. of_nat t + 0x1000 :: u32" and ?l = deadlock_limit
  have "patient_reach ?l ?ra (three 0 0 Out Out Out)" using patient_start [of ?l ?ra] by (simp add: spin_init_three)
  from patient_more [OF this, of 0] have "patient_reach ?l ?ra (three 0 0 (Trying 0) Out Out)"
    by (simp add: moves)
  from patient_more [OF this, of 1] have "patient_reach ?l ?ra (three 0 0 (Trying 0) (Trying 0) Out)"
    by (simp add: moves)
  from patient_more [OF this, of 0] have "patient_reach ?l ?ra (three 1 0 Acquired (Trying 0) Out)"
    by (simp add: moves step_defs)
  from patient_more [OF this, of 1] have "patient_reach ?l ?ra (three 1 0 Acquired (Trying 1) Out)"
    by (simp add: moves step_defs deadlock_limit_def)
  from patient_more [OF this, of 0] have r: "patient_reach ?l ?ra (three 1 0x1000 Held (Trying 1) Out)"
    by (simp add: moves step_defs)
  have p: "sp_pcs (three 1 0x1000 Held (Trying 1) Out) 0 = Held" "sp_pcs (three 1 0x1000 Held (Trying 1) Out) 1 = Trying 1"
    by simp_all
  have "sl_last (sp_word (three 1 0x1000 Held (Trying 1) Out)) = ?ra 0"
    using spinlock_exclusive_until_timeout [of ?ra] r p(1) by blast
  then show ?thesis using r p by (intro exI [of _ "three 1 0x1000 Held (Trying 1) Out"]) simp
qed

subsection \<open>The flag\<close>

text \<open>\<open>while (flag); flag = true;\<close> reads the flag and sets it in two accesses.\<close>

datatype flag_pc = Waiting | Passed | Inside | Gone

record flag_state =
  fl_flag :: bool
  fl_pcs :: "nat \<Rightarrow> flag_pc"

fun flag_step :: "flag_pc \<Rightarrow> bool \<Rightarrow> flag_pc \<times> bool" where
  "flag_step Waiting flag = (if flag then Waiting else Passed, flag)"
| "flag_step Passed flag = (Inside, True)"
| "flag_step Inside flag = (Gone, False)"
| "flag_step Gone flag = (Gone, flag)"

definition flag_move :: "nat \<Rightarrow> flag_state \<Rightarrow> flag_state" where
  "flag_move t s = (case flag_step (fl_pcs s t) (fl_flag s) of (pc, flag) \<Rightarrow> \<lparr>fl_flag = flag, fl_pcs = (fl_pcs s)(t := pc)\<rparr>)"

definition flag_init :: flag_state where "flag_init = \<lparr>fl_flag = False, fl_pcs = (\<lambda>_. Waiting)\<rparr>"

text \<open>Two threads that read the flag before either sets it are both inside.\<close>

lemma flag_admits_two:
  "(let s = foldl (\<lambda>s t. flag_move t s) flag_init [0, 1, 0, 1] in fl_pcs s 0 = Inside \<and> fl_pcs s 1 = Inside)"
  by (simp add: Let_def flag_move_def flag_init_def)

end
