(* ===== verification/Krn_Madt.thy ===== *)
theory Krn_Madt
  imports Krn_Acpi Krn_Memory Lai_Ec Lai_Power
begin

text \<open>
  The start of the other processors, \<open>base/other/madt.cpp\<close>: the walk over the records of the MADT, the commands sent through the
  local APIC, with the wait on the PM timer of the interpreter between them, and the part of \<open>trampoline.S\<close> and
  \<open>ap_startup\<close> that counts the processors.  The walk reads the memory of the kernel, the local APIC and the timer
  are devices, and the processor that executes this is number \<open>bspid\<close>.

  The theory shows which processors are told to start, and that the count at the end is not reliable.
\<close>

subsection \<open>The table\<close>

definition APIC_TYPE_LOCAL_APIC :: u8 where "APIC_TYPE_LOCAL_APIC = 0"
definition APIC_TYPE_IO_APIC :: u8 where "APIC_TYPE_IO_APIC = 1"
definition APIC_TYPE_INTERRUPT_OVERRIDE :: u8 where "APIC_TYPE_INTERRUPT_OVERRIDE = 2"

definition typetostr :: "u8 \<Rightarrow> string" where
  "typetostr t =
     (if t = APIC_TYPE_LOCAL_APIC then ''LAPIC''
      else if t = APIC_TYPE_IO_APIC then ''IOAPIC''
      else if t = APIC_TYPE_INTERRUPT_OVERRIDE then ''Interrupt override''
      else ''Unknown'')"

definition rec_type :: "kernel_mem \<Rightarrow> u32 \<Rightarrow> u8" where "rec_type mem p = mem p"
definition rec_len :: "kernel_mem \<Rightarrow> u32 \<Rightarrow> u8" where "rec_len mem p = mem (p + 1)"
definition rec_apic_id :: "kernel_mem \<Rightarrow> u32 \<Rightarrow> u8" where "rec_apic_id mem p = mem (p + 3)"
definition madt_length :: "kernel_mem \<Rightarrow> u32 \<Rightarrow> u32" where "madt_length mem madt = mem_le32 mem (madt + 4)"
definition madt_lapic_addr :: "kernel_mem \<Rightarrow> u32 \<Rightarrow> u32" where "madt_lapic_addr mem madt = mem_le32 mem (madt + 36)"

text \<open>\<open>while (p < end)\<close>; a record of length 0 is read again and again.  \<open>lapic_ids\<close> has 256 places.\<close>

fun madt_walk :: "nat \<Rightarrow> kernel_mem \<Rightarrow> u32 \<Rightarrow> u32 \<Rightarrow> u8 list \<Rightarrow> nat \<Rightarrow> (u8 list \<times> nat) outcome" where
  "madt_walk 0 mem p bound lapic_ids numcores = Stuck"
| "madt_walk (Suc fuel) mem p bound lapic_ids numcores =
     (if p < bound then
        bnd (if rec_type mem p = APIC_TYPE_LOCAL_APIC
             then bnd (wr lapic_ids numcores (rec_apic_id mem p)) (\<lambda>ids. Ok (ids, numcores + 1))
             else Ok (lapic_ids, numcores)) (\<lambda>(ids, numcores).
        madt_walk fuel mem (p + ucast (rec_len mem p)) bound ids numcores)
      else Ok (lapic_ids, numcores))"

subsection \<open>Commands\<close>

fun wait_delivery :: "nat \<Rightarrow> 'd machine \<Rightarrow> u32 \<Rightarrow> 'd lai_world \<Rightarrow> 'd lai_world outcome" where
  "wait_delivery 0 m lapic w = Stuck"
| "wait_delivery (Suc fuel) m lapic w =
     (case load32 m (lapic + 0x300) (dev w) of (v, d) \<Rightarrow>
      if v AND 0x1000 \<noteq> 0 then wait_delivery fuel m lapic (w\<lparr>dev := d\<rparr>) else Ok (w\<lparr>dev := d\<rparr>))"

definition clear_apic_errors :: "'d machine \<Rightarrow> u32 \<Rightarrow> 'd lai_world \<Rightarrow> 'd lai_world" where
  "clear_apic_errors m lapic w = w\<lparr>dev := store32 m (lapic + 0x280) 0 (dev w)\<rparr>"

definition select_ap :: "'d machine \<Rightarrow> u32 \<Rightarrow> nat \<Rightarrow> 'd lai_world \<Rightarrow> 'd lai_world" where
  "select_ap m lapic i w =
     (case load32 m (lapic + 0x310) (dev w) of (v, d) \<Rightarrow>
      w\<lparr>dev := store32 m (lapic + 0x310) ((v AND 0x00FFFFFF) OR push_bit 24 (of_nat i)) d\<rparr>)"

definition send_command :: "'d machine \<Rightarrow> u32 \<Rightarrow> u32 \<Rightarrow> u32 \<Rightarrow> 'd lai_world \<Rightarrow> 'd lai_world" where
  "send_command m lapic keep command w =
     (case load32 m (lapic + 0x300) (dev w) of (v, d) \<Rightarrow>
      w\<lparr>dev := store32 m (lapic + 0x300) ((v AND keep) OR command) d\<rparr>)"

text \<open>STARTUP, \<open>n\<close> times.\<close>

fun send_startup :: "nat \<Rightarrow> 'd machine \<Rightarrow> u32 \<Rightarrow> nat \<Rightarrow> nat \<Rightarrow> 'd lai_world \<Rightarrow> 'd lai_world outcome" where
  "send_startup fuel m lapic i 0 w = Ok w"
| "send_startup fuel m lapic i (Suc n) w =
     (let w = clear_apic_errors m lapic w;
          w = select_ap m lapic i w;
          w = send_command m lapic 0xFFF0F800 0x000608 w in
      bnd (wait_delivery fuel m lapic w) (send_startup fuel m lapic i n))"

definition start_cpu :: "nat \<Rightarrow> 'd exec_env \<Rightarrow> lai_timer \<Rightarrow> 'd machine \<Rightarrow> u32 \<Rightarrow> nat \<Rightarrow> 'd lai_world \<Rightarrow> 'd lai_world outcome" where
  "start_cpu fuel env tm m lapic i w =
     (let w = clear_apic_errors m lapic w;
          w = select_ap m lapic i w;
          w = send_command m lapic 0xFFF00000 0x00C500 w in
      bnd (wait_delivery fuel m lapic w) (\<lambda>w.
      let w = select_ap m lapic i w;
          w = send_command m lapic 0xFFF00000 0x008500 w in
      bnd (wait_delivery fuel m lapic w) (\<lambda>w.
      bnd (lai_busy_wait_pm_timer fuel env tm w 10) (\<lambda>(_, w).
      send_startup fuel m lapic i 2 w))))"

fun start_cpus :: "nat \<Rightarrow> 'd exec_env \<Rightarrow> lai_timer \<Rightarrow> 'd machine \<Rightarrow> u32 \<Rightarrow> u8 \<Rightarrow> u8 list \<Rightarrow> nat \<Rightarrow> nat \<Rightarrow> 'd lai_world \<Rightarrow> 'd lai_world outcome" where
  "start_cpus fuel env tm m lapic bspid ids i 0 w = Ok w"
| "start_cpus fuel env tm m lapic bspid ids i (Suc n) w =
     bnd (rd ids i) (\<lambda>id.
     bnd (if id = bspid then Ok w else start_cpu fuel env tm m lapic i w)
       (start_cpus fuel env tm m lapic bspid ids (Suc i) n))"

text \<open>
  \<open>madt_setup\<close> up to the release of the processors: \<open>None\<close> without a table.  \<open>ap_code\<close> is the address of
  \<open>ap_trampoline\<close>.
\<close>

definition madt_setup :: "nat \<Rightarrow> 'd exec_env \<Rightarrow> lai_timer \<Rightarrow> 'd machine \<Rightarrow> kernel_mem \<Rightarrow> acpi_glue \<Rightarrow> u32 \<Rightarrow> u8 \<Rightarrow> 'd lai_world \<Rightarrow>
    ((u8 list \<times> nat \<times> kernel_mem) option \<times> 'd lai_world) outcome" where
  "madt_setup fuel env tm m mem g ap_code bspid w =
     bnd (GetTable mem g (signature ''APIC'') 0) (\<lambda>madt.
     if madt = 0 then Ok (None, w)
     else
       let lapic = madt_lapic_addr mem madt in
       bnd (madt_walk fuel mem (madt + 44) (madt + madt_length mem madt) (replicate 256 0) 0) (\<lambda>(ids, numcores).
       let mem = mem_copy mem 0x8000 ap_code 4096 in
       bnd (start_cpus fuel env tm m lapic bspid ids 0 numcores w) (\<lambda>w.
       Ok (Some (ids, numcores, mem), w))))"

subsection \<open>The contract of the devices\<close>

text \<open>
  A local APIC as its owner sees it: the destination and the command written last, and the commands sent so far with
  their destinations, as far as bits 0 to 11 and 13 to 19 of the command register go.  Bit 12 tells that a command is being
  delivered, which ends after finitely many reads.
\<close>

record lapic_view =
  lv_dest :: u32
  lv_cmd :: u32
  lv_sent :: "(u8 \<times> u32) list"

definition command_bits :: "u32 \<Rightarrow> u32" where "command_bits v = v AND 0x000FEFFF"

definition lapic_laws :: "'d machine \<Rightarrow> u32 \<Rightarrow> ('d \<Rightarrow> lapic_view) \<Rightarrow> ('d \<Rightarrow> nat) \<Rightarrow> bool" where
  "lapic_laws m lapic seen pend \<longleftrightarrow>
     (\<forall>d v. seen (store32 m (lapic + 0x280) v d) = seen d) \<and>
     (\<forall>d v. seen (store32 m (lapic + 0x310) v d) = (seen d)\<lparr>lv_dest := v\<rparr>) \<and>
     (\<forall>d v. seen (store32 m (lapic + 0x300) v d) = (seen d)\<lparr>lv_cmd := command_bits v,
        lv_sent := lv_sent (seen d) @ [(ucast (drop_bit 24 (lv_dest (seen d))), command_bits v)]\<rparr>) \<and>
     (\<forall>d v d'. load32 m (lapic + 0x310) d = (v, d') \<longrightarrow> seen d' = seen d) \<and>
     (\<forall>d v d'. load32 m (lapic + 0x300) d = (v, d') \<longrightarrow> command_bits v = lv_cmd (seen d) \<and> seen d' = seen d \<and>
        (v AND 0x1000 \<noteq> 0 \<longrightarrow> pend d' < pend d))"

text \<open>The busy wait of 10 ms always ends and does not touch the local APIC.\<close>

definition timer_waits :: "'d exec_env \<Rightarrow> lai_timer \<Rightarrow> ('d \<Rightarrow> lapic_view) \<Rightarrow> bool" where
  "timer_waits env tm seen \<longleftrightarrow>
     (\<forall>w. ends (\<lambda>fuel. lai_busy_wait_pm_timer fuel env tm w 10) (\<lambda>(e, w'). seen (dev w') = seen (dev w)))"

text \<open>A timer that goes on by one tick from read to read has this property.\<close>

lemma unit_goal_ends:
  assumes read: "\<And>w. \<exists>d. lai_read_pm_timer_value env tm w = Ok (of_nat (clock (dev w)), w\<lparr>dev := d\<rparr>) \<and>
      clock d = Suc (clock (dev w)) \<and> seen d = seen (dev w)"
  shows "ends (\<lambda>fuel. wait_goal fuel env tm goal w) (\<lambda>w'. seen (dev w') = seen (dev w))"
proof (induction "unat (goal - of_nat (clock (dev w)))" arbitrary: w rule: less_induct)
  case less
  from read [of w] obtain d where d: "lai_read_pm_timer_value env tm w = Ok (of_nat (clock (dev w)), w\<lparr>dev := d\<rparr>)"
    "clock d = Suc (clock (dev w))" "seen d = seen (dev w)" by blast
  show ?case
  proof (cases "of_nat (clock (dev w)) < goal")
    case True
    have "unat (goal - of_nat (clock d)) < unat (goal - of_nat (clock (dev w)))"
    proof -
      have "goal - of_nat (clock d) = goal - of_nat (clock (dev w)) - 1" by (simp add: d(2))
      moreover have "goal - of_nat (clock (dev w)) \<noteq> 0" using True by auto
      ultimately show ?thesis by (metis unat_minus_one diff_less unat_gt_0 zero_less_one)
    qed
    with less.hyps [of "w\<lparr>dev := d\<rparr>"] d(3)
    have "ends (\<lambda>fuel. wait_goal fuel env tm goal (w\<lparr>dev := d\<rparr>)) (\<lambda>w'. seen (dev w') = seen (dev w))" by simp
    then obtain f x where x: "seen (dev x) = seen (dev w)" "\<And>fuel. f \<le> fuel \<Longrightarrow> wait_goal fuel env tm goal (w\<lparr>dev := d\<rparr>) = Ok x"
      unfolding ends_def by blast
    show ?thesis
      by (rule endsI [where f = "Suc f" and x = x]) (simp_all add: d(1) True x)
  next
    case False
    then show ?thesis by (intro endsI [where f = 1 and x = "w\<lparr>dev := d\<rparr>"]) (simp_all add: d(1,3))
  qed
qed

lemma unit_timer_waits:
  assumes read: "\<And>w. \<exists>d. lai_read_pm_timer_value env tm w = Ok (of_nat (clock (dev w)), w\<lparr>dev := d\<rparr>) \<and>
      clock d = Suc (clock (dev w)) \<and> seen d = seen (dev w)"
  shows "timer_waits env tm seen"
  unfolding timer_waits_def
proof
  fix w
  show "ends (\<lambda>fuel. lai_busy_wait_pm_timer fuel env tm w 10) (\<lambda>(e, w'). seen (dev w') = seen (dev w))"
  proof (cases "supported tm")
    case True
    from read [of w] obtain d where d: "lai_read_pm_timer_value env tm w = Ok (of_nat (clock (dev w)), w\<lparr>dev := d\<rparr>)"
      "seen d = seen (dev w)" by blast
    let ?goal = "ucast (ucast (of_nat (clock (dev w)) :: u32) + 10 * 3580 :: u64) :: u32"
    show ?thesis
    proof (cases "\<not> extended_timer tm \<and> 0xFFFFFF < ?goal")
      case True': True
      show ?thesis unfolding lai_busy_wait_pm_timer_def d(1) Let_def bnd.simps prod.case using True True' d(2)
        by (intro endsI [where f = 0 and x = "(LAI_ERROR_UNSUPPORTED, w\<lparr>dev := d\<rparr>)"]) simp_all
    next
      case False
      have "ends (\<lambda>fuel. bnd (wait_goal fuel env tm ?goal (w\<lparr>dev := d\<rparr>)) (\<lambda>w. Ok (LAI_ERROR_NONE, w)))
        (\<lambda>(e, w'). seen (dev w') = seen (dev w))"
        by (rule ends_bnd [OF unit_goal_ends [of env tm clock seen, OF read]]) (simp add: d(2) ends_Ok)
      moreover have "(\<not> extended_timer tm \<and> 0xFFFFFF < ?goal) = False" using False by blast
      ultimately show ?thesis
        by (simp only: lai_busy_wait_pm_timer_def True d(1) Let_def bnd.simps prod.case if_False not_True_eq_False)
    qed
  next
    case False
    then show ?thesis by (intro endsI [where f = 0 and x = "(LAI_ERROR_UNSUPPORTED, w)"]) (simp_all add: lai_busy_wait_pm_timer_def)
  qed
qed

subsection \<open>Sending\<close>

lemma dest_of_index: "ucast (drop_bit 24 ((v AND 0x00FFFFFF) OR push_bit 24 (of_nat i)) :: u32) = (of_nat i :: u8)"
proof -
  have m: "(0x00FFFFFF :: u32) = mask 24" by (simp add: mask_eq_exp_minus_1)
  show ?thesis unfolding m by (rule bit_word_eqI) (auto simp: bit_simps)
qed

lemma command_of:
  "command_bits ((v AND 0xFFF00000) OR c) = command_bits c"
  "command_bits ((v AND 0xFFF0F800) OR c) = (command_bits v AND 0xF800) OR command_bits c"
proof -
  have "(v AND 0xFFF00000) AND 0xFEFFF = v AND (0xFFF00000 AND 0xFEFFF)" by (rule and.assoc)
  also have "\<dots> = 0" by simp
  finally show "command_bits ((v AND 0xFFF00000) OR c) = command_bits c"
    by (simp only: command_bits_def bit.conj_disj_distrib2 or.left_neutral)
  have "(v AND 0xFFF0F800) AND 0xFEFFF = v AND (0xFFF0F800 AND 0xFEFFF)" by (rule and.assoc)
  also have "\<dots> = v AND (0xFEFFF AND 0xF800)" by simp
  also have "\<dots> = (v AND 0xFEFFF) AND 0xF800" by (rule and.assoc [symmetric])
  finally show "command_bits ((v AND 0xFFF0F800) OR c) = (command_bits v AND 0xF800) OR command_bits c"
    by (simp only: command_bits_def bit.conj_disj_distrib2)
qed

lemma command_constants:
  "command_bits 0x00C500 = 0xC500" "command_bits 0x008500 = 0x8500" "command_bits 0x000608 = 0x608"
  by (simp_all add: command_bits_def)

lemma clear_errors_view: "lapic_laws m lapic seen pend \<Longrightarrow> seen (dev (clear_apic_errors m lapic w)) = seen (dev w)"
  by (simp add: lapic_laws_def clear_apic_errors_def)

lemma select_ap_view:
  assumes "lapic_laws m lapic seen pend"
  shows "\<exists>v. seen (dev (select_ap m lapic i w)) = (seen (dev w))\<lparr>lv_dest := v\<rparr> \<and> ucast (drop_bit 24 v) = (of_nat i :: u8)"
proof -
  obtain v d where l: "load32 m (lapic + 0x310) (dev w) = (v, d)" by (cases "load32 m (lapic + 0x310) (dev w)")
  then have "seen d = seen (dev w)" using assms unfolding lapic_laws_def by blast
  then show ?thesis using assms l dest_of_index [of v i] by (auto simp: lapic_laws_def select_ap_def)
qed

lemma send_command_view:
  assumes "lapic_laws m lapic seen pend"
  shows "\<exists>v. command_bits v = lv_cmd (seen (dev w)) \<and> seen (dev (send_command m lapic keep c w)) =
    (seen (dev w))\<lparr>lv_cmd := command_bits ((v AND keep) OR c),
      lv_sent := lv_sent (seen (dev w)) @ [(ucast (drop_bit 24 (lv_dest (seen (dev w)))), command_bits ((v AND keep) OR c))]\<rparr>"
proof -
  obtain v d where l: "load32 m (lapic + 0x300) (dev w) = (v, d)" by (cases "load32 m (lapic + 0x300) (dev w)")
  then have "seen d = seen (dev w)" "command_bits v = lv_cmd (seen (dev w))" using assms unfolding lapic_laws_def by blast+
  then show ?thesis using assms l by (intro exI [of _ v]) (simp add: lapic_laws_def send_command_def)
qed

lemma wait_delivery_ends:
  assumes "lapic_laws m lapic seen pend"
  shows "ends (\<lambda>fuel. wait_delivery fuel m lapic w) (\<lambda>w'. seen (dev w') = seen (dev w))"
proof (induction "pend (dev w)" arbitrary: w rule: less_induct)
  case less
  obtain v d where l: "load32 m (lapic + 0x300) (dev w) = (v, d)" by (cases "load32 m (lapic + 0x300) (dev w)")
  then have v: "seen d = seen (dev w)" "v AND 0x1000 \<noteq> 0 \<Longrightarrow> pend d < pend (dev w)" using assms unfolding lapic_laws_def by blast+
  show ?case
  proof (cases "v AND 0x1000 = 0")
    case True
    then show ?thesis using l v(1) by (intro endsI [where f = 1 and x = "w\<lparr>dev := d\<rparr>"]) simp_all
  next
    case False
    with less.hyps [of "w\<lparr>dev := d\<rparr>"] v
    obtain f x where x: "seen (dev x) = seen (dev w)" "\<And>fuel. f \<le> fuel \<Longrightarrow> wait_delivery fuel m lapic (w\<lparr>dev := d\<rparr>) = Ok x"
      unfolding ends_def by auto
    show ?thesis by (rule endsI [where f = "Suc f" and x = x]) (simp_all add: l False x)
  qed
qed

definition ap_dest :: "lapic_view \<Rightarrow> u8" where "ap_dest x = ucast (drop_bit 24 (lv_dest x))"

text \<open>Selecting a processor and sending a command, from what the local APIC shows to what it shows then.\<close>

lemma select_send:
  assumes "lapic_laws m lapic seen pend"
  shows "\<exists>c'. seen (dev (send_command m lapic keep c (select_ap m lapic i w))) =
      \<lparr>lv_dest = c', lv_cmd = lv_cmd (seen (dev (send_command m lapic keep c (select_ap m lapic i w)))),
       lv_sent = lv_sent (seen (dev w)) @ [(of_nat i, lv_cmd (seen (dev (send_command m lapic keep c (select_ap m lapic i w)))))]\<rparr>"
    and "keep = 0xFFF00000 \<Longrightarrow> lv_cmd (seen (dev (send_command m lapic keep c (select_ap m lapic i w)))) = command_bits c"
    and "keep = 0xFFF0F800 \<Longrightarrow> lv_cmd (seen (dev (send_command m lapic keep c (select_ap m lapic i w)))) =
      (lv_cmd (seen (dev w)) AND 0xF800) OR command_bits c"
proof -
  obtain v where v: "seen (dev (select_ap m lapic i w)) = (seen (dev w))\<lparr>lv_dest := v\<rparr>" "ucast (drop_bit 24 v) = (of_nat i :: u8)"
    using select_ap_view [OF assms, of i w] by blast
  obtain u where u: "command_bits u = lv_cmd (seen (dev w))"
    "seen (dev (send_command m lapic keep c (select_ap m lapic i w))) = (seen (dev w))\<lparr>lv_dest := v,
      lv_cmd := command_bits ((u AND keep) OR c), lv_sent := lv_sent (seen (dev w)) @ [(of_nat i, command_bits ((u AND keep) OR c))]\<rparr>"
    using send_command_view [OF assms, of "select_ap m lapic i w" keep c] v by auto
  show "\<exists>c'. seen (dev (send_command m lapic keep c (select_ap m lapic i w))) =
      \<lparr>lv_dest = c', lv_cmd = lv_cmd (seen (dev (send_command m lapic keep c (select_ap m lapic i w)))),
       lv_sent = lv_sent (seen (dev w)) @ [(of_nat i, lv_cmd (seen (dev (send_command m lapic keep c (select_ap m lapic i w)))))]\<rparr>"
    unfolding u(2) by (cases "seen (dev w)") simp
  show "keep = 0xFFF00000 \<Longrightarrow> lv_cmd (seen (dev (send_command m lapic keep c (select_ap m lapic i w)))) = command_bits c"
    unfolding u(2) by (simp only: command_of lapic_view.simps lapic_view.update_convs)  simp
  show "keep = 0xFFF0F800 \<Longrightarrow> lv_cmd (seen (dev (send_command m lapic keep c (select_ap m lapic i w)))) =
      (lv_cmd (seen (dev w)) AND 0xF800) OR command_bits c"
    unfolding u(2) u(1) [symmetric] using command_of(2) [of u c] by simp
qed

text \<open>What is shown after a command has been delivered.\<close>

lemma delivered:
  assumes "lapic_laws m lapic seen pend" and "cmd = (if keep = 0xFFF00000 then command_bits c else (lv_cmd (seen (dev w)) AND 0xF800) OR command_bits c)"
    and "keep = 0xFFF00000 \<or> keep = 0xFFF0F800"
  shows "ends (\<lambda>fuel. wait_delivery fuel m lapic (send_command m lapic keep c (select_ap m lapic i w)))
    (\<lambda>w'. lv_sent (seen (dev w')) = lv_sent (seen (dev w)) @ [(of_nat i, cmd)] \<and> lv_cmd (seen (dev w')) = cmd)"
proof (rule ends_mono [OF wait_delivery_ends [OF assms(1)]])
  fix w' assume w': "seen (dev w') = seen (dev (send_command m lapic keep c (select_ap m lapic i w)))"
  note s = select_send [OF assms(1), of keep c i w]
  have c: "lv_cmd (seen (dev w')) = cmd" using s(2,3) assms(2,3) unfolding w' by auto
  show "lv_sent (seen (dev w')) = lv_sent (seen (dev w)) @ [(of_nat i, cmd)] \<and> lv_cmd (seen (dev w')) = cmd"
    using s(1) c unfolding w' by (metis lapic_view.select_convs(3))
qed

definition init_sequence :: "nat \<Rightarrow> (u8 \<times> u32) list" where
  "init_sequence i = [(of_nat i, 0xC500), (of_nat i, 0x8500), (of_nat i, 0x8608), (of_nat i, 0x8608)]"

lemma send_startup_ends:
  fixes m :: "'d machine"
  assumes "lapic_laws m lapic seen pend" and "lv_cmd (seen (dev w)) AND 0xF800 = 0x8000"
  shows "ends (\<lambda>fuel. send_startup fuel m lapic i n w)
    (\<lambda>w'. lv_sent (seen (dev w')) = lv_sent (seen (dev w)) @ replicate n (of_nat i, 0x8608))"
  using assms(2)
proof (induction n arbitrary: w)
  case 0
  then show ?case by (simp add: ends_Ok)
next
  case (Suc n)
  note c = clear_errors_view [OF assms(1), of w]
  have cmd: "(0x8608 :: u32) = (if (0xFFF0F800 :: u32) = 0xFFF00000 then command_bits 0x608
      else (lv_cmd (seen (dev (clear_apic_errors m lapic w))) AND 0xF800) OR command_bits 0x608)"
    unfolding c Suc.prems by (simp add: command_bits_def)
  show ?case unfolding send_startup.simps Let_def
  proof (rule ends_bnd [OF delivered [OF assms(1) cmd]])
    show "(0xFFF0F800 :: u32) = 0xFFF00000 \<or> (0xFFF0F800 :: u32) = 0xFFF0F800" by simp
    fix x :: "'d lai_world" assume x: "lv_sent (seen (dev x)) = lv_sent (seen (dev (clear_apic_errors m lapic w))) @ [(of_nat i, 0x8608)] \<and>
      lv_cmd (seen (dev x)) = 0x8608"
    then have "ends (\<lambda>fuel. send_startup fuel m lapic i n x)
      (\<lambda>w'. lv_sent (seen (dev w')) = lv_sent (seen (dev x)) @ replicate n (of_nat i, 0x8608))"
      by (intro Suc.IH) simp
    then show "ends (\<lambda>fuel. send_startup fuel m lapic i n x)
      (\<lambda>w'. lv_sent (seen (dev w')) = lv_sent (seen (dev w)) @ replicate (Suc n) (of_nat i, 0x8608))"
      by (rule ends_mono) (simp add: x c)
  qed
qed

lemma start_cpu_ends:
  fixes m :: "'d machine"
  assumes "lapic_laws m lapic seen pend" and "timer_waits env tm seen"
  shows "ends (\<lambda>fuel. start_cpu fuel env tm m lapic i w)
    (\<lambda>w'. lv_sent (seen (dev w')) = lv_sent (seen (dev w)) @ init_sequence i)"
  unfolding start_cpu_def Let_def
proof (rule ends_bnd [OF delivered [OF assms(1)]])
  fix x :: "'d lai_world" assume x: "lv_sent (seen (dev x)) = lv_sent (seen (dev (clear_apic_errors m lapic w))) @ [(of_nat i, 0xC500)] \<and>
    lv_cmd (seen (dev x)) = 0xC500"
  show "ends (\<lambda>fuel. bnd (wait_delivery fuel m lapic (send_command m lapic 0xFFF00000 0x8500 (select_ap m lapic i x)))
      (\<lambda>w. bnd (lai_busy_wait_pm_timer fuel env tm w 10) (\<lambda>(_, w). send_startup fuel m lapic i 2 w)))
    (\<lambda>w'. lv_sent (seen (dev w')) = lv_sent (seen (dev w)) @ init_sequence i)"
  proof (rule ends_bnd [OF delivered [OF assms(1)]])
    fix y :: "'d lai_world" assume y: "lv_sent (seen (dev y)) = lv_sent (seen (dev x)) @ [(of_nat i, 0x8500)] \<and> lv_cmd (seen (dev y)) = 0x8500"
    show "ends (\<lambda>fuel. bnd (lai_busy_wait_pm_timer fuel env tm y 10) (\<lambda>(_, w). send_startup fuel m lapic i 2 w))
      (\<lambda>w'. lv_sent (seen (dev w')) = lv_sent (seen (dev w)) @ init_sequence i)"
    proof (rule ends_bnd [OF assms(2) [unfolded timer_waits_def, rule_format, of y]])
      fix r :: "lai_api_error \<times> 'd lai_world" assume r: "case r of (e, w') \<Rightarrow> seen (dev w') = seen (dev y)"
      obtain e z where z: "r = (e, z)" by (cases r)
      then have "lv_cmd (seen (dev z)) AND 0xF800 = 0x8000" using r y by simp
      from send_startup_ends [OF assms(1) this, of i 2]
      show "ends (\<lambda>fuel. case r of (_, w) \<Rightarrow> send_startup fuel m lapic i 2 w)
        (\<lambda>w'. lv_sent (seen (dev w')) = lv_sent (seen (dev w)) @ init_sequence i)"
        using r y x by (auto simp: z init_sequence_def numeral_2_eq_2 clear_errors_view [OF assms(1)] elim: ends_mono)
    qed
  qed (simp_all add: command_bits_def)
qed (simp_all add: command_bits_def)

definition start_sequence :: "u8 \<Rightarrow> u8 list \<Rightarrow> nat \<Rightarrow> nat \<Rightarrow> (u8 \<times> u32) list" where
  "start_sequence bspid ids i n = concat (map (\<lambda>i. if ids ! i = bspid then [] else init_sequence i) [i..<i + n])"

lemma start_cpus_ends:
  fixes m :: "'d machine"
  assumes "lapic_laws m lapic seen pend" and "timer_waits env tm seen" and "i + n \<le> length ids"
  shows "ends (\<lambda>fuel. start_cpus fuel env tm m lapic bspid ids i n w)
    (\<lambda>w'. lv_sent (seen (dev w')) = lv_sent (seen (dev w)) @ start_sequence bspid ids i n)"
  using assms(3)
proof (induction n arbitrary: i w)
  case 0
  then show ?case by (simp add: ends_Ok start_sequence_def)
next
  case (Suc n)
  let ?one = "if ids ! i = bspid then [] else init_sequence i"
  have one: "ends (\<lambda>fuel. if ids ! i = bspid then Ok w else start_cpu fuel env tm m lapic i w)
      (\<lambda>w'. lv_sent (seen (dev w')) = lv_sent (seen (dev w)) @ ?one)"
    using start_cpu_ends [OF assms(1,2), of i w] by (simp add: ends_Ok)
  have all: "start_sequence bspid ids i (Suc n) = ?one @ start_sequence bspid ids (Suc i) n"
    by (simp add: start_sequence_def upt_conv_Cons del: upt_Suc)
  have r: "rd ids i = Ok (ids ! i)" using Suc.prems by simp
  show ?case unfolding start_cpus.simps r bnd.simps
  proof (rule ends_bnd [OF one])
    fix x :: "'d lai_world" assume x: "lv_sent (seen (dev x)) = lv_sent (seen (dev w)) @ ?one"
    have "ends (\<lambda>fuel. start_cpus fuel env tm m lapic bspid ids (Suc i) n x)
      (\<lambda>w'. lv_sent (seen (dev w')) = lv_sent (seen (dev x)) @ start_sequence bspid ids (Suc i) n)"
      using Suc.prems by (intro Suc.IH) simp
    then show "ends (\<lambda>fuel. start_cpus fuel env tm m lapic bspid ids (Suc i) n x)
      (\<lambda>w'. lv_sent (seen (dev w')) = lv_sent (seen (dev w)) @ start_sequence bspid ids i (Suc n))"
      unfolding all by (rule ends_mono) (simp only: x append_assoc)
  qed
qed

subsection \<open>The walk\<close>

text \<open>Records in memory, as their types and the bytes behind their lengths.\<close>

fun records_at :: "kernel_mem \<Rightarrow> nat \<Rightarrow> (u8 \<times> u8 list) list \<Rightarrow> bool" where
  "records_at mem a [] = True"
| "records_at mem a ((t, b) # recs) =
     (mem (of_nat a) = t \<and> mem (of_nat (a + 1)) = of_nat (length b + 2) \<and> length b + 2 < 256 \<and>
      map (\<lambda>i. mem (of_nat (a + 2 + i))) [0..<length b] = b \<and> (t = APIC_TYPE_LOCAL_APIC \<longrightarrow> 2 \<le> length b) \<and>
      records_at mem (a + (length b + 2)) recs)"

fun records_size :: "(u8 \<times> u8 list) list \<Rightarrow> nat" where
  "records_size [] = 0"
| "records_size ((t, b) # recs) = (length b + 2) + records_size recs"

text \<open>The APIC ids in them.\<close>

definition lapics :: "(u8 \<times> u8 list) list \<Rightarrow> u8 list" where
  "lapics recs = map (\<lambda>r. snd r ! 1) (filter (\<lambda>r. fst r = APIC_TYPE_LOCAL_APIC) recs)"

lemma lapics_simps [simp]:
  "lapics [] = []"
  "lapics ((t, b) # recs) = (if t = APIC_TYPE_LOCAL_APIC then b ! 1 # lapics recs else lapics recs)"
  by (simp_all add: lapics_def)

lemma of_nat_addr_less: "n < 2 ^ 32 \<Longrightarrow> m < 2 ^ 32 \<Longrightarrow> (of_nat n :: u32) < of_nat m \<longleftrightarrow> n < m"
  by (simp add: word_less_nat_alt unat_of_nat)

lemma walk_step:
  assumes "p < bound"
  shows "rec_type mem p = APIC_TYPE_LOCAL_APIC \<Longrightarrow> k < length ids \<Longrightarrow> madt_walk (Suc f) mem p bound ids k =
      madt_walk f mem (p + ucast (rec_len mem p)) bound (ids[k := rec_apic_id mem p]) (k + 1)"
    and "rec_type mem p \<noteq> APIC_TYPE_LOCAL_APIC \<Longrightarrow> madt_walk (Suc f) mem p bound ids k =
      madt_walk f mem (p + ucast (rec_len mem p)) bound ids k"
  using assms by simp_all

lemma len_up: "n < 256 \<Longrightarrow> ucast (of_nat n :: u8) = (of_nat n :: u32)"
  by (simp add: word_unat_eq_iff unsigned_ucast_eq unat_of_nat take_bit_nat_eq_self)

lemma walk_records:
  assumes "records_at mem a recs" and "a + records_size recs < 2 ^ 32" and "k + length (lapics recs) \<le> length ids"
  shows "madt_walk (Suc (length recs + j)) mem (of_nat a) (of_nat (a + records_size recs)) ids k =
    Ok (take k ids @ lapics recs @ drop (k + length (lapics recs)) ids, k + length (lapics recs))"
  using assms
proof (induction recs arbitrary: a k ids)
  case (Cons r recs)
  obtain t b where r: "r = (t, b)" by (cases r)
  let ?a' = "a + (length b + 2)"
  have m: "mem (of_nat a) = t" "mem (of_nat (a + 1)) = of_nat (length b + 2)" "length b + 2 < 256"
    "records_at mem ?a' recs" using Cons.prems(1) by (simp_all add: r)
  have len: "ucast (rec_len mem (of_nat a)) = (of_nat (length b + 2) :: u32)"
    using len_up [OF m(3)] m(2) by (simp add: rec_len_def add.commute)
  have p: "of_nat a + ucast (rec_len mem (of_nat a)) = (of_nat ?a' :: u32)" unfolding len by (simp only: of_nat_add)
  have bound: "a + records_size (r # recs) = ?a' + records_size recs" by (simp add: r)
  have less: "(of_nat a :: u32) < of_nat (?a' + records_size recs)"
    using Cons.prems(2) of_nat_addr_less [of a "?a' + records_size recs"] by (simp add: r)
  have room: "?a' + records_size recs < 2 ^ 32" using Cons.prems(2) by (simp add: r)
  show ?case
  proof (cases "t = APIC_TYPE_LOCAL_APIC")
    case True
    have two: "2 \<le> length b" "map (\<lambda>i. mem (of_nat (a + 2 + i))) [0..<length b] = b" using Cons.prems(1) True by (simp_all add: r)
    have "b ! 1 = map (\<lambda>i. mem (of_nat (a + 2 + i))) [0..<length b] ! 1" by (simp only: two(2))
    also have "\<dots> = mem (of_nat (a + 3))" using two(1) by (simp add: add.commute)
    finally have id: "rec_apic_id mem (of_nat a) = b ! 1" by (simp add: rec_apic_id_def add.commute)
    have k: "k < length ids" "k + 1 + length (lapics recs) \<le> length (ids[k := b ! 1])" using Cons.prems(3) True by (simp_all add: r)
    have ih: "madt_walk (Suc (length recs + j)) mem (of_nat ?a') (of_nat (?a' + records_size recs)) (ids[k := b ! 1]) (k + 1) =
      Ok (take (k + 1) (ids[k := b ! 1]) @ lapics recs @ drop (k + 1 + length (lapics recs)) (ids[k := b ! 1]), k + 1 + length (lapics recs))"
      by (rule Cons.IH [OF m(4) room k(2)])
    have t: "take (k + 1) (ids[k := b ! 1]) = take k ids @ [b ! 1]" using k(1) by (simp add: take_Suc_conv_app_nth)
    have "madt_walk (Suc (length (r # recs) + j)) mem (of_nat a) (of_nat (?a' + records_size recs)) ids k =
      madt_walk (Suc (length recs + j)) mem (of_nat ?a') (of_nat (?a' + records_size recs)) (ids[k := b ! 1]) (k + 1)"
      using walk_step(1) [OF less _ k(1), of mem "Suc (length recs + j)"] True m(1) unfolding p id rec_type_def by simp
    then show ?thesis unfolding bound ih using True t by (simp add: r)
  next
    case False
    have k: "k + length (lapics recs) \<le> length ids" using Cons.prems(3) False by (simp add: r)
    have ih: "madt_walk (Suc (length recs + j)) mem (of_nat ?a') (of_nat (?a' + records_size recs)) ids k =
      Ok (take k ids @ lapics recs @ drop (k + length (lapics recs)) ids, k + length (lapics recs))"
      by (rule Cons.IH [OF m(4) room k])
    have "madt_walk (Suc (length (r # recs) + j)) mem (of_nat a) (of_nat (?a' + records_size recs)) ids k =
      madt_walk (Suc (length recs + j)) mem (of_nat ?a') (of_nat (?a' + records_size recs)) ids k"
      using walk_step(2) [OF less, of mem "Suc (length recs + j)"] False m(1) unfolding p rec_type_def by simp
    then show ?thesis unfolding bound ih using False by (simp add: r)
  qed
qed simp

text \<open>A record of length 0 that is no local APIC keeps the walk at its place.\<close>

lemma walk_stays:
  assumes "rec_len mem p = 0" and "rec_type mem p \<noteq> APIC_TYPE_LOCAL_APIC" and "p < bound"
  shows "madt_walk fuel mem p bound ids k = Stuck"
  using assms by (induction fuel) simp_all

subsection \<open>Starting\<close>

lemma GetTable_APIC:
  "GetTable mem g (signature ''APIC'') 0 = Ok (case filter (has_signature mem (signature ''APIC'')) (table_ptrs mem g) of
     [] \<Rightarrow> 0 | p # _ \<Rightarrow> p)"
proof -
  have "terminated (signature ''APIC'')" "signature ''APIC'' ! 0 \<noteq> 68" "signature ''APIC'' \<noteq> []" by (simp_all add: signature_def)
  then show ?thesis
    using scan_loop_spec [of "signature ''APIC''" 0 0 mem g 0 "nat (g_fields g)"]
    by (simp add: GetTable_def table_ptrs_def split: list.split)
qed

text \<open>
  \<open>madt_setup\<close> on a well-formed MADT of at most 256 local APICs, with a local APIC and a timer that behave as
  documented: it ends, has the ids of the local APICs in order, and has sent, for each place \<open>i\<close> of that
  list which is not the id of the running processor, INIT, the end of INIT and two STARTUPs for page 8.  They go
  to the processor whose id is \<open>i\<close>, not to the one whose id is at place \<open>i\<close>.
\<close>

theorem madt_starts_by_place:
  fixes m :: "'d machine"
  assumes "filter (has_signature mem (signature ''APIC'')) (table_ptrs mem g) = of_nat a # others" and "0 < a"
    and "records_at mem (a + 44) recs" and "a + 44 + records_size recs < 2 ^ 32"
    and "madt_length mem (of_nat a) = of_nat (44 + records_size recs)" and "length (lapics recs) \<le> 256"
    and "madt_lapic_addr mem (of_nat a) = lapic"
    and "lapic_laws m lapic seen pend" and "timer_waits env tm seen"
  shows "ends (\<lambda>fuel. madt_setup fuel env tm m mem g ap_code bspid w) (\<lambda>(r, w'). \<exists>ids mem'.
      r = Some (ids, length (lapics recs), mem') \<and> take (length (lapics recs)) ids = lapics recs \<and>
      lv_sent (seen (dev w')) = lv_sent (seen (dev w)) @
        concat (map (\<lambda>i. if lapics recs ! i = bspid then []
          else [(of_nat i, 0xC500), (of_nat i, 0x8500), (of_nat i, 0x8608), (of_nat i, 0x8608)]) [0..<length (lapics recs)]))"
proof -
  let ?n = "length (lapics recs)" and ?mem = "mem_copy mem 0x8000 ap_code 4096"
  let ?ids = "lapics recs @ drop ?n (replicate 256 0)"
  have nz: "(of_nat a :: u32) \<noteq> 0" using of_nat_addr_eq [of a 0] assms(2,4) by simp
  have table: "GetTable mem g (signature ''APIC'') 0 = Ok (of_nat a)" by (simp add: GetTable_APIC assms(1))
  have places: "of_nat a + 44 = (of_nat (a + 44) :: u32)"
    "of_nat a + madt_length mem (of_nat a) = (of_nat (a + 44 + records_size recs) :: u32)" by (simp_all add: assms(5))
  have walk: "ends (\<lambda>fuel. madt_walk fuel mem (of_nat a + 44) (of_nat a + madt_length mem (of_nat a)) (replicate 256 0) 0) (\<lambda>r. r = (?ids, ?n))"
    unfolding places using walk_records [OF assms(3,4), of 0 "replicate 256 0"] assms(6)
    by (intro endsI [where f = "Suc (length recs)" and x = "(?ids, ?n)"]) simp_all
  have len: "0 + ?n \<le> length ?ids" by simp
  have seq: "start_sequence bspid ?ids 0 ?n = concat (map (\<lambda>i. if lapics recs ! i = bspid then [] else init_sequence i) [0..<?n])"
    unfolding start_sequence_def by (rule arg_cong [where f = concat]) (simp add: nth_append)
  have run: "ends (\<lambda>fuel. bnd (start_cpus fuel env tm m lapic bspid ?ids 0 ?n w) (\<lambda>w. Ok (Some (?ids, ?n, ?mem), w)))
    (\<lambda>(r, w'). r = Some (?ids, ?n, ?mem) \<and> lv_sent (seen (dev w')) = lv_sent (seen (dev w)) @ start_sequence bspid ?ids 0 ?n)"
    by (rule ends_bnd [OF start_cpus_ends [OF assms(8,9) len]]) (auto intro: ends_Ok)
  have "ends (\<lambda>fuel. madt_setup fuel env tm m mem g ap_code bspid w)
    (\<lambda>(r, w'). r = Some (?ids, ?n, ?mem) \<and> lv_sent (seen (dev w')) = lv_sent (seen (dev w)) @ start_sequence bspid ?ids 0 ?n)"
    unfolding madt_setup_def table bnd.simps if_not_P [OF nz] Let_def assms(7)
    by (rule ends_bnd [OF walk]) (use run in simp)
  then show ?thesis unfolding seq init_sequence_def by (rule ends_mono) auto
qed

subsection \<open>A machine with two processors\<close>

text \<open>
  A local APIC at \<open>0xFEE00000\<close> and a counter at port 0x608.  The MADT lists the processors 4 and 0, in this order;
  the kernel runs on processor 0.
\<close>

definition apic_machine :: "(nat \<times> lapic_view) machine" where
  "apic_machine = \<lparr>p_in = (\<lambda>_ _ d. (0, d)), p_out = (\<lambda>_ _ _ d. d),
     m_load = (\<lambda>_ a d. (if a = 0xFEE00310 then ucast (lv_dest (snd d)) else ucast (command_bits (lv_cmd (snd d))), d)),
     m_store = (\<lambda>_ a v d.
       if a = 0xFEE00310 then (fst d, (snd d)\<lparr>lv_dest := ucast v\<rparr>)
       else if a = 0xFEE00300 then (fst d, (snd d)\<lparr>lv_cmd := command_bits (ucast v),
         lv_sent := lv_sent (snd d) @ [(ucast (drop_bit 24 (lv_dest (snd d))), command_bits (ucast v))]\<rparr>)
       else d)\<rparr>"

definition tick_env :: "(nat \<times> 'x) exec_env" where
  "tick_env = \<lparr>e_host = \<lparr>h_has = (\<lambda>_. True), h_read = (\<lambda>_ _ _ d. (of_nat (fst d), (Suc (fst d), snd d))), h_write = (\<lambda>_ _ _ _ d. d)\<rparr>,
     e_eval = (\<lambda>_ _. Fault), e_amldebug = None, e_global_notify = None, e_notify = (\<lambda>_ d _ _. (False, d)),
     e_timer = None, e_sleep = None, e_memcmp = (\<lambda>_ _ _. Ok 0),
     e_sync_wait = None, e_sync_wake = None, e_rounds = 0\<rparr>"

definition apic_seen :: "nat \<times> lapic_view \<Rightarrow> lapic_view" where
  "apic_seen d = (snd d)\<lparr>lv_cmd := command_bits (lv_cmd (snd d))\<rparr>"

lemma tick_timer_waits: "timer_waits tick_env counter_timer apic_seen"
proof (rule unit_timer_waits [where clock = fst])
  have u: "ucast (take_bit 32 (of_nat n :: u64)) = (of_nat n :: u32)" for n
    by (rule bit_word_eqI) (simp add: bit_simps)
  show "\<exists>d. lai_read_pm_timer_value tick_env counter_timer w = Ok (of_nat (fst (dev w)), w\<lparr>dev := d\<rparr>) \<and>
      fst d = Suc (fst (dev w)) \<and> apic_seen d = apic_seen (dev w)" for w
    by (rule exI [of _ "(Suc (fst (dev w)), snd (dev w))"])
      (simp add: lai_read_pm_timer_value_def counter_timer_def tick_env_def host_read_def has_fn_def timer0_def Let_def u apic_seen_def)
qed

lemma apic_machine_laws: "lapic_laws apic_machine 0xFEE00000 apic_seen (\<lambda>_. 0)"
proof -
  have u: "ucast (ucast (v :: u32) :: u64) = v" for v
    by (rule bit_word_eqI) (simp add: bit_simps)
  have idem: "command_bits (command_bits v) = command_bits v" for v
    by (simp only: command_bits_def and.assoc and.idem)
  have free: "command_bits v AND 0x1000 = 0" for v
  proof -
    have "(v AND 0xFEFFF) AND 0x1000 = v AND (0xFEFFF AND 0x1000)" by (rule and.assoc)
    then show ?thesis by (simp add: command_bits_def)
  qed
  show ?thesis
    by (auto simp: lapic_laws_def load32_def store32_def apic_machine_def apic_seen_def u idem free)
qed

definition madt_bytes :: "u8 list" where
  "madt_bytes = bytes_of ''APIC'' @ [60, 0, 0, 0] @ replicate 28 0 @ [0, 0, 0xE0, 0xFE, 1, 0, 0, 0] @
     [0, 8, 0, 4, 1, 0, 0, 0] @ [0, 8, 1, 0, 1, 0, 0, 0]"

definition madt_mem :: kernel_mem where
  "madt_mem = mem_put32 (mem_put_bytes (\<lambda>_. 0) 0x1000 madt_bytes) 0x24 0x1000"

definition madt_glue :: acpi_glue where
  "madt_glue = \<lparr>g_rsdp = 0x5000, g_rsdt = 0, g_pointers = 0x24, g_fields = 1\<rparr>"

definition madt_recs :: "(u8 \<times> u8 list) list" where
  "madt_recs = [(0, [0, 4, 1, 0, 0, 0]), (0, [1, 0, 1, 0, 0, 0])]"

definition apic_world :: "(nat \<times> lapic_view) lai_world" where
  "apic_world = \<lparr>cells = [], mem_ok = (\<lambda>_. True), mem_clock = 0, mem_junk = (\<lambda>_. 0), nodes = [], root_node = None,
     ns_array = [], ns_capacity = 0, acpi_revision = 2, invocations = [], dev = (0, \<lparr>lv_dest = 0, lv_cmd = 0, lv_sent = []\<rparr>)\<rparr>"

lemma madt_mem_at:
  "n < 60 \<Longrightarrow> madt_mem (of_nat (0x1000 + n)) = madt_bytes ! n" "mem_le32 madt_mem 0x24 = 0x1000"
proof -
  have l: "length madt_bytes = 60" by (simp add: madt_bytes_def)
  show "mem_le32 madt_mem 0x24 = 0x1000" by (simp add: madt_mem_def mem_le32_put32)
  show "madt_mem (of_nat (0x1000 + n)) = madt_bytes ! n" if n: "n < 60"
  proof -
    have "madt_mem (of_nat (0x1000 + n)) = mem_put_bytes (\<lambda>_. 0) (of_nat 0x1000) madt_bytes (of_nat (0x1000 + n))"
      using put32_other [of "0x24" "0x1000 + n" _ "0x1000"] n by (simp only: madt_mem_def of_nat_numeral) simp
    also have "\<dots> = madt_bytes ! n" using put_bytes_at [of "0x1000" madt_bytes "0x1000 + n"] n l by simp
    finally show ?thesis .
  qed
qed

lemma madt_starts_by_place_witness:
  "ends (\<lambda>fuel. madt_setup fuel tick_env counter_timer apic_machine madt_mem madt_glue 0x200000 0 apic_world)
    (\<lambda>(r, w'). lv_sent (apic_seen (dev w')) = [(0, 0xC500), (0, 0x8500), (0, 0x8608), (0, 0x8608)])"
proof -
  have at: "madt_mem (of_nat (0x1000 + n)) = madt_bytes ! n" if "n < 60" for n using that by (rule madt_mem_at(1))
  have ptrs: "table_ptrs madt_mem madt_glue = [0x1000]"
    by (simp add: table_ptrs_def madt_glue_def rsdt_pointer_def madt_mem_at(2))
  have sig: "has_signature madt_mem (signature ''APIC'') 0x1000"
    using at [of 0] at [of 1] at [of 2] at [of 3]
    by (simp add: has_signature_def at_mem_def signature_def madt_bytes_def upt_conv_Cons)
  have len: "madt_length madt_mem (of_nat 0x1000) = of_nat (44 + records_size madt_recs)"
    using at [of 4] at [of 5] at [of 6] at [of 7]
    by (simp add: madt_length_def mem_le32_def le32_def madt_bytes_def madt_recs_def)
  have addr: "madt_lapic_addr madt_mem (of_nat 0x1000) = 0xFEE00000"
    using at [of 36] at [of 37] at [of 38] at [of 39]
    by (simp add: madt_lapic_addr_def mem_le32_def le32_def madt_bytes_def nth_append)
  have recs: "records_at madt_mem (0x1000 + 44) madt_recs"
    using at [of 44] at [of 45] at [of 46] at [of 47] at [of 48] at [of 49] at [of 50] at [of 51]
      at [of 52] at [of 53] at [of 54] at [of 55] at [of 56] at [of 57] at [of 58] at [of 59]
    by (simp add: madt_recs_def madt_bytes_def upt_conv_Cons nth_append)
  have bytes: "records_size madt_recs = 16" by (simp add: madt_recs_def)
  have ids: "lapics madt_recs = [4, 0]" by (simp add: madt_recs_def lapics_def APIC_TYPE_LOCAL_APIC_def)
  show ?thesis
    by (rule ends_mono [OF madt_starts_by_place [where a = "0x1000" and others = "[]", OF _ _ recs _ len _ addr apic_machine_laws tick_timer_waits]])
      (auto simp: ptrs sig ids bytes apic_world_def apic_seen_def)
qed

subsection \<open>Counting the processors\<close>

text \<open>
  A processor that has been started waits in \<open>trampoline.S\<close> for \<open>bspdone\<close>, counts itself in \<open>aprunning\<close> by a locked
  instruction, waits for \<open>bsp_l\<close> and sets it (\<open>bsp_lock\<close>), loads and stores \<open>cpuid\<close>, and clears \<open>bsp_l\<close>
  (\<open>bsp_unlock\<close>).  The first processor sets \<open>bspdone\<close> and waits while \<open>cpuid < aprunning\<close>.
\<close>

datatype ap_pc = Parked | Counting | Locking | Setting | Loading | Storing int | Unlocking | Looping

datatype bsp_pc = Releasing_all | Watching | Finished

record ap_state =
  ap_running :: u8
  ap_cpuid :: int
  ap_flag :: bool
  ap_bspdone :: bool
  ap_pcs :: "nat \<Rightarrow> ap_pc"
  ap_bsp :: bsp_pc

definition bsp_lock :: "bool \<Rightarrow> ap_pc" where "bsp_lock flag = (if flag then Locking else Setting)"

fun ap_startup :: "ap_pc \<Rightarrow> ap_state \<Rightarrow> ap_pc \<times> ap_state" where
  "ap_startup Parked s = (if ap_bspdone s then Counting else Parked, s)"
| "ap_startup Counting s = (Locking, s\<lparr>ap_running := ap_running s + 1\<rparr>)"
| "ap_startup Locking s = (bsp_lock (ap_flag s), s)"
| "ap_startup Setting s = (Loading, s\<lparr>ap_flag := True\<rparr>)"
| "ap_startup Loading s = (Storing (ap_cpuid s + 1), s)"
| "ap_startup (Storing v) s = (Unlocking, s\<lparr>ap_cpuid := v\<rparr>)"
| "ap_startup Unlocking s = (Looping, s\<lparr>ap_flag := False\<rparr>)"
| "ap_startup Looping s = (Looping, s)"

fun bsp_watch :: "bsp_pc \<Rightarrow> ap_state \<Rightarrow> bsp_pc \<times> ap_state" where
  "bsp_watch Releasing_all s = (Watching, s\<lparr>ap_bspdone := True\<rparr>)"
| "bsp_watch Watching s = (if ap_cpuid s < uint (ap_running s) then Watching else Finished, s)"
| "bsp_watch Finished s = (Finished, s)"

datatype processor = BSP | AP nat

fun turn :: "ap_state \<Rightarrow> processor \<Rightarrow> ap_state" where
  "turn s BSP = (case bsp_watch (ap_bsp s) s of (pc, s) \<Rightarrow> s\<lparr>ap_bsp := pc\<rparr>)"
| "turn s (AP t) = (case ap_startup (ap_pcs s t) s of (pc, s) \<Rightarrow> s\<lparr>ap_pcs := (ap_pcs s)(t := pc)\<rparr>)"

definition ap_init :: ap_state where
  "ap_init = \<lparr>ap_running = 0, ap_cpuid = 0, ap_flag = False, ap_bspdone = False, ap_pcs = (\<lambda>_. Parked), ap_bsp = Releasing_all\<rparr>"

text \<open>One processor from its release to its endless loop.\<close>

lemma seven_turns:
  assumes "ap_bspdone s" and "\<not> ap_flag s" and "ap_pcs s t = Parked"
  shows "foldl turn s (replicate 7 (AP t)) =
    s\<lparr>ap_running := ap_running s + 1, ap_cpuid := ap_cpuid s + 1, ap_pcs := (ap_pcs s)(t := Looping)\<rparr>"
  using assms by (cases s) (simp add: eval_nat_numeral bsp_lock_def)

lemma in_order:
  "foldl turn ap_init (BSP # concat (map (\<lambda>t. replicate 7 (AP t)) [0..<n])) =
    ap_init\<lparr>ap_running := of_nat n, ap_cpuid := int n, ap_bspdone := True,
      ap_pcs := (\<lambda>t. if t < n then Looping else Parked), ap_bsp := Watching\<rparr>"
proof (induction n)
  case 0
  then show ?case by (simp add: ap_init_def)
next
  case (Suc n)
  let ?s = "ap_init\<lparr>ap_running := of_nat n, ap_cpuid := int n, ap_bspdone := True,
      ap_pcs := (\<lambda>t. if t < n then Looping else Parked), ap_bsp := Watching\<rparr>"
  have "foldl turn ?s (replicate 7 (AP n)) =
      ?s\<lparr>ap_running := ap_running ?s + 1, ap_cpuid := ap_cpuid ?s + 1, ap_pcs := (ap_pcs ?s)(n := Looping)\<rparr>"
    by (rule seven_turns) (simp_all add: ap_init_def)
  also have "\<dots> = ap_init\<lparr>ap_running := of_nat (Suc n), ap_cpuid := int (Suc n), ap_bspdone := True,
      ap_pcs := (\<lambda>t. if t < Suc n then Looping else Parked), ap_bsp := Watching\<rparr>"
    by (auto simp: ap_init_def fun_eq_iff)
  finally show ?case using Suc by (simp del: replicate_Suc replicate.simps)
qed

text \<open>With all processors in their loops and one count lost, nothing changes any more.\<close>

lemma stuck_forever:
  assumes "\<forall>t < n. ap_pcs s t = Looping" and "ap_bsp s = Watching" and "ap_cpuid s < uint (ap_running s)"
    and "set sched \<subseteq> {BSP} \<union> AP ` {..<n}"
  shows "foldl turn s sched = s"
  using assms(4)
proof (induction sched)
  case (Cons p sched)
  have "turn s p = s"
  proof (cases p)
    case BSP
    then show ?thesis using assms(2,3) by simp
  next
    case (AP t)
    then have "ap_pcs s t = Looping" using Cons.prems assms(1) by auto
    then show ?thesis using AP by (cases s) (simp add: fun_upd_idem)
  qed
  then show ?case using Cons by simp
qed simp

definition lost_schedule :: "processor list" where
  "lost_schedule = [BSP, AP 0, AP 1, AP 0, AP 1, AP 0, AP 1, AP 0, AP 1, AP 0, AP 1, AP 0, AP 1, AP 0, AP 1]"

text \<open>
  The count of the processors.  If they come one after the other the wait ends with all of them counted, up
  to 255.  But nothing holds them to that: with two of them there is a schedule after which both are in
  their loops, one is not counted, and the first processor waits in every continuation; and there is one in which
  the wait is over before any processor has been counted.
\<close>

theorem processors_counted:
  "(n < 256 \<longrightarrow> (let s = foldl turn ap_init (BSP # concat (map (\<lambda>t. replicate 7 (AP t)) [0..<n]) @ [BSP]) in
      ap_bsp s = Finished \<and> ap_running s = of_nat n \<and> ap_cpuid s = int n)) \<and>
   (\<exists>sched. let s = foldl turn ap_init sched in
      ap_pcs s 0 = Looping \<and> ap_pcs s 1 = Looping \<and> ap_running s = 2 \<and> ap_cpuid s = 1 \<and>
      (\<forall>others. set others \<subseteq> {BSP, AP 0, AP 1} \<longrightarrow> ap_bsp (foldl turn s others) \<noteq> Finished)) \<and>
   (\<exists>sched. let s = foldl turn ap_init sched in ap_bsp s = Finished \<and> ap_running s = 0)"
proof (intro conjI)
  show "n < 256 \<longrightarrow> (let s = foldl turn ap_init (BSP # concat (map (\<lambda>t. replicate 7 (AP t)) [0..<n]) @ [BSP]) in
      ap_bsp s = Finished \<and> ap_running s = of_nat n \<and> ap_cpuid s = int n)"
  proof
    assume "n < 256"
    then have "uint (of_nat n :: u8) = int n" by (simp add: uint_nat unat_of_nat)
    moreover have "foldl turn ap_init (BSP # concat (map (\<lambda>t. replicate 7 (AP t)) [0..<n]) @ [BSP]) =
        turn (foldl turn ap_init (BSP # concat (map (\<lambda>t. replicate 7 (AP t)) [0..<n]))) BSP" by (simp del: turn.simps)
    ultimately show "let s = foldl turn ap_init (BSP # concat (map (\<lambda>t. replicate 7 (AP t)) [0..<n]) @ [BSP]) in
      ap_bsp s = Finished \<and> ap_running s = of_nat n \<and> ap_cpuid s = int n"
      by (simp only: in_order) (simp add: ap_init_def)
  qed
  let ?s = "foldl turn ap_init lost_schedule"
  have s: "ap_pcs ?s 0 = Looping \<and> ap_pcs ?s 1 = Looping \<and> ap_running ?s = 2 \<and> ap_cpuid ?s = 1 \<and> ap_bsp ?s = Watching"
    by (simp add: lost_schedule_def ap_init_def bsp_lock_def)
  have "foldl turn ?s others = ?s" if "set others \<subseteq> {BSP, AP 0, AP 1}" for others
  proof (rule stuck_forever [where n = 2])
    show "\<forall>t < 2. ap_pcs ?s t = Looping" using s by (auto simp: less_2_cases_iff)
    show "set others \<subseteq> {BSP} \<union> AP ` {..<2}" using that by (auto simp: numeral_2_eq_2 lessThan_Suc)
  qed (use s in simp_all)
  with s show "\<exists>sched. let s = foldl turn ap_init sched in
      ap_pcs s 0 = Looping \<and> ap_pcs s 1 = Looping \<and> ap_running s = 2 \<and> ap_cpuid s = 1 \<and>
      (\<forall>others. set others \<subseteq> {BSP, AP 0, AP 1} \<longrightarrow> ap_bsp (foldl turn s others) \<noteq> Finished)"
    by (intro exI [of _ lost_schedule]) (simp add: Let_def)
  show "\<exists>sched. let s = foldl turn ap_init sched in ap_bsp s = Finished \<and> ap_running s = 0"
    by (rule exI [of _ "[BSP, BSP]"]) (simp add: ap_init_def)
qed

lemma processors_counted_witness:
  "let s = foldl turn ap_init (BSP # concat (map (\<lambda>t. replicate 7 (AP t)) [0..<3]) @ [BSP]) in
     ap_bsp s = Finished \<and> ap_running s = 3 \<and> ap_cpuid s = 3"
  using processors_counted [of 3] by (simp only: Let_def) simp

end
