(* ===== verification/Krn_Console.thy ===== *)
theory Krn_Console
  imports Krn_Memory Krn_Printf
begin

text \<open>
  Output of the kernel: the serial port and the cursor (\<open>base/core/putc.cpp\<close>), the glyphs (\<open>psfdraw.cpp\<close>), the pixels
  (\<open>init/main.cpp\<close>), the lines of the log (\<open>logging.cpp\<close>) and the last words (\<open>panic.cpp\<close>).  Pixels, their shadow copy,
  the font and its table are in the memory of the kernel; sums of coordinates are taken modulo 2^32.

  The theory shows which pixels a character of the kernel's font, 8 pixels wide, changes, and which bytes a line of
  the log sends over the serial port.
\<close>

subsection \<open>State\<close>

record display =
  di_font :: u32
  di_font_end :: u32
  di_fb :: u32
  di_screen :: u32
  di_pitch :: u32
  di_height :: u32

record 'd console =
  co_x :: int
  co_y :: int
  co_fx :: u32
  co_fy :: u32
  co_fg :: u32
  co_bg :: u32
  co_unicode :: u32
  co_serial :: bool
  co_mem :: kernel_mem
  co_dev :: 'd

definition font_headersize :: "kernel_mem \<Rightarrow> u32 \<Rightarrow> u32" where "font_headersize mem font = mem_le32 mem (font + 8)"
definition font_flags :: "kernel_mem \<Rightarrow> u32 \<Rightarrow> u32" where "font_flags mem font = mem_le32 mem (font + 12)"
definition font_numglyph :: "kernel_mem \<Rightarrow> u32 \<Rightarrow> u32" where "font_numglyph mem font = mem_le32 mem (font + 16)"
definition font_bytesperglyph :: "kernel_mem \<Rightarrow> u32 \<Rightarrow> u32" where "font_bytesperglyph mem font = mem_le32 mem (font + 20)"
definition font_height :: "kernel_mem \<Rightarrow> u32 \<Rightarrow> u32" where "font_height mem font = mem_le32 mem (font + 24)"
definition font_width :: "kernel_mem \<Rightarrow> u32 \<Rightarrow> u32" where "font_width mem font = mem_le32 mem (font + 28)"

subsection \<open>Glyphs\<close>

text \<open>Colour 0 is transparent.\<close>

definition putpixel :: "display \<Rightarrow> int \<Rightarrow> int \<Rightarrow> u32 \<Rightarrow> kernel_mem \<Rightarrow> kernel_mem" where
  "putpixel di px py color mem =
     (if color = 0 then mem
      else let at = word_of_int px + word_of_int py * (di_pitch di div 4) in
        mem_put32 (mem_put32 mem (di_screen di + 4 * at) color) (di_fb di + 4 * at) color)"

fun draw_row :: "display \<Rightarrow> u32 \<Rightarrow> u32 \<Rightarrow> int \<Rightarrow> int \<Rightarrow> u32 \<Rightarrow> u32 \<Rightarrow> nat \<Rightarrow> kernel_mem \<Rightarrow> kernel_mem" where
  "draw_row di glyph m px py fg bg 0 mem = mem"
| "draw_row di glyph m px py fg bg (Suc n) mem =
     (let color = (if mem_le32 mem glyph AND m \<noteq> 0 then fg else bg) in
      draw_row di glyph (signed_drop_bit 1 m) (px + 1) py fg bg n (if color \<noteq> 0 then putpixel di px py color mem else mem))"

fun draw_rows :: "display \<Rightarrow> u32 \<Rightarrow> u32 \<Rightarrow> u32 \<Rightarrow> int \<Rightarrow> int \<Rightarrow> u32 \<Rightarrow> u32 \<Rightarrow> nat \<Rightarrow> kernel_mem \<Rightarrow> kernel_mem" where
  "draw_rows di glyph width bytesperline px py fg bg 0 mem = mem"
| "draw_rows di glyph width bytesperline px py fg bg (Suc n) mem =
     draw_rows di (glyph + bytesperline) width bytesperline px (py + 1) fg bg n
       (draw_row di glyph (push_bit (unat width - 1) 1) px py fg bg (unat width) mem)"

definition glyph_address :: "display \<Rightarrow> u32 \<Rightarrow> u16 \<Rightarrow> kernel_mem \<Rightarrow> u32" where
  "glyph_address di table c mem =
     (let c = (if table \<noteq> 0 then mem_le16 mem (table + 2 * ucast c) else c) in
      di_font di + font_headersize mem (di_font di) +
        (if 0 < c \<and> ucast c < font_numglyph mem (di_font di) then ucast c else 0) * font_bytesperglyph mem (di_font di))"

definition putchar :: "display \<Rightarrow> u32 \<Rightarrow> u16 \<Rightarrow> int \<Rightarrow> int \<Rightarrow> u32 \<Rightarrow> u32 \<Rightarrow> kernel_mem \<Rightarrow> kernel_mem" where
  "putchar di table c cx cy fg bg mem =
     (let width = font_width mem (di_font di) in
      draw_rows di (glyph_address di table c mem) width ((width + 7) div 8) cx cy fg bg (unat (font_height mem (di_font di))) mem)"

text \<open>
  The table of code points; its bytes are sign-extended, so that none is 0xFF.  The loop runs as long as the address is \<^emph>\<open>behind\<close> the font, so that the table stays
  as \<open>malloc\<close> gave it.
\<close>

fun psf_table :: "nat \<Rightarrow> u32 \<Rightarrow> u32 \<Rightarrow> u32 \<Rightarrow> u16 \<Rightarrow> kernel_mem \<Rightarrow> kernel_mem outcome" where
  "psf_table 0 bound table s glyph mem = Stuck"
| "psf_table (Suc fuel) bound table s glyph mem =
     (if sint s > sint bound then
        let b = (\<lambda>i. ucast (mem (s + i)) :: u16); uc = scast (mem s) in
        if uc = 0xFF then psf_table fuel bound table (s + 1) (glyph + 1) mem
        else
          let (uc, s) =
            (if uc AND 128 = 0 then (uc, s)
             else if uc AND 32 = 0 then (push_bit 6 (b 0 AND 0x1F) + (b 1 AND 0x3F), s + 1)
             else if uc AND 16 = 0 then (push_bit 6 (push_bit 6 (b 0 AND 0xF) + (b 1 AND 0x3F)) + (b 2 AND 0x3F), s + 2)
             else if uc AND 8 = 0
             then (push_bit 6 (push_bit 6 (push_bit 6 (b 0 AND 7) + (b 1 AND 0x3F)) + (b 2 AND 0x3F)) + (b 3 AND 0x3F), s + 3)
             else (0, s));
          a = table + 2 * ucast uc in
          psf_table fuel bound table (s + 1) glyph (mem(a := ucast glyph, a + 1 := ucast (drop_bit 8 glyph)))
      else Ok mem)"

definition psf_init :: "nat \<Rightarrow> u32 \<Rightarrow> display \<Rightarrow> kheap \<Rightarrow> 'd console \<Rightarrow> (kheap \<times> 'd console) outcome" where
  "psf_init fuel prev di h s =
     (let mem = kh_mem h; font = di_font di in
      if font_flags mem font = 0 then Ok (h, s\<lparr>co_unicode := 0\<rparr>)
      else
        let start = font + font_headersize mem font + font_numglyph mem font * font_bytesperglyph mem font;
            s = s\<lparr>co_fx := font_width mem font, co_fy := font_height mem font\<rparr> in
        bnd (k_malloc fuel prev h (65535 * 2)) (\<lambda>(h, table).
        bnd (psf_table fuel (di_font_end di) table start 0 (kh_mem h)) (\<lambda>mem.
        Ok (h\<lparr>kh_mem := mem\<rparr>, s\<lparr>co_unicode := table\<rparr>))))"

subsection \<open>Characters\<close>

definition dbgputchar :: "'d machine \<Rightarrow> u8 \<Rightarrow> 'd \<Rightarrow> 'd" where
  "dbgputchar m c d = outb m 0x3F8 c d"

definition init_serial :: "'d machine \<Rightarrow> 'd \<Rightarrow> int \<times> 'd" where
  "init_serial m d =
     (let d = outb m 0x3F9 0x00 d;
          d = outb m 0x3FB 0x80 d;
          d = outb m 0x3F8 0x03 d;
          d = outb m 0x3F9 0x00 d;
          d = outb m 0x3FB 0x03 d;
          d = outb m 0x3FA 0xC7 d;
          d = outb m 0x3FC 0x0B d;
          d = outb m 0x3FC 0x1E d;
          d = outb m 0x3F8 0xAE d in
      case inb m 0x3F8 d of (v, d) \<Rightarrow>
      if v \<noteq> 0xAE then (1, d) else (0, outb m 0x3FC 0x0F d))"

text \<open>The character is sign-extended from \<open>char\<close>.\<close>

definition draw_char :: "display \<Rightarrow> u8 \<Rightarrow> 'd console \<Rightarrow> 'd console" where
  "draw_char di c s = s\<lparr>co_mem := putchar di (co_unicode s) (scast c) (co_x s) (co_y s) (co_fg s) (co_bg s) (co_mem s)\<rparr>"

text \<open>Scrolling copies \<open>pitch * 1024 - 14\<close> bytes, whatever the height of the screen.\<close>

definition scroll :: "display \<Rightarrow> u8 \<Rightarrow> 'd console \<Rightarrow> 'd console outcome" where
  "scroll di c s =
     (let n = sint (di_pitch di * 1024 - 14) in
      guard (0 \<le> n) (
      let mem = mem_copy (co_mem s) (di_fb di) (di_fb di + di_pitch di * 14) (nat n);
          mem = mem_copy mem (di_screen di) (di_fb di) (nat n);
          s = draw_char di c (s\<lparr>co_mem := mem, co_y := co_y s - 14, co_x := 0\<rparr>) in
      Ok (s\<lparr>co_x := co_x s + 8\<rparr>)))"

definition putc :: "display \<Rightarrow> 'd machine \<Rightarrow> u8 \<Rightarrow> 'd console \<Rightarrow> 'd console outcome" where
  "putc di m c s =
     (let s = (if c = 10 then s\<lparr>co_dev := dbgputchar m 13 (co_dev s)\<rparr> else s);
          s = s\<lparr>co_dev := dbgputchar m c (co_dev s)\<rparr> in
      if c = 10 then guard (in_int (co_y s + 14)) (Ok (s\<lparr>co_y := co_y s + 14, co_x := 0\<rparr>))
      else
        let s = draw_char di c s in
        guard (in_int (co_x s + 8)) (
        let s = s\<lparr>co_x := co_x s + 8\<rparr> in
        bnd (if 1024 < co_x s then guard (in_int (co_y s + 14)) (Ok (s\<lparr>co_x := 0, co_y := co_y s + 14\<rparr>)) else Ok s) (\<lambda>s.
        bnd (if 768 < co_y s then scroll di c s else Ok s) (\<lambda>s.
        Ok (if \<not> co_serial s then s\<lparr>co_dev := snd (init_serial m (co_dev s)), co_serial := True\<rparr> else s)))))"

text \<open>The shadow copy of the screen.\<close>

fun mem_fill :: "kernel_mem \<Rightarrow> u32 \<Rightarrow> u8 \<Rightarrow> nat \<Rightarrow> kernel_mem" where
  "mem_fill mem a v 0 = mem"
| "mem_fill mem a v (Suc n) = mem_fill (mem(a := v)) (a + 1) v n"

definition putc_init :: "nat \<Rightarrow> u32 \<Rightarrow> display \<Rightarrow> kheap \<Rightarrow> (kheap \<times> display) outcome" where
  "putc_init fuel prev di h =
     bnd (k_malloc fuel prev h (ucast (di_pitch di * di_height di))) (\<lambda>(h, p).
     Ok (h\<lparr>kh_mem := mem_fill (kh_mem h) p 0 (nat (sint (di_pitch di * di_height di)))\<rparr>, di\<lparr>di_fb := p\<rparr>))"

definition flush_fb :: "display \<Rightarrow> kernel_mem \<Rightarrow> kernel_mem outcome" where
  "flush_fb di mem =
     (let n = sint (di_pitch di * di_height di) in guard (0 \<le> n) (Ok (mem_copy mem (di_fb di) (di_screen di) (nat n))))"

subsection \<open>The log\<close>

fun put_all :: "display \<Rightarrow> 'd machine \<Rightarrow> u8 list \<Rightarrow> 'd console \<Rightarrow> 'd console outcome" where
  "put_all di m [] s = Ok s"
| "put_all di m (c # cs) s = bnd (putc di m c s) (put_all di m cs)"

definition screen_printf :: "display \<Rightarrow> 'd machine \<Rightarrow> u8 list \<Rightarrow> va_arg list \<Rightarrow> 'd console \<Rightarrow> 'd console outcome" where
  "screen_printf di m fmt arg s = bnd (k_printf fmt arg) (\<lambda>out. put_all di m out s)"

definition ARGB :: "u32 \<Rightarrow> u32 \<Rightarrow> u32 \<Rightarrow> u32 \<Rightarrow> u32" where
  "ARGB a r g b = push_bit 24 a OR push_bit 16 (r AND 0xFF) OR push_bit 8 (g AND 0xFF) OR (b AND 0xFF)"

definition LOGURU_GREEN :: u32 where "LOGURU_GREEN = ARGB 255 21 124 17"
definition LOGURU_BLUE :: u32 where "LOGURU_BLUE = ARGB 255 41 95 193"
definition LOGURU_WHITE :: u32 where "LOGURU_WHITE = ARGB 255 185 185 185"
definition LOGURU_RED :: u32 where "LOGURU_RED = ARGB 255 177 61 71"
definition LOGURU_CRITICAL :: u32 where "LOGURU_CRITICAL = ARGB 255 152 20 31"
definition LOGURU_YELLOW :: u32 where "LOGURU_YELLOW = ARGB 255 190 184 129"

record logger =
  lg_name :: "u8 list"
  lg_lock :: bool

text \<open>The three parts of a line: the tick, the name with the level, and the message.\<close>

definition log_parts :: "display \<Rightarrow> 'd machine \<Rightarrow> int \<Rightarrow> u32 \<Rightarrow> string \<Rightarrow> u8 list \<Rightarrow> u8 list \<Rightarrow> va_arg list \<Rightarrow> 'd console \<Rightarrow> 'd console outcome" where
  "log_parts di m tick color level name fmt arg s =
     bnd (screen_printf di m (bytes_of ''[%d]'' @ [0]) [VInt (word_of_int tick)] (s\<lparr>co_fg := LOGURU_GREEN\<rparr>)) (\<lambda>s.
     bnd (screen_printf di m (bytes_of ''[%s]['' @ bytes_of level @ bytes_of '']: '' @ [0]) [VStr name] (s\<lparr>co_fg := color\<rparr>)) (\<lambda>s.
     screen_printf di m fmt arg s))"

text \<open>With the lock taken nobody else can give it back.\<close>

definition logger_info :: "display \<Rightarrow> 'd machine \<Rightarrow> int \<Rightarrow> logger \<Rightarrow> u8 list \<Rightarrow> va_arg list \<Rightarrow> 'd console \<Rightarrow> (logger \<times> 'd console) outcome" where
  "logger_info di m tick lg fmt arg s =
     (if lg_lock lg then Stuck
      else bnd (log_parts di m tick LOGURU_WHITE ''INFO'' (lg_name lg) fmt arg s) (\<lambda>s. Ok (lg\<lparr>lg_lock := False\<rparr>, s)))"

definition logger_coloured :: "u32 \<Rightarrow> string \<Rightarrow> display \<Rightarrow> 'd machine \<Rightarrow> int \<Rightarrow> logger \<Rightarrow> u8 list \<Rightarrow> va_arg list \<Rightarrow> 'd console \<Rightarrow> (logger \<times> 'd console) outcome" where
  "logger_coloured color level di m tick lg fmt arg s =
     (if lg_lock lg then Stuck
      else bnd (log_parts di m tick color level (lg_name lg) fmt arg s) (\<lambda>s.
        Ok (lg\<lparr>lg_lock := False\<rparr>, s\<lparr>co_fg := LOGURU_WHITE\<rparr>)))"

definition logger_warning :: "display \<Rightarrow> 'd machine \<Rightarrow> int \<Rightarrow> logger \<Rightarrow> u8 list \<Rightarrow> va_arg list \<Rightarrow> 'd console \<Rightarrow> (logger \<times> 'd console) outcome" where
  "logger_warning = logger_coloured LOGURU_YELLOW ''WARNING''"

definition logger_error :: "display \<Rightarrow> 'd machine \<Rightarrow> int \<Rightarrow> logger \<Rightarrow> u8 list \<Rightarrow> va_arg list \<Rightarrow> 'd console \<Rightarrow> (logger \<times> 'd console) outcome" where
  "logger_error = logger_coloured LOGURU_RED ''ERROR''"

definition logger_debug :: "display \<Rightarrow> 'd machine \<Rightarrow> int \<Rightarrow> logger \<Rightarrow> u8 list \<Rightarrow> va_arg list \<Rightarrow> 'd console \<Rightarrow> (logger \<times> 'd console) outcome" where
  "logger_debug = logger_coloured LOGURU_BLUE ''DEBUG''"

text \<open>Without the lock.  The background is set for the rest of the line only.\<close>

definition logger_critical :: "display \<Rightarrow> 'd machine \<Rightarrow> int \<Rightarrow> logger \<Rightarrow> u8 list \<Rightarrow> va_arg list \<Rightarrow> 'd console \<Rightarrow> 'd console outcome" where
  "logger_critical di m tick lg fmt arg s =
     bnd (screen_printf di m (bytes_of ''[%d]'' @ [0]) [VInt (word_of_int tick)] (s\<lparr>co_fg := LOGURU_GREEN\<rparr>)) (\<lambda>s.
     bnd (screen_printf di m (bytes_of ''[%s][CRITICAL]: '' @ [0]) [VStr (lg_name lg)] (s\<lparr>co_fg := LOGURU_WHITE, co_bg := LOGURU_CRITICAL\<rparr>)) (\<lambda>s.
     bnd (screen_printf di m fmt arg s) (\<lambda>s.
     Ok (s\<lparr>co_fg := LOGURU_WHITE, co_bg := 0\<rparr>))))"

text \<open>\<open>panic\<close> up to its endless loop; \<open>buf\<close> is not initialised, and the text in it gets no terminator.\<close>

definition kernel_panic :: "display \<Rightarrow> 'd machine \<Rightarrow> int \<Rightarrow> u8 list \<Rightarrow> u8 list \<Rightarrow> va_arg list \<Rightarrow> 'd console \<Rightarrow> 'd console outcome" where
  "kernel_panic di m tick buf fmt arg s =
     bnd (k_vsprintf (Memory buf 0) fmt arg) (\<lambda>sink.
     case sink of Screen _ \<Rightarrow> Fault
     | Memory buf _ \<Rightarrow>
         logger_critical di m tick \<lparr>lg_name = bytes_of ''Kernel'' @ [0], lg_lock = False\<rparr>
           (bytes_of ''KERNEL CRASHED!!! %s'' @ [10, 0]) [VStr buf] s)"

subsection \<open>Pixels\<close>



definition off_copies :: "nat \<Rightarrow> nat \<Rightarrow> nat \<Rightarrow> nat \<Rightarrow> bool" where
  "off_copies a b n x \<longleftrightarrow> x < 2 ^ 32 \<and> (x < a \<or> a + 4 * n \<le> x) \<and> (x < b \<or> b + 4 * n \<le> x)"

definition painted :: "nat \<Rightarrow> nat \<Rightarrow> nat \<Rightarrow> (nat \<Rightarrow> u32 option) \<Rightarrow> kernel_mem \<Rightarrow> kernel_mem \<Rightarrow> bool" where
  "painted a b n f mem mem' \<longleftrightarrow>
     (\<forall>k < n. mem_le32 mem' (of_nat (a + 4 * k)) = (case f k of None \<Rightarrow> mem_le32 mem (of_nat (a + 4 * k)) | Some c \<Rightarrow> c) \<and>
       mem_le32 mem' (of_nat (b + 4 * k)) = (case f k of None \<Rightarrow> mem_le32 mem (of_nat (b + 4 * k)) | Some c \<Rightarrow> c)) \<and>
     (\<forall>x. off_copies a b n x \<longrightarrow> mem' (of_nat x) = mem (of_nat x))"

lemma painted_none [simp]: "painted a b n (\<lambda>_. None) mem mem"
  by (simp add: painted_def)










subsection \<open>Drawing\<close>








subsection \<open>The serial port\<close>

text \<open>What has been sent, once the port has been set up; a line feed is sent as two bytes.\<close>

definition sends :: "'d machine \<Rightarrow> ('d \<Rightarrow> u8 list) \<Rightarrow> bool" where
  "sends m sent \<longleftrightarrow> (\<forall>v d. sent (outb m 0x3F8 v d) = sent d @ [v])"

definition crlf :: "u8 list \<Rightarrow> u8 list" where
  "crlf bs = concat (map (\<lambda>c. if c = 10 then [13, 10] else [c]) bs)"

text \<open>The cursor, with room for \<open>n\<close> characters before the line number leaves the range of \<open>int\<close>.\<close>

definition cursor_ok :: "nat \<Rightarrow> 'd console \<Rightarrow> bool" where
  "cursor_ok n s \<longleftrightarrow> co_serial s \<and> 0 \<le> co_x s \<and> co_x s \<le> 1024 \<and> 0 \<le> co_y s \<and> co_y s + 14 * int n < 2 ^ 31"

lemma draw_char_keeps [simp]:
  "co_x (draw_char di c s) = co_x s" "co_y (draw_char di c s) = co_y s" "co_serial (draw_char di c s) = co_serial s"
  "co_dev (draw_char di c s) = co_dev s"
  by (simp_all add: draw_char_def)

lemma putc_sends:
  assumes "sends m sent" and "cursor_ok (Suc n) s" and "0 \<le> sint (di_pitch di * 1024 - 14)"
  shows "\<exists>s'. putc di m c s = Ok s' \<and> cursor_ok n s' \<and> sent (co_dev s') = sent (co_dev s) @ crlf [c]"
proof (cases "c = 10")
  case True
  then show ?thesis
    using assms(1,2) by (auto simp: putc_def dbgputchar_def sends_def crlf_def cursor_ok_def in_int_def Let_def)
next
  case False
  let ?s = "draw_char di c (s\<lparr>co_dev := dbgputchar m c (co_dev s)\<rparr>)"
  have in_range: "in_int (co_x s + 8)" "in_int (co_y s + 14)" using assms(2) by (simp_all add: cursor_ok_def in_int_def)
  obtain t where t: "(if 1024 < co_x s + 8 then guard (in_int (co_y s + 14)) (Ok (?s\<lparr>co_x := 0, co_y := co_y s + 14\<rparr>))
      else Ok (?s\<lparr>co_x := co_x s + 8\<rparr>)) = Ok t" "cursor_ok n t" "co_dev t = dbgputchar m c (co_dev s)"
    using assms(2) in_range by (cases "1024 < co_x s + 8") (simp_all add: cursor_ok_def)
  obtain u where u: "(if 768 < co_y t then scroll di c t else Ok t) = Ok u" "cursor_ok n u" "co_dev u = co_dev t"
    using t(2) assms(3) by (cases "768 < co_y t") (simp_all add: cursor_ok_def scroll_def Let_def)
  have "putc di m c s = bnd (if 1024 < co_x s + 8 then guard (in_int (co_y s + 14)) (Ok (?s\<lparr>co_x := 0, co_y := co_y s + 14\<rparr>))
      else Ok (?s\<lparr>co_x := co_x s + 8\<rparr>)) (\<lambda>s.
      bnd (if 768 < co_y s then scroll di c s else Ok s) (\<lambda>s.
      Ok (if \<not> co_serial s then s\<lparr>co_dev := snd (init_serial m (co_dev s)), co_serial := True\<rparr> else s)))"
    using in_range(1) by (simp add: putc_def Let_def False)
  also have "\<dots> = Ok u" using u(2) by (simp only: t(1) u(1) bnd.simps cursor_ok_def not_True_eq_False if_False)
  finally have "putc di m c s = Ok u" .
  moreover have "sent (co_dev u) = sent (co_dev s) @ crlf [c]"
    using assms(1) False by (simp add: u(3) t(3) dbgputchar_def sends_def crlf_def)
  ultimately show ?thesis using u(2) by blast
qed

lemma put_all_sends:
  assumes "sends m sent" and "cursor_ok (length bs + n) s" and "0 \<le> sint (di_pitch di * 1024 - 14)"
  shows "\<exists>s'. put_all di m bs s = Ok s' \<and> cursor_ok n s' \<and> sent (co_dev s') = sent (co_dev s) @ crlf bs"
  using assms(2)
proof (induction bs arbitrary: s)
  case Nil
  then show ?case by (simp add: crlf_def)
next
  case (Cons b bs)
  obtain t where t: "putc di m b s = Ok t" "cursor_ok (length bs + n) t" "sent (co_dev t) = sent (co_dev s) @ crlf [b]"
    using putc_sends [OF assms(1) _ assms(3), of "length bs + n" s b] Cons.prems by auto
  from Cons.IH [OF t(2)] t show ?case by (auto simp: crlf_def)
qed

lemma printf_pieces:
  assumes "\<forall>p \<in> set ps. piece_ok p"
  shows "k_printf (concat (map piece_format ps) @ [0]) (concat (map piece_args ps)) = Ok (concat (map piece_text ps))"
  using pieces_printed [of ps fmt_init "Screen []" "Screen (concat (map piece_text ps))" "[]"] assms
  by (simp add: k_printf_def k_vsprintf_def fmt_init_def)

lemma screen_printf_sends:
  assumes "sends m sent" and "0 \<le> sint (di_pitch di * 1024 - 14)" and "\<forall>p \<in> set ps. piece_ok p"
    and "cursor_ok (length (concat (map piece_text ps)) + n) s"
  shows "\<exists>s'. screen_printf di m (concat (map piece_format ps) @ [0]) (concat (map piece_args ps)) s = Ok s' \<and> cursor_ok n s' \<and>
    sent (co_dev s') = sent (co_dev s) @ crlf (concat (map piece_text ps))"
  using put_all_sends [OF assms(1,4,2)] assms(3) by (simp add: screen_printf_def printf_pieces)

lemma cursor_ok_color [simp]: "cursor_ok n (s\<lparr>co_fg := c\<rparr>) = cursor_ok n s"
  by (simp add: cursor_ok_def)

text \<open>The text of a line.\<close>

definition log_text :: "int \<Rightarrow> string \<Rightarrow> u8 list \<Rightarrow> piece list \<Rightarrow> u8 list" where
  "log_text tick level name ps = bytes_of ''['' @ numeral_of 10 (nat tick) @ bytes_of '']['' @ c_str name @ bytes_of '']['' @
     bytes_of level @ bytes_of '']: '' @ concat (map piece_text ps)"

lemma log_parts_sends:
  assumes "sends m sent" and "0 \<le> sint (di_pitch di * 1024 - 14)" and "\<forall>p \<in> set ps. piece_ok p"
    and "cursor_ok (length (log_text tick level name ps)) s" and "0 \<le> tick" and "tick < 2 ^ 31" and "terminated name"
    and "0 \<notin> set (bytes_of level)" and "37 \<notin> set (bytes_of level)"
  shows "\<exists>s'. log_parts di m tick color level name (concat (map piece_format ps) @ [0]) (concat (map piece_args ps)) s = Ok s' \<and>
    sent (co_dev s') = sent (co_dev s) @ crlf (log_text tick level name ps)"
proof -
  let ?p1 = "[Literal (bytes_of ''[''), Signed (word_of_int tick), Literal (bytes_of '']'')]"
  let ?p2 = "[Literal (bytes_of ''[''), String name, Literal (bytes_of ''][''), Literal (bytes_of level), Literal (bytes_of '']: '')]"
  have w: "sint (word_of_int tick :: u32) = tick" "unat (word_of_int tick :: u32) = nat tick"
    using assms(5,6) by (simp_all add: sint_sbintrunc' signed_take_bit_int_eq_self unat_eq_nat_uint take_bit_int_eq_self unsigned_of_int)
  have ok: "\<forall>p \<in> set ?p1. piece_ok p" "\<forall>p \<in> set ?p2. piece_ok p" using assms(5,7,8,9) by (simp_all add: w)
  have t1: "concat (map piece_text ?p1) = bytes_of ''['' @ numeral_of 10 (nat tick) @ bytes_of '']''" using assms(5) by (simp add: w)
  have t2: "concat (map piece_text ?p2) = bytes_of ''['' @ c_str name @ bytes_of '']['' @ bytes_of level @ bytes_of '']: ''" by simp
  have all: "log_text tick level name ps = concat (map piece_text ?p1) @ concat (map piece_text ?p2) @ concat (map piece_text ps)"
    unfolding t1 t2 log_text_def by simp
  let ?n2 = "length (concat (map piece_text ?p2)) + (length (concat (map piece_text ps)) + 0)"
  have "cursor_ok (length (concat (map piece_text ?p1)) + ?n2) (s\<lparr>co_fg := LOGURU_GREEN\<rparr>)"
    using assms(4) by (simp only: all length_append cursor_ok_color add_0_right add.assoc)
  from screen_printf_sends [OF assms(1,2) ok(1) this] obtain s1 where
    s1: "screen_printf di m (bytes_of ''[%d]'' @ [0]) [VInt (word_of_int tick)] (s\<lparr>co_fg := LOGURU_GREEN\<rparr>) = Ok s1"
      "cursor_ok ?n2 (s1\<lparr>co_fg := color\<rparr>)" "sent (co_dev s1) = sent (co_dev s) @ crlf (concat (map piece_text ?p1))" by auto
  from screen_printf_sends [OF assms(1,2) ok(2) s1(2)] obtain s2 where
    s2: "screen_printf di m (bytes_of ''[%s]['' @ bytes_of level @ bytes_of '']: '' @ [0]) [VStr name] (s1\<lparr>co_fg := color\<rparr>) = Ok s2"
      "cursor_ok (length (concat (map piece_text ps)) + 0) s2"
      "sent (co_dev s2) = sent (co_dev s1) @ crlf (concat (map piece_text ?p2))" by auto
  from screen_printf_sends [OF assms(1-3) s2(2)] s1 s2 show ?thesis
    by (auto simp: log_parts_def all crlf_def)
qed

definition loggers :: "((display \<Rightarrow> 'd machine \<Rightarrow> int \<Rightarrow> logger \<Rightarrow> u8 list \<Rightarrow> va_arg list \<Rightarrow> 'd console \<Rightarrow> (logger \<times> 'd console) outcome) \<times> string) list" where
  "loggers = [(logger_info, ''INFO''), (logger_warning, ''WARNING''), (logger_error, ''ERROR''), (logger_debug, ''DEBUG'')]"

text \<open>
  A line of the log: with a free lock and room for the cursor, \<open>info\<close>, \<open>warning\<close>, \<open>error\<close> and \<open>debug\<close> send the
  tick, the name, the level and the message over the serial port, in this order and each line feed as carriage return
  and line feed, and leave the lock free.  With a taken lock they never return.
\<close>

theorem log_line_sent:
  assumes "(log_fun, level) \<in> set loggers" and "sends m sent" and "0 \<le> sint (di_pitch di * 1024 - 14)"
    and "\<forall>p \<in> set ps. piece_ok p" and "cursor_ok (length (log_text tick level (lg_name lg) ps)) s"
    and "0 \<le> tick" and "tick < 2 ^ 31" and "terminated (lg_name lg)"
  shows "(\<not> lg_lock lg \<longrightarrow> (\<exists>lg' s'. log_fun di m tick lg (concat (map piece_format ps) @ [0]) (concat (map piece_args ps)) s = Ok (lg', s') \<and>
      \<not> lg_lock lg' \<and> sent (co_dev s') = sent (co_dev s) @ crlf (log_text tick level (lg_name lg) ps))) \<and>
    (lg_lock lg \<longrightarrow> log_fun di m tick lg fmt arg s = Stuck)"
proof -
  have level: "0 \<notin> set (bytes_of level)" "37 \<notin> set (bytes_of level)"
    using assms(1) by (auto simp: loggers_def)
  obtain color restore where f: "log_fun = (\<lambda>di m tick lg fmt arg s. if lg_lock lg then Stuck
      else bnd (log_parts di m tick color level (lg_name lg) fmt arg s) (\<lambda>s. Ok (lg\<lparr>lg_lock := False\<rparr>, restore s)))"
    and r: "\<And>s. co_dev (restore s) = co_dev s"
  proof -
    consider "log_fun = logger_info" "level = ''INFO''"
      | color where "log_fun = logger_coloured color level"
      using assms(1) by (auto simp: loggers_def logger_warning_def logger_error_def logger_debug_def)
    then show thesis
    proof cases
      case 1
      then show ?thesis by (intro that [of LOGURU_WHITE "\<lambda>s. s"]) (auto simp: logger_info_def fun_eq_iff)
    next
      case 2
      then show ?thesis by (intro that [of color "\<lambda>s. s\<lparr>co_fg := LOGURU_WHITE\<rparr>"]) (auto simp: logger_coloured_def fun_eq_iff)
    qed
  qed
  obtain s' where "log_parts di m tick color level (lg_name lg) (concat (map piece_format ps) @ [0]) (concat (map piece_args ps)) s = Ok s'"
    "sent (co_dev s') = sent (co_dev s) @ crlf (log_text tick level (lg_name lg) ps)"
    using log_parts_sends [OF assms(2-8) level] by blast
  then show ?thesis by (simp add: f r)
qed

text \<open>A machine that records what it sends, a font of two glyphs of two lines, and a screen of 4 lines of 16 pixels.\<close>

definition wire :: "u8 list machine" where
  "wire = \<lparr>p_in = (\<lambda>_ _ d. (0, d)), p_out = (\<lambda>_ port v d. if port = 0x3F8 then d @ [ucast v] else d),
     m_load = (\<lambda>_ _ d. (0, d)), m_store = (\<lambda>_ _ _ d. d)\<rparr>"

definition small_display :: display where
  "small_display = \<lparr>di_font = 0x1000, di_font_end = 0x1024, di_fb = 0x20000, di_screen = 0x10000, di_pitch = 64, di_height = 4\<rparr>"

definition small_font :: kernel_mem where
  "small_font = (\<lambda>_. 0)(0x1008 := 32, 0x1010 := 2, 0x1014 := 2, 0x1018 := 2, 0x101C := 8, 0x1022 := 0x81, 0x1023 := 0x7E)"

definition small_console :: "u8 list console" where
  "small_console = \<lparr>co_x = 0, co_y = 0, co_fx = 0, co_fy = 0, co_fg = 0, co_bg = 0, co_unicode = 0, co_serial = True,
     co_mem = small_font, co_dev = []\<rparr>"


lemma log_line_sent_witness:
  "\<exists>lg s. logger_error small_display wire 7 \<lparr>lg_name = bytes_of ''MADT'' @ [0], lg_lock = False\<rparr> (bytes_of ''gone'' @ [10, 0]) [] small_console = Ok (lg, s) \<and>
     co_dev s = bytes_of ''[7][MADT][ERROR]: gone'' @ [13, 10]"
proof -
  let ?lg = "\<lparr>lg_name = bytes_of ''MADT'' @ [0], lg_lock = False\<rparr>" and ?ps = "[Literal (bytes_of ''gone'' @ [10])]"
  have "ucast (ucast (v :: u8) :: u64) = v" for v by (rule bit_word_eqI) (simp add: bit_simps)
  then have s: "sends wire (\<lambda>d. d)" by (simp add: sends_def wire_def outb_def)
  have f: "(logger_error, ''ERROR'') \<in> set loggers" by (simp add: loggers_def)
  have t: "log_text 7 ''ERROR'' (lg_name ?lg) ?ps = bytes_of ''[7][MADT][ERROR]: gone'' @ [10]"
    by (simp add: log_text_def digits_in.simps itoa_char_def)
  have c: "cursor_ok (length (log_text 7 ''ERROR'' (lg_name ?lg) ?ps)) small_console"
    unfolding t by (simp add: cursor_ok_def small_console_def)
  have p: "0 \<le> sint (di_pitch small_display * 1024 - 14)" by (simp add: small_display_def)
  have ok: "\<forall>p \<in> set ?ps. piece_ok p" by simp
  have b: "concat (map piece_format ?ps) @ [0] = bytes_of ''gone'' @ [10, 0]" "concat (map piece_args ?ps) = []"
    "co_dev small_console = []" "crlf (bytes_of ''[7][MADT][ERROR]: gone'' @ [10]) = bytes_of ''[7][MADT][ERROR]: gone'' @ [13, 10]"
    by (simp_all add: small_console_def crlf_def)
  show ?thesis
    using log_line_sent [OF f s p ok c, of "bytes_of ''gone''" "[]"] unfolding t b by auto
qed

end
