(* ===== verification/Spec2Isabelle.thy ===== *)
theory Spec2Isabelle
  imports Prelude Lai_Hash Lai_Text Lai_Heap Lai_Object Lai_Name Lai_Ns Lai_Bits Lai_Opregion Lai_Sync Lai_Stack Lai_Operand Lai_Ops Lai_Opcodes Lai_Convert Lai_Reduce
    Lai_Parse Lai_Interp Lai_Process Lai_View Lai_Program Lai_Steps Lai_Expr Lai_Stmts Lai_Correct Lai_Eval
    Lai_List
    Lai_Owned
    Lai_Resource
    Lai_Ec
    Lai_Power
    Lai_Pci
    Lai_Bios
    Krn_Libc
    Krn_Printf
    Krn_Sched
    Lai_Tables
    Krn_Acpi
    Krn_Machine
    Krn_Cpu
    Krn_Memory
    Krn_Hashmap
    Krn_List
    Krn_Vfs
    Krn_Locks
    Krn_Madt
    Krn_Console
begin

text \<open>
  A model of the ACPI interpreter of the x86os kernel (\<open>lai/\<close>) and of the parts of the kernel
  around it.

  \<^bold>\<open>The program.\<close>  The kernel links \<open>lai\<close>, an interpreter of ACPI machine language.
  \<open>lai_create_root\<close> builds the namespace; the parser runs the tables of the firmware and installs
  the nodes they declare; \<open>lai_eval\<close> runs a control method or evaluates an object.  The interpreter
  keeps four stacks: contexts (whose code runs), blocks (a program counter and a limit), items
  (what is under way: a method, a loop, a condition, an operator that waits for operands) and
  operands.  Values are tagged variables that refer to reference counted strings, buffers and
  packages.  Fields are read and written through the host (\<open>laihost_inb\<close> and so on).

  The kernel (\<open>base/\<close>, \<open>init/\<close>) is that host: \<open>acpi.cpp\<close> finds the tables and performs the accesses.  Around it are
  its allocator, which places blocks in a region of memory and finds them again by a signature; the interrupt and
  segment tables and the 8259 controllers; the scheduler, which the timer interrupt enters; the start of the other
  processors, which uses the tables and the timer of the interpreter; the virtual file system over the C++ lists
  and the hash table; and the console, which the log writes to.

  \<^bold>\<open>Theories.\<close>
  \<^item> \<open>Prelude\<close>: words, outcomes (\<open>Ok\<close>, \<open>Panic\<close>, \<open>Fault\<close>, \<open>Stuck\<close>), checked arrays.
  \<^item> \<open>Lai_Hash\<close>: \<open>lai/core/util-hash.h\<close>, the children of a node.
  \<^item> \<open>Lai_Text\<close>: \<open>vsnprintf.c\<close>, \<open>libc.c\<close>, \<open>eval.c\<close>, \<open>error.c\<close>.
  \<^item> \<open>Lai_Heap\<close>: \<open>variable.c\<close> and the objects of \<open>internal-exec.h\<close>, in an explicit store with
    reference counters.  \<open>Lai_Object\<close>: \<open>object.c\<close>.
  \<^item> \<open>Lai_Name\<close>, \<open>Lai_Ns\<close>: names, nodes and the namespace (\<open>ns.c\<close>, \<open>os_methods.c\<close>).
  \<^item> \<open>Lai_Bits\<close>, \<open>Lai_Opregion\<close>: bit copies, buffer fields, fields of operation regions
    (\<open>exec-operand.c\<close>, \<open>opregion.c\<close>).
  \<^item> \<open>Lai_Sync\<close>: the locks and events of \<open>exec_impl.h\<close>, under interleaving.
  \<^item> \<open>Lai_Stack\<close>, \<open>Lai_Operand\<close>, \<open>Lai_Ops\<close>, \<open>Lai_Opcodes\<close>, \<open>Lai_Convert\<close>, \<open>Lai_Reduce\<close>: the
    stacks, operands and operators of \<open>exec_impl.h\<close>, \<open>exec-operand.c\<close>, \<open>exec.c\<close>.
  \<^item> \<open>Lai_Parse\<close>, \<open>Lai_Interp\<close>, \<open>Lai_Process\<close>: \<open>exec.c\<close> from the bytes up: readers, \<open>lai_exec_parse\<close>,
    \<open>lai_exec_process\<close>, \<open>lai_exec_run\<close>, \<open>lai_eval\<close>.
  \<^item> \<open>Lai_View\<close>, \<open>Lai_Program\<close>, \<open>Lai_Steps\<close>, \<open>Lai_Expr\<close>, \<open>Lai_Stmts\<close>, \<open>Lai_Correct\<close>, \<open>Lai_Eval\<close>: a
    small language with a big-step meaning and its encoding in AML, and the proof that the
    interpreter computes the meaning.
  \<^item> \<open>Lai_List\<close>: the linked lists of \<open>util-list.h\<close>, for which a locale states what their clients rely on.  \<open>Lai_Owned\<close>: the
    loop that removes the nodes of a method.
  \<^item> \<open>Lai_Owned\<close>: the link between those lists and the invocation records of the interpreter.
  \<^item> \<open>Lai_Resource\<close>: resource templates (\<open>helpers/resource.c\<close>).
  \<^item> \<open>Lai_Ec\<close>: the embedded controller (\<open>drivers/ec.c\<close>), with the contract of the hardware as a locale.
  \<^item> \<open>Lai_Power\<close>: ACPI mode, sleep states, reset and the PM timer (\<open>sci.c\<close>, \<open>pm.c\<close>, \<open>timer.c\<close>).
  \<^item> \<open>Lai_Pci\<close>: interrupt routing and the search for PCI nodes (\<open>pci.c\<close>).
  \<^item> \<open>Lai_Bios\<close>: the search for the root pointer (\<open>pc-bios.c\<close>).
  \<^item> \<open>Krn_Libc\<close>: the string, memory and number functions of the kernel (\<open>base/libc\<close>).
  \<^item> \<open>Krn_Printf\<close>: its formatter (\<open>base/libc/printf.cpp\<close>).
  \<^item> \<open>Krn_Sched\<close>: the scheduler (\<open>base/core/scheduler.cpp\<close>).
  \<^item> \<open>Lai_Tables\<close>: the layout of the tables of the firmware and \<open>lai_create_namespace\<close> (\<open>ns.c\<close>).
  \<^item> \<open>Krn_Acpi\<close>: the kernel as the host of the interpreter (\<open>base/other/acpi.cpp\<close>), joined to \<open>lai_create_namespace\<close>.
  \<^item> \<open>Krn_Machine\<close>: the ports and the memory the kernel sees (\<open>base/include/io.h\<close>).
  \<^item> \<open>Krn_Cpu\<close>: descriptor tables, the interrupt controllers, system calls and paging (\<open>gdt.cpp\<close>, \<open>idt.cpp\<close>,
    \<open>syscall.cpp\<close>, \<open>paging.cpp\<close>).
  \<^item> \<open>Krn_Memory\<close>: the allocator of the kernel (\<open>base/memory/malloc.cpp\<close>, \<open>cxx_support.cpp\<close>).
  \<^item> \<open>Krn_Hashmap\<close>: the hash table of the kernel (\<open>base/include/hashmap.hpp\<close>).
  \<^item> \<open>Krn_List\<close>: the lists of the kernel (\<open>base/core/list.cpp\<close>).
  \<^item> \<open>Krn_Vfs\<close>: the virtual file system (\<open>base/core/vfs.cpp\<close>, \<open>vfs_drive_mgr.cpp\<close>).
  \<^item> \<open>Krn_Locks\<close>: the locks of the kernel under interleaving: the spin lock (\<open>base/core/spinlock.cpp\<close>) and the flag of
    \<open>logging.cpp\<close> and \<open>madt.cpp\<close>.
  \<^item> \<open>Krn_Madt\<close>: the start of the other processors (\<open>base/other/madt.cpp\<close>).
  \<^item> \<open>Krn_Console\<close>: pixels, glyphs, serial port and log (\<open>base/core/putc.cpp\<close>, \<open>psfdraw.cpp\<close>, \<open>logging.cpp\<close>, \<open>panic.cpp\<close>,
    \<open>init/main.cpp\<close>).

  \<^bold>\<open>State.\<close>  \<open>lai_world\<close> is the heap, the nodes, \<open>struct lai_instance\<close>, the invocations and the
  device state; \<open>lai_state\<close> is the C structure of that name.  A pointer is an index into a list of
  cells, and a freed cell is \<open>None\<close>, so that a dangling access is a \<open>Fault\<close>.  Memory may run out:
  the allocator has a clock and an oracle.  In the kernel theories memory is a map from 32-bit addresses to bytes, and
  devices are records of port and memory functions with their documented behaviour as hypotheses.

  \<^bold>\<open>Widths.\<close>  Integers have the width of the source.  The theories \<open>Lai_*\<close> take \<open>uint64_t\<close> as 64 bits, which \<open>lai\<close> is
  written for; the kernel's own \<open>base/include/stdint.h\<close> makes it 32 bits wide, as the theories \<open>Krn_*\<close> do, and where the
  layout of a shared structure depends on it (\<open>fadt_of\<close>) the size is a parameter.

  \<^bold>\<open>Fuel.\<close>  Where the source recurses through the heap or loops without a bound the model has fuel
  and is \<open>Stuck\<close> when it is used up.  \<open>var_finalize_fuel\<close>, \<open>field_fuel\<close> and the rounds of the
  decimal printer are computed from the state and shown to be enough; the fuel of \<open>lai_exec_run\<close>
  is a parameter, and \<open>eval_program\<close> shows that some fuel, and all greater, gives the result.

  \<^bold>\<open>What is shown.\<close>  The operations of the heap keep every reference counter exact; the hash table
  and the namespace are maps; names, integers, field values and package lengths survive their
  encodings; the locks of the interpreter refine an abstract lock; the interpreter is correct for programs on
  integers.  The helpers above the interpreter find the first root pointer, the first matching route, and every
  descriptor of a template; the driver of the embedded controller reads back what it wrote.

  Of the kernel: numbers and formats print as they should; the tasks take turns and keep their registers; the kernel
  hands all its tables to the interpreter; the allocator keeps its blocks; the hash table is a map; the
  interrupts arrive where their routines are; a glyph is drawn pixel by pixel and a line of the log is sent.

  The theorems about errors show behaviour of the code that its callers cannot expect: overruns,
  leaks, dangling references, waits that do not end, kills that are lost, a page directory that maps nothing, lists that
  never link, paths that all name the root, processors addressed by their place, a spin lock that gives up.

  \<^bold>\<open>Not modelled.\<close>  The order of the set-up calls (\<open>init_main\<close>, \<open>krnl.cpp\<close>); assembly (entry of interrupts, loading of
  tables, the trampoline); what is only printed while tracing; \<open>tmpfs.cpp\<close>, which does not compile; vendored headers.
\<close>

end
